(* ===== verification/Prelude.thy ===== *)
theory Prelude
  imports
    Main
    "HOL-Library.Word"
    "HOL-Library.Char_ord"
    "HOL-Library.List_Lexorder"
begin

text \<open>
  Shared vocabulary of the development: the errors a C++ operation can end in, the
  result type, machine-integer types, \<open>std::map\<close> as an ordered association list behind
  the interface \<open>ordered_map\<close>, and invariants of step relations behind the interface
  \<open>invariant_system\<close>. Every other theory imports this one.
\<close>

named_theorems result_simps \<open>unfolding of the result monad\<close>
named_theorems model_defs \<open>plain definitions that component proofs unfold\<close>

section \<open>Errors and results\<close>

text \<open>
  One constructor per exception class the code throws; \<open>Exit n\<close> is a call of \<open>exit(n)\<close> and
  \<open>UndefinedBehaviour\<close> marks an access the C++ standard leaves undefined.
\<close>

datatype cpp_error =
    RuntimeError string
  | InvalidArgument string
  | LogicError string
  | OutOfRange string
  | QueueException string
  | Exit int
  | UndefinedBehaviour string

type_synonym 'a result = "cpp_error + 'a"

definition bindR :: "'a result \<Rightarrow> ('a \<Rightarrow> 'b result) \<Rightarrow> 'b result" where
  "bindR m f = (case m of Inl e \<Rightarrow> Inl e | Inr x \<Rightarrow> f x)"

lemma bindR_simps [simp, result_simps]:
  "bindR (Inl e) f = Inl e"
  "bindR (Inr x) f = f x"
  by (simp_all add: bindR_def)

lemma bindR_Inr_iff [result_simps]:
  "bindR m f = Inr y \<longleftrightarrow> (\<exists>x. m = Inr x \<and> f x = Inr y)"
  by (cases m) simp_all

lemma bindR_Inl_iff [result_simps]:
  "bindR m f = Inl e \<longleftrightarrow> m = Inl e \<or> (\<exists>x. m = Inr x \<and> f x = Inl e)"
  by (cases m) simp_all

lemma bindR_cong [fundef_cong]:
  "m = m' \<Longrightarrow> (\<And>x. m' = Inr x \<Longrightarrow> f x = f' x) \<Longrightarrow> bindR m f = bindR m' f'"
  by (cases m') simp_all

text \<open>A loop over a container whose body may throw.\<close>

fun foldR :: "('a \<Rightarrow> 's \<Rightarrow> 's result) \<Rightarrow> 'a list \<Rightarrow> 's \<Rightarrow> 's result" where
  "foldR f [] s = Inr s"
| "foldR f (x # xs) s = bindR (f x s) (foldR f xs)"

lemma foldR_append: "foldR f (xs @ ys) s = bindR (foldR f xs s) (foldR f ys)"
  by (induction xs arbitrary: s) (auto simp: bindR_def split: sum.splits)

lemma foldR_cong [fundef_cong]:
  "xs = ys \<Longrightarrow> s = t \<Longrightarrow> (\<And>x u. x \<in> set ys \<Longrightarrow> f x u = g x u) \<Longrightarrow> foldR f xs s = foldR g ys t"
proof (induction xs arbitrary: ys s t)
  case Nil
  then show ?case by auto
next
  case (Cons x xs)
  have "foldR f xs u = foldR g xs u" for u
    using Cons.prems by (intro Cons.IH) auto
  with Cons.prems show ?case by (auto simp: bindR_def split: sum.splits)
qed

text \<open>A search loop that returns at the first hit and whose test may throw.\<close>

fun anyR :: "('a \<Rightarrow> bool result) \<Rightarrow> 'a list \<Rightarrow> bool result" where
  "anyR f [] = Inr False"
| "anyR f (x # xs) = bindR (f x) (\<lambda>b. if b then Inr True else anyR f xs)"

lemma anyR_cong [fundef_cong]:
  "xs = ys \<Longrightarrow> (\<And>x. x \<in> set ys \<Longrightarrow> f x = g x) \<Longrightarrow> anyR f xs = anyR g ys"
proof (induction xs arbitrary: ys)
  case Nil
  then show ?case by auto
next
  case (Cons x xs)
  then have "anyR f xs = anyR g xs" by (intro Cons.IH) auto
  with Cons.prems show ?case by (auto simp: bindR_def split: sum.splits)
qed

lemma anyR_total:
  assumes "\<And>x. x \<in> set xs \<Longrightarrow> f x = Inr (P x)"
  shows "anyR f xs = Inr (\<exists>x \<in> set xs. P x)"
  using assms by (induction xs) auto

lemma foldR_invariant:
  assumes "foldR f xs s = Inr t" and "P s"
    and "\<And>x u v. x \<in> set xs \<Longrightarrow> P u \<Longrightarrow> f x u = Inr v \<Longrightarrow> P v"
  shows "P t"
  using assms
proof (induction xs arbitrary: s)
  case Nil
  then show ?case by simp
next
  case (Cons x xs)
  from Cons.prems(1) obtain u where u: "f x s = Inr u" and r: "foldR f xs u = Inr t"
    by (auto simp: bindR_Inr_iff)
  have "P u" using Cons.prems(2,3) u by auto
  with r Cons.prems(3) show ?case by (auto intro: Cons.IH)
qed

section \<open>Machine integers\<close>

type_synonym u8 = "8 word"
type_synonym u32 = "32 word"
type_synonym u64 = "64 word"
type_synonym i32 = "32 word"
type_synonym bytes = "u8 list"

section \<open>Ordered maps\<close>

text \<open>
  What the code relies on of \<open>std::map\<close>: insertion overwrites, erasing removes, iteration
  runs over the entries in ascending key order. The clients (the asset manager, message
  groups) are proved against this interface.
\<close>

locale ordered_map =
  fixes empty :: "'m"
    and update :: "'k::linorder \<Rightarrow> 'v \<Rightarrow> 'm \<Rightarrow> 'm"
    and erase :: "'k \<Rightarrow> 'm \<Rightarrow> 'm"
    and entries :: "'m \<Rightarrow> ('k \<times> 'v) list"
    and invar :: "'m \<Rightarrow> bool"
  assumes invar_empty: "invar empty"
    and invar_update: "invar m \<Longrightarrow> invar (update k v m)"
    and invar_erase: "invar m \<Longrightarrow> invar (erase k m)"
    and ordered: "invar m \<Longrightarrow> sorted_wrt (<) (map fst (entries m))"
    and entries_empty: "entries empty = []"
    and lookup_update: "invar m \<Longrightarrow> map_of (entries (update k v m)) = (map_of (entries m))(k \<mapsto> v)"
    and lookup_erase: "invar m \<Longrightarrow> map_of (entries (erase k m)) = (map_of (entries m))(k := None)"
begin

definition lookup :: "'m \<Rightarrow> 'k \<Rightarrow> 'v option" where
  "lookup m = map_of (entries m)"

lemma lookup_simps:
  "lookup empty = Map.empty"
  "invar m \<Longrightarrow> lookup (update k v m) = (lookup m)(k \<mapsto> v)"
  "invar m \<Longrightarrow> lookup (erase k m) = (lookup m)(k := None)"
  by (simp_all add: lookup_def entries_empty lookup_update lookup_erase)

lemma distinct_keys: "invar m \<Longrightarrow> distinct (map fst (entries m))"
  using ordered strict_sorted_iff by blast

lemma entry_iff_lookup: "invar m \<Longrightarrow> (k, v) \<in> set (entries m) \<longleftrightarrow> lookup m k = Some v"
  by (simp add: lookup_def distinct_keys)

lemma length_entries: "invar m \<Longrightarrow> length (entries m) = card (dom (lookup m))"
  using distinct_card [OF distinct_keys] by (simp add: lookup_def dom_map_of_conv_image_fst)

lemma overwrite: "invar m \<Longrightarrow> lookup (update k v (update k w m)) = lookup (update k v m)"
  by (simp add: lookup_simps invar_update)

end

fun smap_upd :: "'k::linorder \<Rightarrow> 'v \<Rightarrow> ('k \<times> 'v) list \<Rightarrow> ('k \<times> 'v) list" where
  "smap_upd k v [] = [(k, v)]"
| "smap_upd k v ((k', v') # m) =
     (if k < k' then (k, v) # (k', v') # m
      else if k = k' then (k, v) # m
      else (k', v') # smap_upd k v m)"

definition smap_del :: "'k \<Rightarrow> ('k \<times> 'v) list \<Rightarrow> ('k \<times> 'v) list" where
  "smap_del k m = filter (\<lambda>p. fst p \<noteq> k) m"

definition smap_ok :: "('k::linorder \<times> 'v) list \<Rightarrow> bool" where
  "smap_ok m = sorted_wrt (<) (map fst m)"

lemma set_keys_smap_upd: "fst ` set (smap_upd k v m) = insert k (fst ` set m)"
  by (induction k v m rule: smap_upd.induct) auto

lemma smap_ok_upd: "smap_ok m \<Longrightarrow> smap_ok (smap_upd k v m)"
proof (induction k v m rule: smap_upd.induct)
  case (2 k v k' v' m)
  have "\<forall>x \<in> fst ` set (smap_upd k v m). x = k \<or> x \<in> fst ` set m"
    by (simp add: set_keys_smap_upd)
  with 2 show ?case by (fastforce simp: smap_ok_def)
qed (simp add: smap_ok_def)

lemma map_of_smap_upd: "smap_ok m \<Longrightarrow> map_of (smap_upd k v m) = (map_of m)(k \<mapsto> v)"
  by (induction k v m rule: smap_upd.induct) (auto simp: smap_ok_def fun_eq_iff)

lemma map_of_smap_del: "map_of (smap_del k m) = (map_of m)(k := None)"
  by (induction m) (auto simp: smap_del_def fun_eq_iff)

lemma smap_ok_del: "smap_ok m \<Longrightarrow> smap_ok (smap_del k m)"
  unfolding smap_ok_def smap_del_def by (induction m) auto

interpretation smap: ordered_map "[]" smap_upd smap_del "\<lambda>m. m" smap_ok
  by unfold_locales
    (simp_all add: smap_ok_upd smap_ok_del map_of_smap_upd map_of_smap_del, simp_all add: smap_ok_def)

section \<open>Invariants of step relations\<close>

locale invariant_system =
  fixes init :: "'s \<Rightarrow> bool"
    and step :: "'s \<Rightarrow> 's \<Rightarrow> bool"
    and inv :: "'s \<Rightarrow> bool"
  assumes init_inv: "init s \<Longrightarrow> inv s"
    and step_inv: "step s t \<Longrightarrow> inv s \<Longrightarrow> inv t"
begin

lemma steps_inv: "step\<^sup>*\<^sup>* s t \<Longrightarrow> inv s \<Longrightarrow> inv t"
  by (induction rule: rtranclp_induct) (auto intro: step_inv)

lemma reachable_inv: "init s \<Longrightarrow> step\<^sup>*\<^sup>* s t \<Longrightarrow> inv t"
  using init_inv steps_inv by blast

end

section \<open>Lists\<close>

text \<open>The last \<open>n\<close> elements: what a bounded container keeps of its history.\<close>

definition last_n :: "nat \<Rightarrow> 'a list \<Rightarrow> 'a list" where
  "last_n n xs = drop (length xs - n) xs"

lemma length_last_n [simp]: "length (last_n n xs) = min n (length xs)"
  by (simp add: last_n_def)

lemma last_n_all [simp]: "length xs \<le> n \<Longrightarrow> last_n n xs = xs"
  by (simp add: last_n_def)

lemma last_n_snoc: "last_n (Suc n) (xs @ [x]) = last_n n xs @ [x]"
  by (cases "length xs \<le> n") (simp_all add: last_n_def Suc_diff_le)

lemma last_n_last_n_snoc: "last_n n (last_n n xs @ [x]) = last_n n (xs @ [x])"
proof (cases "length xs \<le> n")
  case False
  then have "last_n n xs @ [x] = drop (length xs - n) (xs @ [x])"
    by (simp add: last_n_def)
  with False show ?thesis by (simp add: last_n_def Suc_diff_le)
qed simp

lemma last_n_last_n_append: "last_n n (last_n n xs @ ys) = last_n n (xs @ ys)"
  by (cases "length xs \<le> n") (simp_all add: last_n_def add.commute)

section \<open>Decimal text\<close>

text \<open>What \<open>fmt::format\<close> and \<open>std::to_string\<close> print for an integer.\<close>

definition digit :: "nat \<Rightarrow> char" where
  "digit d = char_of (48 + d)"

fun dec_nat :: "nat \<Rightarrow> string" where
  "dec_nat n = (if n < 10 then [digit n] else dec_nat (n div 10) @ [digit (n mod 10)])"

declare dec_nat.simps [simp del]

definition dec_int :: "int \<Rightarrow> string" where
  "dec_int i = (if i < 0 then ''-'' @ dec_nat (nat (- i)) else dec_nat (nat i))"

definition undec :: "string \<Rightarrow> nat" where
  "undec = foldl (\<lambda>a c. a * 10 + (of_char c - 48)) 0"

lemma of_char_digit: "d < 10 \<Longrightarrow> (of_char (digit d) :: nat) = 48 + d"
  by (simp add: digit_def)

lemma undec_dec_nat [simp]: "undec (dec_nat n) = n"
proof (induction n rule: dec_nat.induct)
  case (1 n)
  show ?case
  proof (cases "n < 10")
    case True
    then show ?thesis by (simp add: dec_nat.simps [of n] undec_def of_char_digit)
  next
    case False
    then have "undec (dec_nat n) = undec (dec_nat (n div 10)) * 10 + n mod 10"
      by (subst dec_nat.simps) (simp add: undec_def of_char_digit)
    with 1 False show ?thesis by simp
  qed
qed

lemma dec_nat_digits: "c \<in> set (dec_nat n) \<Longrightarrow> 48 \<le> (of_char c :: nat) \<and> (of_char c :: nat) \<le> 57"
proof (induction n rule: dec_nat.induct)
  case (1 n)
  show ?case
  proof (cases "n < 10")
    case True
    with 1(2) show ?thesis by (simp add: dec_nat.simps [of n] of_char_digit)
  next
    case False
    then have "dec_nat n = dec_nat (n div 10) @ [digit (n mod 10)]" by (subst dec_nat.simps) simp
    with 1(2) have "c \<in> set (dec_nat (n div 10)) \<or> c = digit (n mod 10)" by auto
    with 1(1) False show ?thesis using of_char_digit [of "n mod 10"] by auto
  qed
qed

lemma dec_nat_inj [simp]: "dec_nat m = dec_nat n \<longleftrightarrow> m = n"
  by (metis undec_dec_nat)

lemma dec_int_chars: "c \<in> set (dec_int i) \<Longrightarrow> c = CHR ''-'' \<or> 48 \<le> (of_char c :: nat) \<and> (of_char c :: nat) \<le> 57"
  using dec_nat_digits by (auto simp: dec_int_def split: if_splits)

lemma dec_nat_no_minus: "CHR ''-'' \<notin> set (dec_nat n)"
  using dec_nat_digits [of "CHR ''-''" n] by auto

lemma dec_int_inj [simp]: "dec_int i = dec_int j \<longleftrightarrow> i = j"
proof
  have minus: "dec_nat n \<noteq> CHR ''-'' # xs" for n xs
    using dec_nat_no_minus [of n] by (metis list.set_intros(1))
  then have minus': "CHR ''-'' # xs \<noteq> dec_nat n" for n xs by metis
  show "dec_int i = dec_int j \<Longrightarrow> i = j"
    using minus minus' by (auto simp: dec_int_def split: if_splits)
qed simp

text \<open>A separator that does not occur in the first parts splits a string in one way.\<close>

lemma append_sep_eq:
  "c \<notin> set a \<Longrightarrow> c \<notin> set b \<Longrightarrow> a @ c # x = b @ c # y \<longleftrightarrow> a = b \<and> x = y"
proof (induction a arbitrary: b)
  case Nil
  then show ?case by (cases b) auto
next
  case (Cons z a)
  then show ?case by (cases b) auto
qed

end
