(* ===== verification/Datatypes.thy ===== *)
theory Datatypes
  imports Prelude
begin

text \<open>
  The message datatypes and their inheritance (src/pipeline/datatype/DatatypeEnum.cpp) and the
  datatype check two ports must pass before they are linked (\<open>isDatatypeMatch\<close> of
  src/pipeline/Node.cpp). The hierarchy is the code's table, entry by entry;
  \<open>isDatatypeSubclassOf\<close> walks it as the code does, with the exception for a datatype that
  has no entry. The interface \<open>class_hierarchy\<close> says what such a walk computes.
\<close>

section \<open>The enumeration and its hierarchy\<close>

datatype DatatypeEnum =
    ADatatype | Buffer | ImgFrame | EncodedFrame | SegmentationMask | GateControl | NNData |
    ImageManipConfig | CameraControl | ImgDetections | SpatialImgDetections |
    SystemInformation | SystemInformationRVC4 | SpatialLocationCalculatorConfig |
    SpatialLocationCalculatorData | EdgeDetectorConfig | AprilTagConfig | AprilTags |
    Tracklets | IMUData | StereoDepthConfig | NeuralDepthConfig | GPUStereoConfig |
    FeatureTrackerConfig | ThermalConfig | ToFConfig | TrackedFeatures | BenchmarkReport |
    MessageGroup | MapData | TransformData | PointCloudConfig | PointCloudData | RGBDData |
    ImageAlignConfig | ImgAnnotations | ImageFiltersConfig | ToFDepthConfidenceFilterConfig |
    ObjectTrackerConfig | DynamicCalibrationControl | DynamicCalibrationResult |
    AutoCalibrationConfig | AutoCalibrationResult | CalibrationQuality | CalibrationMetrics |
    CoverageData | SegmentationParserConfig | PipelineEvent | PipelineState |
    PipelineEventAggregationConfig | VppConfig | PacketizedData | Transformable | COUNT

primrec hierarchy :: "DatatypeEnum \<Rightarrow> DatatypeEnum list option" where
  "hierarchy ADatatype = Some
     [Buffer, ImgFrame, EncodedFrame, SegmentationMask, NNData, ImageManipConfig,
      CameraControl, ImgDetections, ImageAlignConfig, SpatialImgDetections, SystemInformation,
      SystemInformationRVC4, SpatialLocationCalculatorConfig, SegmentationParserConfig,
      SpatialLocationCalculatorData, EdgeDetectorConfig, Tracklets, IMUData, StereoDepthConfig,
      NeuralDepthConfig, GPUStereoConfig, FeatureTrackerConfig, ThermalConfig, ToFConfig,
      TrackedFeatures, AprilTagConfig, AprilTags, BenchmarkReport, MessageGroup, PipelineEvent,
      PipelineState, PipelineEventAggregationConfig, PointCloudConfig, PointCloudData,
      RGBDData, TransformData, ImgAnnotations, VppConfig, ImageFiltersConfig,
      ToFDepthConfidenceFilterConfig, MapData, ObjectTrackerConfig, DynamicCalibrationControl,
      DynamicCalibrationResult, AutoCalibrationConfig, AutoCalibrationResult, CoverageData,
      CalibrationMetrics, CalibrationQuality, PacketizedData]"
| "hierarchy Buffer = Some
     [Transformable, ImgFrame, EncodedFrame, SegmentationMask, NNData, ImageManipConfig,
      CameraControl, ImgDetections, ImageAlignConfig, SpatialImgDetections, SystemInformation,
      SystemInformationRVC4, SpatialLocationCalculatorConfig, SegmentationParserConfig,
      SpatialLocationCalculatorData, EdgeDetectorConfig, Tracklets, IMUData, StereoDepthConfig,
      NeuralDepthConfig, GPUStereoConfig, FeatureTrackerConfig, ThermalConfig, ToFConfig,
      TrackedFeatures, AprilTagConfig, AprilTags, BenchmarkReport, MessageGroup, PipelineEvent,
      PipelineState, PipelineEventAggregationConfig, PointCloudConfig, PointCloudData,
      RGBDData, TransformData, ImgAnnotations, ImageFiltersConfig, VppConfig, GateControl,
      ToFDepthConfidenceFilterConfig, MapData, ObjectTrackerConfig, DynamicCalibrationControl,
      DynamicCalibrationResult, AutoCalibrationConfig, AutoCalibrationResult, CoverageData,
      CalibrationMetrics, CalibrationQuality, PacketizedData]"
| "hierarchy Transformable = Some
     [SegmentationMask, ImgDetections, SpatialImgDetections, AprilTags, Tracklets,
      PointCloudData]"
| "hierarchy ImgFrame = Some []"
| "hierarchy EncodedFrame = Some []"
| "hierarchy SegmentationMask = Some []"
| "hierarchy NNData = Some []"
| "hierarchy ImageManipConfig = Some []"
| "hierarchy ImageAlignConfig = Some []"
| "hierarchy CameraControl = Some []"
| "hierarchy ImgDetections = Some
     [SpatialImgDetections]"
| "hierarchy SpatialImgDetections = Some []"
| "hierarchy SystemInformation = Some []"
| "hierarchy SystemInformationRVC4 = Some []"
| "hierarchy SpatialLocationCalculatorConfig = Some []"
| "hierarchy SpatialLocationCalculatorData = Some []"
| "hierarchy SegmentationParserConfig = Some []"
| "hierarchy EdgeDetectorConfig = Some []"
| "hierarchy Tracklets = Some []"
| "hierarchy IMUData = Some []"
| "hierarchy StereoDepthConfig = Some []"
| "hierarchy NeuralDepthConfig = Some []"
| "hierarchy GPUStereoConfig = Some []"
| "hierarchy FeatureTrackerConfig = Some []"
| "hierarchy ThermalConfig = Some []"
| "hierarchy ToFConfig = Some []"
| "hierarchy TrackedFeatures = Some []"
| "hierarchy AprilTagConfig = Some []"
| "hierarchy AprilTags = Some []"
| "hierarchy BenchmarkReport = Some []"
| "hierarchy MessageGroup = Some []"
| "hierarchy PipelineEvent = Some []"
| "hierarchy PipelineState = Some []"
| "hierarchy PipelineEventAggregationConfig = Some []"
| "hierarchy PointCloudConfig = Some []"
| "hierarchy PointCloudData = Some []"
| "hierarchy RGBDData = Some []"
| "hierarchy TransformData = Some []"
| "hierarchy ImgAnnotations = Some []"
| "hierarchy VppConfig = Some []"
| "hierarchy GateControl = Some []"
| "hierarchy ImageFiltersConfig = Some []"
| "hierarchy ToFDepthConfidenceFilterConfig = Some []"
| "hierarchy MapData = Some []"
| "hierarchy ObjectTrackerConfig = Some []"
| "hierarchy DynamicCalibrationControl = Some []"
| "hierarchy DynamicCalibrationResult = Some []"
| "hierarchy CalibrationMetrics = Some []"
| "hierarchy AutoCalibrationConfig = Some []"
| "hierarchy AutoCalibrationResult = Some []"
| "hierarchy CoverageData = Some []"
| "hierarchy CalibrationQuality = Some []"
| "hierarchy PacketizedData = Some []"
| "hierarchy COUNT = None"

definition class_rank :: "DatatypeEnum \<Rightarrow> nat" where
  "class_rank d =
     (if d = ADatatype then 4 else if d = Buffer then 3 else if d = Transformable then 2
      else if d = ImgDetections then 1 else 0)"

lemma hierarchy_rank: "hierarchy p = Some ds \<Longrightarrow> d \<in> set ds \<Longrightarrow> class_rank d < class_rank p"
  by (cases p) (auto simp: class_rank_def)

lemma hierarchy_None_iff: "hierarchy p = None \<longleftrightarrow> p = COUNT"
  by (cases p) simp_all

lemma hierarchy_no_COUNT: "hierarchy p = Some ds \<Longrightarrow> COUNT \<notin> set ds"
  by (cases p) auto

section \<open>Subclass test\<close>

function isDatatypeSubclassOf :: "DatatypeEnum \<Rightarrow> DatatypeEnum \<Rightarrow> bool result" where
  "isDatatypeSubclassOf parent children =
     (case hierarchy parent of
        None \<Rightarrow> Inl (InvalidArgument ''Parent datatype not found in hierarchy'')
      | Some ds \<Rightarrow>
          anyR (\<lambda>d. if d = children then Inr True else isDatatypeSubclassOf d children) ds)"
  by pat_completeness auto
termination
  by (relation "measure (\<lambda>(p, c). class_rank p)") (auto intro: hierarchy_rank)

declare isDatatypeSubclassOf.simps [simp del]

definition child_of :: "DatatypeEnum \<Rightarrow> DatatypeEnum \<Rightarrow> bool" where
  "child_of p d = (\<exists>ds. hierarchy p = Some ds \<and> d \<in> set ds)"

text \<open>
  Any acyclic class table: a recursive test that looks for the class among the direct children
  and then below each of them decides the transitive closure of the table, a strict order.
\<close>

locale class_hierarchy =
  fixes child :: "'c \<Rightarrow> 'c \<Rightarrow> bool"
    and rank :: "'c \<Rightarrow> nat"
    and sub :: "'c \<Rightarrow> 'c \<Rightarrow> bool"
  assumes rank_child: "child p d \<Longrightarrow> rank d < rank p"
    and sub_iff: "sub p c \<longleftrightarrow> (\<exists>d. child p d \<and> (d = c \<or> sub d c))"
begin

lemma sub_imp_tranclp: "sub p c \<Longrightarrow> child\<^sup>+\<^sup>+ p c"
proof (induction "rank p" arbitrary: p rule: less_induct)
  case less
  then obtain d where d: "child p d" "d = c \<or> sub d c" by (auto simp: sub_iff [of p])
  then show ?case using less.hyps [of d] rank_child by (auto intro: tranclp_into_tranclp2)
qed

lemma tranclp_imp_sub: "child\<^sup>+\<^sup>+ p c \<Longrightarrow> sub p c"
proof (induction rule: tranclp_induct)
  case (base d)
  then show ?case by (subst sub_iff) auto
next
  case (step d e)
  have "sub q d \<Longrightarrow> sub q e" for q
  proof (induction "rank q" arbitrary: q rule: less_induct)
    case less
    then obtain r where r: "child q r" "r = d \<or> sub r d" by (auto simp: sub_iff [of q])
    have "sub r e"
      using r less.hyps [of r] rank_child step(2) by (auto simp: sub_iff [of d])
    with r show ?case by (subst sub_iff) auto
  qed
  with step show ?case by blast
qed

lemma sub_tranclp: "sub p c \<longleftrightarrow> child\<^sup>+\<^sup>+ p c"
  using sub_imp_tranclp tranclp_imp_sub by blast

lemma sub_rank: "sub p c \<Longrightarrow> rank c < rank p"
  unfolding sub_tranclp by (induction rule: tranclp_induct) (auto dest: rank_child)

lemma sub_irrefl: "\<not> sub p p"
  using sub_rank by blast

lemma sub_trans: "sub p q \<Longrightarrow> sub q r \<Longrightarrow> sub p r"
  unfolding sub_tranclp by (rule tranclp_trans)

lemma sub_asym: "sub p q \<Longrightarrow> \<not> sub q p"
  using sub_irrefl sub_trans by blast

end

lemma isDatatypeSubclassOf_known:
  "p \<noteq> COUNT \<Longrightarrow> \<exists>b. isDatatypeSubclassOf p c = Inr b"
proof (induction p c rule: isDatatypeSubclassOf.induct)
  case (1 p c)
  then obtain ds where ds: "hierarchy p = Some ds" by (cases "hierarchy p") (auto simp: hierarchy_None_iff)
  have "\<exists>b. (if d = c then Inr True else isDatatypeSubclassOf d c) = Inr b"
    if "d \<in> set ds" for d
    using "1.IH" [OF ds that] that hierarchy_no_COUNT [OF ds] by auto
  then obtain P where P:
    "\<And>d. d \<in> set ds \<Longrightarrow> (if d = c then Inr True else isDatatypeSubclassOf d c) = Inr (P d)"
    by metis
  have "anyR (\<lambda>d. if d = c then Inr True else isDatatypeSubclassOf d c) ds = Inr (\<exists>d \<in> set ds. P d)"
    by (rule anyR_total) (rule P)
  then show ?case by (simp add: isDatatypeSubclassOf.simps [of p] ds)
qed

lemma isDatatypeSubclassOf_iff:
  "isDatatypeSubclassOf p c = Inr True \<longleftrightarrow>
     (\<exists>d. child_of p d \<and> (d = c \<or> isDatatypeSubclassOf d c = Inr True))"
proof (cases "hierarchy p")
  case None
  then show ?thesis by (simp add: isDatatypeSubclassOf.simps [of p] child_of_def)
next
  case (Some ds)
  define f where "f d = (if d = c then Inr True else isDatatypeSubclassOf d c)" for d
  have "f d = Inr (f d = Inr True)" if "d \<in> set ds" for d
  proof -
    have "d \<noteq> COUNT" using that hierarchy_no_COUNT [OF Some] by auto
    then obtain b where "isDatatypeSubclassOf d c = Inr b" using isDatatypeSubclassOf_known by blast
    then show ?thesis by (simp add: f_def)
  qed
  then have "anyR f ds = Inr (\<exists>d \<in> set ds. f d = Inr True)" by (rule anyR_total)
  with Some show ?thesis
    by (auto simp: isDatatypeSubclassOf.simps [of p] child_of_def f_def [abs_def])
qed

interpretation dt: class_hierarchy child_of class_rank "\<lambda>p c. isDatatypeSubclassOf p c = Inr True"
proof unfold_locales
  show "class_rank d < class_rank p" if "child_of p d" for p d
    using that by (auto simp: child_of_def hierarchy_rank)
qed (rule isDatatypeSubclassOf_iff)

lemma isDatatypeSubclassOf_eq:
  "p \<noteq> COUNT \<Longrightarrow> isDatatypeSubclassOf p c = Inr (child_of\<^sup>+\<^sup>+ p c)"
  using isDatatypeSubclassOf_known [of p c] dt.sub_tranclp [of p c] by auto

text \<open>
  C8. The subclass test returns, for every datatype of the hierarchy, whether the second
  argument lies below the first in the transitive closure of the table; for the sentinel
  \<open>COUNT\<close> it throws.
\<close>

theorem isDatatypeSubclassOf_correct:
  "isDatatypeSubclassOf p c =
     (if p = COUNT then Inl (InvalidArgument ''Parent datatype not found in hierarchy'')
      else Inr (child_of\<^sup>+\<^sup>+ p c))"
  by (cases "p = COUNT") (simp_all add: isDatatypeSubclassOf_eq isDatatypeSubclassOf.simps [of COUNT])

lemma subclass_child: "child_of p d \<Longrightarrow> isDatatypeSubclassOf p d = Inr True"
  by (subst isDatatypeSubclassOf_iff) blast

lemma subclass_below:
  "child_of p d \<Longrightarrow> isDatatypeSubclassOf d c = Inr True \<Longrightarrow> isDatatypeSubclassOf p c = Inr True"
  by (subst isDatatypeSubclassOf_iff) blast

lemma child_of_simps:
  "child_of Buffer d \<longleftrightarrow> d \<in> set (the (hierarchy Buffer))"
  "child_of ADatatype d \<longleftrightarrow> d \<in> set (the (hierarchy ADatatype))"
  by (simp_all add: child_of_def)

lemma below_Buffer: "d = ADatatype \<or> d = Buffer \<or> d = COUNT \<or> child_of Buffer d"
  by (cases d) (simp_all add: child_of_simps)

lemma Buffer_below_ADatatype: "child_of ADatatype Buffer"
  by (simp add: child_of_simps)

text \<open>
  The hierarchy is a strict order with \<open>ADatatype\<close> on top: no datatype is below itself, the
  test is transitive, every datatype but \<open>ADatatype\<close> lies below \<open>ADatatype\<close> and every datatype
  but \<open>ADatatype\<close> and \<open>Buffer\<close> lies below \<open>Buffer\<close> (also those, such as \<open>GateControl\<close>, that the
  table does not list under \<open>ADatatype\<close> directly).
\<close>

theorem datatype_hierarchy_order:
  "(\<forall>p. isDatatypeSubclassOf p p \<noteq> Inr True) \<and>
   (\<forall>p q r. isDatatypeSubclassOf p r = Inr True \<or> isDatatypeSubclassOf p q \<noteq> Inr True \<or>
      isDatatypeSubclassOf q r \<noteq> Inr True) \<and>
   (\<forall>d. d = ADatatype \<or> d = COUNT \<or> isDatatypeSubclassOf ADatatype d = Inr True) \<and>
   (\<forall>d. d = ADatatype \<or> d = Buffer \<or> d = COUNT \<or> isDatatypeSubclassOf Buffer d = Inr True)"
proof (intro conjI allI)
  show "d = ADatatype \<or> d = Buffer \<or> d = COUNT \<or> isDatatypeSubclassOf Buffer d = Inr True" for d
    using below_Buffer [of d] subclass_child by blast
  then show "d = ADatatype \<or> d = COUNT \<or> isDatatypeSubclassOf ADatatype d = Inr True" for d
    using subclass_child [OF Buffer_below_ADatatype] subclass_below [OF Buffer_below_ADatatype] by blast
qed (use dt.sub_irrefl dt.sub_trans in blast)+

theorem datatype_hierarchy_order_witness:
  "isDatatypeSubclassOf ADatatype SpatialImgDetections = Inr True"
proof -
  have "isDatatypeSubclassOf ADatatype Buffer = Inr True" "isDatatypeSubclassOf Buffer SpatialImgDetections = Inr True"
    by (simp_all add: subclass_child child_of_simps)
  with datatype_hierarchy_order show ?thesis by blast
qed

section \<open>Class instances\<close>

text \<open>The numeric order of the enumeration, as its underlying \<open>int32_t\<close>.\<close>

primrec datatype_code :: "DatatypeEnum \<Rightarrow> int" where
  "datatype_code ADatatype = 0"
| "datatype_code Buffer = 1"
| "datatype_code ImgFrame = 2"
| "datatype_code EncodedFrame = 3"
| "datatype_code SegmentationMask = 4"
| "datatype_code GateControl = 5"
| "datatype_code NNData = 6"
| "datatype_code ImageManipConfig = 7"
| "datatype_code CameraControl = 8"
| "datatype_code ImgDetections = 9"
| "datatype_code SpatialImgDetections = 10"
| "datatype_code SystemInformation = 11"
| "datatype_code SystemInformationRVC4 = 12"
| "datatype_code SpatialLocationCalculatorConfig = 13"
| "datatype_code SpatialLocationCalculatorData = 14"
| "datatype_code EdgeDetectorConfig = 15"
| "datatype_code AprilTagConfig = 16"
| "datatype_code AprilTags = 17"
| "datatype_code Tracklets = 18"
| "datatype_code IMUData = 19"
| "datatype_code StereoDepthConfig = 20"
| "datatype_code NeuralDepthConfig = 21"
| "datatype_code GPUStereoConfig = 22"
| "datatype_code FeatureTrackerConfig = 23"
| "datatype_code ThermalConfig = 24"
| "datatype_code ToFConfig = 25"
| "datatype_code TrackedFeatures = 26"
| "datatype_code BenchmarkReport = 27"
| "datatype_code MessageGroup = 28"
| "datatype_code MapData = 29"
| "datatype_code TransformData = 30"
| "datatype_code PointCloudConfig = 31"
| "datatype_code PointCloudData = 32"
| "datatype_code RGBDData = 33"
| "datatype_code ImageAlignConfig = 34"
| "datatype_code ImgAnnotations = 35"
| "datatype_code ImageFiltersConfig = 36"
| "datatype_code ToFDepthConfidenceFilterConfig = 37"
| "datatype_code ObjectTrackerConfig = 38"
| "datatype_code DynamicCalibrationControl = 39"
| "datatype_code DynamicCalibrationResult = 40"
| "datatype_code AutoCalibrationConfig = 41"
| "datatype_code AutoCalibrationResult = 42"
| "datatype_code CalibrationQuality = 43"
| "datatype_code CalibrationMetrics = 44"
| "datatype_code CoverageData = 45"
| "datatype_code SegmentationParserConfig = 46"
| "datatype_code PipelineEvent = 47"
| "datatype_code PipelineState = 48"
| "datatype_code PipelineEventAggregationConfig = 49"
| "datatype_code VppConfig = 50"
| "datatype_code PacketizedData = 51"
| "datatype_code Transformable = 52"
| "datatype_code COUNT = 53"

definition all_datatypes :: "DatatypeEnum list" where
  "all_datatypes =
    [ADatatype, Buffer, ImgFrame, EncodedFrame, SegmentationMask, GateControl, NNData,
     ImageManipConfig, CameraControl, ImgDetections, SpatialImgDetections, SystemInformation,
     SystemInformationRVC4, SpatialLocationCalculatorConfig, SpatialLocationCalculatorData,
     EdgeDetectorConfig, AprilTagConfig, AprilTags, Tracklets, IMUData, StereoDepthConfig,
     NeuralDepthConfig, GPUStereoConfig, FeatureTrackerConfig, ThermalConfig, ToFConfig,
     TrackedFeatures, BenchmarkReport, MessageGroup, MapData, TransformData, PointCloudConfig,
     PointCloudData, RGBDData, ImageAlignConfig, ImgAnnotations, ImageFiltersConfig,
     ToFDepthConfidenceFilterConfig, ObjectTrackerConfig, DynamicCalibrationControl,
     DynamicCalibrationResult, AutoCalibrationConfig, AutoCalibrationResult,
     CalibrationQuality, CalibrationMetrics, CoverageData, SegmentationParserConfig,
     PipelineEvent, PipelineState, PipelineEventAggregationConfig, VppConfig, PacketizedData,
     Transformable, COUNT]"

lemma length_all_datatypes [simp]: "length all_datatypes = 54"
  by (simp add: all_datatypes_def)

lemma datatype_code_range: "0 \<le> datatype_code d" "datatype_code d < 54"
  by (cases d; simp)+

lemma nth_all_datatypes [simp]: "all_datatypes ! nat (datatype_code d) = d"
  by (cases d) (simp_all add: all_datatypes_def)

lemma datatype_code_inject [simp]: "datatype_code d = datatype_code e \<longleftrightarrow> d = e"
  using nth_all_datatypes [of d] nth_all_datatypes [of e] by metis

text \<open>
  \<open>static_cast<DatatypeEnum>(i)\<close>: \<open>None\<close> stands for a value that is none of the enumerators.
\<close>

definition datatype_of_code :: "int \<Rightarrow> DatatypeEnum option" where
  "datatype_of_code i = (if 0 \<le> i \<and> i < 54 then Some (all_datatypes ! nat i) else None)"

lemma datatype_of_code_code [simp]: "datatype_of_code (datatype_code d) = Some d"
  using datatype_code_range [of d] by (simp add: datatype_of_code_def)

instantiation DatatypeEnum :: linorder
begin

definition less_eq_DatatypeEnum :: "DatatypeEnum \<Rightarrow> DatatypeEnum \<Rightarrow> bool" where
  "less_eq_DatatypeEnum d e \<longleftrightarrow> datatype_code d \<le> datatype_code e"

definition less_DatatypeEnum :: "DatatypeEnum \<Rightarrow> DatatypeEnum \<Rightarrow> bool" where
  "less_DatatypeEnum d e \<longleftrightarrow> datatype_code d < datatype_code e"

instance
  by standard (auto simp: less_eq_DatatypeEnum_def less_DatatypeEnum_def intro: antisym)

end

end
