(* ===== verification/LockingQueue.thy ===== *)
theory LockingQueue
  imports Prelude
begin

text \<open>
  The bounded queue behind every input and output
  (include/depthai/utility/LockingQueue.hpp). The first half is sequential: the state, the
  code of each operation up to the point where it waits on a condition variable (\<open>enter\<close>),
  and the code after the wait (\<open>resume\<close>). The second half is the monitor: threads that wait,
  are woken, time out and notify, as a step relation over one shared queue, with the history
  of what was stored and removed. A notification that the code sends after it has released
  the mutex is a step of its own.
\<close>

section \<open>State and sequential code\<close>

datatype LockingQueueState = SUCCESS | BLOCKED | CANCELLED

record 'a lqueue =
  maxSize :: nat
  blocking :: bool
  queue :: "'a list"
  destructed :: bool

definition LockingQueue_default :: "'a lqueue" where
  "LockingQueue_default = \<lparr>maxSize = 2 ^ 32 - 1, blocking = True, queue = [], destructed = False\<rparr>"

definition LockingQueue_new :: "nat \<Rightarrow> bool \<Rightarrow> 'a lqueue" where
  "LockingQueue_new sz bl = \<lparr>maxSize = sz, blocking = bl, queue = [], destructed = False\<rparr>"

definition lq_setMaxSize :: "nat \<Rightarrow> 'a lqueue \<Rightarrow> 'a lqueue" where
  "lq_setMaxSize sz q = q\<lparr>maxSize := sz\<rparr>"

definition lq_setBlocking :: "bool \<Rightarrow> 'a lqueue \<Rightarrow> 'a lqueue" where
  "lq_setBlocking bl q = q\<lparr>blocking := bl\<rparr>"

definition lq_getSize :: "'a lqueue \<Rightarrow> nat" where
  "lq_getSize q = length (queue q) mod 2 ^ 32"

definition lq_isFull :: "'a lqueue \<Rightarrow> bool" where
  "lq_isFull q = (length (queue q) \<ge> maxSize q)"

definition lq_empty :: "'a lqueue \<Rightarrow> bool" where
  "lq_empty q = (queue q = [])"

definition lq_front :: "'a lqueue \<Rightarrow> 'a option" where
  "lq_front q = (case queue q of [] \<Rightarrow> None | x # _ \<Rightarrow> Some x)"

text \<open>\<open>destruct\<close>; the notifications it sends are part of the monitor below.\<close>

definition lq_destruct :: "'a lqueue \<Rightarrow> 'a lqueue" where
  "lq_destruct q = (if destructed q then q else q\<lparr>destructed := True\<rparr>)"

text \<open>
  What a finished operation leaves behind: the queue, the returned flag, the values handed to
  the caller, the states reported to the callback with the sizes, the values removed without
  being handed out, and the condition variables to notify.
\<close>

record 'a outcome =
  oq :: "'a lqueue"
  oret :: bool
  ovals :: "'a list"
  oevents :: "(LockingQueueState \<times> nat) list"
  odropped :: "'a list"
  onotifyPop :: bool
  onotifyPush :: bool

definition done_with :: "'a lqueue \<Rightarrow> bool \<Rightarrow> 'a outcome" where
  "done_with q r = \<lparr>oq = q, oret = r, ovals = [], oevents = [], odropped = [],
     onotifyPop = False, onotifyPush = False\<rparr>"

text \<open>The calls that may wait, \<open>Timed\<close> for the overloads with a timeout.\<close>

datatype 'a call =
    Push 'a
  | TryWaitAndPush 'a
  | WaitAndPop
  | TryWaitAndPop
  | WaitAndConsumeAll
  | WaitAndConsumeAllTimed
  | WaitEmpty

datatype condvar = SignalPop | SignalPush

fun waits_on :: "'a call \<Rightarrow> condvar" where
  "waits_on (Push x) = SignalPop"
| "waits_on (TryWaitAndPush x) = SignalPop"
| "waits_on WaitEmpty = SignalPop"
| "waits_on WaitAndPop = SignalPush"
| "waits_on TryWaitAndPop = SignalPush"
| "waits_on WaitAndConsumeAll = SignalPush"
| "waits_on WaitAndConsumeAllTimed = SignalPush"

fun timed :: "'a call \<Rightarrow> bool" where
  "timed (TryWaitAndPush x) = True"
| "timed TryWaitAndPop = True"
| "timed WaitAndConsumeAllTimed = True"
| "timed _ = False"

fun wait_pred :: "'a call \<Rightarrow> 'a lqueue \<Rightarrow> bool" where
  "wait_pred (Push x) q = (length (queue q) < maxSize q \<or> destructed q)"
| "wait_pred (TryWaitAndPush x) q = (length (queue q) < maxSize q \<or> destructed q)"
| "wait_pred WaitEmpty q = (queue q = [] \<or> destructed q)"
| "wait_pred WaitAndPop q = (queue q \<noteq> [] \<or> destructed q)"
| "wait_pred TryWaitAndPop q = (queue q \<noteq> [] \<or> destructed q)"
| "wait_pred WaitAndConsumeAll q = (queue q \<noteq> [] \<or> destructed q)"
| "wait_pred WaitAndConsumeAllTimed q = (queue q \<noteq> [] \<or> destructed q)"

text \<open>\<open>while(queue.size() >= maxSize) queue.pop();\<close> (only run with \<open>maxSize > 0\<close>).\<close>

fun pop_while_full :: "nat \<Rightarrow> 'a list \<Rightarrow> 'a list" where
  "pop_while_full m [] = []"
| "pop_while_full m (x # xs) = (if length (x # xs) \<ge> m then pop_while_full m xs else x # xs)"

definition store :: "'a \<Rightarrow> 'a lqueue \<Rightarrow> 'a outcome" where
  "store x q = (done_with (q\<lparr>queue := queue q @ [x]\<rparr>) True)
     \<lparr>oevents := [(SUCCESS, length (queue q) + 1)], onotifyPush := True\<rparr>"

definition take_one :: "'a lqueue \<Rightarrow> 'a outcome" where
  "take_one q = (done_with (q\<lparr>queue := tl (queue q)\<rparr>) True)
     \<lparr>ovals := [hd (queue q)], onotifyPop := True\<rparr>"

definition take_all :: "'a lqueue \<Rightarrow> 'a outcome" where
  "take_all q = (done_with (q\<lparr>queue := []\<rparr>) True)\<lparr>ovals := queue q, onotifyPop := True\<rparr>"

text \<open>
  The code after the wait; the flag is what \<open>wait_for\<close> returned (\<open>wait\<close> returns with a true
  predicate only).
\<close>

fun resume :: "'a call \<Rightarrow> bool \<Rightarrow> 'a lqueue \<Rightarrow> 'a outcome" where
  "resume (Push x) p q = (if destructed q then done_with q False else store x q)"
| "resume (TryWaitAndPush x) p q =
     (if \<not> p then (done_with q False)\<lparr>oevents := [(CANCELLED, length (queue q))]\<rparr>
      else if destructed q then done_with q False
      else store x q)"
| "resume WaitAndPop p q =
     (if queue q = [] then done_with q False
      else if destructed q then done_with q False
      else take_one q)"
| "resume TryWaitAndPop p q =
     (if \<not> p then done_with q False
      else if destructed q then done_with q False
      else take_one q)"
| "resume WaitAndConsumeAll p q =
     (if queue q = [] then done_with q False
      else if destructed q then done_with q False
      else take_all q)"
| "resume WaitAndConsumeAllTimed p q =
     (if \<not> p then done_with q False
      else if destructed q then done_with q False
      else take_all q)"
| "resume WaitEmpty p q = done_with q True"

text \<open>Entering an operation: it either finishes at once or blocks, having reported \<open>BLOCKED\<close>.\<close>

datatype 'a entry = Finished "'a outcome" | Blocks "(LockingQueueState \<times> nat) list"

definition wait_or_resume :: "'a call \<Rightarrow> (LockingQueueState \<times> nat) list \<Rightarrow> 'a lqueue \<Rightarrow> 'a entry" where
  "wait_or_resume c evs q =
     (if wait_pred c q then Finished ((resume c True q)\<lparr>oevents := evs @ oevents (resume c True q)\<rparr>)
      else Blocks evs)"

definition enter_push :: "'a call \<Rightarrow> 'a \<Rightarrow> 'a lqueue \<Rightarrow> 'a entry" where
  "enter_push c x q =
     (if maxSize q = 0 then
        Finished ((done_with (q\<lparr>queue := []\<rparr>) True)\<lparr>odropped := queue q\<rparr>)
      else if \<not> blocking q then
        (let kept = pop_while_full (maxSize q) (queue q) in
         Finished ((store x (q\<lparr>queue := kept\<rparr>))
           \<lparr>odropped := take (length (queue q) - length kept) (queue q)\<rparr>))
      else
        wait_or_resume c
          (if length (queue q) \<ge> maxSize q then [(BLOCKED, length (queue q))] else []) q)"

fun enter :: "'a call \<Rightarrow> 'a lqueue \<Rightarrow> 'a entry" where
  "enter (Push x) q = enter_push (Push x) x q"
| "enter (TryWaitAndPush x) q = enter_push (TryWaitAndPush x) x q"
| "enter c q = wait_or_resume c [] q"

text \<open>The operations that never wait.\<close>

definition tryPop :: "'a lqueue \<Rightarrow> 'a outcome" where
  "tryPop q = (if queue q = [] then done_with q False else take_one q)"

definition consumeAll :: "'a lqueue \<Rightarrow> 'a outcome" where
  "consumeAll q = (if queue q = [] then done_with q False else take_all q)"

lemmas outcome_defs = done_with_def store_def take_one_def take_all_def

section \<open>Sequential behaviour\<close>

lemma pop_while_full_last_n: "0 < m \<Longrightarrow> pop_while_full m xs = last_n (m - 1) xs"
  by (induction m xs rule: pop_while_full.induct) (auto simp: last_n_def Suc_diff_le)

lemma length_pop_while_full: "0 < m \<Longrightarrow> length (pop_while_full m xs) < m"
  by (simp add: pop_while_full_last_n)

lemma pop_while_full_split:
  "0 < m \<Longrightarrow> take (length xs - length (pop_while_full m xs)) xs @ pop_while_full m xs = xs"
  by (simp add: pop_while_full_last_n last_n_def)

lemma last_n_snoc_pop:
  "0 < m \<Longrightarrow> last_n (m - Suc 0) xs @ [x] = last_n m (xs @ [x])"
  by (cases m) (simp_all add: last_n_snoc)

text \<open>
  A push that does not have to wait: with \<open>maxSize\<close> zero the queue is emptied and the value
  discarded, though the call reports success; a non-blocking queue keeps exactly the newest
  \<open>maxSize\<close> elements of its content with the value appended; a blocking queue with room appends
  the value, unless it was destroyed.
\<close>

theorem push_at_once:
  "enter (Push x) q =
     (if maxSize q = 0 then
        Finished ((done_with (q\<lparr>queue := []\<rparr>) True)\<lparr>odropped := queue q\<rparr>)
      else if \<not> blocking q then
        Finished (done_with (q\<lparr>queue := last_n (maxSize q) (queue q @ [x])\<rparr>) True
          \<lparr>oevents := [(SUCCESS, min (maxSize q) (length (queue q) + 1))],
           odropped := take (length (queue q) + 1 - maxSize q) (queue q), onotifyPush := True\<rparr>)
      else if length (queue q) < maxSize q then
        Finished (if destructed q then done_with q False
                  else done_with (q\<lparr>queue := queue q @ [x]\<rparr>) True
                    \<lparr>oevents := [(SUCCESS, length (queue q) + 1)], onotifyPush := True\<rparr>)
      else if destructed q then
        Finished ((done_with q False)\<lparr>oevents := [(BLOCKED, length (queue q))]\<rparr>)
      else Blocks [(BLOCKED, length (queue q))])"
  by (auto simp: enter_push_def wait_or_resume_def Let_def outcome_defs pop_while_full_last_n
      last_n_snoc_pop)

section \<open>The monitor\<close>

text \<open>
  A thread is outside the queue, waits on the condition variable of its call, was woken and
  still has to look at its predicate, or has released the mutex and still owes
  \<open>notify_all\<close> on \<open>signalPop\<close> (first flag) or \<open>signalPush\<close> (second flag). \<open>stored\<close> are the values
  ever stored, in order; \<open>removed\<close> the values taken out, in order, marked whether they were
  handed to a caller.
\<close>

datatype 'a tstate = Idle | Waiting "'a call" | Woken "'a call" | Notifying bool bool

record 'a monitor =
  lq :: "'a lqueue"
  thr :: "nat \<Rightarrow> 'a tstate"
  stored :: "'a list"
  removed :: "('a \<times> bool) list"

definition monitor_new :: "nat \<Rightarrow> bool \<Rightarrow> 'a monitor" where
  "monitor_new sz bl = \<lparr>lq = LockingQueue_new sz bl, thr = (\<lambda>_. Idle), stored = [], removed = []\<rparr>"

definition finish :: "nat \<Rightarrow> 'a outcome \<Rightarrow> 'a monitor \<Rightarrow> 'a monitor" where
  "finish t out s = s\<lparr>lq := oq out,
     thr := (thr s)(t := if onotifyPop out \<or> onotifyPush out
                         then Notifying (onotifyPop out) (onotifyPush out) else Idle),
     stored := stored s @ (if onotifyPush out then [last (queue (oq out))] else []),
     removed := removed s @ map (\<lambda>x. (x, False)) (odropped out) @ map (\<lambda>x. (x, True)) (ovals out)\<rparr>"

definition wake :: "condvar \<Rightarrow> (nat \<Rightarrow> 'a tstate) \<Rightarrow> nat \<Rightarrow> 'a tstate" where
  "wake cv th t =
     (case th t of Waiting c \<Rightarrow> if waits_on c = cv then Woken c else Waiting c | st \<Rightarrow> st)"

datatype 'a label =
    Call nat "'a call" | Poll nat | Drain nat | Resume nat | Rewait nat | Spurious nat
  | Timeout nat | Notify nat | Destruct | SetMaxSize nat | SetBlocking bool

inductive lq_step :: "'a monitor \<Rightarrow> 'a label \<Rightarrow> 'a monitor \<Rightarrow> bool" where
  call_done: "thr s t = Idle \<Longrightarrow> enter c (lq s) = Finished out \<Longrightarrow>
     lq_step s (Call t c) (finish t out s)"
| call_block: "thr s t = Idle \<Longrightarrow> enter c (lq s) = Blocks evs \<Longrightarrow>
     lq_step s (Call t c) (s\<lparr>thr := (thr s)(t := Waiting c)\<rparr>)"
| poll: "thr s t = Idle \<Longrightarrow> lq_step s (Poll t) (finish t (tryPop (lq s)) s)"
| drain: "thr s t = Idle \<Longrightarrow> lq_step s (Drain t) (finish t (consumeAll (lq s)) s)"
| resumed: "thr s t = Woken c \<Longrightarrow> wait_pred c (lq s) \<Longrightarrow>
     lq_step s (Resume t) (finish t (resume c True (lq s)) s)"
| rewait: "thr s t = Woken c \<Longrightarrow> \<not> wait_pred c (lq s) \<Longrightarrow>
     lq_step s (Rewait t) (s\<lparr>thr := (thr s)(t := Waiting c)\<rparr>)"
| spurious: "thr s t = Waiting c \<Longrightarrow>
     lq_step s (Spurious t) (s\<lparr>thr := (thr s)(t := Woken c)\<rparr>)"
| timeout: "thr s t = Waiting c \<or> thr s t = Woken c \<Longrightarrow> timed c \<Longrightarrow>
     lq_step s (Timeout t) (finish t (resume c (wait_pred c (lq s)) (lq s)) s)"
| notify: "thr s t = Notifying p u \<Longrightarrow>
     lq_step s (Notify t) (s\<lparr>thr :=
       (let th = (thr s)(t := Idle); th' = (if p then wake SignalPop th else th)
        in if u then wake SignalPush th' else th')\<rparr>)"
| destruct: "lq_step s Destruct
     (if destructed (lq s) then s
      else s\<lparr>lq := lq_destruct (lq s), thr := wake SignalPush (wake SignalPop (thr s))\<rparr>)"
| set_max: "lq_step s (SetMaxSize n) (s\<lparr>lq := lq_setMaxSize n (lq s)\<rparr>)"
| set_blocking: "lq_step s (SetBlocking b) (s\<lparr>lq := lq_setBlocking b (lq s)\<rparr>)"

inductive_cases lq_stepE: "lq_step s l t"

subsection \<open>No wakeup is lost\<close>

definition notified :: "'a monitor \<Rightarrow> condvar \<Rightarrow> bool" where
  "notified s cv =
     (\<exists>t p u. thr s t = Notifying p u \<and> (case cv of SignalPop \<Rightarrow> p | SignalPush \<Rightarrow> u))"

definition no_lost_wakeup :: "'a monitor \<Rightarrow> bool" where
  "no_lost_wakeup s =
     (\<forall>t c. thr s t = Waiting c \<longrightarrow> wait_pred c (lq s) \<longrightarrow> notified s (waits_on c))"

lemma wake_simps [simp]:
  "wake cv th t = Waiting c \<longleftrightarrow> th t = Waiting c \<and> waits_on c \<noteq> cv"
  "wake cv th t = Notifying p u \<longleftrightarrow> th t = Notifying p u"
  by (auto simp: wake_def split: tstate.splits if_splits)

definition signals :: "'a outcome \<Rightarrow> condvar \<Rightarrow> bool" where
  "signals out cv = (case cv of SignalPop \<Rightarrow> onotifyPop out | SignalPush \<Rightarrow> onotifyPush out)"

text \<open>An operation that makes a predicate true notifies the condition variable it is waited on.\<close>

definition announces :: "'a lqueue \<Rightarrow> 'a outcome \<Rightarrow> bool" where
  "announces q out =
     (\<forall>c. wait_pred c (oq out) \<longrightarrow> \<not> wait_pred c q \<longrightarrow> signals out (waits_on c))"

lemma resume_announces: "announces q (resume c p q)"
  by (cases c) (auto simp: announces_def outcome_defs signals_def elim!: wait_pred.elims)

lemma resume_events_announces:
  "announces q ((resume c p q)\<lparr>oevents := e\<rparr>)"
  using resume_announces [of q c p] by (auto simp: announces_def signals_def split: condvar.splits)

lemma enter_announces: "enter c q = Finished out \<Longrightarrow> 0 < maxSize q \<Longrightarrow> announces q out"
  apply (cases c)
  apply (auto simp: enter_push_def wait_or_resume_def resume_events_announces Let_def split: if_splits)
  apply (auto simp: announces_def outcome_defs signals_def pop_while_full_last_n elim!: wait_pred.elims)
  done

lemma tryPop_announces: "announces q (tryPop q)"
  by (auto simp: announces_def tryPop_def outcome_defs signals_def elim!: wait_pred.elims)

lemma consumeAll_announces: "announces q (consumeAll q)"
  by (auto simp: announces_def consumeAll_def outcome_defs signals_def elim!: wait_pred.elims)

lemma finish_no_lost_wakeup:
  assumes "no_lost_wakeup s" and "announces (lq s) out" and "\<And>p u. thr s t \<noteq> Notifying p u"
  shows "no_lost_wakeup (finish t out s)"
  unfolding no_lost_wakeup_def
proof (intro allI impI)
  fix t2 c
  assume w: "thr (finish t out s) t2 = Waiting c" and p: "wait_pred c (lq (finish t out s))"
  have w': "thr s t2 = Waiting c" using w by (auto simp: finish_def split: if_splits)
  show "notified (finish t out s) (waits_on c)"
  proof (cases "wait_pred c (lq s)")
    case True
    then have "notified s (waits_on c)" using assms(1) w' by (simp add: no_lost_wakeup_def)
    then obtain t' p u where n: "thr s t' = Notifying p u"
      "case waits_on c of SignalPop \<Rightarrow> p | SignalPush \<Rightarrow> u"
      unfolding notified_def by blast
    then have "t' \<noteq> t" using assms(3) by metis
    with n show ?thesis
      unfolding notified_def by (intro exI [of _ t'] exI [of _ p] exI [of _ u]) (simp add: finish_def)
  next
    case False
    with assms(2) p have "signals out (waits_on c)" by (simp add: announces_def finish_def)
    then show ?thesis
      unfolding notified_def by (intro exI [of _ t]) (auto simp: finish_def signals_def split: condvar.splits)
  qed
qed

text \<open>
  Two kinds of step change a predicate without a notification: raising the bound, and setting
  it to zero (after which a push empties the queue silently).
\<close>

definition resizes :: "'a monitor \<Rightarrow> 'a label \<Rightarrow> bool" where
  "resizes s l = (\<exists>n. l = SetMaxSize n \<and> (n = 0 \<or> maxSize (lq s) < n))"

definition steady_step :: "'a monitor \<Rightarrow> 'a monitor \<Rightarrow> bool" where
  "steady_step s t = (\<exists>l. lq_step s l t \<and> \<not> resizes s l)"

lemma oq_maxSize [simp]: "maxSize (oq (resume c p q)) = maxSize q"
  by (cases c) (simp_all add: outcome_defs)

lemma enter_maxSize: "enter c q = Finished out \<Longrightarrow> maxSize (oq out) = maxSize q"
  by (cases c) (auto simp: enter_push_def wait_or_resume_def Let_def outcome_defs split: if_splits)

lemma finish_maxSize [simp]: "lq (finish t out s) = oq out"
  by (simp add: finish_def)

lemma poll_maxSize [simp]: "maxSize (oq (tryPop q)) = maxSize q" "maxSize (oq (consumeAll q)) = maxSize q"
  by (simp_all add: tryPop_def consumeAll_def outcome_defs)

lemma steady_step_maxSize: "steady_step s t \<Longrightarrow> 0 < maxSize (lq s) \<Longrightarrow> 0 < maxSize (lq t)"
  unfolding steady_step_def resizes_def
  by (auto elim!: lq_step.cases simp: enter_maxSize lq_destruct_def lq_setMaxSize_def lq_setBlocking_def)

lemma enter_blocks_false: "enter c q = Blocks evs \<Longrightarrow> \<not> wait_pred c q"
  by (cases c) (auto simp: enter_push_def wait_or_resume_def Let_def split: if_splits)

lemma notified_update:
  assumes "notified s cv" and "\<And>p u. thr s i \<noteq> Notifying p u"
  shows "notified (s\<lparr>thr := (thr s)(i := x)\<rparr>) cv"
proof -
  from assms(1) obtain t p u where
    "thr s t = Notifying p u" "case cv of SignalPop \<Rightarrow> p | SignalPush \<Rightarrow> u"
    unfolding notified_def by blast
  with assms(2) [of p u] show ?thesis
    unfolding notified_def by (intro exI [of _ t] exI [of _ p] exI [of _ u]) auto
qed

lemma thread_update_no_lost_wakeup:
  assumes "no_lost_wakeup s" and "\<And>p u. thr s i \<noteq> Notifying p u"
    and "\<And>c. x = Waiting c \<Longrightarrow> \<not> wait_pred c (lq s)"
  shows "no_lost_wakeup (s\<lparr>thr := (thr s)(i := x)\<rparr>)"
  using assms by (auto simp: no_lost_wakeup_def notified_update)

lemma notify_no_lost_wakeup:
  assumes inv: "no_lost_wakeup s" and i: "thr s i = Notifying p u"
  defines "th \<equiv> (thr s)(i := Idle)"
  shows "no_lost_wakeup (s\<lparr>thr := (let th' = (if p then wake SignalPop th else th)
                                in if u then wake SignalPush th' else th')\<rparr>)"
    (is "no_lost_wakeup ?s'")
  unfolding no_lost_wakeup_def
proof (intro allI impI)
  fix t c
  assume w: "thr ?s' t = Waiting c" and "wait_pred c (lq ?s')"
  then have "thr s t = Waiting c" "wait_pred c (lq s)"
    and np: "p \<Longrightarrow> waits_on c \<noteq> SignalPop" and nu: "u \<Longrightarrow> waits_on c \<noteq> SignalPush"
    by (auto simp: Let_def th_def split: if_splits)
  with inv obtain t' p' u' where n: "thr s t' = Notifying p' u'"
    and f: "case waits_on c of SignalPop \<Rightarrow> p' | SignalPush \<Rightarrow> u'"
    unfolding no_lost_wakeup_def notified_def by blast
  have "t' \<noteq> i" using n i f np nu by (auto split: condvar.splits)
  then show "notified ?s' (waits_on c)"
    unfolding notified_def using n f
    by (intro exI [of _ t'] exI [of _ p'] exI [of _ u']) (simp add: Let_def th_def)
qed

lemma bound_no_lost_wakeup:
  assumes "no_lost_wakeup s" and "n \<le> maxSize (lq s)"
  shows "no_lost_wakeup (s\<lparr>lq := lq_setMaxSize n (lq s)\<rparr>)"
proof -
  have "wait_pred c (lq_setMaxSize n (lq s)) \<Longrightarrow> wait_pred c (lq s)" for c
    using assms(2) by (cases c) (auto simp: lq_setMaxSize_def)
  with assms(1) show ?thesis by (auto simp: no_lost_wakeup_def notified_def)
qed

lemma steady_step_no_lost_wakeup:
  assumes "steady_step s t" and "0 < maxSize (lq s)" and "no_lost_wakeup s"
  shows "no_lost_wakeup t"
proof -
  from assms(1) obtain l where "lq_step s l t" and nr: "\<not> resizes s l"
    by (auto simp: steady_step_def)
  then show ?thesis
  proof cases
    case (notify i p u)
    with notify_no_lost_wakeup [OF assms(3), of i p u] show ?thesis by (simp add: Let_def)
  next
    case destruct
    with assms(3) show ?thesis
      by (auto simp: no_lost_wakeup_def) (metis condvar.exhaust)
  next
    case (set_max n)
    with assms(3) nr show ?thesis by (auto simp: resizes_def intro: bound_no_lost_wakeup)
  next
    case (set_blocking b)
    have "wait_pred c (lq_setBlocking b (lq s)) = wait_pred c (lq s)" for c
      by (cases c) (auto simp: lq_setBlocking_def)
    with set_blocking assms(3) show ?thesis by (auto simp: no_lost_wakeup_def notified_def)
  qed (use assms in \<open>auto intro!: finish_no_lost_wakeup thread_update_no_lost_wakeup
         intro: enter_announces tryPop_announces consumeAll_announces resume_announces
         dest: enter_blocks_false\<close>)
qed

interpretation steady: invariant_system
  "\<lambda>s. \<exists>sz bl. 0 < sz \<and> s = monitor_new sz bl"
  steady_step
  "\<lambda>s. 0 < maxSize (lq s) \<and> no_lost_wakeup s"
proof unfold_locales
  show "0 < maxSize (lq s) \<and> no_lost_wakeup s"
    if "\<exists>sz bl. 0 < sz \<and> s = monitor_new sz bl" for s :: "'a monitor"
    using that by (auto simp: monitor_new_def LockingQueue_new_def no_lost_wakeup_def)
qed (blast intro: steady_step_maxSize steady_step_no_lost_wakeup)

text \<open>
  C1. No wakeup is lost: on a queue created with a positive bound whose bound is only ever
  lowered (to a positive value), a thread that still waits although its predicate holds is about
  to be woken, because some thread owes a notification on its condition variable.
\<close>

theorem no_wakeup_is_lost:
  assumes "0 < sz" and "steady_step\<^sup>*\<^sup>* (monitor_new sz bl) s"
    and "thr s t = Waiting c" and "wait_pred c (lq s)"
  shows "\<exists>t' p u. thr s t' = Notifying p u \<and> (case waits_on c of SignalPop \<Rightarrow> p | SignalPush \<Rightarrow> u)"
  using steady.reachable_inv [of "monitor_new sz bl" s] assms
  unfolding no_lost_wakeup_def notified_def by blast

text \<open>A run in which the premises hold: a consumer waits, a producer stores and owes the signal.\<close>

lemma run_consumer_waits:
  "steady_step\<^sup>*\<^sup>* (monitor_new 2 True)
     (finish 1 (store (7::nat) (LockingQueue_new 2 True))
       (monitor_new 2 True\<lparr>thr := (\<lambda>_. Idle)(0 := Waiting WaitAndPop)\<rparr>))"
    (is "steady_step\<^sup>*\<^sup>* ?s0 ?s2")
proof -
  let ?s1 = "monitor_new 2 True\<lparr>thr := (\<lambda>_. Idle)(0 := Waiting WaitAndPop)\<rparr> :: nat monitor"
  have "lq_step ?s0 (Call 0 WaitAndPop) ?s1"
    using call_block [of ?s0 0 WaitAndPop "[]"]
    by (simp add: monitor_new_def LockingQueue_new_def wait_or_resume_def)
  moreover have "lq_step ?s1 (Call 1 (Push 7)) ?s2"
    by (rule call_done) (simp_all add: monitor_new_def LockingQueue_new_def enter_push_def
        wait_or_resume_def outcome_defs)
  ultimately have "steady_step ?s0 ?s1" "steady_step ?s1 ?s2"
    by (auto simp: steady_step_def resizes_def)
  then show ?thesis by (meson converse_rtranclp_into_rtranclp rtranclp.rtrancl_refl)
qed

theorem no_wakeup_is_lost_witness:
  "\<exists>s :: nat monitor.
     thr s 0 = Waiting WaitAndPop \<and> wait_pred WaitAndPop (lq s) \<and> queue (lq s) = [7] \<and>
     (\<exists>t' p u. thr s t' = Notifying p u \<and>
        (case waits_on (WaitAndPop :: nat call) of SignalPop \<Rightarrow> p | SignalPush \<Rightarrow> u))"
proof -
  let ?s = "finish 1 (store (7::nat) (LockingQueue_new 2 True))
       (monitor_new 2 True\<lparr>thr := (\<lambda>_. Idle)(0 := Waiting WaitAndPop)\<rparr>)"
  have w: "thr ?s 0 = Waiting WaitAndPop" "wait_pred WaitAndPop (lq ?s)" "queue (lq ?s) = [7]"
    by (simp_all add: finish_def outcome_defs LockingQueue_new_def)
  from no_wakeup_is_lost [OF zero_less_numeral run_consumer_waits w(1,2)] w
  show ?thesis by - (rule exI [of _ ?s], simp)
qed

text \<open>
  Raising the bound loses a wakeup: \<open>setMaxSize\<close> changes \<open>maxSize\<close> under the lock but
  notifies nobody, so there is a run after which a producer waits although the queue has room,
  and no thread owes it a notification.
\<close>

theorem setMaxSize_loses_wakeup:
  "\<exists>s1 s2 s3 s. lq_step (monitor_new 1 True) (Call 0 (Push (5::nat))) s1 \<and>
     lq_step s1 (Notify 0) s2 \<and> lq_step s2 (Call 1 (Push 6)) s3 \<and> lq_step s3 (SetMaxSize 2) s \<and>
     thr s 1 = Waiting (Push 6) \<and> wait_pred (Push 6) (lq s) \<and> (\<forall>cv. \<not> notified s cv)"
proof -
  let ?q = "\<lparr>maxSize = 1, blocking = True, queue = [5::nat], destructed = False\<rparr>"
  let ?s1 = "\<lparr>lq = ?q, thr = (\<lambda>_. Idle)(0 := Notifying False True), stored = [5], removed = []\<rparr>"
  let ?s2 = "\<lparr>lq = ?q, thr = (\<lambda>_. Idle), stored = [5], removed = []\<rparr>"
  let ?s3 = "\<lparr>lq = ?q, thr = (\<lambda>_. Idle)(1 := Waiting (Push 6)), stored = [5], removed = []\<rparr>"
  let ?s = "?s3\<lparr>lq := ?q\<lparr>maxSize := 2\<rparr>\<rparr>"
  have "lq_step (monitor_new 1 True) (Call 0 (Push 5)) ?s1"
    using call_done [of "monitor_new 1 True" 0 "Push 5"
        "(store 5 (LockingQueue_new 1 True))"]
    by (simp add: monitor_new_def LockingQueue_new_def enter_push_def wait_or_resume_def
        outcome_defs finish_def)
  moreover have "lq_step ?s1 (Notify 0) ?s2"
  proof -
    have "wake SignalPush ((\<lambda>_. Idle)(0 := Idle)) = (\<lambda>_. Idle :: nat tstate)"
      by (auto simp: wake_def fun_eq_iff)
    then show ?thesis using notify [of ?s1 0 False True] by (simp add: Let_def)
  qed
  moreover have "lq_step ?s2 (Call 1 (Push 6)) ?s3"
    using call_block [of ?s2 1 "Push 6" "[(BLOCKED, 1)]"]
    by (simp add: enter_push_def wait_or_resume_def)
  moreover have "lq_step ?s3 (SetMaxSize 2) ?s"
    using set_max [of ?s3 2] by (simp add: lq_setMaxSize_def)
  moreover have "thr ?s 1 = Waiting (Push 6)" "wait_pred (Push 6) (lq ?s)"
    "\<forall>cv. \<not> notified ?s cv"
    by (auto simp: notified_def split: if_splits)
  ultimately show ?thesis by blast
qed

subsection \<open>Nothing is lost, duplicated or reordered\<close>

definition conserves :: "'a lqueue \<Rightarrow> 'a outcome \<Rightarrow> bool" where
  "conserves q out = (odropped out @ ovals out @ queue (oq out) =
     queue q @ (if onotifyPush out then [last (queue (oq out))] else []))"

lemma resume_conserves: "wait_pred c q = p \<Longrightarrow> conserves q (resume c p q)"
  by (cases c) (auto simp: conserves_def outcome_defs)

lemma enter_conserves: "enter c q = Finished out \<Longrightarrow> conserves q out"
proof -
  have w: "conserves q out" if "wait_or_resume c evs q = Finished out" for evs
    using that resume_conserves [of c q True]
    by (auto simp: wait_or_resume_def conserves_def split: if_splits)
  have "conserves q out" if "enter_push c x q = Finished out" for x
    using that w pop_while_full_split [of "maxSize q" "queue q"]
    by (auto simp: enter_push_def Let_def split: if_splits) (auto simp: conserves_def outcome_defs)
  with w show "enter c q = Finished out \<Longrightarrow> conserves q out" by (cases c) auto
qed

lemma poll_conserves: "conserves q (tryPop q)" "conserves q (consumeAll q)"
  by (auto simp: conserves_def tryPop_def consumeAll_def outcome_defs)

definition history_ok :: "'a monitor \<Rightarrow> bool" where
  "history_ok s = (map fst (removed s) @ queue (lq s) = stored s)"

lemma finish_history_ok:
  assumes "history_ok s" and "conserves (lq s) out"
  shows "history_ok (finish t out s)"
proof -
  let ?new = "if onotifyPush out then [last (queue (oq out))] else []"
  have "map fst (removed (finish t out s)) @ queue (oq out) =
      map fst (removed s) @ (odropped out @ ovals out @ queue (oq out))"
    by (simp add: finish_def comp_def)
  also have "\<dots> = (map fst (removed s) @ queue (lq s)) @ ?new"
    using assms(2) by (simp add: conserves_def)
  also have "\<dots> = stored (finish t out s)"
    using assms(1) by (simp add: history_ok_def finish_def)
  finally show ?thesis by (simp add: history_ok_def)
qed

definition any_step :: "'a monitor \<Rightarrow> 'a monitor \<Rightarrow> bool" where
  "any_step s t = (\<exists>l. lq_step s l t)"

lemma any_step_history_ok: "any_step s t \<Longrightarrow> history_ok s \<Longrightarrow> history_ok t"
  unfolding any_step_def
  by (elim exE, erule lq_step.cases)
    (auto intro!: finish_history_ok enter_conserves poll_conserves resume_conserves,
     auto simp: history_ok_def lq_destruct_def lq_setMaxSize_def lq_setBlocking_def)

lemma any_steps_history_ok: "any_step\<^sup>*\<^sup>* s t \<Longrightarrow> history_ok s \<Longrightarrow> history_ok t"
  by (induction rule: rtranclp_induct) (auto intro: any_step_history_ok)

text \<open>Steps of a queue whose bound and mode are left as they were set on construction.\<close>

definition fixed_step :: "'a monitor \<Rightarrow> 'a monitor \<Rightarrow> bool" where
  "fixed_step s t = (\<exists>l. lq_step s l t \<and> (\<forall>n. l \<noteq> SetMaxSize n) \<and> (\<forall>b. l \<noteq> SetBlocking b))"

definition within_bound :: "nat \<Rightarrow> bool \<Rightarrow> 'a lqueue \<Rightarrow> bool" where
  "within_bound sz bl q = (maxSize q = sz \<and> blocking q = bl \<and> length (queue q) \<le> sz)"

lemma resume_within_bound:
  "wait_pred c q = p \<Longrightarrow> p \<or> timed c \<Longrightarrow> within_bound sz bl q \<Longrightarrow> within_bound sz bl (oq (resume c p q))"
  by (cases c) (auto simp: within_bound_def outcome_defs)

lemma wait_or_resume_within_bound:
  assumes "wait_or_resume c evs q = Finished out" and "within_bound sz bl q"
  shows "within_bound sz bl (oq out)"
proof -
  have "wait_pred c q" "oq out = oq (resume c True q)"
    using assms(1) by (auto simp: wait_or_resume_def split: if_splits)
  with resume_within_bound [of c q True] assms(2) show ?thesis by simp
qed

lemma enter_push_within_bound:
  assumes "enter_push c x q = Finished out" and "within_bound sz bl q"
  shows "within_bound sz bl (oq out)"
proof -
  consider "maxSize q = 0" | "0 < maxSize q" "\<not> blocking q" | "0 < maxSize q" "blocking q" by blast
  then show ?thesis
  proof cases
    case 2
    then have "length (pop_while_full (maxSize q) (queue q)) < maxSize q"
      by (simp add: length_pop_while_full)
    with 2 assms show ?thesis by (auto simp: enter_push_def Let_def within_bound_def outcome_defs)
  next
    case 3
    with assms show ?thesis by (auto simp: enter_push_def intro: wait_or_resume_within_bound)
  qed (use assms in \<open>auto simp: enter_push_def within_bound_def outcome_defs\<close>)
qed

lemma enter_within_bound:
  "enter c q = Finished out \<Longrightarrow> within_bound sz bl q \<Longrightarrow> within_bound sz bl (oq out)"
  by (cases c) (auto intro: enter_push_within_bound wait_or_resume_within_bound)

lemma poll_within_bound:
  "within_bound sz bl q \<Longrightarrow> within_bound sz bl (oq (tryPop q))"
  "within_bound sz bl q \<Longrightarrow> within_bound sz bl (oq (consumeAll q))"
  by (auto simp: within_bound_def tryPop_def consumeAll_def outcome_defs)

definition all_delivered :: "'a monitor \<Rightarrow> bool" where
  "all_delivered s = (\<forall>x \<in> set (removed s). snd x)"

lemma resume_drops_nothing [simp]: "odropped (resume c p q) = []"
  by (cases c) (simp_all add: outcome_defs)

lemma enter_drops_nothing:
  "enter c q = Finished out \<Longrightarrow> blocking q \<Longrightarrow> 0 < maxSize q \<Longrightarrow> odropped out = []"
  by (cases c) (auto simp: enter_push_def wait_or_resume_def outcome_defs split: if_splits)

lemma poll_drops_nothing [simp]: "odropped (tryPop q) = []" "odropped (consumeAll q) = []"
  by (simp_all add: tryPop_def consumeAll_def outcome_defs)

lemma within_bound_destruct [simp]: "within_bound sz bl (lq_destruct q) = within_bound sz bl q"
  by (simp add: within_bound_def lq_destruct_def)

lemma all_delivered_frame [simp]:
  "all_delivered (s\<lparr>thr := th\<rparr>) = all_delivered s"
  "all_delivered (s\<lparr>lq := q\<rparr>) = all_delivered s"
  by (simp_all add: all_delivered_def)

lemma fixed_step_within_bound:
  "fixed_step s t \<Longrightarrow> within_bound sz bl (lq s) \<Longrightarrow> within_bound sz bl (lq t)"
  unfolding fixed_step_def
  by (elim exE conjE, erule lq_step.cases)
    (auto intro: enter_within_bound poll_within_bound resume_within_bound)

lemma fixed_step_all_delivered:
  assumes "fixed_step s t" and "within_bound sz True (lq s)" and "0 < sz" and "all_delivered s"
  shows "all_delivered t"
proof -
  have "all_delivered (finish i out s)" if "odropped out = []" for i out
    using that assms(4) by (auto simp: all_delivered_def finish_def)
  moreover have "odropped out = []" if "enter c (lq s) = Finished out" for c out
    using that assms(2,3) enter_drops_nothing by (auto simp: within_bound_def)
  ultimately show ?thesis using assms(1,4) unfolding fixed_step_def
    by (elim exE conjE, elim lq_step.cases) auto
qed

lemma fixed_steps_blocking:
  assumes "fixed_step\<^sup>*\<^sup>* (monitor_new sz True) s" and "0 < sz"
  shows "within_bound sz True (lq s) \<and> all_delivered s \<and> history_ok s"
  using assms(1)
proof (induction rule: rtranclp_induct)
  case base
  then show ?case
    by (simp add: monitor_new_def LockingQueue_new_def within_bound_def all_delivered_def history_ok_def)
next
  case (step s t)
  then have "any_step s t" by (auto simp: any_step_def fixed_step_def)
  with step assms(2) show ?case
    by (blast intro: fixed_step_within_bound fixed_step_all_delivered any_step_history_ok)
qed

text \<open>
  C2. A blocking queue created with a positive bound is a bounded FIFO channel: in every
  reachable state the values handed to callers, in the order they were handed out, followed by
  the current content are exactly the values stored, in order, and the content never exceeds the
  bound. Nothing is dropped, duplicated or reordered, whatever the interleaving, the timeouts and
  the moment of destruction.
\<close>

theorem blocking_queue_is_fifo:
  assumes "0 < sz" and "fixed_step\<^sup>*\<^sup>* (monitor_new sz True) s"
  shows "map fst (filter snd (removed s)) @ queue (lq s) = stored s \<and> length (queue (lq s)) \<le> sz"
proof -
  have f: "within_bound sz True (lq s)" "all_delivered s" "history_ok s"
    using fixed_steps_blocking [OF assms(2,1)] by auto
  then have "filter snd (removed s) = removed s" by (simp add: all_delivered_def)
  with f show ?thesis by (simp add: history_ok_def within_bound_def)
qed

theorem blocking_queue_is_fifo_witness:
  "\<exists>s :: nat monitor. stored s = [7] \<and>
     map fst (filter snd (removed s)) @ queue (lq s) = stored s \<and> length (queue (lq s)) \<le> 2"
proof -
  let ?s = "finish 0 (store (7::nat) (LockingQueue_new 2 True)) (monitor_new 2 True)"
  have "lq_step (monitor_new 2 True) (Call 0 (Push 7)) ?s"
    by (rule call_done) (simp_all add: monitor_new_def LockingQueue_new_def enter_push_def
        wait_or_resume_def outcome_defs)
  then have "fixed_step (monitor_new 2 True) ?s" unfolding fixed_step_def by blast
  then have "fixed_step\<^sup>*\<^sup>* (monitor_new 2 True) ?s" by (rule r_into_rtranclp)
  from blocking_queue_is_fifo [OF zero_less_numeral this] show ?thesis
    by - (rule exI [of _ ?s], simp add: finish_def outcome_defs monitor_new_def LockingQueue_new_def)
qed

subsection \<open>Destruction\<close>

definition closed_awake :: "'a monitor \<Rightarrow> bool" where
  "closed_awake s = (destructed (lq s) \<longrightarrow> (\<forall>t c. thr s t \<noteq> Waiting c))"

lemma wait_pred_destructed: "destructed q \<Longrightarrow> wait_pred c q"
  by (cases c) simp_all

lemma outcome_destructed:
  "destructed (oq (resume c p q)) = destructed q"
  "destructed (oq (tryPop q)) = destructed q"
  "destructed (oq (consumeAll q)) = destructed q"
  by (cases c) (simp_all add: outcome_defs tryPop_def consumeAll_def)

lemma enter_destructed: "enter c q = Finished out \<Longrightarrow> destructed (oq out) = destructed q"
  by (cases c)
    (auto simp: enter_push_def wait_or_resume_def Let_def outcome_defs outcome_destructed split: if_splits)

lemma any_step_closed_awake: "any_step s t \<Longrightarrow> closed_awake s \<Longrightarrow> closed_awake t"
  unfolding any_step_def
  by (elim exE, erule lq_step.cases)
    (auto simp: closed_awake_def finish_def outcome_destructed enter_destructed Let_def
       lq_setMaxSize_def lq_setBlocking_def lq_destruct_def
       dest: enter_blocks_false wait_pred_destructed split: if_splits,
     (metis condvar.exhaust)+)

interpretation anyq: invariant_system
  "\<lambda>s. \<exists>sz bl. s = monitor_new sz bl" any_step "\<lambda>s. closed_awake s \<and> history_ok s"
proof unfold_locales
  show "closed_awake s \<and> history_ok s" if "\<exists>sz bl. s = monitor_new sz bl" for s :: "'a monitor"
    using that by (auto simp: monitor_new_def LockingQueue_new_def closed_awake_def history_ok_def)
qed (blast intro: any_step_closed_awake any_step_history_ok)

text \<open>
  Whatever the bound, the mode and their changes: once a queue is destroyed no thread is left
  waiting on it, and at every moment the values removed (handed out, displaced by a newer one, or
  cleared) followed by the content are exactly the values stored.
\<close>

theorem destroyed_queue_releases_all:
  assumes "any_step\<^sup>*\<^sup>* (monitor_new sz bl) s"
  shows "(\<not> destructed (lq s) \<or> (\<forall>t c. thr s t \<noteq> Waiting c)) \<and>
     map fst (removed s) @ queue (lq s) = stored s"
  using anyq.reachable_inv [OF _ assms] unfolding closed_awake_def history_ok_def by blast

theorem destroyed_queue_releases_all_witness:
  "\<exists>s :: nat monitor. destructed (lq s) \<and> (\<not> destructed (lq s) \<or> (\<forall>t c. thr s t \<noteq> Waiting c)) \<and>
     map fst (removed s) @ queue (lq s) = stored s"
proof -
  let ?s = "monitor_new 2 True\<lparr>lq := lq_destruct (LockingQueue_new 2 True),
     thr := wake SignalPush (wake SignalPop (\<lambda>_. Idle))\<rparr> :: nat monitor"
  have "lq_step (monitor_new 2 True) Destruct ?s"
    using destruct [of "monitor_new 2 True :: nat monitor"] by (simp add: monitor_new_def LockingQueue_new_def)
  then have "any_step (monitor_new 2 True) ?s" unfolding any_step_def by blast
  then have r: "any_step\<^sup>*\<^sup>* (monitor_new 2 True) ?s" by (rule r_into_rtranclp)
  have "destructed (lq ?s)" by (simp add: lq_destruct_def LockingQueue_new_def)
  with destroyed_queue_releases_all [OF r] show ?thesis by blast
qed

end
