(* ===== verification/MessageQueue.thy ===== *)
theory MessageQueue
  imports LockingQueue "HOL-Library.AList"
begin

text \<open>
  Message queues (src/pipeline/MessageQueue.cpp, include/depthai/pipeline/MessageQueue.hpp): a
  \<open>LockingQueue\<close> with a name, callbacks, notifiers and an optional event dispatcher. Each
  operation is one critical section of the shared queue, or two around a wait; the state the
  wait returns in is the argument \<open>woken\<close> (what the other threads made of the queue meanwhile),
  so every schedule of the other threads is covered. Calls out of the queue (callbacks, notifiers,
  dispatcher) are recorded as effects in the order they happen. A message is a value of \<open>'m\<close>,
  a null pointer is \<open>None\<close>.
\<close>

section \<open>State\<close>

datatype ('cb, 'n, 'm) mq_effect =
    CallbackCall 'cb string 'm
  | NotifyOne 'n
  | PingInput string LockingQueueState nat
  | InputBlockStart string
  | InputBlock string "nat option" bool  \<comment> \<open>end of a block event: queue size, cancelled\<close>

record ('cb, 'n, 'm) mqueue =
  mq :: "'m lqueue"
  mname :: string
  callbacks :: "(int \<times> 'cb) list"
  uniqueCallbackId :: int
  notifiers :: "(int \<times> 'n) list"
  uniqueNotifierId :: int
  sendEvents :: bool

definition CLOSED_QUEUE_MESSAGE :: string where
  "CLOSED_QUEUE_MESSAGE = ''MessageQueue was closed''"

definition NULL_MESSAGE :: string where
  "NULL_MESSAGE = ''Message passed is not valid (nullptr)''"

definition MessageQueue_new :: "string \<Rightarrow> nat \<Rightarrow> bool \<Rightarrow> bool \<Rightarrow> ('cb, 'n, 'm) mqueue" where
  "MessageQueue_new name sz bl ev =
     \<lparr>mq = LockingQueue_new sz bl, mname = name, callbacks = [], uniqueCallbackId = 0,
      notifiers = [], uniqueNotifierId = 0, sendEvents = ev\<rparr>"

definition mq_isClosed :: "('cb, 'n, 'm) mqueue \<Rightarrow> bool" where
  "mq_isClosed m = destructed (mq m)"

definition notifyListeners :: "('cb, 'n, 'm) mqueue \<Rightarrow> ('cb, 'n, 'm) mq_effect list" where
  "notifyListeners m = map (\<lambda>kv. NotifyOne (snd kv)) (notifiers m)"

definition callCallbacks :: "('cb, 'n, 'm) mqueue \<Rightarrow> 'm \<Rightarrow> ('cb, 'n, 'm) mq_effect list" where
  "callCallbacks m msg = map (\<lambda>kv. CallbackCall (snd kv) (mname m) msg) (callbacks m)"

definition mq_close :: "('cb, 'n, 'm) mqueue \<Rightarrow> ('cb, 'n, 'm) mqueue \<times> ('cb, 'n, 'm) mq_effect list" where
  "mq_close m = (m\<lparr>mq := lq_destruct (mq m)\<rparr>, notifyListeners m)"

definition mq_setName :: "string \<Rightarrow> ('cb, 'n, 'm) mqueue \<Rightarrow> ('cb, 'n, 'm) mqueue" where
  "mq_setName n m = m\<lparr>mname := n\<rparr>"

definition mq_setBlocking :: "bool \<Rightarrow> ('cb, 'n, 'm) mqueue \<Rightarrow> ('cb, 'n, 'm) mqueue" where
  "mq_setBlocking b m = m\<lparr>mq := lq_setBlocking b (mq m)\<rparr>"

definition mq_setMaxSize :: "nat \<Rightarrow> ('cb, 'n, 'm) mqueue \<Rightarrow> ('cb, 'n, 'm) mqueue" where
  "mq_setMaxSize n m = m\<lparr>mq := lq_setMaxSize n (mq m)\<rparr>"

section \<open>Callbacks and notifiers\<close>

definition mq_addCallback :: "'cb \<Rightarrow> ('cb, 'n, 'm) mqueue \<Rightarrow> ('cb, 'n, 'm) mqueue \<times> int" where
  "mq_addCallback cb m =
     (m\<lparr>callbacks := AList.update (uniqueCallbackId m) cb (callbacks m),
        uniqueCallbackId := uniqueCallbackId m + 1\<rparr>, uniqueCallbackId m)"

definition mq_removeCallback :: "int \<Rightarrow> ('cb, 'n, 'm) mqueue \<Rightarrow> ('cb, 'n, 'm) mqueue \<times> bool" where
  "mq_removeCallback i m =
     (if map_of (callbacks m) i = None then (m, False)
      else (m\<lparr>callbacks := AList.delete i (callbacks m)\<rparr>, True))"

definition addNotifier :: "'n \<Rightarrow> ('cb, 'n, 'm) mqueue \<Rightarrow> ('cb, 'n, 'm) mqueue \<times> int" where
  "addNotifier nt m =
     (m\<lparr>notifiers := AList.update (uniqueNotifierId m) nt (notifiers m),
        uniqueNotifierId := uniqueNotifierId m + 1\<rparr>, uniqueNotifierId m)"

definition removeNotifier :: "int \<Rightarrow> ('cb, 'n, 'm) mqueue \<Rightarrow> ('cb, 'n, 'm) mqueue \<times> bool" where
  "removeNotifier i m =
     (if map_of (notifiers m) i = None then (m, False)
      else (m\<lparr>notifiers := AList.delete i (notifiers m)\<rparr>, True))"

section \<open>Sending\<close>

text \<open>One call on the shared queue, with the state in which a wait ends.\<close>

definition run_call :: "'m call \<Rightarrow> 'm lqueue \<Rightarrow> 'm lqueue \<Rightarrow> 'm outcome" where
  "run_call c woken q =
     (case enter c q of
        Finished out \<Rightarrow> out
      | Blocks evs \<Rightarrow>
          (let out = resume c (wait_pred c woken) woken in out\<lparr>oevents := evs @ oevents out\<rparr>))"

definition pings :: "('cb, 'n, 'm) mqueue \<Rightarrow> 'm outcome \<Rightarrow> ('cb, 'n, 'm) mq_effect list" where
  "pings m out =
     (if sendEvents m then map (\<lambda>(st, sz). PingInput (mname m) st sz) (oevents out) else [])"

definition mq_send ::
  "'m lqueue \<Rightarrow> 'm option \<Rightarrow> ('cb, 'n, 'm) mqueue \<Rightarrow>
     ('cb, 'n, 'm) mqueue \<times> ('cb, 'n, 'm) mq_effect list \<times> unit result" where
  "mq_send woken msg m =
     (case msg of
        None \<Rightarrow> (m, [], Inl (InvalidArgument NULL_MESSAGE))
      | Some x \<Rightarrow>
          if mq_isClosed m then (m, [], Inl (QueueException CLOSED_QUEUE_MESSAGE))
          else
            (let out = run_call (Push x) woken (mq m) in
             (m\<lparr>mq := oq out\<rparr>, callCallbacks m x @ pings m out @ notifyListeners m,
              if oret out then Inr () else Inl (QueueException CLOSED_QUEUE_MESSAGE))))"

definition mq_send_timeout ::
  "'m lqueue \<Rightarrow> 'm option \<Rightarrow> ('cb, 'n, 'm) mqueue \<Rightarrow>
     ('cb, 'n, 'm) mqueue \<times> ('cb, 'n, 'm) mq_effect list \<times> bool result" where
  "mq_send_timeout woken msg m =
     (case msg of
        None \<Rightarrow> (m, [], Inl (InvalidArgument NULL_MESSAGE))
      | Some x \<Rightarrow>
          if mq_isClosed m then (m, callCallbacks m x, Inl (QueueException CLOSED_QUEUE_MESSAGE))
          else
            (let out = run_call (TryWaitAndPush x) woken (mq m) in
             (m\<lparr>mq := oq out\<rparr>,
              callCallbacks m x @ pings m out @ (if oret out then notifyListeners m else []),
              Inr (oret out))))"

definition mq_trySend ::
  "'m lqueue \<Rightarrow> 'm option \<Rightarrow> ('cb, 'n, 'm) mqueue \<Rightarrow>
     ('cb, 'n, 'm) mqueue \<times> ('cb, 'n, 'm) mq_effect list \<times> bool result" where
  "mq_trySend woken msg m =
     (case msg of
        None \<Rightarrow> (m, [], Inl (InvalidArgument NULL_MESSAGE))
      | Some x \<Rightarrow>
          if mq_isClosed m then (m, [], Inl (QueueException CLOSED_QUEUE_MESSAGE))
          else mq_send_timeout woken msg m)"

section \<open>Receiving\<close>

text \<open>
  \<open>is_T\<close> is the \<open>dynamic_pointer_cast\<close> to the requested message class: a message that is not of
  the class becomes a null pointer.
\<close>

definition cast_to :: "('m \<Rightarrow> bool) \<Rightarrow> 'm \<Rightarrow> 'm option" where
  "cast_to is_T x = (if is_T x then Some x else None)"

text \<open>
  The events of the input block around a receive; when the receive throws, the start is sent and
  no end (the destructor of the block sends none during stack unwinding). The size at the end is
  the one right after the receive.
\<close>

definition begin_block :: "('cb, 'n, 'm) mqueue \<Rightarrow> ('cb, 'n, 'm) mq_effect list" where
  "begin_block m = (if sendEvents m then [InputBlockStart (mname m)] else [])"

definition end_block :: "('cb, 'n, 'm) mqueue \<Rightarrow> bool \<Rightarrow> 'm lqueue \<Rightarrow> ('cb, 'n, 'm) mq_effect list" where
  "end_block m cancelled q =
     (if sendEvents m then [InputBlock (mname m) (Some (lq_getSize q)) cancelled] else [])"

definition mq_has :: "('cb, 'n, 'm) mqueue \<Rightarrow> bool result" where
  "mq_has m = (if mq_isClosed m then Inl (QueueException CLOSED_QUEUE_MESSAGE)
               else Inr (\<not> lq_empty (mq m)))"

definition mq_has_T :: "('m \<Rightarrow> bool) \<Rightarrow> ('cb, 'n, 'm) mqueue \<Rightarrow> bool result" where
  "mq_has_T is_T m = (if mq_isClosed m then Inl (QueueException CLOSED_QUEUE_MESSAGE)
     else Inr (case lq_front (mq m) of None \<Rightarrow> False | Some x \<Rightarrow> is_T x))"

definition mq_front :: "('m \<Rightarrow> bool) \<Rightarrow> ('cb, 'n, 'm) mqueue \<Rightarrow> 'm option result" where
  "mq_front is_T m =
     (if mq_isClosed m then Inl (QueueException CLOSED_QUEUE_MESSAGE)
      else Inr (Option.bind (lq_front (mq m)) (cast_to is_T)))"

definition mq_tryGet ::
  "('m \<Rightarrow> bool) \<Rightarrow> ('cb, 'n, 'm) mqueue \<Rightarrow>
     ('cb, 'n, 'm) mqueue \<times> ('cb, 'n, 'm) mq_effect list \<times> 'm option result" where
  "mq_tryGet is_T m =
     (if mq_isClosed m then (m, [], Inl (QueueException CLOSED_QUEUE_MESSAGE))
      else
        (let out = tryPop (mq m);
             r = (if oret out then cast_to is_T (hd (ovals out)) else None)
         in (m\<lparr>mq := oq out\<rparr>, begin_block m @ end_block m (r = None) (oq out), Inr r)))"

definition mq_get ::
  "('m \<Rightarrow> bool) \<Rightarrow> 'm lqueue \<Rightarrow> ('cb, 'n, 'm) mqueue \<Rightarrow>
     ('cb, 'n, 'm) mqueue \<times> ('cb, 'n, 'm) mq_effect list \<times> 'm option result" where
  "mq_get is_T woken m =
     (let out = run_call WaitAndPop woken (mq m) in
      if oret out then
        (m\<lparr>mq := oq out\<rparr>, begin_block m @ end_block m False (oq out), Inr (cast_to is_T (hd (ovals out))))
      else (m\<lparr>mq := oq out\<rparr>, begin_block m, Inl (QueueException CLOSED_QUEUE_MESSAGE)))"

text \<open>\<open>get\<close> with a timeout: the result and the value of \<open>hasTimedout\<close>.\<close>

definition mq_get_timeout ::
  "('m \<Rightarrow> bool) \<Rightarrow> 'm lqueue \<Rightarrow> ('cb, 'n, 'm) mqueue \<Rightarrow>
     ('cb, 'n, 'm) mqueue \<times> ('cb, 'n, 'm) mq_effect list \<times> ('m option \<times> bool) result" where
  "mq_get_timeout is_T woken m =
     (if mq_isClosed m then (m, [], Inl (QueueException CLOSED_QUEUE_MESSAGE))
      else
        (let out = run_call TryWaitAndPop woken (mq m) in
         if oret out then
           (let r = cast_to is_T (hd (ovals out)) in
            (m\<lparr>mq := oq out\<rparr>, begin_block m @ end_block m (r = None) (oq out), Inr (r, False)))
         else if destructed (oq out) then
           (m\<lparr>mq := oq out\<rparr>, begin_block m, Inl (QueueException CLOSED_QUEUE_MESSAGE))
         else (m\<lparr>mq := oq out\<rparr>, begin_block m @ end_block m True (oq out), Inr (None, True))))"

definition mq_tryGetAll ::
  "('m \<Rightarrow> bool) \<Rightarrow> ('cb, 'n, 'm) mqueue \<Rightarrow>
     ('cb, 'n, 'm) mqueue \<times> ('cb, 'n, 'm) mq_effect list \<times> 'm option list result" where
  "mq_tryGetAll is_T m =
     (if mq_isClosed m then (m, [], Inl (QueueException CLOSED_QUEUE_MESSAGE))
      else
        (let out = consumeAll (mq m); ms = map (cast_to is_T) (ovals out) in
         (m\<lparr>mq := oq out\<rparr>, begin_block m @ end_block m (ms = []) (oq out), Inr ms)))"

definition mq_getAll ::
  "('m \<Rightarrow> bool) \<Rightarrow> 'm lqueue \<Rightarrow> ('cb, 'n, 'm) mqueue \<Rightarrow>
     ('cb, 'n, 'm) mqueue \<times> ('cb, 'n, 'm) mq_effect list \<times> 'm option list result" where
  "mq_getAll is_T woken m =
     (let out = run_call WaitAndConsumeAll woken (mq m) in
      if oret out then
        (m\<lparr>mq := oq out\<rparr>, begin_block m @ end_block m False (oq out), Inr (map (cast_to is_T) (ovals out)))
      else (m\<lparr>mq := oq out\<rparr>, begin_block m, Inl (QueueException CLOSED_QUEUE_MESSAGE)))"

definition mq_getAll_timeout ::
  "('m \<Rightarrow> bool) \<Rightarrow> 'm lqueue \<Rightarrow> ('cb, 'n, 'm) mqueue \<Rightarrow>
     ('cb, 'n, 'm) mqueue \<times> ('cb, 'n, 'm) mq_effect list \<times> ('m option list \<times> bool) result" where
  "mq_getAll_timeout is_T woken m =
     (if mq_isClosed m then (m, [], Inl (QueueException CLOSED_QUEUE_MESSAGE))
      else
        (let out = run_call WaitAndConsumeAllTimed woken (mq m);
             ms = map (cast_to is_T) (ovals out); timed_out = (\<not> oret out)
         in (m\<lparr>mq := oq out\<rparr>, begin_block m @ end_block m (ms = [] \<or> timed_out) (oq out), Inr (ms, timed_out))))"


section \<open>Waiting on several queues\<close>

text \<open>
  The queues live in a store indexed by reference, so that the same queue may occur twice in the
  list. The notifier of one \<open>waitAny\<close> call (include/depthai/utility/WaitAnyNotifier.hpp) is a
  binary semaphore; what the other threads do while this one waits is a schedule of operations on
  the queues, and the waiting thread evaluates its predicate after those only that call its
  notifier.
\<close>

type_synonym ('r, 'cb, 'n, 'm) qstore = "'r \<Rightarrow> ('cb, 'n, 'm) mqueue"

definition checkAllClosed :: "'r list \<Rightarrow> ('r, 'cb, 'n, 'm) qstore \<Rightarrow> bool" where
  "checkAllClosed qs s = list_all (\<lambda>r. mq_isClosed (s r)) qs"

definition checkForMessages :: "'r list \<Rightarrow> ('r, 'cb, 'n, 'm) qstore \<Rightarrow> bool" where
  "checkForMessages qs s = list_ex (\<lambda>r. \<not> mq_isClosed (s r) \<and> mq_has (s r) = Inr True) qs"

definition waitAny_pred :: "'r list \<Rightarrow> ('r, 'cb, 'n, 'm) qstore \<Rightarrow> bool" where
  "waitAny_pred qs s = (checkAllClosed qs s \<or> checkForMessages qs s)"

text \<open>The operations another thread may run on a queue.\<close>

datatype ('cb, 'n, 'm) mq_op =
    OpSend "'m option"
  | OpSendTimeout "'m option"
  | OpTrySend "'m option"
  | OpTryGet "'m \<Rightarrow> bool"
  | OpGet "'m \<Rightarrow> bool"
  | OpTryGetAll "'m \<Rightarrow> bool"
  | OpClose
  | OpSetMaxSize nat
  | OpSetBlocking bool
  | OpAddCallback 'cb
  | OpAddNotifier 'n
  | OpRemoveNotifier int

fun run_op :: "('cb, 'n, 'm) mq_op \<Rightarrow> ('cb, 'n, 'm) mqueue \<Rightarrow>
    ('cb, 'n, 'm) mqueue \<times> ('cb, 'n, 'm) mq_effect list" where
  "run_op (OpSend x) m = (case mq_send (mq m) x m of (m', e, _) \<Rightarrow> (m', e))"
| "run_op (OpSendTimeout x) m = (case mq_send_timeout (mq m) x m of (m', e, _) \<Rightarrow> (m', e))"
| "run_op (OpTrySend x) m = (case mq_trySend (mq m) x m of (m', e, _) \<Rightarrow> (m', e))"
| "run_op (OpTryGet p) m = (case mq_tryGet p m of (m', e, _) \<Rightarrow> (m', e))"
| "run_op (OpGet p) m = (case mq_get p (mq m) m of (m', e, _) \<Rightarrow> (m', e))"
| "run_op (OpTryGetAll p) m = (case mq_tryGetAll p m of (m', e, _) \<Rightarrow> (m', e))"
| "run_op OpClose m = mq_close m"
| "run_op (OpSetMaxSize n) m = (mq_setMaxSize n m, [])"
| "run_op (OpSetBlocking b) m = (mq_setBlocking b m, [])"
| "run_op (OpAddCallback c) m = (fst (mq_addCallback c m), [])"
| "run_op (OpAddNotifier k) m = (fst (addNotifier k m), [])"
| "run_op (OpRemoveNotifier i) m = (fst (removeNotifier i m), [])"

definition notifies :: "'n \<Rightarrow> ('cb, 'n, 'm) mq_effect list \<Rightarrow> bool" where
  "notifies k es = list_ex (\<lambda>e. case e of NotifyOne k' \<Rightarrow> k' = k | _ \<Rightarrow> False) es"

text \<open>
  \<open>wait\<close> and \<open>waitFor\<close> after the first test: blocked on the semaphore while the schedule runs.
  \<open>None\<close>: the schedule is over and the thread still waits (no timeout was given).
\<close>

fun acquire_loop ::
  "'n \<Rightarrow> 'r list \<Rightarrow> bool \<Rightarrow> ('r \<times> ('cb, 'n, 'm) mq_op) list \<Rightarrow> ('r, 'cb, 'n, 'm) qstore \<Rightarrow>
     ('r, 'cb, 'n, 'm) qstore option" where
  "acquire_loop k qs has_timeout [] s = (if has_timeout then Some s else None)"
| "acquire_loop k qs has_timeout ((r, opn) # sched) s =
     (let t = s(r := fst (run_op opn (s r))) in
      if notifies k (snd (run_op opn (s r))) \<and> waitAny_pred qs t then Some t
      else acquire_loop k qs has_timeout sched t)"

fun addNotifiers :: "'n \<Rightarrow> 'r list \<Rightarrow> ('r, 'cb, 'n, 'm) qstore \<Rightarrow>
    ('r, 'cb, 'n, 'm) qstore \<times> ('r \<times> int) list" where
  "addNotifiers k [] s = (s, [])"
| "addNotifiers k (r # rs) s =
     (let (m, i) = addNotifier k (s r); (t, ids) = addNotifiers k rs (s(r := m)) in (t, (r, i) # ids))"

fun removeNotifiers :: "('r \<times> int) list \<Rightarrow> ('r, 'cb, 'n, 'm) qstore \<Rightarrow> ('r, 'cb, 'n, 'm) qstore" where
  "removeNotifiers [] s = s"
| "removeNotifiers ((r, i) # ids) s = removeNotifiers ids (s(r := fst (removeNotifier i (s r))))"

definition waitAny ::
  "'n \<Rightarrow> 'r list \<Rightarrow> bool \<Rightarrow> ('r \<times> ('cb, 'n, 'm) mq_op) list \<Rightarrow> ('r, 'cb, 'n, 'm) qstore \<Rightarrow>
     (('r, 'cb, 'n, 'm) qstore \<times> bool) option" where
  "waitAny k qs has_timeout sched s =
     (case addNotifiers k qs s of (s1, ids) \<Rightarrow>
        (case (if \<not> checkAllClosed qs s1 \<and> \<not> checkForMessages qs s1
               then acquire_loop k qs has_timeout sched s1 else Some s1) of
           None \<Rightarrow> None
         | Some s2 \<Rightarrow> Some (removeNotifiers ids s2, checkForMessages qs s2)))"

text \<open>The loop of \<open>getAny\<close>; an exception leaves it with the messages taken so far gone.\<close>

fun getAny_loop ::
  "(string \<times> 'r) list \<Rightarrow> ('r, 'cb, 'n, 'm) qstore \<Rightarrow> (string \<times> 'm) list \<Rightarrow>
     ('r, 'cb, 'n, 'm) qstore \<times> (string \<times> 'm) list result" where
  "getAny_loop [] s inputs = (s, Inr inputs)"
| "getAny_loop ((key, r) # kvs) s inputs =
     (case mq_tryGet (\<lambda>_. True) (s r) of (m, _, res) \<Rightarrow>
        (case res of
           Inl e \<Rightarrow> (s(r := m), Inl e)
         | Inr None \<Rightarrow> getAny_loop kvs (s(r := m)) inputs
         | Inr (Some x) \<Rightarrow> getAny_loop kvs (s(r := m)) (AList.update key x inputs)))"

definition getAny ::
  "'n \<Rightarrow> (string \<times> 'r) list \<Rightarrow> bool \<Rightarrow> ('r \<times> ('cb, 'n, 'm) mq_op) list \<Rightarrow>
     ('r, 'cb, 'n, 'm) qstore \<Rightarrow> (('r, 'cb, 'n, 'm) qstore \<times> (string \<times> 'm) list result) option" where
  "getAny k queues has_timeout sched s =
     (case waitAny k (map snd queues) has_timeout sched s of
        None \<Rightarrow> None
      | Some (t, gotAny) \<Rightarrow> Some (if gotAny then getAny_loop queues t [] else (t, Inr [])))"

text \<open>The typed overload keeps the messages of the requested class.\<close>

definition getAny_typed ::
  "('m \<Rightarrow> bool) \<Rightarrow> (string \<times> 'm) list result \<Rightarrow> (string \<times> 'm) list result" where
  "getAny_typed is_T res = bindR res (\<lambda>kvs. Inr (filter (\<lambda>kv. is_T (snd kv)) kvs))"

section \<open>The channel contract\<close>

text \<open>
  What the senders and receivers of a pipeline rely on: a bounded channel that keeps the newest
  messages (\<open>dropping\<close> queues), hands them out in order and refuses every call once closed.
\<close>

locale channel =
  fixes content :: "'q \<Rightarrow> 'm list"
    and closed :: "'q \<Rightarrow> bool"
    and bound :: "'q \<Rightarrow> nat"
    and dropping :: "'q \<Rightarrow> bool"
    and put :: "'m \<Rightarrow> 'q \<Rightarrow> 'q result"
    and take_next :: "'q \<Rightarrow> ('q \<times> 'm option) result"
  assumes put_closed: "closed q \<Longrightarrow> \<exists>e. put x q = Inl e"
    and put_open: "\<not> closed q \<Longrightarrow> dropping q \<Longrightarrow>
      \<exists>q'. put x q = Inr q' \<and> content q' = last_n (bound q) (content q @ [x]) \<and>
        \<not> closed q' \<and> bound q' = bound q \<and> dropping q'"
    and take_closed: "closed q \<Longrightarrow> \<exists>e. take_next q = Inl e"
    and take_empty: "\<not> closed q \<Longrightarrow> content q = [] \<Longrightarrow> take_next q = Inr (q, None)"
    and take_first: "\<not> closed q \<Longrightarrow> content q = x # xs \<Longrightarrow>
      \<exists>q'. take_next q = Inr (q', Some x) \<and> content q' = xs \<and> \<not> closed q'"
begin

fun put_all :: "'m list \<Rightarrow> 'q \<Rightarrow> 'q result" where
  "put_all [] q = Inr q"
| "put_all (x # xs) q = bindR (put x q) (put_all xs)"

fun take_n :: "nat \<Rightarrow> 'q \<Rightarrow> ('q \<times> 'm list) result" where
  "take_n 0 q = Inr (q, [])"
| "take_n (Suc n) q = bindR (take_next q) (\<lambda>(q', r).
     case r of None \<Rightarrow> Inr (q', []) | Some x \<Rightarrow> bindR (take_n n q') (\<lambda>(q'', xs). Inr (q'', x # xs)))"

lemma put_all_open:
  assumes "\<not> closed q" and "dropping q" and "length (content q) \<le> bound q"
  shows "\<exists>q'. put_all xs q = Inr q' \<and> content q' = last_n (bound q) (content q @ xs) \<and>
     \<not> closed q' \<and> bound q' = bound q"
  using assms
proof (induction xs arbitrary: q)
  case Nil
  then show ?case by simp
next
  case (Cons x xs)
  from put_open [OF Cons.prems(1,2)] obtain q' where q': "put x q = Inr q'"
    "content q' = last_n (bound q) (content q @ [x])" "\<not> closed q'" "bound q' = bound q" "dropping q'"
    by blast
  then have "length (content q') \<le> bound q'" by simp
  from Cons.IH [OF q'(3,5) this] q' show ?case by (auto simp: last_n_last_n_append)
qed

lemma take_n_open:
  "\<not> closed q \<Longrightarrow> \<exists>q'. take_n n q = Inr (q', take n (content q)) \<and> content q' = drop n (content q)"
proof (induction n arbitrary: q)
  case (Suc n)
  show ?case
  proof (cases "content q")
    case (Cons x xs)
    from take_first [OF Suc.prems Cons] obtain q' where
      "take_next q = Inr (q', Some x)" "content q' = xs" "\<not> closed q'" by blast
    with Suc.IH [of q'] Cons show ?thesis by auto
  qed (simp add: take_empty Suc.prems)
qed simp

lemma put_all_take_n:
  assumes "\<not> closed q" and "dropping q" and "length (content q) \<le> bound q"
  shows "\<exists>q'. bindR (put_all xs q) (take_n n) = Inr (q', take n (last_n (bound q) (content q @ xs)))"
proof -
  from put_all_open [OF assms, of xs] obtain q1 where
    "put_all xs q = Inr q1" "content q1 = last_n (bound q) (content q @ xs)" "\<not> closed q1" by blast
  with take_n_open [of q1 n] show ?thesis by auto
qed

end


definition send_put :: "'m \<Rightarrow> ('cb, 'n, 'm) mqueue \<Rightarrow> ('cb, 'n, 'm) mqueue result" where
  "send_put x m = (case mq_send (mq m) (Some x) m of (m', _, r) \<Rightarrow> bindR r (\<lambda>_. Inr m'))"

definition tryGet_take :: "('cb, 'n, 'm) mqueue \<Rightarrow> (('cb, 'n, 'm) mqueue \<times> 'm option) result" where
  "tryGet_take m = (case mq_tryGet (\<lambda>_. True) m of (m', _, r) \<Rightarrow> bindR r (\<lambda>x. Inr (m', x)))"

lemma mq_send_dropping:
  assumes "\<not> mq_isClosed m" and "\<not> blocking (mq m)"
  shows "\<exists>m'. send_put x m = Inr m' \<and> queue (mq m') = last_n (maxSize (mq m)) (queue (mq m) @ [x]) \<and>
     \<not> mq_isClosed m' \<and> maxSize (mq m') = maxSize (mq m) \<and> \<not> blocking (mq m')"
  using assms push_at_once [of x "mq m"]
  by (auto simp: send_put_def mq_send_def run_call_def mq_isClosed_def Let_def outcome_defs last_n_def)

lemma mq_tryGet_cases:
  "\<not> mq_isClosed m \<Longrightarrow> queue (mq m) = [] \<Longrightarrow> fst (mq_tryGet p m) = m \<and> snd (snd (mq_tryGet p m)) = Inr None"
  "\<not> mq_isClosed m \<Longrightarrow> queue (mq m) = x # xs \<Longrightarrow>
     fst (mq_tryGet p m) = m\<lparr>mq := (mq m)\<lparr>queue := xs\<rparr>\<rparr> \<and> snd (snd (mq_tryGet p m)) = Inr (cast_to p x)"
  by (simp_all add: mq_tryGet_def tryPop_def outcome_defs Let_def)

interpretation mqc: channel
  "\<lambda>m. queue (mq m)" mq_isClosed "\<lambda>m. maxSize (mq m)" "\<lambda>m. \<not> blocking (mq m)" send_put tryGet_take
proof unfold_locales
  fix m :: "('a, 'b, 'c) mqueue" and x xs
  show "mq_isClosed m \<Longrightarrow> \<exists>e. send_put x m = Inl e"
    by (simp add: send_put_def mq_send_def)
  show "mq_isClosed m \<Longrightarrow> \<exists>e. tryGet_take m = Inl e"
    by (simp add: tryGet_take_def mq_tryGet_def)
  show "\<not> mq_isClosed m \<Longrightarrow> queue (mq m) = [] \<Longrightarrow> tryGet_take m = Inr (m, None)"
    using mq_tryGet_cases(1) [of m "\<lambda>_. True"] by (simp add: tryGet_take_def case_prod_beta)
  show "\<not> mq_isClosed m \<Longrightarrow> queue (mq m) = x # xs \<Longrightarrow>
      \<exists>q'. tryGet_take m = Inr (q', Some x) \<and> queue (mq q') = xs \<and> \<not> mq_isClosed q'"
    using mq_tryGet_cases(2) [of m x xs "\<lambda>_. True"]
    by (simp add: tryGet_take_def case_prod_beta cast_to_def mq_isClosed_def)
  show "\<not> mq_isClosed m \<Longrightarrow> \<not> blocking (mq m) \<Longrightarrow>
      \<exists>q'. send_put x m = Inr q' \<and> queue (mq q') = last_n (maxSize (mq m)) (queue (mq m) @ [x]) \<and>
        \<not> mq_isClosed q' \<and> maxSize (mq q') = maxSize (mq m) \<and> \<not> blocking (mq q')"
    by (rule mq_send_dropping)
qed

text \<open>
  A non-blocking queue is a window on the newest messages: after any sequence of sends to
  an open queue within its bound, \<open>n\<close> calls of \<open>tryGet\<close> return, in order, the first \<open>n\<close> of the
  newest \<open>maxSize\<close> messages of the old content and the sent ones, and no call raises.
\<close>

theorem nonblocking_keeps_newest:
  assumes "\<not> mq_isClosed m" and "\<not> blocking (mq m)" and "length (queue (mq m)) \<le> maxSize (mq m)"
  shows "\<exists>m'. bindR (mqc.put_all xs m) (mqc.take_n n) =
     Inr (m', take n (last_n (maxSize (mq m)) (queue (mq m) @ xs)))"
  by (rule mqc.put_all_take_n [OF assms])

theorem nonblocking_keeps_newest_witness:
  "\<exists>m'. bindR (mqc.put_all [3, 5, 7] (MessageQueue_new ''q'' 2 False True :: (unit, unit, nat) mqueue))
     (mqc.take_n 5) = Inr (m', [5, 7])"
  using nonblocking_keeps_newest [of "MessageQueue_new ''q'' 2 False True :: (unit, unit, nat) mqueue"
      "[3, 5, 7]" 5]
  by (simp add: MessageQueue_new_def LockingQueue_new_def mq_isClosed_def last_n_def)

section \<open>Closed queues\<close>

lemma run_call_closed:
  assumes "destructed q" and "c = WaitAndPop \<or> c = WaitAndConsumeAll"
  shows "oq (run_call c w q) = q \<and> \<not> oret (run_call c w q)"
  using assms by (cases "queue q = []") (auto simp: run_call_def wait_or_resume_def outcome_defs)

text \<open>
  Once a queue is closed, every send and every receive raises \<open>QueueException\<close> and leaves the
  queue as it is, whatever it still holds: no message is delivered after \<open>close\<close>. Only the
  \<open>send\<close> with a timeout still runs the callbacks first, and the untimed receives report the start
  of an input block that never ends.
\<close>

theorem closed_queue_refuses:
  fixes m :: "('cb, 'n, 'm) mqueue"
  defines "c \<equiv> fst (mq_close m)" and "QE \<equiv> QueueException CLOSED_QUEUE_MESSAGE"
  shows "queue (mq c) = queue (mq m) \<and> snd (mq_close m) = notifyListeners m \<and>
     mq_has c = Inl QE \<and> mq_has_T p c = Inl QE \<and> mq_front p c = Inl QE \<and>
     mq_send w (Some x) c = (c, [], Inl QE) \<and> mq_trySend w (Some x) c = (c, [], Inl QE) \<and>
     mq_send_timeout w (Some x) c = (c, callCallbacks c x, Inl QE) \<and>
     mq_tryGet p c = (c, [], Inl QE) \<and> mq_get p w c = (c, begin_block c, Inl QE) \<and>
     mq_get_timeout p w c = (c, [], Inl QE) \<and>
     mq_tryGetAll p c = (c, [], Inl QE) \<and> mq_getAll p w c = (c, begin_block c, Inl QE) \<and>
     mq_getAll_timeout p w c = (c, [], Inl QE)"
proof -
  have c: "mq_isClosed c" "destructed (mq c)" "queue (mq c) = queue (mq m)"
    by (simp_all add: c_def mq_close_def mq_isClosed_def lq_destruct_def)
  then show ?thesis
    using run_call_closed [OF c(2), of WaitAndPop w] run_call_closed [OF c(2), of WaitAndConsumeAll w]
    by (simp add: QE_def mq_has_def mq_has_T_def mq_front_def mq_send_def mq_trySend_def mq_send_timeout_def
        mq_tryGet_def mq_get_def mq_get_timeout_def mq_tryGetAll_def mq_getAll_def
        mq_getAll_timeout_def Let_def mq_close_def)
qed

section \<open>Waiting\<close>

definition registered :: "'n \<Rightarrow> int \<Rightarrow> ('cb, 'n, 'm) mqueue \<Rightarrow> bool" where
  "registered k i m = (map_of (notifiers m) i = Some k \<and> i < uniqueNotifierId m)"

lemma notifies_append [simp]: "notifies k (a @ b) = (notifies k a \<or> notifies k b)"
  by (auto simp: notifies_def)

lemma registered_notified: "registered k i m \<Longrightarrow> notifies k (notifyListeners m)"
  by (force simp: registered_def notifies_def notifyListeners_def list_ex_iff dest: map_of_SomeD)

lemmas mq_ops_defs = mq_send_def mq_send_timeout_def mq_trySend_def mq_tryGet_def mq_get_def
  mq_tryGetAll_def mq_close_def mq_setMaxSize_def mq_setBlocking_def mq_addCallback_def

lemma run_op_frame:
  assumes "\<forall>n. opn \<noteq> OpAddNotifier n" and "\<forall>i. opn \<noteq> OpRemoveNotifier i"
  shows "notifiers (fst (run_op opn m)) = notifiers m \<and>
    uniqueNotifierId (fst (run_op opn m)) = uniqueNotifierId m"
  using assms by (cases opn) (auto simp: mq_ops_defs Let_def split: option.splits if_splits)

lemma run_op_registered:
  "registered k i m \<Longrightarrow> opn \<noteq> OpRemoveNotifier i \<Longrightarrow> registered k i (fst (run_op opn m))"
  using run_op_frame [of opn m]
  by (cases opn) (auto simp: registered_def addNotifier_def removeNotifier_def update_conv' delete_conv')

lemma run_call_false:
  "\<not> destructed q \<Longrightarrow> \<not> oret (run_call (TryWaitAndPush x) q q) \<Longrightarrow> oq (run_call (TryWaitAndPush x) q q) = q"
  by (auto simp: run_call_def enter_push_def wait_or_resume_def Let_def outcome_defs split: if_splits)

lemma run_call_destructed: "destructed (oq (run_call c q q)) = destructed q"
  using enter_destructed [of c q] outcome_destructed(1) [of c]
  by (auto simp: run_call_def Let_def split: entry.splits)

definition offers :: "('cb, 'n, 'm) mqueue \<Rightarrow> bool" where
  "offers m = (\<not> mq_isClosed m \<and> queue (mq m) \<noteq> [])"

lemma checkForMessages_offers: "checkForMessages qs s = (\<exists>r \<in> set qs. offers (s r))"
  by (auto simp: checkForMessages_def offers_def mq_has_def list_ex_iff lq_empty_def)

lemma run_pop_queue:
  "queue (oq (run_call WaitAndPop q q)) \<noteq> [] \<Longrightarrow> queue q \<noteq> []"
  "queue (oq (tryPop q)) \<noteq> [] \<Longrightarrow> queue q \<noteq> []"
  "queue (oq (consumeAll q)) \<noteq> [] \<Longrightarrow> queue q \<noteq> []"
  by (auto simp: run_call_def wait_or_resume_def outcome_defs tryPop_def consumeAll_def split: if_splits)

text \<open>An operation that closes a queue or makes it offer a message notifies every listener.\<close>

lemma run_op_announces:
  assumes "registered k i m"
    and "mq_isClosed (fst (run_op opn m)) \<and> \<not> mq_isClosed m \<or> offers (fst (run_op opn m)) \<and> \<not> offers m"
  shows "notifies k (snd (run_op opn m))"
proof (cases "mq_isClosed m")
  case True
  with assms(2) show ?thesis
    by (cases opn)
      (auto simp: mq_ops_defs Let_def offers_def mq_isClosed_def run_call_destructed lq_destruct_def
         lq_setMaxSize_def lq_setBlocking_def addNotifier_def removeNotifier_def
         split: option.splits if_splits)
next
  case False
  then have d: "\<not> destructed (mq m)" by (simp add: mq_isClosed_def)
  show ?thesis
  proof (cases opn)
    case (OpSendTimeout x)
    with d assms registered_notified [OF assms(1)] run_call_false [OF d] show ?thesis
      by (auto simp: mq_send_timeout_def Let_def mq_isClosed_def offers_def run_call_destructed
          split: option.splits if_splits)
  next
    case (OpTrySend x)
    with d assms registered_notified [OF assms(1)] run_call_false [OF d] show ?thesis
      by (auto simp: mq_trySend_def mq_send_timeout_def Let_def mq_isClosed_def offers_def
          run_call_destructed split: option.splits if_splits)
  qed (use d assms registered_notified [OF assms(1)] in
      \<open>auto simp: mq_ops_defs Let_def offers_def mq_isClosed_def run_call_destructed outcome_destructed
         lq_setMaxSize_def lq_setBlocking_def addNotifier_def removeNotifier_def
         split: option.splits if_splits dest: run_pop_queue\<close>)
qed


fun run_sched :: "('r \<times> ('cb, 'n, 'm) mq_op) list \<Rightarrow> ('r, 'cb, 'n, 'm) qstore \<Rightarrow> ('r, 'cb, 'n, 'm) qstore" where
  "run_sched [] s = s"
| "run_sched ((r, opn) # sched) s = run_sched sched (s(r := fst (run_op opn (s r))))"

definition all_registered :: "'n \<Rightarrow> ('r \<times> int) list \<Rightarrow> ('r, 'cb, 'n, 'm) qstore \<Rightarrow> bool" where
  "all_registered k ids s = (\<forall>(r, i) \<in> set ids. registered k i (s r))"

lemma addNotifiers_registered:
  "addNotifiers k qs s = (t, ids) \<Longrightarrow>
     all_registered k ids t \<and> map fst ids = qs \<and>
     (\<forall>r. mq (t r) = mq (s r) \<and> (\<forall>i j. registered j i (s r) \<longrightarrow> registered j i (t r)))"
proof (induction qs arbitrary: s t ids)
  case Nil
  then show ?case by (auto simp: all_registered_def)
next
  case (Cons r qs)
  let ?s = "s(r := fst (addNotifier k (s r)))"
  obtain ids' where a: "addNotifiers k qs ?s = (t, ids')" "ids = (r, uniqueNotifierId (s r)) # ids'"
    using Cons.prems by (auto simp: Let_def addNotifier_def split: prod.splits)
  have "registered k (uniqueNotifierId (s r)) (?s r)"
    by (simp add: registered_def addNotifier_def update_conv')
  moreover have "registered j i (?s r')" if "registered j i (s r')" for i j r'
    using that by (auto simp: registered_def addNotifier_def update_conv')
  moreover have "mq (?s r') = mq (s r')" for r'
    by (simp add: addNotifier_def)
  ultimately show ?case
    using Cons.IH [OF a(1)] a(2) by (auto simp: all_registered_def)
qed

lemma case_option_None: "(case x of None \<Rightarrow> None | Some y \<Rightarrow> Some (f y)) = None \<Longrightarrow> x = None"
  by (cases x) simp_all

lemma step_pred_notifies:
  assumes "all_registered k ids s" and "qs = map fst ids" and "\<not> waitAny_pred qs s"
    and t: "t = s(r := fst (run_op opn (s r)))" and "waitAny_pred qs t"
  shows "notifies k (snd (run_op opn (s r)))"
proof -
  have "r \<in> set qs \<and> (mq_isClosed (t r) \<and> \<not> mq_isClosed (s r) \<or> offers (t r) \<and> \<not> offers (s r))"
    using assms(3,5) unfolding waitAny_pred_def checkAllClosed_def checkForMessages_offers list_all_iff t
    by (auto split: if_splits)
  moreover from this obtain i where "(r, i) \<in> set ids" using assms(2) by auto
  then have "registered k i (s r)" using assms(1) by (auto simp: all_registered_def)
  ultimately show ?thesis using run_op_announces [of k i "s r" opn] t by simp
qed

lemma step_registered:
  assumes "all_registered k ids s" and "\<forall>i. opn = OpRemoveNotifier i \<longrightarrow> (r, i) \<notin> set ids"
  shows "all_registered k ids (s(r := fst (run_op opn (s r))))"
  using assms run_op_registered [of k _ "s r" opn] by (fastforce simp: all_registered_def)

lemma acquire_loop_waits:
  assumes "acquire_loop k qs False sched s = None" and "all_registered k ids s" and "qs = map fst ids"
    and "\<not> waitAny_pred qs s" and "\<forall>(r, opn) \<in> set sched. \<forall>i. opn = OpRemoveNotifier i \<longrightarrow> (r, i) \<notin> set ids"
  shows "\<not> waitAny_pred qs (run_sched sched s)"
  using assms
proof (induction sched arbitrary: s)
  case (Cons a sched)
  obtain r opn where a: "a = (r, opn)" by force
  let ?t = "s(r := fst (run_op opn (s r)))"
  have "(if notifies k (snd (run_op opn (s r))) \<and> waitAny_pred qs ?t then Some ?t
      else acquire_loop k qs False sched ?t) = None"
    using Cons.prems(1) unfolding a acquire_loop.simps Let_def .
  then have loop: "acquire_loop k qs False sched ?t = None"
    and n: "\<not> (notifies k (snd (run_op opn (s r))) \<and> waitAny_pred qs ?t)"
    by (auto split: if_splits)
  have p: "\<not> waitAny_pred qs ?t" using step_pred_notifies [OF Cons.prems(2-4) refl] n by blast
  have "\<forall>i. opn = OpRemoveNotifier i \<longrightarrow> (r, i) \<notin> set ids" using Cons.prems(5) a by simp
  then have reg: "all_registered k ids ?t" by (rule step_registered [OF Cons.prems(2)])
  have "\<forall>(r, opn) \<in> set sched. \<forall>i. opn = OpRemoveNotifier i \<longrightarrow> (r, i) \<notin> set ids"
    using Cons.prems(5) by simp
  then have "\<not> waitAny_pred qs (run_sched sched ?t)" by (rule Cons.IH [OF loop reg Cons.prems(3) p])
  then show ?case unfolding a run_sched.simps .
qed simp

text \<open>
  C9. \<open>waitAny\<close> never sleeps through a message: if, after whatever the other threads did to
  the queues, a call without a timeout is still waiting, then no queue of the list has a message
  to offer and not all of them are closed. (No other thread removes the call's own notifiers.)
\<close>

theorem waitAny_misses_nothing:
  assumes "waitAny k qs False sched s = None"
    and "addNotifiers k qs s = (s1, ids)"
    and "\<forall>(r, opn) \<in> set sched. \<forall>i. opn = OpRemoveNotifier i \<longrightarrow> (r, i) \<notin> set ids"
  shows "\<not> checkForMessages qs (run_sched sched s1) \<and> \<not> checkAllClosed qs (run_sched sched s1)"
proof -
  have "(if \<not> checkAllClosed qs s1 \<and> \<not> checkForMessages qs s1
      then acquire_loop k qs False sched s1 else Some s1) = None"
    using assms(1) unfolding waitAny_def assms(2) prod.case by (rule case_option_None)
  then have l: "acquire_loop k qs False sched s1 = None" "\<not> waitAny_pred qs s1"
    by (auto simp: waitAny_pred_def split: if_splits)
  have "all_registered k ids s1" "qs = map fst ids"
    using addNotifiers_registered [OF assms(2)] by simp_all
  then have "\<not> waitAny_pred qs (run_sched sched s1)"
    by (rule acquire_loop_waits [OF l(1) _ _ l(2) assms(3)])
  then show ?thesis by (simp add: waitAny_pred_def)
qed

theorem waitAny_misses_nothing_witness:
  fixes s :: "(nat, unit, nat, nat) qstore"
  defines "s \<equiv> (\<lambda>_. MessageQueue_new ''q'' 2 True False)"
  shows "\<not> checkForMessages [5] (run_sched [(7, OpSend (Some 3))] (fst (addNotifiers 9 [5] s))) \<and>
    \<not> checkAllClosed [5] (run_sched [(7, OpSend (Some 3))] (fst (addNotifiers 9 [5] s)))"
proof -
  have "waitAny 9 [5] False [(7, OpSend (Some 3))] s = None"
    by (simp add: s_def waitAny_def checkAllClosed_def checkForMessages_def mq_isClosed_def mq_has_def
        MessageQueue_new_def LockingQueue_new_def addNotifier_def lq_empty_def waitAny_pred_def
        mq_send_def run_call_def enter_push_def wait_or_resume_def outcome_defs pings_def
        callCallbacks_def notifyListeners_def notifies_def)
  from waitAny_misses_nothing [OF this prod.collapse [symmetric]] show ?thesis by simp
qed

lemma removeNotifier_gone: "map_of (notifiers (fst (removeNotifier i m))) i = None"
  by (simp add: removeNotifier_def delete_conv')

lemma removeNotifier_frame:
  "mq (fst (removeNotifier i m)) = mq m"
  "map_of (notifiers m) j = None \<Longrightarrow> map_of (notifiers (fst (removeNotifier i m))) j = None"
  by (simp_all add: removeNotifier_def delete_conv')

lemma removeNotifiers_keep:
  "mq (removeNotifiers ids s r) = mq (s r) \<and>
   (map_of (notifiers (s r)) i = None \<longrightarrow> map_of (notifiers (removeNotifiers ids s r)) i = None)"
proof (induction ids arbitrary: s)
  case (Cons a ids)
  obtain r' i' where a: "a = (r', i')" by force
  let ?s = "s(r' := fst (removeNotifier i' (s r')))"
  have "mq (?s r) = mq (s r)"
    "map_of (notifiers (s r)) i = None \<longrightarrow> map_of (notifiers (?s r)) i = None"
    by (simp_all add: removeNotifier_frame)
  then show ?case using Cons.IH [of ?s] a by (metis removeNotifiers.simps(2))
qed simp

lemma removeNotifiers_gone:
  "(r, i) \<in> set ids \<Longrightarrow> map_of (notifiers (removeNotifiers ids s r)) i = None"
proof (induction ids arbitrary: s)
  case (Cons a ids)
  obtain r' i' where a: "a = (r', i')" by force
  let ?s = "s(r' := fst (removeNotifier i' (s r')))"
  have r: "removeNotifiers (a # ids) s = removeNotifiers ids ?s" by (simp add: a)
  show ?case
  proof (cases "(r, i) = (r', i')")
    case True
    then have "map_of (notifiers (?s r)) i = None" by (simp add: removeNotifier_gone)
    then show ?thesis unfolding r using removeNotifiers_keep [of ids ?s r i] by blast
  next
    case False
    with Cons.prems a have "(r, i) \<in> set ids" by auto
    then show ?thesis unfolding r by (rule Cons.IH)
  qed
qed simp

text \<open>
  When \<open>waitAny\<close> returns, it has taken its notifiers out of every queue again, and the flag
  it returns says exactly whether some queue of the list is open and holds a message.
\<close>

theorem waitAny_result:
  assumes "waitAny k qs to sched s = Some (t, got)" and "addNotifiers k qs s = (s1, ids)"
  shows "got = (\<exists>r \<in> set qs. \<not> destructed (mq (t r)) \<and> queue (mq (t r)) \<noteq> []) \<and>
    (\<forall>(r, i) \<in> set ids. map_of (notifiers (t r)) i = None)"
proof -
  obtain s2 where t: "t = removeNotifiers ids s2" "got = checkForMessages qs s2"
    using assms by (auto simp: waitAny_def split: option.splits)
  have "mq (t r) = mq (s2 r)" for r using removeNotifiers_keep t by metis
  with t show ?thesis
    by (auto simp: removeNotifiers_gone checkForMessages_offers offers_def mq_isClosed_def)
qed


theorem waitAny_result_witness:
  fixes s :: "(nat, unit, nat, nat) qstore"
  defines "s \<equiv> (\<lambda>_. MessageQueue_new ''q'' 2 True False)"
  shows "\<exists>t. waitAny 9 [5] False [(5, OpSend (Some 3))] s = Some (t, True) \<and>
    queue (mq (t 5)) = [3] \<and>
    True = (\<exists>r \<in> set [5]. \<not> destructed (mq (t r)) \<and> queue (mq (t r)) \<noteq> []) \<and>
    (\<forall>(r, i) \<in> set (snd (addNotifiers 9 [5] s)). map_of (notifiers (t r)) i = None)"
proof -
  have "\<exists>t. waitAny 9 [5] False [(5, OpSend (Some 3))] s = Some (t, True) \<and> queue (mq (t 5)) = [3]"
    by (simp add: s_def waitAny_def checkAllClosed_def checkForMessages_def mq_isClosed_def mq_has_def
        MessageQueue_new_def LockingQueue_new_def addNotifier_def lq_empty_def waitAny_pred_def
        mq_send_def run_call_def enter_push_def wait_or_resume_def outcome_defs pings_def
        callCallbacks_def notifyListeners_def notifies_def removeNotifier_def)
  then obtain t where t: "waitAny 9 [5] False [(5, OpSend (Some 3))] s = Some (t, True)"
    "queue (mq (t 5)) = [3]" by blast
  with waitAny_result [OF t(1) prod.collapse [symmetric]] show ?thesis by blast
qed

section \<open>Reading several queues\<close>

text \<open>With every queue open, \<open>getAny\<close> takes the first message of each non-empty queue.\<close>

lemma getAny_loop_open:
  assumes "distinct (map fst kvs)" and "distinct (map snd kvs)"
    and "\<forall>(key, r) \<in> set kvs. \<not> mq_isClosed (s r)" and "fst ` set inputs \<inter> fst ` set kvs = {}"
  shows "\<exists>t res. getAny_loop kvs s inputs = (t, Inr res) \<and>
    (\<forall>r. r \<notin> snd ` set kvs \<longrightarrow> t r = s r) \<and> (\<forall>x. x \<notin> fst ` set kvs \<longrightarrow> map_of res x = map_of inputs x) \<and>
    (\<forall>(key, r) \<in> set kvs. queue (mq (t r)) = tl (queue (mq (s r))) \<and>
       map_of res key = (case queue (mq (s r)) of [] \<Rightarrow> None | x # _ \<Rightarrow> Some x))"
  using assms
proof (induction kvs arbitrary: s inputs)
  case (Cons a kvs)
  obtain key r where a: "a = (key, r)" by force
  have o: "\<not> mq_isClosed (s r)" using Cons.prems(3) a by auto
  define m' where "m' = fst (mq_tryGet (\<lambda>_. True) (s r))"
  define s' where "s' = s(r := m')"
  define inputs' where
    "inputs' = (case queue (mq (s r)) of [] \<Rightarrow> inputs | x # _ \<Rightarrow> AList.update key x inputs)"
  have q: "queue (mq m') = tl (queue (mq (s r)))"
    using mq_tryGet_cases(1) [OF o, of "\<lambda>_. True"] mq_tryGet_cases(2) [OF o, of _ _ "\<lambda>_. True"]
    by (cases "queue (mq (s r))") (simp_all add: m'_def)
  have step: "getAny_loop (a # kvs) s inputs = getAny_loop kvs s' inputs'"
    using mq_tryGet_cases(1) [OF o, of "\<lambda>_. True"] mq_tryGet_cases(2) [OF o, of _ _ "\<lambda>_. True"]
    unfolding a s'_def m'_def inputs'_def
    by (cases "queue (mq (s r))") (simp_all add: case_prod_beta cast_to_def)
  have k: "map_of inputs key = None" using Cons.prems(4) a by (auto simp: map_of_eq_None_iff)
  have r: "\<forall>(key, r') \<in> set kvs. r' \<noteq> r"
    using Cons.prems(2) a by (force simp: image_iff)
  have i: "map_of inputs' x = (if x = key then (case queue (mq (s r)) of [] \<Rightarrow> None | y # _ \<Rightarrow> Some y)
      else map_of inputs x)" for x
    using k by (auto simp: inputs'_def update_conv' split: list.splits)
  have "\<forall>(key, r') \<in> set kvs. \<not> mq_isClosed (s' r')" using r Cons.prems(3) by (fastforce simp: s'_def)
  moreover have "fst ` set inputs' \<inter> fst ` set kvs = {}"
    using Cons.prems(1,4) a by (auto simp: inputs'_def dom_update split: list.splits)
  ultimately obtain t res where IH: "getAny_loop kvs s' inputs' = (t, Inr res)"
    "\<forall>r'. r' \<notin> snd ` set kvs \<longrightarrow> t r' = s' r'"
    "\<forall>x. x \<notin> fst ` set kvs \<longrightarrow> map_of res x = map_of inputs' x"
    "\<forall>(key, r') \<in> set kvs. queue (mq (t r')) = tl (queue (mq (s' r'))) \<and>
       map_of res key = (case queue (mq (s' r')) of [] \<Rightarrow> None | x # _ \<Rightarrow> Some x)"
    using Cons.IH [of s' inputs'] Cons.prems(1,2) by auto
  have "key \<notin> fst ` set kvs" "r \<notin> snd ` set kvs" using Cons.prems(1,2) a by auto
  then show ?case
    using IH r i q step a unfolding s'_def by (intro exI [of _ t] exI [of _ res]) (auto split: prod.splits)
qed simp

text \<open>
  When some queue has a message at the time \<open>waitAny\<close> returns and none of the queues (distinct
  references) is closed, \<open>getAny\<close> returns for every key the oldest message of its queue, or
  nothing for an empty queue, and removes exactly those messages.
\<close>

theorem getAny_collects:
  assumes "waitAny k (map snd queues) to sched s = Some (t, True)"
    and "distinct (map fst queues)" and "distinct (map snd queues)"
    and "\<forall>(key, r) \<in> set queues. \<not> mq_isClosed (t r)"
  shows "\<exists>u res. getAny k queues to sched s = Some (u, Inr res) \<and>
    (\<forall>(key, r) \<in> set queues. queue (mq (u r)) = tl (queue (mq (t r))) \<and>
       map_of res key = (case queue (mq (t r)) of [] \<Rightarrow> None | x # _ \<Rightarrow> Some x))"
  using getAny_loop_open [OF assms(2-4), of "[]"] assms(1) by (auto simp: getAny_def)


lemmas run_simps = waitAny_def checkAllClosed_def checkForMessages_def mq_isClosed_def mq_has_def
  MessageQueue_new_def LockingQueue_new_def addNotifier_def removeNotifier_def lq_empty_def

theorem getAny_collects_witness:
  fixes s :: "(nat, unit, nat, nat) qstore"
  defines "s \<equiv> (\<lambda>r. (MessageQueue_new ''q'' 2 True False)\<lparr>mq := (LockingQueue_new 2 True)\<lparr>queue := [r, 3]\<rparr>\<rparr>)"
  shows "\<exists>u res. getAny 9 [(''a'', 5), (''b'', 7)] False [] s = Some (u, Inr res) \<and>
    map_of res ''a'' = Some 5 \<and> queue (mq (u 7)) = [3]"
proof -
  have "\<exists>t. waitAny 9 (map snd [(''a'', 5), (''b'', 7)]) False [] s = Some (t, True) \<and>
     (\<forall>r. mq (t r) = mq (s r))"
    by (simp add: s_def run_simps)
  then obtain t where t: "waitAny 9 (map snd [(''a'', 5), (''b'', 7)]) False [] s = Some (t, True)"
    "\<And>r. mq (t r) = mq (s r)" by blast
  have "\<forall>(key, r) \<in> set [(''a'', 5), (''b'', 7)]. \<not> mq_isClosed (t r)"
    by (simp add: t(2) s_def mq_isClosed_def LockingQueue_new_def)
  from getAny_collects [OF t(1) _ _ this] show ?thesis
    by (auto simp: t(2) s_def LockingQueue_new_def)
qed

text \<open>
  A closed queue among the queues makes \<open>getAny\<close> raise as soon as another queue has a message,
  and the message it had already taken is lost: with an open queue holding \<open>x\<close> visited before a
  closed one, the call ends in \<open>QueueException\<close> and the open queue is empty afterwards.
\<close>

theorem getAny_loses_message:
  fixes s :: "(nat, 'cb, 'n, 'm) qstore" and x :: 'm
  defines "s \<equiv> (\<lambda>r. if r = 0 then (MessageQueue_new ''a'' 2 True False)\<lparr>mq := (LockingQueue_new 2 True)\<lparr>queue := [x]\<rparr>\<rparr>
                   else fst (mq_close (MessageQueue_new ''b'' 2 True False)))"
  shows "\<exists>t. getAny k [(''a'', 0), (''b'', 2)] to [] s = Some (t, Inl (QueueException CLOSED_QUEUE_MESSAGE)) \<and>
     queue (mq (s 0)) = [x] \<and> queue (mq (t 0)) = []"
  by (simp add: s_def getAny_def run_simps mq_close_def lq_destruct_def mq_tryGet_def tryPop_def
      outcome_defs Let_def cast_to_def)

end
