(* ===== verification/EventDispatcher.thy ===== *)
theory EventDispatcher
  imports Prelude
begin

text \<open>
  Pipeline events (src/utility/PipelineEventDispatcher.cpp,
  include/depthai/utility/PipelineEventDispatcherInterface.hpp,
  include/depthai/pipeline/datatype/PipelineEvent.hpp): the dispatcher of a node keeps one event
  per type and source, sends a copy at every start, end and ping, and hands out block events that
  send their end when they go out of scope. The clock is the argument \<open>now\<close>; the events sent on
  the output are returned in order, next to the new state and the result (a closed output queue
  is ignored by the code, so sending never fails).
\<close>

section \<open>Events and keys\<close>

datatype PipelineEvent_Type =
    Type_CUSTOM | Type_LOOP | Type_INPUT | Type_OUTPUT | Type_INPUT_BLOCK | Type_OUTPUT_BLOCK

datatype PipelineEvent_Interval = Interval_NONE | Interval_START | Interval_END

datatype PipelineEvent_Status = Status_SUCCESS | Status_BLOCKED | Status_CANCELLED

record PipelineEvent =
  ev_ts :: int
  ev_tsDevice :: int
  ev_sequenceNum :: int
  ev_nodeId :: int
  ev_status :: PipelineEvent_Status
  ev_queueSize :: "nat option"
  ev_interval :: PipelineEvent_Interval
  ev_type :: PipelineEvent_Type
  ev_source :: string

definition PipelineEvent_default :: PipelineEvent where
  "PipelineEvent_default =
     \<lparr>ev_ts = 0, ev_tsDevice = 0, ev_sequenceNum = 0, ev_nodeId = -1, ev_status = Status_SUCCESS,
      ev_queueSize = None, ev_interval = Interval_NONE, ev_type = Type_CUSTOM, ev_source = []\<rparr>"

fun typeToString :: "PipelineEvent_Type \<Rightarrow> string" where
  "typeToString Type_CUSTOM = ''CUSTOM''"
| "typeToString Type_LOOP = ''LOOP''"
| "typeToString Type_INPUT = ''INPUT''"
| "typeToString Type_OUTPUT = ''OUTPUT''"
| "typeToString Type_INPUT_BLOCK = ''INPUT_BLOCK''"
| "typeToString Type_OUTPUT_BLOCK = ''OUTPUT_BLOCK''"

definition makeKey :: "PipelineEvent_Type \<Rightarrow> string \<Rightarrow> string" where
  "makeKey ty src = typeToString ty @ ''#'' @ src"

definition blacklist :: "PipelineEvent_Type \<Rightarrow> string \<Rightarrow> bool" where
  "blacklist ty src = (ty = Type_OUTPUT \<and> src = ''pipelineEventOutput'')"

section \<open>The dispatcher\<close>

record EventStatus =
  es_event :: PipelineEvent
  ongoing :: bool

record dispatcher =
  d_nodeId :: int
  d_events :: "string \<Rightarrow> EventStatus option"
  d_has_out :: bool
  d_sendEvents :: bool
  d_sequence :: nat

definition PipelineEventDispatcher_new :: "int \<Rightarrow> bool \<Rightarrow> dispatcher" where
  "PipelineEventDispatcher_new i out =
     \<lparr>d_nodeId = i, d_events = Map.empty, d_has_out = out, d_sendEvents = True, d_sequence = 0\<rparr>"

text \<open>\<open>events[key]\<close>: a missing entry is value-initialised.\<close>

definition EventStatus_at :: "dispatcher \<Rightarrow> string \<Rightarrow> EventStatus" where
  "EventStatus_at d k =
     (case d_events d k of Some e \<Rightarrow> e | None \<Rightarrow> \<lparr>es_event = PipelineEvent_default, ongoing = False\<rparr>)"

definition set_status :: "string \<Rightarrow> EventStatus \<Rightarrow> dispatcher \<Rightarrow> dispatcher" where
  "set_status k e d = d\<lparr>d_events := (d_events d)(k \<mapsto> e)\<rparr>"

definition stamp :: "int \<Rightarrow> dispatcher \<Rightarrow> PipelineEvent_Type \<Rightarrow> string \<Rightarrow> PipelineEvent \<Rightarrow> PipelineEvent" where
  "stamp now d ty src e = e\<lparr>ev_ts := now, ev_tsDevice := now, ev_nodeId := d_nodeId d, ev_type := ty, ev_source := src\<rparr>"

type_synonym dispatch = "dispatcher \<times> PipelineEvent list \<times> unit result"

definition quiet :: "dispatcher \<Rightarrow> PipelineEvent_Type \<Rightarrow> string \<Rightarrow> bool" where
  "quiet d ty src = (\<not> d_sendEvents d \<or> blacklist ty src)"

definition NODE_ID_ERROR :: cpp_error where
  "NODE_ID_ERROR = RuntimeError ''Node ID not set on PipelineEventDispatcher''"

definition OUTPUT_ERROR :: cpp_error where
  "OUTPUT_ERROR = RuntimeError ''PipelineEventDispatcher output is null''"

definition startEvent :: "int \<Rightarrow> PipelineEvent_Type \<Rightarrow> string \<Rightarrow> nat option \<Rightarrow> dispatcher \<Rightarrow> dispatch" where
  "startEvent now ty src qs d =
     (if quiet d ty src then (d, [], Inr ())
      else if d_nodeId d = -1 then (d, [], Inl NODE_ID_ERROR)
      else
        (let old = es_event (EventStatus_at d (makeKey ty src));
             e = (stamp now d ty src old)\<lparr>ev_sequenceNum := ev_sequenceNum old + 1,
                   ev_queueSize := qs, ev_interval := Interval_START\<rparr>;
             d' = set_status (makeKey ty src) \<lparr>es_event = e, ongoing = True\<rparr> d
         in if d_has_out d then (d', [e], Inr ()) else (d', [], Inl OUTPUT_ERROR)))"

definition startInputEvent :: "int \<Rightarrow> string \<Rightarrow> nat option \<Rightarrow> dispatcher \<Rightarrow> dispatch" where
  "startInputEvent now src qs = startEvent now Type_INPUT src qs"

definition startOutputEvent :: "int \<Rightarrow> string \<Rightarrow> dispatcher \<Rightarrow> dispatch" where
  "startOutputEvent now src = startEvent now Type_OUTPUT src None"

definition startCustomEvent :: "int \<Rightarrow> string \<Rightarrow> dispatcher \<Rightarrow> dispatch" where
  "startCustomEvent now src = startEvent now Type_CUSTOM src None"

definition endEvent :: "int \<Rightarrow> PipelineEvent_Type \<Rightarrow> string \<Rightarrow> nat option \<Rightarrow> dispatcher \<Rightarrow> dispatch" where
  "endEvent now ty src qs d =
     (if quiet d ty src then (d, [], Inr ())
      else if d_nodeId d = -1 then (d, [], Inl NODE_ID_ERROR)
      else
        (let k = makeKey ty src; st = EventStatus_at d k in
         if \<not> ongoing st then
           (set_status k st d, [], Inl (RuntimeError (''Event with name '' @ src @ '' has not been started'')))
         else
           (let e = (stamp now d ty src (es_event st))\<lparr>ev_queueSize := qs, ev_interval := Interval_END\<rparr> in
            if d_has_out d
            then (set_status k \<lparr>es_event = e\<lparr>ev_queueSize := None\<rparr>, ongoing = False\<rparr> d, [e], Inr ())
            else (set_status k \<lparr>es_event = e, ongoing = False\<rparr> d, [], Inl OUTPUT_ERROR))))"

definition endInputEvent :: "int \<Rightarrow> string \<Rightarrow> nat option \<Rightarrow> dispatcher \<Rightarrow> dispatch" where
  "endInputEvent now src qs = endEvent now Type_INPUT src qs"

definition endOutputEvent :: "int \<Rightarrow> string \<Rightarrow> dispatcher \<Rightarrow> dispatch" where
  "endOutputEvent now src = endEvent now Type_OUTPUT src None"

definition endCustomEvent :: "int \<Rightarrow> string \<Rightarrow> dispatcher \<Rightarrow> dispatch" where
  "endCustomEvent now src = endEvent now Type_CUSTOM src None"

definition pingEvent :: "int \<Rightarrow> PipelineEvent_Type \<Rightarrow> string \<Rightarrow> dispatcher \<Rightarrow> dispatch" where
  "pingEvent now ty src d =
     (if quiet d ty src then (d, [], Inr ())
      else if d_nodeId d = -1 then (d, [], Inl NODE_ID_ERROR)
      else
        (let k = makeKey ty src; st = EventStatus_at d k in
         if ongoing st then
           (set_status k st d, [], Inl (RuntimeError (''Event with name '' @ src @ '' is already ongoing'')))
         else
           (let e = (stamp now d ty src (es_event st))
                      \<lparr>ev_sequenceNum := ev_sequenceNum (es_event st) + 1, ev_interval := Interval_NONE\<rparr>;
                d' = set_status k \<lparr>es_event = e, ongoing = False\<rparr> d
            in if d_has_out d then (d', [e], Inr ()) else (d', [], Inl OUTPUT_ERROR))))"

definition pingMainLoopEvent :: "int \<Rightarrow> dispatcher \<Rightarrow> dispatch" where
  "pingMainLoopEvent now = pingEvent now Type_LOOP ''_mainLoop''"

definition pingCustomEvent :: "int \<Rightarrow> string \<Rightarrow> dispatcher \<Rightarrow> dispatch" where
  "pingCustomEvent now src = pingEvent now Type_CUSTOM src"

definition pingInputEvent ::
  "int \<Rightarrow> string \<Rightarrow> PipelineEvent_Status \<Rightarrow> nat option \<Rightarrow> dispatcher \<Rightarrow> dispatch" where
  "pingInputEvent now src status qs d =
     (if quiet d Type_INPUT src then (d, [], Inr ())
      else if d_nodeId d = -1 then (d, [], Inl NODE_ID_ERROR)
      else
        (let k = makeKey Type_INPUT src; st = EventStatus_at d k;
             e = (stamp now d Type_INPUT src (es_event st))
                   \<lparr>ev_status := status, ev_queueSize := qs, ev_interval := Interval_NONE\<rparr>;
             d' = set_status k st d
         in if d_has_out d then (d', [e], Inr ()) else (d', [], Inl OUTPUT_ERROR)))"

text \<open>Tracked events carry their own sequence number and leave the table alone.\<close>

definition tracked ::
  "PipelineEvent_Interval \<Rightarrow> int \<Rightarrow> PipelineEvent \<Rightarrow> int option \<Rightarrow> dispatcher \<Rightarrow> dispatch" where
  "tracked iv now e ts d =
     (if quiet d (ev_type e) (ev_source e) then (d, [], Inr ())
      else if d_nodeId d = -1 then (d, [], Inl NODE_ID_ERROR)
      else
        (let t = (case ts of None \<Rightarrow> now | Some t \<Rightarrow> t);
             e' = e\<lparr>ev_ts := t, ev_tsDevice := t, ev_nodeId := d_nodeId d, ev_interval := iv\<rparr>
         in if d_has_out d then (d, [e'], Inr ()) else (d, [], Inl OUTPUT_ERROR)))"

definition startTrackedEvent :: "int \<Rightarrow> PipelineEvent \<Rightarrow> int option \<Rightarrow> dispatcher \<Rightarrow> dispatch" where
  "startTrackedEvent = tracked Interval_START"

definition endTrackedEvent :: "int \<Rightarrow> PipelineEvent \<Rightarrow> int option \<Rightarrow> dispatcher \<Rightarrow> dispatch" where
  "endTrackedEvent = tracked Interval_END"

definition tracked_event :: "PipelineEvent_Type \<Rightarrow> string \<Rightarrow> int \<Rightarrow> PipelineEvent" where
  "tracked_event ty src sq = PipelineEvent_default\<lparr>ev_type := ty, ev_source := src, ev_sequenceNum := sq\<rparr>"

definition startTrackedEvent_seq ::
  "int \<Rightarrow> PipelineEvent_Type \<Rightarrow> string \<Rightarrow> int \<Rightarrow> int option \<Rightarrow> dispatcher \<Rightarrow> dispatch" where
  "startTrackedEvent_seq now ty src sq = startTrackedEvent now (tracked_event ty src sq)"

definition endTrackedEvent_seq ::
  "int \<Rightarrow> PipelineEvent_Type \<Rightarrow> string \<Rightarrow> int \<Rightarrow> int option \<Rightarrow> dispatcher \<Rightarrow> dispatch" where
  "endTrackedEvent_seq now ty src sq = endTrackedEvent now (tracked_event ty src sq)"

section \<open>Block events\<close>

record BlockPipelineEvent =
  b_type :: PipelineEvent_Type
  b_source :: string
  b_sequence :: nat
  canceled :: bool
  b_queueSize :: "nat option"
  endTs :: "int option"

text \<open>The \<open>uint64_t\<close> number of the block stored in the \<open>int64_t\<close> field of the event.\<close>

definition to_i64 :: "nat \<Rightarrow> int" where
  "to_i64 n = (if n < 2 ^ 63 then int n else int n - 2 ^ 64)"

definition block_start :: "int \<Rightarrow> int option \<Rightarrow> BlockPipelineEvent \<Rightarrow> dispatcher \<Rightarrow> dispatch" where
  "block_start now ts b = startTrackedEvent now (tracked_event (b_type b) (b_source b) (to_i64 (b_sequence b))) ts"

definition blockEvent ::
  "int \<Rightarrow> PipelineEvent_Type \<Rightarrow> string \<Rightarrow> int option \<Rightarrow> bool \<Rightarrow> dispatcher \<Rightarrow>
     BlockPipelineEvent \<times> dispatch" where
  "blockEvent now ty src ts startNow d =
     (let b = \<lparr>b_type = ty, b_source = src, b_sequence = d_sequence d, canceled = \<not> d_sendEvents d,
               b_queueSize = None, endTs = None\<rparr>;
          d' = d\<lparr>d_sequence := (d_sequence d + 1) mod 2 ^ 64\<rparr>
      in (b, if d_sendEvents d \<and> startNow then block_start now ts b d' else (d', [], Inr ())))"

definition inputBlockEvent :: "int \<Rightarrow> bool \<Rightarrow> dispatcher \<Rightarrow> BlockPipelineEvent \<times> dispatch" where
  "inputBlockEvent now startNow = blockEvent now Type_INPUT_BLOCK ''getInputs'' None startNow"

definition outputBlockEvent :: "int \<Rightarrow> bool \<Rightarrow> dispatcher \<Rightarrow> BlockPipelineEvent \<times> dispatch" where
  "outputBlockEvent now startNow = blockEvent now Type_OUTPUT_BLOCK ''sendOutputs'' None startNow"

definition customBlockEvent :: "int \<Rightarrow> string \<Rightarrow> bool \<Rightarrow> dispatcher \<Rightarrow> BlockPipelineEvent \<times> dispatch" where
  "customBlockEvent now src startNow = blockEvent now Type_CUSTOM src None startNow"

text \<open>\<open>end()\<close>; \<open>unwinding\<close>: an exception is in flight. When \<open>endTrackedEvent\<close> throws, \<open>canceled\<close> stays.\<close>

definition block_end :: "int \<Rightarrow> bool \<Rightarrow> BlockPipelineEvent \<Rightarrow> dispatcher \<Rightarrow> BlockPipelineEvent \<times> dispatch" where
  "block_end now unwinding b d =
     (if unwinding then (b, d, [], Inr ())
      else
        (let e = (tracked_event (b_type b) (b_source b) (to_i64 (b_sequence b)))
                   \<lparr>ev_queueSize := b_queueSize b,
                    ev_status := if canceled b then Status_CANCELLED else Status_SUCCESS\<rparr>;
             (d', sent, r) = endTrackedEvent now e (endTs b) d
         in (case r of Inl _ \<Rightarrow> b | Inr _ \<Rightarrow> b\<lparr>canceled := True\<rparr>, d', sent, r)))"

definition block_cancel :: "BlockPipelineEvent \<Rightarrow> BlockPipelineEvent" where
  "block_cancel b = b\<lparr>canceled := True\<rparr>"

definition block_setQueueSize :: "nat \<Rightarrow> BlockPipelineEvent \<Rightarrow> BlockPipelineEvent" where
  "block_setQueueSize n b = b\<lparr>b_queueSize := Some n\<rparr>"

definition block_setEndTimestamp :: "int \<Rightarrow> BlockPipelineEvent \<Rightarrow> BlockPipelineEvent" where
  "block_setEndTimestamp t b = b\<lparr>endTs := Some t\<rparr>"

text \<open>The destructor.\<close>

definition block_destroy :: "int \<Rightarrow> bool \<Rightarrow> BlockPipelineEvent \<Rightarrow> dispatcher \<Rightarrow> dispatch" where
  "block_destroy now unwinding b d = snd (block_end now unwinding b d)"

section \<open>Keys\<close>

lemma typeToString_no_hash: "CHR ''#'' \<notin> set (typeToString ty)"
  by (cases ty) simp_all

lemma typeToString_inj: "typeToString a = typeToString b \<Longrightarrow> a = b"
  by (cases a; cases b) simp_all

text \<open>
  The table of events never mixes two sources: the key of an event determines its type and
  its source, whatever characters (also \<open>#\<close>) the source contains.
\<close>

theorem makeKey_injective: "makeKey ty src = makeKey ty' src' \<longleftrightarrow> ty = ty' \<and> src = src'"
  using append_sep_eq [OF typeToString_no_hash typeToString_no_hash] typeToString_inj
  by (auto simp: makeKey_def)

section \<open>Starts and ends pair up\<close>

datatype disp_op =
    OpStart PipelineEvent_Type string "nat option"
  | OpEnd PipelineEvent_Type string "nat option"
  | OpPing PipelineEvent_Type string
  | OpPingInput string PipelineEvent_Status "nat option"

fun run_disp :: "int \<Rightarrow> disp_op \<Rightarrow> dispatcher \<Rightarrow> dispatch" where
  "run_disp now (OpStart ty src qs) d = startEvent now ty src qs d"
| "run_disp now (OpEnd ty src qs) d = endEvent now ty src qs d"
| "run_disp now (OpPing ty src) d = pingEvent now ty src d"
| "run_disp now (OpPingInput src st qs) d = pingInputEvent now src st qs d"

text \<open>
  The events that operations other than \<open>pingInputEvent\<close> send for one key, in order.
\<close>

fun sent_for :: "string \<Rightarrow> (int \<times> disp_op) list \<Rightarrow> dispatcher \<Rightarrow> PipelineEvent list" where
  "sent_for k [] d = []"
| "sent_for k ((now, opn) # ops) d =
     (case run_disp now opn d of (d', sent, _) \<Rightarrow>
        (case opn of OpPingInput _ _ _ \<Rightarrow> []
         | _ \<Rightarrow> filter (\<lambda>e. makeKey (ev_type e) (ev_source e) = k) sent) @ sent_for k ops d')"

text \<open>
  \<open>bracketed n open es\<close>: the last sequence number used is \<open>n\<close>; starts and pings use the next one,
  an end closes the open event with its number, and no ping happens while an event is open.
\<close>

fun bracketed :: "int \<Rightarrow> bool \<Rightarrow> PipelineEvent list \<Rightarrow> bool" where
  "bracketed n opn [] = True"
| "bracketed n opn (e # es) =
     (case ev_interval e of
        Interval_START \<Rightarrow> ev_sequenceNum e = n + 1 \<and> bracketed (n + 1) True es
      | Interval_NONE \<Rightarrow> \<not> opn \<and> ev_sequenceNum e = n + 1 \<and> bracketed (n + 1) False es
      | Interval_END \<Rightarrow> opn \<and> ev_sequenceNum e = n \<and> bracketed n False es)"

lemma EventStatus_at_set: "EventStatus_at (set_status k e d) k' = (if k = k' then e else EventStatus_at d k')"
  by (simp add: EventStatus_at_def set_status_def)

lemma set_status_frame [simp]:
  "d_has_out (set_status k e d) = d_has_out d" "d_sendEvents (set_status k e d) = d_sendEvents d"
  "d_nodeId (set_status k e d) = d_nodeId d"
  by (simp_all add: set_status_def)

lemmas disp_defs = startEvent_def endEvent_def pingEvent_def pingInputEvent_def stamp_def Let_def

lemma run_disp_bracketed:
  assumes "d_has_out d" and "run_disp now opn d = (d', sent, r)"
    and "\<And>src st qs. opn \<noteq> OpPingInput src st qs"
  shows "d_has_out d' \<and> (let st = EventStatus_at d k; st' = EventStatus_at d' k;
      mine = filter (\<lambda>e. makeKey (ev_type e) (ev_source e) = k) sent in
    bracketed (ev_sequenceNum (es_event st')) (ongoing st') rest \<longrightarrow>
      bracketed (ev_sequenceNum (es_event st)) (ongoing st) (mine @ rest))"
proof (cases opn)
  case (OpStart ty src qs)
  with assms(1,2) show ?thesis
    by (auto simp: disp_defs EventStatus_at_set split: if_splits)
next
  case (OpEnd ty src qs)
  with assms(1,2) show ?thesis
    by (auto simp: disp_defs EventStatus_at_set split: if_splits)
next
  case (OpPing ty src)
  with assms(1,2) show ?thesis
    by (auto simp: disp_defs EventStatus_at_set split: if_splits)
qed (use assms(3) in simp)

lemma run_disp_pingInput:
  assumes "d_has_out d" and "pingInputEvent now src st qs d = (d', sent, r)"
  shows "d_has_out d' \<and> EventStatus_at d' k = EventStatus_at d k"
  using assms by (auto simp: disp_defs EventStatus_at_set split: if_splits)

lemma sent_for_bracketed:
  "d_has_out d \<Longrightarrow>
     bracketed (ev_sequenceNum (es_event (EventStatus_at d k))) (ongoing (EventStatus_at d k)) (sent_for k ops d)"
proof (induction ops arbitrary: d)
  case (Cons a ops)
  obtain now opn where a: "a = (now, opn)" by force
  obtain d' sent r where s: "run_disp now opn d = (d', sent, r)" by (metis prod_cases3)
  show ?case
  proof (cases "\<exists>src st qs. opn = OpPingInput src st qs")
    case True
    then obtain src st qs where opn: "opn = OpPingInput src st qs" by blast
    with s have "pingInputEvent now src st qs d = (d', sent, r)" by simp
    from run_disp_pingInput [OF Cons.prems this, of k] Cons.IH [of d'] s show ?thesis
      by (simp add: a opn)
  next
    case False
    then have "sent_for k (a # ops) d =
        filter (\<lambda>e. makeKey (ev_type e) (ev_source e) = k) sent @ sent_for k ops d'"
      using s by (cases opn) (auto simp: a)
    with run_disp_bracketed [OF Cons.prems s, of k "sent_for k ops d'"] False Cons.IH [of d']
    show ?thesis by (auto simp: Let_def)
  qed
qed simp


section \<open>Scopes of block events\<close>

definition scope_events :: "int \<Rightarrow> int \<Rightarrow> bool \<Rightarrow> bool \<Rightarrow> PipelineEvent_Type \<Rightarrow> string \<Rightarrow> dispatcher \<Rightarrow> PipelineEvent list" where
  "scope_events now later explicit_end unwinding ty src d =
     (case blockEvent now ty src None True d of (b, d1, s1, _) \<Rightarrow>
       (case (if explicit_end then block_end later False b d1 else (b, d1, [], Inr ())) of
          (b2, d2, s2, _) \<Rightarrow> (case block_destroy later unwinding b2 d2 of (_, s3, _) \<Rightarrow> s1 @ s2 @ s3)))"

text \<open>
  A block event whose scope is left normally sends a start and one successful end under the
  same sequence number, and the next block gets another number; when the scope is left by an
  exception the start has no end. After an explicit \<open>end()\<close> the destructor sends a second end,
  reported as cancelled.
\<close>

theorem block_event_scope:
  assumes "d_sendEvents d" and "d_has_out d" and "d_nodeId d \<noteq> -1" and "\<not> blacklist ty src"
  shows "map (\<lambda>e. (ev_interval e, ev_status e, ev_sequenceNum e)) (scope_events t1 t2 False False ty src d) =
      [(Interval_START, Status_SUCCESS, to_i64 (d_sequence d)), (Interval_END, Status_SUCCESS, to_i64 (d_sequence d))] \<and>
    map ev_interval (scope_events t1 t2 False True ty src d) = [Interval_START] \<and>
    map (\<lambda>e. (ev_interval e, ev_status e)) (scope_events t1 t2 True False ty src d) =
      [(Interval_START, Status_SUCCESS), (Interval_END, Status_SUCCESS), (Interval_END, Status_CANCELLED)] \<and>
    d_sequence (fst (snd (blockEvent t1 ty src None True d))) = (d_sequence d + 1) mod 2 ^ 64"
  using assms
  by (simp add: scope_events_def blockEvent_def block_start_def block_destroy_def block_end_def
      startTrackedEvent_def endTrackedEvent_def tracked_def tracked_event_def quiet_def Let_def
      PipelineEvent_default_def)

theorem block_event_scope_witness:
  "map (\<lambda>e. (ev_interval e, ev_status e))
     (scope_events 5 7 True False Type_INPUT ''in'' (PipelineEventDispatcher_new 3 True)) =
   [(Interval_START, Status_SUCCESS), (Interval_END, Status_SUCCESS), (Interval_END, Status_CANCELLED)]"
  using block_event_scope [of "PipelineEventDispatcher_new 3 True" Type_INPUT "''in''" 5 7]
  by (simp add: PipelineEventDispatcher_new_def blacklist_def)

end
