(* ===== verification/CircularBuffer.thy ===== *)
theory CircularBuffer
  imports Prelude
begin

text \<open>
  The circular buffer of the pipeline statistics (include/depthai/utility/CircularBuffer.hpp),
  its two iterators and the buffer with a running sum. The interface \<open>window\<close> says what its
  users rely on: the contents are the newest elements, oldest first.
\<close>

section \<open>The window contract\<close>

locale window =
  fixes contents :: "'b \<Rightarrow> 'a list"
    and capacity :: "'b \<Rightarrow> nat"
    and insert_newest :: "'a \<Rightarrow> 'b \<Rightarrow> 'b"
    and ok :: "'b \<Rightarrow> bool"
  assumes ok_insert: "ok b \<Longrightarrow> ok (insert_newest x b)"
    and capacity_insert: "ok b \<Longrightarrow> capacity (insert_newest x b) = capacity b"
    and contents_insert: "ok b \<Longrightarrow> contents (insert_newest x b) = last_n (capacity b) (contents b @ [x])"
    and contents_bound: "ok b \<Longrightarrow> length (contents b) \<le> capacity b"
begin

lemma insert_all:
  "ok b \<Longrightarrow> ok (fold insert_newest xs b) \<and> capacity (fold insert_newest xs b) = capacity b \<and>
     contents (fold insert_newest xs b) = last_n (capacity b) (contents b @ xs)"
proof (induction xs arbitrary: b)
  case (Cons x xs)
  then show ?case
    using Cons.IH [of "insert_newest x b"]
    by (simp add: ok_insert capacity_insert contents_insert last_n_last_n_append)
qed (simp add: contents_bound)

lemma newest: "ok b \<Longrightarrow> 0 < capacity b \<Longrightarrow> last (contents (insert_newest x b)) = x"
  by (simp add: contents_insert last_n_def)

end

section \<open>The buffer\<close>

record 'a circular =
  buffer :: "'a list"
  maxSize :: nat
  index :: nat

definition CircularBuffer_new :: "nat \<Rightarrow> 'a circular" where
  "CircularBuffer_new n = \<lparr>buffer = [], maxSize = n, index = 0\<rparr>"

definition cb_start :: "'a circular \<Rightarrow> nat" where
  "cb_start b = (if length (buffer b) < maxSize b then 0 else index b)"

definition cb_size :: "'a circular \<Rightarrow> nat" where
  "cb_size b = length (buffer b)"

text \<open>
  \<open>add\<close>, with the position of the element it returns a reference to; \<open>buffer[index]\<close> of an
  empty vector (a buffer of size 0) is undefined.
\<close>

definition cb_add :: "'a \<Rightarrow> 'a circular \<Rightarrow> ('a circular \<times> nat) result" where
  "cb_add x b =
     (if length (buffer b) < maxSize b then
        Inr (b\<lparr>buffer := buffer b @ [x]\<rparr>, length (buffer b))
      else if index b \<ge> length (buffer b) then Inl (UndefinedBehaviour ''buffer[index]'')
      else
        (let i = (index b + 1) mod maxSize b in
         Inr (b\<lparr>buffer := (buffer b)[index b := x], index := i\<rparr>, (i + maxSize b - 1) mod maxSize b)))"

definition getBuffer :: "'a circular \<Rightarrow> 'a list" where
  "getBuffer b =
     (if length (buffer b) < maxSize b then buffer b
      else drop (index b) (buffer b) @ take (index b) (buffer b))"

definition EMPTY_ERROR :: cpp_error where
  "EMPTY_ERROR = RuntimeError ''CircularBuffer is empty''"

definition cb_first :: "'a circular \<Rightarrow> 'a result" where
  "cb_first b =
     (if buffer b = [] then Inl EMPTY_ERROR
      else if length (buffer b) < maxSize b then Inr (hd (buffer b))
      else Inr (buffer b ! index b))"

definition cb_last :: "'a circular \<Rightarrow> 'a result" where
  "cb_last b =
     (if buffer b = [] then Inl EMPTY_ERROR
      else if length (buffer b) < maxSize b then Inr (last (buffer b))
      else Inr (buffer b ! ((index b + maxSize b - 1) mod maxSize b)))"

definition cb_clear :: "'a circular \<Rightarrow> 'a circular" where
  "cb_clear b = b\<lparr>buffer := [], index := 0\<rparr>"

definition cb_at :: "nat \<Rightarrow> 'a circular \<Rightarrow> 'a result" where
  "cb_at pos b =
     (if pos \<ge> length (buffer b) then Inl (OutOfRange ''CircularBuffer index out of range'')
      else Inr (buffer b ! ((cb_start b + pos) mod length (buffer b))))"

text \<open>
  The iterators are positions; \<open>deref\<close> and \<open>rderef\<close> are their \<open>operator*\<close>, and a loop from
  \<open>begin()\<close> to \<open>end()\<close> reads the positions 0, 1, ..., size - 1.
\<close>

definition deref :: "'a circular \<Rightarrow> nat \<Rightarrow> 'a" where
  "deref b pos = buffer b ! ((cb_start b + pos) mod length (buffer b))"

definition rderef :: "'a circular \<Rightarrow> nat \<Rightarrow> 'a" where
  "rderef b pos = buffer b ! ((cb_start b + length (buffer b) - 1 - pos) mod length (buffer b))"

function iterate :: "(nat \<Rightarrow> 'a) \<Rightarrow> nat \<Rightarrow> nat \<Rightarrow> 'a list" where
  "iterate f pos stop = (if pos < stop then f pos # iterate f (pos + 1) stop else [])"
  by pat_completeness auto
termination by (relation "measure (\<lambda>(f, pos, stop). stop - pos)") auto

declare iterate.simps [simp del]

definition forward :: "'a circular \<Rightarrow> 'a list" where
  "forward b = iterate (deref b) 0 (length (buffer b))"

definition backward :: "'a circular \<Rightarrow> 'a list" where
  "backward b = iterate (rderef b) 0 (length (buffer b))"

section \<open>The buffer is a window\<close>

definition cb_ok :: "'a circular \<Rightarrow> bool" where
  "cb_ok b = (0 < maxSize b \<and> length (buffer b) \<le> maxSize b \<and> index b < maxSize b \<and>
     (length (buffer b) < maxSize b \<longrightarrow> index b = 0))"

lemma cb_add_total: "cb_ok b \<Longrightarrow> \<exists>b' i. cb_add x b = Inr (b', i)"
  by (auto simp: cb_add_def cb_ok_def Let_def)

definition cb_push :: "'a \<Rightarrow> 'a circular \<Rightarrow> 'a circular" where
  "cb_push x b = (case cb_add x b of Inr (b', _) \<Rightarrow> b' | Inl _ \<Rightarrow> b)"

lemma mod_Suc_cases: "i < n \<Longrightarrow> (i + 1) mod n = (if i + 1 = n then 0 else i + 1)" for i n :: nat
  by auto

lemma cb_push_cases:
  assumes "cb_ok b"
  shows "cb_push x b =
     (if length (buffer b) < maxSize b then b\<lparr>buffer := buffer b @ [x]\<rparr>
      else b\<lparr>buffer := (buffer b)[index b := x],
             index := if index b + 1 = maxSize b then 0 else index b + 1\<rparr>)"
  using assms mod_Suc_cases [of "index b" "maxSize b"]
  by (auto simp: cb_push_def cb_add_def cb_ok_def Let_def)

lemma rotate_overwrite:
  assumes "i < length xs"
  shows "drop (i + 1) (xs[i := x]) @ take (i + 1) (xs[i := x]) = tl (drop i xs @ take i xs) @ [x]"
proof -
  have "take (Suc i) (xs[i := x]) = take i xs @ [x]" using assms by (simp add: take_Suc_conv_app_nth)
  moreover have "drop i xs = xs ! i # drop (Suc i) xs" using assms by (simp add: Cons_nth_drop_Suc)
  ultimately show ?thesis using assms by simp
qed

lemma getBuffer_push_full:
  assumes "cb_ok b" and "length (buffer b) = maxSize b"
  shows "getBuffer (cb_push x b) = tl (getBuffer b) @ [x]"
  using assms rotate_overwrite [of "index b" "buffer b" x]
  by (auto simp: cb_push_cases getBuffer_def cb_ok_def)

lemma length_getBuffer [simp]: "cb_ok b \<Longrightarrow> length (getBuffer b) = length (buffer b)"
  by (auto simp: getBuffer_def cb_ok_def)

interpretation cbw: window getBuffer maxSize cb_push cb_ok
proof unfold_locales
  fix b :: "'a circular" and x
  assume ok: "cb_ok b"
  show "cb_ok (cb_push x b)" using ok by (auto simp: cb_push_cases cb_ok_def)
  show "maxSize (cb_push x b) = maxSize b" using ok by (simp add: cb_push_cases)
  show "length (getBuffer b) \<le> maxSize b" using ok by (simp add: cb_ok_def)
  show "getBuffer (cb_push x b) = last_n (maxSize b) (getBuffer b @ [x])"
  proof (cases "length (buffer b) < maxSize b")
    case True
    with ok show ?thesis by (auto simp: cb_push_cases getBuffer_def cb_ok_def)
  next
    case False
    with ok have "length (buffer b) = maxSize b" by (simp add: cb_ok_def)
    with getBuffer_push_full [OF ok] ok length_getBuffer [OF ok] show ?thesis
      by (cases "getBuffer b") (auto simp: last_n_def cb_ok_def)
  qed
qed

text \<open>Every accessor reads the window.\<close>

lemma getBuffer_nth:
  assumes "cb_ok b" and "pos < length (buffer b)"
  shows "getBuffer b ! pos = buffer b ! ((cb_start b + pos) mod length (buffer b))"
proof (cases "length (buffer b) < maxSize b")
  case True
  with assms show ?thesis by (simp add: getBuffer_def cb_start_def)
next
  case False
  with assms have n: "length (buffer b) = maxSize b" "index b < length (buffer b)"
    by (simp_all add: cb_ok_def)
  then show ?thesis
  proof (cases "pos < length (buffer b) - index b")
    case True
    with n show ?thesis by (simp add: getBuffer_def cb_start_def nth_append)
  next
    case False
    with n have "\<not> index b + pos < maxSize b" by simp
    with n assms(2) have "(index b + pos) mod maxSize b = index b + pos - maxSize b"
      by (simp add: mod_if)
    with n False assms(2) show ?thesis
      by (simp add: getBuffer_def cb_start_def nth_append add.commute)
  qed
qed

lemma iterate_map: "iterate f pos stop = map f [pos..<stop]"
proof (induction f pos stop rule: iterate.induct)
  case (1 f pos stop)
  then show ?case by (subst iterate.simps) (simp add: upt_rec)
qed

lemma rderef_deref:
  assumes "cb_ok b" and "pos < length (buffer b)"
  shows "rderef b pos = getBuffer b ! (length (buffer b) - 1 - pos)"
proof -
  have "cb_start b + length (buffer b) - 1 - pos = cb_start b + (length (buffer b) - 1 - pos)"
    using assms(2) by simp
  with getBuffer_nth [OF assms(1), of "length (buffer b) - 1 - pos"] assms(2) show ?thesis
    by (simp add: rderef_def)
qed

lemma forward_window: "cb_ok b \<Longrightarrow> forward b = getBuffer b"
  by (rule nth_equalityI) (simp_all add: forward_def iterate_map deref_def getBuffer_nth)

lemma backward_window: "cb_ok b \<Longrightarrow> backward b = rev (getBuffer b)"
  by (rule nth_equalityI) (simp_all add: backward_def iterate_map rderef_deref rev_nth)

lemma getBuffer_empty: "cb_ok b \<Longrightarrow> getBuffer b = [] \<longleftrightarrow> buffer b = []"
  using length_getBuffer [of b] by (metis length_0_conv)

lemma cb_first_window: "cb_ok b \<Longrightarrow> cb_first b = (if getBuffer b = [] then Inl EMPTY_ERROR else Inr (hd (getBuffer b)))"
  using getBuffer_nth [of b 0]
  by (auto simp: cb_first_def getBuffer_empty hd_conv_nth cb_start_def cb_ok_def)

lemma cb_last_window:
  assumes "cb_ok b"
  shows "cb_last b = (if getBuffer b = [] then Inl EMPTY_ERROR else Inr (last (getBuffer b)))"
proof (cases "buffer b = [] \<or> length (buffer b) < maxSize b")
  case True
  with assms show ?thesis by (auto simp: cb_last_def getBuffer_empty getBuffer_def)
next
  case False
  with assms have n: "buffer b \<noteq> []" "length (buffer b) = maxSize b" "0 < maxSize b" by (auto simp: cb_ok_def)
  then have "last (getBuffer b) = getBuffer b ! (maxSize b - 1)"
    using assms by (simp add: last_conv_nth getBuffer_empty)
  also have "\<dots> = buffer b ! ((index b + maxSize b - 1) mod maxSize b)"
    using getBuffer_nth [OF assms, of "maxSize b - 1"] n by (simp add: cb_start_def)
  finally show ?thesis using n assms by (simp add: cb_last_def getBuffer_empty)
qed

text \<open>
  C40. After any sequence of additions to a buffer created with a positive size \<open>n\<close> (an addition never
  fails), the contents are the newest \<open>n\<close> values in order of arrival, and every accessor agrees
  with them: \<open>at\<close>, \<open>first\<close>, \<open>last\<close>, \<open>size\<close>, a loop over the iterator and, backwards, over the
  reverse iterator.
\<close>

theorem circular_buffer_is_window:
  fixes xs :: "'a list"
  assumes "0 < n"
  defines "b \<equiv> fold cb_push xs (CircularBuffer_new n)" and "w \<equiv> last_n n xs"
  shows "getBuffer b = w \<and> forward b = w \<and> backward b = rev w \<and> cb_size b = length w \<and>
    cb_first b = (if w = [] then Inl EMPTY_ERROR else Inr (hd w)) \<and>
    cb_last b = (if w = [] then Inl EMPTY_ERROR else Inr (last w)) \<and>
    cb_at i b = (if i < length w then Inr (w ! i) else Inl (OutOfRange ''CircularBuffer index out of range'')) \<and>
    (\<exists>b' j. cb_add x b = Inr (b', j) \<and> getBuffer b' = last_n n (xs @ [x]) \<and> buffer b' ! j = x)"
proof -
  let ?e = "CircularBuffer_new n :: 'a circular"
  have "cb_ok ?e" "getBuffer ?e = []" "maxSize ?e = n"
    using assms(1) by (simp_all add: cb_ok_def CircularBuffer_new_def getBuffer_def)
  then have ok: "cb_ok b" and w: "getBuffer b = w" and n: "maxSize b = n"
    using cbw.insert_all [of ?e xs] by (simp_all add: b_def w_def)
  obtain b' j where add: "cb_add x b = Inr (b', j)" using cb_add_total [OF ok] by blast
  then have b': "b' = cb_push x b" by (simp add: cb_push_def)
  have "getBuffer b' = last_n n (xs @ [x])"
    using cbw.contents_insert [OF ok, of x] w n by (simp add: b' w_def last_n_last_n_append)
  moreover have "buffer b' ! j = x"
    using add ok mod_Suc_cases [of "index b" "maxSize b"]
    by (auto simp: cb_add_def Let_def cb_ok_def nth_list_update split: if_splits)
  moreover have "cb_at i b = (if i < length w then Inr (w ! i) else Inl (OutOfRange ''CircularBuffer index out of range''))"
    using ok w getBuffer_nth [OF ok, of i] by (auto simp: cb_at_def)
  moreover have "cb_size b = length w" using ok w by (auto simp: cb_size_def)
  ultimately show ?thesis
    using add w forward_window [OF ok] backward_window [OF ok] cb_first_window [OF ok] cb_last_window [OF ok]
    by simp
qed

theorem circular_buffer_is_window_witness:
  "getBuffer (fold cb_push [3, 5, 7, 9] (CircularBuffer_new 3)) = [5, 7, 9::nat] \<and>
   backward (fold cb_push [3, 5, 7, 9] (CircularBuffer_new 3)) = [9, 7, 5::nat]"
  using circular_buffer_is_window [of 3 "[3, 5, 7, 9::nat]"] by (simp add: last_n_def)

section \<open>The windowed average\<close>

record 'a averaged = "'a circular" +
  w_sum :: 'a

definition WindowedAverageBuffer_new :: "nat \<Rightarrow> int \<Rightarrow> int averaged" where
  "WindowedAverageBuffer_new n initial = \<lparr>buffer = [], maxSize = n, index = 0, w_sum = initial\<rparr>"

definition onSwap :: "int \<Rightarrow> int \<Rightarrow> int averaged \<Rightarrow> int averaged" where
  "onSwap old new b = b\<lparr>w_sum := w_sum b - old + new\<rparr>"

definition onAdd :: "int \<Rightarrow> int averaged \<Rightarrow> int averaged" where
  "onAdd new b = b\<lparr>w_sum := w_sum b + new\<rparr>"

text \<open>\<open>add\<close> with the overridden hooks.\<close>

definition avg_add :: "int \<Rightarrow> int averaged \<Rightarrow> int averaged result" where
  "avg_add x b =
     (if length (buffer b) < maxSize b then
        (let b' = onAdd x b in Inr (b'\<lparr>buffer := buffer b' @ [x]\<rparr>))
      else if index b \<ge> length (buffer b) then Inl (UndefinedBehaviour ''buffer[index]'')
      else
        (let b' = onSwap (buffer b ! index b) x b in
         Inr (b'\<lparr>buffer := (buffer b')[index b := x], index := (index b + 1) mod maxSize b\<rparr>)))"

definition avg_clear :: "int averaged \<Rightarrow> int averaged" where
  "avg_clear b = b\<lparr>buffer := [], index := 0\<rparr>"

text \<open>The division of C++ rounds towards zero.\<close>

definition getAverage :: "int averaged \<Rightarrow> int result" where
  "getAverage b =
     (if length (buffer b) = 0 then Inl (RuntimeError ''WindowedAverageBuffer is empty'')
      else Inr (sgn (w_sum b) * (\<bar>w_sum b\<bar> div int (length (buffer b)))))"

definition forget_sum :: "int averaged \<Rightarrow> int circular" where
  "forget_sum b = \<lparr>buffer = buffer b, maxSize = maxSize b, index = index b\<rparr>"

definition avg_ok :: "int \<Rightarrow> int averaged \<Rightarrow> bool" where
  "avg_ok c b = (cb_ok (forget_sum b) \<and> w_sum b = c + sum_list (getBuffer (forget_sum b)))"

lemma sum_list_getBuffer: "sum_list (getBuffer b) = sum_list (buffer b)" for b :: "int circular"
proof -
  have "sum_list (drop i xs @ take i xs) = sum_list xs" for i and xs :: "int list"
    by (metis add.commute append_take_drop_id sum_list_append)
  then show ?thesis by (simp add: getBuffer_def)
qed

lemma sum_list_update: "i < length xs \<Longrightarrow> sum_list (xs[i := x]) = sum_list xs - xs ! i + x" for x :: int
  by (induction xs arbitrary: i) (auto split: nat.splits)

lemma avg_add_refines:
  assumes "avg_ok c b"
  shows "\<exists>b'. avg_add x b = Inr b' \<and> forget_sum b' = cb_push x (forget_sum b) \<and> avg_ok c b'"
proof -
  have ok: "cb_ok (forget_sum b)" using assms by (simp add: avg_ok_def)
  have i: "(index b + 1) mod maxSize b = (if index b + 1 = maxSize b then 0 else index b + 1)"
    using ok by (intro mod_Suc_cases) (simp add: cb_ok_def forget_sum_def)
  have "length (buffer b) < maxSize b \<or> index b < length (buffer b)"
    using ok by (auto simp: cb_ok_def forget_sum_def)
  then obtain b' where b': "avg_add x b = Inr b'"
    unfolding avg_add_def Let_def by (metis linorder_not_le)
  moreover have f: "forget_sum b' = cb_push x (forget_sum b)"
    using b' ok i by (auto simp: avg_add_def cb_push_cases forget_sum_def cb_ok_def Let_def
        onAdd_def onSwap_def split: if_splits)
  moreover have "avg_ok c b'"
    using assms b' cbw.ok_insert [OF ok, of x] unfolding avg_ok_def f [symmetric] sum_list_getBuffer
    by (auto simp: avg_add_def Let_def onAdd_def onSwap_def forget_sum_def sum_list_update split: if_splits)
  ultimately show ?thesis by blast
qed

text \<open>
  The running sum is exact: after any additions to a buffer of positive size \<open>n\<close> whose initial sum
  is 0, the average is the sum of the newest \<open>n\<close> values divided by their number, and no addition
  fails. (Over the integers; for floating point the sum is what rounding leaves.)
\<close>

theorem windowed_average_exact:
  assumes "0 < n" and "xs \<noteq> []"
  shows "\<exists>b. foldR avg_add xs (WindowedAverageBuffer_new n 0) = Inr b \<and>
    getAverage b = (let w = last_n n xs; s = sum_list w in Inr (sgn s * (\<bar>s\<bar> div int (length w))))"
proof -
  have "\<exists>b. foldR avg_add ys a = Inr b \<and> forget_sum b = fold cb_push ys (forget_sum a) \<and> avg_ok 0 b"
    if "avg_ok 0 a" for ys a
    using that
  proof (induction ys arbitrary: a)
    case (Cons y ys)
    from avg_add_refines [OF Cons.prems, of y] obtain a' where
      "avg_add y a = Inr a'" "forget_sum a' = cb_push y (forget_sum a)" "avg_ok 0 a'" by blast
    with Cons.IH [of a'] show ?case by auto
  qed simp
  moreover have a: "forget_sum (WindowedAverageBuffer_new n 0) = CircularBuffer_new n"
    by (simp add: forget_sum_def WindowedAverageBuffer_new_def CircularBuffer_new_def)
  moreover have c: "cb_ok (CircularBuffer_new n :: int circular)" "getBuffer (CircularBuffer_new n :: int circular) = []"
    "maxSize (CircularBuffer_new n :: int circular) = n"
    using assms(1) by (auto simp: cb_ok_def CircularBuffer_new_def getBuffer_def)
  moreover have "avg_ok 0 (WindowedAverageBuffer_new n 0)"
    unfolding avg_ok_def a using c by (simp add: WindowedAverageBuffer_new_def)
  ultimately obtain b where b: "foldR avg_add xs (WindowedAverageBuffer_new n 0) = Inr b"
    "forget_sum b = fold cb_push xs (CircularBuffer_new n)" "avg_ok 0 b"
    by metis
  have w: "getBuffer (forget_sum b) = last_n n xs"
    using cbw.insert_all [OF c(1), of xs] c b(2) by simp
  have ok: "cb_ok (forget_sum b)" and sm: "w_sum b = sum_list (last_n n xs)"
    using b(3) w by (simp_all add: avg_ok_def)
  have len: "length (buffer b) = length (last_n n xs)"
    using length_getBuffer [OF ok] unfolding w by (simp add: forget_sum_def)
  moreover have "length (last_n n xs) \<noteq> 0" using assms by simp
  ultimately have "getAverage b = Inr (sgn (w_sum b) * (\<bar>w_sum b\<bar> div int (length (buffer b))))"
    unfolding getAverage_def by (metis (no_types))
  with b(1) show ?thesis unfolding Let_def sm len by blast
qed

theorem windowed_average_exact_witness:
  "\<exists>b. foldR avg_add [9, 4, 6] (WindowedAverageBuffer_new 2 0) = Inr b \<and> getAverage b = Inr 5"
  using windowed_average_exact [of 2 "[9, 4, 6]"] by (simp add: last_n_def)

text \<open>
  \<open>clear\<close> of the averaging buffer empties the window and keeps the sum: the first average after it
  still contains the values that were cleared.
\<close>

theorem clear_keeps_sum:
  "bindR (foldR avg_add [10, 20] (WindowedAverageBuffer_new 2 0)) (\<lambda>b. bindR (avg_add 4 (avg_clear b)) getAverage) = Inr 34"
  by (simp add: avg_add_def WindowedAverageBuffer_new_def onAdd_def avg_clear_def getAverage_def Let_def)

end
