(* ===== verification/Assets.thy ===== *)
theory Assets
  imports Prelude
begin

text \<open>
  The asset managers of a pipeline and its nodes (src/pipeline/AssetManager.cpp,
  include/depthai/pipeline/AssetManager.hpp), the table and the storage they are serialized into,
  and the view a reader gets of one asset (include/depthai/pipeline/Assets.hpp). Sizes and offsets
  are the \<open>uint32_t\<close> of the code; assets are values, a null pointer is \<open>None\<close>.
\<close>

section \<open>State\<close>

record asset =
  a_key :: string
  a_data :: bytes
  a_alignment :: u32

definition Asset_new :: "string \<Rightarrow> asset" where
  "Asset_new k = \<lparr>a_key = k, a_data = [], a_alignment = 1\<rparr>"

definition getRelativeUri :: "asset \<Rightarrow> string" where
  "getRelativeUri a = ''asset'' @ '':'' @ a_key a"

record asset_manager =
  assetMap :: "(string \<times> asset) list"
  rootPath :: string

definition AssetManager_new :: "string \<Rightarrow> asset_manager" where
  "AssetManager_new root = \<lparr>assetMap = [], rootPath = root\<rparr>"

definition setRootPath :: "string \<Rightarrow> asset_manager \<Rightarrow> asset_manager" where
  "setRootPath root m = m\<lparr>rootPath := root\<rparr>"

definition starts_with :: "string \<Rightarrow> string \<Rightarrow> bool" where
  "starts_with p s = (take (length p) s = p)"

definition getRelativeKey :: "asset_manager \<Rightarrow> string \<Rightarrow> string" where
  "getRelativeKey m key =
     (if key = [] then []
      else if hd key = CHR ''/'' then
        (if starts_with (rootPath m) key then drop (length (rootPath m)) key else [])
      else key)"

definition set_asset :: "asset \<Rightarrow> asset_manager \<Rightarrow> asset_manager \<times> asset" where
  "set_asset a m = (m\<lparr>assetMap := smap_upd (a_key a) a (assetMap m)\<rparr>, a)"

definition set_asset_as :: "string \<Rightarrow> asset \<Rightarrow> asset_manager \<Rightarrow> asset_manager \<times> asset" where
  "set_asset_as key a =
     set_asset ((Asset_new key)\<lparr>a_data := a_data a, a_alignment := a_alignment a\<rparr>)"

text \<open>The \<open>int\<close> alignment of the caller is stored as \<open>uint32_t\<close>.\<close>

definition set_data :: "string \<Rightarrow> bytes \<Rightarrow> int \<Rightarrow> asset_manager \<Rightarrow> asset_manager \<times> asset" where
  "set_data key d al = set_asset ((Asset_new key)\<lparr>a_data := d, a_alignment := word_of_int al\<rparr>)"

text \<open>\<open>files path\<close> is the content of the file, \<open>None\<close> when it cannot be opened.\<close>

definition set_file ::
  "(string \<Rightarrow> bytes option) \<Rightarrow> string \<Rightarrow> string \<Rightarrow> int \<Rightarrow> asset_manager \<Rightarrow> (asset_manager \<times> asset) result" where
  "set_file files key path al m =
     (case files path of
        None \<Rightarrow> Inl (RuntimeError (''Cannot load asset, file at path '' @ path @ '' doesn't exist.''))
      | Some d \<Rightarrow> Inr (set_data key d al m))"

definition get_asset :: "string \<Rightarrow> asset_manager \<Rightarrow> asset option" where
  "get_asset key m = map_of (assetMap m) (getRelativeKey m key)"

text \<open>The exception leaves the assets added before it in the manager.\<close>

fun addExisting :: "asset list \<Rightarrow> asset_manager \<Rightarrow> asset_manager \<times> unit result" where
  "addExisting [] m = (m, Inr ())"
| "addExisting (a # as) m =
     (if map_of (assetMap m) (a_key a) \<noteq> None
      then (m, Inl (LogicError (''An Asset with the key: '' @ a_key a @ '' already exists.'')))
      else addExisting as (m\<lparr>assetMap := smap_upd (a_key a) a (assetMap m)\<rparr>))"

definition getAll :: "asset_manager \<Rightarrow> asset list" where
  "getAll m = map snd (assetMap m)"

definition asset_count :: "asset_manager \<Rightarrow> nat" where
  "asset_count m = length (assetMap m)"

definition remove_asset :: "string \<Rightarrow> asset_manager \<Rightarrow> asset_manager" where
  "remove_asset key m = m\<lparr>assetMap := smap_del key (assetMap m)\<rparr>"

section \<open>Serialization\<close>

record asset_internal =
  ai_offset :: u32
  ai_size :: u32
  ai_alignment :: u32

type_synonym asset_table = "string \<Rightarrow> asset_internal option"

definition table_set :: "string \<Rightarrow> u32 \<Rightarrow> u32 \<Rightarrow> u32 \<Rightarrow> asset_table \<Rightarrow> asset_table" where
  "table_set key offset sz alignment t =
     t(key \<mapsto> \<lparr>ai_offset = offset, ai_size = sz, ai_alignment = alignment\<rparr>)"

text \<open>\<open>int toAdd\<close>: the padding, converted to a signed 32-bit integer.\<close>

definition toAdd :: "u32 \<Rightarrow> nat \<Rightarrow> int" where
  "toAdd alignment sz =
     (if 1 < unat alignment \<and> sz mod unat alignment \<noteq> 0
      then sint (word_of_nat (unat alignment - sz mod unat alignment) :: i32)
      else 0)"

text \<open>\<open>storage.resize\<close> of a size that wrapped around below zero throws \<open>std::length_error\<close>.\<close>

definition resize :: "int \<Rightarrow> bytes \<Rightarrow> bytes result" where
  "resize n xs =
     (if n < 0 then Inl (LogicError ''vector::_M_default_append'')
      else Inr (take (nat n) xs @ replicate (nat n - length xs) 0))"

definition serialize_asset ::
  "string \<Rightarrow> asset \<Rightarrow> asset_table \<times> bytes \<Rightarrow> (asset_table \<times> bytes) result" where
  "serialize_asset prefix a ts =
     (case ts of (table, storage) \<Rightarrow>
        (let add = toAdd (a_alignment a) (length storage);
             offset = word_of_nat (length storage) + word_of_int add
         in bindR (resize (int (length storage) + add) storage)
              (\<lambda>padded. Inr (table_set (prefix @ a_key a) offset (word_of_nat (length (a_data a))) (a_alignment a) table,
                 padded @ a_data a))))"

definition serialize ::
  "string \<Rightarrow> asset_manager \<Rightarrow> asset_table \<times> bytes \<Rightarrow> (asset_table \<times> bytes) result" where
  "serialize prefix m =
     (let p = (if prefix = [] then rootPath m else prefix) in
      foldR (\<lambda>kv. serialize_asset p (snd kv)) (assetMap m))"

text \<open>
  The reader: \<open>has\<close>, and \<open>get\<close> as the bytes of the view (\<open>pStorageStart + offset\<close>, \<open>size\<close>).
\<close>

definition table_has :: "string \<Rightarrow> asset_table \<Rightarrow> bool" where
  "table_has key t = (t key \<noteq> None)"

definition get_view :: "string \<Rightarrow> asset_table \<times> bytes \<Rightarrow> (bytes \<times> u32) result" where
  "get_view key ts =
     (case ts of (table, storage) \<Rightarrow>
        (case table key of
           None \<Rightarrow> Inl (OutOfRange ''_Map_base::at'')
         | Some i \<Rightarrow>
             if unat (ai_offset i) + unat (ai_size i) \<le> length storage
             then Inr (take (unat (ai_size i)) (drop (unat (ai_offset i)) storage), ai_alignment i)
             else Inl (UndefinedBehaviour ''asset outside the storage'')))"

text \<open>
  \<open>PipelineImpl::serialize\<close>: the assets of the pipeline under \<open>/pipeline/\<close>, then those of every
  node under \<open>/node/<id>/\<close>, into an empty storage.
\<close>

definition node_prefix :: "int \<Rightarrow> string" where
  "node_prefix i = ''/node/'' @ dec_int i @ ''/''"

definition serialize_pipeline ::
  "asset_manager \<Rightarrow> (int \<times> asset_manager) list \<Rightarrow> (asset_table \<times> bytes) result" where
  "serialize_pipeline pm nodes =
     bindR (serialize ''/pipeline/'' pm (Map.empty, []))
       (foldR (\<lambda>(i, m). serialize (node_prefix i) m) nodes)"

section \<open>Loading a resource\<close>

text \<open>
  \<open>asset:\<close> URIs (src/pipeline/Pipeline.cpp): an absolute path is taken as it is, a relative one
  is put behind the working directory; then the pipeline's manager is asked, then the nodes' in
  order. The node managers are created with an empty root path.
\<close>

definition getAbsUri :: "string \<Rightarrow> string \<Rightarrow> string" where
  "getAbsUri uri cwd =
     (let scheme = takeWhile (\<lambda>c. c \<noteq> CHR '':'') uri;
          has_colon = (length scheme < length uri);
          resource_type = (if has_colon then scheme @ '':'' else []);
          rest = drop (length resource_type) uri
      in if rest \<noteq> [] \<and> hd rest = CHR ''/'' then uri else resource_type @ cwd @ rest)"

text \<open>
  Moving the data out: the entry is removed under the URI as given, and the asset, if the manager
  still holds it, is left without data.
\<close>

definition move_out :: "string \<Rightarrow> asset_manager \<Rightarrow> asset_manager" where
  "move_out key m =
     (let m' = remove_asset key m; k = getRelativeKey m key in
      case map_of (assetMap m') k of
        None \<Rightarrow> m'
      | Some a \<Rightarrow> m'\<lparr>assetMap := smap_upd k (a\<lparr>a_data := []\<rparr>) (assetMap m')\<rparr>)"

fun find_in_nodes :: "bool \<Rightarrow> string \<Rightarrow> asset_manager list \<Rightarrow> asset_manager list \<times> bytes option" where
  "find_in_nodes mv key [] = ([], None)"
| "find_in_nodes mv key (m # ms) =
     (case get_asset key m of
        Some a \<Rightarrow> ((if mv then move_out key m else m) # ms, Some (a_data a))
      | None \<Rightarrow> (case find_in_nodes mv key ms of (ms', r) \<Rightarrow> (m # ms', r)))"

definition asset_handler ::
  "bool \<Rightarrow> string \<Rightarrow> asset_manager \<times> asset_manager list \<Rightarrow>
     (asset_manager \<times> asset_manager list) \<times> bytes result" where
  "asset_handler mv key ms =
     (case get_asset key (fst ms) of
        Some a \<Rightarrow> ((if mv then move_out key (fst ms) else fst ms, snd ms), Inr (a_data a))
      | None \<Rightarrow>
          (case find_in_nodes mv key (snd ms) of
             (nodes, Some d) \<Rightarrow> ((fst ms, nodes), Inr d)
           | (nodes, None) \<Rightarrow>
               ((fst ms, nodes), Inl (InvalidArgument (''No asset with key ('' @ key @ '') found'')))))"

definition loadResourceCwd ::
  "string \<Rightarrow> string \<Rightarrow> bool \<Rightarrow> asset_manager \<times> asset_manager list \<Rightarrow>
     (asset_manager \<times> asset_manager list) \<times> bytes result" where
  "loadResourceCwd uri cwd mv ms =
     (if starts_with ''asset:'' uri then asset_handler mv (drop 6 (getAbsUri uri cwd)) ms
      else (ms, Inl (InvalidArgument (''No handler specified for following ('' @ uri @ '') URI''))))"

definition loadResource ::
  "string \<Rightarrow> asset_manager \<times> asset_manager list \<Rightarrow> (asset_manager \<times> asset_manager list) \<times> bytes result" where
  "loadResource uri = loadResourceCwd uri ''/pipeline'' False"

definition node_loadResource ::
  "int \<Rightarrow> string \<Rightarrow> asset_manager \<times> asset_manager list \<Rightarrow> (asset_manager \<times> asset_manager list) \<times> bytes result" where
  "node_loadResource i uri = loadResourceCwd uri (node_prefix i) False"

definition node_moveResource ::
  "int \<Rightarrow> string \<Rightarrow> asset_manager \<times> asset_manager list \<Rightarrow> (asset_manager \<times> asset_manager list) \<times> bytes result" where
  "node_moveResource i uri = loadResourceCwd uri (node_prefix i) True"

section \<open>The managers as maps\<close>

definition manager_ok :: "asset_manager \<Rightarrow> bool" where
  "manager_ok m = (smap_ok (assetMap m) \<and> (\<forall>(k, a) \<in> set (assetMap m). a_key a = k))"

lemma manager_ok_set:
  assumes "manager_ok m"
  shows "manager_ok (m\<lparr>assetMap := smap_upd (a_key a) a (assetMap m)\<rparr>)"
proof -
  have o: "smap_ok (assetMap m)" using assms by (simp add: manager_ok_def)
  have "a_key b = k" if "(k, b) \<in> set (smap_upd (a_key a) a (assetMap m))" for k b
  proof -
    have "map_of (smap_upd (a_key a) a (assetMap m)) k = Some b"
      using that smap.entry_iff_lookup [OF smap_ok_upd [OF o]] by (simp add: smap.lookup_def)
    then have "k = a_key a \<and> b = a \<or> map_of (assetMap m) k = Some b"
      by (auto simp: map_of_smap_upd [OF o] split: if_splits)
    with assms show ?thesis by (auto simp: manager_ok_def dest: map_of_SomeD)
  qed
  with smap_ok_upd [OF o] show ?thesis by (auto simp: manager_ok_def)
qed

lemma manager_ok_new: "manager_ok (AssetManager_new root)"
  by (simp add: manager_ok_def AssetManager_new_def smap_ok_def)

lemma manager_ok_ops:
  assumes "manager_ok m"
  shows "manager_ok (fst (set_asset a m))" "manager_ok (fst (set_asset_as k a m))"
    "manager_ok (fst (set_data k d al m))" "manager_ok (fst (addExisting as m))"
    "manager_ok (remove_asset k m)"
proof -
  show "manager_ok (fst (addExisting as m))"
    using assms by (induction as m rule: addExisting.induct) (auto simp: manager_ok_set)
  show "manager_ok (remove_asset k m)"
    using assms smap_ok_del [of "assetMap m" k] by (auto simp: manager_ok_def remove_asset_def smap_del_def)
  show set: "manager_ok (fst (set_asset a m))" for a
    using manager_ok_set [OF assms, of a] by (simp add: set_asset_def)
  show "manager_ok (fst (set_asset_as k a m))" "manager_ok (fst (set_data k d al m))"
    unfolding set_asset_as_def set_data_def by (rule set)+
qed

lemma starts_with_append [simp]: "starts_with p (p @ s)"
  by (simp add: starts_with_def)

lemma getRelativeKey_simps:
  "k \<noteq> [] \<Longrightarrow> hd k \<noteq> CHR ''/'' \<Longrightarrow> getRelativeKey m k = k"
  "rootPath m = CHR ''/'' # r \<Longrightarrow> getRelativeKey m (CHR ''/'' # r @ k) = k"
  using starts_with_append [of "CHR ''/'' # r" k] by (simp_all add: getRelativeKey_def)

lemma addExisting_success:
  "smap_ok (assetMap m) \<Longrightarrow> snd (addExisting as m) = Inr () \<longleftrightarrow>
     distinct (map a_key as) \<and> (\<forall>b \<in> set as. map_of (assetMap m) (a_key b) = None)"
proof (induction as m rule: addExisting.induct)
  case (2 a as m)
  have "(\<forall>b \<in> set as. ((map_of (assetMap m))(a_key a \<mapsto> a)) (a_key b) = None) \<longleftrightarrow>
      a_key a \<notin> a_key ` set as \<and> (\<forall>b \<in> set as. map_of (assetMap m) (a_key b) = None)"
    by (cases "a_key a \<in> a_key ` set as") (auto, metis image_eqI)
  with 2 show ?case by (auto simp: smap_ok_upd map_of_smap_upd)
qed simp

lemma addExisting_prefix:
  "\<exists>i \<le> length as. fst (addExisting as m) = foldl (\<lambda>m b. fst (set_asset b m)) m (take i as) \<and>
     (snd (addExisting as m) = Inr () \<longrightarrow> i = length as)"
proof (induction as m rule: addExisting.induct)
  case (2 b as n)
  show ?case
  proof (cases "map_of (assetMap n) (a_key b)")
    case None
    with 2 obtain i where "i \<le> length as"
      "fst (addExisting (b # as) n) = foldl (\<lambda>m b. fst (set_asset b m)) n (take (Suc i) (b # as))"
      "snd (addExisting (b # as) n) = Inr () \<longrightarrow> i = length as"
      by (auto simp: set_asset_def)
    then show ?thesis by (intro exI [of _ "Suc i"]) simp
  qed (auto intro: exI [of _ 0])
qed simp

text \<open>
  The asset manager is a map: after \<open>set\<close>, \<open>get\<close> finds the asset under its relative key and
  under the absolute key below the root path, and finds what it found before under every other
  relative key; \<open>remove\<close> takes a relative key out and leaves the others; \<open>addExisting\<close> succeeds
  exactly when all keys are new and different, and on failure keeps the assets before the
  offending one.
\<close>

theorem asset_manager_is_map:
  assumes ok: "manager_ok m"
    and k: "a_key a \<noteq> []" "hd (a_key a) \<noteq> CHR ''/''" and k': "k' \<noteq> []" "hd k' \<noteq> CHR ''/''"
    and root: "rootPath m = CHR ''/'' # r"
  shows "get_asset (a_key a) (fst (set_asset a m)) = Some a \<and>
    get_asset (rootPath m @ a_key a) (fst (set_asset a m)) = Some a \<and>
    (k' = a_key a \<or> get_asset k' (fst (set_asset a m)) = get_asset k' m) \<and>
    get_asset k' (remove_asset (a_key a) m) = (if k' = a_key a then None else get_asset k' m) \<and>
    (snd (addExisting as m) = Inr () \<longleftrightarrow>
       distinct (map a_key as) \<and> (\<forall>b \<in> set as. map_of (assetMap m) (a_key b) = None)) \<and>
    (\<exists>n \<le> length as. fst (addExisting as m) = foldl (\<lambda>m b. fst (set_asset b m)) m (take n as) \<and>
       (snd (addExisting as m) = Inr () \<longrightarrow> n = length as))"
proof -
  have o: "smap_ok (assetMap m)" using ok by (simp add: manager_ok_def)
  have "get_asset (a_key a) (fst (set_asset a m)) = Some a \<and>
    get_asset (rootPath m @ a_key a) (fst (set_asset a m)) = Some a \<and>
    (k' = a_key a \<or> get_asset k' (fst (set_asset a m)) = get_asset k' m) \<and>
    get_asset k' (remove_asset (a_key a) m) = (if k' = a_key a then None else get_asset k' m)"
    using o k k' root
    by (simp add: get_asset_def getRelativeKey_simps set_asset_def remove_asset_def map_of_smap_upd map_of_smap_del)
  with addExisting_success [OF o] addExisting_prefix [of as m] show ?thesis by blast
qed

theorem asset_manager_is_map_witness:
  "get_asset ''/pipeline/tuning'' (fst (set_asset (Asset_new ''tuning'') (AssetManager_new ''/pipeline/''))) =
     Some (Asset_new ''tuning'')"
  using asset_manager_is_map [OF manager_ok_new, of "Asset_new ''tuning''" "''blob''" "''/pipeline/''"
      "''pipeline/''" "[]"]
  by (simp add: AssetManager_new_def Asset_new_def)

section \<open>Relative URIs\<close>

lemma getAbsUri_relative:
  "k = [] \<or> hd k \<noteq> CHR ''/'' \<Longrightarrow> getAbsUri (''asset:'' @ k) cwd = ''asset:'' @ cwd @ k"
  by (auto simp: getAbsUri_def)

lemma getAbsUri_absolute: "getAbsUri (''asset:/'' @ k) cwd = ''asset:/'' @ k"
  by (simp add: getAbsUri_def)

text \<open>
  Resources: an asset of the pipeline's manager is found under the absolute URI
  \<open>asset:/pipeline/<key>\<close>. A relative URI does not work: \<open>Pipeline::loadResource\<close> puts the key behind
  \<open>/pipeline\<close> without a separator and looks up the empty key, and \<open>Node::loadResource\<close> never finds the
  node's own assets, because the node managers have no root path to strip.
\<close>

theorem load_resource_uris:
  assumes "map_of (assetMap pm) k = Some a" and "rootPath pm = ''/pipeline/''"
    and "k \<noteq> []" and "hd k \<noteq> CHR ''/''" and "map_of (assetMap pm) [] = None"
    and "\<forall>m \<in> set nodes. rootPath m = [] \<and> (\<forall>x. map_of (assetMap m) (CHR ''/'' # x) = None)"
  shows "snd (loadResource (''asset:/pipeline/'' @ k) (pm, nodes)) = Inr (a_data a) \<and>
    snd (loadResource (''asset:'' @ k) (pm, nodes)) =
      Inl (InvalidArgument (''No asset with key (/pipeline'' @ k @ '') found'')) \<and>
    (\<forall>i x. (x = [] \<or> hd x \<noteq> CHR ''/'') \<longrightarrow>
      snd (node_loadResource i (''asset:'' @ x) (pm, nodes)) =
        Inl (InvalidArgument (''No asset with key ('' @ node_prefix i @ x @ '') found'')))"
proof -
  have nodes: "find_in_nodes mv (CHR ''/'' # x) ns = (ns, None)"
    if "\<forall>m \<in> set ns. rootPath m = [] \<and> (\<forall>x. map_of (assetMap m) (CHR ''/'' # x) = None)" for mv x ns
    using that by (induction ns) (auto simp: get_asset_def getRelativeKey_def starts_with_def)
  have p: "get_asset (''/pipeline/'' @ k) pm = Some a"
    using assms(1,2) by (simp add: get_asset_def getRelativeKey_def starts_with_def)
  have q: "get_asset (''/pipeline'' @ k) pm = None"
    using assms(2-5) by (cases k) (auto simp: get_asset_def getRelativeKey_def starts_with_def)
  have n: "get_asset (node_prefix i @ x) pm = None" for i x
    using assms(2,5) by (simp add: get_asset_def getRelativeKey_def starts_with_def node_prefix_def)
  have "snd (loadResource (''asset:/pipeline/'' @ k) (pm, nodes)) = Inr (a_data a)"
    using p getAbsUri_absolute [of "''pipeline/'' @ k"]
    by (simp add: loadResource_def loadResourceCwd_def asset_handler_def starts_with_def)
  moreover have "snd (loadResource (''asset:'' @ k) (pm, nodes)) =
      Inl (InvalidArgument (''No asset with key (/pipeline'' @ k @ '') found''))"
    using q nodes [OF assms(6)] getAbsUri_relative [of k "''/pipeline''"] assms(4)
    by (simp add: loadResource_def loadResourceCwd_def asset_handler_def starts_with_def)
  moreover have "snd (node_loadResource i (''asset:'' @ x) (pm, nodes)) =
      Inl (InvalidArgument (''No asset with key ('' @ node_prefix i @ x @ '') found''))"
    if "x = [] \<or> hd x \<noteq> CHR ''/''" for i x
    using n [of i x] nodes [OF assms(6)] getAbsUri_relative [OF that, of "node_prefix i"]
    by (simp add: node_loadResource_def loadResourceCwd_def asset_handler_def starts_with_def node_prefix_def)
  ultimately show ?thesis by blast
qed

theorem load_resource_uris_witness:
  fixes pm :: asset_manager
  defines "pm \<equiv> fst (set_data ''k'' [7, 9] 64 (AssetManager_new ''/pipeline/''))"
  shows "snd (loadResource ''asset:/pipeline/k'' (pm, [])) = Inr [7, 9] \<and>
    snd (loadResource ''asset:k'' (pm, [])) = Inl (InvalidArgument ''No asset with key (/pipelinek) found'')"
  using load_resource_uris [of pm "''k''" "(Asset_new ''k'')\<lparr>a_data := [7, 9], a_alignment := 64\<rparr>" "[]"]
  by (simp add: pm_def set_data_def set_asset_def Asset_new_def AssetManager_new_def)

section \<open>Serialized assets are read back\<close>

text \<open>The padding of the code, for alignments that fit the signed conversion.\<close>

definition padding :: "u32 \<Rightarrow> nat \<Rightarrow> nat" where
  "padding al n = (if 1 < unat al \<and> n mod unat al \<noteq> 0 then unat al - n mod unat al else 0)"

lemma toAdd_padding:
  assumes "unat al \<le> 2 ^ 31"
  shows "toAdd al n = int (padding al n)"
proof (cases "1 < unat al \<and> n mod unat al \<noteq> 0")
  case True
  define m where "m = unat al - n mod unat al"
  have "m < 2 ^ 31" using assms True unfolding m_def by linarith
  then have "sint (word_of_nat m :: i32) = int m"
    by (simp add: signed_of_nat signed_take_bit_int_eq_self_iff)
  with True show ?thesis by (simp only: toAdd_def padding_def m_def if_True simp_thms)
qed (auto simp: toAdd_def padding_def)

lemma padding_aligns: "1 < unat al \<Longrightarrow> (n + padding al n) mod unat al = 0"
proof (cases "n mod unat al = 0")
  case False
  assume al: "1 < unat al"
  have "(n + (unat al - n mod unat al)) mod unat al = (n mod unat al + (unat al - n mod unat al)) mod unat al"
    by presburger
  also have "\<dots> = 0" using al by simp
  finally show ?thesis using al False by (simp add: padding_def)
qed (simp add: padding_def)

text \<open>Where the code puts an asset behind the storage written so far.\<close>

definition asset_bytes :: "asset \<Rightarrow> nat \<Rightarrow> bytes" where
  "asset_bytes a n = replicate (padding (a_alignment a) n) 0 @ a_data a"

definition entry_for :: "asset \<Rightarrow> nat \<Rightarrow> asset_internal" where
  "entry_for a n = \<lparr>ai_offset = word_of_nat (n + padding (a_alignment a) n),
     ai_size = word_of_nat (length (a_data a)), ai_alignment = a_alignment a\<rparr>"

lemma serialize_asset_eq:
  "unat (a_alignment a) \<le> 2 ^ 31 \<Longrightarrow>
     serialize_asset p a (t, st) = Inr (t(p @ a_key a \<mapsto> entry_for a (length st)), st @ asset_bytes a (length st))"
  by (simp add: serialize_asset_def Let_def toAdd_padding resize_def asset_bytes_def entry_for_def table_set_def nat_add_distrib)

definition placed :: "string \<Rightarrow> asset \<Rightarrow> asset_table \<times> bytes \<Rightarrow> bool" where
  "placed key a ts =
     (get_view key ts = Inr (a_data a, a_alignment a) \<and>
      (\<forall>i. fst ts key = Some i \<longrightarrow> 1 < unat (a_alignment a) \<longrightarrow> unat (ai_offset i) mod unat (a_alignment a) = 0))"

lemma placed_new:
  assumes "length (st @ asset_bytes a (length st)) < 2 ^ 32" and "t key = Some (entry_for a (length st))"
  shows "placed key a (t, (st @ asset_bytes a (length st)) @ rest)"
proof -
  define n where "n = length st + padding (a_alignment a) (length st)"
  define pre where "pre = st @ replicate (padding (a_alignment a) (length st)) 0"
  have u: "unat (word_of_nat m :: u32) = m" if "m < 2 ^ 32" for m
    using that by (simp add: unsigned_of_nat take_bit_nat_eq_self)
  have "n + length (a_data a) < 2 ^ 32" using assms(1) by (simp add: n_def asset_bytes_def)
  then have "unat (word_of_nat n :: u32) = n" "unat (word_of_nat (length (a_data a)) :: u32) = length (a_data a)"
    by (simp_all only: u)
  moreover have "length pre = n" "st @ asset_bytes a (length st) = pre @ a_data a"
    by (simp_all add: pre_def n_def asset_bytes_def)
  moreover have "1 < unat (a_alignment a) \<Longrightarrow> n mod unat (a_alignment a) = 0"
    unfolding n_def by (rule padding_aligns)
  ultimately show ?thesis
    using assms(2) unfolding entry_for_def n_def [symmetric] by (simp add: placed_def get_view_def)
qed

lemma serialize_assets:
  assumes "\<forall>a \<in> set as. unat (a_alignment a) \<le> 2 ^ 31" and "distinct (map a_key as)"
  shows "\<exists>t' ext. foldR (serialize_asset p) as (t, st) = Inr (t', st @ ext) \<and>
    (\<forall>key. t' key = None \<longleftrightarrow> t key = None \<and> (\<forall>a \<in> set as. key \<noteq> p @ a_key a)) \<and>
    (\<forall>key. (\<forall>a \<in> set as. key \<noteq> p @ a_key a) \<longrightarrow> t' key = t key) \<and>
    (\<forall>rest. length (st @ ext @ rest) < 2 ^ 32 \<longrightarrow>
       (\<forall>a \<in> set as. placed (p @ a_key a) a (t', st @ ext @ rest)))"
  using assms
proof (induction as arbitrary: t st)
  case (Cons a as)
  let ?t = "t(p @ a_key a \<mapsto> entry_for a (length st))" and ?b = "asset_bytes a (length st)"
  have al: "unat (a_alignment a) \<le> 2 ^ 31" using Cons.prems(1) by simp
  have "\<forall>a \<in> set as. unat (a_alignment a) \<le> 2 ^ 31" "distinct (map a_key as)" using Cons.prems by simp_all
  from Cons.IH [OF this, of ?t "st @ ?b"] obtain t' ext where IH:
    "foldR (serialize_asset p) as (?t, st @ ?b) = Inr (t', (st @ ?b) @ ext)"
    "\<forall>key. t' key = None \<longleftrightarrow> ?t key = None \<and> (\<forall>a \<in> set as. key \<noteq> p @ a_key a)"
    "\<forall>key. (\<forall>a \<in> set as. key \<noteq> p @ a_key a) \<longrightarrow> t' key = ?t key"
    "\<forall>rest. length ((st @ ?b) @ ext @ rest) < 2 ^ 32 \<longrightarrow>
       (\<forall>a \<in> set as. placed (p @ a_key a) a (t', (st @ ?b) @ ext @ rest))"
    by blast
  have "\<forall>b \<in> set as. p @ a_key a \<noteq> p @ a_key b" using Cons.prems(2) by auto
  then have "t' (p @ a_key a) = Some (entry_for a (length st))" using IH(3) by simp
  then have "placed (p @ a_key a) a (t', (st @ ?b) @ ext @ rest)"
    if "length (st @ (?b @ ext) @ rest) < 2 ^ 32" for rest
    using placed_new [of st a t' "p @ a_key a" "ext @ rest"] that by simp
  moreover have "\<forall>a \<in> set as. placed (p @ a_key a) a (t', st @ (?b @ ext) @ rest)"
    if "length (st @ (?b @ ext) @ rest) < 2 ^ 32" for rest
    using IH(4) [THEN spec, of rest] that by simp
  ultimately have "\<forall>b \<in> set (a # as). placed (p @ a_key b) b (t', st @ (?b @ ext) @ rest)"
    if "length (st @ (?b @ ext) @ rest) < 2 ^ 32" for rest
    using that by simp
  moreover have "foldR (serialize_asset p) (a # as) (t, st) = Inr (t', st @ (?b @ ext))"
    using IH(1) al by (simp add: serialize_asset_eq)
  moreover have "\<forall>key. t' key = None \<longleftrightarrow> t key = None \<and> (\<forall>b \<in> set (a # as). key \<noteq> p @ a_key b)"
    using IH(2) by auto
  moreover have "\<forall>key. (\<forall>b \<in> set (a # as). key \<noteq> p @ a_key b) \<longrightarrow> t' key = t key"
    using IH(3) by simp
  ultimately show ?case by blast
qed simp

lemma foldR_map: "foldR (\<lambda>x. f (g x)) xs s = foldR f (map g xs) s"
  by (induction xs arbitrary: s) (simp_all add: bindR_def split: sum.splits)

lemma manager_ok_keys:
  assumes "manager_ok m"
  shows "map a_key (getAll m) = map fst (assetMap m)"
  using assms by (auto simp: manager_ok_def getAll_def)

lemma serialize_manager:
  assumes "manager_ok m" and "\<forall>a \<in> set (getAll m). unat (a_alignment a) \<le> 2 ^ 31" and "p \<noteq> []"
  shows "\<exists>t' ext. serialize p m (t, st) = Inr (t', st @ ext) \<and>
    (\<forall>key. t' key = None \<longleftrightarrow> t key = None \<and> (\<forall>a \<in> set (getAll m). key \<noteq> p @ a_key a)) \<and>
    (\<forall>key. (\<forall>a \<in> set (getAll m). key \<noteq> p @ a_key a) \<longrightarrow> t' key = t key) \<and>
    (\<forall>rest. length (st @ ext @ rest) < 2 ^ 32 \<longrightarrow>
       (\<forall>a \<in> set (getAll m). placed (p @ a_key a) a (t', st @ ext @ rest)))"
proof -
  have "distinct (map a_key (getAll m))"
    using smap.distinct_keys [of "assetMap m"] assms(1) by (simp add: manager_ok_keys manager_ok_def)
  from serialize_assets [OF assms(2) this, of p t st] show ?thesis
    using assms(3) by (simp add: serialize_def getAll_def foldR_map [of "serialize_asset p" snd])
qed

lemma placed_other: "t key = t' key \<Longrightarrow> placed key a (t, st) = placed key a (t', st)"
  by (simp add: placed_def get_view_def)

lemma dec_int_no_slash: "CHR ''/'' \<notin> set (dec_int i)"
  using dec_int_chars [of "CHR ''/''" i] by auto

lemma node_prefix_eq: "node_prefix i @ k = node_prefix j @ k' \<longleftrightarrow> i = j \<and> k = k'"
  using append_sep_eq [OF dec_int_no_slash dec_int_no_slash] by (auto simp: node_prefix_def)

definition managers_ok :: "asset_manager list \<Rightarrow> bool" where
  "managers_ok ms = list_all (\<lambda>m. manager_ok m \<and> list_all (\<lambda>a. unat (a_alignment a) \<le> 2 ^ 31) (getAll m)) ms"

lemma serialize_nodes:
  assumes "managers_ok (map snd nodes)" and "distinct (map fst nodes)"
  shows "\<exists>t' ext. foldR (\<lambda>(i, m). serialize (node_prefix i) m) nodes (t, st) = Inr (t', st @ ext) \<and>
    (\<forall>key. t' key = None \<longleftrightarrow> t key = None \<and> (\<forall>(i, m) \<in> set nodes. \<forall>a \<in> set (getAll m). key \<noteq> node_prefix i @ a_key a)) \<and>
    (\<forall>key. (\<forall>(i, m) \<in> set nodes. \<forall>a \<in> set (getAll m). key \<noteq> node_prefix i @ a_key a) \<longrightarrow> t' key = t key) \<and>
    (\<forall>rest. length (st @ ext @ rest) < 2 ^ 32 \<longrightarrow>
       (\<forall>(i, m) \<in> set nodes. \<forall>a \<in> set (getAll m). placed (node_prefix i @ a_key a) a (t', st @ ext @ rest)))"
  using assms
proof (induction nodes arbitrary: t st)
  case (Cons im nodes)
  obtain i m where im: "im = (i, m)" by force
  have m: "manager_ok m" "\<forall>a \<in> set (getAll m). unat (a_alignment a) \<le> 2 ^ 31"
    using Cons.prems(1) by (simp_all add: im managers_ok_def list_all_iff)
  have "node_prefix i \<noteq> []" by (simp add: node_prefix_def)
  from serialize_manager [OF m this, of t st] obtain t1 e1 where s1:
    "serialize (node_prefix i) m (t, st) = Inr (t1, st @ e1)"
    "\<forall>key. t1 key = None \<longleftrightarrow> t key = None \<and> (\<forall>a \<in> set (getAll m). key \<noteq> node_prefix i @ a_key a)"
    "\<forall>key. (\<forall>a \<in> set (getAll m). key \<noteq> node_prefix i @ a_key a) \<longrightarrow> t1 key = t key"
    "\<forall>rest. length (st @ e1 @ rest) < 2 ^ 32 \<longrightarrow>
       (\<forall>a \<in> set (getAll m). placed (node_prefix i @ a_key a) a (t1, st @ e1 @ rest))"
    by blast
  have "managers_ok (map snd nodes)" "distinct (map fst nodes)"
    using Cons.prems by (simp_all add: managers_ok_def)
  from Cons.IH [OF this, of t1 "st @ e1"] obtain t2 e2 where s2:
    "foldR (\<lambda>(i, m). serialize (node_prefix i) m) nodes (t1, st @ e1) = Inr (t2, (st @ e1) @ e2)"
    "\<forall>key. t2 key = None \<longleftrightarrow> t1 key = None \<and> (\<forall>(i, m) \<in> set nodes. \<forall>a \<in> set (getAll m). key \<noteq> node_prefix i @ a_key a)"
    "\<forall>key. (\<forall>(i, m) \<in> set nodes. \<forall>a \<in> set (getAll m). key \<noteq> node_prefix i @ a_key a) \<longrightarrow> t2 key = t1 key"
    "\<forall>rest. length ((st @ e1) @ e2 @ rest) < 2 ^ 32 \<longrightarrow>
       (\<forall>(i, m) \<in> set nodes. \<forall>a \<in> set (getAll m). placed (node_prefix i @ a_key a) a (t2, (st @ e1) @ e2 @ rest))"
    by blast
  have mine: "placed (node_prefix i @ a_key a) a (t2, st @ (e1 @ e2) @ rest)"
    if "length (st @ (e1 @ e2) @ rest) < 2 ^ 32" "a \<in> set (getAll m)" for a rest
  proof -
    have "i \<notin> fst ` set nodes" using Cons.prems(2) im by simp
    then have "\<forall>(j, n) \<in> set nodes. \<forall>b \<in> set (getAll n). node_prefix i @ a_key a \<noteq> node_prefix j @ a_key b"
      by (force simp: node_prefix_eq)
    then have "t2 (node_prefix i @ a_key a) = t1 (node_prefix i @ a_key a)" using s2(3) by blast
    moreover have "placed (node_prefix i @ a_key a) a (t1, st @ e1 @ (e2 @ rest))" using s1(4) that by simp
    ultimately show ?thesis using placed_other [of t2 "node_prefix i @ a_key a" t1 a "st @ e1 @ e2 @ rest"] by simp
  qed
  have "\<forall>rest. length (st @ (e1 @ e2) @ rest) < 2 ^ 32 \<longrightarrow>
     (\<forall>(i, m) \<in> set (im # nodes). \<forall>a \<in> set (getAll m). placed (node_prefix i @ a_key a) a (t2, st @ (e1 @ e2) @ rest))"
    using s2(4) mine unfolding im by simp
  moreover have "foldR (\<lambda>(i, m). serialize (node_prefix i) m) (im # nodes) (t, st) = Inr (t2, st @ (e1 @ e2))"
    using s1(1) s2(1) by (simp add: im)
  moreover have "\<forall>key. t2 key = None \<longleftrightarrow> t key = None \<and>
      (\<forall>(i, m) \<in> set (im # nodes). \<forall>a \<in> set (getAll m). key \<noteq> node_prefix i @ a_key a)"
    using s1(2) s2(2) by (simp add: im)
  moreover have "\<forall>key. (\<forall>(i, m) \<in> set (im # nodes). \<forall>a \<in> set (getAll m). key \<noteq> node_prefix i @ a_key a) \<longrightarrow> t2 key = t key"
    using s1(3) s2(3) by (simp add: im)
  ultimately show ?case by blast
qed simp

text \<open>
  C35. Serializing a pipeline puts every asset of the pipeline and of every node (distinct ids) into
  the table under its own key and into the storage at its alignment: as long as the storage stays
  below 4 GiB and no alignment exceeds \<open>2^31\<close>, the call succeeds and reading any key back gives
  exactly the data and alignment of its asset, and the table has no other keys.
\<close>

theorem pipeline_assets_roundtrip:
  assumes "managers_ok (pm # map snd nodes)" and "distinct (map fst nodes)"
  shows "\<exists>t st. serialize_pipeline pm nodes = Inr (t, st) \<and>
    (\<forall>key. table_has key t \<longleftrightarrow> (\<exists>a \<in> set (getAll pm). key = ''/pipeline/'' @ a_key a) \<or>
       (\<exists>(i, m) \<in> set nodes. \<exists>a \<in> set (getAll m). key = node_prefix i @ a_key a)) \<and>
    (length st < 2 ^ 32 \<longrightarrow>
       (\<forall>a \<in> set (getAll pm). placed (''/pipeline/'' @ a_key a) a (t, st)) \<and>
       (\<forall>(i, m) \<in> set nodes. \<forall>a \<in> set (getAll m). placed (node_prefix i @ a_key a) a (t, st)))"
proof -
  have pm: "manager_ok pm" "\<forall>a \<in> set (getAll pm). unat (a_alignment a) \<le> 2 ^ 31"
    and ns: "managers_ok (map snd nodes)"
    using assms(1) by (simp_all add: managers_ok_def list_all_iff)
  from serialize_manager [OF pm, of "''/pipeline/''" Map.empty "[]"] obtain t1 e1 where s1:
    "serialize ''/pipeline/'' pm (Map.empty, []) = Inr (t1, e1)"
    "\<forall>key. t1 key = None \<longleftrightarrow> (\<forall>a \<in> set (getAll pm). key \<noteq> ''/pipeline/'' @ a_key a)"
    "\<forall>rest. length (e1 @ rest) < 2 ^ 32 \<longrightarrow>
       (\<forall>a \<in> set (getAll pm). placed (''/pipeline/'' @ a_key a) a (t1, e1 @ rest))"
    by auto
  from serialize_nodes [OF ns assms(2), of t1 e1] obtain t2 e2 where s2:
    "foldR (\<lambda>(i, m). serialize (node_prefix i) m) nodes (t1, e1) = Inr (t2, e1 @ e2)"
    "\<forall>key. t2 key = None \<longleftrightarrow> t1 key = None \<and> (\<forall>(i, m) \<in> set nodes. \<forall>a \<in> set (getAll m). key \<noteq> node_prefix i @ a_key a)"
    "\<forall>key. (\<forall>(i, m) \<in> set nodes. \<forall>a \<in> set (getAll m). key \<noteq> node_prefix i @ a_key a) \<longrightarrow> t2 key = t1 key"
    "\<forall>rest. length (e1 @ e2 @ rest) < 2 ^ 32 \<longrightarrow>
       (\<forall>(i, m) \<in> set nodes. \<forall>a \<in> set (getAll m). placed (node_prefix i @ a_key a) a (t2, e1 @ e2 @ rest))"
    by blast
  have "\<forall>(i, m) \<in> set nodes. \<forall>b \<in> set (getAll m). ''/pipeline/'' @ a_key a \<noteq> node_prefix i @ a_key b" for a :: asset
    by (auto simp: node_prefix_def)
  then have "t2 (''/pipeline/'' @ a_key a) = t1 (''/pipeline/'' @ a_key a)" for a :: asset using s2(3) by blast
  then have "placed (''/pipeline/'' @ a_key a) a (t2, e1 @ e2) = placed (''/pipeline/'' @ a_key a) a (t1, e1 @ e2)" for a
    by (rule placed_other)
  then have "\<forall>a \<in> set (getAll pm). placed (''/pipeline/'' @ a_key a) a (t2, e1 @ e2)" if "length (e1 @ e2) < 2 ^ 32"
    using s1(3) that by blast
  moreover have "\<forall>(i, m) \<in> set nodes. \<forall>a \<in> set (getAll m). placed (node_prefix i @ a_key a) a (t2, e1 @ e2)"
    if "length (e1 @ e2) < 2 ^ 32"
    using s2(4) [THEN spec, of "[]"] that by simp
  moreover have "table_has key t2 \<longleftrightarrow> (\<exists>a \<in> set (getAll pm). key = ''/pipeline/'' @ a_key a) \<or>
       (\<exists>(i, m) \<in> set nodes. \<exists>a \<in> set (getAll m). key = node_prefix i @ a_key a)" for key
    using s1(2) s2(2) by (force simp: table_has_def)
  moreover have "serialize_pipeline pm nodes = Inr (t2, e1 @ e2)"
    using s1(1) s2(1) by (simp add: serialize_pipeline_def)
  ultimately show ?thesis by blast
qed

theorem pipeline_assets_roundtrip_witness:
  fixes pm nm :: asset_manager
  defines "pm \<equiv> fst (set_data ''a'' [7, 9, 5] 4 (AssetManager_new ''/pipeline/''))"
    and "nm \<equiv> fst (set_data ''b'' [3] 4 (AssetManager_new []))"
  shows "\<exists>t st. serialize_pipeline pm [(5, nm)] = Inr (t, st) \<and> st = [7, 9, 5, 0, 3] \<and>
    get_view ''/node/5/b'' (t, st) = Inr ([3], 4)"
proof -
  have d5: "dec_int 5 = ''5''" by code_simp
  have "managers_ok (pm # map snd [(5, nm)])"
    by (simp add: pm_def nm_def managers_ok_def manager_ok_def set_data_def set_asset_def
        AssetManager_new_def Asset_new_def smap_ok_def getAll_def)
  from pipeline_assets_roundtrip [OF this] obtain t st where
    s: "serialize_pipeline pm [(5, nm)] = Inr (t, st)" and
    p: "length st < 2 ^ 32 \<longrightarrow> (\<forall>(i, m) \<in> set [(5, nm)]. \<forall>a \<in> set (getAll m). placed (node_prefix i @ a_key a) a (t, st))"
    by auto
  have st: "st = [7, 9, 5, 0, 3]"
    using s by (simp add: pm_def nm_def serialize_pipeline_def serialize_def set_data_def set_asset_def
        AssetManager_new_def Asset_new_def serialize_asset_def toAdd_def resize_def)
  with p have "placed ''/node/5/b'' \<lparr>a_key = ''b'', a_data = [3], a_alignment = 4\<rparr> (t, st)"
    by (simp add: nm_def getAll_def set_data_def set_asset_def AssetManager_new_def Asset_new_def
        node_prefix_def d5)
  with s st show ?thesis by (auto simp: placed_def)
qed

section \<open>Moving a resource out\<close>

text \<open>
  Moving an asset out of the pipeline by its absolute URI does not remove it: the URI is not
  made relative before the erase, so the manager keeps the key with an asset whose data is gone,
  and the next load succeeds with no bytes instead of failing.
\<close>

theorem moved_resource_stays_empty:
  assumes "manager_ok pm" and "map_of (assetMap pm) k = Some a" and "rootPath pm = ''/pipeline/''"
    and "map_of (assetMap pm) (''/pipeline/'' @ k) = None"
  shows "\<exists>pm'. node_moveResource i (''asset:/pipeline/'' @ k) (pm, nodes) = ((pm', nodes), Inr (a_data a)) \<and>
    snd (loadResource (''asset:/pipeline/'' @ k) (pm', nodes)) = Inr []"
proof -
  have o: "smap_ok (assetMap pm)" using assms(1) by (simp add: manager_ok_def)
  have r: "getRelativeKey m (''/pipeline/'' @ k) = k" if "rootPath m = ''/pipeline/''" for m
    using that by (simp add: getRelativeKey_def starts_with_def)
  define key where "key = ''/pipeline/'' @ k"
  define pm1 where "pm1 = remove_asset key pm"
  have "k \<noteq> key" by (simp add: key_def)
  then have kept: "map_of (assetMap pm1) k = Some a" and root: "rootPath pm1 = ''/pipeline/''"
    using assms(2,3) by (simp_all add: pm1_def remove_asset_def map_of_smap_del)
  have ok1: "smap_ok (assetMap pm1)" using smap_ok_del [OF o] by (simp add: pm1_def remove_asset_def)
  define pm' where "pm' = pm1\<lparr>assetMap := smap_upd k (a\<lparr>a_data := []\<rparr>) (assetMap pm1)\<rparr>"
  have key: "getRelativeKey pm key = k" "remove_asset key pm = pm1"
    using r [OF assms(3)] by (simp_all add: key_def pm1_def)
  have mv: "move_out key pm = pm'"
    using kept by (simp add: move_out_def Let_def key pm'_def)
  have m: "map_of (assetMap pm') k = Some (a\<lparr>a_data := []\<rparr>)" "rootPath pm' = ''/pipeline/''"
    using root by (simp_all add: pm'_def map_of_smap_upd [OF ok1])
  have "node_moveResource i (''asset:/pipeline/'' @ k) (pm, nodes) = ((pm', nodes), Inr (a_data a))"
    using getAbsUri_absolute [of "''pipeline/'' @ k"] r [OF assms(3)] assms(2)
    by (simp add: node_moveResource_def loadResourceCwd_def asset_handler_def starts_with_def get_asset_def mv [unfolded key_def, simplified])
  moreover have "snd (loadResource (''asset:/pipeline/'' @ k) (pm', nodes)) = Inr []"
    using getAbsUri_absolute [of "''pipeline/'' @ k"] r [OF m(2)] m(1)
    by (simp add: loadResource_def loadResourceCwd_def asset_handler_def starts_with_def get_asset_def)
  ultimately show ?thesis by blast
qed

theorem moved_resource_stays_empty_witness:
  fixes pm :: asset_manager
  defines "pm \<equiv> fst (set_data ''k'' [7, 9] 64 (AssetManager_new ''/pipeline/''))"
  shows "\<exists>pm'. node_moveResource 3 ''asset:/pipeline/k'' (pm, []) = ((pm', []), Inr [7, 9]) \<and>
    snd (loadResource ''asset:/pipeline/k'' (pm', [])) = Inr []"
  using moved_resource_stays_empty [of pm "''k''" "(Asset_new ''k'')\<lparr>a_data := [7, 9], a_alignment := 64\<rparr>" 3 "[]"]
    manager_ok_ops(3) [OF manager_ok_new, of "''k''" "[7, 9]" 64 "''/pipeline/''"]
  by (simp add: pm_def set_data_def set_asset_def Asset_new_def AssetManager_new_def)

end
