(* ===== verification/NodeGraph.thy ===== *)
theory NodeGraph
  imports Datatypes MessageQueue
begin

text \<open>
  Nodes, their outputs and inputs, and the connections between them (src/pipeline/Node.cpp,
  include/depthai/pipeline/Node.hpp). Nodes, outputs and inputs live in a heap, a reference is a
  number; the \<open>nodeMap\<close> pointers of the nodes form a forest, kept as trees of references. A weak
  pointer to a node is its reference, and \<open>lock\<close> gives \<open>None\<close> once the node is gone. The
  unordered sets and maps of the code are lists in some order of iteration. \<open>n_pipeline\<close> is the pipeline a node belongs to (\<open>parent\<close>),
  \<open>n_isDeviceNode\<close> whether it is a \<open>DeviceNode\<close>, and the asset manager of a node is in the theory
  of the assets.
\<close>

section \<open>Ports\<close>

record DatatypeHierarchy =
  h_datatype :: DatatypeEnum
  h_descendants :: bool

datatype Output_Type = MSender | SSender

datatype Input_Type = SReceiver | MReceiver

record OutputDescription =
  d_name :: string
  d_group :: string
  d_types :: "DatatypeHierarchy list"

record InputDescription = OutputDescription +
  d_blocking :: bool
  d_queueSize :: int
  d_waitForMessage :: bool

type_synonym nref = nat
type_synonym oref = nat
type_synonym iref = nat

text \<open>A \<open>MessageQueue*\<close> points into an input or to an output queue of the host.\<close>

datatype qref = InputQueue iref | HostQueue nat

record out_port =
  o_parent :: nref
  connectedInputs :: "qref list"
  queueConnections :: "nat list"
  o_type :: Output_Type
  o_name :: string
  o_group :: string
  o_types :: "DatatypeHierarchy list"
  o_events :: bool

record in_port =
  i_parent :: nref
  connectedOutputs :: "oref list"
  i_type :: Input_Type
  i_name :: string
  i_group :: string
  possibleDatatypes :: "DatatypeHierarchy list"
  waitForMessage :: bool

definition Output_toString :: "out_port \<Rightarrow> string" where
  "Output_toString out =
     (if o_group out = [] then o_name out else o_group out @ ''[\"'' @ o_name out @ ''\"]'')"

definition Input_toString :: "in_port \<Rightarrow> string" where
  "Input_toString inp =
     (if i_group inp = [] then i_name inp else i_group inp @ ''[\"'' @ i_name inp @ ''\"]'')"

definition isConnected :: "in_port \<Rightarrow> bool" where
  "isConnected inp = (connectedOutputs inp \<noteq> [])"

definition setReusePreviousMessage :: "bool \<Rightarrow> in_port \<Rightarrow> in_port" where
  "setReusePreviousMessage b inp = inp\<lparr>waitForMessage := \<not> b\<rparr>"

definition getReusePreviousMessage :: "in_port \<Rightarrow> bool" where
  "getReusePreviousMessage inp = (\<not> waitForMessage inp)"

section \<open>Nodes and the heap\<close>

record ConnectionInternal =
  outputNode :: nref
  outputName :: string
  outputGroup :: string
  inputNode :: nref
  inputName :: string
  inputGroup :: string
  c_out :: oref
  c_in :: iref

record 'd port_map =
  m_name :: string
  m_default :: 'd
  m_entries :: "((string \<times> string) \<times> nat) list"

record node =
  n_id :: int
  n_parentId :: int
  n_inputId :: int
  n_outputId :: int
  n_name :: string
  n_alias :: string
  n_runOnHost :: bool
  n_pipeline :: "nat option"
  n_isDeviceNode :: bool
  n_builtIn :: bool
  n_events :: bool
  outputRefs :: "oref list"
  inputRefs :: "iref list"
  outputMapRefs :: "OutputDescription port_map list"
  inputMapRefs :: "InputDescription port_map list"
  connections :: "ConnectionInternal list"

datatype ntree = NT (root: nref) (nodeMap: "ntree list")

record graph =
  g_pipeline :: nat
  g_node :: "nref \<Rightarrow> node"
  g_out :: "oref \<Rightarrow> out_port"
  g_in :: "iref \<Rightarrow> in_port"
  g_alive :: "nref \<Rightarrow> bool"
  nextOut :: oref
  nextIn :: iref
  isBuilt :: bool
  forest :: "ntree list"
  outputQueues :: "nat list"

definition lock :: "graph \<Rightarrow> nref \<Rightarrow> nref option" where
  "lock g n = (if g_alive g n then Some n else None)"

definition upd_node :: "nref \<Rightarrow> (node \<Rightarrow> node) \<Rightarrow> graph \<Rightarrow> graph" where
  "upd_node n f g = g\<lparr>g_node := (g_node g)(n := f (g_node g n))\<rparr>"

definition upd_out :: "oref \<Rightarrow> (out_port \<Rightarrow> out_port) \<Rightarrow> graph \<Rightarrow> graph" where
  "upd_out x f g = g\<lparr>g_out := (g_out g)(x := f (g_out g x))\<rparr>"

definition upd_in :: "iref \<Rightarrow> (in_port \<Rightarrow> in_port) \<Rightarrow> graph \<Rightarrow> graph" where
  "upd_in x f g = g\<lparr>g_in := (g_in g)(x := f (g_in g x))\<rparr>"

subsection \<open>Creating ports\<close>

definition createUniqueInputName :: "nref \<Rightarrow> graph \<Rightarrow> graph \<times> string" where
  "createUniqueInputName n g =
     (upd_node n (n_inputId_update (\<lambda>i. i + 1)) g,
      ''_'' @ n_name (g_node g n) @ ''_input_'' @ dec_int (n_inputId (g_node g n)))"

definition createUniqueOutputName :: "nref \<Rightarrow> graph \<Rightarrow> graph \<times> string" where
  "createUniqueOutputName n g =
     (upd_node n (n_outputId_update (\<lambda>i. i + 1)) g,
      ''_'' @ n_name (g_node g n) @ ''_output_'' @ dec_int (n_outputId (g_node g n)))"

text \<open>
  The constructors of \<open>Output\<close> and \<open>Input\<close>; \<open>ref\<close> places the port among the parent's references. An
  output is placed before it gets its name, an input is named first.
\<close>

definition Output_new :: "nref \<Rightarrow> OutputDescription \<Rightarrow> bool \<Rightarrow> graph \<Rightarrow> graph \<times> oref" where
  "Output_new n d ref g =
     (let x = nextOut g;
          g1 = (if ref then upd_node n (\<lambda>v. v\<lparr>outputRefs := outputRefs v @ [x]\<rparr>) g else g);
          (g2, name) = (if d_name d = [] then createUniqueOutputName n g1 else (g1, d_name d));
          out = \<lparr>o_parent = n, connectedInputs = [], queueConnections = [], o_type = MSender,
                 o_name = name, o_group = d_group d, o_types = d_types d, o_events = n_events (g_node g n)\<rparr>
      in (g2\<lparr>g_out := (g_out g2)(x := out), nextOut := x + 1\<rparr>, x))"

definition Input_new :: "nref \<Rightarrow> InputDescription \<Rightarrow> bool \<Rightarrow> graph \<Rightarrow> graph \<times> iref" where
  "Input_new n d ref g =
     (let x = nextIn g;
          (g1, name) = (if d_name d = [] then createUniqueInputName n g else (g, d_name d));
          inp = \<lparr>i_parent = n, connectedOutputs = [], i_type = SReceiver, i_name = name,
                 i_group = d_group d, possibleDatatypes = d_types d, waitForMessage = d_waitForMessage d\<rparr>;
          g2 = (if ref then upd_node n (\<lambda>v. v\<lparr>inputRefs := inputRefs v @ [x]\<rparr>) g1 else g1)
      in (g2\<lparr>g_in := (g_in g2)(x := inp), nextIn := x + 1\<rparr>, x))"

text \<open>\<open>operator[]\<close> of the port maps; the \<open>k\<close>-th map of node \<open>n\<close>.\<close>

definition OutputMap_at :: "nref \<Rightarrow> nat \<Rightarrow> string \<times> string \<Rightarrow> string \<Rightarrow> graph \<Rightarrow> graph \<times> oref" where
  "OutputMap_at n k gkey grp g =
     (let m = outputMapRefs (g_node g n) ! k in
      case map_of (m_entries m) gkey of
        Some x \<Rightarrow> (g, x)
      | None \<Rightarrow>
          (let (g', x) = Output_new n ((m_default m)\<lparr>d_group := grp, d_name := snd gkey\<rparr>) False g in
           (upd_node n (\<lambda>v. v\<lparr>outputMapRefs := (outputMapRefs v)[k := m\<lparr>m_entries := m_entries m @ [(gkey, x)]\<rparr>]\<rparr>) g', x)))"

definition OutputMap_index :: "nref \<Rightarrow> nat \<Rightarrow> string \<Rightarrow> graph \<Rightarrow> graph \<times> oref" where
  "OutputMap_index n k key g =
     (let name = m_name (outputMapRefs (g_node g n) ! k) in OutputMap_at n k (name, key) name g)"

definition OutputMap_index2 :: "nref \<Rightarrow> nat \<Rightarrow> string \<times> string \<Rightarrow> graph \<Rightarrow> graph \<times> oref" where
  "OutputMap_index2 n k gkey g =
     (let name = m_name (outputMapRefs (g_node g n) ! k) in
      OutputMap_at n k gkey (name @ [CHR 0x09] @ fst gkey) g)"

definition InputMap_at :: "nref \<Rightarrow> nat \<Rightarrow> string \<times> string \<Rightarrow> string \<Rightarrow> graph \<Rightarrow> graph \<times> iref" where
  "InputMap_at n k gkey grp g =
     (let m = inputMapRefs (g_node g n) ! k in
      case map_of (m_entries m) gkey of
        Some x \<Rightarrow> (g, x)
      | None \<Rightarrow>
          (let (g', x) = Input_new n ((m_default m)\<lparr>d_group := grp, d_name := snd gkey\<rparr>) False g in
           (upd_node n (\<lambda>v. v\<lparr>inputMapRefs := (inputMapRefs v)[k := m\<lparr>m_entries := m_entries m @ [(gkey, x)]\<rparr>]\<rparr>) g', x)))"

definition InputMap_index :: "nref \<Rightarrow> nat \<Rightarrow> string \<Rightarrow> graph \<Rightarrow> graph \<times> iref" where
  "InputMap_index n k key g =
     (let name = m_name (inputMapRefs (g_node g n) ! k) in InputMap_at n k (name, key) name g)"

definition InputMap_index2 :: "nref \<Rightarrow> nat \<Rightarrow> string \<times> string \<Rightarrow> graph \<Rightarrow> graph \<times> iref" where
  "InputMap_index2 n k gkey g =
     (let name = m_name (inputMapRefs (g_node g n) ! k) in
      InputMap_at n k gkey (name @ [CHR 0x09] @ fst gkey) g)"

definition InputMap_has :: "nref \<Rightarrow> nat \<Rightarrow> string \<Rightarrow> graph \<Rightarrow> bool" where
  "InputMap_has n k key g =
     (let m = inputMapRefs (g_node g n) ! k in map_of (m_entries m) (m_name m, key) \<noteq> None)"

subsection \<open>Looking ports up\<close>

definition getOutputRefs :: "nref \<Rightarrow> graph \<Rightarrow> oref list" where
  "getOutputRefs n g = outputRefs (g_node g n) @ concat (map (\<lambda>m. map snd (m_entries m)) (outputMapRefs (g_node g n)))"

definition getInputRefs :: "nref \<Rightarrow> graph \<Rightarrow> iref list" where
  "getInputRefs n g = inputRefs (g_node g n) @ concat (map (\<lambda>m. map snd (m_entries m)) (inputMapRefs (g_node g n)))"

definition getOutputRef :: "nref \<Rightarrow> string \<Rightarrow> string \<Rightarrow> graph \<Rightarrow> oref option" where
  "getOutputRef n grp name g =
     find (\<lambda>x. o_group (g_out g x) = grp \<and> o_name (g_out g x) = name) (getOutputRefs n g)"

definition getInputRef :: "nref \<Rightarrow> string \<Rightarrow> string \<Rightarrow> graph \<Rightarrow> iref option" where
  "getInputRef n grp name g =
     find (\<lambda>x. i_group (g_in g x) = grp \<and> i_name (g_in g x) = name) (getInputRefs n g)"

definition getOutputMapRef :: "nref \<Rightarrow> string \<Rightarrow> graph \<Rightarrow> OutputDescription port_map option" where
  "getOutputMapRef n grp g = find (\<lambda>m. m_name m = grp) (outputMapRefs (g_node g n))"

definition getInputMapRef :: "nref \<Rightarrow> string \<Rightarrow> graph \<Rightarrow> InputDescription port_map option" where
  "getInputMapRef n grp g = find (\<lambda>m. m_name m = grp) (inputMapRefs (g_node g n))"

section \<open>Connections\<close>

definition isDatatypeMatch :: "DatatypeHierarchy list \<Rightarrow> DatatypeHierarchy list \<Rightarrow> bool result" where
  "isDatatypeMatch outs ins =
     anyR (\<lambda>outH. anyR (\<lambda>inH.
       if h_datatype outH = h_datatype inH then Inr True
       else bindR (if h_descendants outH then isDatatypeSubclassOf (h_datatype outH) (h_datatype inH) else Inr False)
         (\<lambda>b. if b then Inr True
              else if h_descendants inH then isDatatypeSubclassOf (h_datatype inH) (h_datatype outH)
              else Inr False)) ins) outs"

definition Output_canConnect :: "oref \<Rightarrow> iref \<Rightarrow> graph \<Rightarrow> bool result" where
  "Output_canConnect x y g =
     (let out = g_out g x; inp = g_in g y in
      if o_type out = MSender \<and> i_type inp = MReceiver then Inr False
      else if o_type out = SSender \<and> i_type inp = SReceiver then Inr False
      else bindR (isDatatypeMatch (o_types out) (possibleDatatypes inp)) (\<lambda>m. if \<not> m then Inr False else Inr True))"

definition ConnectionInternal_new :: "oref \<Rightarrow> iref \<Rightarrow> graph \<Rightarrow> ConnectionInternal" where
  "ConnectionInternal_new x y g =
     (let out = g_out g x; inp = g_in g y in
      \<lparr>outputNode = o_parent out, outputName = o_name out, outputGroup = o_group out,
       inputNode = i_parent inp, inputName = i_name inp, inputGroup = i_group inp, c_out = x, c_in = y\<rparr>)"

definition conn_eq :: "graph \<Rightarrow> ConnectionInternal \<Rightarrow> ConnectionInternal \<Rightarrow> bool" where
  "conn_eq g a b =
     (lock g (outputNode a) = lock g (outputNode b) \<and> outputName a = outputName b \<and> outputGroup a = outputGroup b \<and>
      lock g (inputNode a) = lock g (inputNode b) \<and> inputName a = inputName b \<and> inputGroup a = inputGroup b)"

definition has_connection :: "graph \<Rightarrow> ConnectionInternal \<Rightarrow> nref \<Rightarrow> bool" where
  "has_connection g c n = list_ex (\<lambda>d. conn_eq g c d) (connections (g_node g n))"

definition port_names :: "oref \<Rightarrow> iref \<Rightarrow> graph \<Rightarrow> string \<times> string" where
  "port_names x y g =
     (n_name (g_node g (o_parent (g_out g x))) @ ''.'' @ Output_toString (g_out g x),
      n_name (g_node g (i_parent (g_in g y))) @ ''.'' @ Input_toString (g_in g y))"

definition quote2 :: "string \<times> string \<Rightarrow> string \<Rightarrow> string" where
  "quote2 p mid = (let q = [CHR 0x27] in q @ fst p @ q @ mid @ q @ snd p @ q)"

definition link :: "oref \<Rightarrow> iref \<Rightarrow> graph \<Rightarrow> graph result" where
  "link x y g =
     bindR (Output_canConnect x y g) (\<lambda>ok.
       if \<not> ok then Inl (RuntimeError (''Cannot link '' @ quote2 (port_names x y g) '' to ''))
       else
         (let c = ConnectionInternal_new x y g; n = o_parent (g_out g x) in
          if has_connection g c n
          then Inl (LogicError (quote2 (port_names x y g) '' already linked to ''))
          else Inr (upd_in y (\<lambda>v. v\<lparr>connectedOutputs := connectedOutputs v @ [x]\<rparr>)
                     (upd_out x (\<lambda>v. v\<lparr>connectedInputs := connectedInputs v @ [InputQueue y]\<rparr>)
                       (upd_node n (\<lambda>v. v\<lparr>connections := connections v @ [c]\<rparr>) g)))))"

definition unlink :: "oref \<Rightarrow> iref \<Rightarrow> graph \<Rightarrow> graph result" where
  "unlink x y g =
     (let c = ConnectionInternal_new x y g; n = o_parent (g_out g x) in
      if \<not> has_connection g c n
      then Inl (LogicError (quote2 (port_names x y g) '' not linked to ''))
      else Inr (upd_in y (\<lambda>v. v\<lparr>connectedOutputs := removeAll x (connectedOutputs v)\<rparr>)
                 (upd_out x (\<lambda>v. v\<lparr>connectedInputs := removeAll (InputQueue y) (connectedInputs v)\<rparr>)
                   (upd_node n (\<lambda>v. v\<lparr>connections := filter (\<lambda>d. \<not> conn_eq g c d) (connections v)\<rparr>) g))))"

definition getConnections :: "oref \<Rightarrow> graph \<Rightarrow> ConnectionInternal list" where
  "getConnections x g = filter (\<lambda>c. c_out c = x) (connections (g_node g (o_parent (g_out g x))))"

text \<open>The host queues of an output.\<close>

definition link_queue :: "nat \<Rightarrow> oref \<Rightarrow> graph \<Rightarrow> graph" where
  "link_queue q x = upd_out x (\<lambda>v. v\<lparr>connectedInputs := connectedInputs v @ [HostQueue q],
     queueConnections := queueConnections v @ [q]\<rparr>)"

definition unlink_queue :: "nat \<Rightarrow> oref \<Rightarrow> graph \<Rightarrow> graph" where
  "unlink_queue q x = upd_out x (\<lambda>v. v\<lparr>connectedInputs := removeAll (HostQueue q) (connectedInputs v),
     queueConnections := removeAll q (queueConnections v)\<rparr>)"

definition createOutputQueue :: "nat \<Rightarrow> oref \<Rightarrow> graph \<Rightarrow> graph result" where
  "createOutputQueue q x g =
     (if n_pipeline (g_node g (o_parent (g_out g x))) = None then Inl (RuntimeError ''Pipeline is null'')
      else if isBuilt g then Inl (RuntimeError ''Cannot create queue after pipeline is built'')
      else Inr ((link_queue q x g)\<lparr>outputQueues := outputQueues g @ [q]\<rparr>))"

text \<open>The connection with ids in place of pointers, for the schema.\<close>

record Connection =
  outputId :: int
  s_outputName :: string
  s_outputGroup :: string
  inputId :: int
  s_inputName :: string
  s_inputGroup :: string

definition Connection_of :: "graph \<Rightarrow> ConnectionInternal \<Rightarrow> Connection result" where
  "Connection_of g c =
     (case (lock g (outputNode c), lock g (inputNode c)) of
        (Some out, Some inp) \<Rightarrow>
          Inr \<lparr>outputId = n_id (g_node g out), s_outputName = outputName c, s_outputGroup = outputGroup c,
               inputId = n_id (g_node g inp), s_inputName = inputName c, s_inputGroup = inputGroup c\<rparr>
      | _ \<Rightarrow> Inl (InvalidArgument ''Connection points to non existing node''))"

section \<open>The forest of nodes\<close>

fun getAllNodes :: "ntree \<Rightarrow> nref list" where
  "getAllNodes (NT n ts) = concat (map (\<lambda>t. root t # getAllNodes t) ts)"

fun first_some :: "('a \<Rightarrow> 'b option) \<Rightarrow> 'a list \<Rightarrow> 'b option" where
  "first_some f [] = None"
| "first_some f (x # xs) = (case f x of Some y \<Rightarrow> Some y | None \<Rightarrow> first_some f xs)"

lemma first_some_cong [fundef_cong]:
  "xs = ys \<Longrightarrow> (\<And>x. x \<in> set ys \<Longrightarrow> f x = h x) \<Longrightarrow> first_some f xs = first_some h ys"
  by (induction ys arbitrary: xs) (auto split: option.splits)

fun getNode :: "graph \<Rightarrow> int \<Rightarrow> ntree \<Rightarrow> nref option" where
  "getNode g i (NT n ts) = (if n_id (g_node g n) = i then Some n else first_some (getNode g i) ts)"

fun removeConnectionToNode :: "nref \<Rightarrow> ntree \<Rightarrow> graph \<Rightarrow> graph" where
  "removeConnectionToNode x (NT n ts) g =
     fold (removeConnectionToNode x) ts
       (upd_node n (\<lambda>v. v\<lparr>connections :=
          filter (\<lambda>c. \<not> (lock g (inputNode c) = Some x \<or> lock g (outputNode c) = Some x)) (connections v)\<rparr>) g)"

text \<open>The map of a subtree; a node that occurs again overwrites its entry.\<close>

fun getConnectionMap :: "graph \<Rightarrow> ntree \<Rightarrow> (nref \<times> ConnectionInternal list) list" where
  "getConnectionMap g (NT n ts) =
     fold (\<lambda>t m. fold (\<lambda>kv. AList.update (fst kv) (snd kv)) (getConnectionMap g t) m) ts
       [(n, connections (g_node g n))]"

text \<open>\<open>Node::add\<close>: the tree \<open>t\<close> becomes the last child of node \<open>p\<close>.\<close>

fun insert_under :: "nref \<Rightarrow> ntree \<Rightarrow> ntree \<Rightarrow> ntree" where
  "insert_under p t (NT n ts) =
     NT n (map (insert_under p t) ts @ (if n = p then [t] else []))"

definition Node_add :: "nref \<Rightarrow> ntree \<Rightarrow> graph \<Rightarrow> graph" where
  "Node_add p t g =
     (upd_node (root t) (\<lambda>v. v\<lparr>n_parentId := sint (word_of_int (n_id (g_node g p)) :: i32)\<rparr>) g)
       \<lparr>forest := map (insert_under p t) (forest g)\<rparr>"

fun drop_child :: "nref \<Rightarrow> nref \<Rightarrow> ntree \<Rightarrow> ntree" where
  "drop_child p x (NT n ts) =
     (let ts' = map (drop_child p x) ts in
      NT n (if n = p then filter (\<lambda>t. root t \<noteq> x) ts' else ts'))"

definition Node_remove :: "nref \<Rightarrow> ntree \<Rightarrow> graph \<Rightarrow> graph result" where
  "Node_remove p t g =
     (if n_pipeline (g_node g p) = None then Inl (RuntimeError ''Pipeline is null'')
      else if isBuilt g then Inl (RuntimeError ''Cannot remove node from pipeline once it is built.'')
      else
        (let g' = fold (\<lambda>n h. removeConnectionToNode (root t) n
                          (fold (\<lambda>child. removeConnectionToNode (root child) n) (nodeMap t) h)) (forest g) g
         in Inr (g'\<lparr>forest := map (drop_child p (root t)) (forest g')\<rparr>)))"

text \<open>\<open>PipelineImpl::remove\<close> of src/pipeline/Pipeline.cpp.\<close>

definition Pipeline_remove :: "ntree \<Rightarrow> graph \<Rightarrow> graph result" where
  "Pipeline_remove t g =
     (if isBuilt g then Inl (RuntimeError ''Cannot remove node from pipeline once it is built.'')
      else if n_pipeline (g_node g (root t)) = None then
        Inl (RuntimeError ''Cannot remove a node that is not a part of any pipeline'')
      else if n_pipeline (g_node g (root t)) \<noteq> Some (g_pipeline g) then
        Inl (RuntimeError ''Cannot remove a node that is not a part of this pipeline'')
      else
        (let g' = g\<lparr>forest := filter (\<lambda>u. root u \<noteq> root t) (forest g)\<rparr> in
         foldR (\<lambda>n. Node_remove (root n) t) (forest g') g'))"

section \<open>Sending\<close>

datatype ('cb, 'n, 'm) out_effect =
    OutputBlockStart string
  | OutputBlockEnd string bool
  | QueueEffect qref "('cb, 'n, 'm) mq_effect"

text \<open>
  One message to every connected queue, in order; \<open>woken q\<close> is the state in which a push that has
  to wait on \<open>q\<close> goes on. An exception of one queue ends the loop.
\<close>

fun send_to ::
  "(qref \<Rightarrow> 'm lqueue) \<Rightarrow> 'm option \<Rightarrow> qref list \<Rightarrow> (qref, 'cb, 'n, 'm) qstore \<Rightarrow>
     (qref, 'cb, 'n, 'm) qstore \<times> ('cb, 'n, 'm) out_effect list \<times> unit result" where
  "send_to woken msg [] st = (st, [], Inr ())"
| "send_to woken msg (q # qs) st =
     (let (m, e, r) = mq_send (woken q) msg (st q); st' = st(q := m) in
      case r of
        Inl err \<Rightarrow> (st', map (QueueEffect q) e, Inl err)
      | Inr _ \<Rightarrow> (let (st'', e', r') = send_to woken msg qs st' in (st'', map (QueueEffect q) e @ e', r')))"

definition Output_send ::
  "(qref \<Rightarrow> 'm lqueue) \<Rightarrow> 'm option \<Rightarrow> out_port \<Rightarrow> (qref, 'cb, 'n, 'm) qstore \<Rightarrow>
     (qref, 'cb, 'n, 'm) qstore \<times> ('cb, 'n, 'm) out_effect list \<times> unit result" where
  "Output_send woken msg out st =
     (let (st', e, r) = send_to woken msg (connectedInputs out) st in
      if o_events out
      then (st', OutputBlockStart (o_name out) # e @
              (case r of Inl _ \<Rightarrow> [] | Inr _ \<Rightarrow> [OutputBlockEnd (o_name out) False]), r)
      else (st', e, r))"

fun trySend_to ::
  "(qref \<Rightarrow> 'm lqueue) \<Rightarrow> 'm option \<Rightarrow> qref list \<Rightarrow> bool \<Rightarrow> (qref, 'cb, 'n, 'm) qstore \<Rightarrow>
     (qref, 'cb, 'n, 'm) qstore \<times> ('cb, 'n, 'm) out_effect list \<times> bool result" where
  "trySend_to woken msg [] success st = (st, [], Inr success)"
| "trySend_to woken msg (q # qs) success st =
     (let (m, e, r) = mq_trySend (woken q) msg (st q); st' = st(q := m) in
      case r of
        Inl err \<Rightarrow> (st', map (QueueEffect q) e, Inl err)
      | Inr ok \<Rightarrow>
          (let (st'', e', r') = trySend_to woken msg qs (success \<and> ok) st' in
           (st'', map (QueueEffect q) e @ e', r')))"

definition Output_trySend ::
  "(qref \<Rightarrow> 'm lqueue) \<Rightarrow> 'm option \<Rightarrow> out_port \<Rightarrow> (qref, 'cb, 'n, 'm) qstore \<Rightarrow>
     (qref, 'cb, 'n, 'm) qstore \<times> ('cb, 'n, 'm) out_effect list \<times> bool result" where
  "Output_trySend woken msg out st =
     (let (st', e, r) = trySend_to woken msg (connectedInputs out) True st in
      if o_events out
      then (st', OutputBlockStart (o_name out) # e @
              (case r of Inl _ \<Rightarrow> [] | Inr ok \<Rightarrow> [OutputBlockEnd (o_name out) (\<not> ok)]), r)
      else (st', e, r))"

section \<open>Datatype matching\<close>

text \<open>\<open>a\<close> and \<open>b\<close> are compatible: equal, or one below the other where its side allows descendants.\<close>

definition compatible :: "DatatypeHierarchy \<Rightarrow> DatatypeHierarchy \<Rightarrow> bool" where
  "compatible a b =
     (h_datatype a = h_datatype b \<or>
      h_descendants a \<and> child_of\<^sup>+\<^sup>+ (h_datatype a) (h_datatype b) \<or>
      h_descendants b \<and> child_of\<^sup>+\<^sup>+ (h_datatype b) (h_datatype a))"

definition real_types :: "DatatypeHierarchy list \<Rightarrow> bool" where
  "real_types ts = list_all (\<lambda>t. h_datatype t \<noteq> COUNT) ts"

lemma isDatatypeMatch_total:
  assumes "real_types outs" and "real_types ins"
  shows "isDatatypeMatch outs ins = Inr (\<exists>a \<in> set outs. \<exists>b \<in> set ins. compatible a b)"
  unfolding isDatatypeMatch_def
  by (intro anyR_total)
    (use assms in \<open>auto simp: real_types_def list_all_iff isDatatypeSubclassOf_eq compatible_def\<close>)

text \<open>
  An output can be connected to an input exactly when their port kinds agree and some datatype
  the output may send and some datatype the input accepts are equal, or one is a descendant of
  the other in the datatype hierarchy and the side of the ancestor allows descendants. (Neither
  port lists the sentinel \<open>COUNT\<close>, for which the subclass test throws.)
\<close>

theorem canConnect_iff_compatible:
  assumes "real_types (o_types (g_out g x))" and "real_types (possibleDatatypes (g_in g y))"
  shows "Output_canConnect x y g =
    Inr (\<not> (o_type (g_out g x) = MSender \<and> i_type (g_in g y) = MReceiver) \<and>
         \<not> (o_type (g_out g x) = SSender \<and> i_type (g_in g y) = SReceiver) \<and>
         (\<exists>a \<in> set (o_types (g_out g x)). \<exists>b \<in> set (possibleDatatypes (g_in g y)). compatible a b))"
  using assms by (simp add: Output_canConnect_def Let_def isDatatypeMatch_total)

definition empty_node :: node where
  "empty_node = \<lparr>n_id = -1, n_parentId = -1, n_inputId = 0, n_outputId = 0, n_name = ''Node'', n_alias = [],
     n_runOnHost = True, n_pipeline = Some 0, n_isDeviceNode = False, n_builtIn = False, n_events = False, outputRefs = [], inputRefs = [],
     outputMapRefs = [], inputMapRefs = [], connections = []\<rparr>"

definition empty_graph :: graph where
  "empty_graph = \<lparr>g_pipeline = 0, g_node = (\<lambda>_. empty_node),
     g_out = (\<lambda>_. \<lparr>o_parent = 0, connectedInputs = [], queueConnections = [], o_type = MSender, o_name = [],
                   o_group = [], o_types = [], o_events = False\<rparr>),
     g_in = (\<lambda>_. \<lparr>i_parent = 0, connectedOutputs = [], i_type = SReceiver, i_name = [], i_group = [],
                  possibleDatatypes = [], waitForMessage = False\<rparr>),
     g_alive = (\<lambda>_. True), nextOut = 0, nextIn = 0, isBuilt = False, forest = [], outputQueues = []\<rparr>"

text \<open>Two nodes, 2 with an output \<open>out\<close> and 5 with an input \<open>in\<close>, used by the examples.\<close>

definition out_desc :: OutputDescription where
  "out_desc = \<lparr>d_name = ''out'', d_group = [], d_types = [\<lparr>h_datatype = ImgFrame, h_descendants = False\<rparr>]\<rparr>"

definition in_desc :: InputDescription where
  "in_desc = \<lparr>d_name = ''in'', d_group = [], d_types = [\<lparr>h_datatype = Buffer, h_descendants = True\<rparr>],
     d_blocking = True, d_queueSize = 3, d_waitForMessage = False\<rparr>"

definition two_nodes :: graph where
  "two_nodes = (fst (Input_new 5 in_desc True (fst (Output_new 2 out_desc True empty_graph))))
     \<lparr>forest := [NT 2 [], NT 5 []]\<rparr>"

lemmas graph_simps = two_nodes_def Input_new_def Output_new_def in_desc_def out_desc_def empty_graph_def
  empty_node_def upd_node_def upd_out_def upd_in_def

theorem canConnect_iff_compatible_witness: "Output_canConnect 0 0 two_nodes = Inr True"
proof -
  have "child_of Buffer ImgFrame" by (simp add: child_of_simps)
  then have "child_of\<^sup>+\<^sup>+ Buffer ImgFrame" by (rule tranclp.r_into_trancl)
  then show ?thesis
    using canConnect_iff_compatible [of two_nodes 0 0]
    by (simp add: graph_simps real_types_def compatible_def)
qed

section \<open>Linking and unlinking\<close>

text \<open>
  The abstract graph is the set of linked pairs. A graph is consistent when the connections of
  the nodes, the queues of the outputs and the back pointers of the inputs describe the same
  pairs, and names identify ports within a node, as the code's comparison of connections needs.
\<close>

definition edges :: "graph \<Rightarrow> (oref \<times> iref) set" where
  "edges g = {(x, y). InputQueue y \<in> set (connectedInputs (g_out g x))}"

definition out_key :: "graph \<Rightarrow> oref \<Rightarrow> nref \<times> string \<times> string" where
  "out_key g x = (o_parent (g_out g x), o_name (g_out g x), o_group (g_out g x))"

definition in_key :: "graph \<Rightarrow> iref \<Rightarrow> nref \<times> string \<times> string" where
  "in_key g y = (i_parent (g_in g y), i_name (g_in g y), i_group (g_in g y))"

definition unique_ports :: "graph \<Rightarrow> bool" where
  "unique_ports g = (inj_on (out_key g) {..<nextOut g} \<and> inj_on (in_key g) {..<nextIn g} \<and> (\<forall>n. g_alive g n))"

definition own_connections :: "graph \<Rightarrow> (oref \<times> iref) set" where
  "own_connections g = {(x, y). x < nextOut g \<and> y < nextIn g \<and>
     ConnectionInternal_new x y g \<in> set (connections (g_node g (o_parent (g_out g x))))}"

definition consistent :: "graph \<Rightarrow> bool" where
  "consistent g =
     ((\<forall>n. \<forall>c \<in> set (connections (g_node g n)). \<exists>x y. x < nextOut g \<and> y < nextIn g \<and>
         c = ConnectionInternal_new x y g \<and> n = o_parent (g_out g x)) \<and>
      edges g = own_connections g \<and>
      (\<forall>y. set (connectedOutputs (g_in g y)) = {x. (x, y) \<in> edges g}))"

definition graph_ok :: "graph \<Rightarrow> bool" where
  "graph_ok g = (unique_ports g \<and> consistent g)"

lemma conn_new_ptrs [simp]:
  "c_out (ConnectionInternal_new x y g) = x" "c_in (ConnectionInternal_new x y g) = y"
  by (simp_all add: ConnectionInternal_new_def Let_def)

lemma conn_new_inj [simp]: "ConnectionInternal_new x y g = ConnectionInternal_new x' y' g \<longleftrightarrow> x = x' \<and> y = y'"
  by (metis conn_new_ptrs)

lemma conn_eq_new:
  assumes "unique_ports g" and "x < nextOut g" "x' < nextOut g" "y < nextIn g" "y' < nextIn g"
  shows "conn_eq g (ConnectionInternal_new x y g) (ConnectionInternal_new x' y' g) \<longleftrightarrow> x = x' \<and> y = y'"
proof -
  have "conn_eq g (ConnectionInternal_new x y g) (ConnectionInternal_new x' y' g) \<longleftrightarrow>
      out_key g x = out_key g x' \<and> in_key g y = in_key g y'"
    using assms(1) by (auto simp: conn_eq_def ConnectionInternal_new_def Let_def lock_def out_key_def
        in_key_def unique_ports_def)
  with assms inj_on_eq_iff [of "out_key g" "{..<nextOut g}" x x'] inj_on_eq_iff [of "in_key g" "{..<nextIn g}" y y']
  show ?thesis by (simp add: unique_ports_def)
qed

lemma has_connection_edge:
  assumes "graph_ok g" and "x < nextOut g" "y < nextIn g"
  shows "has_connection g (ConnectionInternal_new x y g) (o_parent (g_out g x)) \<longleftrightarrow> (x, y) \<in> edges g"
proof -
  let ?n = "o_parent (g_out g x)" and ?c = "ConnectionInternal_new x y g"
  have "conn_eq g ?c d \<longleftrightarrow> d = ?c" if d: "d \<in> set (connections (g_node g ?n))" for d
  proof -
    from d assms(1) obtain x' y' where "d = ConnectionInternal_new x' y' g" "x' < nextOut g" "y' < nextIn g"
      unfolding graph_ok_def consistent_def by blast
    with conn_eq_new [of g x x' y y'] assms show ?thesis by (auto simp: graph_ok_def)
  qed
  then have "has_connection g ?c ?n \<longleftrightarrow> ?c \<in> set (connections (g_node g ?n))"
    by (auto simp: has_connection_def list_ex_iff)
  with assms show ?thesis by (auto simp: graph_ok_def consistent_def own_connections_def)
qed

definition linked :: "oref \<Rightarrow> iref \<Rightarrow> graph \<Rightarrow> graph" where
  "linked x y g = upd_in y (\<lambda>v. v\<lparr>connectedOutputs := connectedOutputs v @ [x]\<rparr>)
     (upd_out x (\<lambda>v. v\<lparr>connectedInputs := connectedInputs v @ [InputQueue y]\<rparr>)
       (upd_node (o_parent (g_out g x))
         (\<lambda>v. v\<lparr>connections := connections v @ [ConnectionInternal_new x y g]\<rparr>) g))"

definition unlinked :: "oref \<Rightarrow> iref \<Rightarrow> graph \<Rightarrow> graph" where
  "unlinked x y g = upd_in y (\<lambda>v. v\<lparr>connectedOutputs := removeAll x (connectedOutputs v)\<rparr>)
     (upd_out x (\<lambda>v. v\<lparr>connectedInputs := removeAll (InputQueue y) (connectedInputs v)\<rparr>)
       (upd_node (o_parent (g_out g x)) (\<lambda>v. v\<lparr>connections :=
          filter (\<lambda>d. \<not> conn_eq g (ConnectionInternal_new x y g) d) (connections v)\<rparr>) g))"

lemmas upd_defs = upd_node_def upd_out_def upd_in_def

lemma linked_frame:
  "nextOut (linked x y g) = nextOut g" "nextIn (linked x y g) = nextIn g" "g_alive (linked x y g) = g_alive g"
  "out_key (linked x y g) = out_key g" "in_key (linked x y g) = in_key g"
  "o_parent (g_out (linked x y g) z) = o_parent (g_out g z)"
  "ConnectionInternal_new a b (linked x y g) = ConnectionInternal_new a b g"
  by (simp_all add: linked_def upd_defs fun_eq_iff out_key_def in_key_def ConnectionInternal_new_def Let_def)

lemma unlinked_frame:
  "nextOut (unlinked x y g) = nextOut g" "nextIn (unlinked x y g) = nextIn g" "g_alive (unlinked x y g) = g_alive g"
  "out_key (unlinked x y g) = out_key g" "in_key (unlinked x y g) = in_key g"
  "o_parent (g_out (unlinked x y g) z) = o_parent (g_out g z)"
  "ConnectionInternal_new a b (unlinked x y g) = ConnectionInternal_new a b g"
  by (simp_all add: unlinked_def upd_defs fun_eq_iff out_key_def in_key_def ConnectionInternal_new_def Let_def)

lemma linked_lists:
  "set (connections (g_node (linked x y g) n)) = set (connections (g_node g n)) \<union>
     (if n = o_parent (g_out g x) then {ConnectionInternal_new x y g} else {})"
  "set (connectedOutputs (g_in (linked x y g) z)) = set (connectedOutputs (g_in g z)) \<union> (if z = y then {x} else {})"
  "connectedInputs (g_out (linked x y g) u) = connectedInputs (g_out g u) @ (if u = x then [InputQueue y] else [])"
  "edges (linked x y g) = insert (x, y) (edges g)"
  by (auto simp: linked_def upd_defs edges_def split: if_splits)

lemma unlinked_lists:
  "set (connections (g_node (unlinked x y g) n)) = set (connections (g_node g n)) -
     (if n = o_parent (g_out g x) then {d. conn_eq g (ConnectionInternal_new x y g) d} else {})"
  "set (connectedOutputs (g_in (unlinked x y g) z)) = set (connectedOutputs (g_in g z)) - (if z = y then {x} else {})"
  "edges (unlinked x y g) = edges g - {(x, y)}"
  by (auto simp: unlinked_def upd_defs edges_def split: if_splits)

lemma linked_graph_ok:
  assumes "graph_ok g" and "x < nextOut g" and "y < nextIn g"
  shows "graph_ok (linked x y g)"
proof -
  have c: "consistent g" and u: "unique_ports g" using assms(1) by (simp_all add: graph_ok_def)
  have "unique_ports (linked x y g)" using u by (simp add: unique_ports_def linked_frame)
  moreover have "consistent (linked x y g)"
    unfolding consistent_def linked_frame
  proof (intro conjI allI ballI)
    show "\<exists>x' y'. x' < nextOut g \<and> y' < nextIn g \<and> d = ConnectionInternal_new x' y' g \<and> n = o_parent (g_out g x')"
      if "d \<in> set (connections (g_node (linked x y g) n))" for n d
      using that c assms(2,3) unfolding consistent_def linked_lists by (auto split: if_splits)
    have "own_connections (linked x y g) = insert (x, y) (own_connections g)"
      using assms(2,3) by (auto simp: own_connections_def linked_frame linked_lists split: if_splits)
    then show "edges (linked x y g) = own_connections (linked x y g)"
      using c by (simp add: consistent_def linked_lists)
    show "set (connectedOutputs (g_in (linked x y g) z)) = {u. (u, z) \<in> edges (linked x y g)}" for z
      using c by (auto simp: consistent_def linked_lists)
  qed
  ultimately show ?thesis by (simp add: graph_ok_def)
qed

lemma unlinked_graph_ok:
  assumes "graph_ok g" and "x < nextOut g" and "y < nextIn g"
  shows "graph_ok (unlinked x y g)"
proof -
  have c: "consistent g" and u: "unique_ports g" using assms(1) by (simp_all add: graph_ok_def)
  have eq: "conn_eq g (ConnectionInternal_new x y g) (ConnectionInternal_new x' y' g) \<longleftrightarrow> x = x' \<and> y = y'"
    if "x' < nextOut g" "y' < nextIn g" for x' y'
    using conn_eq_new [OF u assms(2) that(1) assms(3) that(2)] .
  have "unique_ports (unlinked x y g)" using u by (simp add: unique_ports_def unlinked_frame)
  moreover have "consistent (unlinked x y g)"
    unfolding consistent_def unlinked_frame
  proof (intro conjI allI ballI)
    show "\<exists>x' y'. x' < nextOut g \<and> y' < nextIn g \<and> d = ConnectionInternal_new x' y' g \<and> n = o_parent (g_out g x')"
      if "d \<in> set (connections (g_node (unlinked x y g) n))" for n d
      using that c unfolding consistent_def unlinked_lists by blast
    have "own_connections (unlinked x y g) = own_connections g - {(x, y)}"
      using eq by (auto simp: own_connections_def unlinked_frame unlinked_lists split: if_splits)
    then show "edges (unlinked x y g) = own_connections (unlinked x y g)"
      using c by (simp add: consistent_def unlinked_lists)
    show "set (connectedOutputs (g_in (unlinked x y g) z)) = {u. (u, z) \<in> edges (unlinked x y g)}" for z
      using c by (auto simp: consistent_def unlinked_lists)
  qed
  ultimately show ?thesis by (simp add: graph_ok_def)
qed

text \<open>
  C7. Linking and unlinking implement adding and removing an edge of the graph of ports: on a
  consistent graph whose ports are named uniquely within their node, \<open>link\<close> fails exactly when the
  ports cannot be connected or are linked already, and otherwise adds the one edge, at the end of
  the output's delivery order; \<open>unlink\<close> fails exactly when the ports are not linked, and otherwise
  removes that edge only. Both keep the connections, the queue pointers of the outputs and the
  back pointers of the inputs in agreement.
\<close>

theorem link_unlink_refine_edges:
  assumes "graph_ok g" and "x < nextOut g" and "y < nextIn g" and "Output_canConnect x y g = Inr ok"
  shows "(case link x y g of
      Inl e \<Rightarrow> \<not> ok \<or> (x, y) \<in> edges g
    | Inr g' \<Rightarrow> ok \<and> (x, y) \<notin> edges g \<and> graph_ok g' \<and> edges g' = insert (x, y) (edges g) \<and>
        connectedInputs (g_out g' x) = connectedInputs (g_out g x) @ [InputQueue y]) \<and>
    (case unlink x y g of
      Inl e \<Rightarrow> (x, y) \<notin> edges g
    | Inr g' \<Rightarrow> (x, y) \<in> edges g \<and> graph_ok g' \<and> edges g' = edges g - {(x, y)})"
proof -
  note h = has_connection_edge [OF assms(1-3)]
  have "link x y g = (if \<not> ok then Inl (RuntimeError (''Cannot link '' @ quote2 (port_names x y g) '' to ''))
      else if (x, y) \<in> edges g then Inl (LogicError (quote2 (port_names x y g) '' already linked to ''))
      else Inr (linked x y g))"
    using assms(4) h by (simp add: link_def Let_def linked_def)
  moreover have "unlink x y g = (if (x, y) \<notin> edges g then Inl (LogicError (quote2 (port_names x y g) '' not linked to ''))
      else Inr (unlinked x y g))"
    using h by (simp add: unlink_def Let_def unlinked_def)
  ultimately show ?thesis
    using linked_graph_ok [OF assms(1-3)] unlinked_graph_ok [OF assms(1-3)]
    by (simp add: linked_lists unlinked_lists)
qed

lemma two_nodes_ok: "graph_ok two_nodes"
  by (simp add: graph_ok_def unique_ports_def consistent_def own_connections_def edges_def inj_on_def graph_simps)
    (auto split: if_splits)

theorem link_unlink_refine_edges_witness:
  "\<exists>g'. link 0 0 two_nodes = Inr g' \<and> edges g' = {(0, 0)} \<and> graph_ok g'"
proof -
  have ok: "Output_canConnect 0 0 two_nodes = Inr True"
    by (simp add: graph_simps Output_canConnect_def isDatatypeMatch_def subclass_child child_of_simps)
  have n: "nextOut two_nodes = 1" "nextIn two_nodes = 1" "edges two_nodes = {}"
    by (auto simp: graph_simps edges_def)
  show ?thesis
  proof (cases "link 0 0 two_nodes")
    case (Inl e)
    with link_unlink_refine_edges [OF two_nodes_ok _ _ ok] n show ?thesis by simp
  next
    case (Inr g')
    with link_unlink_refine_edges [OF two_nodes_ok _ _ ok] n show ?thesis by simp
  qed
qed

section \<open>Sending\<close>

definition receives :: "'m \<Rightarrow> ('cb, 'n, 'm) mqueue \<Rightarrow> ('cb, 'n, 'm) mqueue \<Rightarrow> bool" where
  "receives x m m' = (queue (mq m') = last_n (maxSize (mq m)) (queue (mq m) @ [x]))"

lemma mq_send_delivers:
  assumes "\<not> mq_isClosed m" and "\<not> blocking (mq m)"
  shows "snd (snd (mq_send w (Some x) m)) = Inr () \<and> receives x m (fst (mq_send w (Some x) m))"
  using assms push_at_once [of x "mq m"]
  by (auto simp: receives_def mq_send_def run_call_def mq_isClosed_def Let_def outcome_defs last_n_def)

lemma mq_send_refused: "mq_isClosed m \<Longrightarrow> mq_send w (Some x) m = (m, [], Inl (QueueException CLOSED_QUEUE_MESSAGE))"
  by (simp add: mq_send_def)

lemma send_to_open:
  assumes "distinct qs" and "\<forall>q \<in> set qs. \<not> mq_isClosed (st q) \<and> \<not> blocking (mq (st q))"
  shows "\<exists>st' e. send_to w (Some x) (qs @ rest) st = (let (st'', e', r) = send_to w (Some x) rest st' in (st'', e @ e', r)) \<and>
    (\<forall>q \<in> set qs. receives x (st q) (st' q)) \<and> (\<forall>q. q \<notin> set qs \<longrightarrow> st' q = st q)"
  using assms
proof (induction qs arbitrary: st)
  case Nil
  then show ?case by (intro exI [of _ st] exI [of _ "[]"]) (simp add: Let_def case_prod_beta)
next
  case (Cons q qs)
  define m where "m = fst (mq_send (w q) (Some x) (st q))"
  define e where "e = fst (snd (mq_send (w q) (Some x) (st q)))"
  define st1 where "st1 = st(q := m)"
  have q: "\<not> mq_isClosed (st q)" "\<not> blocking (mq (st q))" "q \<notin> set qs" "distinct qs"
    using Cons.prems by simp_all
  have s: "mq_send (w q) (Some x) (st q) = (m, e, Inr ())" and r: "receives x (st q) m"
    using mq_send_delivers [OF q(1,2), of "w q" x] by (auto simp: m_def e_def prod_eq_iff)
  have "\<forall>p \<in> set qs. \<not> mq_isClosed (st1 p) \<and> \<not> blocking (mq (st1 p))"
    using Cons.prems(2) q(3) by (auto simp: st1_def)
  from Cons.IH [OF q(4) this] obtain st' e' where IH:
    "send_to w (Some x) (qs @ rest) st1 = (let (st'', e'', r) = send_to w (Some x) rest st' in (st'', e' @ e'', r))"
    "\<forall>p \<in> set qs. receives x (st1 p) (st' p)" "\<forall>p. p \<notin> set qs \<longrightarrow> st' p = st1 p"
    by blast
  have "\<forall>p \<in> set (q # qs). receives x (st p) (st' p)"
    using IH(2,3) q(3) r by (auto simp: st1_def) metis
  moreover have "\<forall>p. p \<notin> set (q # qs) \<longrightarrow> st' p = st p" using IH(3) by (simp add: st1_def)
  moreover have "send_to w (Some x) ((q # qs) @ rest) st =
      (let (st'', e'', r) = send_to w (Some x) rest st' in (st'', (map (QueueEffect q) e @ e') @ e'', r))"
    using IH(1) by (simp add: s Let_def case_prod_beta flip: st1_def)
  ultimately show ?case by blast
qed

text \<open>
  An output delivers to every connected queue: when all of them are open and non-blocking, a
  send succeeds, each connected queue keeps the newest \<open>maxSize\<close> of its messages and the sent one, and
  no other queue changes. When the queue at some position is closed, the send raises, the queues
  before it have received the message and the queues from it on have not.
\<close>

theorem send_broadcasts:
  assumes "connectedInputs out = qs @ rest" and "distinct qs"
    and "\<forall>q \<in> set qs. \<not> mq_isClosed (st q) \<and> \<not> blocking (mq (st q))"
    and "rest = [] \<or> hd rest \<notin> set qs \<and> mq_isClosed (st (hd rest))"
  shows "\<exists>st' e. Output_send w (Some x) out st =
      (st', e, if rest = [] then Inr () else Inl (QueueException CLOSED_QUEUE_MESSAGE)) \<and>
    (\<forall>q \<in> set qs. receives x (st q) (st' q)) \<and> (\<forall>q. q \<notin> set qs \<longrightarrow> st' q = st q)"
proof -
  from send_to_open [OF assms(2,3), of w x rest] obtain st' e where s:
    "send_to w (Some x) (qs @ rest) st = (let (st'', e', r) = send_to w (Some x) rest st' in (st'', e @ e', r))"
    "\<forall>q \<in> set qs. receives x (st q) (st' q)" "\<forall>q. q \<notin> set qs \<longrightarrow> st' q = st q"
    by blast
  show ?thesis
  proof (cases rest)
    case Nil
    with s(1) have "send_to w (Some x) (connectedInputs out) st = (st', e, Inr ())" using assms(1) by simp
    with s(2,3) Nil show ?thesis by (auto simp: Output_send_def)
  next
    case (Cons c cs)
    then have "st' c = st c" "mq_isClosed (st c)" using s(3) assms(4) by auto
    then have "send_to w (Some x) rest st' = (st', [], Inl (QueueException CLOSED_QUEUE_MESSAGE))"
      using Cons by (simp add: mq_send_refused Let_def fun_upd_idem)
    with s(1) have "send_to w (Some x) (connectedInputs out) st = (st', e, Inl (QueueException CLOSED_QUEUE_MESSAGE))"
      using assms(1) by simp
    with s(2,3) Cons show ?thesis by (auto simp: Output_send_def)
  qed
qed

theorem send_broadcasts_witness:
  fixes out :: out_port and st :: "(qref, unit, unit, nat) qstore"
  defines "out \<equiv> (g_out empty_graph 0)\<lparr>connectedInputs := [InputQueue 3, HostQueue 5, InputQueue 7]\<rparr>"
    and "st \<equiv> (\<lambda>q. if q = HostQueue 5 then fst (mq_close (MessageQueue_new ''h'' 2 False False))
                   else MessageQueue_new ''i'' 2 False False)"
  shows "\<exists>st' e. Output_send (\<lambda>q. mq (st q)) (Some 9) out st = (st', e, Inl (QueueException CLOSED_QUEUE_MESSAGE)) \<and>
    receives 9 (st (InputQueue 3)) (st' (InputQueue 3)) \<and> st' (InputQueue 7) = st (InputQueue 7)"
proof -
  have "\<exists>st' e. Output_send (\<lambda>q. mq (st q)) (Some 9) out st =
      (st', e, if [HostQueue 5, InputQueue 7] = [] then Inr () else Inl (QueueException CLOSED_QUEUE_MESSAGE)) \<and>
    (\<forall>q \<in> set [InputQueue 3]. receives 9 (st q) (st' q)) \<and> (\<forall>q. q \<notin> set [InputQueue 3] \<longrightarrow> st' q = st q)"
    by (rule send_broadcasts)
      (simp_all add: out_def st_def MessageQueue_new_def LockingQueue_new_def mq_isClosed_def mq_close_def lq_destruct_def)
  then show ?thesis by auto
qed

section \<open>Finding nodes\<close>

fun tree_refs :: "ntree \<Rightarrow> nref list" where
  "tree_refs (NT n ts) = n # concat (map tree_refs ts)"

lemma tree_refs_all: "tree_refs t = root t # getAllNodes t"
proof (induction t)
  case (NT n ts)
  then have "map tree_refs ts = map (\<lambda>t. root t # getAllNodes t) ts" by simp
  then have "concat (map tree_refs ts) = concat (map (\<lambda>t. root t # getAllNodes t) ts)" by (rule arg_cong)
  then show ?case by simp
qed

lemma find_append_first: "find P (xs @ ys) = (case find P xs of Some x \<Rightarrow> Some x | None \<Rightarrow> find P ys)"
  by (induction xs) auto

lemma find_concat: "find P (concat xss) = first_some (find P) xss"
  by (induction xss) (auto simp: find_append_first split: option.splits)

lemma getNode_find: "getNode g i t = find (\<lambda>n. n_id (g_node g n) = i) (tree_refs t)"
proof (induction t)
  case (NT n ts)
  then have "first_some (getNode g i) ts = first_some (\<lambda>t. find (\<lambda>n. n_id (g_node g n) = i) (tree_refs t)) ts"
    by (intro first_some_cong) auto
  moreover have "first_some (\<lambda>t. find P (tree_refs t)) ts = find P (concat (map tree_refs ts))" for P :: "nref \<Rightarrow> bool"
    by (simp add: find_concat) (induction ts; simp split: option.splits)
  ultimately show ?case by simp
qed

section \<open>Removing nodes\<close>

definition mentions :: "graph \<Rightarrow> nref \<Rightarrow> ConnectionInternal \<Rightarrow> bool" where
  "mentions g x c = (lock g (inputNode c) = Some x \<or> lock g (outputNode c) = Some x)"

lemma removeConnectionToNode_frame:
  "g_out (removeConnectionToNode x t g) = g_out g \<and> g_in (removeConnectionToNode x t g) = g_in g \<and>
   g_alive (removeConnectionToNode x t g) = g_alive g \<and> forest (removeConnectionToNode x t g) = forest g \<and>
   isBuilt (removeConnectionToNode x t g) = isBuilt g \<and>
   n_pipeline (g_node (removeConnectionToNode x t g) n) = n_pipeline (g_node g n) \<and>
   connections (g_node (removeConnectionToNode x t g) n) =
     (if n \<in> set (tree_refs t) then filter (\<lambda>c. \<not> mentions g x c) (connections (g_node g n))
      else connections (g_node g n))"
proof (induction t arbitrary: g)
  case (NT m ts)
  define h where "h = upd_node m (\<lambda>v. v\<lparr>connections := filter (\<lambda>c. \<not> mentions g x c) (connections v)\<rparr>) g"
  have fold: "g_out (fold (removeConnectionToNode x) us h) = g_out h \<and> g_in (fold (removeConnectionToNode x) us h) = g_in h \<and>
     g_alive (fold (removeConnectionToNode x) us h) = g_alive h \<and> forest (fold (removeConnectionToNode x) us h) = forest h \<and>
     isBuilt (fold (removeConnectionToNode x) us h) = isBuilt h \<and>
     n_pipeline (g_node (fold (removeConnectionToNode x) us h) n) = n_pipeline (g_node h n) \<and>
     connections (g_node (fold (removeConnectionToNode x) us h) n) =
       (if n \<in> set (concat (map tree_refs us)) then filter (\<lambda>c. \<not> mentions h x c) (connections (g_node h n))
        else connections (g_node h n))"
    if "set us \<subseteq> set ts" for us h
    using that
  proof (induction us arbitrary: h)
    case (Cons u us)
    define k where "k = removeConnectionToNode x u h"
    have u: "g_out k = g_out h \<and> g_in k = g_in h \<and> g_alive k = g_alive h \<and> forest k = forest h \<and>
       isBuilt k = isBuilt h \<and> n_pipeline (g_node k n) = n_pipeline (g_node h n) \<and>
       connections (g_node k n) =
         (if n \<in> set (tree_refs u) then filter (\<lambda>c. \<not> mentions h x c) (connections (g_node h n))
          else connections (g_node h n))"
      unfolding k_def using Cons.prems NT by simp
    then have "mentions k = mentions h" by (simp add: mentions_def lock_def fun_eq_iff)
    with u Cons.IH [of k] Cons.prems show ?case by (auto simp flip: k_def)
  qed simp
  have "mentions h = mentions g" by (simp add: h_def upd_node_def mentions_def lock_def fun_eq_iff)
  moreover have "removeConnectionToNode x (NT m ts) g = fold (removeConnectionToNode x) ts h"
    by (simp add: h_def mentions_def)
  ultimately show ?case using fold [of ts h] by (auto simp: h_def upd_node_def)
qed

text \<open>
  Removing a node leaves dangling pointers: a node with a linked output that stays in the pipeline
  loses the connection object when the node of the input is removed, but its output keeps the
  pointer to the removed node's queue and goes on delivering to it, while the schema no longer
  shows the connection, \<open>unlink\<close> refuses and the pair can be linked a second time.
\<close>

theorem remove_leaves_pointer:
  "\<exists>g g'. link 0 0 two_nodes = Inr g \<and> Pipeline_remove (NT 5 []) g = Inr g' \<and> forest g' = [NT 2 []] \<and>
    connections (g_node g' 2) = [] \<and> InputQueue 0 \<in> set (connectedInputs (g_out g' 0)) \<and>
    (\<exists>e. unlink 0 0 g' = Inl e) \<and>
    (\<exists>g''. link 0 0 g' = Inr g'' \<and> connectedInputs (g_out g'' 0) = [InputQueue 0, InputQueue 0])"
  by (simp add: link_def Pipeline_remove_def Node_remove_def unlink_def graph_simps Output_canConnect_def
      isDatatypeMatch_def subclass_child child_of_simps has_connection_def ConnectionInternal_new_def conn_eq_def
      lock_def Let_def)

section \<open>Unnamed ports\<close>

fun unnamed_outputs :: "nref \<Rightarrow> nat \<Rightarrow> graph \<Rightarrow> string list" where
  "unnamed_outputs n 0 g = []"
| "unnamed_outputs n (Suc k) g = (let (g', s) = createUniqueOutputName n g in s # unnamed_outputs n k g')"

fun unnamed_inputs :: "nref \<Rightarrow> nat \<Rightarrow> graph \<Rightarrow> string list" where
  "unnamed_inputs n 0 g = []"
| "unnamed_inputs n (Suc k) g = (let (g', s) = createUniqueInputName n g in s # unnamed_inputs n k g')"

lemma unnamed_eq:
  "unnamed_outputs n k g =
     map (\<lambda>i. ''_'' @ n_name (g_node g n) @ ''_output_'' @ dec_int (n_outputId (g_node g n) + int i)) [0..<k]"
  "unnamed_inputs n k g =
     map (\<lambda>i. ''_'' @ n_name (g_node g n) @ ''_input_'' @ dec_int (n_inputId (g_node g n) + int i)) [0..<k]"
proof (induction k arbitrary: g)
  case (Suc k)
  have shift: "map f [0..<Suc k] = f 0 # map (\<lambda>i. f (Suc i)) [0..<k]" for f :: "nat \<Rightarrow> string"
    by (simp add: upt_conv_Cons map_Suc_upt [symmetric] del: upt_Suc)
  {
    case 1
    show ?case unfolding shift unnamed_outputs.simps
      by (simp add: Suc createUniqueOutputName_def upd_node_def algebra_simps)
  next
    case 2
    show ?case unfolding shift unnamed_inputs.simps
      by (simp add: Suc createUniqueInputName_def upd_node_def algebra_simps)
  }
qed simp_all

text \<open>
  Ports of a node that are created without a name get different names, however many are created
  and whatever the node is called, and no generated output name equals a generated input name.
\<close>

theorem generated_names_unique:
  "distinct (unnamed_outputs n k g @ unnamed_inputs n k g)"
  by (auto simp: unnamed_eq distinct_map inj_on_def)

end
