(* ===== verification/Pipeline.thy ===== *)
theory Pipeline
  imports NodeGraph
begin

text \<open>
  The pipeline (src/pipeline/Pipeline.cpp, include/depthai/pipeline/Pipeline.hpp): ids, adding
  nodes, the schema that is sent to the device
  (include/depthai/pipeline/PipelineSchema.hpp, NodeObjInfo.hpp, NodeIoInfo.hpp,
  NodeConnectionSchema.hpp). A pipeline holds its graph of nodes, the counter of node ids and the
  bridges of the schema; \<open>nextNode\<close> is the first reference no node has.
\<close>

section \<open>State\<close>

record pipeline =
  pg :: graph
  latestId :: int
  nextNode :: nref
  xlinkBridges :: "(int \<times> int) list"
  hasDevice :: bool
  defaultDeviceId :: string

definition getNextUniqueId :: "pipeline \<Rightarrow> pipeline \<times> int" where
  "getNextUniqueId p = (p\<lparr>latestId := latestId p + 1\<rparr>, latestId p)"

definition pipeline_getAllNodes :: "pipeline \<Rightarrow> nref list" where
  "pipeline_getAllNodes p = concat (map (\<lambda>t. root t # getAllNodes t) (forest (pg p)))"

definition pipeline_getNode :: "int \<Rightarrow> pipeline \<Rightarrow> nref option" where
  "pipeline_getNode i p = first_some (getNode (pg p) i) (forest (pg p))"

definition getSourceNodes :: "(nref \<Rightarrow> bool) \<Rightarrow> pipeline \<Rightarrow> nref list" where
  "getSourceNodes isSourceNode p = filter isSourceNode (map root (forest (pg p)))"

definition isHostOnly :: "pipeline \<Rightarrow> bool" where
  "isHostOnly p = list_all (\<lambda>t. n_runOnHost (g_node (pg p) (root t))) (forest (pg p))"

definition isDeviceOnly :: "pipeline \<Rightarrow> bool" where
  "isDeviceOnly p = list_all (\<lambda>t. \<not> n_runOnHost (g_node (pg p) (root t))) (forest (pg p))"

definition isSamePipeline :: "graph \<Rightarrow> oref \<Rightarrow> iref \<Rightarrow> bool" where
  "isSamePipeline g x y =
     (case n_pipeline (g_node g (o_parent (g_out g x))) of
        None \<Rightarrow> False
      | Some p \<Rightarrow> Some p = n_pipeline (g_node g (i_parent (g_in g y))))"

definition pipeline_canConnect :: "oref \<Rightarrow> iref \<Rightarrow> graph \<Rightarrow> bool result" where
  "pipeline_canConnect x y g =
     (if \<not> isSamePipeline g x y then Inr False
      else if o_type (g_out g x) = MSender \<and> i_type (g_in g y) = MReceiver then Inr False
      else if o_type (g_out g x) = SSender \<and> i_type (g_in g y) = SReceiver then Inr False
      else isDatatypeMatch (o_types (g_out g x)) (possibleDatatypes (g_in g y)))"

subsection \<open>Adding nodes\<close>

fun tree_size :: "ntree \<Rightarrow> nat" where
  "tree_size (NT n ts) = Suc (sum_list (map tree_size ts))"

definition set_parents :: "int \<Rightarrow> ntree list \<Rightarrow> graph \<Rightarrow> graph" where
  "set_parents i = fold (\<lambda>t. upd_node (root t) (\<lambda>v. v\<lparr>n_parentId := sint (word_of_int i :: i32)\<rparr>))"

text \<open>The breadth-first walk of \<open>add\<close>; the list is the queue.\<close>

function add_search :: "ntree list \<Rightarrow> pipeline \<Rightarrow> pipeline result" where
  "add_search [] p = Inr p"
| "add_search (NT n ts # q) p =
     (let (p1, i) = (if n_id (g_node (pg p) n) = -1 then getNextUniqueId p else (p, n_id (g_node (pg p) n)));
          g1 = upd_node n (\<lambda>v. v\<lparr>n_id := i\<rparr>) (pg p1)
      in case n_pipeline (g_node g1 n) of
           Some pl \<Rightarrow>
             if pl \<noteq> g_pipeline g1
             then Inl (InvalidArgument ''Cannot add a node that is already part of another pipeline'')
             else add_search (q @ ts) (p1\<lparr>pg := set_parents i ts g1\<rparr>)
         | None \<Rightarrow>
             add_search (q @ ts)
               (p1\<lparr>pg := set_parents i ts (upd_node n (\<lambda>v. v\<lparr>n_pipeline := Some (g_pipeline g1)\<rparr>) g1)\<rparr>))"
  by pat_completeness auto
termination
  by (relation "measure (\<lambda>(q, p). sum_list (map tree_size q))") auto

definition add :: "ntree \<Rightarrow> pipeline \<Rightarrow> pipeline result" where
  "add t p =
     (if root t \<in> set (pipeline_getAllNodes p)
      then Inl (InvalidArgument (''Node with id '' @ [CHR 0x27] @ dec_int (n_id (g_node (pg p) (root t))) @
             [CHR 0x27] @ '' has already been added to the pipeline''))
      else bindR (add_search [t] p) (\<lambda>p'. Inr (p'\<lparr>pg := (pg p')\<lparr>forest := forest (pg p') @ [t]\<rparr>\<rparr>)))"

subsection \<open>Connections\<close>

definition pipeline_getConnectionMap :: "pipeline \<Rightarrow> (int \<times> ConnectionInternal list) list" where
  "pipeline_getConnectionMap p =
     fold (\<lambda>t m. fold (\<lambda>kv. AList.update (n_id (g_node (pg p) (fst kv))) (snd kv)) (getConnectionMap (pg p) t) m)
       (forest (pg p)) []"

definition getConnectionsInternal :: "pipeline \<Rightarrow> ConnectionInternal list" where
  "getConnectionsInternal p = concat (map snd (pipeline_getConnectionMap p))"

fun mapR :: "('a \<Rightarrow> 'b result) \<Rightarrow> 'a list \<Rightarrow> 'b list result" where
  "mapR f [] = Inr []"
| "mapR f (x # xs) = bindR (f x) (\<lambda>y. bindR (mapR f xs) (\<lambda>ys. Inr (y # ys)))"

definition pipeline_getConnections :: "pipeline \<Rightarrow> Connection list result" where
  "pipeline_getConnections p = mapR (Connection_of (pg p)) (getConnectionsInternal p)"

section \<open>The schema\<close>

datatype NodeIoInfo_Type = IoMSender | IoSSender | IoMReceiver | IoSReceiver

record NodeIoInfo =
  io_group :: string
  io_name :: string
  io_type :: NodeIoInfo_Type
  io_blocking :: bool
  io_queueSize :: int
  io_waitForMessage :: bool
  io_id :: u32

record NodeObjInfo =
  ni_id :: int
  ni_parentId :: int
  ni_name :: string
  ni_alias :: string
  ni_deviceId :: string
  ni_deviceNode :: bool
  ni_builtInNode :: bool
  ni_properties :: bytes
  ni_ioInfo :: "((string \<times> string) \<times> NodeIoInfo) list"

record NodeConnectionSchema =
  node1Id :: int
  node1OutputGroup :: string
  node1Output :: string
  node2Id :: int
  node2InputGroup :: string
  node2Input :: string

record PipelineSchema =
  ps_connections :: "NodeConnectionSchema list"
  ps_nodes :: "(int \<times> NodeObjInfo) list"
  ps_bridges :: "(int \<times> int) list"

fun occurs_in :: "string \<Rightarrow> string \<Rightarrow> bool" where
  "occurs_in p [] = (p = [])"
| "occurs_in p (c # s) = (take (length p) (c # s) = p \<or> occurs_in p s)"

definition debugging_node :: "string \<Rightarrow> bool" where
  "debugging_node name = (name = ''PipelineEventAggregation'' \<or> name = ''PipelineStateMerge'')"

text \<open>The ids of the debugging nodes and of the XLink and queue nodes attached to them.\<close>

definition debugging_step :: "graph \<Rightarrow> ConnectionInternal \<Rightarrow> int list \<Rightarrow> int list" where
  "debugging_step g c ids =
     (let outN = g_node g (outputNode c); inN = g_node g (inputNode c) in
      if outputName c = ''pipelineEventOutput'' then ids
      else if occurs_in ''XLink'' (n_name outN) \<or> occurs_in ''XLink'' (n_name inN) \<or>
              occurs_in ''InputQueue'' (n_name outN) \<or> occurs_in ''OutputQueue'' (n_name inN)
      then (let ids' = (if n_id inN \<in> set ids then ids @ [n_id outN] else ids) in
            if n_id outN \<in> set ids' then ids' @ [n_id inN] else ids')
      else ids)"

definition debugging_ids :: "pipeline \<Rightarrow> int list" where
  "debugging_ids p =
     fold (debugging_step (pg p)) (getConnectionsInternal p)
       (map (\<lambda>n. n_id (g_node (pg p) n))
          (filter (\<lambda>n. debugging_node (n_name (g_node (pg p) n))) (pipeline_getAllNodes p)))"

definition redefined :: "string \<Rightarrow> NodeIoInfo \<Rightarrow> cpp_error" where
  "redefined name io =
     (let q = [CHR 0x27] in
      InvalidArgument (q @ name @ ''.'' @
        (if io_group io = [] then io_name io else io_group io @ ''[\"'' @ io_name io @ ''\"]'') @ q @
        '' redefined. Inputs and outputs must have unique names''))"

text \<open>\<open>ioInfo[ioKey] = io\<close>, with the check before it.\<close>

definition add_io ::
  "string \<Rightarrow> NodeIoInfo \<Rightarrow> ((string \<times> string) \<times> NodeIoInfo) list \<Rightarrow> ((string \<times> string) \<times> NodeIoInfo) list result" where
  "add_io name io m =
     (if map_of m (io_group io, io_name io) \<noteq> None then Inl (redefined name io)
      else Inr (AList.update (io_group io, io_name io) io m))"

definition input_io :: "('cb, 'n, 'm) mqueue \<Rightarrow> in_port \<Rightarrow> int \<Rightarrow> NodeIoInfo" where
  "input_io q inp i =
     \<lparr>io_group = i_group inp, io_name = i_name inp,
      io_type = (case i_type inp of MReceiver \<Rightarrow> IoMReceiver | SReceiver \<Rightarrow> IoSReceiver),
      io_blocking = blocking (mq q), io_queueSize = int (maxSize (mq q)), io_waitForMessage = waitForMessage inp,
      io_id = word_of_int i\<rparr>"

definition output_io :: "out_port \<Rightarrow> int \<Rightarrow> NodeIoInfo" where
  "output_io out i =
     \<lparr>io_group = o_group out, io_name = o_name out,
      io_type = (case o_type out of MSender \<Rightarrow> IoMSender | SSender \<Rightarrow> IoSSender),
      io_blocking = False, io_queueSize = 8, io_waitForMessage = False, io_id = word_of_int i\<rparr>"

text \<open>
  The ports of one node, threading \<open>latestIoId\<close>. \<open>qs\<close> are the message queues of the inputs.
\<close>

definition node_ios ::
  "(qref, 'cb, 'n, 'm) qstore \<Rightarrow> bool \<Rightarrow> graph \<Rightarrow> nref \<Rightarrow> int \<Rightarrow>
     (int \<times> ((string \<times> string) \<times> NodeIoInfo) list) result" where
  "node_ios qs dbg g n latestIoId =
     bindR (foldR (\<lambda>y (i, m). bindR (add_io (n_name (g_node g n)) (input_io (qs (InputQueue y)) (g_in g y) i) m)
                     (\<lambda>m'. Inr (i + 1, m'))) (getInputRefs n g) (latestIoId, []))
       (foldR (\<lambda>x (i, m).
          if \<not> dbg \<and> o_name (g_out g x) = ''pipelineEventOutput'' then Inr (i, m)
          else bindR (add_io (n_name (g_node g n)) (output_io (g_out g x) i) m) (\<lambda>m'. Inr (i + 1, m')))
        (getOutputRefs n g))"

definition node_info ::
  "(nref \<Rightarrow> bytes) \<Rightarrow> (qref, 'cb, 'n, 'm) qstore \<Rightarrow> bool \<Rightarrow> pipeline \<Rightarrow> nref \<Rightarrow> int \<Rightarrow> (int \<times> NodeObjInfo) result" where
  "node_info props qs dbg p n latestIoId =
     (let v = g_node (pg p) n in
      if \<not> n_runOnHost v \<and> \<not> n_isDeviceNode v
      then Inl (InvalidArgument (''Node '' @ [CHR 0x27] @ n_name v @ [CHR 0x27] @ '' should subclass DeviceNode or have hostNode == true''))
      else bindR (node_ios qs dbg (pg p) n latestIoId) (\<lambda>(i, ios).
        Inr (i, \<lparr>ni_id = n_id v, ni_parentId = n_parentId v, ni_name = n_name v, ni_alias = n_alias v,
                 ni_deviceId = (if n_runOnHost v then [] else defaultDeviceId p), ni_deviceNode = \<not> n_runOnHost v,
                 ni_builtInNode = n_builtIn v, ni_properties = (if n_isDeviceNode v then props n else []), ni_ioInfo = ios\<rparr>)))"

definition schema_nodes ::
  "(nref \<Rightarrow> bytes) \<Rightarrow> (qref, 'cb, 'n, 'm) qstore \<Rightarrow> bool \<Rightarrow> pipeline \<Rightarrow> int list \<Rightarrow> (int \<times> (int \<times> NodeObjInfo) list) result" where
  "schema_nodes props qs dbg p hidden =
     foldR (\<lambda>n (i, m).
       if \<not> dbg \<and> n_id (g_node (pg p) n) \<in> set hidden then Inr (i, m)
       else bindR (node_info props qs dbg p n i) (\<lambda>(i', info). Inr (i', AList.update (ni_id info) info m)))
     (pipeline_getAllNodes p) (0, [])"

definition schema_connection :: "graph \<Rightarrow> ConnectionInternal \<Rightarrow> NodeConnectionSchema" where
  "schema_connection g c =
     \<lparr>node1Id = n_id (g_node g (outputNode c)), node1OutputGroup = outputGroup c, node1Output = outputName c,
      node2Id = n_id (g_node g (inputNode c)), node2InputGroup = inputGroup c, node2Input = inputName c\<rparr>"

definition not_allowed :: "string \<Rightarrow> string \<Rightarrow> string \<Rightarrow> string \<Rightarrow> cpp_error" where
  "not_allowed a x b y =
     (let q = [CHR 0x27] in
      InvalidArgument (''Connection from '' @ a @ '' node '' @ q @ x @ q @ '' to '' @ b @ '' node '' @ q @ y @ q @
        '' is not allowed during serialization.''))"

definition schema_connections :: "bool \<Rightarrow> pipeline \<Rightarrow> int list \<Rightarrow> NodeConnectionSchema list result" where
  "schema_connections dbg p hidden =
     foldR (\<lambda>c cs.
       if \<not> dbg \<and> outputName c = ''pipelineEventOutput'' then Inr cs
       else
         (let s = schema_connection (pg p) c; outN = g_node (pg p) (outputNode c); inN = g_node (pg p) (inputNode c) in
          if \<not> dbg \<and> (node1Id s \<in> set hidden \<or> node2Id s \<in> set hidden) then Inr cs
          else if n_runOnHost outN \<and> \<not> n_runOnHost inN then Inl (not_allowed ''host'' (n_name outN) ''device'' (n_name inN))
          else if \<not> n_runOnHost outN \<and> n_runOnHost inN then Inl (not_allowed ''device'' (n_name outN) ''host'' (n_name inN))
          else Inr (cs @ [s])))
     (getConnectionsInternal p) []"

definition getPipelineSchema ::
  "(nref \<Rightarrow> bytes) \<Rightarrow> (qref, 'cb, 'n, 'm) qstore \<Rightarrow> bool \<Rightarrow> pipeline \<Rightarrow> PipelineSchema result" where
  "getPipelineSchema props qs dbg p =
     (let hidden = (if dbg then [] else debugging_ids p) in
      bindR (schema_nodes props qs dbg p hidden) (\<lambda>(_, nodes).
        bindR (schema_connections dbg p hidden) (\<lambda>cs.
          Inr \<lparr>ps_connections = cs, ps_nodes = nodes, ps_bridges = xlinkBridges p\<rparr>)))"

definition device_info :: "NodeObjInfo \<Rightarrow> bool" where
  "device_info info = (ni_deviceNode info \<and> ni_name info \<noteq> ''NodeGroup'' \<and> ni_name info \<noteq> ''DeviceNodeGroup'')"

text \<open>The test of \<open>remove_if\<close>: whether to remove the connection.\<close>

definition host_connection :: "(int \<times> NodeObjInfo) list \<Rightarrow> NodeConnectionSchema \<Rightarrow> bool result" where
  "host_connection nodes c =
     (case (map_of nodes (node1Id c), map_of nodes (node2Id c)) of
        (None, None) \<Rightarrow> Inr True
      | (Some _, Some _) \<Rightarrow> Inr False
      | _ \<Rightarrow> Inl (InvalidArgument ''Connection from host node to device node should not exist here''))"

definition getDevicePipelineSchema ::
  "(nref \<Rightarrow> bytes) \<Rightarrow> (qref, 'cb, 'n, 'm) qstore \<Rightarrow> bool \<Rightarrow> pipeline \<Rightarrow> PipelineSchema result" where
  "getDevicePipelineSchema props qs dbg p =
     bindR (getPipelineSchema props qs dbg p) (\<lambda>s.
       let nodes = filter (\<lambda>kv. device_info (snd kv)) (ps_nodes s) in
       bindR (foldR (\<lambda>c cs. bindR (host_connection nodes c) (\<lambda>rm. Inr (if rm then cs else cs @ [c]))) (ps_connections s) [])
         (\<lambda>cs. Inr \<lparr>ps_connections = cs, ps_nodes = nodes, ps_bridges = []\<rparr>))"

section \<open>The connections of a pipeline\<close>

definition all_ids :: "pipeline \<Rightarrow> int list" where
  "all_ids p = map (\<lambda>n. n_id (g_node (pg p) n)) (pipeline_getAllNodes p)"

lemma set_update_functional:
  "\<forall>e \<in> set m. fst e = k \<longrightarrow> snd e = v \<Longrightarrow> set (AList.update k v m) = insert (k, v) (set m)"
  by (induction m) auto

text \<open>Writing entries whose value is determined by their key.\<close>

lemma set_fold_update:
  "\<forall>e \<in> set m. snd e = F (fst e) \<Longrightarrow> \<forall>e \<in> set kvs. snd e = F (f (fst e)) \<Longrightarrow>
   set (fold (\<lambda>kv. AList.update (f (fst kv)) (snd kv)) kvs m) = (\<lambda>kv. (f (fst kv), snd kv)) ` set kvs \<union> set m"
proof (induction kvs arbitrary: m)
  case (Cons kv kvs)
  have "set (AList.update (f (fst kv)) (snd kv) m) = insert (f (fst kv), snd kv) (set m)"
    using Cons.prems by (intro set_update_functional) simp
  with Cons.IH [of "AList.update (f (fst kv)) (snd kv) m"] Cons.prems show ?case by simp
qed simp

lemma set_getConnectionMap:
  "set (getConnectionMap g t) = (\<lambda>n. (n, connections (g_node g n))) ` set (tree_refs t)"
proof (induction t)
  case (NT n ts)
  have "set (fold (\<lambda>t m. fold (\<lambda>kv. AList.update (fst kv) (snd kv)) (getConnectionMap g t) m) us m) =
      (\<lambda>n. (n, connections (g_node g n))) ` set (concat (map tree_refs us)) \<union> set m"
    if "set us \<subseteq> set ts" "\<forall>e \<in> set m. snd e = connections (g_node g (fst e))" for us m
    using that
  proof (induction us arbitrary: m)
    case (Cons u us)
    define m' where "m' = fold (\<lambda>kv. AList.update (fst kv) (snd kv)) (getConnectionMap g u) m"
    have u: "set (getConnectionMap g u) = (\<lambda>n. (n, connections (g_node g n))) ` set (tree_refs u)"
      using NT Cons.prems by simp
    have m': "set m' = (\<lambda>n. (n, connections (g_node g n))) ` set (tree_refs u) \<union> set m"
      using set_fold_update [of m "\<lambda>n. connections (g_node g n)" "getConnectionMap g u" "\<lambda>n. n"] Cons.prems(2)
      by (simp add: m'_def u)
    then have "\<forall>e \<in> set m'. snd e = connections (g_node g (fst e))" using Cons.prems(2) by auto
    with Cons.IH [of m'] Cons.prems(1) m' show ?case by (auto simp flip: m'_def)
  qed simp
  from this [of ts "[(n, connections (g_node g n))]"] show ?case by auto
qed

lemma pipeline_getAllNodes_refs: "pipeline_getAllNodes p = concat (map tree_refs (forest (pg p)))"
  unfolding pipeline_getAllNodes_def using tree_refs_all by presburger

lemma set_getConnectionsInternal:
  assumes "distinct (all_ids p)"
  shows "set (getConnectionsInternal p) = (\<Union>n \<in> set (pipeline_getAllNodes p). set (connections (g_node (pg p) n)))"
proof -
  let ?id = "\<lambda>n. n_id (g_node (pg p) n)" and ?all = "set (pipeline_getAllNodes p)"
  define F where "F i = connections (g_node (pg p) (inv_into ?all ?id i))" for i
  have inj: "inj_on ?id ?all" using assms by (simp add: all_ids_def distinct_map)
  then have F: "F (?id n) = connections (g_node (pg p) n)" if "n \<in> ?all" for n
    using inv_into_f_f [OF inj that] by (simp add: F_def)
  have "set (fold (\<lambda>t m. fold (\<lambda>kv. AList.update (?id (fst kv)) (snd kv)) (getConnectionMap (pg p) t) m) us m) =
      (\<lambda>n. (?id n, connections (g_node (pg p) n))) ` set (concat (map tree_refs us)) \<union> set m"
    if "set us \<subseteq> set (forest (pg p))" "\<forall>e \<in> set m. snd e = F (fst e)" for us m
    using that
  proof (induction us arbitrary: m)
    case (Cons u us)
    define m' where "m' = fold (\<lambda>kv. AList.update (?id (fst kv)) (snd kv)) (getConnectionMap (pg p) u) m"
    have "set (tree_refs u) \<subseteq> ?all" using Cons.prems(1) by (auto simp: pipeline_getAllNodes_refs)
    then have "\<forall>e \<in> set (getConnectionMap (pg p) u). snd e = F (?id (fst e))"
      using F by (auto simp: set_getConnectionMap)
    then have m': "set m' = (\<lambda>n. (?id n, connections (g_node (pg p) n))) ` set (tree_refs u) \<union> set m"
      using set_fold_update [of m F "getConnectionMap (pg p) u" ?id] Cons.prems(2)
      by (simp add: m'_def set_getConnectionMap image_image)
    then have "\<forall>e \<in> set m'. snd e = F (fst e)" using Cons.prems(2) F \<open>set (tree_refs u) \<subseteq> ?all\<close> by auto
    with Cons.IH [of m'] Cons.prems(1) m' show ?case by (auto simp flip: m'_def)
  qed simp
  from this [of "forest (pg p)" "[]"] show ?thesis
    by (auto simp: getConnectionsInternal_def pipeline_getConnectionMap_def pipeline_getAllNodes_refs)
qed

section \<open>Node ids\<close>

definition ids_ok :: "pipeline \<Rightarrow> bool" where
  "ids_ok p = (distinct (pipeline_getAllNodes p) \<and> distinct (all_ids p) \<and> 0 \<le> latestId p \<and>
     (\<forall>i \<in> set (all_ids p). 0 \<le> i \<and> i < latestId p))"

lemma set_parents_frame:
  "n_id (g_node (set_parents i ts g) n) = n_id (g_node g n)" "n_pipeline (g_node (set_parents i ts g) n) = n_pipeline (g_node g n)"
  "forest (set_parents i ts g) = forest g" "g_pipeline (set_parents i ts g) = g_pipeline g"
  by (induction ts arbitrary: g) (simp_all add: set_parents_def upd_node_def)

definition queue_refs :: "ntree list \<Rightarrow> nref list" where
  "queue_refs q = concat (map tree_refs q)"

definition fresh_node :: "pipeline \<Rightarrow> nref \<Rightarrow> bool" where
  "fresh_node p n = (n_id (g_node (pg p) n) = -1 \<and> n_pipeline (g_node (pg p) n) = None)"

definition numbered :: "nref list \<Rightarrow> pipeline \<Rightarrow> pipeline \<Rightarrow> bool" where
  "numbered ns p p' =
     (latestId p' = latestId p + int (length ns) \<and> forest (pg p') = forest (pg p) \<and>
      inj_on (\<lambda>n. n_id (g_node (pg p') n)) (set ns) \<and>
      (\<forall>n \<in> set ns. latestId p \<le> n_id (g_node (pg p') n) \<and> n_id (g_node (pg p') n) < latestId p') \<and>
      (\<forall>n. n \<notin> set ns \<longrightarrow> n_id (g_node (pg p') n) = n_id (g_node (pg p) n)))"

lemma numbered_step:
  assumes "numbered ns p2 p'" and "n \<notin> set ns" and "latestId p2 = latestId p + 1" and "forest (pg p2) = forest (pg p)"
    and "n_id (g_node (pg p2) n) = latestId p" and "\<And>m. m \<noteq> n \<Longrightarrow> n_id (g_node (pg p2) m) = n_id (g_node (pg p) m)"
    and "length ns' = Suc (length ns)" and "set ns' = insert n (set ns)"
  shows "numbered ns' p p'"
proof -
  have i: "n_id (g_node (pg p') n) = latestId p" using assms(1,2,5) by (simp add: numbered_def)
  have ge: "m \<in> set ns \<Longrightarrow> latestId p < n_id (g_node (pg p') m)" for m
    using assms(1,3) by (auto simp: numbered_def)
  have "latestId p' = latestId p + int (length ns')" using assms(1,3,7) by (simp add: numbered_def)
  moreover have "inj_on (\<lambda>n. n_id (g_node (pg p') n)) (set ns')"
    unfolding assms(8) inj_on_insert using assms(1) i ge by (force simp: numbered_def)
  moreover have "latestId p \<le> n_id (g_node (pg p') m) \<and> n_id (g_node (pg p') m) < latestId p'" if "m \<in> set ns'" for m
    using that i ge [of m] assms(1,3) by (auto simp: assms(8) numbered_def)
  moreover have "n_id (g_node (pg p') m) = n_id (g_node (pg p) m)" if "m \<notin> set ns'" for m
    using that assms(1,6) by (auto simp: assms(8) numbered_def)
  ultimately show ?thesis using assms(1,4) by (simp add: numbered_def)
qed

text \<open>The walk of \<open>add\<close> over fresh nodes numbers them from \<open>latestId\<close> on and touches no other id.\<close>

lemma add_search_ids:
  assumes "distinct (queue_refs q)" and "\<forall>n \<in> set (queue_refs q). fresh_node p n"
  shows "\<exists>p'. add_search q p = Inr p' \<and> numbered (queue_refs q) p p'"
  using assms
proof (induction "sum_list (map tree_size q)" arbitrary: q p rule: less_induct)
  case less
  show ?case
  proof (cases q)
    case Nil
    then show ?thesis by (simp add: numbered_def queue_refs_def)
  next
    case (Cons t q')
    obtain n ts where t: "t = NT n ts" by (cases t)
    define i where "i = latestId p"
    define g1 where "g1 = upd_node n (\<lambda>v. v\<lparr>n_id := i\<rparr>) (pg p)"
    define p2 where "p2 = p\<lparr>latestId := i + 1,
      pg := set_parents i ts (upd_node n (\<lambda>v. v\<lparr>n_pipeline := Some (g_pipeline g1)\<rparr>) g1)\<rparr>"
    have refs: "set (queue_refs q) = insert n (set (queue_refs (q' @ ts)))"
      "length (queue_refs q) = Suc (length (queue_refs (q' @ ts)))"
      "n \<notin> set (queue_refs (q' @ ts))" "distinct (queue_refs (q' @ ts))"
      using less.prems(1) by (auto simp: queue_refs_def Cons t)
    have n: "fresh_node p n" using less.prems(2) refs(1) by simp
    then have step: "add_search q p = add_search (q' @ ts) p2"
      by (simp add: Cons t fresh_node_def getNextUniqueId_def upd_node_def p2_def g1_def i_def Let_def)
    have p2: "latestId p2 = latestId p + 1" "forest (pg p2) = forest (pg p)" "n_id (g_node (pg p2) n) = latestId p"
      "\<And>m. m \<noteq> n \<Longrightarrow> n_id (g_node (pg p2) m) = n_id (g_node (pg p) m)"
      "\<And>m. m \<noteq> n \<Longrightarrow> n_pipeline (g_node (pg p2) m) = n_pipeline (g_node (pg p) m)"
      by (simp_all add: p2_def set_parents_frame g1_def upd_node_def i_def)
    have "\<forall>m \<in> set (queue_refs (q' @ ts)). fresh_node p2 m"
    proof
      fix m assume m: "m \<in> set (queue_refs (q' @ ts))"
      then have "m \<noteq> n" using refs(3) by blast
      moreover have "fresh_node p m" using less.prems(2) m refs(1) by blast
      ultimately show "fresh_node p2 m" by (simp add: fresh_node_def p2)
    qed
    moreover have "sum_list (map tree_size (q' @ ts)) < sum_list (map tree_size q)" by (simp add: Cons t)
    ultimately obtain p' where "add_search (q' @ ts) p2 = Inr p'" "numbered (queue_refs (q' @ ts)) p2 p'"
      using less.hyps refs(4) by blast
    then show ?thesis using step numbered_step [OF _ refs(3) p2(1-4) refs(2,1)] by auto
  qed
qed

lemma find_map_distinct: "distinct (map f xs) \<Longrightarrow> x \<in> set xs \<Longrightarrow> find (\<lambda>y. f y = f x) xs = Some x"
  by (induction xs) auto

lemma pipeline_getNode_find:
  "pipeline_getNode i p = find (\<lambda>n. n_id (g_node (pg p) n) = i) (pipeline_getAllNodes p)"
proof -
  have "first_some (getNode g i) ts = find (\<lambda>n. n_id (g_node g n) = i) (concat (map tree_refs ts))" for g ts
    by (induction ts) (auto simp: getNode_find find_append_first split: option.splits)
  then show ?thesis by (simp add: pipeline_getNode_def pipeline_getAllNodes_refs)
qed

text \<open>
  C6. Adding a tree of new nodes to a pipeline succeeds, numbers every node of the tree with an id of its
  own and leaves the ids of the other nodes; ids stay unique, so that looking any node of the pipeline up
  by its id gives that node.
\<close>

theorem add_assigns_unique_ids:
  assumes ok: "ids_ok p" and d: "distinct (pipeline_getAllNodes p @ tree_refs t)"
    and fresh: "\<forall>n \<in> set (tree_refs t). fresh_node p n"
  shows "\<exists>p'. add t p = Inr p' \<and> ids_ok p' \<and> latestId p' = latestId p + int (length (tree_refs t)) \<and>
    pipeline_getAllNodes p' = pipeline_getAllNodes p @ tree_refs t \<and>
    (\<forall>n \<in> set (pipeline_getAllNodes p'). pipeline_getNode (n_id (g_node (pg p') n)) p' = Some n) \<and>
    (\<forall>n \<in> set (pipeline_getAllNodes p). n_id (g_node (pg p') n) = n_id (g_node (pg p) n))"
proof -
  have q: "queue_refs [t] = tree_refs t" by (simp add: queue_refs_def)
  obtain p1 where p1: "add_search [t] p = Inr p1" "numbered (tree_refs t) p p1"
    using add_search_ids [of "[t]" p] d fresh by (auto simp: q)
  define p' where "p' = p1\<lparr>pg := (pg p1)\<lparr>forest := forest (pg p1) @ [t]\<rparr>\<rparr>"
  have p': "forest (pg p') = forest (pg p) @ [t]" "latestId p' = latestId p + int (length (tree_refs t))"
    "\<And>n. n_id (g_node (pg p') n) = n_id (g_node (pg p1) n)"
    using p1(2) by (simp_all add: p'_def numbered_def)
  have all: "pipeline_getAllNodes p' = pipeline_getAllNodes p @ tree_refs t"
    by (simp add: pipeline_getAllNodes_refs p')
  have "root t \<in> set (tree_refs t)" by (simp add: tree_refs_all)
  then have "add t p = Inr p'" using p1(1) d by (auto simp: add_def p'_def)
  have old: "n_id (g_node (pg p') n) = n_id (g_node (pg p) n)" if "n \<in> set (pipeline_getAllNodes p)" for n
    using that d p1(2) p'(3) by (auto simp: numbered_def)
  have new: "latestId p \<le> n_id (g_node (pg p') n) \<and> n_id (g_node (pg p') n) < latestId p'" if "n \<in> set (tree_refs t)" for n
    using that p1(2) p'(2,3) by (auto simp: numbered_def)
  have ids: "all_ids p' = all_ids p @ map (\<lambda>n. n_id (g_node (pg p') n)) (tree_refs t)"
    using old by (simp add: all_ids_def all)
  have "distinct (map (\<lambda>n. n_id (g_node (pg p') n)) (tree_refs t))"
    using d p1(2) p'(3) by (simp add: distinct_map numbered_def)
  moreover have "set (all_ids p) \<inter> (\<lambda>n. n_id (g_node (pg p') n)) ` set (tree_refs t) = {}"
    using ok new by (force simp: ids_ok_def)
  ultimately have di: "distinct (all_ids p')" using ok by (simp add: ids ids_ok_def)
  have "0 \<le> n_id (g_node (pg p') n)" if "n \<in> set (tree_refs t)" for n
    using new [OF that] ok by (simp add: ids_ok_def)
  then have "ids_ok p'"
    using ok d di new p'(2) by (auto simp: ids_ok_def all ids)
  moreover have "pipeline_getNode (n_id (g_node (pg p') n)) p' = Some n" if "n \<in> set (pipeline_getAllNodes p')" for n
    using find_map_distinct [OF di [unfolded all_ids_def] that] by (simp add: pipeline_getNode_find)
  ultimately show ?thesis using \<open>add t p = Inr p'\<close> p'(2) all old by blast
qed

theorem add_assigns_unique_ids_witness:
  "\<exists>p'. add (NT 5 [NT 2 []]) \<lparr>pg = (upd_node 5 (\<lambda>v. v\<lparr>n_pipeline := None\<rparr>) (upd_node 2 (\<lambda>v. v\<lparr>n_pipeline := None\<rparr>) empty_graph)),
     latestId = 0, nextNode = 6, xlinkBridges = [], hasDevice = True, defaultDeviceId = []\<rparr> = Inr p' \<and> ids_ok p' \<and> latestId p' = 2"
proof -
  let ?p = "\<lparr>pg = (upd_node 5 (\<lambda>v. v\<lparr>n_pipeline := None\<rparr>) (upd_node 2 (\<lambda>v. v\<lparr>n_pipeline := None\<rparr>) empty_graph)),
     latestId = 0, nextNode = 6, xlinkBridges = [], hasDevice = True, defaultDeviceId = []\<rparr>"
  have "ids_ok ?p" "distinct (pipeline_getAllNodes ?p @ tree_refs (NT 5 [NT 2 []]))"
    "\<forall>n \<in> set (tree_refs (NT 5 [NT 2 []])). fresh_node ?p n"
    by (simp_all add: ids_ok_def all_ids_def pipeline_getAllNodes_def fresh_node_def graph_simps)
  from add_assigns_unique_ids [OF this] show ?thesis by auto
qed

section \<open>The connections of the schema\<close>

lemma getConnectionsInternal_subset:
  assumes "c \<in> set (getConnectionsInternal p)"
  shows "\<exists>n. c \<in> set (connections (g_node (pg p) n))"
proof -
  let ?P = "\<lambda>m. \<forall>e \<in> set m. \<exists>n. snd e = connections (g_node (pg p) n)"
  have upd: "?P (fold (\<lambda>kv. AList.update (f (fst kv)) (snd kv)) kvs m)"
    if "?P kvs" "?P m" for kvs :: "(nref \<times> ConnectionInternal list) list" and f :: "nref \<Rightarrow> int" and m
    using that
  proof (induction kvs arbitrary: m)
    case (Cons kv kvs)
    have sub: "set (AList.update k v m) \<subseteq> insert (k, v) (set m)" for k v by (induction m) auto
    have "\<exists>n. snd e = connections (g_node (pg p) n)" if "e \<in> set (AList.update (f (fst kv)) (snd kv) m)" for e
    proof -
      from that sub have "e = (f (fst kv), snd kv) \<or> e \<in> set m" by blast
      then show ?thesis using Cons.prems by (elim disjE) auto
    qed
    then have "?P (AList.update (f (fst kv)) (snd kv) m)" by blast
    from Cons.IH [OF _ this] Cons.prems(1) show ?case by simp
  qed simp
  have "?P (fold (\<lambda>t m. fold (\<lambda>kv. AList.update (n_id (g_node (pg p) (fst kv))) (snd kv)) (getConnectionMap (pg p) t) m) us m)"
    if "?P m" for us m
    using that
  proof (induction us arbitrary: m)
    case (Cons u us)
    have "?P (getConnectionMap (pg p) u)" by (auto simp: set_getConnectionMap)
    with upd [of "getConnectionMap (pg p) u" m "\<lambda>n. n_id (g_node (pg p) n)"] Cons show ?case by simp
  qed simp
  from this [of "[]" "forest (pg p)"] assms show ?thesis
    by (fastforce simp: getConnectionsInternal_def pipeline_getConnectionMap_def)
qed

definition shown :: "bool \<Rightarrow> graph \<Rightarrow> int list \<Rightarrow> ConnectionInternal \<Rightarrow> bool" where
  "shown dbg g hidden c = (dbg \<or> outputName c \<noteq> ''pipelineEventOutput'' \<and>
     n_id (g_node g (outputNode c)) \<notin> set hidden \<and> n_id (g_node g (inputNode c)) \<notin> set hidden)"

definition one_sided :: "graph \<Rightarrow> ConnectionInternal \<Rightarrow> bool" where
  "one_sided g c = (n_runOnHost (g_node g (outputNode c)) = n_runOnHost (g_node g (inputNode c)))"

lemma schema_connections_eq:
  "(if \<forall>c \<in> set (getConnectionsInternal p). shown dbg (pg p) hidden c \<longrightarrow> one_sided (pg p) c
    then schema_connections dbg p hidden =
      Inr (map (schema_connection (pg p)) (filter (shown dbg (pg p) hidden) (getConnectionsInternal p)))
    else \<exists>a x b y. schema_connections dbg p hidden = Inl (not_allowed a x b y))"
proof -
  define step where "step = (\<lambda>c cs.
       if \<not> dbg \<and> outputName c = ''pipelineEventOutput'' then Inr cs
       else
         (let s = schema_connection (pg p) c; outN = g_node (pg p) (outputNode c); inN = g_node (pg p) (inputNode c) in
          if \<not> dbg \<and> (node1Id s \<in> set hidden \<or> node2Id s \<in> set hidden) then Inr cs
          else if n_runOnHost outN \<and> \<not> n_runOnHost inN then Inl (not_allowed ''host'' (n_name outN) ''device'' (n_name inN))
          else if \<not> n_runOnHost outN \<and> n_runOnHost inN then Inl (not_allowed ''device'' (n_name outN) ''host'' (n_name inN))
          else Inr (cs @ [s])))"
  have st: "step c ds = (if \<not> shown dbg (pg p) hidden c then Inr ds
      else if one_sided (pg p) c then Inr (ds @ [schema_connection (pg p) c])
      else Inl (if n_runOnHost (g_node (pg p) (outputNode c))
        then not_allowed ''host'' (n_name (g_node (pg p) (outputNode c))) ''device'' (n_name (g_node (pg p) (inputNode c)))
        else not_allowed ''device'' (n_name (g_node (pg p) (outputNode c))) ''host'' (n_name (g_node (pg p) (inputNode c)))))" for c ds
    by (auto simp: step_def shown_def one_sided_def schema_connection_def Let_def)
  have "if \<forall>c \<in> set cs. shown dbg (pg p) hidden c \<longrightarrow> one_sided (pg p) c
      then foldR step cs ds = Inr (ds @ map (schema_connection (pg p)) (filter (shown dbg (pg p) hidden) cs))
      else \<exists>a x b y. foldR step cs ds = Inl (not_allowed a x b y)" for cs ds
  proof (induction cs arbitrary: ds)
    case (Cons c cs)
    note IH = Cons [of ds] Cons [of "ds @ [schema_connection (pg p) c]"]
    consider "\<not> shown dbg (pg p) hidden c" | "shown dbg (pg p) hidden c" "one_sided (pg p) c"
      | "shown dbg (pg p) hidden c" "\<not> one_sided (pg p) c" by blast
    then show ?case
    proof cases
      case 1
      then have "foldR step (c # cs) ds = foldR step cs ds" using st [of c ds] by simp
      then show ?thesis using IH(1) 1 by simp
    next
      case 2
      then have "foldR step (c # cs) ds = foldR step cs (ds @ [schema_connection (pg p) c])" using st [of c ds] by simp
      then show ?thesis using IH(2) 2 by simp
    next
      case 3
      then have "\<exists>a x b y. foldR step (c # cs) ds = Inl (not_allowed a x b y)" using st [of c ds] by (auto split: if_splits)
      then show ?thesis using 3 by auto
    qed
  qed simp
  from this [of "getConnectionsInternal p" "[]"] show ?thesis
    by (simp add: schema_connections_def step_def cong: if_cong)
qed

end
