(* ===== verification/Bridging.thy ===== *)
theory Bridging
  imports Pipeline
begin

text \<open>
  The part of \<open>PipelineImpl::build\<close> (src/pipeline/Pipeline.cpp) that replaces every connection between
  host and device by a pair of XLink nodes, and every host queue of a device output. The classes of
  the four XLink nodes are those of include/depthai/pipeline/node/internal. What \<open>build\<close> does before and
  after (AutoCalibration, the build stages of the node classes, record and replay, the debugging setup)
  is not modelled.
\<close>

section \<open>Creating the XLink nodes\<close>

text \<open>
  A threaded node: its output of pipeline events is constructed first, then its event dispatcher,
  so that the ports constructed after it send events.
\<close>

definition event_desc :: OutputDescription where
  "event_desc = \<lparr>d_name = ''pipelineEventOutput'', d_group = [],
     d_types = [\<lparr>h_datatype = PipelineEvent, h_descendants = False\<rparr>]\<rparr>"

definition ThreadedNode_new :: "string \<Rightarrow> bool \<Rightarrow> pipeline \<Rightarrow> pipeline \<times> nref" where
  "ThreadedNode_new name host p =
     (let n = nextNode p;
          v = \<lparr>n_id = -1, n_parentId = -1, n_inputId = 0, n_outputId = 0, n_name = name, n_alias = [],
               n_runOnHost = host, n_pipeline = None, n_isDeviceNode = \<not> host, n_builtIn = True, n_events = False,
               outputRefs = [], inputRefs = [], outputMapRefs = [], inputMapRefs = [], connections = []\<rparr>;
          g = upd_node n (\<lambda>v. v\<lparr>n_events := True\<rparr>) (fst (Output_new n event_desc True (upd_node n (\<lambda>_. v) (pg p))))
      in (p\<lparr>pg := g, nextNode := n + 1\<rparr>, n))"

definition buffers :: "DatatypeHierarchy list" where
  "buffers = [\<lparr>h_datatype = Buffer, h_descendants = True\<rparr>]"

definition xlink_input :: InputDescription where
  "xlink_input = \<lparr>d_name = ''in'', d_group = [], d_types = buffers, d_blocking = True, d_queueSize = 3,
     d_waitForMessage = False\<rparr>"

definition xlink_output :: OutputDescription where
  "xlink_output = \<lparr>d_name = ''out'', d_group = [], d_types = buffers\<rparr>"

text \<open>\<open>create\<close> of a class with one input or one output; a device node needs the default device.\<close>

definition create_with_input :: "string \<Rightarrow> bool \<Rightarrow> pipeline \<Rightarrow> (pipeline \<times> nref \<times> iref) result" where
  "create_with_input name host p =
     (if \<not> host \<and> \<not> hasDevice p then Inl (RuntimeError ''Pipeline is host only, cannot create device node'')
      else
        (let (p1, n) = ThreadedNode_new name host p; (g, y) = Input_new n xlink_input True (pg p1) in
         bindR (add (NT n []) (p1\<lparr>pg := g\<rparr>)) (\<lambda>p2. Inr (p2, n, y))))"

definition create_with_output :: "string \<Rightarrow> bool \<Rightarrow> pipeline \<Rightarrow> (pipeline \<times> nref \<times> oref) result" where
  "create_with_output name host p =
     (if \<not> host \<and> \<not> hasDevice p then Inl (RuntimeError ''Pipeline is host only, cannot create device node'')
      else
        (let (p1, n) = ThreadedNode_new name host p; (g, x) = Output_new n xlink_output True (pg p1) in
         bindR (add (NT n []) (p1\<lparr>pg := g\<rparr>)) (\<lambda>p2. Inr (p2, n, x))))"

definition create_XLinkOut :: "pipeline \<Rightarrow> (pipeline \<times> nref \<times> iref) result" where
  "create_XLinkOut = create_with_input ''XLinkOut'' False"

definition create_XLinkInHost :: "pipeline \<Rightarrow> (pipeline \<times> nref \<times> oref) result" where
  "create_XLinkInHost = create_with_output ''XLinkInHost'' True"

definition create_XLinkOutHost :: "pipeline \<Rightarrow> (pipeline \<times> nref \<times> iref) result" where
  "create_XLinkOutHost = create_with_input ''XLinkOutHost'' True"

definition create_XLinkIn :: "pipeline \<Rightarrow> (pipeline \<times> nref \<times> oref) result" where
  "create_XLinkIn = create_with_output ''XLinkIn'' False"

section \<open>Bridging host and device\<close>

text \<open>A pair of XLink nodes: the sending node and its input, the receiving node and its output.\<close>

record bridge =
  b_sender :: nref
  b_in :: iref
  b_receiver :: nref
  b_out :: oref

record build_state =
  bp :: pipeline
  bridgesOut :: "(oref \<times> bridge) list"
  bridgesIn :: "(iref \<times> bridge) list"
  uniqueStreamNames :: "string list"
  streamNames :: "(nref \<times> string) list"

definition create_pair ::
  "(pipeline \<Rightarrow> (pipeline \<times> nref \<times> iref) result) \<Rightarrow> (pipeline \<Rightarrow> (pipeline \<times> nref \<times> oref) result) \<Rightarrow>
     pipeline \<Rightarrow> (pipeline \<times> bridge) result" where
  "create_pair f h p =
     bindR (f p) (\<lambda>(p1, s, y). bindR (h p1) (\<lambda>(p2, r, x).
       Inr (p2, \<lparr>b_sender = s, b_in = y, b_receiver = r, b_out = x\<rparr>)))"

text \<open>The part both directions share: the stream name, its two nodes, and the note for the schema.\<close>

definition name_stream :: "string \<Rightarrow> bridge \<Rightarrow> build_state \<Rightarrow> build_state result" where
  "name_stream name b s =
     (if name \<in> set (uniqueStreamNames s)
      then Inl (RuntimeError (''Stream name '' @ [CHR 0x27] @ name @ [CHR 0x27] @ '' is not unique''))
      else Inr (s\<lparr>uniqueStreamNames := uniqueStreamNames s @ [name],
                  streamNames := streamNames s @ [(b_sender b, name), (b_receiver b, name)]\<rparr>))"

definition note_bridge :: "bridge \<Rightarrow> pipeline \<Rightarrow> pipeline" where
  "note_bridge b p = p\<lparr>xlinkBridges := xlinkBridges p @
     [(n_id (g_node (pg p) (b_sender b)), n_id (g_node (pg p) (b_receiver b)))]\<rparr>"

definition on_graph :: "(graph \<Rightarrow> graph result) \<Rightarrow> build_state \<Rightarrow> build_state result" where
  "on_graph f s = bindR (f (pg (bp s))) (\<lambda>g. Inr (s\<lparr>bp := (bp s)\<lparr>pg := g\<rparr>\<rparr>))"

definition bridge_out :: "oref \<Rightarrow> string \<Rightarrow> build_state \<Rightarrow> (build_state \<times> bridge) result" where
  "bridge_out x name s =
     (case map_of (bridgesOut s) x of
        Some b \<Rightarrow> Inr (s, b)
      | None \<Rightarrow>
          bindR (create_pair create_XLinkOut create_XLinkInHost (bp s)) (\<lambda>(p, b).
            bindR (name_stream name b (s\<lparr>bp := p\<rparr>)) (\<lambda>s1.
              bindR (on_graph (link x (b_in b)) s1) (\<lambda>s2.
                Inr (s2\<lparr>bp := note_bridge b (bp s2), bridgesOut := AList.update x b (bridgesOut s2)\<rparr>, b)))))"

definition bridge_in :: "iref \<Rightarrow> string \<Rightarrow> build_state \<Rightarrow> (build_state \<times> bridge) result" where
  "bridge_in y name s =
     (case map_of (bridgesIn s) y of
        Some b \<Rightarrow> Inr (s, b)
      | None \<Rightarrow>
          bindR (create_pair create_XLinkOutHost create_XLinkIn (bp s)) (\<lambda>(p, b).
            bindR (name_stream name b (s\<lparr>bp := p\<rparr>)) (\<lambda>s1.
              bindR (on_graph (link (b_out b) y) s1) (\<lambda>s2.
                Inr (s2\<lparr>bp := note_bridge b (bp s2), bridgesIn := AList.update y b (bridgesIn s2)\<rparr>, b)))))"

definition stream_name :: "int \<Rightarrow> string \<Rightarrow> string \<Rightarrow> string" where
  "stream_name i grp name = ''__x_'' @ dec_int i @ ''_'' @ grp @ ''_'' @ name"

definition bridge_connection :: "ConnectionInternal \<Rightarrow> build_state \<Rightarrow> build_state result" where
  "bridge_connection c s =
     (let g = pg (bp s) in
      case (lock g (inputNode c), lock g (outputNode c)) of
        (Some inN, Some outN) \<Rightarrow>
          if \<not> n_runOnHost (g_node g outN) \<and> n_runOnHost (g_node g inN) then
            bindR (bridge_out (c_out c) (stream_name (n_id (g_node g outN)) (outputGroup c) (outputName c)) s) (\<lambda>(s1, b).
              bindR (on_graph (unlink (c_out c) (c_in c)) s1) (on_graph (link (b_out b) (c_in c))))
          else if \<not> n_runOnHost (g_node g inN) \<and> n_runOnHost (g_node g outN) then
            bindR (bridge_in (c_in c) (stream_name (n_id (g_node g inN)) (inputGroup c) (inputName c)) s) (\<lambda>(s1, b).
              bindR (on_graph (unlink (c_out c) (c_in c)) s1) (on_graph (link (c_out c) (b_in b))))
          else Inr s
      | _ \<Rightarrow> Inl (RuntimeError (''Input node in connection '' @ inputName c @ ''-'' @ inputGroup c @ ''_'' @
               outputName c @ ''-'' @ outputGroup c @ '' is null'')))"

definition build_state_new :: "pipeline \<Rightarrow> build_state" where
  "build_state_new p = \<lparr>bp = p, bridgesOut = [], bridgesIn = [], uniqueStreamNames = [], streamNames = []\<rparr>"

definition bridge_connections :: "pipeline \<Rightarrow> build_state result" where
  "bridge_connections p = foldR bridge_connection (getConnectionsInternal p) (build_state_new p)"

text \<open>The host queues of the device nodes; their stream name leaves the group of the output out.\<close>

definition bridge_queue :: "nref \<Rightarrow> oref \<Rightarrow> nat \<Rightarrow> build_state \<Rightarrow> build_state result" where
  "bridge_queue n x q s =
     bindR (bridge_out x (''__x_'' @ dec_int (n_id (g_node (pg (bp s)) n)) @ ''_'' @ o_name (g_out (pg (bp s)) x)) s)
       (\<lambda>(s1, b). on_graph (\<lambda>g. Inr (link_queue q (b_out b) (unlink_queue q x g))) s1)"

definition bridge_queues :: "build_state \<Rightarrow> build_state result" where
  "bridge_queues s0 =
     foldR (\<lambda>n s.
       if n_runOnHost (g_node (pg (bp s)) n) then Inr s
       else foldR (\<lambda>x s. foldR (bridge_queue n x) (queueConnections (g_out (pg (bp s)) x)) s)
              (getOutputRefs n (pg (bp s))) s)
     (pipeline_getAllNodes (bp s0)) s0"

section \<open>Adding ports and nodes keeps the graph consistent\<close>

definition out_host :: "graph \<Rightarrow> oref \<Rightarrow> bool" where
  "out_host g x = n_runOnHost (g_node g (o_parent (g_out g x)))"

definition in_host :: "graph \<Rightarrow> iref \<Rightarrow> bool" where
  "in_host g y = n_runOnHost (g_node g (i_parent (g_in g y)))"

definition pipe_ok :: "pipeline \<Rightarrow> bool" where
  "pipe_ok p = (graph_ok (pg p) \<and>
     (\<forall>x < nextOut (pg p). o_parent (g_out (pg p) x) < nextNode p) \<and>
     (\<forall>y < nextIn (pg p). i_parent (g_in (pg p) y) < nextNode p))"

text \<open>The later graph has the ports of the earlier one, on the same side.\<close>

definition extends :: "graph \<Rightarrow> graph \<Rightarrow> bool" where
  "extends g g' = (nextOut g \<le> nextOut g' \<and> nextIn g \<le> nextIn g' \<and>
     (\<forall>x < nextOut g. out_host g' x = out_host g x \<and> o_parent (g_out g' x) = o_parent (g_out g x) \<and>
        n_runOnHost (g_node g' (o_parent (g_out g x))) = out_host g x) \<and>
     (\<forall>y < nextIn g. in_host g' y = in_host g y \<and> i_parent (g_in g' y) = i_parent (g_in g y) \<and>
        n_runOnHost (g_node g' (i_parent (g_in g y))) = in_host g y) \<and> (\<forall>n. g_alive g n \<longrightarrow> g_alive g' n))"

lemma extends_refl: "extends g g"
  by (simp add: extends_def out_host_def in_host_def)

lemma extends_trans: "extends g h \<Longrightarrow> extends h k \<Longrightarrow> extends g k"
  unfolding extends_def by (auto dest: less_le_trans)

lemma edges_valid: "graph_ok g \<Longrightarrow> (x, y) \<in> edges g \<Longrightarrow> x < nextOut g \<and> y < nextIn g"
  by (auto simp: graph_ok_def consistent_def own_connections_def)

lemma connection_ptrs:
  assumes "graph_ok g" and "c \<in> set (connections (g_node g n))"
  shows "c_out c < nextOut g" "c_in c < nextIn g" "c = ConnectionInternal_new (c_out c) (c_in c) g"
    "n = o_parent (g_out g (c_out c))"
proof -
  from assms obtain x y where "x < nextOut g" "y < nextIn g" "c = ConnectionInternal_new x y g"
    "n = o_parent (g_out g x)" unfolding graph_ok_def consistent_def by blast
  then show "c_out c < nextOut g" "c_in c < nextIn g" "c = ConnectionInternal_new (c_out c) (c_in c) g"
    "n = o_parent (g_out g (c_out c))" by simp_all
qed

lemma graph_ok_cong:
  assumes "g_out g' = g_out g" "g_in g' = g_in g" "nextOut g' = nextOut g" "nextIn g' = nextIn g"
    "g_alive g' = g_alive g" "\<And>n. connections (g_node g' n) = connections (g_node g n)"
  shows "graph_ok g' = graph_ok g" "edges g' = edges g"
  using assms by (simp_all add: graph_ok_def unique_ports_def consistent_def own_connections_def edges_def
      out_key_def [abs_def] in_key_def [abs_def] ConnectionInternal_new_def)

definition with_out :: "oref \<Rightarrow> out_port \<Rightarrow> graph \<Rightarrow> graph" where
  "with_out x out g = g\<lparr>g_out := (g_out g)(x := out), nextOut := x + 1\<rparr>"

definition with_in :: "iref \<Rightarrow> in_port \<Rightarrow> graph \<Rightarrow> graph" where
  "with_in y inp g = g\<lparr>g_in := (g_in g)(y := inp), nextIn := y + 1\<rparr>"

lemma with_out_ok:
  assumes ok: "graph_ok g" and x: "x = nextOut g" and c: "connectedInputs out = []"
    and fresh: "\<And>z. z < nextOut g \<Longrightarrow> out_key g z \<noteq> (o_parent out, o_name out, o_group out)"
  shows "graph_ok (with_out x out g)" "edges (with_out x out g) = edges g"
proof -
  let ?g = "with_out x out g"
  have old: "out_key ?g z = out_key g z" "g_out ?g z = g_out g z"
    "ConnectionInternal_new z y ?g = ConnectionInternal_new z y g" if "z \<noteq> x" for z y
    using that by (simp_all add: with_out_def out_key_def ConnectionInternal_new_def)
  have frame: "g_node ?g = g_node g" "nextOut ?g = Suc x" "nextIn ?g = nextIn g" "g_in ?g = g_in g"
    "g_alive ?g = g_alive g" "in_key ?g = in_key g" "g_out ?g x = out"
    by (simp_all add: with_out_def in_key_def [abs_def])
  have none: "(x, y) \<notin> edges g" for y using edges_valid [OF ok] x by blast
  then show e: "edges ?g = edges g"
    using c by (auto simp: edges_def with_out_def split: if_splits)
  have k: "out_key ?g x = (o_parent out, o_name out, o_group out)" by (simp add: out_key_def frame)
  have "out_key ?g x \<noteq> out_key ?g z" if "z < x" for z :: oref
    unfolding k using fresh [of z] that x old(1) [of z] by auto
  moreover have "inj_on (out_key ?g) {..<x}"
    using ok x old(1) by (simp add: graph_ok_def unique_ports_def inj_on_def)
  ultimately have "inj_on (out_key ?g) {..<Suc x}"
    unfolding lessThan_Suc inj_on_insert by auto
  then have u: "unique_ports ?g" using ok by (simp add: frame graph_ok_def unique_ports_def)
  have "own_connections ?g = own_connections g"
  proof -
    have "ConnectionInternal_new x b ?g \<notin> set (connections (g_node g n))" for b n
      using connection_ptrs(1) [OF ok, of "ConnectionInternal_new x b ?g" n] x by auto
    moreover have "nextOut g = x" using x by simp
    ultimately have "(a, b) \<in> own_connections ?g \<longleftrightarrow> (a, b) \<in> own_connections g" for a b
      by (cases "a = x") (simp_all add: own_connections_def frame old less_Suc_eq)
    then show ?thesis by auto
  qed
  moreover have "\<exists>a b. a < nextOut ?g \<and> b < nextIn ?g \<and> d = ConnectionInternal_new a b ?g \<and> n = o_parent (g_out ?g a)"
    if "d \<in> set (connections (g_node ?g n))" for d n
  proof -
    have m: "d \<in> set (connections (g_node g n))" using that by (simp add: frame)
    note d = connection_ptrs [OF ok m]
    have "c_out d < nextOut ?g \<and> c_in d < nextIn ?g \<and> d = ConnectionInternal_new (c_out d) (c_in d) ?g \<and>
        n = o_parent (g_out ?g (c_out d))"
      using d(1,2) d(3) [symmetric] d(4) x [symmetric] by (simp add: frame old)
    then show ?thesis by blast
  qed
  moreover have "edges g = own_connections g" "\<And>y. set (connectedOutputs (g_in g y)) = {x. (x, y) \<in> edges g}"
    using ok unfolding graph_ok_def consistent_def by blast+
  ultimately have "consistent ?g" unfolding consistent_def e by (simp add: frame)
  with u show "graph_ok ?g" by (simp add: graph_ok_def)
qed

lemma with_in_ok:
  assumes ok: "graph_ok g" and y: "y = nextIn g" and c: "connectedOutputs inp = []"
    and fresh: "\<And>z. z < nextIn g \<Longrightarrow> in_key g z \<noteq> (i_parent inp, i_name inp, i_group inp)"
  shows "graph_ok (with_in y inp g)" "edges (with_in y inp g) = edges g"
proof -
  let ?g = "with_in y inp g"
  have old: "in_key ?g z = in_key g z" "g_in ?g z = g_in g z"
    "ConnectionInternal_new x z ?g = ConnectionInternal_new x z g" if "z \<noteq> y" for z x
    using that by (simp_all add: with_in_def in_key_def ConnectionInternal_new_def)
  have frame: "g_node ?g = g_node g" "nextIn ?g = Suc y" "nextOut ?g = nextOut g" "g_out ?g = g_out g"
    "g_alive ?g = g_alive g" "out_key ?g = out_key g" "g_in ?g y = inp"
    by (simp_all add: with_in_def out_key_def [abs_def])
  have e: "edges ?g = edges g" by (simp add: edges_def frame)
  then show "edges ?g = edges g" .
  have k: "in_key ?g y = (i_parent inp, i_name inp, i_group inp)" by (simp add: in_key_def frame)
  have "in_key ?g y \<noteq> in_key ?g z" if "z < y" for z :: iref
    unfolding k using fresh [of z] that y old(1) [of z] by auto
  moreover have "inj_on (in_key ?g) {..<y}"
    using ok y old(1) by (simp add: graph_ok_def unique_ports_def inj_on_def)
  ultimately have "inj_on (in_key ?g) {..<Suc y}"
    unfolding lessThan_Suc inj_on_insert by auto
  then have u: "unique_ports ?g" using ok by (simp add: frame graph_ok_def unique_ports_def)
  have "own_connections ?g = own_connections g"
  proof -
    have "ConnectionInternal_new a y ?g \<notin> set (connections (g_node g n))" for a n
      using connection_ptrs(2) [OF ok, of "ConnectionInternal_new a y ?g" n] y by auto
    moreover have "nextIn g = y" using y by simp
    ultimately have "(a, b) \<in> own_connections ?g \<longleftrightarrow> (a, b) \<in> own_connections g" for a b
      by (cases "b = y") (simp_all add: own_connections_def frame old less_Suc_eq)
    then show ?thesis by auto
  qed
  moreover have "\<exists>a b. a < nextOut ?g \<and> b < nextIn ?g \<and> d = ConnectionInternal_new a b ?g \<and> n = o_parent (g_out ?g a)"
    if "d \<in> set (connections (g_node ?g n))" for d n
  proof -
    have m: "d \<in> set (connections (g_node g n))" using that by (simp add: frame)
    note d = connection_ptrs [OF ok m]
    have "c_out d < nextOut ?g \<and> c_in d < nextIn ?g \<and> d = ConnectionInternal_new (c_out d) (c_in d) ?g \<and>
        n = o_parent (g_out ?g (c_out d))"
      using d(1,2) d(3) [symmetric] d(4) y [symmetric] by (simp add: frame old)
    then show ?thesis by blast
  qed
  moreover have "edges g = own_connections g" "\<And>y. set (connectedOutputs (g_in g y)) = {x. (x, y) \<in> edges g}"
    using ok unfolding graph_ok_def consistent_def by blast+
  moreover have "(x, y) \<notin> edges g" for x using edges_valid [OF ok] y by blast
  ultimately have "consistent ?g" unfolding consistent_def e using c by (simp add: frame with_in_def)
  with u show "graph_ok ?g" by (simp add: graph_ok_def)
qed



text \<open>What \<open>create\<close> does to the graph: one node, its event output and its port are new.\<close>

lemma add_leaf:
  assumes "add (NT n []) p = Inr p'"
  shows "pg p' = (upd_node n (\<lambda>v. v\<lparr>n_id := if n_id v = -1 then latestId p else n_id v,
      n_pipeline := Some (g_pipeline (pg p))\<rparr>) (pg p))\<lparr>forest := forest (pg p) @ [NT n []]\<rparr>"
    and "nextNode p' = nextNode p" and "xlinkBridges p' = xlinkBridges p" and "hasDevice p' = hasDevice p"
proof -
  let ?i = "if n_id (g_node (pg p) n) = -1 then latestId p else n_id (g_node (pg p) n)"
  have "pg p' = (upd_node n (\<lambda>v. v\<lparr>n_id := ?i, n_pipeline := Some (g_pipeline (pg p))\<rparr>) (pg p))
      \<lparr>forest := forest (pg p) @ [NT n []]\<rparr> \<and>
    nextNode p' = nextNode p \<and> xlinkBridges p' = xlinkBridges p \<and> hasDevice p' = hasDevice p"
    using assms
    by (auto simp: add_def set_parents_def Let_def getNextUniqueId_def upd_node_def bindR_Inr_iff
        intro!: graph.equality node.equality split: if_splits option.splits)
  then show "pg p' = (upd_node n (\<lambda>v. v\<lparr>n_id := if n_id v = -1 then latestId p else n_id v,
      n_pipeline := Some (g_pipeline (pg p))\<rparr>) (pg p))\<lparr>forest := forest (pg p) @ [NT n []]\<rparr>"
    "nextNode p' = nextNode p" "xlinkBridges p' = xlinkBridges p" "hasDevice p' = hasDevice p"
    by (simp_all add: upd_node_def)
qed

lemma create_with_input_graph:
  assumes "create_with_input name host p = Inr (p', n, y)"
  shows "\<exists>v out inp ft. pg p' = upd_node n (\<lambda>_. v) ((with_in y inp (with_out (nextOut (pg p)) out (pg p)))\<lparr>forest := ft\<rparr>) \<and>
    n = nextNode p \<and> nextNode p' = n + 1 \<and> y = nextIn (pg p) \<and> connections v = [] \<and> n_runOnHost v = host \<and>
    connectedInputs out = [] \<and> o_parent out = n \<and> connectedOutputs inp = [] \<and> i_parent inp = n"
proof -
  define out where "out = \<lparr>o_parent = nextNode p, connectedInputs = [], queueConnections = [], o_type = MSender,
    o_name = ''pipelineEventOutput'', o_group = [], o_types = d_types event_desc, o_events = False\<rparr>"
  define inp where "inp = \<lparr>i_parent = nextNode p, connectedOutputs = [], i_type = SReceiver, i_name = ''in'',
    i_group = [], possibleDatatypes = buffers, waitForMessage = False\<rparr>"
  define v where "v = \<lparr>n_id = -1, n_parentId = -1, n_inputId = 0, n_outputId = 0, n_name = name, n_alias = [],
    n_runOnHost = host, n_pipeline = None, n_isDeviceNode = \<not> host, n_builtIn = True, n_events = True,
    outputRefs = [nextOut (pg p)], inputRefs = [nextIn (pg p)], outputMapRefs = [], inputMapRefs = [], connections = []\<rparr>"
  define q where "q = p\<lparr>pg := upd_node (nextNode p) (\<lambda>_. v) (with_in (nextIn (pg p)) inp (with_out (nextOut (pg p)) out (pg p))),
    nextNode := nextNode p + 1\<rparr>"
  have "create_with_input name host p = (if \<not> host \<and> \<not> hasDevice p
      then Inl (RuntimeError ''Pipeline is host only, cannot create device node'')
      else bindR (add (NT (nextNode p) []) q) (\<lambda>p2. Inr (p2, nextNode p, nextIn (pg p))))"
    by (cases p; cases "pg p"; simp add: create_with_input_def ThreadedNode_new_def Output_new_def Input_new_def event_desc_def xlink_input_def
        Let_def q_def v_def inp_def out_def upd_node_def with_in_def with_out_def)
  with assms have a: "add (NT (nextNode p) []) q = Inr p'" and n: "n = nextNode p" "y = nextIn (pg p)"
    by (auto simp: bindR_Inr_iff split: if_splits)
  define i where "i = latestId p"
  define pl where "pl = Some (g_pipeline (pg p))"
  define ft where "ft = forest (pg p) @ [NT n []]"
  have p': "pg p' = (upd_node n (\<lambda>_. v\<lparr>n_id := i, n_pipeline := pl\<rparr>) (pg q))\<lparr>forest := ft\<rparr>" "nextNode p' = nextNode q"
    using add_leaf [OF a] by (simp_all add: n q_def v_def i_def pl_def ft_def upd_node_def with_out_def with_in_def)
  have "pg p' = upd_node n (\<lambda>_. v\<lparr>n_id := i, n_pipeline := pl\<rparr>) ((with_in y inp (with_out (nextOut (pg p)) out (pg p)))\<lparr>forest := ft\<rparr>)"
    using p'(1) by (simp add: q_def n upd_node_def)
  moreover have "nextNode p' = n + 1" using p'(2) by (simp add: q_def n)
  ultimately show ?thesis
    by (intro exI [of _ "v\<lparr>n_id := i, n_pipeline := pl\<rparr>"] exI [of _ out] exI [of _ inp] exI [of _ ft])
      (simp add: n v_def out_def inp_def)
qed

lemma create_with_output_graph:
  assumes "create_with_output name host p = Inr (p', n, x)"
  shows "\<exists>v out out' ft. pg p' = upd_node n (\<lambda>_. v) ((with_out x out' (with_out (nextOut (pg p)) out (pg p)))\<lparr>forest := ft\<rparr>) \<and>
    n = nextNode p \<and> nextNode p' = n + 1 \<and> x = Suc (nextOut (pg p)) \<and> connections v = [] \<and> n_runOnHost v = host \<and>
    connectedInputs out = [] \<and> o_parent out = n \<and> connectedInputs out' = [] \<and> o_parent out' = n \<and>
    o_name out \<noteq> o_name out'"
proof -
  define out where "out = \<lparr>o_parent = nextNode p, connectedInputs = [], queueConnections = [], o_type = MSender,
    o_name = ''pipelineEventOutput'', o_group = [], o_types = d_types event_desc, o_events = False\<rparr>"
  define out' where "out' = \<lparr>o_parent = nextNode p, connectedInputs = [], queueConnections = [], o_type = MSender,
    o_name = ''out'', o_group = [], o_types = buffers, o_events = True\<rparr>"
  define v where "v = \<lparr>n_id = -1, n_parentId = -1, n_inputId = 0, n_outputId = 0, n_name = name, n_alias = [],
    n_runOnHost = host, n_pipeline = None, n_isDeviceNode = \<not> host, n_builtIn = True, n_events = True,
    outputRefs = [nextOut (pg p), Suc (nextOut (pg p))], inputRefs = [], outputMapRefs = [], inputMapRefs = [],
    connections = []\<rparr>"
  define q where "q = p\<lparr>pg := upd_node (nextNode p) (\<lambda>_. v)
      (with_out (Suc (nextOut (pg p))) out' (with_out (nextOut (pg p)) out (pg p))), nextNode := nextNode p + 1\<rparr>"
  have "create_with_output name host p = (if \<not> host \<and> \<not> hasDevice p
      then Inl (RuntimeError ''Pipeline is host only, cannot create device node'')
      else bindR (add (NT (nextNode p) []) q) (\<lambda>p2. Inr (p2, nextNode p, Suc (nextOut (pg p)))))"
    by (cases p; cases "pg p"; simp add: create_with_output_def ThreadedNode_new_def Output_new_def event_desc_def xlink_output_def
        Let_def q_def v_def out_def out'_def upd_node_def with_out_def)
  with assms have a: "add (NT (nextNode p) []) q = Inr p'" and n: "n = nextNode p" "x = Suc (nextOut (pg p))"
    by (auto simp: bindR_Inr_iff split: if_splits)
  define i where "i = latestId p"
  define pl where "pl = Some (g_pipeline (pg p))"
  define ft where "ft = forest (pg p) @ [NT n []]"
  have p': "pg p' = (upd_node n (\<lambda>_. v\<lparr>n_id := i, n_pipeline := pl\<rparr>) (pg q))\<lparr>forest := ft\<rparr>" "nextNode p' = nextNode q"
    using add_leaf [OF a] by (simp_all add: n q_def v_def i_def pl_def ft_def upd_node_def with_out_def with_in_def)
  have "pg p' = upd_node n (\<lambda>_. v\<lparr>n_id := i, n_pipeline := pl\<rparr>)
      ((with_out x out' (with_out (nextOut (pg p)) out (pg p)))\<lparr>forest := ft\<rparr>)"
    using p'(1) by (simp add: q_def n upd_node_def)
  moreover have "nextNode p' = n + 1" using p'(2) by (simp add: q_def n)
  ultimately show ?thesis
    by (intro exI [of _ "v\<lparr>n_id := i, n_pipeline := pl\<rparr>"] exI [of _ out] exI [of _ out'] exI [of _ ft])
      (simp add: n v_def out_def out'_def)
qed



lemma no_connections:
  assumes "pipe_ok p" and "nextNode p \<le> n"
  shows "connections (g_node (pg p) n) = []"
proof (rule ccontr)
  assume "connections (g_node (pg p) n) \<noteq> []"
  then obtain c where c: "c \<in> set (connections (g_node (pg p) n))" by (cases "connections (g_node (pg p) n)") auto
  have "graph_ok (pg p)" using assms(1) by (simp add: pipe_ok_def)
  from connection_ptrs [OF this c] assms show False by (auto simp: pipe_ok_def)
qed

lemma new_node_ok:
  assumes "graph_ok g" and "connections (g_node g n) = []" and "connections v = []"
    and "g' = upd_node n (\<lambda>_. v) (g\<lparr>forest := ft\<rparr>)"
  shows "graph_ok g'" "edges g' = edges g"
proof -
  have "\<And>m. connections (g_node g' m) = connections (g_node g m)" "g_out g' = g_out g" "g_in g' = g_in g"
    "nextOut g' = nextOut g" "nextIn g' = nextIn g" "g_alive g' = g_alive g"
    using assms(2,3) by (simp_all add: assms(4) upd_node_def)
  with graph_ok_cong [of g' g] assms(1) show "graph_ok g'" "edges g' = edges g" by simp_all
qed

lemma create_with_input_ok:
  assumes p: "pipe_ok p" and cr: "create_with_input name host p = Inr (p', n, y)"
  shows "pipe_ok p'" "extends (pg p) (pg p')" "edges (pg p') = edges (pg p)"
    "y = nextIn (pg p)" "nextIn (pg p') = Suc y" "in_host (pg p') y = host"
proof -
  let ?g = "pg p"
  from create_with_input_graph [OF cr] obtain v out inp ft where
    g': "pg p' = upd_node n (\<lambda>_. v) ((with_in y inp (with_out (nextOut ?g) out ?g))\<lparr>forest := ft\<rparr>)"
    and n: "n = nextNode p" "nextNode p' = n + 1" "y = nextIn ?g" "connections v = []" "n_runOnHost v = host"
      "connectedInputs out = []" "o_parent out = n" "connectedOutputs inp = []" "i_parent inp = n" by blast
  have ok: "graph_ok ?g" and lt: "\<And>x. x < nextOut ?g \<Longrightarrow> o_parent (g_out ?g x) < n"
      "\<And>y. y < nextIn ?g \<Longrightarrow> i_parent (g_in ?g y) < n"
    using p by (auto simp: pipe_ok_def n)
  have k: "out_key ?g z \<noteq> (o_parent out, o_name out, o_group out)" if "z < nextOut ?g" for z
    using lt(1) [OF that] n by (auto simp: out_key_def)
  note w = with_out_ok [OF ok refl n(6) k]
  have frame: "nextIn (with_out (nextOut ?g) out ?g) = nextIn ?g" "g_in (with_out (nextOut ?g) out ?g) = g_in ?g"
    "g_node (with_out (nextOut ?g) out ?g) = g_node ?g"
    by (simp_all add: with_out_def)
  have k': "in_key (with_out (nextOut ?g) out ?g) z \<noteq> (i_parent inp, i_name inp, i_group inp)"
    if "z < nextIn (with_out (nextOut ?g) out ?g)" for z
    using lt(2) [of z] that n by (auto simp: in_key_def frame)
  have y: "y = nextIn (with_out (nextOut ?g) out ?g)" by (simp add: frame n)
  note w' = with_in_ok [OF w(1) y n(8) k']
  have "connections (g_node (with_in y inp (with_out (nextOut ?g) out ?g)) n) = []"
    using no_connections [OF p, of n] by (simp add: n with_in_def with_out_def)
  note ok' = new_node_ok [OF w'(1) this n(4) g']
  show "edges (pg p') = edges ?g" "y = nextIn ?g" using ok'(2) w(2) w'(2) n by simp_all
  show "nextIn (pg p') = Suc y" "in_host (pg p') y = host"
    by (simp_all add: g' upd_node_def with_in_def in_host_def n)
  show "pipe_ok p'"
    using ok'(1) lt n by (auto simp: pipe_ok_def g' upd_node_def with_in_def with_out_def less_Suc_eq)
  show "extends ?g (pg p')"
    using lt [THEN less_imp_neq] n by (auto simp: extends_def g' upd_node_def with_in_def with_out_def out_host_def in_host_def)
qed

lemma create_with_output_ok:
  assumes p: "pipe_ok p" and cr: "create_with_output name host p = Inr (p', n, x)"
  shows "pipe_ok p'" "extends (pg p) (pg p')" "edges (pg p') = edges (pg p)"
    "x = Suc (nextOut (pg p))" "nextOut (pg p') = Suc x" "out_host (pg p') x = host"
proof -
  let ?g = "pg p"
  from create_with_output_graph [OF cr] obtain v out out' ft where
    g': "pg p' = upd_node n (\<lambda>_. v) ((with_out x out' (with_out (nextOut ?g) out ?g))\<lparr>forest := ft\<rparr>)"
    and n: "n = nextNode p" "nextNode p' = n + 1" "x = Suc (nextOut ?g)" "connections v = []" "n_runOnHost v = host"
      "connectedInputs out = []" "o_parent out = n" "connectedInputs out' = []" "o_parent out' = n"
      "o_name out \<noteq> o_name out'" by blast
  have ok: "graph_ok ?g" and lt: "\<And>x. x < nextOut ?g \<Longrightarrow> o_parent (g_out ?g x) < n"
      "\<And>y. y < nextIn ?g \<Longrightarrow> i_parent (g_in ?g y) < n"
    using p by (auto simp: pipe_ok_def n)
  have k: "out_key ?g z \<noteq> (o_parent out, o_name out, o_group out)" if "z < nextOut ?g" for z
    using lt(1) [OF that] n by (auto simp: out_key_def)
  note w = with_out_ok [OF ok refl n(6) k]
  have k': "out_key (with_out (nextOut ?g) out ?g) z \<noteq> (o_parent out', o_name out', o_group out')"
    if "z < nextOut (with_out (nextOut ?g) out ?g)" for z
    using lt(1) [of z] that n by (cases "z = nextOut ?g") (auto simp: out_key_def with_out_def)
  have x: "x = nextOut (with_out (nextOut ?g) out ?g)" by (simp add: with_out_def n)
  note w' = with_out_ok [OF w(1) x n(8) k']
  have "connections (g_node (with_out x out' (with_out (nextOut ?g) out ?g)) n) = []"
    using no_connections [OF p, of n] by (simp add: n with_out_def)
  note ok' = new_node_ok [OF w'(1) this n(4) g']
  show "edges (pg p') = edges ?g" "x = Suc (nextOut ?g)" using ok'(2) w(2) w'(2) n by simp_all
  show "nextOut (pg p') = Suc x" "out_host (pg p') x = host"
    by (simp_all add: g' upd_node_def with_out_def out_host_def n)
  show "pipe_ok p'"
    using ok'(1) lt n by (auto simp: pipe_ok_def g' upd_node_def with_out_def less_Suc_eq)
  show "extends ?g (pg p')"
    using lt [THEN less_imp_neq] n by (auto simp: extends_def g' upd_node_def with_out_def out_host_def in_host_def)
qed

text \<open>The links of the bridges.\<close>

lemma link_ok:
  assumes p: "pipe_ok p" and l: "link x y (pg p) = Inr g" and v: "x < nextOut (pg p)" "y < nextIn (pg p)"
  shows "pipe_ok (p\<lparr>pg := g\<rparr>)" "extends (pg p) g" "extends g (pg p)" "edges g = insert (x, y) (edges (pg p))"
proof -
  have g: "g = linked x y (pg p)"
    using l by (auto simp: link_def bindR_Inr_iff Let_def linked_def split: if_splits)
  have n: "n_runOnHost (g_node g n) = n_runOnHost (g_node (pg p) n)" "i_parent (g_in g z) = i_parent (g_in (pg p) z)" for n z
    by (simp_all add: g linked_def upd_defs)
  show "pipe_ok (p\<lparr>pg := g\<rparr>)"
    using p linked_graph_ok [OF _ v] n by (simp add: pipe_ok_def g linked_frame)
  show "extends (pg p) g" "extends g (pg p)"
    using n by (simp_all add: extends_def out_host_def in_host_def) (simp_all add: g linked_frame)
  show "edges g = insert (x, y) (edges (pg p))" by (simp add: g linked_lists)
qed

lemma unlink_ok:
  assumes p: "pipe_ok p" and l: "unlink x y (pg p) = Inr g" and v: "x < nextOut (pg p)" "y < nextIn (pg p)"
  shows "pipe_ok (p\<lparr>pg := g\<rparr>)" "extends (pg p) g" "extends g (pg p)" "edges g = edges (pg p) - {(x, y)}"
    "(x, y) \<in> edges (pg p)"
proof -
  have g: "g = unlinked x y (pg p)"
    using l by (auto simp: unlink_def Let_def unlinked_def split: if_splits)
  have n: "n_runOnHost (g_node g n) = n_runOnHost (g_node (pg p) n)" "i_parent (g_in g z) = i_parent (g_in (pg p) z)" for n z
    by (simp_all add: g unlinked_def upd_defs)
  show "pipe_ok (p\<lparr>pg := g\<rparr>)"
    using p unlinked_graph_ok [OF _ v] n by (simp add: pipe_ok_def g unlinked_frame)
  show "extends (pg p) g" "extends g (pg p)"
    using n by (simp_all add: extends_def out_host_def in_host_def) (simp_all add: g unlinked_frame)
  show "edges g = edges (pg p) - {(x, y)}" by (simp add: g unlinked_lists)
  show "(x, y) \<in> edges (pg p)"
    using l has_connection_edge [OF _ v] p by (auto simp: unlink_def pipe_ok_def Let_def split: if_splits)
qed



section \<open>Bridging\<close>

definition to_host :: "graph \<Rightarrow> oref \<Rightarrow> iref \<Rightarrow> bool" where
  "to_host g x y = (\<not> out_host g x \<and> in_host g y)"

definition to_device :: "graph \<Rightarrow> oref \<Rightarrow> iref \<Rightarrow> bool" where
  "to_device g x y = (out_host g x \<and> \<not> in_host g y)"

text \<open>
  The edges once the connections \<open>D\<close> are bridged: those that stay, and for every bridge \<open>B x\<close> of an
  output and \<open>I y\<close> of an input the edge into it and the edges out of it.
\<close>

definition kept :: "graph \<Rightarrow> (oref \<times> iref) set \<Rightarrow> (oref \<times> iref) set" where
  "kept g D = {(x, y). (x, y) \<in> edges g \<and> ((x, y) \<in> D \<longrightarrow> out_host g x = in_host g y)}"

definition into_out :: "(oref \<rightharpoonup> bridge) \<Rightarrow> (oref \<times> iref) set" where
  "into_out B = {(x, y). \<exists>b. B x = Some b \<and> y = b_in b}"

definition from_out :: "graph \<Rightarrow> (oref \<times> iref) set \<Rightarrow> (oref \<rightharpoonup> bridge) \<Rightarrow> (oref \<times> iref) set" where
  "from_out g D B = {(z, y). \<exists>x b. (x, y) \<in> D \<and> to_host g x y \<and> B x = Some b \<and> z = b_out b}"

definition from_in :: "(iref \<rightharpoonup> bridge) \<Rightarrow> (oref \<times> iref) set" where
  "from_in I = {(z, y). \<exists>b. I y = Some b \<and> z = b_out b}"

definition into_in :: "graph \<Rightarrow> (oref \<times> iref) set \<Rightarrow> (iref \<rightharpoonup> bridge) \<Rightarrow> (oref \<times> iref) set" where
  "into_in g D I = {(x, z). \<exists>y b. (x, y) \<in> D \<and> to_device g x y \<and> I y = Some b \<and> z = b_in b}"

definition bridged_edges ::
  "graph \<Rightarrow> (oref \<times> iref) set \<Rightarrow> (oref \<rightharpoonup> bridge) \<Rightarrow> (iref \<rightharpoonup> bridge) \<Rightarrow> (oref \<times> iref) set" where
  "bridged_edges g D B I = kept g D \<union> into_out B \<union> from_out g D B \<union> from_in I \<union> into_in g D I"

definition new_bridge :: "bool \<Rightarrow> graph \<Rightarrow> graph \<Rightarrow> bridge \<Rightarrow> bool" where
  "new_bridge receiver_host g0 g b =
     (nextIn g0 \<le> b_in b \<and> b_in b < nextIn g \<and> nextOut g0 \<le> b_out b \<and> b_out b < nextOut g \<and>
      in_host g (b_in b) = (\<not> receiver_host) \<and> out_host g (b_out b) = receiver_host)"

definition bridged :: "graph \<Rightarrow> (oref \<times> iref) set \<Rightarrow> build_state \<Rightarrow> bool" where
  "bridged g0 D s =
     (pipe_ok (bp s) \<and> extends g0 (pg (bp s)) \<and> D \<subseteq> edges g0 \<and>
      (\<forall>x b. map_of (bridgesOut s) x = Some b \<longrightarrow> x < nextOut g0 \<and> new_bridge True g0 (pg (bp s)) b) \<and>
      (\<forall>y b. map_of (bridgesIn s) y = Some b \<longrightarrow> y < nextIn g0 \<and> new_bridge False g0 (pg (bp s)) b) \<and>
      dom (map_of (bridgesOut s)) = {x. \<exists>y. (x, y) \<in> D \<and> to_host g0 x y} \<and>
      dom (map_of (bridgesIn s)) = {y. \<exists>x. (x, y) \<in> D \<and> to_device g0 x y} \<and>
      edges (pg (bp s)) = bridged_edges g0 D (map_of (bridgesOut s)) (map_of (bridgesIn s)))"

lemmas edge_sets = kept_def into_out_def from_out_def from_in_def into_in_def

lemma bridged_edges_same_side:
  assumes "out_host g x = in_host g y"
  shows "bridged_edges g (insert (x, y) D) B I = bridged_edges g D B I"
proof -
  have "kept g (insert (x, y) D) = kept g D" using assms by (auto simp: kept_def)
  moreover have "from_out g (insert (x, y) D) B = from_out g D B" using assms by (auto simp: from_out_def to_host_def)
  moreover have "into_in g (insert (x, y) D) I = into_in g D I" using assms by (auto simp: into_in_def to_device_def)
  ultimately show ?thesis by (simp add: bridged_edges_def)
qed

definition fresh_bridges :: "graph \<Rightarrow> ('a \<rightharpoonup> bridge) \<Rightarrow> bool" where
  "fresh_bridges g B = (\<forall>b \<in> ran B. nextIn g \<le> b_in b \<and> nextOut g \<le> b_out b)"

lemma fresh_bridgesD: "fresh_bridges g B \<Longrightarrow> B x = Some b \<Longrightarrow> nextIn g \<le> b_in b \<and> nextOut g \<le> b_out b"
  by (auto simp: fresh_bridges_def ran_def)

lemma fresh_bridges_less: "fresh_bridges g B \<Longrightarrow> fresh_bridges g (B(x := None))"
  by (auto simp: fresh_bridges_def ran_def split: if_splits)

lemma no_bridge_edge:
  assumes "y < nextIn g" "x < nextOut g"
    and "fresh_bridges g B" and "fresh_bridges g I"
  shows "(x, y) \<notin> into_out B" "(x, y) \<notin> from_out g D B" "(x, y) \<notin> from_in I" "(x, y) \<notin> into_in g D I"
  using assms(1,2) by (fastforce simp: edge_sets dest: fresh_bridgesD [OF assms(3)] fresh_bridgesD [OF assms(4)])+

lemma kept_insert: "out_host g x \<noteq> in_host g y \<Longrightarrow> kept g (insert (x, y) D) = kept g D - {(x, y)}"
  by (auto simp: kept_def)

lemma bridged_edges_to_host:
  assumes "to_host g x y" and "B' x = Some b" and "y < nextIn g" "x < nextOut g"
    and "fresh_bridges g B'" and "fresh_bridges g I"
    and B: "B = B' \<or> B = B'(x := None) \<and> (\<forall>y. (x, y) \<in> D \<longrightarrow> \<not> to_host g x y)"
  shows "bridged_edges g (insert (x, y) D) B' I =
    insert (b_out b, y) (insert (x, b_in b) (bridged_edges g D B I) - {(x, y)})"
proof -
  have c: "out_host g x \<noteq> in_host g y" "\<not> to_device g x y" using assms(1) by (auto simp: to_host_def to_device_def)
  have o: "from_out g (insert (x, y) D) B' = insert (b_out b, y) (from_out g D B)"
  proof -
    have "B' u = B u" if "(u, w) \<in> D" "to_host g u w" for u w using B that by auto
    then have "from_out g D B = from_out g D B'" by (auto simp: from_out_def)
    then show ?thesis using assms(1,2) by (auto simp: from_out_def)
  qed
  have i: "into_out B' = insert (x, b_in b) (into_out B)" using assms(2) B by (auto simp: into_out_def split: if_splits)
  have d: "into_in g (insert (x, y) D) I = into_in g D I" using c by (auto simp: into_in_def)
  have "fresh_bridges g B" using B assms(5) fresh_bridges_less by auto
  note n = no_bridge_edge [OF assms(3,4) this assms(6)]
  have "y \<noteq> b_in b" "x \<noteq> b_out b" using assms(3,4) fresh_bridgesD [OF assms(5,2)] by auto
  with n show ?thesis unfolding bridged_edges_def o i d kept_insert [OF c(1)] by blast
qed

lemma bridged_edges_to_device:
  assumes "to_device g x y" and "I' y = Some b" and "y < nextIn g" "x < nextOut g"
    and "fresh_bridges g B" and "fresh_bridges g I'"
    and I: "I = I' \<or> I = I'(y := None) \<and> (\<forall>x. (x, y) \<in> D \<longrightarrow> \<not> to_device g x y)"
  shows "bridged_edges g (insert (x, y) D) B I' =
    insert (x, b_in b) (insert (b_out b, y) (bridged_edges g D B I) - {(x, y)})"
proof -
  have c: "out_host g x \<noteq> in_host g y" "\<not> to_host g x y" using assms(1) by (auto simp: to_host_def to_device_def)
  have o: "into_in g (insert (x, y) D) I' = insert (x, b_in b) (into_in g D I)"
  proof -
    have "I' w = I w" if "(u, w) \<in> D" "to_device g u w" for u w using I that by auto
    then have "into_in g D I = into_in g D I'" by (auto simp: into_in_def)
    then show ?thesis using assms(1,2) by (auto simp: into_in_def)
  qed
  have i: "from_in I' = insert (b_out b, y) (from_in I)" using assms(2) I by (auto simp: from_in_def split: if_splits)
  have d: "from_out g (insert (x, y) D) B = from_out g D B" using c by (auto simp: from_out_def)
  have "fresh_bridges g I" using I assms(6) fresh_bridges_less by auto
  note n = no_bridge_edge [OF assms(3,4,5) this]
  have "y \<noteq> b_in b" "x \<noteq> b_out b" using assms(3,4) fresh_bridgesD [OF assms(6,2)] by auto
  with n show ?thesis unfolding bridged_edges_def o i d kept_insert [OF c(1)] by blast
qed



lemma new_bridge_mono: "new_bridge h g0 g b \<Longrightarrow> extends g g' \<Longrightarrow> new_bridge h g0 g' b"
  by (auto simp: new_bridge_def extends_def)

lemma on_graph_Inr:
  "on_graph f s = Inr s' \<longleftrightarrow> (\<exists>g. f (pg (bp s)) = Inr g \<and> s' = s\<lparr>bp := (bp s)\<lparr>pg := g\<rparr>\<rparr>)"
  by (auto simp: on_graph_def bindR_Inr_iff)

lemma name_stream_Inr:
  assumes "name_stream nm b s = Inr s'"
  shows "bp s' = bp s" "bridgesOut s' = bridgesOut s" "bridgesIn s' = bridgesIn s"
    "uniqueStreamNames s' = uniqueStreamNames s @ [nm]" "nm \<notin> set (uniqueStreamNames s)"
  using assms by (auto simp: name_stream_def split: if_splits)

lemma create_pair_ok:
  assumes p: "pipe_ok p" and cr: "create_pair (create_with_input a hs) (create_with_output c hr) p = Inr (p', b)"
    and hs: "hs = (\<not> hr)" and ext: "extends g0 (pg p)"
  shows "pipe_ok p'" "extends (pg p) (pg p')" "edges (pg p') = edges (pg p)" "new_bridge hr g0 (pg p') b"
proof -
  from cr obtain p1 n y n' x where c1: "create_with_input a hs p = Inr (p1, n, y)"
    and c2: "create_with_output c hr p1 = Inr (p', n', x)" and b: "b_in b = y" "b_out b = x"
    by (auto simp: create_pair_def bindR_Inr_iff)
  note i = create_with_input_ok [OF p c1] and o = create_with_output_ok [OF create_with_input_ok(1) [OF p c1] c2]
  show "pipe_ok p'" "edges (pg p') = edges (pg p)" "extends (pg p) (pg p')"
    using i o extends_trans by auto
  show "new_bridge hr g0 (pg p') b"
    using i(2,4-6) o(2,4-6) ext hs b by (auto simp: new_bridge_def extends_def)
qed

lemma note_bridge_simps [simp]: "pg (note_bridge b p) = pg p" "pipe_ok (note_bridge b p) = pipe_ok p"
  by (simp_all add: note_bridge_def pipe_ok_def)

text \<open>Making or finding the bridge of an output.\<close>

lemma bridge_out_ok:
  assumes br: "bridge_out x nm s = Inr (s', b)" and inv: "bridged g0 D s" and x: "x < nextOut g0"
  shows "pipe_ok (bp s') \<and> extends (pg (bp s)) (pg (bp s')) \<and> bridgesIn s' = bridgesIn s \<and>
    map_of (bridgesOut s') = (map_of (bridgesOut s))(x \<mapsto> b) \<and> new_bridge True g0 (pg (bp s')) b \<and>
    edges (pg (bp s')) = insert (x, b_in b) (edges (pg (bp s))) \<and>
    (map_of (bridgesOut s) x = None \<or> map_of (bridgesOut s) x = Some b)"
proof (cases "map_of (bridgesOut s) x")
  case (Some b')
  then have s: "s' = s" "b' = b" using br by (simp_all add: bridge_out_def)
  have "(x, b_in b) \<in> edges (pg (bp s))"
    using inv Some s by (simp add: bridged_def bridged_edges_def into_out_def)
  then have "edges (pg (bp s)) = insert (x, b_in b) (edges (pg (bp s)))" by blast
  moreover have "map_of (bridgesOut s) = (map_of (bridgesOut s))(x \<mapsto> b)" using Some s by auto
  ultimately show ?thesis using inv Some s extends_refl by (auto simp: bridged_def)
next
  case None
  have ok: "pipe_ok (bp s)" "extends g0 (pg (bp s))" using inv by (simp_all add: bridged_def)
  from br None obtain p b' s1 s2 where
    c: "create_pair create_XLinkOut create_XLinkInHost (bp s) = Inr (p, b')"
    and nm: "name_stream nm b' (s\<lparr>bp := p\<rparr>) = Inr s1" and l: "on_graph (link x (b_in b')) s1 = Inr s2"
    and s': "s' = s2\<lparr>bp := note_bridge b' (bp s2), bridgesOut := AList.update x b' (bridgesOut s2)\<rparr>" "b' = b"
    by (auto simp: bridge_out_def bindR_Inr_iff)
  note cp = create_pair_ok [OF ok(1) c [unfolded create_XLinkOut_def create_XLinkInHost_def] _ ok(2)]
  have s1: "bp s1 = p" "bridgesOut s1 = bridgesOut s" "bridgesIn s1 = bridgesIn s"
    using name_stream_Inr [OF nm] by simp_all
  from l obtain g where g: "link x (b_in b) (pg p) = Inr g" "s2 = s1\<lparr>bp := p\<lparr>pg := g\<rparr>\<rparr>"
    by (auto simp: on_graph_Inr s1 s'(2))
  have v: "x < nextOut (pg p)" "b_in b < nextIn (pg p)"
    using x ok(2) cp by (auto simp: extends_def new_bridge_def s'(2))
  note l = link_ok [OF cp(1) g(1) v, simplified]
  have "new_bridge True g0 g b" using new_bridge_mono [OF cp(4) l(2)] s'(2) by simp
  with l cp(2,3) None s' g(2) s1 extends_trans [OF cp(2) l(2)] show ?thesis
    by (simp add: update_conv')
qed

lemma bridge_in_ok:
  assumes br: "bridge_in y nm s = Inr (s', b)" and inv: "bridged g0 D s" and y: "y < nextIn g0"
  shows "pipe_ok (bp s') \<and> extends (pg (bp s)) (pg (bp s')) \<and> bridgesOut s' = bridgesOut s \<and>
    map_of (bridgesIn s') = (map_of (bridgesIn s))(y \<mapsto> b) \<and> new_bridge False g0 (pg (bp s')) b \<and>
    edges (pg (bp s')) = insert (b_out b, y) (edges (pg (bp s))) \<and>
    (map_of (bridgesIn s) y = None \<or> map_of (bridgesIn s) y = Some b)"
proof (cases "map_of (bridgesIn s) y")
  case (Some b')
  then have s: "s' = s" "b' = b" using br by (simp_all add: bridge_in_def)
  have "(b_out b, y) \<in> edges (pg (bp s))"
    using inv Some s by (simp add: bridged_def bridged_edges_def from_in_def)
  then have "edges (pg (bp s)) = insert (b_out b, y) (edges (pg (bp s)))" by blast
  moreover have "map_of (bridgesIn s) = (map_of (bridgesIn s))(y \<mapsto> b)" using Some s by auto
  ultimately show ?thesis using inv Some s extends_refl by (auto simp: bridged_def)
next
  case None
  have ok: "pipe_ok (bp s)" "extends g0 (pg (bp s))" using inv by (simp_all add: bridged_def)
  from br None obtain p b' s1 s2 where
    c: "create_pair create_XLinkOutHost create_XLinkIn (bp s) = Inr (p, b')"
    and nm: "name_stream nm b' (s\<lparr>bp := p\<rparr>) = Inr s1" and l: "on_graph (link (b_out b') y) s1 = Inr s2"
    and s': "s' = s2\<lparr>bp := note_bridge b' (bp s2), bridgesIn := AList.update y b' (bridgesIn s2)\<rparr>" "b' = b"
    by (auto simp: bridge_in_def bindR_Inr_iff)
  note cp = create_pair_ok [OF ok(1) c [unfolded create_XLinkOutHost_def create_XLinkIn_def] _ ok(2)]
  have s1: "bp s1 = p" "bridgesOut s1 = bridgesOut s" "bridgesIn s1 = bridgesIn s"
    using name_stream_Inr [OF nm] by simp_all
  from l obtain g where g: "link (b_out b) y (pg p) = Inr g" "s2 = s1\<lparr>bp := p\<lparr>pg := g\<rparr>\<rparr>"
    by (auto simp: on_graph_Inr s1 s'(2))
  have v: "b_out b < nextOut (pg p)" "y < nextIn (pg p)"
    using y ok(2) cp by (auto simp: extends_def new_bridge_def s'(2))
  note l = link_ok [OF cp(1) g(1) v, simplified]
  have "new_bridge False g0 g b" using new_bridge_mono [OF cp(4) l(2)] s'(2) by simp
  with l cp(2,3) None s' g(2) s1 extends_trans [OF cp(2) l(2)] show ?thesis
    by (simp add: update_conv')
qed



lemma relink_ok:
  assumes r: "bindR (on_graph (unlink x y) s) (on_graph (link u w)) = Inr s'" and p: "pipe_ok (bp s)"
    and v: "x < nextOut (pg (bp s))" "y < nextIn (pg (bp s))" "u < nextOut (pg (bp s))" "w < nextIn (pg (bp s))"
  shows "pipe_ok (bp s') \<and> extends (pg (bp s)) (pg (bp s')) \<and> bridgesOut s' = bridgesOut s \<and> bridgesIn s' = bridgesIn s \<and>
    edges (pg (bp s')) = insert (u, w) (edges (pg (bp s)) - {(x, y)})"
proof -
  from r obtain g h where g: "unlink x y (pg (bp s)) = Inr g" and h: "link u w g = Inr h"
    and s': "s' = s\<lparr>bp := (bp s)\<lparr>pg := h\<rparr>\<rparr>"
    by (auto simp: bindR_Inr_iff on_graph_Inr)
  note ul = unlink_ok [OF p g v(1,2)]
  have v': "u < nextOut (pg ((bp s)\<lparr>pg := g\<rparr>))" "w < nextIn (pg ((bp s)\<lparr>pg := g\<rparr>))"
    using v(3,4) ul(2) by (auto simp: extends_def)
  have "link u w (pg ((bp s)\<lparr>pg := g\<rparr>)) = Inr h" using h by simp
  note ln = link_ok [OF ul(1) this v', simplified]
  show ?thesis using ln ul(2,4) extends_trans [OF ul(2) ln(2)] by (simp add: s')
qed

lemma bridged_fresh:
  assumes "bridged g0 D s"
  shows "fresh_bridges g0 (map_of (bridgesOut s))" "fresh_bridges g0 (map_of (bridgesIn s))"
  using assms by (force simp: bridged_def fresh_bridges_def new_bridge_def ran_def)+

lemma fresh_bridges_upd: "fresh_bridges g B \<Longrightarrow> new_bridge h g g' b \<Longrightarrow> fresh_bridges g (B(x \<mapsto> b))"
  by (auto simp: fresh_bridges_def new_bridge_def ran_def split: if_splits)

text \<open>One connection: into the bridge of its output, into the bridge of its input, or left as it is.\<close>

lemma bridge_connection_cases:
  assumes st: "bridge_connection (ConnectionInternal_new x y g0) s = Inr s'" and inv: "bridged g0 D s"
    and v: "x < nextOut g0" "y < nextIn g0"
  obtains (to_host) nm s1 b where "to_host g0 x y" "bridge_out x nm s = Inr (s1, b)"
      "bindR (on_graph (unlink x y) s1) (on_graph (link (b_out b) y)) = Inr s'"
    | (to_device) nm s1 b where "to_device g0 x y" "bridge_in y nm s = Inr (s1, b)"
      "bindR (on_graph (unlink x y) s1) (on_graph (link x (b_in b))) = Inr s'"
    | (same) "out_host g0 x = in_host g0 y" "s' = s"
proof -
  let ?c = "ConnectionInternal_new x y g0" and ?g = "pg (bp s)"
  have ext: "extends g0 ?g" and pok: "pipe_ok (bp s)" using inv by (simp_all add: bridged_def)
  have alive: "\<And>n. g_alive ?g n" using pok by (simp add: pipe_ok_def graph_ok_def unique_ports_def)
  have hosts: "n_runOnHost (g_node ?g (outputNode ?c)) = out_host g0 x" "n_runOnHost (g_node ?g (inputNode ?c)) = in_host g0 y"
    using ext v by (simp_all add: extends_def ConnectionInternal_new_def Let_def)
  note st' = st [unfolded bridge_connection_def Let_def lock_def, simplified alive hosts if_True option.case prod.case conn_new_ptrs]
  consider "to_host g0 x y" | "to_device g0 x y" | "out_host g0 x = in_host g0 y"
    by (auto simp: to_host_def to_device_def)
  then show thesis
  proof cases
    case 1
    with st' that(1) show thesis by (auto simp: to_host_def bindR_Inr_iff)
  next
    case 2
    with st' that(2) show thesis by (auto simp: to_device_def bindR_Inr_iff)
  next
    case 3
    with st' that(3) show thesis by (auto split: if_splits)
  qed
qed

lemma bridge_to_host_ok:
  assumes inv: "bridged g0 D s" and e: "(x, y) \<in> edges g0" and v: "x < nextOut g0" "y < nextIn g0"
    and th: "to_host g0 x y" and br: "bridge_out x nm s = Inr (s1, b)"
    and rl: "bindR (on_graph (unlink x y) s1) (on_graph (link (b_out b) y)) = Inr s'"
  shows "bridged g0 (insert (x, y) D) s'"
proof -
  let ?g = "pg (bp s)" and ?B = "map_of (bridgesOut s)" and ?I = "map_of (bridgesIn s)"
  have ext: "extends g0 ?g" and ed: "edges ?g = bridged_edges g0 D ?B ?I"
    and dom: "dom ?B = {x. \<exists>y. (x, y) \<in> D \<and> to_host g0 x y}"
    using inv by (simp_all add: bridged_def)
  note b = bridge_out_ok [OF br inv v(1)]
  then have w: "x < nextOut (pg (bp s1))" "y < nextIn (pg (bp s1))" "b_out b < nextOut (pg (bp s1))"
    using v ext by (auto simp: extends_def new_bridge_def)
  note r = relink_ok [OF rl conjunct1 [OF b] w w(2)]
  have ex: "extends ?g (pg (bp s'))" using b r extends_trans by blast
  have B': "map_of (bridgesOut s') = ?B(x \<mapsto> b)" "bridgesIn s' = bridgesIn s" using b r by simp_all
  have nb: "new_bridge True g0 (pg (bp s')) b" using b r new_bridge_mono by blast
  have "?B = ?B(x \<mapsto> b) \<or> ?B = (?B(x \<mapsto> b))(x := None) \<and> (\<forall>y. (x, y) \<in> D \<longrightarrow> \<not> to_host g0 x y)"
    using b dom by (auto simp: fun_upd_idem)
  then have "bridged_edges g0 (insert (x, y) D) (?B(x \<mapsto> b)) ?I =
      insert (b_out b, y) (insert (x, b_in b) (bridged_edges g0 D ?B ?I) - {(x, y)})"
    by (intro bridged_edges_to_host [OF th]) (use v bridged_fresh [OF inv] fresh_bridges_upd [OF _ nb] in auto)
  moreover have "edges (pg (bp s')) = insert (b_out b, y) (insert (x, b_in b) (bridged_edges g0 D ?B ?I) - {(x, y)})"
    using b r ed by simp
  moreover have "dom (?B(x \<mapsto> b)) = {x'. \<exists>y'. (x', y') \<in> insert (x, y) D \<and> to_host g0 x' y'}"
    using dom th by auto
  moreover have "{y'. \<exists>x'. (x', y') \<in> insert (x, y) D \<and> to_device g0 x' y'} = {y'. \<exists>x'. (x', y') \<in> D \<and> to_device g0 x' y'}"
    using th by (auto simp: to_host_def to_device_def)
  ultimately show ?thesis
    using inv r nb new_bridge_mono [OF _ ex] v(1) e extends_trans [OF ext ex] unfolding bridged_def B'
    by (auto split: if_splits)
qed

lemma bridge_to_device_ok:
  assumes inv: "bridged g0 D s" and e: "(x, y) \<in> edges g0" and v: "x < nextOut g0" "y < nextIn g0"
    and td: "to_device g0 x y" and br: "bridge_in y nm s = Inr (s1, b)"
    and rl: "bindR (on_graph (unlink x y) s1) (on_graph (link x (b_in b))) = Inr s'"
  shows "bridged g0 (insert (x, y) D) s'"
proof -
  let ?g = "pg (bp s)" and ?B = "map_of (bridgesOut s)" and ?I = "map_of (bridgesIn s)"
  have ext: "extends g0 ?g" and ed: "edges ?g = bridged_edges g0 D ?B ?I"
    and dom: "dom ?I = {y. \<exists>x. (x, y) \<in> D \<and> to_device g0 x y}"
    using inv by (simp_all add: bridged_def)
  note b = bridge_in_ok [OF br inv v(2)]
  then have w: "x < nextOut (pg (bp s1))" "y < nextIn (pg (bp s1))" "b_in b < nextIn (pg (bp s1))"
    using v ext by (auto simp: extends_def new_bridge_def)
  note r = relink_ok [OF rl conjunct1 [OF b] w(1,2) w(1) w(3)]
  have ex: "extends ?g (pg (bp s'))" using b r extends_trans by blast
  have B': "map_of (bridgesIn s') = ?I(y \<mapsto> b)" "bridgesOut s' = bridgesOut s" using b r by simp_all
  have nb: "new_bridge False g0 (pg (bp s')) b" using b r new_bridge_mono by blast
  have "?I = ?I(y \<mapsto> b) \<or> ?I = (?I(y \<mapsto> b))(y := None) \<and> (\<forall>x. (x, y) \<in> D \<longrightarrow> \<not> to_device g0 x y)"
    using b dom by (auto simp: fun_upd_idem)
  then have "bridged_edges g0 (insert (x, y) D) ?B (?I(y \<mapsto> b)) =
      insert (x, b_in b) (insert (b_out b, y) (bridged_edges g0 D ?B ?I) - {(x, y)})"
    by (intro bridged_edges_to_device [OF td]) (use v bridged_fresh [OF inv] fresh_bridges_upd [OF _ nb] in auto)
  moreover have "edges (pg (bp s')) = insert (x, b_in b) (insert (b_out b, y) (bridged_edges g0 D ?B ?I) - {(x, y)})"
    using b r ed by simp
  moreover have "dom (?I(y \<mapsto> b)) = {y'. \<exists>x'. (x', y') \<in> insert (x, y) D \<and> to_device g0 x' y'}"
    using dom td by auto
  moreover have "{x'. \<exists>y'. (x', y') \<in> insert (x, y) D \<and> to_host g0 x' y'} = {x'. \<exists>y'. (x', y') \<in> D \<and> to_host g0 x' y'}"
    using td by (auto simp: to_host_def to_device_def)
  ultimately show ?thesis
    using inv r nb new_bridge_mono [OF _ ex] v(2) e extends_trans [OF ext ex] unfolding bridged_def B'
    by (auto split: if_splits)
qed

lemma bridge_connection_ok:
  assumes st: "bridge_connection (ConnectionInternal_new x y g0) s = Inr s'" and inv: "bridged g0 D s"
    and ok: "graph_ok g0" and e: "(x, y) \<in> edges g0"
  shows "bridged g0 (insert (x, y) D) s'"
proof -
  have v: "x < nextOut g0" "y < nextIn g0" using edges_valid [OF ok e] by simp_all
  from st inv v show ?thesis
  proof (cases rule: bridge_connection_cases)
    case to_host
    then show ?thesis by (rule bridge_to_host_ok [OF inv e v])
  next
    case to_device
    then show ?thesis by (rule bridge_to_device_ok [OF inv e v])
  next
    case same
    then have "{x'. \<exists>y'. (x', y') \<in> insert (x, y) D \<and> to_host g0 x' y'} = {x'. \<exists>y'. (x', y') \<in> D \<and> to_host g0 x' y'}"
      "{y'. \<exists>x'. (x', y') \<in> insert (x, y) D \<and> to_device g0 x' y'} = {y'. \<exists>x'. (x', y') \<in> D \<and> to_device g0 x' y'}"
      by (auto simp: to_host_def to_device_def)
    then show ?thesis using inv e same by (simp add: bridged_def bridged_edges_same_side [OF same(1)])
  qed
qed

definition in_pipeline :: "pipeline \<Rightarrow> bool" where
  "in_pipeline p = (pipe_ok p \<and> distinct (all_ids p) \<and>
     (\<forall>x < nextOut (pg p). o_parent (g_out (pg p) x) \<in> set (pipeline_getAllNodes p)))"

lemma connections_edges:
  assumes "in_pipeline p"
  shows "(\<lambda>c. (c_out c, c_in c)) ` set (getConnectionsInternal p) = edges (pg p)"
    and "c \<in> set (getConnectionsInternal p) \<Longrightarrow> c = ConnectionInternal_new (c_out c) (c_in c) (pg p)"
proof -
  let ?g = "pg p"
  have ok: "graph_ok ?g" using assms by (simp add: in_pipeline_def pipe_ok_def)
  have cs: "set (getConnectionsInternal p) = (\<Union>n \<in> set (pipeline_getAllNodes p). set (connections (g_node ?g n)))"
    using assms by (simp add: in_pipeline_def set_getConnectionsInternal)
  then show eq: "c \<in> set (getConnectionsInternal p) \<Longrightarrow> c = ConnectionInternal_new (c_out c) (c_in c) ?g" for c
    using connection_ptrs(3) [OF ok, of c] by auto
  have own: "edges ?g = own_connections ?g" using ok by (simp add: graph_ok_def consistent_def)
  show "(\<lambda>c. (c_out c, c_in c)) ` set (getConnectionsInternal p) = edges ?g"
  proof (intro equalityI subsetI)
    fix e assume "e \<in> (\<lambda>c. (c_out c, c_in c)) ` set (getConnectionsInternal p)"
    then obtain c n where c: "e = (c_out c, c_in c)" "c \<in> set (connections (g_node ?g n))" unfolding cs by blast
    note cp = connection_ptrs [OF ok c(2)]
    then show "e \<in> edges ?g" unfolding own own_connections_def c(1) using c(2) by auto
  next
    fix e assume "e \<in> edges ?g"
    then obtain x y where e: "e = (x, y)" "x < nextOut ?g"
      "ConnectionInternal_new x y ?g \<in> set (connections (g_node ?g (o_parent (g_out ?g x))))"
      unfolding own own_connections_def by blast
    then have "ConnectionInternal_new x y ?g \<in> set (getConnectionsInternal p)"
      using assms unfolding cs in_pipeline_def by blast
    then show "e \<in> (\<lambda>c. (c_out c, c_in c)) ` set (getConnectionsInternal p)" using e(1) by force
  qed
qed

lemma bridge_connections_bridged:
  assumes ok: "in_pipeline p" and s: "bridge_connections p = Inr s"
  shows "bridged (pg p) (edges (pg p)) s"
proof -
  have p: "pipe_ok p" "graph_ok (pg p)" using ok by (simp_all add: in_pipeline_def pipe_ok_def)
  have "bridged (pg p) (D \<union> (\<lambda>c. (c_out c, c_in c)) ` set cs) s'"
    if "foldR bridge_connection cs s0 = Inr s'" "bridged (pg p) D s0" "set cs \<subseteq> set (getConnectionsInternal p)" for cs s0 s' D
    using that
  proof (induction cs arbitrary: s0 D)
    case (Cons c cs)
    from Cons.prems(1) obtain s1 where s1: "bridge_connection c s0 = Inr s1" "foldR bridge_connection cs s1 = Inr s'"
      by (auto simp: bindR_Inr_iff)
    have c: "c = ConnectionInternal_new (c_out c) (c_in c) (pg p)" "(c_out c, c_in c) \<in> edges (pg p)"
      using connections_edges [OF ok] Cons.prems(3) by auto
    have "bridged (pg p) (insert (c_out c, c_in c) D) s1"
      using s1(1) by (intro bridge_connection_ok [OF _ Cons.prems(2) p(2) c(2)]) (simp flip: c(1))
    from Cons.IH [OF s1(2) this] Cons.prems(3) show ?case by simp
  qed simp
  moreover have "bridged (pg p) {} (build_state_new p)"
    using p extends_refl by (simp add: bridged_def build_state_new_def bridged_edges_def edge_sets)
  ultimately have "bridged (pg p) ({} \<union> (\<lambda>c. (c_out c, c_in c)) ` set (getConnectionsInternal p)) s"
    using s unfolding bridge_connections_def by blast
  then show ?thesis by (simp add: connections_edges [OF ok])
qed

lemma bridged_sides:
  assumes inv: "bridged g0 D s" and ok: "graph_ok g0" and D: "D = edges g0" and e: "(x, y) \<in> edges (pg (bp s))"
  shows "out_host (pg (bp s)) x = in_host (pg (bp s)) y"
proof -
  let ?g = "pg (bp s)" and ?B = "map_of (bridgesOut s)" and ?I = "map_of (bridgesIn s)"
  have ext: "\<And>x. x < nextOut g0 \<Longrightarrow> out_host ?g x = out_host g0 x" "\<And>y. y < nextIn g0 \<Longrightarrow> in_host ?g y = in_host g0 y"
    and B: "\<And>x b. ?B x = Some b \<Longrightarrow> x < nextOut g0 \<and> \<not> in_host ?g (b_in b) \<and> out_host ?g (b_out b)"
    and I: "\<And>y b. ?I y = Some b \<Longrightarrow> y < nextIn g0 \<and> in_host ?g (b_in b) \<and> \<not> out_host ?g (b_out b)"
    and dB: "\<And>x b. ?B x = Some b \<Longrightarrow> \<exists>y. to_host g0 x y" and dI: "\<And>y b. ?I y = Some b \<Longrightarrow> \<exists>x. to_device g0 x y"
    using inv by (auto simp: bridged_def extends_def new_bridge_def)
  have v: "(x, y) \<in> D \<Longrightarrow> x < nextOut g0 \<and> y < nextIn g0" for x y using edges_valid [OF ok] D by blast
  from e inv have "(x, y) \<in> bridged_edges g0 D ?B ?I" by (simp add: bridged_def)
  then consider "(x, y) \<in> kept g0 D" | "(x, y) \<in> into_out ?B" | "(x, y) \<in> from_out g0 D ?B"
    | "(x, y) \<in> from_in ?I" | "(x, y) \<in> into_in g0 D ?I"
    unfolding bridged_edges_def by blast
  then show ?thesis
  proof cases
    case 1
    then show ?thesis using v ext by (auto simp: kept_def D)
  next
    case 2
    then show ?thesis using B dB ext by (auto simp: into_out_def to_host_def)
  next
    case 3
    then show ?thesis using B v ext by (auto simp: from_out_def to_host_def)
  next
    case 4
    then show ?thesis using I dI ext by (auto simp: from_in_def to_device_def)
  next
    case 5
    then show ?thesis using I v ext by (auto simp: into_in_def to_device_def)
  qed
qed

lemma bridged_complete:
  assumes "bridged g0 (edges g0) s"
  defines "B \<equiv> (\<lambda>x. the (map_of (bridgesOut s) x))" and "I \<equiv> (\<lambda>y. the (map_of (bridgesIn s) y))"
  shows "edges (pg (bp s)) = {(x, y). (x, y) \<in> edges g0 \<and> out_host g0 x = in_host g0 y} \<union>
      (\<Union>(x, y) \<in> {(x, y). (x, y) \<in> edges g0 \<and> to_host g0 x y}. {(x, b_in (B x)), (b_out (B x), y)}) \<union>
      (\<Union>(x, y) \<in> {(x, y). (x, y) \<in> edges g0 \<and> to_device g0 x y}. {(x, b_in (I y)), (b_out (I y), y)})"
    (is "_ = ?S \<union> ?H \<union> ?D")
proof -
  have e: "edges (pg (bp s)) = bridged_edges g0 (edges g0) (map_of (bridgesOut s)) (map_of (bridgesIn s))"
    and dB: "\<And>x. (\<exists>b. map_of (bridgesOut s) x = Some b) \<longleftrightarrow> (\<exists>y. (x, y) \<in> edges g0 \<and> to_host g0 x y)"
    and dI: "\<And>y. (\<exists>b. map_of (bridgesIn s) y = Some b) \<longleftrightarrow> (\<exists>x. (x, y) \<in> edges g0 \<and> to_device g0 x y)"
    using assms(1) by (auto simp: bridged_def dom_def set_eq_iff)
  have mB: "map_of (bridgesOut s) x = Some b \<longleftrightarrow> (\<exists>y. (x, y) \<in> edges g0 \<and> to_host g0 x y) \<and> b = B x" for x b
    using dB [of x] by (auto simp: B_def)
  have mI: "map_of (bridgesIn s) y = Some b \<longleftrightarrow> (\<exists>x. (x, y) \<in> edges g0 \<and> to_device g0 x y) \<and> b = I y" for y b
    using dI [of y] by (auto simp: I_def)
  have parts: "edges (pg (bp s)) = kept g0 (edges g0) \<union>
      (into_out (map_of (bridgesOut s)) \<union> from_out g0 (edges g0) (map_of (bridgesOut s))) \<union>
      (from_in (map_of (bridgesIn s)) \<union> into_in g0 (edges g0) (map_of (bridgesIn s)))"
    unfolding e bridged_edges_def by (simp only: Un_assoc)
  have k: "kept g0 (edges g0) = ?S" by (auto simp: kept_def)
  have h: "into_out (map_of (bridgesOut s)) \<union> from_out g0 (edges g0) (map_of (bridgesOut s)) = ?H"
    by (auto simp: into_out_def from_out_def mB)
  have d: "from_in (map_of (bridgesIn s)) \<union> into_in g0 (edges g0) (map_of (bridgesIn s)) = ?D"
    by (auto simp: from_in_def into_in_def mI)
  show ?thesis unfolding parts k h d by (rule refl)
qed


text \<open>A pipeline with a device node whose output is linked to an input of a host node.\<close>

definition camera_pipeline :: pipeline where
  "camera_pipeline =
     \<lparr>pg = linked 0 0 (upd_node 2 (\<lambda>v. v\<lparr>n_id := 0, n_runOnHost := False, n_name := ''Camera''\<rparr>)
              (upd_node 5 (\<lambda>v. v\<lparr>n_id := 1\<rparr>) two_nodes)),
      latestId = 2, nextNode = 6, xlinkBridges = [], hasDevice = True, defaultDeviceId = []\<rparr>"

lemma camera_connections:
  "getConnectionsInternal camera_pipeline = [ConnectionInternal_new 0 0 (pg camera_pipeline)]"
  by (simp add: getConnectionsInternal_def pipeline_getConnectionMap_def camera_pipeline_def graph_simps linked_def
      ConnectionInternal_new_def Let_def)

lemmas build_simps = build_state_new_def bridge_connection_def lock_def bridge_out_def on_graph_def name_stream_def note_bridge_def
  create_pair_def create_XLinkOut_def create_XLinkInHost_def create_with_input_def create_with_output_def
  ThreadedNode_new_def add_def pipeline_getAllNodes_def getNextUniqueId_def set_parents_def event_desc_def
  xlink_input_def xlink_output_def buffers_def

lemmas link_simps = link_def unlink_def Output_canConnect_def isDatatypeMatch_def subclass_child child_of_simps
  has_connection_def conn_eq_def ConnectionInternal_new_def

lemma camera_bridges:
  "\<exists>s. bridge_connections camera_pipeline = Inr s \<and> connectedInputs (g_out (pg (bp s)) 0) = [InputQueue 1] \<and>
     connectedInputs (g_out (pg (bp s)) 3) = [InputQueue 0] \<and> xlinkBridges (bp s) = [(2, 3)]"
  unfolding bridge_connections_def camera_connections
  by (simp add: build_simps link_simps camera_pipeline_def graph_simps linked_def Let_def)

lemma camera_in_pipeline: "in_pipeline camera_pipeline"
proof -
  define g where "g = upd_node 2 (\<lambda>v. v\<lparr>n_id := 0, n_runOnHost := False, n_name := ''Camera''\<rparr>)
              (upd_node 5 (\<lambda>v. v\<lparr>n_id := 1\<rparr>) two_nodes)"
  have frame: "g_out g = g_out two_nodes" "g_in g = g_in two_nodes" "nextOut g = nextOut two_nodes" "nextIn g = nextIn two_nodes"
    "g_alive g = g_alive two_nodes" "\<And>n. connections (g_node g n) = connections (g_node two_nodes n)"
    by (simp_all add: g_def upd_node_def)
  have n: "nextOut two_nodes = 1" "nextIn two_nodes = 1" by (simp_all add: graph_simps)
  have "graph_ok g" using graph_ok_cong(1) [OF frame] two_nodes_ok by simp
  then have "graph_ok (pg camera_pipeline)" using linked_graph_ok [of g 0 0] frame n by (simp add: camera_pipeline_def g_def)
  then show ?thesis
    by (simp add: in_pipeline_def pipe_ok_def all_ids_def camera_pipeline_def linked_frame pipeline_getAllNodes_def)
      (simp add: graph_simps linked_def)
qed


section \<open>The stream names of host queues\<close>

text \<open>A device node with two outputs of one name in different groups, each with a host queue.\<close>

definition twin_outputs :: pipeline where
  "twin_outputs =
     \<lparr>pg = (link_queue 1 1 (link_queue 0 0
          (fst (Output_new 0 (out_desc\<lparr>d_group := ''second''\<rparr>) True (fst (Output_new 0 (out_desc\<lparr>d_group := ''first''\<rparr>) True
             (upd_node 0 (\<lambda>v. v\<lparr>n_id := 0, n_runOnHost := False\<rparr>) empty_graph)))))))\<lparr>forest := [NT 0 []]\<rparr>,
      latestId = 1, nextNode = 1, xlinkBridges = [], hasDevice = True, defaultDeviceId = []\<rparr>"

text \<open>
  A pipeline whose device node has two outputs of the same name in different groups cannot be built
  when both have a host queue: the stream names leave the group out, so the second is refused as not
  unique. The streams of connections, which contain the group, differ.
\<close>

theorem queue_streams_collide:
  "bridge_queues (build_state_new twin_outputs) =
     Inl (RuntimeError (''Stream name '' @ [CHR 0x27] @ ''__x_0_out'' @ [CHR 0x27] @ '' is not unique'')) \<and>
   stream_name 0 ''first'' ''out'' \<noteq> stream_name 0 ''second'' ''out''"
proof -
  have z: "dec_int 0 = ''0''" by code_simp
  show ?thesis
    by (simp add: bridge_queues_def bridge_queue_def build_simps link_simps twin_outputs_def graph_simps Let_def
      getOutputRefs_def link_queue_def unlink_queue_def z stream_name_def)
qed

section \<open>The schema of a bridged pipeline\<close>

lemma camera_refused:
  "schema_connections True camera_pipeline [] =
     Inl (not_allowed ''device'' ''Camera'' ''host'' ''Node'')"
  unfolding schema_connections_def camera_connections
  by (simp add: schema_connection_def ConnectionInternal_new_def camera_pipeline_def graph_simps linked_def Let_def)

text \<open>
  A built pipeline serializes: once its connections are bridged, no connection is refused in the
  schema, which lists every connection that is shown, in order. Of a pipeline that is not bridged, a shown
  connection between host and device makes the schema fail with the error for such connections.
\<close>

theorem bridged_pipeline_serializes:
  assumes "in_pipeline p" and "bridge_connections p = Inr s"
  shows "schema_connections dbg (bp s) hidden =
      Inr (map (schema_connection (pg (bp s))) (filter (shown dbg (pg (bp s)) hidden) (getConnectionsInternal (bp s)))) \<and>
    ((\<forall>c \<in> set (getConnectionsInternal p). shown dbg (pg p) hidden c \<longrightarrow> one_sided (pg p) c) \<or>
     (\<exists>a x b y. schema_connections dbg p hidden = Inl (not_allowed a x b y)))"
proof -
  have b: "bridged (pg p) (edges (pg p)) s" and ok: "graph_ok (pg p)"
    using bridge_connections_bridged [OF assms] assms(1) by (simp_all add: in_pipeline_def pipe_ok_def)
  have g: "graph_ok (pg (bp s))" using b by (simp add: bridged_def pipe_ok_def)
  have "one_sided (pg (bp s)) c" if "c \<in> set (getConnectionsInternal (bp s))" for c
  proof -
    from getConnectionsInternal_subset [OF that] obtain n where c: "c \<in> set (connections (g_node (pg (bp s)) n))" ..
    note cp = connection_ptrs [OF g c]
    have "(c_out c, c_in c) \<in> edges (pg (bp s))"
      using g cp c by (auto simp: graph_ok_def consistent_def own_connections_def)
    then have "out_host (pg (bp s)) (c_out c) = in_host (pg (bp s)) (c_in c)" using bridged_sides [OF b ok refl] by blast
    moreover have "outputNode c = o_parent (g_out (pg (bp s)) (c_out c))" "inputNode c = i_parent (g_in (pg (bp s)) (c_in c))"
      by (subst cp(3), simp add: ConnectionInternal_new_def Let_def)+
    ultimately show ?thesis by (simp add: one_sided_def out_host_def in_host_def)
  qed
  then have "schema_connections dbg (bp s) hidden =
      Inr (map (schema_connection (pg (bp s))) (filter (shown dbg (pg (bp s)) hidden) (getConnectionsInternal (bp s))))"
    using schema_connections_eq [of "bp s" dbg hidden] by (simp split: if_splits)
  then show ?thesis using schema_connections_eq [of p dbg hidden] by (simp split: if_splits)
qed

theorem bridged_pipeline_serializes_witness:
  "\<exists>s. bridge_connections camera_pipeline = Inr s \<and> isl (schema_connections True camera_pipeline []) \<and>
     \<not> isl (schema_connections True (bp s) [])"
proof -
  from camera_bridges obtain s where "bridge_connections camera_pipeline = Inr s" by blast
  with bridged_pipeline_serializes [OF camera_in_pipeline this, of True "[]"] camera_refused show ?thesis by simp
qed

end
