(* ===== verification/StreamMessages.thy ===== *)
theory StreamMessages
  imports Datatypes
begin

text \<open>
  Messages on an XLink stream: the packet format of
  src/pipeline/datatype/StreamMessageParser.cpp (data, serialized object, type, size, marker),
  the sender of src/pipeline/node/internal/XLinkOutHost.cpp, the receiver of
  src/pipeline/node/internal/XLinkInHost.cpp and the split writes of src/xlink/XLinkStream.cpp.

  The object serializer (libnop) and the XLink library are not in the repository. They are the
  parameters \<open>ser\<close>, \<open>deser\<close> (bytes of an object's fields and back), \<open>deliver\<close> (the packet that
  a call of the write API puts on the stream), \<open>shm\<close> (the bytes mapped from a file
  descriptor) and \<open>dyn\<close> (whether the build has dynamic calibration). \<open>codec_ok\<close> and \<open>link_ok\<close>
  are what the code relies on.
\<close>

section \<open>Packets and headers\<close>

text \<open>\<open>streamPacketDesc_t\<close>: a null data pointer is \<open>None\<close>, no descriptor is \<open>-1\<close>.\<close>

record packet =
  pk_data :: "bytes option"
  pk_fd :: int

definition data_packet :: "bytes \<Rightarrow> packet" where
  "data_packet bs = \<lparr>pk_data = Some bs, pk_fd = -1\<rparr>"

definition pk_length :: "packet \<Rightarrow> nat" where
  "pk_length p = (case pk_data p of None \<Rightarrow> 0 | Some bs \<Rightarrow> length bs)"

definition endOfPacketMarker :: bytes where
  "endOfPacketMarker = [0xAB, 0xCD, 0xEF, 0x01, 0x23, 0x45, 0x67, 0x89,
                        0x12, 0x34, 0x56, 0x78, 0x9A, 0xBC, 0xDE, 0xF0]"

definition le32 :: "u32 \<Rightarrow> bytes" where
  "le32 w = map (\<lambda>i. ucast (drop_bit (i * 8) w)) [0, 1, 2, 3]"

definition readIntLE :: "bytes \<Rightarrow> nat \<Rightarrow> int" where
  "readIntLE d i =
     (let b = (\<lambda>j. ucast (d ! (i + j)) :: u32)
      in sint (or (or (or (b 0) (push_bit 8 (b 1))) (push_bit 16 (b 2))) (push_bit 24 (b 3))))"

definition bad_packet :: "string \<Rightarrow> nat \<Rightarrow> int \<Rightarrow> int \<Rightarrow> cpp_error" where
  "bad_packet why len objectType objectSize =
     RuntimeError (''Bad packet, couldn't parse ('' @ why @ ''), total size '' @ dec_nat len @
       '', type '' @ dec_int objectType @ '', metadata size '' @ dec_int objectSize)"

text \<open>
  \<open>parseHeader\<close> returns the object type as its number, the size of the serialized object and
  the size of the data in front of it. \<open>packetLength\<close> is the unsigned length less the marker;
  the comparisons are made on signed integers, as in the code.
\<close>

definition parseHeader :: "packet \<Rightarrow> (int \<times> int \<times> nat) result" where
  "parseHeader p =
    (case pk_data p of
       None \<Rightarrow> Inl (RuntimeError ''Bad packet, couldn't parse (null packet or data)'')
     | Some d \<Rightarrow>
         if length d < 24 then
           Inl (RuntimeError (''Bad packet, couldn't parse (not enough data), total size '' @ dec_nat (length d)))
         else
           let packetLength = (of_nat (length d) - 16 :: u32);
               objectSize = readIntLE d (unat packetLength - 4);
               objectType = readIntLE d (unat packetLength - 8);
               bad = (\<lambda>why. Inl (bad_packet why (length d) objectType objectSize))
           in if objectSize < 0 then bad ''metadata size negative''
              else if sint packetLength < objectSize then bad ''metadata size larger than packet length''
              else if sint packetLength - 8 - objectSize < 0 then bad ''data too small''
              else
                let bufferLength = packetLength - 8 - of_int objectSize
                in if packetLength < bufferLength then bad ''data too large''
                   else if unat packetLength \<le> unat bufferLength then bad ''metadata out of bounds''
                   else Inr (objectType, objectSize, unat bufferLength))"

section \<open>Messages\<close>

datatype memory = VectorMemory bytes | SharedMemory int

definition getData :: "(int \<Rightarrow> bytes) \<Rightarrow> memory \<Rightarrow> bytes" where
  "getData shm m = (case m of VectorMemory bs \<Rightarrow> bs | SharedMemory fd \<Rightarrow> shm fd)"

text \<open>
  A message is its class, its fields and its data. \<open>Members\<close> is a \<open>MessageGroup\<close> with its map
  in key order (\<open>None\<close> for a null pointer), \<open>Counts\<close> a \<open>PacketizedData\<close>, \<open>Fields\<close> any other
  class, whose fields are left abstract.
\<close>

datatype 'p message = Message (msg_type: DatatypeEnum) (msg_body: "'p body") (msg_data: memory)
  and 'p body =
      Fields 'p
    | Members 'p "(string \<times> 'p message option) list"
    | Counts u32 u32

text \<open>
  What the serializer sees of them: the encoding of a member pointer is empty
  (\<open>ADatatypeSharedPtrSerialization.hpp\<close>), so only the keys of a group are written, and the
  members read back are null.
\<close>

datatype 'p fields = PlainFields 'p | GroupFields 'p "string list" | PacketFields u32 u32

definition fields_of :: "'p body \<Rightarrow> 'p fields" where
  "fields_of b = (case b of Fields x \<Rightarrow> PlainFields x | Members x ms \<Rightarrow> GroupFields x (map fst ms)
                  | Counts n s \<Rightarrow> PacketFields n s)"

definition body_of :: "'p fields \<Rightarrow> 'p body" where
  "body_of f = (case f of PlainFields x \<Rightarrow> Fields x | GroupFields x ks \<Rightarrow> Members x (map (\<lambda>k. (k, None)) ks)
                | PacketFields n s \<Rightarrow> Counts n s)"

text \<open>\<open>ADatatype::serialize\<close> writes no metadata, every other class its fields.\<close>

definition serialize_message :: "('p fields \<Rightarrow> bytes) \<Rightarrow> 'p message \<Rightarrow> bytes \<times> DatatypeEnum" where
  "serialize_message ser m =
     (if msg_type m = ADatatype then [] else ser (fields_of (msg_body m)), msg_type m)"

definition serializeMetadata :: "('p fields \<Rightarrow> bytes) \<Rightarrow> 'p message \<Rightarrow> bytes" where
  "serializeMetadata ser m =
     (let (metadata, t) = serialize_message ser m
      in metadata @ le32 (of_int (datatype_code t)) @ le32 (of_nat (length metadata)) @ endOfPacketMarker)"

definition parseDatatype ::
    "(DatatypeEnum \<Rightarrow> bytes \<Rightarrow> 'p fields result) \<Rightarrow> DatatypeEnum \<Rightarrow> bytes \<Rightarrow> bytes \<Rightarrow> int \<Rightarrow> 'p message result" where
  "parseDatatype deser t metadata d fd =
     bindR (deser t metadata) (\<lambda>f.
       Inr (Message t (body_of f) (if fd < 0 then VectorMemory d else SharedMemory fd)))"

text \<open>The classes that are only parsed in a build with dynamic calibration.\<close>

definition dynamic_calibration_types :: "DatatypeEnum list" where
  "dynamic_calibration_types =
     [DynamicCalibrationControl, AutoCalibrationConfig, DynamicCalibrationResult,
      AutoCalibrationResult, CalibrationMetrics, CalibrationQuality, CoverageData]"

text \<open>
  The fields of a plain \<open>ADatatype\<close> are those of a default object, \<open>blank\<close>.
\<close>

definition parseMessage ::
    "bool \<Rightarrow> 'p \<Rightarrow> (DatatypeEnum \<Rightarrow> bytes \<Rightarrow> 'p fields result) \<Rightarrow> packet \<Rightarrow> 'p message result" where
  "parseMessage dyn blank deser p =
    bindR (parseHeader p) (\<lambda>(objectType, objectSize, bufferLength).
      let d = the (pk_data p);
          metadata = take (nat objectSize) (drop bufferLength d);
          content = take bufferLength d
      in case datatype_of_code objectType of
           None \<Rightarrow> Inl (RuntimeError ''Bad packet, couldn't parse'')
         | Some t \<Rightarrow>
             if t = ADatatype then Inr (Message ADatatype (Fields blank) (VectorMemory []))
             else if t = Transformable then
               Inl (RuntimeError (''Cannot parse custom Transformable on device; use a supported type '' @
                 ''such as ImgDetections, AprilTags, or Tracklets or run as host form custom Transformable messages''))
             else if t = COUNT \<or> (t \<in> set dynamic_calibration_types \<and> \<not> dyn) then
               Inl (RuntimeError ''Bad packet, couldn't parse'')
             else parseDatatype deser t metadata content (pk_fd p))"

section \<open>The receiver\<close>

text \<open>
  Reading runs over the packets that are on the stream: \<open>Waiting\<close> means that the reader blocks
  for a further packet.
\<close>

datatype 'a reading = Waiting | Failed cpp_error "packet list" | Received 'a "packet list"

definition read_result :: "'a result \<Rightarrow> packet list \<Rightarrow> 'a reading" where
  "read_result r s = (case r of Inl e \<Rightarrow> Failed e s | Inr x \<Rightarrow> Received x s)"

text \<open>The loop of \<open>parsePacketizedData\<close>: the sum of the sizes is a \<open>uint32_t\<close>.\<close>

fun gather :: "nat \<Rightarrow> u32 \<Rightarrow> bytes \<Rightarrow> packet list \<Rightarrow> (u32 \<times> bytes) reading" where
  "gather 0 currentSize payload s = Received (currentSize, payload) s"
| "gather (Suc n) currentSize payload [] = Waiting"
| "gather (Suc n) currentSize payload (p # s) =
     (if pk_length p = 0 then gather n currentSize payload s
      else gather n (currentSize + of_nat (pk_length p)) (payload @ the (pk_data p)) s)"

text \<open>The payload of no packets has no data pointer.\<close>

definition parsePacketizedData ::
    "(packet \<Rightarrow> 'p message result) \<Rightarrow> u32 \<Rightarrow> u32 \<Rightarrow> packet list \<Rightarrow> 'p message reading" where
  "parsePacketizedData parse numPackets totalSize s =
     (case gather (unat numPackets) 0 [] s of
        Waiting \<Rightarrow> Waiting
      | Failed e s' \<Rightarrow> Failed e s'
      | Received (currentSize, payload) s' \<Rightarrow>
          if currentSize \<noteq> totalSize then
            Failed (RuntimeError (''XLinkInHost: Data size mismatch. Expected size: '' @
              dec_nat (unat totalSize) @ '', but received size: '' @ dec_nat (unat currentSize) @ ''.'')) s'
          else read_result (parse \<lparr>pk_data = (if payload = [] then None else Some payload), pk_fd = -1\<rparr>) s')"

text \<open>
  \<open>readData\<close> and \<open>parseMessageGroup\<close> call each other; \<open>fuel\<close> bounds the depth of the calls.
  Lemma \<open>fuel_enough\<close> shows that one more than the number of packets is never used up.
\<close>

fun readData_fuel :: "(packet \<Rightarrow> 'p message result) \<Rightarrow> nat \<Rightarrow> packet list \<Rightarrow> 'p message reading"
  and parseMessageGroup ::
    "(packet \<Rightarrow> 'p message result) \<Rightarrow> nat \<Rightarrow> (string \<times> 'p message option) list \<Rightarrow> packet list \<Rightarrow>
       (string \<times> 'p message option) list reading" where
  "readData_fuel parse 0 s = Waiting"
| "readData_fuel parse (Suc f) [] = Waiting"
| "readData_fuel parse (Suc f) (p # s) =
     (case parse p of
        Inl e \<Rightarrow> Failed e s
      | Inr m \<Rightarrow>
          (case msg_body m of
             Fields x \<Rightarrow> Received m s
           | Members x ms \<Rightarrow>
               (case parseMessageGroup parse f ms s of
                  Waiting \<Rightarrow> Waiting
                | Failed e s' \<Rightarrow> Failed e s'
                | Received ms' s' \<Rightarrow> Received (Message (msg_type m) (Members x ms') (msg_data m)) s')
           | Counts n t \<Rightarrow> parsePacketizedData parse n t s))"
| "parseMessageGroup parse f [] s = Received [] s"
| "parseMessageGroup parse f ((k, old) # ms) s =
     (case readData_fuel parse f s of
        Waiting \<Rightarrow> Waiting
      | Failed e s' \<Rightarrow> Failed e s'
      | Received m s' \<Rightarrow>
          (case parseMessageGroup parse f ms s' of
             Waiting \<Rightarrow> Waiting
           | Failed e s'' \<Rightarrow> Failed e s''
           | Received ms' s'' \<Rightarrow> Received ((k, Some m) # ms') s''))"

definition readData :: "(packet \<Rightarrow> 'p message result) \<Rightarrow> packet list \<Rightarrow> 'p message reading" where
  "readData parse s = readData_fuel parse (Suc (length s)) s"

fun read_many :: "(packet \<Rightarrow> 'p message result) \<Rightarrow> nat \<Rightarrow> packet list \<Rightarrow> 'p message list reading" where
  "read_many parse 0 s = Received [] s"
| "read_many parse (Suc n) s =
     (case readData parse s of
        Waiting \<Rightarrow> Waiting
      | Failed e s' \<Rightarrow> Failed e s'
      | Received m s' \<Rightarrow>
          (case read_many parse n s' of
             Waiting \<Rightarrow> Waiting
           | Failed e s'' \<Rightarrow> Failed e s''
           | Received ms s'' \<Rightarrow> Received (m # ms) s''))"

section \<open>The sender\<close>

text \<open>The calls into XLink: opening a stream with a buffer size and the write functions.\<close>

datatype xcall = OpenStream u64 | WriteData2 bytes bytes | WriteData bytes | WriteFdData int bytes

record out_link =
  ol_calls :: "xcall list"
  ol_currentMaxSize :: u32

definition XLINK_USB_BUFFER_MAX_SIZE :: u32 where
  "XLINK_USB_BUFFER_MAX_SIZE = 5 * 1024 * 1024"

definition XLINK_MESSAGE_METADATA_MAX_SIZE :: u32 where
  "XLINK_MESSAGE_METADATA_MAX_SIZE = 50 * 1024"

definition open_link :: out_link where
  "open_link =
     (let room = XLINK_USB_BUFFER_MAX_SIZE + XLINK_MESSAGE_METADATA_MAX_SIZE
      in \<lparr>ol_calls = [OpenStream (ucast room)], ol_currentMaxSize = room\<rparr>)"

definition xlink_call :: "xcall \<Rightarrow> out_link \<Rightarrow> out_link" where
  "xlink_call c l = l\<lparr>ol_calls := ol_calls l @ [c]\<rparr>"

definition increaseBufferSize :: "bool \<Rightarrow> u64 \<Rightarrow> out_link \<Rightarrow> out_link result" where
  "increaseBufferSize allowResize maxSize l =
     (if \<not> allowResize then Inl (RuntimeError ''Data size exceeds the maximum buffer size'')
      else Inr ((xlink_call (OpenStream maxSize) l)\<lparr>ol_currentMaxSize := ucast maxSize\<rparr>))"

text \<open>
  The room check subtracts a \<open>size_t\<close> from a \<open>uint32_t\<close>: the difference is a 64-bit unsigned
  number and wraps when the metadata alone is larger than the buffer.
\<close>

definition ensure_room :: "bool \<Rightarrow> nat \<Rightarrow> nat \<Rightarrow> out_link \<Rightarrow> out_link result" where
  "ensure_room allowResize dataSize metadataSize l =
     (if ucast (ol_currentMaxSize l) - (of_nat metadataSize :: u64) < of_nat dataSize
      then increaseBufferSize allowResize (of_nat dataSize + of_nat metadataSize) l
      else Inr l)"

definition write_outgoing :: "(int \<Rightarrow> bytes) \<Rightarrow> memory \<Rightarrow> bytes \<Rightarrow> xcall" where
  "write_outgoing shm mem metadata =
     (if 0 < length (getData shm mem) then
        (case mem of
           SharedMemory fd \<Rightarrow> if 0 < fd then WriteFdData fd metadata else WriteData2 (getData shm mem) metadata
         | VectorMemory bs \<Rightarrow> WriteData2 bs metadata)
      else WriteData metadata)"

definition write_member :: "(int \<Rightarrow> bytes) \<Rightarrow> memory \<Rightarrow> bytes \<Rightarrow> xcall" where
  "write_member shm mem metadata =
     (if 0 < length (getData shm mem) then WriteData2 (getData shm mem) metadata else WriteData metadata)"

text \<open>
  One round of the loop of \<open>XLinkOutHost::run\<close>. The calls made before an exception are part of
  the result. A null member is dereferenced.
\<close>

fun send_members ::
    "('p fields \<Rightarrow> bytes) \<Rightarrow> (int \<Rightarrow> bytes) \<Rightarrow> bool \<Rightarrow> (string \<times> 'p message option) list \<Rightarrow> out_link \<Rightarrow>
       cpp_error option \<times> out_link" where
  "send_members ser shm allowResize [] l = (None, l)"
| "send_members ser shm allowResize ((k, None) # ms) l = (Some (UndefinedBehaviour ''null member''), l)"
| "send_members ser shm allowResize ((k, Some m) # ms) l =
     (let metadata = serializeMetadata ser m
      in case ensure_room allowResize (length (getData shm (msg_data m))) (length metadata) l of
           Inl e \<Rightarrow> (Some e, l)
         | Inr l' \<Rightarrow> send_members ser shm allowResize ms
                       (xlink_call (write_member shm (msg_data m) metadata) l'))"

definition send_message ::
    "('p fields \<Rightarrow> bytes) \<Rightarrow> (int \<Rightarrow> bytes) \<Rightarrow> bool \<Rightarrow> 'p message \<Rightarrow> out_link \<Rightarrow> cpp_error option \<times> out_link" where
  "send_message ser shm allowResize m l =
     (let metadata = serializeMetadata ser m
      in case ensure_room allowResize (length (getData shm (msg_data m))) (length metadata) l of
           Inl e \<Rightarrow> (Some e, l)
         | Inr l' \<Rightarrow>
             let l'' = xlink_call (write_outgoing shm (msg_data m) metadata) l'
             in (case msg_body m of
                   Members x ms \<Rightarrow> send_members ser shm allowResize ms l''
                 | _ \<Rightarrow> (None, l'')))"

fun send_many ::
    "('p fields \<Rightarrow> bytes) \<Rightarrow> (int \<Rightarrow> bytes) \<Rightarrow> bool \<Rightarrow> 'p message list \<Rightarrow> out_link \<Rightarrow> cpp_error option \<times> out_link" where
  "send_many ser shm allowResize [] l = (None, l)"
| "send_many ser shm allowResize (m # ms) l =
     (case send_message ser shm allowResize m l of
        (Some e, l') \<Rightarrow> (Some e, l')
      | (None, l') \<Rightarrow> send_many ser shm allowResize ms l')"

text \<open>
  The documented behaviour of the XLink calls: each write arrives as one packet, the two buffers
  of \<open>XLinkWriteData2\<close> one after the other, a descriptor beside the data.
\<close>

definition link_ok :: "(xcall \<Rightarrow> packet list) \<Rightarrow> bool" where
  "link_ok deliver \<longleftrightarrow>
     (\<forall>n. deliver (OpenStream n) = []) \<and>
     (\<forall>a b. deliver (WriteData2 a b) = [data_packet (a @ b)]) \<and>
     (\<forall>b. deliver (WriteData b) = [data_packet b]) \<and>
     (\<forall>fd b. deliver (WriteFdData fd b) = [\<lparr>pk_data = Some b, pk_fd = fd\<rparr>])"

text \<open>The serializer reads back what it wrote for an object of the class.\<close>

definition codec_ok :: "('p fields \<Rightarrow> bytes) \<Rightarrow> (DatatypeEnum \<Rightarrow> bytes \<Rightarrow> 'p fields result) \<Rightarrow> bool" where
  "codec_ok ser deser \<longleftrightarrow> (\<forall>t f. deser t (ser f) = Inr f)"

section \<open>Split writes and whole reads\<close>

text \<open>
  \<open>writeSplit\<close>: the chunks handed to XLink. The loop does not end for a split of zero, so it is
  a partial function.
\<close>

partial_function (option) writeSplit_loop :: "bytes \<Rightarrow> nat \<Rightarrow> nat \<Rightarrow> nat \<Rightarrow> xcall list option" where
  "writeSplit_loop d split currentOffset remaining =
     (if 0 < remaining then
        let sizeToTransmit = (if split < remaining then split else remaining);
            currentOffset' = currentOffset + sizeToTransmit
        in Option.bind (writeSplit_loop d split currentOffset' (length d - currentOffset'))
             (\<lambda>cs. Some (WriteData (take sizeToTransmit (drop currentOffset d)) # cs))
      else Some [])"

definition writeSplit :: "bytes \<Rightarrow> nat \<Rightarrow> xcall list option" where
  "writeSplit d split = writeSplit_loop d split 0 (length d)"

text \<open>
  \<open>XLinkStream::read(data, timestamp)\<close> appends the bytes of a mapped descriptor; the end
  iterator it gives is the address of the last byte.
\<close>

definition read_stream :: "(int \<Rightarrow> bytes) \<Rightarrow> packet \<Rightarrow> bytes result" where
  "read_stream shm p =
     (let d = (case pk_data p of None \<Rightarrow> [] | Some bs \<Rightarrow> bs)
      in if 0 \<le> pk_fd p then
           (let mem = shm (pk_fd p)
            in if mem = [] then Inl (UndefinedBehaviour ''end before begin'')
               else Inr (d @ take (length mem - 1) mem))
         else Inr d)"

section \<open>The packet format\<close>

lemma length_le32 [simp]: "length (le32 w) = 4"
  by (simp add: le32_def)

lemma length_endOfPacketMarker [simp]: "length endOfPacketMarker = 16"
  by (simp add: endOfPacketMarker_def)

lemma ucast_bytes:
  "or (or (or (ucast (ucast w :: u8)) (push_bit 8 (ucast (ucast (drop_bit 8 w) :: u8))))
      (push_bit 16 (ucast (ucast (drop_bit 16 w) :: u8))))
      (push_bit 24 (ucast (ucast (drop_bit 24 w) :: u8))) = (w :: u32)"
proof (rule bit_word_eqI)
  fix n assume "n < LENGTH(32)"
  then consider "n < 8" | "8 \<le> n" "n < 16" | "16 \<le> n" "n < 24" | "24 \<le> n" "n < 32"
    by fastforce
  then show "bit (or (or (or (ucast (ucast w :: u8)) (push_bit 8 (ucast (ucast (drop_bit 8 w) :: u8))))
      (push_bit 16 (ucast (ucast (drop_bit 16 w) :: u8))))
      (push_bit 24 (ucast (ucast (drop_bit 24 w) :: u8))) :: u32) n = bit w n"
    by cases (auto simp: bit_simps)
qed

lemma readIntLE_le32: "readIntLE (a @ le32 w @ b) (length a) = sint w"
  by (simp add: readIntLE_def le32_def nth_append numeral_2_eq_2 numeral_3_eq_3 ucast_bytes)

lemma sint_small: "k < 2 ^ 31 \<Longrightarrow> sint (of_nat k :: u32) = int k"
  by (simp add: signed_of_nat signed_take_bit_int_eq_self)

lemma sint_big:
  assumes "2 ^ 31 \<le> k" and "k < 2 ^ 32"
  shows "sint (of_nat k :: u32) = int k - 2 ^ 32"
proof -
  have "(2 ^ 31 + int k) mod 2 ^ 32 = (int k - 2 ^ 31 + 2 ^ 32) mod 2 ^ 32"
    by (simp add: add.commute)
  also have "\<dots> = int k - 2 ^ 31"
    unfolding mod_add_self2 using assms by (intro mod_pos_pos_trivial) simp_all
  finally show ?thesis
    by (simp add: signed_of_nat signed_take_bit_eq_take_bit_shift take_bit_eq_mod add.commute [of "int k"])
qed

lemma unat_small: "k < 2 ^ 32 \<Longrightarrow> unat (of_nat k :: u32) = k"
  by (simp add: unat_of_nat)

lemma parseHeader_parts:
  assumes "24 \<le> length d" and "length d < 2 ^ 32"
  defines "n \<equiv> length d - 16"
  shows "unat (of_nat (length d) - 16 :: u32) = n"
    and "n < 2 ^ 31 \<Longrightarrow> sint (of_nat (length d) - 16 :: u32) = int n"
    and "2 ^ 31 \<le> n \<Longrightarrow> sint (of_nat (length d) - 16 :: u32) < 0"
    and "0 \<le> k \<Longrightarrow> k \<le> int n - 8 \<Longrightarrow> of_nat (length d) - 16 - 8 - of_int k = (of_nat (n - 8 - nat k) :: u32)"
proof -
  have w: "of_nat (length d) - 16 = (of_nat n :: u32)"
    using assms by (simp add: of_nat_diff)
  have n: "n < 2 ^ 32" using assms by (simp add: n_def)
  show "unat (of_nat (length d) - 16 :: u32) = n" using n unfolding w by (rule unat_small)
  show "n < 2 ^ 31 \<Longrightarrow> sint (of_nat (length d) - 16 :: u32) = int n" unfolding w by (rule sint_small)
  show "2 ^ 31 \<le> n \<Longrightarrow> sint (of_nat (length d) - 16 :: u32) < 0"
    unfolding w using n by (simp add: sint_big)
  assume "0 \<le> k" "k \<le> int n - 8"
  then have j: "k = int (nat k)" "nat k + 8 \<le> n" by arith+
  have len: "length d = (n - 8 - nat k) + nat k + 24" using j(2) assms(1) by (simp add: n_def)
  have trailer: "of_nat l - 16 - 8 - of_int (int b) = (of_nat a :: u32)" if "l = a + b + 24" for l a b
    using that by simp
  show "of_nat (length d) - 16 - 8 - of_int k = (of_nat (n - 8 - nat k) :: u32)"
    using trailer [OF len] j(1) by simp
qed

lemma parseHeader_ok:
  fixes d :: bytes
  defines "n \<equiv> length d - 24"
  assumes len: "24 \<le> length d" "length d < 2 ^ 31 + 16"
    and k: "readIntLE d (n + 4) = k" "0 \<le> k" "k \<le> int n"
  shows "parseHeader \<lparr>pk_data = Some d, pk_fd = fd\<rparr> = Inr (readIntLE d n, k, n - nat k)"
proof -
  have big: "length d < 2 ^ 32" using len(2) by simp
  note parts = parseHeader_parts [OF len(1) big]
  have size: "readIntLE d (length d - 16 - 4) = k" "readIntLE d (length d - 16 - 8) = readIntLE d n"
    using len k(1) by (simp_all add: n_def)
  have b: "unat (of_nat (length d) - 16 - 8 - of_int k :: u32) = n - nat k"
  proof -
    have "of_nat (length d) - 16 - 8 - of_int k = (of_nat (length d - 16 - 8 - nat k) :: u32)"
      by (rule parts(4)) (use len k in \<open>simp_all add: n_def of_nat_diff\<close>)
    then show ?thesis using len unat_small [of "n - nat k"] by (simp add: n_def less_imp_diff_less)
  qed
  have signed: "sint (of_nat (length d) - 16 :: u32) = int (length d) - 16"
    using len parts(2) less_diff_conv2 [of 16 "length d" "2 ^ 31"] by (simp add: of_nat_diff)
  have order: "\<not> length d - 16 < n - nat k" "\<not> length d - 16 \<le> n - nat k"
    "int (n - nat k) + k = int n" "int n = int (length d) - 24"
    using len k by (auto simp: n_def)
  show ?thesis
    using len k parts(1) signed order b size by (simp add: parseHeader_def Let_def word_less_nat_alt)
qed

lemma parseHeader_bad:
  fixes d :: bytes
  defines "n \<equiv> length d - 24"
  assumes len: "24 \<le> length d" "length d < 2 ^ 32"
    and k: "readIntLE d (n + 4) = k" "\<not> (0 \<le> k \<and> k \<le> int n \<and> length d < 2 ^ 31 + 16)"
  shows "\<exists>w. parseHeader \<lparr>pk_data = Some d, pk_fd = fd\<rparr> = Inl (RuntimeError w)"
proof -
  note parts = parseHeader_parts [OF len]
  have size: "readIntLE d (length d - 16 - 4) = k" using len(1) k(1) by (simp add: n_def)
  consider "k < 0" | "0 \<le> k" "2 ^ 31 + 16 \<le> length d" | "0 \<le> k" "int n < k" "length d < 2 ^ 31 + 16"
    using k(2) by fastforce
  then show ?thesis
  proof cases
    case 1
    then show ?thesis using len(1) parts(1) size by (simp add: parseHeader_def Let_def bad_packet_def)
  next
    case 2
    then have "sint (of_nat (length d) - 16 :: u32) < 0"
      using parts(3) le_diff_conv2 [of 16 "length d" "2 ^ 31"] by simp
    with 2 show ?thesis using len(1) parts(1) size by (simp add: parseHeader_def Let_def bad_packet_def)
  next
    case 3
    then show ?thesis using len(1) parts(1,2) size
      by (simp add: parseHeader_def Let_def bad_packet_def n_def)
  qed
qed

text \<open>
  C36. For every packet with fewer than 2^32 bytes, \<open>parseHeader\<close> succeeds exactly when the
  packet has room for the trailer, its length less the marker fits a signed integer and the
  announced size of the serialized object is neither negative nor larger than what the trailer
  leaves; the data and the serialized object then fill the packet up to the 24 bytes of the
  trailer, so that no read leaves the packet. In every other case it throws a runtime error,
  whatever the marker holds.
\<close>

theorem parseHeader_bounds:
  fixes d :: bytes
  defines "n \<equiv> length d - 24"
  shows "length d < 2 ^ 32 \<Longrightarrow>
    (case parseHeader \<lparr>pk_data = Some d, pk_fd = fd\<rparr> of
       Inr (t, k, b) \<Rightarrow>
         24 \<le> length d \<and> length d < 2 ^ 31 + 16 \<and>
         k = readIntLE d (n + 4) \<and> t = readIntLE d n \<and> 0 \<le> k \<and> int b + k = int n
     | Inl e \<Rightarrow>
         (\<exists>w. e = RuntimeError w) \<and>
         (length d < 24 \<or> 2 ^ 31 + 16 \<le> length d \<or> readIntLE d (n + 4) < 0 \<or> int n < readIntLE d (n + 4)))"
proof -
  assume len: "length d < 2 ^ 32"
  show ?thesis
  proof (cases "length d < 24")
    case True
    then show ?thesis by (simp add: parseHeader_def)
  next
    case False
    define k where "k = readIntLE d (n + 4)"
    show ?thesis
    proof (cases "0 \<le> k \<and> k \<le> int n \<and> length d < 2 ^ 31 + 16")
      case True
      then show ?thesis
        using False parseHeader_ok [of d k fd] by (auto simp: n_def k_def nat_le_iff of_nat_diff)
    next
      case rest: False
      then show ?thesis
        using False len parseHeader_bad [of d k fd] by (auto simp: n_def k_def [unfolded n_def])
    qed
  qed
qed

theorem parseHeader_bounds_witness:
  defines "frame \<equiv> [7, 7, 9] @ le32 2 @ le32 1 @ endOfPacketMarker"
  shows "\<exists>t k b. parseHeader \<lparr>pk_data = Some frame, pk_fd = -1\<rparr> = Inr (t, k, b) \<and> int b + k = 3 \<and> k = 1"
proof -
  have len: "length frame - 24 = 3" "length frame < 2 ^ 32" by (simp_all add: frame_def)
  have k: "readIntLE frame (3 + 4) = 1"
    using readIntLE_le32 [of "[7, 7, 9] @ le32 2" 1 endOfPacketMarker] by (simp add: frame_def)
  show ?thesis
    using parseHeader_bounds [OF len(2), of "-1"] k
    by (auto simp: len(1) split: sum.splits prod.splits) (simp_all add: frame_def)
qed

lemma parseHeader_frame:
  assumes "length d + length md + 24 < 2 ^ 31"
  shows "parseHeader \<lparr>pk_data = Some (d @ md @ le32 w @ le32 (of_nat (length md)) @ endOfPacketMarker), pk_fd = fd\<rparr> =
    Inr (sint w, int (length md), length d)"
proof -
  let ?d = "d @ md @ le32 w @ le32 (of_nat (length md)) @ endOfPacketMarker"
  have n: "length ?d - 24 = length (d @ md)" by simp
  have "readIntLE ?d (length (d @ md)) = sint w"
    using readIntLE_le32 [of "d @ md"] by simp
  moreover have "readIntLE ?d (length (d @ md) + 4) = int (length md)"
    using readIntLE_le32 [of "d @ md @ le32 w"] sint_small [of "length md"] assms by (simp add: add.assoc)
  ultimately show ?thesis
    using parseHeader_ok [of ?d "int (length md)" fd] assms n by simp
qed

text \<open>The types the parser knows, less the two without a class of their own.\<close>

definition parsable :: "bool \<Rightarrow> DatatypeEnum \<Rightarrow> bool" where
  "parsable dyn t \<longleftrightarrow>
     t \<notin> {ADatatype, Transformable, COUNT} \<and> (t \<in> set dynamic_calibration_types \<longrightarrow> dyn)"

lemma sint_datatype_code: "sint (word_of_int (datatype_code t) :: u32) = datatype_code t"
  using datatype_code_range [of t] sint_small [of "nat (datatype_code t)"] by simp

lemma parseMessage_frame:
  assumes "length d + length md + 24 < 2 ^ 31"
    and "p = \<lparr>pk_data = Some (d @ md @ le32 (of_int (datatype_code t)) @ le32 (of_nat (length md)) @
                             endOfPacketMarker), pk_fd = fd\<rparr>"
  shows "parsable dyn t \<Longrightarrow> parseMessage dyn blank deser p = parseDatatype deser t md d fd"
    and "t = ADatatype \<Longrightarrow> parseMessage dyn blank deser p = Inr (Message ADatatype (Fields blank) (VectorMemory []))"
  unfolding parseMessage_def assms(2) parseHeader_frame [OF assms(1)]
  using datatype_of_code_code [of ADatatype] by (auto simp: sint_datatype_code parsable_def)

section \<open>Reading\<close>

lemma gather_shortens: "gather n sz payload s = Received x s' \<Longrightarrow> length s' \<le> length s"
proof (induction n sz payload s rule: gather.induct)
  case (3 n sz payload p s)
  then show ?case by (auto split: if_splits dest: le_SucI)
qed auto

lemma parsePacketizedData_shortens:
  "parsePacketizedData parse n t s = Received m s' \<Longrightarrow> length s' \<le> length s"
  by (auto simp: parsePacketizedData_def read_result_def split: reading.splits sum.splits if_splits prod.splits
      dest: gather_shortens)

lemma read_shortens:
  "readData_fuel parse f s = Received m s' \<Longrightarrow> length s' < length s"
  "parseMessageGroup parse f ms s = Received ms' s' \<Longrightarrow> length s' \<le> length s"
proof (induction parse f s and parse f ms s arbitrary: m s' and ms' s'
    rule: readData_fuel_parseMessageGroup.induct)
  case (3 parse f p s)
  then show ?case
    by (force split: sum.splits body.splits reading.splits dest: parsePacketizedData_shortens)
next
  case (5 parse f k old ms s)
  then show ?case by (force split: reading.splits)
qed auto

lemma fuel_enough:
  "length s < f \<Longrightarrow> readData_fuel parse (Suc f) s = readData_fuel parse f s"
  "length s < f \<Longrightarrow> parseMessageGroup parse (Suc f) ms s = parseMessageGroup parse f ms s"
proof (induction parse f s and parse f ms s rule: readData_fuel_parseMessageGroup.induct)
  case (3 parse f p s)
  then show ?case by (auto split: sum.splits body.splits)
next
  case (5 parse f k old ms s)
  have "readData_fuel parse (Suc f) s = readData_fuel parse f s" using 5 by simp
  moreover have "parseMessageGroup parse (Suc f) ms s' = parseMessageGroup parse f ms s'"
    if "readData_fuel parse f s = Received m s'" for m s'
    using 5 that read_shortens(1) [OF that] by auto
  ultimately show ?case by (auto split: reading.splits)
qed auto

end
