(* ===== verification/Transport.thy ===== *)
theory Transport
  imports StreamMessages
begin

text \<open>
  What a stream carries: messages written by the sender of \<open>StreamMessages\<close> are read back by its
  receiver in order (interface \<open>framed_stream\<close>, interpreted on the two), except for groups inside
  groups; split writes end and packetized messages are put together again.
\<close>

section \<open>Transport\<close>

text \<open>What a stream carries, as a contract between a writer and a reader.\<close>

locale framed_stream =
  fixes encode :: "'m \<Rightarrow> packet list"
    and decode :: "packet list \<Rightarrow> 'm reading"
    and carried :: "'m \<Rightarrow> bool"
    and image :: "'m \<Rightarrow> 'm"
  assumes decode_encode: "carried m \<Longrightarrow> decode (encode m @ s) = Received (image m) s"
begin

fun decode_many :: "nat \<Rightarrow> packet list \<Rightarrow> 'm list reading" where
  "decode_many 0 s = Received [] s"
| "decode_many (Suc n) s =
     (case decode s of
        Waiting \<Rightarrow> Waiting
      | Failed e s' \<Rightarrow> Failed e s'
      | Received m s' \<Rightarrow>
          (case decode_many n s' of
             Waiting \<Rightarrow> Waiting
           | Failed e s'' \<Rightarrow> Failed e s''
           | Received ms s'' \<Rightarrow> Received (m # ms) s''))"

lemma decode_many_encode:
  "\<forall>m \<in> set ms. carried m \<Longrightarrow>
     decode_many (length ms) (concat (map encode ms) @ s) = Received (map image ms) s"
  by (induction ms) (simp_all add: decode_encode)

end

text \<open>
  The packets of one message, and the message as the receiver builds it: a descriptor above
  zero is handed over, other data is copied, the members of a group are copied.
\<close>

definition copied :: "(int \<Rightarrow> bytes) \<Rightarrow> 'p \<Rightarrow> 'p message \<Rightarrow> 'p message" where
  "copied shm blank m =
     (if msg_type m = ADatatype then Message ADatatype (Fields blank) (VectorMemory [])
      else Message (msg_type m) (msg_body m) (VectorMemory (getData shm (msg_data m))))"

definition handed_over :: "(int \<Rightarrow> bytes) \<Rightarrow> memory \<Rightarrow> memory" where
  "handed_over shm mem =
     (case mem of
        SharedMemory fd \<Rightarrow> if 0 < fd \<and> shm fd \<noteq> [] then mem else VectorMemory (shm fd)
      | VectorMemory bs \<Rightarrow> mem)"

definition received :: "(int \<Rightarrow> bytes) \<Rightarrow> 'p \<Rightarrow> 'p message \<Rightarrow> 'p message" where
  "received shm blank m =
     (if msg_type m = ADatatype then Message ADatatype (Fields blank) (VectorMemory [])
      else Message (msg_type m)
             (case msg_body m of
                Members x ms \<Rightarrow> Members x (map (\<lambda>(k, c). (k, map_option (copied shm blank) c)) ms)
              | b \<Rightarrow> b)
             (handed_over shm (msg_data m)))"

text \<open>
  A message that fits one packet and whose type is parsed; a group in addition has no null
  member and no member that is a group or a packetized message itself.
\<close>

definition fits :: "bool \<Rightarrow> ('p fields \<Rightarrow> bytes) \<Rightarrow> (int \<Rightarrow> bytes) \<Rightarrow> 'p message \<Rightarrow> bool" where
  "fits dyn ser shm m \<longleftrightarrow>
     length (getData shm (msg_data m)) + length (serializeMetadata ser m) < 2 ^ 31 \<and>
     (msg_type m = ADatatype \<or> parsable dyn (msg_type m))"

definition simple_body :: "'p body \<Rightarrow> bool" where
  "simple_body b = (case b of Fields x \<Rightarrow> True | Members x ms \<Rightarrow> False | Counts n t \<Rightarrow> False)"

definition transportable :: "bool \<Rightarrow> ('p fields \<Rightarrow> bytes) \<Rightarrow> (int \<Rightarrow> bytes) \<Rightarrow> 'p message \<Rightarrow> bool" where
  "transportable dyn ser shm m \<longleftrightarrow>
     fits dyn ser shm m \<and>
     (case msg_body m of
        Fields x \<Rightarrow> True
      | Counts n t \<Rightarrow> False
      | Members x ms \<Rightarrow> msg_type m \<noteq> ADatatype \<and>
          (\<forall>k c. (k, c) \<in> set ms \<longrightarrow>
             (case c of None \<Rightarrow> False | Some c' \<Rightarrow> fits dyn ser shm c' \<and> simple_body (msg_body c'))))"

definition member_packets ::
    "(xcall \<Rightarrow> packet list) \<Rightarrow> ('p fields \<Rightarrow> bytes) \<Rightarrow> (int \<Rightarrow> bytes) \<Rightarrow>
       (string \<times> 'p message option) list \<Rightarrow> packet list" where
  "member_packets deliver ser shm ms = concat (map (\<lambda>(k, c).
     case c of None \<Rightarrow> [] | Some m \<Rightarrow> deliver (write_member shm (msg_data m) (serializeMetadata ser m))) ms)"

definition message_packets ::
    "(xcall \<Rightarrow> packet list) \<Rightarrow> ('p fields \<Rightarrow> bytes) \<Rightarrow> (int \<Rightarrow> bytes) \<Rightarrow> 'p message \<Rightarrow> packet list" where
  "message_packets deliver ser shm m =
     deliver (write_outgoing shm (msg_data m) (serializeMetadata ser m)) @
     (case msg_body m of Members x ms \<Rightarrow> member_packets deliver ser shm ms | _ \<Rightarrow> [])"

definition on_stream :: "(xcall \<Rightarrow> packet list) \<Rightarrow> out_link \<Rightarrow> packet list" where
  "on_stream deliver l = concat (map deliver (ol_calls l))"

lemma on_stream_call [simp]: "on_stream deliver (xlink_call c l) = on_stream deliver l @ deliver c"
  by (simp add: on_stream_def xlink_call_def)

lemma ensure_room_stream:
  "link_ok deliver \<Longrightarrow> ensure_room a n k l = Inr l' \<Longrightarrow> on_stream deliver l' = on_stream deliver l"
  by (auto simp: ensure_room_def increaseBufferSize_def on_stream_def xlink_call_def link_ok_def
      split: if_splits)

lemma send_members_packets:
  "link_ok deliver \<Longrightarrow> send_members ser shm a ms l = (None, l') \<Longrightarrow>
     on_stream deliver l' = on_stream deliver l @ member_packets deliver ser shm ms"
  by (induction ser shm a ms l rule: send_members.induct)
    (auto simp: Let_def member_packets_def ensure_room_stream split: sum.splits)

lemma send_message_packets:
  "link_ok deliver \<Longrightarrow> send_message ser shm a m l = (None, l') \<Longrightarrow>
     on_stream deliver l' = on_stream deliver l @ message_packets deliver ser shm m"
  by (auto simp: send_message_def Let_def message_packets_def ensure_room_stream
      split: sum.splits body.splits dest: send_members_packets [rotated])

lemma send_many_packets:
  "link_ok deliver \<Longrightarrow> send_many ser shm a ms l = (None, l') \<Longrightarrow>
     on_stream deliver l' = on_stream deliver l @ concat (map (message_packets deliver ser shm) ms)"
  by (induction ser shm a ms l rule: send_many.induct)
    (auto simp: send_message_packets split: prod.splits option.splits)

text \<open>Reading back one written packet.\<close>

lemma fields_roundtrip:
  "body_of (fields_of b) =
     (case b of Members x ms \<Rightarrow> Members x (map (\<lambda>(k, c). (k, None)) ms) | _ \<Rightarrow> b)"
  by (auto simp: body_of_def fields_of_def split: body.splits)

lemma parse_written:
  assumes codec: "codec_ok ser deser" and fits: "fits dyn ser shm m"
    and d: "d = [] \<or> d = getData shm (msg_data m)"
  shows "parseMessage dyn blank deser \<lparr>pk_data = Some (d @ serializeMetadata ser m), pk_fd = fd\<rparr> =
    Inr (if msg_type m = ADatatype then Message ADatatype (Fields blank) (VectorMemory [])
         else Message (msg_type m) (body_of (fields_of (msg_body m)))
                (if fd < 0 then VectorMemory d else SharedMemory fd))"
proof -
  define md where "md = fst (serialize_message ser m)"
  have packet: "serializeMetadata ser m =
      md @ le32 (of_int (datatype_code (msg_type m))) @ le32 (of_nat (length md)) @ endOfPacketMarker"
    by (simp add: serializeMetadata_def md_def serialize_message_def Let_def)
  have "length d + length md + 24 < 2 ^ 31" using fits d by (auto simp: fits_def packet)
  note parse = parseMessage_frame [OF this refl, where dyn = dyn and blank = blank and deser = deser]
  show ?thesis
  proof (cases "msg_type m = ADatatype")
    case True
    then show ?thesis using parse(2) [of "msg_type m"] by (simp add: packet)
  next
    case False
    then have "parsable dyn (msg_type m)" using fits by (simp add: fits_def)
    moreover have "md = ser (fields_of (msg_body m))" using False by (simp add: md_def serialize_message_def)
    ultimately show ?thesis
      using False parse(1) [of "msg_type m"] codec by (simp add: packet parseDatatype_def codec_ok_def)
  qed
qed

lemma member_read:
  assumes link: "link_ok deliver" and codec: "codec_ok ser deser"
    and fits: "fits dyn ser shm m" and simple: "simple_body (msg_body m)"
  shows "readData_fuel (parseMessage dyn blank deser) (Suc f)
      (deliver (write_member shm (msg_data m) (serializeMetadata ser m)) @ s) =
    Received (copied shm blank m) s"
proof -
  have "deliver (write_member shm (msg_data m) (serializeMetadata ser m)) =
      [\<lparr>pk_data = Some (getData shm (msg_data m) @ serializeMetadata ser m), pk_fd = -1\<rparr>]"
    using link by (simp add: link_ok_def write_member_def data_packet_def)
  then show ?thesis
    using parse_written [OF codec fits, of "getData shm (msg_data m)" blank "-1"] simple
    by (auto simp: copied_def simple_body_def fields_roundtrip split: body.splits)
qed

lemma members_read:
  assumes "link_ok deliver" and "codec_ok ser deser"
    and "\<And>k c. (k, c) \<in> set ms \<Longrightarrow> (case c of None \<Rightarrow> False | Some m \<Rightarrow> fits dyn ser shm m \<and> simple_body (msg_body m))"
  shows "parseMessageGroup (parseMessage dyn blank deser) (Suc f) (map (\<lambda>(k, c). (k, None)) ms)
      (member_packets deliver ser shm ms @ s) =
    Received (map (\<lambda>(k, c). (k, map_option (copied shm blank) c)) ms) s"
  using assms(3)
proof (induction ms)
  case Nil
  then show ?case by (simp add: member_packets_def)
next
  case (Cons kc ms)
  obtain k c where kc: "kc = (k, c)" by (cases kc)
  with Cons.prems [of k c] obtain m where m: "c = Some m" "fits dyn ser shm m" "simple_body (msg_body m)"
    by (auto split: option.splits)
  have "parseMessageGroup (parseMessage dyn blank deser) (Suc f) (map (\<lambda>(k, c). (k, None)) ms)
      (member_packets deliver ser shm ms @ s) = Received (map (\<lambda>(k, c). (k, map_option (copied shm blank) c)) ms) s"
    using Cons.prems by (intro Cons.IH) auto
  then show ?case
    using member_read [OF assms(1,2) m(2,3), where s = "member_packets deliver ser shm ms @ s" and f = f and blank = blank]
    by (simp add: kc m(1) member_packets_def)
qed

definition message_link ::
    "(xcall \<Rightarrow> packet list) \<Rightarrow> ('p fields \<Rightarrow> bytes) \<Rightarrow> (DatatypeEnum \<Rightarrow> bytes \<Rightarrow> 'p fields result) \<Rightarrow> bool" where
  "message_link deliver ser deser \<longleftrightarrow> link_ok deliver \<and> codec_ok ser deser"

lemma packets_read:
  assumes link: "message_link deliver ser deser" and m: "transportable dyn ser shm m"
  shows "readData_fuel (parseMessage dyn blank deser) (Suc (Suc f)) (message_packets deliver ser shm m @ s) =
    Received (received shm blank m) s"
proof -
  have l: "link_ok deliver" and c: "codec_ok ser deser" using link by (simp_all add: message_link_def)
  have fits: "fits dyn ser shm m" using m by (simp add: transportable_def)
  obtain d fd where out: "deliver (write_outgoing shm (msg_data m) (serializeMetadata ser m)) =
      [\<lparr>pk_data = Some (d @ serializeMetadata ser m), pk_fd = fd\<rparr>]"
    and d: "d = [] \<or> d = getData shm (msg_data m)"
    and mem: "(if fd < 0 then VectorMemory d else SharedMemory fd) = handed_over shm (msg_data m)"
  proof (cases "\<exists>fd. msg_data m = SharedMemory fd \<and> 0 < fd \<and> shm fd \<noteq> []")
    case True
    then obtain fd where "msg_data m = SharedMemory fd" "0 < fd" "shm fd \<noteq> []" by blast
    then show ?thesis using that [of "[]" fd] l
      by (auto simp: write_outgoing_def handed_over_def link_ok_def getData_def)
  next
    case False
    then have "write_outgoing shm (msg_data m) (serializeMetadata ser m) =
        (if getData shm (msg_data m) = [] then WriteData (serializeMetadata ser m)
         else WriteData2 (getData shm (msg_data m)) (serializeMetadata ser m))"
      by (cases "msg_data m") (auto simp: write_outgoing_def getData_def)
    moreover have "handed_over shm (msg_data m) = VectorMemory (getData shm (msg_data m))"
      using False by (cases "msg_data m") (auto simp: handed_over_def getData_def)
    ultimately show ?thesis using that [of "getData shm (msg_data m)" "-1"] l
      by (simp add: link_ok_def data_packet_def)
  qed
  show ?thesis
  proof (cases "\<exists>x ms. msg_body m = Members x ms")
    case True
    then obtain x ms where b: "msg_body m = Members x ms" by blast
    have "parseMessageGroup (parseMessage dyn blank deser) (Suc f)
        (map (\<lambda>(k, c). (k, None)) ms) (member_packets deliver ser shm ms @ s) =
      Received (map (\<lambda>(k, c). (k, map_option (copied shm blank) c)) ms) s"
      using m by (intro members_read [OF l c]) (auto simp: transportable_def b)
    then show ?thesis
      using parse_written [OF c fits d, of blank fd] m b
      by (simp add: message_packets_def out received_def fields_roundtrip transportable_def mem)
  next
    case False
    then show ?thesis
      using parse_written [OF c fits d, of blank fd] m
      by (auto simp: message_packets_def out received_def fields_roundtrip transportable_def mem [symmetric]
          split: body.splits)
  qed
qed

lemma message_packets_nonempty:
  "message_link deliver ser deser \<Longrightarrow> message_packets deliver ser shm m \<noteq> []"
  by (simp add: message_packets_def message_link_def link_ok_def write_outgoing_def data_packet_def split: memory.splits)

lemma readData_packets:
  assumes "message_link deliver ser deser" and "transportable dyn ser shm m"
  shows "readData (parseMessage dyn blank deser) (message_packets deliver ser shm m @ s) =
    Received (received shm blank m) s"
proof -
  obtain n where "length (message_packets deliver ser shm m @ s) = Suc n"
    using message_packets_nonempty [OF assms(1), of shm m]
    by (cases "message_packets deliver ser shm m @ s") auto
  then show ?thesis using packets_read [OF assms] by (simp add: readData_def)
qed

interpretation xs: framed_stream
    "message_packets deliver ser shm"
    "readData (parseMessage dyn blank deser)"
    "\<lambda>m. message_link deliver ser deser \<and> transportable dyn ser shm m"
    "received shm blank"
  for deliver ser deser shm dyn blank
  by unfold_locales (simp add: readData_packets)

lemma decode_many_read: "xs.decode_many dyn blank deser n s = read_many (parseMessage dyn blank deser) n s"
  by (induction n arbitrary: s) (simp_all cong: reading.case_cong)

text \<open>With resizing allowed, sending fails for a null member only.\<close>

lemma ensure_room_resizes: "\<exists>l'. ensure_room True n k l = Inr l'"
  by (simp add: ensure_room_def increaseBufferSize_def)

lemma send_members_resizes:
  "\<forall>k c. (k, c) \<in> set ms \<longrightarrow> c \<noteq> None \<Longrightarrow> fst (send_members ser shm True ms l) = None"
proof (induction ms arbitrary: l)
  case (Cons kc ms)
  obtain k m where kc: "kc = (k, Some m)" using Cons.prems by (cases kc) auto
  obtain l' where "ensure_room True (length (getData shm (msg_data m))) (length (serializeMetadata ser m)) l = Inr l'"
    using ensure_room_resizes by blast
  with Cons show ?case by (simp add: kc Let_def)
qed simp

lemma send_message_resizes:
  assumes "transportable dyn ser shm m"
  shows "fst (send_message ser shm True m l) = None"
proof -
  obtain l' where "ensure_room True (length (getData shm (msg_data m))) (length (serializeMetadata ser m)) l = Inr l'"
    using ensure_room_resizes by blast
  moreover have "fst (send_members ser shm True ms l'') = None" if "msg_body m = Members x ms" for x ms l''
    using assms that by (intro send_members_resizes) (force simp: transportable_def split: option.splits)
  ultimately show ?thesis by (simp add: send_message_def Let_def split: body.splits)
qed

lemma send_many_resizes:
  "\<forall>m \<in> set ms. transportable dyn ser shm m \<Longrightarrow> fst (send_many ser shm True ms l) = None"
proof (induction ms arbitrary: l)
  case (Cons m ms)
  then show ?case
    using send_message_resizes [of dyn ser shm m l]
    by (cases "send_message ser shm True m l") auto
qed simp


text \<open>A serializer for messages whose fields are one byte, and a link.\<close>

definition key_bytes :: "string \<Rightarrow> bytes" where
  "key_bytes k = concat (map (\<lambda>c. [1, of_nat (of_char c)]) k) @ [0]"

fun read_keys :: "string \<Rightarrow> bytes \<Rightarrow> string list" where
  "read_keys acc (x # y # bs) =
     (if x = 0 then rev acc # read_keys [] (y # bs) else read_keys (char_of (unat y) # acc) bs)"
| "read_keys acc [x] = [rev acc]"
| "read_keys acc [] = []"

fun byte_ser :: "u8 fields \<Rightarrow> bytes" where
  "byte_ser (PlainFields x) = [0, x]"
| "byte_ser (GroupFields x ks) = 1 # x # concat (map key_bytes ks)"
| "byte_ser (PacketFields n t) = 2 # le32 n @ le32 t"

definition byte_deser :: "DatatypeEnum \<Rightarrow> bytes \<Rightarrow> u8 fields result" where
  "byte_deser t bs =
     (if bs ! 0 = 0 then Inr (PlainFields (bs ! 1))
      else if bs ! 0 = 1 then Inr (GroupFields (bs ! 1) (read_keys [] (drop 2 bs)))
      else Inr (PacketFields (of_int (readIntLE bs 1)) (of_int (readIntLE bs 5))))"

definition plain_link :: "xcall \<Rightarrow> packet list" where
  "plain_link c = (case c of OpenStream n \<Rightarrow> [] | WriteData2 a b \<Rightarrow> [data_packet (a @ b)]
     | WriteData b \<Rightarrow> [data_packet b] | WriteFdData fd b \<Rightarrow> [\<lparr>pk_data = Some b, pk_fd = fd\<rparr>])"

lemma unat_of_char: "unat (of_nat (of_char c) :: u8) = of_char c"
  using of_char_mod_256 [of c, where 'a = nat] by (simp add: unat_of_nat)

lemma read_keys_key: "read_keys acc (key_bytes k @ bs) = (rev acc @ k) # read_keys [] bs"
proof (induction k arbitrary: acc)
  case Nil
  then show ?case by (cases bs) (simp_all add: key_bytes_def)
next
  case (Cons c k)
  have "key_bytes (c # k) @ bs = 1 # of_nat (of_char c) # (key_bytes k @ bs)"
    by (simp add: key_bytes_def)
  then show ?case using Cons [of "c # acc"] by (simp add: unat_of_char)
qed

lemma read_keys_bytes: "read_keys [] (concat (map key_bytes ks)) = ks"
  by (induction ks) (simp_all add: read_keys_key)

lemma byte_codec: "codec_ok byte_ser byte_deser"
proof -
  have "byte_deser t (byte_ser f) = Inr f" for t f
  proof (cases f)
    case (PacketFields n k)
    have "readIntLE (2 # le32 n @ le32 k) 1 = sint n"
      using readIntLE_le32 [of "[2]" n "le32 k"] by simp
    moreover have "readIntLE (2 # le32 n @ le32 k) 5 = sint k"
      using readIntLE_le32 [of "2 # le32 n" k "[]"] by simp
    ultimately show ?thesis using PacketFields by (simp add: byte_deser_def)
  qed (simp_all add: byte_deser_def read_keys_bytes)
  then show ?thesis by (simp add: codec_ok_def)
qed

lemma byte_link: "message_link plain_link byte_ser byte_deser"
  by (simp add: message_link_def byte_codec link_ok_def plain_link_def)

text \<open>
  A group with an image (three bytes of data) and a detections message, then a frame in shared
  memory.
\<close>

definition sample_messages :: "u8 message list" where
  "sample_messages =
     [Message MessageGroup
        (Members 9 [(''dets'', Some (Message ImgDetections (Fields 4) (VectorMemory []))),
                    (''rgb'', Some (Message ImgFrame (Fields 5) (VectorMemory [1, 2, 3])))])
        (VectorMemory []),
      Message ImgFrame (Fields 6) (SharedMemory 7)]"

definition sample_shm :: "int \<Rightarrow> bytes" where
  "sample_shm fd = (if fd = 7 then [8, 8, 8, 8] else [])"

lemma sample_transportable: "\<forall>m \<in> set sample_messages. transportable False byte_ser sample_shm m"
  by (auto simp: sample_messages_def transportable_def fits_def parsable_def dynamic_calibration_types_def
      serializeMetadata_def serialize_message_def fields_of_def key_bytes_def getData_def
      sample_shm_def simple_body_def)

lemma sample_sent:
  "send_many byte_ser sample_shm False sample_messages open_link =
     (None, snd (send_many byte_ser sample_shm False sample_messages open_link))"
  by (simp add: sample_messages_def send_message_def ensure_room_def serializeMetadata_def
      serialize_message_def fields_of_def key_bytes_def getData_def sample_shm_def Let_def
      open_link_def xlink_call_def write_outgoing_def write_member_def XLINK_USB_BUFFER_MAX_SIZE_def
      XLINK_MESSAGE_METADATA_MAX_SIZE_def)


text \<open>
  The sender writes the members of a group but not the members of a group inside it, while
  the receiver reads them too: for a group whose only member is a group, the receiver takes the
  next message sent on the stream for the missing inner member, so that the inner member never
  arrives and the next message is never delivered as one.
\<close>

theorem nested_group_swallows_next:
  fixes leaf next_message :: "'p message" and x y :: 'p and k k' :: string and a b :: bytes
  defines "group_of \<equiv> \<lambda>m. Message MessageGroup
      (Members x [(k, Some (Message MessageGroup (Members y [(k', Some m)]) (VectorMemory b)))]) (VectorMemory a)"
  assumes link: "message_link deliver ser deser"
    and fits: "fits dyn ser shm (group_of leaf)"
      "fits dyn ser shm (Message MessageGroup (Members y [(k', Some leaf)]) (VectorMemory b))"
      "transportable dyn ser shm next_message" "simple_body (msg_body next_message)"
    and sent: "send_many ser shm allowResize [group_of leaf, next_message] open_link = (None, l)"
  shows "readData (parseMessage dyn blank deser) (on_stream deliver l) =
    Received (group_of (received shm blank next_message)) []"
proof -
  let ?parse = "parseMessage dyn blank deser"
  let ?inner = "Message MessageGroup (Members y [(k', Some leaf)]) (VectorMemory b)"
  let ?rest = "message_packets deliver ser shm next_message"
  have codec: "codec_ok ser deser" and l: "link_ok deliver" using link by (simp_all add: message_link_def)
  have "on_stream deliver open_link = []"
    using l by (simp add: link_ok_def on_stream_def open_link_def Let_def)
  then have stream: "on_stream deliver l =
      data_packet (a @ serializeMetadata ser (group_of leaf)) # data_packet (b @ serializeMetadata ser ?inner) # ?rest"
    using send_many_packets [OF l sent] l
    by (auto simp: message_packets_def group_of_def member_packets_def link_ok_def
        write_outgoing_def write_member_def getData_def data_packet_def)
  have outer: "?parse (data_packet (a @ serializeMetadata ser (group_of leaf))) =
      Inr (Message MessageGroup (Members x [(k, None)]) (VectorMemory a))"
    using parse_written [OF codec fits(1), of a blank "-1"]
    by (simp add: group_of_def getData_def fields_roundtrip data_packet_def)
  have inner: "?parse (data_packet (b @ serializeMetadata ser ?inner)) =
      Inr (Message MessageGroup (Members y [(k', None)]) (VectorMemory b))"
    using parse_written [OF codec fits(2), of b blank "-1"]
    by (simp add: getData_def fields_roundtrip data_packet_def)
  obtain n where n: "length ?rest = Suc n"
    using message_packets_nonempty [OF link, of shm next_message] by (cases ?rest) auto
  have "readData_fuel ?parse (Suc (Suc n)) ?rest = Received (received shm blank next_message) []"
    using packets_read [OF link fits(3), of blank n "[]"] by simp
  then show ?thesis
    by (simp add: stream readData_def n outer inner) (simp add: group_of_def)
qed

definition sample_leaf :: "u8 message" where
  "sample_leaf = Message ImgFrame (Fields 5) (VectorMemory [1, 2, 3])"

definition sample_next :: "u8 message" where
  "sample_next = Message ImgDetections (Fields 4) (VectorMemory [9])"

theorem nested_group_swallows_next_witness:
  defines "nested \<equiv> \<lambda>m. Message MessageGroup
      (Members 1 [(''a'', Some (Message MessageGroup (Members 2 [(''b'', Some m)]) (VectorMemory [])))]) (VectorMemory [])"
  shows "readData (parseMessage False 0 byte_deser)
      (on_stream plain_link (snd (send_many byte_ser sample_shm True [nested sample_leaf, sample_next] open_link))) =
    Received (nested sample_next) []"
proof -
  note eval = fits_def parsable_def dynamic_calibration_types_def serializeMetadata_def
    serialize_message_def fields_of_def key_bytes_def getData_def sample_leaf_def sample_next_def
    transportable_def simple_body_def
  have sent: "send_many byte_ser sample_shm True [nested sample_leaf, sample_next] open_link =
      (None, snd (send_many byte_ser sample_shm True [nested sample_leaf, sample_next] open_link))"
    by (simp add: nested_def send_message_def ensure_room_def serializeMetadata_def
        serialize_message_def fields_of_def key_bytes_def getData_def sample_leaf_def sample_next_def Let_def
        open_link_def xlink_call_def write_outgoing_def write_member_def XLINK_USB_BUFFER_MAX_SIZE_def
        XLINK_MESSAGE_METADATA_MAX_SIZE_def)
  have "received sample_shm 0 sample_next = sample_next"
    by (simp add: sample_next_def received_def handed_over_def)
  then show ?thesis
    using nested_group_swallows_next [OF byte_link _ _ _ _ sent [unfolded nested_def], of False 0]
    by (simp add: nested_def eval)
qed

section \<open>Split writes\<close>

text \<open>The chunks of a list, by recursion on what is left.\<close>

function chunks :: "nat \<Rightarrow> 'a list \<Rightarrow> 'a list list" where
  "chunks k xs = (if xs = [] \<or> k = 0 then [] else take k xs # chunks k (drop k xs))"
  by pat_completeness auto
termination by (relation "measure (\<lambda>(k, xs). length xs)") auto

declare chunks.simps [simp del]

lemma chunks_Nil [simp]: "chunks k [] = []"
  by (simp add: chunks.simps)

lemma concat_chunks: "0 < k \<Longrightarrow> concat (chunks k xs) = xs"
proof (induction k xs rule: chunks.induct)
  case (1 k xs)
  then show ?case by (subst chunks.simps) auto
qed

lemma chunks_sizes: "list_all (\<lambda>b. 0 < length b \<and> length b \<le> k) (chunks k xs)"
proof (induction k xs rule: chunks.induct)
  case (1 k xs)
  then show ?case by (subst chunks.simps) auto
qed

lemma length_chunks: "0 < k \<Longrightarrow> length (chunks k xs) = (length xs + k - 1) div k"
proof (induction k xs rule: chunks.induct)
  case (1 k xs)
  show ?case
  proof (cases "xs = []")
    case True
    with 1(2) show ?thesis by simp
  next
    case False
    have "length (chunks k xs) = Suc (length (chunks k (drop k xs)))"
      using False 1(2) by (subst chunks.simps) simp
    also have "length (chunks k (drop k xs)) = (length xs - k + k - 1) div k"
      using 1 False by simp
    also have "Suc ((length xs - k + k - 1) div k) = (length xs + k - 1) div k"
    proof -
      have "(length xs + k - 1) div k = Suc ((length xs - 1) div k)"
        using False 1(2) div_add_self2 [of k "length xs - 1"] by (cases xs) auto
      moreover have "(length xs - k + k - 1) div k = (length xs - 1) div k"
        using 1(2) by (cases "k \<le> length xs") auto
      ultimately show ?thesis by simp
    qed
    finally show ?thesis .
  qed
qed

lemma writeSplit_zero:
  "writeSplit_loop d k c r = Some cs \<Longrightarrow> k = 0 \<and> r = length d - c \<longrightarrow> r = 0"
proof (rule writeSplit_loop.raw_induct [of "\<lambda>d k c r cs. k = 0 \<and> r = length d - c \<longrightarrow> r = 0"])
  fix loop :: "bytes \<Rightarrow> nat \<Rightarrow> nat \<Rightarrow> nat \<Rightarrow> xcall list option" and d :: bytes and k c r :: nat and cs
  assume IH: "\<And>d k c r cs. loop d k c r = Some cs \<Longrightarrow> k = 0 \<and> r = length d - c \<longrightarrow> r = 0"
    and body: "(if 0 < r then let n = if k < r then k else r; c' = c + n
        in Option.bind (loop d k c' (length d - c')) (\<lambda>cs. Some (WriteData (take n (drop c d)) # cs))
      else Some []) = Some cs"
  show "k = 0 \<and> r = length d - c \<longrightarrow> r = 0"
    using body IH by (fastforce simp: Let_def split: if_splits bind_splits)
qed

lemma writeSplit_chunks:
  assumes "0 < k"
  shows "writeSplit_loop d k c (length d - c) = Some (map WriteData (chunks k (drop c d)))"
proof (induction "length d - c" arbitrary: c rule: less_induct)
  case less
  show ?case
  proof (cases "length d \<le> c")
    case True
    then show ?thesis by (subst writeSplit_loop.simps) simp
  next
    case False
    define n where "n = (if k < length d - c then k else length d - c)"
    have n: "0 < n" "take n (drop c d) = take k (drop c d)" "drop (c + n) d = drop k (drop c d)"
      using False assms by (auto simp: n_def add.commute)
    have "writeSplit_loop d k (c + n) (length d - (c + n)) = Some (map WriteData (chunks k (drop (c + n) d)))"
      using n(1) False by (intro less) simp
    moreover have "chunks k (drop c d) = take k (drop c d) # chunks k (drop k (drop c d))"
      using False assms by (subst chunks.simps) simp
    ultimately show ?thesis
      using False n by (subst writeSplit_loop.simps) (simp add: n_def [symmetric] Let_def)
  qed
qed

text \<open>
  A split write ends for every positive split size, and only then (or when there is nothing to
  write): the loop then hands the data to XLink in order, cut into non-empty writes of at most
  the split size, as many as the rounded-up quotient. With a split of zero it does not end.
\<close>

theorem writeSplit_terminates:
  "case writeSplit d split of
     None \<Rightarrow> d \<noteq> [] \<and> split = 0
   | Some calls \<Rightarrow> (d = [] \<or> 0 < split) \<and>
       (\<exists>bs. calls = map WriteData bs \<and> concat bs = d \<and>
             list_all (\<lambda>b. 0 < length b \<and> length b \<le> split) bs \<and>
             length bs = (length d + split - 1) div split)"
proof (cases "split = 0")
  case True
  show ?thesis
  proof (cases "writeSplit d split")
    case None
    then have "d \<noteq> []" using True by (auto simp: writeSplit_def writeSplit_loop.simps)
    then show ?thesis using None True by simp
  next
    case (Some calls)
    then have "d = []" using True writeSplit_zero [of d 0 0 "length d" calls] by (simp add: writeSplit_def)
    with Some True show ?thesis by (auto simp: writeSplit_def writeSplit_loop.simps)
  qed
next
  case False
  then have "writeSplit d split = Some (map WriteData (chunks split d))"
    using writeSplit_chunks [of split d 0] by (simp add: writeSplit_def)
  moreover have "concat (chunks split d) = d" "length (chunks split d) = (length d + split - 1) div split"
    using False by (simp_all add: concat_chunks length_chunks)
  ultimately show ?thesis using False chunks_sizes [of split d] by auto
qed

section \<open>Packetized messages\<close>

lemma gather_chunks:
  "\<forall>b \<in> set bs. b \<noteq> [] \<Longrightarrow>
   gather (length bs) n payload (map data_packet bs @ s) =
     Received (n + of_nat (length (concat bs)), payload @ concat bs) s"
  by (induction bs arbitrary: n payload) (simp_all add: data_packet_def pk_length_def add_ac)

lemma length_le_concat: "\<forall>b \<in> set bs. b \<noteq> [] \<Longrightarrow> length bs \<le> length (concat bs)"
proof (induction bs)
  case (Cons b bs)
  then have "0 < length b" "length bs \<le> length (concat bs)" by simp_all
  then show ?case unfolding concat.simps length_append list.size by linarith
qed simp

lemma gather_short:
  "length ps < n \<Longrightarrow> gather n k payload ps = Waiting"
  by (induction n k payload ps rule: gather.induct) auto

text \<open>
  A message announced as packetized is the message its bytes are: when the announcement holds
  the number of the split writes and the length of the bytes, the receiver takes exactly the
  announced packets off the stream and returns what parsing the whole of the bytes as one packet
  gives. As long as fewer packets are there it waits.
\<close>

theorem packetized_transfer:
  assumes link: "message_link deliver ser deser"
    and split: "0 < split" "bytes \<noteq> []" "length bytes < 2 ^ 32"
    and calls: "writeSplit bytes split = Some calls"
    and ann: "announcement = Message PacketizedData (Counts (of_nat (length calls)) (of_nat (length bytes))) (VectorMemory [])"
      "fits dyn ser shm announcement"
  shows "readData (parseMessage dyn blank deser)
      (message_packets deliver ser shm announcement @ concat (map deliver calls) @ s) =
    read_result (parseMessage dyn blank deser (data_packet bytes)) s \<and>
    (\<forall>k < length calls. readData (parseMessage dyn blank deser)
      (message_packets deliver ser shm announcement @ concat (map deliver (take k calls))) = Waiting)"
proof -
  let ?parse = "parseMessage dyn blank deser"
  define bs where "bs = chunks split bytes"
  have calls_bs: "calls = map WriteData bs"
    using writeSplit_chunks [of split bytes 0] split calls by (simp add: writeSplit_def bs_def)
  have bs: "concat bs = bytes" "\<forall>b \<in> set bs. b \<noteq> []"
    using concat_chunks [of split bytes] chunks_sizes [of split bytes] split
    by (auto simp: bs_def list_all_iff)
  have count: "length bs \<le> length (concat bs)"
    using bs(2) by (rule length_le_concat)
  have l: "link_ok deliver" and c: "codec_ok ser deser" using link by (simp_all add: message_link_def)
  have written: "concat (map deliver (map WriteData xs)) = map data_packet xs" for xs
    using l by (induction xs) (simp_all add: link_ok_def data_packet_def)
  have ann_packets: "message_packets deliver ser shm announcement = [data_packet (serializeMetadata ser announcement)]"
    using l by (simp add: message_packets_def ann(1) write_outgoing_def getData_def link_ok_def data_packet_def)
  have parsed: "?parse (data_packet (serializeMetadata ser announcement)) = Inr announcement"
    using parse_written [OF c ann(2), of "[]" blank "-1"]
    by (simp add: ann(1) getData_def fields_roundtrip data_packet_def)
  have read: "readData ?parse (message_packets deliver ser shm announcement @ ps) =
      parsePacketizedData ?parse (of_nat (length bs)) (of_nat (length bytes)) ps" for ps
    by (simp add: readData_def ann_packets parsed) (simp add: ann(1) calls_bs)
  have n: "unat (of_nat (length bs) :: u32) = length bs"
    using count split(3) by (intro unat_small) (simp add: bs(1))
  have "parsePacketizedData ?parse (of_nat (length bs)) (of_nat (length bytes)) (map data_packet bs @ s) =
      read_result (?parse (data_packet bytes)) s"
    using gather_chunks [OF bs(2), of 0 "[]" s] split(2)
    by (simp add: parsePacketizedData_def n bs(1) data_packet_def)
  moreover have "parsePacketizedData ?parse (of_nat (length bs)) (of_nat (length bytes))
      (map data_packet (take k bs)) = Waiting" if "k < length bs" for k
    using gather_short [of "map data_packet (take k bs)" "length bs"] that
    by (simp add: parsePacketizedData_def n)
  ultimately show ?thesis by (simp add: read calls_bs written take_map del: map_map)
qed

theorem packetized_transfer_witness:
  defines "frame \<equiv> [7, 7, 0, 5] @ le32 2 @ le32 2 @ endOfPacketMarker"
    and "announcement \<equiv> Message PacketizedData (Counts 3 28) (VectorMemory [])"
  shows "readData (parseMessage False 0 byte_deser)
      (message_packets plain_link byte_ser sample_shm announcement @ map data_packet
        [take 10 frame, take 10 (drop 10 frame), drop 20 frame]) =
    read_result (parseMessage False 0 byte_deser (data_packet frame)) []"
proof -
  have calls: "writeSplit frame 10 =
      Some [WriteData (take 10 frame), WriteData (take 10 (drop 10 frame)), WriteData (drop 20 frame)]"
    using writeSplit_chunks [of 10 frame 0]
    by (simp add: writeSplit_def frame_def chunks.simps le32_def endOfPacketMarker_def)
  have "frame \<noteq> []" "length frame = 28" by (simp_all add: frame_def)
  moreover have "fits False byte_ser sample_shm announcement"
    by (simp add: announcement_def fits_def parsable_def dynamic_calibration_types_def
        serializeMetadata_def serialize_message_def fields_of_def getData_def)
  ultimately show ?thesis
    using packetized_transfer [OF byte_link _ _ _ calls, of announcement False sample_shm 0 "[]"]
    by (simp add: announcement_def plain_link_def)
qed

text \<open>
  The inner message of a packetized message is returned as it is parsed: the members of a group
  sent this way stay null, unlike those of a group sent in one packet.
\<close>

lemma packetized_group_members:
  assumes "parse (data_packet payload) = Inr (Message t (Members x ms) d)"
    and "gather (unat n) 0 [] s = Received (k, payload) s'" and "payload \<noteq> []"
  shows "parsePacketizedData parse n k s = Received (Message t (Members x ms) d) s'"
  using assms by (simp add: parsePacketizedData_def read_result_def data_packet_def)

lemma read_stream_drops_last:
  "pk_fd p \<ge> 0 \<Longrightarrow> shm (pk_fd p) = mem @ [b] \<Longrightarrow> pk_data p = Some d \<Longrightarrow> read_stream shm p = Inr (d @ mem)"
  by (simp add: read_stream_def Let_def)

end
