(* ===== verification/SyncNode.thy ===== *)
theory SyncNode
  imports Prelude
begin

text \<open>
  Message groups (src/pipeline/datatype/MessageGroup.cpp), the \<open>Sync\<close> node that builds them
  (src/pipeline/node/Sync.cpp) and the \<open>MessageDemux\<close> node that takes them apart
  (src/pipeline/node/MessageDemux.cpp).

  A frame carries its two timestamps in nanoseconds, its sequence number and a payload. The
  messages an input will deliver are a list, \<open>None\<close> for a message that is not a \<open>Buffer\<close>; a read
  from an input with none left waits. The order in which \<open>std::unordered_map\<close> iterates is the
  parameter \<open>order\<close>. The attempt counter is counted without the bound of \<open>int\<close>.
\<close>

section \<open>Message groups\<close>

record 'a frame =
  fr_ts :: int
  fr_tsDevice :: int
  fr_seq :: int
  fr_payload :: 'a

record 'a message_group =
  mg_group :: "(string \<times> 'a frame option) list"
  mg_ts :: int
  mg_tsDevice :: int
  mg_seq :: int

definition empty_group :: "'a message_group" where
  "empty_group = \<lparr>mg_group = [], mg_ts = 0, mg_tsDevice = 0, mg_seq = 0\<rparr>"

definition group_at :: "string \<Rightarrow> 'a message_group \<Rightarrow> 'a frame option result" where
  "group_at n g = (case map_of (mg_group g) n of
     None \<Rightarrow> Inl (OutOfRange ''map::at'') | Some f \<Rightarrow> Inr f)"

text \<open>\<open>get\<close> uses the map's \<open>operator[]\<close>, which inserts a null pointer for a new name.\<close>

definition group_get :: "string \<Rightarrow> 'a message_group \<Rightarrow> 'a message_group \<times> 'a frame option" where
  "group_get n g = (case map_of (mg_group g) n of
     None \<Rightarrow> (g\<lparr>mg_group := smap_upd n None (mg_group g)\<rparr>, None) | Some f \<Rightarrow> (g, f))"

definition group_add :: "string \<Rightarrow> 'a frame option \<Rightarrow> 'a message_group \<Rightarrow> 'a message_group" where
  "group_add n f g = g\<lparr>mg_group := smap_upd n f (mg_group g)\<rparr>"

definition getNumMessages :: "'a message_group \<Rightarrow> int" where
  "getNumMessages g = int (length (mg_group g))"

definition getMessageNames :: "'a message_group \<Rightarrow> string list" where
  "getMessageNames g = map fst (mg_group g)"

text \<open>A null member is dereferenced.\<close>

definition getIntervalNs :: "'a message_group \<Rightarrow> int result" where
  "getIntervalNs g =
     (if mg_group g = [] then Inr 0
      else if None \<in> snd ` set (mg_group g) then Inl (UndefinedBehaviour ''null member'')
      else
        let stamps = map (\<lambda>kf. fr_tsDevice (the (snd kf))) (mg_group g);
            oldest = foldl (\<lambda>o' t. if t < o' then t else o') (hd stamps) stamps;
            latest = foldl (\<lambda>l t. if l < t then t else l) (hd stamps) stamps
        in Inr (latest - oldest))"

definition isSynced :: "int \<Rightarrow> 'a message_group \<Rightarrow> bool result" where
  "isSynced thresholdNs g = bindR (getIntervalNs g) (\<lambda>i. Inr (i \<le> thresholdNs))"

section \<open>The Sync node\<close>

type_synonym 'a inputs = "string \<Rightarrow> 'a frame option list"
type_synonym 'a frames = "string \<Rightarrow> 'a frame option"

datatype 's outcome_of_round = Waits | Throws cpp_error | Done 's

text \<open>The first message of every input.\<close>

fun receive_all :: "string list \<Rightarrow> 'a inputs \<Rightarrow> 'a frames \<Rightarrow> ('a inputs \<times> 'a frames) outcome_of_round" where
  "receive_all [] ins fs = Done (ins, fs)"
| "receive_all (n # ns) ins fs =
     (case ins n of
        [] \<Rightarrow> Waits
      | None # r \<Rightarrow> Throws (RuntimeError (''Received nullptr from input '' @ n))
      | Some f # r \<Rightarrow> receive_all ns (ins(n := r)) (fs(n := Some f)))"

definition timestamp :: "'a frames \<Rightarrow> string \<Rightarrow> int" where
  "timestamp fs n = fr_ts (the (fs n))"

definition minTs :: "string list \<Rightarrow> 'a frames \<Rightarrow> int" where
  "minTs order fs =
     foldl (\<lambda>m n. if timestamp fs n < m then timestamp fs n else m) (timestamp fs (hd order)) order"

definition maxTs :: "string list \<Rightarrow> 'a frames \<Rightarrow> int" where
  "maxTs order fs =
     foldl (\<lambda>m n. if m < timestamp fs n then timestamp fs n else m) (timestamp fs (hd order)) order"

lemma find_SomeD: "List.find P xs = Some x \<Longrightarrow> x \<in> set xs \<and> P x"
  by (auto simp: find_Some_iff)

lemma sum_list_shrinks:
  assumes "n \<in> set ns" and "ins n = x # r"
  shows "sum_list (map (\<lambda>m. length ((ins(n := r)) m)) ns) < sum_list (map (\<lambda>m. length (ins m)) ns)"
  using assms
proof (induction ns)
  case (Cons a ns)
  have le: "sum_list (map (\<lambda>m. length ((ins(n := r)) m)) ns) \<le> sum_list (map (\<lambda>m. length (ins m)) ns)"
    by (rule sum_list_mono) (simp add: Cons.prems(2))
  show ?case
  proof (cases "a = n")
    case True
    with Cons.prems(2) le show ?thesis by simp
  next
    case False
    with Cons show ?thesis by auto
  qed
qed simp

text \<open>
  The loop that replaces the oldest frame. A replacement that is no \<open>Buffer\<close> is dereferenced in
  the next round of the loop or when the group is built.
\<close>

function sync_loop ::
    "string list \<Rightarrow> int \<Rightarrow> int \<Rightarrow> 'a inputs \<Rightarrow> 'a frames \<Rightarrow> int \<Rightarrow> ('a inputs \<times> 'a frames) outcome_of_round" where
  "sync_loop order syncAttempts syncThresholdNs ins fs attempts =
     (if attempts > syncAttempts \<and> syncAttempts \<noteq> -1 then Done (ins, fs)
      else if maxTs order fs - minTs order fs < syncThresholdNs then Done (ins, fs)
      else
        case List.find (\<lambda>n. timestamp fs n = minTs order fs) order of
          None \<Rightarrow> Throws (UndefinedBehaviour ''no oldest frame'')
        | Some n \<Rightarrow>
            (case ins n of
               [] \<Rightarrow> Waits
             | None # r \<Rightarrow> Throws (UndefinedBehaviour ''null frame'')
             | Some f # r \<Rightarrow>
                 sync_loop order syncAttempts syncThresholdNs (ins(n := r)) (fs(n := Some f)) (attempts + 1)))"
  by pat_completeness auto

termination
  by (relation "measure (\<lambda>(order, a, t, ins, fs, k). sum_list (map (\<lambda>m. length (ins m)) order))")
    (auto simp del: fun_upd_apply intro!: sum_list_shrinks dest: find_SomeD)

declare sync_loop.simps [simp del]

text \<open>The group of a round: the newest frame is the first one with the latest timestamp.\<close>

definition newest :: "string list \<Rightarrow> string list \<Rightarrow> 'a frames \<Rightarrow> string" where
  "newest inputNames order fs =
     foldl (\<lambda>b n. if timestamp fs b < timestamp fs n then n else b) (hd order) inputNames"

definition build_group :: "string list \<Rightarrow> string list \<Rightarrow> 'a frames \<Rightarrow> 'a message_group" where
  "build_group inputNames order fs =
     (let g = fold (\<lambda>n. group_add n (fs n)) inputNames empty_group;
          f = the (fs (newest inputNames order fs))
      in g\<lparr>mg_ts := fr_ts f, mg_tsDevice := fr_tsDevice f, mg_seq := fr_seq f\<rparr>)"

definition sync_round ::
    "string list \<Rightarrow> string list \<Rightarrow> int \<Rightarrow> int \<Rightarrow> 'a inputs \<Rightarrow> ('a inputs \<times> 'a message_group) outcome_of_round" where
  "sync_round inputNames order syncAttempts syncThresholdNs ins =
     (if inputNames = [] then Throws (RuntimeError ''Sync node must have at least 1 input!'')
      else
        case receive_all inputNames ins (\<lambda>_. None) of
          Waits \<Rightarrow> Waits
        | Throws e \<Rightarrow> Throws e
        | Done (ins', fs) \<Rightarrow>
            (case sync_loop order syncAttempts syncThresholdNs ins' fs 0 of
               Waits \<Rightarrow> Waits
             | Throws e \<Rightarrow> Throws e
             | Done (ins'', fs') \<Rightarrow> Done (ins'', build_group inputNames order fs')))"

section \<open>The demultiplexer\<close>

text \<open>
  One round of \<open>MessageDemux::run\<close>: the messages handed to the named outputs, in the order of
  the output map, and the group afterwards, to which the lookups have added the missing names.
\<close>

fun demux :: "string list \<Rightarrow> 'a message_group \<Rightarrow> (string \<times> 'a frame) list \<times> 'a message_group" where
  "demux [] g = ([], g)"
| "demux (n # ns) g =
     (case group_get n g of
        (g', None) \<Rightarrow> demux ns g'
      | (g', Some f) \<Rightarrow> (case demux ns g' of (sent, g'') \<Rightarrow> ((n, f) # sent, g'')))"

section \<open>Extreme timestamps\<close>

lemma fold_min:
  fixes f :: "'b \<Rightarrow> int"
  shows "foldl (\<lambda>m n. if f n < m then f n else m) a xs = Min (insert a (f ` set xs))"
proof (induction xs arbitrary: a)
  case (Cons x xs)
  have "foldl (\<lambda>m n. if f n < m then f n else m) a (x # xs) = Min (insert (min a (f x)) (f ` set xs))"
    by (simp add: Cons min_def)
  also have "\<dots> = Min (insert a (f ` set (x # xs)))"
    by (cases xs) (simp_all add: min.assoc)
  finally show ?case .
qed simp

lemma fold_max:
  fixes f :: "'b \<Rightarrow> int"
  shows "foldl (\<lambda>m n. if m < f n then f n else m) a xs = Max (insert a (f ` set xs))"
proof (induction xs arbitrary: a)
  case (Cons x xs)
  have "foldl (\<lambda>m n. if m < f n then f n else m) a (x # xs) = Max (insert (max a (f x)) (f ` set xs))"
    by (simp add: Cons max_def)
  also have "\<dots> = Max (insert a (f ` set (x # xs)))"
    by (cases xs) (simp_all add: max.assoc)
  finally show ?case .
qed simp

lemma fold_extremes:
  fixes ts :: "int list"
  assumes "ts \<noteq> []"
  shows "foldl (\<lambda>o' t. if t < o' then t else o') (hd ts) ts = Min (set ts)"
    and "foldl (\<lambda>l t. if l < t then t else l) (hd ts) ts = Max (set ts)"
  using fold_min [of "\<lambda>t. t" "hd ts" ts] fold_max [of "\<lambda>t. t" "hd ts" ts] assms
  by (simp_all add: insert_absorb)

lemma minTs_eq: "order \<noteq> [] \<Longrightarrow> minTs order fs = Min (timestamp fs ` set order)"
  by (simp add: minTs_def fold_min insert_absorb)

lemma maxTs_eq: "order \<noteq> [] \<Longrightarrow> maxTs order fs = Max (timestamp fs ` set order)"
  by (simp add: maxTs_def fold_max insert_absorb)

lemma oldest_exists:
  assumes "order \<noteq> []"
  obtains n where "List.find (\<lambda>n. timestamp fs n = minTs order fs) order = Some n"
    "n \<in> set order" "timestamp fs n = minTs order fs"
proof -
  have "minTs order fs \<in> timestamp fs ` set order" using assms by (simp add: minTs_eq)
  then obtain m where "m \<in> set order" "timestamp fs m = minTs order fs" by auto
  then obtain n where "List.find (\<lambda>n. timestamp fs n = minTs order fs) order = Some n"
    by (cases "List.find (\<lambda>n. timestamp fs n = minTs order fs) order") (auto simp: find_None_iff)
  with that find_SomeD show ?thesis by fastforce
qed

section \<open>What a round finds\<close>

text \<open>
  The messages of the inputs at the start of a round, by position. A choice of one position per
  input is in sync when any two of its frames are less than the threshold apart.
\<close>

definition at_position :: "'a inputs \<Rightarrow> string \<Rightarrow> nat \<Rightarrow> 'a frame" where
  "at_position ins n i = the (ins n ! i)"

definition in_sync :: "string list \<Rightarrow> int \<Rightarrow> 'a inputs \<Rightarrow> (string \<Rightarrow> nat) \<Rightarrow> bool" where
  "in_sync names thr ins i \<longleftrightarrow>
     (\<forall>n \<in> set names. i n < length (ins n)) \<and>
     (\<forall>n \<in> set names. \<forall>m \<in> set names.
        fr_ts (at_position ins n (i n)) - fr_ts (at_position ins m (i m)) < thr)"

definition proper_inputs :: "string list \<Rightarrow> 'a inputs \<Rightarrow> bool" where
  "proper_inputs names ins \<longleftrightarrow>
     (\<forall>n \<in> set names. None \<notin> set (ins n) \<and> sorted (map (\<lambda>f. fr_ts (the f)) (ins n)))"

text \<open>The state of the loop after every input has been read up to and including a position.\<close>

definition read_up_to ::
    "string list \<Rightarrow> 'a inputs \<Rightarrow> (string \<Rightarrow> nat) \<Rightarrow> 'a inputs \<Rightarrow> 'a frames \<Rightarrow> bool" where
  "read_up_to names ins0 i ins fs \<longleftrightarrow>
     (\<forall>n \<in> set names. i n < length (ins0 n) \<and> ins n = drop (Suc (i n)) (ins0 n) \<and> fs n = ins0 n ! i n)"

lemma proper_nth:
  assumes "proper_inputs names ins" and "n \<in> set names" and "i < length (ins n)"
  shows "ins n ! i = Some (at_position ins n i)"
  using assms nth_mem [OF assms(3)]
  by (cases "ins n ! i") (auto simp: proper_inputs_def at_position_def)

lemma proper_mono:
  assumes "proper_inputs names ins" and "n \<in> set names" and "i \<le> j" and "j < length (ins n)"
  shows "fr_ts (at_position ins n i) \<le> fr_ts (at_position ins n j)"
proof -
  have "sorted (map (\<lambda>f. fr_ts (the f)) (ins n))" using assms(1,2) by (simp add: proper_inputs_def)
  from sorted_nth_mono [OF this assms(3)] assms(3,4) show ?thesis by (simp add: at_position_def)
qed

lemma read_up_to_ts:
  "proper_inputs names ins0 \<Longrightarrow> read_up_to names ins0 i ins fs \<Longrightarrow> n \<in> set names \<Longrightarrow>
     timestamp fs n = fr_ts (at_position ins0 n (i n)) \<and> fs n = Some (at_position ins0 n (i n))"
  using proper_nth [of names ins0 n "i n"] by (simp add: read_up_to_def timestamp_def)

text \<open>
  Dropping the oldest frame loses nothing: no choice in sync that lies at or after the current
  frames can use it.
\<close>

lemma oldest_is_useless:
  assumes proper: "proper_inputs names ins0" and state: "read_up_to names ins0 i ins fs"
    and order: "set order = set names" "order \<noteq> []"
    and n: "n \<in> set order" "timestamp fs n = minTs order fs"
    and spread: "\<not> maxTs order fs - minTs order fs < thr"
    and j: "in_sync names thr ins0 j" "\<forall>m \<in> set names. i m \<le> j m"
  shows "i n < j n"
proof (rule ccontr)
  assume "\<not> i n < j n"
  then have jn: "j n = i n" using j(2) n(1) order(1) by fastforce
  have "maxTs order fs \<in> timestamp fs ` set order" using order(2) by (simp add: maxTs_eq)
  then obtain k where k: "k \<in> set names" "timestamp fs k = maxTs order fs" using order(1) by auto
  have "fr_ts (at_position ins0 k (i k)) \<le> fr_ts (at_position ins0 k (j k))"
    using proper k(1) j by (intro proper_mono) (auto simp: in_sync_def)
  moreover have "fr_ts (at_position ins0 k (j k)) - fr_ts (at_position ins0 n (j n)) < thr"
    using j(1) k(1) n(1) order(1) by (simp add: in_sync_def)
  moreover have "fr_ts (at_position ins0 k (i k)) = maxTs order fs"
    using read_up_to_ts [OF proper state k(1)] k(2) by simp
  moreover have "fr_ts (at_position ins0 n (i n)) = minTs order fs"
    using read_up_to_ts [OF proper state, of n] n order(1) by simp
  ultimately show False using spread jn by simp
qed

lemma read_up_to_step:
  assumes proper: "proper_inputs names ins0" and state: "read_up_to names ins0 i ins fs"
    and n: "n \<in> set names" and more: "ins n = x # r"
  shows "x = Some (at_position ins0 n (Suc (i n)))"
    and "read_up_to names ins0 (i(n := Suc (i n))) (ins(n := r)) (fs(n := x))"
proof -
  have d: "drop (Suc (i n)) (ins0 n) = x # r" using state n more by (simp add: read_up_to_def)
  then have len: "Suc (i n) < length (ins0 n)" by (metis drop_all list.distinct(1) not_le)
  then have "x = ins0 n ! Suc (i n)" using d by (metis Cons_nth_drop_Suc list.inject)
  moreover have "r = drop (Suc (Suc (i n))) (ins0 n)" using d len by (metis Cons_nth_drop_Suc list.inject)
  ultimately show "x = Some (at_position ins0 n (Suc (i n)))"
    "read_up_to names ins0 (i(n := Suc (i n))) (ins(n := r)) (fs(n := x))"
    using proper_nth [OF proper n len] state len by (auto simp: read_up_to_def)
qed

lemma read_up_to_empty:
  "read_up_to names ins0 i ins fs \<Longrightarrow> n \<in> set names \<Longrightarrow> ins n = [] \<Longrightarrow> length (ins0 n) = Suc (i n)"
  by (auto simp: read_up_to_def)

definition least_in_sync :: "string list \<Rightarrow> int \<Rightarrow> 'a inputs \<Rightarrow> (string \<Rightarrow> nat) \<Rightarrow> bool" where
  "least_in_sync names thr ins i \<longleftrightarrow>
     in_sync names thr ins i \<and> (\<forall>j. in_sync names thr ins j \<longrightarrow> (\<forall>m \<in> set names. i m \<le> j m))"

lemma spread_in_sync:
  assumes proper: "proper_inputs names ins0" and state: "read_up_to names ins0 i ins fs"
    and order: "set order = set names" "order \<noteq> []"
    and spread: "maxTs order fs - minTs order fs < thr"
  shows "in_sync names thr ins0 i"
  unfolding in_sync_def
proof (intro conjI ballI)
  fix n m assume nm: "n \<in> set names" "m \<in> set names"
  have "timestamp fs n \<le> maxTs order fs" "minTs order fs \<le> timestamp fs m"
    using nm order by (simp_all add: maxTs_eq minTs_eq)
  then show "fr_ts (at_position ins0 n (i n)) - fr_ts (at_position ins0 m (i m)) < thr"
    using spread read_up_to_ts [OF proper state nm(1)] read_up_to_ts [OF proper state nm(2)] by simp
next
  fix n assume "n \<in> set names"
  then show "i n < length (ins0 n)" using state by (simp add: read_up_to_def)
qed

lemma sync_loop_finds:
  assumes "proper_inputs names ins0" and "set order = set names" and "order \<noteq> []"
    and "read_up_to names ins0 i ins fs"
    and "\<forall>j. in_sync names thr ins0 j \<longrightarrow> (\<forall>m \<in> set names. i m \<le> j m)"
  shows "case sync_loop order (-1) thr ins fs k of
      Waits \<Rightarrow> \<nexists>j. in_sync names thr ins0 j
    | Throws e \<Rightarrow> False
    | Done (ins', fs') \<Rightarrow> \<exists>i'. read_up_to names ins0 i' ins' fs' \<and> least_in_sync names thr ins0 i'"
  using assms
proof (induction order "-1::int" thr ins fs k arbitrary: i rule: sync_loop.induct)
  case (1 order thr ins fs k)
  note proper = 1(2) and order = 1(3,4) and state = 1(5) and least = 1(6)
  show ?case
  proof (cases "maxTs order fs - minTs order fs < thr")
    case True
    then show ?thesis
      using state least spread_in_sync [OF proper state order True]
      by (subst sync_loop.simps) (auto simp: least_in_sync_def)
  next
    case False
    obtain n where n: "List.find (\<lambda>n. timestamp fs n = minTs order fs) order = Some n"
      "n \<in> set order" "timestamp fs n = minTs order fs"
      using oldest_exists [OF order(2)] by blast
    have later: "i n < j n" if "in_sync names thr ins0 j" for j
      using oldest_is_useless [OF proper state order n(2,3) False that] least that by blast
    have names: "n \<in> set names" using n(2) order(1) by simp
    show ?thesis
    proof (cases "ins n")
      case Nil
      have "\<not> in_sync names thr ins0 j" for j
      proof
        assume j: "in_sync names thr ins0 j"
        then have "j n < length (ins0 n)" using names by (simp add: in_sync_def)
        with later [OF j] read_up_to_empty [OF state names Nil] show False by simp
      qed
      then show ?thesis using False n Nil by (subst sync_loop.simps) simp
    next
      case (Cons x r)
      note step = read_up_to_step [OF proper state names Cons]
      obtain f where f: "x = Some f" using step(1) by simp
      have "\<forall>j. in_sync names thr ins0 j \<longrightarrow> (\<forall>m \<in> set names. (i(n := Suc (i n))) m \<le> j m)"
        using least later by (auto simp: Suc_le_eq)
      then have "case sync_loop order (-1) thr (ins(n := r)) (fs(n := Some f)) (k + 1) of
          Waits \<Rightarrow> \<nexists>j. in_sync names thr ins0 j
        | Throws e \<Rightarrow> False
        | Done (ins', fs') \<Rightarrow> \<exists>i'. read_up_to names ins0 i' ins' fs' \<and> least_in_sync names thr ins0 i'"
        using 1(1) [OF _ False n(1) Cons f proper order, of "i(n := Suc (i n))"] step(2) f by simp
      then show ?thesis using False n Cons f by (subst sync_loop.simps) simp
    qed
  qed
qed

lemma receive_all_reads:
  assumes "proper_inputs (done @ ns) ins0" and "distinct (done @ ns)"
    and "\<forall>n \<in> set done. ins0 n \<noteq> [] \<and> ins n = drop 1 (ins0 n) \<and> fs n = ins0 n ! 0"
    and "\<forall>n \<in> set ns. ins n = ins0 n"
  shows "case receive_all ns ins fs of
      Waits \<Rightarrow> \<exists>n \<in> set ns. ins0 n = []
    | Throws e \<Rightarrow> False
    | Done (ins', fs') \<Rightarrow> read_up_to (done @ ns) ins0 (\<lambda>_. 0) ins' fs'"
  using assms
proof (induction ns arbitrary: "done" ins fs)
  case Nil
  then show ?case by (simp add: read_up_to_def)
next
  case (Cons n ns)
  show ?case
  proof (cases "ins0 n")
    case Nil
    then show ?thesis using Cons.prems(4) by simp
  next
    case (Cons x r)
    have "x = Some (at_position ins0 n 0)"
      using proper_nth [OF Cons.prems(1), of n 0] Cons by simp
    moreover have "case receive_all ns (ins(n := r)) (fs(n := x)) of
        Waits \<Rightarrow> \<exists>n \<in> set ns. ins0 n = []
      | Throws e \<Rightarrow> False
      | Done (ins', fs') \<Rightarrow> read_up_to ((done @ [n]) @ ns) ins0 (\<lambda>_. 0) ins' fs'"
      using Cons.prems Cons by (intro Cons.IH) auto
    ultimately show ?thesis using Cons Cons.prems(4)
      by (auto split: outcome_of_round.splits)
  qed
qed

section \<open>Groups\<close>

lemma fold_group_add:
  assumes "smap_ok (mg_group g)"
  shows "smap_ok (mg_group (fold (\<lambda>n. group_add n (fs n)) ns g)) \<and>
    map_of (mg_group (fold (\<lambda>n. group_add n (fs n)) ns g)) =
      (\<lambda>n. if n \<in> set ns then Some (fs n) else map_of (mg_group g) n)"
  using assms
  by (induction ns arbitrary: g) (auto simp: group_add_def smap_ok_upd map_of_smap_upd fun_eq_iff)

lemma build_group_entries:
  fixes fs :: "'a frames"
  shows "map_of (mg_group (build_group names order fs)) = (\<lambda>n. if n \<in> set names then Some (fs n) else None)"
    and "smap_ok (mg_group (build_group names order fs))"
proof -
  have e: "smap_ok (mg_group (empty_group :: 'a message_group))" "mg_group (empty_group :: 'a message_group) = []"
    by (simp_all add: empty_group_def smap_ok_def)
  show "map_of (mg_group (build_group names order fs)) = (\<lambda>n. if n \<in> set names then Some (fs n) else None)"
    "smap_ok (mg_group (build_group names order fs))"
    using fold_group_add [OF e(1), of fs names] by (simp_all add: build_group_def Let_def e(2) cong: if_cong)
qed

lemma foldl_newest:
  fixes g :: "'b \<Rightarrow> int"
  defines "r \<equiv> \<lambda>a ns. foldl (\<lambda>b n. if g b < g n then n else b) a ns"
  shows "r a ns \<in> insert a (set ns) \<and> (\<forall>n \<in> insert a (set ns). g n \<le> g (r a ns))"
proof (induction ns arbitrary: a)
  case (Cons x xs)
  have r: "r a (x # xs) = r (if g a < g x then x else a) xs" by (simp add: r_def)
  show ?case unfolding r using Cons [of x] Cons [of a] by (cases "g a < g x") auto
qed (simp add: r_def)

lemma newest_latest:
  assumes "set order = set names" and "names \<noteq> []"
  shows "newest names order fs \<in> set names \<and> (\<forall>n \<in> set names. timestamp fs n \<le> timestamp fs (newest names order fs))"
proof -
  have "hd order \<in> set names" using assms by (metis hd_in_set set_empty)
  then show ?thesis
    using foldl_newest [of "timestamp fs" "hd order" names] by (simp add: newest_def Let_def insert_absorb)
qed

section \<open>Rounds\<close>

lemma group_of_round:
  assumes names: "names \<noteq> []" "set order = set names"
    and inputs: "proper_inputs names ins" and i: "read_up_to names ins i ins' fs"
  defines "g \<equiv> build_group names order fs"
  shows "map_of (mg_group g) = (\<lambda>n. if n \<in> set names then Some (Some (at_position ins n (i n))) else None) \<and>
    (\<exists>n \<in> set names. mg_ts g = fr_ts (at_position ins n (i n)) \<and>
       mg_tsDevice g = fr_tsDevice (at_position ins n (i n)) \<and>
       mg_seq g = fr_seq (at_position ins n (i n))) \<and>
    (\<forall>n \<in> set names. fr_ts (at_position ins n (i n)) \<le> mg_ts g)"
proof -
  note ts = read_up_to_ts [OF inputs i]
  define b where "b = newest names order fs"
  have b: "b \<in> set names" "\<forall>n \<in> set names. timestamp fs n \<le> timestamp fs b"
    using newest_latest [OF names(2,1), of fs] by (simp_all add: b_def)
  have g: "mg_ts g = fr_ts (at_position ins b (i b))" "mg_tsDevice g = fr_tsDevice (at_position ins b (i b))"
    "mg_seq g = fr_seq (at_position ins b (i b))"
    using ts [OF b(1)] by (simp_all add: g_def build_group_def Let_def b_def)
  have "map_of (mg_group g) = (\<lambda>n. if n \<in> set names then Some (Some (at_position ins n (i n))) else None)"
    using ts by (auto simp: g_def build_group_entries fun_eq_iff)
  moreover have "\<forall>n \<in> set names. fr_ts (at_position ins n (i n)) \<le> mg_ts g"
    using b ts g(1) by simp
  ultimately show ?thesis using b(1) g by auto
qed

text \<open>
  C5. With unlimited attempts and inputs whose timestamps do not decrease, a round of the Sync node
  sends the earliest group in sync: if some choice of one frame per input is in sync, the round
  sends one, it is at or before every other such choice on every input, and what stays on the
  inputs is what follows it. If no choice is in sync the round waits, having dropped nothing that
  could be used. The group maps each input to its frame and carries the latest timestamp, with the
  device timestamp and the sequence number of that frame.
\<close>

theorem sync_sends_earliest_group:
  assumes names: "names \<noteq> []" "distinct names" "set order = set names"
    and inputs: "proper_inputs names ins"
  shows "case sync_round names order (-1) thr ins of
      Waits \<Rightarrow> \<nexists>i. in_sync names thr ins i
    | Throws e \<Rightarrow> False
    | Done (ins', g) \<Rightarrow>
        \<exists>i. least_in_sync names thr ins i \<and>
            (\<forall>n \<in> set names. ins' n = drop (Suc (i n)) (ins n)) \<and>
            map_of (mg_group g) = (\<lambda>n. if n \<in> set names then Some (Some (at_position ins n (i n))) else None) \<and>
            (\<exists>n \<in> set names. mg_ts g = fr_ts (at_position ins n (i n)) \<and>
               mg_tsDevice g = fr_tsDevice (at_position ins n (i n)) \<and>
               mg_seq g = fr_seq (at_position ins n (i n))) \<and>
            (\<forall>n \<in> set names. fr_ts (at_position ins n (i n)) \<le> mg_ts g)"
proof -
  have order: "order \<noteq> []" using names by auto
  have first: "case receive_all names ins (\<lambda>_. None) of
      Waits \<Rightarrow> \<exists>n \<in> set names. ins n = []
    | Throws e \<Rightarrow> False
    | Done (ins', fs') \<Rightarrow> read_up_to names ins (\<lambda>_. 0) ins' fs'"
    using receive_all_reads [of "[]" names ins ins "\<lambda>_. None", unfolded append_Nil] inputs names(2) by simp
  show ?thesis
  proof (cases "receive_all names ins (\<lambda>_. None)")
    case Waits
    then obtain n where "n \<in> set names" "ins n = []" using first by auto
    then have "\<not> in_sync names thr ins i" for i by (force simp: in_sync_def)
    with Waits names(1) show ?thesis by (simp add: sync_round_def)
  next
    case (Throws e)
    with first show ?thesis by simp
  next
    case (Done p)
    obtain ins1 fs1 where p: "p = (ins1, fs1)" by (cases p)
    have loop: "case sync_loop order (-1) thr ins1 fs1 0 of
        Waits \<Rightarrow> \<nexists>j. in_sync names thr ins j
      | Throws e \<Rightarrow> False
      | Done (ins', fs') \<Rightarrow> \<exists>i. read_up_to names ins i ins' fs' \<and> least_in_sync names thr ins i"
      using first Done p by (intro sync_loop_finds [OF inputs names(3) order, where i = "\<lambda>_. 0"]) simp_all
    show ?thesis
    proof (cases "sync_loop order (-1) thr ins1 fs1 0")
      case Waits
      with loop Done p names(1) show ?thesis by (simp add: sync_round_def)
    next
      case (Throws e)
      with loop show ?thesis by simp
    next
      case d: (Done q)
      obtain ins2 fs2 where q: "q = (ins2, fs2)" by (cases q)
      obtain i where i: "read_up_to names ins i ins2 fs2" "least_in_sync names thr ins i"
        using loop d q by auto
      show ?thesis
        using group_of_round [OF names(1,3) inputs i(1)] i Done p d q names(1)
        by (auto simp: sync_round_def read_up_to_def)
    qed
  qed
qed

definition waiting_frames :: "string list \<Rightarrow> 'a inputs \<Rightarrow> nat" where
  "waiting_frames names ins = (\<Sum>n \<in> set names. length (ins n))"

lemma waiting_frames_take:
  assumes "n \<in> set names" and "ins n = x # r"
  shows "waiting_frames names ins = Suc (waiting_frames names (ins(n := r)))"
proof -
  have "(\<Sum>m \<in> set names - {n}. length ((ins(n := r)) m)) = (\<Sum>m \<in> set names - {n}. length (ins m))"
    by (rule sum.cong) simp_all
  then show ?thesis
    using assms by (simp add: waiting_frames_def sum.remove [of "set names" n])
qed

lemma sync_loop_replaces:
  assumes "set order = set names" and "sync_loop order a thr ins fs k = Done (ins', fs')"
    and "a \<noteq> -1" and "k \<le> a + 1"
  shows "\<exists>r. waiting_frames names ins = waiting_frames names ins' + r \<and> k + int r \<le> a + 1 \<and>
    (k + int r = a + 1 \<or> maxTs order fs' - minTs order fs' < thr)"
  using assms
proof (induction order a thr ins fs k rule: sync_loop.induct)
  case (1 order a thr ins fs k)
  show ?case
  proof (cases "k > a \<or> maxTs order fs - minTs order fs < thr")
    case True
    then have "ins' = ins \<and> fs' = fs" using 1(3,4) by (subst (asm) sync_loop.simps) (auto split: if_splits)
    moreover have "k = a + 1 \<or> maxTs order fs - minTs order fs < thr" using True 1(5) by auto
    ultimately show ?thesis using 1(5) by (intro exI [of _ 0]) simp
  next
    case False
    then obtain n f r where n: "List.find (\<lambda>n. timestamp fs n = minTs order fs) order = Some n"
        "ins n = Some f # r"
      and rec: "sync_loop order a thr (ins(n := r)) (fs(n := Some f)) (k + 1) = Done (ins', fs')"
      using 1(3) by (subst (asm) sync_loop.simps) (auto split: option.splits list.splits)
    have "n \<in> set names" using find_SomeD [OF n(1)] 1(2) by simp
    note take = waiting_frames_take [of n names ins, OF this n(2)]
    obtain q where q: "waiting_frames names (ins(n := r)) = waiting_frames names ins' + q"
      "k + 1 + int q \<le> a + 1" "k + 1 + int q = a + 1 \<or> maxTs order fs' - minTs order fs' < thr"
      using 1(1) [OF _ _ n refl 1(2) rec 1(4)] False
      by (auto simp del: fun_upd_apply)
    then show ?thesis using take by (intro exI [of _ "Suc q"]) auto
  qed
qed

lemma receive_all_takes:
  assumes "receive_all ns ins fs = Done (ins', fs')" and "distinct ns" and "set ns \<subseteq> set names"
  shows "waiting_frames names ins = waiting_frames names ins' + length ns"
  using assms
proof (induction ns arbitrary: ins fs)
  case (Cons n ns)
  then obtain f r where r: "ins n = Some f # r" "receive_all ns (ins(n := r)) (fs(n := Some f)) = Done (ins', fs')"
    by (auto split: list.splits option.splits)
  with Cons waiting_frames_take [of n names ins] show ?case by fastforce
qed simp

text \<open>
  A round with a bound on the attempts takes one frame from every input and then replaces
  the oldest one at most one time more than the bound says; it stops earlier only with a group in
  sync. In particular a bound of zero still replaces a frame of a group that is not in sync.
\<close>

theorem sync_attempts_bound:
  assumes "names \<noteq> []" "distinct names" "set order = set names" "0 \<le> syncAttempts"
    and "sync_round names order syncAttempts thr ins = Done (ins', g)"
  shows "\<exists>r. waiting_frames names ins = waiting_frames names ins' + length names + r \<and>
    int r \<le> syncAttempts + 1 \<and>
    (int r = syncAttempts + 1 \<or>
     (\<forall>n \<in> set names. \<forall>m \<in> set names.
        fr_ts (the (the (map_of (mg_group g) n))) - fr_ts (the (the (map_of (mg_group g) m))) < thr))"
proof -
  have order: "order \<noteq> []" using assms(1,3) by auto
  obtain ins1 fs1 fs2 where r: "receive_all names ins (\<lambda>_. None) = Done (ins1, fs1)"
    and l: "sync_loop order syncAttempts thr ins1 fs1 0 = Done (ins', fs2)"
    and g: "g = build_group names order fs2"
    using assms(1,5) by (auto simp: sync_round_def split: outcome_of_round.splits)
  obtain k where k: "waiting_frames names ins1 = waiting_frames names ins' + k" "int k \<le> syncAttempts + 1"
    "int k = syncAttempts + 1 \<or> maxTs order fs2 - minTs order fs2 < thr"
    using sync_loop_replaces [OF assms(3) l] assms(4) by auto
  have "timestamp fs2 n - timestamp fs2 m < thr"
    if "maxTs order fs2 - minTs order fs2 < thr" "n \<in> set names" "m \<in> set names" for n m
  proof -
    have "timestamp fs2 n \<le> maxTs order fs2" "minTs order fs2 \<le> timestamp fs2 m"
      using that(2,3) assms(3) order by (simp_all add: maxTs_eq minTs_eq)
    with that(1) show ?thesis by simp
  qed
  then show ?thesis
    using k receive_all_takes [OF r assms(2), of names]
    by (intro exI [of _ k]) (auto simp: g build_group_entries timestamp_def)
qed

definition stamp :: "int \<Rightarrow> unit frame" where
  "stamp t = \<lparr>fr_ts = t, fr_tsDevice = t, fr_seq = 0, fr_payload = ()\<rparr>"

definition two_cameras :: "unit inputs" where
  "two_cameras = (\<lambda>_. [])(''a'' := map (Some \<circ> stamp) [0, 100, 210], ''b'' := map (Some \<circ> stamp) [105, 200])"

lemma two_cameras_proper: "proper_inputs [''a'', ''b''] two_cameras"
  by (auto simp: proper_inputs_def two_cameras_def stamp_def)

theorem sync_sends_earliest_group_witness:
  "\<exists>ins' g. sync_round [''a'', ''b''] [''b'', ''a''] (-1) 10 two_cameras = Done (ins', g) \<and>
     map_of (mg_group g) ''a'' = Some (Some (stamp 100)) \<and> map_of (mg_group g) ''b'' = Some (Some (stamp 105))"
proof -
  let ?i = "\<lambda>n. if n = ''a'' then 1 else (0::nat)"
  have sync: "in_sync [''a'', ''b''] 10 two_cameras ?i"
    by (simp add: in_sync_def two_cameras_def at_position_def stamp_def)
  have "in_sync [''a'', ''b''] 10 two_cameras j \<Longrightarrow> j ''b'' \<le> 0 \<Longrightarrow> j ''a'' \<le> 1 \<Longrightarrow> j ''a'' = 1 \<and> j ''b'' = 0" for j
    by (cases "j ''a'' = 0") (auto simp: in_sync_def two_cameras_def at_position_def stamp_def)
  then have least: "least_in_sync [''a'', ''b''] 10 two_cameras j \<Longrightarrow> j ''a'' = 1 \<and> j ''b'' = 0" for j
    using sync by (auto simp: least_in_sync_def)
  have names: "[''a'', ''b''] \<noteq> []" "distinct [''a'', ''b'']" "set [''b'', ''a''] = set [''a'', ''b'']"
    by auto
  from sync_sends_earliest_group [OF names two_cameras_proper, of 10] obtain ins' g i where
    "sync_round [''a'', ''b''] [''b'', ''a''] (-1) 10 two_cameras = Done (ins', g)"
    "least_in_sync [''a'', ''b''] 10 two_cameras i"
    "map_of (mg_group g) =
       (\<lambda>n. if n \<in> set [''a'', ''b''] then Some (Some (at_position two_cameras n (i n))) else None)"
    using sync by (auto split: outcome_of_round.splits)
  with least [of i] show ?thesis by (simp add: at_position_def two_cameras_def)
qed

lemma two_cameras_first:
  "sync_round [''a'', ''b''] [''b'', ''a''] 0 10 two_cameras =
    Done (two_cameras(''a'' := [Some (stamp 210)], ''b'' := [Some (stamp 200)]),
          \<lparr>mg_group = [(''a'', Some (stamp 100)), (''b'', Some (stamp 105))], mg_ts = 105, mg_tsDevice = 105, mg_seq = 0\<rparr>)"
  by (simp add: sync_round_def two_cameras_def sync_loop.simps minTs_def maxTs_def timestamp_def stamp_def
      build_group_def newest_def group_add_def empty_group_def Let_def fun_upd_twist)

theorem sync_attempts_bound_witness:
  "\<exists>r. waiting_frames [''a'', ''b''] two_cameras = 4 + r \<and> int r \<le> 1"
proof -
  have "waiting_frames [''a'', ''b''] (two_cameras(''a'' := [Some (stamp 210)], ''b'' := [Some (stamp 200)])) = 2"
    by (simp add: waiting_frames_def)
  then show ?thesis
    using sync_attempts_bound [OF _ _ _ _ two_cameras_first] by auto
qed

section \<open>Taking a group apart\<close>

definition member_of :: "'a message_group \<Rightarrow> string \<Rightarrow> 'a frame option" where
  "member_of g n = (case map_of (mg_group g) n of Some (Some f) \<Rightarrow> Some f | _ \<Rightarrow> None)"

lemma group_get_member:
  assumes "smap_ok (mg_group g)" and "group_get n g = (g', r)"
  shows "r = member_of g n" and "member_of g' = member_of g" and "smap_ok (mg_group g')"
    and "map_of (mg_group g') =
           (if map_of (mg_group g) n = None then (map_of (mg_group g))(n \<mapsto> None) else map_of (mg_group g))"
  using assms
  by (auto simp: group_get_def member_of_def fun_eq_iff smap_ok_upd map_of_smap_upd
      split: option.splits if_splits)

lemma demux_members:
  assumes "smap_ok (mg_group g)"
  shows "fst (demux ns g) = List.map_filter (\<lambda>n. map_option (Pair n) (member_of g n)) ns \<and>
    smap_ok (mg_group (snd (demux ns g))) \<and>
    map_of (mg_group (snd (demux ns g))) =
      (\<lambda>n. if n \<in> set ns \<and> map_of (mg_group g) n = None then Some None else map_of (mg_group g) n)"
  using assms
proof (induction ns arbitrary: g)
  case (Cons n ns)
  obtain g' r where gr: "group_get n g = (g', r)" by (cases "group_get n g")
  note get = group_get_member [OF Cons.prems gr]
  show ?case
    using Cons.IH [OF get(3)] get gr
    by (auto simp: List.map_filter_simps fun_eq_iff split: option.splits prod.splits)
qed (simp add: List.map_filter_simps)

text \<open>
  The demultiplexer inverts the building of a group: of a group built from a frame for each of
  its inputs, every output whose name is one of the inputs gets exactly that frame, in the order of
  the outputs, and the other outputs get nothing. The lookup of those others leaves null members
  behind, so that the group has as many messages more as there were unknown names.
\<close>

theorem demux_inverts_sync:
  fixes fs :: "'a frames" and order :: "string list"
  assumes "\<forall>n \<in> set names. fs n \<noteq> None" and "distinct outputs"
  defines "g \<equiv> build_group names order fs"
  shows "fst (demux outputs g) = map (\<lambda>n. (n, the (fs n))) (filter (\<lambda>n. n \<in> set names) outputs) \<and>
    set (getMessageNames (snd (demux outputs g))) = set names \<union> set outputs \<and>
    getNumMessages g = int (card (set names)) \<and>
    getNumMessages (snd (demux outputs g)) = int (card (set names \<union> set outputs))"
proof -
  note entries = build_group_entries [of names order fs, folded g_def]
  note d = demux_members [OF entries(2), of outputs]
  have m: "member_of g n = (if n \<in> set names then fs n else None)" for n
    by (auto simp: member_of_def entries(1) split: option.splits)
  have sent: "List.map_filter (\<lambda>n. map_option (Pair n) (member_of g n)) ns =
      map (\<lambda>n. (n, the (fs n))) (filter (\<lambda>n. n \<in> set names) ns)" for ns
    using assms(1) by (induction ns) (auto simp: List.map_filter_simps m split: option.splits)
  have keys: "set (map fst (mg_group h)) = dom (map_of (mg_group h))" for h :: "'a message_group"
    by (simp add: dom_map_of_conv_image_fst)
  have count: "smap_ok (mg_group h) \<Longrightarrow> getNumMessages h = int (card (dom (map_of (mg_group h))))" for h :: "'a message_group"
    using smap.length_entries [of "mg_group h"] by (simp add: getNumMessages_def smap.lookup_def)
  have "dom (map_of (mg_group g)) = set names" by (auto simp: entries(1) split: if_splits)
  moreover have "dom (map_of (mg_group (snd (demux outputs g)))) = set names \<union> set outputs"
    using d by (auto simp: entries(1) dom_def split: if_splits)
  ultimately show ?thesis
    using d sent count entries(2) keys by (simp add: getMessageNames_def)
qed

theorem demux_inverts_sync_witness:
  "fst (demux [''b'', ''c'', ''a''] (build_group [''a'', ''b''] [''b'', ''a''] [''a'' \<mapsto> stamp 3, ''b'' \<mapsto> stamp 4])) =
     [(''b'', stamp 4), (''a'', stamp 3)]"
  using demux_inverts_sync [of "[''a'', ''b'']" "[''a'' \<mapsto> stamp 3, ''b'' \<mapsto> stamp 4]" "[''b'', ''c'', ''a'']"
      "[''b'', ''a'']"] by simp

text \<open>A group the node sends is in sync by the test of the group when the clocks agree.\<close>

lemma interval_bound:
  assumes "getIntervalNs g = Inr i" and "mg_group g \<noteq> []"
    and "\<And>n m f h. (n, Some f) \<in> set (mg_group g) \<Longrightarrow> (m, Some h) \<in> set (mg_group g) \<Longrightarrow>
           fr_tsDevice f - fr_tsDevice h < thr"
  shows "i < thr"
proof -
  let ?s = "map (\<lambda>kf. fr_tsDevice (the (snd kf))) (mg_group g)"
  have i: "i = Max (set ?s) - Min (set ?s)" and none: "None \<notin> snd ` set (mg_group g)"
    using assms(1,2) fold_extremes [of ?s]
    by (auto simp: getIntervalNs_def Let_def simp del: set_map split: if_splits)
  have "Max (set ?s) \<in> set ?s" "Min (set ?s) \<in> set ?s" using assms(2) by (intro Max_in Min_in; simp)+
  then obtain a b where "a \<in> set (mg_group g)" "b \<in> set (mg_group g)"
    "Max (set ?s) = fr_tsDevice (the (snd a))" "Min (set ?s) = fr_tsDevice (the (snd b))"
    by auto
  moreover obtain f h where "snd a = Some f" "snd b = Some h"
    using none calculation(1,2) by (metis image_eqI not_None_eq)
  ultimately show ?thesis using assms(3) [of "fst a" f "fst b" h] i by (metis option.sel prod.collapse)
qed

end
