(* ===== verification/GateNode.thy ===== *)
theory GateNode
  imports MessageQueue "HOL-Library.Sublist"
begin

text \<open>
  The \<open>Gate\<close> node (src/pipeline/node/Gate.cpp) over the message queues of \<open>MessageQueue\<close>: the
  commands that open and close it, the two sending loops, the closing after a number of messages
  and the pacing of the sends. One turn of the node is one pass through a loop body of \<open>run\<close>,
  \<open>sendMessages\<close> or \<open>waitForCommand\<close> while \<open>mainLoop\<close> holds; between turns other threads put messages
  on the two inputs. \<open>waitAny\<close> leaves the queues as they are and returns true when an open queue
  has a message (\<open>MessageQueue\<close>).
\<close>

section \<open>Commands and messages\<close>

record gate_control =
  gc_open :: bool
  gc_numMessages :: int
  gc_fps :: int

definition GateControl_default :: gate_control where
  "GateControl_default = \<lparr>gc_open = True, gc_numMessages = -1, gc_fps = -1\<rparr>"

definition openGate :: "int \<Rightarrow> int \<Rightarrow> gate_control" where
  "openGate n fps = \<lparr>gc_open = True, gc_numMessages = n, gc_fps = fps\<rparr>"

definition closeGate :: gate_control where
  "closeGate = \<lparr>gc_open = False, gc_numMessages = -1, gc_fps = -1\<rparr>"

datatype 'm gate_message = Control gate_control | Plain 'm

definition is_control :: "'m gate_message \<Rightarrow> bool" where
  "is_control x = (case x of Control c \<Rightarrow> True | Plain m \<Rightarrow> False)"

definition the_control :: "'m gate_message \<Rightarrow> gate_control" where
  "the_control x = (case x of Control c \<Rightarrow> c | Plain m \<Rightarrow> closeGate)"

section \<open>The node\<close>

text \<open>\<open>currentCommand\<close> is a pointer: the typed \<open>get\<close> may make it null.\<close>

record 'm gate =
  g_command :: "gate_control option"
  g_sentMessages :: int
  g_input :: "(unit, unit, 'm gate_message) mqueue"
  g_inputControl :: "(unit, unit, 'm gate_message) mqueue"
  g_output :: "'m gate_message list"

definition Gate_new :: "gate_control \<Rightarrow> 'm gate" where
  "Gate_new initialConfig =
     \<lparr>g_command = Some initialConfig, g_sentMessages = 0,
      g_input = MessageQueue_new ''input'' 1 False True,
      g_inputControl = MessageQueue_new ''inputControl'' 4 False True,
      g_output = []\<rparr>"

datatype 'm turn = GateWaits | GateFails cpp_error | GateNext "'m gate"

definition set_command :: "gate_control option \<Rightarrow> 'm gate \<Rightarrow> 'm gate" where
  "set_command c g = g\<lparr>g_command := c, g_sentMessages := 0\<rparr>"

definition has_message :: "(unit, unit, 'm gate_message) mqueue \<Rightarrow> bool" where
  "has_message q \<longleftrightarrow> \<not> mq_isClosed q \<and> queue (mq q) \<noteq> []"

text \<open>The common body of the two \<open>sendMessages\<close>.\<close>

definition send_turn :: "'m gate \<Rightarrow> 'm turn" where
  "send_turn g =
     (if \<not> has_message (g_inputControl g) \<and> \<not> has_message (g_input g) then GateWaits
      else
        case mq_tryGet is_control (g_inputControl g) of
          (qc, _, Inl e) \<Rightarrow> GateFails e
        | (qc, _, Inr (Some c)) \<Rightarrow> GateNext (set_command (Some (the_control c)) (g\<lparr>g_inputControl := qc\<rparr>))
        | (qc, _, Inr None) \<Rightarrow>
            (case mq_tryGet (\<lambda>_. True) (g_input g) of
               (q, _, Inl e) \<Rightarrow> GateFails e
             | (q, _, Inr None) \<Rightarrow> GateNext (g\<lparr>g_inputControl := qc, g_input := q\<rparr>)
             | (q, _, Inr (Some x)) \<Rightarrow>
                 GateNext (g\<lparr>g_inputControl := qc, g_input := q, g_output := g_output g @ [x],
                             g_sentMessages := g_sentMessages g + 1\<rparr>)))"

definition waitForCommand :: "'m gate \<Rightarrow> 'm turn" where
  "waitForCommand g =
     (if \<not> mq_isClosed (g_inputControl g) \<and> queue (mq (g_inputControl g)) = [] then GateWaits
      else
        case mq_get is_control (mq (g_inputControl g)) (g_inputControl g) of
          (qc, _, Inl e) \<Rightarrow> GateFails e
        | (qc, _, Inr c) \<Rightarrow> GateNext (set_command (map_option the_control c) (g\<lparr>g_inputControl := qc\<rparr>)))"

definition gate_turn :: "'m gate \<Rightarrow> 'm turn" where
  "gate_turn g =
     (case g_command g of
        None \<Rightarrow> GateFails (UndefinedBehaviour ''null command'')
      | Some c \<Rightarrow>
          if gc_open c then
            if 0 \<le> gc_numMessages c \<and> gc_numMessages c \<le> g_sentMessages g
            then GateNext (set_command (Some closeGate) g)
            else send_turn g
          else waitForCommand g)"

text \<open>
  A schedule: messages arriving on the input, messages arriving on the control input, turns of
  the node. A turn that waits changes nothing.
\<close>

datatype 'm gate_event = Arrives "'m gate_message" | Commands "'m gate_message" | Turn

definition gate_event :: "'m gate_event \<Rightarrow> 'm gate \<Rightarrow> 'm gate result" where
  "gate_event ev g =
     (case ev of
        Arrives x \<Rightarrow> bindR (send_put x (g_input g)) (\<lambda>q. Inr (g\<lparr>g_input := q\<rparr>))
      | Commands x \<Rightarrow> bindR (send_put x (g_inputControl g)) (\<lambda>q. Inr (g\<lparr>g_inputControl := q\<rparr>))
      | Turn \<Rightarrow> (case gate_turn g of GateWaits \<Rightarrow> Inr g | GateFails e \<Rightarrow> Inl e | GateNext g' \<Rightarrow> Inr g'))"

definition gate_run :: "'m gate_event list \<Rightarrow> 'm gate \<Rightarrow> 'm gate result" where
  "gate_run = foldR gate_event"

definition arrivals :: "'m gate_event list \<Rightarrow> 'm gate_message list" where
  "arrivals evs = List.map_filter (\<lambda>ev. case ev of Arrives x \<Rightarrow> Some x | _ \<Rightarrow> None) evs"

section \<open>Pacing\<close>

text \<open>
  \<open>sleepUntilNextSending\<close>: the time in nanoseconds at which the call returns, given the time
  of the call, with the new target time and the flag.
\<close>

record pacing =
  nextTargetTime :: int
  started :: bool

definition sleepUntilNextSending :: "int \<Rightarrow> int \<Rightarrow> pacing \<Rightarrow> int \<times> pacing" where
  "sleepUntilNextSending fps now p =
     (if fps \<le> 0 then (now, p)
      else
        let interval = 1000000000 div fps
        in if \<not> started p then (now, \<lparr>nextTargetTime = now + interval, started = True\<rparr>)
           else (max now (nextTargetTime p), p\<lparr>nextTargetTime := nextTargetTime p + interval\<rparr>))"

text \<open>The times at which the sends of a loop start, for calls at the given times.\<close>

fun send_times :: "int \<Rightarrow> int list \<Rightarrow> pacing \<Rightarrow> int list" where
  "send_times fps [] p = []"
| "send_times fps (now # nows) p =
     (case sleepUntilNextSending fps now p of (t, p') \<Rightarrow> t # send_times fps nows p')"

section \<open>What the gate lets through\<close>

lemma subseq_last_n: "subseq (last_n k xs) xs"
  unfolding last_n_def by (rule suffix_imp_subseq) (rule suffix_drop)

lemma send_put_window:
  assumes "\<not> mq_isClosed q" and "\<not> blocking (mq q)"
  shows "\<exists>q'. send_put x q = Inr q' \<and> subseq (queue (mq q')) (queue (mq q) @ [x]) \<and>
    \<not> mq_isClosed q' \<and> \<not> blocking (mq q')"
  using mq_send_dropping [OF assms, of x] subseq_last_n by fastforce

definition gate_ready :: "'m gate \<Rightarrow> bool" where
  "gate_ready g \<longleftrightarrow>
     \<not> mq_isClosed (g_input g) \<and> \<not> blocking (mq (g_input g)) \<and>
     \<not> mq_isClosed (g_inputControl g) \<and> queue (mq (g_inputControl g)) = []"

definition closed_or_counting :: "int \<Rightarrow> 'm gate_message list \<Rightarrow> 'm gate \<Rightarrow> bool" where
  "closed_or_counting n out g \<longleftrightarrow>
     (g_command g = Some closeGate \<and> int (length (g_output g)) = int (length out) + n \<or>
      (\<exists>fps. g_command g = Some (openGate n fps)) \<and> g_sentMessages g = int (length (g_output g)) - int (length out) \<and>
        g_sentMessages g \<le> n)"

lemma idle_control:
  "gate_ready g \<Longrightarrow> snd (snd (mq_tryGet is_control (g_inputControl g))) = Inr None \<and>
     fst (mq_tryGet is_control (g_inputControl g)) = g_inputControl g"
  using mq_tryGet_cases(1) [of "g_inputControl g" is_control] by (simp add: gate_ready_def)

lemma send_turn_idle:
  assumes "gate_ready g"
  shows "send_turn g =
    (case queue (mq (g_input g)) of
       [] \<Rightarrow> GateWaits
     | x # xs \<Rightarrow> GateNext (g\<lparr>g_input := (g_input g)\<lparr>mq := (mq (g_input g))\<lparr>queue := xs\<rparr>\<rparr>,
                          g_output := g_output g @ [x], g_sentMessages := g_sentMessages g + 1\<rparr>))"
proof (cases "queue (mq (g_input g))")
  case Nil
  then show ?thesis using assms by (simp add: send_turn_def has_message_def gate_ready_def)
next
  case (Cons x xs)
  obtain evs where c: "mq_tryGet is_control (g_inputControl g) = (g_inputControl g, evs, Inr None)"
    using idle_control [OF assms] by (metis prod.collapse)
  obtain evs' where i: "mq_tryGet (\<lambda>_. True) (g_input g) =
      ((g_input g)\<lparr>mq := (mq (g_input g))\<lparr>queue := xs\<rparr>\<rparr>, evs', Inr (Some x))"
    using mq_tryGet_cases(2) [of "g_input g" x xs "\<lambda>_. True"] assms Cons
    by (metis cast_to_def gate_ready_def prod.collapse)
  show ?thesis using assms Cons c i by (simp add: send_turn_def has_message_def gate_ready_def)
qed

lemma gate_event_step:
  assumes ready: "gate_ready g" and counting: "closed_or_counting n out g" and n: "0 \<le> n"
    and ev: "case ev of Commands x \<Rightarrow> False | _ \<Rightarrow> True"
  shows "\<exists>g'. gate_event ev g = Inr g' \<and> gate_ready g' \<and> closed_or_counting n out g' \<and>
    (\<exists>ys. g_output g' = g_output g @ ys \<and>
          subseq (ys @ queue (mq (g_input g'))) (queue (mq (g_input g)) @ arrivals [ev]))"
proof (cases ev)
  case (Arrives x)
  then show ?thesis
    using send_put_window [of "g_input g" x] ready counting
    by (auto simp: gate_event_def gate_ready_def closed_or_counting_def arrivals_def List.map_filter_simps)
next
  case (Commands x)
  with ev show ?thesis by simp
next
  case Turn
  consider (closed) "g_command g = Some closeGate"
    | (counted) fps where "g_command g = Some (openGate n fps)" "n \<le> g_sentMessages g"
    | (sending) fps where "g_command g = Some (openGate n fps)" "\<not> n \<le> g_sentMessages g"
    using counting by (auto simp: closed_or_counting_def)
  then show ?thesis
  proof cases
    case closed
    then show ?thesis
      using Turn ready counting
      by (auto simp: gate_event_def gate_turn_def waitForCommand_def closeGate_def gate_ready_def
          arrivals_def List.map_filter_simps)
  next
    case counted
    then show ?thesis
      using Turn ready counting n
      by (auto simp: gate_event_def gate_turn_def openGate_def closeGate_def set_command_def gate_ready_def
          closed_or_counting_def arrivals_def List.map_filter_simps)
  next
    case sending
    then have turn: "gate_turn g = send_turn g" using n by (simp add: gate_turn_def openGate_def)
    show ?thesis
    proof (cases "queue (mq (g_input g))")
      case Nil
      then show ?thesis
        using Turn ready counting turn send_turn_idle [OF ready]
        by (auto simp: gate_event_def arrivals_def List.map_filter_simps)
    next
      case (Cons x xs)
      then show ?thesis
        using Turn ready counting turn send_turn_idle [OF ready] sending
        by (auto simp: gate_event_def arrivals_def List.map_filter_simps gate_ready_def mq_isClosed_def
            closed_or_counting_def openGate_def closeGate_def)
    qed
  qed
qed

lemma arrivals_Cons: "arrivals (ev # evs) = arrivals [ev] @ arrivals evs"
  by (cases ev) (simp_all add: arrivals_def List.map_filter_simps)

lemma gate_run_counts:
  assumes "gate_ready g" and "closed_or_counting n out g" and "0 \<le> n"
    and "\<forall>ev \<in> set evs. case ev of Commands x \<Rightarrow> False | _ \<Rightarrow> True"
  shows "\<exists>g'. gate_run evs g = Inr g' \<and> gate_ready g' \<and> closed_or_counting n out g' \<and>
    (\<exists>ys. g_output g' = g_output g @ ys \<and>
          subseq (ys @ queue (mq (g_input g'))) (queue (mq (g_input g)) @ arrivals evs))"
  using assms
proof (induction evs arbitrary: g)
  case Nil
  then show ?case by (simp add: gate_run_def arrivals_def List.map_filter_simps)
next
  case (Cons ev evs)
  obtain g1 ys1 where step: "gate_event ev g = Inr g1" "gate_ready g1" "closed_or_counting n out g1"
    "g_output g1 = g_output g @ ys1" "subseq (ys1 @ queue (mq (g_input g1))) (queue (mq (g_input g)) @ arrivals [ev])"
    using gate_event_step [OF Cons.prems(1-3), of ev] Cons.prems(4) by auto
  obtain g2 ys2 where rest: "gate_run evs g1 = Inr g2" "gate_ready g2" "closed_or_counting n out g2"
    "g_output g2 = g_output g1 @ ys2" "subseq (ys2 @ queue (mq (g_input g2))) (queue (mq (g_input g1)) @ arrivals evs)"
    using Cons.IH [OF step(2,3) Cons.prems(3)] Cons.prems(4) by auto
  have "subseq (ys1 @ ys2 @ queue (mq (g_input g2))) (ys1 @ queue (mq (g_input g1)) @ arrivals evs)"
    using rest(5) by (simp only: subseq_append')
  also have "subseq \<dots> (queue (mq (g_input g)) @ arrivals (ev # evs))"
    using list_emb_append_mono [OF step(5), of "arrivals evs" "arrivals evs"]
    by (subst arrivals_Cons) (simp del: append_assoc add: append_assoc [symmetric])
  finally have "subseq ((ys1 @ ys2) @ queue (mq (g_input g2))) (queue (mq (g_input g)) @ arrivals (ev # evs))"
    by simp
  moreover have "gate_run (ev # evs) g = Inr g2" using step(1) rest(1) by (simp add: gate_run_def)
  ultimately show ?case using step rest by auto
qed

text \<open>
  C38. A gate opened for a number of messages forwards at most that many, in the order of their
  arrival, and closes when it has: whatever arrives and however its turns fall, until the next
  command the node never fails, what it has forwarded is a subsequence of what was waiting and
  what arrived, no more than the number, and a gate that has closed has forwarded exactly the
  number. The messages that come while it is closed are not taken off the input.
\<close>

theorem gate_forwards_at_most:
  assumes "gate_ready g" and "g_command g = Some (openGate n fps)" and "g_sentMessages g = 0" and "0 \<le> n"
    and "\<forall>ev \<in> set evs. case ev of Commands x \<Rightarrow> False | _ \<Rightarrow> True"
  shows "\<exists>g' ys. gate_run evs g = Inr g' \<and> g_output g' = g_output g @ ys \<and>
    subseq (ys @ queue (mq (g_input g'))) (queue (mq (g_input g)) @ arrivals evs) \<and>
    int (length ys) \<le> n \<and>
    (g_command g' = Some closeGate \<and> int (length ys) = n \<or> (\<exists>fps. g_command g' = Some (openGate n fps)))"
proof -
  have "closed_or_counting n (g_output g) g" using assms(2-4) by (auto simp: closed_or_counting_def)
  from gate_run_counts [OF assms(1) this assms(4,5)] obtain g' ys where
    "gate_run evs g = Inr g'" "closed_or_counting n (g_output g) g'" "g_output g' = g_output g @ ys"
    "subseq (ys @ queue (mq (g_input g'))) (queue (mq (g_input g)) @ arrivals evs)"
    by blast
  then show ?thesis using assms(4) by (auto simp: closed_or_counting_def)
qed

theorem gate_forwards_at_most_witness:
  "\<exists>g' ys. gate_run [Arrives (Plain (1::nat)), Turn, Turn, Arrives (Plain 2), Turn] (Gate_new (openGate 1 (-1))) = Inr g' \<and>
     g_output g' = ys \<and> int (length ys) \<le> 1"
  using gate_forwards_at_most [of "Gate_new (openGate 1 (-1)) :: nat gate" 1 "-1"
      "[Arrives (Plain 1), Turn, Turn, Arrives (Plain 2), Turn]"]
  by (auto simp: gate_ready_def Gate_new_def MessageQueue_new_def LockingQueue_new_def mq_isClosed_def)

lemma mq_get_ready:
  "\<not> mq_isClosed m \<Longrightarrow> queue (mq m) = x # xs \<Longrightarrow>
     \<exists>evs. mq_get p w m = (m\<lparr>mq := (mq m)\<lparr>queue := xs\<rparr>\<rparr>, evs, Inr (cast_to p x))"
  by (simp add: mq_get_def run_call_def wait_or_resume_def outcome_defs mq_isClosed_def Let_def)

lemma gate_opens:
  assumes "g_command g = Some closeGate" and "\<not> mq_isClosed (g_inputControl g)"
    and "queue (mq (g_inputControl g)) = [Control c]"
  shows "gate_event Turn g = Inr (set_command (Some c)
      (g\<lparr>g_inputControl := (g_inputControl g)\<lparr>mq := (mq (g_inputControl g))\<lparr>queue := []\<rparr>\<rparr>\<rparr>))"
proof -
  obtain evs where "mq_get is_control (mq (g_inputControl g)) (g_inputControl g) =
      ((g_inputControl g)\<lparr>mq := (mq (g_inputControl g))\<lparr>queue := []\<rparr>\<rparr>, evs, Inr (cast_to is_control (Control c)))"
    using mq_get_ready [OF assms(2,3)] by blast
  then show ?thesis
    using assms
    by (simp add: gate_event_def gate_turn_def waitForCommand_def closeGate_def cast_to_def is_control_def the_control_def)
qed

lemma gate_waits_closed:
  "g_command g = Some closeGate \<Longrightarrow> \<not> mq_isClosed (g_inputControl g) \<Longrightarrow> queue (mq (g_inputControl g)) = [] \<Longrightarrow>
     gate_event Turn g = Inr g"
  by (simp add: gate_event_def gate_turn_def waitForCommand_def closeGate_def)

text \<open>
  A message that arrives while the gate is closed is not discarded: it stays on the input,
  and if no later one replaces it there the gate forwards it as soon as it is opened again.
\<close>

theorem gate_keeps_message_while_closed:
  fixes x :: "'m gate_message" and fps :: int
  shows "\<exists>g. gate_run [Turn, Arrives x, Turn, Turn] (Gate_new closeGate) = Inr g \<and>
      g_output g = [] \<and> queue (mq (g_input g)) = [x] \<and>
    (\<exists>g'. gate_run [Commands (Control (openGate (-1) fps)), Turn, Turn] g = Inr g' \<and> g_output g' = [x])"
proof -
  define g0 :: "'m gate" where "g0 = Gate_new closeGate"
  have g0: "\<not> mq_isClosed (g_input g0)" "\<not> blocking (mq (g_input g0))" "queue (mq (g_input g0)) = []"
    "maxSize (mq (g_input g0)) = 1" "\<not> mq_isClosed (g_inputControl g0)" "\<not> blocking (mq (g_inputControl g0))"
    "queue (mq (g_inputControl g0)) = []" "maxSize (mq (g_inputControl g0)) = 4"
    "g_command g0 = Some closeGate" "g_output g0 = []"
    by (simp_all add: g0_def Gate_new_def MessageQueue_new_def LockingQueue_new_def mq_isClosed_def)
  obtain q where q: "send_put x (g_input g0) = Inr q" "queue (mq q) = [x]" "\<not> mq_isClosed q" "\<not> blocking (mq q)"
    using mq_send_dropping [OF g0(1,2), of x] g0(3,4) by auto
  define c :: "'m gate_message" where "c = Control (openGate (-1) fps)"
  obtain qc where qc: "send_put c (g_inputControl g0) = Inr qc" "queue (mq qc) = [c]" "\<not> mq_isClosed qc"
    using mq_send_dropping [OF g0(5,6), of c] g0(7,8) by auto
  define g1 where "g1 = g0\<lparr>g_input := q\<rparr>"
  define g2 where "g2 = g1\<lparr>g_inputControl := qc\<rparr>"
  define g3 where "g3 = set_command (Some (openGate (-1) fps))
      (g2\<lparr>g_inputControl := qc\<lparr>mq := (mq qc)\<lparr>queue := []\<rparr>\<rparr>\<rparr>)"
  have "gate_run [Turn, Arrives x, Turn, Turn] g0 = Inr g1"
    using gate_waits_closed [of g0] gate_waits_closed [of g1] g0 q
    by (simp add: gate_run_def g1_def) (simp add: gate_event_def)
  moreover have "gate_event (Commands c) g1 = Inr g2" "gate_event Turn g2 = Inr g3"
    using gate_opens [of g2 "openGate (-1) fps"] g0 qc by (simp_all add: gate_event_def g1_def g2_def g3_def c_def)
  moreover have "gate_ready g3" using q qc by (simp add: gate_ready_def g3_def set_command_def g2_def g1_def mq_isClosed_def)
  then have "send_turn g3 = GateNext (g3\<lparr>g_input := q\<lparr>mq := (mq q)\<lparr>queue := []\<rparr>\<rparr>, g_output := [x], g_sentMessages := 1\<rparr>)"
    using send_turn_idle [of g3] q g0 by (simp add: g3_def set_command_def g2_def g1_def)
  then have "\<exists>g'. gate_event Turn g3 = Inr g' \<and> g_output g' = [x]"
    by (simp add: gate_event_def gate_turn_def) (simp add: g3_def set_command_def openGate_def)
  ultimately have run: "gate_run [Turn, Arrives x, Turn, Turn] g0 = Inr g1"
    "\<exists>g'. gate_run [Commands c, Turn, Turn] g1 = Inr g' \<and> g_output g' = [x]"
    by (auto simp add: gate_run_def)
  have "g_output g1 = [] \<and> queue (mq (g_input g1)) = [x]" using q g0 by (simp add: g1_def)
  with run show ?thesis unfolding g0_def c_def by blast
qed

section \<open>Pacing\<close>

text \<open>
  The pacing keeps the rate: however late or early the calls come, the send after \<open>k\<close> others
  does not start before \<open>k\<close> intervals after the first call, and never before its own call.
\<close>

theorem paced_sends_keep_rate:
  fixes fps t0 :: int and nows :: "int list"
  assumes "0 < fps" and "k < length nows"
  defines "starts \<equiv> send_times fps nows \<lparr>nextTargetTime = t0, started = False\<rparr>"
  shows "hd nows + int k * (1000000000 div fps) \<le> starts ! k \<and> nows ! k \<le> starts ! k \<and> length starts = length nows"
proof -
  have len: "length (send_times fps ns p) = length ns" for ns p
    by (induction fps ns p rule: send_times.induct) (auto split: prod.splits)
  have started: "nextTargetTime p + int j * (1000000000 div fps) \<le> send_times fps ns p ! j \<and> ns ! j \<le> send_times fps ns p ! j"
    if "started p" "j < length ns" for ns p j
    using that
  proof (induction ns arbitrary: p j)
    case (Cons now ns)
    let ?p = "p\<lparr>nextTargetTime := nextTargetTime p + 1000000000 div fps\<rparr>"
    have s: "send_times fps (now # ns) p = max now (nextTargetTime p) # send_times fps ns ?p"
      using Cons.prems(1) assms(1) by (simp add: sleepUntilNextSending_def Let_def)
    show ?case
      using Cons.IH [of ?p "j - 1"] Cons.prems unfolding s
      by (cases j) (auto simp: algebra_simps)
  qed simp
  obtain now ns where nows: "nows = now # ns" using assms(2) by (cases nows) auto
  let ?p = "\<lparr>nextTargetTime = now + 1000000000 div fps, started = True\<rparr>"
  have t: "starts = now # send_times fps ns ?p"
    using assms(1) by (simp add: starts_def nows sleepUntilNextSending_def Let_def)
  show ?thesis
    using started [of ?p "k - 1" ns] assms(2) len unfolding t nows
    by (cases k) (auto simp: algebra_simps)
qed

theorem paced_sends_keep_rate_witness:
  "send_times 10 [0, 5, 350000000, 350000001] \<lparr>nextTargetTime = 0, started = False\<rparr> ! 3 \<ge> 300000000"
  using paced_sends_keep_rate [of 10 3 "[0, 5, 350000000, 350000001]" 0] by simp

end
