(* ===== verification/H26x.thy ===== *)
theory H26x
  imports Prelude
begin

unbundle bit_operations_syntax

text \<open>
  The slice-type scan of H.264 and H.265 byte streams (src/utility/H26xParsers.cpp): start codes,
  unsigned fields and Exp-Golomb numbers, the NAL units of the two profiles and the loop over the
  stream. A read past the end of the vector and a shift by the width of an integer or more are
  undefined behaviour in the code and errors here; \<open>exit(30)\<close> is an error too. Positions are
  natural numbers: the streams are shorter than 2^29 bytes, so that no bit position wraps.
\<close>

section \<open>Definitions\<close>

datatype Profile = H264 | H265

datatype SliceType = SliceP | SliceB | SliceI | SliceSP | SliceSI | SliceUnknown

definition getSliceType :: "nat \<Rightarrow> Profile \<Rightarrow> SliceType" where
  "getSliceType num p =
     (case p of
        H264 \<Rightarrow>
          if num \<in> {0, 5} then SliceP else if num \<in> {1, 6} then SliceB
          else if num \<in> {2, 7} then SliceI else if num \<in> {3, 8} then SliceSP
          else if num \<in> {4, 9} then SliceSI else SliceUnknown
      | H265 \<Rightarrow>
          if num = 0 then SliceB else if num = 1 then SliceP else if num = 2 then SliceI
          else SliceUnknown)"

definition scodeEq :: "bytes \<Rightarrow> nat \<Rightarrow> bytes \<Rightarrow> bool" where
  "scodeEq bs pos code \<longleftrightarrow>
     length code < length bs - pos \<and> list_all (\<lambda>i. bs ! (pos + i) = code ! i) [0..<length code]"

definition codeLong :: bytes where "codeLong = [0, 0, 0, 1]"
definition codeShort :: bytes where "codeShort = [0, 0, 1]"
definition end1 :: bytes where "end1 = [0, 0, 0]"

definition findStart :: "bytes \<Rightarrow> nat \<Rightarrow> nat" where
  "findStart bs pos =
     (case List.find (\<lambda>i. bs ! i = 0 \<and> (scodeEq bs i codeLong \<or> scodeEq bs i codeShort)) [pos..<length bs] of
        None \<Rightarrow> length bs
      | Some i \<Rightarrow> if scodeEq bs i codeLong then i + 4 else i + 3)"

definition findEnd :: "bytes \<Rightarrow> nat \<Rightarrow> nat" where
  "findEnd bs pos =
     (case List.find (\<lambda>i. bs ! i = 0 \<and> (scodeEq bs i end1 \<or> scodeEq bs i codeShort)) [pos..<length bs] of
        None \<Rightarrow> length bs
      | Some i \<Rightarrow> i)"

definition byte_at :: "bytes \<Rightarrow> nat \<Rightarrow> u8 result" where
  "byte_at bs i = (if i < length bs then Inr (bs ! i) else Inl (UndefinedBehaviour ''index past the end''))"

text \<open>Bit \<open>i\<close> of the stream, the most significant bit of a byte first.\<close>

definition bit_at :: "bytes \<Rightarrow> nat \<Rightarrow> bool" where
  "bit_at bs i = bit (bs ! (i div 8)) (7 - i mod 8)"

definition readUint :: "bytes \<Rightarrow> nat \<Rightarrow> nat \<Rightarrow> nat result" where
  "readUint bs start end' =
     foldR (\<lambda>i ret. bindR (byte_at bs (i div 8)) (\<lambda>_.
       if 32 \<le> end' - i - 1 then Inl (UndefinedBehaviour ''shift'')
       else Inr (ret + (if bit_at bs i then 2 ^ (end' - i - 1) else 0)))) [start..<end'] 0"

definition readGE :: "bytes \<Rightarrow> nat \<Rightarrow> (nat \<times> nat) result" where
  "readGE bs pos =
     (let zeros = length (takeWhile (\<lambda>i. \<not> bit_at bs i) [pos..<8 * length bs]);
          start = pos + zeros;
          end' = start + (zeros + 1)
      in if 8 * length bs < end' then Inl (Exit 30)
         else bindR (readUint bs start end') (\<lambda>v. Inr (v - 1, end')))"

text \<open>Skipping \<open>n\<close> numbers.\<close>

fun skipGE :: "nat \<Rightarrow> bytes \<Rightarrow> nat \<Rightarrow> nat result" where
  "skipGE 0 bs pos = Inr pos"
| "skipGE (Suc n) bs pos = bindR (readGE bs pos) (\<lambda>(_, pos'). skipGE n bs pos')"

text \<open>
  The loop over the stream, for the NAL parser of a profile. It keeps the parser's state and the
  slice types found.
\<close>

type_synonym 's nal_parser = "bytes \<Rightarrow> nat \<Rightarrow> 's \<times> SliceType list \<Rightarrow> ('s \<times> SliceType list) result"

lemma findStart_ge: "pos < length bs \<Longrightarrow> pos \<le> findStart bs pos"
  by (auto simp: findStart_def find_Some_iff split: option.splits)

function parse_loop ::
    "'s nal_parser \<Rightarrow> bytes \<Rightarrow> bool \<Rightarrow> nat \<Rightarrow> 's \<times> SliceType list \<Rightarrow> ('s \<times> SliceType list) result" where
  "parse_loop parseNal bs breakOnFirst pos st =
     (if pos < length bs then
        let start = findStart bs pos;
            end' = findEnd bs start
        in if end' \<le> start then Inr st
           else bindR (parseNal bs start st) (\<lambda>st'.
             if breakOnFirst \<and> snd st' \<noteq> [] then Inr st'
             else parse_loop parseNal bs breakOnFirst end' st')
      else Inr st)"
  by pat_completeness auto

termination
proof (relation "measure (\<lambda>(p, bs, b, pos, st). length bs - pos)")
  fix parseNal :: "'s nal_parser" and bs b pos st x xa xb
  assume "pos < length bs" "x = findStart bs pos" "xa = findEnd bs x" "\<not> xa \<le> x"
  then have "pos < xa" using findStart_ge [of pos bs] by simp
  with \<open>pos < length bs\<close> show "((parseNal, bs, b, xa, xb), parseNal, bs, b, pos, st)
      \<in> measure (\<lambda>(p, bs, b, pos, st). length bs - pos)" by auto
qed simp

declare parse_loop.simps [simp del]

definition parseBytestream :: "'s nal_parser \<Rightarrow> 's \<Rightarrow> bytes \<Rightarrow> bool \<Rightarrow> SliceType list result" where
  "parseBytestream parseNal s bs breakOnFirst =
     bindR (parse_loop parseNal bs breakOnFirst 0 (s, [])) (\<lambda>(_, out). Inr out)"

subsection \<open>H.264\<close>

definition parseNal_H264 :: "unit nal_parser" where
  "parseNal_H264 bs start = (\<lambda>(s, out).
     bindR (byte_at bs start) (\<lambda>b.
       let nalUnitType = unat (b AND 31)
       in bindR (if nalUnitType = 21 then readUint bs ((start + 1) * 8) ((start + 1) * 8 + 1) else Inr 0)
           (\<lambda>avc3dExtensionFlag.
              let nalUnitHeaderBytes =
                    (if nalUnitType \<in> {14, 20, 21} then (if avc3dExtensionFlag \<noteq> 0 then 3 else 4) else 1);
                  pos = start + nalUnitHeaderBytes
              in if nalUnitType = 1 \<or> nalUnitType = 5 then
                   bindR (readGE bs (pos * 8)) (\<lambda>(_, bpos1).
                     bindR (readGE bs bpos1) (\<lambda>(tyNum, _).
                       Inr (s, out @ [getSliceType tyNum H264])))
                 else Inr (s, out))))"

definition getTypesH264 :: "bytes \<Rightarrow> bool \<Rightarrow> SliceType list result" where
  "getTypesH264 = parseBytestream parseNal_H264 ()"

subsection \<open>H.265\<close>

record h265 =
  dependentSliceSegmentsEnabledFlag :: nat
  numExtraSliceHeaderBits :: nat
  picWidthInLumaSamples :: nat
  picHeightInLumaSamples :: nat
  chromaFormatIdc :: nat
  log2DiffMaxMinLumaCodingBlockSize :: nat
  log2MinLumaCodingBlockSizeMinus3 :: nat

definition H265Parser_new :: h265 where
  "H265Parser_new = \<lparr>dependentSliceSegmentsEnabledFlag = 0, numExtraSliceHeaderBits = 0,
     picWidthInLumaSamples = 0, picHeightInLumaSamples = 0, chromaFormatIdc = 0,
     log2DiffMaxMinLumaCodingBlockSize = 0, log2MinLumaCodingBlockSizeMinus3 = 0\<rparr>"

text \<open>The sequence parameter set.\<close>

definition parse_SPS :: "bytes \<Rightarrow> nat \<Rightarrow> h265 \<Rightarrow> h265 result" where
  "parse_SPS bs pos h =
     bindR (byte_at bs pos) (\<lambda>b.
     let spsMaxSubLayersMinus1 = unat (drop_bit 1 (b AND 14)) in
     bindR (skipGE 1 bs ((pos + 1) * 8)) (\<lambda>bpos1.
     bindR (readGE bs bpos1) (\<lambda>(chr, bpos2).
     let bpos2' = (if chr \<noteq> 0 then bpos2 + 1 else bpos2) in
     bindR (readGE bs bpos2') (\<lambda>(pw, bpos3).
     bindR (readGE bs bpos3) (\<lambda>(ph, bpos4).
     bindR (readUint bs bpos4 (bpos4 + 1)) (\<lambda>conformanceWindowFlag.
     bindR (if conformanceWindowFlag \<noteq> 0 then skipGE 4 bs (bpos4 + 1) else Inr (bpos4 + 1)) (\<lambda>bpos8.
     bindR (skipGE 3 bs bpos8) (\<lambda>bpos11.
     bindR (readUint bs bpos11 (bpos11 + 1)) (\<lambda>orderingInfoPresent.
     let rounds = (if orderingInfoPresent \<noteq> 0 then spsMaxSubLayersMinus1 + 1 else 1) in
     bindR (skipGE (3 * rounds) bs (bpos11 + 1)) (\<lambda>bpos12.
     bindR (readGE bs bpos12) (\<lambda>(lm, bpos13).
     bindR (readGE bs bpos13) (\<lambda>(ldm, _).
       Inr (h\<lparr>chromaFormatIdc := chr, picWidthInLumaSamples := pw, picHeightInLumaSamples := ph,
              log2MinLumaCodingBlockSizeMinus3 := lm, log2DiffMaxMinLumaCodingBlockSize := ldm\<rparr>)))))))))))))"

text \<open>The picture parameter set.\<close>

definition parse_PPS :: "bytes \<Rightarrow> nat \<Rightarrow> h265 \<Rightarrow> h265 result" where
  "parse_PPS bs pos h =
     bindR (skipGE 2 bs (pos * 8)) (\<lambda>bpos2.
     bindR (readUint bs bpos2 (bpos2 + 1)) (\<lambda>dep.
     bindR (readUint bs (bpos2 + 2) (bpos2 + 5)) (\<lambda>extra.
       Inr (h\<lparr>dependentSliceSegmentsEnabledFlag := dep, numExtraSliceHeaderBits := extra\<rparr>))))"

text \<open>
  The length of the slice segment address: \<open>ceil\<close> is applied to integer quotients, and the
  logarithm of zero does not fit an unsigned integer.
\<close>

fun ceil_log2 :: "nat \<Rightarrow> nat" where
  "ceil_log2 n = (if n \<le> 1 then 0 else ceil_log2 ((n + 1) div 2) + 1)"

declare ceil_log2.simps [simp del]

definition slice_address_length :: "h265 \<Rightarrow> nat result" where
  "slice_address_length h =
     (let ctbLog2SizeY = (log2MinLumaCodingBlockSizeMinus3 h + 3 + log2DiffMaxMinLumaCodingBlockSize h) mod 2 ^ 32
      in if 32 \<le> ctbLog2SizeY then Inl (UndefinedBehaviour ''shift'')
         else
           let ctbSizeY = 2 ^ ctbLog2SizeY;
               picWidthInCtbsY = picWidthInLumaSamples h div ctbSizeY;
               picHeightInCtbsY = picHeightInLumaSamples h div ctbSizeY;
               picSizeInCtbsY = (picWidthInCtbsY * picHeightInCtbsY) mod 2 ^ 32
           in if picSizeInCtbsY = 0 then Inl (UndefinedBehaviour ''logarithm of zero'')
              else Inr (ceil_log2 picSizeInCtbsY))"

text \<open>A coded slice segment.\<close>

definition parse_slice :: "bytes \<Rightarrow> nat \<Rightarrow> nat \<Rightarrow> h265 \<Rightarrow> SliceType list \<Rightarrow> SliceType list result" where
  "parse_slice bs pos nalUnitType h out =
     (let bpos1 = pos * 8 in
      bindR (readUint bs bpos1 (bpos1 + 1)) (\<lambda>firstSliceSegmentInPicFlag.
      let bpos1' = (if 16 \<le> nalUnitType \<and> nalUnitType \<le> 23 then bpos1 + 2 else bpos1 + 1) in
      bindR (skipGE 1 bs bpos1') (\<lambda>bpos2.
      bindR (if firstSliceSegmentInPicFlag = 0 then
               bindR (if dependentSliceSegmentsEnabledFlag h \<noteq> 0 then readUint bs bpos2 (bpos2 + 1) else Inr 0) (\<lambda>dep.
               bindR (slice_address_length h) (\<lambda>vlen.
                 Inr (dep, (if dependentSliceSegmentsEnabledFlag h \<noteq> 0 then bpos2 + 1 else bpos2) + vlen)))
             else Inr (0, bpos2)) (\<lambda>(dependentSliceSegmentFlag, bpos3).
      if dependentSliceSegmentFlag = 0 then
        bindR (readGE bs (bpos3 + numExtraSliceHeaderBits h)) (\<lambda>(tyNum, _).
          Inr (out @ [getSliceType tyNum H265]))
      else Inr out))))"

definition parseNal_H265 :: "h265 nal_parser" where
  "parseNal_H265 bs start = (\<lambda>(h, out).
     bindR (byte_at bs start) (\<lambda>b.
       let nalUnitType = unat (drop_bit 1 (b AND 126)); pos = start + 2
       in if nalUnitType = 33 then bindR (parse_SPS bs pos h) (\<lambda>h'. Inr (h', out))
          else if nalUnitType = 34 then bindR (parse_PPS bs pos h) (\<lambda>h'. Inr (h', out))
          else if nalUnitType \<le> 9 \<or> 16 \<le> nalUnitType \<and> nalUnitType \<le> 21 then
            bindR (parse_slice bs pos nalUnitType h out) (\<lambda>out'. Inr (h, out'))
          else Inr (h, out)))"

definition getTypesH265 :: "bytes \<Rightarrow> bool \<Rightarrow> SliceType list result" where
  "getTypesH265 = parseBytestream parseNal_H265 H265Parser_new"

section \<open>Bits\<close>

definition bits_of :: "bytes \<Rightarrow> bool list" where
  "bits_of bs = concat (map (\<lambda>b. map (\<lambda>j. bit b (7 - j)) [0..<8]) bs)"

fun to_bits :: "nat \<Rightarrow> bool list" where
  "to_bits n = (if n = 0 then [] else to_bits (n div 2) @ [odd n])"

declare to_bits.simps [simp del]

definition from_bits :: "bool list \<Rightarrow> nat" where
  "from_bits = foldl (\<lambda>a b. 2 * a + (if b then 1 else 0)) 0"

text \<open>The Exp-Golomb code: as many zeros as there are bits after the first of \<open>v + 1\<close>.\<close>

definition golomb :: "nat \<Rightarrow> bool list" where
  "golomb v = replicate (length (to_bits (v + 1)) - 1) False @ to_bits (v + 1)"

lemma length_bits_of [simp]: "length (bits_of bs) = 8 * length bs"
  by (induction bs) (simp_all add: bits_of_def)

lemma bits_of_append: "bits_of (a @ b) = bits_of a @ bits_of b"
  by (simp add: bits_of_def)

lemma bits_of_nth: "i < 8 * length bs \<Longrightarrow> bits_of bs ! i = bit_at bs i"
proof (induction bs arbitrary: i)
  case (Cons b bs)
  show ?case
  proof (cases "i < 8")
    case True
    then show ?thesis by (simp add: bits_of_def nth_append bit_at_def)
  next
    case False
    then have "i div 8 = Suc ((i - 8) div 8)" "(i - 8) mod 8 = i mod 8" by (simp_all add: le_div_geq le_mod_geq)
    then show ?thesis using Cons False by (simp add: bits_of_def nth_append bit_at_def)
  qed
qed simp

lemma from_bits_snoc: "from_bits (xs @ [b]) = 2 * from_bits xs + (if b then 1 else 0)"
  by (simp add: from_bits_def)

lemma from_to_bits [simp]: "from_bits (to_bits n) = n"
proof (induction n rule: to_bits.induct)
  case (1 n)
  then show ?case by (subst to_bits.simps) (auto simp: from_bits_snoc, simp add: from_bits_def)
qed

lemma to_bits_hd: "0 < n \<Longrightarrow> \<exists>bs. to_bits n = True # bs"
proof (induction n rule: to_bits.induct)
  case (1 n)
  show ?case
  proof (cases "n = 1")
    case True
    then show ?thesis by (simp add: to_bits.simps)
  next
    case False
    with 1 obtain bs where "to_bits (n div 2) = True # bs" by auto
    with 1(2) show ?thesis by (subst to_bits.simps) simp
  qed
qed

lemma length_to_bits: "n < 2 ^ k \<Longrightarrow> length (to_bits n) \<le> k"
proof (induction n arbitrary: k rule: to_bits.induct)
  case (1 n)
  show ?case
  proof (cases "n = 0")
    case True
    then show ?thesis by (simp add: to_bits.simps)
  next
    case False
    with 1(2) obtain j where j: "k = Suc j" by (cases k) auto
    with 1 False have "length (to_bits (n div 2)) \<le> j" by auto
    with False j show ?thesis by (subst to_bits.simps) simp
  qed
qed

section \<open>Numbers\<close>

text \<open>The bits of a stream between two positions.\<close>

definition slice :: "bytes \<Rightarrow> nat \<Rightarrow> nat \<Rightarrow> bool list" where
  "slice bs i j = take (j - i) (drop i (bits_of bs))"

lemma slice_snoc: "i \<le> j \<Longrightarrow> j < 8 * length bs \<Longrightarrow> slice bs i (Suc j) = slice bs i j @ [bit_at bs j]"
  by (simp add: slice_def Suc_diff_le take_Suc_conv_app_nth bits_of_nth)

lemma readUint_slice:
  assumes "i \<le> j" and "j \<le> 8 * length bs" and "j - i \<le> 32"
  shows "readUint bs i j = Inr (from_bits (slice bs i j))"
proof -
  define f where "f = (\<lambda>k ret. bindR (byte_at bs (k div 8)) (\<lambda>_.
       if 32 \<le> j - k - 1 then Inl (UndefinedBehaviour ''shift'')
       else Inr (ret + (if bit_at bs k then 2 ^ (j - k - 1) else 0 :: nat))))"
  have "foldR f [i..<i + n] 0 = Inr (from_bits (slice bs i (i + n)) * 2 ^ (j - (i + n)))" if "i + n \<le> j" for n
    using that
  proof (induction n)
    case 0
    then show ?case by (simp add: slice_def from_bits_def)
  next
    case (Suc n)
    let ?m = "i + n"
    have m: "?m < j" "?m div 8 < length bs" using Suc.prems assms(2) by auto
    have pow: "j - ?m = Suc (j - Suc ?m)" using m(1) by simp
    have "f ?m (from_bits (slice bs i ?m) * 2 ^ (j - ?m)) =
        Inr (from_bits (slice bs i (Suc ?m)) * 2 ^ (j - Suc ?m))"
      using m assms(2,3) unfolding pow
      by (simp add: f_def byte_at_def slice_snoc from_bits_snoc algebra_simps)
    with Suc show ?case by (simp add: foldR_append)
  qed
  from this [of "j - i"] assms(1) show ?thesis by (simp add: readUint_def f_def)
qed

lemma takeWhile_upt:
  assumes "i \<le> j" "j < n" "\<And>k. i \<le> k \<Longrightarrow> k < j \<Longrightarrow> P k" "\<not> P j"
  shows "length (takeWhile P [i..<n]) = j - i"
proof -
  have "[i..<n] = [i..<j] @ j # [Suc j..<n]"
    using upt_add_eq_append [OF assms(1), of "n - j"] assms(1,2) by (simp add: upt_conv_Cons)
  moreover have "takeWhile P ([i..<j] @ j # [Suc j..<n]) = [i..<j]"
    using assms(3,4) by (subst takeWhile_append2) auto
  ultimately show ?thesis by simp
qed

lemma length_golomb: "length (golomb v) = 2 * length (to_bits (v + 1)) - 1"
  using to_bits_hd [of "v + 1"] by (auto simp: golomb_def)

lemma golomb_read:
  assumes "drop pos (bits_of bs) = golomb v @ rest" and "v + 1 < 2 ^ 32"
  shows "readGE bs pos = Inr (v, pos + length (golomb v))"
proof -
  define b where "b = to_bits (v + 1)"
  define z where "z = length b - 1"
  obtain bs' where b: "b = True # bs'" using to_bits_hd [of "v + 1"] by (auto simp: b_def)
  have g: "golomb v = replicate z False @ b" by (simp add: golomb_def b_def z_def)
  have len: "length b = z + 1" using b by (simp add: z_def)
  have short: "z + 1 \<le> 32" using length_to_bits [OF assms(2)] len by (simp add: b_def)
  have total: "pos + (z + (z + 1)) + length rest = 8 * length bs"
    using arg_cong [OF assms(1), of length] len
    by (simp add: g)
  have nth: "bit_at bs (pos + k) = (golomb v @ rest) ! k" if "k < z + (z + 1)" for k
  proof -
    have "bits_of bs ! (pos + k) = drop pos (bits_of bs) ! k" using that total by (intro nth_drop [symmetric]) simp
    then show ?thesis using that total by (simp add: bits_of_nth assms(1) flip: bits_of_nth)
  qed
  have zeros: "length (takeWhile (\<lambda>i. \<not> bit_at bs i) [pos..<8 * length bs]) = z"
  proof -
    have "length (takeWhile (\<lambda>i. \<not> bit_at bs i) [pos..<8 * length bs]) = (pos + z) - pos"
    proof (rule takeWhile_upt)
      show "\<not> bit_at bs k" if "pos \<le> k" "k < pos + z" for k
      proof -
        have "k - pos < z" using that by linarith
        then show ?thesis using nth [of "k - pos"] that(1) by (simp add: g nth_append)
      qed
      show "\<not> \<not> bit_at bs (pos + z)" using nth [of z] by (simp add: g nth_append b)
    qed (use total in auto)
    then show ?thesis by simp
  qed
  have "slice bs (pos + z) (pos + z + (z + 1)) = b"
    using assms(1) len by (simp add: slice_def g drop_drop [symmetric] add.commute [of pos] del: drop_drop)
  then have "readUint bs (pos + z) (pos + z + (z + 1)) = Inr (v + 1)"
    using readUint_slice [of "pos + z" "pos + z + (z + 1)" bs] total short
    by (simp add: b_def)
  then show ?thesis using zeros total len by (simp add: readGE_def Let_def g)
qed

text \<open>
  Reading an Exp-Golomb number inverts writing it: wherever in a stream of bytes the code of
  a number below 2^32 - 1 begins, the read gives that number and the position just after the code,
  without a read past the end, whatever follows. At a position from which no code fits the stream,
  because only zeros follow, the process exits.
\<close>

theorem readGE_roundtrip:
  "(drop pos (bits_of bs) = golomb v @ rest \<and> v + 1 < 2 ^ 32 \<longrightarrow> readGE bs pos = Inr (v, pos + length (golomb v))) \<and>
   (True \<notin> set (drop pos (bits_of bs)) \<longrightarrow> readGE bs pos = Inl (Exit 30))"
proof (intro conjI impI)
  show "readGE bs pos = Inr (v, pos + length (golomb v))"
    if "drop pos (bits_of bs) = golomb v @ rest \<and> v + 1 < 2 ^ 32"
    using that golomb_read by blast
  assume none: "True \<notin> set (drop pos (bits_of bs))"
  have "\<not> bit_at bs i" if "pos \<le> i" "i < 8 * length bs" for i
  proof -
    have "drop pos (bits_of bs) ! (i - pos) \<in> set (drop pos (bits_of bs))" using that by (intro nth_mem) simp
    then show ?thesis using that none by (auto simp: bits_of_nth)
  qed
  then have "takeWhile (\<lambda>i. \<not> bit_at bs i) [pos..<8 * length bs] = [pos..<8 * length bs]"
    by (intro takeWhile_eq_all_conv [THEN iffD2]) auto
  from arg_cong [OF this, of length]
  have "length (takeWhile (\<lambda>i. \<not> bit_at bs i) [pos..<8 * length bs]) = 8 * length bs - pos"
    by (simp only: length_upt)
  moreover have "8 * length bs < pos + (8 * length bs - pos) + (8 * length bs - pos + 1)" by arith
  ultimately show "readGE bs pos = Inl (Exit 30)" by (simp only: readGE_def Let_def if_True)
qed

theorem readGE_roundtrip_witness:
  "readGE [0x2C] 0 = Inr (4, 5) \<and> readGE [0x2C] 6 = Inl (Exit 30)"
proof -
  have "drop 0 (bits_of [0x2C]) = golomb 4 @ [True, False, False]"
    by (simp add: bits_of_def golomb_def to_bits.simps upt_rec)
  moreover have "length (golomb 4) = 5" by (simp add: golomb_def to_bits.simps)
  moreover have "True \<notin> set (drop 6 (bits_of [0x2C]))" by (simp add: bits_of_def upt_rec)
  ultimately show ?thesis
    using readGE_roundtrip [of 0 "[0x2C]" 4 "[True, False, False]"] readGE_roundtrip [of 6 "[0x2C]" 0 "[]"] by simp
qed

section \<open>Start codes\<close>

text \<open>
  A NAL unit that a stream can carry: it is not empty, does not end in a zero byte and has no start
  code or end mark inside. A byte stream puts the long start code in front of each.
\<close>

definition unit_ok :: "bytes \<Rightarrow> bool" where
  "unit_ok n \<longleftrightarrow> n \<noteq> [] \<and> last n \<noteq> 0 \<and>
     (\<forall>i. i + 2 < length n \<longrightarrow> \<not> (n ! i = 0 \<and> n ! (i + 1) = 0 \<and> n ! (i + 2) \<in> {0, 1}))"

definition byte_stream :: "bytes list \<Rightarrow> bytes" where
  "byte_stream ns = concat (map (\<lambda>n. codeLong @ n) ns)"

lemma find_upt:
  assumes "i \<le> j" "j < n" "\<And>k. i \<le> k \<Longrightarrow> k < j \<Longrightarrow> \<not> P k" "P j"
  shows "List.find P [i..<n] = Some j"
  unfolding find_Some_iff using assms by (intro exI [of _ "j - i"]) auto

lemmas code_defs = codeLong_def codeShort_def end1_def

lemma scodeEq_short:
  "scodeEq bs i codeShort \<longleftrightarrow> 3 < length bs - i \<and> bs ! i = 0 \<and> bs ! (i + 1) = 0 \<and> bs ! (i + 2) = 1"
  "scodeEq bs i end1 \<longleftrightarrow> 3 < length bs - i \<and> bs ! i = 0 \<and> bs ! (i + 1) = 0 \<and> bs ! (i + 2) = 0"
  by (simp_all add: scodeEq_def code_defs upt_rec numeral_eq_Suc)

lemma scodeEq_long:
  "scodeEq bs i codeLong \<longleftrightarrow>
     4 < length bs - i \<and> bs ! i = 0 \<and> bs ! (i + 1) = 0 \<and> bs ! (i + 2) = 0 \<and> bs ! (i + 3) = 1"
  by (simp add: scodeEq_def code_defs upt_rec numeral_eq_Suc)

lemma nth_middle: "(pre @ xs @ ys) ! (length pre + k) = (xs @ ys) ! k"
  by simp

lemma findStart_at:
  assumes "n \<noteq> []"
  shows "findStart (pre @ codeLong @ n) (length pre) = length pre + 4"
proof -
  let ?bs = "pre @ codeLong @ n"
  have at: "?bs ! (length pre + k) = (codeLong @ n) ! k" for k by simp
  have long: "scodeEq ?bs (length pre) codeLong"
    using assms at [of 0] at [of 1] at [of 2] at [of 3] unfolding scodeEq_long by (simp add: code_defs)
  have zero: "?bs ! length pre = 0" using at [of 0] by (simp add: code_defs)
  have "length pre < length ?bs" by (simp add: code_defs)
  with long zero have "List.find (\<lambda>i. ?bs ! i = 0 \<and> (scodeEq ?bs i codeLong \<or> scodeEq ?bs i codeShort))
      [length pre..<length ?bs] = Some (length pre)"
    by (intro find_upt) auto
  with long show ?thesis by (simp only: findStart_def option.case if_True)
qed

lemma findEnd_at:
  assumes n: "unit_ok n" and rest: "rest = [] \<or> (\<exists>r. rest = codeLong @ r \<and> r \<noteq> [])"
  shows "findEnd (pre @ n @ rest) (length pre) = length pre + length n"
proof -
  let ?bs = "pre @ n @ rest"
  define Q where "Q = (\<lambda>i. ?bs ! i = 0 \<and> (scodeEq ?bs i end1 \<or> scodeEq ?bs i codeShort))"
  have inside: "\<not> Q k" if k: "length pre \<le> k" "k < length pre + length n" for k
  proof
    assume Q: "Q k"
    define i where "i = k - length pre"
    have i: "k = length pre + i" "i < length n" using k by (simp_all add: i_def)
    have zero: "(n @ rest) ! i = 0" "(n @ rest) ! (i + 1) = 0" "(n @ rest) ! (i + 2) \<in> {0, 1}"
      using Q unfolding Q_def scodeEq_short i(1) add.assoc nth_middle by auto
    show False
    proof (cases "i + 2 < length n")
      case True
      then show False using n zero by (auto simp: unit_ok_def nth_append)
    next
      case False
      then have "i = length n - 1 \<or> i + 1 = length n - 1" using i(2) by linarith
      then have "n ! (length n - 1) = 0"
      proof
        assume "i = length n - 1"
        then show ?thesis using zero(1) i(2) by (simp add: nth_append)
      next
        assume j: "i + 1 = length n - 1"
        then have "i + 1 < length n" by linarith
        then show ?thesis using zero(2) j by (simp add: nth_append)
      qed
      then show False using n by (auto simp: unit_ok_def last_conv_nth)
    qed
  qed
  show ?thesis
  proof (cases "rest = []")
    case True
    then have "List.find Q [length pre..<length ?bs] = None"
      using inside by (auto simp: find_None_iff)
    then show ?thesis using True by (simp add: findEnd_def Q_def)
  next
    case False
    then obtain r where r: "rest = codeLong @ r" "r \<noteq> []" using rest by blast
    have at: "?bs ! (length pre + length n + j) = rest ! j" for j
      by (simp add: nth_append)
    have "scodeEq ?bs (length pre + length n) end1"
      using at [of 0] at [of 1] at [of 2] r unfolding scodeEq_short by (simp add: code_defs)
    then have "Q (length pre + length n)" using at [of 0] r by (simp add: Q_def code_defs)
    moreover have "length pre + length n < length ?bs" using r by (simp add: code_defs)
    ultimately have "List.find Q [length pre..<length ?bs] = Some (length pre + length n)"
      using inside by (intro find_upt) auto
    then show ?thesis by (simp add: findEnd_def Q_def)
  qed
qed

section \<open>Streams of units\<close>

lemma parse_stream:
  assumes units: "list_all2 (\<lambda>n ts. unit_ok n \<and> length ts \<le> 1 \<and>
      (\<forall>pre rest out. parseNal (pre @ n @ rest) (length pre) (s, out) = Inr (s, out @ ts))) ns tss"
    and first: "breakOnFirst \<longrightarrow> out = []"
  shows "parse_loop parseNal (pre @ byte_stream ns) breakOnFirst (length pre) (s, out) =
    Inr (s, if breakOnFirst then take 1 (concat tss) else out @ concat tss)"
  using assms
proof (induction ns arbitrary: tss pre out)
  case Nil
  then show ?case by (subst parse_loop.simps) (simp add: byte_stream_def)
next
  case (Cons n ns)
  obtain ts tss' where tss: "tss = ts # tss'" and n: "unit_ok n" "length ts \<le> 1"
    and parse: "\<And>pre rest out. parseNal (pre @ n @ rest) (length pre) (s, out) = Inr (s, out @ ts)"
    and rest: "list_all2 (\<lambda>n ts. unit_ok n \<and> length ts \<le> 1 \<and>
      (\<forall>pre rest out. parseNal (pre @ n @ rest) (length pre) (s, out) = Inr (s, out @ ts))) ns tss'"
    using Cons.prems(1) by (cases tss) auto
  let ?bs = "pre @ byte_stream (n # ns)"
  have ne: "n \<noteq> []" using n(1) by (simp add: unit_ok_def)
  have bs: "?bs = (pre @ codeLong) @ n @ byte_stream ns" by (simp add: byte_stream_def)
  have lens: "length (pre @ codeLong) = length pre + 4" by (simp add: code_defs)
  have start: "findStart ?bs (length pre) = length pre + 4"
    using findStart_at [of "n @ byte_stream ns" pre] ne by (simp add: bs)
  have "byte_stream ns = [] \<or> (\<exists>r. byte_stream ns = codeLong @ r \<and> r \<noteq> [])"
  proof (cases ns)
    case (Cons m ms)
    then have "m \<noteq> []" using rest by (auto simp: list_all2_Cons1 unit_ok_def)
    with Cons show ?thesis by (auto simp: byte_stream_def)
  qed (simp add: byte_stream_def)
  then have finish: "findEnd ?bs (length pre + 4) = length pre + 4 + length n"
    using findEnd_at [OF n(1), of "byte_stream ns" "pre @ codeLong"] unfolding bs lens by blast
  have nal: "parseNal ?bs (length pre + 4) (s, out) = Inr (s, out @ ts)"
    using parse [of "pre @ codeLong" "byte_stream ns" out] unfolding bs lens .
  have inside: "length pre < length ?bs" using ne by (simp add: bs code_defs)
  have step: "parse_loop parseNal ?bs breakOnFirst (length pre) (s, out) =
      (if breakOnFirst \<and> out @ ts \<noteq> [] then Inr (s, out @ ts)
       else parse_loop parseNal ?bs breakOnFirst (length pre + 4 + length n) (s, out @ ts))"
    using inside ne by (subst parse_loop.simps) (auto simp: start finish nal Let_def)
  have more: "parse_loop parseNal ?bs breakOnFirst (length pre + 4 + length n) (s, out @ ts) =
      Inr (s, if breakOnFirst then take 1 (concat tss') else (out @ ts) @ concat tss')"
    if "breakOnFirst \<longrightarrow> out @ ts = []"
    using Cons.IH [OF rest that, of "pre @ codeLong @ n"] lens by (simp add: bs add.assoc)
  show ?case
  proof (cases "breakOnFirst \<and> out @ ts \<noteq> []")
    case True
    then have "out = []" using Cons.prems(2) by simp
    with True n(2) obtain t where "ts = [t]" by (cases ts) auto
    with True \<open>out = []\<close> show ?thesis unfolding step tss by simp
  next
    case False
    then show ?thesis using more by (auto simp: step tss)
  qed
qed

text \<open>A unit of an H.264 stream and the slice types it carries.\<close>

definition h264_unit :: "bytes \<Rightarrow> SliceType list \<Rightarrow> bool" where
  "h264_unit n ts \<longleftrightarrow>
     (\<exists>h body. n = h # body \<and>
        (unat (h AND 31) \<in> {1, 5} \<and>
           (\<exists>a b rest. bits_of body = golomb a @ golomb b @ rest \<and> a + 1 < 2 ^ 32 \<and> b + 1 < 2 ^ 32 \<and>
              ts = [getSliceType b H264]) \<or>
         unat (h AND 31) \<notin> {1, 5} \<and> (unat (h AND 31) = 21 \<longrightarrow> body \<noteq> []) \<and> ts = []))"

lemma parseNal_unit:
  assumes "h264_unit n ts"
  shows "parseNal_H264 (pre @ n @ rest) (length pre) (s, out) = Inr (s, out @ ts)"
proof -
  let ?bs = "pre @ n @ rest"
  obtain h body where n: "n = h # body"
    and kind: "unat (h AND 31) \<in> {1, 5} \<and>
        (\<exists>a b r. bits_of body = golomb a @ golomb b @ r \<and> a + 1 < 2 ^ 32 \<and> b + 1 < 2 ^ 32 \<and>
           ts = [getSliceType b H264]) \<or>
      unat (h AND 31) \<notin> {1, 5} \<and> (unat (h AND 31) = 21 \<longrightarrow> body \<noteq> []) \<and> ts = []"
    using assms unfolding h264_unit_def by blast
  have header: "byte_at ?bs (length pre) = Inr h" by (simp add: byte_at_def n)
  have bits: "drop ((length pre + 1) * 8) (bits_of ?bs) = bits_of (body @ rest)"
  proof -
    have "bits_of ?bs = bits_of (pre @ [h]) @ bits_of (body @ rest)"
      by (simp add: n bits_of_append [symmetric])
    moreover have "length (bits_of (pre @ [h])) = (length pre + 1) * 8" by simp
    ultimately show ?thesis by (metis append_eq_conv_conj)
  qed
  from kind show ?thesis
  proof (elim disjE conjE exE)
    fix a b r
    assume t: "unat (h AND 31) \<in> {1, 5}" and ts: "ts = [getSliceType b H264]"
      and code: "bits_of body = golomb a @ golomb b @ r" "a + 1 < 2 ^ 32" "b + 1 < 2 ^ 32"
    have first: "readGE ?bs ((length pre + 1) * 8) = Inr (a, (length pre + 1) * 8 + length (golomb a))"
      using bits code(1) by (intro golomb_read [OF _ code(2)]) (simp add: bits_of_append)
    have "drop ((length pre + 1) * 8 + length (golomb a)) (bits_of ?bs) = drop (length (golomb a)) (bits_of (body @ rest))"
      using bits by (metis add.commute drop_drop)
    then have second: "readGE ?bs ((length pre + 1) * 8 + length (golomb a)) =
        Inr (b, (length pre + 1) * 8 + length (golomb a) + length (golomb b))"
      using code(1) by (intro golomb_read [OF _ code(3)]) (simp add: bits_of_append)
    show ?thesis using t first second by (auto simp: parseNal_H264_def header ts Let_def algebra_simps)
  next
    assume t: "unat (h AND 31) \<notin> {1, 5}" "unat (h AND 31) = 21 \<longrightarrow> body \<noteq> []" and ts: "ts = []"
    have "\<exists>v. readUint ?bs ((length pre + 1) * 8) ((length pre + 1) * 8 + 1) = Inr v" if "body \<noteq> []"
      using that by (subst readUint_slice) (auto simp: n Suc_le_eq)
    then show ?thesis using t by (auto simp: parseNal_H264_def header ts Let_def)
  qed
qed

text \<open>
  C37. The scan of an H.264 byte stream finds the slice types of its units in order: for every list
  of units that a stream can carry, each behind a long start code, the result is the type of each
  coded slice, read from the second Exp-Golomb number of its header, and nothing for the other
  units; with \<open>breakOnFirst\<close> it is the first type alone.
\<close>

theorem getTypesH264_finds_slices:
  assumes "\<forall>n \<in> set ns. unit_ok n" and "list_all2 h264_unit ns tss"
  shows "getTypesH264 (byte_stream ns) breakOnFirst =
    Inr (if breakOnFirst then take 1 (concat tss) else concat tss)"
proof -
  have "list_all2 (\<lambda>n ts. unit_ok n \<and> length ts \<le> 1 \<and>
      (\<forall>pre rest out. parseNal_H264 (pre @ n @ rest) (length pre) ((), out) = Inr ((), out @ ts))) ns tss"
    using assms(2) by (rule list.rel_mono_strong) (use assms(1) in \<open>auto simp: parseNal_unit h264_unit_def\<close>)
  from parse_stream [OF this, of breakOnFirst "[]" "[]"] show ?thesis
    by (simp add: getTypesH264_def parseBytestream_def)
qed

theorem getTypesH264_finds_slices_witness:
  "getTypesH264 (byte_stream [[0x67, 0x42], [0x65, 0x88], [0x41, 0xC0]]) False = Inr [SliceI, SliceP] \<and>
   getTypesH264 (byte_stream [[0x67, 0x42], [0x65, 0x88], [0x41, 0xC0]]) True = Inr [SliceI]"
proof -
  let ?ns = "[[0x67, 0x42], [0x65, 0x88], [0x41, 0xC0]] :: bytes list"
  have units: "\<forall>n \<in> set ?ns. unit_ok n" by (auto simp: unit_ok_def)
  have "golomb 7 = [False, False, False, True, False, False, False]" "golomb 0 = [True]"
    by (simp_all add: golomb_def to_bits.simps)
  then have "bits_of [0x88] = golomb 0 @ golomb 7 @ []"
    "bits_of [0xC0] = golomb 0 @ golomb 0 @ [False, False, False, False, False, False]"
    by (simp_all add: bits_of_def upt_rec)
  then have "h264_unit [0x65, 0x88] [getSliceType 7 H264]" "h264_unit [0x41, 0xC0] [getSliceType 0 H264]"
    unfolding h264_unit_def by fastforce+
  moreover have "h264_unit [0x67, 0x42] []" by (simp add: h264_unit_def)
  ultimately have "list_all2 h264_unit ?ns [[], [SliceI], [SliceP]]" by (simp add: getSliceType_def)
  from getTypesH264_finds_slices [OF units this] show ?thesis by simp
qed

section \<open>Behaviour at the edges\<close>

lemma findEnd_le: "pos < findEnd bs pos \<Longrightarrow> findEnd bs pos \<le> length bs"
  by (auto simp: findEnd_def find_Some_iff split: option.splits)

lemma findStart_after_code:
  assumes "findStart bs pos < length bs"
  shows "3 \<le> findStart bs pos \<and> bs ! (findStart bs pos - 3) = 0 \<and> bs ! (findStart bs pos - 2) = 0 \<and>
    bs ! (findStart bs pos - 1) = 1"
proof -
  obtain i where i: "scodeEq bs i codeLong \<and> findStart bs pos = i + 4 \<or>
      scodeEq bs i codeShort \<and> findStart bs pos = i + 3"
    using assms by (auto simp: findStart_def find_Some_iff split: option.splits if_splits)
  moreover have "i + 4 - 2 = i + 2" "i + 4 - 1 = i + 3" "i + 3 - 2 = i + 1" "i + 3 - 1 = i + 2" by simp_all
  ultimately show ?thesis by (auto simp: scodeEq_long scodeEq_short add.commute [of 3])
qed

text \<open>
  The scan ends for every stream, whatever the bytes: the positions it hands to the NAL
  parser increase, each lies inside the stream, and each comes right after a start code.
\<close>

theorem scan_visits_units:
  "\<exists>starts. parse_loop (\<lambda>bs start (s, out). Inr (s @ [start], out)) bs False 0 ([], []) = Inr (starts, []) \<and>
     sorted_wrt (<) starts \<and>
     list_all (\<lambda>i. i < length bs \<and> 3 \<le> i \<and> bs ! (i - 3) = 0 \<and> bs ! (i - 2) = 0 \<and> bs ! (i - 1) = 1) starts"
proof -
  define good where
    "good = (\<lambda>i. i < length bs \<and> 3 \<le> i \<and> bs ! (i - 3) = 0 \<and> bs ! (i - 2) = 0 \<and> bs ! (i - 1) = 1)"
  have "\<exists>starts. parse_loop (\<lambda>bs start (s, out). Inr (s @ [start], out)) bs False pos (seen, []) =
      Inr (seen @ starts, []) \<and> sorted_wrt (<) starts \<and> list_all (\<lambda>i. pos \<le> i \<and> good i) starts" for pos seen
  proof (induction "length bs - pos" arbitrary: pos seen rule: less_induct)
    case less
    let ?start = "findStart bs pos" and ?stop = "findEnd bs (findStart bs pos)"
    show ?case
    proof (cases "pos < length bs \<and> ?start < ?stop")
      case False
      then show ?thesis by (intro exI [of _ "[]"]) (subst parse_loop.simps, auto simp: Let_def)
    next
      case True
      then have pos: "pos \<le> ?start" "?start < ?stop" "pos < length bs" using findStart_ge [of pos bs] by auto
      have fin: "?stop \<le> length bs" using pos(2) findEnd_le [of ?start bs] by linarith
      have "good ?start" using findStart_after_code [of bs pos] pos(2) fin by (simp add: good_def)
      have "length bs - ?stop < length bs - pos" using pos fin by linarith
      then obtain starts where rest:
        "parse_loop (\<lambda>bs start (s, out). Inr (s @ [start], out)) bs False ?stop (seen @ [?start], []) =
           Inr ((seen @ [?start]) @ starts, [])"
        "sorted_wrt (<) starts" "list_all (\<lambda>i. ?stop \<le> i \<and> good i) starts"
        using less.hyps [of ?stop "seen @ [?start]"] by blast
      have "parse_loop (\<lambda>bs start (s, out). Inr (s @ [start], out)) bs False pos (seen, []) =
          Inr (seen @ ?start # starts, [])"
        using pos rest(1) by (subst parse_loop.simps) (simp add: Let_def)
      moreover have "sorted_wrt (<) (?start # starts)" using rest(2,3) pos(2) by (auto simp: list_all_iff)
      moreover have "list_all (\<lambda>i. pos \<le> i \<and> good i) (?start # starts)"
        using rest(3) pos \<open>good ?start\<close> by (auto simp: list_all_iff)
      ultimately show ?thesis by blast
    qed
  qed
  from this [of 0 "[]"] show ?thesis by (auto simp: good_def list_all_iff)
qed

text \<open>
  Two consequences of the code as it is: an empty unit ends the scan, so that the slices behind it
  are not seen; and the size of a picture in coding tree blocks is rounded down, so that the slice
  address of a picture one block and a bit wide has the length of a smaller picture.
\<close>

lemma empty_unit_ends_scan:
  "getTypesH264 (codeLong @ codeLong @ [0x65, 0x88, 0x80]) False = Inr []"
  by (simp add: getTypesH264_def parseBytestream_def parse_loop.simps findStart_def findEnd_def code_defs
      scodeEq_def upt_rec)

lemma slice_address_rounds_down:
  "slice_address_length (H265Parser_new\<lparr>picWidthInLumaSamples := 130, picHeightInLumaSamples := 64,
      log2MinLumaCodingBlockSizeMinus3 := 0, log2DiffMaxMinLumaCodingBlockSize := 3\<rparr>) = Inr 1"
  by (simp add: slice_address_length_def H265Parser_new_def Let_def ceil_log2.simps)

end
