(* ===== verification/EventAggregation.thy ===== *)
theory EventAggregation
  imports EventDispatcher CircularBuffer "HOL-Library.AList" "HOL-Library.Multiset"
begin

text \<open>
  The aggregation of pipeline events (src/pipeline/node/internal/PipelineEventAggregation.cpp,
  include/depthai/pipeline/datatype/PipelineState.hpp): the statistics kept per node over the
  circular buffers, the handler that feeds them, the state message with its filter and the main
  loop of the node. Times are nanoseconds of the steady clock, readings of the clock are
  arguments. The float \<open>fps\<close> of a timing is left out (its buffers and the calls that can fail are
  kept), and the square root of the standard deviation is the argument \<open>sd\<close>.
\<close>

section \<open>The state of a node\<close>

record DurationEvent =
  du_startEvent :: PipelineEvent
  durationUs :: u64

record DurationStats =
  minMicros :: u64
  maxMicros :: u64
  averageMicrosRecent :: u64
  stdDevMicrosRecent :: u64
  minMicrosRecent :: u64
  maxMicrosRecent :: u64
  medianMicrosRecent :: u64

definition DurationStats_default :: DurationStats where
  "DurationStats_default =
     \<lparr>minMicros = -1, maxMicros = 0, averageMicrosRecent = 0, stdDevMicrosRecent = 0,
      minMicrosRecent = -1, maxMicrosRecent = 0, medianMicrosRecent = 0\<rparr>"

definition timing_isValid :: "DurationStats \<Rightarrow> bool" where
  "timing_isValid t = (minMicros t \<le> maxMicros t)"

record QueueStats =
  maxQueued :: u32
  minQueuedRecent :: u32
  maxQueuedRecent :: u32
  medianQueuedRecent :: u32

definition QueueStats_default :: QueueStats where
  "QueueStats_default = \<lparr>maxQueued = 0, minQueuedRecent = 0, maxQueuedRecent = 0, medianQueuedRecent = 0\<rparr>"

datatype InputState = Input_IDLE | Input_WAITING | Input_BLOCKED

record InputQueueState =
  iq_state :: InputState
  iq_numQueued :: u32
  iq_timing :: DurationStats
  iq_queueStats :: QueueStats

definition InputQueueState_default :: InputQueueState where
  "InputQueueState_default =
     \<lparr>iq_state = Input_IDLE, iq_numQueued = 0, iq_timing = DurationStats_default, iq_queueStats = QueueStats_default\<rparr>"

datatype OutputState = Output_IDLE | Output_SENDING

record OutputQueueState =
  oq_state :: OutputState
  oq_timing :: DurationStats

definition OutputQueueState_default :: OutputQueueState where
  "OutputQueueState_default = \<lparr>oq_state = Output_IDLE, oq_timing = DurationStats_default\<rparr>"

datatype NodeActivity = Node_IDLE | Node_GETTING_INPUTS | Node_PROCESSING | Node_SENDING_OUTPUTS

record NodeState =
  ns_state :: NodeActivity
  ns_events :: "DurationEvent list"
  ns_outputStates :: "(string \<times> OutputQueueState) list"
  ns_inputStates :: "(string \<times> InputQueueState) list"
  ns_inputsGetTiming :: DurationStats
  ns_outputsSendTiming :: DurationStats
  ns_mainLoopTiming :: DurationStats
  ns_otherTimings :: "(string \<times> DurationStats) list"

definition NodeState_default :: NodeState where
  "NodeState_default =
     \<lparr>ns_state = Node_IDLE, ns_events = [], ns_outputStates = [], ns_inputStates = [],
      ns_inputsGetTiming = DurationStats_default, ns_outputsSendTiming = DurationStats_default,
      ns_mainLoopTiming = DurationStats_default, ns_otherTimings = []\<rparr>"

text \<open>\<open>m[k]\<close> of an \<open>unordered_map\<close>: a missing entry is default-constructed.\<close>

definition at_default :: "'v \<Rightarrow> ('k \<times> 'v) list \<Rightarrow> 'k \<Rightarrow> 'v" where
  "at_default d m k = (case map_of m k of Some v \<Rightarrow> v | None \<Rightarrow> d)"

section \<open>The buffers\<close>

text \<open>
  The code keeps, for each kind of data, one buffer for the main loop, one for the input blocks,
  one for the output blocks and a map from sources for inputs, outputs and custom events; a
  pointer may be null. \<open>by_get\<close> and \<open>by_put\<close> are the selections by \<open>event.type\<close>.
\<close>

record 'b by_type =
  by_loop :: "'b option"
  by_input :: "(string \<times> 'b) list"
  by_output :: "(string \<times> 'b) list"
  by_custom :: "(string \<times> 'b) list"
  by_input_block :: "'b option"
  by_output_block :: "'b option"

fun by_get :: "'b by_type \<Rightarrow> PipelineEvent_Type \<Rightarrow> string \<Rightarrow> 'b option" where
  "by_get m Type_LOOP src = by_loop m"
| "by_get m Type_INPUT src = map_of (by_input m) src"
| "by_get m Type_OUTPUT src = map_of (by_output m) src"
| "by_get m Type_CUSTOM src = map_of (by_custom m) src"
| "by_get m Type_INPUT_BLOCK src = by_input_block m"
| "by_get m Type_OUTPUT_BLOCK src = by_output_block m"

fun by_put :: "PipelineEvent_Type \<Rightarrow> string \<Rightarrow> 'b \<Rightarrow> 'b by_type \<Rightarrow> 'b by_type" where
  "by_put Type_LOOP src b m = m\<lparr>by_loop := Some b\<rparr>"
| "by_put Type_INPUT src b m = m\<lparr>by_input := AList.update src b (by_input m)\<rparr>"
| "by_put Type_OUTPUT src b m = m\<lparr>by_output := AList.update src b (by_output m)\<rparr>"
| "by_put Type_CUSTOM src b m = m\<lparr>by_custom := AList.update src b (by_custom m)\<rparr>"
| "by_put Type_INPUT_BLOCK src b m = m\<lparr>by_input_block := Some b\<rparr>"
| "by_put Type_OUTPUT_BLOCK src b m = m\<lparr>by_output_block := Some b\<rparr>"

definition by_ensure :: "nat \<Rightarrow> PipelineEvent_Type \<Rightarrow> string \<Rightarrow> 'a circular by_type \<Rightarrow> 'a circular" where
  "by_ensure n ty src m = (case by_get m ty src of Some b \<Rightarrow> b | None \<Rightarrow> CircularBuffer_new n)"

record NodeEventAggregation =
  na_windowSize :: nat
  na_statsUpdateIntervalMs :: nat
  na_eventWaitWindow :: nat
  na_state :: NodeState
  na_eventOffsetBuffer :: "int averaged"
  na_eventsBuffer :: "DurationEvent circular"
  na_timings :: "u64 circular by_type"
  na_fps :: "int circular by_type"
  na_ongoing :: "PipelineEvent option circular by_type"
  na_inputQueueSizes :: "(string \<times> u32 circular) list"
  na_lastUpdated :: int
  na_updated :: bool

definition loop_buffers :: "nat \<Rightarrow> 'a circular by_type" where
  "loop_buffers n =
     \<lparr>by_loop = Some (CircularBuffer_new n), by_input = [], by_output = [], by_custom = [],
      by_input_block = Some (CircularBuffer_new n), by_output_block = Some (CircularBuffer_new n)\<rparr>"

definition NodeEventAggregation_new :: "nat \<Rightarrow> nat \<Rightarrow> nat \<Rightarrow> NodeEventAggregation" where
  "NodeEventAggregation_new win interval wait =
     \<lparr>na_windowSize = win, na_statsUpdateIntervalMs = interval, na_eventWaitWindow = wait,
      na_state = NodeState_default,
      na_eventOffsetBuffer = WindowedAverageBuffer_new 10 0,
      na_eventsBuffer = CircularBuffer_new win,
      na_timings = loop_buffers win, na_fps = loop_buffers win,
      na_ongoing =
        \<lparr>by_loop = None, by_input = [], by_output = [], by_custom = [], by_input_block = None, by_output_block = None\<rparr>,
      na_inputQueueSizes = [], na_lastUpdated = 0, na_updated = False\<rparr>"

section \<open>Matching starts and ends\<close>

text \<open>
  \<open>findOngoingEvent\<close>: the loop over the reverse iterator. The result is the position in the vector
  the returned pointer points to.
\<close>

function findOngoing_loop :: "int \<Rightarrow> PipelineEvent option circular \<Rightarrow> nat \<Rightarrow> nat option" where
  "findOngoing_loop sq b pos =
     (if pos < length (buffer b) then
        (case rderef b pos of
           Some e \<Rightarrow>
             if ev_sequenceNum e = sq
             then Some ((cb_start b + length (buffer b) - 1 - pos) mod length (buffer b))
             else if ev_sequenceNum e < sq then None
             else findOngoing_loop sq b (pos + 1)
         | None \<Rightarrow> findOngoing_loop sq b (pos + 1))
      else None)"
  by pat_completeness auto
termination by (relation "measure (\<lambda>(sq, b, pos). length (buffer b) - pos)") auto

declare findOngoing_loop.simps [simp del]

definition findOngoingEvent :: "int \<Rightarrow> PipelineEvent option circular \<Rightarrow> nat option" where
  "findOngoingEvent sq b = findOngoing_loop sq b 0"

text \<open>The parameter of \<open>findOngoingEvent\<close> is a \<open>uint32_t\<close>, the numbers of the events are \<open>int64_t\<close>.\<close>

definition to_u32 :: "int \<Rightarrow> int" where
  "to_u32 i = i mod 2 ^ 32"

text \<open>\<open>duration_cast\<close> rounds towards zero; the count is stored in a \<open>uint64_t\<close>.\<close>

definition duration_cast :: "int \<Rightarrow> int \<Rightarrow> int" where
  "duration_cast unit d = sgn d * (\<bar>d\<bar> div unit)"

definition duration_event :: "PipelineEvent \<Rightarrow> PipelineEvent \<Rightarrow> DurationEvent" where
  "duration_event st e =
     \<lparr>du_startEvent = st, durationUs = word_of_int (duration_cast 1000 (ev_ts e - ev_ts st))\<rparr>"

definition record_duration ::
  "PipelineEvent \<Rightarrow> PipelineEvent \<Rightarrow> NodeEventAggregation \<Rightarrow> NodeEventAggregation result" where
  "record_duration st e n =
     (let ty = ev_type e; src = ev_source e; d = duration_event st e in
      bindR (cb_add d (na_eventsBuffer n)) (\<lambda>(evs, _).
      bindR (cb_add (durationUs d) (by_ensure (na_windowSize n) ty src (na_timings n))) (\<lambda>(tb, _).
      bindR (cb_add (ev_ts st) (by_ensure (na_windowSize n) ty src (na_fps n))) (\<lambda>(fb, _).
        Inr (n\<lparr>na_eventsBuffer := evs, na_timings := by_put ty src tb (na_timings n),
               na_fps := by_put ty src fb (na_fps n)\<rparr>)))))"

text \<open>\<open>Initialize buffers if they don't exist yet\<close>.\<close>

definition ensure_buffers :: "PipelineEvent \<Rightarrow> NodeEventAggregation \<Rightarrow> NodeEventAggregation" where
  "ensure_buffers e n =
     (let ty = ev_type e; src = ev_source e in
      n\<lparr>na_ongoing := by_put ty src (by_ensure (na_eventWaitWindow n) ty src (na_ongoing n)) (na_ongoing n),
        na_timings := by_put ty src (by_ensure (na_windowSize n) ty src (na_timings n)) (na_timings n),
        na_fps := by_put ty src (by_ensure (na_windowSize n) ty src (na_fps n)) (na_fps n)\<rparr>)"

definition push_ongoing :: "PipelineEvent \<Rightarrow> NodeEventAggregation \<Rightarrow> NodeEventAggregation result" where
  "push_ongoing e n =
     bindR (cb_add (Some e) (by_ensure (na_eventWaitWindow n) (ev_type e) (ev_source e) (na_ongoing n)))
       (\<lambda>(b, _). Inr (n\<lparr>na_ongoing := by_put (ev_type e) (ev_source e) b (na_ongoing n)\<rparr>))"

definition updateIntervalBuffers ::
  "PipelineEvent \<Rightarrow> NodeEventAggregation \<Rightarrow> (NodeEventAggregation \<times> bool) result" where
  "updateIntervalBuffers e n0 =
     (let n = ensure_buffers e n0;
          b = by_ensure (na_eventWaitWindow n) (ev_type e) (ev_source e) (na_ongoing n);
          hit = (case findOngoingEvent (to_u32 (ev_sequenceNum e)) b of
                   Some i \<Rightarrow> (case buffer b ! i of Some st \<Rightarrow> Some (i, st) | None \<Rightarrow> None)
                 | None \<Rightarrow> None)
      in case (hit, ev_interval e) of
           (Some (i, st), Interval_END) \<Rightarrow>
             bindR (record_duration st e n) (\<lambda>n'.
               Inr (n'\<lparr>na_ongoing :=
                      by_put (ev_type e) (ev_source e) (b\<lparr>buffer := (buffer b)[i := None]\<rparr>) (na_ongoing n')\<rparr>, True))
         | (_, Interval_START) \<Rightarrow> bindR (push_ongoing e n) (\<lambda>n'. Inr (n', False))
         | _ \<Rightarrow> Inr (n, False))"

definition PING_ERROR :: cpp_error where
  "PING_ERROR = RuntimeError ''INPUT and OUTPUT events should not be pings''"

definition updatePingBuffers ::
  "PipelineEvent \<Rightarrow> NodeEventAggregation \<Rightarrow> (NodeEventAggregation \<times> bool) result" where
  "updatePingBuffers e n0 =
     (if ev_type e \<noteq> Type_LOOP \<and> ev_type e \<noteq> Type_CUSTOM then Inl PING_ERROR
      else
        (let n = ensure_buffers e n0;
             b = by_ensure (na_eventWaitWindow n) (ev_type e) (ev_source e) (na_ongoing n);
             hit = (case findOngoingEvent (to_u32 (ev_sequenceNum e - 1)) b of
                      Some i \<Rightarrow> buffer b ! i
                    | None \<Rightarrow> None)
         in case hit of
              Some st \<Rightarrow> bindR (record_duration st e n) (\<lambda>n'. bindR (push_ongoing e n') (\<lambda>n''. Inr (n'', True)))
            | None \<Rightarrow> bindR (push_ongoing e n) (\<lambda>n'. Inr (n', False))))"

section \<open>Events\<close>

definition upd_input :: "string \<Rightarrow> (InputQueueState \<Rightarrow> InputQueueState) \<Rightarrow> NodeState \<Rightarrow> NodeState" where
  "upd_input src f s =
     s\<lparr>ns_inputStates := AList.update src (f (at_default InputQueueState_default (ns_inputStates s) src)) (ns_inputStates s)\<rparr>"

definition upd_output :: "string \<Rightarrow> (OutputQueueState \<Rightarrow> OutputQueueState) \<Rightarrow> NodeState \<Rightarrow> NodeState" where
  "upd_output src f s =
     s\<lparr>ns_outputStates := AList.update src (f (at_default OutputQueueState_default (ns_outputStates s) src)) (ns_outputStates s)\<rparr>"

text \<open>The states of the node and its queues; \<open>numQueued\<close> and the sizes are \<open>uint32_t\<close>.\<close>

definition add_queue_size :: "PipelineEvent \<Rightarrow> NodeEventAggregation \<Rightarrow> NodeEventAggregation result" where
  "add_queue_size e n =
     (case (ev_interval e, ev_queueSize e) of
        (Interval_START, _) \<Rightarrow> Inr n
      | (_, None) \<Rightarrow> Inr n
      | (_, Some q) \<Rightarrow>
          bindR (cb_add (word_of_nat q) (at_default (CircularBuffer_new (na_windowSize n)) (na_inputQueueSizes n) (ev_source e)))
            (\<lambda>(b, _). Inr (n\<lparr>na_state := upd_input (ev_source e) (iq_numQueued_update (\<lambda>_. word_of_nat q)) (na_state n),
                              na_inputQueueSizes := AList.update (ev_source e) b (na_inputQueueSizes n)\<rparr>)))"

definition input_activity :: "PipelineEvent \<Rightarrow> NodeState \<Rightarrow> NodeState" where
  "input_activity e s =
     (case ev_interval e of
        Interval_START \<Rightarrow> upd_input (ev_source e) (iq_state_update (\<lambda>_. Input_WAITING)) s
      | Interval_END \<Rightarrow> upd_input (ev_source e) (iq_state_update (\<lambda>_. Input_IDLE)) s
      | Interval_NONE \<Rightarrow>
          if ev_status e = Status_BLOCKED
          then upd_input (ev_source e) (iq_state_update (\<lambda>_. Input_BLOCKED)) s else s)"

definition output_activity :: "PipelineEvent \<Rightarrow> NodeState \<Rightarrow> NodeState" where
  "output_activity e s =
     (case ev_interval e of
        Interval_START \<Rightarrow> upd_output (ev_source e) (oq_state_update (\<lambda>_. Output_SENDING)) s
      | Interval_END \<Rightarrow> upd_output (ev_source e) (oq_state_update (\<lambda>_. Output_IDLE)) s
      | Interval_NONE \<Rightarrow> s)"

definition block_activity :: "NodeActivity \<Rightarrow> PipelineEvent \<Rightarrow> NodeState \<Rightarrow> NodeState" where
  "block_activity during e s =
     (case ev_interval e of
        Interval_START \<Rightarrow> s\<lparr>ns_state := during\<rparr>
      | Interval_END \<Rightarrow> s\<lparr>ns_state := Node_PROCESSING\<rparr>
      | Interval_NONE \<Rightarrow> s)"

definition update_activity :: "PipelineEvent \<Rightarrow> NodeEventAggregation \<Rightarrow> NodeEventAggregation result" where
  "update_activity e n =
     (case ev_type e of
        Type_CUSTOM \<Rightarrow> Inr n
      | Type_LOOP \<Rightarrow> Inr n
      | Type_INPUT \<Rightarrow> bindR (add_queue_size e n) (\<lambda>n'. Inr (n'\<lparr>na_state := input_activity e (na_state n')\<rparr>))
      | Type_OUTPUT \<Rightarrow> Inr (n\<lparr>na_state := output_activity e (na_state n)\<rparr>)
      | Type_INPUT_BLOCK \<Rightarrow> Inr (n\<lparr>na_state := block_activity Node_GETTING_INPUTS e (na_state n)\<rparr>)
      | Type_OUTPUT_BLOCK \<Rightarrow> Inr (n\<lparr>na_state := block_activity Node_SENDING_OUTPUTS e (na_state n)\<rparr>))"

definition update_buffers :: "PipelineEvent \<Rightarrow> NodeEventAggregation \<Rightarrow> NodeEventAggregation result" where
  "update_buffers e n =
     (if ev_interval e = Interval_NONE \<and> ev_type e \<noteq> Type_INPUT \<and> ev_type e \<noteq> Type_OUTPUT \<and> ev_status e = Status_SUCCESS
      then bindR (updatePingBuffers e n) (\<lambda>(n', _). Inr n')
      else if ev_interval e \<noteq> Interval_NONE \<and> ev_status e = Status_SUCCESS
      then bindR (updateIntervalBuffers e n) (\<lambda>(n', _). Inr n')
      else Inr n)"

definition agg_add :: "int \<Rightarrow> PipelineEvent \<Rightarrow> NodeEventAggregation \<Rightarrow> NodeEventAggregation result" where
  "agg_add now e n =
     bindR (avg_add (duration_cast 1000000 (now - ev_ts e)) (na_eventOffsetBuffer n)) (\<lambda>ob.
     bindR (update_activity e (n\<lparr>na_eventOffsetBuffer := ob\<rparr>)) (update_buffers e))"

section \<open>Statistics\<close>

text \<open>
  The differences are taken on \<open>uint64_t\<close>; \<open>sd\<close> is the rounded square root of the double sum of
  their squares over the number of values.
\<close>

definition median :: "'w::len word list \<Rightarrow> 'w word" where
  "median s =
     (let m = s ! (length s div 2) in
      if even (length s) then (m + s ! (length s div 2 - 1)) div 2 else m)"

definition updateTimingStats ::
  "(u64 list \<Rightarrow> u64) \<Rightarrow> u64 circular \<Rightarrow> DurationStats \<Rightarrow> DurationStats result" where
  "updateTimingStats sd b t =
     (if cb_size b = 0 then Inr t
      else bindR (cb_last b) (\<lambda>l.
        let vs = getBuffer b;
            avg = sum_list vs div word_of_nat (length vs);
            s = sort vs
        in Inr \<lparr>minMicros = min (minMicros t) l, maxMicros = max (maxMicros t) l,
                averageMicrosRecent = avg,
                stdDevMicrosRecent = sd (map (\<lambda>v. (v - avg) * (v - avg)) vs),
                minMicrosRecent = hd s, maxMicrosRecent = last s, medianMicrosRecent = median s\<rparr>))"

definition updateQueueStats :: "u32 circular \<Rightarrow> QueueStats \<Rightarrow> QueueStats" where
  "updateQueueStats b q =
     (if cb_size b = 0 then q
      else
        (let s = sort (getBuffer b) in
         \<lparr>maxQueued = max (maxQueued q) (last s), minQueuedRecent = hd s, maxQueuedRecent = last s,
          medianQueuedRecent = median s\<rparr>))"

text \<open>Of \<open>updateFpsStats\<close>, the call that can throw.\<close>

definition updateFpsStats :: "int averaged \<Rightarrow> int circular \<Rightarrow> unit result" where
  "updateFpsStats offs b = (if cb_size b < 2 then Inr () else bindR (getAverage offs) (\<lambda>_. Inr ()))"

definition deref_null :: "'b option \<Rightarrow> 'b result" where
  "deref_null p = (case p of Some b \<Rightarrow> Inr b | None \<Rightarrow> Inl (UndefinedBehaviour ''null buffer''))"

definition update_timing ::
  "(u64 list \<Rightarrow> u64) \<Rightarrow> NodeEventAggregation \<Rightarrow> PipelineEvent_Type \<Rightarrow> string \<Rightarrow> DurationStats \<Rightarrow> DurationStats result" where
  "update_timing sd n ty src t =
     bindR (deref_null (by_get (na_fps n) ty src)) (\<lambda>fb.
     bindR (updateFpsStats (na_eventOffsetBuffer n) fb) (\<lambda>_.
     bindR (deref_null (by_get (na_timings n) ty src)) (\<lambda>tb. updateTimingStats sd tb t)))"

definition update_input_stats ::
  "(u64 list \<Rightarrow> u64) \<Rightarrow> NodeEventAggregation \<Rightarrow> string \<Rightarrow> NodeState \<Rightarrow> NodeState result" where
  "update_input_stats sd n src s =
     bindR (update_timing sd n Type_INPUT src (iq_timing (at_default InputQueueState_default (ns_inputStates s) src))) (\<lambda>t.
       Inr (upd_input src (\<lambda>i. i\<lparr>iq_timing := t,
              iq_queueStats := (case map_of (na_inputQueueSizes n) src of
                                  Some b \<Rightarrow> updateQueueStats b (iq_queueStats i)
                                | None \<Rightarrow> iq_queueStats i)\<rparr>) s))"

fun update_stats_of ::
  "(u64 list \<Rightarrow> u64) \<Rightarrow> NodeEventAggregation \<Rightarrow> PipelineEvent_Type \<Rightarrow> NodeState \<Rightarrow> NodeState result" where
  "update_stats_of sd n Type_CUSTOM s =
     foldR (\<lambda>src s. bindR (update_timing sd n Type_CUSTOM src (at_default DurationStats_default (ns_otherTimings s) src)) (\<lambda>t.
         Inr (s\<lparr>ns_otherTimings := AList.update src t (ns_otherTimings s)\<rparr>)))
       (map fst (by_custom (na_timings n))) s"
| "update_stats_of sd n Type_LOOP s =
     bindR (update_timing sd n Type_LOOP [] (ns_mainLoopTiming s)) (\<lambda>t. Inr (s\<lparr>ns_mainLoopTiming := t\<rparr>))"
| "update_stats_of sd n Type_INPUT s =
     foldR (update_input_stats sd n) (map fst (by_input (na_timings n))) s"
| "update_stats_of sd n Type_OUTPUT s =
     foldR (\<lambda>src s. bindR (update_timing sd n Type_OUTPUT src (oq_timing (at_default OutputQueueState_default (ns_outputStates s) src))) (\<lambda>t.
         Inr (upd_output src (oq_timing_update (\<lambda>_. t)) s)))
       (map fst (by_output (na_timings n))) s"
| "update_stats_of sd n Type_INPUT_BLOCK s =
     bindR (update_timing sd n Type_INPUT_BLOCK [] (ns_inputsGetTiming s)) (\<lambda>t. Inr (s\<lparr>ns_inputsGetTiming := t\<rparr>))"
| "update_stats_of sd n Type_OUTPUT_BLOCK s =
     bindR (update_timing sd n Type_OUTPUT_BLOCK [] (ns_outputsSendTiming s)) (\<lambda>t. Inr (s\<lparr>ns_outputsSendTiming := t\<rparr>))"

text \<open>\<open>now\<close> and \<open>now'\<close> are the two readings of the clock.\<close>

definition updateStats ::
  "(u64 list \<Rightarrow> u64) \<Rightarrow> int \<Rightarrow> int \<Rightarrow> NodeEventAggregation \<Rightarrow> (NodeEventAggregation \<times> bool) result" where
  "updateStats sd now now' n =
     (if now - na_lastUpdated n \<ge> int (na_statsUpdateIntervalMs n) * 1000000 then
        bindR (foldR (update_stats_of sd (n\<lparr>na_lastUpdated := now'\<rparr>))
                 [Type_CUSTOM, Type_LOOP, Type_INPUT, Type_OUTPUT, Type_INPUT_BLOCK, Type_OUTPUT_BLOCK] (na_state n))
          (\<lambda>s. Inr (n\<lparr>na_state := s, na_lastUpdated := now', na_updated := True\<rparr>, True))
      else Inr (n, False))"

section \<open>The handler\<close>

type_synonym node_states = "(int \<times> NodeEventAggregation) list"

record PipelineEventHandler =
  peh_nodeStates :: node_states
  peh_aggregationWindowSize :: nat
  peh_statsUpdateIntervalMs :: nat
  peh_eventWaitWindow :: nat

definition PipelineEventHandler_new :: "nat \<Rightarrow> nat \<Rightarrow> nat \<Rightarrow> PipelineEventHandler" where
  "PipelineEventHandler_new win interval wait =
     \<lparr>peh_nodeStates = [], peh_aggregationWindowSize = win, peh_statsUpdateIntervalMs = interval, peh_eventWaitWindow = wait\<rparr>"

definition handle_event :: "int \<times> PipelineEvent \<Rightarrow> PipelineEventHandler \<Rightarrow> PipelineEventHandler result" where
  "handle_event nev h =
     (case nev of (now, e) \<Rightarrow>
        bindR (agg_add now e
            (at_default (NodeEventAggregation_new (peh_aggregationWindowSize h) (peh_statsUpdateIntervalMs h) (peh_eventWaitWindow h))
               (peh_nodeStates h) (ev_nodeId e)))
          (\<lambda>n. Inr (h\<lparr>peh_nodeStates := AList.update (ev_nodeId e) n (peh_nodeStates h)\<rparr>)))"

definition update_node ::
  "(u64 list \<Rightarrow> u64) \<Rightarrow> int \<Rightarrow> int \<Rightarrow> int \<times> NodeEventAggregation \<Rightarrow> node_states \<Rightarrow> node_states result" where
  "update_node sd now now' p acc =
     (case p of (i, n) \<Rightarrow> bindR (updateStats sd now now' n) (\<lambda>(n', _). Inr (acc @ [(i, n')])))"

text \<open>One pass of the loop of \<open>threadedRun\<close>, after \<open>getAny\<close> has delivered the events.\<close>

definition handler_turn ::
  "(u64 list \<Rightarrow> u64) \<Rightarrow> (int \<times> PipelineEvent) list \<Rightarrow> int \<Rightarrow> int \<Rightarrow> PipelineEventHandler \<Rightarrow> PipelineEventHandler result" where
  "handler_turn sd evs now now' h =
     bindR (foldR handle_event evs h) (\<lambda>h'.
     bindR (foldR (update_node sd now now') (peh_nodeStates h') []) (\<lambda>ns. Inr (h'\<lparr>peh_nodeStates := ns\<rparr>)))"

definition getState :: "bool \<Rightarrow> PipelineEventHandler \<Rightarrow> (int \<times> NodeState) list \<times> bool \<times> PipelineEventHandler" where
  "getState sendEvents h =
     (map (\<lambda>(i, n). (i, if sendEvents then (na_state n)\<lparr>ns_events := getBuffer (na_eventsBuffer n)\<rparr> else na_state n)) (peh_nodeStates h),
      list_ex (\<lambda>(i, n). na_updated n) (peh_nodeStates h),
      h\<lparr>peh_nodeStates := map (\<lambda>(i, n). (i, n\<lparr>na_updated := False\<rparr>)) (peh_nodeStates h)\<rparr>)"

section \<open>The state message\<close>

record NodeEventAggregationConfig =
  nc_nodeId :: int
  nc_inputs :: "string list option"
  nc_outputs :: "string list option"
  nc_others :: "string list option"
  nc_events :: bool

record PipelineEventAggregationConfig =
  ac_sequenceNum :: int
  ac_nodes :: "NodeEventAggregationConfig list"
  ac_repeatIntervalSeconds :: "nat option"

record PipelineState =
  ps_nodeStates :: "(int \<times> NodeState) list"
  ps_sequenceNum :: u32
  ps_configSequenceNum :: u32
  ps_ts :: int

text \<open>Clear the map and re-insert only the names of the configuration that were there.\<close>

definition reinsert :: "string list \<Rightarrow> (string \<times> 'v) list \<Rightarrow> (string \<times> 'v) list" where
  "reinsert names m =
     fold (\<lambda>k acc. case map_of m k of Some v \<Rightarrow> AList.update k v acc | None \<Rightarrow> acc) names []"

definition filter_map :: "string list option \<Rightarrow> (string \<times> 'v) list \<Rightarrow> (string \<times> 'v) list" where
  "filter_map names m = (case names of Some ns \<Rightarrow> reinsert ns m | None \<Rightarrow> m)"

definition filter_node :: "NodeEventAggregationConfig list \<Rightarrow> int \<times> NodeState \<Rightarrow> (int \<times> NodeState) option" where
  "filter_node cfgs p =
     (case p of (i, s) \<Rightarrow>
        map_option (\<lambda>c. (i, s\<lparr>ns_inputStates := filter_map (nc_inputs c) (ns_inputStates s),
                              ns_outputStates := filter_map (nc_outputs c) (ns_outputStates s),
                              ns_otherTimings := filter_map (nc_others c) (ns_otherTimings s)\<rparr>))
          (find (\<lambda>c. nc_nodeId c = i) cfgs))"

definition makeOutputState ::
  "PipelineEventHandler \<Rightarrow> PipelineEventAggregationConfig option \<Rightarrow> u32 \<Rightarrow> bool \<Rightarrow> int \<Rightarrow>
     PipelineState \<times> bool \<times> PipelineEventHandler" where
  "makeOutputState h cfg sq sendEvents now =
     (case getState sendEvents h of (nodes, updated, h') \<Rightarrow>
        (\<lparr>ps_nodeStates =
            (case cfg of
               Some c \<Rightarrow> if ac_nodes c = [] then nodes else List.map_filter (filter_node (ac_nodes c)) nodes
             | None \<Rightarrow> nodes),
          ps_sequenceNum = sq,
          ps_configSequenceNum = (case cfg of Some c \<Rightarrow> word_of_int (ac_sequenceNum c) | None \<Rightarrow> 0),
          ps_ts = now\<rparr>, updated, h'))"

section \<open>The main loop\<close>

record agg_run =
  ar_currentConfig :: "PipelineEventAggregationConfig option"
  ar_traceOutputConfig :: "PipelineEventAggregationConfig option"
  ar_sequenceNum :: u32
  ar_lastSentTime :: int

definition agg_run_init :: agg_run where
  "agg_run_init = \<lparr>ar_currentConfig = None, ar_traceOutputConfig = None, ar_sequenceNum = 0, ar_lastSentTime = 0\<rparr>"

definition repeat_of :: "PipelineEventAggregationConfig option \<Rightarrow> nat option" where
  "repeat_of cfg = Option.bind cfg ac_repeatIntervalSeconds"

definition repeat_due :: "PipelineEventAggregationConfig option \<Rightarrow> int \<Rightarrow> int \<Rightarrow> bool" where
  "repeat_due cfg last_sent now =
     (case repeat_of cfg of Some r \<Rightarrow> now - last_sent \<ge> int r * 1000000000 | None \<Rightarrow> False)"

text \<open>
  One pass of the loop of \<open>run\<close>: \<open>req\<close> is what \<open>request.get\<close> returned, \<open>h\<close> the handler as the other
  thread left it. The result has the message sent, if any.
\<close>

definition agg_turn ::
  "bool \<Rightarrow> PipelineEventAggregationConfig option \<Rightarrow> int \<Rightarrow> PipelineEventHandler \<Rightarrow> agg_run \<Rightarrow>
     agg_run \<times> PipelineEventHandler \<times> PipelineState option" where
  "agg_turn traceOutput req now h r =
     (let got = (req \<noteq> None);
          cfg = (case req of Some c \<Rightarrow> Some c | None \<Rightarrow> ar_currentConfig r);
          r = r\<lparr>ar_currentConfig := cfg\<rparr>
      in if traceOutput \<and> ar_traceOutputConfig r = None \<and> got \<and> repeat_of cfg \<noteq> None
         then (r\<lparr>ar_traceOutputConfig := cfg, ar_currentConfig := None\<rparr>, h, None)
         else if got \<or> repeat_due cfg (ar_lastSentTime r) now then
           (let sendEvents = (case cfg of Some c \<Rightarrow> list_ex nc_events (ac_nodes c) | None \<Rightarrow> False) in
            case makeOutputState h cfg (ar_sequenceNum r) sendEvents now of
              (out, updated, h') \<Rightarrow>
                (let r' = r\<lparr>ar_sequenceNum := ar_sequenceNum r + 1\<rparr> in
                 if got \<or> (updated \<and> repeat_due cfg (ar_lastSentTime r) now)
                 then (r'\<lparr>ar_lastSentTime := now\<rparr>, h', Some out)
                 else (r', h', None)))
         else (r, h, None))"

section \<open>Buffers by type\<close>

definition same_slot :: "PipelineEvent_Type \<Rightarrow> string \<Rightarrow> PipelineEvent_Type \<Rightarrow> string \<Rightarrow> bool" where
  "same_slot ty src ty' src' =
     (ty = ty' \<and> (ty = Type_LOOP \<or> ty = Type_INPUT_BLOCK \<or> ty = Type_OUTPUT_BLOCK \<or> src = src'))"

lemma by_get_put: "by_get (by_put ty src b m) ty' src' = (if same_slot ty src ty' src' then Some b else by_get m ty' src')"
  by (cases ty; cases ty') (auto simp: same_slot_def update_conv)

lemma same_slot_refl [simp]: "same_slot ty src ty src"
  by (simp add: same_slot_def)

lemma same_slot_get: "same_slot ty src ty' src' \<Longrightarrow> by_get m ty src = by_get m ty' src'"
  by (cases ty) (auto simp: same_slot_def)

lemma same_slot_sym: "same_slot ty src ty' src' \<longleftrightarrow> same_slot ty' src' ty src"
  by (auto simp: same_slot_def)

lemma cb_add_push: "cb_ok b \<Longrightarrow> \<exists>i. cb_add x b = Inr (cb_push x b, i)"
  using cb_add_total [of b x] by (auto simp: cb_push_def)

text \<open>The buffers of one kind: all of them are windows of size \<open>n\<close>.\<close>

definition by_ok :: "nat \<Rightarrow> 'a circular by_type \<Rightarrow> bool" where
  "by_ok n m = (\<forall>ty src b. by_get m ty src = Some b \<longrightarrow> cb_ok b \<and> maxSize b = n)"

lemma by_ok_put: "by_ok n m \<Longrightarrow> cb_ok b \<Longrightarrow> maxSize b = n \<Longrightarrow> by_ok n (by_put ty src b m)"
  by (auto simp: by_ok_def by_get_put split: if_splits)

lemma cb_new_ok [simp]: "0 < n \<Longrightarrow> cb_ok (CircularBuffer_new n)"
  by (simp add: cb_ok_def CircularBuffer_new_def)

lemma cb_new_frame [simp]:
  "maxSize (CircularBuffer_new n) = n" "buffer (CircularBuffer_new n) = []" "getBuffer (CircularBuffer_new n) = []"
  by (simp_all add: CircularBuffer_new_def getBuffer_def)

lemma by_ok_ensure: "by_ok n m \<Longrightarrow> 0 < n \<Longrightarrow> cb_ok (by_ensure n ty src m) \<and> maxSize (by_ensure n ty src m) = n"
  by (auto simp: by_ok_def by_ensure_def split: option.splits)

lemma by_ensure_put: "by_ensure n ty src (by_put ty' src' b m) = (if same_slot ty' src' ty src then b else by_ensure n ty src m)"
  by (auto simp: by_ensure_def by_get_put)

lemma by_ok_push: "by_ok n m \<Longrightarrow> 0 < n \<Longrightarrow> by_ok n (by_put ty src (cb_push x (by_ensure n ty src m)) m)"
  using by_ok_ensure [of n m ty src] by (intro by_ok_put) (simp_all add: cbw.ok_insert cbw.capacity_insert)

section \<open>The invariant of the aggregation\<close>

definition na_ok :: "NodeEventAggregation \<Rightarrow> bool" where
  "na_ok n = (0 < na_windowSize n \<and> 0 < na_eventWaitWindow n \<and>
     avg_ok 0 (na_eventOffsetBuffer n) \<and>
     cb_ok (na_eventsBuffer n) \<and> maxSize (na_eventsBuffer n) = na_windowSize n \<and>
     by_ok (na_windowSize n) (na_timings n) \<and> by_ok (na_windowSize n) (na_fps n) \<and>
     by_ok (na_eventWaitWindow n) (na_ongoing n) \<and>
     (\<forall>src b. map_of (na_inputQueueSizes n) src = Some b \<longrightarrow> cb_ok b \<and> maxSize b = na_windowSize n) \<and>
     (\<forall>ty src. by_get (na_timings n) ty src \<noteq> None \<longrightarrow> by_get (na_fps n) ty src \<noteq> None) \<and>
     (\<forall>ty src. ty = Type_LOOP \<or> ty = Type_INPUT_BLOCK \<or> ty = Type_OUTPUT_BLOCK \<longrightarrow> by_get (na_timings n) ty src \<noteq> None) \<and>
     (buffer (na_eventOffsetBuffer n) = [] \<longrightarrow> (\<forall>ty src b. by_get (na_fps n) ty src = Some b \<longrightarrow> buffer b = [])))"

lemma by_get_loop_buffers:
  "by_get (loop_buffers n) ty src =
     (if ty = Type_LOOP \<or> ty = Type_INPUT_BLOCK \<or> ty = Type_OUTPUT_BLOCK then Some (CircularBuffer_new n) else None)"
  by (cases ty) (simp_all add: loop_buffers_def)

lemma by_get_none: "by_get \<lparr>by_loop = None, by_input = [], by_output = [], by_custom = [], by_input_block = None, by_output_block = None\<rparr> ty src = None"
  by (cases ty) simp_all

lemma forget_sum_new [simp]: "forget_sum (WindowedAverageBuffer_new n c) = CircularBuffer_new n"
  by (simp add: forget_sum_def WindowedAverageBuffer_new_def CircularBuffer_new_def)

lemma na_ok_new: "0 < win \<Longrightarrow> 0 < wait \<Longrightarrow> na_ok (NodeEventAggregation_new win interval wait)"
proof -
  assume n: "0 < win" "0 < wait"
  have "avg_ok 0 (WindowedAverageBuffer_new 10 0)"
    unfolding avg_ok_def forget_sum_new by (simp add: WindowedAverageBuffer_new_def)
  with n show ?thesis
    by (simp add: na_ok_def NodeEventAggregation_new_def by_ok_def by_get_loop_buffers by_get_none)
qed

lemma avg_add_ok:
  assumes "avg_ok c b"
  obtains b' where "avg_add x b = Inr b'" and "avg_ok c b'" and "buffer b' \<noteq> []"
proof -
  from avg_add_refines [OF assms, of x] obtain b' where
    b': "avg_add x b = Inr b'" "forget_sum b' = cb_push x (forget_sum b)" "avg_ok c b'" by blast
  have "buffer b' = buffer (cb_push x (forget_sum b))" using b'(2) by (metis circular.select_convs(1) forget_sum_def)
  then have "buffer b' \<noteq> []"
    using assms by (auto simp: avg_ok_def cb_push_cases forget_sum_def cb_ok_def)
  with b' that show thesis by blast
qed

lemma na_ok_frame [simp]:
  "na_ok (n\<lparr>na_state := s\<rparr>) = na_ok n" "na_ok (n\<lparr>na_lastUpdated := t\<rparr>) = na_ok n" "na_ok (n\<lparr>na_updated := u\<rparr>) = na_ok n"
  by (simp_all add: na_ok_def)

lemma na_ok_ongoing: "na_ok n \<Longrightarrow> by_ok (na_eventWaitWindow n) m \<Longrightarrow> na_ok (n\<lparr>na_ongoing := m\<rparr>)"
  by (simp add: na_ok_def)

lemma na_ok_ensure:
  assumes "na_ok n"
  shows "na_ok (ensure_buffers e n)"
proof -
  have "buffer (by_ensure (na_windowSize n) (ev_type e) (ev_source e) (na_fps n)) = []"
    if "buffer (na_eventOffsetBuffer n) = []"
    using assms that by (auto simp: na_ok_def by_ensure_def split: option.splits)
  with assms show ?thesis
    by (auto simp: na_ok_def ensure_buffers_def Let_def by_get_put by_ok_ensure intro!: by_ok_put split: if_splits)
qed

lemma by_ensure_ensured [simp]:
  "by_ensure (na_eventWaitWindow n) (ev_type e) (ev_source e) (na_ongoing (ensure_buffers e n)) =
     by_ensure (na_eventWaitWindow n) (ev_type e) (ev_source e) (na_ongoing n)"
  "by_ensure (na_windowSize n) (ev_type e) (ev_source e) (na_timings (ensure_buffers e n)) =
     by_ensure (na_windowSize n) (ev_type e) (ev_source e) (na_timings n)"
  by (simp_all add: ensure_buffers_def Let_def by_ensure_put)

lemma ensure_buffers_frame [simp]:
  "na_windowSize (ensure_buffers e n) = na_windowSize n"
  "na_eventWaitWindow (ensure_buffers e n) = na_eventWaitWindow n"
  "na_eventOffsetBuffer (ensure_buffers e n) = na_eventOffsetBuffer n"
  "na_eventsBuffer (ensure_buffers e n) = na_eventsBuffer n"
  by (simp_all add: ensure_buffers_def Let_def)

lemma record_duration_ok:
  assumes "na_ok n" and "buffer (na_eventOffsetBuffer n) \<noteq> []"
  obtains n' where "record_duration st e n = Inr n'" and "na_ok n'" and "na_ongoing n' = na_ongoing n"
    and "na_eventOffsetBuffer n' = na_eventOffsetBuffer n" and "na_eventWaitWindow n' = na_eventWaitWindow n"
    and "na_windowSize n' = na_windowSize n"
    and "na_eventsBuffer n' = cb_push (duration_event st e) (na_eventsBuffer n)"
    and "by_get (na_timings n') (ev_type e) (ev_source e) =
       Some (cb_push (durationUs (duration_event st e)) (by_ensure (na_windowSize n) (ev_type e) (ev_source e) (na_timings n)))"
proof -
  let ?d = "duration_event st e" and ?w = "na_windowSize n" and ?ty = "ev_type e" and ?src = "ev_source e"
  have ok: "0 < ?w" "by_ok ?w (na_timings n)" "by_ok ?w (na_fps n)" "cb_ok (na_eventsBuffer n)"
    using assms(1) by (simp_all add: na_ok_def)
  obtain i j k where adds: "cb_add ?d (na_eventsBuffer n) = Inr (cb_push ?d (na_eventsBuffer n), i)"
    "cb_add (durationUs ?d) (by_ensure ?w ?ty ?src (na_timings n)) = Inr (cb_push (durationUs ?d) (by_ensure ?w ?ty ?src (na_timings n)), j)"
    "cb_add (ev_ts st) (by_ensure ?w ?ty ?src (na_fps n)) = Inr (cb_push (ev_ts st) (by_ensure ?w ?ty ?src (na_fps n)), k)"
    using cb_add_push ok by_ok_ensure by metis
  let ?n = "n\<lparr>na_eventsBuffer := cb_push ?d (na_eventsBuffer n),
    na_timings := by_put ?ty ?src (cb_push (durationUs ?d) (by_ensure ?w ?ty ?src (na_timings n))) (na_timings n),
    na_fps := by_put ?ty ?src (cb_push (ev_ts st) (by_ensure ?w ?ty ?src (na_fps n))) (na_fps n)\<rparr>"
  have "record_duration st e n = Inr ?n" using adds by (simp add: record_duration_def Let_def)
  moreover have "na_ok ?n"
    using assms ok by (simp add: na_ok_def by_ok_push cbw.ok_insert cbw.capacity_insert by_get_put)
  ultimately show thesis by (rule that) (simp_all add: by_get_put)
qed

definition ongoing_pushed :: "PipelineEvent \<Rightarrow> NodeEventAggregation \<Rightarrow> NodeEventAggregation" where
  "ongoing_pushed e n = n\<lparr>na_ongoing := by_put (ev_type e) (ev_source e)
      (cb_push (Some e) (by_ensure (na_eventWaitWindow n) (ev_type e) (ev_source e) (na_ongoing n))) (na_ongoing n)\<rparr>"

lemma push_ongoing_ok:
  assumes "na_ok n"
  shows "push_ongoing e n = Inr (ongoing_pushed e n)" and "na_ok (ongoing_pushed e n)"
proof -
  have ok: "by_ok (na_eventWaitWindow n) (na_ongoing n)" "0 < na_eventWaitWindow n"
    using assms by (simp_all add: na_ok_def)
  show "push_ongoing e n = Inr (ongoing_pushed e n)"
    using cb_add_push [OF conjunct1 [OF by_ok_ensure [OF ok]], of "Some e" "ev_type e" "ev_source e"]
    by (auto simp: push_ongoing_def ongoing_pushed_def)
  show "na_ok (ongoing_pushed e n)"
    unfolding ongoing_pushed_def by (rule na_ok_ongoing [OF assms by_ok_push [OF ok]])
qed

section \<open>Finding the ongoing event\<close>

text \<open>Position \<open>p\<close> of the window in the vector.\<close>

definition phys :: "'a circular \<Rightarrow> nat \<Rightarrow> nat" where
  "phys b p = (cb_start b + p) mod length (buffer b)"

lemma phys_less: "p < length (buffer b) \<Longrightarrow> phys b p < length (buffer b)"
  unfolding phys_def by (rule mod_less_divisor) (cases "buffer b", simp_all)

lemma getBuffer_phys: "cb_ok b \<Longrightarrow> p < length (buffer b) \<Longrightarrow> buffer b ! phys b p = getBuffer b ! p"
  by (simp add: getBuffer_nth phys_def)

lemma phys_inj:
  assumes "p < length (buffer b)" and "q < length (buffer b)" and "phys b p = phys b q"
  shows "p = q"
proof -
  have "p = q" if "p \<le> q" and "q < n" and "(s + p) mod n = (s + q) mod n" for p q s n :: nat
  proof -
    have "n dvd q - p" using that(1,3) mod_eq_dvd_iff_nat [of "s + p" "s + q" n] by simp
    with that(1,2) show ?thesis using dvd_imp_le [of n "q - p"] by fastforce
  qed
  with assms show ?thesis unfolding phys_def by (metis nle_le)
qed

lemma phys_rev:
  assumes "pos < length (buffer b)"
  shows "(cb_start b + length (buffer b) - 1 - pos) mod length (buffer b) = phys b (length (buffer b) - 1 - pos)"
  using assms by (simp add: phys_def)

lemma getBuffer_set:
  assumes "cb_ok b" and "p < length (buffer b)"
  shows "getBuffer (b\<lparr>buffer := (buffer b)[phys b p := v]\<rparr>) = (getBuffer b)[p := v]"
proof (rule nth_equalityI)
  let ?b = "b\<lparr>buffer := (buffer b)[phys b p := v]\<rparr>"
  have ok: "cb_ok ?b" using assms(1) by (simp add: cb_ok_def)
  then show "length (getBuffer ?b) = length ((getBuffer b)[p := v])" using assms(1) by simp
  fix q
  assume "q < length (getBuffer ?b)"
  with ok have q: "q < length (buffer b)" by simp
  then have "getBuffer ?b ! q = (buffer b)[phys b p := v] ! phys b q"
    using getBuffer_nth [OF ok, of q] by (simp add: phys_def cb_start_def)
  also have "\<dots> = (getBuffer b)[p := v] ! q"
    using q assms phys_less [OF assms(2)] phys_inj [OF assms(2) q] getBuffer_phys [OF assms(1) q]
    by (auto simp: nth_list_update)
  finally show "getBuffer ?b ! q = (getBuffer b)[p := v] ! q" .
qed

lemma findOngoing_found:
  assumes "cb_ok b" and "findOngoing_loop sq b pos = Some i"
  shows "\<exists>p e. p < length (buffer b) \<and> i = phys b p \<and> getBuffer b ! p = Some e \<and> ev_sequenceNum e = sq"
  using assms
proof (induction sq b pos rule: findOngoing_loop.induct)
  case (1 sq b pos)
  note eq = "1.prems"(2) [unfolded findOngoing_loop.simps [of sq b pos]]
  have pos: "pos < length (buffer b)" using eq by (simp split: if_splits)
  let ?p = "length (buffer b) - 1 - pos"
  have r: "rderef b pos = getBuffer b ! ?p" by (rule rderef_deref [OF "1.prems"(1) pos])
  show ?case
  proof (cases "rderef b pos")
    case None
    with eq pos "1.IH"(1) [OF pos None "1.prems"(1)] show ?thesis by simp
  next
    case (Some e)
    show ?thesis
    proof (cases "ev_sequenceNum e = sq")
      case True
      with eq pos Some phys_rev [OF pos] have "i = phys b ?p" by simp
      with True Some r pos show ?thesis by (intro exI [of _ ?p]) auto
    next
      case False
      with eq pos Some "1.IH"(2) [OF pos Some False _ "1.prems"(1)] show ?thesis by (simp split: if_splits)
    qed
  qed
qed

text \<open>The newest entry with the number is found when every later entry is empty or has a larger number.\<close>

lemma findOngoing_finds:
  assumes "cb_ok b" and "getBuffer b = xs @ Some e # ys" and "ev_sequenceNum e = sq"
    and "\<And>x. Some x \<in> set ys \<Longrightarrow> sq < ev_sequenceNum x"
    and "pos \<le> length ys"
  shows "findOngoing_loop sq b pos = Some (phys b (length xs))"
  using assms(5)
proof (induction "length ys - pos" arbitrary: pos)
  case 0
  have len: "length (buffer b) = length xs + 1 + length ys" using assms(1,2) length_getBuffer [of b] by simp
  with 0 have pos: "pos = length ys" "pos < length (buffer b)" "length (buffer b) - 1 - pos = length xs" by simp_all
  with rderef_deref [OF assms(1), of pos] assms(2) have "rderef b pos = Some e" by simp
  with pos phys_rev [of pos b] assms(3) show ?case by (subst findOngoing_loop.simps) simp
next
  case (Suc k)
  have len: "length (buffer b) = length xs + 1 + length ys" using assms(1,2) length_getBuffer [of b] by simp
  from Suc.hyps(2) have pos: "pos < length ys" "pos < length (buffer b)"
    "length (buffer b) - 1 - pos = length xs + 1 + (length ys - 1 - pos)" using len by simp_all
  have "(xs @ Some e # ys) ! (length xs + 1 + k) = ys ! k" for k by (simp add: nth_append)
  with rderef_deref [OF assms(1) pos(2)] have r: "rderef b pos = ys ! (length ys - 1 - pos)"
    unfolding assms(2) pos(3) by simp
  have "findOngoing_loop sq b (pos + 1) = Some (phys b (length xs))"
    using Suc.hyps(2) pos(1) by (intro Suc.hyps(1)) simp_all
  moreover have "sq < ev_sequenceNum x" if "rderef b pos = Some x" for x
    using assms(4) [of x] that r pos(1) nth_mem [of "length ys - 1 - pos" ys] by simp
  ultimately show ?case using pos(2) by (subst findOngoing_loop.simps) (force split: option.split)
qed

section \<open>What an event does\<close>

definition slot_buffer :: "NodeEventAggregation \<Rightarrow> PipelineEvent_Type \<Rightarrow> string \<Rightarrow> PipelineEvent option circular" where
  "slot_buffer n ty src = by_ensure (na_eventWaitWindow n) ty src (na_ongoing n)"

definition waiting :: "NodeEventAggregation \<Rightarrow> PipelineEvent_Type \<Rightarrow> string \<Rightarrow> PipelineEvent option list" where
  "waiting n ty src = getBuffer (slot_buffer n ty src)"

lemma slot_buffer_ok: "na_ok n \<Longrightarrow> cb_ok (slot_buffer n ty src) \<and> maxSize (slot_buffer n ty src) = na_eventWaitWindow n"
  using by_ok_ensure by (auto simp: na_ok_def slot_buffer_def)

lemma slot_buffer_same: "same_slot ty src ty' src' \<Longrightarrow> slot_buffer n ty src = slot_buffer n ty' src'"
  by (simp add: slot_buffer_def by_ensure_def same_slot_get [of ty src ty' src'])

lemma slot_buffer_ensured [simp]: "slot_buffer (ensure_buffers e n) ty src = slot_buffer n ty src"
proof (cases "same_slot (ev_type e) (ev_source e) ty src")
  case True
  with slot_buffer_same [OF True] show ?thesis
    by (simp add: slot_buffer_def ensure_buffers_def Let_def by_ensure_put)
qed (simp add: slot_buffer_def ensure_buffers_def Let_def by_ensure_put)

lemma slot_buffer_put:
  "slot_buffer (n\<lparr>na_ongoing := by_put ty src b (na_ongoing n)\<rparr>) ty' src' =
     (if same_slot ty src ty' src' then b else slot_buffer n ty' src')"
  by (simp add: slot_buffer_def by_ensure_put)

lemma slot_buffer_cong:
  "na_ongoing n' = na_ongoing n \<Longrightarrow> na_eventWaitWindow n' = na_eventWaitWindow n \<Longrightarrow> slot_buffer n' = slot_buffer n"
  by (simp add: slot_buffer_def fun_eq_iff)

text \<open>\<open>changes e w w'\<close>: what the event may do to the events waiting in its own slot.\<close>

definition changes :: "nat \<Rightarrow> PipelineEvent \<Rightarrow> PipelineEvent option list \<Rightarrow> PipelineEvent option list \<Rightarrow> bool" where
  "changes k e w w' = (case ev_interval e of
       Interval_END \<Rightarrow> w' = w \<or>
         (\<exists>p st. p < length w \<and> w ! p = Some st \<and> ev_sequenceNum st = to_u32 (ev_sequenceNum e) \<and> w' = w[p := None])
     | _ \<Rightarrow> w' = last_n k (w @ [Some e]))"

definition steps_to :: "PipelineEvent \<Rightarrow> NodeEventAggregation \<Rightarrow> NodeEventAggregation \<Rightarrow> bool" where
  "steps_to e n n' = (na_ok n' \<and> na_eventWaitWindow n' = na_eventWaitWindow n \<and> na_windowSize n' = na_windowSize n \<and>
     buffer (na_eventOffsetBuffer n') \<noteq> [] \<and>
     (\<forall>ty src. waiting n' ty src = waiting n ty src \<or>
        same_slot (ev_type e) (ev_source e) ty src \<and> changes (na_eventWaitWindow n) e (waiting n ty src) (waiting n' ty src)))"

lemma pushed_steps:
  assumes "na_ok n" and "buffer (na_eventOffsetBuffer n) \<noteq> []" and "ev_interval e \<noteq> Interval_END"
  shows "steps_to e n (ongoing_pushed e n)"
proof -
  let ?b = "slot_buffer n (ev_type e) (ev_source e)"
  have b: "cb_ok ?b" "maxSize ?b = na_eventWaitWindow n" using slot_buffer_ok [OF assms(1)] by simp_all
  have w: "waiting (ongoing_pushed e n) ty src =
      (if same_slot (ev_type e) (ev_source e) ty src then getBuffer (cb_push (Some e) ?b) else waiting n ty src)" for ty src
    unfolding waiting_def ongoing_pushed_def slot_buffer_def [symmetric] slot_buffer_put by simp
  have "getBuffer (cb_push (Some e) ?b) = last_n (na_eventWaitWindow n) (waiting n ty src @ [Some e])"
    if "same_slot (ev_type e) (ev_source e) ty src" for ty src
    using cbw.contents_insert [OF b(1), of "Some e"] slot_buffer_same [OF that] b(2) by (simp add: waiting_def)
  with w have "waiting (ongoing_pushed e n) ty src = waiting n ty src \<or>
      same_slot (ev_type e) (ev_source e) ty src \<and>
      changes (na_eventWaitWindow n) e (waiting n ty src) (waiting (ongoing_pushed e n) ty src)" for ty src
    using assms(3) by (auto simp: changes_def split: PipelineEvent_Interval.split)
  with assms push_ongoing_ok(2) [OF assms(1)] show ?thesis by (simp add: steps_to_def ongoing_pushed_def)
qed

lemma updateInterval_START:
  assumes "na_ok n" and "ev_interval e = Interval_START"
  shows "updateIntervalBuffers e n = Inr (ongoing_pushed e (ensure_buffers e n), False)"
  using assms push_ongoing_ok(1) [OF na_ok_ensure [OF assms(1)], of e e]
  by (simp add: updateIntervalBuffers_def Let_def split: option.split)

lemma updateInterval_END:
  assumes "na_ok n" and "buffer (na_eventOffsetBuffer n) \<noteq> []" and "ev_interval e = Interval_END"
    and "findOngoingEvent (to_u32 (ev_sequenceNum e)) (slot_buffer n (ev_type e) (ev_source e)) = Some (phys (slot_buffer n (ev_type e) (ev_source e)) p)"
    and "p < length (waiting n (ev_type e) (ev_source e))" and "waiting n (ev_type e) (ev_source e) ! p = Some st"
  obtains n' where "updateIntervalBuffers e n = Inr (n', True)" and "na_ok n'"
    and "na_eventOffsetBuffer n' = na_eventOffsetBuffer n" and "na_windowSize n' = na_windowSize n"
    and "na_eventWaitWindow n' = na_eventWaitWindow n"
    and "\<And>ty src. waiting n' ty src =
       (if same_slot (ev_type e) (ev_source e) ty src then (waiting n ty src)[p := None] else waiting n ty src)"
    and "na_eventsBuffer n' = cb_push (duration_event st e) (na_eventsBuffer n)"
    and "by_get (na_timings n') (ev_type e) (ev_source e) =
       Some (cb_push (durationUs (duration_event st e)) (by_ensure (na_windowSize n) (ev_type e) (ev_source e) (na_timings n)))"
proof -
  let ?b = "slot_buffer n (ev_type e) (ev_source e)" and ?ty = "ev_type e" and ?src = "ev_source e"
  let ?b' = "?b\<lparr>buffer := (buffer ?b)[phys ?b p := None]\<rparr>"
  have b: "cb_ok ?b" "maxSize ?b = na_eventWaitWindow n" using slot_buffer_ok [OF assms(1)] by simp_all
  have p: "p < length (buffer ?b)" using assms(5) b by (simp add: waiting_def)
  have st: "buffer ?b ! phys ?b p = Some st"
    using getBuffer_phys [OF b(1) p] assms(6) by (simp add: waiting_def)
  obtain n1 where n1: "record_duration st e (ensure_buffers e n) = Inr n1" "na_ok n1"
    "na_ongoing n1 = na_ongoing (ensure_buffers e n)" "na_eventOffsetBuffer n1 = na_eventOffsetBuffer n"
    "na_eventWaitWindow n1 = na_eventWaitWindow n" "na_windowSize n1 = na_windowSize n"
    "na_eventsBuffer n1 = cb_push (duration_event st e) (na_eventsBuffer n)"
    "by_get (na_timings n1) ?ty ?src =
       Some (cb_push (durationUs (duration_event st e)) (by_ensure (na_windowSize n) ?ty ?src (na_timings n)))"
    using record_duration_ok [OF na_ok_ensure [OF assms(1)], of e st e] assms(2) by auto
  let ?n = "n1\<lparr>na_ongoing := by_put ?ty ?src ?b' (na_ongoing n1)\<rparr>"
  have upd: "updateIntervalBuffers e n = Inr (?n, True)"
    using assms(3,4) st n1(1) unfolding slot_buffer_def by (simp add: updateIntervalBuffers_def Let_def)
  have "by_ok (na_eventWaitWindow n1) (na_ongoing n1)" using n1(2) by (simp add: na_ok_def)
  then have ok: "na_ok ?n" using b n1(2,5) by (intro na_ok_ongoing by_ok_put) (simp_all add: cb_ok_def)
  have cong: "slot_buffer n1 = slot_buffer n"
    using slot_buffer_cong [of n1 "ensure_buffers e n"] n1(3,5) by (simp add: fun_eq_iff)
  have w: "waiting ?n ty src = (if same_slot ?ty ?src ty src then (waiting n ty src)[p := None] else waiting n ty src)" for ty src
    using slot_buffer_same [of ?ty ?src ty src n] getBuffer_set [OF b(1) p, of None]
    unfolding waiting_def slot_buffer_put cong by auto
  show thesis by (rule that [OF upd ok _ _ _ w]) (simp_all add: n1)
qed

lemma steps_to_ensured: "steps_to e (ensure_buffers e n) n' \<Longrightarrow> steps_to e n n'"
  by (simp add: steps_to_def waiting_def)

lemma unchanged_steps: "na_ok n' \<Longrightarrow> buffer (na_eventOffsetBuffer n') \<noteq> [] \<Longrightarrow> slot_buffer n' = slot_buffer n \<Longrightarrow>
    na_eventWaitWindow n' = na_eventWaitWindow n \<Longrightarrow> na_windowSize n' = na_windowSize n \<Longrightarrow> steps_to e n n'"
  by (simp add: steps_to_def waiting_def)

lemma updateInterval_steps:
  assumes "na_ok n" and "buffer (na_eventOffsetBuffer n) \<noteq> []" and "ev_interval e \<noteq> Interval_NONE"
  shows "\<exists>n' r. updateIntervalBuffers e n = Inr (n', r) \<and> steps_to e n n'"
proof (cases "ev_interval e")
  case Interval_START
  with updateInterval_START [OF assms(1)] steps_to_ensured [OF pushed_steps [OF na_ok_ensure [OF assms(1)]]] assms(2)
  show ?thesis by auto
next
  case Interval_END
  let ?b = "slot_buffer n (ev_type e) (ev_source e)"
  have b: "cb_ok ?b" using slot_buffer_ok [OF assms(1)] by simp
  show ?thesis
  proof (cases "findOngoingEvent (to_u32 (ev_sequenceNum e)) ?b")
    case None
    then have "updateIntervalBuffers e n = Inr (ensure_buffers e n, False)"
      using Interval_END by (simp add: updateIntervalBuffers_def Let_def slot_buffer_def)
    moreover have "steps_to e n (ensure_buffers e n)"
      using assms na_ok_ensure [OF assms(1)] by (intro unchanged_steps) (simp_all add: fun_eq_iff)
    ultimately show ?thesis by blast
  next
    case (Some i)
    with findOngoing_found [OF b] obtain p st where p: "p < length (buffer ?b)" "i = phys ?b p"
      "getBuffer ?b ! p = Some st" "ev_sequenceNum st = to_u32 (ev_sequenceNum e)"
      unfolding findOngoingEvent_def by blast
    have w: "p < length (waiting n (ev_type e) (ev_source e))" "waiting n (ev_type e) (ev_source e) ! p = Some st"
      using p b by (simp_all add: waiting_def)
    obtain n' where n': "updateIntervalBuffers e n = Inr (n', True)" "na_ok n'"
      "na_eventOffsetBuffer n' = na_eventOffsetBuffer n" "na_windowSize n' = na_windowSize n"
      "na_eventWaitWindow n' = na_eventWaitWindow n"
      "\<And>ty src. waiting n' ty src =
         (if same_slot (ev_type e) (ev_source e) ty src then (waiting n ty src)[p := None] else waiting n ty src)"
      by (rule updateInterval_END [OF assms(1,2) Interval_END Some [unfolded p(2)] w]) (rule that, assumption+)
    have "waiting n' ty src = waiting n ty src \<or> same_slot (ev_type e) (ev_source e) ty src \<and>
        changes (na_eventWaitWindow n) e (waiting n ty src) (waiting n' ty src)" for ty src
    proof (cases "same_slot (ev_type e) (ev_source e) ty src")
      case True
      with slot_buffer_same [OF True, of n] have "waiting n ty src = waiting n (ev_type e) (ev_source e)"
        by (simp add: waiting_def)
      with True n'(6) [of ty src] w p(4) Interval_END show ?thesis by (auto simp: changes_def)
    qed (simp add: n'(6))
    with n' assms(2) show ?thesis by (auto simp: steps_to_def)
  qed
qed (use assms(3) in simp)

lemma updatePing_steps:
  assumes "na_ok n" and "buffer (na_eventOffsetBuffer n) \<noteq> []" and "ev_interval e = Interval_NONE"
    and "ev_type e = Type_LOOP \<or> ev_type e = Type_CUSTOM"
  shows "\<exists>n' r. updatePingBuffers e n = Inr (n', r) \<and> steps_to e n n'"
proof -
  let ?n = "ensure_buffers e n"
  have ok: "na_ok ?n" by (rule na_ok_ensure [OF assms(1)])
  have push: "push_ongoing e m = Inr (ongoing_pushed e m) \<and> steps_to e n (ongoing_pushed e m)"
    if "na_ok m" "na_ongoing m = na_ongoing ?n" "na_eventWaitWindow m = na_eventWaitWindow n"
      "na_windowSize m = na_windowSize n" "na_eventOffsetBuffer m = na_eventOffsetBuffer n" for m
  proof -
    have "slot_buffer m = slot_buffer n" using slot_buffer_cong [of m ?n] that by (simp add: fun_eq_iff)
    then have "steps_to e m n' \<Longrightarrow> steps_to e n n'" for n' using that by (simp add: steps_to_def waiting_def)
    with pushed_steps [OF that(1), of e] push_ongoing_ok(1) [OF that(1)] assms(2,3) that(5) show ?thesis by simp
  qed
  let ?b = "slot_buffer n (ev_type e) (ev_source e)"
  let ?hit = "case findOngoingEvent (to_u32 (ev_sequenceNum e - 1)) ?b of Some i \<Rightarrow> buffer ?b ! i | None \<Rightarrow> None"
  have b: "by_ensure (na_eventWaitWindow ?n) (ev_type e) (ev_source e) (na_ongoing ?n) = ?b"
    by (simp add: slot_buffer_def)
  have "(ev_type e \<noteq> Type_LOOP \<and> ev_type e \<noteq> Type_CUSTOM) = False" using assms(4) by blast
  then have upd: "updatePingBuffers e n = (case ?hit of
      Some st \<Rightarrow> bindR (record_duration st e ?n) (\<lambda>n'. bindR (push_ongoing e n') (\<lambda>n''. Inr (n'', True)))
    | None \<Rightarrow> bindR (push_ongoing e ?n) (\<lambda>n'. Inr (n', False)))"
    unfolding updatePingBuffers_def Let_def b by (simp only: if_False)
  show ?thesis
  proof (cases ?hit)
    case None
    with push [OF ok] show ?thesis unfolding upd by auto
  next
    case (Some st)
    obtain n1 where n1: "record_duration st e ?n = Inr n1" "na_ok n1" "na_ongoing n1 = na_ongoing ?n"
      "na_eventWaitWindow n1 = na_eventWaitWindow n" "na_windowSize n1 = na_windowSize n"
      "na_eventOffsetBuffer n1 = na_eventOffsetBuffer n"
      using record_duration_ok [OF ok, of st e] assms(2) by auto
    with Some push [OF n1(2-6)] show ?thesis unfolding upd by auto
  qed
qed

lemma update_activity_ok:
  assumes "na_ok n" and "buffer (na_eventOffsetBuffer n) \<noteq> []"
  obtains n' where "update_activity e n = Inr n'" and "na_ok n'" and "na_ongoing n' = na_ongoing n"
    and "na_timings n' = na_timings n" and "na_eventsBuffer n' = na_eventsBuffer n"
    and "na_eventOffsetBuffer n' = na_eventOffsetBuffer n" and "na_windowSize n' = na_windowSize n"
    and "na_eventWaitWindow n' = na_eventWaitWindow n"
proof -
  let ?b = "at_default (CircularBuffer_new (na_windowSize n)) (na_inputQueueSizes n) (ev_source e)"
  have b: "cb_ok ?b" "maxSize ?b = na_windowSize n"
    using assms(1) by (auto simp: na_ok_def at_default_def split: option.split)
  have "\<exists>n'. add_queue_size e n = Inr n' \<and> na_ok n' \<and> na_ongoing n' = na_ongoing n \<and> na_timings n' = na_timings n \<and>
      na_eventsBuffer n' = na_eventsBuffer n \<and> na_eventOffsetBuffer n' = na_eventOffsetBuffer n \<and>
      na_windowSize n' = na_windowSize n \<and> na_eventWaitWindow n' = na_eventWaitWindow n"
  proof (cases "ev_interval e = Interval_START \<or> ev_queueSize e = None")
    case True
    then have "add_queue_size e n = Inr n" by (auto simp: add_queue_size_def split: PipelineEvent_Interval.split)
    with assms show ?thesis by simp
  next
    case False
    then obtain q where q: "ev_queueSize e = Some q" by blast
    obtain i where "cb_add (word_of_nat q :: u32) ?b = Inr (cb_push (word_of_nat q) ?b, i)" using cb_add_push [OF b(1)] by blast
    with False q have "add_queue_size e n =
        Inr (n\<lparr>na_state := upd_input (ev_source e) (iq_numQueued_update (\<lambda>_. word_of_nat q)) (na_state n),
               na_inputQueueSizes := AList.update (ev_source e) (cb_push (word_of_nat q) ?b) (na_inputQueueSizes n)\<rparr>)"
      by (cases "ev_interval e") (simp_all add: add_queue_size_def)
    with assms b show ?thesis by (simp add: na_ok_def update_conv cbw.ok_insert cbw.capacity_insert)
  qed
  then obtain n1 where n1: "add_queue_size e n = Inr n1" "na_ok n1" "na_ongoing n1 = na_ongoing n" "na_timings n1 = na_timings n"
    "na_eventsBuffer n1 = na_eventsBuffer n" "na_eventOffsetBuffer n1 = na_eventOffsetBuffer n"
    "na_windowSize n1 = na_windowSize n" "na_eventWaitWindow n1 = na_eventWaitWindow n" by blast
  have "\<exists>s. update_activity e n = Inr (n\<lparr>na_state := s\<rparr>) \<or> update_activity e n = Inr (n1\<lparr>na_state := s\<rparr>)"
  proof (cases "ev_type e = Type_INPUT")
    case True
    with n1(1) show ?thesis by (auto simp: update_activity_def)
  next
    case False
    then show ?thesis by (cases "ev_type e") (auto simp: update_activity_def intro: exI [of _ "na_state n"])
  qed
  then obtain s where "update_activity e n = Inr (n\<lparr>na_state := s\<rparr>) \<or> update_activity e n = Inr (n1\<lparr>na_state := s\<rparr>)" ..
  then show thesis
  proof
    assume "update_activity e n = Inr (n\<lparr>na_state := s\<rparr>)"
    then show thesis by (rule that) (simp_all add: assms(1))
  next
    assume "update_activity e n = Inr (n1\<lparr>na_state := s\<rparr>)"
    then show thesis by (rule that) (simp_all add: n1)
  qed
qed

text \<open>An event the thread does not survive: the ping of a block type.\<close>

definition block_ping :: "PipelineEvent \<Rightarrow> bool" where
  "block_ping e = (ev_interval e = Interval_NONE \<and> ev_status e = Status_SUCCESS \<and>
     (ev_type e = Type_INPUT_BLOCK \<or> ev_type e = Type_OUTPUT_BLOCK))"

definition touches :: "PipelineEvent \<Rightarrow> bool" where
  "touches e = (ev_status e = Status_SUCCESS \<and>
     (ev_interval e \<noteq> Interval_NONE \<or> ev_type e = Type_LOOP \<or> ev_type e = Type_CUSTOM))"

lemma agg_add_parts:
  assumes "na_ok n"
  obtains n1 where "agg_add now e n = update_buffers e n1" and "na_ok n1" and "buffer (na_eventOffsetBuffer n1) \<noteq> []"
    and "slot_buffer n1 = slot_buffer n" and "na_timings n1 = na_timings n" and "na_eventsBuffer n1 = na_eventsBuffer n"
    and "na_windowSize n1 = na_windowSize n" and "na_eventWaitWindow n1 = na_eventWaitWindow n"
proof -
  have "avg_ok 0 (na_eventOffsetBuffer n)" using assms by (simp add: na_ok_def)
  then obtain ob where ob: "avg_add (duration_cast 1000000 (now - ev_ts e)) (na_eventOffsetBuffer n) = Inr ob"
    "avg_ok 0 ob" "buffer ob \<noteq> []" by (rule avg_add_ok)
  let ?n = "n\<lparr>na_eventOffsetBuffer := ob\<rparr>"
  have "na_ok ?n" using assms ob by (simp add: na_ok_def)
  then obtain n1 where n1: "update_activity e ?n = Inr n1" "na_ok n1" "na_ongoing n1 = na_ongoing ?n"
    "na_timings n1 = na_timings ?n" "na_eventsBuffer n1 = na_eventsBuffer ?n"
    "na_eventOffsetBuffer n1 = na_eventOffsetBuffer ?n" "na_windowSize n1 = na_windowSize ?n"
    "na_eventWaitWindow n1 = na_eventWaitWindow ?n"
    by (rule update_activity_ok) (use ob in simp_all)
  have "agg_add now e n = update_buffers e n1" using ob(1) n1(1) by (simp add: agg_add_def)
  moreover have "slot_buffer n1 = slot_buffer n" using n1(3,8) by (intro slot_buffer_cong) simp_all
  ultimately show thesis using n1 ob(3) by (intro that [of n1]) simp_all
qed

lemma agg_add_cases:
  assumes "na_ok n"
  shows "if block_ping e then agg_add now e n = Inl PING_ERROR
    else \<exists>n'. agg_add now e n = Inr n' \<and> steps_to e n n' \<and> (\<not> touches e \<longrightarrow> waiting n' = waiting n)"
proof -
  obtain n1 where n1: "agg_add now e n = update_buffers e n1" "na_ok n1" "buffer (na_eventOffsetBuffer n1) \<noteq> []"
    "slot_buffer n1 = slot_buffer n" "na_eventWaitWindow n1 = na_eventWaitWindow n" "na_windowSize n1 = na_windowSize n"
    using agg_add_parts [OF assms, of now e] by metis
  have w: "waiting n1 = waiting n" using n1(4) by (simp add: waiting_def fun_eq_iff)
  have step_n: "steps_to e n1 n' \<Longrightarrow> steps_to e n n'" for n' using n1(5,6) by (simp add: steps_to_def w)
  show ?thesis
  proof (cases "touches e")
    case True
    show ?thesis
    proof (cases "ev_interval e = Interval_NONE")
      case True
      with \<open>touches e\<close> have ty: "ev_type e = Type_LOOP \<or> ev_type e = Type_CUSTOM" "ev_status e = Status_SUCCESS"
        by (auto simp: touches_def)
      with True updatePing_steps [OF n1(2,3) True] obtain n' r where
        "updatePingBuffers e n1 = Inr (n', r)" "steps_to e n1 n'" by blast
      with True ty n1(1) step_n \<open>touches e\<close> show ?thesis by (auto simp: update_buffers_def block_ping_def)
    next
      case False
      with updateInterval_steps [OF n1(2,3)] obtain n' r where
        "updateIntervalBuffers e n1 = Inr (n', r)" "steps_to e n1 n'" by blast
      with False n1(1) step_n \<open>touches e\<close> show ?thesis by (auto simp: update_buffers_def block_ping_def touches_def)
    qed
  next
    case False
    show ?thesis
    proof (cases "block_ping e")
      case True
      then have "updatePingBuffers e n1 = Inl PING_ERROR" by (auto simp: block_ping_def updatePingBuffers_def)
      with True n1(1) show ?thesis by (auto simp: block_ping_def update_buffers_def)
    next
      case nb: False
      with False n1(1) have "agg_add now e n = Inr n1"
        by (cases "ev_type e") (auto simp: update_buffers_def block_ping_def touches_def)
      moreover have "steps_to e n1 n1" using n1(2,3) by (intro unchanged_steps) simp_all
      ultimately show ?thesis using nb step_n w by simp
    qed
  qed
qed

lemma agg_add_ok: "na_ok n \<Longrightarrow> agg_add now e n = Inr n' \<Longrightarrow>
    steps_to e n n' \<and> (\<not> touches e \<longrightarrow> waiting n' = waiting n)"
  using agg_add_cases [of n e now] by (auto split: if_splits)

lemma agg_add_START:
  assumes "na_ok n" and "ev_interval e = Interval_START" and "ev_status e = Status_SUCCESS" and "agg_add now e n = Inr n'"
  shows "waiting n' (ev_type e) (ev_source e) = last_n (na_eventWaitWindow n) (waiting n (ev_type e) (ev_source e) @ [Some e])"
proof -
  let ?b = "slot_buffer n (ev_type e) (ev_source e)"
  obtain n1 where n1: "agg_add now e n = update_buffers e n1" "na_ok n1" "slot_buffer n1 = slot_buffer n"
    using agg_add_parts [OF assms(1), of now e] by metis
  have b: "cb_ok ?b" "maxSize ?b = na_eventWaitWindow n" using slot_buffer_ok [OF assms(1)] by simp_all
  have "n' = ongoing_pushed e (ensure_buffers e n1)"
    using assms(2-4) n1(1) updateInterval_START [OF n1(2) assms(2)] by (simp add: update_buffers_def)
  then have "slot_buffer n' (ev_type e) (ev_source e) = cb_push (Some e) (slot_buffer (ensure_buffers e n1) (ev_type e) (ev_source e))"
    unfolding ongoing_pushed_def slot_buffer_def [symmetric] by (simp only: slot_buffer_put same_slot_refl if_True)
  then have "slot_buffer n' (ev_type e) (ev_source e) = cb_push (Some e) ?b" by (simp add: n1(3))
  with cbw.contents_insert [OF b(1), of "Some e"] b(2) show ?thesis by (simp add: waiting_def)
qed

section \<open>Ends find their starts\<close>

lemma last_n_split: "length zs < k \<Longrightarrow> last_n k (xs @ z # zs) = last_n (k - length zs - 1) xs @ z # zs"
  by (simp add: last_n_def)

definition keeps :: "PipelineEvent \<Rightarrow> nat \<Rightarrow> NodeEventAggregation \<Rightarrow> bool" where
  "keeps s k n = (na_ok n \<and> (\<exists>xs ys. waiting n (ev_type s) (ev_source s) = xs @ Some s # ys \<and> length ys \<le> k \<and>
      (\<forall>x. Some x \<in> set ys \<longrightarrow> ev_sequenceNum s < ev_sequenceNum x)))"

definition pushes :: "PipelineEvent \<Rightarrow> PipelineEvent \<Rightarrow> bool" where
  "pushes s x = (same_slot (ev_type s) (ev_source s) (ev_type x) (ev_source x) \<and> touches x \<and> ev_interval x \<noteq> Interval_END)"

lemma keeps_changes:
  assumes "w = xs @ Some s # ys" and "length ys \<le> k" and "\<And>z. Some z \<in> set ys \<Longrightarrow> ev_sequenceNum s < ev_sequenceNum z"
    and "changes W x w w'" and "ev_sequenceNum s < ev_sequenceNum x" and "0 \<le> ev_sequenceNum s" and "ev_sequenceNum x < 2 ^ 32"
    and "k' = (if ev_interval x = Interval_END then k else k + 1)" and "k' < W"
  shows "\<exists>xs ys. w' = xs @ Some s # ys \<and> length ys \<le> k' \<and> (\<forall>z. Some z \<in> set ys \<longrightarrow> ev_sequenceNum s < ev_sequenceNum z)"
proof (cases "ev_interval x = Interval_END")
  case False
  with assms(4) have "w' = last_n W (xs @ Some s # (ys @ [Some x]))"
    by (cases "ev_interval x") (simp_all add: changes_def assms(1))
  also have "\<dots> = last_n (W - length (ys @ [Some x]) - 1) xs @ Some s # (ys @ [Some x])"
    using assms(2,8,9) False by (intro last_n_split) simp
  finally show ?thesis using assms(2,3,5,8) False by (intro exI conjI) auto
next
  case True
  have u: "to_u32 (ev_sequenceNum x) = ev_sequenceNum x" using assms(5-7) by (simp add: to_u32_def)
  from True assms(4) consider "w' = w" | p st where "p < length w" "w ! p = Some st"
    "ev_sequenceNum st = ev_sequenceNum x" "w' = w[p := None]" by (auto simp: changes_def u)
  then show ?thesis
  proof cases
    case 1
    with assms True show ?thesis by auto
  next
    case (2 p st)
    with assms(1,5) have "p \<noteq> length xs" by auto
    then consider "p < length xs" | "length xs < p" by linarith
    then show ?thesis
    proof cases
      case 1
      with 2(4) assms(1) have "w' = xs[p := None] @ Some s # ys" by (simp add: list_update_append)
      with assms(2,3,8) True show ?thesis by auto
    next
      case b: 2
      then obtain j where "p = Suc (length xs + j)" by (metis less_iff_Suc_add)
      with 2(4) assms(1) have "w' = xs @ Some s # ys[j := None]" by (simp add: list_update_append)
      moreover have "Some z \<in> set ys" if "Some z \<in> set (ys[j := None])" for z
        using that set_update_subset_insert [of ys j None] by auto
      ultimately show ?thesis using assms(2,3,8) True by (intro exI [of _ xs] exI [of _ "ys[j := None]"]) auto
    qed
  qed
qed

lemma keeps_step:
  assumes "keeps s k n" and "agg_add now x n = Inr n'"
    and "same_slot (ev_type s) (ev_source s) (ev_type x) (ev_source x) \<and> touches x \<longrightarrow>
       ev_sequenceNum s < ev_sequenceNum x \<and> ev_sequenceNum x < 2 ^ 32"
    and "0 \<le> ev_sequenceNum s" and "k' = (if pushes s x then k + 1 else k)" and "k' < na_eventWaitWindow n"
  shows "keeps s k' n' \<and> na_eventWaitWindow n' = na_eventWaitWindow n"
proof -
  let ?ty = "ev_type s" and ?src = "ev_source s"
  obtain xs ys where w: "na_ok n" "waiting n ?ty ?src = xs @ Some s # ys" "length ys \<le> k"
    "\<And>z. Some z \<in> set ys \<Longrightarrow> ev_sequenceNum s < ev_sequenceNum z" using assms(1) by (auto simp: keeps_def)
  from agg_add_ok [OF w(1) assms(2)] have n': "na_ok n'" "na_eventWaitWindow n' = na_eventWaitWindow n"
    "waiting n' ?ty ?src = waiting n ?ty ?src \<or> same_slot (ev_type x) (ev_source x) ?ty ?src \<and>
       changes (na_eventWaitWindow n) x (waiting n ?ty ?src) (waiting n' ?ty ?src)"
    "\<not> touches x \<Longrightarrow> waiting n' = waiting n"
    by (auto simp: steps_to_def)
  have "\<exists>xs ys. waiting n' ?ty ?src = xs @ Some s # ys \<and> length ys \<le> k' \<and>
      (\<forall>z. Some z \<in> set ys \<longrightarrow> ev_sequenceNum s < ev_sequenceNum z)"
  proof (cases "waiting n' ?ty ?src = waiting n ?ty ?src")
    case True
    have "k \<le> k'" using assms(5) by simp
    with w True show ?thesis by (metis le_trans)
  next
    case False
    with n'(3,4) have t: "touches x" "same_slot ?ty ?src (ev_type x) (ev_source x)"
      "changes (na_eventWaitWindow n) x (waiting n ?ty ?src) (waiting n' ?ty ?src)"
      using same_slot_sym by metis+
    have "k' = (if ev_interval x = Interval_END then k else k + 1)" using t(1,2) assms(5) by (auto simp: pushes_def)
    with keeps_changes [OF w(2-4) t(3) _ assms(4) _ this assms(6)] assms(3) t(1,2) show ?thesis by blast
  qed
  with n'(1,2) show ?thesis by (simp add: keeps_def)
qed

definition add_all :: "(int \<times> PipelineEvent) list \<Rightarrow> NodeEventAggregation \<Rightarrow> NodeEventAggregation result" where
  "add_all = foldR (\<lambda>(now, x). agg_add now x)"

lemma na_ok_add_all: "na_ok n \<Longrightarrow> add_all evs n = Inr n' \<Longrightarrow> na_ok n' \<and> na_eventWaitWindow n' = na_eventWaitWindow n \<and>
    na_windowSize n' = na_windowSize n"
proof (induction evs arbitrary: n)
  case (Cons a evs)
  then obtain m where m: "agg_add (fst a) (snd a) n = Inr m" "add_all evs m = Inr n'"
    by (auto simp: add_all_def bindR_Inr_iff case_prod_beta)
  with agg_add_ok [OF Cons.prems(1) m(1)] Cons.IH [of m] show ?case by (auto simp: steps_to_def)
qed (simp add: add_all_def)

lemma keeps_add_all:
  assumes "keeps s k n" and "add_all evs n = Inr n'" and "0 \<le> ev_sequenceNum s"
    and "\<forall>(now, x) \<in> set evs. same_slot (ev_type s) (ev_source s) (ev_type x) (ev_source x) \<and> touches x \<longrightarrow>
       ev_sequenceNum s < ev_sequenceNum x \<and> ev_sequenceNum x < 2 ^ 32"
    and "k + length (filter (\<lambda>(now, x). pushes s x) evs) < na_eventWaitWindow n"
  shows "\<exists>k'. keeps s k' n' \<and> na_eventWaitWindow n' = na_eventWaitWindow n"
  using assms
proof (induction evs arbitrary: n k)
  case Nil
  then show ?case by (auto simp: add_all_def)
next
  case (Cons a evs)
  obtain now x where a: "a = (now, x)" by force
  from Cons.prems(2) obtain m where m: "agg_add now x n = Inr m" "add_all evs m = Inr n'"
    by (auto simp: add_all_def bindR_Inr_iff a)
  let ?k = "if pushes s x then k + 1 else k"
  have "keeps s ?k m \<and> na_eventWaitWindow m = na_eventWaitWindow n"
    using Cons.prems by (intro keeps_step [OF Cons.prems(1) m(1) _ _ refl]) (auto simp: a)
  with Cons.IH [OF _ m(2) Cons.prems(3), of ?k] Cons.prems(4,5) show ?case by (auto simp: a split: if_splits)
qed

lemma end_records:
  assumes "na_ok n" and "waiting n (ev_type s) (ev_source s) = xs @ Some s # ys"
    and "\<And>z. Some z \<in> set ys \<Longrightarrow> ev_sequenceNum s < ev_sequenceNum z"
    and "0 \<le> ev_sequenceNum s" and "ev_sequenceNum s < 2 ^ 32"
    and e: "ev_interval e = Interval_END" "ev_status e = Status_SUCCESS" "ev_type e = ev_type s"
      "ev_source e = ev_source s" "ev_sequenceNum e = ev_sequenceNum s"
  shows "\<exists>n' tb. agg_add now e n = Inr n' \<and>
    last (getBuffer (na_eventsBuffer n')) = duration_event s e \<and>
    by_get (na_timings n') (ev_type s) (ev_source s) = Some tb \<and>
    last (getBuffer tb) = durationUs (duration_event s e)"
proof -
  let ?ty = "ev_type s" and ?src = "ev_source s"
  obtain m where m: "agg_add now e n = update_buffers e m" "na_ok m" "buffer (na_eventOffsetBuffer m) \<noteq> []"
    "slot_buffer m = slot_buffer n" "na_windowSize m = na_windowSize n"
    using agg_add_parts [OF assms(1), of now e] by metis
  let ?b = "slot_buffer m ?ty ?src" and ?d = "durationUs (duration_event s e)"
  let ?tb = "by_ensure (na_windowSize m) ?ty ?src (na_timings m)"
  have b: "cb_ok ?b" using slot_buffer_ok [OF m(2)] by simp
  have wb: "waiting m ?ty ?src = xs @ Some s # ys" using assms(2) m(4) by (simp add: waiting_def)
  have u: "to_u32 (ev_sequenceNum e) = ev_sequenceNum s" using assms(4,5) e(5) by (simp add: to_u32_def)
  have hit: "findOngoingEvent (to_u32 (ev_sequenceNum e)) (slot_buffer m (ev_type e) (ev_source e)) =
      Some (phys (slot_buffer m (ev_type e) (ev_source e)) (length xs))"
    unfolding findOngoingEvent_def e(3,4) u
    by (rule findOngoing_finds [OF b wb [unfolded waiting_def] refl assms(3)]) simp_all
  have "length xs < length (waiting m (ev_type e) (ev_source e))" "waiting m (ev_type e) (ev_source e) ! length xs = Some s"
    unfolding e(3,4) wb by simp_all
  from updateInterval_END [OF m(2,3) e(1) hit this] obtain n' where
    n': "updateIntervalBuffers e m = Inr (n', True)" "na_eventsBuffer n' = cb_push (duration_event s e) (na_eventsBuffer m)"
      "by_get (na_timings n') ?ty ?src = Some (cb_push ?d ?tb)"
    unfolding e(3,4) by metis
  have add: "agg_add now e n = Inr n'" using m(1) n'(1) e(1,2) by (simp add: update_buffers_def)
  have ok: "cb_ok (na_eventsBuffer m)" "0 < maxSize (na_eventsBuffer m)" "cb_ok ?tb" "0 < maxSize ?tb"
    using m(2) by_ok_ensure [of "na_windowSize m" "na_timings m" ?ty ?src] by (simp_all add: na_ok_def)
  have "last (getBuffer (na_eventsBuffer n')) = duration_event s e"
    using cbw.newest [OF ok(1,2)] by (simp add: n'(2))
  with add n'(3) cbw.newest [OF ok(3,4)] show ?thesis by blast
qed


definition timed :: "PipelineEvent_Interval \<Rightarrow> int \<Rightarrow> int \<Rightarrow> PipelineEvent" where
  "timed iv sq ts = PipelineEvent_default\<lparr>ev_type := Type_LOOP, ev_interval := iv, ev_sequenceNum := sq, ev_ts := ts\<rparr>"


section \<open>The aggregation never fails\<close>

lemma updateTimingStats_total: "\<exists>t'. updateTimingStats sd b t = Inr t'"
  by (auto simp: updateTimingStats_def cb_size_def cb_last_def Let_def)

lemma na_ok_fresh: "na_ok n \<Longrightarrow> buffer (na_eventOffsetBuffer n) = [] \<Longrightarrow> by_get (na_fps n) ty src = Some b \<Longrightarrow> buffer b = []"
  by (simp add: na_ok_def)

lemma na_ok_fps: "na_ok n \<Longrightarrow> by_get (na_timings n) ty src \<noteq> None \<Longrightarrow> by_get (na_fps n) ty src \<noteq> None"
  by (simp add: na_ok_def)

lemma na_ok_loops: "na_ok n \<Longrightarrow> ty = Type_LOOP \<or> ty = Type_INPUT_BLOCK \<or> ty = Type_OUTPUT_BLOCK \<Longrightarrow>
    by_get (na_timings n) ty src \<noteq> None"
  by (simp only: na_ok_def) blast

lemma update_timing_total:
  assumes "na_ok n" and "by_get (na_timings n) ty src \<noteq> None"
  shows "\<exists>t'. update_timing sd n ty src t = Inr t'"
proof -
  obtain tb fb where b: "by_get (na_timings n) ty src = Some tb" "by_get (na_fps n) ty src = Some fb"
    using assms(2) na_ok_fps [OF assms] by blast
  have "buffer fb = []" if "buffer (na_eventOffsetBuffer n) = []"
    by (rule na_ok_fresh [OF assms(1) that b(2)])
  then have "updateFpsStats (na_eventOffsetBuffer n) fb = Inr ()"
    by (auto simp: updateFpsStats_def getAverage_def cb_size_def)
  with b updateTimingStats_total [of sd tb t] show ?thesis by (simp add: update_timing_def deref_null_def)
qed

lemma foldR_total:
  assumes "\<And>x s. x \<in> set xs \<Longrightarrow> \<exists>s'. f x s = Inr s'"
  shows "\<exists>s'. foldR f xs s = Inr s'"
  using assms
proof (induction xs arbitrary: s)
  case (Cons x xs)
  from Cons.prems [of x s] obtain u where "f x s = Inr u" by auto
  with Cons.IH [of u] Cons.prems show ?case by simp
qed simp

lemma update_stats_total: "na_ok n \<Longrightarrow> \<exists>s'. update_stats_of sd n ty s = Inr s'"
proof -
  assume ok: "na_ok n"
  have key: "by_get (na_timings n) Type_CUSTOM k \<noteq> None" if "k \<in> set (map fst (by_custom (na_timings n)))" for k
    using that by (simp add: map_of_eq_None_iff)
  have key': "by_get (na_timings n) Type_INPUT k \<noteq> None" if "k \<in> set (map fst (by_input (na_timings n)))" for k
    using that by (simp add: map_of_eq_None_iff)
  have key'': "by_get (na_timings n) Type_OUTPUT k \<noteq> None" if "k \<in> set (map fst (by_output (na_timings n)))" for k
    using that by (simp add: map_of_eq_None_iff)
  have loops: "ty = Type_LOOP \<or> ty = Type_INPUT_BLOCK \<or> ty = Type_OUTPUT_BLOCK \<Longrightarrow> by_get (na_timings n) ty [] \<noteq> None" for ty
    by (rule na_ok_loops [OF ok])
  have t: "by_get (na_timings n) ty src \<noteq> None \<Longrightarrow> \<exists>t'. update_timing sd n ty src t = Inr t'" for ty src t
    by (rule update_timing_total [OF ok])
  show ?thesis
  proof (cases ty)
    case Type_CUSTOM
    show ?thesis unfolding Type_CUSTOM update_stats_of.simps
    proof (rule foldR_total, goal_cases)
      case (1 k s)
      from t [OF key [OF 1], of "at_default DurationStats_default (ns_otherTimings s) k"] show ?case by auto
    qed
  next
    case Type_LOOP
    with t [OF loops [of Type_LOOP], of "ns_mainLoopTiming s"] show ?thesis by auto
  next
    case Type_INPUT
    show ?thesis unfolding Type_INPUT update_stats_of.simps update_input_stats_def
    proof (rule foldR_total, goal_cases)
      case (1 k s)
      from t [OF key' [OF 1], of "iq_timing (at_default InputQueueState_default (ns_inputStates s) k)"] show ?case by auto
    qed
  next
    case Type_OUTPUT
    show ?thesis unfolding Type_OUTPUT update_stats_of.simps
    proof (rule foldR_total, goal_cases)
      case (1 k s)
      from t [OF key'' [OF 1], of "oq_timing (at_default OutputQueueState_default (ns_outputStates s) k)"] show ?case by auto
    qed
  next
    case Type_INPUT_BLOCK
    with t [OF loops [of Type_INPUT_BLOCK], of "ns_inputsGetTiming s"] show ?thesis by auto
  next
    case Type_OUTPUT_BLOCK
    with t [OF loops [of Type_OUTPUT_BLOCK], of "ns_outputsSendTiming s"] show ?thesis by auto
  qed
qed

lemma updateStats_total:
  assumes "na_ok n"
  shows "\<exists>n' r. updateStats sd now now' n = Inr (n', r) \<and> na_ok n'"
proof -
  have "na_ok (n\<lparr>na_lastUpdated := now'\<rparr>)" using assms by simp
  from update_stats_total [OF this] have "\<exists>s. foldR (update_stats_of sd (n\<lparr>na_lastUpdated := now'\<rparr>)) tys (na_state n) = Inr s" for tys
    by (intro foldR_total) auto
  then obtain s where s: "foldR (update_stats_of sd (n\<lparr>na_lastUpdated := now'\<rparr>))
      [Type_CUSTOM, Type_LOOP, Type_INPUT, Type_OUTPUT, Type_INPUT_BLOCK, Type_OUTPUT_BLOCK] (na_state n) = Inr s" by blast
  show ?thesis unfolding updateStats_def s by (auto simp: assms)
qed

datatype agg_op = OpAdd int PipelineEvent | OpStats int int

fun run_agg :: "(u64 list \<Rightarrow> u64) \<Rightarrow> agg_op \<Rightarrow> NodeEventAggregation \<Rightarrow> NodeEventAggregation result" where
  "run_agg sd (OpAdd now e) n = agg_add now e n"
| "run_agg sd (OpStats now now') n = bindR (updateStats sd now now' n) (\<lambda>(n', _). Inr n')"

fun kills :: "agg_op \<Rightarrow> bool" where
  "kills (OpAdd now e) = block_ping e"
| "kills (OpStats now now') = False"

lemma run_agg_cases:
  assumes "na_ok n"
  shows "if kills x then run_agg sd x n = Inl PING_ERROR else \<exists>n'. run_agg sd x n = Inr n' \<and> na_ok n'"
proof (cases x)
  case (OpAdd now e)
  with agg_add_cases [OF assms, of e now] show ?thesis by (auto simp: steps_to_def)
next
  case (OpStats now now')
  with updateStats_total [OF assms, of sd now now'] show ?thesis by auto
qed



section \<open>What the statistics say\<close>

lemma sum_list_word:
  fixes vs :: "u64 list"
  assumes "sum_list (map unat vs) < 2 ^ 64"
  shows "unat (sum_list vs) = sum_list (map unat vs)"
  using assms
proof (induction vs)
  case (Cons v vs)
  then have "unat (sum_list vs) = sum_list (map unat vs)" by simp
  with Cons.prems show ?case by (simp add: unat_word_ariths)
qed simp

text \<open>The square of a difference does not depend on which of the two is larger.\<close>

lemma square_diff_word:
  fixes v a :: u64
  shows "(v - a) * (v - a) = word_of_int ((uint v - uint a) ^ 2)"
proof -
  have "v - a = word_of_int (uint v - uint a)" by simp
  then show ?thesis by (metis power2_eq_square wi_hom_mult)
qed

lemma hd_sort: "xs \<noteq> [] \<Longrightarrow> hd (sort xs) = Min (set xs)" for xs :: "'a::linorder list"
proof -
  assume "xs \<noteq> []"
  then have "sort xs \<noteq> []" by (metis set_empty set_sort)
  then obtain y ys where s: "sort xs = y # ys" by (cases "sort xs") simp_all
  then have "\<forall>z \<in> set ys. y \<le> z" using sorted_sort [of xs] by simp
  moreover have "set xs = insert y (set ys)" using s by (metis set_sort list.set(2))
  ultimately show ?thesis using s by (simp add: Min_insert2)
qed

lemma last_sort: "xs \<noteq> [] \<Longrightarrow> last (sort xs) = Max (set xs)" for xs :: "'a::linorder list"
proof -
  assume "xs \<noteq> []"
  then have "sort xs \<noteq> []" by (metis set_empty set_sort)
  then obtain y ys where s: "sort xs = ys @ [y]" by (cases "sort xs" rule: rev_exhaust) simp_all
  then have "\<forall>z \<in> set ys. z \<le> y" using sorted_sort [of xs] by (simp add: sorted_append)
  moreover have "set xs = insert y (set ys)" using s by (metis set_sort rotate1.simps(2) set_rotate1 list.set(2))
  ultimately show ?thesis using s by (simp add: Max_insert2)
qed

lemma two_le_sum_list: "i < j \<Longrightarrow> j < length xs \<Longrightarrow> xs ! i + xs ! j \<le> sum_list xs" for xs :: "nat list"
proof (induction xs arbitrary: i j)
  case (Cons x xs)
  then obtain j' where j: "j = Suc j'" by (cases j) auto
  show ?case
  proof (cases i)
    case 0
    with j Cons.prems elem_le_sum_list [of j' xs] show ?thesis by simp
  next
    case (Suc i')
    with j Cons.prems Cons.IH [of i' j'] show ?thesis by simp
  qed
qed simp

lemma median_unat:
  fixes vs :: "u64 list"
  assumes "vs \<noteq> []" and "sum_list (map unat vs) < 2 ^ 64"
  shows "unat (median (sort vs)) =
    (let s = map unat (sort vs); m = length vs div 2 in if even (length vs) then (s ! m + s ! (m - 1)) div 2 else s ! m)"
proof (cases "even (length vs)")
  case True
  let ?s = "map unat (sort vs)" and ?m = "length vs div 2"
  have "0 < length vs" using assms(1) by simp
  with True have "2 \<le> length vs" by presburger
  then have m: "?m - 1 < ?m" "?m < length ?s" by simp_all
  have "mset ?s = mset (map unat vs)" by simp
  then have "sum_list ?s = sum_list (map unat vs)" by (metis sum_mset_sum_list)
  with two_le_sum_list [OF m] assms(2) have "?s ! ?m + ?s ! (?m - 1) < 2 ^ 64" by simp
  then have "unat (sort vs ! ?m + sort vs ! (?m - 1)) = ?s ! ?m + ?s ! (?m - 1)"
    using m by (simp add: unat_word_ariths)
  with True show ?thesis by (simp add: median_def Let_def unat_div)
next
  case False
  with assms(1) show ?thesis by (simp add: median_def Let_def)
qed

text \<open>
  The timing statistics of a non-empty window are the minimum, maximum, average and median of
  its values, computed without overflow when their sum fits 64 bits; the deviations are squared
  correctly although the differences wrap. The lifetime minimum and maximum take only the newest
  value into account.
\<close>

theorem timing_statistics:
  assumes "cb_ok b" and "getBuffer b \<noteq> []" and "length (getBuffer b) < 2 ^ 64"
    and "sum_list (map unat (getBuffer b)) < 2 ^ 64"
  shows "\<exists>t'. updateTimingStats sd b t = Inr t' \<and>
    (let vs = getBuffer b; s = map unat (sort vs); n = length vs; avg = sum_list (map unat vs) div n in
     minMicrosRecent t' = Min (set vs) \<and> maxMicrosRecent t' = Max (set vs) \<and>
     unat (averageMicrosRecent t') = avg \<and>
     unat (medianMicrosRecent t') = (if even n then (s ! (n div 2) + s ! (n div 2 - 1)) div 2 else s ! (n div 2)) \<and>
     stdDevMicrosRecent t' = sd (map (\<lambda>v. word_of_int ((uint v - int avg) ^ 2)) vs) \<and>
     minMicros t' = min (minMicros t) (last vs) \<and> maxMicros t' = max (maxMicros t) (last vs))"
proof -
  let ?vs = "getBuffer b"
  let ?avg = "sum_list ?vs div word_of_nat (length ?vs)"
  have "cb_size b \<noteq> 0" using assms(1,2) by (simp add: cb_size_def getBuffer_empty)
  then have upd: "updateTimingStats sd b t = Inr \<lparr>minMicros = min (minMicros t) (last ?vs), maxMicros = max (maxMicros t) (last ?vs),
      averageMicrosRecent = ?avg, stdDevMicrosRecent = sd (map (\<lambda>v. (v - ?avg) * (v - ?avg)) ?vs),
      minMicrosRecent = hd (sort ?vs), maxMicrosRecent = last (sort ?vs), medianMicrosRecent = median (sort ?vs)\<rparr>"
    using assms(2) by (simp add: updateTimingStats_def cb_last_window [OF assms(1)] Let_def)
  have "unat (word_of_nat (length ?vs) :: u64) = length ?vs" using assms(3) by (simp add: unat_of_nat)
  then have avg: "unat ?avg = sum_list (map unat ?vs) div length ?vs"
    by (simp add: unat_div sum_list_word [OF assms(4)])
  then have "uint ?avg = int (sum_list (map unat ?vs) div length ?vs)" by (metis uint_nat)
  then have sq: "map (\<lambda>v. (v - ?avg) * (v - ?avg)) ?vs =
      map (\<lambda>v. word_of_int ((uint v - int (sum_list (map unat ?vs) div length ?vs)) ^ 2)) ?vs"
    by (simp only: square_diff_word)
  show ?thesis
    using avg median_unat [OF assms(2,4)] hd_sort [OF assms(2)] last_sort [OF assms(2)]
    unfolding upd Let_def sq by simp
qed

theorem timing_statistics_witness:
  "\<exists>t'. updateTimingStats (\<lambda>_. 0) (fold cb_push [9, 2, 4, 7] (CircularBuffer_new 3)) DurationStats_default = Inr t' \<and>
     minMicrosRecent t' = 2 \<and> unat (averageMicrosRecent t') = 4 \<and> minMicros t' = 7"
proof -
  let ?b = "fold cb_push [9, 2, 4, 7] (CircularBuffer_new 3) :: u64 circular"
  have "cb_ok ?b \<and> getBuffer ?b = [2, 4, 7]"
    using cbw.insert_all [of "CircularBuffer_new 3 :: u64 circular" "[9, 2, 4, 7]"] by (simp add: last_n_def)
  then show ?thesis
    using timing_statistics [of ?b "\<lambda>_. 0" DurationStats_default] by (auto simp: Let_def DurationStats_default_def)
qed

text \<open>
  Several durations may arrive between two updates; those that are not the newest never reach the
  lifetime minimum, which then exceeds the minimum of the recent values.
\<close>

theorem lifetime_minimum_misses:
  "\<exists>t'. updateTimingStats (\<lambda>_. 0) (fold cb_push [2, 9] (CircularBuffer_new 3)) DurationStats_default = Inr t' \<and>
     minMicrosRecent t' < minMicros t'"
proof -
  let ?b = "fold cb_push [2, 9] (CircularBuffer_new 3) :: u64 circular"
  have "cb_ok ?b \<and> getBuffer ?b = [2, 9]"
    using cbw.insert_all [of "CircularBuffer_new 3 :: u64 circular" "[2, 9]"] by (simp add: last_n_def)
  then show ?thesis
    by (auto simp: updateTimingStats_def cb_last_window getBuffer_empty [symmetric] cb_size_def Let_def DurationStats_default_def)
qed

section \<open>The messages sent\<close>

lemma map_of_reinsert: "map_of (reinsert names m) k = (if k \<in> set names then map_of m k else None)"
proof -
  have "map_of (fold (\<lambda>k acc. case map_of m k of Some v \<Rightarrow> AList.update k v acc | None \<Rightarrow> acc) ns acc) k =
      (if k \<in> set ns \<and> map_of m k \<noteq> None then map_of m k else map_of acc k)" for ns acc
    by (induction ns arbitrary: acc) (auto simp: update_conv split: option.split)
  then show ?thesis by (auto simp: reinsert_def)
qed

definition shown :: "string list option \<Rightarrow> string \<Rightarrow> bool" where
  "shown names k = (case names of Some ns \<Rightarrow> k \<in> set ns | None \<Rightarrow> True)"

lemma map_of_filter_map: "map_of (filter_map names m) k = (if shown names k then map_of m k else None)"
  by (auto simp: filter_map_def shown_def map_of_reinsert split: option.split)

lemma map_of_filter_nodes:
  "map_of (List.map_filter (filter_node cfgs) nodes) i =
     Option.bind (map_of nodes i) (\<lambda>s. map_option snd (filter_node cfgs (i, s)))"
proof (induction nodes)
  case (Cons p nodes)
  obtain j s where p: "p = (j, s)" by force
  show ?case
  proof (cases "find (\<lambda>c. nc_nodeId c = j) cfgs")
    case None
    with Cons.IH show ?thesis by (cases "map_of nodes i") (auto simp: p filter_node_def map_filter_simps)
  next
    case (Some c)
    with Cons.IH show ?thesis by (auto simp: p filter_node_def map_filter_simps)
  qed
qed (simp add: map_filter_simps)

text \<open>
  A state message sent for a configuration with nodes shows exactly the nodes the configuration
  names and knows of, and of each the inputs, outputs and other timings that the first entry for
  the node asks for; everything shown is as the handler has it. The recent events are sent with
  every node as soon as one entry asks for them.
\<close>

theorem output_state_filter:
  assumes "ac_nodes c \<noteq> []"
  shows "map_of (ps_nodeStates (fst (makeOutputState h (Some c) sq sendEvents now))) i =
      (case (map_of (peh_nodeStates h) i, find (\<lambda>cfg. nc_nodeId cfg = i) (ac_nodes c)) of
         (Some n, Some cfg) \<Rightarrow>
           Some ((na_state n)\<lparr>ns_events := if sendEvents then getBuffer (na_eventsBuffer n) else ns_events (na_state n),
             ns_inputStates := filter_map (nc_inputs cfg) (ns_inputStates (na_state n)),
             ns_outputStates := filter_map (nc_outputs cfg) (ns_outputStates (na_state n)),
             ns_otherTimings := filter_map (nc_others cfg) (ns_otherTimings (na_state n))\<rparr>)
       | _ \<Rightarrow> None) \<and>
    map_of (filter_map names m) k = (if shown names k then map_of m k else None)"
proof -
  let ?st = "\<lambda>n. if sendEvents then (na_state n)\<lparr>ns_events := getBuffer (na_eventsBuffer n)\<rparr> else na_state n"
  have nodes: "map_of (map (\<lambda>(j, n). (j, ?st n)) ns) i = map_option ?st (map_of ns i)" for ns
    by (induction ns) auto
  have out: "ps_nodeStates (fst (makeOutputState h (Some c) sq sendEvents now)) =
      List.map_filter (filter_node (ac_nodes c)) (map (\<lambda>(j, n). (j, ?st n)) (peh_nodeStates h))"
    using assms by (simp add: makeOutputState_def getState_def)
  show ?thesis
    unfolding out map_of_filter_nodes nodes
    by (cases "map_of (peh_nodeStates h) i"; cases "find (\<lambda>cfg. nc_nodeId cfg = i) (ac_nodes c)")
      (simp_all add: filter_node_def map_of_filter_map)
qed

theorem output_state_filter_witness:
  "let n = NodeEventAggregation_new 4 1000 2; h = (PipelineEventHandler_new 4 1000 2)\<lparr>peh_nodeStates := [(7, n), (8, n)]\<rparr>;
       cfg = \<lparr>nc_nodeId = 7, nc_inputs = None, nc_outputs = None, nc_others = None, nc_events = False\<rparr>;
       c = \<lparr>ac_sequenceNum = 0, ac_nodes = [cfg], ac_repeatIntervalSeconds = None\<rparr>
   in map_of (ps_nodeStates (fst (makeOutputState h (Some c) 0 False 5))) 7 = Some NodeState_default \<and>
      map_of (ps_nodeStates (fst (makeOutputState h (Some c) 0 False 5))) 8 = None"
  unfolding Let_def
  by (intro conjI; subst output_state_filter [THEN conjunct1])
    (simp_all add: NodeEventAggregation_new_def NodeState_default_def filter_map_def)

text \<open>What the node sends in a sequence of turns, with the time, whether a request asked for it and the interval.\<close>

record sent_state =
  ss_time :: int
  ss_requested :: bool
  ss_repeat :: "nat option"
  ss_updated :: bool
  ss_message :: PipelineState

fun agg_turns ::
  "bool \<Rightarrow> (PipelineEventAggregationConfig option \<times> int \<times> PipelineEventHandler) list \<Rightarrow> agg_run \<Rightarrow> sent_state list" where
  "agg_turns tr [] r = []"
| "agg_turns tr ((req, now, h) # es) r =
     (case agg_turn tr req now h r of (r', h', out) \<Rightarrow>
        (case out of
           Some m \<Rightarrow> [\<lparr>ss_time = now, ss_requested = (req \<noteq> None), ss_repeat = repeat_of (ar_currentConfig r'),
                       ss_updated = list_ex (\<lambda>(i, n). na_updated n) (peh_nodeStates h), ss_message = m\<rparr>]
         | None \<Rightarrow> []) @ agg_turns tr es r')"

fun spaced :: "int \<Rightarrow> sent_state list \<Rightarrow> bool" where
  "spaced t [] = True"
| "spaced t (s # ss) =
     ((ss_requested s \<or> (\<exists>r. ss_repeat s = Some r \<and> ss_time s - t \<ge> int r * 1000000000 \<and> ss_updated s)) \<and>
      spaced (ss_time s) ss)"

lemma agg_turn_sent:
  assumes "agg_turn tr req now h r = (r', h', Some m)"
  shows "ar_lastSentTime r' = now \<and> (req \<noteq> None \<or>
    (\<exists>k. repeat_of (ar_currentConfig r') = Some k \<and> now - ar_lastSentTime r \<ge> int k * 1000000000 \<and>
       list_ex (\<lambda>(i, n). na_updated n) (peh_nodeStates h)))"
  using assms
  by (auto simp: agg_turn_def Let_def repeat_due_def makeOutputState_def getState_def split: if_splits option.splits prod.splits)

lemma agg_turn_silent: "agg_turn tr req now h r = (r', h', None) \<Longrightarrow> ar_lastSentTime r' = ar_lastSentTime r"
  by (auto simp: agg_turn_def Let_def split: if_splits option.splits prod.splits)

text \<open>
  Over any sequence of turns a state is sent either for a request, or because the repeat interval
  of the current configuration has passed since the last state was sent and some statistics have
  changed.
\<close>

theorem repeated_states_are_spaced: "spaced (ar_lastSentTime r) (agg_turns tr es r)"
proof (induction es arbitrary: r)
  case (Cons a es)
  obtain req now h where a: "a = (req, now, h)" by (metis prod_cases3)
  obtain r' h' out where t: "agg_turn tr req now h r = (r', h', out)" by (metis prod_cases3)
  show ?case
  proof (cases out)
    case None
    with t Cons.IH [of r'] agg_turn_silent [of tr req now h r r' h'] show ?thesis by (simp add: a)
  next
    case (Some m)
    with t Cons.IH [of r'] agg_turn_sent [of tr req now h r r' h' m] show ?thesis by (auto simp: a)
  qed
qed simp

end
