(* ===== verification/Matrices.thy ===== *)
theory Matrices
  imports Prelude
begin

text \<open>
  The matrix helpers of src/utility/matrixOps.cpp that the calibration uses: multiplication with its
  shape checks, the inverse of a rigid motion, determinant and adjugate. A float is an element of
  the type \<open>'f\<close>; the definitions ask only for the operations and evaluate them in the order of the
  code, the theorems hold where the arithmetic is exact (a ring or a field). A
  \<open>std::array\<close> of arrays is a list of lists of its fixed size.
\<close>

section \<open>Operations\<close>

type_synonym 'f matrix = "'f list list"

record 'f Point3f =
  p_x :: 'f
  p_y :: 'f
  p_z :: 'f

fun mapR :: "('a \<Rightarrow> 'b result) \<Rightarrow> 'a list \<Rightarrow> 'b list result" where
  "mapR f [] = Inr []"
| "mapR f (x # xs) = bindR (f x) (\<lambda>y. bindR (mapR f xs) (\<lambda>ys. Inr (y # ys)))"

text \<open>\<open>matMul\<close> on vectors: the loops over \<open>i\<close>, \<open>j\<close> and \<open>k\<close>, with the checks where the code has them.\<close>

definition mul_cell :: "'f::{zero,plus,times} list \<Rightarrow> 'f matrix \<Rightarrow> nat \<Rightarrow> nat \<Rightarrow> nat \<Rightarrow> 'f result" where
  "mul_cell row B m q j =
     (if length row \<noteq> m then
        Inl (RuntimeError ''All rows of the matrix A need to have the same number of columns.'')
      else if length row \<noteq> length B then
        Inl (RuntimeError ''Number of columns of A need to match number of rows of B for multiplication.'')
      else
        foldR (\<lambda>k acc.
            if length (B ! k) \<noteq> q
            then Inl (RuntimeError ''All rows of the matrix B need to have the same number of columns.'')
            else Inr (acc + row ! k * (B ! k ! j)))
          [0..<m] 0)"

definition matMul :: "'f::{zero,plus,times} matrix \<Rightarrow> 'f matrix \<Rightarrow> 'f matrix result" where
  "matMul A B =
     (if A = [] then Inl (RuntimeError ''First matrix should not be empty'')
      else if B = [] then Inl (RuntimeError ''Second matrix should not be empty'')
      else
        (let m = length (A ! 0); q = length (B ! 0) in
         mapR (\<lambda>row. mapR (mul_cell row B m q) [0..<q]) A))"

definition matVecMul :: "'f::{zero,plus,times} matrix \<Rightarrow> 'f list \<Rightarrow> 'f list result" where
  "matVecMul A v =
     (if A = [] then Inl (RuntimeError ''Matrix should not be empty'')
      else if v = [] then Inl (RuntimeError ''Vector should not be empty'')
      else mapR (\<lambda>row.
          if length row \<noteq> length v
          then Inl (RuntimeError ''All matrix rows dimensions need to match the vector size.'')
          else Inr (foldl (\<lambda>acc j. acc + row ! j * v ! j) 0 [0..<length v])) A)"

definition mateq :: "'f::{minus,abs,ord} \<Rightarrow> 'f matrix \<Rightarrow> 'f matrix \<Rightarrow> bool" where
  "mateq epsilon A B =
     (length A = length B \<and>
      (A = [] \<or>
       list_all (\<lambda>i. length (A ! i) = length (A ! 0) \<and> length (B ! i) = length (A ! 0) \<and>
           list_all (\<lambda>j. \<not> \<bar>A ! i ! j - B ! i ! j\<bar> > epsilon) [0..<length (A ! 0)]) [0..<length A]))"

text \<open>Determinant by the first row; the cofactor drops row \<open>p\<close> and column \<open>q\<close> of the upper left \<open>n\<close> rows and columns.\<close>

definition getCofactor :: "'f matrix \<Rightarrow> nat \<Rightarrow> nat \<Rightarrow> nat \<Rightarrow> 'f matrix" where
  "getCofactor A p q n =
     map (\<lambda>row. map (\<lambda>col. A ! row ! col) (filter (\<lambda>col. col \<noteq> q) [0..<n])) (filter (\<lambda>row. row \<noteq> p) [0..<n])"

function determinant :: "'f::{zero,one,plus,uminus,times} matrix \<Rightarrow> nat \<Rightarrow> 'f" where
  "determinant A n =
     (if n = 1 then A ! 0 ! 0
      else foldl (\<lambda>D f. D + (if even f then 1 else - 1) * A ! 0 ! f * (if f < n then determinant (getCofactor A 0 f n) (n - 1) else 0))
             0 [0..<n])"
  by pat_completeness auto
termination by (relation "measure (\<lambda>(A, n). n)") auto

declare determinant.simps [simp del]

definition adjoint :: "'f::{zero,one,plus,uminus,times} matrix \<Rightarrow> 'f matrix" where
  "adjoint A =
     (let n = length A in
      if n = 1 then [[1]]
      else map (\<lambda>j. map (\<lambda>i. (if even (i + j) then 1 else - 1) * determinant (getCofactor A i j n) (n - 1)) [0..<n]) [0..<n])"

text \<open>\<open>matInv\<close>: None when it returns false; the first row of an empty matrix is read, which is undefined.\<close>

definition matInv :: "'f::{zero,one,plus,uminus,times,inverse} matrix \<Rightarrow> 'f matrix option result" where
  "matInv A =
     (if A = [] then Inl (UndefinedBehaviour ''A[0]'')
      else if length (A ! 0) \<noteq> length A then Inl (RuntimeError ''Not a Square Matrix '')
      else
        (let det = determinant A (length A) in
         if det = 0 then Inr None
         else Inr (Some (map (map (\<lambda>x. x / det)) (adjoint A)))))"

text \<open>The inverse of a rigid motion [R | t] is [R^T | -R^T t].\<close>

definition invertSe3Matrix4x4InPlace :: "'f::{zero,one,plus,uminus,times} matrix \<Rightarrow> 'f matrix result" where
  "invertSe3Matrix4x4InPlace mat =
     (if length mat \<noteq> 4 \<or> list_ex (\<lambda>row. length row \<noteq> 4) mat then Inl (InvalidArgument ''Expected a 4x4 matrix.'')
      else
        (let r00 = mat!0!0; r01 = mat!0!1; r02 = mat!0!2;
             r10 = mat!1!0; r11 = mat!1!1; r12 = mat!1!2;
             r20 = mat!2!0; r21 = mat!2!1; r22 = mat!2!2;
             tx = mat!0!3; ty = mat!1!3; tz = mat!2!3
         in Inr [[r00, r10, r20, - (r00 * tx + r10 * ty + r20 * tz)],
                 [r01, r11, r21, - (r01 * tx + r11 * ty + r21 * tz)],
                 [r02, r12, r22, - (r02 * tx + r12 * ty + r22 * tz)],
                 [0, 0, 0, 1]]))"

text \<open>The same on arrays, with the translation accumulated from 0 by subtraction.\<close>

definition invertSe3Matrix4x4 :: "'f::{zero,one,minus,times} matrix \<Rightarrow> 'f matrix" where
  "invertSe3Matrix4x4 M =
     map (\<lambda>i. map (\<lambda>j. M ! j ! i) [0..<3] @ [foldl (\<lambda>t j. t - M ! j ! i * M ! j ! 3) 0 [0..<3]]) [0..<3] @ [[0, 0, 0, 1]]"

definition matMulArray :: "nat \<Rightarrow> 'f::{zero,plus,times} matrix \<Rightarrow> 'f matrix \<Rightarrow> 'f matrix" where
  "matMulArray n A B =
     map (\<lambda>i. map (\<lambda>j. foldl (\<lambda>acc k. acc + A ! i ! k * B ! k ! j) 0 [0..<n]) [0..<n]) [0..<n]"

definition is3x3 :: "'f matrix \<Rightarrow> bool" where
  "is3x3 R = (length R = 3 \<and> length (R ! 0) = 3 \<and> length (R ! 1) = 3 \<and> length (R ! 2) = 3)"

definition createTransformationMatrix :: "'f::{zero,one} matrix \<Rightarrow> 'f Point3f \<Rightarrow> 'f matrix result" where
  "createTransformationMatrix R t =
     (if \<not> is3x3 R then Inl (InvalidArgument ''Expected a 3x3 rotation matrix.'')
      else Inr [[R!0!0, R!0!1, R!0!2, p_x t], [R!1!0, R!1!1, R!1!2, p_y t], [R!2!0, R!2!1, R!2!2, p_z t], [0, 0, 0, 1]])"

definition vectorMatrixToMatrix3x3 :: "'f::zero matrix \<Rightarrow> 'f matrix result" where
  "vectorMatrixToMatrix3x3 R =
     (if R = [] then Inr (replicate 3 (replicate 3 0))
      else if \<not> is3x3 R then Inl (InvalidArgument ''Expected a 3x3 vector matrix to convert to 3x3 matrix.'')
      else Inr (map (\<lambda>i. map (\<lambda>j. R ! i ! j) [0..<3]) [0..<3]))"

definition matrix3x3ToVectorMatrix :: "'f matrix \<Rightarrow> 'f matrix" where
  "matrix3x3ToVectorMatrix R = map (\<lambda>i. map (\<lambda>j. R ! i ! j) [0..<3]) [0..<3]"

text \<open>\<open>getMatrixInverse\<close> for 3x3 matrices (computed in double, rounded once).\<close>

definition getMatrixInverse3 :: "'f::{zero,one,plus,minus,uminus,times,inverse} matrix \<Rightarrow> 'f matrix result" where
  "getMatrixInverse3 m =
     (let det = m!0!0 * (m!1!1 * m!2!2 - m!1!2 * m!2!1) - m!0!1 * (m!1!0 * m!2!2 - m!1!2 * m!2!0)
                + m!0!2 * (m!1!0 * m!2!1 - m!1!1 * m!2!0)
      in if det = 0 then Inl (RuntimeError ''Matrix is singular and cannot be inverted.'')
         else
           (let invDet = 1 / det;
                adj = [[m!1!1 * m!2!2 - m!1!2 * m!2!1, - (m!0!1 * m!2!2 - m!0!2 * m!2!1), m!0!1 * m!1!2 - m!0!2 * m!1!1],
                       [- (m!1!0 * m!2!2 - m!1!2 * m!2!0), m!0!0 * m!2!2 - m!0!2 * m!2!0, - (m!0!0 * m!1!2 - m!0!2 * m!1!0)],
                       [m!1!0 * m!2!1 - m!1!1 * m!2!0, - (m!0!0 * m!2!1 - m!0!1 * m!2!0), m!0!0 * m!1!1 - m!0!1 * m!1!0]]
            in Inr (map (map (\<lambda>x. x * invDet)) adj)))"

definition dehomogenizePoint4 :: "'f::{one,abs,ord,inverse} \<Rightarrow> 'f list \<Rightarrow> 'f list result" where
  "dehomogenizePoint4 tiny p =
     (if \<bar>p ! 3\<bar> < tiny then Inl (RuntimeError ''Cannot dehomogenize point with w close to zero.'')
      else Inr [p!0 / p!3, p!1 / p!3, p!2 / p!3, 1])"

definition isIdentity4x4 :: "'f::{zero,one,minus,abs,ord} \<Rightarrow> 'f matrix \<Rightarrow> bool" where
  "isIdentity4x4 epsilon m =
     list_all (\<lambda>i. list_all (\<lambda>j. \<not> \<bar>m ! i ! j - (if i = j then 1 else 0)\<bar> > epsilon) [0..<4]) [0..<4]"

section \<open>Multiplication\<close>

definition shape :: "nat \<Rightarrow> nat \<Rightarrow> 'f matrix \<Rightarrow> bool" where
  "shape n m A = (length A = n \<and> (\<forall>row \<in> set A. length row = m))"

lemma shape_row: "shape n m A \<Longrightarrow> i < n \<Longrightarrow> length (A ! i) = m"
  by (simp add: shape_def)

definition prod_matrix :: "'f::semiring_0 matrix \<Rightarrow> 'f matrix \<Rightarrow> nat \<Rightarrow> nat \<Rightarrow> 'f matrix" where
  "prod_matrix A B m q = map (\<lambda>row. map (\<lambda>j. \<Sum>k<m. row ! k * B ! k ! j) [0..<q]) A"

lemma shape_prod: "shape n m A \<Longrightarrow> shape n q (prod_matrix A B m q)"
  by (auto simp: shape_def prod_matrix_def)

lemma prod_nth: "i < length A \<Longrightarrow> j < q \<Longrightarrow> prod_matrix A B m q ! i ! j = (\<Sum>k<m. A ! i ! k * B ! k ! j)"
  by (simp add: prod_matrix_def)

lemma mapR_total: "(\<And>x. x \<in> set xs \<Longrightarrow> f x = Inr (g x)) \<Longrightarrow> mapR f xs = Inr (map g xs)"
  by (induction xs) simp_all

lemma foldR_sum:
  assumes "\<And>k acc. k < m \<Longrightarrow> f k acc = Inr (acc + g k)"
  shows "foldR f [0..<m] (0::'f::comm_monoid_add) = Inr (\<Sum>k<m. g k)"
  using assms by (induction m) (simp_all add: foldR_append)

lemma matMul_prod:
  assumes "shape n m A" and "shape m q B" and "0 < n" and "0 < m"
  shows "matMul A B = Inr (prod_matrix A B m q)"
proof -
  have ne: "A \<noteq> []" "B \<noteq> []" using assms by (auto simp: shape_def)
  then have q: "length (A ! 0) = m" "length (B ! 0) = q" using assms shape_row by blast+
  have "mul_cell row B m q j = Inr (\<Sum>k<m. row ! k * B ! k ! j)" if "row \<in> set A" for row j
  proof -
    have "length row = m" "length B = m" using that assms(1,2) by (simp_all add: shape_def)
    then show ?thesis
      unfolding mul_cell_def by (simp, intro foldR_sum) (simp add: shape_row [OF assms(2)])
  qed
  then have rows: "mapR (mul_cell row B m q) [0..<q] = Inr (map (\<lambda>j. \<Sum>k<m. row ! k * B ! k ! j) [0..<q])" if "row \<in> set A" for row
    using that by (intro mapR_total) simp
  have "mapR (\<lambda>row. mapR (mul_cell row B m q) [0..<q]) A = Inr (prod_matrix A B m q)"
    unfolding prod_matrix_def by (rule mapR_total) (rule rows)
  with ne q show ?thesis by (simp add: matMul_def Let_def)
qed

lemma shape_eqI:
  assumes "shape n m A" and "shape n m B" and "\<And>i j. i < n \<Longrightarrow> j < m \<Longrightarrow> A ! i ! j = B ! i ! j"
  shows "A = B"
proof (rule nth_equalityI)
  show "length A = length B" using assms(1,2) by (simp add: shape_def)
  fix i
  assume "i < length A"
  then have "i < n" using assms(1) by (simp add: shape_def)
  then show "A ! i = B ! i" using shape_row [OF assms(1)] shape_row [OF assms(2)] assms(3)
    by (intro nth_equalityI) simp_all
qed

lemma prod_assoc:
  assumes "shape n m A" and "shape m p B" and "shape p q C"
  shows "prod_matrix (prod_matrix A B m p) C p q = prod_matrix A (prod_matrix B C p q) m q"
proof (rule shape_eqI)
  show "shape n q (prod_matrix (prod_matrix A B m p) C p q)" "shape n q (prod_matrix A (prod_matrix B C p q) m q)"
    using assms by (auto intro: shape_prod)
  fix i j
  assume ij: "i < n" "j < q"
  have len: "length A = n" "length B = m" using assms by (simp_all add: shape_def)
  have "prod_matrix (prod_matrix A B m p) C p q ! i ! j = (\<Sum>k<p. (\<Sum>l<m. A ! i ! l * B ! l ! k) * C ! k ! j)"
    using ij len by (simp add: prod_nth prod_matrix_def [of A B])
  also have "\<dots> = (\<Sum>k<p. \<Sum>l<m. A ! i ! l * (B ! l ! k * C ! k ! j))"
    by (simp add: sum_distrib_right mult.assoc)
  also have "\<dots> = (\<Sum>l<m. \<Sum>k<p. A ! i ! l * (B ! l ! k * C ! k ! j))" by (rule sum.swap)
  also have "\<dots> = (\<Sum>l<m. A ! i ! l * prod_matrix B C p q ! l ! j)"
    using ij len by (simp add: prod_nth sum_distrib_left)
  also have "\<dots> = prod_matrix A (prod_matrix B C p q) m q ! i ! j" using ij len by (simp add: prod_nth)
  finally show "prod_matrix (prod_matrix A B m p) C p q ! i ! j = prod_matrix A (prod_matrix B C p q) m q ! i ! j" .
qed

section \<open>Rigid motions\<close>

text \<open>A homogeneous matrix [R | t] whose rotation part has orthonormal rows and columns.\<close>

definition rigid :: "'f::comm_ring_1 matrix \<Rightarrow> bool" where
  "rigid M = (shape 4 4 M \<and> M ! 3 = [0, 0, 0, 1] \<and>
     (\<forall>i<3. \<forall>j<3. (\<Sum>k<3. M ! i ! k * M ! j ! k) = (if i = j then 1 else 0)) \<and>
     (\<forall>i<3. \<forall>j<3. (\<Sum>k<3. M ! k ! i * M ! k ! j) = (if i = j then 1 else 0)))"

definition identity4 :: "'f::{zero,one} matrix" where
  "identity4 = [[1, 0, 0, 0], [0, 1, 0, 0], [0, 0, 1, 0], [0, 0, 0, 1]]"

lemma sum3: "(\<Sum>k<3. f k) = f 0 + f 1 + f (2::nat)" for f :: "nat \<Rightarrow> 'f::comm_monoid_add"
  by (simp add: numeral_3_eq_3 numeral_2_eq_2 add.assoc)

lemma sum4: "(\<Sum>k<4. f k) = f 0 + f 1 + f 2 + f (3::nat)" for f :: "nat \<Rightarrow> 'f::comm_monoid_add"
proof -
  have "{..<4} = insert 3 {..<3::nat}" by auto
  then show ?thesis by (simp add: sum3 add.commute)
qed

lemma less3: "i < 3 \<longleftrightarrow> i = 0 \<or> i = 1 \<or> i = (2::nat)"
  by auto

lemma less4: "i < 4 \<longleftrightarrow> i < 3 \<or> i = (3::nat)"
  by auto

lemma all_less4: "(\<And>i. i < 3 \<Longrightarrow> P i) \<Longrightarrow> P 3 \<Longrightarrow> i < 4 \<Longrightarrow> P (i::nat)"
  by (auto simp: less4)

lemma shape4_eqI:
  assumes "shape 4 4 A" and "shape 4 4 B"
    and "\<And>i j. i < 3 \<Longrightarrow> j < 3 \<Longrightarrow> A ! i ! j = B ! i ! j" and "\<And>i. i < 3 \<Longrightarrow> A ! i ! 3 = B ! i ! 3" and "A ! 3 = B ! 3"
  shows "A = B"
proof (rule shape_eqI [OF assms(1,2)])
  show "A ! i ! j = B ! i ! j" if "i < 4" "j < 4" for i j
    using that assms(3-5) by (auto simp: less4)
qed

lemma rigid_row3 [simp]:
  assumes "rigid M"
  shows "M ! 3 ! 0 = 0" and "M ! 3 ! Suc 0 = 0" and "M ! 3 ! 2 = 0" and "M ! 3 ! 3 = 1"
  using assms by (simp_all add: rigid_def)

lemma rigid_shape: "rigid M \<Longrightarrow> shape 4 4 M"
  by (simp add: rigid_def)

text \<open>The product of homogeneous matrices multiplies the rotations and moves the translation.\<close>

lemma prod_rotation:
  assumes "rigid A" and "rigid B" and "i < 3" and "j < 3"
  shows "prod_matrix A B 4 4 ! i ! j = (\<Sum>k<3. A ! i ! k * B ! k ! j)"
proof -
  have "length A = 4" using rigid_shape [OF assms(1)] by (simp add: shape_def)
  moreover have "B ! 3 ! j = 0" using assms(2,4) by (auto simp: less3)
  ultimately show ?thesis using assms(3,4) by (simp add: prod_nth sum4 sum3)
qed

lemma prod_translation:
  assumes "rigid A" and "rigid B" and "i < 3"
  shows "prod_matrix A B 4 4 ! i ! 3 = (\<Sum>k<3. A ! i ! k * B ! k ! 3) + A ! i ! 3"
proof -
  have "length A = 4" using rigid_shape [OF assms(1)] by (simp add: shape_def)
  then show ?thesis using assms by (simp add: prod_nth sum4 sum3)
qed

lemma prod_last:
  assumes "rigid A" and "rigid B"
  shows "prod_matrix A B 4 4 ! 3 = [0, 0, 0, 1]"
proof -
  have A: "length A = 4" "A ! 3 = [0, 0, 0, 1]" using assms(1) by (simp_all add: rigid_def shape_def)
  then have "prod_matrix A B 4 4 ! 3 = map (\<lambda>j. \<Sum>k<4. A ! 3 ! k * B ! k ! j) [0..<4]"
    by (simp add: prod_matrix_def)
  also have "\<dots> = map (\<lambda>j. B ! 3 ! j) [0..<4]" by (simp add: sum4 A(2))
  also have "\<dots> = [0, 0, 0, 1]" using assms(2) by (simp add: upt_rec numeral_eq_Suc [of num.One] rigid_def)
  finally show ?thesis .
qed

lemma orthonormal_prod:
  fixes A B :: "nat \<Rightarrow> nat \<Rightarrow> 'f::comm_ring_1"
  assumes "\<And>i j. i < 3 \<Longrightarrow> j < 3 \<Longrightarrow> (\<Sum>k<3. A i k * A j k) = (if i = j then 1 else 0)"
    and "\<And>i j. i < 3 \<Longrightarrow> j < 3 \<Longrightarrow> (\<Sum>k<3. B i k * B j k) = (if i = j then 1 else 0)"
    and "i < 3" and "j < 3"
  shows "(\<Sum>k<3. (\<Sum>l<3. A i l * B l k) * (\<Sum>m<3. A j m * B m k)) = (if i = j then 1 else 0)"
proof -
  have "(\<Sum>k<3. (\<Sum>l<3. A i l * B l k) * (\<Sum>m<3. A j m * B m k)) =
      (\<Sum>k<3. \<Sum>l<3. \<Sum>m<3. A i l * A j m * (B l k * B m k))"
    by (simp add: sum_product mult_ac)
  also have "\<dots> = (\<Sum>l<3. \<Sum>k<3. \<Sum>m<3. A i l * A j m * (B l k * B m k))" by (rule sum.swap)
  also have "\<dots> = (\<Sum>l<3. \<Sum>m<3. \<Sum>k<3. A i l * A j m * (B l k * B m k))"
    by (intro sum.cong refl sum.swap)
  also have "\<dots> = (\<Sum>l<3. \<Sum>m<3. A i l * A j m * (\<Sum>k<3. B l k * B m k))"
    by (simp only: sum_distrib_left)
  also have "\<dots> = (\<Sum>l<3. \<Sum>m<3. if l = m then A i l * A j m else 0)"
    by (intro sum.cong refl) (use assms(2) in auto)
  also have "\<dots> = (\<Sum>l<3. A i l * A j l)" by (simp add: sum.delta)
  finally show ?thesis using assms(1) [OF assms(3,4)] by simp
qed

lemma rigid_prod:
  assumes "rigid A" and "rigid B"
  shows "rigid (prod_matrix A B 4 4)"
proof -
  let ?P = "prod_matrix A B 4 4"
  have "shape 4 4 ?P" using rigid_shape [OF assms(1)] by (rule shape_prod)
  moreover have "(\<Sum>k<3. ?P ! i ! k * ?P ! j ! k) = (if i = j then 1 else 0)" if "i < 3" "j < 3" for i j
  proof -
    have "(\<Sum>k<3. ?P ! i ! k * ?P ! j ! k) = (\<Sum>k<3. (\<Sum>l<3. A ! i ! l * B ! l ! k) * (\<Sum>m<3. A ! j ! m * B ! m ! k))"
      by (intro sum.cong refl) (simp add: prod_rotation [OF assms] that)
    also have "\<dots> = (if i = j then 1 else 0)"
      by (rule orthonormal_prod) (use assms that in \<open>simp_all add: rigid_def\<close>)
    finally show ?thesis .
  qed
  moreover have "(\<Sum>k<3. ?P ! k ! i * ?P ! k ! j) = (if i = j then 1 else 0)" if "i < 3" "j < 3" for i j
  proof -
    have "(\<Sum>k<3. ?P ! k ! i * ?P ! k ! j) = (\<Sum>k<3. (\<Sum>l<3. B ! l ! i * A ! k ! l) * (\<Sum>m<3. B ! m ! j * A ! k ! m))"
      by (intro sum.cong refl) (simp add: prod_rotation [OF assms] that mult.commute)
    also have "\<dots> = (if i = j then 1 else 0)"
      by (rule orthonormal_prod [where A = "\<lambda>i l. B ! l ! i" and B = "\<lambda>l k. A ! k ! l"])
        (use assms that in \<open>simp_all add: rigid_def\<close>)
    finally show ?thesis .
  qed
  ultimately show ?thesis using prod_last [OF assms] by (simp add: rigid_def)
qed

text \<open>The inverse.\<close>

lemma invertSe3_rigid:
  assumes "rigid M"
  obtains N where "invertSe3Matrix4x4InPlace M = Inr N" and "shape 4 4 N" and "N ! 3 = [0, 0, 0, 1]"
    and "\<And>i j. i < 3 \<Longrightarrow> j < 3 \<Longrightarrow> N ! i ! j = M ! j ! i"
    and "\<And>i. i < 3 \<Longrightarrow> N ! i ! 3 = - (\<Sum>k<3. M ! k ! i * M ! k ! 3)"
proof -
  have "\<not> list_ex (\<lambda>row. length row \<noteq> 4) M" "length M = 4"
    using rigid_shape [OF assms] by (simp_all add: shape_def list_ex_iff)
  then have "invertSe3Matrix4x4InPlace M = Inr
     [[M!0!0, M!1!0, M!2!0, - (M!0!0 * M!0!3 + M!1!0 * M!1!3 + M!2!0 * M!2!3)],
      [M!0!1, M!1!1, M!2!1, - (M!0!1 * M!0!3 + M!1!1 * M!1!3 + M!2!1 * M!2!3)],
      [M!0!2, M!1!2, M!2!2, - (M!0!2 * M!0!3 + M!1!2 * M!1!3 + M!2!2 * M!2!3)],
      [0, 0, 0, 1]]" (is "_ = Inr ?N")
    by (simp add: invertSe3Matrix4x4InPlace_def Let_def)
  then show thesis
    by (rule that) (auto simp: shape_def less3 sum3)
qed

lemma rigid_inverse:
  assumes "rigid M" and "invertSe3Matrix4x4InPlace M = Inr N"
  shows "rigid N" and "prod_matrix M N 4 4 = identity4" and "prod_matrix N M 4 4 = identity4"
proof -
  obtain N' where "invertSe3Matrix4x4InPlace M = Inr N'" and N: "shape 4 4 N'" "N' ! 3 = [0, 0, 0, 1]"
    "\<And>i j. i < 3 \<Longrightarrow> j < 3 \<Longrightarrow> N' ! i ! j = M ! j ! i" "\<And>i. i < 3 \<Longrightarrow> N' ! i ! 3 = - (\<Sum>k<3. M ! k ! i * M ! k ! 3)"
    using invertSe3_rigid [OF assms(1)] by blast
  then have NN: "N' = N" using assms(2) by simp
  have orth: "\<And>i j. i < 3 \<Longrightarrow> j < 3 \<Longrightarrow> (\<Sum>k<3. M ! i ! k * M ! j ! k) = (if i = j then 1 else 0)"
    "\<And>i j. i < 3 \<Longrightarrow> j < 3 \<Longrightarrow> (\<Sum>k<3. M ! k ! i * M ! k ! j) = (if i = j then 1 else 0)"
    using assms(1) by (simp_all add: rigid_def)
  show rN: "rigid N" unfolding NN [symmetric] rigid_def
    using N orth by (auto intro!: sum.cong simp: mult.commute)
  have id: "shape 4 4 identity4" "identity4 ! 3 = [0, 0, 0, 1]"
    "\<And>i j. i < 3 \<Longrightarrow> j < 3 \<Longrightarrow> identity4 ! i ! j = (if i = j then 1 else 0)" "\<And>i. i < 3 \<Longrightarrow> identity4 ! i ! 3 = 0"
    by (auto simp: identity4_def shape_def less3)
  have sM: "shape 4 4 M" by (rule rigid_shape [OF assms(1)])
  show "prod_matrix M N 4 4 = identity4"
  proof (rule shape4_eqI [OF shape_prod [OF sM] id(1)])
    show "prod_matrix M N 4 4 ! i ! j = identity4 ! i ! j" if "i < 3" "j < 3" for i j
      using N(3) that orth(1) [OF that] by (simp add: prod_rotation [OF assms(1) rN] NN id(3))
    show "prod_matrix M N 4 4 ! i ! 3 = identity4 ! i ! 3" if "i < 3" for i
    proof -
      have "(\<Sum>k<3. M ! i ! k * N ! k ! 3) = - (\<Sum>k<3. \<Sum>l<3. M ! i ! k * M ! l ! k * M ! l ! 3)"
        using N(4) NN by (simp add: sum_distrib_left sum_negf mult.assoc)
      also have "\<dots> = - (\<Sum>l<3. (\<Sum>k<3. M ! i ! k * M ! l ! k) * M ! l ! 3)"
        by (subst sum.swap) (simp only: sum_distrib_right)
      also have "\<dots> = - (\<Sum>l<3. if i = l then M ! l ! 3 else 0)"
        by (intro arg_cong [of _ _ uminus] sum.cong refl) (use orth(1) that in auto)
      also have "\<dots> = - (M ! i ! 3)" using that by (simp add: sum.delta)
      finally show ?thesis using that by (simp add: prod_translation [OF assms(1) rN] id(4))
    qed
  qed (simp add: prod_last [OF assms(1) rN] id(2))
  show "prod_matrix N M 4 4 = identity4"
  proof (rule shape4_eqI [OF shape_prod id(1)])
    show "shape 4 4 N" by (rule rigid_shape [OF rN])
    show "prod_matrix N M 4 4 ! i ! j = identity4 ! i ! j" if "i < 3" "j < 3" for i j
      using N(3) that orth(2) [OF that] by (simp add: prod_rotation [OF rN assms(1)] NN id(3))
    show "prod_matrix N M 4 4 ! i ! 3 = identity4 ! i ! 3" if "i < 3" for i
      using N(3,4) that by (simp add: prod_translation [OF rN assms(1)] NN id(4))
  qed (simp add: prod_last [OF rN assms(1)] id(2))
qed

lemma prod_identity4:
  fixes M :: "'f::comm_ring_1 matrix"
  assumes "shape 4 4 M"
  shows "prod_matrix identity4 M 4 4 = M"
proof (rule shape_eqI [OF shape_prod assms])
  show "shape 4 4 (identity4 :: 'f matrix)" by (simp add: shape_def identity4_def)
  show "prod_matrix identity4 M 4 4 ! i ! j = M ! i ! j" if "i < 4" "j < 4" for i j
    using that by (auto simp: prod_nth identity4_def sum4 less4 less3)
qed

lemma upt3: "[0..<3] = [0, 1, 2]" and upt2: "[0..<2] = [0, 1]"
  by (simp_all add: upt_rec numeral_2_eq_2)

text \<open>The two inverses of the source, in place on vectors and on arrays, agree on 4x4 matrices.\<close>

lemma invertSe3_agree:
  fixes M :: "'f::comm_ring_1 matrix"
  assumes "shape 4 4 M"
  shows "invertSe3Matrix4x4InPlace M = Inr (invertSe3Matrix4x4 M)"
proof -
  have "\<not> list_ex (\<lambda>row. length row \<noteq> 4) M" "length M = 4" using assms by (simp_all add: shape_def list_ex_iff)
  then show ?thesis
    by (simp add: invertSe3Matrix4x4InPlace_def invertSe3Matrix4x4_def Let_def upt3 algebra_simps)
qed

section \<open>Two inverses of a 3x3 matrix\<close>

lemma shape3_cases:
  assumes "shape 3 3 A"
  obtains a b c d e f g h i where "A = [[a, b, c], [d, e, f], [g, h, i]]"
proof -
  have row: "\<exists>x y z. r = [x, y, z]" if "length r = 3" for r :: "'b list"
    using that by (metis (no_types) length_0_conv length_Suc_conv numeral_3_eq_3)
  obtain r s t where A: "A = [r, s, t]" using row [of A] assms by (auto simp: shape_def)
  then have "length r = 3" "length s = 3" "length t = 3" using assms by (simp_all add: shape_def)
  then obtain a b c d e f g h i where "r = [a, b, c]" "s = [d, e, f]" "t = [g, h, i]" using row by metis
  with A that show thesis by simp
qed

lemma determinant1: "determinant [[a]] 1 = a"
  by (simp add: determinant.simps)

lemma determinant2: "determinant [[a, b], [c, d]] 2 = a * d - b * (c::'f::comm_ring_1)"
  by (simp add: determinant.simps getCofactor_def upt2)

lemma determinant3:
  "determinant [[a, b, c], [d, e, f], [g, h, i]] 3 =
     a * (e * i - f * h) - b * (d * i - f * g) + c * (d * h - e * (g::'f::comm_ring_1))"
  by (subst determinant.simps) (simp add: getCofactor_def upt3 determinant2 algebra_simps)

text \<open>
  The general inverse (determinant and adjugate) and the closed form for 3x3 matrices give the same
  result over an exact field, and where it exists it is the inverse.
\<close>

theorem inverses_agree:
  fixes A :: "'f::field matrix"
  assumes "shape 3 3 A"
  shows "matInv A = (case getMatrixInverse3 A of Inr N \<Rightarrow> Inr (Some N) | Inl _ \<Rightarrow> Inr None)"
proof -
  obtain a b c d e f g h i where A: "A = [[a, b, c], [d, e, f], [g, h, i]]" using shape3_cases [OF assms] .
  have "adjoint A = [[e * i - f * h, - (b * i - c * h), b * f - c * e],
      [- (d * i - f * g), a * i - c * g, - (a * f - c * d)], [d * h - e * g, - (a * h - b * g), a * e - b * d]]"
    by (simp add: A adjoint_def Let_def upt3 getCofactor_def determinant2 [unfolded numeral_2_eq_2])
  then show ?thesis
    by (simp add: A matInv_def getMatrixInverse3_def Let_def determinant3 [unfolded numeral_3_eq_3] divide_inverse)
qed

lemma adjugate_product:
  fixes a :: "'f::comm_ring_1"
  shows "prod_matrix [[a, b, c], [d, e, f], [g, h, i]] (map (map (\<lambda>x. x * r))
      [[e * i - f * h, - (b * i - c * h), b * f - c * e],
       [- (d * i - f * g), a * i - c * g, - (a * f - c * d)], [d * h - e * g, - (a * h - b * g), a * e - b * d]]) 3 3 =
    (let k = (a * (e * i - f * h) - b * (d * i - f * g) + c * (d * h - e * g)) * r in [[k, 0, 0], [0, k, 0], [0, 0, k]])"
  by (simp add: prod_matrix_def upt3 sum3 Let_def algebra_simps)

theorem getMatrixInverse3_inverts:
  fixes A :: "'f::field matrix"
  assumes "shape 3 3 A" and "getMatrixInverse3 A = Inr N"
  shows "matMul A N = Inr [[1, 0, 0], [0, 1, 0], [0, 0, 1]]"
proof -
  obtain a b c d e f g h i where A: "A = [[a, b, c], [d, e, f], [g, h, i]]" using shape3_cases [OF assms(1)] .
  let ?det = "a * (e * i - f * h) - b * (d * i - f * g) + c * (d * h - e * g)"
  have det: "?det \<noteq> 0" and N: "N = map (map (\<lambda>x. x * (1 / ?det)))
      [[e * i - f * h, - (b * i - c * h), b * f - c * e],
       [- (d * i - f * g), a * i - c * g, - (a * f - c * d)], [d * h - e * g, - (a * h - b * g), a * e - b * d]]"
    using assms(2) by (auto simp: A getMatrixInverse3_def Let_def split: if_splits)
  have "shape 3 3 N" by (simp add: N shape_def)
  then have "matMul A N = Inr (prod_matrix A N 3 3)" by (intro matMul_prod [OF assms(1)]) simp_all
  also have "prod_matrix A N 3 3 = [[?det * (1 / ?det), 0, 0], [0, ?det * (1 / ?det), 0], [0, 0, ?det * (1 / ?det)]]"
    unfolding N A adjugate_product by (simp only: Let_def)
  also have "?det * (1 / ?det) = 1" using det by simp
  finally show ?thesis .
qed

end
