(* ===== verification/Calibration.thy ===== *)
theory Calibration
  imports Matrices
begin

text \<open>
  The calibration data of a device (src/device/CalibrationHandler.cpp,
  include/depthai/common/EepromData.hpp, CameraInfo.hpp, Extrinsics.hpp, DepthUnit.hpp): the
  extrinsics that link each camera to another one, the checks of this graph, the transformations
  computed along it, and the getters and setters. A float is an element of a field (exact
  arithmetic); what the code computes by recursion without a bound is a partial function whose
  value \<open>None\<close> is a computation that does not return.
\<close>

section \<open>Data\<close>

datatype CameraBoardSocket =
  AUTO | CAM_A | CAM_B | CAM_C | CAM_D | CAM_E | CAM_F | CAM_G | CAM_H | CAM_I | CAM_J | CBA

fun socket_code :: "CameraBoardSocket \<Rightarrow> int" where
  "socket_code AUTO = -1"
| "socket_code CAM_A = 0" | "socket_code CAM_B = 1" | "socket_code CAM_C = 2" | "socket_code CAM_D = 3"
| "socket_code CAM_E = 4" | "socket_code CAM_F = 5" | "socket_code CAM_G = 6" | "socket_code CAM_H = 7"
| "socket_code CAM_I = 8" | "socket_code CAM_J = 9" | "socket_code CBA = 10"

datatype LengthUnit = METER | CENTIMETER | MILLIMETER | INCH | FOOT | CUSTOM

fun getLengthUnitMultiplier :: "LengthUnit \<Rightarrow> 'f::field_char_0" where
  "getLengthUnitMultiplier METER = 1"
| "getLengthUnitMultiplier CENTIMETER = 100"
| "getLengthUnitMultiplier MILLIMETER = 1000"
| "getLengthUnitMultiplier INCH = 393701 / 10000"
| "getLengthUnitMultiplier FOOT = 328084 / 100000"
| "getLengthUnitMultiplier CUSTOM = 1"

definition getDistanceUnitScale :: "LengthUnit \<Rightarrow> LengthUnit \<Rightarrow> 'f::field_char_0" where
  "getDistanceUnitScale target source = getLengthUnitMultiplier target / getLengthUnitMultiplier source"

datatype CameraModel = Perspective | Fisheye | Equirectangular | RadialDivision

record 'f Extrinsics =
  rotationMatrix :: "'f matrix"
  translation :: "'f Point3f"
  specTranslation :: "'f Point3f"
  toCameraSocket :: CameraBoardSocket
  lengthUnit :: LengthUnit

record 'f CameraInfo =
  ci_width :: "16 word"
  ci_height :: "16 word"
  lensPosition :: u8
  intrinsicMatrix :: "'f matrix"
  distortionCoeff :: "'f list"
  extrinsics :: "'f Extrinsics"
  specHfovDeg :: 'f
  cameraType :: CameraModel

definition origin3 :: "'f::zero Point3f" where
  "origin3 = \<lparr>p_x = 0, p_y = 0, p_z = 0\<rparr>"

definition Extrinsics_default :: "'f::zero Extrinsics" where
  "Extrinsics_default =
     \<lparr>rotationMatrix = [], translation = origin3, specTranslation = origin3, toCameraSocket = AUTO, lengthUnit = CENTIMETER\<rparr>"

definition CameraInfo_default :: "'f::zero CameraInfo" where
  "CameraInfo_default =
     \<lparr>ci_width = 0, ci_height = 0, lensPosition = 0, intrinsicMatrix = [], distortionCoeff = [],
      extrinsics = Extrinsics_default, specHfovDeg = 0, cameraType = Perspective\<rparr>"

record 'f StereoRectification =
  rectifiedRotationLeft :: "'f matrix"
  rectifiedRotationRight :: "'f matrix"
  leftCameraSocket :: CameraBoardSocket
  rightCameraSocket :: CameraBoardSocket

record 'f ImuCalibrationParams =
  imu_noise :: "string \<times> 'f list"
  accelerometer :: "'f matrix"
  gyroscope :: "'f matrix"

text \<open>\<open>cameraData\<close> is an unordered map: its entries in the order in which the iteration yields them.\<close>

record 'f EepromData =
  version :: u32
  productName :: string
  boardCustom :: string
  boardName :: string
  boardRev :: string
  boardConf :: string
  hardwareConf :: string
  deviceName :: string
  batchTime :: u64
  boardOptions :: u32
  cameraData :: "(CameraBoardSocket \<times> 'f CameraInfo) list"
  stereoRectificationData :: "'f StereoRectification"
  imuExtrinsics :: "'f Extrinsics"
  imuCalibrationParams :: "'f ImuCalibrationParams"

definition camera :: "'f EepromData \<Rightarrow> CameraBoardSocket \<Rightarrow> 'f CameraInfo option" where
  "camera d = map_of (cameraData d)"

text \<open>The camera that \<open>c\<close> is linked to: \<open>cameraData.at(c).extrinsics.toCameraSocket\<close>.\<close>

definition link_of :: "'f EepromData \<Rightarrow> CameraBoardSocket \<Rightarrow> CameraBoardSocket option" where
  "link_of d c = map_option (\<lambda>i. toCameraSocket (extrinsics i)) (camera d c)"

definition hasCalibrationData :: "'f EepromData \<Rightarrow> bool" where
  "hasCalibrationData d = (version d \<ge> 4 \<and> cameraData d \<noteq> [])"

definition hasCameraCalibration :: "'f EepromData \<Rightarrow> CameraBoardSocket \<Rightarrow> bool" where
  "hasCameraCalibration d c = (hasCalibrationData d \<and> camera d c \<noteq> None)"

section \<open>Transformations along the links\<close>

definition SRC_ERROR :: cpp_error where
  "SRC_ERROR = RuntimeError ''There is no Camera data available corresponding to the requested source cameraId''"

definition DST_ERROR :: cpp_error where
  "DST_ERROR = RuntimeError ''There is no Camera data available corresponding to the requested destination cameraId''"

definition ROTATION_ERROR :: cpp_error where
  "ROTATION_ERROR = RuntimeError ''Defined Extrinsic conenction but rotation matrix is not available. Please cross check your calibration data configuration.''"

text \<open>\<open>matrix[i].push_back(t_i)\<close> for the first three rows, then the homogeneous row.\<close>

definition append_translation :: "'f::{zero,one} matrix \<Rightarrow> 'f Point3f \<Rightarrow> 'f matrix result" where
  "append_translation R t =
     (if length R < 3 then Inl (UndefinedBehaviour ''push_back on a missing row'')
      else Inr (R[0 := R ! 0 @ [p_x t], 1 := R ! 1 @ [p_y t], 2 := R ! 2 @ [p_z t]] @ [[0, 0, 0, 1]]))"

definition link_matrix :: "bool \<Rightarrow> 'f::{zero,one} Extrinsics \<Rightarrow> 'f matrix result" where
  "link_matrix useSpec e =
     (if useSpec then
        (if specTranslation e = origin3
         then Inl (RuntimeError ''Cannot use useSpecTranslation argument since specTranslation has {0, 0, 0}'')
         else append_translation (rotationMatrix e) (specTranslation e))
      else append_translation (rotationMatrix e) (translation e))"

partial_function (option) computeExtrinsicMatrix ::
  "'f::field EepromData \<Rightarrow> bool \<Rightarrow> CameraBoardSocket \<Rightarrow> CameraBoardSocket \<Rightarrow> 'f matrix result option" where
  "computeExtrinsicMatrix d useSpec src dst =
     (if src = AUTO \<or> dst = AUTO then Some (Inl (RuntimeError ''Invalid cameraId input..''))
      else if \<not> hasCameraCalibration d src then Some (Inl SRC_ERROR)
      else if \<not> hasCameraCalibration d dst then Some (Inl DST_ERROR)
      else
        (let e = extrinsics (the (camera d src)) in
         if toCameraSocket e = dst then
           (if rotationMatrix e = [] \<or> toCameraSocket e = AUTO then Some (Inl ROTATION_ERROR)
            else Some (link_matrix useSpec e))
         else
           Option.bind (computeExtrinsicMatrix d useSpec (toCameraSocket e) dst)
             (\<lambda>r. Some (bindR r (\<lambda>dest. bindR (link_matrix useSpec e) (matMul dest))))))"

text \<open>The walk to the origin, the camera without a link; \<open>path\<close> is the vector of visited sockets.\<close>

instantiation CameraBoardSocket :: finite
begin

instance
proof
  have "(UNIV :: CameraBoardSocket set) = {AUTO, CAM_A, CAM_B, CAM_C, CAM_D, CAM_E, CAM_F, CAM_G, CAM_H, CAM_I, CAM_J, CBA}"
    using CameraBoardSocket.exhaust by blast
  then show "finite (UNIV :: CameraBoardSocket set)" by (metis finite.simps)
qed

end

function origin_walk ::
  "'f EepromData \<Rightarrow> CameraBoardSocket list \<Rightarrow> CameraBoardSocket \<Rightarrow> CameraBoardSocket result" where
  "origin_walk d path current =
     (case link_of d current of
        None \<Rightarrow> Inl (RuntimeError ''Invalid camera link detected.'')
      | Some nxt \<Rightarrow>
          if nxt \<in> set path then Inl (RuntimeError ''Cyclic extrinsics detected in device calibration data.'')
          else if nxt = AUTO then Inr current
          else origin_walk d (path @ [nxt]) nxt)"
  by pat_completeness auto
termination
  by (relation "measure (\<lambda>(d, path, c). card (UNIV - set path))") (auto intro!: diff_less simp: card_gt_0_iff subset_eq)

declare origin_walk.simps [simp del]

definition getExtrinsicsToOrigin ::
  "'f::field EepromData \<Rightarrow> bool \<Rightarrow> CameraBoardSocket \<Rightarrow> ('f matrix \<times> CameraBoardSocket) result option" where
  "getExtrinsicsToOrigin d useSpec c =
     (if camera d c = None then Some (Inl (RuntimeError ''Camera ID does not exist in the calibration data.''))
      else
        (case origin_walk d [c] c of
           Inl e \<Rightarrow> Some (Inl e)
         | Inr orig \<Rightarrow>
             if c = orig then Some (Inr (identity4, orig))
             else Option.bind (computeExtrinsicMatrix d useSpec c orig)
                    (\<lambda>r. Some (bindR r (\<lambda>m. Inr (m, orig))))))"

text \<open>\<open>eepromTranslationUnits\<close> is the constant CENTIMETER.\<close>

definition scaleTranslationInPlace :: "LengthUnit \<Rightarrow> 'f::field_char_0 matrix \<Rightarrow> 'f matrix" where
  "scaleTranslationInPlace unit mat =
     (let scale = getLengthUnitMultiplier unit / getLengthUnitMultiplier CENTIMETER in
      if scale = 1 then mat
      else foldl (\<lambda>m i. m[i := (m ! i)[3 := m ! i ! 3 * scale]]) mat [0..<3])"

definition getCameraExtrinsics ::
  "'f::field_char_0 EepromData \<Rightarrow> bool \<Rightarrow> LengthUnit \<Rightarrow> CameraBoardSocket \<Rightarrow> CameraBoardSocket \<Rightarrow> 'f matrix result option" where
  "getCameraExtrinsics d useSpec unit src dst =
     (if \<not> hasCameraCalibration d src then Some (Inl SRC_ERROR)
      else if \<not> hasCameraCalibration d dst then Some (Inl DST_ERROR)
      else
        Option.bind (getExtrinsicsToOrigin d useSpec src) (\<lambda>r1.
        case r1 of Inl e \<Rightarrow> Some (Inl e) | Inr (m1, o1) \<Rightarrow>
        Option.bind (getExtrinsicsToOrigin d useSpec dst) (\<lambda>r2.
        case r2 of Inl e \<Rightarrow> Some (Inl e) | Inr (m2, o2) \<Rightarrow>
          if o1 \<noteq> o2 then Some (Inl (RuntimeError ''Missing extrinsic link from source camera to to destination camera.''))
          else Some (bindR (invertSe3Matrix4x4InPlace m2) (\<lambda>inv.
                     bindR (matMul inv m1) (\<lambda>m. Inr (scaleTranslationInPlace unit m)))))))"

definition getCameraTranslationVector ::
  "'f::field_char_0 EepromData \<Rightarrow> bool \<Rightarrow> LengthUnit \<Rightarrow> CameraBoardSocket \<Rightarrow> CameraBoardSocket \<Rightarrow> 'f list result option" where
  "getCameraTranslationVector d useSpec unit src dst =
     map_option (\<lambda>r. bindR r (\<lambda>m. Inr (map (\<lambda>i. m ! i ! 3) [0..<3]))) (getCameraExtrinsics d useSpec unit src dst)"

definition getCameraRotationMatrix ::
  "'f::field_char_0 EepromData \<Rightarrow> CameraBoardSocket \<Rightarrow> CameraBoardSocket \<Rightarrow> 'f matrix result option" where
  "getCameraRotationMatrix d src dst =
     map_option (\<lambda>r. bindR r (\<lambda>m. Inr (map (\<lambda>i. map (\<lambda>j. m ! i ! j) [0..<3]) [0..<3])))
       (getCameraExtrinsics d False CENTIMETER src dst)"

definition getImuToCameraExtrinsics ::
  "'f::field_char_0 EepromData \<Rightarrow> bool \<Rightarrow> LengthUnit \<Rightarrow> CameraBoardSocket \<Rightarrow> 'f matrix result option" where
  "getImuToCameraExtrinsics d useSpec unit c =
     (let e = imuExtrinsics d in
      if rotationMatrix e = [] \<or> toCameraSocket e = AUTO
      then Some (Inl (RuntimeError ''IMU calibration data is not available on device yet.''))
      else if camera d c = None then Some (Inl SRC_ERROR)
      else
        (case append_translation (rotationMatrix e) (if useSpec then specTranslation e else translation e) of
           Inl er \<Rightarrow> Some (Inl er)
         | Inr imu \<Rightarrow>
             if toCameraSocket e = c then Some (Inr (scaleTranslationInPlace unit imu))
             else map_option (\<lambda>r. bindR r (\<lambda>dest. bindR (matMul dest imu) (\<lambda>m. Inr (scaleTranslationInPlace unit m))))
                    (getCameraExtrinsics d useSpec CENTIMETER (toCameraSocket e) c)))"

definition getCameraToImuExtrinsics ::
  "'f::field_char_0 EepromData \<Rightarrow> bool \<Rightarrow> LengthUnit \<Rightarrow> CameraBoardSocket \<Rightarrow> 'f matrix result option" where
  "getCameraToImuExtrinsics d useSpec unit c =
     map_option (\<lambda>r. bindR r invertSe3Matrix4x4InPlace) (getImuToCameraExtrinsics d useSpec unit c)"

section \<open>Checking the graph\<close>

datatype ExtrinsicGraphError = NoGraphError | CycleDetected | DanglingReference | DisconnectedGraph

record graph_result =
  gr_error :: ExtrinsicGraphError
  gr_at :: CameraBoardSocket
  gr_to :: CameraBoardSocket

definition graph_ok :: graph_result where
  "graph_ok = \<lparr>gr_error = NoGraphError, gr_at = AUTO, gr_to = AUTO\<rparr>"

text \<open>The inner loop for one camera: None when the chain ends at an origin.\<close>

function graph_walk :: "'f EepromData \<Rightarrow> CameraBoardSocket list \<Rightarrow> CameraBoardSocket \<Rightarrow> graph_result option result" where
  "graph_walk d visited current =
     (case link_of d current of
        None \<Rightarrow> Inl (OutOfRange ''cameraData.at'')
      | Some nxt \<Rightarrow>
          if current \<in> set visited then Inr (Some \<lparr>gr_error = CycleDetected, gr_at = current, gr_to = nxt\<rparr>)
          else if nxt = AUTO then Inr None
          else if link_of d nxt = None then Inr (Some \<lparr>gr_error = DanglingReference, gr_at = current, gr_to = nxt\<rparr>)
          else graph_walk d (current # visited) nxt)"
  by pat_completeness auto
termination
  by (relation "measure (\<lambda>(d, visited, c). card (UNIV - set visited))") (auto intro!: diff_less simp: card_gt_0_iff subset_eq)

declare graph_walk.simps [simp del]

text \<open>The loop over the cameras; \<open>origins\<close> are the values of \<open>originMap\<close> so far.\<close>

fun graph_loop ::
  "'f::field EepromData \<Rightarrow> CameraBoardSocket list \<Rightarrow> CameraBoardSocket list \<Rightarrow>
     (graph_result + CameraBoardSocket list) result option" where
  "graph_loop d [] origins = Some (Inr (Inr origins))"
| "graph_loop d (c # cs) origins =
     (case graph_walk d [] c of
        Inl e \<Rightarrow> Some (Inl e)
      | Inr (Some g) \<Rightarrow> Some (Inr (Inl g))
      | Inr None \<Rightarrow>
          Option.bind (getExtrinsicsToOrigin d False c) (\<lambda>r.
            case r of Inl e \<Rightarrow> Some (Inl e) | Inr (_, orig) \<Rightarrow> graph_loop d cs (origins @ [orig])))"

definition same_origin :: "CameraBoardSocket list \<Rightarrow> graph_result" where
  "same_origin origins =
     (case origins of [] \<Rightarrow> graph_ok
      | expected # _ \<Rightarrow>
          (case find (\<lambda>c. c \<noteq> expected) origins of
             Some c \<Rightarrow> \<lparr>gr_error = DisconnectedGraph, gr_at = c, gr_to = expected\<rparr>
           | None \<Rightarrow> graph_ok))"

definition validateExtrinsicGraph :: "'f::field EepromData \<Rightarrow> graph_result result option" where
  "validateExtrinsicGraph d =
     map_option (\<lambda>r. bindR r (\<lambda>x. case x of Inl g \<Rightarrow> Inr g | Inr origins \<Rightarrow> Inr (same_origin origins)))
       (graph_loop d (map fst (cameraData d)) [])"

fun socket_toString :: "CameraBoardSocket \<Rightarrow> string" where
  "socket_toString AUTO = ''AUTO''"
| "socket_toString CAM_A = ''CAM_A''" | "socket_toString CAM_B = ''CAM_B''" | "socket_toString CAM_C = ''CAM_C''"
| "socket_toString CAM_D = ''CAM_D''" | "socket_toString CAM_E = ''CAM_E''" | "socket_toString CAM_F = ''CAM_F''"
| "socket_toString CAM_G = ''CAM_G''" | "socket_toString CAM_H = ''CAM_H''" | "socket_toString CAM_I = ''CAM_I''"
| "socket_toString CAM_J = ''CAM_J''" | "socket_toString CBA = ''CBA''"

definition graph_message :: "graph_result \<Rightarrow> string" where
  "graph_message g =
     (case gr_error g of
        NoGraphError \<Rightarrow> []
      | CycleDetected \<Rightarrow> ''Extrinsic cycle detected: ''
      | DanglingReference \<Rightarrow> ''Dangling extrinsic reference: ''
      | DisconnectedGraph \<Rightarrow> ''Missing extrinsic link in calibration chain: '')
     @ socket_toString (gr_at g) @ '' '' @ [CHR 0xE2, CHR 0x86, CHR 0x92] @ '' '' @ socket_toString (gr_to g)"

definition validateCalibrationHandler :: "'f::field EepromData \<Rightarrow> bool \<Rightarrow> unit result option" where
  "validateCalibrationHandler d throwOnError =
     map_option (\<lambda>r. bindR r (\<lambda>g.
         if gr_error g = NoGraphError \<or> \<not> throwOnError then Inr () else Inl (RuntimeError (graph_message g))))
       (validateExtrinsicGraph d)"

text \<open>\<open>checkExtrinsicsLink\<close> follows the links without remembering where it was.\<close>

partial_function (option) follow_links :: "'f EepromData \<Rightarrow> CameraBoardSocket \<Rightarrow> CameraBoardSocket \<Rightarrow> bool option" where
  "follow_links d current dst =
     (if current = AUTO then Some False
      else
        (case link_of d current of
           None \<Rightarrow> Some False
         | Some nxt \<Rightarrow> if nxt = dst then Some True else follow_links d nxt dst))"

definition checkExtrinsicsLink :: "'f EepromData \<Rightarrow> CameraBoardSocket \<Rightarrow> CameraBoardSocket \<Rightarrow> bool option" where
  "checkExtrinsicsLink d src dst =
     (if \<not> hasCameraCalibration d src \<or> \<not> hasCameraCalibration d dst then Some False else follow_links d src dst)"

text \<open>\<open>checkSrcLinks\<close>: the walk returns the marked sockets, or None when it finds a hole or a loop.\<close>

function src_walk :: "'f EepromData \<Rightarrow> CameraBoardSocket list \<Rightarrow> CameraBoardSocket \<Rightarrow> CameraBoardSocket list option" where
  "src_walk d marked head =
     (if head = AUTO then Some marked
      else
        (case link_of d head of
           None \<Rightarrow> None
         | Some nxt \<Rightarrow> if head \<in> set marked then None else src_walk d (head # marked) nxt))"
  by pat_completeness auto
termination
  by (relation "measure (\<lambda>(d, marked, c). card (UNIV - set marked))") (auto intro!: diff_less simp: card_gt_0_iff subset_eq)

declare src_walk.simps [simp del]

definition checkSrcLinks :: "'f EepromData \<Rightarrow> CameraBoardSocket \<Rightarrow> bool" where
  "checkSrcLinks d head =
     (case src_walk d [] head of None \<Rightarrow> False | Some marked \<Rightarrow> length (cameraData d) = length marked)"

definition validateCameraArray :: "'f EepromData \<Rightarrow> bool" where
  "validateCameraArray d =
     (if length (cameraData d) > 1 then
        (if camera d CAM_B \<noteq> None then checkSrcLinks d CAM_B \<or> checkSrcLinks d CAM_C else False)
      else True)"

definition getCameraWithLowestId :: "'f EepromData \<Rightarrow> CameraBoardSocket result" where
  "getCameraWithLowestId d =
     (case map fst (cameraData d) of
        [] \<Rightarrow> Inl (RuntimeError ''No camera data available in the calibration data.'')
      | c # cs \<Rightarrow> Inr (foldl (\<lambda>low x. if socket_code x < socket_code low then x else low) c (c # cs)))"

section \<open>Getters\<close>

definition OLD_ERROR :: cpp_error where
  "OLD_ERROR = RuntimeError ''Your device contains old calibration which doesn't include Intrinsic data. Please recalibrate your device''"

definition NO_CAMERA_id :: cpp_error where
  "NO_CAMERA_id = RuntimeError ''There is no Camera data available corresponding to the requested cameraId''"

definition NO_CAMERA_ID :: cpp_error where
  "NO_CAMERA_ID = RuntimeError ''There is no Camera data available corresponding to the requested cameraID''"

text \<open>Rows and entries are tested from left to right: the rows exist when \<open>size() < 3\<close> has been refuted.\<close>

definition validateIntrinsicsMatrix :: "'f::zero CameraInfo \<Rightarrow> unit result" where
  "validateIntrinsicsMatrix i =
     (let m = intrinsicMatrix i in
      if length m < 3 \<or> length (m ! 0) < 3 \<or> length (m ! 1) < 3 \<or> length (m ! 2) < 3 \<or> m ! 0 ! 0 = 0
      then Inl (RuntimeError ''There is no Intrinsic matrix available for the requested cameraID'')
      else Inr ())"

definition getDefaultIntrinsics :: "'f::zero EepromData \<Rightarrow> CameraBoardSocket \<Rightarrow> ('f matrix \<times> int \<times> int) result" where
  "getDefaultIntrinsics d c =
     (if version d < 4 then Inl OLD_ERROR
      else if \<not> hasCameraCalibration d c then Inl NO_CAMERA_id
      else
        (let i = the (camera d c) in
         bindR (validateIntrinsicsMatrix i) (\<lambda>_. Inr (intrinsicMatrix i, uint (ci_width i), uint (ci_height i)))))"

definition getSourceHeight :: "'f EepromData \<Rightarrow> CameraBoardSocket \<Rightarrow> u32 result" where
  "getSourceHeight d c =
     (if \<not> hasCameraCalibration d c then Inl NO_CAMERA_id else Inr (ucast (ci_height (the (camera d c)))))"

definition getSourceWidth :: "'f EepromData \<Rightarrow> CameraBoardSocket \<Rightarrow> u32 result" where
  "getSourceWidth d c =
     (if \<not> hasCameraCalibration d c then Inl NO_CAMERA_id else Inr (ucast (ci_width (the (camera d c)))))"

definition getDistortionCoefficients :: "'f::zero EepromData \<Rightarrow> CameraBoardSocket \<Rightarrow> 'f list result" where
  "getDistortionCoefficients d c =
     (if version d < 4 then Inl OLD_ERROR
      else if \<not> hasCameraCalibration d c then Inl NO_CAMERA_ID
      else
        (let i = the (camera d c) in
         bindR (validateIntrinsicsMatrix i) (\<lambda>_.
           if cameraType i = Fisheye then
             (if length (distortionCoeff i) < 4 then Inl (UndefinedBehaviour ''distortionCoeff[i]'')
              else Inr (take 4 (distortionCoeff i)))
           else Inr (distortionCoeff i))))"

text \<open>\<open>getFov\<close> with the value of the specification.\<close>

definition getSpecFov :: "'f EepromData \<Rightarrow> CameraBoardSocket \<Rightarrow> 'f result" where
  "getSpecFov d c = (if \<not> hasCameraCalibration d c then Inl NO_CAMERA_ID else Inr (specHfovDeg (the (camera d c))))"

definition getLensPosition :: "'f EepromData \<Rightarrow> CameraBoardSocket \<Rightarrow> u8 result" where
  "getLensPosition d c = (if \<not> hasCameraCalibration d c then Inl NO_CAMERA_ID else Inr (lensPosition (the (camera d c))))"

definition getDistortionModel :: "'f EepromData \<Rightarrow> CameraBoardSocket \<Rightarrow> CameraModel result" where
  "getDistortionModel d c = (if \<not> hasCameraCalibration d c then Inl NO_CAMERA_ID else Inr (cameraType (the (camera d c))))"

definition RECTIFIED_ERROR :: cpp_error where
  "RECTIFIED_ERROR = RuntimeError ''Rectified Rotation Matrix Doesn't exist ''"

definition getStereoRightRectificationRotation :: "'f EepromData \<Rightarrow> 'f matrix result" where
  "getStereoRightRectificationRotation d =
     (let m = rectifiedRotationRight (stereoRectificationData d) in
      if length m \<noteq> 3 \<or> length (m ! 0) \<noteq> 3 then Inl RECTIFIED_ERROR else Inr m)"

definition getStereoLeftRectificationRotation :: "'f EepromData \<Rightarrow> 'f matrix result" where
  "getStereoLeftRectificationRotation d =
     (let m = rectifiedRotationLeft (stereoRectificationData d) in
      if length m \<noteq> 3 \<or> length (m ! 0) \<noteq> 3 then Inl RECTIFIED_ERROR else Inr m)"

section \<open>Setters\<close>

text \<open>
  Each setter of a camera emplaces a default entry with the one field set when the camera is
  missing, and sets the field of the entry otherwise.
\<close>

definition update_camera :: "CameraBoardSocket \<Rightarrow> ('f::zero CameraInfo \<Rightarrow> 'f CameraInfo) \<Rightarrow> 'f EepromData \<Rightarrow> 'f EepromData" where
  "update_camera c f d =
     (case camera d c of
        None \<Rightarrow> d\<lparr>cameraData := (c, f CameraInfo_default) # cameraData d\<rparr>
      | Some _ \<Rightarrow> d\<lparr>cameraData := map (\<lambda>(k, i). (k, if k = c then f i else i)) (cameraData d)\<rparr>)"

definition setBoardInfo2 :: "string \<Rightarrow> string \<Rightarrow> 'f EepromData \<Rightarrow> 'f EepromData" where
  "setBoardInfo2 nm revision d = d\<lparr>boardName := nm, boardRev := revision\<rparr>"

definition setBoardInfo ::
  "string \<Rightarrow> string \<Rightarrow> string \<Rightarrow> string \<Rightarrow> string \<Rightarrow> string \<Rightarrow> u64 \<Rightarrow> u32 \<Rightarrow> string \<Rightarrow> 'f EepromData \<Rightarrow> 'f EepromData" where
  "setBoardInfo product nm revision conf hw batch tm opts custom d =
     d\<lparr>productName := product, boardName := nm, boardRev := revision, boardConf := conf, hardwareConf := hw,
       batchTime := tm, boardCustom := custom, boardOptions := opts, version := 7\<rparr>"

definition setBoardInfo_device ::
  "string \<Rightarrow> string \<Rightarrow> string \<Rightarrow> string \<Rightarrow> string \<Rightarrow> string \<Rightarrow> string \<Rightarrow> u64 \<Rightarrow> u32 \<Rightarrow> string \<Rightarrow> 'f EepromData \<Rightarrow> 'f EepromData" where
  "setBoardInfo_device dev product nm revision conf hw batch tm opts custom d =
     d\<lparr>productName := product, boardName := nm, boardRev := revision, boardConf := conf, hardwareConf := hw,
       batchTime := tm, boardCustom := custom, boardOptions := opts, deviceName := dev, version := 7\<rparr>"

definition setDeviceName :: "string \<Rightarrow> 'f EepromData \<Rightarrow> 'f EepromData" where
  "setDeviceName nm d = d\<lparr>deviceName := nm, version := 7\<rparr>"

definition setProductName :: "string \<Rightarrow> 'f EepromData \<Rightarrow> 'f EepromData" where
  "setProductName nm d = d\<lparr>productName := nm, version := 7\<rparr>"

text \<open>The \<open>int\<close> sizes are stored in 16 bits. The test of the lower triangle reads rows 1 and 2.\<close>

definition setCameraIntrinsics ::
  "CameraBoardSocket \<Rightarrow> 'f::zero matrix \<Rightarrow> int \<Rightarrow> int \<Rightarrow> 'f EepromData \<Rightarrow> 'f EepromData result" where
  "setCameraIntrinsics c m w h d =
     (if length m \<noteq> 3 \<or> length (m ! 0) \<noteq> 3 then Inl (RuntimeError ''Intrinsic Matrix size should always be 3x3 '')
      else if length (m ! 1) < 1 \<or> length (m ! 2) < 2 then Inl (UndefinedBehaviour ''intrinsics[i][j]'')
      else if m ! 1 ! 0 \<noteq> 0 \<or> m ! 2 ! 0 \<noteq> 0 \<or> m ! 2 ! 1 \<noteq> 0
      then Inl (RuntimeError ''Invalid Intrinsic Matrix entered!!'')
      else Inr (update_camera c (\<lambda>i. i\<lparr>ci_height := word_of_int h, ci_width := word_of_int w, intrinsicMatrix := m\<rparr>) d))"

text \<open>The padding loop runs only if the constant 14 is not 14.\<close>

definition setDistortionCoefficients ::
  "CameraBoardSocket \<Rightarrow> 'f::zero list \<Rightarrow> 'f EepromData \<Rightarrow> 'f EepromData result" where
  "setDistortionCoefficients c cs d =
     (if length cs > 14 then Inl (RuntimeError ''Too many distortion coefficients! Max is 14.'')
      else Inr (update_camera c (\<lambda>i. i\<lparr>distortionCoeff := cs\<rparr>) d))"

definition setFov :: "CameraBoardSocket \<Rightarrow> 'f::zero \<Rightarrow> 'f EepromData \<Rightarrow> 'f EepromData" where
  "setFov c fov = update_camera c (\<lambda>i. i\<lparr>specHfovDeg := fov\<rparr>)"

definition setLensPosition :: "CameraBoardSocket \<Rightarrow> u8 \<Rightarrow> 'f::zero EepromData \<Rightarrow> 'f EepromData" where
  "setLensPosition c p = update_camera c (\<lambda>i. i\<lparr>lensPosition := p\<rparr>)"

definition setCameraType :: "CameraBoardSocket \<Rightarrow> CameraModel \<Rightarrow> 'f::zero EepromData \<Rightarrow> 'f EepromData" where
  "setCameraType c m = update_camera c (\<lambda>i. i\<lparr>cameraType := m\<rparr>)"

definition make_extrinsics ::
  "CameraBoardSocket \<Rightarrow> 'f::zero matrix \<Rightarrow> 'f list \<Rightarrow> 'f list \<Rightarrow> 'f Extrinsics result" where
  "make_extrinsics dst R t sp =
     (if length R \<noteq> 3 \<or> length (R ! 0) \<noteq> 3 then Inl (RuntimeError ''Rotation Matrix size should always be 3x3 '')
      else if length t \<noteq> 3 then Inl (RuntimeError ''Translation vector size should always be 3x1'')
      else if length sp \<noteq> 3 then Inl (RuntimeError ''specTranslation vector size should always be 3x1'')
      else Inr (Extrinsics_default
             \<lparr>rotationMatrix := R, translation := \<lparr>p_x = t ! 0, p_y = t ! 1, p_z = t ! 2\<rparr>,
              specTranslation := \<lparr>p_x = sp ! 0, p_y = sp ! 1, p_z = sp ! 2\<rparr>, toCameraSocket := dst\<rparr>))"

text \<open>The result is the data the handler is left with, together with what the call returns or throws.\<close>

definition setCameraExtrinsics ::
  "CameraBoardSocket \<Rightarrow> CameraBoardSocket \<Rightarrow> 'f::field matrix \<Rightarrow> 'f list \<Rightarrow> 'f list \<Rightarrow> 'f EepromData \<Rightarrow>
     ('f EepromData \<times> unit result) option" where
  "setCameraExtrinsics src dst R t sp d =
     (case make_extrinsics dst R t sp of
        Inl e \<Rightarrow> Some (d, Inl e)
      | Inr ex \<Rightarrow>
          (let d' = update_camera src (\<lambda>i. i\<lparr>extrinsics := ex\<rparr>) d in
           map_option (\<lambda>r. (d', bindR r (\<lambda>g.
               if gr_error g = CycleDetected then Inl (RuntimeError (graph_message g)) else Inr ())))
             (validateExtrinsicGraph d')))"

definition setImuExtrinsics ::
  "CameraBoardSocket \<Rightarrow> 'f::zero matrix \<Rightarrow> 'f list \<Rightarrow> 'f list \<Rightarrow> 'f EepromData \<Rightarrow> 'f EepromData result" where
  "setImuExtrinsics dst R t sp d = bindR (make_extrinsics dst R t sp) (\<lambda>ex. Inr (d\<lparr>imuExtrinsics := ex\<rparr>))"

definition setStereoLeft :: "CameraBoardSocket \<Rightarrow> 'f matrix \<Rightarrow> 'f EepromData \<Rightarrow> 'f EepromData result" where
  "setStereoLeft c R d =
     (if length R \<noteq> 3 \<or> length (R ! 0) \<noteq> 3 then Inl (RuntimeError ''Rotation Matrix size should always be 3x3 '')
      else Inr (d\<lparr>stereoRectificationData := (stereoRectificationData d)\<lparr>rectifiedRotationLeft := R, leftCameraSocket := c\<rparr>\<rparr>))"

definition setStereoRight :: "CameraBoardSocket \<Rightarrow> 'f matrix \<Rightarrow> 'f EepromData \<Rightarrow> 'f EepromData result" where
  "setStereoRight c R d =
     (if length R \<noteq> 3 \<or> length (R ! 0) \<noteq> 3 then Inl (RuntimeError ''Rotation Matrix size should always be 3x3 '')
      else Inr (d\<lparr>stereoRectificationData := (stereoRectificationData d)\<lparr>rectifiedRotationRight := R, rightCameraSocket := c\<rparr>\<rparr>))"

definition validateImuCalibrationMatrix :: "'f matrix \<Rightarrow> string \<Rightarrow> unit result" where
  "validateImuCalibrationMatrix m sensor =
     (if length m \<noteq> 3
      then Inl (RuntimeError (sensor @ '' calibration must contain exactly 3 rows for canonical 3x4 [Q|b] matrix''))
      else if list_ex (\<lambda>row. length row \<noteq> 4) m
      then Inl (RuntimeError (sensor @ '' calibration must contain exactly 4 columns per row for canonical 3x4 [Q|b] matrix''))
      else Inr ())"

definition set_imu :: "('f ImuCalibrationParams \<Rightarrow> 'f ImuCalibrationParams) \<Rightarrow> 'f EepromData \<Rightarrow> 'f EepromData" where
  "set_imu f d = d\<lparr>imuCalibrationParams := f (imuCalibrationParams d)\<rparr>"

definition setAccelerometerCalibration :: "'f matrix \<Rightarrow> 'f EepromData \<Rightarrow> 'f EepromData \<times> unit result" where
  "setAccelerometerCalibration m d =
     (case validateImuCalibrationMatrix m ''Accelerometer'' of
        Inl e \<Rightarrow> (d, Inl e) | Inr _ \<Rightarrow> (set_imu (accelerometer_update (\<lambda>_. m)) d, Inr ()))"

definition setGyroscopeCalibration :: "'f matrix \<Rightarrow> 'f EepromData \<Rightarrow> 'f EepromData \<times> unit result" where
  "setGyroscopeCalibration m d =
     (case validateImuCalibrationMatrix m ''Gyroscope'' of
        Inl e \<Rightarrow> (d, Inl e) | Inr _ \<Rightarrow> (set_imu (gyroscope_update (\<lambda>_. m)) d, Inr ()))"

definition setImuParameters :: "'f ImuCalibrationParams \<Rightarrow> 'f EepromData \<Rightarrow> 'f EepromData \<times> unit result" where
  "setImuParameters p d =
     (case setAccelerometerCalibration (accelerometer p) (set_imu (imu_noise_update (\<lambda>_. imu_noise p)) d) of
        (d', Inl e) \<Rightarrow> (d', Inl e)
      | (d', Inr _) \<Rightarrow> setGyroscopeCalibration (gyroscope p) d')"

text \<open>The data a \<open>CBACalibrationHandler\<close> is built from.\<close>

definition validateCBAEepromData :: "'f EepromData \<Rightarrow> 'f EepromData result" where
  "validateCBAEepromData d =
     (case cameraData d of
        [(c, i)] \<Rightarrow> Inr (if c \<noteq> CBA then d\<lparr>cameraData := [(CBA, i)]\<rparr> else d)
      | _ \<Rightarrow> Inl (RuntimeError ''CBA calibration data must contain exactly one cameraData entry.''))"

section \<open>Chains to the origin\<close>

text \<open>The sockets on the way from the first one to its origin, the camera that is linked to no other.\<close>

fun chain :: "'f EepromData \<Rightarrow> CameraBoardSocket list \<Rightarrow> bool" where
  "chain d [] = False"
| "chain d [c] = (link_of d c = Some AUTO)"
| "chain d (c # c' # cs) = (c' \<noteq> AUTO \<and> link_of d c = Some c' \<and> chain d (c' # cs))"

definition reaches :: "'f EepromData \<Rightarrow> CameraBoardSocket \<Rightarrow> CameraBoardSocket \<Rightarrow> bool" where
  "reaches d c orig = (\<exists>cs. chain d (c # cs) \<and> last (c # cs) = orig)"

lemma chain_unique: "chain d (c # cs) \<Longrightarrow> chain d (c # cs') \<Longrightarrow> cs' = cs"
proof (induction cs arbitrary: c cs')
  case Nil
  then show ?case by (cases cs') auto
next
  case (Cons x cs)
  then obtain ys where "cs' = x # ys" by (cases cs') auto
  with Cons show ?case by auto
qed

lemma chain_suffix: "chain d (xs @ y # ys) \<Longrightarrow> chain d (y # ys)"
  by (induction xs rule: induct_list012) auto

lemma chain_distinct: "chain d cs \<Longrightarrow> distinct cs"
proof (induction cs rule: induct_list012)
  case (3 c c' cs)
  have "c \<notin> set (c' # cs)"
  proof
    assume "c \<in> set (c' # cs)"
    then obtain xs ys where ys: "c' # cs = xs @ c # ys" by (meson split_list)
    with "3.prems" chain_suffix [of d "c # xs" c ys] have "chain d (c # ys)" by simp
    with "3.prems" chain_unique have "ys = c' # cs" by blast
    with arg_cong [OF ys, of length] show False by simp
  qed
  with 3 show ?case by simp
qed auto

lemma chain_cameras: "chain d cs \<Longrightarrow> c \<in> set cs \<Longrightarrow> link_of d c \<noteq> None"
  by (induction cs rule: induct_list012) auto

lemma chain_tail_auto: "chain d (c # cs) \<Longrightarrow> AUTO \<notin> set cs"
  by (induction cs arbitrary: c) auto

lemma origin_walk_chain:
  "origin_walk d path c = Inr orig \<Longrightarrow> \<exists>cs. chain d (c # cs) \<and> last (c # cs) = orig"
proof (induction d path c rule: origin_walk.induct)
  case (1 d path c)
  note eq = "1.prems" [unfolded origin_walk.simps [of d path c]]
  show ?case
  proof (cases "link_of d c")
    case (Some nxt)
    show ?thesis
    proof (cases "nxt = AUTO")
      case True
      with eq Some show ?thesis by (intro exI [of _ "[]"]) (simp split: if_splits)
    next
      case False
      with eq Some have n: "nxt \<notin> set path" "origin_walk d (path @ [nxt]) nxt = Inr orig" by (simp_all split: if_splits)
      with "1.IH" [OF Some n(1) False n(2)] obtain cs where "chain d (nxt # cs)" "last (nxt # cs) = orig" by blast
      with Some False show ?thesis by (intro exI [of _ "nxt # cs"]) simp
    qed
  qed (use eq in simp)
qed

lemma origin_walk_complete:
  assumes "chain d (c # cs)" and "AUTO \<notin> set path" and "set cs \<inter> set path = {}"
  shows "origin_walk d path c = Inr (last (c # cs))"
  using assms
proof (induction cs arbitrary: c path)
  case Nil
  then show ?case by (subst origin_walk.simps) simp
next
  case (Cons x cs)
  then have "x \<notin> set cs" using chain_distinct [of d "c # x # cs"] by simp
  with Cons.prems have "origin_walk d (path @ [x]) x = Inr (last (x # cs))" by (intro Cons.IH) auto
  with Cons.prems show ?case by (subst origin_walk.simps) auto
qed

text \<open>The product of the links of a chain, nearest to the origin first.\<close>

fun chain_matrix :: "'f::field EepromData \<Rightarrow> bool \<Rightarrow> CameraBoardSocket list \<Rightarrow> 'f matrix result" where
  "chain_matrix d useSpec (c # c' # []) =
     (let e = extrinsics (the (camera d c)) in
      if rotationMatrix e = [] then Inl ROTATION_ERROR else link_matrix useSpec e)"
| "chain_matrix d useSpec (c # c' # c'' # cs) =
     bindR (chain_matrix d useSpec (c' # c'' # cs)) (\<lambda>dest.
     bindR (link_matrix useSpec (extrinsics (the (camera d c)))) (matMul dest))"
| "chain_matrix d useSpec _ = Inr identity4"

lemma link_camera: "link_of d c = Some c' \<Longrightarrow> camera d c \<noteq> None \<and> toCameraSocket (extrinsics (the (camera d c))) = c'"
  by (auto simp: link_of_def)

lemma link_has: "link_of d c \<noteq> None \<Longrightarrow> hasCalibrationData d \<Longrightarrow> hasCameraCalibration d c"
  by (auto simp: hasCameraCalibration_def link_of_def)

lemma compute_last:
  assumes "camera d c = Some i" and "toCameraSocket (extrinsics i) = c'" and "c \<noteq> AUTO" and "c' \<noteq> AUTO"
    and "hasCameraCalibration d c" and "hasCameraCalibration d c'"
  shows "computeExtrinsicMatrix d useSpec c c' =
    Some (if rotationMatrix (extrinsics i) = [] then Inl ROTATION_ERROR else link_matrix useSpec (extrinsics i))"
  by (subst computeExtrinsicMatrix.simps)
    (simp only: assms Let_def option.sel simp_thms if_True if_False if_distrib [of Some] cong: if_cong)

lemma compute_step:
  assumes "camera d c = Some i" and "toCameraSocket (extrinsics i) \<noteq> orig" and "c \<noteq> AUTO" and "orig \<noteq> AUTO"
    and "hasCameraCalibration d c" and "hasCameraCalibration d orig"
  shows "computeExtrinsicMatrix d useSpec c orig =
    Option.bind (computeExtrinsicMatrix d useSpec (toCameraSocket (extrinsics i)) orig)
      (\<lambda>r. Some (bindR r (\<lambda>dest. bindR (link_matrix useSpec (extrinsics i)) (matMul dest))))"
  by (subst computeExtrinsicMatrix.simps) (simp only: assms Let_def option.sel simp_thms if_False)

lemma computeExtrinsicMatrix_chain:
  assumes "chain d (c # c' # cs)" and "c \<noteq> AUTO" and "hasCalibrationData d"
  shows "computeExtrinsicMatrix d useSpec c (last (c' # cs)) = Some (chain_matrix d useSpec (c # c' # cs))"
  using assms(1,2)
proof (induction cs arbitrary: c c')
  case Nil
  then have l: "link_of d c = Some c'" "c' \<noteq> AUTO" "link_of d c' \<noteq> None" by auto
  then obtain i where i: "camera d c = Some i" "toCameraSocket (extrinsics i) = c'" by (auto simp: link_of_def)
  have h: "hasCameraCalibration d c" "hasCameraCalibration d c'" using l assms(3) by (auto intro!: link_has)
  show ?case
    by (simp only: compute_last [OF i Nil(2) l(2) h] last.simps chain_matrix.simps Let_def i(1) option.sel refl if_True)
next
  case (Cons x cs)
  then have l: "link_of d c = Some c'" "c' \<noteq> AUTO" "chain d (c' # x # cs)" by auto
  then obtain i where i: "camera d c = Some i" "toCameraSocket (extrinsics i) = c'" by (auto simp: link_of_def)
  let ?o = "last (x # cs)"
  have "?o \<in> set (x # cs)" by simp
  then have o: "?o \<noteq> AUTO" "?o \<noteq> c'" "link_of d ?o \<noteq> None"
    using chain_distinct [OF l(3)] chain_cameras [OF l(3)] chain_tail_auto [OF l(3)] by auto
  have h: "hasCameraCalibration d c" "hasCameraCalibration d ?o" using l(1) o(3) assms(3) by (auto intro!: link_has)
  have "toCameraSocket (extrinsics i) \<noteq> ?o" using i(2) o(2) by simp
  note step = compute_step [OF i(1) this Cons.prems(2) o(1) h, of useSpec, unfolded i(2) Cons.IH [OF l(3,2)]]
  have "last (c' # x # cs) = ?o" by simp
  with step i(1) show ?case by (simp only: chain_matrix.simps bind.simps option.sel)
qed

lemma compute_without_data: "\<not> hasCalibrationData d \<Longrightarrow> \<exists>e. computeExtrinsicMatrix d useSpec c orig = Some (Inl e)"
  by (subst computeExtrinsicMatrix.simps) (simp add: hasCameraCalibration_def)

lemma compute_auto: "\<exists>e. computeExtrinsicMatrix d useSpec AUTO orig = Some (Inl e)"
  by (subst computeExtrinsicMatrix.simps) simp

text \<open>\<open>getExtrinsicsToOrigin\<close> returns for every data, and what it returns is the product along the chain.\<close>

lemma to_origin_chain:
  assumes "chain d (c # cs)" and "c \<noteq> AUTO" and "hasCalibrationData d"
  shows "getExtrinsicsToOrigin d useSpec c =
    Some (bindR (chain_matrix d useSpec (c # cs)) (\<lambda>m. Inr (m, last (c # cs))))"
proof -
  have cam: "camera d c \<noteq> None" using chain_cameras [OF assms(1), of c] by (auto simp: link_of_def)
  have walk: "origin_walk d [c] c = Inr (last (c # cs))"
    using assms chain_distinct [OF assms(1)] by (intro origin_walk_complete) auto
  show ?thesis
  proof (cases cs)
    case Nil
    with cam walk show ?thesis by (simp add: getExtrinsicsToOrigin_def)
  next
    case (Cons x xs)
    have "last cs \<in> set cs" using Cons by simp
    with chain_distinct [OF assms(1)] have ne: "(c = last cs) = False" by auto
    have "last (c # cs) = last cs" using Cons by simp
    with cam walk ne computeExtrinsicMatrix_chain [OF assms(1) [unfolded Cons] assms(2,3), of useSpec, folded Cons]
    show ?thesis by (simp only: getExtrinsicsToOrigin_def if_False sum.case option.simps bind.simps)
  qed
qed

lemma to_origin_cases:
  obtains (failed) e where "getExtrinsicsToOrigin d useSpec c = Some (Inl e)"
  | (origin) m cs where "getExtrinsicsToOrigin d useSpec c = Some (Inr (m, last (c # cs)))" and "chain d (c # cs)"
proof (cases "origin_walk d [c] c")
  case (Inl e)
  with failed show thesis by (cases "camera d c = None") (simp_all add: getExtrinsicsToOrigin_def)
next
  case (Inr orig)
  then obtain cs where cs: "chain d (c # cs)" "last (c # cs) = orig" using origin_walk_chain by blast
  consider "c = orig" | "c \<noteq> orig" "c = AUTO \<or> \<not> hasCalibrationData d" | "c \<noteq> AUTO" "hasCalibrationData d" by blast
  then show thesis
  proof cases
    case 1
    show thesis
    proof (cases "camera d c = None")
      case False
      with 1 Inr have "getExtrinsicsToOrigin d useSpec c = Some (Inr (identity4, last (c # cs)))"
        unfolding cs(2) by (simp add: getExtrinsicsToOrigin_def)
      then show thesis by (rule origin [OF _ cs(1)])
    qed (use failed in \<open>simp add: getExtrinsicsToOrigin_def\<close>)
  next
    case 2
    then obtain e where "computeExtrinsicMatrix d useSpec c orig = Some (Inl e)"
      using compute_auto compute_without_data by blast
    with 2(1) Inr failed show thesis by (cases "camera d c = None") (auto simp: getExtrinsicsToOrigin_def)
  next
    case 3
    note eq = to_origin_chain [OF cs(1) 3, of useSpec]
    show thesis
    proof (cases "chain_matrix d useSpec (c # cs)")
      case (Inl e)
      with eq failed show thesis by (simp only: bindR_simps)
    next
      case (Inr m)
      with eq origin [OF _ cs(1)] show thesis by (simp only: bindR_simps)
    qed
  qed
qed

lemma to_origin_returns: "\<exists>r. getExtrinsicsToOrigin d useSpec c = Some r"
  by (rule to_origin_cases [of d useSpec c]) auto

lemma graph_loop_returns: "\<exists>r. graph_loop d cs origins = Some r"
proof (induction cs arbitrary: origins)
  case (Cons c cs)
  obtain r where r: "getExtrinsicsToOrigin d False c = Some r" using to_origin_returns by blast
  show ?case
  proof (cases "graph_walk d [] c")
    case (Inr g)
    with r Cons.IH show ?thesis by (cases g; cases r) auto
  qed simp
qed simp

lemma graph_returns: "\<exists>r. validateExtrinsicGraph d = Some r"
  using graph_loop_returns [of d "map fst (cameraData d)" "[]"] by (auto simp: validateExtrinsicGraph_def)

lemma getCameraExtrinsics_returns: "\<exists>r. getCameraExtrinsics d useSpec unit src dst = Some r"
proof -
  obtain r1 r2 where "getExtrinsicsToOrigin d useSpec src = Some r1" "getExtrinsicsToOrigin d useSpec dst = Some r2"
    using to_origin_returns by metis
  then show ?thesis by (cases r1; cases r2) (auto simp: getCameraExtrinsics_def)
qed

lemma checkExtrinsicsLink_diverges:
  assumes "\<And>x. x \<in> P \<Longrightarrow> x \<noteq> AUTO \<and> (\<exists>y \<in> P. link_of d x = Some y \<and> y \<noteq> dst)" and "c \<in> P"
  shows "follow_links d c dst = None"
proof -
  have "c \<notin> P" if "follow_links d c dst = Some r" for c r
  proof (rule follow_links.raw_induct [where P = "\<lambda>d' c' dst' r. d' = d \<longrightarrow> dst' = dst \<longrightarrow> c' \<notin> P", THEN mp, THEN mp, OF _ that refl refl],
      intro impI)
    fix walk d' c' dst' r'
    assume IH: "\<And>d' c' dst' r. walk d' c' dst' = Some r \<Longrightarrow> d' = d \<longrightarrow> dst' = dst \<longrightarrow> c' \<notin> P"
      and eq: "(if c' = AUTO then Some False
        else case link_of d' c' of None \<Rightarrow> Some False | Some nxt \<Rightarrow> if nxt = dst' then Some True else walk d' nxt dst') = Some r'"
      and "d' = d" "dst' = dst"
    show "c' \<notin> P"
    proof
      assume "c' \<in> P"
      with assms(1) obtain y where "c' \<noteq> AUTO" "y \<in> P" "link_of d c' = Some y" "y \<noteq> dst" by blast
      with eq IH \<open>d' = d\<close> \<open>dst' = dst\<close> show False by auto
    qed
  qed
  with assms(2) show ?thesis by (cases "follow_links d c dst") auto
qed

text \<open>
  C34. Every computation over the links of the cameras returns, whatever links the data holds
  (cycles, links to missing cameras, links to themselves): the transformation to the origin, the
  transformation between two cameras and to the IMU, the validation of the graph and the setter
  that runs it. (The walk of the private \<open>checkExtrinsicsLink\<close> is the exception: \<open>checkExtrinsicsLink_diverges\<close>.)
\<close>

theorem extrinsics_computations_return:
  "(\<exists>r. getExtrinsicsToOrigin d useSpec c = Some r) \<and> (\<exists>r. getCameraExtrinsics d useSpec unit c c' = Some r) \<and>
   (\<exists>r. getImuToCameraExtrinsics d useSpec unit c = Some r) \<and> (\<exists>r. validateExtrinsicGraph d = Some r) \<and>
   (\<exists>r. setCameraExtrinsics c c' R t sp d = Some r)"
proof (intro conjI)
  show "\<exists>r. getImuToCameraExtrinsics d useSpec unit c = Some r"
    using getCameraExtrinsics_returns [of d useSpec CENTIMETER "toCameraSocket (imuExtrinsics d)" c]
    by (auto simp: getImuToCameraExtrinsics_def Let_def split: sum.split)
  show "\<exists>r. setCameraExtrinsics c c' R t sp d = Some r"
  proof (cases "make_extrinsics c' R t sp")
    case (Inr ex)
    with graph_returns [of "update_camera c (\<lambda>i. i\<lparr>extrinsics := ex\<rparr>) d"] show ?thesis
      by (auto simp: setCameraExtrinsics_def Let_def)
  qed (simp add: setCameraExtrinsics_def)
qed (rule to_origin_returns getCameraExtrinsics_returns graph_returns)+

end
