(* ===== verification/ExtrinsicGraph.thy ===== *)
theory ExtrinsicGraph
  imports Calibration Complex_Main
begin

text \<open>
  What the calibration handler promises about the graph of its cameras: when the validation of
  Calibration accepts it and what each reported error says, when one chain of links visits every
  camera, how the transformations between cameras compose, and what a setter that throws leaves.
\<close>

section \<open>The links as a relation\<close>

definition links :: "'f EepromData \<Rightarrow> (CameraBoardSocket \<times> CameraBoardSocket) set" where
  "links d = {(a, b). link_of d a = Some b \<and> b \<noteq> AUTO}"

definition cameras :: "'f EepromData \<Rightarrow> CameraBoardSocket set" where
  "cameras d = fst ` set (cameraData d)"

lemma camera_iff: "camera d c \<noteq> None \<longleftrightarrow> c \<in> cameras d"
  by (simp add: camera_def cameras_def map_of_eq_None_iff)

lemma link_iff: "link_of d c \<noteq> None \<longleftrightarrow> c \<in> cameras d"
  by (simp add: link_of_def camera_iff [symmetric])

lemma reaches_unique: "reaches d c x \<Longrightarrow> reaches d c y \<Longrightarrow> x = y"
  using chain_unique unfolding reaches_def by blast

lemma chain_follows: "(c, x) \<in> (links d)\<^sup>+ \<Longrightarrow> chain d (c # cs) \<Longrightarrow> x \<in> set cs"
proof (induction rule: trancl_induct)
  case (base y)
  then show ?case by (cases cs) (auto simp: links_def)
next
  case (step y z)
  then obtain xs ys where cs: "cs = xs @ y # ys" by (auto dest: split_list)
  with step.prems chain_suffix [of d "c # xs" y ys] have "chain d (y # ys)" by simp
  with step.hyps(2) have "z \<in> set ys" by (cases ys) (auto simp: links_def)
  with cs show ?case by simp
qed

lemma chain_no_cycle: "chain d (c # cs) \<Longrightarrow> (c, c) \<notin> (links d)\<^sup>+"
  using chain_follows [of c c d cs] chain_distinct [of d "c # cs"] by auto

lemma chain_subset: "chain d cs \<Longrightarrow> set cs \<subseteq> cameras d"
  using chain_cameras link_iff by blast

section \<open>Validation of the graph\<close>

definition graph_fault :: "'f EepromData \<Rightarrow> graph_result \<Rightarrow> bool" where
  "graph_fault d g =
     (case gr_error g of
        CycleDetected \<Rightarrow> (gr_at g, gr_at g) \<in> (links d)\<^sup>+
      | DanglingReference \<Rightarrow> (gr_at g, gr_to g) \<in> links d \<and> gr_to g \<notin> cameras d
      | _ \<Rightarrow> False)"

lemma graph_walk_sound:
  assumes "link_of d c \<noteq> None" and "\<And>v. v \<in> set visited \<Longrightarrow> (v, c) \<in> (links d)\<^sup>+"
  shows "(graph_walk d visited c = Inr None \<and> (\<exists>cs. chain d (c # cs))) \<or>
    (\<exists>g. graph_walk d visited c = Inr (Some g) \<and> graph_fault d g)"
  using assms
proof (induction d visited c rule: graph_walk.induct)
  case (1 d visited c)
  then obtain nxt where nxt: "link_of d c = Some nxt" by auto
  note eq = graph_walk.simps [of d visited c, unfolded nxt option.case]
  consider "c \<in> set visited" | "c \<notin> set visited" "nxt = AUTO" | "c \<notin> set visited" "nxt \<noteq> AUTO" "link_of d nxt = None"
    | "c \<notin> set visited" "nxt \<noteq> AUTO" "link_of d nxt \<noteq> None" by blast
  then show ?case
  proof cases
    case 1
    with eq "1.prems"(2) [OF 1] show ?thesis by (simp add: graph_fault_def)
  next
    case 2
    then have "\<exists>cs. chain d (c # cs)" using nxt by (intro exI [of _ "[]"]) simp
    with eq 2 show ?thesis by auto
  next
    case 3
    then have "nxt \<notin> cameras d" using link_iff by blast
    with eq 3 nxt show ?thesis by (simp add: graph_fault_def links_def)
  next
    case 4
    have step: "(c, nxt) \<in> links d" using nxt 4(2) by (simp add: links_def)
    have "\<And>v. v \<in> set (c # visited) \<Longrightarrow> (v, nxt) \<in> (links d)\<^sup>+"
      using "1.prems"(2) step by (auto intro: trancl_into_trancl)
    note IH = "1.IH" [OF nxt 4(1,2,3) 4(3) this]
    have "graph_walk d visited c = graph_walk d (c # visited) nxt" using eq 4 by simp
    moreover have "chain d (nxt # cs) \<Longrightarrow> chain d (c # nxt # cs)" for cs using nxt 4(2) by simp
    ultimately show ?thesis using IH by metis
  qed
qed

lemma graph_walk_chain:
  assumes "chain d (c # cs)" and "set (c # cs) \<inter> set visited = {}"
  shows "graph_walk d visited c = Inr None"
  using assms
proof (induction cs arbitrary: c visited)
  case Nil
  then show ?case by (subst graph_walk.simps) simp
next
  case (Cons x cs)
  then have "graph_walk d (c # visited) x = Inr None"
    using chain_distinct [OF Cons.prems(1)] by (intro Cons.IH) auto
  moreover have "link_of d x \<noteq> None" using chain_cameras [OF Cons.prems(1)] by simp
  ultimately show ?case using Cons.prems by (subst graph_walk.simps) auto
qed

lemma graph_walk_cases:
  assumes "c \<in> cameras d"
  obtains (origin) cs where "graph_walk d [] c = Inr None" and "chain d (c # cs)"
  | (fault) g where "graph_walk d [] c = Inr (Some g)" and "graph_fault d g" and "\<nexists>cs. chain d (c # cs)"
proof -
  have "link_of d c \<noteq> None" using assms link_iff by blast
  with graph_walk_sound [of d c "[]"] consider cs where "graph_walk d [] c = Inr None" "chain d (c # cs)"
    | g where "graph_walk d [] c = Inr (Some g)" "graph_fault d g" by auto
  then show thesis
  proof cases
    case 2
    with graph_walk_chain [of d c _ "[]"] have "\<nexists>cs. chain d (c # cs)" by auto
    with 2 show thesis by (rule fault)
  qed (rule origin)
qed


text \<open>What the matrices of the links must be for the walks along them to succeed.\<close>

definition sound_links :: "bool \<Rightarrow> ('f::{zero,one} matrix \<Rightarrow> bool) \<Rightarrow> 'f EepromData \<Rightarrow> bool" where
  "sound_links useSpec P d =
     list_all (\<lambda>(c, i). toCameraSocket (extrinsics i) = AUTO \<or>
       (case link_matrix useSpec (extrinsics i) of Inl _ \<Rightarrow> False | Inr m \<Rightarrow> P m)) (cameraData d)"

lemma sound_linksE:
  assumes "sound_links useSpec P d" and "link_of d c = Some c'" and "c' \<noteq> AUTO"
  obtains m where "link_matrix useSpec (extrinsics (the (camera d c))) = Inr m" and "P m"
    and "rotationMatrix (extrinsics (the (camera d c))) \<noteq> []"
proof -
  obtain i where i: "camera d c = Some i" "toCameraSocket (extrinsics i) = c'" using assms(2) by (auto simp: link_of_def)
  then have "(c, i) \<in> set (cameraData d)" by (simp add: camera_def map_of_SomeD)
  then have "case link_matrix useSpec (extrinsics i) of Inl _ \<Rightarrow> False | Inr m \<Rightarrow> P m"
    using assms(1,3) i(2) by (fastforce simp: sound_links_def list_all_iff)
  then obtain m where m: "link_matrix useSpec (extrinsics i) = Inr m" "P m"
    by (cases "link_matrix useSpec (extrinsics i)") auto
  then have "rotationMatrix (extrinsics i) \<noteq> []"
    by (auto simp: link_matrix_def append_translation_def split: if_splits)
  with m i that show thesis by simp
qed

lemma chain_matrix_ok:
  fixes d :: "'f::field EepromData"
  assumes "sound_links useSpec P d" and "chain d cs" and "P identity4"
    and P: "\<And>A B. P A \<Longrightarrow> P B \<Longrightarrow> \<exists>C. matMul A B = Inr C \<and> P C"
  shows "\<exists>m. chain_matrix d useSpec cs = Inr m \<and> P m"
  using assms(1,2)
proof (induction d useSpec cs rule: chain_matrix.induct)
  case (1 d useSpec c c')
  then obtain m where "link_matrix useSpec (extrinsics (the (camera d c))) = Inr m" "P m"
    "rotationMatrix (extrinsics (the (camera d c))) \<noteq> []"
    by (auto elim: sound_linksE [of _ _ _ c c'])
  then show ?case by (simp add: Let_def)
next
  case (2 d useSpec c c' c'' cs)
  then obtain m where m: "link_matrix useSpec (extrinsics (the (camera d c))) = Inr m" "P m"
    by (auto elim: sound_linksE [of _ _ _ c c'])
  from 2 obtain dest where dest: "chain_matrix d useSpec (c' # c'' # cs) = Inr dest" "P dest" by auto
  from P [OF dest(2) m(2)] dest m show ?case by auto
qed (use assms(3) in simp_all)

lemma shape4_mul:
  fixes A :: "'f::field matrix"
  assumes "shape 4 4 A" and "shape 4 4 B"
  shows "\<exists>C. matMul A B = Inr C \<and> shape 4 4 C"
  using matMul_prod [OF assms] shape_prod [OF assms(1)] by simp

lemma shape4_identity: "shape 4 4 identity4"
  by (simp add: shape_def identity4_def)

text \<open>The loop over the cameras stops at the first camera without an origin, or collects the origins.\<close>

definition graph_ready :: "'f::field EepromData \<Rightarrow> bool" where
  "graph_ready d = (version d \<ge> 4 \<and> AUTO \<notin> fst ` set (cameraData d) \<and> sound_links False (shape 4 4) d)"

lemma to_origin_ready:
  assumes "graph_ready d" and "chain d (c # cs)"
  shows "\<exists>m. getExtrinsicsToOrigin d False c = Some (Inr (m, last (c # cs)))"
proof -
  have c: "c \<in> fst ` set (cameraData d)" using chain_subset [OF assms(2)] by (simp add: cameras_def)
  have r: "AUTO \<notin> fst ` set (cameraData d)" "version d \<ge> 4" "sound_links False (shape 4 4) d"
    using assms(1) unfolding graph_ready_def by blast+
  from c r(1) have "c \<noteq> AUTO" by metis
  moreover have "hasCalibrationData d" using c r(2) by (auto simp: hasCalibrationData_def)
  ultimately have eq: "getExtrinsicsToOrigin d False c =
    Some (bindR (chain_matrix d False (c # cs)) (\<lambda>m. Inr (m, last (c # cs))))"
    by (rule to_origin_chain [OF assms(2)])
  from chain_matrix_ok [OF r(3) assms(2) shape4_identity shape4_mul] obtain m where "chain_matrix d False (c # cs) = Inr m"
    by blast
  with eq show ?thesis by (simp only: bindR_simps) blast
qed

text \<open>The outcomes of the loop: it stopped at a camera without an origin, or it found every origin.\<close>

definition loop_stopped :: "'f::field EepromData \<Rightarrow> CameraBoardSocket list \<Rightarrow> (graph_result + CameraBoardSocket list) result option \<Rightarrow> bool" where
  "loop_stopped d cs r = (\<exists>g. r = Some (Inr (Inl g)) \<and> graph_fault d g \<and> (\<exists>c \<in> set cs. \<nexists>orig. reaches d c orig))"

definition loop_found ::
  "'f::field EepromData \<Rightarrow> CameraBoardSocket list \<Rightarrow> CameraBoardSocket list \<Rightarrow>
     (graph_result + CameraBoardSocket list) result option \<Rightarrow> bool" where
  "loop_found d cs origins r = (\<exists>found. r = Some (Inr (Inr (origins @ found))) \<and> list_all2 (reaches d) cs found)"

lemma graph_loop_cases:
  assumes "graph_ready d" and "set cs \<subseteq> cameras d"
  shows "loop_stopped d cs (graph_loop d cs origins) \<or> loop_found d cs origins (graph_loop d cs origins)"
  using assms(2)
proof (induction cs arbitrary: origins)
  case Nil
  then show ?case by (simp add: loop_found_def)
next
  case (Cons c cs)
  then have c: "c \<in> cameras d" and cs: "set cs \<subseteq> cameras d" by simp_all
  from c show ?case
  proof (cases rule: graph_walk_cases)
    case (origin xs)
    let ?o = "last (c # xs)"
    from to_origin_ready [OF assms(1) origin(2)] obtain m where "getExtrinsicsToOrigin d False c = Some (Inr (m, ?o))" ..
    with origin(1) have eq: "graph_loop d (c # cs) origins = graph_loop d cs (origins @ [?o])"
      by (simp only: graph_loop.simps sum.case option.case bind.simps prod.case)
    have "reaches d c ?o" using origin(2) unfolding reaches_def by blast
    then have "loop_found d cs (origins @ [?o]) r \<Longrightarrow> loop_found d (c # cs) origins r"
      and "loop_stopped d cs r \<Longrightarrow> loop_stopped d (c # cs) r" for r
      by (auto simp: loop_found_def loop_stopped_def simp del: last.simps)
    with Cons.IH [OF cs, of "origins @ [?o]"] show ?thesis unfolding eq by blast
  next
    case (fault g)
    then have "loop_stopped d (c # cs) (graph_loop d (c # cs) origins)"
      by (auto simp: loop_stopped_def reaches_def)
    then show ?thesis ..
  qed
qed

lemma same_origin_cases:
  "gr_error (same_origin os) = NoGraphError \<and> (\<forall>x \<in> set os. \<forall>y \<in> set os. x = y) \<or>
   gr_error (same_origin os) = DisconnectedGraph \<and> gr_at (same_origin os) \<in> set os \<and> gr_to (same_origin os) \<in> set os \<and>
     gr_at (same_origin os) \<noteq> gr_to (same_origin os)"
proof (cases os)
  case (Cons x xs)
  show ?thesis
  proof (cases "find (\<lambda>c. c \<noteq> x) os")
    case None
    then have "\<forall>y \<in> set os. y = x" unfolding find_None_iff by blast
    then have "\<forall>y \<in> set os. \<forall>z \<in> set os. y = z" by metis
    moreover have "same_origin os = graph_ok" using None Cons by (simp add: same_origin_def)
    ultimately show ?thesis by (simp add: graph_ok_def)
  next
    case (Some c)
    then have "c \<in> set os" "c \<noteq> x" unfolding find_Some_iff by (metis nth_mem, metis)
    moreover have "same_origin os = \<lparr>gr_error = DisconnectedGraph, gr_at = c, gr_to = x\<rparr>" "x \<in> set os"
      using Some Cons by (simp_all add: same_origin_def)
    ultimately show ?thesis by simp
  qed
qed (simp add: same_origin_def graph_ok_def)

lemma graph_cases:
  assumes "graph_ready d"
  obtains g c where "validateExtrinsicGraph d = Some (Inr g)" and "graph_fault d g" and "c \<in> cameras d" and "\<nexists>orig. reaches d c orig"
  | os where "validateExtrinsicGraph d = Some (Inr (same_origin os))" and "list_all2 (reaches d) (map fst (cameraData d)) os"
proof -
  let ?cs = "map fst (cameraData d)"
  have cs: "set ?cs = cameras d" by (simp add: cameras_def)
  from graph_loop_cases [OF assms, of ?cs "[]"] consider
    g c where "graph_loop d ?cs [] = Some (Inr (Inl g))" "graph_fault d g" "c \<in> cameras d" "\<nexists>orig. reaches d c orig"
    | os where "graph_loop d ?cs [] = Some (Inr (Inr os))" "list_all2 (reaches d) ?cs os"
    unfolding loop_stopped_def loop_found_def cs by auto
  then show thesis
  proof cases
    case 1
    then show thesis by (intro that(1)) (simp_all add: validateExtrinsicGraph_def)
  next
    case 2
    then show thesis by (intro that(2)) (simp_all add: validateExtrinsicGraph_def)
  qed
qed

section \<open>A calibration with two cameras\<close>

text \<open>
  The data the theorems below are applied to: CAM_C is linked to CAM_B by a quarter turn and a
  translation, and CAM_B is the origin.
\<close>

definition quarter_turn :: "CameraBoardSocket \<Rightarrow> rat Extrinsics" where
  "quarter_turn dst =
     \<lparr>rotationMatrix = [[0, -1, 0], [1, 0, 0], [0, 0, 1]], translation = \<lparr>p_x = 1, p_y = 2, p_z = 3\<rparr>,
      specTranslation = \<lparr>p_x = 1, p_y = 2, p_z = 3\<rparr>, toCameraSocket = dst, lengthUnit = CENTIMETER\<rparr>"

definition two_cameras :: "rat EepromData" where
  "two_cameras =
     \<lparr>version = 7, productName = [], boardCustom = [], boardName = [], boardRev = [], boardConf = [], hardwareConf = [],
      deviceName = [], batchTime = 0, boardOptions = 0,
      cameraData = [(CAM_B, CameraInfo_default), (CAM_C, CameraInfo_default\<lparr>extrinsics := quarter_turn CAM_B\<rparr>)],
      stereoRectificationData =
        \<lparr>rectifiedRotationLeft = [], rectifiedRotationRight = [], leftCameraSocket = AUTO, rightCameraSocket = AUTO\<rparr>,
      imuExtrinsics = Extrinsics_default,
      imuCalibrationParams = \<lparr>imu_noise = ([], []), accelerometer = [], gyroscope = []\<rparr>\<rparr>"

lemma two_cameras_links: "link_of two_cameras CAM_B = Some AUTO" "link_of two_cameras CAM_C = Some CAM_B"
  by (simp_all add: link_of_def camera_def two_cameras_def CameraInfo_default_def Extrinsics_default_def quarter_turn_def)

lemma two_cameras_reach: "reaches two_cameras CAM_B CAM_B" "reaches two_cameras CAM_C CAM_B"
  unfolding reaches_def by (intro exI [of _ "[]"], simp add: two_cameras_links) (intro exI [of _ "[CAM_B]"], simp add: two_cameras_links)

lemma two_cameras_set: "cameras two_cameras = {CAM_B, CAM_C}"
  by (simp add: cameras_def two_cameras_def)

lemma quarter_turn_rigid: "\<exists>m. link_matrix us (quarter_turn c) = Inr m \<and> rigid m"
  by (cases us) (auto simp: link_matrix_def quarter_turn_def append_translation_def origin3_def rigid_def shape_def less3 sum3)

lemma two_cameras_sound: "sound_links us rigid two_cameras"
  using quarter_turn_rigid [of us CAM_B]
  by (auto simp: sound_links_def two_cameras_def CameraInfo_default_def Extrinsics_default_def split: sum.split)

lemma two_cameras_ready: "graph_ready two_cameras"
proof -
  have "sound_links False (shape 4 4) two_cameras"
    using two_cameras_sound [of False] rigid_shape by (fastforce simp: sound_links_def list_all_iff split: sum.splits)
  then show ?thesis by (simp add: graph_ready_def two_cameras_def)
qed

text \<open>
  C11. On calibration data of version 4 or later with complete rotations the validation of the
  extrinsics graph returns a result. It reports no error exactly when all cameras have one common
  origin, the end of their chains of links; a reported cycle is a cycle of links, a reported
  dangling reference a link to a camera the data does not hold, and a reported disconnection two
  cameras with different origins.
\<close>

theorem validateExtrinsicGraph_correct:
  assumes "graph_ready d"
  shows "\<exists>g. validateExtrinsicGraph d = Some (Inr g) \<and>
    (gr_error g = NoGraphError \<longleftrightarrow> (\<exists>orig. \<forall>c \<in> cameras d. reaches d c orig)) \<and>
    (case gr_error g of
       NoGraphError \<Rightarrow> True
     | CycleDetected \<Rightarrow> (gr_at g, gr_at g) \<in> (links d)\<^sup>+
     | DanglingReference \<Rightarrow> (gr_at g, gr_to g) \<in> links d \<and> gr_to g \<notin> cameras d
     | DisconnectedGraph \<Rightarrow> gr_at g \<noteq> gr_to g \<and>
         (\<exists>c \<in> cameras d. reaches d c (gr_at g)) \<and> (\<exists>c \<in> cameras d. reaches d c (gr_to g)))"
proof (cases rule: graph_cases [OF assms])
  case (1 g c)
  then have "validateExtrinsicGraph d = Some (Inr g)" by simp
  with 1 show ?thesis by (auto simp: graph_fault_def split: ExtrinsicGraphError.splits)
next
  case (2 os)
  have cs: "set (map fst (cameraData d)) = cameras d" by (simp add: cameras_def)
  let ?g = "same_origin os"
  note eq = 2(1)
  have fwd: "\<exists>x \<in> set os. reaches d c x" if "c \<in> cameras d" for c
    using 2(2) that cs by (metis in_set_conv_nth list_all2_conv_all_nth)
  have bwd: "\<exists>c \<in> cameras d. reaches d c x" if "x \<in> set os" for x
    using 2(2) that cs by (metis in_set_conv_nth list_all2_conv_all_nth)
  have common: "(\<exists>orig. \<forall>c \<in> cameras d. reaches d c orig) \<longleftrightarrow> (\<forall>x \<in> set os. \<forall>y \<in> set os. x = y)"
  proof
    assume "\<exists>orig. \<forall>c \<in> cameras d. reaches d c orig"
    then obtain orig where "\<And>c. c \<in> cameras d \<Longrightarrow> reaches d c orig" by blast
    then have "x = orig" if "x \<in> set os" for x using bwd [OF that] reaches_unique by blast
    then show "\<forall>x \<in> set os. \<forall>y \<in> set os. x = y" by (intro ballI) (metis (no_types))
  next
    assume same: "\<forall>x \<in> set os. \<forall>y \<in> set os. x = y"
    have "reaches d c (hd os)" if c: "c \<in> cameras d" for c
    proof -
      from fwd [OF c] obtain x where x: "x \<in> set os" "reaches d c x" ..
      then have "hd os \<in> set os" by (cases os) simp_all
      with same x show ?thesis by metis
    qed
    then have "\<forall>c \<in> cameras d. reaches d c (hd os)" ..
    then show "\<exists>orig. \<forall>c \<in> cameras d. reaches d c orig" ..
  qed
  from same_origin_cases [of os] show ?thesis
  proof (elim disjE conjE)
    assume "gr_error ?g = NoGraphError" "\<forall>x \<in> set os. \<forall>y \<in> set os. x = y"
    with common have "gr_error ?g = NoGraphError" "\<exists>orig. \<forall>c \<in> cameras d. reaches d c orig" by blast+
    then show ?thesis by (intro exI [of _ ?g] conjI eq) simp_all
  next
    assume g: "gr_error ?g = DisconnectedGraph" "gr_at ?g \<in> set os" "gr_to ?g \<in> set os" "gr_at ?g \<noteq> gr_to ?g"
    with common have no: "\<nexists>orig. \<forall>c \<in> cameras d. reaches d c orig" by blast
    show ?thesis using no g(1,4) bwd [OF g(2)] bwd [OF g(3)]
      by (intro exI [of _ ?g] conjI eq) (simp_all only: ExtrinsicGraphError.simps, blast+)
  qed
qed

theorem validateExtrinsicGraph_correct_witness:
  "\<exists>g. validateExtrinsicGraph two_cameras = Some (Inr g) \<and> gr_error g = NoGraphError"
proof -
  have "\<exists>orig. \<forall>c \<in> cameras two_cameras. reaches two_cameras c orig"
    using two_cameras_reach by (auto simp: two_cameras_set)
  with validateExtrinsicGraph_correct [OF two_cameras_ready] show ?thesis by blast
qed

section \<open>One chain through every camera\<close>

lemma src_walk_sound:
  "src_walk d marked head = Some ms \<Longrightarrow> head \<noteq> AUTO \<Longrightarrow> \<exists>cs. chain d (head # cs) \<and> ms = List.rev (head # cs) @ marked"
proof (induction d marked head rule: src_walk.induct)
  case (1 d marked head)
  note eq = "1.prems"(1) [unfolded src_walk.simps [of d marked head]]
  from eq "1.prems"(2) obtain nxt where nxt: "link_of d head = Some nxt" "head \<notin> set marked"
    "src_walk d (head # marked) nxt = Some ms" by (auto split: option.splits if_splits)
  show ?case
  proof (cases "nxt = AUTO")
    case True
    with nxt have "ms = head # marked" by (simp add: src_walk.simps)
    with nxt True show ?thesis by (intro exI [of _ "[]"]) simp
  next
    case False
    from "1.IH" [OF "1.prems"(2) nxt(1,2,3) False] obtain cs where "chain d (nxt # cs)"
      "ms = List.rev (nxt # cs) @ head # marked" by blast
    with nxt False show ?thesis by (intro exI [of _ "nxt # cs"]) simp
  qed
qed

lemma src_walk_chain:
  assumes "chain d (head # cs)" and "head \<noteq> AUTO" and "set (head # cs) \<inter> set marked = {}"
  shows "src_walk d marked head = Some (List.rev (head # cs) @ marked)"
  using assms
proof (induction cs arbitrary: head marked)
  case Nil
  then show ?case by (simp add: src_walk.simps [of d marked head] src_walk.simps [of d "head # marked" AUTO])
next
  case (Cons x cs)
  then have "src_walk d (head # marked) x = Some (List.rev (x # cs) @ head # marked)"
    using chain_distinct [OF Cons.prems(1)] by (intro Cons.IH) auto
  with Cons.prems show ?case by (simp add: src_walk.simps [of d marked head])
qed

text \<open>
  For a camera socket as head, the test of the links succeeds exactly when one chain of links
  from that camera to an origin visits every camera of the data once.
\<close>

theorem checkSrcLinks_iff_path:
  assumes "distinct (map fst (cameraData d))" and "head \<noteq> AUTO"
  shows "checkSrcLinks d head \<longleftrightarrow> (\<exists>cs. chain d (head # cs) \<and> set (head # cs) = cameras d)"
proof -
  have card: "card (cameras d) = length (cameraData d)"
    using distinct_card [OF assms(1)] by (simp add: cameras_def)
  have "length cs = card (cameras d) \<longleftrightarrow> set cs = cameras d" if "chain d cs" for cs
    using that chain_subset [OF that] distinct_card [OF chain_distinct [OF that]] card_subset_eq [of "cameras d" "set cs"]
    by (auto simp: cameras_def)
  then have *: "length (cameraData d) = length (head # cs) \<longleftrightarrow> set (head # cs) = cameras d" if "chain d (head # cs)" for cs
    using that card by metis
  show ?thesis
  proof (cases "src_walk d [] head")
    case None
    then have "\<nexists>cs. chain d (head # cs)" using src_walk_chain [OF _ assms(2), of d _ "[]"] by auto
    with None show ?thesis by (simp add: checkSrcLinks_def)
  next
    case (Some ms)
    from src_walk_sound [OF Some assms(2)] obtain cs where cs: "chain d (head # cs)" "length ms = length (head # cs)" by auto
    with Some * [OF cs(1)] have "checkSrcLinks d head \<longleftrightarrow> set (head # cs) = cameras d" by (simp add: checkSrcLinks_def)
    with cs(1) chain_unique show ?thesis by metis
  qed
qed

theorem checkSrcLinks_iff_path_witness: "checkSrcLinks two_cameras CAM_C \<and> \<not> checkSrcLinks two_cameras CAM_B"
proof
  have d: "distinct (map fst (cameraData two_cameras))" by (simp add: two_cameras_def)
  have B: "chain two_cameras [CAM_B]" and C: "chain two_cameras [CAM_C, CAM_B]" by (simp_all add: two_cameras_links)
  have B': "CAM_B \<noteq> AUTO" and C': "CAM_C \<noteq> AUTO" by simp_all
  show "checkSrcLinks two_cameras CAM_C"
    unfolding checkSrcLinks_iff_path [OF d C'] two_cameras_set
    using C by (intro exI [of _ "[CAM_B]"]) auto
  show "\<not> checkSrcLinks two_cameras CAM_B"
  proof
    assume "checkSrcLinks two_cameras CAM_B"
    then obtain cs where cs: "chain two_cameras (CAM_B # cs)" "set (CAM_B # cs) = {CAM_B, CAM_C}"
      unfolding checkSrcLinks_iff_path [OF d B'] two_cameras_set by blast
    from chain_unique [OF B cs(1)] cs(2) show False by simp
  qed
qed

section \<open>Composition of transformations\<close>

lemma rigid_mul:
  fixes A :: "'f::field matrix"
  assumes "rigid A" and "rigid B"
  shows "matMul A B = Inr (prod_matrix A B 4 4)"
  by (rule matMul_prod [OF rigid_shape [OF assms(1)] rigid_shape [OF assms(2)]]) simp_all

lemma rigid_identity: "rigid (identity4 :: 'f::comm_ring_1 matrix)"
  by (auto simp: rigid_def identity4_def shape_def less3 sum3)

lemma scale_centimeter: "scaleTranslationInPlace CENTIMETER m = (m :: 'f::field_char_0 matrix)"
  by (simp add: scaleTranslationInPlace_def)

text \<open>The transformation to the origin of a camera, when the links of the data are rigid motions.\<close>

definition rigid_calibration :: "bool \<Rightarrow> 'f::field EepromData \<Rightarrow> bool" where
  "rigid_calibration useSpec d = (version d \<ge> 4 \<and> sound_links useSpec rigid d)"

lemma to_origin_rigid:
  fixes d :: "'f::field_char_0 EepromData"
  assumes "rigid_calibration useSpec d" and "reaches d c orig" and "c \<noteq> AUTO"
  shows "\<exists>m. rigid m \<and> getExtrinsicsToOrigin d useSpec c = Some (Inr (m, orig)) \<and> hasCameraCalibration d c"
proof -
  from assms(2) obtain cs where cs: "chain d (c # cs)" "last (c # cs) = orig" unfolding reaches_def by blast
  have c: "c \<in> cameras d" using chain_subset [OF cs(1)] by simp
  then have has: "hasCalibrationData d" using assms(1) by (auto simp: hasCalibrationData_def rigid_calibration_def cameras_def)
  have "\<exists>m. chain_matrix d useSpec (c # cs) = Inr m \<and> rigid m"
    using assms(1) cs(1) by (intro chain_matrix_ok rigid_identity) (auto simp: rigid_calibration_def rigid_mul rigid_prod)
  then obtain m where m: "chain_matrix d useSpec (c # cs) = Inr m" "rigid m" by blast
  have "hasCameraCalibration d c" using has c by (simp only: hasCameraCalibration_def camera_iff simp_thms)
  with to_origin_chain [OF cs(1) assms(3) has, of useSpec] m cs(2) show ?thesis by (simp only: bindR_simps) blast
qed

lemma getCameraExtrinsics_rigid:
  fixes d :: "'f::field_char_0 EepromData"
  assumes "hasCameraCalibration d a" "getExtrinsicsToOrigin d useSpec a = Some (Inr (A, orig))" "rigid A"
    and "hasCameraCalibration d b" "getExtrinsicsToOrigin d useSpec b = Some (Inr (B, orig))" "rigid B"
    and "invertSe3Matrix4x4InPlace B = Inr B'"
  shows "getCameraExtrinsics d useSpec CENTIMETER a b = Some (Inr (prod_matrix B' A 4 4))"
proof -
  have "matMul B' A = Inr (prod_matrix B' A 4 4)"
    by (rule rigid_mul [OF rigid_inverse(1) [OF assms(6,7)] assms(3)])
  then show ?thesis
    by (simp only: getCameraExtrinsics_def assms(1,2,4,5,7) bind.simps sum.case prod.case simp_thms if_False bindR_simps
        scale_centimeter)
qed

lemma rigid_invertible: "rigid M \<Longrightarrow> \<exists>N. invertSe3Matrix4x4InPlace M = Inr N"
  by (rule invertSe3_rigid, assumption, rule exI)

lemma prod_identity4_right:
  fixes M :: "'f::comm_ring_1 matrix"
  assumes "shape 4 4 M"
  shows "prod_matrix M identity4 4 4 = M"
proof (rule shape_eqI [OF shape_prod [OF assms] assms])
  show "prod_matrix M identity4 4 4 ! i ! j = M ! i ! j" if "i < 4" "j < 4" for i j
    using that assms by (auto simp: prod_nth shape_def identity4_def sum4 less4 less3)
qed

text \<open>\<open>B\<close> and its inverse cancel between two rigid motions.\<close>

lemma rigid_cancel:
  fixes A :: "'f::comm_ring_1 matrix"
  assumes "rigid A" "rigid B" "rigid B'" "rigid C" and "prod_matrix B B' 4 4 = identity4"
  shows "prod_matrix (prod_matrix C B 4 4) (prod_matrix B' A 4 4) 4 4 = prod_matrix C A 4 4"
proof -
  note sh = assms(1-4) [THEN rigid_shape]
  have "prod_matrix (prod_matrix C B 4 4) (prod_matrix B' A 4 4) 4 4 = prod_matrix C (prod_matrix B (prod_matrix B' A 4 4) 4 4) 4 4"
    by (rule prod_assoc [OF sh(4,2) shape_prod [OF sh(3)]])
  also have "prod_matrix B (prod_matrix B' A 4 4) 4 4 = prod_matrix (prod_matrix B B' 4 4) A 4 4"
    by (rule prod_assoc [OF sh(2,3,1), symmetric])
  also have "\<dots> = A" unfolding assms(5) by (rule prod_identity4 [OF sh(1)])
  finally show ?thesis .
qed

lemma left_inverse_unique:
  fixes M :: "'f::field matrix"
  assumes "rigid M" and "rigid L" and "prod_matrix L M 4 4 = identity4" and "invertSe3Matrix4x4InPlace M = Inr N"
  shows "L = N"
proof -
  note N = rigid_inverse [OF assms(1,4)]
  note sh = assms(2,1) [THEN rigid_shape] rigid_shape [OF N(1)]
  have "N = prod_matrix (prod_matrix L M 4 4) N 4 4" unfolding assms(3) by (rule prod_identity4 [OF sh(3), symmetric])
  also have "\<dots> = prod_matrix L (prod_matrix M N 4 4) 4 4" by (rule prod_assoc [OF sh])
  also have "\<dots> = L" unfolding N(2) by (rule prod_identity4_right [OF sh(1)])
  finally show ?thesis ..
qed

text \<open>
  C10. When the links of the cameras are rigid motions, the transformations between cameras with a
  common origin form a groupoid: every one of them is found and rigid, the one from a camera to
  itself is the identity, the one from \<open>a\<close> to \<open>b\<close> followed by the one from \<open>b\<close> to \<open>c\<close> is the one from
  \<open>a\<close> to \<open>c\<close>, and the one from \<open>b\<close> to \<open>a\<close> is the inverse that \<open>invertSe3Matrix4x4InPlace\<close> computes.
\<close>

theorem extrinsics_compose:
  fixes d :: "'f::field_char_0 EepromData"
  assumes "rigid_calibration useSpec d" and "a \<noteq> AUTO" "b \<noteq> AUTO" "c \<noteq> AUTO"
    and "reaches d a orig" "reaches d b orig" "reaches d c orig"
  shows "\<exists>ab bc ac ba.
    getCameraExtrinsics d useSpec CENTIMETER a b = Some (Inr ab) \<and>
    getCameraExtrinsics d useSpec CENTIMETER b c = Some (Inr bc) \<and>
    getCameraExtrinsics d useSpec CENTIMETER a c = Some (Inr ac) \<and>
    getCameraExtrinsics d useSpec CENTIMETER b a = Some (Inr ba) \<and>
    getCameraExtrinsics d useSpec CENTIMETER a a = Some (Inr identity4) \<and>
    rigid ab \<and> matMul bc ab = Inr ac \<and> matMul ba ab = Inr identity4 \<and> invertSe3Matrix4x4InPlace ab = Inr ba"
proof -
  obtain A where A: "rigid A" "getExtrinsicsToOrigin d useSpec a = Some (Inr (A, orig))" "hasCameraCalibration d a"
    using to_origin_rigid [OF assms(1,5,2)] by blast
  obtain B where B: "rigid B" "getExtrinsicsToOrigin d useSpec b = Some (Inr (B, orig))" "hasCameraCalibration d b"
    using to_origin_rigid [OF assms(1,6,3)] by blast
  obtain C where C: "rigid C" "getExtrinsicsToOrigin d useSpec c = Some (Inr (C, orig))" "hasCameraCalibration d c"
    using to_origin_rigid [OF assms(1,7,4)] by blast
  obtain A' where A': "invertSe3Matrix4x4InPlace A = Inr A'" using rigid_invertible [OF A(1)] ..
  obtain B' where B': "invertSe3Matrix4x4InPlace B = Inr B'" using rigid_invertible [OF B(1)] ..
  obtain C' where C': "invertSe3Matrix4x4InPlace C = Inr C'" using rigid_invertible [OF C(1)] ..
  note rA = rigid_inverse [OF A(1) A'] and rB = rigid_inverse [OF B(1) B'] and rC = rigid_inverse [OF C(1) C']
  let ?ab = "prod_matrix B' A 4 4" and ?bc = "prod_matrix C' B 4 4" and ?ac = "prod_matrix C' A 4 4" and ?ba = "prod_matrix A' B 4 4"
  note r = rigid_prod [OF rB(1) A(1)] rigid_prod [OF rC(1) B(1)] rigid_prod [OF rA(1) B(1)]
  have bc: "prod_matrix ?bc ?ab 4 4 = ?ac" by (rule rigid_cancel [OF A(1) B(1) rB(1) rC(1) rB(2)])
  have ba: "prod_matrix ?ba ?ab 4 4 = identity4" unfolding rigid_cancel [OF A(1) B(1) rB(1) rA(1) rB(2)] by (rule rA(3))
  obtain N where N: "invertSe3Matrix4x4InPlace ?ab = Inr N" using rigid_invertible [OF r(1)] ..
  show ?thesis
  proof (intro exI conjI)
    show "getCameraExtrinsics d useSpec CENTIMETER a b = Some (Inr ?ab)"
      by (rule getCameraExtrinsics_rigid [OF A(3,2,1) B(3,2,1) B'])
    show "getCameraExtrinsics d useSpec CENTIMETER b c = Some (Inr ?bc)"
      by (rule getCameraExtrinsics_rigid [OF B(3,2,1) C(3,2,1) C'])
    show "getCameraExtrinsics d useSpec CENTIMETER a c = Some (Inr ?ac)"
      by (rule getCameraExtrinsics_rigid [OF A(3,2,1) C(3,2,1) C'])
    show "getCameraExtrinsics d useSpec CENTIMETER b a = Some (Inr ?ba)"
      by (rule getCameraExtrinsics_rigid [OF B(3,2,1) A(3,2,1) A'])
    show "getCameraExtrinsics d useSpec CENTIMETER a a = Some (Inr identity4)"
      using getCameraExtrinsics_rigid [OF A(3,2,1) A(3,2,1) A'] unfolding rA(3) .
    show "rigid ?ab" by (rule r(1))
    show "matMul ?bc ?ab = Inr ?ac" using rigid_mul [OF r(2,1)] unfolding bc .
    show "matMul ?ba ?ab = Inr identity4" using rigid_mul [OF r(3,1)] unfolding ba .
    show "invertSe3Matrix4x4InPlace ?ab = Inr ?ba" using N left_inverse_unique [OF r(1,3) ba N] by simp
  qed
qed

theorem extrinsics_compose_witness:
  "\<exists>ab ba. getCameraExtrinsics two_cameras False CENTIMETER CAM_C CAM_B = Some (Inr ab) \<and>
    getCameraExtrinsics two_cameras False CENTIMETER CAM_B CAM_C = Some (Inr ba) \<and> matMul ba ab = Inr identity4"
proof -
  have "rigid_calibration False two_cameras"
    using two_cameras_sound by (simp add: rigid_calibration_def two_cameras_def)
  note compose = extrinsics_compose [OF this _ _ _ two_cameras_reach(2,1,1)]
  have "CAM_C \<noteq> AUTO" "CAM_B \<noteq> AUTO" by simp_all
  from compose [OF this(1,2,2)] show ?thesis by (elim exE conjE) (intro exI conjI)
qed

section \<open>The setter\<close>

lemma camera_update:
  "camera (update_camera c f d) x = (if x = c then Some (f (case camera d c of None \<Rightarrow> CameraInfo_default | Some i \<Rightarrow> i)) else camera d x)"
proof (cases "camera d c")
  case None
  then show ?thesis by (simp add: update_camera_def camera_def)
next
  case (Some i)
  have "map_of (map (\<lambda>(k, j). (k, if k = c then f j else j)) ps) x = map_option (\<lambda>j. if x = c then f j else j) (map_of ps x)" for ps
    by (induction ps) auto
  with Some show ?thesis by (cases "x = c") (simp_all add: update_camera_def camera_def option.map_ident)
qed

lemma append_translation_shape:
  assumes "shape 3 3 R" and "append_translation R t = Inr m"
  shows "shape 4 4 m"
proof -
  obtain a b c d e f g h i where "R = [[a, b, c], [d, e, f], [g, h, i]]" using shape3_cases [OF assms(1)] .
  with assms(2) show ?thesis by (auto simp: append_translation_def shape_def)
qed

lemma update_ready:
  assumes "graph_ready d" and "src \<noteq> AUTO" and "make_extrinsics dst R t sp = Inr ex" and "shape 3 3 R"
  shows "graph_ready (update_camera src (\<lambda>i. i\<lparr>extrinsics := ex\<rparr>) d)" (is "graph_ready ?d")
proof -
  have r: "version d \<ge> 4" "AUTO \<notin> fst ` set (cameraData d)" "sound_links False (shape 4 4) d"
    using assms(1) unfolding graph_ready_def by blast+
  have "rotationMatrix ex = R" using assms(3) by (auto simp: make_extrinsics_def split: if_splits)
  moreover obtain m where "append_translation R (translation ex) = Inr m"
    using assms(4) by (auto simp: append_translation_def shape_def)
  ultimately have ex: "link_matrix False ex = Inr m" "shape 4 4 m"
    using append_translation_shape [OF assms(4)] by (auto simp: link_matrix_def)
  show ?thesis
  proof (cases "camera d src")
    case None
    with r ex assms(2) show ?thesis by (auto simp: graph_ready_def update_camera_def sound_links_def)
  next
    case (Some i)
    have "cameraData ?d = map (\<lambda>(k, j). (k, if k = src then j\<lparr>extrinsics := ex\<rparr> else j)) (cameraData d)"
      and v: "version ?d = version d"
      using Some by (simp_all add: update_camera_def)
    then have "fst ` set (cameraData ?d) = fst ` set (cameraData d)" "sound_links False (shape 4 4) ?d"
      using r(3) ex by (force simp: sound_links_def list_all_iff)+
    with r v show ?thesis by (simp only: graph_ready_def simp_thms)
  qed
qed

text \<open>
  Setting the extrinsics of a camera on data with complete rotations stores the new link and
  leaves the other cameras alone, whatever the call then answers: when it throws, the data holds a
  cycle of links and keeps it; when it does not, and no link leads to a missing camera, the links
  are free of cycles.
\<close>

theorem setCameraExtrinsics_stores_cycle:
  assumes "graph_ready d" and "src \<noteq> AUTO" and "make_extrinsics dst R t sp = Inr ex" and "shape 3 3 R"
  shows "\<exists>d' r. setCameraExtrinsics src dst R t sp d = Some (d', r) \<and>
    link_of d' src = Some dst \<and> (\<forall>c. c \<noteq> src \<longrightarrow> camera d' c = camera d c) \<and>
    (r \<noteq> Inr () \<longrightarrow> \<not> acyclic (links d')) \<and>
    (r = Inr () \<and> links d' \<subseteq> UNIV \<times> cameras d' \<longrightarrow> acyclic (links d'))"
proof -
  let ?d = "update_camera src (\<lambda>i. i\<lparr>extrinsics := ex\<rparr>) d"
  have "toCameraSocket ex = dst" using assms(3) by (auto simp: make_extrinsics_def split: if_splits)
  then have link: "link_of ?d src = Some dst" by (simp add: link_of_def camera_update)
  have set: "setCameraExtrinsics src dst R t sp d = Some (?d, if gr_error g = CycleDetected then Inl (RuntimeError (graph_message g)) else Inr ())"
    if "validateExtrinsicGraph ?d = Some (Inr g)" for g
    using that by (simp add: setCameraExtrinsics_def assms(3))
  show ?thesis
  proof (cases rule: graph_cases [OF update_ready [OF assms]])
    case (1 g c)
    then show ?thesis using set [OF 1(1)] link
      by (intro exI [of _ ?d] exI conjI) (auto simp: camera_update graph_fault_def acyclic_def split: ExtrinsicGraphError.splits)
  next
    case (2 os)
    then have "gr_error (same_origin os) \<noteq> CycleDetected" using same_origin_cases [of os] by auto
    moreover have "acyclic (links ?d)"
    proof (intro acyclicI allI notI)
      fix c
      assume c: "(c, c) \<in> (links ?d)\<^sup>+"
      then have "link_of ?d c \<noteq> None" by (auto simp: links_def dest: tranclD)
      then have "c \<in> set (map fst (cameraData ?d))" unfolding link_iff cameras_def by simp
      with 2(2) have "\<exists>x. reaches ?d c x" by (metis in_set_conv_nth list_all2_conv_all_nth)
      with c show False using chain_no_cycle unfolding reaches_def by blast
    qed
    ultimately show ?thesis using set [OF 2(1)] link
      by (intro exI [of _ ?d] exI conjI) (auto simp: camera_update)
  qed
qed

theorem setCameraExtrinsics_stores_cycle_witness:
  "\<exists>d' r. setCameraExtrinsics CAM_B CAM_C [[1, 0, 0], [0, 1, 0], [0, 0, 1]] [0, 0, 0] [0, 0, 0] two_cameras = Some (d', r) \<and>
    link_of d' CAM_B = Some CAM_C \<and> camera d' CAM_C = camera two_cameras CAM_C"
proof -
  let ?R = "[[1, 0, 0], [0, 1, 0], [0, 0, 1]] :: rat matrix"
  have "\<exists>ex. make_extrinsics CAM_C ?R [0, 0, 0] [0, 0, 0] = Inr ex" by (simp add: make_extrinsics_def)
  then obtain ex where ex: "make_extrinsics CAM_C ?R [0, 0, 0] [0, 0, 0] = Inr ex" ..
  have "shape 3 3 ?R" by (simp add: shape_def)
  note stores = setCameraExtrinsics_stores_cycle [OF two_cameras_ready _ ex this, of CAM_B]
  have "CAM_B \<noteq> AUTO" "CAM_C \<noteq> CAM_B" by simp_all
  from stores [OF this(1)] this(2) show ?thesis by (elim exE conjE) (intro exI conjI, assumption, assumption, drule spec [of _ CAM_C], drule mp)
qed

end
