(* ===== verification/LinearAssignment.thy ===== *)
theory LinearAssignment
  imports Prelude
begin

text \<open>
  The linear assignment solver of the object tracker (src/utility/ObjectTrackerImpl.cpp): column
  reduction, augmenting row reduction and augmentation along shortest paths for a dense cost
  matrix, and the extension of rectangular matrices. A float is an element of an ordered field.
  The arrays of the code are lists: \<open>x\<close> maps rows to columns, \<open>y\<close> columns to rows (-1 for none),
  \<open>v\<close> holds the prices of the columns. A search that reads outside an array or does not end has
  the value \<open>None\<close>.
\<close>

section \<open>Column reduction and reduction transfer\<close>

definition LARGE :: "'f::linordered_field" where
  "LARGE = 1000000"

text \<open>The minimum of each column and the row where it is first attained.\<close>

definition min_step :: "'f::linordered_field list list \<Rightarrow> nat \<Rightarrow> nat \<Rightarrow> 'f list \<times> int list \<Rightarrow> 'f list \<times> int list" where
  "min_step cost i j vy =
     (case vy of (v, y) \<Rightarrow>
        (let c = cost ! i ! j in if c < v ! j then (v[j := c], y[j := int i]) else (v, y)))"

definition column_minima :: "nat \<Rightarrow> 'f::linordered_field list list \<Rightarrow> 'f list \<times> int list" where
  "column_minima n cost =
     fold (\<lambda>i. fold (min_step cost i) [0..<n]) [0..<n] (replicate n LARGE, replicate n 0)"

text \<open>From the last column to the first: each row keeps one of the columns it is the minimum of.\<close>

definition assign_step :: "nat \<Rightarrow> int list \<times> int list \<times> bool list \<Rightarrow> int list \<times> int list \<times> bool list" where
  "assign_step j s =
     (case s of (x, y, unique) \<Rightarrow>
        (let i = nat (y ! j) in
         if x ! i < 0 then (x[i := int j], y, unique)
         else (x, y[j := -1], unique[i := True])))"

definition transfer_step ::
  "nat \<Rightarrow> 'f::linordered_field list list \<Rightarrow> int list \<Rightarrow> bool list \<Rightarrow> nat \<Rightarrow> 'f list \<times> nat list \<Rightarrow> 'f list \<times> nat list" where
  "transfer_step n cost x unique i vf =
     (case vf of (v, free_rows) \<Rightarrow>
        if x ! i < 0 then (v, free_rows @ [i])
        else if unique ! i then
          (let j = nat (x ! i);
               mn = fold (\<lambda>j2 m. if j2 = j then m else (let c = cost ! i ! j2 - v ! j2 in if c < m then c else m)) [0..<n] LARGE
           in (v[j := v ! j - mn], free_rows))
        else (v, free_rows))"

record 'f lap =
  lap_x :: "int list"
  lap_y :: "int list"
  lap_v :: "'f list"

definition ccrrt_dense :: "nat \<Rightarrow> 'f::linordered_field list list \<Rightarrow> nat list \<times> 'f lap" where
  "ccrrt_dense n cost =
     (case column_minima n cost of (v, y) \<Rightarrow>
      case fold assign_step (List.rev [0..<n]) (replicate n (-1), y, replicate n True) of (x, y', unique) \<Rightarrow>
      case fold (transfer_step n cost x unique) [0..<n] (v, []) of (v', free_rows) \<Rightarrow>
        (free_rows, \<lparr>lap_x = x, lap_y = y', lap_v = v'\<rparr>))"

section \<open>Augmenting row reduction\<close>

text \<open>The smallest and the second smallest reduced cost of a row; there may be no second one.\<close>

definition two_min_step :: "'f::linordered_field list \<Rightarrow> 'f list \<Rightarrow> nat \<Rightarrow> nat \<times> 'f \<times> int \<times> 'f \<Rightarrow> nat \<times> 'f \<times> int \<times> 'f" where
  "two_min_step row v j s =
     (case s of (j1, v1, j2, v2) \<Rightarrow>
        (let c = row ! j - v ! j in
         if c < v2 then (if c \<ge> v1 then (j1, v1, int j, c) else (j, c, int j1, v1))
         else (j1, v1, j2, v2)))"

definition two_min :: "nat \<Rightarrow> 'f::linordered_field list \<Rightarrow> 'f list \<Rightarrow> nat \<times> 'f \<times> int \<times> 'f" where
  "two_min n row v = fold (two_min_step row v) [1..<n] (0, row ! 0 - v ! 0, -1, LARGE)"

text \<open>
  The loop over the free rows. \<open>rows\<close> is the array: its first \<open>fresh\<close> entries are the rows that stay
  free, those from \<open>current\<close> on are still to be treated.
\<close>

record 'f carr_state =
  cs_current :: nat
  cs_fresh :: nat
  cs_rr_cnt :: nat
  cs_rows :: "nat list"
  cs_lap :: "'f lap"

definition carr_step :: "nat \<Rightarrow> 'f::linordered_field list list \<Rightarrow> 'f carr_state \<Rightarrow> 'f carr_state" where
  "carr_step n cost s =
     (let l = cs_lap s;
          rr_cnt = cs_rr_cnt s + 1;
          free_i = cs_rows s ! cs_current s;
          current = cs_current s + 1;
          (j1, v1, j2, v2) = two_min n (cost ! free_i) (lap_v l);
          v1_new = lap_v l ! j1 - (v2 - v1);
          v1_lowers = (v1_new < lap_v l ! j1);
          low = rr_cnt < current * n;
          swapped = (low \<and> \<not> v1_lowers \<and> lap_y l ! j1 \<ge> 0 \<and> j2 \<ge> 0);
          j = (if swapped then nat j2 else j1);
          i0 = lap_y l ! j;
          v = (if low \<and> v1_lowers then (lap_v l)[j1 := v1_new] else lap_v l);
          again = (low \<and> v1_lowers \<and> i0 \<ge> 0);
          keep = (\<not> again \<and> i0 \<ge> 0)
      in \<lparr>cs_current = (if again then cs_current s else current),
          cs_fresh = (if keep then cs_fresh s + 1 else cs_fresh s),
          cs_rr_cnt = rr_cnt,
          cs_rows = (if again then (cs_rows s)[cs_current s := nat i0]
                     else if keep then (cs_rows s)[cs_fresh s := nat i0] else cs_rows s),
          cs_lap = \<lparr>lap_x = (lap_x l)[free_i := int j], lap_y = (lap_y l)[j := int free_i], lap_v = v\<rparr>\<rparr>)"

lemma carr_step_measure:
  assumes "cs_current s < m"
  shows "(m - cs_current (carr_step n cost s)) + (m * n - cs_rr_cnt (carr_step n cost s)) < (m - cs_current s) + (m * n - cs_rr_cnt s)"
proof -
  have rr: "cs_rr_cnt (carr_step n cost s) = cs_rr_cnt s + 1"
    by (simp add: carr_step_def Let_def split: prod.split)
  have cur: "cs_current (carr_step n cost s) = cs_current s + 1 \<or>
      cs_current (carr_step n cost s) = cs_current s \<and> cs_rr_cnt s + 1 < (cs_current s + 1) * n"
    by (simp add: carr_step_def Let_def split: prod.split)
  have "(cs_current s + 1) * n \<le> m * n" using assms by (intro mult_le_mono1) simp
  with rr cur assms show ?thesis by auto
qed

function carr_loop :: "nat \<Rightarrow> 'f::linordered_field list list \<Rightarrow> nat \<Rightarrow> 'f carr_state \<Rightarrow> 'f carr_state" where
  "carr_loop n cost m s = (if cs_current s < m then carr_loop n cost m (carr_step n cost s) else s)"
  by pat_completeness auto
termination
  by (relation "measure (\<lambda>(n, cost, m, s). (m - cs_current s) + (m * n - cs_rr_cnt s))")
    (simp, simp only: in_measure prod.case carr_step_measure)

declare carr_loop.simps [simp del]

definition carr_dense :: "nat \<Rightarrow> 'f::linordered_field list list \<Rightarrow> nat list \<Rightarrow> 'f lap \<Rightarrow> nat list \<times> 'f lap" where
  "carr_dense n cost free_rows l =
     (let s = carr_loop n cost (length free_rows)
                \<lparr>cs_current = 0, cs_fresh = 0, cs_rr_cnt = 0, cs_rows = free_rows, cs_lap = l\<rparr>
      in (take (cs_fresh s) (cs_rows s), cs_lap s))"

section \<open>Augmentation along shortest paths\<close>

record 'f search =
  se_lo :: nat
  se_hi :: nat
  se_cols :: "nat list"
  se_d :: "'f list"
  se_pred :: "nat list"

definition find_step :: "'f::linordered_field list \<Rightarrow> nat \<Rightarrow> nat \<Rightarrow> nat \<times> 'f \<times> nat list \<Rightarrow> nat \<times> 'f \<times> nat list" where
  "find_step d lo k s =
     (case s of (hi, mind, cols) \<Rightarrow>
        (let j = cols ! k in
         if d ! j \<le> mind then
           (let (hi', mind') = (if d ! j < mind then (lo, d ! j) else (hi, mind)) in
            (hi' + 1, mind', cols[k := cols ! hi', hi' := j]))
         else (hi, mind, cols)))"

definition find_dense :: "nat \<Rightarrow> nat \<Rightarrow> 'f::linordered_field list \<Rightarrow> nat list \<Rightarrow> nat \<times> nat list" where
  "find_dense n lo d cols =
     (case fold (find_step d lo) [lo + 1..<n] (lo + 1, d ! (cols ! lo), cols) of (hi, mind, cols') \<Rightarrow> (hi, cols'))"

text \<open>The inner loop of \<open>_scan_dense\<close>: it returns a free column at the current distance, or runs to the end.\<close>

fun scan_todo ::
  "'f::linordered_field list \<Rightarrow> 'f list \<Rightarrow> int list \<Rightarrow> nat \<Rightarrow> 'f \<Rightarrow> 'f \<Rightarrow> nat list \<Rightarrow> 'f search \<Rightarrow> nat option \<times> 'f search" where
  "scan_todo row v y i h mind [] s = (None, s)"
| "scan_todo row v y i h mind (k # ks) s =
     (let j = se_cols s ! k; cred = row ! j - v ! j - h in
      if cred < se_d s ! j then
        (let s1 = s\<lparr>se_d := (se_d s)[j := cred], se_pred := (se_pred s)[j := i]\<rparr> in
         if cred = mind then
           (if y ! j < 0 then (Some j, s1)
            else scan_todo row v y i h mind ks
                   (s1\<lparr>se_cols := (se_cols s)[k := se_cols s ! se_hi s, se_hi s := j], se_hi := se_hi s + 1\<rparr>))
         else scan_todo row v y i h mind ks s1)
      else scan_todo row v y i h mind ks s)"

lemma scan_todo_lo [simp]: "se_lo (snd (scan_todo row v y i h mind ks s)) = se_lo s"
  by (induction ks arbitrary: s) (simp_all add: Let_def)

function scan_dense ::
  "nat \<Rightarrow> 'f::linordered_field list list \<Rightarrow> int list \<Rightarrow> 'f list \<Rightarrow> 'f search \<Rightarrow> (nat option \<times> 'f search) option" where
  "scan_dense n cost y v s =
     (if se_lo s = se_hi s then Some (None, s)
      else if se_lo s \<ge> n then None
      else
        (let j = se_cols s ! se_lo s; i = nat (y ! j); mind = se_d s ! j; h = cost ! i ! j - v ! j - mind in
         if y ! j < 0 then None
         else
           (let r = scan_todo (cost ! i) v y i h mind [se_hi s..<n] (s\<lparr>se_lo := se_lo s + 1\<rparr>) in
            if fst r \<noteq> None then Some r else scan_dense n cost y v (snd r))))"
  by pat_completeness auto
termination by (relation "measure (\<lambda>(n, cost, y, v, s). n - se_lo s)") simp_all

declare scan_dense.simps [simp del]

text \<open>
  \<open>find_path_dense\<close>: \<open>_scan_dense\<close> writes its bounds back only when it returns -1. The result is the
  free column that was found, \<open>n_ready\<close> and the state of the search.
\<close>

definition first_free :: "int list \<Rightarrow> nat list \<Rightarrow> nat \<Rightarrow> nat \<Rightarrow> nat option" where
  "first_free y cols lo hi = fold (\<lambda>k f. if y ! (cols ! k) < 0 then Some (cols ! k) else f) [lo..<hi] None"

partial_function (option) find_path_loop ::
  "nat \<Rightarrow> 'f::linordered_field list list \<Rightarrow> int list \<Rightarrow> 'f list \<Rightarrow> nat \<Rightarrow> 'f search \<Rightarrow> (nat \<times> nat \<times> 'f search) option" where
  "find_path_loop n cost y v n_ready s =
     (if se_lo s = se_hi s \<and> se_lo s \<ge> n then None
      else
        (let at_end = (se_lo s = se_hi s);
             found = find_dense n (se_lo s) (se_d s) (se_cols s);
             n_ready' = (if at_end then se_lo s else n_ready);
             s1 = (if at_end then s\<lparr>se_hi := fst found, se_cols := snd found\<rparr> else s);
             final = (if at_end then first_free y (se_cols s1) (se_lo s1) (se_hi s1) else None)
         in case final of
              Some j \<Rightarrow> Some (j, n_ready', s1)
            | None \<Rightarrow>
                (case scan_dense n cost y v s1 of
                   None \<Rightarrow> None
                 | Some (Some j, s2) \<Rightarrow> Some (j, n_ready', s2\<lparr>se_lo := se_lo s1, se_hi := se_hi s1\<rparr>)
                 | Some (None, s2) \<Rightarrow> find_path_loop n cost y v n_ready' s2)))"

declare find_path_loop.simps [code]

definition search_start :: "nat \<Rightarrow> 'f::linordered_field list list \<Rightarrow> 'f list \<Rightarrow> nat \<Rightarrow> 'f search" where
  "search_start n cost v start_i =
     \<lparr>se_lo = 0, se_hi = 0, se_cols = [0..<n], se_d = map (\<lambda>j. cost ! start_i ! j - v ! j) [0..<n],
      se_pred = replicate n start_i\<rparr>"

definition find_path_dense ::
  "nat \<Rightarrow> 'f::linordered_field list list \<Rightarrow> nat \<Rightarrow> int list \<Rightarrow> 'f list \<Rightarrow> (nat \<times> 'f list \<times> nat list) option" where
  "find_path_dense n cost start_i y v =
     map_option (\<lambda>(j, n_ready, s).
         (let mind = se_d s ! (se_cols s ! se_lo s) in
          (j, fold (\<lambda>k v. let j = se_cols s ! k in v[j := v ! j + (se_d s ! j - mind)]) [0..<n_ready] v, se_pred s)))
       (find_path_loop n cost y v 0 (search_start n cost v start_i))"

text \<open>The rows along the path move to the next column; the loop ends at the row the search started from.\<close>

partial_function (option) augment :: "nat list \<Rightarrow> nat \<Rightarrow> nat \<Rightarrow> int list \<Rightarrow> int list \<Rightarrow> (int list \<times> int list) option" where
  "augment pred start_i j x y =
     (let i = pred ! j; j' = x ! i; x' = x[i := int j]; y' = y[j := int i] in
      if i = start_i then Some (x', y')
      else if j' < 0 then None
      else augment pred start_i (nat j') x' y')"

declare augment.simps [code]

fun ca_dense :: "nat \<Rightarrow> 'f::linordered_field list list \<Rightarrow> nat list \<Rightarrow> 'f lap \<Rightarrow> 'f lap option" where
  "ca_dense n cost [] l = Some l"
| "ca_dense n cost (free_i # rows) l =
     (case find_path_dense n cost free_i (lap_y l) (lap_v l) of
        None \<Rightarrow> None
      | Some (j, v', pred) \<Rightarrow>
          (case augment pred free_i j (lap_x l) (lap_y l) of
             None \<Rightarrow> None
           | Some (x', y') \<Rightarrow> ca_dense n cost rows \<lparr>lap_x = x', lap_y = y', lap_v = v'\<rparr>))"

text \<open>The column reduction, at most two row reductions, and the augmentation for the rows still free.\<close>

definition lapjv_internal :: "nat \<Rightarrow> 'f::linordered_field list list \<Rightarrow> 'f lap option" where
  "lapjv_internal n cost =
     (let (f0, l0) = ccrrt_dense n cost;
          (f1, l1) = (if f0 \<noteq> [] then carr_dense n cost f0 l0 else (f0, l0));
          (f2, l2) = (if f1 \<noteq> [] then carr_dense n cost f1 l1 else (f1, l1))
      in if f2 \<noteq> [] then ca_dense n cost f2 l2 else Some l2)"

section \<open>Rectangular costs\<close>

text \<open>
  \<open>execLapjv\<close>: \<open>cost_limit\<close> is None for the largest float. The result has \<open>rowsol\<close>, \<open>colsol\<close> and the
  cost of the assignment; the vectors have been resized, so they hold zeros where nothing is written.
\<close>

definition fill_cost :: "'f::linordered_field list list \<Rightarrow> 'f option \<Rightarrow> 'f" where
  "fill_cost cost cost_limit =
     (case cost_limit of
        Some l \<Rightarrow> l / 2
      | None \<Rightarrow> fold (fold (\<lambda>c m. if c > m then c else m)) cost (-1) + 1)"

definition extended_cost :: "'f::linordered_field list list \<Rightarrow> 'f option \<Rightarrow> 'f list list" where
  "extended_cost cost cost_limit =
     (let n_rows = length cost; n_cols = length (cost ! 0); n = n_rows + n_cols
      in map (\<lambda>i. map (\<lambda>j. if i < n_rows \<and> j < n_cols then cost ! i ! j
                          else if n_rows \<le> i \<and> n_cols \<le> j then 0 else fill_cost cost cost_limit) [0..<n]) [0..<n])"

definition execLapjv ::
  "'f::linordered_field list list \<Rightarrow> bool \<Rightarrow> 'f option \<Rightarrow> bool \<Rightarrow> (int list \<times> int list \<times> 'f) result option" where
  "execLapjv cost extend_cost cost_limit return_cost =
     (let n_rows = length cost; n_cols = length (cost ! 0);
          extend = (extend_cost \<or> cost_limit \<noteq> None);
          n = (if extend then n_rows + n_cols else n_rows);
          cost_c = (if extend then extended_cost cost cost_limit else cost)
      in if cost = [] then Some (Inl (UndefinedBehaviour ''cost[0]''))
         else if n_rows \<noteq> n_cols \<and> \<not> extend_cost then Some (Inl (RuntimeError ''The `extend_cost` variable should set True''))
         else
           map_option (\<lambda>l.
               (let cut = (\<lambda>m z. if z \<ge> int m then -1 else z);
                    rowsol = (if n \<noteq> n_rows then map (\<lambda>i. cut n_cols (lap_x l ! i)) [0..<n_rows] else replicate n_rows 0);
                    colsol = (if n \<noteq> n_rows then map (\<lambda>j. cut n_rows (lap_y l ! j)) [0..<n_cols] else replicate n_cols 0);
                    opt = (if return_cost
                           then (\<Sum>i\<leftarrow>[0..<n_rows]. if n \<noteq> n_rows \<and> rowsol ! i = -1 then 0 else cost_c ! i ! nat (rowsol ! i))
                           else 0)
                in Inr (rowsol, colsol, opt)))
             (lapjv_internal n cost_c))"

end
