(* ===== verification/AssignmentReduction.thy ===== *)
theory AssignmentReduction
  imports LinearAssignment
begin

text \<open>
  The invariant of the linear assignment solver, a partial matching whose pairs are tight for the
  prices: \<open>_ccrrt_dense\<close> establishes it and \<open>_carr_dense\<close> keeps it.
\<close>

section \<open>The invariant\<close>

text \<open>The costs are below a fifth of \<open>LARGE\<close>, the value the code uses for infinity.\<close>

definition costs_ok :: "nat \<Rightarrow> 'f::linordered_field list list \<Rightarrow> bool" where
  "costs_ok n cost \<longleftrightarrow>
     0 < n \<and> length cost = n \<and> (\<forall>i<n. length (cost ! i) = n \<and> (\<forall>j<n. \<bar>cost ! i ! j\<bar> \<le> 200000))"

abbreviation rc :: "'f::linordered_field list list \<Rightarrow> 'f list \<Rightarrow> nat \<Rightarrow> nat \<Rightarrow> 'f" where
  "rc cost v i j \<equiv> cost ! i ! j - v ! j"

text \<open>Column \<open>j\<close> has the smallest reduced cost of row \<open>i\<close>.\<close>

definition tight :: "nat \<Rightarrow> 'f::linordered_field list list \<Rightarrow> 'f list \<Rightarrow> nat \<Rightarrow> nat \<Rightarrow> bool" where
  "tight n cost v i j \<longleftrightarrow> j < n \<and> (\<forall>k<n. rc cost v i j \<le> rc cost v i k)"

definition matching :: "nat \<Rightarrow> int list \<Rightarrow> int list \<Rightarrow> bool" where
  "matching n x y \<longleftrightarrow>
     length x = n \<and> length y = n \<and> (\<forall>j<n. 0 \<le> y ! j \<longrightarrow> y ! j < int n \<and> x ! nat (y ! j) = int j)"

definition slack :: "nat \<Rightarrow> 'f::linordered_field list list \<Rightarrow> int list \<Rightarrow> 'f list \<Rightarrow> bool" where
  "slack n cost y v \<longleftrightarrow>
     length v = n \<and> (\<forall>j<n. 0 \<le> y ! j \<longrightarrow> tight n cost v (nat (y ! j)) j) \<and> (\<forall>j<n. y ! j < 0 \<longrightarrow> - 200000 \<le> v ! j)"

definition free_of :: "nat \<Rightarrow> int list \<Rightarrow> nat set" where
  "free_of n y = {i. i < n \<and> int i \<notin> set y}"

definition lap_inv :: "nat \<Rightarrow> 'f::linordered_field list list \<Rightarrow> nat list \<Rightarrow> 'f lap \<Rightarrow> bool" where
  "lap_inv n cost F l \<longleftrightarrow>
     matching n (lap_x l) (lap_y l) \<and> slack n cost (lap_y l) (lap_v l) \<and> distinct F \<and> set F = free_of n (lap_y l)"

lemma nat_below: "0 \<le> z \<Longrightarrow> z < int n \<Longrightarrow> nat z < n"
  by linarith

lemma tightD: "tight n cost v i j \<Longrightarrow> k < n \<Longrightarrow> rc cost v i j \<le> rc cost v i k"
  by (simp add: tight_def)

text \<open>Lowering other prices keeps a pair tight.\<close>

lemma tight_lower:
  assumes "tight n cost v i j" "v' ! j = v ! j" "\<And>k. k < n \<Longrightarrow> v' ! k \<le> v ! k"
  shows "tight n cost v' i j"
proof -
  have "rc cost v' i j \<le> rc cost v' i k" if "k < n" for k
    using tightD [OF assms(1) that] assms(2) assms(3) [OF that] by simp
  with assms(1) show ?thesis by (simp add: tight_def)
qed

lemma costs_bounds:
  assumes "costs_ok n cost" "i < n" "j < n"
  shows "cost ! i ! j \<le> 200000" "- 200000 \<le> cost ! i ! j"
proof -
  have "\<bar>cost ! i ! j\<bar> \<le> 200000" using assms by (simp add: costs_ok_def)
  then show "cost ! i ! j \<le> 200000" "- 200000 \<le> cost ! i ! j" by linarith+
qed

lemma matching_pair:
  assumes "matching n x y" "j < n" "0 \<le> y ! j"
  shows "nat (y ! j) < n" "x ! nat (y ! j) = int j"
  using assms by (auto simp: matching_def)

lemma matching_inj:
  assumes "matching n x y" "j < n" "k < n" "0 \<le> y ! j" "y ! j = y ! k"
  shows "j = k"
proof -
  have "int j = x ! nat (y ! k)" using matching_pair(2) [OF assms(1,2,4)] assms(5) by metis
  also have "\<dots> = int k" using assms(4,5) by (intro matching_pair(2) [OF assms(1,3)]) simp
  finally show ?thesis by simp
qed

lemma in_free_of: "length y = n \<Longrightarrow> i \<in> free_of n y \<longleftrightarrow> i < n \<and> (\<forall>j<n. y ! j \<noteq> int i)"
  by (auto simp: free_of_def in_set_conv_nth)

text \<open>As long as a row is free, so is a column.\<close>

lemma free_column:
  assumes m: "matching n x y" and i: "i \<in> free_of n y"
  obtains j where "j < n" "y ! j < 0"
proof (rule ccontr)
  assume "\<not> thesis"
  with that have assigned: "0 \<le> y ! j" if "j < n" for j using \<open>j < n\<close> by (meson not_le)
  have len: "length y = n" using m by (simp add: matching_def)
  have inj: "inj_on (\<lambda>j. nat (y ! j)) {..<n}"
  proof (rule inj_onI)
    fix j k assume a: "j \<in> {..<n}" "k \<in> {..<n}" "nat (y ! j) = nat (y ! k)"
    then have "y ! j = y ! k" using assigned [of j] assigned [of k] by simp
    moreover have "j < n" "k < n" "0 \<le> y ! j" using a assigned by simp_all
    ultimately show "j = k" by (intro matching_inj [OF m])
  qed
  have "(\<lambda>j. nat (y ! j)) ` {..<n} \<subseteq> {..<n}" using matching_pair(1) [OF m] assigned by auto
  with inj have "(\<lambda>j. nat (y ! j)) ` {..<n} = {..<n}" by (simp add: endo_inj_surj)
  moreover have "i < n" using i by (simp add: free_of_def)
  ultimately obtain j where "j < n" "i = nat (y ! j)" by (metis imageE lessThan_iff)
  with assigned [OF \<open>j < n\<close>] have "y ! j = int i" by simp
  with i \<open>j < n\<close> show False by (simp add: in_free_of [OF len])
qed

text \<open>Then every reduced cost is below \<open>LARGE\<close>.\<close>

lemma reduced_cost_below_LARGE:
  assumes c: "costs_ok n cost" and m: "matching n x y" and s: "slack n cost y v"
    and f: "i' \<in> free_of n y" and "i < n" "j < n"
  shows "rc cost v i j < LARGE"
proof -
  obtain k where k: "k < n" "y ! k < 0" using free_column [OF m f] .
  with s have vk: "- 200000 \<le> v ! k" by (simp add: slack_def)
  have "- 600000 \<le> v ! j"
  proof (cases "0 \<le> y ! j")
    case True
    with s \<open>j < n\<close> have "tight n cost v (nat (y ! j)) j" by (simp add: slack_def)
    with k have "rc cost v (nat (y ! j)) j \<le> rc cost v (nat (y ! j)) k" by (simp add: tight_def)
    moreover have "nat (y ! j) < n" using matching_pair(1) [OF m \<open>j < n\<close> True] .
    ultimately show ?thesis
      using vk costs_bounds [OF c _ \<open>j < n\<close>, of "nat (y ! j)"] costs_bounds [OF c _ k(1), of "nat (y ! j)"] by simp
  next
    case False
    with s \<open>j < n\<close> have "- 200000 \<le> v ! j" by (simp add: slack_def)
    then show ?thesis by simp
  qed
  then show ?thesis using costs_bounds(1) [OF c \<open>i < n\<close> \<open>j < n\<close>] by (simp add: LARGE_def)
qed

section \<open>Column reduction and reduction transfer\<close>

lemma min_row:
  assumes "m \<le> n" "length v = n" "length y = n" "fold (min_step cost i) [0..<m] (v, y) = (v', y')"
  shows "length v' = n \<and> length y' = n \<and>
    (\<forall>j<n. v' ! j = (if j < m \<and> cost ! i ! j < v ! j then cost ! i ! j else v ! j) \<and>
           y' ! j = (if j < m \<and> cost ! i ! j < v ! j then int i else y ! j))"
  using assms
proof (induction m arbitrary: v' y')
  case 0
  then show ?case by simp
next
  case (Suc m)
  obtain v1 y1 where f: "fold (min_step cost i) [0..<m] (v, y) = (v1, y1)" by fastforce
  from Suc have IH: "length v1 = n \<and> length y1 = n \<and>
    (\<forall>j<n. v1 ! j = (if j < m \<and> cost ! i ! j < v ! j then cost ! i ! j else v ! j) \<and>
           y1 ! j = (if j < m \<and> cost ! i ! j < v ! j then int i else y ! j))"
    by (intro Suc.IH [OF _ _ _ f]) simp_all
  have m: "m < n" using Suc.prems(1) by simp
  have e: "(v', y') = (if cost ! i ! m < v ! m then (v1[m := cost ! i ! m], y1[m := int i]) else (v1, y1))"
    using Suc.prems(4) IH m by (simp add: f) (auto simp: min_step_def Let_def)
  show ?case
    using e IH m by (auto simp: nth_list_update less_Suc_eq split: if_splits)
qed

lemma column_minima_spec:
  assumes c: "costs_ok n cost" and e: "column_minima n cost = (v, y)"
  shows "length v = n" "length y = n"
    and "\<And>j. j < n \<Longrightarrow> \<exists>i<n. y ! j = int i \<and> v ! j = cost ! i ! j"
    and "\<And>i j. i < n \<Longrightarrow> j < n \<Longrightarrow> v ! j \<le> cost ! i ! j"
proof -
  define rows where "rows m = fold (\<lambda>i. fold (min_step cost i) [0..<n]) [0..<m] (replicate n LARGE, replicate n 0)" for m
  have inv: "rows m = (v, y) \<Longrightarrow> m \<le> n \<Longrightarrow> length v = n \<and> length y = n \<and>
      (\<forall>j<n. (0 < m \<longrightarrow> (\<exists>i<m. y ! j = int i \<and> v ! j = cost ! i ! j)) \<and> (m = 0 \<longrightarrow> v ! j = LARGE) \<and>
             (\<forall>i<m. v ! j \<le> cost ! i ! j))" for m v y
  proof (induction m arbitrary: v y)
    case 0
    then show ?case by (auto simp: rows_def)
  next
    case (Suc m)
    obtain v1 y1 where f: "rows m = (v1, y1)" by fastforce
    from Suc have IH: "length v1 = n \<and> length y1 = n \<and>
      (\<forall>j<n. (0 < m \<longrightarrow> (\<exists>i<m. y1 ! j = int i \<and> v1 ! j = cost ! i ! j)) \<and> (m = 0 \<longrightarrow> v1 ! j = LARGE) \<and>
             (\<forall>i<m. v1 ! j \<le> cost ! i ! j))"
      by (intro Suc.IH [OF f]) simp
    have step: "fold (min_step cost m) [0..<n] (v1, y1) = (v, y)"
      using Suc.prems(1) f by (simp add: rows_def)
    have M: "length v = n \<and> length y = n \<and>
      (\<forall>j<n. v ! j = (if j < n \<and> cost ! m ! j < v1 ! j then cost ! m ! j else v1 ! j) \<and>
             y ! j = (if j < n \<and> cost ! m ! j < v1 ! j then int m else y1 ! j))"
      using IH by (intro min_row [OF _ _ _ step]) simp_all
    have "(\<exists>i<Suc m. y ! j = int i \<and> v ! j = cost ! i ! j) \<and> (\<forall>i<Suc m. v ! j \<le> cost ! i ! j)" if j: "j < n" for j
    proof (cases "cost ! m ! j < v1 ! j")
      case True
      with M j have "v ! j = cost ! m ! j" "y ! j = int m" by simp_all
      moreover have "cost ! m ! j \<le> cost ! i ! j" if "i < m" for i
        using IH j that True by (meson less_le_trans less_imp_le)
      ultimately show ?thesis by (auto simp: less_Suc_eq)
    next
      case False
      with M j have k: "v ! j = v1 ! j" "y ! j = y1 ! j" by simp_all
      have "m \<noteq> 0"
      proof
        assume "m = 0"
        with IH j have "v1 ! j = LARGE" by simp
        with False costs_bounds(1) [OF c _ j, of m] Suc.prems(2) show False by (simp add: LARGE_def)
      qed
      with IH j k False show ?thesis by (auto simp: less_Suc_eq)
    qed
    with M show ?case by simp
  qed
  have "0 < n" using c by (simp add: costs_ok_def)
  with inv [of n v y] e show "length v = n" "length y = n"
    and "\<And>j. j < n \<Longrightarrow> \<exists>i<n. y ! j = int i \<and> v ! j = cost ! i ! j"
    and "\<And>i j. i < n \<Longrightarrow> j < n \<Longrightarrow> v ! j \<le> cost ! i ! j"
    by (simp_all add: rows_def column_minima_def)
qed

text \<open>Each row keeps the last of the columns it is the minimum of.\<close>

definition kept :: "nat \<Rightarrow> int list \<Rightarrow> nat \<Rightarrow> int list \<Rightarrow> int list \<Rightarrow> bool" where
  "kept n y0 m x y \<longleftrightarrow> length x = n \<and> length y = n \<and> (\<forall>j<m. j < n \<longrightarrow> y ! j = y0 ! j) \<and>
     (\<forall>j<n. m \<le> j \<longrightarrow> (y ! j = -1 \<or> y ! j = y0 ! j \<and> x ! nat (y0 ! j) = int j)) \<and>
     (\<forall>i<n. 0 \<le> x ! i \<longrightarrow> x ! i < int n \<and> int m \<le> x ! i \<and> y ! nat (x ! i) = int i)"

lemma kept_step:
  assumes k: "kept n y0 (Suc m) x y" and m: "m < n" and i: "i < n" "y0 ! m = int i"
    and e: "assign_step m (x, y, replicate n True) = (x', y', u')"
  shows "kept n y0 m x' y' \<and> u' = replicate n True"
proof -
  have len: "length x = n" "length y = n" using k by (simp_all add: kept_def)
  have ym: "y ! m = int i" using k m i by (simp add: kept_def)
  have u: "(replicate n True)[j := True] = replicate n True" for j
    by (metis list_update_beyond list_update_id length_replicate nth_replicate not_le)
  show ?thesis
  proof (cases "x ! i < 0")
    case True
    with e ym have r: "x' = x[i := int m]" "y' = y" "u' = replicate n True"
      by (simp_all add: assign_step_def)
    have "y ! j \<noteq> int i" if "j < n" "Suc m \<le> j" for j
      using k that i True by (fastforce simp: kept_def)
    then have "kept n y0 m x' y"
      using k m i True len ym unfolding kept_def r
      by (auto simp: nth_list_update less_Suc_eq_le le_less)
    with r show ?thesis by simp
  next
    case False
    with e ym u have r: "x' = x" "y' = y[m := -1]" "u' = replicate n True"
      by (simp_all add: assign_step_def)
    have "nat (x ! j) \<noteq> m" if "j < n" "0 \<le> x ! j" for j
      using k that by (fastforce simp: kept_def)
    then have "kept n y0 m x y'"
      using k m i False len ym unfolding kept_def r
      by (auto simp: nth_list_update less_Suc_eq_le le_less)
    with r show ?thesis by simp
  qed
qed

lemma kept_all:
  assumes y0: "length y0 = n" "\<And>j. j < n \<Longrightarrow> \<exists>i<n. y0 ! j = int i"
    and e: "fold assign_step (List.rev [0..<n]) (replicate n (-1), y0, replicate n True) = (x, y, u)"
  shows "kept n y0 0 x y" "u = replicate n True"
proof -
  have "fold assign_step (List.rev [m..<n]) (replicate n (-1), y0, replicate n True) = (x, y, u) \<Longrightarrow>
      kept n y0 m x y \<and> u = replicate n True" if "m \<le> n" for m x y u
    using that
  proof (induction arbitrary: x y u rule: inc_induct)
    case base
    then show ?case using y0(1) by (auto simp: kept_def)
  next
    case (step m)
    obtain x1 y1 u1 where f: "fold assign_step (List.rev [Suc m..<n]) (replicate n (-1), y0, replicate n True) = (x1, y1, u1)"
      by (metis prod_cases3)
    from step.IH [OF f] have k: "kept n y0 (Suc m) x1 y1" "u1 = replicate n True" by simp_all
    obtain i where "i < n" "y0 ! m = int i" using y0(2) step.hyps(2) by blast
    moreover have "assign_step m (x1, y1, replicate n True) = (x, y, u)"
      using step.prems f k(2) step.hyps(2) by (simp add: upt_rec [of m n])
    ultimately show ?case by (intro kept_step [OF k(1) step.hyps(2)])
  qed
  from this [of 0] e show "kept n y0 0 x y" "u = replicate n True" by simp_all
qed

text \<open>The transfer lowers the price of a kept column until its row has a second minimum.\<close>

lemma second_minimum:
  fixes cost :: "'f::linordered_field list list" and j :: nat
  assumes "\<And>k. k < n \<Longrightarrow> 0 \<le> rc cost v i k"
  defines "mn \<equiv> fold (\<lambda>j2 m. if j2 = j then m else (let c = rc cost v i j2 in if c < m then c else m)) [0..<n] LARGE"
  shows "0 \<le> mn" "\<And>k. k < n \<Longrightarrow> k \<noteq> j \<Longrightarrow> mn \<le> rc cost v i k"
proof -
  have "0 \<le> fold (\<lambda>j2 m. if j2 = j then m else (let c = rc cost v i j2 in if c < m then c else m)) [0..<p] LARGE \<and>
     (\<forall>k<p. k \<noteq> j \<longrightarrow> fold (\<lambda>j2 m. if j2 = j then m else (let c = rc cost v i j2 in if c < m then c else m)) [0..<p] LARGE \<le> rc cost v i k)"
    if "p \<le> n" for p
    using that
  proof (induction p)
    case 0
    then show ?case by (simp add: LARGE_def)
  next
    case (Suc p)
    then have "0 \<le> rc cost v i p" using assms(1) by simp
    with Suc show ?case by (auto simp: Let_def less_Suc_eq intro: order_trans)
  qed
  from this [of n] show "0 \<le> mn" "\<And>k. k < n \<Longrightarrow> k \<noteq> j \<Longrightarrow> mn \<le> rc cost v i k"
    by (simp_all add: mn_def)
qed

definition transferred :: "nat \<Rightarrow> 'f::linordered_field list list \<Rightarrow> int list \<Rightarrow> 'f list \<Rightarrow> nat \<Rightarrow> 'f list \<Rightarrow> bool" where
  "transferred n cost x v0 m v \<longleftrightarrow> length v = n \<and> (\<forall>k<n. v ! k \<le> v0 ! k) \<and>
     (\<forall>k<n. (\<forall>i<m. x ! i \<noteq> int k) \<longrightarrow> v ! k = v0 ! k) \<and>
     (\<forall>i<n. 0 \<le> x ! i \<longrightarrow> tight n cost v i (nat (x ! i)))"

lemma transferredD:
  assumes "transferred n cost x v0 m v"
  shows "length v = n" "k < n \<Longrightarrow> v ! k \<le> v0 ! k"
    and "k < n \<Longrightarrow> (\<And>i. i < m \<Longrightarrow> x ! i \<noteq> int k) \<Longrightarrow> v ! k = v0 ! k"
    and "i < n \<Longrightarrow> 0 \<le> x ! i \<Longrightarrow> tight n cost v i (nat (x ! i))"
  using assms unfolding transferred_def by blast+

lemma transfer_row:
  fixes cost :: "'f::linordered_field list list"
  assumes t: "transferred n cost x v0 m v" and m: "m < n"
    and v0: "\<And>i j. i < n \<Longrightarrow> j < n \<Longrightarrow> v0 ! j \<le> cost ! i ! j"
    and x: "\<And>i. i < n \<Longrightarrow> 0 \<le> x ! i \<Longrightarrow> x ! i < int n \<and> v0 ! nat (x ! i) = cost ! i ! nat (x ! i)"
    and inj: "\<And>i k. i < n \<Longrightarrow> k < n \<Longrightarrow> 0 \<le> x ! i \<Longrightarrow> x ! i = x ! k \<Longrightarrow> i = k"
    and e: "transfer_step n cost x (replicate n True) m (v, F) = (v', F')"
  shows "transferred n cost x v0 (Suc m) v' \<and> F' = (if x ! m < 0 then F @ [m] else F)"
proof (cases "x ! m < 0")
  case True
  with e have "v' = v" "F' = F @ [m]" by (simp_all add: transfer_step_def)
  with t True show ?thesis by (auto simp: transferred_def less_Suc_eq)
next
  case False
  define j where "j = nat (x ! m)"
  define mn where "mn = fold (\<lambda>j2 m'. if j2 = j then m' else (let c = rc cost v m j2 in if c < m' then c else m')) [0..<n] LARGE"
  from False e m have r: "v' = v[j := v ! j - mn]" "F' = F"
    by (simp_all add: transfer_step_def Let_def j_def mn_def)
  have len: "length v = n" using transferredD(1) [OF t] .
  have j: "j < n" "x ! m = int j" using x [OF m] False by (simp_all add: j_def nat_below)
  have vj: "v ! j = cost ! m ! j"
  proof -
    have "\<forall>i<m. x ! i \<noteq> int j" using inj [of _ m] m j by (metis less_trans of_nat_0_le_iff order_less_irrefl)
    then have "v ! j = v0 ! j" by (intro transferredD(3) [OF t j(1)]) blast
    with x [OF m] False j show ?thesis by simp
  qed
  have pos: "0 \<le> rc cost v m k" if "k < n" for k
    using transferredD(2) [OF t that] v0 [OF m that] by simp
  have mn0: "0 \<le> mn" unfolding mn_def by (rule second_minimum(1)) (rule pos)
  have mn2: "mn \<le> rc cost v m k" if "k < n" "k \<noteq> j" for k
    unfolding mn_def using that by (intro second_minimum(2) pos)
  have le: "v' ! k \<le> v ! k" if "k < n" for k
    using that mn0 len j by (simp add: r nth_list_update)
  have tight: "tight n cost v' i (nat (x ! i))" if i: "i < n" "0 \<le> x ! i" for i
  proof (cases "i = m")
    case True
    have "rc cost v' m j \<le> rc cost v' m k" if "k < n" for k
      using that mn2 [OF that] vj j len by (cases "k = j") (simp_all add: r)
    with True j show ?thesis by (simp add: tight_def)
  next
    case False
    with inj [OF i(1) m i(2)] have "nat (x ! i) \<noteq> j" using j i(2) by auto
    then have "v' ! nat (x ! i) = v ! nat (x ! i)" by (simp add: r)
    from tight_lower [OF transferredD(4) [OF t i] this le] show ?thesis .
  qed
  have low: "v' ! k \<le> v0 ! k" if "k < n" for k
    using le [OF that] transferredD(2) [OF t that] by (rule order_trans)
  have same: "v' ! k = v0 ! k" if "k < n" "\<forall>i<Suc m. x ! i \<noteq> int k" for k
  proof -
    have "k \<noteq> j" using that(2) j(2) by auto
    then have "v' ! k = v ! k" by (simp add: r)
    also have "v ! k = v0 ! k" using that by (intro transferredD(3) [OF t]) simp_all
    finally show ?thesis .
  qed
  have "length v' = n" using len by (simp add: r)
  with low same tight have "transferred n cost x v0 (Suc m) v'" unfolding transferred_def by blast
  with False r show ?thesis by simp
qed

lemma transfer_all:
  assumes "m \<le> n" and "length v0 = n"
    and v0: "\<And>i j. i < n \<Longrightarrow> j < n \<Longrightarrow> v0 ! j \<le> cost ! i ! j"
    and x: "\<And>i. i < n \<Longrightarrow> 0 \<le> x ! i \<Longrightarrow> x ! i < int n \<and> v0 ! nat (x ! i) = cost ! i ! nat (x ! i)"
    and inj: "\<And>i k. i < n \<Longrightarrow> k < n \<Longrightarrow> 0 \<le> x ! i \<Longrightarrow> x ! i = x ! k \<Longrightarrow> i = k"
    and e: "fold (transfer_step n cost x (replicate n True)) [0..<m] (v0, []) = (v, F)"
  shows "transferred n cost x v0 m v \<and> F = filter (\<lambda>i. x ! i < 0) [0..<m]"
  using assms(1) e
proof (induction m arbitrary: v F)
  case 0
  have "tight n cost v0 i (nat (x ! i))" if i: "i < n" "0 \<le> x ! i" for i
  proof -
    have "nat (x ! i) < n" "v0 ! nat (x ! i) = cost ! i ! nat (x ! i)" using x [OF i] i by (simp_all add: nat_below)
    with v0 [OF i(1)] show ?thesis by (simp add: tight_def)
  qed
  with 0 assms(2) show ?case by (simp add: transferred_def)
next
  case (Suc m)
  obtain v1 F1 where f: "fold (transfer_step n cost x (replicate n True)) [0..<m] (v0, []) = (v1, F1)" by fastforce
  from Suc.IH [OF _ f] Suc.prems(1) have IH: "transferred n cost x v0 m v1" "F1 = filter (\<lambda>i. x ! i < 0) [0..<m]"
    by simp_all
  have "transfer_step n cost x (replicate n True) m (v1, F1) = (v, F)" using Suc.prems(2) by (simp add: f)
  from transfer_row [OF IH(1) _ v0 x inj this] Suc.prems(1) IH(2) show ?case by simp
qed

theorem ccrrt_establishes_invariant:
  assumes c: "costs_ok n cost" and e: "ccrrt_dense n cost = (F, l)"
  shows "lap_inv n cost F l"
proof -
  obtain v y where cm: "column_minima n cost = (v, y)" by fastforce
  obtain x y' u where ka: "fold assign_step (List.rev [0..<n]) (replicate n (-1), y, replicate n True) = (x, y', u)"
    by (metis prod_cases3)
  note spec = column_minima_spec [OF c cm]
  note k = kept_all [OF spec(2) _ ka]
  have kp: "kept n y 0 x y'" and u: "u = replicate n True" using k spec(3) by blast+
  obtain v' F' where tr: "fold (transfer_step n cost x u) [0..<n] (v, []) = (v', F')" by fastforce
  have l: "l = \<lparr>lap_x = x, lap_y = y', lap_v = v'\<rparr>" "F = F'"
    using e by (simp_all add: ccrrt_dense_def cm ka tr)
  have len: "length x = n" "length y' = n" using kp by (simp_all add: kept_def)
  have xy: "x ! i < int n \<and> y' ! nat (x ! i) = int i" if "i < n" "0 \<le> x ! i" for i
    using kp that by (simp add: kept_def)
  have yx: "y' ! j < int n \<and> y' ! j = y ! j \<and> x ! nat (y' ! j) = int j" if "j < n" "0 \<le> y' ! j" for j
    using kp that spec(3) [OF that(1)] by (force simp: kept_def)
  have "v ! nat (x ! i) = cost ! i ! nat (x ! i)" if "i < n" "0 \<le> x ! i" for i
  proof -
    have j: "nat (x ! i) < n" using xy [OF that] that by (simp add: nat_below)
    have yi: "y' ! nat (x ! i) = int i" using xy [OF that] by simp
    then have "y ! nat (x ! i) = int i" using yx [OF j] by simp
    with spec(3) [OF j] show ?thesis by auto
  qed
  with xy have x: "x ! i < int n \<and> v ! nat (x ! i) = cost ! i ! nat (x ! i)" if "i < n" "0 \<le> x ! i" for i
    using that by simp
  have inj: "i = k" if a: "i < n" "k < n" "0 \<le> x ! i" "x ! i = x ! k" for i k
  proof -
    have "int i = y' ! nat (x ! k)" using xy [OF a(1,3)] a(4) by simp
    also have "\<dots> = int k" using xy [OF a(2)] a(3,4) by simp
    finally show ?thesis by simp
  qed
  have T: "transferred n cost x v n v' \<and> F' = filter (\<lambda>i. x ! i < 0) [0..<n]"
    by (rule transfer_all [OF order_refl spec(1) spec(4) x inj tr [unfolded u]])
  have free: "i \<in> free_of n y' \<longleftrightarrow> i < n \<and> x ! i < 0" for i
  proof -
    have "(\<exists>j<n. y' ! j = int i) \<longleftrightarrow> 0 \<le> x ! i" if "i < n"
    proof
      assume "\<exists>j<n. y' ! j = int i"
      then show "0 \<le> x ! i" using yx by fastforce
    next
      assume "0 \<le> x ! i"
      with xy [OF that this] show "\<exists>j<n. y' ! j = int i"
        by (intro exI [of _ "nat (x ! i)"]) (simp add: nat_below)
    qed
    then show ?thesis by (auto simp: in_free_of [OF len(2)] not_le [symmetric])
  qed
  have "matching n x y'" using len yx by (simp add: matching_def)
  moreover have "slack n cost y' v'"
  proof -
    have "tight n cost v' (nat (y' ! j)) j" if "j < n" "0 \<le> y' ! j" for j
    proof -
      have "nat (y' ! j) < n" "x ! nat (y' ! j) = int j" using yx [OF that] nat_below [OF that(2)] by blast+
      then show ?thesis using transferredD(4) [OF conjunct1 [OF T], of "nat (y' ! j)"] by simp
    qed
    moreover have "- 200000 \<le> v' ! j" if j: "j < n" "y' ! j < 0" for j
    proof -
      have "x ! i \<noteq> int j" if "i < n" for i using xy [OF that] j by auto
      then have "v' ! j = v ! j" by (rule transferredD(3) [OF conjunct1 [OF T] j(1)])
      with spec(3) [OF j(1)] costs_bounds(2) [OF c _ j(1)] show ?thesis by auto
    qed
    ultimately show ?thesis using transferredD(1) [OF conjunct1 [OF T]] by (simp add: slack_def)
  qed
  ultimately show ?thesis using T free by (auto simp: lap_inv_def l)
qed

section \<open>Augmenting row reduction\<close>

lemma two_min_spec:
  fixes row v :: "'f::linordered_field list"
  assumes "0 < n" "row ! 0 - v ! 0 < LARGE" and e: "two_min n row v = (j1, v1, j2, v2)"
  shows "j1 < n" "v1 = row ! j1 - v ! j1" "v1 \<le> v2"
    and "\<And>j. j < n \<Longrightarrow> j \<noteq> j1 \<Longrightarrow> v2 \<le> row ! j - v ! j"
    and "0 \<le> j2 \<Longrightarrow> nat j2 < n \<and> v2 = row ! nat j2 - v ! nat j2"
proof -
  have "fold (two_min_step row v) [1..<m] (0, row ! 0 - v ! 0, -1, LARGE) = (j1, v1, j2, v2) \<Longrightarrow>
      j1 < m \<and> v1 = row ! j1 - v ! j1 \<and> v1 \<le> v2 \<and> (\<forall>j<m. j \<noteq> j1 \<longrightarrow> v2 \<le> row ! j - v ! j) \<and>
      (0 \<le> j2 \<longrightarrow> nat j2 < m \<and> v2 = row ! nat j2 - v ! nat j2)" if "1 \<le> m" for m j1 v1 j2 v2
    using that
  proof (induction arbitrary: j1 v1 j2 v2 rule: dec_induct)
    case base
    then show ?case using assms(2) by auto
  next
    case (step m)
    obtain k1 w1 k2 w2 where f: "fold (two_min_step row v) [1..<m] (0, row ! 0 - v ! 0, -1, LARGE) = (k1, w1, k2, w2)"
      by (metis prod_cases4)
    note IH = step.IH [OF f]
    have s: "two_min_step row v m (k1, w1, k2, w2) = (j1, v1, j2, v2)"
      using step.prems step.hyps(1) f by simp
    consider "row ! m - v ! m \<ge> w2" | "row ! m - v ! m < w2" "row ! m - v ! m \<ge> w1" | "row ! m - v ! m < w1"
      using IH by linarith
    then show ?case
    proof cases
      case 1
      with s have "j1 = k1" "v1 = w1" "j2 = k2" "v2 = w2" by (simp_all add: two_min_step_def Let_def)
      with IH 1 show ?thesis by (auto simp: less_Suc_eq)
    next
      case 2
      with s have "j1 = k1" "v1 = w1" "j2 = int m" "v2 = row ! m - v ! m" by (simp_all add: two_min_step_def Let_def)
      with IH 2 show ?thesis by (auto simp: less_Suc_eq intro: order_trans less_imp_le)
    next
      case 3
      with IH have "row ! m - v ! m < w2" by simp
      with s 3 have "j1 = m" "v1 = row ! m - v ! m" "j2 = int k1" "v2 = w1"
        by (auto simp: two_min_step_def Let_def)
      moreover have "w1 \<le> row ! j - v ! j" if "j < m" for j
        using IH that by (cases "j = k1") (auto intro: order_trans)
      ultimately show ?thesis using IH 3 by (auto simp: less_Suc_eq)
    qed
  qed
  from this [of n] assms(1) e show "j1 < n" "v1 = row ! j1 - v ! j1" "v1 \<le> v2"
    and "\<And>j. j < n \<Longrightarrow> j \<noteq> j1 \<Longrightarrow> v2 \<le> row ! j - v ! j"
    and "0 \<le> j2 \<Longrightarrow> nat j2 < n \<and> v2 = row ! nat j2 - v ! nat j2"
    by (simp_all add: two_min_def)
qed

text \<open>A free row takes a column that is tight for it; the row that had the column becomes free.\<close>

definition displaced :: "int list \<Rightarrow> nat \<Rightarrow> nat set" where
  "displaced y j = (if 0 \<le> y ! j then {nat (y ! j)} else {})"

lemma free_of_reassign:
  assumes m: "matching n x y" and i: "i \<in> free_of n y" and j: "j < n"
  shows "free_of n (y[j := int i]) = (free_of n y - {i}) \<union> displaced y j"
proof -
  have len: "length y = n" using m by (simp add: matching_def)
  have "k \<in> free_of n (y[j := int i]) \<longleftrightarrow> k \<in> (free_of n y - {i}) \<union> displaced y j" for k
  proof (cases "y ! j = int k")
    case True
    then have "k < n" using matching_pair(1) [OF m j] by simp
    moreover have "k \<noteq> i" using i j True by (auto simp: in_free_of len)
    moreover have "y ! j' \<noteq> int k" if "j' < n" "j' \<noteq> j" for j'
      using matching_inj [OF m that(1) j] that True by auto
    ultimately show ?thesis using True j by (auto simp: in_free_of len nth_list_update displaced_def)
  next
    case False
    then have "k \<notin> displaced y j" by (auto simp: displaced_def)
    with False j i show ?thesis by (auto simp: in_free_of len nth_list_update)
  qed
  then show ?thesis by blast
qed

lemma matching_reassign:
  assumes m: "matching n x y" and i: "i \<in> free_of n y" and j: "j < n"
  shows "matching n (x[i := int j]) (y[j := int i])"
proof -
  have len: "length x = n" "length y = n" using m by (simp_all add: matching_def)
  have i': "i < n" "\<And>k. k < n \<Longrightarrow> y ! k \<noteq> int i" using i by (simp_all add: in_free_of len)
  have "(y[j := int i]) ! k < int n \<and> (x[i := int j]) ! nat ((y[j := int i]) ! k) = int k"
    if k: "k < n" "0 \<le> (y[j := int i]) ! k" for k
  proof (cases "k = j")
    case True
    with k i' len show ?thesis by simp
  next
    case False
    then have yk: "(y[j := int i]) ! k = y ! k" by simp
    with k have "0 \<le> y ! k" by simp
    with i'(2) [OF k(1)] have "nat (y ! k) \<noteq> i" by auto
    with yk matching_pair [OF m k(1) \<open>0 \<le> y ! k\<close>] show ?thesis by simp
  qed
  with len show ?thesis by (simp add: matching_def)
qed

lemma reassign:
  assumes l: "lap_inv n cost F l" and i: "i \<in> set F" and j: "j < n"
    and v: "length v' = n" "\<And>k. k < n \<Longrightarrow> k \<noteq> j \<Longrightarrow> v' ! k = lap_v l ! k" "v' ! j \<le> lap_v l ! j"
    and t: "tight n cost v' i j"
    and F: "distinct F'" "set F' = (set F - {i}) \<union> displaced (lap_y l) j"
  shows "lap_inv n cost F' \<lparr>lap_x = (lap_x l)[i := int j], lap_y = (lap_y l)[j := int i], lap_v = v'\<rparr>"
proof -
  have m: "matching n (lap_x l) (lap_y l)" and s: "slack n cost (lap_y l) (lap_v l)" and f: "set F = free_of n (lap_y l)"
    using l by (simp_all add: lap_inv_def)
  have len: "length (lap_y l) = n" using m by (simp add: matching_def)
  have le: "v' ! k \<le> lap_v l ! k" if "k < n" for k using v that by (cases "k = j") simp_all
  have "tight n cost v' (nat ((lap_y l)[j := int i] ! k)) k" if "k < n" "0 \<le> (lap_y l)[j := int i] ! k" for k
  proof (cases "k = j")
    case True
    with t j len show ?thesis by simp
  next
    case False
    with that s have "tight n cost (lap_v l) (nat (lap_y l ! k)) k" by (simp add: slack_def)
    from tight_lower [OF this v(2) [OF that(1) False] le] False show ?thesis by simp
  qed
  moreover have "- 200000 \<le> v' ! k" if "k < n" "(lap_y l)[j := int i] ! k < 0" for k
  proof -
    have "k \<noteq> j" using that j len by auto
    with that s v(2) show ?thesis by (simp add: slack_def)
  qed
  ultimately have "slack n cost ((lap_y l)[j := int i]) v'" using v(1) by (simp add: slack_def)
  with matching_reassign [OF m _ j] free_of_reassign [OF m _ j] i f F show ?thesis
    by (simp add: lap_inv_def)
qed

text \<open>The rows that are still free: those put aside and those not yet treated.\<close>

definition pending :: "'f carr_state \<Rightarrow> nat list" where
  "pending s = take (cs_fresh s) (cs_rows s) @ drop (cs_current s) (cs_rows s)"

definition carr_inv :: "nat \<Rightarrow> 'f::linordered_field list list \<Rightarrow> nat \<Rightarrow> 'f carr_state \<Rightarrow> bool" where
  "carr_inv n cost m s \<longleftrightarrow> cs_fresh s \<le> cs_current s \<and> cs_current s \<le> m \<and> length (cs_rows s) = m \<and>
     lap_inv n cost (pending s) (cs_lap s)"

text \<open>What one round does to the rows still free.\<close>

lemma pending_step:
  assumes "cs_fresh s \<le> cs_current s" "cs_current s < length (cs_rows s)"
  defines "i \<equiv> cs_rows s ! cs_current s"
  shows "pending s = take (cs_fresh s) (cs_rows s) @ i # drop (cs_current s + 1) (cs_rows s)"
    and "take (cs_fresh s) ((cs_rows s)[cs_current s := k]) @ drop (cs_current s) ((cs_rows s)[cs_current s := k]) =
         take (cs_fresh s) (cs_rows s) @ k # drop (cs_current s + 1) (cs_rows s)"
    and "take (cs_fresh s + 1) ((cs_rows s)[cs_fresh s := k]) @ drop (cs_current s + 1) ((cs_rows s)[cs_fresh s := k]) =
         take (cs_fresh s) (cs_rows s) @ k # drop (cs_current s + 1) (cs_rows s)"
proof -
  show "pending s = take (cs_fresh s) (cs_rows s) @ i # drop (cs_current s + 1) (cs_rows s)"
    using assms(1,2) by (simp add: pending_def i_def Cons_nth_drop_Suc)
  have "drop (cs_current s) ((cs_rows s)[cs_current s := k]) = k # drop (cs_current s + 1) (cs_rows s)"
    using assms(2) by (subst Cons_nth_drop_Suc [symmetric]) simp_all
  then show "take (cs_fresh s) ((cs_rows s)[cs_current s := k]) @ drop (cs_current s) ((cs_rows s)[cs_current s := k]) =
         take (cs_fresh s) (cs_rows s) @ k # drop (cs_current s + 1) (cs_rows s)"
    using assms(1) by simp
  have "take (cs_fresh s + 1) ((cs_rows s)[cs_fresh s := k]) = take (cs_fresh s) (cs_rows s) @ [k]"
    using assms(1,2) by (simp add: take_Suc_conv_app_nth)
  then show "take (cs_fresh s + 1) ((cs_rows s)[cs_fresh s := k]) @ drop (cs_current s + 1) ((cs_rows s)[cs_fresh s := k]) =
         take (cs_fresh s) (cs_rows s) @ k # drop (cs_current s + 1) (cs_rows s)"
    using assms(1) by simp
qed

text \<open>The column a round chooses and the price it sets, and why the pair is tight.\<close>

lemma carr_choice:
  fixes cost :: "'f::linordered_field list list"
  assumes n: "0 < n" and L: "rc cost v i 0 < LARGE" and len: "length v = n"
    and e: "two_min n (cost ! i) v = (j1, v1, j2, v2)"
    and lowers: "lowers = (v ! j1 - (v2 - v1) < v ! j1)"
    and sw: "swapped \<longrightarrow> low \<and> \<not> lowers \<and> 0 \<le> j2"
    and j: "j = (if swapped then nat j2 else j1)"
    and v': "v' = (if low \<and> lowers then v[j1 := v ! j1 - (v2 - v1)] else v)"
  shows "j < n" "tight n cost v' i j" "length v' = n" "v' ! j \<le> v ! j" "\<And>k. k \<noteq> j \<Longrightarrow> v' ! k = v ! k"
proof -
  note tm = two_min_spec [OF n L e]
  have min1: "v1 \<le> rc cost v i k" if "k < n" for k
    using tm(2) tm(3) tm(4) [OF that] by (cases "k = j1") simp_all
  have "j < n \<and> tight n cost v' i j \<and> v' ! j \<le> v ! j \<and> (\<forall>k. k \<noteq> j \<longrightarrow> v' ! k = v ! k)"
  proof (cases "low \<and> lowers")
    case True
    with sw j v' have r: "j = j1" "v' = v[j1 := v ! j1 - (v2 - v1)]" by auto
    have "rc cost v' i j1 = v2" using tm(1,2) len by (simp add: r)
    moreover have "v2 \<le> rc cost v' i k" if "k < n" for k
      using tm(1,2) tm(4) [OF that] len by (cases "k = j1") (simp_all add: r)
    ultimately have "tight n cost v' i j1" using tm(1) by (simp add: tight_def)
    with r tm(1,3) len show ?thesis by simp
  next
    case False
    with v' have r: "v' = v" by auto
    have "j < n \<and> rc cost v i j = v1"
    proof (cases swapped)
      case True
      with sw lowers have "v2 \<le> v1" "0 \<le> j2" by auto
      with tm(3) tm(5) True j show ?thesis by simp
    next
      case False
      with j tm(1,2) show ?thesis by simp
    qed
    with min1 r show ?thesis by (simp add: tight_def)
  qed
  then show "j < n" "tight n cost v' i j" "v' ! j \<le> v ! j" "\<And>k. k \<noteq> j \<Longrightarrow> v' ! k = v ! k" by simp_all
  show "length v' = n" using v' len by simp
qed

lemma carr_step_inv:
  assumes c: "costs_ok n cost" and s: "carr_inv n cost m s" and cur: "cs_current s < m"
  shows "carr_inv n cost m (carr_step n cost s)"
proof -
  define l where "l = cs_lap s"
  define i where "i = cs_rows s ! cs_current s"
  obtain j1 v1 j2 v2 where e: "two_min n (cost ! i) (lap_v l) = (j1, v1, j2, v2)" by (metis prod_cases4)
  define lowers where "lowers = (lap_v l ! j1 - (v2 - v1) < lap_v l ! j1)"
  define low where "low = (cs_rr_cnt s + 1 < (cs_current s + 1) * n)"
  define swapped where "swapped = (low \<and> \<not> lowers \<and> lap_y l ! j1 \<ge> 0 \<and> j2 \<ge> 0)"
  define j where "j = (if swapped then nat j2 else j1)"
  define v' where "v' = (if low \<and> lowers then (lap_v l)[j1 := lap_v l ! j1 - (v2 - v1)] else lap_v l)"
  define i0 where "i0 = lap_y l ! j"
  define again where "again = (low \<and> lowers \<and> 0 \<le> i0)"
  define rest where "rest = (\<lambda>ks. take (cs_fresh s) (cs_rows s) @ ks @ drop (cs_current s + 1) (cs_rows s))"
  define t where "t = carr_step n cost s"
  have t: "t = \<lparr>cs_current = (if again then cs_current s else cs_current s + 1),
          cs_fresh = (if \<not> again \<and> 0 \<le> i0 then cs_fresh s + 1 else cs_fresh s),
          cs_rr_cnt = cs_rr_cnt s + 1,
          cs_rows = (if again then (cs_rows s)[cs_current s := nat i0]
                     else if \<not> again \<and> 0 \<le> i0 then (cs_rows s)[cs_fresh s := nat i0] else cs_rows s),
          cs_lap = \<lparr>lap_x = (lap_x l)[i := int j], lap_y = (lap_y l)[j := int i], lap_v = v'\<rparr>\<rparr>"
    unfolding t_def carr_step_def Let_def l_def [symmetric] i_def [symmetric] e prod.case
      lowers_def [symmetric] low_def [symmetric] swapped_def [symmetric] j_def [symmetric] v'_def [symmetric]
      i0_def [symmetric] again_def [symmetric]
    by (rule refl)
  have li: "lap_inv n cost (pending s) l" and fr: "cs_fresh s \<le> cs_current s" and len: "length (cs_rows s) = m"
    using s by (simp_all add: carr_inv_def l_def)
  have cur': "cs_current s < length (cs_rows s)" using cur len by simp
  note ps = pending_step [OF fr cur', folded i_def]
  have pend: "pending s = rest [i]" using ps(1) by (simp add: rest_def)
  have m: "matching n (lap_x l) (lap_y l)" "slack n cost (lap_y l) (lap_v l)" and f: "set (pending s) = free_of n (lap_y l)"
    and d: "distinct (pending s)"
    using li by (simp_all add: lap_inv_def)
  have i: "i \<in> set (pending s)" by (simp add: pend rest_def)
  have n: "0 < n" using c by (simp add: costs_ok_def)
  have "i < n" using i f by (simp add: free_of_def)
  then have L: "rc cost (lap_v l) i 0 < LARGE" using i f n by (intro reduced_cost_below_LARGE [OF c m]) simp_all
  have lv: "length (lap_v l) = n" using m(2) by (simp add: slack_def)
  note ch = carr_choice [OF n L lv e lowers_def _ j_def v'_def]
  have sw: "swapped \<longrightarrow> low \<and> \<not> lowers \<and> 0 \<le> j2" by (simp add: swapped_def)
  note ch = ch [OF sw]
  have pt: "pending t = rest (if 0 \<le> i0 then [nat i0] else [])"
    using ps(2,3) [of "nat i0"] unfolding t pending_def rest_def by (auto simp: again_def)
  have nd: "nat i0 \<notin> set (pending s)" if "0 \<le> i0"
    using f ch(1) that m(1) by (auto simp: in_free_of matching_def i0_def)
  have F: "distinct (pending t)" "set (pending t) = (set (pending s) - {i}) \<union> displaced (lap_y l) j"
    using d nd unfolding pt pend rest_def displaced_def i0_def [symmetric] by (auto split: if_splits)
  have "lap_inv n cost (pending t) \<lparr>lap_x = (lap_x l)[i := int j], lap_y = (lap_y l)[j := int i], lap_v = v'\<rparr>"
    by (rule reassign [OF li i ch(1,3) ch(5) ch(4) ch(2) F])
  then have "lap_inv n cost (pending t) (cs_lap t)" by (simp add: t)
  moreover have "cs_fresh t \<le> cs_current t" "cs_current t \<le> m" "length (cs_rows t) = m"
    using fr cur len by (simp_all add: t)
  ultimately show ?thesis unfolding carr_inv_def t_def [symmetric] by blast
qed

lemma carr_loop_inv:
  assumes "costs_ok n cost" "carr_inv n cost m s"
  shows "carr_inv n cost m (carr_loop n cost m s) \<and> cs_current (carr_loop n cost m s) = m"
  using assms
proof (induction n cost m s rule: carr_loop.induct)
  case (1 n cost m s)
  show ?case
  proof (cases "cs_current s < m")
    case True
    with 1 carr_step_inv [OF 1(2,3) True] show ?thesis by (subst (1 2) carr_loop.simps) simp
  next
    case False
    with 1(3) show ?thesis by (subst (1 2) carr_loop.simps) (simp add: carr_inv_def)
  qed
qed

theorem carr_keeps_invariant:
  assumes c: "costs_ok n cost" and l: "lap_inv n cost F l" and e: "carr_dense n cost F l = (F', l')"
  shows "lap_inv n cost F' l'"
proof -
  define s0 where "s0 = \<lparr>cs_current = 0, cs_fresh = 0, cs_rr_cnt = 0, cs_rows = F, cs_lap = l\<rparr>"
  have "carr_inv n cost (length F) s0" using l by (simp add: s0_def carr_inv_def pending_def)
  from carr_loop_inv [OF c this]
  have r: "carr_inv n cost (length F) (carr_loop n cost (length F) s0)"
    "cs_current (carr_loop n cost (length F) s0) = length F" by simp_all
  then have "pending (carr_loop n cost (length F) s0) =
      take (cs_fresh (carr_loop n cost (length F) s0)) (cs_rows (carr_loop n cost (length F) s0))"
    by (simp add: pending_def carr_inv_def)
  with r e show ?thesis by (simp add: carr_dense_def Let_def s0_def carr_inv_def)
qed

end
