(* ===== verification/AssignmentPaths.thy ===== *)
theory AssignmentPaths
  imports AssignmentReduction
begin

text \<open>
  The search for a shortest augmenting path (\<open>find_path_dense\<close> with \<open>_find_dense\<close> and
  \<open>_scan_dense\<close>) and the augmentation: the distances, the levels and the tree of predecessors the
  search keeps, the prices it leaves, and the optimality of the assignment \<open>lapjv_internal\<close> returns.
\<close>

section \<open>The state of a search\<close>

text \<open>
  \<open>base\<close>: the columns in front of \<open>hi\<close> belong to rows; a distance is at most the reduced cost
  of the start row and is reached through the start row or through a column further in front.
\<close>

definition from_start :: "'f::linordered_field list list \<Rightarrow> 'f list \<Rightarrow> nat \<Rightarrow> nat list \<Rightarrow> 'f list \<Rightarrow> nat \<Rightarrow> bool" where
  "from_start cost v s pred d k \<longleftrightarrow> pred ! k = s \<and> d ! k = rc cost v s k"

definition via :: "'f::linordered_field list list \<Rightarrow> int list \<Rightarrow> 'f list \<Rightarrow> nat list \<Rightarrow> 'f list \<Rightarrow> nat \<Rightarrow> nat \<Rightarrow> bool" where
  "via cost y v pred d j k \<longleftrightarrow>
     pred ! k = nat (y ! j) \<and> d ! k = d ! j + rc cost v (nat (y ! j)) k - rc cost v (nat (y ! j)) j"

definition base ::
  "nat \<Rightarrow> 'f::linordered_field list list \<Rightarrow> int list \<Rightarrow> 'f list \<Rightarrow> nat \<Rightarrow> nat \<Rightarrow> nat list \<Rightarrow> 'f list \<Rightarrow> nat list \<Rightarrow> bool" where
  "base n cost y v s hi cols d pred \<longleftrightarrow>
     length cols = n \<and> set cols = {..<n} \<and> length d = n \<and> length pred = n \<and> hi \<le> n \<and>
     (\<forall>p<hi. 0 \<le> y ! (cols ! p)) \<and>
     (\<forall>k<n. d ! k \<le> rc cost v s k) \<and>
     (\<forall>q<n. from_start cost v s pred d (cols ! q) \<or> (\<exists>p<q. p < hi \<and> via cost y v pred d (cols ! p) (cols ! q)))"

text \<open>Column \<open>j\<close> has been scanned: no distance is longer than the way through \<open>j\<close>.\<close>

definition relaxed :: "nat \<Rightarrow> 'f::linordered_field list list \<Rightarrow> int list \<Rightarrow> 'f list \<Rightarrow> 'f list \<Rightarrow> nat \<Rightarrow> bool" where
  "relaxed n cost y v d j \<longleftrightarrow>
     (\<forall>k<n. d ! k \<le> d ! j + rc cost v (nat (y ! j)) k - rc cost v (nat (y ! j)) j)"

definition levels :: "nat \<Rightarrow> nat \<Rightarrow> nat \<Rightarrow> 'f::linordered_field \<Rightarrow> nat list \<Rightarrow> 'f list \<Rightarrow> bool" where
  "levels n nr hi mu cols d \<longleftrightarrow>
     (\<forall>p<hi. d ! (cols ! p) \<le> mu) \<and> (\<forall>p<n. nr \<le> p \<longrightarrow> mu \<le> d ! (cols ! p))"

lemma base_cols:
  assumes "base n cost y v s hi cols d pred"
  shows "length cols = n" "p < n \<Longrightarrow> cols ! p < n" "distinct cols" "k < n \<Longrightarrow> \<exists>p<n. cols ! p = k"
proof -
  show l: "length cols = n" using assms by (simp add: base_def)
  have s: "set cols = {..<n}" using assms by (simp add: base_def)
  show "p < n \<Longrightarrow> cols ! p < n" using l s by (metis lessThan_iff nth_mem)
  show "distinct cols" using l s by (intro card_distinct) simp
  show "k < n \<Longrightarrow> \<exists>p<n. cols ! p = k" using l s by (metis in_set_conv_nth lessThan_iff)
qed

lemma base_tree:
  assumes "base n cost y v s hi cols d pred" "q < n"
  shows "from_start cost v s pred d (cols ! q) \<or> (\<exists>p<q. p < hi \<and> via cost y v pred d (cols ! p) (cols ! q))"
  using assms unfolding base_def by blast

lemma base_simps:
  assumes "base n cost y v s hi cols d pred"
  shows "length d = n" "length pred = n" "hi \<le> n" "p < hi \<Longrightarrow> 0 \<le> y ! (cols ! p)" "k < n \<Longrightarrow> d ! k \<le> rc cost v s k"
  using assms unfolding base_def by blast+

text \<open>Two positions behind \<open>hi\<close> change places.\<close>

definition swap_at :: "nat \<Rightarrow> nat \<Rightarrow> 'a list \<Rightarrow> 'a list" where
  "swap_at k h xs = xs[k := xs ! h, h := xs ! k]"

definition flip :: "nat \<Rightarrow> nat \<Rightarrow> nat \<Rightarrow> nat" where
  "flip k h q = (if q = h then k else if q = k then h else q)"

lemma nth_swap_at: "k < length xs \<Longrightarrow> h < length xs \<Longrightarrow> q < length xs \<Longrightarrow> swap_at k h xs ! q = xs ! flip k h q"
  by (auto simp: swap_at_def flip_def nth_list_update)

lemma set_swap_at: "k < length xs \<Longrightarrow> h < length xs \<Longrightarrow> set (swap_at k h xs) = set xs"
  by (simp add: swap_at_def)

lemma length_swap_at [simp]: "length (swap_at k h xs) = length xs"
  by (simp add: swap_at_def)

lemma flip_props:
  "q < m \<Longrightarrow> m \<le> h \<Longrightarrow> m \<le> k \<Longrightarrow> flip k h q = q"
  "m \<le> q \<Longrightarrow> m \<le> h \<Longrightarrow> m \<le> k \<Longrightarrow> m \<le> flip k h q"
  "q < n \<Longrightarrow> h < n \<Longrightarrow> k < n \<Longrightarrow> flip k h q < n"
  by (auto simp: flip_def)

lemma base_swap:
  assumes b: "base n cost y v s hi cols d pred" and h: "hi \<le> h" "h < n" and k: "hi \<le> k" "k < n"
  shows "base n cost y v s hi (swap_at k h cols) d pred"
proof -
  note bs = base_simps [OF b] and l = base_cols(1) [OF b]
  have nth: "swap_at k h cols ! q = cols ! flip k h q" if "q < n" for q
    using that h k l by (simp add: nth_swap_at)
  have front: "swap_at k h cols ! p = cols ! p" if "p < hi" for p
    using that nth [of p] h k flip_props(1) [OF that h(1) k(1)] by simp
  have tree: "from_start cost v s pred d (swap_at k h cols ! q) \<or>
      (\<exists>p<q. p < hi \<and> via cost y v pred d (swap_at k h cols ! p) (swap_at k h cols ! q))" if q: "q < n" for q
  proof (cases "q < hi")
    case True
    with base_tree [OF b q] front show ?thesis by auto
  next
    case False
    then have "hi \<le> flip k h q" "flip k h q < n" using flip_props(2) [of hi q h k] flip_props(3) [OF q h(2) k(2)] h k by simp_all
    with base_tree [OF b this(2)] nth [OF q] front False show ?thesis by (metis less_le_trans not_le)
  qed
  have "set (swap_at k h cols) = {..<n}" using b h k l by (simp add: set_swap_at base_def)
  moreover have "\<forall>p<hi. 0 \<le> y ! (swap_at k h cols ! p)" using bs(4) front by simp
  ultimately show ?thesis using bs l tree unfolding base_def by simp
qed

lemma base_grow:
  assumes b: "base n cost y v s hi cols d pred" and h: "hi \<le> hi'" "hi' \<le> n"
    and a: "\<And>p. hi \<le> p \<Longrightarrow> p < hi' \<Longrightarrow> 0 \<le> y ! (cols ! p)"
  shows "base n cost y v s hi' cols d pred"
proof -
  have "0 \<le> y ! (cols ! p)" if "p < hi'" for p using base_simps(4) [OF b] a that by (cases "p < hi") auto
  moreover have "\<exists>p<q. p < hi' \<and> via cost y v pred d (cols ! p) (cols ! q)"
    if "\<exists>p<q. p < hi \<and> via cost y v pred d (cols ! p) (cols ! q)" for q
    using that h(1) by (meson less_le_trans)
  ultimately show ?thesis using b h(2) unfolding base_def by blast
qed

text \<open>A column behind \<open>hi\<close> gets a shorter distance through the scanned column.\<close>

lemma base_update:
  assumes b: "base n cost y v s hi cols d pred" and k: "hi \<le> k" "k < n" and lo: "lo < hi"
    and c: "c = d ! (cols ! lo) + rc cost v (nat (y ! (cols ! lo))) (cols ! k) - rc cost v (nat (y ! (cols ! lo))) (cols ! lo)"
    and le: "c \<le> d ! (cols ! k)"
  shows "base n cost y v s hi cols (d[cols ! k := c]) (pred[cols ! k := nat (y ! (cols ! lo))])"
proof -
  note bs = base_simps [OF b] and bc = base_cols [OF b]
  have ne: "cols ! q \<noteq> cols ! k" if "q < n" "q \<noteq> k" for q
    using that bc(1,3) k by (simp add: nth_eq_iff_index_eq)
  have j: "cols ! k < n" using bc(2) k by simp
  have start: "(d[cols ! k := c]) ! m \<le> rc cost v s m" if "m < n" for m
    using bs(5) [OF that] le bs(1) j by (cases "m = cols ! k") simp_all
  have tree: "from_start cost v s (pred[cols ! k := nat (y ! (cols ! lo))]) (d[cols ! k := c]) (cols ! q) \<or>
      (\<exists>p<q. p < hi \<and> via cost y v (pred[cols ! k := nat (y ! (cols ! lo))]) (d[cols ! k := c]) (cols ! p) (cols ! q))"
    if q: "q < n" for q
  proof (cases "q = k")
    case True
    have "cols ! lo \<noteq> cols ! k" using ne [of lo] lo k by simp
    then have "via cost y v (pred[cols ! k := nat (y ! (cols ! lo))]) (d[cols ! k := c]) (cols ! lo) (cols ! k)"
      using bs(1,2) j by (simp add: via_def c)
    with True lo k show ?thesis by (metis less_le_trans)
  next
    case False
    from base_tree [OF b q] show ?thesis
    proof (elim disjE exE conjE)
      assume "from_start cost v s pred d (cols ! q)"
      with ne [OF q False] show ?thesis by (simp add: from_start_def)
    next
      fix p assume p: "p < q" "p < hi" "via cost y v pred d (cols ! p) (cols ! q)"
      have "cols ! p \<noteq> cols ! k" using ne [of p] p k by simp
      with p(3) ne [OF q False]
      have "via cost y v (pred[cols ! k := nat (y ! (cols ! lo))]) (d[cols ! k := c]) (cols ! p) (cols ! q)"
        by (simp add: via_def)
      with p show ?thesis by blast
    qed
  qed
  show ?thesis using b start tree unfolding base_def by simp
qed

section \<open>The next columns at minimal distance\<close>

lemma find_step_swap:
  "find_step d lo k (hi, mind, cols) =
     (if d ! (cols ! k) < mind then (lo + 1, d ! (cols ! k), swap_at k lo cols)
      else if d ! (cols ! k) = mind then (hi + 1, mind, swap_at k hi cols)
      else (hi, mind, cols))"
  by (auto simp: find_step_def Let_def swap_at_def)

definition find_inv :: "nat \<Rightarrow> nat \<Rightarrow> 'f::linordered_field list \<Rightarrow> nat \<Rightarrow> nat \<times> 'f \<times> nat list \<Rightarrow> bool" where
  "find_inv n lo d k s = (case s of (hi, mind, cols) \<Rightarrow> lo < hi \<and> hi \<le> k \<and> d ! (cols ! lo) = mind \<and>
     (\<forall>p. lo \<le> p \<and> p < hi \<longrightarrow> d ! (cols ! p) = mind) \<and> (\<forall>p. lo \<le> p \<and> p < k \<longrightarrow> mind \<le> d ! (cols ! p)))"

lemma find_step_inv:
  assumes i: "find_inv n lo d k (hi, mind, cols)" and k: "k < n" "length cols = n"
    and e: "find_step d lo k (hi, mind, cols) = (hi', mind', cols')"
  shows "find_inv n lo d (Suc k) (hi', mind', cols')"
    and "\<exists>h. lo \<le> h \<and> h \<le> k \<and> (cols' = swap_at k h cols \<or> cols' = cols)"
proof -
  have iv: "lo < hi" "hi \<le> k" "d ! (cols ! lo) = mind"
    "\<And>p. lo \<le> p \<Longrightarrow> p < hi \<Longrightarrow> d ! (cols ! p) = mind" "\<And>p. lo \<le> p \<Longrightarrow> p < k \<Longrightarrow> mind \<le> d ! (cols ! p)"
    using i by (auto simp: find_inv_def)
  have nth: "swap_at k h cols ! p = cols ! flip k h p" if "h \<le> k" "p \<le> k" for h p
    using that k by (simp add: nth_swap_at)
  consider "d ! (cols ! k) < mind" | "d ! (cols ! k) = mind" | "mind < d ! (cols ! k)" by linarith
  then have "find_inv n lo d (Suc k) (hi', mind', cols') \<and> (\<exists>h. lo \<le> h \<and> h \<le> k \<and> (cols' = swap_at k h cols \<or> cols' = cols))"
  proof cases
    case 1
    then have r: "hi' = lo + 1" "mind' = d ! (cols ! k)" "cols' = swap_at k lo cols"
      using e by (simp_all add: find_step_swap)
    have "d ! (cols' ! p) = mind'" if "p = lo" for p using nth [of lo p] that iv r by (simp add: flip_def)
    moreover have "mind' \<le> d ! (cols' ! p)" if "lo \<le> p" "p \<le> k" for p
    proof (cases "flip k lo p = k")
      case True
      then show ?thesis using nth [of lo p] that iv r by simp
    next
      case False
      then have "lo \<le> flip k lo p" "flip k lo p < k" using that iv by (auto simp: flip_def split: if_splits)
      then show ?thesis using nth [of lo p] that iv(1,2) iv(5) [of "flip k lo p"] r 1 by simp
    qed
    ultimately show ?thesis using iv r unfolding find_inv_def prod.case by (auto simp: less_Suc_eq_le)
  next
    case 2
    then have r: "hi' = hi + 1" "mind' = mind" "cols' = swap_at k hi cols"
      using e by (simp_all add: find_step_swap)
    have a: "d ! (cols' ! p) = mind" if "lo \<le> p" "p \<le> hi" for p
    proof (cases "p = hi")
      case True
      then show ?thesis using nth [of hi p] iv 2 r by (simp add: flip_def)
    next
      case False
      then have "flip k hi p = p" using that iv by (simp add: flip_def)
      then show ?thesis using nth [of hi p] iv that False r by simp
    qed
    moreover have "mind \<le> d ! (cols' ! p)" if "lo \<le> p" "p \<le> k" for p
    proof (cases "flip k hi p = k")
      case True
      then show ?thesis using nth [of hi p] that iv r 2 by simp
    next
      case False
      then have "lo \<le> flip k hi p" "flip k hi p < k" using that iv by (auto simp: flip_def split: if_splits)
      then show ?thesis using nth [of hi p] that iv(1,2) iv(5) [of "flip k hi p"] r by simp
    qed
    ultimately show ?thesis using iv r unfolding find_inv_def prod.case by (auto simp: less_Suc_eq_le intro!: exI [of _ hi])
  next
    case 3
    then have "hi' = hi" "mind' = mind" "cols' = cols" using e by (simp_all add: find_step_swap)
    with 3 iv show ?thesis unfolding find_inv_def prod.case by (auto simp: less_Suc_eq intro!: exI [of _ lo])
  qed
  then show "find_inv n lo d (Suc k) (hi', mind', cols')"
    and "\<exists>h. lo \<le> h \<and> h \<le> k \<and> (cols' = swap_at k h cols \<or> cols' = cols)" by simp_all
qed

lemma find_dense_spec:
  assumes b: "base n cost y v s lo cols d pred" and lo: "lo < n" and e: "find_dense n lo d cols = (hi, cols')"
  shows "base n cost y v s lo cols' d pred" "\<And>p. p < lo \<Longrightarrow> cols' ! p = cols ! p" "lo < hi" "hi \<le> n"
    and "\<And>p. lo \<le> p \<Longrightarrow> p < hi \<Longrightarrow> d ! (cols' ! p) = d ! (cols' ! lo)"
    and "\<And>p. lo \<le> p \<Longrightarrow> p < n \<Longrightarrow> d ! (cols' ! lo) \<le> d ! (cols' ! p)"
proof -
  have I: "fold (find_step d lo) [lo + 1..<k] (lo + 1, d ! (cols ! lo), cols) = (hi, mind, cols') \<Longrightarrow>
      find_inv n lo d k (hi, mind, cols') \<and> base n cost y v s lo cols' d pred \<and> (\<forall>p<lo. cols' ! p = cols ! p)"
    if "lo + 1 \<le> k" "k \<le> n" for k hi mind cols'
    using that
  proof (induction arbitrary: hi mind cols' rule: dec_induct)
    case base
    then have "hi = lo + 1 \<and> mind = d ! (cols ! lo) \<and> cols' = cols" by auto
    with b show ?case by (auto simp: find_inv_def less_Suc_eq_le le_less_Suc_eq)
  next
    case (step k)
    obtain h1 m1 c1 where f: "fold (find_step d lo) [lo + 1..<k] (lo + 1, d ! (cols ! lo), cols) = (h1, m1, c1)"
      by (metis prod_cases3)
    from step.IH [OF f] step.prems have IH: "find_inv n lo d k (h1, m1, c1)" "base n cost y v s lo c1 d pred"
      "\<forall>p<lo. c1 ! p = cols ! p" by simp_all
    have k: "k < n" using step.prems by simp
    have st: "find_step d lo k (h1, m1, c1) = (hi, mind, cols')"
      using step.prems step.hyps(1) f by simp
    note fs = find_step_inv [OF IH(1) k base_cols(1) [OF IH(2)] st]
    then obtain h where h: "lo \<le> h" "h \<le> k" "cols' = swap_at k h c1 \<or> cols' = c1" by blast
    have "base n cost y v s lo cols' d pred"
      using h IH(2) k base_swap [OF IH(2) h(1), of k] by auto
    moreover have "cols' ! p = cols ! p" if "p < lo" for p
    proof -
      have "swap_at k h c1 ! p = c1 ! p"
        using that h k base_cols(1) [OF IH(2)] by (simp add: nth_swap_at flip_def)
      with h(3) IH(3) that show ?thesis by auto
    qed
    ultimately show ?case using fs(1) by simp
  qed
  obtain mind where f: "fold (find_step d lo) [lo + 1..<n] (lo + 1, d ! (cols ! lo), cols) = (hi, mind, cols')"
    using e unfolding find_dense_def by (auto split: prod.splits)
  have R: "find_inv n lo d n (hi, mind, cols') \<and> base n cost y v s lo cols' d pred \<and> (\<forall>p<lo. cols' ! p = cols ! p)"
    using lo by (intro I [OF _ _ f]) simp_all
  then show "base n cost y v s lo cols' d pred" "\<And>p. p < lo \<Longrightarrow> cols' ! p = cols ! p" "lo < hi" "hi \<le> n"
    and "\<And>p. lo \<le> p \<Longrightarrow> p < hi \<Longrightarrow> d ! (cols' ! p) = d ! (cols' ! lo)"
    and "\<And>p. lo \<le> p \<Longrightarrow> p < n \<Longrightarrow> d ! (cols' ! lo) \<le> d ! (cols' ! p)"
    unfolding find_inv_def prod.case by blast+
qed

section \<open>Scanning\<close>

text \<open>The search has found the free column \<open>j\<close>; the columns in front of \<open>nr\<close> are ready.\<close>

definition found ::
  "nat \<Rightarrow> 'f::linordered_field list list \<Rightarrow> int list \<Rightarrow> 'f list \<Rightarrow> nat \<Rightarrow> nat \<Rightarrow> nat \<Rightarrow> nat list \<Rightarrow> 'f list \<Rightarrow> nat list \<Rightarrow> bool" where
  "found n cost y v s nr j cols d pred \<longleftrightarrow>
     (\<exists>hi. base n cost y v s hi cols d pred \<and> levels n nr hi (d ! (cols ! nr)) cols d \<and> nr \<le> hi \<and>
           (\<forall>p<nr. relaxed n cost y v d (cols ! p)) \<and> j < n \<and> y ! j < 0 \<and> d ! j \<le> d ! (cols ! nr))"

definition scan_inv ::
  "nat \<Rightarrow> 'f::linordered_field list list \<Rightarrow> int list \<Rightarrow> 'f list \<Rightarrow> nat \<Rightarrow> nat \<Rightarrow> 'f search \<Rightarrow> bool" where
  "scan_inv n cost y v s nr S \<longleftrightarrow>
     base n cost y v s (se_hi S) (se_cols S) (se_d S) (se_pred S) \<and>
     levels n nr (se_hi S) (se_d S ! (se_cols S ! nr)) (se_cols S) (se_d S) \<and>
     nr \<le> se_lo S \<and> se_lo S \<le> se_hi S \<and> nr < se_hi S \<and>
     (\<forall>p < se_lo S. relaxed n cost y v (se_d S) (se_cols S ! p))"

text \<open>In the middle of the scan of the column at \<open>lo\<close>: the positions in front of \<open>k\<close> are treated.\<close>

definition todo_inv ::
  "nat \<Rightarrow> 'f::linordered_field list list \<Rightarrow> int list \<Rightarrow> 'f list \<Rightarrow> nat \<Rightarrow> nat \<Rightarrow> nat \<Rightarrow> nat \<Rightarrow> 'f search \<Rightarrow> bool" where
  "todo_inv n cost y v s nr lo k S \<longleftrightarrow>
     base n cost y v s (se_hi S) (se_cols S) (se_d S) (se_pred S) \<and>
     levels n nr (se_hi S) (se_d S ! (se_cols S ! nr)) (se_cols S) (se_d S) \<and>
     nr \<le> lo \<and> lo < se_hi S \<and> se_hi S \<le> k \<and> (\<forall>p<lo. relaxed n cost y v (se_d S) (se_cols S ! p)) \<and>
     (\<forall>q<k. se_d S ! (se_cols S ! q) \<le> se_d S ! (se_cols S ! lo) + rc cost v (nat (y ! (se_cols S ! lo))) (se_cols S ! q)
              - rc cost v (nat (y ! (se_cols S ! lo))) (se_cols S ! lo))"

lemma levels_at:
  "levels n nr hi mu cols d \<Longrightarrow> nr \<le> p \<Longrightarrow> p < hi \<Longrightarrow> hi \<le> n \<Longrightarrow> d ! (cols ! p) = mu"
  by (auto simp: levels_def intro: antisym)

lemma relaxed_update:
  assumes "relaxed n cost y v d j" "j \<noteq> k" "c \<le> d ! k"
  shows "relaxed n cost y v (d[k := c]) j"
proof -
  have "(d[k := c]) ! m \<le> d ! m" for m
    using assms(3) by (cases "m = k"; cases "k < length d") (simp_all add: list_update_beyond)
  with assms show ?thesis unfolding relaxed_def by (auto intro: order_trans)
qed

text \<open>Steps of the inner loop: a column is skipped, its distance is lowered, it moves to the front.\<close>

lemma todo_skip:
  assumes "todo_inv n cost y v s nr lo k S"
    and "se_d S ! (se_cols S ! k) \<le> rc cost v (nat (y ! (se_cols S ! lo))) (se_cols S ! k)
           - (rc cost v (nat (y ! (se_cols S ! lo))) (se_cols S ! lo) - se_d S ! (se_cols S ! lo))"
  shows "todo_inv n cost y v s nr lo (Suc k) S"
  using assms unfolding todo_inv_def by (auto simp: less_Suc_eq algebra_simps)

lemma todo_lower:
  assumes t: "todo_inv n cost y v s nr lo k S" and k: "k < n"
    and tg: "tight n cost v (nat (y ! (se_cols S ! lo))) (se_cols S ! lo)"
    and c: "c = rc cost v (nat (y ! (se_cols S ! lo))) (se_cols S ! k)
           - (rc cost v (nat (y ! (se_cols S ! lo))) (se_cols S ! lo) - se_d S ! (se_cols S ! lo))"
    and less: "c < se_d S ! (se_cols S ! k)"
  defines "S' \<equiv> S\<lparr>se_d := (se_d S)[se_cols S ! k := c], se_pred := (se_pred S)[se_cols S ! k := nat (y ! (se_cols S ! lo))]\<rparr>"
  shows "todo_inv n cost y v s nr lo (Suc k) S'" "se_d S ! (se_cols S ! lo) \<le> c" "se_d S' ! (se_cols S ! nr) = se_d S ! (se_cols S ! nr)"
    and "se_d S' ! (se_cols S ! k) = c"
proof -
  define cols d pred hi where defs: "cols = se_cols S" "d = se_d S" "pred = se_pred S" "hi = se_hi S"
  define i where "i = nat (y ! (cols ! lo))"
  have b: "base n cost y v s hi cols d pred" and lv: "levels n nr hi (d ! (cols ! nr)) cols d"
    and ord: "nr \<le> lo" "lo < hi" "hi \<le> k" and rel: "\<And>p. p < lo \<Longrightarrow> relaxed n cost y v d (cols ! p)"
    and part: "\<And>q. q < k \<Longrightarrow> d ! (cols ! q) \<le> d ! (cols ! lo) + rc cost v i (cols ! q) - rc cost v i (cols ! lo)"
    using t unfolding todo_inv_def by (simp_all add: defs i_def)
  note bc = base_cols [OF b] and bs = base_simps [OF b]
  have j: "cols ! k < n" using bc(2) k .
  have ne: "cols ! q \<noteq> cols ! k" if "q < n" "q \<noteq> k" for q
    using that bc(1,3) k by (simp add: nth_eq_iff_index_eq)
  have c': "c = d ! (cols ! lo) + rc cost v i (cols ! k) - rc cost v i (cols ! lo)"
    using c by (simp add: defs i_def)
  have low: "d ! (cols ! lo) \<le> c"
    using tightD [OF tg, of "cols ! k"] j by (simp add: c' defs i_def)
  then show "se_d S ! (se_cols S ! lo) \<le> c" by (simp add: defs)
  have keep: "(d[cols ! k := c]) ! (cols ! q) = d ! (cols ! q)" if "q < n" "q \<noteq> k" for q
    using ne [OF that] by simp
  have S': "se_cols S' = cols" "se_d S' = d[cols ! k := c]" "se_pred S' = pred[cols ! k := i]" "se_hi S' = hi"
    by (simp_all add: S'_def defs i_def)
  have at: "(d[cols ! k := c]) ! (cols ! k) = c" using j bs(1) by simp
  have nk: "nr < n" "nr \<noteq> k" "lo < n" "lo \<noteq> k" using ord k by simp_all
  show "se_d S' ! (se_cols S ! nr) = se_d S ! (se_cols S ! nr)"
    using keep [OF nk(1,2)] unfolding S'(2) by (simp add: defs)
  show "se_d S' ! (se_cols S ! k) = c" using at by (simp add: S'(2)) (simp add: defs)
  have le: "c \<le> d ! (cols ! k)" using less by (simp add: defs)
  have "base n cost y v s hi cols (d[cols ! k := c]) (pred[cols ! k := i])"
    unfolding i_def by (rule base_update [OF b ord(3) k ord(2) _ le]) (simp add: c' i_def)
  moreover have mu: "d ! (cols ! lo) = d ! (cols ! nr)" using levels_at [OF lv ord(1,2) bs(3)] .
  have "levels n nr hi (d ! (cols ! nr)) cols (d[cols ! k := c])"
    unfolding levels_def
  proof (intro conjI allI impI)
    fix p assume p: "p < hi"
    then have "p < n" "p \<noteq> k" using ord k by simp_all
    with lv p keep show "d[cols ! k := c] ! (cols ! p) \<le> d ! (cols ! nr)" by (simp add: levels_def)
  next
    fix p assume p: "p < n" "nr \<le> p"
    show "d ! (cols ! nr) \<le> d[cols ! k := c] ! (cols ! p)"
    proof (cases "p = k")
      case True
      with at low mu show ?thesis by simp
    next
      case False
      with lv p keep show ?thesis by (simp add: levels_def)
    qed
  qed
  moreover have "relaxed n cost y v (d[cols ! k := c]) (cols ! p)" if "p < lo" for p
    using relaxed_update [OF rel [OF that] _ le] ne [of p] that ord k by simp
  moreover have "(d[cols ! k := c]) ! (cols ! q) \<le> (d[cols ! k := c]) ! (cols ! lo) + rc cost v i (cols ! q) - rc cost v i (cols ! lo)"
    if "q < Suc k" for q
  proof (cases "q = k")
    case True
    then show ?thesis using keep [OF nk(3,4)] at by (simp add: c')
  next
    case False
    with that have q: "q < k" "q < n" using k by simp_all
    then show ?thesis using keep [OF nk(3,4)] keep [OF q(2) False] part [OF q(1)] by simp
  qed
  ultimately show "todo_inv n cost y v s nr lo (Suc k) S'"
    using ord keep [OF nk(1,2)] unfolding todo_inv_def S' by (simp add: i_def)
qed

lemma todo_front:
  assumes t: "todo_inv n cost y v s nr lo (Suc k) S" and k: "k < n" "se_hi S \<le> k"
    and a: "0 \<le> y ! (se_cols S ! k)" and d: "se_d S ! (se_cols S ! k) = se_d S ! (se_cols S ! nr)"
  shows "todo_inv n cost y v s nr lo (Suc k) (S\<lparr>se_cols := swap_at k (se_hi S) (se_cols S), se_hi := se_hi S + 1\<rparr>)"
proof -
  define cols d pred hi where defs: "cols = se_cols S" "d = se_d S" "pred = se_pred S" "hi = se_hi S"
  define i where "i = nat (y ! (cols ! lo))"
  have b: "base n cost y v s hi cols d pred" and lv: "levels n nr hi (d ! (cols ! nr)) cols d"
    and ord: "nr \<le> lo" "lo < hi" "hi \<le> Suc k" and rel: "\<And>p. p < lo \<Longrightarrow> relaxed n cost y v d (cols ! p)"
    and part: "\<And>q. q < Suc k \<Longrightarrow> d ! (cols ! q) \<le> d ! (cols ! lo) + rc cost v i (cols ! q) - rc cost v i (cols ! lo)"
    using t unfolding todo_inv_def by (simp_all add: defs i_def)
  have hk: "hi \<le> k" using k by (simp add: defs)
  note bc = base_cols [OF b]
  define cols' where "cols' = swap_at k hi cols"
  have nth: "cols' ! q = cols ! flip k hi q" if "q < n" for q
    using that hk k bc(1) by (simp add: cols'_def nth_swap_at)
  have front: "cols' ! p = cols ! p" if "p < hi" for p
    using that nth [of p] hk k(1) by (simp add: flip_def)
  have hi: "cols' ! hi = cols ! k" using nth [of hi] hk k(1) by (simp add: flip_def)
  have b1: "base n cost y v s hi cols' d pred"
    unfolding cols'_def using hk k(1) by (intro base_swap [OF b]) simp_all
  have "0 \<le> y ! (cols' ! p)" if "hi \<le> p" "p < hi + 1" for p
    using that hi a by (simp add: le_less_Suc_eq defs)
  then have b2: "base n cost y v s (hi + 1) cols' d pred"
    using hk k(1) by (intro base_grow [OF b1]) simp_all
  have dk: "d ! (cols ! k) = d ! (cols ! nr)" using d by (simp add: defs)
  have "levels n nr (hi + 1) (d ! (cols ! nr)) cols' d"
    unfolding levels_def
  proof (intro conjI allI impI)
    fix p assume "p < hi + 1"
    then show "d ! (cols' ! p) \<le> d ! (cols ! nr)"
      using lv front hi dk by (cases "p = hi") (auto simp: levels_def)
  next
    fix p assume p: "p < n" "nr \<le> p"
    then have "flip k hi p < n" "nr \<le> flip k hi p" using hk k(1) ord by (auto simp: flip_def)
    with lv nth [OF p(1)] show "d ! (cols ! nr) \<le> d ! (cols' ! p)" by (simp add: levels_def)
  qed
  moreover have "relaxed n cost y v d (cols' ! p)" if "p < lo" for p
    using rel [OF that] front [of p] that ord by simp
  moreover have "d ! (cols' ! q) \<le> d ! (cols' ! lo) + rc cost v i (cols' ! q) - rc cost v i (cols' ! lo)"
    if "q < Suc k" for q
  proof -
    have "q < n" "flip k hi q < Suc k" using that k(1) hk by (auto simp: flip_def)
    then show ?thesis using part [of "flip k hi q"] nth [of q] front [OF ord(2)] by simp
  qed
  moreover have "cols' ! nr = cols ! nr" "cols' ! lo = cols ! lo" using front ord by simp_all
  ultimately show ?thesis
    using b2 ord hk unfolding todo_inv_def by (simp add: defs [symmetric] cols'_def [symmetric] i_def)
qed

lemma scan_todo_spec:
  assumes "todo_inv n cost y v s nr lo k S" and "k \<le> n"
    and y: "length y = n"
    and i: "i = nat (y ! (se_cols S ! lo))" and mu: "mu = se_d S ! (se_cols S ! lo)"
    and h: "h = rc cost v i (se_cols S ! lo) - mu"
    and tg: "tight n cost v i (se_cols S ! lo)"
    and e: "scan_todo (cost ! i) v y i h mu [k..<n] S = (r, S')"
  shows "(r = None \<longrightarrow> todo_inv n cost y v s nr lo n S' \<and> se_hi S \<le> se_hi S') \<and>
         (\<forall>j. r = Some j \<longrightarrow> found n cost y v s nr j (se_cols S') (se_d S') (se_pred S'))"
  using assms
proof (induction "n - k" arbitrary: k S)
  case 0
  then have "k = n" by simp
  with 0 show ?case by simp
next
  case (Suc m)
  then have k: "k < n" by simp
  define j where "j = se_cols S ! k"
  define c where "c = cost ! i ! j - v ! j - h"
  define S1 where "S1 = S\<lparr>se_d := (se_d S)[j := c], se_pred := (se_pred S)[j := i]\<rparr>"
  have ks: "[k..<n] = k # [Suc k..<n]" using k by (simp add: upt_rec)
  have t: "todo_inv n cost y v s nr lo k S" using Suc.prems(1) .
  have b: "base n cost y v s (se_hi S) (se_cols S) (se_d S) (se_pred S)"
    and lv: "levels n nr (se_hi S) (se_d S ! (se_cols S ! nr)) (se_cols S) (se_d S)"
    and ord: "nr \<le> lo" "lo < se_hi S" "se_hi S \<le> k"
    using t by (simp_all add: todo_inv_def)
  have mun: "mu = se_d S ! (se_cols S ! nr)"
    unfolding Suc.prems(5) using ord k by (intro levels_at [OF lv]) simp_all
  have "scan_todo (cost ! i) v y i h mu [k..<n] S = (if c < se_d S ! j then
         (if c = mu then
            (if y ! j < 0 then (Some j, S1)
             else scan_todo (cost ! i) v y i h mu [Suc k..<n]
                   (S1\<lparr>se_cols := swap_at k (se_hi S) (se_cols S), se_hi := se_hi S + 1\<rparr>))
          else scan_todo (cost ! i) v y i h mu [Suc k..<n] S1)
       else scan_todo (cost ! i) v y i h mu [Suc k..<n] S)"
    unfolding ks scan_todo.simps(2) Let_def S1_def c_def j_def swap_at_def by (rule refl)
  note e = this [symmetric, unfolded Suc.prems(8)]
  have c: "c = rc cost v (nat (y ! (se_cols S ! lo))) (se_cols S ! k)
           - (rc cost v (nat (y ! (se_cols S ! lo))) (se_cols S ! lo) - se_d S ! (se_cols S ! lo))"
    by (simp add: c_def j_def Suc.prems(4,5,6))
  have S1: "S1 = S\<lparr>se_d := (se_d S)[se_cols S ! k := c], se_pred := (se_pred S)[se_cols S ! k := nat (y ! (se_cols S ! lo))]\<rparr>"
    by (simp add: S1_def j_def Suc.prems(4))
  have tg: "tight n cost v (nat (y ! (se_cols S ! lo))) (se_cols S ! lo)" using Suc.prems(4,7) by simp
  have m: "m = n - Suc k" "Suc k \<le> n" using Suc.hyps(2) k by simp_all
  show ?case
  proof (cases "c < se_d S ! j")
    case False
    then have "todo_inv n cost y v s nr lo (Suc k) S"
      by (intro todo_skip [OF t]) (simp add: c j_def)
    moreover have "scan_todo (cost ! i) v y i h mu [Suc k..<n] S = (r, S')" using e False by simp
    ultimately show ?thesis using Suc.prems by (intro Suc.hyps(1) [OF m(1) _ m(2)])
  next
    case True
    note tl = todo_lower [OF t k tg c True [unfolded j_def], folded S1]
    have lo: "se_cols S1 = se_cols S" "se_hi S1 = se_hi S" by (simp_all add: S1_def)
    have "todo_inv n cost y v s nr lo (Suc k) S1" by (rule tl(1))
    have ck: "se_cols S ! lo \<noteq> j"
      using base_cols(1,3) [OF b] ord k by (simp add: j_def nth_eq_iff_index_eq)
    have mu1: "mu = se_d S1 ! (se_cols S1 ! lo)" using ck by (simp add: S1_def Suc.prems(5))
    have nr1: "se_d S1 ! (se_cols S1 ! nr) = mu" using tl(3) mun lo by simp
    show ?thesis
    proof (cases "c = mu")
      case False
      with e True have "scan_todo (cost ! i) v y i h mu [Suc k..<n] S1 = (r, S')" by simp
      from Suc.hyps(1) [OF m(1) tl(1) m(2) y _ mu1 _ _ this] Suc.prems(4,6,7) lo
      show ?thesis by simp
    next
      case eq: True
      show ?thesis
      proof (cases "y ! j < 0")
        case free: True
        with e True eq have r: "r = Some j" "S' = S1" by simp_all
        have b1: "base n cost y v s (se_hi S1) (se_cols S1) (se_d S1) (se_pred S1)"
          "levels n nr (se_hi S1) (se_d S1 ! (se_cols S1 ! nr)) (se_cols S1) (se_d S1)"
          "\<forall>p<lo. relaxed n cost y v (se_d S1) (se_cols S1 ! p)"
          using tl(1) by (simp_all add: todo_inv_def)
        have "j < n" using base_cols(2) [OF b k] by (simp add: j_def)
        moreover have "se_d S1 ! j \<le> se_d S1 ! (se_cols S1 ! nr)" using tl(4) nr1 eq by (simp add: j_def)
        moreover have "nr \<le> se_hi S1" using ord lo by simp
        ultimately have "found n cost y v s nr j (se_cols S1) (se_d S1) (se_pred S1)"
          unfolding found_def using b1 free ord(1) by (meson less_le_trans)
        with r show ?thesis by simp
      next
        case False
        define S2 where "S2 = S1\<lparr>se_cols := swap_at k (se_hi S1) (se_cols S1), se_hi := se_hi S1 + 1\<rparr>"
        have e2: "scan_todo (cost ! i) v y i h mu [Suc k..<n] S2 = (r, S')"
          using e True eq False lo unfolding S2_def by simp
        have t2: "todo_inv n cost y v s nr lo (Suc k) S2"
          unfolding S2_def
        proof (rule todo_front [OF tl(1) k])
          show "se_hi S1 \<le> k" using ord lo by simp
          show "0 \<le> y ! (se_cols S1 ! k)" using False lo by (simp add: j_def)
          show "se_d S1 ! (se_cols S1 ! k) = se_d S1 ! (se_cols S1 ! nr)" using tl(4) nr1 eq lo by simp
        qed
        have "swap_at k (se_hi S1) (se_cols S1) ! lo = se_cols S ! lo"
          using base_cols(1) [OF b] lo k ord by (simp add: nth_swap_at flip_def)
        then have lo2: "se_cols S2 ! lo = se_cols S ! lo" "se_d S2 = se_d S1" "se_hi S \<le> se_hi S2"
          using lo by (simp_all add: S2_def)
        have "mu = se_d S2 ! (se_cols S2 ! lo)" using mu1 lo2 lo by simp
        from Suc.hyps(1) [OF m(1) t2 m(2) y _ this _ _ e2] Suc.prems(4,6,7) lo2
        show ?thesis by auto
      qed
    qed
  qed
qed

lemma todo_start:
  assumes s: "scan_inv n cost y v s nr S" and lo: "se_lo S < se_hi S"
    and tg: "tight n cost v (nat (y ! (se_cols S ! se_lo S))) (se_cols S ! se_lo S)"
  shows "todo_inv n cost y v s nr (se_lo S) (se_hi S) (S\<lparr>se_lo := x\<rparr>)"
proof -
  define j where "j = se_cols S ! se_lo S"
  have b: "base n cost y v s (se_hi S) (se_cols S) (se_d S) (se_pred S)"
    and lv: "levels n nr (se_hi S) (se_d S ! (se_cols S ! nr)) (se_cols S) (se_d S)"
    and ord: "nr \<le> se_lo S" "se_lo S \<le> se_hi S" "nr < se_hi S"
    and rel: "\<forall>p < se_lo S. relaxed n cost y v (se_d S) (se_cols S ! p)"
    using s by (simp_all add: scan_inv_def)
  have hn: "se_hi S \<le> n" using base_simps(3) [OF b] .
  have "se_d S ! (se_cols S ! q) \<le> se_d S ! j + rc cost v (nat (y ! j)) (se_cols S ! q) - rc cost v (nat (y ! j)) j"
    if q: "q < se_hi S" for q
  proof -
    have "se_d S ! (se_cols S ! q) \<le> se_d S ! (se_cols S ! nr)" using lv q by (simp add: levels_def)
    moreover have "se_d S ! j = se_d S ! (se_cols S ! nr)"
      unfolding j_def using levels_at [OF lv ord(1) lo hn] .
    moreover have "rc cost v (nat (y ! j)) j \<le> rc cost v (nat (y ! j)) (se_cols S ! q)"
      unfolding j_def using base_cols(2) [OF b] q hn by (intro tightD [OF tg]) simp
    ultimately show ?thesis by linarith
  qed
  then show ?thesis using b lv ord lo rel unfolding todo_inv_def by (simp add: j_def)
qed

lemma scan_dense_spec:
  fixes cost :: "'f::linordered_field list list"
  assumes "scan_inv n cost y v s nr S" and y: "length y = n"
    and tg: "\<And>j. j < n \<Longrightarrow> 0 \<le> y ! j \<Longrightarrow> tight n cost v (nat (y ! j)) j"
  shows "\<exists>r S'. scan_dense n cost y v S = Some (r, S') \<and>
           (r = None \<longrightarrow> scan_inv n cost y v s nr S' \<and> se_lo S' = se_hi S' \<and> se_hi S \<le> se_hi S') \<and>
           (\<forall>j. r = Some j \<longrightarrow> found n cost y v s nr j (se_cols S') (se_d S') (se_pred S'))"
  using assms
proof (induction n cost y v S rule: scan_dense.induct)
  case (1 n cost y v S)
  have b: "base n cost y v s (se_hi S) (se_cols S) (se_d S) (se_pred S)" and ord: "se_lo S \<le> se_hi S"
    using 1(2) by (simp_all add: scan_inv_def)
  note bs = base_simps [OF b] and bc = base_cols [OF b]
  show ?case
  proof (cases "se_lo S = se_hi S")
    case True
    with 1(2) show ?thesis by (subst scan_dense.simps) simp
  next
    case False
    define j where "j = se_cols S ! se_lo S"
    define i where "i = nat (y ! j)"
    define mu where "mu = se_d S ! j"
    define h where "h = cost ! i ! j - v ! j - mu"
    define r where "r = scan_todo (cost ! i) v y i h mu [se_hi S..<n] (S\<lparr>se_lo := se_lo S + 1\<rparr>)"
    have lt: "se_lo S < se_hi S" using False ord by simp
    then have lon: "se_lo S < n" using bs(3) by simp
    have a: "0 \<le> y ! j" unfolding j_def using bs(4) lt .
    have jn: "j < n" unfolding j_def using bc(2) lon .
    have ti: "tight n cost v i j" unfolding i_def using 1(4) [OF jn a] .
    have e: "scan_dense n cost y v S = (if fst r \<noteq> None then Some r else scan_dense n cost y v (snd r))"
      using False lon a unfolding r_def h_def mu_def i_def j_def
      by (subst scan_dense.simps) (simp add: Let_def)
    have t: "todo_inv n cost y v s nr (se_lo S) (se_hi S) (S\<lparr>se_lo := se_lo S + 1\<rparr>)"
      using todo_start [OF 1(2) lt] ti by (simp add: i_def j_def)
    obtain r0 S1 where r0: "scan_todo (cost ! i) v y i h mu [se_hi S..<n] (S\<lparr>se_lo := se_lo S + 1\<rparr>) = (r0, S1)" by fastforce
    have sp: "(r0 = None \<longrightarrow> todo_inv n cost y v s nr (se_lo S) n S1 \<and> se_hi (S\<lparr>se_lo := se_lo S + 1\<rparr>) \<le> se_hi S1) \<and>
         (\<forall>j. r0 = Some j \<longrightarrow> found n cost y v s nr j (se_cols S1) (se_d S1) (se_pred S1))"
      by (rule scan_todo_spec [OF t bs(3) 1(3) _ _ _ _ r0]) (simp_all add: i_def j_def mu_def h_def ti [unfolded i_def j_def])
    have r: "r = (r0, S1)" unfolding r_def by (rule r0)
    have lo1: "se_lo S1 = se_lo S + 1"
      using arg_cong [OF r0, of "\<lambda>p. se_lo (snd p)"] by simp
    show ?thesis
    proof (cases r0)
      case (Some k)
      with e r sp show ?thesis by auto
    next
      case None
      with sp have t1: "todo_inv n cost y v s nr (se_lo S) n S1" "se_hi S \<le> se_hi S1" by simp_all
      have b1: "base n cost y v s (se_hi S1) (se_cols S1) (se_d S1) (se_pred S1)" using t1(1) by (simp add: todo_inv_def)
      have "relaxed n cost y v (se_d S1) (se_cols S1 ! se_lo S)"
        unfolding relaxed_def
      proof (intro allI impI)
        fix k assume "k < n"
        then obtain q where "q < n" "se_cols S1 ! q = k" using base_cols(4) [OF b1] by blast
        with t1(1) show "se_d S1 ! k \<le> se_d S1 ! (se_cols S1 ! se_lo S) + rc cost v (nat (y ! (se_cols S1 ! se_lo S))) k -
            rc cost v (nat (y ! (se_cols S1 ! se_lo S))) (se_cols S1 ! se_lo S)"
          unfolding todo_inv_def by blast
      qed
      with t1(1) lt t1(2) lo1 have si: "scan_inv n cost y v s nr S1"
        unfolding todo_inv_def scan_inv_def by (auto simp: less_Suc_eq)
      from e r None have e1: "scan_dense n cost y v S = scan_dense n cost y v S1" by simp
      have "\<exists>r S'. scan_dense n cost y v S1 = Some (r, S') \<and>
           (r = None \<longrightarrow> scan_inv n cost y v s nr S' \<and> se_lo S' = se_hi S' \<and> se_hi S1 \<le> se_hi S') \<and>
           (\<forall>j. r = Some j \<longrightarrow> found n cost y v s nr j (se_cols S') (se_d S') (se_pred S'))"
        using 1(1) [OF False _ j_def i_def mu_def h_def _ r_def] lon a r None si 1(3,4) by (simp add: not_le not_less)
      with e1 t1(2) show ?thesis by (metis order_trans)
    qed
  qed
qed

section \<open>The search finds a free column\<close>

lemma first_free_spec:
  "first_free y cols lo hi = Some j \<Longrightarrow> \<exists>p. lo \<le> p \<and> p < hi \<and> cols ! p = j \<and> y ! j < 0"
  "first_free y cols lo hi = None \<Longrightarrow> lo \<le> p \<Longrightarrow> p < hi \<Longrightarrow> 0 \<le> y ! (cols ! p)"
proof -
  have I: "(\<forall>j. first_free y cols lo hi = Some j \<longrightarrow> (\<exists>p. lo \<le> p \<and> p < hi \<and> cols ! p = j \<and> y ! j < 0)) \<and>
      (first_free y cols lo hi = None \<longrightarrow> (\<forall>p. lo \<le> p \<and> p < hi \<longrightarrow> 0 \<le> y ! (cols ! p)))"
  proof (induction hi)
    case 0
    then show ?case by (simp add: first_free_def)
  next
    case (Suc hi)
    show ?case
    proof (cases "lo \<le> hi")
      case True
      then have e: "first_free y cols lo (Suc hi) =
          (if y ! (cols ! hi) < 0 then Some (cols ! hi) else first_free y cols lo hi)"
        by (simp add: first_free_def)
      show ?thesis
      proof (cases "y ! (cols ! hi) < 0")
        case True
        with e \<open>lo \<le> hi\<close> show ?thesis by auto
      next
        case False
        with e Suc show ?thesis by (auto simp: less_Suc_eq)
      qed
    next
      case False
      then show ?thesis by (auto simp: first_free_def)
    qed
  qed
  show "first_free y cols lo hi = Some j \<Longrightarrow> \<exists>p. lo \<le> p \<and> p < hi \<and> cols ! p = j \<and> y ! j < 0" using I by blast
  show "first_free y cols lo hi = None \<Longrightarrow> lo \<le> p \<Longrightarrow> p < hi \<Longrightarrow> 0 \<le> y ! (cols ! p)" using I by blast
qed

text \<open>Between two scans all columns in front of \<open>hi\<close> are ready.\<close>

definition head_inv ::
  "nat \<Rightarrow> 'f::linordered_field list list \<Rightarrow> int list \<Rightarrow> 'f list \<Rightarrow> nat \<Rightarrow> 'f search \<Rightarrow> bool" where
  "head_inv n cost y v s S \<longleftrightarrow>
     se_lo S = se_hi S \<and> base n cost y v s (se_hi S) (se_cols S) (se_d S) (se_pred S) \<and>
     (\<forall>p < se_hi S. \<forall>q<n. se_hi S \<le> q \<longrightarrow> se_d S ! (se_cols S ! p) \<le> se_d S ! (se_cols S ! q)) \<and>
     (\<forall>p < se_hi S. relaxed n cost y v (se_d S) (se_cols S ! p))"

lemma scan_to_head:
  assumes "scan_inv n cost y v s nr S" "se_lo S = se_hi S"
  shows "head_inv n cost y v s S"
  using assms unfolding scan_inv_def head_inv_def levels_def by (auto intro: order_trans)

text \<open>A find makes the nearest columns the next ones to scan, or hits a free column.\<close>

lemma after_find:
  assumes H: "head_inv n cost y v s S" and lo: "se_lo S < n"
    and e: "find_dense n (se_lo S) (se_d S) (se_cols S) = (hi, cols)"
  shows "first_free y cols (se_lo S) hi = Some j \<Longrightarrow> found n cost y v s (se_lo S) j cols (se_d S) (se_pred S)"
    and "first_free y cols (se_lo S) hi = None \<Longrightarrow>
           scan_inv n cost y v s (se_lo S) (S\<lparr>se_hi := hi, se_cols := cols\<rparr>) \<and> se_lo S < hi \<and> hi \<le> n"
proof -
  define h where "h = se_lo S"
  have b: "base n cost y v s h (se_cols S) (se_d S) (se_pred S)"
    and ord: "\<And>p q. p < h \<Longrightarrow> q < n \<Longrightarrow> h \<le> q \<Longrightarrow> se_d S ! (se_cols S ! p) \<le> se_d S ! (se_cols S ! q)"
    and rel: "\<And>p. p < h \<Longrightarrow> relaxed n cost y v (se_d S) (se_cols S ! p)"
    using H by (simp_all add: head_inv_def h_def)
  have hn: "h < n" using lo by (simp add: h_def)
  note fd = find_dense_spec [OF b hn e [folded h_def]]
  have mu: "se_d S ! (cols ! p) \<le> se_d S ! (cols ! h)" if p: "p < h" for p
  proof -
    obtain q where q: "q < n" "se_cols S ! q = cols ! h"
      using base_cols(2) [OF fd(1) hn] base_cols(4) [OF b] by blast
    have "\<not> q < h"
    proof
      assume "q < h"
      then have "cols ! q = cols ! h" using fd(2) q by simp
      with \<open>q < h\<close> hn base_cols(1,3) [OF fd(1)] show False by (simp add: nth_eq_iff_index_eq)
    qed
    with ord [OF p q(1)] q(2) fd(2) [OF p] show ?thesis by simp
  qed
  have rel': "relaxed n cost y v (se_d S) (cols ! p)" if "p < h" for p
    using rel [OF that] fd(2) [OF that] by simp
  have lv: "levels n h hi (se_d S ! (cols ! h)) cols (se_d S)"
    unfolding levels_def
  proof (intro conjI allI impI)
    fix p assume "p < hi"
    then show "se_d S ! (cols ! p) \<le> se_d S ! (cols ! h)"
      using mu [of p] fd(5) [of p] by (cases "p < h") simp_all
  qed (use fd(6) in blast)
  have lv0: "levels n h h (se_d S ! (cols ! h)) cols (se_d S)" using lv fd(3) by (auto simp: levels_def)
  show "found n cost y v s (se_lo S) j cols (se_d S) (se_pred S)" if ff: "first_free y cols (se_lo S) hi = Some j"
  proof -
    obtain p where p: "h \<le> p" "p < hi" "cols ! p = j" "y ! j < 0"
      using first_free_spec(1) [OF ff] by (auto simp: h_def)
    have "j < n" using base_cols(2) [OF fd(1), of p] p fd(4) by simp
    moreover have "se_d S ! j \<le> se_d S ! (cols ! h)" using fd(5) [OF p(1,2)] p(3) by simp
    ultimately show ?thesis unfolding found_def h_def [symmetric] using fd(1) lv0 rel' p(4) by blast
  qed
  show "scan_inv n cost y v s (se_lo S) (S\<lparr>se_hi := hi, se_cols := cols\<rparr>) \<and> se_lo S < hi \<and> hi \<le> n"
    if "first_free y cols (se_lo S) hi = None"
  proof -
    have "base n cost y v s hi cols (se_d S) (se_pred S)"
      using first_free_spec(2) [OF that] fd(3,4) by (intro base_grow [OF fd(1)]) (simp_all add: h_def)
    then show ?thesis
      unfolding scan_inv_def using lv rel' fd(3,4) by (simp add: h_def)
  qed
qed

lemma free_position:
  assumes H: "head_inv n cost y v s S" and f: "k < n" "y ! k < 0"
  shows "se_lo S < n"
proof -
  have b: "base n cost y v s (se_hi S) (se_cols S) (se_d S) (se_pred S)" and lo: "se_lo S = se_hi S"
    using H by (simp_all add: head_inv_def)
  obtain p where p: "p < n" "se_cols S ! p = k" using base_cols(4) [OF b f(1)] by blast
  have "\<not> p < se_hi S" using base_simps(4) [OF b, of p] p(2) f(2) by auto
  with p(1) lo show ?thesis by simp
qed

lemma find_path_loop_spec:
  fixes cost :: "'f::linordered_field list list"
  assumes "head_inv n cost y v s S" and y: "length y = n" and f: "k < n" "y ! k < 0"
    and tg: "\<And>j. j < n \<Longrightarrow> 0 \<le> y ! j \<Longrightarrow> tight n cost v (nat (y ! j)) j"
  shows "\<exists>j nr S'. find_path_loop n cost y v nr0 S = Some (j, nr, S') \<and> se_lo S' = nr \<and>
           found n cost y v s nr j (se_cols S') (se_d S') (se_pred S')"
  using assms(1)
proof (induction "n - se_lo S" arbitrary: S nr0 rule: less_induct)
  case less
  have lo: "se_lo S = se_hi S" using less.prems by (simp add: head_inv_def)
  have lon: "se_lo S < n" by (rule free_position [OF less.prems f])
  obtain hi cols where fd: "find_dense n (se_lo S) (se_d S) (se_cols S) = (hi, cols)" by fastforce
  note af = after_find [OF less.prems lon fd]
  define S1 where "S1 = S\<lparr>se_hi := hi, se_cols := cols\<rparr>"
  have e: "find_path_loop n cost y v nr0 S =
      (case first_free y cols (se_lo S) hi of
         Some j \<Rightarrow> Some (j, se_lo S, S1)
       | None \<Rightarrow> (case scan_dense n cost y v S1 of
                   None \<Rightarrow> None
                 | Some (Some j, s2) \<Rightarrow> Some (j, se_lo S, s2\<lparr>se_lo := se_lo S1, se_hi := se_hi S1\<rparr>)
                 | Some (None, s2) \<Rightarrow> find_path_loop n cost y v (se_lo S) s2))"
    using lo lon fd by (subst find_path_loop.simps) (simp add: Let_def S1_def cong del: option.case_cong_weak)
  show ?case
  proof (cases "first_free y cols (se_lo S) hi")
    case (Some j)
    with e have "find_path_loop n cost y v nr0 S = Some (j, se_lo S, S1)" by simp
    with af(1) [OF Some] show ?thesis by (auto simp: S1_def)
  next
    case None
    have si: "scan_inv n cost y v s (se_lo S) S1" and hi: "se_lo S < hi" "hi \<le> n"
      using af(2) [OF None] by (simp_all add: S1_def)
    from scan_dense_spec [OF si y tg] obtain r S2 where sc: "scan_dense n cost y v S1 = Some (r, S2)"
      and rn: "r = None \<Longrightarrow> scan_inv n cost y v s (se_lo S) S2 \<and> se_lo S2 = se_hi S2 \<and> se_hi S1 \<le> se_hi S2"
      and rs: "\<And>j. r = Some j \<Longrightarrow> found n cost y v s (se_lo S) j (se_cols S2) (se_d S2) (se_pred S2)"
      by auto
    show ?thesis
    proof (cases r)
      case (Some j)
      with e None sc have "find_path_loop n cost y v nr0 S = Some (j, se_lo S, S2\<lparr>se_lo := se_lo S1, se_hi := se_hi S1\<rparr>)"
        by simp
      with rs [OF Some] show ?thesis by (auto simp: S1_def)
    next
      case r: None
      have "head_inv n cost y v s S2" using rn [OF r] by (intro scan_to_head [where nr = "se_lo S"]) simp_all
      moreover have "se_lo S < se_lo S2" using rn [OF r] hi by (simp add: S1_def)
      then have "n - se_lo S2 < n - se_lo S" using lon by (rule diff_less_mono2)
      ultimately have "\<exists>j nr S'. find_path_loop n cost y v (se_lo S) S2 = Some (j, nr, S') \<and> se_lo S' = nr \<and>
           found n cost y v s nr j (se_cols S') (se_d S') (se_pred S')" by (intro less.hyps)
      with e None sc r show ?thesis by simp
    qed
  qed
qed

lemma search_start_inv: "head_inv n cost y v s (search_start n cost v s)"
  by (auto simp: head_inv_def search_start_def base_def from_start_def)

section \<open>The prices after a search\<close>

lemma raise_prices:
  assumes "distinct cols" "m \<le> length cols" "\<And>p. p < length cols \<Longrightarrow> cols ! p < length v"
  shows "length (fold (\<lambda>k v. let j = cols ! k in v[j := v ! j + (d ! j - mu)]) [0..<m] v) = length v \<and>
    (\<forall>p < length cols. fold (\<lambda>k v. let j = cols ! k in v[j := v ! j + (d ! j - mu)]) [0..<m] v ! (cols ! p) =
       (if p < m then v ! (cols ! p) + (d ! (cols ! p) - mu) else v ! (cols ! p)))"
  using assms(2)
proof (induction m)
  case 0
  then show ?case by simp
next
  case (Suc m)
  define w where "w = fold (\<lambda>k v. let j = cols ! k in v[j := v ! j + (d ! j - mu)]) [0..<m] v"
  have IH: "length w = length v" "\<And>p. p < length cols \<Longrightarrow>
      w ! (cols ! p) = (if p < m then v ! (cols ! p) + (d ! (cols ! p) - mu) else v ! (cols ! p))"
    using Suc by (simp_all add: w_def)
  have e: "fold (\<lambda>k v. let j = cols ! k in v[j := v ! j + (d ! j - mu)]) [0..<Suc m] v =
      w[cols ! m := w ! (cols ! m) + (d ! (cols ! m) - mu)]"
    by (simp add: w_def Let_def)
  have m: "m < length cols" using Suc.prems by simp
  have "w[cols ! m := w ! (cols ! m) + (d ! (cols ! m) - mu)] ! (cols ! p) =
      (if p < Suc m then v ! (cols ! p) + (d ! (cols ! p) - mu) else v ! (cols ! p))" if p: "p < length cols" for p
  proof (cases "p = m")
    case True
    with IH m assms(3) [OF m] show ?thesis by simp
  next
    case False
    with p m assms(1) have "cols ! p \<noteq> cols ! m" by (simp add: nth_eq_iff_index_eq)
    with IH(2) [OF p] False show ?thesis by (simp add: less_Suc_eq)
  qed
  with IH(1) show ?case unfolding e by simp
qed

text \<open>All columns nearer than the free column become cheaper by the difference.\<close>

definition lowered :: "nat \<Rightarrow> 'f::linordered_field list \<Rightarrow> 'f list \<Rightarrow> 'f \<Rightarrow> 'f list \<Rightarrow> bool" where
  "lowered n v d mu v' \<longleftrightarrow> length v' = n \<and> (\<forall>k<n. v' ! k = v ! k + min mu (d ! k) - mu)"

lemma lowered_rc: "lowered n v d mu v' \<Longrightarrow> k < n \<Longrightarrow> rc cost v' i k = rc cost v i k - min mu (d ! k) + mu"
  by (simp add: lowered_def)

lemma lowered_tight:
  assumes l: "lowered n v d mu v'" and j: "j < n" and t: "tight n cost v (nat (y ! j)) j"
    and r: "relaxed n cost y v d j \<or> mu \<le> d ! j"
  shows "tight n cost v' (nat (y ! j)) j"
proof -
  have "rc cost v' (nat (y ! j)) j \<le> rc cost v' (nat (y ! j)) k" if k: "k < n" for k
    using r
  proof
    assume "relaxed n cost y v d j"
    with k have "d ! k \<le> d ! j + rc cost v (nat (y ! j)) k - rc cost v (nat (y ! j)) j" by (simp add: relaxed_def)
    then have "rc cost v (nat (y ! j)) j - d ! j \<le> rc cost v (nat (y ! j)) k - d ! k" by simp
    with tightD [OF t k]
    have "rc cost v (nat (y ! j)) j - min mu (d ! j) \<le> rc cost v (nat (y ! j)) k - min mu (d ! k)"
      by (auto simp: min_def)
    then show ?thesis by (simp only: lowered_rc [OF l j] lowered_rc [OF l k] add_le_cancel_right)
  next
    assume "mu \<le> d ! j"
    with tightD [OF t k]
    have "rc cost v (nat (y ! j)) j - min mu (d ! j) \<le> rc cost v (nat (y ! j)) k - min mu (d ! k)"
      by (auto simp: min_def)
    then show ?thesis by (simp only: lowered_rc [OF l j] lowered_rc [OF l k] add_le_cancel_right)
  qed
  with j show ?thesis by (simp add: tight_def)
qed

text \<open>A way from the free column back to the start row, along tight pairs.\<close>

fun tight_path :: "nat \<Rightarrow> 'f::linordered_field list list \<Rightarrow> int list \<Rightarrow> 'f list \<Rightarrow> nat list \<Rightarrow> nat \<Rightarrow> nat list \<Rightarrow> bool" where
  "tight_path n cost y v pred s [] = False"
| "tight_path n cost y v pred s [k] = (pred ! k = s \<and> tight n cost v s k)"
| "tight_path n cost y v pred s (k # k' # ks) =
     (0 \<le> y ! k' \<and> pred ! k = nat (y ! k') \<and> tight n cost v (nat (y ! k')) k \<and>
      tight_path n cost y v pred s (k' # ks))"

lemma start_tight:
  assumes b: "base n cost y v s hi cols d pred" and l: "lowered n v d mu v'" and k: "k < n"
    and f: "from_start cost v s pred d k" and mu: "d ! k \<le> mu"
  shows "pred ! k = s \<and> tight n cost v' s k"
proof -
  have "rc cost v' s k \<le> rc cost v' s m" if m: "m < n" for m
  proof -
    have "rc cost v s k - min mu (d ! k) \<le> rc cost v s m - min mu (d ! m)"
      using f mu base_simps(5) [OF b m] by (auto simp: from_start_def min_def)
    then show ?thesis by (simp only: lowered_rc [OF l k] lowered_rc [OF l m] add_le_cancel_right)
  qed
  with f k show ?thesis by (simp add: from_start_def tight_def)
qed

lemma via_tight:
  assumes l: "lowered n v d mu v'" and k: "k < n" and u: "via cost y v pred d j k"
    and mu: "d ! k \<le> mu" "d ! j \<le> mu" and t: "tight n cost v' (nat (y ! j)) j"
  shows "pred ! k = nat (y ! j) \<and> tight n cost v' (nat (y ! j)) k"
proof -
  have j: "j < n" using t by (simp add: tight_def)
  have "rc cost v (nat (y ! j)) k - min mu (d ! k) = rc cost v (nat (y ! j)) j - min mu (d ! j)"
    using u mu by (simp add: via_def)
  then have "rc cost v' (nat (y ! j)) k = rc cost v' (nat (y ! j)) j"
    by (simp only: lowered_rc [OF l k] lowered_rc [OF l j])
  with t k u show ?thesis by (simp add: tight_def via_def)
qed

lemma path_exists:
  assumes b: "base n cost y v s hi cols d pred" and l: "lowered n v d mu v'"
    and t: "\<And>j. j < n \<Longrightarrow> 0 \<le> y ! j \<Longrightarrow> tight n cost v' (nat (y ! j)) j"
    and mu: "\<And>p. p < hi \<Longrightarrow> d ! (cols ! p) \<le> mu"
  shows "q < n \<Longrightarrow> d ! (cols ! q) \<le> mu \<Longrightarrow>
    \<exists>ks. tight_path n cost y v' pred s (cols ! q # ks) \<and> distinct (cols ! q # ks) \<and> set ks \<subseteq> {cols ! p |p. p < q}"
proof (induction q rule: less_induct)
  case (less q)
  have kn: "cols ! q < n" using base_cols(2) [OF b less.prems(1)] .
  from base_tree [OF b less.prems(1)] show ?case
  proof (elim disjE exE conjE)
    assume "from_start cost v s pred d (cols ! q)"
    from start_tight [OF b l kn this less.prems(2)] show ?thesis
      by (intro exI [of _ "[]"]) simp
  next
    fix p assume p: "p < q" "p < hi" and u: "via cost y v pred d (cols ! p) (cols ! q)"
    have pn: "p < n" using p(1) less.prems(1) by simp
    have yp: "0 \<le> y ! (cols ! p)" using base_simps(4) [OF b p(2)] .
    from less.IH [OF p(1) pn mu [OF p(2)]] obtain ks where ks: "tight_path n cost y v' pred s (cols ! p # ks)"
      "distinct (cols ! p # ks)" "set ks \<subseteq> {cols ! m |m. m < p}" by blast
    have "pred ! (cols ! q) = nat (y ! (cols ! p)) \<and> tight n cost v' (nat (y ! (cols ! p))) (cols ! q)"
      using base_cols(2) [OF b pn] yp by (intro via_tight [OF l kn u less.prems(2) mu [OF p(2)]] t)
    with ks(1) yp have "tight_path n cost y v' pred s (cols ! q # cols ! p # ks)" by simp
    moreover have sub: "set (cols ! p # ks) \<subseteq> {cols ! m |m. m < q}" using ks(3) p(1) by fastforce
    moreover have "cols ! q \<notin> {cols ! m |m. m < q}"
      using base_cols(1,3) [OF b] less.prems(1) by (auto simp: nth_eq_iff_index_eq)
    ultimately show ?thesis using ks(2) by (intro exI [of _ "cols ! p # ks"]) auto
  qed
qed

text \<open>What a search returns.\<close>

lemma find_path_dense_spec:
  fixes cost :: "'f::linordered_field list list"
  assumes s: "slack n cost y v" and y: "length y = n" and f: "k < n" "y ! k < 0"
  obtains j v' pred ks where "find_path_dense n cost i y v = Some (j, v', pred)"
    "slack n cost y v'" "j < n" "y ! j < 0"
    "tight_path n cost y v' pred i (j # ks)" "distinct (j # ks)" "set ks \<subseteq> {..<n}"
proof -
  have tg: "tight n cost v (nat (y ! j)) j" if "j < n" "0 \<le> y ! j" for j using s that by (simp add: slack_def)
  from find_path_loop_spec [OF search_start_inv y f tg]
  obtain j nr S where S: "find_path_loop n cost y v 0 (search_start n cost v i) = Some (j, nr, S)" "se_lo S = nr"
    and fo: "found n cost y v i nr j (se_cols S) (se_d S) (se_pred S)" by blast
  define cols d pred mu where defs: "cols = se_cols S" "d = se_d S" "pred = se_pred S" "mu = se_d S ! (se_cols S ! nr)"
  from fo obtain hi where b: "base n cost y v i hi cols d pred" and lv: "levels n nr hi mu cols d" and nr: "nr \<le> hi"
    and rel: "\<And>p. p < nr \<Longrightarrow> relaxed n cost y v d (cols ! p)" and j: "j < n" "y ! j < 0" "d ! j \<le> mu"
    unfolding found_def defs by blast
  note bc = base_cols [OF b] and bs = base_simps [OF b]
  define v' where "v' = fold (\<lambda>k v. let j = cols ! k in v[j := v ! j + (d ! j - mu)]) [0..<nr] v"
  have e: "find_path_dense n cost i y v = Some (j, v', pred)"
    using S by (simp add: find_path_dense_def Let_def v'_def defs)
  have lv': "length v = n" using s by (simp add: slack_def)
  have "distinct cols" "nr \<le> length cols" "\<And>p. p < length cols \<Longrightarrow> cols ! p < length v"
    using bc nr bs(3) lv' by simp_all
  note rp = raise_prices [OF this, where d = d and mu = mu, folded v'_def]
  have low: "lowered n v d mu v'"
    unfolding lowered_def
  proof (intro conjI allI impI)
    show "length v' = n" using rp lv' by simp
    fix k assume "k < n"
    then obtain p where p: "p < n" "cols ! p = k" using bc(4) by blast
    then have vk: "v' ! k = (if p < nr then v ! k + (d ! k - mu) else v ! k)" using rp bc(1) by auto
    show "v' ! k = v ! k + min mu (d ! k) - mu"
    proof (cases "p < nr")
      case True
      with lv p nr have "d ! k \<le> mu" by (auto simp: levels_def)
      with vk True show ?thesis by (simp add: min_def)
    next
      case False
      with lv p have "mu \<le> d ! k" by (auto simp: levels_def)
      with vk False show ?thesis by (simp add: min_def)
    qed
  qed
  have t': "tight n cost v' (nat (y ! k)) k" if k: "k < n" "0 \<le> y ! k" for k
  proof -
    obtain p where p: "p < n" "cols ! p = k" using bc(4) k(1) by blast
    have "relaxed n cost y v d k \<or> mu \<le> d ! k"
      using p rel lv by (cases "p < nr") (auto simp: levels_def)
    from lowered_tight [OF low k(1) tg [OF k] this] show ?thesis .
  qed
  have "- 200000 \<le> v' ! k" if k: "k < n" "y ! k < 0" for k
  proof -
    obtain p where p: "p < n" "cols ! p = k" using bc(4) k(1) by blast
    have "\<not> p < nr" using bs(4) [of p] p nr k(2) by auto
    with lv p have "mu \<le> d ! k" by (auto simp: levels_def)
    with low k(1) have "v' ! k = v ! k" by (simp add: lowered_def)
    with s k show ?thesis by (simp add: slack_def)
  qed
  with t' low have sl: "slack n cost y v'" by (simp add: slack_def lowered_def)
  obtain q where q: "q < n" "cols ! q = j" using bc(4) j(1) by blast
  have mu: "d ! (cols ! p) \<le> mu" if "p < hi" for p using lv that by (simp add: levels_def)
  from path_exists [OF b low t' mu q(1)] q(2) j(3) obtain ks where
    "tight_path n cost y v' pred i (j # ks)" "distinct (j # ks)" "set ks \<subseteq> {cols ! p |p. p < q}" by blast
  moreover from this(3) have "set ks \<subseteq> {..<n}" using bc(2) q(1) by fastforce
  ultimately show thesis using that [OF e sl j(1,2)] by blast
qed

section \<open>Augmentation\<close>

lemma matching_release:
  assumes m: "matching n x y" and k: "k < n" "0 \<le> y ! k"
  shows "matching n x (y[k := -1])" "free_of n (y[k := -1]) = insert (nat (y ! k)) (free_of n y)"
proof -
  have len: "length y = n" using m by (simp add: matching_def)
  show "matching n x (y[k := -1])"
    unfolding matching_def
  proof (intro conjI allI impI)
    fix j assume j: "j < n" "0 \<le> y[k := -1] ! j"
    then have "j \<noteq> k" using len by auto
    with j m show "y[k := -1] ! j < int n" "x ! nat (y[k := -1] ! j) = int j" by (simp_all add: matching_def)
  qed (use m in \<open>simp_all add: matching_def\<close>)
  have i: "nat (y ! k) < n" "int (nat (y ! k)) = y ! k" using matching_pair(1) [OF m k] k by simp_all
  have "a \<in> free_of n (y[k := -1]) \<longleftrightarrow> a = nat (y ! k) \<or> a \<in> free_of n y" for a
  proof (cases "a = nat (y ! k)")
    case True
    have "y[k := -1] ! j \<noteq> y ! k" if "j < n" for j
      using matching_inj [OF m that k(1)] k that len by (cases "j = k") auto
    with True i show ?thesis by (simp add: in_free_of len)
  next
    case False
    have "y ! k \<noteq> int a" using False by auto
    moreover have "y[k := -1] ! j = (if j = k then -1 else y ! j)" for j using len k(1) by simp
    ultimately have "y[k := -1] ! j \<noteq> int a \<longleftrightarrow> y ! j \<noteq> int a" for j by (cases "j = k") simp_all
    then have "(\<forall>j<n. y[k := -1] ! j \<noteq> int a) \<longleftrightarrow> (\<forall>j<n. y ! j \<noteq> int a)" by simp
    with False show ?thesis by (simp add: in_free_of len)
  qed
  then show "free_of n (y[k := -1]) = insert (nat (y ! k)) (free_of n y)" by blast
qed

lemma tight_path_other:
  "k \<notin> set ks \<Longrightarrow> tight_path n cost (y[k := z]) v pred s (k' # ks) = tight_path n cost y v pred s (k' # ks)"
  by (induction ks arbitrary: k') auto

definition tight_except :: "nat \<Rightarrow> 'f::linordered_field list list \<Rightarrow> int list \<Rightarrow> 'f list \<Rightarrow> nat \<Rightarrow> bool" where
  "tight_except n cost y v k \<longleftrightarrow> length v = n \<and>
     (\<forall>j<n. j \<noteq> k \<longrightarrow> (0 \<le> y ! j \<longrightarrow> tight n cost v (nat (y ! j)) j) \<and> (y ! j < 0 \<longrightarrow> - 200000 \<le> v ! j))"

lemma slack_fill:
  assumes "tight_except n cost y v k" "tight n cost v i k" "length y = n"
  shows "slack n cost (y[k := int i]) v"
  using assms by (auto simp: slack_def tight_except_def tight_def nth_list_update)

lemma augment_spec:
  assumes "tight_path n cost y v pred s (k # ks)" "distinct (k # ks)" "k < n" "set ks \<subseteq> {..<n}"
    and "matching n x (y[k := -1])" "s \<in> free_of n (y[k := -1])" "tight_except n cost y v k"
  shows "\<exists>x' y'. augment pred s k x y = Some (x', y') \<and> matching n x' y' \<and> slack n cost y' v \<and>
           free_of n y' = free_of n (y[k := -1]) - {s}"
  using assms
proof (induction ks arbitrary: k x y)
  case Nil
  have t: "pred ! k = s" "tight n cost v s k" using Nil.prems(1) by simp_all
  have len: "length y = n" "length x = n" using Nil.prems(5) by (simp_all add: matching_def)
  have e: "augment pred s k x y = Some (x[s := int k], y[k := int s])"
    using t(1) by (subst augment.simps) (simp add: Let_def)
  have "matching n (x[s := int k]) (y[k := int s])"
    using matching_reassign [OF Nil.prems(5,6,3)] by simp
  moreover have "free_of n (y[k := int s]) = free_of n (y[k := -1]) - {s}"
    using free_of_reassign [OF Nil.prems(5,6,3)] Nil.prems(3) len by (simp add: displaced_def)
  ultimately show ?case using e slack_fill [OF Nil.prems(7) t(2) len(1)] by blast
next
  case (Cons k' ks)
  define i where "i = nat (y ! k')"
  have p: "0 \<le> y ! k'" "pred ! k = i" "tight n cost v i k" "tight_path n cost y v pred s (k' # ks)"
    using Cons.prems(1) by (simp_all add: i_def)
  have kk: "k' \<noteq> k" "k \<notin> set ks" "k' < n" "k < n" "distinct (k' # ks)" "set ks \<subseteq> {..<n}"
    using Cons.prems(2,3,4) by auto
  have len: "length y = n" "length x = n" using Cons.prems(5) by (simp_all add: matching_def)
  have yk': "y[k := -1] ! k' = int i" using p(1) kk(1) by (simp add: i_def)
  have rel: "matching n x (y[k := -1, k' := -1])"
    "free_of n (y[k := -1, k' := -1]) = insert i (free_of n (y[k := -1]))"
    using matching_release [OF Cons.prems(5) kk(3)] yk' by simp_all
  have i: "i < n" "x ! i = int k'" using matching_pair [OF Cons.prems(5) kk(3)] yk' by simp_all
  have nf: "i \<notin> free_of n (y[k := -1])"
    using yk' kk(3) len by (auto simp: in_free_of)
  then have "i \<noteq> s" using Cons.prems(6) by auto
  then have e: "augment pred s k x y = augment pred s k' (x[i := int k]) (y[k := int i])"
    using p(2) i(2) by (subst augment.simps) (simp add: Let_def)
  have swap: "(y[k := int i])[k' := -1] = (y[k := -1, k' := -1])[k := int i]"
    using kk(1) by (simp add: list_update_swap)
  have fi: "i \<in> free_of n (y[k := -1, k' := -1])" using rel(2) by simp
  have m: "matching n (x[i := int k]) ((y[k := int i])[k' := -1])"
    unfolding swap by (rule matching_reassign [OF rel(1) fi kk(4)])
  have fr: "free_of n ((y[k := int i])[k' := -1]) = free_of n (y[k := -1])"
    unfolding swap using free_of_reassign [OF rel(1) fi kk(4)] rel(2) nf kk len
    by (simp add: displaced_def)
  have tp: "tight_path n cost (y[k := int i]) v pred s (k' # ks)"
    using p(4) by (simp add: tight_path_other [OF kk(2)])
  have te: "tight_except n cost (y[k := int i]) v k'"
    using Cons.prems(7) p(3) len kk(4) unfolding tight_except_def by (auto simp: nth_list_update)
  from Cons.IH [OF tp kk(5) kk(3,6) m _ te] Cons.prems(6) show ?case unfolding e fr by simp
qed

lemma ca_dense_spec:
  assumes "costs_ok n cost" "lap_inv n cost F l"
  shows "\<exists>l'. ca_dense n cost F l = Some l' \<and> lap_inv n cost [] l'"
  using assms(2)
proof (induction F arbitrary: l)
  case Nil
  then show ?case by simp
next
  case (Cons i F)
  have m: "matching n (lap_x l) (lap_y l)" and s: "slack n cost (lap_y l) (lap_v l)"
    and f: "distinct (i # F)" "set (i # F) = free_of n (lap_y l)"
    using Cons.prems by (simp_all add: lap_inv_def)
  have len: "length (lap_y l) = n" using m by (simp add: matching_def)
  have i: "i \<in> free_of n (lap_y l)" using f(2) by auto
  obtain k where k: "k < n" "lap_y l ! k < 0" using free_column [OF m i] .
  obtain j v' pred ks where fp: "find_path_dense n cost i (lap_y l) (lap_v l) = Some (j, v', pred)"
    "slack n cost (lap_y l) v'" "j < n" "lap_y l ! j < 0"
    "tight_path n cost (lap_y l) v' pred i (j # ks)" "distinct (j # ks)" "set ks \<subseteq> {..<n}"
    using find_path_dense_spec [OF s len k] by metis
  have yj: "(lap_y l)[j := -1] ! k = (if k = j then -1 else lap_y l ! k)" for k using len fp(3) by simp
  have same: "matching n (lap_x l) ((lap_y l)[j := -1])"
    using m unfolding matching_def yj by simp
  have "i \<in> free_of n ((lap_y l)[j := -1]) \<longleftrightarrow> i \<in> free_of n (lap_y l)" for i
    using fp(4) len by (simp add: in_free_of yj) (metis not_le of_nat_0_le_iff)
  then have fr: "free_of n ((lap_y l)[j := -1]) = free_of n (lap_y l)" by blast
  have te: "tight_except n cost (lap_y l) v' j" using fp(2) by (simp add: slack_def tight_except_def)
  from augment_spec [OF fp(5,6,3,7) same _ te] fr i obtain x' y' where
    a: "augment pred i j (lap_x l) (lap_y l) = Some (x', y')" "matching n x' y'" "slack n cost y' v'"
    "free_of n y' = free_of n (lap_y l) - {i}" by auto
  have "lap_inv n cost F \<lparr>lap_x = x', lap_y = y', lap_v = v'\<rparr>"
    using a(2,3,4) f by (auto simp: lap_inv_def)
  from Cons.IH [OF this] show ?case using fp(1) a(1) by simp
qed

section \<open>Optimality\<close>

lemma lapjv_inv:
  assumes c: "costs_ok n cost"
  obtains l where "lapjv_internal n cost = Some l" "lap_inv n cost [] l"
proof -
  obtain f0 l0 where e0: "ccrrt_dense n cost = (f0, l0)" by fastforce
  have i0: "lap_inv n cost f0 l0" by (rule ccrrt_establishes_invariant [OF c e0])
  have again: "\<exists>f' l'. (if f \<noteq> [] then carr_dense n cost f l else (f, l)) = (f', l') \<and> lap_inv n cost f' l'"
    if "lap_inv n cost f l" for f l
  proof (cases "f = []")
    case False
    obtain f' l' where "carr_dense n cost f l = (f', l')" by fastforce
    with carr_keeps_invariant [OF c that this] False show ?thesis by simp
  qed (use that in simp)
  obtain f1 l1 where e1: "(if f0 \<noteq> [] then carr_dense n cost f0 l0 else (f0, l0)) = (f1, l1)" "lap_inv n cost f1 l1"
    using again [OF i0] by blast
  obtain f2 l2 where e2: "(if f1 \<noteq> [] then carr_dense n cost f1 l1 else (f1, l1)) = (f2, l2)" "lap_inv n cost f2 l2"
    using again [OF e1(2)] by blast
  obtain l3 where "ca_dense n cost f2 l2 = Some l3" "lap_inv n cost [] l3" using ca_dense_spec [OF c e2(2)] by blast
  moreover from this(1) e2(2) have "lap_inv n cost [] l3 \<and> lapjv_internal n cost = Some l3"
    using \<open>lap_inv n cost [] l3\<close> unfolding lapjv_internal_def e0 Let_def prod.case e1(1) e2(1)
    by (cases f2) simp_all
  ultimately show thesis using that by blast
qed

lemma complete_matching:
  assumes "lap_inv n cost [] l" "i < n"
  shows "0 \<le> lap_x l ! i" "lap_x l ! i < int n" "lap_y l ! nat (lap_x l ! i) = int i"
proof -
  have m: "matching n (lap_x l) (lap_y l)" and f: "free_of n (lap_y l) = {}"
    using assms(1) by (simp_all add: lap_inv_def)
  have len: "length (lap_y l) = n" using m by (simp add: matching_def)
  have "i \<notin> free_of n (lap_y l)" using f by simp
  then obtain j where j: "j < n" "lap_y l ! j = int i" using assms(2) by (auto simp: in_free_of len)
  with matching_pair(2) [OF m j(1)] have "lap_x l ! i = int j" by simp
  with j show "0 \<le> lap_x l ! i" "lap_x l ! i < int n" "lap_y l ! nat (lap_x l ! i) = int i" by simp_all
qed

lemma reindex_prices:
  assumes "inj_on p {..<n}" "p ` {..<n} \<subseteq> {..<n}"
  shows "(\<Sum>i<n. v ! p i) = (\<Sum>j<n. v ! j :: 'f::linordered_field)"
proof -
  have "bij_betw p {..<n} {..<n}" using assms by (simp add: bij_betw_def endo_inj_surj)
  then show ?thesis by (rule sum.reindex_bij_betw)
qed

lemma tight_optimal:
  fixes cost :: "'f::linordered_field list list"
  assumes l: "lap_inv n cost [] l" and p: "inj_on p {..<n}" "p ` {..<n} \<subseteq> {..<n}"
  shows "(\<Sum>i<n. cost ! i ! nat (lap_x l ! i)) \<le> (\<Sum>i<n. cost ! i ! p i)"
proof -
  define x where "x i = nat (lap_x l ! i)" for i
  note cm = complete_matching [OF l]
  have xn: "x i < n" if "i < n" for i using cm [OF that] by (simp add: x_def nat_below)
  have yx: "lap_y l ! x i = int i" if "i < n" for i using cm(3) [OF that] by (simp add: x_def)
  have inj: "inj_on x {..<n}"
  proof (rule inj_onI)
    fix i k assume a: "i \<in> {..<n}" "k \<in> {..<n}" "x i = x k"
    have "int i = lap_y l ! x i" using yx [of i] a(1) by simp
    also have "\<dots> = int k" unfolding a(3) using yx [of k] a(2) by simp
    finally have "int i = int k" .
    then show "i = k" by simp
  qed
  have slack: "tight n cost (lap_v l) (nat (lap_y l ! j)) j" if "j < n" "0 \<le> lap_y l ! j" for j
    using l that by (simp add: lap_inv_def slack_def)
  have le: "rc cost (lap_v l) i (x i) \<le> rc cost (lap_v l) i (p i)" if i: "i < n" for i
  proof -
    have "tight n cost (lap_v l) i (x i)" using slack [OF xn [OF i]] yx [OF i] by simp
    moreover have "p i < n" using p(2) i by auto
    ultimately show ?thesis by (rule tightD)
  qed
  have "(\<Sum>i<n. rc cost (lap_v l) i (x i)) \<le> (\<Sum>i<n. rc cost (lap_v l) i (p i))"
    using le by (intro sum_mono) simp
  moreover have "(\<Sum>i<n. lap_v l ! x i) = (\<Sum>i<n. lap_v l ! p i)"
  proof (rule trans)
    show "(\<Sum>i<n. lap_v l ! x i) = (\<Sum>j<n. lap_v l ! j)" using xn by (intro reindex_prices [OF inj]) auto
    show "(\<Sum>j<n. lap_v l ! j) = (\<Sum>i<n. lap_v l ! p i)" by (rule reindex_prices [OF p, symmetric])
  qed
  ultimately show ?thesis by (simp add: sum_subtractf x_def)
qed

end
