(* ===== verification/RectangularAssignment.thy ===== *)
theory RectangularAssignment
  imports Complex_Main AssignmentPaths
begin

text \<open>
  The results of the solver for the tracker: \<open>lapjv_internal\<close> assigns every row optimally, and
  \<open>execLapjv\<close> solves the rectangular problem with a price for leaving a row or a column unmatched.
\<close>

section \<open>The square problem\<close>

text \<open> C13. The solver always ends with a complete matching: \<open>x\<close> and \<open>y\<close> are inverse to each other. \<close>

theorem lapjv_returns_matching:
  assumes "costs_ok n cost"
  shows "\<exists>l. lapjv_internal n cost = Some l \<and>
           (\<forall>i<n. 0 \<le> lap_x l ! i \<and> lap_x l ! i < int n \<and> lap_y l ! nat (lap_x l ! i) = int i)"
proof -
  obtain l where "lapjv_internal n cost = Some l" "lap_inv n cost [] l" using lapjv_inv [OF assms] .
  with complete_matching [OF this(2)] show ?thesis by blast
qed

lemma square_example_ok: "costs_ok 2 [[4, 1], [2, 0 :: rat]]"
  by (simp add: costs_ok_def numeral_2_eq_2 less_Suc_eq all_conj_distrib)

text \<open>The three phases on a small matrix: the row reduction swaps the two columns.\<close>

lemma square_example_ccrrt:
  "ccrrt_dense 2 [[4, 1], [2, 0 :: rat]] = ([0], \<lparr>lap_x = [-1, 1], lap_y = [-1, 1], lap_v = [2, 0]\<rparr>)"
  by (simp add: ccrrt_dense_def column_minima_def upt_rec min_step_def Let_def LARGE_def assign_step_def transfer_step_def)
    (simp add: numeral_2_eq_2)

lemma square_example_carr:
  "carr_dense 2 [[4, 1], [2, 0 :: rat]] [0] \<lparr>lap_x = [-1, 1], lap_y = [-1, 1], lap_v = [2, 0]\<rparr> =
     ([], \<lparr>lap_x = [1, 0], lap_y = [1, 0], lap_v = [2, -1]\<rparr>)"
  by (simp add: carr_dense_def carr_loop.simps carr_step_def upt_rec Let_def LARGE_def two_min_def two_min_step_def)

lemma square_example:
  "lapjv_internal 2 [[4, 1], [2, 0 :: rat]] = Some \<lparr>lap_x = [1, 0], lap_y = [1, 0], lap_v = [2, -1]\<rparr>"
  by (simp add: lapjv_internal_def square_example_ccrrt square_example_carr)

theorem lapjv_returns_matching_witness:
  "\<exists>l. lapjv_internal 2 [[4, 1], [2, 0 :: rat]] = Some l \<and>
     (\<forall>i<2. 0 \<le> lap_x l ! i \<and> lap_x l ! i < int 2 \<and> lap_y l ! nat (lap_x l ! i) = int i)"
  by (rule lapjv_returns_matching [OF square_example_ok])

text \<open> C12. No assignment of rows to columns has a smaller total cost than the one the solver returns. \<close>

theorem lapjv_optimal:
  assumes "costs_ok n cost" "lapjv_internal n cost = Some l"
    and "inj_on p {..<n}" "p ` {..<n} \<subseteq> {..<n}"
  shows "(\<Sum>i<n. cost ! i ! nat (lap_x l ! i)) \<le> (\<Sum>i<n. cost ! i ! p i)"
proof -
  obtain l' where "lapjv_internal n cost = Some l'" "lap_inv n cost [] l'" using lapjv_inv [OF assms(1)] .
  with assms(2) have "lap_inv n cost [] l" by simp
  from tight_optimal [OF this assms(3,4)] show ?thesis .
qed

theorem lapjv_optimal_witness:
  "(\<Sum>i<2. [[4, 1], [2, 0 :: rat]] ! i ! nat ([1, 0] ! i)) \<le> (\<Sum>i<2. [[4, 1], [2, 0]] ! i ! i)"
  using lapjv_optimal [OF square_example_ok square_example, of "\<lambda>i. i"] by simp

section \<open>The extended matrix\<close>

definition rectangular :: "'f::linordered_field list list \<Rightarrow> 'f option \<Rightarrow> bool" where
  "rectangular cost cost_limit \<longleftrightarrow>
     cost \<noteq> [] \<and> \<bar>fill_cost cost cost_limit\<bar> \<le> 200000 \<and>
     (\<forall>row \<in> set cost. length row = length (cost ! 0) \<and> (\<forall>c \<in> set row. \<bar>c\<bar> \<le> 200000))"

lemma rectangularD:
  assumes "rectangular cost cost_limit" "i < length cost" "j < length (cost ! 0)"
  shows "\<bar>cost ! i ! j\<bar> \<le> 200000"
proof -
  have i: "cost ! i \<in> set cost" using assms(2) by simp
  with assms(1) have "length (cost ! i) = length (cost ! 0)" unfolding rectangular_def by blast
  with assms(3) have "cost ! i ! j \<in> set (cost ! i)" by simp
  with assms(1) i show ?thesis unfolding rectangular_def by blast
qed

lemma nth_extended:
  assumes "i < length cost + length (cost ! 0)" "j < length cost + length (cost ! 0)"
  shows "extended_cost cost cost_limit ! i ! j =
     (if i < length cost \<and> j < length (cost ! 0) then cost ! i ! j
      else if length cost \<le> i \<and> length (cost ! 0) \<le> j then 0 else fill_cost cost cost_limit)"
  using assms by (simp add: extended_cost_def Let_def del: upt_Suc)

lemma costs_ok_extended:
  assumes "rectangular cost cost_limit"
  shows "costs_ok (length cost + length (cost ! 0)) (extended_cost cost cost_limit)"
proof -
  have e: "\<bar>extended_cost cost cost_limit ! i ! j\<bar> \<le> 200000"
    if "i < length cost + length (cost ! 0)" "j < length cost + length (cost ! 0)" for i j
  proof -
    have "\<bar>cost ! i ! j\<bar> \<le> 200000" if "i < length cost" "j < length (cost ! 0)"
      by (rule rectangularD [OF assms that])
    moreover have "\<bar>fill_cost cost cost_limit\<bar> \<le> 200000" using assms by (simp only: rectangular_def)
    ultimately show ?thesis unfolding nth_extended [OF that] by simp
  qed
  have "length (extended_cost cost cost_limit) = length cost + length (cost ! 0)"
    "\<And>i. i < length cost + length (cost ! 0) \<Longrightarrow> length (extended_cost cost cost_limit ! i) = length cost + length (cost ! 0)"
    by (simp_all add: extended_cost_def Let_def del: upt_Suc)
  moreover have "cost \<noteq> []" using assms unfolding rectangular_def by blast
  then have "0 < length cost" by simp
  ultimately show ?thesis using e by (simp add: costs_ok_def)
qed

text \<open>The total cost of a permutation is that of its matched pairs, up to a constant.\<close>

lemma card_below:
  assumes "inj_on p {..<n}" "p ` {..<n} \<subseteq> {..<n}" "k \<le> n"
  shows "card {i. i < n \<and> p i < k} = k"
proof -
  have b: "p ` {..<n} = {..<n}" using assms(1,2) by (simp add: endo_inj_surj)
  have "{i. i < n \<and> p i < k} = {i \<in> {..<n}. p i \<in> {..<k}}" by auto
  moreover have "p ` {i \<in> {..<n}. p i \<in> {..<k}} = {..<k}"
  proof
    show "{..<k} \<subseteq> p ` {i \<in> {..<n}. p i \<in> {..<k}}"
    proof
      fix j assume "j \<in> {..<k}"
      then have "j \<in> p ` {..<n}" using b assms(3) by simp
      with \<open>j \<in> {..<k}\<close> show "j \<in> p ` {i \<in> {..<n}. p i \<in> {..<k}}" by auto
    qed
  qed auto
  moreover have "inj_on p {i \<in> {..<n}. p i \<in> {..<k}}" using assms(1) by (rule inj_on_subset) auto
  ultimately show ?thesis by (metis card_image card_lessThan)
qed

lemma sum_choose:
  fixes a :: "'f::linordered_field"
  assumes "finite A"
  shows "(\<Sum>i\<in>A. if P i then a else 0) = of_nat (card {i \<in> A. P i}) * a"
  using assms by (simp add: sum.If_cases Int_def)

lemma extended_total:
  fixes cost :: "'f::linordered_field list list"
  defines "R \<equiv> length cost" and "K \<equiv> length (cost ! 0)"
  assumes p: "inj_on p {..<R + K}" "p ` {..<R + K} \<subseteq> {..<R + K}"
  shows "(\<Sum>i<R + K. extended_cost cost cost_limit ! i ! p i) =
    (\<Sum>i | i < R \<and> p i < K. cost ! i ! p i - 2 * fill_cost cost cost_limit) + of_nat (R + K) * fill_cost cost cost_limit"
proof -
  define F where "F = fill_cost cost cost_limit"
  define A where "A = {i. i < R \<and> p i < K}"
  define B where "B = {i \<in> {R..<R + K}. p i < K}"
  have pn: "p i < R + K" if "i < R + K" for i using p(2) that by auto
  have e: "extended_cost cost cost_limit ! i ! p i = (if i < R \<and> p i < K then cost ! i ! p i else if R \<le> i \<and> K \<le> p i then 0 else F)"
    if "i < R + K" for i
    using nth_extended [of i cost "p i" cost_limit] that pn [OF that] by (simp add: R_def K_def F_def)
  have split: "{..<R + K} = {..<R} \<union> {R..<R + K}" by auto
  have up: "(\<Sum>i<R. extended_cost cost cost_limit ! i ! p i) = (\<Sum>i\<in>A. cost ! i ! p i - 2 * F) + of_nat (R + card A) * F"
  proof -
    have "(\<Sum>i<R. extended_cost cost cost_limit ! i ! p i) =
        (\<Sum>i<R. (if p i < K then cost ! i ! p i - 2 * F else 0) + ((if p i < K then F else 0) + F))"
      using e by (intro sum.cong) auto
    also have "\<dots> = (\<Sum>i<R. if p i < K then cost ! i ! p i - 2 * F else 0) + ((\<Sum>i<R. if p i < K then F else 0) + of_nat R * F)"
      by (simp only: sum.distrib sum_constant card_lessThan)
    also have "(\<Sum>i<R. if p i < K then F else 0) = of_nat (card A) * F"
      using sum_choose [of "{..<R}" "\<lambda>i. p i < K" F] by (simp add: A_def)
    also have "(\<Sum>i<R. if p i < K then cost ! i ! p i - 2 * F else 0) = (\<Sum>i\<in>A. cost ! i ! p i - 2 * F)"
      by (simp add: A_def sum.If_cases Int_def)
    finally show ?thesis by (simp add: algebra_simps)
  qed
  have down: "(\<Sum>i\<in>{R..<R + K}. extended_cost cost cost_limit ! i ! p i) = of_nat (card B) * F"
  proof -
    have "(\<Sum>i\<in>{R..<R + K}. extended_cost cost cost_limit ! i ! p i) = (\<Sum>i\<in>{R..<R + K}. if p i < K then F else 0)"
      using e by (intro sum.cong) auto
    then show ?thesis by (simp add: sum_choose B_def)
  qed
  have "{i. i < R + K \<and> p i < K} = A \<union> B" and d: "A \<inter> B = {}" by (auto simp: A_def B_def)
  with card_below [OF p, of K] have u: "card (A \<union> B) = K" by simp
  have "finite A" "finite B" by (simp_all add: A_def B_def)
  from card_Un_disjoint [OF this d] u have "card A + card B = K" by simp
  then have "of_nat (R + card A) * F + of_nat (card B) * F = of_nat (R + K) * F"
    by (metis (no_types) add.assoc distrib_right of_nat_add)
  then show ?thesis
    unfolding split sum.union_disjoint [OF finite_lessThan finite_atLeastLessThan, of R R "R + K", OF ivl_disj_int_one(2)] up down
    by (simp add: A_def F_def add.assoc)
qed

text \<open>A partial matching extends to a permutation.\<close>

definition complete :: "nat \<Rightarrow> nat \<Rightarrow> (nat \<rightharpoonup> nat) \<Rightarrow> nat \<Rightarrow> nat" where
  "complete R K f i =
     (if i < R then (case f i of Some j \<Rightarrow> j | None \<Rightarrow> K + i)
      else if i - R \<in> ran f then K + (THE i0. f i0 = Some (i - R)) else i - R)"

lemma complete_permutes:
  assumes f: "dom f \<subseteq> {..<R}" "ran f \<subseteq> {..<K}" "inj_on f (dom f)"
  shows "inj_on (complete R K f) {..<R + K}" "complete R K f ` {..<R + K} \<subseteq> {..<R + K}"
proof -
  have the: "(THE i0. f i0 = Some j) = i" if "f i = Some j" for i j
    using that f(3) by (intro the_equality) (auto simp: inj_on_def dom_def)
  have row: "i < R" if "f i = Some j" for i j using f(1) that by (auto simp: dom_def)
  have col: "j < K" if "f i = Some j" for i j using f(2) that by (auto simp: ran_def)
  have c: "complete R K f i = (if i < R then (case f i of Some j \<Rightarrow> j | None \<Rightarrow> K + i)
      else (if \<exists>i0. f i0 = Some (i - R) then K + (THE i0. f i0 = Some (i - R)) else i - R))" for i
    by (simp add: complete_def ran_def)
  show "complete R K f ` {..<R + K} \<subseteq> {..<R + K}"
  proof
    fix m assume "m \<in> complete R K f ` {..<R + K}"
    then obtain i where i: "i < R + K" "m = complete R K f i" by auto
    show "m \<in> {..<R + K}"
    proof (cases "i < R")
      case True
      with i col show ?thesis by (cases "f i") (auto simp: c trans_less_add2)
    next
      case False
      show ?thesis
      proof (cases "\<exists>i0. f i0 = Some (i - R)")
        case True
        then obtain i0 where "f i0 = Some (i - R)" by blast
        with False i row the show ?thesis by (auto simp: c)
      next
        case no: False
        with False i show ?thesis by (auto simp: c)
      qed
    qed
  qed
  show "inj_on (complete R K f) {..<R + K}"
  proof (rule inj_onI)
    fix a b assume ab: "a \<in> {..<R + K}" "b \<in> {..<R + K}" and e: "complete R K f a = complete R K f b"
    have kind: "(\<exists>j. f i = Some j \<and> i < R \<and> j < K \<and> complete R K f i = j) \<or>
        (i < R \<and> f i = None \<and> complete R K f i = K + i) \<or>
        (\<exists>i0. R \<le> i \<and> f i0 = Some (i - R) \<and> complete R K f i = K + i0) \<or>
        (R \<le> i \<and> i - R < K \<and> (\<forall>i0. f i0 \<noteq> Some (i - R)) \<and> complete R K f i = i - R)" if "i < R + K" for i
    proof (cases "i < R")
      case True
      with col show ?thesis by (cases "f i") (auto simp: c)
    next
      case False
      with that the show ?thesis by (auto simp: c)
    qed
    from kind [of a] kind [of b] ab e f(3) show "a = b"
      by (auto simp: inj_on_def dom_def)
  qed
qed

section \<open>Rectangular costs\<close>

text \<open>The result of \<open>execLapjv\<close> for a matrix that is extended, in terms of a permutation and its inverse.\<close>

lemma exec_permutation:
  fixes cost :: "'f::linordered_field list list"
  assumes r: "rectangular cost cost_limit" and K: "0 < length (cost ! 0)"
  obtains rowsol colsol opt p q where
    "execLapjv cost True cost_limit ret = Some (Inr (rowsol, colsol, opt))"
    "inj_on p {..<length cost + length (cost ! 0)}"
    "p ` {..<length cost + length (cost ! 0)} \<subseteq> {..<length cost + length (cost ! 0)}"
    "\<And>i. i < length cost + length (cost ! 0) \<Longrightarrow> q (p i) = i"
    "\<And>j. j < length cost + length (cost ! 0) \<Longrightarrow> p (q j) = j"
    "length rowsol = length cost" "length colsol = length (cost ! 0)"
    "\<And>i. i < length cost \<Longrightarrow> rowsol ! i = (if p i < length (cost ! 0) then int (p i) else -1)"
    "\<And>j. j < length (cost ! 0) \<Longrightarrow> colsol ! j = (if q j < length cost then int (q j) else -1)"
    "\<And>p'. inj_on p' {..<length cost + length (cost ! 0)} \<Longrightarrow>
       p' ` {..<length cost + length (cost ! 0)} \<subseteq> {..<length cost + length (cost ! 0)} \<Longrightarrow>
       (\<Sum>i<length cost + length (cost ! 0). extended_cost cost cost_limit ! i ! p i) \<le>
       (\<Sum>i<length cost + length (cost ! 0). extended_cost cost cost_limit ! i ! p' i)"
proof -
  define R K where RK: "R = length cost" "K = length (cost ! 0)"
  obtain l where l: "lapjv_internal (R + K) (extended_cost cost cost_limit) = Some l"
    "lap_inv (R + K) (extended_cost cost cost_limit) [] l"
    using lapjv_inv [OF costs_ok_extended [OF r]] by (auto simp: RK)
  define p where "p i = nat (lap_x l ! i)" for i
  define q where "q j = nat (lap_y l ! j)" for j
  note cm = complete_matching [OF l(2)]
  have px: "lap_x l ! i = int (p i)" if "i < R + K" for i using cm(1) [OF that] by (simp add: p_def)
  have pn: "p i < R + K" if "i < R + K" for i using cm(2) [OF that] px [OF that] by simp
  have qp: "q (p i) = i" if "i < R + K" for i using cm(3) [OF that] by (simp add: p_def q_def)
  have inj: "inj_on p {..<R + K}" by (rule inj_on_inverseI [of _ q]) (use qp in simp)
  have im: "p ` {..<R + K} \<subseteq> {..<R + K}" using pn by auto
  have surj: "\<exists>i<R + K. j = p i" if "j < R + K" for j
  proof -
    have "p ` {..<R + K} = {..<R + K}" using inj im by (simp add: endo_inj_surj)
    with that show ?thesis by (metis imageE lessThan_iff)
  qed
  have qj: "lap_y l ! j = int (q j) \<and> p (q j) = j" if j: "j < R + K" for j
  proof -
    obtain i where i: "i < R + K" "j = p i" using surj [OF j] by blast
    have "lap_y l ! p i = int i" using cm(3) [OF i(1)] by (simp add: p_def)
    with qp [OF i(1)] show ?thesis unfolding i(2) by simp
  qed
  have ne: "cost \<noteq> []" using r unfolding rectangular_def by blast
  define cut where "cut = (\<lambda>m z :: int. if z \<ge> int m then -1 else z)"
  define rowsol where "rowsol = map (\<lambda>i. cut K (lap_x l ! i)) [0..<R]"
  define colsol where "colsol = map (\<lambda>j. cut R (lap_y l ! j)) [0..<K]"
  have nR: "R + K \<noteq> R" using K by (simp add: RK)
  obtain opt where e: "execLapjv cost True cost_limit ret = Some (Inr (rowsol, colsol, opt))"
    using ne nR l(1) unfolding execLapjv_def RK [symmetric] rowsol_def colsol_def cut_def
    by (simp add: Let_def RK [symmetric])
  have opt: "(\<Sum>i<R + K. extended_cost cost cost_limit ! i ! p i) \<le> (\<Sum>i<R + K. extended_cost cost cost_limit ! i ! p' i)"
    if "inj_on p' {..<R + K}" "p' ` {..<R + K} \<subseteq> {..<R + K}" for p'
    using tight_optimal [OF l(2) that] by (simp add: p_def)
  have row: "rowsol ! i = (if p i < K then int (p i) else -1)" if "i < R" for i
    using that px [of i] by (simp add: rowsol_def cut_def)
  have col: "colsol ! j = (if q j < R then int (q j) else -1)" if "j < K" for j
    using that qj [of j] by (simp add: colsol_def cut_def)
  show thesis
    by (rule that [of rowsol colsol opt p q, folded RK, OF e inj im qp _ _ _ row col opt])
      (use qj in \<open>simp_all add: rowsol_def colsol_def\<close>)
qed

text \<open>The result is a partial matching, and \<open>rowsol\<close> and \<open>colsol\<close> describe the same one.\<close>

theorem execLapjv_consistent:
  assumes "rectangular cost cost_limit" "0 < length (cost ! 0)"
  shows "\<exists>rowsol colsol opt. execLapjv cost True cost_limit ret = Some (Inr (rowsol, colsol, opt)) \<and>
           length rowsol = length cost \<and> length colsol = length (cost ! 0) \<and>
           (\<forall>i < length cost. rowsol ! i = -1 \<or> (\<exists>j < length (cost ! 0). rowsol ! i = int j)) \<and>
           (\<forall>i < length cost. \<forall>j < length (cost ! 0). rowsol ! i = int j \<longleftrightarrow> colsol ! j = int i)"
proof -
  obtain rowsol colsol opt p q where e: "execLapjv cost True cost_limit ret = Some (Inr (rowsol, colsol, opt))"
    and q: "\<And>i. i < length cost + length (cost ! 0) \<Longrightarrow> q (p i) = i"
    "\<And>j. j < length cost + length (cost ! 0) \<Longrightarrow> p (q j) = j"
    and l: "length rowsol = length cost" "length colsol = length (cost ! 0)"
    and row: "\<And>i. i < length cost \<Longrightarrow> rowsol ! i = (if p i < length (cost ! 0) then int (p i) else -1)"
    and col: "\<And>j. j < length (cost ! 0) \<Longrightarrow> colsol ! j = (if q j < length cost then int (q j) else -1)"
    by (rule exec_permutation [OF assms, of ret]) blast
  have "rowsol ! i = int j \<longleftrightarrow> colsol ! j = int i" if "i < length cost" "j < length (cost ! 0)" for i j
    using row [OF that(1)] col [OF that(2)] q(1) [of i] q(2) [of j] that by auto
  moreover have "rowsol ! i = -1 \<or> (\<exists>j < length (cost ! 0). rowsol ! i = int j)" if "i < length cost" for i
    using row [OF that] by auto
  ultimately show ?thesis using e l by blast
qed

lemma rectangular_example: "rectangular [[1 / 100, 1 / 200]] (Some (1 / 50 :: rat))"
  by (simp add: rectangular_def fill_cost_def)

theorem execLapjv_consistent_witness:
  "\<exists>rowsol colsol opt. execLapjv [[1 / 100, 1 / 200]] True (Some (1 / 50 :: rat)) True = Some (Inr (rowsol, colsol, opt)) \<and>
     length rowsol = 1 \<and> length colsol = 2 \<and> (\<forall>i<1. \<forall>j<2. rowsol ! i = int j \<longleftrightarrow> colsol ! j = int i)"
  using execLapjv_consistent [OF rectangular_example, of True] by fastforce

lemma exec_minimal:
  fixes cost :: "'f::linordered_field list list"
  assumes r: "rectangular cost cost_limit" "0 < length (cost ! 0)"
    and e: "execLapjv cost True cost_limit ret = Some (Inr (rowsol, colsol, opt))"
    and f: "dom f \<subseteq> {..<length cost}" "ran f \<subseteq> {..<length (cost ! 0)}" "inj_on f (dom f)"
  shows "(\<Sum>i | i < length cost \<and> rowsol ! i \<noteq> -1. cost ! i ! nat (rowsol ! i) - 2 * fill_cost cost cost_limit) \<le>
         (\<Sum>i\<in>dom f. cost ! i ! the (f i) - 2 * fill_cost cost cost_limit)"
proof -
  define R K where RK: "R = length cost" "K = length (cost ! 0)"
  obtain rs cs op p q where e': "execLapjv cost True cost_limit ret = Some (Inr (rs, cs, op))"
    and p: "inj_on p {..<R + K}" "p ` {..<R + K} \<subseteq> {..<R + K}"
    and row: "\<And>i. i < R \<Longrightarrow> rs ! i = (if p i < K then int (p i) else -1)"
    and opt: "\<And>p'. inj_on p' {..<R + K} \<Longrightarrow> p' ` {..<R + K} \<subseteq> {..<R + K} \<Longrightarrow>
       (\<Sum>i<R + K. extended_cost cost cost_limit ! i ! p i) \<le> (\<Sum>i<R + K. extended_cost cost cost_limit ! i ! p' i)"
    by (rule exec_permutation [OF r, of ret, folded RK]) blast
  from e e' have rs: "rs = rowsol" by simp
  note cp = complete_permutes [OF f, folded RK]
  have A: "{i. i < R \<and> p i < K} = {i. i < R \<and> rowsol ! i \<noteq> -1}"
    using row unfolding rs by (auto split: if_splits)
  have B: "{i. i < R \<and> complete R K f i < K} = dom f"
  proof
    show "{i. i < R \<and> complete R K f i < K} \<subseteq> dom f" by (auto simp: complete_def split: option.splits)
    show "dom f \<subseteq> {i. i < R \<and> complete R K f i < K}"
    proof
      fix i assume "i \<in> dom f"
      then obtain j where j: "f i = Some j" by blast
      then have "i < R" "j < K" using f(1,2) by (auto simp: RK dom_def ran_def)
      with j show "i \<in> {i. i < R \<and> complete R K f i < K}" by (simp add: complete_def)
    qed
  qed
  have "(\<Sum>i | i < R \<and> p i < K. cost ! i ! p i - 2 * fill_cost cost cost_limit) =
      (\<Sum>i | i < R \<and> rowsol ! i \<noteq> -1. cost ! i ! nat (rowsol ! i) - 2 * fill_cost cost cost_limit)"
    unfolding A
  proof (rule sum.cong [OF refl])
    fix i assume "i \<in> {i. i < R \<and> rowsol ! i \<noteq> -1}"
    then have "nat (rowsol ! i) = p i" using row [of i] unfolding rs by (auto split: if_splits)
    then show "cost ! i ! p i - 2 * fill_cost cost cost_limit = cost ! i ! nat (rowsol ! i) - 2 * fill_cost cost cost_limit" by simp
  qed
  moreover have "(\<Sum>i | i < R \<and> complete R K f i < K. cost ! i ! complete R K f i - 2 * fill_cost cost cost_limit) =
      (\<Sum>i\<in>dom f. cost ! i ! the (f i) - 2 * fill_cost cost cost_limit)"
    unfolding B
  proof (rule sum.cong [OF refl])
    fix i assume "i \<in> dom f"
    then have "complete R K f i = the (f i)" using f(1) by (auto simp: complete_def RK)
    then show "cost ! i ! complete R K f i - 2 * fill_cost cost cost_limit = cost ! i ! the (f i) - 2 * fill_cost cost cost_limit" by simp
  qed
  ultimately show ?thesis
    using opt [OF cp] extended_total [where cost = cost and cost_limit = cost_limit, folded RK, OF p]
      extended_total [where cost = cost and cost_limit = cost_limit, folded RK, OF cp]
    by (simp add: RK)
qed



text \<open> No pair that costs more than the limit is matched. \<close>

theorem execLapjv_within_limit:
  fixes cost :: "'f::linordered_field list list"
  assumes r: "rectangular cost (Some limit)" "0 < length (cost ! 0)"
    and e: "execLapjv cost True (Some limit) ret = Some (Inr (rowsol, colsol, opt))"
    and i: "i < length cost" "rowsol ! i \<noteq> -1"
  shows "cost ! i ! nat (rowsol ! i) \<le> limit"
proof -
  define A where "A = {i. i < length cost \<and> rowsol ! i \<noteq> -1}"
  define f where "f k = (if k \<in> A - {i} then Some (nat (rowsol ! k)) else None)" for k
  obtain rs cs op p q where e': "execLapjv cost True (Some limit) ret = Some (Inr (rs, cs, op))"
    and p: "inj_on p {..<length cost + length (cost ! 0)}"
    and row: "\<And>i. i < length cost \<Longrightarrow> rs ! i = (if p i < length (cost ! 0) then int (p i) else -1)"
    by (rule exec_permutation [OF r, of ret]) blast
  from e e' have rs: "rs = rowsol" by simp
  have pk: "nat (rowsol ! k) = p k \<and> p k < length (cost ! 0) \<and> k < length cost" if "k \<in> A" for k
    using row [of k] that unfolding rs A_def by (auto split: if_splits)
  have d: "dom f = A - {i}" by (auto simp: f_def split: if_splits)
  have "inj_on f (dom f)"
  proof (rule inj_onI)
    fix a b assume ab: "a \<in> dom f" "b \<in> dom f" "f a = f b"
    then have "a \<in> A" "b \<in> A" "nat (rowsol ! a) = nat (rowsol ! b)" unfolding d by (simp_all add: f_def)
    with pk have "p a = p b" "a < length cost" "b < length cost" by metis+
    with p show "a = b" by (simp add: inj_on_def)
  qed
  moreover have "ran f \<subseteq> {..<length (cost ! 0)}" using pk by (auto simp: ran_def f_def split: if_splits)
  moreover have "dom f \<subseteq> {..<length cost}" unfolding d by (auto simp: A_def)
  ultimately have "(\<Sum>k\<in>A. cost ! k ! nat (rowsol ! k) - 2 * fill_cost cost (Some limit)) \<le>
      (\<Sum>k\<in>dom f. cost ! k ! the (f k) - 2 * fill_cost cost (Some limit))"
    unfolding A_def by (intro exec_minimal [OF r e])
  also have "\<dots> = (\<Sum>k\<in>A - {i}. cost ! k ! nat (rowsol ! k) - 2 * fill_cost cost (Some limit))"
    unfolding d by (intro sum.cong) (auto simp: f_def)
  finally have le: "(\<Sum>k\<in>A. cost ! k ! nat (rowsol ! k) - 2 * fill_cost cost (Some limit)) \<le>
      (\<Sum>k\<in>A - {i}. cost ! k ! nat (rowsol ! k) - 2 * fill_cost cost (Some limit))" .
  have "finite A" "i \<in> A" using i by (simp_all add: A_def)
  from le sum.remove [OF this, of "\<lambda>k. cost ! k ! nat (rowsol ! k) - 2 * fill_cost cost (Some limit)"]
  have "cost ! i ! nat (rowsol ! i) - 2 * fill_cost cost (Some limit) \<le> 0" by simp
  then show ?thesis by (simp add: fill_cost_def)
qed

theorem execLapjv_within_limit_witness:
  "\<exists>rowsol colsol opt. execLapjv [[1 / 100, 1 / 200]] True (Some (1 / 50 :: rat)) True = Some (Inr (rowsol, colsol, opt)) \<and>
     rowsol ! 0 \<noteq> -1 \<and> [[1 / 100, 1 / 200]] ! 0 ! nat (rowsol ! 0) \<le> (1 / 50 :: rat)"
proof -
  obtain rowsol colsol opt where e: "execLapjv [[1 / 100, 1 / 200]] True (Some (1 / 50 :: rat)) True = Some (Inr (rowsol, colsol, opt))"
    by (rule exec_permutation [OF rectangular_example, of True]) simp_all
  have "(\<Sum>i | i < 1 \<and> rowsol ! i \<noteq> -1. [[1 / 100, 1 / 200]] ! i ! nat (rowsol ! i) - 1 / 50) \<le> (- 3 / 200 :: rat)"
    using exec_minimal [OF rectangular_example _ e, of "[0 \<mapsto> 1]"] by (simp add: fill_cost_def)
  note le = this
  have m: "rowsol ! 0 \<noteq> -1"
  proof
    assume "rowsol ! 0 = -1"
    then have none: "{i. i < 1 \<and> rowsol ! i \<noteq> -1} = {}" by (auto intro: gr0I)
    from le show False unfolding none by simp
  qed
  moreover have "[[1 / 100, 1 / 200]] ! 0 ! nat (rowsol ! 0) \<le> (1 / 50 :: rat)"
    by (rule execLapjv_within_limit [OF rectangular_example _ e]) (simp_all add: m)
  ultimately show ?thesis using e by blast
qed

end
