(* ===== verification/KalmanFilter.thy ===== *)
theory KalmanFilter
  imports Complex_Main Prelude
begin

text \<open>
  The filters of the object tracker (src/utility/ObjectTrackerImpl.cpp): the Kalman filter with its
  freezing for lost tracks, and the tracker of one box with its spatial filter. Floats are reals; an
  Eigen vector is a function of the index and a matrix one of row and column, read below the
  dimensions the code gives them; Eigen's inverse is the argument \<open>einv\<close>.
\<close>

section \<open>Vectors and matrices\<close>

type_synonym vec = "nat \<Rightarrow> real"
type_synonym mat = "nat \<Rightarrow> nat \<Rightarrow> real"

definition mmul :: "nat \<Rightarrow> mat \<Rightarrow> mat \<Rightarrow> mat" where "mmul n A B = (\<lambda>i j. \<Sum>k<n. A i k * B k j)"
definition mvec :: "nat \<Rightarrow> mat \<Rightarrow> vec \<Rightarrow> vec" where "mvec n A v = (\<lambda>i. \<Sum>k<n. A i k * v k)"
definition madd :: "mat \<Rightarrow> mat \<Rightarrow> mat" where "madd A B = (\<lambda>i j. A i j + B i j)"
definition msub :: "mat \<Rightarrow> mat \<Rightarrow> mat" where "msub A B = (\<lambda>i j. A i j - B i j)"
definition mtr :: "mat \<Rightarrow> mat" where "mtr A = (\<lambda>i j. A j i)"
definition mscale :: "real \<Rightarrow> mat \<Rightarrow> mat" where "mscale a A = (\<lambda>i j. a * A i j)"
definition mid :: mat where "mid = (\<lambda>i j. if i = j then 1 else 0)"
definition mzero :: mat where "mzero = (\<lambda>i j. 0)"

definition vec_of :: "real list \<Rightarrow> vec" where
  "vec_of xs = (\<lambda>i. if i < length xs then xs ! i else 0)"

section \<open>The Kalman filter\<close>

datatype filter_type = boxFilter | spatialFilter

text \<open>An observation is None for the empty vector the code passes when a track is not matched.\<close>

record kf_data =
  sv_x :: vec
  sv_P :: mat
  sv_Q :: mat
  sv_B :: mat
  sv_F :: mat
  sv_H :: mat
  sv_R :: mat
  sv_alpha_sq :: real
  sv_M :: mat
  sv_z :: vec
  sv_K :: mat
  sv_y :: vec
  sv_S :: mat
  sv_SI :: mat
  sv_x_prior :: vec
  sv_P_prior :: mat
  sv_x_post :: vec
  sv_P_post :: mat
  sv_history_obs :: "vec option list"

record kf =
  dim_x :: nat
  dim_z :: nat
  filterType :: filter_type
  kx :: vec
  kP :: mat
  kQ :: mat
  kB :: mat
  kF :: mat
  kH :: mat
  kR :: mat
  alpha_sq :: real
  kM :: mat
  kz :: vec
  kK :: mat
  ky :: vec
  kS :: mat
  kSI :: mat
  x_prior :: vec
  P_prior :: mat
  x_post :: vec
  P_post :: mat
  history_obs :: "vec option list"
  observed :: bool
  new_history :: "vec option list"
  attr_saved :: "kf_data option"

definition KalmanFilterNew :: "nat \<Rightarrow> nat \<Rightarrow> filter_type \<Rightarrow> kf" where
  "KalmanFilterNew dx dz ft =
     \<lparr>dim_x = dx, dim_z = dz, filterType = ft, kx = (\<lambda>_. 0), kP = mid, kQ = mid, kB = mid, kF = mid, kH = mzero,
      kR = mid, alpha_sq = 1, kM = mzero, kz = (\<lambda>_. 0), kK = mzero, ky = (\<lambda>_. 0), kS = mzero, kSI = mzero,
      x_prior = (\<lambda>_. 0), P_prior = mid, x_post = (\<lambda>_. 0), P_post = mid, history_obs = [], observed = False,
      new_history = [], attr_saved = None\<rparr>"

definition kf_predict :: "kf \<Rightarrow> kf" where
  "kf_predict k =
     (let n = dim_x k;
          x = mvec n (kF k) (kx k);
          P = madd (mscale (alpha_sq k) (mmul n (mmul n (kF k) (kP k)) (mtr (kF k)))) (kQ k)
      in k\<lparr>kx := x, kP := P, x_prior := x, P_prior := P\<rparr>)"

text \<open>The correction by a measurement, in \<open>update\<close> and in the loop of \<open>unfreeze\<close>.\<close>

definition kf_correct :: "(nat \<Rightarrow> mat \<Rightarrow> mat) \<Rightarrow> vec \<Rightarrow> kf \<Rightarrow> kf" where
  "kf_correct einv zz k =
     (let n = dim_x k; m = dim_z k;
          y = (\<lambda>i. zz i - mvec n (kH k) (kx k) i);
          PHT = mmul n (kP k) (mtr (kH k));
          S = madd (mmul n (kH k) PHT) (kR k);
          SI = einv m S;
          K = mmul m PHT SI;
          x = (\<lambda>i. kx k i + mvec m K y i);
          I_KH = msub mid (mmul m K (kH k));
          P_INT = mmul n I_KH (kP k);
          P = madd (mmul n P_INT (mtr I_KH)) (mmul m (mmul m K (kR k)) (mtr K))
      in k\<lparr>ky := y, kS := S, kSI := SI, kK := K, kx := x, kP := P, kz := zz, x_post := x, P_post := P\<rparr>)"

definition freeze :: "kf \<Rightarrow> kf" where
  "freeze k =
     (if filterType k \<noteq> boxFilter then k
      else k\<lparr>attr_saved := Some
        \<lparr>sv_x = kx k, sv_P = kP k, sv_Q = kQ k, sv_B = kB k, sv_F = kF k, sv_H = kH k, sv_R = kR k,
         sv_alpha_sq = alpha_sq k, sv_M = kM k, sv_z = kz k, sv_K = kK k, sv_y = ky k, sv_S = kS k, sv_SI = kSI k,
         sv_x_prior = x_prior k, sv_P_prior = P_prior k, sv_x_post = x_post k, sv_P_post = P_post k,
         sv_history_obs = history_obs k\<rparr>\<rparr>)"

text \<open>The boxes between the last two observations, on a line in position, width and height.\<close>

definition virtual_box :: "vec \<Rightarrow> vec \<Rightarrow> nat \<Rightarrow> nat \<Rightarrow> vec" where
  "virtual_box box1 box2 time_gap i =
     (let w1 = sqrt (box1 2 * box1 3); h1 = sqrt (box1 2 / box1 3);
          w2 = sqrt (box2 2 * box2 3); h2 = sqrt (box2 2 / box2 3);
          dx = (box2 0 - box1 0) / real time_gap; dy = (box1 1 - box2 1) / real time_gap;
          dw = (w2 - w1) / real time_gap; dh = (h2 - h1) / real time_gap;
          x = box1 0 + (real i + 1) * dx; y = box1 1 + (real i + 1) * dy;
          w = w1 + (real i + 1) * dw; h = h1 + (real i + 1) * dh
      in vec_of [x, y, w * h, w / h])"

definition restore :: "kf_data \<Rightarrow> kf \<Rightarrow> kf" where
  "restore s k =
     k\<lparr>new_history := history_obs k, kx := sv_x s, kP := sv_P s, kQ := sv_Q s, kB := sv_B s, kF := sv_F s,
       kH := sv_H s, kR := sv_R s, alpha_sq := sv_alpha_sq s, kM := sv_M s, kz := sv_z s, kK := sv_K s,
       ky := sv_y s, kS := sv_S s, kSI := sv_SI s, x_prior := sv_x_prior s, P_prior := sv_P_prior s,
       x_post := sv_x_post s, history_obs := butlast (history_obs k)\<rparr>"

definition virtual_step :: "(nat \<Rightarrow> mat \<Rightarrow> mat) \<Rightarrow> vec \<Rightarrow> vec \<Rightarrow> nat \<Rightarrow> nat \<Rightarrow> kf \<Rightarrow> kf" where
  "virtual_step einv box1 box2 time_gap i k =
     (let k' = kf_correct einv (virtual_box box1 box2 time_gap i) k
      in if i \<noteq> time_gap - 1 then kf_predict k' else k')"

definition unfreeze :: "(nat \<Rightarrow> mat \<Rightarrow> mat) \<Rightarrow> kf \<Rightarrow> kf" where
  "unfreeze einv k =
     (case (filterType k, attr_saved k) of
        (boxFilter, Some s) \<Rightarrow>
          (let h = history_obs k; k1 = restore s k
           in case filter (\<lambda>i. h ! i \<noteq> None) (List.rev [0..<length h]) of
                i2 # i1 # _ \<Rightarrow>
                  fold (virtual_step einv (the (h ! i1)) (the (h ! i2)) (i2 - i1)) [0..<i2 - i1] k1
              | _ \<Rightarrow> k1)
      | _ \<Rightarrow> k)"

definition kf_update :: "(nat \<Rightarrow> mat \<Rightarrow> mat) \<Rightarrow> vec option \<Rightarrow> kf \<Rightarrow> kf" where
  "kf_update einv zo k =
     (let k1 = (if filterType k = boxFilter then k\<lparr>history_obs := history_obs k @ [zo]\<rparr> else k)
      in case zo of
           None \<Rightarrow>
             (let k2 = (if observed k1 then freeze k1 else k1)
              in k2\<lparr>observed := False, kz := (\<lambda>_. 0), x_post := kx k2, P_post := kP k2, ky := (\<lambda>_. 0)\<rparr>)
         | Some zz \<Rightarrow>
             (let k2 = (if \<not> observed k1 then unfreeze einv k1 else k1)
              in kf_correct einv zz (k2\<lparr>observed := True\<rparr>)))"

section \<open>The tracker of one box\<close>

definition convert_bbox_to_z :: "vec \<Rightarrow> vec" where
  "convert_bbox_to_z bbox =
     (let w = bbox 2 - bbox 0; h = bbox 3 - bbox 1
      in vec_of [bbox 0 + w / 2, bbox 1 + h / 2, w * h, w / (h + 1 / 1000000)])"

definition convert_x_to_bbox :: "vec \<Rightarrow> vec" where
  "convert_x_to_bbox x =
     (let w = sqrt (x 2 * x 3); h = x 2 / w
      in vec_of [x 0 - w / 2, x 1 - h / 2, x 0 + w / 2, x 1 + h / 2])"

definition speed_direction :: "vec \<Rightarrow> vec \<Rightarrow> vec" where
  "speed_direction bbox1 bbox2 =
     (let cx1 = (bbox1 0 + bbox1 2) / 2; cy1 = (bbox1 1 + bbox1 3) / 2;
          cx2 = (bbox2 0 + bbox2 2) / 2; cy2 = (bbox2 1 + bbox2 3) / 2;
          nrm = sqrt ((cy2 - cy1)^2 + (cx2 - cx1)^2) + 1 / 1000000
      in vec_of [(cy2 - cy1) / nrm, (cx2 - cx1) / nrm])"

definition k_previous_obs :: "(int \<times> vec) list \<Rightarrow> int \<Rightarrow> int \<Rightarrow> vec" where
  "k_previous_obs observations cur_age k =
     (if observations = [] then (\<lambda>_. -1)
      else case List.find (\<lambda>i. map_of observations (cur_age - (k - i)) \<noteq> None) [0..k - 1] of
             Some i \<Rightarrow> the (map_of observations (cur_age - (k - i)))
           | None \<Rightarrow> snd (last observations))"

type_synonym point3f = "real \<times> real \<times> real"

record spatial_position =
  position :: vec
  validPosition :: bool

definition SpatialPosition0 :: spatial_position where
  "SpatialPosition0 = \<lparr>position = (\<lambda>_. 0), validPosition = False\<rparr>"

definition SpatialPosition :: "point3f \<Rightarrow> spatial_position" where
  "SpatialPosition p = (case p of (x, y, z) \<Rightarrow> \<lparr>position = vec_of [x, y, z], validPosition = (z \<ge> 1)\<rparr>)"

record box_tracker =
  bt_bbox :: vec
  bt_kf :: kf
  bt_kf_spatial :: kf
  time_since_update :: int
  bt_history :: "vec list"
  hits :: int
  hit_streak :: int
  bt_age :: int
  conf :: real
  bt_cls :: int
  last_observation :: vec
  observations :: "(int \<times> vec) list"
  history_observations :: "vec list"
  velocity :: vec
  spatial_velocity :: vec
  spatial_observation :: spatial_position
  spatial_prediction :: spatial_position
  has_spatial_state :: bool
  delta_t :: int
  bt_remove :: bool

text \<open>The three axes of the spatial model; positions are 0 to 2, velocities 3 to 5.\<close>

definition spatial_F :: "real \<Rightarrow> mat" where
  "spatial_F dt = (\<lambda>i j. if i = j then 1 else if i < 3 \<and> j = i + 3 then dt else 0)"

definition spatial_Q :: "real \<Rightarrow> mat" where
  "spatial_Q dt =
     (let a = 2500 * 2500; dt2 = dt * dt; dt3 = dt2 * dt; dt4 = dt2 * dt2
      in (\<lambda>i j. if i < 3 \<and> j = i then max (a * (dt4 * (1 / 4))) (1 / 1000)
                else if i < 3 \<and> j = i + 3 \<or> j < 3 \<and> i = j + 3 then a * (dt3 * (1 / 2))
                else if 3 \<le> i \<and> i < 6 \<and> j = i then max (a * dt2) (1 / 100)
                else 0))"

definition update_spatial_model_dt :: "real \<Rightarrow> box_tracker \<Rightarrow> box_tracker" where
  "update_spatial_model_dt dtSeconds t =
     (let dt = (if dtSeconds \<le> 0 then 1 / 30 else dtSeconds)
      in t\<lparr>bt_kf_spatial := (bt_kf_spatial t)\<lparr>kF := spatial_F dt, kQ := spatial_Q dt\<rparr>\<rparr>)"

definition box_filter0 :: "vec \<Rightarrow> kf" where
  "box_filter0 bbox =
     (let k = KalmanFilterNew 7 4 boxFilter
      in k\<lparr>kF := (\<lambda>i j. if i = j \<or> i < 3 \<and> j = i + 4 then 1 else 0),
           kH := (\<lambda>i j. if i = j \<and> i < 4 then 1 else 0),
           kR := (\<lambda>i j. if 2 \<le> i \<and> 2 \<le> j then 10 * mid i j else mid i j),
           kP := (\<lambda>i j. 10 * (if 4 \<le> i \<and> 4 \<le> j then 1000 * mid i j else mid i j)),
           kQ := (\<lambda>i j. if i = 6 \<and> j = 6 then mid i j * (1 / 100) * (1 / 100)
                        else if 4 \<le> i \<and> 4 \<le> j then mid i j * (1 / 100) else mid i j),
           kx := (\<lambda>i. if i < 4 then convert_bbox_to_z bbox i else 0)\<rparr>)"

definition spatial_filter0 :: kf where
  "spatial_filter0 =
     (let k = KalmanFilterNew 6 3 spatialFilter
      in k\<lparr>kH := (\<lambda>i j. if i = j \<and> i < 3 then 1 else 0),
           kP := (\<lambda>i j. 10 * (if 3 \<le> i \<and> 3 \<le> j then 1000 * mid i j else mid i j))\<rparr>)"

definition KalmanBoxTracker :: "vec \<Rightarrow> int \<Rightarrow> point3f \<Rightarrow> int \<Rightarrow> box_tracker" where
  "KalmanBoxTracker bbox cls spatialPoint dlt =
     (let obs = SpatialPosition spatialPoint;
          t = update_spatial_model_dt (1 / 30)
                \<lparr>bt_bbox = bbox, bt_kf = box_filter0 bbox, bt_kf_spatial = spatial_filter0, time_since_update = 0,
                 bt_history = [], hits = 0, hit_streak = 0, bt_age = 0, conf = bbox 4, bt_cls = cls,
                 last_observation = (\<lambda>_. -1), observations = [], history_observations = [], velocity = (\<lambda>_. 0),
                 spatial_velocity = (\<lambda>_. 0), spatial_observation = obs, spatial_prediction = obs,
                 has_spatial_state = validPosition obs, delta_t = dlt, bt_remove = False\<rparr>
      in if validPosition obs
         then t\<lparr>bt_kf_spatial := (bt_kf_spatial t)\<lparr>kx := (\<lambda>i. if i < 3 then position obs i else kx (bt_kf_spatial t) i)\<rparr>\<rparr>
         else t)"

text \<open>The part of \<open>update\<close> for a matched box.\<close>

definition observe_box :: "(nat \<Rightarrow> mat \<Rightarrow> mat) \<Rightarrow> vec \<Rightarrow> int \<Rightarrow> box_tracker \<Rightarrow> box_tracker" where
  "observe_box einv bbox cls t =
     (let t1 = t\<lparr>conf := bbox 4, bt_cls := cls\<rparr>;
          t2 = (if (\<Sum>i<5. last_observation t i) > -1 then
                  (let previous = (case List.find (\<lambda>dt. map_of (observations t) (bt_age t - dt) \<noteq> None) (List.rev [1..delta_t t]) of
                                     Some dt \<Rightarrow> the (map_of (observations t) (bt_age t - dt))
                                   | None \<Rightarrow> last_observation t)
                   in t1\<lparr>observations := (if length (observations t) > 300 then tl (observations t) else observations t),
                         velocity := speed_direction previous bbox\<rparr>)
                else t1)
      in t2\<lparr>last_observation := bbox,
            observations := smap_upd (bt_age t) bbox (observations t2),
            history_observations := history_observations t @ [bbox],
            time_since_update := 0, bt_history := [], hits := hits t + 1, hit_streak := hit_streak t + 1,
            bt_kf := kf_update einv (Some (convert_bbox_to_z bbox)) (bt_kf t)\<rparr>)"

text \<open>The part of \<open>update\<close> for the spatial filter.\<close>

definition spatial_R :: "real \<Rightarrow> mat" where
  "spatial_R z =
     (let depthFactor = 1 + max z 0 / 4000; xyStd = 45 * depthFactor; zStd = 80 * depthFactor
      in (\<lambda>i j. if i = 0 \<and> j = 0 \<or> i = 1 \<and> j = 1 then xyStd * xyStd else if i = 2 \<and> j = 2 then zStd * zStd else mid i j))"

definition spatial_P0 :: "real \<Rightarrow> mat" where
  "spatial_P0 z =
     (let depthFactor = 1 + max z 0 / 4000; xyStd = 45 * depthFactor; zStd = 80 * depthFactor;
          xyVar = xyStd * xyStd; zVar = zStd * zStd
      in (\<lambda>i j. if i \<noteq> j then 0
                else if i < 2 then max (1 / 4 * xyVar) (1 / 1000)
                else if i = 2 then max (1 / 4 * zVar) (1 / 1000)
                else if i < 5 then max (100 * xyVar) (1 / 100)
                else if i = 5 then max (100 * zVar) (1 / 100) else 0))"

definition observe_point :: "(nat \<Rightarrow> mat \<Rightarrow> mat) \<Rightarrow> point3f option \<Rightarrow> box_tracker \<Rightarrow> box_tracker" where
  "observe_point einv po t =
     (case po of
        Some (x, y, z) \<Rightarrow>
          if z \<ge> 1 then
            (let m = SpatialPosition (x, y, z);
                 ks = (bt_kf_spatial t)\<lparr>kR := spatial_R z\<rparr>;
                 ks' = (if \<not> has_spatial_state t
                        then ks\<lparr>kx := (\<lambda>i. if i < 3 then position m i else if i < 6 then 0 else kx ks i), kP := spatial_P0 z\<rparr>
                        else kf_update einv (Some (vec_of [x, y, z])) ks)
             in t\<lparr>bt_kf_spatial := ks', spatial_observation := m,
                  spatial_prediction := \<lparr>position = (\<lambda>i. if i < 3 then kx ks' i else position (spatial_prediction t) i), validPosition = True\<rparr>,
                  spatial_velocity := (\<lambda>i. kx ks' (i + 3)), has_spatial_state := True\<rparr>)
          else if has_spatial_state t then t\<lparr>bt_kf_spatial := kf_update einv None (bt_kf_spatial t)\<rparr>
          else t\<lparr>spatial_observation := SpatialPosition0, spatial_prediction := SpatialPosition0, spatial_velocity := (\<lambda>_. 0)\<rparr>
      | None \<Rightarrow>
          if has_spatial_state t then t\<lparr>bt_kf_spatial := kf_update einv None (bt_kf_spatial t)\<rparr>
          else t\<lparr>spatial_observation := SpatialPosition0, spatial_prediction := SpatialPosition0, spatial_velocity := (\<lambda>_. 0)\<rparr>)"

definition bt_update :: "(nat \<Rightarrow> mat \<Rightarrow> mat) \<Rightarrow> (vec \<times> int) option \<Rightarrow> point3f option \<Rightarrow> box_tracker \<Rightarrow> box_tracker" where
  "bt_update einv bo po t =
     observe_point einv po
       (case bo of
          Some (bbox, cls) \<Rightarrow> observe_box einv bbox cls t
        | None \<Rightarrow> t\<lparr>bt_kf := kf_update einv None (bt_kf t)\<rparr>)"

definition bt_predict :: "box_tracker \<Rightarrow> vec \<times> box_tracker" where
  "bt_predict t =
     (let k = bt_kf t;
          k1 = (if kx k 6 + kx k 2 \<le> 0 then k\<lparr>kx := (kx k)(6 := 0)\<rparr> else k);
          k2 = kf_predict k1;
          t1 = t\<lparr>bt_kf := k2\<rparr>;
          t2 = (if has_spatial_state t then
                  (let ks = kf_predict (bt_kf_spatial t)
                   in t1\<lparr>bt_kf_spatial := ks,
                         spatial_prediction := \<lparr>position = (\<lambda>i. if i < 3 then kx ks i else position (spatial_prediction t) i),
                                                validPosition = (kx ks 2 \<ge> 1)\<rparr>,
                         spatial_velocity := (\<lambda>i. kx ks (i + 3))\<rparr>)
                else t1\<lparr>spatial_prediction := SpatialPosition0, spatial_velocity := (\<lambda>_. 0)\<rparr>);
          box = convert_x_to_bbox (kx k2)
      in (box, t2\<lparr>bt_age := bt_age t + 1,
                  hit_streak := (if time_since_update t > 0 then 0 else hit_streak t),
                  time_since_update := time_since_update t + 1,
                  bt_history := bt_history t @ [box]\<rparr>))"

definition get_state :: "box_tracker \<Rightarrow> vec" where
  "get_state t = convert_x_to_bbox (kx (bt_kf t))"

section \<open>Covariances\<close>

text \<open>A covariance is symmetric and has no negative variance in any direction.\<close>

definition quad :: "nat \<Rightarrow> mat \<Rightarrow> vec \<Rightarrow> real" where
  "quad n A w = (\<Sum>i<n. \<Sum>j<n. w i * A i j * w j)"

definition cov :: "nat \<Rightarrow> mat \<Rightarrow> bool" where
  "cov n A \<longleftrightarrow> (\<forall>i<n. \<forall>j<n. A i j = A j i) \<and> (\<forall>w. 0 \<le> quad n A w)"

lemma cov_add: "cov n A \<Longrightarrow> cov n B \<Longrightarrow> cov n (madd A B)"
proof -
  have "quad n (madd A B) w = quad n A w + quad n B w" for w
    by (simp add: quad_def madd_def sum.distrib distrib_left distrib_right)
  then show "cov n A \<Longrightarrow> cov n B \<Longrightarrow> cov n (madd A B)" by (simp add: cov_def) (simp add: madd_def)
qed

lemma cov_scale: "cov n A \<Longrightarrow> 0 \<le> a \<Longrightarrow> cov n (mscale a A)"
proof -
  have "quad n (mscale a A) w = a * quad n A w" for w
    by (simp add: quad_def mscale_def sum_distrib_left ac_simps)
  then show "cov n A \<Longrightarrow> 0 \<le> a \<Longrightarrow> cov n (mscale a A)" by (simp add: cov_def) (simp add: mscale_def)
qed

lemma congruence_at: "mmul n (mmul n A P) (mtr A) i j = (\<Sum>k<n. \<Sum>l<n. A i k * P k l * A j l)"
proof -
  have "mmul n (mmul n A P) (mtr A) i j = (\<Sum>l<n. \<Sum>k<n. A i k * P k l * A j l)"
    by (simp add: mmul_def mtr_def sum_distrib_right)
  also have "\<dots> = (\<Sum>k<n. \<Sum>l<n. A i k * P k l * A j l)" by (rule sum.swap)
  finally show ?thesis .
qed

lemma sum_product3:
  fixes c :: real
  shows "(\<Sum>i\<in>A. \<Sum>j\<in>B. f i * c * g j) = (\<Sum>i\<in>A. f i) * c * (\<Sum>j\<in>B. g j)"
  by (subst sum_distrib_right) (rule sum_product [symmetric])

lemma sum_swap3: "(\<Sum>i\<in>A. \<Sum>j\<in>B. \<Sum>k\<in>C. f i j k) = (\<Sum>k\<in>C. \<Sum>i\<in>A. \<Sum>j\<in>B. f i j k)"
proof -
  have "(\<Sum>i\<in>A. \<Sum>j\<in>B. \<Sum>k\<in>C. f i j k) = (\<Sum>i\<in>A. \<Sum>k\<in>C. \<Sum>j\<in>B. f i j k)"
    by (intro sum.cong refl sum.swap)
  also have "\<dots> = (\<Sum>k\<in>C. \<Sum>i\<in>A. \<Sum>j\<in>B. f i j k)" by (rule sum.swap)
  finally show ?thesis .
qed

lemma sum_swap4:
  "(\<Sum>i\<in>A. \<Sum>j\<in>B. \<Sum>k\<in>C. \<Sum>l\<in>D. f i j k l) = (\<Sum>k\<in>C. \<Sum>l\<in>D. \<Sum>i\<in>A. \<Sum>j\<in>B. f i j k l)"
proof -
  have "(\<Sum>i\<in>A. \<Sum>j\<in>B. \<Sum>k\<in>C. \<Sum>l\<in>D. f i j k l) = (\<Sum>k\<in>C. \<Sum>i\<in>A. \<Sum>j\<in>B. \<Sum>l\<in>D. f i j k l)"
    by (rule sum_swap3)
  also have "\<dots> = (\<Sum>k\<in>C. \<Sum>l\<in>D. \<Sum>i\<in>A. \<Sum>j\<in>B. f i j k l)"
    by (intro sum.cong refl sum_swap3)
  finally show ?thesis .
qed

lemma quad_congruence: "quad m (mmul n (mmul n A P) (mtr A)) w = quad n P (\<lambda>k. \<Sum>i<m. w i * A i k)"
proof -
  have "quad m (mmul n (mmul n A P) (mtr A)) w = (\<Sum>i<m. \<Sum>j<m. \<Sum>k<n. \<Sum>l<n. (w i * A i k) * P k l * (w j * A j l))"
    by (simp add: quad_def congruence_at sum_distrib_left sum_distrib_right ac_simps)
  also have "\<dots> = (\<Sum>k<n. \<Sum>l<n. \<Sum>i<m. \<Sum>j<m. (w i * A i k) * P k l * (w j * A j l))"
    by (rule sum_swap4)
  also have "\<dots> = quad n P (\<lambda>k. \<Sum>i<m. w i * A i k)"
    unfolding quad_def by (intro sum.cong refl sum_product3)
  finally show ?thesis .
qed

lemma cov_congruence:
  assumes "cov n P"
  shows "cov m (mmul n (mmul n A P) (mtr A))"
proof -
  have "mmul n (mmul n A P) (mtr A) i j = mmul n (mmul n A P) (mtr A) j i" for i j
  proof -
    have "(\<Sum>k<n. \<Sum>l<n. A i k * P k l * A j l) = (\<Sum>l<n. \<Sum>k<n. A i k * P k l * A j l)" by (rule sum.swap)
    also have "\<dots> = (\<Sum>l<n. \<Sum>k<n. A j l * P l k * A i k)"
      using assms by (intro sum.cong refl) (simp add: cov_def)
    finally show ?thesis by (simp add: congruence_at)
  qed
  with assms show ?thesis by (simp add: cov_def quad_congruence)
qed

lemma cov_diagonal:
  assumes "\<And>i. i < n \<Longrightarrow> 0 \<le> D i i" "\<And>i j. i < n \<Longrightarrow> j < n \<Longrightarrow> i \<noteq> j \<Longrightarrow> D i j = 0"
  shows "cov n D"
proof -
  have "quad n D w = (\<Sum>i<n. D i i * (w i)^2)" for w
  proof -
    have "(\<Sum>j<n. w i * D i j * w j) = D i i * (w i)^2" if i: "i < n" for i
    proof -
      have "(\<Sum>j<n. w i * D i j * w j) = (\<Sum>j<n. if j = i then D i i * (w i)^2 else 0)"
        using assms(2) [OF i] by (intro sum.cong refl) (auto simp: power2_eq_square)
      with i show ?thesis by simp
    qed
    then show ?thesis by (simp add: quad_def)
  qed
  moreover have "0 \<le> (\<Sum>i<n. D i i * (w i)^2)" for w using assms(1) by (intro sum_nonneg) simp
  moreover have "D i j = D j i" if "i < n" "j < n" for i j using assms(2) [OF that] assms(2) [OF that(2,1)] by (cases "i = j") simp_all
  ultimately show ?thesis by (simp add: cov_def)
qed

text \<open>The noise of a body under a random acceleration.\<close>

lemma cov_spatial_Q: "cov 6 (spatial_Q dt)"
proof -
  have axis: "0 \<le> max (a * (dt * dt * (dt * dt) * (1 / 4))) e * (p * p) + 2 * (a * (dt * dt * dt * (1 / 2)) * (p * u)) + max (a * (dt * dt)) e' * (u * u)"
    if "0 \<le> a" for a e e' p u :: real
  proof -
    have "0 \<le> a * (dt * dt)" using that by simp
    then have "0 \<le> a * (dt * dt) * ((dt * p / 2 + u) * (dt * p / 2 + u))" by (rule mult_nonneg_nonneg) (rule zero_le_square)
    also have "\<dots> = a * (dt * dt * (dt * dt) * (1 / 4)) * (p * p) + 2 * (a * (dt * dt * dt * (1 / 2)) * (p * u)) + a * (dt * dt) * (u * u)"
      by (simp add: algebra_simps)
    also have "\<dots> \<le> max (a * (dt * dt * (dt * dt) * (1 / 4))) e * (p * p) + 2 * (a * (dt * dt * dt * (1 / 2)) * (p * u)) + max (a * (dt * dt)) e' * (u * u)"
      by (intro add_mono [OF add_mono [OF _ order_refl]] mult_right_mono) simp_all
    finally show ?thesis .
  qed
  have sym: "spatial_Q dt i j = spatial_Q dt j i" for i j by (auto simp: spatial_Q_def Let_def)
  have "0 \<le> quad 6 (spatial_Q dt) w" for w
  proof -
    have six: "{..<6} = {0, 1, 2, 3, 4, 5::nat}" by auto
    have "quad 6 (spatial_Q dt) w =
      (max (6250000 * (dt * dt * (dt * dt) * (1 / 4))) (1 / 1000) * (w 0 * w 0) + 2 * (6250000 * (dt * dt * dt * (1 / 2)) * (w 0 * w 3)) + max (6250000 * (dt * dt)) (1 / 100) * (w 3 * w 3)) +
      ((max (6250000 * (dt * dt * (dt * dt) * (1 / 4))) (1 / 1000) * (w 1 * w 1) + 2 * (6250000 * (dt * dt * dt * (1 / 2)) * (w 1 * w 4)) + max (6250000 * (dt * dt)) (1 / 100) * (w 4 * w 4)) +
       (max (6250000 * (dt * dt * (dt * dt) * (1 / 4))) (1 / 1000) * (w 2 * w 2) + 2 * (6250000 * (dt * dt * dt * (1 / 2)) * (w 2 * w 5)) + max (6250000 * (dt * dt)) (1 / 100) * (w 5 * w 5)))"
      by (simp add: quad_def six spatial_Q_def Let_def)
    also have "\<dots> \<ge> 0" by (intro add_nonneg_nonneg axis) simp_all
    finally show ?thesis .
  qed
  with sym show ?thesis by (simp add: cov_def)
qed

definition saved_ok :: "nat \<Rightarrow> nat \<Rightarrow> kf_data \<Rightarrow> bool" where
  "saved_ok n m s \<longleftrightarrow> cov n (sv_P s) \<and> cov n (sv_Q s) \<and> cov m (sv_R s) \<and> 0 \<le> sv_alpha_sq s"

definition kf_ok :: "nat \<Rightarrow> nat \<Rightarrow> kf \<Rightarrow> bool" where
  "kf_ok n m k \<longleftrightarrow> dim_x k = n \<and> dim_z k = m \<and> cov n (kP k) \<and> cov n (kQ k) \<and> cov m (kR k) \<and> 0 \<le> alpha_sq k \<and>
     (case attr_saved k of None \<Rightarrow> True | Some s \<Rightarrow> saved_ok n m s)"

lemma kf_predict_ok: "kf_ok n m k \<Longrightarrow> kf_ok n m (kf_predict k)"
  by (simp add: kf_ok_def kf_predict_def Let_def cov_add cov_scale cov_congruence)

text \<open>Joseph's form of the correction needs no property of the gain.\<close>

lemma kf_correct_ok: "kf_ok n m k \<Longrightarrow> kf_ok n m (kf_correct einv zz k)"
  by (simp add: kf_ok_def kf_correct_def Let_def cov_add cov_congruence)

lemma freeze_ok: "kf_ok n m k \<Longrightarrow> kf_ok n m (freeze k)"
  by (simp add: kf_ok_def freeze_def saved_ok_def)

lemma fold_ok: "(\<And>i k. P k \<Longrightarrow> P (f i k)) \<Longrightarrow> P k \<Longrightarrow> P (fold f xs k)"
  by (induction xs arbitrary: k) auto

lemma restore_ok: "kf_ok n m k \<Longrightarrow> attr_saved k = Some s \<Longrightarrow> kf_ok n m (restore s k)"
  by (simp add: kf_ok_def restore_def saved_ok_def)

lemma virtual_step_ok: "kf_ok n m k \<Longrightarrow> kf_ok n m (virtual_step einv b1 b2 g i k)"
  by (simp add: virtual_step_def Let_def kf_correct_ok kf_predict_ok)

lemma unfreeze_ok: "kf_ok n m k \<Longrightarrow> kf_ok n m (unfreeze einv k)"
  unfolding unfreeze_def
  by (auto simp: Let_def restore_ok split: filter_type.split option.split list.split
      intro!: fold_ok [of "kf_ok n m"] virtual_step_ok restore_ok)

lemma kf_update_ok:
  assumes "kf_ok n m k"
  shows "kf_ok n m (kf_update einv zo k)"
proof -
  define k1 where "k1 = (if filterType k = boxFilter then k\<lparr>history_obs := history_obs k @ [zo]\<rparr> else k)"
  have k1: "kf_ok n m k1" using assms by (simp add: k1_def kf_ok_def)
  show ?thesis
  proof (cases zo)
    case None
    have "kf_ok n m (if observed k1 then freeze k1 else k1)" using k1 by (simp add: freeze_ok)
    then show ?thesis unfolding kf_update_def k1_def [symmetric] by (simp add: None Let_def kf_ok_def)
  next
    case (Some zz)
    have "kf_ok n m (if \<not> observed k1 then unfreeze einv k1 else k1)" using k1 by (simp add: unfreeze_ok)
    then have "kf_ok n m ((if \<not> observed k1 then unfreeze einv k1 else k1)\<lparr>observed := True\<rparr>)" by (simp add: kf_ok_def)
    then show ?thesis unfolding kf_update_def k1_def [symmetric] by (simp add: Some Let_def kf_correct_ok)
  qed
qed

definition bt_ok :: "box_tracker \<Rightarrow> bool" where
  "bt_ok t \<longleftrightarrow> kf_ok 7 4 (bt_kf t) \<and> kf_ok 6 3 (bt_kf_spatial t)"

lemma kf_ok_updates:
  "kf_ok n m (k\<lparr>kx := x\<rparr>) = kf_ok n m k"
  "kf_ok n m k \<Longrightarrow> cov m R \<Longrightarrow> kf_ok n m (k\<lparr>kR := R\<rparr>)"
  "kf_ok n m k \<Longrightarrow> cov n P \<Longrightarrow> kf_ok n m (k\<lparr>kx := x, kP := P\<rparr>)"
  "kf_ok n m k \<Longrightarrow> cov n Q \<Longrightarrow> kf_ok n m (k\<lparr>kF := F, kQ := Q\<rparr>)"
  by (simp_all add: kf_ok_def)

lemma cov_spatial_R: "cov 3 (spatial_R z)"
  by (rule cov_diagonal) (auto simp: spatial_R_def Let_def mid_def)

lemma cov_spatial_P0: "cov 6 (spatial_P0 z)"
  by (rule cov_diagonal) (auto simp: spatial_P0_def Let_def le_max_iff_disj)

lemma filters0_ok: "kf_ok 7 4 (box_filter0 bbox)" "kf_ok 6 3 spatial_filter0"
  by (auto simp: kf_ok_def box_filter0_def spatial_filter0_def KalmanFilterNew_def Let_def mid_def intro!: cov_diagonal)

lemma update_spatial_model_dt_ok: "bt_ok t \<Longrightarrow> bt_ok (update_spatial_model_dt dt t)"
  by (simp add: bt_ok_def update_spatial_model_dt_def Let_def kf_ok_updates cov_spatial_Q)

lemma KalmanBoxTracker_ok: "bt_ok (KalmanBoxTracker bbox cls p dlt)"
proof -
  have "bt_ok (update_spatial_model_dt dt \<lparr>bt_bbox = bbox, bt_kf = box_filter0 bbox, bt_kf_spatial = spatial_filter0, time_since_update = 0,
                 bt_history = [], hits = 0, hit_streak = 0, bt_age = 0, conf = c, bt_cls = cls,
                 last_observation = lo, observations = [], history_observations = [], velocity = ve,
                 spatial_velocity = sv, spatial_observation = obs, spatial_prediction = obs,
                 has_spatial_state = b, delta_t = dlt, bt_remove = False\<rparr>)" for dt c lo ve sv obs b
    by (rule update_spatial_model_dt_ok) (simp add: bt_ok_def filters0_ok)
  then show ?thesis by (simp add: KalmanBoxTracker_def Let_def bt_ok_def kf_ok_updates)
qed

lemma observe_box_ok: "bt_ok t \<Longrightarrow> bt_ok (observe_box einv bbox cls t)"
  by (simp add: bt_ok_def observe_box_def Let_def kf_update_ok)

lemma observe_point_ok: "bt_ok t \<Longrightarrow> bt_ok (observe_point einv po t)"
  by (simp add: bt_ok_def observe_point_def Let_def kf_update_ok kf_ok_updates cov_spatial_R cov_spatial_P0
      split: option.split prod.split)

lemma bt_update_ok:
  assumes "bt_ok t"
  shows "bt_ok (bt_update einv bo po t)"
proof -
  have "bt_ok (t\<lparr>bt_kf := kf_update einv None (bt_kf t)\<rparr>)" using assms by (simp add: bt_ok_def kf_update_ok)
  then show ?thesis
    unfolding bt_update_def by (intro observe_point_ok) (simp add: assms observe_box_ok split: option.split prod.split)
qed

lemma bt_predict_ok: "bt_ok t \<Longrightarrow> bt_ok (snd (bt_predict t))"
  by (simp add: bt_ok_def bt_predict_def Let_def kf_predict_ok kf_ok_updates)

datatype bt_op = Predict | Update "(vec \<times> int) option" "point3f option" | ModelDt real

fun bt_step :: "(nat \<Rightarrow> mat \<Rightarrow> mat) \<Rightarrow> bt_op \<Rightarrow> box_tracker \<Rightarrow> box_tracker" where
  "bt_step einv Predict t = snd (bt_predict t)"
| "bt_step einv (Update bo po) t = bt_update einv bo po t"
| "bt_step einv (ModelDt dt) t = update_spatial_model_dt dt t"

lemma bt_step_ok: "bt_ok t \<Longrightarrow> bt_ok (bt_step einv op t)"
  by (cases op) (simp_all add: bt_predict_ok bt_update_ok update_spatial_model_dt_ok)


section \<open>The history of a filter\<close>

lemma history_kept [simp]:
  "history_obs (kf_correct einv zz k) = history_obs k"
  "history_obs (kf_predict k) = history_obs k"
  "history_obs (virtual_step einv b1 b2 g i k) = history_obs k"
  by (simp_all add: kf_correct_def kf_predict_def virtual_step_def Let_def)

lemma history_fold [simp]: "history_obs (fold (virtual_step einv b1 b2 g) xs k) = history_obs k"
  by (induction xs arbitrary: k) simp_all

text \<open>
  The observation that ends a gap is not kept: \<open>unfreeze\<close> erases the last entry of the history, which
  \<open>update\<close> has just appended, instead of restoring the history of the frozen filter.
\<close>

theorem unfreeze_drops_observation:
  assumes "filterType k = boxFilter" "\<not> observed k" "attr_saved k = Some s"
  shows "history_obs (kf_update einv (Some zz) k) = history_obs k"
proof -
  define k1 where "k1 = k\<lparr>history_obs := history_obs k @ [Some zz]\<rparr>"
  have k1: "filterType k1 = boxFilter" "attr_saved k1 = Some s" "history_obs k1 = history_obs k @ [Some zz]" "\<not> observed k1"
    using assms by (simp_all add: k1_def)
  have r: "history_obs (restore s k1) = history_obs k" using k1(3) by (simp add: restore_def)
  have "history_obs (unfreeze einv k1) = history_obs k"
    using r unfolding unfreeze_def by (simp add: k1 Let_def split: list.split)
  then show ?thesis
    using assms(1) k1(4) unfolding kf_update_def by (simp add: k1_def [symmetric] Let_def)
qed

theorem unfreeze_drops_observation_witness:
  "history_obs (kf_update (\<lambda>_ A. A) (Some zz)
     (kf_update (\<lambda>_ A. A) None (kf_update (\<lambda>_ A. A) (Some yy) (KalmanFilterNew 7 4 boxFilter)))) = [Some yy, None]"
proof -
  define k where "k = kf_update (\<lambda>_ A. A) (Some yy) (KalmanFilterNew 7 4 boxFilter)"
  have k: "observed k" "filterType k = boxFilter" "history_obs k = [Some yy]"
    by (simp_all add: k_def kf_update_def unfreeze_def KalmanFilterNew_def Let_def kf_correct_def)
  define k' where "k' = kf_update (\<lambda>_ A. A) None k"
  have "\<not> observed k'" "filterType k' = boxFilter" "history_obs k' = [Some yy, None]" "\<exists>s. attr_saved k' = Some s"
    using k by (simp_all add: k'_def kf_update_def Let_def freeze_def)
  then have "history_obs (kf_update (\<lambda>_ A. A) (Some zz) k') = [Some yy, None]"
    using unfreeze_drops_observation [of k'] by auto
  then show ?thesis by (simp add: k'_def k_def)
qed

end
