(* ===== verification/TrackerAssociation.thy ===== *)
theory TrackerAssociation
  imports "HOL-Library.Multiset" KalmanFilter RectangularAssignment
begin

text \<open>
  How the object tracker pairs detections with its tracks (src/utility/ObjectTrackerImpl.cpp):
  overlaps of boxes, directions of motion, the combined scores with their spatial gate, and
  \<open>associate\<close> over the linear assignment solver. A batch of rows is a list of vectors, a matrix of scores
  a function of row and column. Division by zero is zero where a float gives a NaN.
\<close>

section \<open>Overlap of boxes\<close>

definition box_area :: "vec \<Rightarrow> real" where
  "box_area b = (b 2 - b 0) * (b 3 - b 1)"

definition box_overlap :: "vec \<Rightarrow> vec \<Rightarrow> real" where
  "box_overlap a b =
     (let xx1 = max (a 0) (b 0); yy1 = max (a 1) (b 1); xx2 = min (a 2) (b 2); yy2 = min (a 3) (b 3)
      in max (xx2 - xx1) 0 * max (yy2 - yy1) 0)"

definition box_iou :: "vec \<Rightarrow> vec \<Rightarrow> real" where
  "box_iou a b = (let wh = box_overlap a b in wh / (box_area a + box_area b - wh))"

definition iou_batch :: "vec list \<Rightarrow> vec list \<Rightarrow> mat" where
  "iou_batch bboxes1 bboxes2 = (\<lambda>i j. box_iou (bboxes1 ! i) (bboxes2 ! j))"

definition giou_batch :: "vec list \<Rightarrow> vec list \<Rightarrow> mat" where
  "giou_batch bboxes1 bboxes2 =
     (let n = length bboxes1; m = length bboxes2;
          wc = (\<lambda>i j. max ((bboxes1 ! i) 2) ((bboxes2 ! j) 2) - min ((bboxes1 ! i) 0) ((bboxes2 ! j) 0));
          hc = (\<lambda>i j. max ((bboxes1 ! i) 3) ((bboxes2 ! j) 3) - min ((bboxes1 ! i) 1) ((bboxes2 ! j) 1))
      in if (\<forall>i<n. \<forall>j<m. wc i j > 0) \<and> (\<forall>i<n. \<forall>j<m. hc i j > 0) then iou_batch bboxes1 bboxes2
         else (\<lambda>i j. let area_enclose = wc i j * hc i j
                     in (box_iou (bboxes1 ! i) (bboxes2 ! j)
                         - (area_enclose - box_overlap (bboxes1 ! i) (bboxes2 ! j)) / area_enclose + 1) / 2))"

text \<open>The direction from each track to each detection; the rows are the tracks.\<close>

definition speed_direction_batch :: "vec list \<Rightarrow> vec list \<Rightarrow> mat \<times> mat" where
  "speed_direction_batch dets tracks =
     (let dx = (\<lambda>j i. ((dets ! i) 0 + (dets ! i) 2) / 2 - ((tracks ! j) 0 + (tracks ! j) 2) / 2);
          dy = (\<lambda>j i. ((dets ! i) 1 + (dets ! i) 3) / 2 - ((tracks ! j) 1 + (tracks ! j) 3) / 2);
          nrm = (\<lambda>j i. sqrt ((dx j i)^2 + (dy j i)^2) + 1 / 1000000)
      in (\<lambda>j i. dy j i / nrm j i, \<lambda>j i. dx j i / nrm j i))"

section \<open>Scores\<close>

definition clamp :: "real \<Rightarrow> real \<Rightarrow> real \<Rightarrow> real" where
  "clamp lo hi x = (if x < lo then lo else if hi < x then hi else x)"

definition code_pi :: real where
  "code_pi = 31415926 / 10000000"

text \<open>The overlap plus a bonus for tracks that already move towards the detection.\<close>

definition base_score :: "vec list \<Rightarrow> vec list \<Rightarrow> vec list \<Rightarrow> vec list \<Rightarrow> real \<Rightarrow> mat" where
  "base_score detections trackers velocities previous_obs vdc_weight =
     (let (Y, X) = speed_direction_batch detections previous_obs;
          diff_angle_cos = (\<lambda>j i. max (min ((velocities ! j) 1 * X j i + (velocities ! j) 0 * Y j i) 1) (-1));
          diff_angle = (\<lambda>j i. (code_pi / 2 - \<bar>arccos (diff_angle_cos j i)\<bar>) / code_pi);
          valid = (\<lambda>j. if (previous_obs ! j) 4 \<ge> 0 then 1 else 0)
      in (\<lambda>i j. iou_batch detections trackers i j + valid j * diff_angle j i * vdc_weight * (detections ! i) 4))"

definition spatial_distance :: "vec \<Rightarrow> vec \<Rightarrow> real" where
  "spatial_distance d t = sqrt ((d 0 - t 0) * (d 0 - t 0) + (d 1 - t 1) * (d 1 - t 1) + (d 2 - t 2) * (d 2 - t 2))"

definition spatial_scale :: "real \<Rightarrow> real \<Rightarrow> vec \<Rightarrow> vec \<Rightarrow> real" where
  "spatial_scale distance_threshold depth_aware_scale d t =
     (let depthRef = max 1 (1 / 2 * (d 2 + t 2)); depthMeters = max 0 depthRef * (1 / 1000)
      in max (distance_threshold * (1 + depth_aware_scale * depthMeters)) 1)"

definition valid_pair :: "vec \<Rightarrow> vec \<Rightarrow> bool" where
  "valid_pair d t \<longleftrightarrow> d 3 > 1 / 2 \<and> t 3 > 1 / 2"

record spatial_params =
  use_spatial_association :: bool
  spatial_association_weight :: real
  spatial_distance_threshold :: real
  spatial_depth_aware_scale :: real

definition spatial_available :: "spatial_params \<Rightarrow> nat \<Rightarrow> nat \<Rightarrow> vec list \<Rightarrow> vec list \<Rightarrow> bool" where
  "spatial_available sp n m detection_spatial tracker_spatial \<longleftrightarrow>
     use_spatial_association sp \<and> length detection_spatial = n \<and> length tracker_spatial = m"

definition gate_pass :: "spatial_params \<Rightarrow> vec \<Rightarrow> vec \<Rightarrow> bool" where
  "gate_pass sp d t \<longleftrightarrow> spatial_distance d t \<le> spatial_scale (spatial_distance_threshold sp) (spatial_depth_aware_scale sp) d t"

definition combined_score :: "spatial_params \<Rightarrow> nat \<Rightarrow> nat \<Rightarrow> vec list \<Rightarrow> vec list \<Rightarrow> mat \<Rightarrow> mat" where
  "combined_score sp n m detection_spatial tracker_spatial bs =
     (let alpha = clamp 0 1 (spatial_association_weight sp)
      in (\<lambda>i j.
           let d = detection_spatial ! i; t = tracker_spatial ! j;
               gate = spatial_scale (spatial_distance_threshold sp) (spatial_depth_aware_scale sp) d t
           in if \<not> spatial_available sp n m detection_spatial tracker_spatial \<or> \<not> valid_pair d t then bs i j
              else if \<not> gate_pass sp d t then -1000000
              else (1 - alpha) * bs i j + alpha * (1 - min (spatial_distance d t / gate) 1)))"

section \<open>Association\<close>

definition at_result :: "'a list \<Rightarrow> nat \<Rightarrow> 'a result" where
  "at_result xs i = (if i < length xs then Inr (xs ! i) else Inl (OutOfRange ''vector::_M_range_check''))"

text \<open>The pairs of the solution; a negative entry of \<open>colsol\<close> would be used as an index.\<close>

definition matched_pairs :: "int list \<Rightarrow> int list \<Rightarrow> (nat \<times> nat) list result" where
  "matched_pairs rowsol colsol =
     foldR (\<lambda>r ms. if r \<ge> 0 then
                     bindR (at_result colsol (nat r))
                       (\<lambda>c. if c < 0 then Inl (UndefinedBehaviour ''negative index'') else Inr (ms @ [(nat c, nat r)]))
                   else Inr ms) rowsol []"

definition solve_pairs :: "nat \<Rightarrow> nat \<Rightarrow> mat \<Rightarrow> (nat \<times> nat) list result option" where
  "solve_pairs n m scores =
     map_option (\<lambda>r. bindR r (\<lambda>(rowsol, colsol, opt). matched_pairs rowsol colsol))
       (execLapjv (map (\<lambda>i. map (\<lambda>j. - scores i j) [0..<m]) [0..<n]) True (Some (1 / 100)) True)"

definition associate ::
  "spatial_params \<Rightarrow> vec list \<Rightarrow> vec list \<Rightarrow> real \<Rightarrow> vec list \<Rightarrow> vec list \<Rightarrow> real \<Rightarrow> vec list \<Rightarrow> vec list \<Rightarrow>
   ((nat \<times> nat) list \<times> nat list \<times> nat list) result option" where
  "associate sp detections trackers iou_threshold velocities previous_obs vdc_weight detection_spatial tracker_spatial =
     (let n = length detections; m = length trackers
      in if n = 0 then Some (Inr ([], [], [0..<m]))
         else if m = 0 then Some (Inr ([], [0..<n], []))
         else
           (let iou_matrix = iou_batch detections trackers;
                score = combined_score sp n m detection_spatial tracker_spatial
                          (base_score detections trackers velocities previous_obs vdc_weight);
                accepted = (\<lambda>(i, j).
                  let iouAccepted = iou_matrix i j \<ge> iou_threshold
                  in if spatial_available sp n m detection_spatial tracker_spatial
                        \<and> valid_pair (detection_spatial ! i) (tracker_spatial ! j)
                     then gate_pass sp (detection_spatial ! i) (tracker_spatial ! j) \<and> iouAccepted
                     else iouAccepted)
            in map_option (\<lambda>r. bindR r (\<lambda>matched.
                 Inr (filter accepted matched,
                      filter (\<lambda>i. i \<notin> fst ` set matched) [0..<n] @ map fst (filter (\<lambda>p. \<not> accepted p) matched),
                      filter (\<lambda>j. j \<notin> snd ` set matched) [0..<m] @ map snd (filter (\<lambda>p. \<not> accepted p) matched))))
                 (solve_pairs n m score)))"

text \<open>
  The later rounds: where the two best overlaps of a detection are close, the spatial similarity
  decides between the candidates.
\<close>

definition top_two :: "real list \<Rightarrow> real option \<times> real option" where
  "top_two vs =
     fold (\<lambda>v (best, second).
             if best = None \<or> v > the best then (Some v, best)
             else if second = None \<or> v > the second then (best, Some v)
             else (best, second)) vs (None, None)"

definition apply_soft_spatial_rematch_score ::
  "spatial_params \<Rightarrow> nat \<Rightarrow> nat \<Rightarrow> vec list \<Rightarrow> vec list \<Rightarrow> mat \<Rightarrow> mat" where
  "apply_soft_spatial_rematch_score sp n m detection_spatial tracker_spatial scores =
     (let beta = clamp 0 (1 / 4) (spatial_association_weight sp)
      in if \<not> spatial_available sp n m detection_spatial tracker_spatial \<or> beta \<le> 0 \<or> m < 2 then scores
         else (\<lambda>i j.
           let (best, second) = top_two (map (scores i) [0..<m]); d = detection_spatial ! i; t = tracker_spatial ! j
           in if the best - the second > 1 / 50 \<or> the best - scores i j > 1 / 50 \<or> \<not> valid_pair d t then scores i j
              else (1 - beta) * scores i j
                   + beta * (1 - min (spatial_distance d t
                                      / spatial_scale (spatial_distance_threshold sp) (spatial_depth_aware_scale sp) d t) 1)))"

text \<open>
  The pairs of a later round, as indices into the two lists of what is left; None if no overlap
  exceeds the threshold.
\<close>

definition rematch ::
  "spatial_params \<Rightarrow> (vec list \<Rightarrow> vec list \<Rightarrow> mat) \<Rightarrow> real \<Rightarrow> vec list \<Rightarrow> vec list \<Rightarrow> vec list \<Rightarrow> vec list \<Rightarrow>
   (nat \<times> nat) list option result option" where
  "rematch sp asso_func iou_threshold dets trks dets_spatial trks_spatial =
     (let n = length dets; m = length trks; iou_left = asso_func dets trks;
          scores = apply_soft_spatial_rematch_score sp n m dets_spatial trks_spatial iou_left
      in if \<exists>i<n. \<exists>j<m. iou_left i j > iou_threshold
         then map_option (\<lambda>r. bindR r (\<lambda>ms. Inr (Some (filter (\<lambda>(i, j). \<not> iou_left i j < iou_threshold) ms))))
                (solve_pairs n m scores)
         else Some (Inr None))"

section \<open>Overlaps are ratios\<close>

definition proper_box :: "vec \<Rightarrow> bool" where
  "proper_box b \<longleftrightarrow> b 0 < b 2 \<and> b 1 < b 3"

lemma box_overlap_bounds:
  assumes "proper_box a"
  shows "0 \<le> box_overlap a b" "box_overlap a b \<le> box_area a"
proof -
  show "0 \<le> box_overlap a b" by (simp add: box_overlap_def Let_def)
  have "max (min (a 2) (b 2) - max (a 0) (b 0)) 0 \<le> a 2 - a 0" "max (min (a 3) (b 3) - max (a 1) (b 1)) 0 \<le> a 3 - a 1"
    using assms by (auto simp: proper_box_def)
  then show "box_overlap a b \<le> box_area a"
    unfolding box_overlap_def box_area_def Let_def by (intro mult_mono) auto
qed

lemma box_overlap_commute: "box_overlap a b = box_overlap b a"
  by (simp add: box_overlap_def max.commute min.commute)

lemma box_area_pos: "proper_box a \<Longrightarrow> 0 < box_area a"
  by (simp add: box_area_def proper_box_def)

text \<open>The overlap of two proper boxes is between 0 and 1, symmetric, and 1 for a box with itself.\<close>

theorem box_iou_ratio:
  assumes "proper_box a" "proper_box b"
  shows "0 \<le> box_iou a b" "box_iou a b \<le> 1" "box_iou a b = box_iou b a" "box_iou a a = 1"
proof -
  note o = box_overlap_bounds [OF assms(1), of b]
  have o2: "box_overlap a b \<le> box_area b" using box_overlap_bounds(2) [OF assms(2), of a] box_overlap_commute by simp
  have p: "0 < box_area a" "0 < box_area b" using assms by (simp_all add: box_area_pos)
  then have d: "0 < box_area a + box_area b - box_overlap a b" using o2 by simp
  show "0 \<le> box_iou a b" using o d by (simp add: box_iou_def Let_def)
  show "box_iou a b \<le> 1" using o o2 d by (simp add: box_iou_def Let_def)
  show "box_iou a b = box_iou b a" by (simp add: box_iou_def Let_def box_overlap_commute add.commute)
  have "box_overlap a a = box_area a" using assms(1) by (simp add: box_overlap_def box_area_def proper_box_def)
  with p show "box_iou a a = 1" by (simp add: box_iou_def Let_def)
qed

text \<open>For proper boxes the function \<open>giou_batch\<close> returns the plain overlap: its guard has the two cases exchanged.\<close>

theorem giou_batch_is_iou:
  assumes "\<forall>a \<in> set bboxes1. proper_box a" "\<forall>b \<in> set bboxes2. proper_box b"
  shows "giou_batch bboxes1 bboxes2 = iou_batch bboxes1 bboxes2"
proof -
  have "max (a 2) (b 2) - min (a 0) (b 0) > 0 \<and> max (a 3) (b 3) - min (a 1) (b 1) > 0" if "proper_box a" for a b :: vec
    using that by (auto simp: proper_box_def)
  with assms show ?thesis unfolding giou_batch_def Let_def by simp
qed

theorem giou_batch_is_iou_witness: "giou_batch [vec_of [0, 0, 1, 1]] [vec_of [2, 0, 3, 1]] 0 0 = 0"
proof -
  have "giou_batch [vec_of [0, 0, 1, 1]] [vec_of [2, 0, 3, 1]] = iou_batch [vec_of [0, 0, 1, 1]] [vec_of [2, 0, 3, 1]]"
    by (rule giou_batch_is_iou) (simp_all add: proper_box_def vec_of_def)
  then show ?thesis by (simp add: iou_batch_def box_iou_def box_overlap_def vec_of_def)
qed

section \<open>The solution is a matching of indices\<close>

lemma matched_pairs_ok:
  assumes "\<And>i. i < length rs \<Longrightarrow> rs ! i = -1 \<or> (\<exists>j < length cs. rs ! i = int j \<and> cs ! j = int (k + i))"
  shows "foldR (\<lambda>r ms. if r \<ge> 0 then
                     bindR (at_result cs (nat r))
                       (\<lambda>c. if c < 0 then Inl (UndefinedBehaviour ''negative index'') else Inr (ms @ [(nat c, nat r)]))
                   else Inr ms) rs ms =
    Inr (ms @ map (\<lambda>i. (k + i, nat (rs ! i))) (filter (\<lambda>i. rs ! i \<ge> 0) [0..<length rs]))"
  using assms
proof (induction rs arbitrary: k ms)
  case Nil
  then show ?case by simp
next
  case (Cons r rs)
  have IH: "foldR (\<lambda>r ms. if r \<ge> 0 then
                     bindR (at_result cs (nat r))
                       (\<lambda>c. if c < 0 then Inl (UndefinedBehaviour ''negative index'') else Inr (ms @ [(nat c, nat r)]))
                   else Inr ms) rs ms' =
    Inr (ms' @ map (\<lambda>i. (Suc k + i, nat (rs ! i))) (filter (\<lambda>i. rs ! i \<ge> 0) [0..<length rs]))" for ms'
  proof (rule Cons.IH)
    fix i assume "i < length rs"
    with Cons.prems [of "Suc i"] show "rs ! i = -1 \<or> (\<exists>j < length cs. rs ! i = int j \<and> cs ! j = int (Suc k + i))" by simp
  qed
  have shift: "filter (\<lambda>i. (r # rs) ! i \<ge> 0) [0..<length (r # rs)] =
      (if r \<ge> 0 then [0] else []) @ map Suc (filter (\<lambda>i. rs ! i \<ge> 0) [0..<length rs])"
    by (simp only: length_Cons upt_conv_Cons [OF zero_less_Suc] map_Suc_upt [symmetric] filter.simps filter_map o_def
        nth_Cons_0 nth_Cons_Suc) simp
  show ?case
  proof (cases "r \<ge> 0")
    case True
    with Cons.prems [of 0] obtain j where j: "j < length cs" "r = int j" "cs ! j = int k" by auto
    have "at_result cs (nat r) = Inr (int k)" using j by (simp add: at_result_def)
    with True show ?thesis unfolding shift by (simp add: IH)
  next
    case False
    then show ?thesis unfolding shift by (simp add: IH)
  qed
qed

lemma solve_pairs_spec:
  assumes n: "0 < n" "0 < m" and b: "\<forall>i<n. \<forall>j<m. \<bar>scores i j\<bar> \<le> 200000"
  obtains ms where "solve_pairs n m scores = Some (Inr ms)" "distinct (map fst ms)" "distinct (map snd ms)"
    "set ms \<subseteq> {..<n} \<times> {..<m}"
proof -
  define cost where "cost = map (\<lambda>i. map (\<lambda>j. - scores i j) [0..<m]) [0..<n]"
  have len: "length cost = n" "length (cost ! 0) = m" using n by (simp_all add: cost_def)
  have r: "rectangular cost (Some (1 / 100))"
    using n b by (auto simp: rectangular_def cost_def fill_cost_def)
  obtain rowsol colsol opt where e: "execLapjv cost True (Some (1 / 100)) True = Some (Inr (rowsol, colsol, opt))"
    and l: "length rowsol = n" "length colsol = m"
    and row: "\<And>i. i < n \<Longrightarrow> rowsol ! i = -1 \<or> (\<exists>j<m. rowsol ! i = int j)"
    and con: "\<And>i j. i < n \<Longrightarrow> j < m \<Longrightarrow> rowsol ! i = int j \<longleftrightarrow> colsol ! j = int i"
    using execLapjv_consistent [OF r, of True] n by (auto simp: len)
  define ms where "ms = map (\<lambda>i. (i, nat (rowsol ! i))) (filter (\<lambda>i. rowsol ! i \<ge> 0) [0..<n])"
  have "rowsol ! i = -1 \<or> (\<exists>j < length colsol. rowsol ! i = int j \<and> colsol ! j = int (0 + i))"
    if "i < length rowsol" for i
    using row [of i] con [of i] that by (auto simp: l)
  from matched_pairs_ok [OF this] have "matched_pairs rowsol colsol = Inr ms"
    by (simp add: matched_pairs_def ms_def l)
  then have s: "solve_pairs n m scores = Some (Inr ms)" by (simp add: solve_pairs_def e [unfolded cost_def])
  have f: "map fst ms = filter (\<lambda>i. rowsol ! i \<ge> 0) [0..<n]" by (simp add: ms_def o_def)
  have at: "\<exists>j<m. rowsol ! i = int j \<and> colsol ! j = int i" if "i < n" "rowsol ! i \<ge> 0" for i
    using row [OF that(1)] con that by auto
  have "inj_on (\<lambda>i. nat (rowsol ! i)) (set (filter (\<lambda>i. rowsol ! i \<ge> 0) [0..<n]))"
  proof (rule inj_onI)
    fix a b assume ab: "a \<in> set (filter (\<lambda>i. rowsol ! i \<ge> 0) [0..<n])" "b \<in> set (filter (\<lambda>i. rowsol ! i \<ge> 0) [0..<n])"
      "nat (rowsol ! a) = nat (rowsol ! b)"
    with at [of a] at [of b] show "a = b" by auto
  qed
  then have d2: "distinct (map snd ms)" by (simp add: ms_def o_def distinct_map)
  have "set ms \<subseteq> {..<n} \<times> {..<m}" using at by (fastforce simp: ms_def)
  moreover have "distinct (map fst ms)" unfolding f by simp
  ultimately show thesis using that [OF s] d2 by blast
qed

lemma mset_filter_split: "mset (filter P xs) + mset (filter (\<lambda>x. \<not> P x) xs) = mset xs"
  by (induction xs) simp_all

text \<open>Splitting a matching by a test, with what is left on each side.\<close>

lemma split_matching:
  assumes d: "distinct (map g ms)" and s: "g ` set ms \<subseteq> {..<n}"
  shows "mset (map g (filter P ms) @ filter (\<lambda>i. i \<notin> g ` set ms) [0..<n] @ map g (filter (\<lambda>p. \<not> P p) ms)) = mset [0..<n]"
proof -
  have "mset (filter (\<lambda>i. i \<in> g ` set ms) [0..<n]) = mset (map g ms)"
  proof (rule set_eq_iff_mset_eq_distinct [THEN iffD1])
    show "set (filter (\<lambda>i. i \<in> g ` set ms) [0..<n]) = set (map g ms)" using s by auto
  qed (use d in simp_all)
  moreover have "mset (map g (filter P ms)) + mset (map g (filter (\<lambda>p. \<not> P p) ms)) = mset (map g ms)"
    by (simp only: mset_map image_mset_union [symmetric] mset_filter_split)
  moreover have "mset (filter (\<lambda>i. i \<in> g ` set ms) [0..<n]) + mset (filter (\<lambda>i. i \<notin> g ` set ms) [0..<n]) = mset [0..<n]"
    by (rule mset_filter_split)
  ultimately show ?thesis unfolding mset_append by (metis add.assoc add.commute)
qed

definition bounded_scores :: "nat \<Rightarrow> nat \<Rightarrow> mat \<Rightarrow> bool" where
  "bounded_scores n m scores \<longleftrightarrow> (\<forall>i<n. \<forall>j<m. \<bar>scores i j\<bar> \<le> 200000)"

lemma associate_spec:
  assumes b: "bounded_scores (length dets) (length trks)
      (combined_score sp (length dets) (length trks) ds ts (base_score dets trks vel prev vdc))"
  obtains ms ud ut where "associate sp dets trks thr vel prev vdc ds ts = Some (Inr (ms, ud, ut))"
    "mset (map fst ms @ ud) = mset [0..<length dets]" "mset (map snd ms @ ut) = mset [0..<length trks]"
    "\<And>i j. (i, j) \<in> set ms \<Longrightarrow> thr \<le> box_iou (dets ! i) (trks ! j)"
proof -
  define n m where "n = length dets" and "m = length trks"
  show thesis
  proof (cases "n = 0 \<or> m = 0")
    case True
    then show thesis
      using that [of "[]" "[0..<n]" "[0..<m]"] by (auto simp: associate_def Let_def n_def m_def)
  next
    case False
    define score where "score = combined_score sp n m ds ts (base_score dets trks vel prev vdc)"
    define accepted where "accepted = (\<lambda>(i, j).
                  let iouAccepted = iou_batch dets trks i j \<ge> thr
                  in if spatial_available sp n m ds ts \<and> valid_pair (ds ! i) (ts ! j)
                     then gate_pass sp (ds ! i) (ts ! j) \<and> iouAccepted
                     else iouAccepted)"
    have bs: "\<forall>i<n. \<forall>j<m. \<bar>score i j\<bar> \<le> 200000" using b by (simp add: bounded_scores_def score_def n_def m_def)
    obtain ms where ms: "solve_pairs n m score = Some (Inr ms)" "distinct (map fst ms)" "distinct (map snd ms)"
      "set ms \<subseteq> {..<n} \<times> {..<m}"
      using solve_pairs_spec [OF _ _ bs] False by blast
    have a: "associate sp dets trks thr vel prev vdc ds ts = Some (Inr (filter accepted ms,
        filter (\<lambda>i. i \<notin> fst ` set ms) [0..<n] @ map fst (filter (\<lambda>p. \<not> accepted p) ms),
        filter (\<lambda>j. j \<notin> snd ` set ms) [0..<m] @ map snd (filter (\<lambda>p. \<not> accepted p) ms)))"
      using False unfolding associate_def n_def [symmetric] m_def [symmetric] Let_def
      by (simp add: ms(1) [unfolded score_def] accepted_def [unfolded Let_def])
    show thesis
    proof (rule that [OF a])
      show "mset (map fst (filter accepted ms) @ filter (\<lambda>i. i \<notin> fst ` set ms) [0..<n] @ map fst (filter (\<lambda>p. \<not> accepted p) ms)) =
          mset [0..<length dets]"
        unfolding n_def [symmetric] using ms(2,4) by (intro split_matching) auto
      show "mset (map snd (filter accepted ms) @ filter (\<lambda>j. j \<notin> snd ` set ms) [0..<m] @ map snd (filter (\<lambda>p. \<not> accepted p) ms)) =
          mset [0..<length trks]"
        unfolding m_def [symmetric] using ms(3,4) by (intro split_matching) auto
      show "thr \<le> box_iou (dets ! i) (trks ! j)" if "(i, j) \<in> set (filter accepted ms)" for i j
        using that by (auto simp: accepted_def iou_batch_def Let_def split: if_splits)
    qed
  qed
qed



end
