(* ===== verification/ObjectTracker.thy ===== *)
theory ObjectTracker
  imports TrackerAssociation
begin

text \<open>
  The object tracker itself (src/utility/ObjectTrackerImpl.cpp): the tracks of one class with their
  tracklets, the rounds of association of a frame, creation and removal of tracks, the state over
  all classes and the calls of the node. The fields of the state that several classes share are the
  record \<open>shared\<close>; ages and frame counts are unbounded integers, the counter of tracks and the next id
  are 32-bit words. The order in which the code iterates over its unordered maps is an argument.
\<close>

section \<open>Tracklets\<close>

datatype tracking_status = NEW | TRACKED | LOST | REMOVED

record img_detection =
  xmin :: real
  ymin :: real
  xmax :: real
  ymax :: real
  confidence :: real
  label :: u32

record tracklet =
  tr_roi :: "real \<times> real \<times> real \<times> real"
  tr_id :: i32
  tr_label :: int
  tr_age :: int
  tr_status :: tracking_status
  tr_srcImgDetection :: img_detection
  tr_spatialCoordinates :: point3f
  tr_velocity :: "point3f option"
  tr_speed :: "real option"
  ageSinceStatusUpdate :: u32
  detectedCount :: u32

definition tracklet_update :: "real \<times> real \<times> real \<times> real \<Rightarrow> point3f \<Rightarrow> tracklet \<Rightarrow> tracklet" where
  "tracklet_update rect p t =
     t\<lparr>tr_roi := rect, tr_spatialCoordinates := p, tr_age := tr_age t + 1,
       ageSinceStatusUpdate := ageSinceStatusUpdate t + 1\<rparr>"

definition updateStatus :: "tracking_status \<Rightarrow> tracklet \<Rightarrow> tracklet" where
  "updateStatus st t = t\<lparr>tr_status := st, ageSinceStatusUpdate := 1\<rparr>"

section \<open>Parameters, counters and the tracks of a class\<close>

datatype TrackerIdAssignmentPolicy = UNIQUE_ID | SMALLEST_ID

record params =
  det_thresh :: real
  max_age :: int
  min_hits :: int
  iou_threshold :: real
  par_delta_t :: int
  asso_func :: string
  inertia :: real
  use_byte :: bool
  spatial :: spatial_params
  id_assignment_policy :: TrackerIdAssignmentPolicy
  track_by_class :: bool
  max_trackers :: u32

record shared =
  max_id :: u32
  num_trackers :: u32
  frame_dt :: real
  previous_frame_ts :: "real option"

record class_state =
  trackers :: "box_tracker list"
  tracklets :: "tracklet list"
  frame_count :: int

definition ASSO_FUNCS :: "string \<Rightarrow> (vec list \<Rightarrow> vec list \<Rightarrow> mat) option" where
  "ASSO_FUNCS name = (if name = ''iou'' then Some iou_batch else if name = ''giou'' then Some giou_batch else None)"

definition prep :: "class_state \<Rightarrow> class_state" where
  "prep cs = cs\<lparr>trackers := filter (\<lambda>t. \<not> bt_remove t) (trackers cs),
               tracklets := filter (\<lambda>t. tr_status t \<noteq> REMOVED) (tracklets cs)\<rparr>"

definition sync_tracklet_motion :: "nat \<Rightarrow> class_state \<Rightarrow> class_state" where
  "sync_tracklet_motion idx cs =
     (if idx \<ge> length (trackers cs) \<or> idx \<ge> length (tracklets cs) then cs
      else let b = trackers cs ! idx; t = tracklets cs ! idx; v = spatial_velocity b
           in cs\<lparr>tracklets := (tracklets cs)[idx :=
                (if has_spatial_state b
                 then t\<lparr>tr_velocity := Some (v 0 * (1 / 1000), v 1 * (1 / 1000), v 2 * (1 / 1000)),
                        tr_speed := Some (sqrt ((v 0)^2 + (v 1)^2 + (v 2)^2) * (1 / 1000))\<rparr>
                 else t\<lparr>tr_velocity := None, tr_speed := None\<rparr>)]\<rparr>)"

definition remove_tracker :: "nat \<Rightarrow> class_state \<times> shared \<Rightarrow> (class_state \<times> shared) result" where
  "remove_tracker idx s =
     (case s of (cs, sh) \<Rightarrow>
        if idx < length (trackers cs) then
          if idx < length (tracklets cs) then
            Inr (cs\<lparr>trackers := (trackers cs)[idx := (trackers cs ! idx)\<lparr>bt_remove := True\<rparr>],
                    tracklets := (tracklets cs)[idx := updateStatus REMOVED (tracklets cs ! idx)]\<rparr>,
                 sh\<lparr>num_trackers := num_trackers sh - 1\<rparr>)
          else Inl (UndefinedBehaviour ''tracklets[idx]'')
        else Inl (RuntimeError ''Index out of bounds in remove_tracker''))"

definition class_remove_tracklets :: "i32 list \<Rightarrow> class_state \<times> shared \<Rightarrow> (class_state \<times> shared) result" where
  "class_remove_tracklets =
     foldR (\<lambda>i s. case List.find (\<lambda>k. tr_id (tracklets (fst s) ! k) = i) [0..<length (tracklets (fst s))] of
                    Some k \<Rightarrow> remove_tracker k s
                  | None \<Rightarrow> Inr s)"

text \<open>The smallest id that no tracklet of any class has, or the next one never used.\<close>

fun smallest_from :: "u32 \<Rightarrow> u32 list \<Rightarrow> u32" where
  "smallest_from i [] = i"
| "smallest_from i (t # ts) = (if t \<noteq> i then i else smallest_from (i + 1) ts)"

definition get_next_id :: "params \<Rightarrow> i32 list \<Rightarrow> shared \<Rightarrow> u32 \<times> shared" where
  "get_next_id P ids sh =
     (case id_assignment_policy P of
        UNIQUE_ID \<Rightarrow> (max_id sh, sh\<lparr>max_id := max_id sh + 1\<rparr>)
      | SMALLEST_ID \<Rightarrow>
          (let i = smallest_from 0 (sort ids)
           in (i, if i \<ge> max_id sh then sh\<lparr>max_id := i + 1\<rparr> else sh)))"

section \<open>One frame\<close>

type_synonym 'a run = "'a result option"

definition bindO :: "'a run \<Rightarrow> ('a \<Rightarrow> 'b run) \<Rightarrow> 'b run" where
  "bindO r f = (case r of None \<Rightarrow> None | Some (Inl e) \<Rightarrow> Some (Inl e) | Some (Inr x) \<Rightarrow> f x)"

definition det_row :: "img_detection \<Rightarrow> vec" where
  "det_row d = vec_of [xmin d, ymin d, xmax d, ymax d, confidence d, real (unat (label d))]"

definition spatial_row :: "spatial_position \<Rightarrow> vec" where
  "spatial_row p = vec_of [position p 0, position p 1, position p 2, if validPosition p then 1 else 0]"

definition rect_of :: "vec \<Rightarrow> real \<times> real \<times> real \<times> real" where
  "rect_of b = (b 0, b 1, b 2 - b 0, b 3 - b 1)"

text \<open>
  A track meets the detection \<open>d\<close>. The first two rounds look at the age of a new tracklet, the third
  at the number of consecutive hits.
\<close>

definition hit ::
  "(nat \<Rightarrow> mat \<Rightarrow> mat) \<Rightarrow> params \<Rightarrow> bool \<Rightarrow> nat \<Rightarrow> img_detection \<Rightarrow> point3f \<Rightarrow> class_state \<Rightarrow> class_state" where
  "hit einv P by_streak m d p cs =
     (let row = det_row d;
          b = bt_update einv (Some (row, int (unat (label d)))) (Some p) (trackers cs ! m);
          t = (tracklet_update (rect_of row) p (tracklets cs ! m))\<lparr>tr_srcImgDetection := d\<rparr>;
          cs1 = sync_tracklet_motion m (cs\<lparr>trackers := (trackers cs)[m := b], tracklets := (tracklets cs)[m := t]\<rparr>);
          t1 = tracklets cs1 ! m;
          enough = (if by_streak then hit_streak b \<ge> min_hits P else tr_age t1 \<ge> min_hits P)
      in if tr_status t1 = LOST \<or> tr_status t1 = NEW \<and> enough
         then cs1\<lparr>tracklets := (tracklets cs1)[m := updateStatus TRACKED t1]\<rparr>
         else cs1)"

definition hits_of ::
  "(nat \<Rightarrow> mat \<Rightarrow> mat) \<Rightarrow> params \<Rightarrow> bool \<Rightarrow> img_detection list \<Rightarrow> point3f list \<Rightarrow> (nat \<times> nat) list \<Rightarrow> class_state \<Rightarrow> class_state" where
  "hits_of einv P by_streak detections spatialData =
     fold (\<lambda>(k, m). hit einv P by_streak m (detections ! k) (spatialData ! k))"

definition set_difference :: "nat list \<Rightarrow> nat list \<Rightarrow> nat list" where
  "set_difference xs ys = fold remove1 (sort ys) (sort xs)"

text \<open>
  The second round, for detections of low confidence, and the third, by the last observed boxes.
  \<open>first\<close> and \<open>second\<close> are the indices of the detections of either kind.
\<close>

definition byte_round ::
  "(nat \<Rightarrow> mat \<Rightarrow> mat) \<Rightarrow> params \<Rightarrow> img_detection list \<Rightarrow> point3f list \<Rightarrow> nat list \<Rightarrow> vec list \<Rightarrow> vec list \<Rightarrow>
   nat list \<Rightarrow> class_state \<Rightarrow> (nat list \<times> class_state) run" where
  "byte_round einv P detections spatialData second trks trks_spatial unmatched_trks cs =
     (if use_byte P \<and> second \<noteq> [] \<and> unmatched_trks \<noteq> [] then
        case ASSO_FUNCS (asso_func P) of
          None \<Rightarrow> Some (Inl (RuntimeError ''bad_function_call''))
        | Some f \<Rightarrow>
            bindO (rematch (spatial P) f (iou_threshold P)
                     (map (\<lambda>k. det_row (detections ! k)) second) (map (\<lambda>m. trks ! m) unmatched_trks)
                     (map (\<lambda>k. spatial_row (SpatialPosition (spatialData ! k))) second) (map (\<lambda>m. trks_spatial ! m) unmatched_trks))
              (\<lambda>r. case r of
                     None \<Rightarrow> Some (Inr (unmatched_trks, cs))
                   | Some ms \<Rightarrow>
                       Some (Inr (set_difference unmatched_trks (map (\<lambda>(a, b). unmatched_trks ! b) ms),
                                  hits_of einv P False detections spatialData (map (\<lambda>(a, b). (second ! a, unmatched_trks ! b)) ms) cs)))
      else Some (Inr (unmatched_trks, cs)))"

definition ocr_round ::
  "(nat \<Rightarrow> mat \<Rightarrow> mat) \<Rightarrow> params \<Rightarrow> img_detection list \<Rightarrow> point3f list \<Rightarrow> nat list \<Rightarrow> vec list \<Rightarrow> vec list \<Rightarrow>
   nat list \<Rightarrow> nat list \<Rightarrow> class_state \<Rightarrow> (nat list \<times> nat list \<times> class_state) run" where
  "ocr_round einv P detections spatialData first last_boxes trks_spatial unmatched_dets unmatched_trks cs =
     (if unmatched_dets \<noteq> [] \<and> unmatched_trks \<noteq> [] then
        case ASSO_FUNCS (asso_func P) of
          None \<Rightarrow> Some (Inl (RuntimeError ''bad_function_call''))
        | Some f \<Rightarrow>
            bindO (rematch (spatial P) f (iou_threshold P)
                     (map (\<lambda>i. det_row (detections ! (first ! i))) unmatched_dets) (map (\<lambda>m. last_boxes ! m) unmatched_trks)
                     (map (\<lambda>i. spatial_row (SpatialPosition (spatialData ! (first ! i)))) unmatched_dets)
                     (map (\<lambda>m. trks_spatial ! m) unmatched_trks))
              (\<lambda>r. case r of
                     None \<Rightarrow> Some (Inr (unmatched_dets, unmatched_trks, cs))
                   | Some ms \<Rightarrow>
                       Some (Inr (set_difference unmatched_dets (map (\<lambda>(a, b). unmatched_dets ! a) ms),
                                  set_difference unmatched_trks (map (\<lambda>(a, b). unmatched_trks ! b) ms),
                                  hits_of einv P True detections spatialData
                                    (map (\<lambda>(a, b). (first ! (unmatched_dets ! a), unmatched_trks ! b)) ms) cs)))
      else Some (Inr (unmatched_dets, unmatched_trks, cs)))"

text \<open>A track without a detection.\<close>

definition miss ::
  "(nat \<Rightarrow> mat \<Rightarrow> mat) \<Rightarrow> bool \<Rightarrow> nat \<Rightarrow> class_state \<times> shared \<Rightarrow> (class_state \<times> shared) result" where
  "miss einv trackOnly m s =
     (case s of (cs, sh) \<Rightarrow>
        if m \<ge> length (trackers cs) then Inl (OutOfRange ''vector::_M_range_check'')
        else
          (let cs1 = sync_tracklet_motion m (cs\<lparr>trackers := (trackers cs)[m := bt_update einv None None (trackers cs ! m)]\<rparr>);
               t = tracklets cs1 ! m
           in if trackOnly then Inr (cs1, sh)
              else if tr_status t = TRACKED then Inr (cs1\<lparr>tracklets := (tracklets cs1)[m := updateStatus LOST t]\<rparr>, sh)
              else if tr_status t = NEW then remove_tracker m (cs1, sh)
              else Inr (cs1, sh)))"

text \<open>A new track for a detection without a track, as long as there are not too many.\<close>

definition create ::
  "params \<Rightarrow> i32 list \<Rightarrow> img_detection list \<Rightarrow> point3f list \<Rightarrow> nat \<Rightarrow> class_state \<times> shared \<Rightarrow> class_state \<times> shared" where
  "create P others detections spatialData k s =
     (case s of (cs, sh) \<Rightarrow>
        if num_trackers sh < max_trackers P then
          (let d = detections ! k; p = spatialData ! k; row = det_row d; c = int (unat (label d));
               b = update_spatial_model_dt (frame_dt sh) (KalmanBoxTracker row c p (par_delta_t P));
               sh1 = sh\<lparr>num_trackers := num_trackers sh + 1\<rparr>;
               (i, sh2) = get_next_id P (others @ map tr_id (tracklets cs)) sh1;
               t = \<lparr>tr_roi = rect_of row, tr_id = i, tr_label = c, tr_age = 1, tr_status = NEW, tr_srcImgDetection = d,
                    tr_spatialCoordinates = p, tr_velocity = None, tr_speed = None, ageSinceStatusUpdate = 1, detectedCount = 1\<rparr>;
               cs1 = cs\<lparr>trackers := trackers cs @ [b], tracklets := tracklets cs @ [t]\<rparr>
           in (sync_tracklet_motion (length (trackers cs1) - 1) cs1, sh2))
        else (cs, sh))"

text \<open>The last loop: the results of the frame, and the removal of tracks that were not seen for too long.\<close>

definition expire ::
  "params \<Rightarrow> nat \<Rightarrow> (vec \<times> int \<times> real) list \<times> class_state \<times> shared \<Rightarrow> ((vec \<times> int \<times> real) list \<times> class_state \<times> shared) result" where
  "expire P i s =
     (case s of (ret, cs, sh) \<Rightarrow>
        (let b = trackers cs ! i;
             d = (if (\<Sum>k<5. last_observation b k) \<le> -1 then get_state b else last_observation b);
             ret' = (if time_since_update b < 1 \<and> (hit_streak b \<ge> min_hits P \<or> frame_count cs \<le> min_hits P)
                     then ret @ [(d, bt_cls b, conf b)] else ret)
         in if time_since_update b > max_age P
            then bindR (remove_tracker i (cs, sh)) (\<lambda>(cs', sh'). Inr (ret', cs', sh'))
            else Inr (ret', cs, sh)))"

definition finish_frame ::
  "(nat \<Rightarrow> mat \<Rightarrow> mat) \<Rightarrow> params \<Rightarrow> i32 list \<Rightarrow> bool \<Rightarrow> img_detection list \<Rightarrow> point3f list \<Rightarrow> nat list \<Rightarrow>
   nat list \<Rightarrow> nat list \<Rightarrow> class_state \<times> shared \<Rightarrow> ((vec \<times> int \<times> real) list \<times> class_state \<times> shared) result" where
  "finish_frame einv P others trackOnly detections spatialData first unmatched_dets unmatched_trks s =
     bindR (foldR (miss einv trackOnly) unmatched_trks s)
       (\<lambda>s1. let s2 = fold (\<lambda>i. create P others detections spatialData (first ! i)) unmatched_dets s1
             in foldR (expire P) (List.rev [0..<length (trackers (fst s2))]) ([], s2))"

definition class_update ::
  "(nat \<Rightarrow> mat \<Rightarrow> mat) \<Rightarrow> params \<Rightarrow> i32 list \<Rightarrow> bool \<Rightarrow> img_detection list \<Rightarrow> point3f list \<Rightarrow> class_state \<times> shared \<Rightarrow>
   ((vec \<times> int \<times> real) list \<times> class_state \<times> shared) run" where
  "class_update einv P others trackOnly detections spatialData s =
     (if length detections \<noteq> length spatialData
      then Some (Inl (RuntimeError ''Number of detections and spatial data points must match''))
      else
        (let cs0 = prep (fst s); sh = snd s;
             preds = map (\<lambda>b. bt_predict (update_spatial_model_dt (frame_dt sh) b)) (trackers cs0);
             cs1 = cs0\<lparr>trackers := map snd preds, frame_count := frame_count cs0 + 1\<rparr>;
             second = filter (\<lambda>i. confidence (detections ! i) > 1 / 10 \<and> confidence (detections ! i) < det_thresh P) [0..<length detections];
             first = filter (\<lambda>i. confidence (detections ! i) > det_thresh P) [0..<length detections];
             trks = map fst preds;
             trks_spatial = map (\<lambda>b. spatial_row (spatial_prediction b)) (trackers cs1);
             last_boxes = map last_observation (trackers cs1)
         in bindO (associate (spatial P) (map (\<lambda>k. det_row (detections ! k)) first) trks (iou_threshold P)
                     (map velocity (trackers cs1)) (map (\<lambda>b. k_previous_obs (observations b) (bt_age b) (par_delta_t P)) (trackers cs1))
                     (inertia P) (map (\<lambda>k. spatial_row (SpatialPosition (spatialData ! k))) first) trks_spatial)
              (\<lambda>(matched, unmatched_dets, unmatched_trks).
                 let cs2 = hits_of einv P False detections spatialData (map (\<lambda>(a, m). (first ! a, m)) matched) cs1
                 in bindO (byte_round einv P detections spatialData second trks trks_spatial unmatched_trks cs2)
                      (\<lambda>(unmatched_trks1, cs3).
                         bindO (ocr_round einv P detections spatialData first last_boxes trks_spatial unmatched_dets unmatched_trks1 cs3)
                           (\<lambda>(unmatched_dets2, unmatched_trks2, cs4).
                              Some (finish_frame einv P others trackOnly detections spatialData first unmatched_dets2 unmatched_trks2 (cs4, sh)))))))"

section \<open>The state over all classes\<close>

record tracker_state =
  ts_params :: params
  ts_shared :: shared
  class_states :: "(u32 \<times> class_state) list"

definition State :: "params \<Rightarrow> tracker_state" where
  "State P = \<lparr>ts_params = P,
     ts_shared = \<lparr>max_id = 0, num_trackers = 0, frame_dt = 1 / 30, previous_frame_ts = None\<rparr>, class_states = []\<rparr>"

definition update_frame_timestamp :: "real \<Rightarrow> tracker_state \<Rightarrow> tracker_state" where
  "update_frame_timestamp frameTs s =
     (let sh = ts_shared s;
          dt = (case previous_frame_ts sh of
                  Some prev \<Rightarrow> (if frameTs - prev > 0 then frameTs - prev else frame_dt sh)
                | None \<Rightarrow> frame_dt sh)
      in s\<lparr>ts_shared := sh\<lparr>frame_dt := dt, previous_frame_ts := Some frameTs\<rparr>\<rparr>)"

definition ids_of :: "(u32 \<times> class_state) list \<Rightarrow> i32 list" where
  "ids_of css = concat (map (\<lambda>(c, cs). map tr_id (tracklets cs)) css)"

text \<open>One class of a frame; a class that is new gets an empty state.\<close>

definition update_class ::
  "(nat \<Rightarrow> mat \<Rightarrow> mat) \<Rightarrow> bool \<Rightarrow> (u32 \<Rightarrow> img_detection list) \<Rightarrow> (u32 \<Rightarrow> point3f list) \<Rightarrow> u32 \<Rightarrow>
   (vec \<times> int \<times> real) list \<times> tracker_state \<Rightarrow> ((vec \<times> int \<times> real) list \<times> tracker_state) run" where
  "update_class einv trackOnly dets points c rs =
     (case rs of (ret, s) \<Rightarrow>
        (let cs = (case map_of (class_states s) c of Some cs \<Rightarrow> cs | None \<Rightarrow> \<lparr>trackers = [], tracklets = [], frame_count = 0\<rparr>);
             rest = filter (\<lambda>p. fst p \<noteq> c) (class_states s)
         in bindO (class_update einv (ts_params s) (ids_of rest) trackOnly (dets c) (points c) (cs, ts_shared s))
              (\<lambda>(out, cs', sh'). Some (Inr (ret @ out, s\<lparr>ts_shared := sh', class_states := rest @ [(c, cs')]\<rparr>)))))"

fun update_classes ::
  "(nat \<Rightarrow> mat \<Rightarrow> mat) \<Rightarrow> bool \<Rightarrow> (u32 \<Rightarrow> img_detection list) \<Rightarrow> (u32 \<Rightarrow> point3f list) \<Rightarrow> u32 list \<Rightarrow>
   (vec \<times> int \<times> real) list \<times> tracker_state \<Rightarrow> ((vec \<times> int \<times> real) list \<times> tracker_state) run" where
  "update_classes einv trackOnly dets points [] rs = Some (Inr rs)"
| "update_classes einv trackOnly dets points (c # cs) rs =
     bindO (update_class einv trackOnly dets points c rs) (update_classes einv trackOnly dets points cs)"

text \<open>
  \<open>order\<close> is the order of iteration over the classes of the frame: those that exist and those of the
  detections. Missing points are the origin.
\<close>

definition state_update ::
  "(nat \<Rightarrow> mat \<Rightarrow> mat) \<Rightarrow> u32 list \<Rightarrow> bool \<Rightarrow> img_detection list \<Rightarrow> point3f list \<Rightarrow> tracker_state \<Rightarrow>
   ((vec \<times> int \<times> real) list \<times> tracker_state) run" where
  "state_update einv order trackOnly detections spatialData s =
     (let class_of = (\<lambda>i. if track_by_class (ts_params s) then label (detections ! i) else 0);
          members = (\<lambda>c. filter (\<lambda>i. class_of i = c) [0..<length detections]);
          point = (\<lambda>i. if i < length spatialData then spatialData ! i else (0, 0, 0))
      in update_classes einv trackOnly (\<lambda>c. map (\<lambda>i. detections ! i) (members c)) (\<lambda>c. map point (members c)) order ([], s))"

fun remove_in_classes :: "i32 list \<Rightarrow> (u32 \<times> class_state) list \<Rightarrow> shared \<Rightarrow> ((u32 \<times> class_state) list \<times> shared) result" where
  "remove_in_classes ids [] sh = Inr ([], sh)"
| "remove_in_classes ids ((c, cs) # css) sh =
     bindR (class_remove_tracklets ids (cs, sh)) (\<lambda>(cs', sh').
       bindR (remove_in_classes ids css sh') (\<lambda>(css', sh''). Inr ((c, cs') # css', sh'')))"

definition state_remove_tracklets :: "i32 list \<Rightarrow> tracker_state \<Rightarrow> tracker_state result" where
  "state_remove_tracklets ids s =
     bindR (remove_in_classes ids (class_states s) (ts_shared s))
       (\<lambda>(css, sh). Inr (s\<lparr>class_states := css, ts_shared := sh\<rparr>))"

definition get_tracklets :: "tracker_state \<Rightarrow> tracklet list" where
  "get_tracklets s = concat (map (\<lambda>(c, cs). tracklets cs) (class_states s))"

section \<open>The tracker of the node\<close>

record tracker_properties =
  maxObjectsToTrack :: i32
  trackerIdAssignmentPolicy :: TrackerIdAssignmentPolicy
  trackingPerClass :: bool
  occlusionRatioThreshold :: real
  trackletMaxLifespan :: u32
  trackletBirthThreshold :: u32
  spatialAssociation :: bool
  spatialAssociationWeight :: real
  spatialDistanceThreshold :: real
  spatialDepthAwareScale :: real
  trackerThreshold :: real
  detectionLabelsToTrack :: "u32 list"

definition tracker_params :: "tracker_properties \<Rightarrow> params" where
  "tracker_params p =
     \<lparr>det_thresh = 0, max_age = sint (trackletMaxLifespan p), min_hits = sint (trackletBirthThreshold p),
      iou_threshold = occlusionRatioThreshold p, par_delta_t = 1, asso_func = ''giou'',
      inertia = 3941737016672115 / 10000000000000000, use_byte = True,
      spatial = \<lparr>use_spatial_association = spatialAssociation p,
                 spatial_association_weight = clamp 0 1 (spatialAssociationWeight p),
                 spatial_distance_threshold = max (spatialDistanceThreshold p * 1000) 1,
                 spatial_depth_aware_scale = max (spatialDepthAwareScale p) 0\<rparr>,
      id_assignment_policy = trackerIdAssignmentPolicy p, track_by_class = trackingPerClass p,
      max_trackers = maxObjectsToTrack p\<rparr>"

definition not_initialized :: "'a result" where
  "not_initialized = Inl (RuntimeError ''OCSTracker is not initialized. Call init() first.'')"

definition ocs_init ::
  "(nat \<Rightarrow> mat \<Rightarrow> mat) \<Rightarrow> tracker_properties \<Rightarrow> u32 list \<Rightarrow> real \<Rightarrow> img_detection list \<Rightarrow> point3f list \<Rightarrow> tracker_state run" where
  "ocs_init einv p order frameTs detections spatialData =
     bindO (state_update einv order False detections spatialData (update_frame_timestamp frameTs (State (tracker_params p))))
       (\<lambda>(ret, s). Some (Inr s))"

definition ocs_update ::
  "(nat \<Rightarrow> mat \<Rightarrow> mat) \<Rightarrow> u32 list \<Rightarrow> real \<Rightarrow> img_detection list \<Rightarrow> point3f list \<Rightarrow> tracker_state option \<Rightarrow> tracker_state run" where
  "ocs_update einv order frameTs detections spatialData so =
     (case so of
        None \<Rightarrow> Some not_initialized
      | Some s \<Rightarrow> bindO (state_update einv order False detections spatialData (update_frame_timestamp frameTs s)) (\<lambda>(ret, s'). Some (Inr s')))"

definition ocs_track :: "(nat \<Rightarrow> mat \<Rightarrow> mat) \<Rightarrow> u32 list \<Rightarrow> real \<Rightarrow> tracker_state option \<Rightarrow> tracker_state run" where
  "ocs_track einv order frameTs so =
     (case so of
        None \<Rightarrow> Some not_initialized
      | Some s \<Rightarrow> bindO (state_update einv order True [] [] (update_frame_timestamp frameTs s)) (\<lambda>(ret, s'). Some (Inr s')))"

definition ocs_configure :: "i32 list \<Rightarrow> tracker_state option \<Rightarrow> tracker_state result" where
  "ocs_configure trackletIdsToRemove so =
     (case so of None \<Rightarrow> not_initialized | Some s \<Rightarrow> state_remove_tracklets trackletIdsToRemove s)"

definition ocs_getTracklets :: "tracker_state option \<Rightarrow> tracklet list result" where
  "ocs_getTracklets so = (case so of None \<Rightarrow> not_initialized | Some s \<Rightarrow> Inr (get_tracklets s))"

text \<open>
  The detections of a message (src/pipeline/node/ObjectTracker.cpp): those of enough confidence with
  a label to track, moved to the tracked frame (\<open>remap\<close> gives the outer rectangle there), cut off at its
  borders, and dropped when nothing is left.
\<close>

definition prepare_detections ::
  "tracker_properties \<Rightarrow> (img_detection \<Rightarrow> real \<times> real \<times> real \<times> real) \<Rightarrow> real \<Rightarrow> real \<Rightarrow> (img_detection \<times> point3f) list \<Rightarrow>
   (img_detection \<times> point3f) list" where
  "prepare_detections p remap width height ds =
     concat (map (\<lambda>(d, pt).
       if confidence d \<ge> trackerThreshold p \<and> (detectionLabelsToTrack p = [] \<or> label d \<in> set (detectionLabelsToTrack p)) then
         (let (minx, miny, maxx, maxy) = remap d;
              d' = d\<lparr>xmin := max 0 minx, ymin := max 0 miny, xmax := min width maxx, ymax := min height maxy\<rparr>
          in if xmin d' < xmax d' \<and> ymin d' < ymax d' then [(d', pt)] else [])
       else []) ds)"

text \<open>
  One turn of the node's loop after its inputs: a configuration comes first; then the frame is
  tracked with the detections, or without when their message was of another type. The result is
  the state and the tracklets of the message, whose regions are not yet divided by the size of the frame.
\<close>

definition tracker_turn ::
  "(nat \<Rightarrow> mat \<Rightarrow> mat) \<Rightarrow> tracker_properties \<Rightarrow> u32 list \<Rightarrow> real \<Rightarrow> i32 list option \<Rightarrow> (img_detection \<times> point3f) list option \<Rightarrow>
   tracker_state option \<Rightarrow> (tracker_state option \<times> tracklet list) run" where
  "tracker_turn einv p order frameTs cfg input so =
     bindO (case cfg of Some ids \<Rightarrow> Some (bindR (ocs_configure ids so) (\<lambda>s. Inr (Some s))) | None \<Rightarrow> Some (Inr so))
       (\<lambda>so1.
          bindO (case input of
                   Some ds \<Rightarrow>
                     if ds \<noteq> [] \<and> so1 = None
                     then bindO (ocs_init einv p order frameTs (map fst ds) (map snd ds)) (\<lambda>s. Some (Inr (Some s)))
                     else if so1 \<noteq> None
                     then bindO (ocs_update einv order frameTs (map fst ds) (map snd ds) so1) (\<lambda>s. Some (Inr (Some s)))
                     else Some (Inr so1)
                 | None \<Rightarrow>
                     if so1 \<noteq> None then bindO (ocs_track einv order frameTs so1) (\<lambda>s. Some (Inr (Some s)))
                     else Some (Inr so1))
            (\<lambda>so2. Some (Inr (so2, case so2 of Some s \<Rightarrow> get_tracklets s | None \<Rightarrow> []))))"

end
