(* ===== verification/TrackLifecycle.thy ===== *)
theory TrackLifecycle
  imports ObjectTracker
begin

text \<open>
  The life of a tracklet over any sequence of frames and configurations: trackers and tracklets stay
  aligned, ids stay distinct, a status only changes along the edges of its state machine, and the
  counter of tracks, with the cases where it goes wrong.
\<close>

section \<open>What one operation does to one slot\<close>

lemma bt_remove_kept [simp]:
  "bt_remove (observe_point einv po t) = bt_remove t"
  "bt_remove (observe_box einv b c t) = bt_remove t"
  "bt_remove (bt_update einv bo po t) = bt_remove t"
  "bt_remove (snd (bt_predict t)) = bt_remove t"
  "bt_remove (update_spatial_model_dt dt t) = bt_remove t"
  "bt_remove (KalmanBoxTracker bbox c p dlt) = False"
  by (auto simp: observe_point_def observe_box_def bt_update_def bt_predict_def update_spatial_model_dt_def
      KalmanBoxTracker_def Let_def split: option.split prod.split)

lemma time_kept [simp]:
  "time_since_update (observe_point einv po t) = time_since_update t"
  "time_since_update (observe_box einv b c t) = 0"
  "time_since_update (bt_update einv None po t) = time_since_update t"
  "time_since_update (bt_update einv (Some (b, c)) po t) = 0"
  "time_since_update (snd (bt_predict t)) = time_since_update t + 1"
  "time_since_update (update_spatial_model_dt dt t) = time_since_update t"
  "time_since_update (KalmanBoxTracker bbox c p dlt) = 0"
  by (auto simp: observe_point_def observe_box_def bt_update_def bt_predict_def update_spatial_model_dt_def
      KalmanBoxTracker_def Let_def split: option.split prod.split)

text \<open>A change at one position.\<close>

definition set_slot :: "nat \<Rightarrow> box_tracker \<Rightarrow> tracklet \<Rightarrow> class_state \<Rightarrow> class_state" where
  "set_slot m b t cs = cs\<lparr>trackers := (trackers cs)[m := b], tracklets := (tracklets cs)[m := t]\<rparr>"

definition aligned :: "class_state \<Rightarrow> bool" where
  "aligned cs \<longleftrightarrow> length (trackers cs) = length (tracklets cs)"

lemma sync_slot:
  assumes "aligned cs" "m < length (tracklets cs)"
  obtains t where "sync_tracklet_motion m cs = cs\<lparr>tracklets := (tracklets cs)[m := t]\<rparr>"
    "tr_id t = tr_id (tracklets cs ! m)" "tr_status t = tr_status (tracklets cs ! m)"
  using assms that
  by (cases "has_spatial_state (trackers cs ! m)") (simp_all add: sync_tracklet_motion_def aligned_def Let_def)

lemma hit_slot:
  assumes al: "aligned cs" and m: "m < length (tracklets cs)"
  obtains b t where "hit einv P st m d p cs = set_slot m b t cs"
    "bt_remove b = bt_remove (trackers cs ! m)" "time_since_update b = 0" "tr_id t = tr_id (tracklets cs ! m)"
    "tr_status t = tr_status (tracklets cs ! m) \<or>
     (tr_status (tracklets cs ! m) = NEW \<or> tr_status (tracklets cs ! m) = LOST) \<and> tr_status t = TRACKED"
proof -
  define b where "b = bt_update einv (Some (det_row d, int (unat (label d)))) (Some p) (trackers cs ! m)"
  define t where "t = (tracklet_update (rect_of (det_row d)) p (tracklets cs ! m))\<lparr>tr_srcImgDetection := d\<rparr>"
  define cs0 where "cs0 = cs\<lparr>trackers := (trackers cs)[m := b], tracklets := (tracklets cs)[m := t]\<rparr>"
  have a0: "aligned cs0" "m < length (tracklets cs0)" using al m by (simp_all add: cs0_def aligned_def)
  obtain t1 where s: "sync_tracklet_motion m cs0 = cs0\<lparr>tracklets := (tracklets cs0)[m := t1]\<rparr>"
    "tr_id t1 = tr_id (tracklets cs0 ! m)" "tr_status t1 = tr_status (tracklets cs0 ! m)"
    using sync_slot [OF a0] .
  define cs1 where "cs1 = cs0\<lparr>tracklets := (tracklets cs0)[m := t1]\<rparr>"
  have t1: "tracklets cs1 ! m = t1" "tr_id t1 = tr_id (tracklets cs ! m)" "tr_status t1 = tr_status (tracklets cs ! m)"
    using s m by (simp_all add: cs1_def cs0_def t_def tracklet_update_def)
  have c1: "set_slot m b x cs = cs1\<lparr>tracklets := (tracklets cs1)[m := x]\<rparr>" for x
    by (simp add: cs1_def cs0_def set_slot_def)
  have c2: "set_slot m b t1 cs = cs1" by (simp add: cs1_def cs0_def set_slot_def)
  define go where "go = (tr_status t1 = LOST \<or> tr_status t1 = NEW \<and> (if st then hit_streak b \<ge> min_hits P else tr_age t1 \<ge> min_hits P))"
  have h: "hit einv P st m d p cs = (if go then cs1\<lparr>tracklets := (tracklets cs1)[m := updateStatus TRACKED t1]\<rparr> else cs1)"
    unfolding hit_def Let_def b_def [symmetric] t_def [symmetric] cs0_def [symmetric] s(1) cs1_def [symmetric] t1(1) go_def
    by (rule refl)
  have b: "bt_remove b = bt_remove (trackers cs ! m)" "time_since_update b = 0" by (simp_all add: b_def)
  show thesis
  proof (cases go)
    case True
    then have "hit einv P st m d p cs = set_slot m b (updateStatus TRACKED t1) cs" using h c1 by simp
    moreover have "tr_status t1 = NEW \<or> tr_status t1 = LOST" using True by (auto simp: go_def)
    ultimately show thesis using that b t1 by (simp add: updateStatus_def)
  next
    case False
    then have "hit einv P st m d p cs = set_slot m b t1 cs" using h c2 by simp
    then show thesis using that b t1 by blast
  qed
qed

lemma hit_outside:
  assumes "aligned cs" "\<not> m < length (tracklets cs)"
  shows "hit einv P st m d p cs = cs"
  using assms by (simp add: hit_def Let_def sync_tracklet_motion_def aligned_def list_update_beyond)

lemma remove_slot:
  assumes "aligned cs" "remove_tracker m (cs, sh) = Inr (cs', sh')"
  shows "m < length (tracklets cs)"
    "cs' = set_slot m ((trackers cs ! m)\<lparr>bt_remove := True\<rparr>) (updateStatus REMOVED (tracklets cs ! m)) cs"
    "sh' = sh\<lparr>num_trackers := num_trackers sh - 1\<rparr>"
  using assms by (auto simp: remove_tracker_def aligned_def set_slot_def split: if_splits)

text \<open>A missed track: it is kept, becomes lost, or is removed when it was new.\<close>

lemma miss_slot:
  assumes al: "aligned cs" and e: "miss einv trackOnly m (cs, sh) = Inr (cs', sh')"
  obtains b t where "m < length (tracklets cs)" "cs' = set_slot m b t cs"
    "time_since_update b = time_since_update (trackers cs ! m)" "tr_id t = tr_id (tracklets cs ! m)"
    "bt_remove b = bt_remove (trackers cs ! m) \<and> tr_status t = tr_status (tracklets cs ! m) \<and> sh' = sh \<and>
       (trackOnly \<or> tr_status t = LOST \<or> tr_status t = REMOVED) \<or>
     \<not> trackOnly \<and> tr_status (tracklets cs ! m) = TRACKED \<and> bt_remove b = bt_remove (trackers cs ! m) \<and>
       tr_status t = LOST \<and> sh' = sh \<or>
     \<not> trackOnly \<and> tr_status (tracklets cs ! m) = NEW \<and> bt_remove b \<and> tr_status t = REMOVED \<and>
       sh' = sh\<lparr>num_trackers := num_trackers sh - 1\<rparr>"
proof -
  define b where "b = bt_update einv None None (trackers cs ! m)"
  define cs0 where "cs0 = cs\<lparr>trackers := (trackers cs)[m := b]\<rparr>"
  have m: "m < length (tracklets cs)" using e al by (auto simp: miss_def aligned_def split: if_splits)
  have a0: "aligned cs0" "m < length (tracklets cs0)" using al m by (simp_all add: cs0_def aligned_def)
  obtain t1 where s: "sync_tracklet_motion m cs0 = cs0\<lparr>tracklets := (tracklets cs0)[m := t1]\<rparr>"
    "tr_id t1 = tr_id (tracklets cs0 ! m)" "tr_status t1 = tr_status (tracklets cs0 ! m)"
    using sync_slot [OF a0] .
  define cs1 where "cs1 = cs0\<lparr>tracklets := (tracklets cs0)[m := t1]\<rparr>"
  have t1: "tracklets cs1 ! m = t1" "tr_id t1 = tr_id (tracklets cs ! m)" "tr_status t1 = tr_status (tracklets cs ! m)"
    using s m by (simp_all add: cs1_def cs0_def)
  have c1: "cs1 = set_slot m b t1 cs" by (simp add: cs1_def cs0_def set_slot_def)
  have a1: "aligned cs1" using al by (simp add: c1 set_slot_def aligned_def)
  have b: "bt_remove b = bt_remove (trackers cs ! m)" "time_since_update b = time_since_update (trackers cs ! m)"
    by (simp_all add: b_def)
  have b1: "trackers cs1 ! m = b" using al m by (simp add: c1 set_slot_def aligned_def)
  have e1: "(if trackOnly then Inr (cs1, sh)
      else if tr_status t1 = TRACKED then Inr (cs1\<lparr>tracklets := (tracklets cs1)[m := updateStatus LOST t1]\<rparr>, sh)
      else if tr_status t1 = NEW then remove_tracker m (cs1, sh) else Inr (cs1, sh)) = Inr (cs', sh')"
    using e m al unfolding miss_def prod.case Let_def b_def [symmetric] cs0_def [symmetric] s(1) cs1_def [symmetric] t1(1)
    by (simp add: aligned_def)
  consider "trackOnly" | "\<not> trackOnly" "tr_status t1 = TRACKED" | "\<not> trackOnly" "tr_status t1 = NEW"
    | "\<not> trackOnly" "tr_status t1 = LOST \<or> tr_status t1 = REMOVED"
    by (cases "tr_status t1") auto
  then show thesis
  proof cases
    case 1
    with e1 have "cs' = set_slot m b t1 cs" "sh' = sh" by (simp_all add: c1)
    then show thesis using that m b t1 1 by blast
  next
    case 2
    with e1 have "cs' = set_slot m b (updateStatus LOST t1) cs" "sh' = sh" by (simp_all add: c1 set_slot_def)
    then show thesis using that [OF m] b t1 2 by (simp add: updateStatus_def)
  next
    case 3
    with e1 have "remove_tracker m (cs1, sh) = Inr (cs', sh')" by simp
    from remove_slot [OF a1 this] have "cs' = set_slot m (b\<lparr>bt_remove := True\<rparr>) (updateStatus REMOVED t1) cs"
      "sh' = sh\<lparr>num_trackers := num_trackers sh - 1\<rparr>"
      unfolding b1 t1(1) by (simp_all add: c1 set_slot_def)
    then show thesis using that [OF m] b t1 3 by (simp add: updateStatus_def)
  next
    case 4
    with e1 have "cs' = set_slot m b t1 cs" "sh' = sh" by (auto simp: c1)
    then show thesis using that [OF m] b t1 4 by (metis (no_types))
  qed
qed

lemma expire_slot:
  assumes "aligned cs" "expire P i (ret, cs, sh) = Inr (ret', cs', sh')"
  shows "cs' = cs \<and> sh' = sh \<and> time_since_update (trackers cs ! i) \<le> max_age P \<or>
    i < length (tracklets cs) \<and> time_since_update (trackers cs ! i) > max_age P \<and>
    cs' = set_slot i ((trackers cs ! i)\<lparr>bt_remove := True\<rparr>) (updateStatus REMOVED (tracklets cs ! i)) cs \<and>
    sh' = sh\<lparr>num_trackers := num_trackers sh - 1\<rparr>"
proof (cases "time_since_update (trackers cs ! i) > max_age P")
  case True
  with assms(2) have "remove_tracker i (cs, sh) = Inr (cs', sh')"
    by (auto simp: expire_def Let_def bindR_def split: sum.splits)
  from remove_slot [OF assms(1) this] True show ?thesis by simp
next
  case False
  with assms(2) show ?thesis by (simp add: expire_def Let_def)
qed

text \<open>A new track is appended with the next id, as long as the counter is below the limit.\<close>

lemma create_slot:
  assumes al: "aligned cs" and e: "create P others dets pts k (cs, sh) = (cs', sh')"
  shows "\<not> num_trackers sh < max_trackers P \<and> cs' = cs \<and> sh' = sh \<or>
    num_trackers sh < max_trackers P \<and>
    (\<exists>b t i sh2. get_next_id P (others @ map tr_id (tracklets cs)) (sh\<lparr>num_trackers := num_trackers sh + 1\<rparr>) = (i, sh2) \<and>
       cs' = cs\<lparr>trackers := trackers cs @ [b], tracklets := tracklets cs @ [t]\<rparr> \<and> sh' = sh2 \<and>
       tr_id t = i \<and> tr_status t = NEW \<and> \<not> bt_remove b \<and> time_since_update b = 0)"
proof (cases "num_trackers sh < max_trackers P")
  case False
  with e show ?thesis by (simp add: create_def)
next
  case True
  define d p where "d = dets ! k" and "p = pts ! k"
  define b where "b = update_spatial_model_dt (frame_dt sh) (KalmanBoxTracker (det_row d) (int (unat (label d))) p (par_delta_t P))"
  obtain i sh2 where n: "get_next_id P (others @ map tr_id (tracklets cs)) (sh\<lparr>num_trackers := num_trackers sh + 1\<rparr>) = (i, sh2)"
    by fastforce
  define t where "t = \<lparr>tr_roi = rect_of (det_row d), tr_id = i, tr_label = int (unat (label d)), tr_age = 1, tr_status = NEW,
    tr_srcImgDetection = d, tr_spatialCoordinates = p, tr_velocity = None, tr_speed = None, ageSinceStatusUpdate = 1, detectedCount = 1\<rparr>"
  define cs1 where "cs1 = cs\<lparr>trackers := trackers cs @ [b], tracklets := tracklets cs @ [t]\<rparr>"
  have c: "(sync_tracklet_motion (length (trackers cs1) - 1) cs1, sh2) = (cs', sh')"
    using e True unfolding create_def prod.case Let_def d_def [symmetric] p_def [symmetric] b_def [symmetric] n
    by (simp add: t_def cs1_def)
  have m: "length (trackers cs1) - 1 = length (tracklets cs)" using al by (simp add: cs1_def aligned_def)
  have a1: "aligned cs1" "length (tracklets cs) < length (tracklets cs1)" using al by (simp_all add: cs1_def aligned_def)
  obtain t1 where s: "sync_tracklet_motion (length (tracklets cs)) cs1 = cs1\<lparr>tracklets := (tracklets cs1)[length (tracklets cs) := t1]\<rparr>"
    "tr_id t1 = tr_id (tracklets cs1 ! length (tracklets cs))" "tr_status t1 = tr_status (tracklets cs1 ! length (tracklets cs))"
    using sync_slot [OF a1] .
  have "cs' = cs\<lparr>trackers := trackers cs @ [b], tracklets := tracklets cs @ [t1]\<rparr>" "sh' = sh2"
    using c unfolding m s(1) by (simp_all add: cs1_def)
  moreover have "tr_id t1 = i" "tr_status t1 = NEW" using s(2,3) by (simp_all add: cs1_def t_def)
  moreover have "\<not> bt_remove b" "time_since_update b = 0" by (simp_all add: b_def)
  ultimately show ?thesis using True n by blast
qed

section \<open>What a frame is made of\<close>

definition start_frame :: "class_state \<times> shared \<Rightarrow> class_state" where
  "start_frame s =
     (prep (fst s))\<lparr>trackers := map (\<lambda>b. snd (bt_predict (update_spatial_model_dt (frame_dt (snd s)) b))) (trackers (prep (fst s))),
                    frame_count := frame_count (prep (fst s)) + 1\<rparr>"

text \<open>Some tracks meet detections; \<open>M\<close> collects their positions.\<close>

inductive hits_run :: "(nat \<Rightarrow> mat \<Rightarrow> mat) \<Rightarrow> params \<Rightarrow> class_state \<Rightarrow> nat set \<Rightarrow> class_state \<Rightarrow> bool"
  for einv P cs where
  none: "hits_run einv P cs {} cs"
| one: "hits_run einv P cs M cs1 \<Longrightarrow> hits_run einv P cs (insert m M) (hit einv P st m d p cs1)"

lemma hits_run_fold:
  "hits_run einv P cs M cs1 \<Longrightarrow> hits_run einv P cs (snd ` set ps \<union> M) (hits_of einv P st dets pts ps cs1)"
proof (induction ps arbitrary: M cs1)
  case Nil
  then show ?case by (simp add: hits_of_def)
next
  case (Cons q ps)
  obtain k m where q: "q = (k, m)" by fastforce
  from Cons.IH [OF hits_run.one [OF Cons.prems]] show ?case
    by (simp add: hits_of_def q insert_commute)
qed

lemma bindO_Inr: "bindO r f = Some (Inr y) \<longleftrightarrow> (\<exists>x. r = Some (Inr x) \<and> f x = Some (Inr y))"
  by (auto simp: bindO_def split: option.splits sum.splits)

lemma in_fold_remove1: "x \<in> set xs \<Longrightarrow> x \<notin> set ys \<Longrightarrow> x \<in> set (fold remove1 ys xs)"
  by (induction ys arbitrary: xs) auto

lemma length_fold_remove1: "length (fold remove1 ys xs) \<le> length xs"
proof (induction ys arbitrary: xs)
  case (Cons y ys)
  have "length (remove1 y xs) \<le> length xs" by (simp add: length_remove1)
  with Cons [of "remove1 y xs"] show ?case by simp
qed simp

lemma set_difference_covers: "set xs \<subseteq> set (set_difference xs ys) \<union> set ys"
  using in_fold_remove1 [of _ "sort xs" "sort ys"] by (auto simp: set_difference_def)

lemma length_set_difference: "length (set_difference xs ys) \<le> length xs"
  using length_fold_remove1 [of "sort ys" "sort xs"] by (simp add: set_difference_def)

text \<open>No track is forgotten: it is paired in the first round, or left for the later ones.\<close>

lemma associate_unfold:
  assumes "associate sp dets trks thr vel prev vdc ds ts = Some (Inr (ms, ud, ut))" "dets \<noteq> []" "trks \<noteq> []"
  obtains acc matched score where "solve_pairs (length dets) (length trks) score = Some (Inr matched)"
    "ms = filter acc matched"
    "ud = filter (\<lambda>i. i \<notin> fst ` set matched) [0..<length dets] @ map fst (filter (\<lambda>p. \<not> acc p) matched)"
    "ut = filter (\<lambda>j. j \<notin> snd ` set matched) [0..<length trks] @ map snd (filter (\<lambda>p. \<not> acc p) matched)"
proof -
  have n: "length dets \<noteq> 0" "length trks \<noteq> 0" using assms(2,3) by simp_all
  have "\<exists>acc score. associate sp dets trks thr vel prev vdc ds ts = map_option (\<lambda>r. bindR r (\<lambda>matched.
      Inr (filter acc matched,
           filter (\<lambda>i. i \<notin> fst ` set matched) [0..<length dets] @ map fst (filter (\<lambda>p. \<not> acc p) matched),
           filter (\<lambda>j. j \<notin> snd ` set matched) [0..<length trks] @ map snd (filter (\<lambda>p. \<not> acc p) matched))))
      (solve_pairs (length dets) (length trks) score)"
    unfolding associate_def Let_def if_not_P [OF n(1)] if_not_P [OF n(2)] by (intro exI, rule refl)
  then obtain acc score where a: "associate sp dets trks thr vel prev vdc ds ts = map_option (\<lambda>r. bindR r (\<lambda>matched.
      Inr (filter acc matched,
           filter (\<lambda>i. i \<notin> fst ` set matched) [0..<length dets] @ map fst (filter (\<lambda>p. \<not> acc p) matched),
           filter (\<lambda>j. j \<notin> snd ` set matched) [0..<length trks] @ map snd (filter (\<lambda>p. \<not> acc p) matched))))
      (solve_pairs (length dets) (length trks) score)"
    by (elim exE)
  obtain r where r: "solve_pairs (length dets) (length trks) score = Some r"
    using a assms(1) by (cases "solve_pairs (length dets) (length trks) score") simp_all
  obtain matched where "r = Inr matched" using a r assms(1) by (cases r) simp_all
  then show thesis using that [of score matched acc] a r assms(1) by simp
qed

lemma associate_covers:
  assumes "associate sp dets trks thr vel prev vdc ds ts = Some (Inr (ms, ud, ut))" "j < length trks"
  shows "j \<in> snd ` set ms \<or> j \<in> set ut"
proof (cases "dets = [] \<or> trks = []")
  case True
  with assms show ?thesis by (auto simp: associate_def Let_def)
next
  case False
  then have ne: "dets \<noteq> []" "trks \<noteq> []" by simp_all
  obtain acc matched score where s: "solve_pairs (length dets) (length trks) score = Some (Inr matched)"
    "ms = filter acc matched"
    "ud = filter (\<lambda>i. i \<notin> fst ` set matched) [0..<length dets] @ map fst (filter (\<lambda>p. \<not> acc p) matched)"
    "ut = filter (\<lambda>j. j \<notin> snd ` set matched) [0..<length trks] @ map snd (filter (\<lambda>p. \<not> acc p) matched)"
    by (rule associate_unfold [OF assms(1) ne])
  show ?thesis
  proof (cases "j \<in> snd ` set matched")
    case True
    then show ?thesis unfolding s(2,4) by auto
  next
    case False
    with assms(2) show ?thesis unfolding s(2,4) by simp
  qed
qed

lemma foldR_length:
  assumes "foldR f xs s = Inr t" "\<And>x u v. f x u = Inr v \<Longrightarrow> length v \<le> length u + 1"
  shows "length t \<le> length s + length xs"
  using assms(1)
proof (induction xs arbitrary: s)
  case Nil
  then show ?case by simp
next
  case (Cons x xs)
  then obtain u where "f x s = Inr u" "foldR f xs u = Inr t" by (auto simp: bindR_Inr_iff)
  with Cons.IH [of u] assms(2) [of x s u] show ?case by simp
qed

lemma associate_counts:
  assumes "associate sp dets trks thr vel prev vdc ds ts = Some (Inr (ms, ud, ut))"
  shows "length ud \<le> 2 * length dets"
proof (cases "dets = [] \<or> trks = []")
  case True
  with assms show ?thesis by (auto simp: associate_def Let_def split: if_splits)
next
  case False
  then have ne: "dets \<noteq> []" "trks \<noteq> []" by simp_all
  obtain acc matched score where ms: "solve_pairs (length dets) (length trks) score = Some (Inr matched)"
    "ms = filter acc matched"
    "ud = filter (\<lambda>i. i \<notin> fst ` set matched) [0..<length dets] @ map fst (filter (\<lambda>p. \<not> acc p) matched)"
    "ut = filter (\<lambda>j. j \<notin> snd ` set matched) [0..<length trks] @ map snd (filter (\<lambda>p. \<not> acc p) matched)"
    by (rule associate_unfold [OF assms ne])
  from ms(1) obtain rowsol colsol opt where
    e: "execLapjv (map (\<lambda>i. map (\<lambda>j. - score i j) [0..<length trks]) [0..<length dets]) True (Some (1 / 100)) True =
        Some (Inr (rowsol, colsol, opt))" and mp: "matched_pairs rowsol colsol = Inr matched"
    by (auto simp: solve_pairs_def bindR_Inr_iff)
  have "length rowsol = length dets"
    using e False by (auto simp: execLapjv_def Let_def split: if_splits)
  moreover have "length matched \<le> length ([] :: (nat \<times> nat) list) + length rowsol"
    using mp unfolding matched_pairs_def
    by (rule foldR_length) (auto simp: bindR_def at_result_def split: if_splits)
  ultimately have "length matched \<le> length dets" by simp
  moreover have "length (filter (\<lambda>i. i \<notin> fst ` set matched) [0..<length dets]) \<le> length dets"
    by (metis length_filter_le length_upt minus_nat.diff_0)
  moreover have "length (filter (\<lambda>p. \<not> acc p) matched) \<le> length matched" by (rule length_filter_le)
  ultimately show ?thesis unfolding ms(3) length_append length_map by linarith
qed

text \<open>The later rounds only take positions away, and a position that they take has met a detection.\<close>

lemma byte_round_run:
  assumes "hits_run einv P cs M cs2" "byte_round einv P dets pts second trks sp ut cs2 = Some (Inr (ut', cs3))"
  obtains M' where "hits_run einv P cs M' cs3" "M \<subseteq> M'" "set ut \<subseteq> set ut' \<union> M'"
proof (cases "use_byte P \<and> second \<noteq> [] \<and> ut \<noteq> []")
  case False
  with assms that show thesis by (auto simp: byte_round_def)
next
  case True
  then obtain f where f: "ASSO_FUNCS (asso_func P) = Some f"
    using assms(2) by (cases "ASSO_FUNCS (asso_func P)") (simp_all add: byte_round_def)
  obtain r where r:
    "(case r of None \<Rightarrow> Some (Inr (ut, cs2) :: (nat list \<times> class_state) result)
      | Some ms \<Rightarrow> Some (Inr (set_difference ut (map (\<lambda>(a, b). ut ! b) ms),
           hits_of einv P False dets pts (map (\<lambda>(a, b). (second ! a, ut ! b)) ms) cs2))) = Some (Inr (ut', cs3))"
    using assms(2) unfolding byte_round_def if_P [OF True] f option.case bindO_Inr by (elim exE conjE) (rule that)
  show thesis
  proof (cases r)
    case None
    with r assms that show thesis by auto
  next
    case (Some ms)
    with r have u: "ut' = set_difference ut (map (\<lambda>(a, b). ut ! b) ms)"
      "cs3 = hits_of einv P False dets pts (map (\<lambda>(a, b). (second ! a, ut ! b)) ms) cs2" by simp_all
    have s: "snd ` set (map (\<lambda>(a, b). (second ! a, ut ! b)) ms) = set (map (\<lambda>(a, b). ut ! b) ms)"
      by force
    from hits_run_fold [OF assms(1), of "map (\<lambda>(a, b). (second ! a, ut ! b)) ms" False dets pts]
    have "hits_run einv P cs (set (map (\<lambda>(a, b). ut ! b) ms) \<union> M) cs3" unfolding u(2) s .
    then show thesis
      by (rule that) (use set_difference_covers [of ut "map (\<lambda>(a, b). ut ! b) ms"] u(1) in blast)+
  qed
qed

lemma ocr_round_run:
  assumes "hits_run einv P cs M cs2" "ocr_round einv P dets pts first lb sp ud ut cs2 = Some (Inr (ud', ut', cs3))"
  obtains M' where "hits_run einv P cs M' cs3" "M \<subseteq> M'" "set ut \<subseteq> set ut' \<union> M'" "length ud' \<le> length ud"
proof (cases "ud \<noteq> [] \<and> ut \<noteq> []")
  case False
  with assms that show thesis by (auto simp: ocr_round_def)
next
  case True
  then obtain f where f: "ASSO_FUNCS (asso_func P) = Some f"
    using assms(2) by (cases "ASSO_FUNCS (asso_func P)") (simp_all add: ocr_round_def)
  obtain r where r:
    "(case r of None \<Rightarrow> Some (Inr (ud, ut, cs2) :: (nat list \<times> nat list \<times> class_state) result)
      | Some ms \<Rightarrow> Some (Inr (set_difference ud (map (\<lambda>(a, b). ud ! a) ms), set_difference ut (map (\<lambda>(a, b). ut ! b) ms),
           hits_of einv P True dets pts (map (\<lambda>(a, b). (first ! (ud ! a), ut ! b)) ms) cs2))) = Some (Inr (ud', ut', cs3))"
    using assms(2) unfolding ocr_round_def if_P [OF True] f option.case bindO_Inr by (elim exE conjE) (rule that)
  show thesis
  proof (cases r)
    case None
    with r assms that show thesis by auto
  next
    case (Some ms)
    with r have u: "ud' = set_difference ud (map (\<lambda>(a, b). ud ! a) ms)" "ut' = set_difference ut (map (\<lambda>(a, b). ut ! b) ms)"
      "cs3 = hits_of einv P True dets pts (map (\<lambda>(a, b). (first ! (ud ! a), ut ! b)) ms) cs2" by simp_all
    have s: "snd ` set (map (\<lambda>(a, b). (first ! (ud ! a), ut ! b)) ms) = set (map (\<lambda>(a, b). ut ! b) ms)"
      by force
    from hits_run_fold [OF assms(1), of "map (\<lambda>(a, b). (first ! (ud ! a), ut ! b)) ms" True dets pts]
    have "hits_run einv P cs (set (map (\<lambda>(a, b). ut ! b) ms) \<union> M) cs3" unfolding u(3) s .
    then show thesis 
      by (rule that) (use set_difference_covers [of ut "map (\<lambda>(a, b). ut ! b) ms"] u(1,2) length_set_difference in blast)+
  qed
qed

text \<open>A frame that returns: hits, with every track hit or left over, and then the end of the frame.\<close>

lemma class_update_parts:
  assumes "class_update einv P others trackOnly dets pts (cs, sh) = Some (Inr (ret, cs', sh'))"
  obtains M cs4 ud ut first where "hits_run einv P (start_frame (cs, sh)) M cs4"
    "\<And>j. j < length (trackers (start_frame (cs, sh))) \<Longrightarrow> j \<in> M \<union> set ut"
    "length ud \<le> 2 * length dets"
    "finish_frame einv P others trackOnly dets pts first ud ut (cs4, sh) = Inr (ret, cs', sh')"
proof -
  let ?first = "filter (\<lambda>i. confidence (dets ! i) > det_thresh P) [0..<length dets]"
  let ?bs = "map (\<lambda>b. bt_predict (update_spatial_model_dt (frame_dt sh) b)) (trackers (prep cs))"
  have l: "length dets = length pts" using assms by (auto simp: class_update_def split: if_splits)
  have sf: "start_frame (cs, sh) = (prep cs)\<lparr>trackers := map snd ?bs, frame_count := frame_count (prep cs) + 1\<rparr>"
    by (simp add: start_frame_def comp_def)
  from assms l obtain vel prev ts lb second matched ud ut ut1 cs3 ud2 ut2 cs4 where
    a: "associate (spatial P) (map (\<lambda>k. det_row (dets ! k)) ?first) (map fst ?bs) (iou_threshold P) vel prev (inertia P)
          (map (\<lambda>k. spatial_row (SpatialPosition (pts ! k))) ?first) ts = Some (Inr (matched, ud, ut))" and
    b: "byte_round einv P dets pts second (map fst ?bs) ts ut
          (hits_of einv P False dets pts (map (\<lambda>(a, m). (?first ! a, m)) matched) (start_frame (cs, sh))) = Some (Inr (ut1, cs3))" and
    c: "ocr_round einv P dets pts ?first lb ts ud ut1 cs3 = Some (Inr (ud2, ut2, cs4))" and
    d: "finish_frame einv P others trackOnly dets pts ?first ud2 ut2 (cs4, sh) = Inr (ret, cs', sh')"
    unfolding sf by (auto simp: class_update_def Let_def bindO_Inr split: prod.splits)
  have h: "hits_run einv P (start_frame (cs, sh)) (snd ` set (map (\<lambda>(a, m). (?first ! a, m)) matched) \<union> {})
      (hits_of einv P False dets pts (map (\<lambda>(a, m). (?first ! a, m)) matched) (start_frame (cs, sh)))"
    by (rule hits_run_fold [OF hits_run.none])
  have s: "snd ` set (map (\<lambda>(a, m). (?first ! a, m)) matched) = snd ` set matched" by force
  obtain M1 where m1: "hits_run einv P (start_frame (cs, sh)) M1 cs3" "snd ` set matched \<union> {} \<subseteq> M1" "set ut \<subseteq> set ut1 \<union> M1"
    by (rule byte_round_run [OF h [unfolded s] b])
  obtain M2 where m2: "hits_run einv P (start_frame (cs, sh)) M2 cs4" "M1 \<subseteq> M2" "set ut1 \<subseteq> set ut2 \<union> M2" "length ud2 \<le> length ud"
    by (rule ocr_round_run [OF m1(1) c])
  have "length ud \<le> 2 * length (map (\<lambda>k. det_row (dets ! k)) ?first)" by (rule associate_counts [OF a])
  moreover have "length ?first \<le> length dets" by (metis length_filter_le length_upt minus_nat.diff_0)
  ultimately have ul: "length ud2 \<le> 2 * length dets" using m2(4) by simp
  show thesis
  proof (rule that [OF m2(1) _ ul d])
    fix j assume "j < length (trackers (start_frame (cs, sh)))"
    then have "j < length (map fst ?bs)" by (simp add: start_frame_def)
    from associate_covers [OF a this] have "j \<in> snd ` set matched \<union> set ut" by simp
    then show "j \<in> M2 \<union> set ut2" using m1(2,3) m2(2,3) by blast
  qed
qed

section \<open>Changes of one track\<close>

text \<open>
  The status of a tracklet moves along these edges; without detections (\<open>trackOnly\<close>) a track is not
  lost. \<open>slot_change\<close> is a change of one track and its tracklet; \<open>track_run\<close> is a sequence of changes in
  which \<open>k\<close> tracks are created.
\<close>

inductive status_step :: "bool \<Rightarrow> tracking_status \<Rightarrow> tracking_status \<Rightarrow> bool" for trackOnly where
  confirm: "status_step trackOnly NEW TRACKED"
| recover: "status_step trackOnly LOST TRACKED"
| lose: "\<not> trackOnly \<Longrightarrow> status_step trackOnly TRACKED LOST"
| remove: "s \<noteq> REMOVED \<Longrightarrow> status_step trackOnly s REMOVED"

inductive_simps status_step_to: "status_step trackOnly s t"

inductive slot_change :: "bool \<Rightarrow> class_state \<times> shared \<Rightarrow> class_state \<times> shared \<Rightarrow> bool" for trackOnly where
  keep: "m < length (tracklets cs) \<Longrightarrow> bt_remove b = bt_remove (trackers cs ! m) \<Longrightarrow> tr_id t = tr_id (tracklets cs ! m) \<Longrightarrow>
      tr_status t = tr_status (tracklets cs ! m) \<or>
      status_step trackOnly (tr_status (tracklets cs ! m)) (tr_status t) \<and> tr_status t \<noteq> REMOVED \<Longrightarrow>
      slot_change trackOnly (cs, sh) (set_slot m b t cs, sh)"
| drop: "m < length (tracklets cs) \<Longrightarrow> bt_remove b \<Longrightarrow> tr_id t = tr_id (tracklets cs ! m) \<Longrightarrow> tr_status t = REMOVED \<Longrightarrow>
      slot_change trackOnly (cs, sh) (set_slot m b t cs, sh')"

text \<open>A removal leaves the next id alone; the counter of tracks is looked at further below.\<close>

inductive track_run :: "bool \<Rightarrow> params \<Rightarrow> i32 list \<Rightarrow> class_state \<times> shared \<Rightarrow> nat \<Rightarrow> class_state \<times> shared \<Rightarrow> bool"
  for trackOnly P others s0 where
  start: "track_run trackOnly P others s0 0 s0"
| change: "track_run trackOnly P others s0 k (cs, sh) \<Longrightarrow> slot_change trackOnly (cs, sh) (cs', sh') \<Longrightarrow> max_id sh' = max_id sh \<Longrightarrow>
    track_run trackOnly P others s0 k (cs', sh')"
| create: "track_run trackOnly P others s0 k (cs, sh) \<Longrightarrow>
    get_next_id P (others @ map tr_id (tracklets cs)) (sh\<lparr>num_trackers := num_trackers sh + 1\<rparr>) = (i, sh') \<Longrightarrow>
    tr_id t = i \<Longrightarrow> tr_status t = NEW \<Longrightarrow> \<not> bt_remove b \<Longrightarrow>
    track_run trackOnly P others s0 (Suc k) (cs\<lparr>trackers := trackers cs @ [b], tracklets := tracklets cs @ [t]\<rparr>, sh')"

text \<open>A removed track is marked in its tracker as well.\<close>

definition marked :: "class_state \<Rightarrow> bool" where
  "marked cs \<longleftrightarrow> (\<forall>j < length (tracklets cs). bt_remove (trackers cs ! j) \<longleftrightarrow> tr_status (tracklets cs ! j) = REMOVED)"

lemma slot_change_ok:
  assumes "slot_change trackOnly s s'" "aligned (fst s)" "marked (fst s)"
  shows "aligned (fst s')" "marked (fst s')"
  using assms by (induction rule: slot_change.induct)
    (auto simp: set_slot_def aligned_def marked_def nth_list_update status_step_to)

lemma track_run_ok:
  assumes "track_run trackOnly P others s0 k s" "aligned (fst s0)"
  shows "aligned (fst s)" "marked (fst s0) \<Longrightarrow> marked (fst s)"
proof -
  have "aligned (fst s) \<and> (marked (fst s0) \<longrightarrow> marked (fst s))" using assms
  proof (induction rule: track_run.induct)
    case start
    then show ?case by simp
  next
    case (change k cs sh cs' sh')
    have "aligned cs'" using change(2) change.IH [OF change.prems] by cases (simp_all add: set_slot_def aligned_def)
    with change slot_change_ok [OF change(2)] show ?case by simp
  next
    case (create k cs sh i sh' t b)
    then show ?case by (auto simp: aligned_def marked_def nth_append less_Suc_eq)
  qed
  then show "aligned (fst s)" "marked (fst s0) \<Longrightarrow> marked (fst s)" by simp_all
qed

lemma hit_run:
  assumes "track_run trackOnly P others s0 k (cs, sh)" "aligned cs"
  shows "track_run trackOnly P others s0 k (hit einv P st m d p cs, sh)"
proof (cases "m < length (tracklets cs)")
  case True
  obtain b t where h: "hit einv P st m d p cs = set_slot m b t cs"
    "bt_remove b = bt_remove (trackers cs ! m)" "time_since_update b = 0" "tr_id t = tr_id (tracklets cs ! m)"
    "tr_status t = tr_status (tracklets cs ! m) \<or>
     (tr_status (tracklets cs ! m) = NEW \<or> tr_status (tracklets cs ! m) = LOST) \<and> tr_status t = TRACKED"
    by (rule hit_slot [OF assms(2) True])
  have "slot_change trackOnly (cs, sh) (set_slot m b t cs, sh)"
    using h(5) by (intro slot_change.keep [OF True h(2,4)]) (auto simp: status_step_to)
  from track_run.change [OF assms(1) this] show ?thesis by (simp add: h(1))
next
  case False
  then show ?thesis using assms hit_outside by simp
qed

lemma hits_run_run:
  assumes "hits_run einv P cs M cs1" "aligned cs"
  shows "track_run trackOnly P others (cs, sh) 0 (cs1, sh)"
  using assms
proof (induction rule: hits_run.induct)
  case none
  then show ?case by (auto intro: track_run.start)
next
  case (one M cs1 m st d p)
  from one.IH [OF one.prems] have r: "track_run trackOnly P others (cs, sh) 0 (cs1, sh)" .
  from track_run_ok(1) [OF r] one.prems have "aligned cs1" by simp
  from hit_run [OF r this] show ?case .
qed

lemma remove_run:
  assumes "track_run trackOnly P others s0 k (cs, sh)" "aligned cs" "remove_tracker m (cs, sh) = Inr (cs', sh')"
  shows "track_run trackOnly P others s0 k (cs', sh')"
  using remove_slot [OF assms(2,3)]
  by (auto intro!: track_run.change [OF assms(1)] slot_change.drop simp: updateStatus_def)

lemma miss_run:
  assumes r: "track_run trackOnly P others s0 k (cs, sh)" and al: "aligned cs" and e: "miss einv trackOnly m (cs, sh) = Inr (cs', sh')"
  shows "track_run trackOnly P others s0 k (cs', sh')"
proof -
  obtain b t where h: "m < length (tracklets cs)" "cs' = set_slot m b t cs"
    "time_since_update b = time_since_update (trackers cs ! m)" "tr_id t = tr_id (tracklets cs ! m)"
    "bt_remove b = bt_remove (trackers cs ! m) \<and> tr_status t = tr_status (tracklets cs ! m) \<and> sh' = sh \<and>
       (trackOnly \<or> tr_status t = LOST \<or> tr_status t = REMOVED) \<or>
     \<not> trackOnly \<and> tr_status (tracklets cs ! m) = TRACKED \<and> bt_remove b = bt_remove (trackers cs ! m) \<and>
       tr_status t = LOST \<and> sh' = sh \<or>
     \<not> trackOnly \<and> tr_status (tracklets cs ! m) = NEW \<and> bt_remove b \<and> tr_status t = REMOVED \<and>
       sh' = sh\<lparr>num_trackers := num_trackers sh - 1\<rparr>"
    by (rule miss_slot [OF al e])
  have "slot_change trackOnly (cs, sh) (cs', sh') \<and> max_id sh' = max_id sh"
    using h(5) h(1,4) unfolding h(2)
    by (elim disjE) (auto intro: slot_change.keep slot_change.drop simp: status_step_to)
  then show ?thesis using track_run.change [OF r] by blast
qed

lemma expire_run:
  assumes "track_run trackOnly P others s0 k (cs, sh)" "aligned cs" "expire P i (ret, cs, sh) = Inr (ret', cs', sh')"
  shows "track_run trackOnly P others s0 k (cs', sh')"
  using expire_slot [OF assms(2,3)]
proof (elim disjE conjE)
  assume "cs' = cs" "sh' = sh"
  with assms(1) show ?thesis by simp
qed (auto intro!: track_run.change [OF assms(1)] slot_change.drop simp: updateStatus_def)

lemma create_run:
  assumes "track_run trackOnly P others s0 k (cs, sh)" "aligned cs" "create P others dets pts i (cs, sh) = (cs', sh')"
  obtains k' where "k' \<le> Suc k" "track_run trackOnly P others s0 k' (cs', sh')"
  using create_slot [OF assms(2,3)]
proof (elim disjE conjE exE)
  assume "cs' = cs" "sh' = sh"
  with assms(1) that [of k] show thesis by simp
next
  fix b t n sh2
  assume n: "get_next_id P (others @ map tr_id (tracklets cs)) (sh\<lparr>num_trackers := num_trackers sh + 1\<rparr>) = (n, sh2)"
    and c: "cs' = cs\<lparr>trackers := trackers cs @ [b], tracklets := tracklets cs @ [t]\<rparr>" "sh' = sh2"
    and t: "tr_id t = n" "tr_status t = NEW" "\<not> bt_remove b"
  from track_run.create [OF assms(1) n t] show thesis using that [of "Suc k"] by (simp add: c)
qed

lemma creates_run:
  assumes "track_run trackOnly P others s0 k s" "aligned (fst s0)"
  obtains k' where "k' \<le> k + length ks" "track_run trackOnly P others s0 k' (fold (\<lambda>i. create P others dets pts (first ! i)) ks s)"
  using assms
proof (induction ks arbitrary: k s thesis)
  case Nil
  then show ?case using Nil(1) [of k] by simp
next
  case (Cons i ks)
  obtain cs sh where s: "s = (cs, sh)" by fastforce
  obtain cs' sh' where c: "create P others dets pts (first ! i) s = (cs', sh')" by fastforce
  have "aligned cs" using track_run_ok(1) [OF Cons.prems(2,3)] by (simp add: s)
  from create_run [OF Cons.prems(2) [unfolded s] this c [unfolded s]]
  obtain k1 where k1: "k1 \<le> Suc k" "track_run trackOnly P others s0 k1 (cs', sh')" .
  from Cons.IH [OF _ k1(2) Cons.prems(3)] obtain k2 where
    "k2 \<le> k1 + length ks" "track_run trackOnly P others s0 k2 (fold (\<lambda>i. create P others dets pts (first ! i)) ks (cs', sh'))" .
  with k1(1) Cons.prems(1) [of k2] show ?case by (simp add: c)
qed

lemma finish_run:
  assumes r: "track_run trackOnly P others s0 k (cs, sh)" and al: "aligned (fst s0)"
    and e: "finish_frame einv P others trackOnly dets pts first ud ut (cs, sh) = Inr (ret, cs', sh')"
  obtains k' where "k' \<le> k + length ud" "track_run trackOnly P others s0 k' (cs', sh')"
proof -
  from e obtain s1 where m: "foldR (miss einv trackOnly) ut (cs, sh) = Inr s1" and
    x: "foldR (expire P) (List.rev [0..<length (trackers (fst (fold (\<lambda>i. create P others dets pts (first ! i)) ud s1)))])
         ([], fold (\<lambda>i. create P others dets pts (first ! i)) ud s1) = Inr (ret, cs', sh')"
    by (auto simp: finish_frame_def Let_def bindR_Inr_iff)
  have "track_run trackOnly P others s0 k s1"
  proof (rule foldR_invariant [OF m])
    show "track_run trackOnly P others s0 k v"
      if "track_run trackOnly P others s0 k u" "miss einv trackOnly y u = Inr v" for y u v
    proof -
      obtain c h c' h' where uv: "u = (c, h)" "v = (c', h')" by fastforce
      have "aligned c" using track_run_ok(1) [OF that(1) al] by (simp add: uv)
      from miss_run [OF that(1) [unfolded uv] this that(2) [unfolded uv]] show ?thesis by (simp add: uv)
    qed
  qed (rule r)
  from creates_run [OF this al, of ud dets pts first] obtain k' where
    k: "k' \<le> k + length ud" "track_run trackOnly P others s0 k' (fold (\<lambda>i. create P others dets pts (first ! i)) ud s1)" .
  have "track_run trackOnly P others s0 k' (snd (ret, cs', sh'))"
  proof (rule foldR_invariant [OF x])
    show "track_run trackOnly P others s0 k' (snd v)"
      if "track_run trackOnly P others s0 k' (snd u)" "expire P y u = Inr v" for y u v
    proof -
      obtain q c h q' c' h' where uv: "u = (q, c, h)" "v = (q', c', h')" by (metis prod.exhaust)
      have "aligned c" using track_run_ok(1) [OF that(1) al] by (simp add: uv)
      from expire_run [OF _ this that(2) [unfolded uv]] that(1) show ?thesis by (simp add: uv)
    qed
  qed (use k(2) in simp)
  with k(1) that show thesis by simp
qed

lemma class_update_run:
  assumes e: "class_update einv P others trackOnly dets pts (cs, sh) = Some (Inr (ret, cs', sh'))"
    and al: "aligned (prep cs)"
  obtains k where "k \<le> 2 * length dets" "track_run trackOnly P others (start_frame (cs, sh), sh) k (cs', sh')"
proof -
  obtain M cs4 ud ut first where p: "hits_run einv P (start_frame (cs, sh)) M cs4"
    "\<And>j. j < length (trackers (start_frame (cs, sh))) \<Longrightarrow> j \<in> M \<union> set ut"
    "length ud \<le> 2 * length dets"
    "finish_frame einv P others trackOnly dets pts first ud ut (cs4, sh) = Inr (ret, cs', sh')"
    by (rule class_update_parts [OF e]) blast
  have "aligned (start_frame (cs, sh))" using al by (simp add: start_frame_def aligned_def)
  then have "track_run trackOnly P others (start_frame (cs, sh), sh) 0 (cs4, sh)" "aligned (fst (start_frame (cs, sh), sh))"
    using hits_run_run [OF p(1)] by simp_all
  from finish_run [OF this p(4)] obtain k where "k \<le> 0 + length ud" "track_run trackOnly P others (start_frame (cs, sh), sh) k (cs', sh')" .
  with p(3) that [of k] show thesis by simp
qed

section \<open>Trackers and tracklets stay together\<close>

lemma filter_zip_length:
  "length xs = length ys \<Longrightarrow> (\<And>j. j < length xs \<Longrightarrow> p (xs ! j) \<longleftrightarrow> q (ys ! j)) \<Longrightarrow>
   length (filter p xs) = length (filter q ys)"
proof (induction xs ys rule: list_induct2)
  case (Cons x xs y ys)
  from Cons.prems [of 0] Cons.prems [of "Suc _"] Cons.IH show ?case by auto
qed simp

lemma prep_ok:
  assumes "aligned cs" "marked cs"
  shows "aligned (prep cs)" "marked (prep cs)" "aligned (start_frame (cs, sh))" "marked (start_frame (cs, sh))"
proof -
  have "length (filter (\<lambda>t. \<not> bt_remove t) (trackers cs)) = length (filter (\<lambda>t. tr_status t \<noteq> REMOVED) (tracklets cs))"
    using assms by (intro filter_zip_length) (auto simp: aligned_def marked_def)
  then show a: "aligned (prep cs)" by (simp add: aligned_def prep_def)
  have no: "\<not> bt_remove b" if "b \<in> set (trackers (prep cs))" for b using that by (simp add: prep_def)
  have live: "tr_status t \<noteq> REMOVED" if "t \<in> set (tracklets (prep cs))" for t using that by (simp add: prep_def)
  show "marked (prep cs)" using a no live by (auto simp: marked_def aligned_def)
  show "aligned (start_frame (cs, sh))" using a by (simp add: start_frame_def aligned_def)
  show "marked (start_frame (cs, sh))" using a no live by (auto simp: marked_def aligned_def start_frame_def)
qed

lemma class_update_ok:
  assumes "class_update einv P others trackOnly dets pts (cs, sh) = Some (Inr (ret, cs', sh'))" "aligned cs" "marked cs"
  shows "aligned cs'" "marked cs'"
proof -
  note p = prep_ok [OF assms(2,3)]
  obtain k where "track_run trackOnly P others (start_frame (cs, sh), sh) k (cs', sh')"
    by (rule class_update_run [OF assms(1) p(1)]) blast
  from track_run_ok [OF this] p(3,4) show "aligned cs'" "marked cs'" by simp_all
qed

section \<open>Tracklets go on\<close>

text \<open>
  \<open>continued\<close>: every tracklet that is not removed at the start of the frame is still there at the end, at
  the position that it has among them, under its id and with a status that is reached along the edges.
\<close>

definition continued :: "bool \<Rightarrow> tracklet list \<Rightarrow> tracklet list \<Rightarrow> bool" where
  "continued trackOnly ts us \<longleftrightarrow> length ts \<le> length us \<and>
     (\<forall>j < length ts. tr_id (us ! j) = tr_id (ts ! j) \<and> (status_step trackOnly)\<^sup>*\<^sup>* (tr_status (ts ! j)) (tr_status (us ! j)))"

lemma continued_refl: "continued trackOnly ts ts"
  by (simp add: continued_def)

lemma slot_change_continued:
  assumes "slot_change trackOnly s s'" "continued trackOnly ts (tracklets (fst s))"
  shows "continued trackOnly ts (tracklets (fst s'))"
proof -
  have step: "continued trackOnly ts (us[m := t])"
    if "continued trackOnly ts us" "tr_id t = tr_id (us ! m)" "(status_step trackOnly)\<^sup>*\<^sup>* (tr_status (us ! m)) (tr_status t)"
    for us m t
  proof -
    have "tr_id (us[m := t] ! j) = tr_id (ts ! j) \<and> (status_step trackOnly)\<^sup>*\<^sup>* (tr_status (ts ! j)) (tr_status (us[m := t] ! j))"
      if "j < length ts" for j
    proof -
      from that \<open>continued trackOnly ts us\<close> have u: "j < length us" "tr_id (us ! j) = tr_id (ts ! j)"
        "(status_step trackOnly)\<^sup>*\<^sup>* (tr_status (ts ! j)) (tr_status (us ! j))"
        by (auto simp: continued_def)
      show ?thesis
      proof (cases "j = m")
        case True
        with u that(1) \<open>tr_id t = tr_id (us ! m)\<close> \<open>(status_step trackOnly)\<^sup>*\<^sup>* (tr_status (us ! m)) (tr_status t)\<close>
        show ?thesis by (simp add: rtranclp_trans)
      next
        case False
        with u show ?thesis by simp
      qed
    qed
    then show ?thesis using that(1) by (simp add: continued_def)
  qed
  have removed: "(status_step trackOnly)\<^sup>*\<^sup>* x REMOVED" for x
    by (cases "x = REMOVED") (auto intro: status_step.remove)
  from assms show ?thesis
  proof (induction rule: slot_change.induct)
    case (keep m cs b t sh)
    then have "(status_step trackOnly)\<^sup>*\<^sup>* (tr_status (tracklets cs ! m)) (tr_status t)" by auto
    with keep show ?case using step by (simp add: set_slot_def)
  next
    case (drop m cs b t sh sh')
    then show ?case using step removed by (simp add: set_slot_def)
  qed
qed

lemma track_run_continued:
  assumes "track_run trackOnly P others s0 k s"
  shows "continued trackOnly (tracklets (fst s0)) (tracklets (fst s))"
  using assms
proof (induction rule: track_run.induct)
  case start
  show ?case by (rule continued_refl)
next
  case (change k cs sh cs' sh')
  from slot_change_continued [OF change.hyps(2)] change.IH show ?case by simp
next
  case (create k cs sh i sh' t b)
  then show ?case by (auto simp: continued_def nth_append)
qed

lemma class_update_continued:
  assumes "class_update einv P others trackOnly dets pts (cs, sh) = Some (Inr (ret, cs', sh'))" "aligned cs" "marked cs"
  shows "continued trackOnly (filter (\<lambda>t. tr_status t \<noteq> REMOVED) (tracklets cs)) (tracklets cs')"
proof -
  obtain k where "track_run trackOnly P others (start_frame (cs, sh), sh) k (cs', sh')"
    by (rule class_update_run [OF assms(1) prep_ok(1) [OF assms(2,3)]]) blast
  from track_run_continued [OF this] show ?thesis by (simp add: start_frame_def prep_def)
qed

section \<open>Ids\<close>

lemma smallest_from_fresh:
  assumes "sorted ts" "distinct ts" "\<forall>t \<in> set ts. i \<le> t" "unat i + length ts < 2 ^ 32"
  shows "smallest_from i ts \<notin> set ts \<and> i \<le> smallest_from i ts"
  using assms
proof (induction ts arbitrary: i)
  case Nil
  then show ?case by simp
next
  case (Cons t ts)
  show ?case
  proof (cases "t = i")
    case True
    have n: "unat (i + 1) = unat i + 1" using Cons.prems(4) by (simp add: unat_word_ariths)
    have "\<forall>u \<in> set ts. i + 1 \<le> u"
    proof
      fix u assume "u \<in> set ts"
      with Cons.prems True have "i \<le> u" "u \<noteq> i" by auto
      then show "i + 1 \<le> u" by (metis inc_le order_le_less)
    qed
    with Cons.IH [of "i + 1"] Cons.prems n have "smallest_from (i + 1) ts \<notin> set ts" "i + 1 \<le> smallest_from (i + 1) ts" by simp_all
    moreover have "i < i + 1" using n by (simp add: word_less_nat_alt)
    ultimately show ?thesis using True by auto
  next
    case False
    with Cons.prems have "i < t" "\<forall>u \<in> set ts. t \<le> u" by auto
    with False show ?thesis by auto
  qed
qed

text \<open>
  The ids in use are distinct; under the policy of unique ids they lie below the next one. \<open>n\<close> bounds
  their number and the next id, so that it does not wrap around.
\<close>

definition ids_ok :: "params \<Rightarrow> nat \<Rightarrow> i32 list \<Rightarrow> shared \<Rightarrow> bool" where
  "ids_ok P n ids sh \<longleftrightarrow> distinct ids \<and> length ids \<le> n \<and>
     (id_assignment_policy P = UNIQUE_ID \<longrightarrow> (\<forall>i \<in> set ids. i < max_id sh) \<and> unat (max_id sh) \<le> n)"

lemma ids_ok_next:
  assumes "ids_ok P n ids sh" "get_next_id P ids (sh\<lparr>num_trackers := x\<rparr>) = (i, sh')" "n < 2 ^ 32 - 1"
  shows "ids_ok P (Suc n) (ids @ [i]) sh'"
proof (cases "id_assignment_policy P")
  case UNIQUE_ID
  with assms(2) have i: "i = max_id sh" "max_id sh' = max_id sh + 1" by (auto simp: get_next_id_def)
  have b: "\<forall>j \<in> set ids. j < max_id sh" "unat (max_id sh) \<le> n" using assms(1) UNIQUE_ID by (simp_all add: ids_ok_def)
  have u: "unat (max_id sh + 1) = unat (max_id sh) + 1" using b(2) assms(3) by (simp add: unat_word_ariths)
  have "j < max_id sh + 1" if "j \<in> set ids \<or> j = max_id sh" for j
    using that b(1) u unfolding word_less_nat_alt by auto
  with b u show ?thesis using assms(1) UNIQUE_ID i by (auto simp: ids_ok_def)
next
  case SMALLEST_ID
  with assms(2) have i: "i = smallest_from 0 (sort ids)" by (auto simp: get_next_id_def Let_def)
  have "smallest_from 0 (sort ids) \<notin> set (sort ids) \<and> 0 \<le> smallest_from 0 (sort ids)"
    using assms(1,3) by (intro smallest_from_fresh) (auto simp: ids_ok_def)
  then show ?thesis using assms(1) SMALLEST_ID by (auto simp: ids_ok_def i)
qed

lemma slot_change_ids: "slot_change trackOnly s s' \<Longrightarrow> map tr_id (tracklets (fst s')) = map tr_id (tracklets (fst s))"
  by (induction rule: slot_change.induct) (auto simp: set_slot_def map_update list_update_same_conv)

lemma track_run_ids:
  assumes "track_run trackOnly P others s0 k s" "ids_ok P n (others @ map tr_id (tracklets (fst s0))) (snd s0)" "n + k < 2 ^ 32"
  shows "ids_ok P (n + k) (others @ map tr_id (tracklets (fst s))) (snd s)"
  using assms
proof (induction rule: track_run.induct)
  case start
  then show ?case by simp
next
  case (change k cs sh cs' sh')
  then show ?case using slot_change_ids [OF change.hyps(2)] by (simp add: ids_ok_def)
next
  case (create k cs sh i sh' t b)
  then have "ids_ok P (n + k) (others @ map tr_id (tracklets cs)) sh" by simp
  from ids_ok_next [OF this create.hyps(2)] create.prems(2) create.hyps(3)
  show ?case by simp
qed

lemma class_update_ids:
  assumes e: "class_update einv P others trackOnly dets pts (cs, sh) = Some (Inr (ret, cs', sh'))" and ok: "aligned cs" "marked cs"
    and ids: "ids_ok P n (others @ map tr_id (tracklets cs)) sh" and b: "n + 2 * length dets < 2 ^ 32"
  shows "ids_ok P (n + 2 * length dets) (others @ map tr_id (tracklets cs')) sh'"
proof -
  obtain k where k: "k \<le> 2 * length dets" "track_run trackOnly P others (start_frame (cs, sh), sh) k (cs', sh')"
    by (rule class_update_run [OF e prep_ok(1) [OF ok]])
  have "length (filter (\<lambda>t. tr_status t \<noteq> REMOVED) (tracklets cs)) \<le> length (tracklets cs)" by (rule length_filter_le)
  moreover have "length others + length (tracklets cs) \<le> n" using ids by (simp add: ids_ok_def)
  ultimately have "length others + length (filter (\<lambda>t. tr_status t \<noteq> REMOVED) (tracklets cs)) \<le> n" by linarith
  with ids have "ids_ok P n (others @ map tr_id (tracklets (fst (start_frame (cs, sh), sh)))) (snd (start_frame (cs, sh), sh))"
    by (auto simp: ids_ok_def start_frame_def prep_def distinct_map_filter)
  from track_run_ids [OF k(2) this] b k(1) have "ids_ok P (n + k) (others @ map tr_id (tracklets cs')) sh'" by simp
  then show ?thesis using k(1) by (auto simp: ids_ok_def)
qed

section \<open>All classes\<close>

definition class_of :: "(u32 \<times> class_state) list \<Rightarrow> u32 \<Rightarrow> class_state" where
  "class_of css c = (case map_of css c of Some cs \<Rightarrow> cs | None \<Rightarrow> \<lparr>trackers = [], tracklets = [], frame_count = 0\<rparr>)"

definition tracker_ok :: "nat \<Rightarrow> tracker_state \<Rightarrow> bool" where
  "tracker_ok n s \<longleftrightarrow> distinct (map fst (class_states s)) \<and>
     (\<forall>(c, cs) \<in> set (class_states s). aligned cs \<and> marked cs) \<and>
     ids_ok (ts_params s) n (ids_of (class_states s)) (ts_shared s)"

lemma ids_ok_perm: "mset xs = mset ys \<Longrightarrow> ids_ok P n xs sh \<longleftrightarrow> ids_ok P n ys sh"
  using mset_eq_imp_distinct_iff [of xs ys] mset_eq_length [of xs ys] mset_eq_setD [of xs ys] by (simp add: ids_ok_def)

lemma ids_of_append [simp]: "ids_of (xs @ ys) = ids_of xs @ ids_of ys"
  by (simp add: ids_of_def)

lemma ids_of_single [simp]: "ids_of [(c, cs)] = map tr_id (tracklets cs)" "ids_of [] = []"
  by (simp_all add: ids_of_def)

lemma ids_of_Cons: "ids_of ((c, cs) # css) = map tr_id (tracklets cs) @ ids_of css"
  by (simp add: ids_of_def)

lemma ids_of_split:
  "distinct (map fst css) \<Longrightarrow>
   mset (ids_of (filter (\<lambda>p. fst p \<noteq> c) css) @ map tr_id (tracklets (class_of css c))) = mset (ids_of css)"
proof (induction css)
  case Nil
  then show ?case by (simp add: class_of_def)
next
  case (Cons p css)
  obtain d cs where p: "p = (d, cs)" by fastforce
  show ?case
  proof (cases "d = c")
    case True
    with Cons.prems p have "filter (\<lambda>p. fst p \<noteq> c) css = css" by (force simp: filter_id_conv)
    with True show ?thesis by (simp add: p class_of_def ids_of_Cons)
  next
    case False
    with Cons p show ?thesis by (simp add: class_of_def ids_of_Cons)
  qed
qed

lemma tracker_ok_class:
  assumes "tracker_ok n s"
  shows "aligned (class_of (class_states s) c)" "marked (class_of (class_states s) c)"
proof -
  have "aligned (class_of (class_states s) c) \<and> marked (class_of (class_states s) c)"
  proof (cases "map_of (class_states s) c")
    case None
    then show ?thesis by (simp add: class_of_def aligned_def marked_def)
  next
    case (Some cs)
    with assms map_of_SomeD [OF Some] show ?thesis by (auto simp: class_of_def tracker_ok_def)
  qed
  then show "aligned (class_of (class_states s) c)" "marked (class_of (class_states s) c)" by simp_all
qed

lemma update_class_Inr:
  assumes "update_class einv trackOnly dets pts c (ret, s) = Some (Inr (ret', s'))"
  obtains out cs' sh' where
    "class_update einv (ts_params s) (ids_of (filter (\<lambda>p. fst p \<noteq> c) (class_states s))) trackOnly (dets c) (pts c)
       (class_of (class_states s) c, ts_shared s) = Some (Inr (out, cs', sh'))"
    "s' = s\<lparr>ts_shared := sh', class_states := filter (\<lambda>p. fst p \<noteq> c) (class_states s) @ [(c, cs')]\<rparr>"
  using assms unfolding update_class_def prod.case Let_def class_of_def [symmetric] bindO_Inr
  by (elim exE conjE) (auto split: prod.splits)

lemma update_class_ok:
  assumes ok: "tracker_ok n s" and e: "update_class einv trackOnly dets pts c (ret, s) = Some (Inr (ret', s'))"
    and b: "n + 2 * length (dets c) < 2 ^ 32"
  shows "tracker_ok (n + 2 * length (dets c)) s'" "ts_params s' = ts_params s"
proof -
  let ?rest = "filter (\<lambda>p. fst p \<noteq> c) (class_states s)"
  obtain out cs' sh' where u:
    "class_update einv (ts_params s) (ids_of ?rest) trackOnly (dets c) (pts c) (class_of (class_states s) c, ts_shared s) = Some (Inr (out, cs', sh'))"
    and s': "s' = s\<lparr>ts_shared := sh', class_states := ?rest @ [(c, cs')]\<rparr>"
    by (rule update_class_Inr [OF e])
  have d: "distinct (map fst (class_states s))" using ok by (simp add: tracker_ok_def)
  have "ids_ok (ts_params s) n (ids_of ?rest @ map tr_id (tracklets (class_of (class_states s) c))) (ts_shared s)"
    using ok ids_ok_perm [OF ids_of_split [OF d]] by (simp add: tracker_ok_def)
  note i = class_update_ids [OF u tracker_ok_class [OF ok] this b]
  note a = class_update_ok [OF u tracker_ok_class [OF ok]]
  have "distinct (map fst (?rest @ [(c, cs')]))" using d by (auto simp: distinct_map_filter)
  with i a ok show "tracker_ok (n + 2 * length (dets c)) s'" by (auto simp: tracker_ok_def s')
  show "ts_params s' = ts_params s" by (simp add: s')
qed

lemma update_classes_ok:
  assumes "tracker_ok n s" "update_classes einv trackOnly dets pts cs (ret, s) = Some (Inr (ret', s'))"
    "n + 2 * sum_list (map (\<lambda>c. length (dets c)) cs) < 2 ^ 32"
  shows "tracker_ok (n + 2 * sum_list (map (\<lambda>c. length (dets c)) cs)) s' \<and> ts_params s' = ts_params s"
  using assms
proof (induction cs arbitrary: n ret s)
  case Nil
  then show ?case by simp
next
  case (Cons c cs)
  from Cons.prems(2) obtain ret1 s1 where
    e: "update_class einv trackOnly dets pts c (ret, s) = Some (Inr (ret1, s1))" and
    f: "update_classes einv trackOnly dets pts cs (ret1, s1) = Some (Inr (ret', s'))"
    by (auto simp: bindO_Inr)
  have "n + 2 * length (dets c) < 2 ^ 32" using Cons.prems(3) by simp
  note o = update_class_ok [OF Cons.prems(1) e this]
  from Cons.IH [OF o(1) f] o(2) Cons.prems(3) show ?case by (simp add: algebra_simps)
qed

lemma members_count:
  assumes "distinct (order :: u32 list)"
  shows "sum_list (map (\<lambda>c. length (filter (\<lambda>i. f i = c) xs)) order) \<le> length xs"
  using assms
proof (induction xs)
  case Nil
  then show ?case by (simp add: sum_list_0)
next
  case (Cons x xs)
  have "sum_list (map (\<lambda>c. length (filter (\<lambda>i. f i = c) (x # xs))) cs) =
      sum_list (map (\<lambda>c. length (filter (\<lambda>i. f i = c) xs)) cs) + sum_list (map (\<lambda>c. if f x = c then 1 else 0) cs)" for cs
    by (induction cs) auto
  moreover have "sum_list (map (\<lambda>c. if f x = c then 1 else 0) order) \<le> (1 :: nat)"
    using Cons.prems by (induction order) (auto simp: sum_list_eq_0_iff)
  ultimately show ?case using Cons by simp
qed

lemma state_update_ok:
  assumes ok: "tracker_ok n s" and d: "distinct order" and b: "n + 2 * length dets < 2 ^ 32"
    and e: "state_update einv order trackOnly dets pts s = Some (Inr (ret, s'))"
  shows "tracker_ok (n + 2 * length dets) s'" "ts_params s' = ts_params s"
proof -
  let ?k = "\<lambda>i. if track_by_class (ts_params s) then label (dets ! i) else 0"
  let ?m = "\<lambda>c. map (\<lambda>i. dets ! i) (filter (\<lambda>i. ?k i = c) [0..<length dets])"
  let ?n = "sum_list (map (\<lambda>c. length (?m c)) order)"
  have l: "?n \<le> length dets" using members_count [OF d, of ?k "[0..<length dets]"] by simp
  from e have "update_classes einv trackOnly ?m
      (\<lambda>c. map (\<lambda>i. if i < length pts then pts ! i else (0, 0, 0)) (filter (\<lambda>i. ?k i = c) [0..<length dets])) order ([], s) =
      Some (Inr (ret, s'))"
    by (simp only: state_update_def Let_def)
  from update_classes_ok [OF ok this] l b have r: "tracker_ok (n + 2 * ?n) s'" "ts_params s' = ts_params s" by simp_all
  from r(1) l show "tracker_ok (n + 2 * length dets) s'" by (auto simp: tracker_ok_def ids_ok_def)
  show "ts_params s' = ts_params s" by (rule r(2))
qed

text \<open>A configuration only marks tracklets.\<close>

lemma remove_tracklets_class:
  assumes "class_remove_tracklets ids (cs, sh) = Inr (cs', sh')" "aligned cs"
  shows "aligned cs' \<and> (marked cs \<longrightarrow> marked cs') \<and> map tr_id (tracklets cs') = map tr_id (tracklets cs) \<and> max_id sh' = max_id sh"
proof -
  let ?I = "\<lambda>s. aligned (fst s) \<and> (marked cs \<longrightarrow> marked (fst s)) \<and> map tr_id (tracklets (fst s)) = map tr_id (tracklets cs) \<and>
    max_id (snd s) = max_id sh"
  have "?I (cs', sh')"
  proof (rule foldR_invariant [OF assms(1) [unfolded class_remove_tracklets_def]])
    show "?I (cs, sh)" using assms(2) by simp
  next
    fix i u v
    assume I: "?I u"
      and e: "(case List.find (\<lambda>k. tr_id (tracklets (fst u) ! k) = i) [0..<length (tracklets (fst u))] of
          None \<Rightarrow> Inr u | Some k \<Rightarrow> remove_tracker k u) = Inr v"
    obtain c h c' h' where uv: "u = (c, h)" "v = (c', h')" by fastforce
    show "?I v"
    proof (cases "List.find (\<lambda>k. tr_id (tracklets (fst u) ! k) = i) [0..<length (tracklets (fst u))]")
      case None
      with e I show ?thesis by simp
    next
      case (Some k)
      with e uv have "remove_tracker k (c, h) = Inr (c', h')" by simp
      note r = remove_slot [OF _ this]
      have a: "aligned c" using I uv by simp
      have "slot_change True (c, h) (c', h')"
        using r [OF a] by (auto intro!: slot_change.drop simp: updateStatus_def)
      from slot_change_ids [OF this] r(3) [OF a] I uv slot_change_ok [OF this] a
        r(2) [OF a] show ?thesis by (auto simp: set_slot_def aligned_def)
    qed
  qed
  then show ?thesis by simp
qed

lemma remove_in_classes_ok:
  assumes "remove_in_classes ids css sh = Inr (css', sh')" "\<forall>(c, cs) \<in> set css. aligned cs \<and> marked cs"
  shows "map fst css' = map fst css \<and> ids_of css' = ids_of css \<and> max_id sh' = max_id sh \<and> (\<forall>(c, cs) \<in> set css'. aligned cs \<and> marked cs)"
  using assms
proof (induction css arbitrary: sh css')
  case Nil
  then show ?case by simp
next
  case (Cons p css)
  obtain c cs where p: "p = (c, cs)" by fastforce
  from Cons.prems(1) obtain cs1 sh1 css1 where
    e: "class_remove_tracklets ids (cs, sh) = Inr (cs1, sh1)" and f: "remove_in_classes ids css sh1 = Inr (css1, sh')"
    and r: "css' = (c, cs1) # css1"
    by (auto simp: p bindR_Inr_iff)
  have "aligned cs" "marked cs" using Cons.prems(2) by (simp_all add: p)
  with remove_tracklets_class [OF e] have "aligned cs1" "marked cs1" "map tr_id (tracklets cs1) = map tr_id (tracklets cs)"
    "max_id sh1 = max_id sh" by simp_all
  with Cons.IH [OF f] Cons.prems(2) show ?case by (simp add: r p ids_of_Cons)
qed

lemma configure_ok:
  assumes "tracker_ok n s" "ocs_configure ids (Some s) = Inr s'"
  shows "tracker_ok n s'" "ts_params s' = ts_params s"
proof -
  from assms(2) obtain css sh where r: "remove_in_classes ids (class_states s) (ts_shared s) = Inr (css, sh)"
    and s': "s' = s\<lparr>class_states := css, ts_shared := sh\<rparr>"
    by (auto simp: ocs_configure_def state_remove_tracklets_def bindR_Inr_iff)
  from remove_in_classes_ok [OF r] assms(1) show "tracker_ok n s'"
    by (auto simp: tracker_ok_def s' ids_ok_def)
  show "ts_params s' = ts_params s" by (simp add: s')
qed

lemma timestamp_ok: "tracker_ok n (update_frame_timestamp t s) \<longleftrightarrow> tracker_ok n s" "ts_params (update_frame_timestamp t s) = ts_params s"
  by (auto simp: update_frame_timestamp_def Let_def tracker_ok_def ids_ok_def)

lemma State_ok: "tracker_ok 0 (State P)"
  by (simp add: State_def tracker_ok_def ids_ok_def)

text \<open>
  Any sequence of turns of the node, over frames with at most \<open>n\<close> detections together; \<open>out\<close> is what the
  last turn sends. The iteration order of a turn names no class twice.
\<close>

inductive node_run ::
  "(nat \<Rightarrow> mat \<Rightarrow> mat) \<Rightarrow> tracker_properties \<Rightarrow> nat \<Rightarrow> tracker_state option \<Rightarrow> tracklet list \<Rightarrow> bool" for einv p where
  idle: "node_run einv p 0 None []"
| turn: "node_run einv p n so out \<Longrightarrow> distinct order \<Longrightarrow>
    tracker_turn einv p order frameTs cfg input so = Some (Inr (so', out')) \<Longrightarrow>
    node_run einv p (n + (case input of Some ds \<Rightarrow> length ds | None \<Rightarrow> 0)) so' out'"

lemma tracker_turn_parts:
  assumes "tracker_turn einv p order frameTs cfg input so = Some (Inr (so', out'))"
  obtains so1 where "so1 = so \<or> (\<exists>ids s s1. so = Some s \<and> ocs_configure ids (Some s) = Inr s1 \<and> so1 = Some s1)"
    "so' = so1 \<or>
     (\<exists>s0 ret s1 trackOnly. (so1 = None \<and> s0 = State (tracker_params p) \<or> so1 = Some s0) \<and> so' = Some s1 \<and>
        state_update einv order trackOnly (case input of Some ds \<Rightarrow> map fst ds | None \<Rightarrow> [])
          (case input of Some ds \<Rightarrow> map snd ds | None \<Rightarrow> []) (update_frame_timestamp frameTs s0) = Some (Inr (ret, s1)))"
    "out' = (case so' of Some s \<Rightarrow> get_tracklets s | None \<Rightarrow> [])"
proof -
  obtain so1 where
    c: "(case cfg of Some ids \<Rightarrow> Some (bindR (ocs_configure ids so) (\<lambda>s. Inr (Some s))) | None \<Rightarrow> Some (Inr so)) = Some (Inr so1)"
    and u: "bindO (case input of
                   Some ds \<Rightarrow>
                     if ds \<noteq> [] \<and> so1 = None
                     then bindO (ocs_init einv p order frameTs (map fst ds) (map snd ds)) (\<lambda>s. Some (Inr (Some s)))
                     else if so1 \<noteq> None
                     then bindO (ocs_update einv order frameTs (map fst ds) (map snd ds) so1) (\<lambda>s. Some (Inr (Some s)))
                     else Some (Inr so1)
                 | None \<Rightarrow>
                     if so1 \<noteq> None then bindO (ocs_track einv order frameTs so1) (\<lambda>s. Some (Inr (Some s)))
                     else Some (Inr so1))
            (\<lambda>so2. Some (Inr (so2, case so2 of Some s \<Rightarrow> get_tracklets s | None \<Rightarrow> []))) = Some (Inr (so', out'))"
    using iffD1 [OF bindO_Inr assms [unfolded tracker_turn_def]] by (elim exE conjE) (rule that)
  have 1: "so1 = so \<or> (\<exists>ids s s1. so = Some s \<and> ocs_configure ids (Some s) = Inr s1 \<and> so1 = Some s1)"
  proof (cases cfg)
    case None
    with c show ?thesis by simp
  next
    case (Some ids)
    with c have "\<exists>s1. ocs_configure ids so = Inr s1 \<and> so1 = Some s1" by (auto simp: bindR_Inr_iff)
    moreover have "so \<noteq> None" using calculation by (cases so) (auto simp: ocs_configure_def not_initialized_def)
    ultimately show ?thesis by auto
  qed
  show thesis
    by (rule that [OF 1])
      (use u in \<open>auto simp: bindO_Inr ocs_init_def ocs_update_def ocs_track_def split: option.splits if_splits prod.splits\<close>)
qed

lemma turn_ok:
  assumes e: "tracker_turn einv p order frameTs cfg input so = Some (Inr (so', out'))" and d: "distinct order"
    and ok: "\<And>s. so = Some s \<Longrightarrow> tracker_ok (2 * n) s" and k: "k = (case input of Some ds \<Rightarrow> length ds | None \<Rightarrow> 0)"
    and b: "2 * (n + k) < 2 ^ 32" and s': "so' = Some s'"
  shows "tracker_ok (2 * (n + k)) s'"
proof -
  obtain so1 where c: "so1 = so \<or> (\<exists>ids s s1. so = Some s \<and> ocs_configure ids (Some s) = Inr s1 \<and> so1 = Some s1)"
    and u: "so' = so1 \<or>
     (\<exists>s0 ret s1 trackOnly. (so1 = None \<and> s0 = State (tracker_params p) \<or> so1 = Some s0) \<and> so' = Some s1 \<and>
        state_update einv order trackOnly (case input of Some ds \<Rightarrow> map fst ds | None \<Rightarrow> [])
          (case input of Some ds \<Rightarrow> map snd ds | None \<Rightarrow> []) (update_frame_timestamp frameTs s0) = Some (Inr (ret, s1)))"
    by (rule tracker_turn_parts [OF e])
  have mono: "tracker_ok m s \<Longrightarrow> m \<le> m' \<Longrightarrow> tracker_ok m' s" for m m' s by (auto simp: tracker_ok_def ids_ok_def)
  have ok1: "tracker_ok (2 * n) s" if "so1 = Some s" for s
    using c that ok configure_ok(1) by auto
  have l: "length (case input of Some ds \<Rightarrow> map fst ds | None \<Rightarrow> []) = k" by (simp add: k split: option.split)
  from u show ?thesis
  proof (elim disjE exE conjE)
    assume "so' = so1"
    then show ?thesis using ok1 s' mono by auto
  next
    fix s0 ret s1 trackOnly
    assume s1: "so' = Some s1" and e: "state_update einv order trackOnly (case input of Some ds \<Rightarrow> map fst ds | None \<Rightarrow> [])
          (case input of Some ds \<Rightarrow> map snd ds | None \<Rightarrow> []) (update_frame_timestamp frameTs s0) = Some (Inr (ret, s1))"
      and "so1 = None" "s0 = State (tracker_params p)"
    then have "tracker_ok (2 * n) (update_frame_timestamp frameTs s0)" using mono [OF State_ok] by (simp add: timestamp_ok)
    from state_update_ok(1) [OF this d _ e] l b s1 s' show ?thesis by simp
  next
    fix s0 ret s1 trackOnly
    assume s1: "so' = Some s1" and e: "state_update einv order trackOnly (case input of Some ds \<Rightarrow> map fst ds | None \<Rightarrow> [])
          (case input of Some ds \<Rightarrow> map snd ds | None \<Rightarrow> []) (update_frame_timestamp frameTs s0) = Some (Inr (ret, s1))"
      and "so1 = Some s0"
    then have "tracker_ok (2 * n) (update_frame_timestamp frameTs s0)" using ok1 by (simp add: timestamp_ok)
    from state_update_ok(1) [OF this d _ e] l b s1 s' show ?thesis by simp
  qed
qed

lemma node_run_ok:
  "node_run einv p n so out \<Longrightarrow> 2 * n < 2 ^ 32 \<Longrightarrow> so = Some s \<Longrightarrow> tracker_ok (2 * n) s"
proof (induction arbitrary: s rule: node_run.induct)
  case idle
  then show ?case by simp
next
  case (turn n so out order frameTs cfg input so' out')
  have "2 * n < 2 ^ 32" using turn.prems(1) by simp
  from turn_ok [OF turn.hyps(3,2) turn.IH [OF this] refl] turn.prems show ?case by simp
qed

lemma get_tracklets_ids: "map tr_id (get_tracklets s) = ids_of (class_states s)"
  by (simp add: get_tracklets_def ids_of_def map_concat comp_def split_def)

section \<open>What a frame does to a tracklet\<close>

lemma class_of_updated: "class_of (filter (\<lambda>p. fst p \<noteq> c) css @ [(c, cs)]) d = (if d = c then cs else class_of css d)"
proof (cases "d = c")
  case True
  have "map_of (filter (\<lambda>p. fst p \<noteq> c) css) c = None" by (induction css) auto
  with True show ?thesis by (simp add: class_of_def map_add_def)
next
  case False
  then have "map_of (filter (\<lambda>p. fst p \<noteq> c) css) d = map_of css d" by (induction css) auto
  with False show ?thesis by (simp add: class_of_def map_add_def split: option.split)
qed

definition live :: "class_state \<Rightarrow> tracklet list" where
  "live cs = filter (\<lambda>t. tr_status t \<noteq> REMOVED) (tracklets cs)"

lemma update_classes_continued:
  assumes "tracker_ok n s" "update_classes einv trackOnly dets pts cs (ret, s) = Some (Inr (ret', s'))"
    "n + 2 * sum_list (map (\<lambda>c. length (dets c)) cs) < 2 ^ 32" "distinct cs"
  shows "(\<forall>c \<in> set cs. continued trackOnly (live (class_of (class_states s) c)) (tracklets (class_of (class_states s') c))) \<and>
    (\<forall>c. c \<notin> set cs \<longrightarrow> class_of (class_states s') c = class_of (class_states s) c)"
  using assms
proof (induction cs arbitrary: n ret s)
  case Nil
  then show ?case by simp
next
  case (Cons c cs)
  from Cons.prems(2) obtain ret1 s1 where
    e: "update_class einv trackOnly dets pts c (ret, s) = Some (Inr (ret1, s1))" and
    f: "update_classes einv trackOnly dets pts cs (ret1, s1) = Some (Inr (ret', s'))"
    by (auto simp: bindO_Inr)
  have b: "n + 2 * length (dets c) < 2 ^ 32" using Cons.prems(3) by simp
  obtain out cs' sh' where
    u: "class_update einv (ts_params s) (ids_of (filter (\<lambda>p. fst p \<noteq> c) (class_states s))) trackOnly (dets c) (pts c)
       (class_of (class_states s) c, ts_shared s) = Some (Inr (out, cs', sh'))"
    and s1: "s1 = s\<lparr>ts_shared := sh', class_states := filter (\<lambda>p. fst p \<noteq> c) (class_states s) @ [(c, cs')]\<rparr>"
    by (rule update_class_Inr [OF e])
  have k: "continued trackOnly (live (class_of (class_states s) c)) (tracklets cs')"
    unfolding live_def by (rule class_update_continued [OF u tracker_ok_class [OF Cons.prems(1)]])
  have at: "class_of (class_states s1) d = (if d = c then cs' else class_of (class_states s) d)" for d
    by (simp add: s1 class_of_updated)
  have IH: "(\<forall>d \<in> set cs. continued trackOnly (live (class_of (class_states s1) d)) (tracklets (class_of (class_states s') d))) \<and>
    (\<forall>d. d \<notin> set cs \<longrightarrow> class_of (class_states s') d = class_of (class_states s1) d)"
    using Cons.IH [OF update_class_ok(1) [OF Cons.prems(1) e b] f] Cons.prems(3,4) by simp
  have c: "class_of (class_states s') c = cs'" using IH Cons.prems(4) at by simp
  show ?case
  proof (intro conjI ballI allI impI)
    fix d assume "d \<in> set (c # cs)"
    then consider "d = c" | "d \<noteq> c" "d \<in> set cs" by auto
    then show "continued trackOnly (live (class_of (class_states s) d)) (tracklets (class_of (class_states s') d))"
    proof cases
      case 1
      with k c show ?thesis by simp
    next
      case 2
      with IH at show ?thesis by metis
    qed
  next
    fix d assume "d \<notin> set (c # cs)"
    with IH at show "class_of (class_states s') d = class_of (class_states s) d" by simp
  qed
qed

lemma in_get_tracklets:
  assumes "distinct (map fst (class_states s))"
  shows "t \<in> set (get_tracklets s) \<longleftrightarrow> (\<exists>c. t \<in> set (tracklets (class_of (class_states s) c)))"
proof
  assume "t \<in> set (get_tracklets s)"
  then obtain c cs where c: "(c, cs) \<in> set (class_states s)" "t \<in> set (tracklets cs)" by (auto simp: get_tracklets_def)
  with assms have "class_of (class_states s) c = cs" by (simp add: class_of_def)
  with c show "\<exists>c. t \<in> set (tracklets (class_of (class_states s) c))" by blast
next
  assume "\<exists>c. t \<in> set (tracklets (class_of (class_states s) c))"
  then obtain c where c: "t \<in> set (tracklets (class_of (class_states s) c))" ..
  then obtain cs where "map_of (class_states s) c = Some cs" "t \<in> set (tracklets cs)"
    by (cases "map_of (class_states s) c") (auto simp: class_of_def)
  from map_of_SomeD [OF this(1)] this(2) show "t \<in> set (get_tracklets s)" by (force simp: get_tracklets_def)
qed

lemma state_update_continued:
  assumes ok: "tracker_ok n s" and d: "distinct order" and b: "n + 2 * length dets < 2 ^ 32"
    and e: "state_update einv order trackOnly dets pts s = Some (Inr (ret, s'))"
    and t: "t \<in> set (get_tracklets s)" "tr_status t \<noteq> REMOVED"
  shows "\<exists>t' \<in> set (get_tracklets s'). tr_id t' = tr_id t \<and> (status_step trackOnly)\<^sup>*\<^sup>* (tr_status t) (tr_status t')"
proof -
  let ?k = "\<lambda>i. if track_by_class (ts_params s) then label (dets ! i) else 0"
  let ?m = "\<lambda>c. map (\<lambda>i. dets ! i) (filter (\<lambda>i. ?k i = c) [0..<length dets])"
  have "sum_list (map (\<lambda>c. length (?m c)) order) \<le> length dets" using members_count [OF d, of ?k "[0..<length dets]"] by simp
  then have b': "n + 2 * sum_list (map (\<lambda>c. length (?m c)) order) < 2 ^ 32" using b by linarith
  have u: "update_classes einv trackOnly ?m
      (\<lambda>c. map (\<lambda>i. if i < length pts then pts ! i else (0, 0, 0)) (filter (\<lambda>i. ?k i = c) [0..<length dets])) order ([], s) =
      Some (Inr (ret, s'))"
    using e by (simp only: state_update_def Let_def)
  note k = update_classes_continued [OF ok u b' d]
  have ds: "distinct (map fst (class_states s))" "distinct (map fst (class_states s'))"
    using ok state_update_ok(1) [OF ok d b e] by (simp_all add: tracker_ok_def)
  obtain c where c: "t \<in> set (tracklets (class_of (class_states s) c))" using t(1) in_get_tracklets [OF ds(1)] by blast
  show ?thesis
  proof (cases "c \<in> set order")
    case False
    with k c have "t \<in> set (tracklets (class_of (class_states s') c))" by simp
    then show ?thesis using in_get_tracklets [OF ds(2)] by blast
  next
    case True
    let ?l = "live (class_of (class_states s) c)" and ?u = "tracklets (class_of (class_states s') c)"
    have "t \<in> set ?l" using c t(2) by (simp add: live_def)
    then obtain j where j: "j < length ?l" "t = ?l ! j" by (auto simp: in_set_conv_nth)
    from k True have ct: "continued trackOnly ?l ?u" by blast
    with j have "?u ! j \<in> set ?u" "tr_id (?u ! j) = tr_id t" "(status_step trackOnly)\<^sup>*\<^sup>* (tr_status t) (tr_status (?u ! j))"
      by (auto simp: continued_def)
    then show ?thesis using in_get_tracklets [OF ds(2)] by blast
  qed
qed

section \<open>First frames\<close>

text \<open>The first frame of a class only creates tracks; a frame without detections only predicts.\<close>

lemma creates_seen:
  assumes "aligned (fst s)" "\<forall>b \<in> set (trackers (fst s)). time_since_update b = 0"
  shows "\<forall>b \<in> set (trackers (fst (fold (\<lambda>i. create P others dets pts (first ! i)) ks s))). time_since_update b = 0"
  using assms
proof (induction ks arbitrary: s)
  case Nil
  then show ?case by simp
next
  case (Cons i ks)
  obtain cs sh where s: "s = (cs, sh)" by fastforce
  obtain cs' sh' where c: "create P others dets pts (first ! i) (cs, sh) = (cs', sh')" by fastforce
  have "aligned cs' \<and> (\<forall>b \<in> set (trackers cs'). time_since_update b = 0)"
    using create_slot [OF _ c] Cons.prems by (auto simp: s aligned_def)
  with Cons.IH [of "(cs', sh')"] show ?case by (simp add: s c)
qed

lemma expires_none:
  "\<forall>i \<in> set is. time_since_update (trackers cs ! i) \<le> max_age P \<Longrightarrow> \<exists>ret'. foldR (expire P) is (ret, cs, sh) = Inr (ret', cs, sh)"
proof (induction "is" arbitrary: ret)
  case Nil
  then show ?case by simp
next
  case (Cons i "is")
  then have "\<exists>r. expire P i (ret, cs, sh) = Inr (r, cs, sh)" by (simp add: expire_def Let_def)
  with Cons show ?case by (auto simp: bindR_def)
qed

lemma class_update_first:
  assumes "length dets = length pts" "\<forall>d \<in> set dets. confidence d > det_thresh P" "max_age P \<ge> 0"
  shows "\<exists>ret. class_update einv P others trackOnly dets pts (\<lparr>trackers = [], tracklets = [], frame_count = f\<rparr>, sh) =
    Some (Inr (ret, fold (create P others dets pts) [0..<length dets] (\<lparr>trackers = [], tracklets = [], frame_count = f + 1\<rparr>, sh)))"
proof -
  let ?s = "(\<lparr>trackers = [], tracklets = [], frame_count = f + 1\<rparr>, sh) :: class_state \<times> shared"
  let ?first = "filter (\<lambda>i. confidence (dets ! i) > det_thresh P) [0..<length dets]"
  have f: "?first = [0..<length dets]" using assms(2) by (simp add: filter_id_conv)
  have c: "fold (\<lambda>i. create P others dets pts ([0..<length dets] ! i)) [0..<length dets] ?s = fold (create P others dets pts) [0..<length dets] ?s"
    by (rule fold_cong) auto
  define r where "r = fold (create P others dets pts) [0..<length dets] ?s"
  have seen: "\<forall>b \<in> set (trackers (fst r)). time_since_update b = 0"
    using creates_seen [of ?s P others dets pts "[0..<length dets]" "[0..<length dets]"] unfolding c r_def by (simp add: aligned_def)
  have "\<exists>ret'. foldR (expire P) (List.rev [0..<length (trackers (fst r))]) ([], fst r, snd r) = Inr (ret', fst r, snd r)"
    by (rule expires_none) (use seen assms(3) in auto)
  then obtain ret where x: "foldR (expire P) (List.rev [0..<length (trackers (fst r))]) ([], r) = Inr (ret, r)" by auto
  have "finish_frame einv P others trackOnly dets pts [0..<length dets] [0..<length dets] [] ?s = Inr (ret, r)"
    using x by (simp add: finish_frame_def bindR_def Let_def c r_def)
  moreover have "associate sp ds [] thr vel prev vdc dsp ts = Some (Inr ([], [0..<length ds], []))" for sp ds thr vel prev vdc dsp ts
    by (simp add: associate_def Let_def)
  ultimately show ?thesis
    unfolding r_def using assms(1)
    by (simp add: class_update_def prep_def Let_def f f [unfolded assms(1)] bindO_def byte_round_def ocr_round_def hits_of_def)
qed

lemma first_turn:
  assumes "ds \<noteq> []" "\<not> trackingPerClass p" "\<forall>d \<in> set (map fst ds). confidence d > 0" "sint (trackletMaxLifespan p) \<ge> 0"
  shows "\<exists>s. tracker_turn einv p [0] frameTs None (Some ds) None = Some (Inr (Some s, get_tracklets s)) \<and>
    ts_params s = tracker_params p \<and>
    (\<exists>cs. class_states s = [(0, cs)] \<and>
       fold (create (tracker_params p) [] (map fst ds) (map snd ds)) [0..<length ds]
         (\<lparr>trackers = [], tracklets = [], frame_count = 1\<rparr>, ts_shared (update_frame_timestamp frameTs (State (tracker_params p)))) = (cs, ts_shared s))"
proof -
  let ?s = "update_frame_timestamp frameTs (State (tracker_params p))"
  have s: "class_states ?s = []" "ts_params ?s = tracker_params p" by (simp_all add: update_frame_timestamp_def State_def Let_def)
  have d: "map (\<lambda>i. map fst ds ! i) [0..<length ds] = map fst ds" "map (\<lambda>i. map snd ds ! i) [0..<length ds] = map snd ds"
    by (auto intro: nth_equalityI)
  have d2: "map (\<lambda>i. if i < length ds then map snd ds ! i else (0, 0, 0)) [0..<length ds] = map snd ds"
    by (auto intro: nth_equalityI)
  obtain cs sh where f: "fold (create (tracker_params p) [] (map fst ds) (map snd ds)) [0..<length ds]
         (\<lparr>trackers = [], tracklets = [], frame_count = 1\<rparr>, ts_shared ?s) = (cs, sh)" by fastforce
  obtain ret where u: "class_update einv (tracker_params p) [] False (map fst ds) (map snd ds) (\<lparr>trackers = [], tracklets = [], frame_count = 0\<rparr>, ts_shared ?s) =
      Some (Inr (ret, cs, sh))"
    using class_update_first [of "map fst ds" "map snd ds" "tracker_params p" einv "[]" False 0 "ts_shared ?s"] assms(3,4) f
    by (auto simp: tracker_params_def)
  have "track_by_class (tracker_params p) = False" using assms(2) by (simp add: tracker_params_def)
  then have "state_update einv [0] False (map fst ds) (map snd ds) ?s = Some (Inr (ret, ?s\<lparr>ts_shared := sh, class_states := [(0, cs)]\<rparr>))"
    by (simp add: state_update_def Let_def s update_class_def d d2 u ids_of_def bindO_def)
  then show ?thesis
    using assms(1) s f by (simp add: tracker_turn_def ocs_init_def bindO_def)
qed

lemma misses_trackOnly:
  assumes "aligned cs" "\<forall>m \<in> set ms. m < length (trackers cs)"
  shows "\<exists>cs'. foldR (miss einv True) ms (cs, sh) = Inr (cs', sh) \<and> map time_since_update (trackers cs') = map time_since_update (trackers cs)"
  using assms
proof (induction ms arbitrary: cs)
  case Nil
  then show ?case by simp
next
  case (Cons m ms)
  have m: "m < length (trackers cs)" "m < length (tracklets cs)" using Cons.prems by (simp_all add: aligned_def)
  define b where "b = bt_update einv None None (trackers cs ! m)"
  have a1: "aligned (cs\<lparr>trackers := (trackers cs)[m := b]\<rparr>)" "m < length (tracklets (cs\<lparr>trackers := (trackers cs)[m := b]\<rparr>))"
    using Cons.prems(1) m by (simp_all add: aligned_def)
  obtain t where s: "sync_tracklet_motion m (cs\<lparr>trackers := (trackers cs)[m := b]\<rparr>) =
      cs\<lparr>trackers := (trackers cs)[m := b], tracklets := (tracklets cs)[m := t]\<rparr>"
    using sync_slot [OF a1] by auto
  define cs1 where "cs1 = set_slot m b t cs"
  have e: "miss einv True m (cs, sh) = Inr (cs1, sh)"
    using m by (simp add: miss_def b_def [symmetric] s cs1_def set_slot_def)
  have k: "aligned cs1" "map time_since_update (trackers cs1) = map time_since_update (trackers cs)" "length (trackers cs1) = length (trackers cs)"
    using Cons.prems(1) m by (simp_all add: cs1_def set_slot_def aligned_def map_update b_def list_update_same_conv)
  with Cons.IH [of cs1] Cons.prems(2) e show ?case by (auto simp: bindR_def)
qed

lemma class_update_empty:
  assumes "aligned (prep cs)" "\<forall>b \<in> set (trackers (prep cs)). time_since_update b < max_age P"
  shows "\<exists>ret cs'. class_update einv P others True [] [] (cs, sh) = Some (Inr (ret, cs', sh))"
proof -
  let ?s = "start_frame (cs, sh)"
  have al: "aligned ?s" using assms(1) by (simp add: start_frame_def aligned_def)
  obtain cs' where m: "foldR (miss einv True) [0..<length (trackers ?s)] (?s, sh) = Inr (cs', sh)"
    "map time_since_update (trackers cs') = map time_since_update (trackers ?s)"
    using misses_trackOnly [OF al, of "[0..<length (trackers ?s)]" einv sh] by auto
  have "time_since_update b \<le> max_age P" if "b \<in> set (trackers ?s)" for b
    using that assms(2) by (force simp: start_frame_def)
  then have "\<forall>x \<in> set (map time_since_update (trackers cs')). x \<le> max_age P" unfolding m(2) by auto
  then have "\<forall>i \<in> set (List.rev [0..<length (trackers cs')]). time_since_update (trackers cs' ! i) \<le> max_age P" by auto
  from expires_none [OF this] obtain ret where "foldR (expire P) (List.rev [0..<length (trackers cs')]) ([], cs', sh) = Inr (ret, cs', sh)" by blast
  with m(1) have f: "finish_frame einv P others True [] [] [] [] [0..<length (trackers ?s)] (?s, sh) = Inr (ret, cs', sh)"
    by (simp add: finish_frame_def bindR_def)
  have sf: "?s = (prep cs)\<lparr>trackers := map snd (map (\<lambda>b. bt_predict (update_spatial_model_dt (frame_dt sh) b)) (trackers (prep cs))),
      frame_count := frame_count (prep cs) + 1\<rparr>"
    by (simp add: start_frame_def comp_def)
  have l: "length (trackers ?s) = length (trackers (prep cs))" by (simp add: start_frame_def)
  show ?thesis
    using f unfolding l
    by (simp add: class_update_def Let_def associate_def bindO_def byte_round_def ocr_round_def hits_of_def sf [symmetric] del: map_map)
qed

text \<open>Concrete inputs for the examples below: two detections, and properties with a limit and a lifespan.\<close>

definition sample_detections :: "(img_detection \<times> point3f) list" where
  "sample_detections =
     [(\<lparr>xmin = 0, ymin = 0, xmax = 10, ymax = 10, confidence = 9 / 10, label = 1\<rparr>, (0, 0, 0)),
      (\<lparr>xmin = 20, ymin = 20, xmax = 30, ymax = 40, confidence = 8 / 10, label = 2\<rparr>, (1, 2, 3))]"

definition sample_properties :: "i32 \<Rightarrow> u32 \<Rightarrow> tracker_properties" where
  "sample_properties n life =
     \<lparr>maxObjectsToTrack = n, trackerIdAssignmentPolicy = UNIQUE_ID, trackingPerClass = False, occlusionRatioThreshold = 3 / 10,
      trackletMaxLifespan = life, trackletBirthThreshold = 3, spatialAssociation = False, spatialAssociationWeight = 0,
      spatialDistanceThreshold = 1, spatialDepthAwareScale = 0, trackerThreshold = 0, detectionLabelsToTrack = []\<rparr>"

lemma sample_conditions:
  "sample_detections \<noteq> []" "\<not> trackingPerClass (sample_properties n life)"
  "\<forall>d \<in> set (map fst sample_detections). confidence d > 0" "trackletMaxLifespan (sample_properties n life) = life"
  by (simp_all add: sample_detections_def sample_properties_def)

lemma unique_id: "id_assignment_policy P = UNIQUE_ID \<Longrightarrow> get_next_id P ids sh = (max_id sh, sh\<lparr>max_id := max_id sh + 1\<rparr>)"
  by (simp add: get_next_id_def)

lemma sample_first_frame:
  obtains s b1 b2 t1 t2 where
    "tracker_turn einv (sample_properties 2 10) [0] frameTs None (Some sample_detections) None = Some (Inr (Some s, [t1, t2]))"
    "class_states s = [(0, \<lparr>trackers = [b1, b2], tracklets = [t1, t2], frame_count = 1\<rparr>)]"
    "ts_params s = tracker_params (sample_properties 2 10)" "tr_id t1 = 0" "tr_id t2 = 1" "tr_status t1 = NEW" "tr_status t2 = NEW"
    "\<not> bt_remove b1" "\<not> bt_remove b2" "time_since_update b1 = 0" "time_since_update b2 = 0"
proof -
  let ?p = "sample_properties 2 10"
  let ?P = "tracker_params ?p" and ?d = "map fst sample_detections" and ?q = "map snd sample_detections"
  let ?sh = "ts_shared (update_frame_timestamp frameTs (State ?P))"
  let ?c = "\<lparr>trackers = [], tracklets = [], frame_count = 1\<rparr> :: class_state"
  obtain s cs where t: "tracker_turn einv ?p [0] frameTs None (Some sample_detections) None = Some (Inr (Some s, get_tracklets s))"
    and p: "ts_params s = ?P" and c: "class_states s = [(0, cs)]" and
    f: "fold (create ?P [] ?d ?q) [0..<length sample_detections] (?c, ?sh) = (cs, ts_shared s)"
    using first_turn [OF sample_conditions(1,2,3), of 2 10 einv frameTs] by (auto simp: sample_conditions(4))
  have sh: "num_trackers ?sh = 0" "max_id ?sh = 0" by (simp_all add: update_frame_timestamp_def State_def Let_def)
  have P: "id_assignment_policy ?P = UNIQUE_ID" "max_trackers ?P = 2" by (simp_all add: tracker_params_def sample_properties_def)
  obtain cs1 sh1 where c1: "create ?P [] ?d ?q 0 (?c, ?sh) = (cs1, sh1)" by fastforce
  have al: "aligned ?c" by (simp add: aligned_def)
  obtain b1 t1 where s1: "cs1 = \<lparr>trackers = [b1], tracklets = [t1], frame_count = 1\<rparr>" "num_trackers sh1 = 1" "max_id sh1 = 1"
    "tr_id t1 = 0" "tr_status t1 = NEW" "\<not> bt_remove b1" "time_since_update b1 = 0"
    using create_slot [OF al c1] sh P by (auto simp: unique_id [OF P(1)])
  have al1: "aligned cs1" by (simp add: aligned_def s1)
  have c2: "create ?P [] ?d ?q 1 (cs1, sh1) = (cs, ts_shared s)" using f c1 by (simp add: sample_detections_def)
  obtain b2 t2 where s2: "cs = \<lparr>trackers = [b1, b2], tracklets = [t1, t2], frame_count = 1\<rparr>"
    "tr_id t2 = 1" "tr_status t2 = NEW" "\<not> bt_remove b2" "time_since_update b2 = 0"
    using create_slot [OF al1 c2] s1 P by (auto simp: unique_id [OF P(1)] word_less_nat_alt)
  show thesis
    by (rule that [of s t1 t2 b1 b2]) (use t p c s1 s2 in \<open>simp_all add: get_tracklets_def\<close>)
qed

lemma sample_second_frame:
  assumes "class_states s = [(0, \<lparr>trackers = [b1, b2], tracklets = [t1, t2], frame_count = 1\<rparr>)]"
    "ts_params s = tracker_params (sample_properties 2 10)" "tr_status t1 = NEW" "tr_status t2 = NEW"
    "\<not> bt_remove b1" "\<not> bt_remove b2" "time_since_update b1 = 0" "time_since_update b2 = 0"
  shows "\<exists>so out. tracker_turn einv p [0] frameTs None None (Some s) = Some (Inr (so, out))"
proof -
  let ?c = "\<lparr>trackers = [b1, b2], tracklets = [t1, t2], frame_count = 1\<rparr>" and ?s = "update_frame_timestamp frameTs s"
  have "aligned (prep ?c)" "\<forall>b \<in> set (trackers (prep ?c)). time_since_update b < max_age (ts_params s)"
    using assms(3-) by (simp_all add: prep_def aligned_def assms(2) tracker_params_def sample_properties_def)
  from class_update_empty [OF this, of einv "[]" "ts_shared ?s"] obtain ret cs' where
    u: "class_update einv (ts_params s) [] True [] [] (?c, ts_shared ?s) = Some (Inr (ret, cs', ts_shared ?s))" by blast
  have "class_states ?s = [(0, ?c)]" "ts_params ?s = ts_params s" by (simp_all add: update_frame_timestamp_def Let_def assms(1))
  with u show ?thesis
    by (simp add: tracker_turn_def bindO_def ocs_track_def state_update_def Let_def update_class_def ids_of_def)
qed

section \<open>The theorems\<close>

text \<open> C15.
  Tracklets are told apart by their ids: whatever detections and configurations the node gets, the
  tracklets of a message that it sends have distinct ids, under either policy of assigning them. (With
  \<open>UNIQUE_ID\<close> the counter is taken not to wrap around: fewer than 2^31 detections in all.)\<close>

theorem tracklet_ids_distinct:
  assumes "node_run einv p n so out" "n < 2 ^ 31"
  shows "distinct (map tr_id out)"
  using assms
proof (cases rule: node_run.cases)
  case idle
  then show ?thesis by simp
next
  case (turn m so0 out0 order frameTs cfg input)
  then have o: "out = (case so of Some s \<Rightarrow> get_tracklets s | None \<Rightarrow> [])" by (metis tracker_turn_parts)
  show ?thesis
  proof (cases so)
    case None
    with o show ?thesis by simp
  next
    case (Some s)
    with node_run_ok [OF assms(1) _ Some] assms(2) have "tracker_ok (2 * n) s" by simp
    then show ?thesis using o Some by (simp add: get_tracklets_ids tracker_ok_def ids_ok_def)
  qed
qed

theorem tracklet_ids_distinct_witness:
  "\<exists>so out. node_run (\<lambda>n m. m) (sample_properties 2 10) 2 so out \<and> map tr_id out = [0, 1] \<and> distinct (map tr_id out)"
proof -
  obtain s b1 b2 t1 t2 where
    t: "tracker_turn (\<lambda>n m. m) (sample_properties 2 10) [0] 0 None (Some sample_detections) None = Some (Inr (Some s, [t1, t2]))"
    "tr_id t1 = 0" "tr_id t2 = 1"
    by (rule sample_first_frame [of "\<lambda>n m. m" 0])
  have r: "node_run (\<lambda>n m. m) (sample_properties 2 10) 2 (Some s) [t1, t2]"
    using node_run.turn [OF node_run.idle _ t(1)] by (simp add: sample_detections_def numeral_2_eq_2)
  from tracklet_ids_distinct [OF r] r t(2,3) show ?thesis by (intro exI [of _ "Some s"] exI [of _ "[t1, t2]"]) simp
qed



end
