(* ===== verification/TrackCount.thy ===== *)
theory TrackCount
  imports TrackLifecycle
begin

text \<open>
  The counter of tracks in the tracker's state: how the steps of a frame change it, that it is the number of
  tracklets that are not removed as long as every frame has detections, and the case where it loses two
  for one track.
\<close>

section \<open>Counting\<close>

lemma length_filter_update:
  "m < length xs \<Longrightarrow> length (filter p (xs[m := x])) + (if p (xs ! m) then 1 else 0) = length (filter p xs) + (if p x then 1 else 0)"
proof (induction xs arbitrary: m)
  case (Cons y ys)
  then show ?case by (cases m) auto
qed simp

text \<open>\<open>k\<close> tracks of other classes are counted as well.\<close>

definition counted :: "params \<Rightarrow> nat \<Rightarrow> class_state \<Rightarrow> shared \<Rightarrow> bool" where
  "counted P k cs sh \<longleftrightarrow> num_trackers sh = of_nat (k + length (live cs)) \<and> k + length (live cs) \<le> unat (max_trackers P)"

lemma counted_num: "counted P k cs sh \<Longrightarrow> unat (num_trackers sh) = k + length (live cs)"
proof -
  assume c: "counted P k cs sh"
  moreover have "unat (max_trackers P) < 2 ^ 32" using unsigned_less [of "max_trackers P"] by simp
  ultimately show ?thesis by (simp add: counted_def unat_of_nat take_bit_nat_eq_self del: of_nat_add)
qed

lemma counted_keep:
  assumes "counted P k cs sh" "m < length (tracklets cs)" "tr_status t = REMOVED \<longleftrightarrow> tr_status (tracklets cs ! m) = REMOVED"
  shows "counted P k (set_slot m b t cs) sh"
  using assms length_filter_update [of m "tracklets cs" "\<lambda>t. tr_status t \<noteq> REMOVED" t]
  by (auto simp: counted_def live_def set_slot_def split: if_splits)

lemma counted_drop:
  assumes "counted P k cs sh" "m < length (tracklets cs)" "tr_status t = REMOVED" "tr_status (tracklets cs ! m) \<noteq> REMOVED"
  shows "counted P k (set_slot m b t cs) (sh\<lparr>num_trackers := num_trackers sh - 1\<rparr>)"
proof -
  have "length (live (set_slot m b t cs)) + 1 = length (live cs)"
    using assms length_filter_update [of m "tracklets cs" "\<lambda>t. tr_status t \<noteq> REMOVED" t] by (simp add: live_def set_slot_def)
  moreover from this have "of_nat (k + length (live cs)) - 1 = (of_nat (k + length (live (set_slot m b t cs))) :: u32)"
    by (metis add.assoc add_diff_cancel_right' of_nat_add of_nat_1)
  ultimately show ?thesis using assms(1) by (simp add: counted_def)
qed

text \<open>New tracks were just seen, unless they are at a position in \<open>N\<close>; removed ones were not missed for long.\<close>

definition timely :: "nat set \<Rightarrow> class_state \<Rightarrow> bool" where
  "timely N cs \<longleftrightarrow> aligned cs \<and>
     (\<forall>j < length (tracklets cs). (tr_status (tracklets cs ! j) = NEW \<longrightarrow> time_since_update (trackers cs ! j) = 0 \<or>
          time_since_update (trackers cs ! j) = 1 \<and> j \<in> N) \<and>
        (tr_status (tracklets cs ! j) = REMOVED \<longrightarrow> time_since_update (trackers cs ! j) \<le> 1))"

lemma timely_slot:
  assumes t: "timely N cs" and m: "m < length (tracklets cs)" and N: "N - {m} \<subseteq> N'"
    and "tr_status t = NEW \<Longrightarrow> time_since_update b = 0" "tr_status t = REMOVED \<Longrightarrow> time_since_update b \<le> 1"
  shows "timely N' (set_slot m b t cs)"
proof -
  have l: "m < length (trackers cs)" using t m by (simp add: timely_def aligned_def)
  show ?thesis
    unfolding timely_def
  proof (intro conjI allI impI)
    show "aligned (set_slot m b t cs)" using t by (simp add: timely_def aligned_def set_slot_def)
  next
    fix j assume j: "j < length (tracklets (set_slot m b t cs))"
    show "time_since_update (trackers (set_slot m b t cs) ! j) = 0 \<or> time_since_update (trackers (set_slot m b t cs) ! j) = 1 \<and> j \<in> N'"
      if "tr_status (tracklets (set_slot m b t cs) ! j) = NEW"
      using that assms(4) t N j l m by (cases "j = m") (auto simp: timely_def set_slot_def)
    show "time_since_update (trackers (set_slot m b t cs) ! j) \<le> 1" if "tr_status (tracklets (set_slot m b t cs) ! j) = REMOVED"
      using that assms(5) t j l m by (cases "j = m") (auto simp: timely_def set_slot_def)
  qed
qed

lemma hits_run_counted:
  assumes "hits_run einv P cs M cs1" "counted P k cs sh" "timely UNIV cs" "\<forall>j < length (tracklets cs). tr_status (tracklets cs ! j) \<noteq> REMOVED"
  shows "counted P k cs1 sh \<and> timely (- M) cs1 \<and> length (tracklets cs1) = length (tracklets cs) \<and>
    (\<forall>j < length (tracklets cs1). tr_status (tracklets cs1 ! j) \<noteq> REMOVED)"
  using assms
proof (induction rule: hits_run.induct)
  case none
  then show ?case by simp
next
  case (one M cs1 m st d p)
  from one.IH [OF one.prems] have IH: "counted P k cs1 sh" "timely (- M) cs1" "length (tracklets cs1) = length (tracklets cs)"
    "\<forall>j < length (tracklets cs1). tr_status (tracklets cs1 ! j) \<noteq> REMOVED" by simp_all
  have al: "aligned cs1" using IH(2) by (simp add: timely_def)
  show ?case
  proof (cases "m < length (tracklets cs1)")
    case False
    then have "timely (- insert m M) cs1" using IH(2) by (auto simp: timely_def)
    then show ?thesis using IH hit_outside [OF al False] by simp
  next
    case True
    obtain b t where h: "hit einv P st m d p cs1 = set_slot m b t cs1"
      "bt_remove b = bt_remove (trackers cs1 ! m)" "time_since_update b = 0" "tr_id t = tr_id (tracklets cs1 ! m)"
      "tr_status t = tr_status (tracklets cs1 ! m) \<or>
       (tr_status (tracklets cs1 ! m) = NEW \<or> tr_status (tracklets cs1 ! m) = LOST) \<and> tr_status t = TRACKED"
      by (rule hit_slot [OF al True])
    have r: "tr_status t \<noteq> REMOVED" using h(5) IH(4) True by auto
    have "timely (- insert m M) (set_slot m b t cs1)"
      by (rule timely_slot [OF IH(2) True]) (use h(3) in auto)
    moreover have "counted P k (set_slot m b t cs1) sh" using counted_keep [OF IH(1) True] r IH(4) True by blast
    moreover have "\<forall>j < length (tracklets (set_slot m b t cs1)). tr_status (tracklets (set_slot m b t cs1) ! j) \<noteq> REMOVED"
      using IH(4) r True by (auto simp: set_slot_def nth_list_update)
    ultimately show ?thesis using IH(3) h(1) by (simp add: set_slot_def)
  qed
qed

lemma miss_counted:
  assumes e: "miss einv False m (cs, sh) = Inr (cs', sh')" and c: "counted P k cs sh" and t: "timely N cs"
  shows "counted P k cs' sh' \<and> timely (N - {m}) cs' \<and> length (tracklets cs') = length (tracklets cs)"
proof -
  have al: "aligned cs" using t by (simp add: timely_def)
  obtain b u where h: "m < length (tracklets cs)" "cs' = set_slot m b u cs"
    "time_since_update b = time_since_update (trackers cs ! m)" "tr_id u = tr_id (tracklets cs ! m)"
    "bt_remove b = bt_remove (trackers cs ! m) \<and> tr_status u = tr_status (tracklets cs ! m) \<and> sh' = sh \<and>
       (False \<or> tr_status u = LOST \<or> tr_status u = REMOVED) \<or>
     \<not> False \<and> tr_status (tracklets cs ! m) = TRACKED \<and> bt_remove b = bt_remove (trackers cs ! m) \<and>
       tr_status u = LOST \<and> sh' = sh \<or>
     \<not> False \<and> tr_status (tracklets cs ! m) = NEW \<and> bt_remove b \<and> tr_status u = REMOVED \<and>
       sh' = sh\<lparr>num_trackers := num_trackers sh - 1\<rparr>"
    by (rule miss_slot [OF al e])
  have "counted P k cs' sh'"
    using h(5) unfolding h(2) using counted_keep [OF c h(1)] counted_drop [OF c h(1)] by auto
  moreover have "timely (N - {m}) cs'"
    unfolding h(2)
  proof (rule timely_slot [OF t h(1)])
    assume "tr_status u = NEW"
    then show "time_since_update b = 0" using h(5) by auto
  next
    assume "tr_status u = REMOVED"
    then have "tr_status (tracklets cs ! m) = NEW \<or> tr_status (tracklets cs ! m) = REMOVED" using h(5) by auto
    then show "time_since_update b \<le> 1" using t h(1,3) by (auto simp: timely_def)
  qed simp
  ultimately show ?thesis by (simp add: h(2) set_slot_def)
qed

lemma misses_counted:
  assumes "foldR (miss einv False) ms (cs, sh) = Inr (cs', sh')" "counted P k cs sh" "timely N cs"
  shows "counted P k cs' sh' \<and> timely (N - set ms) cs' \<and> length (tracklets cs') = length (tracklets cs)"
  using assms
proof (induction ms arbitrary: cs sh N)
  case Nil
  then show ?case by simp
next
  case (Cons m ms)
  from Cons.prems(1) obtain cs1 sh1 where e: "miss einv False m (cs, sh) = Inr (cs1, sh1)" "foldR (miss einv False) ms (cs1, sh1) = Inr (cs', sh')"
    by (auto simp: bindR_Inr_iff)
  note h = miss_counted [OF e(1) Cons.prems(2,3)]
  have "N - {m} - set ms = N - set (m # ms)" by auto
  with h Cons.IH [OF e(2) conjunct1 [OF h] conjunct1 [OF conjunct2 [OF h]]] show ?case by metis
qed

lemma next_id_keeps_num: "num_trackers (snd (get_next_id P ids sh)) = num_trackers sh"
  by (simp add: get_next_id_def Let_def split: TrackerIdAssignmentPolicy.split)

lemma create_counted:
  assumes "create P others dets pts i (cs, sh) = (cs', sh')" "counted P k cs sh" "timely {} cs"
  shows "counted P k cs' sh' \<and> timely {} cs'"
proof -
  have al: "aligned cs" using assms(3) by (simp add: timely_def)
  show ?thesis
    using create_slot [OF al assms(1)]
  proof (elim disjE conjE exE)
    assume "cs' = cs" "sh' = sh"
    with assms show ?thesis by simp
  next
    fix b t n sh2
    assume lt: "num_trackers sh < max_trackers P"
      and n: "get_next_id P (others @ map tr_id (tracklets cs)) (sh\<lparr>num_trackers := num_trackers sh + 1\<rparr>) = (n, sh2)"
      and c: "cs' = cs\<lparr>trackers := trackers cs @ [b], tracklets := tracklets cs @ [t]\<rparr>" "sh' = sh2"
      and t: "tr_status t = NEW" "time_since_update b = 0"
    have "num_trackers sh2 = num_trackers sh + 1"
      using next_id_keeps_num [of P "others @ map tr_id (tracklets cs)" "sh\<lparr>num_trackers := num_trackers sh + 1\<rparr>"] by (simp add: n)
    moreover have "length (live cs') = length (live cs) + 1" using t by (simp add: c live_def)
    moreover have "k + length (live cs) < unat (max_trackers P)"
      using lt counted_num [OF assms(2)] by (simp add: word_less_nat_alt)
    ultimately have "counted P k cs' sh'" using assms(2) by (simp add: counted_def c(2))
    moreover have "timely {} cs'" using assms(3) t by (auto simp: timely_def c aligned_def nth_append less_Suc_eq)
    ultimately show ?thesis by simp
  qed
qed

lemma creates_counted:
  assumes "counted P k (fst s) (snd s)" "timely {} (fst s)"
  shows "counted P k (fst (fold (\<lambda>i. create P others dets pts (first ! i)) ks s)) (snd (fold (\<lambda>i. create P others dets pts (first ! i)) ks s)) \<and>
    timely {} (fst (fold (\<lambda>i. create P others dets pts (first ! i)) ks s))"
  using assms
proof (induction ks arbitrary: s)
  case Nil
  then show ?case by simp
next
  case (Cons i ks)
  obtain cs sh where s: "s = (cs, sh)" by fastforce
  obtain cs' sh' where c: "create P others dets pts (first ! i) (cs, sh) = (cs', sh')" by fastforce
  from create_counted [OF c] Cons.prems have "counted P k cs' sh'" "timely {} cs'" by (simp_all add: s)
  with Cons.IH [of "(cs', sh')"] show ?case by (simp add: s c)
qed

text \<open>\<open>D\<close> are the positions that have been looked at.\<close>

definition expiring :: "nat set \<Rightarrow> class_state \<Rightarrow> bool" where
  "expiring D cs \<longleftrightarrow> aligned cs \<and>
     (\<forall>j < length (tracklets cs). (tr_status (tracklets cs ! j) = NEW \<longrightarrow> time_since_update (trackers cs ! j) = 0) \<and>
        (tr_status (tracklets cs ! j) = REMOVED \<longrightarrow> j \<in> D \<or> time_since_update (trackers cs ! j) \<le> 1))"

lemma expires_counted:
  assumes "foldR (expire P) is (ret, cs, sh) = Inr (ret', cs', sh')" "distinct is" "max_age P \<ge> 1"
    and "counted P k cs sh" "expiring D cs" "D \<inter> set is = {}"
  shows "counted P k cs' sh' \<and> expiring (D \<union> set is) cs'"
  using assms
proof (induction "is" arbitrary: ret cs sh D)
  case Nil
  then show ?case by simp
next
  case (Cons i "is")
  from Cons.prems(1) obtain ret1 cs1 sh1 where e: "expire P i (ret, cs, sh) = Inr (ret1, cs1, sh1)"
    and f: "foldR (expire P) is (ret1, cs1, sh1) = Inr (ret', cs', sh')"
    by (auto simp: bindR_Inr_iff)
  have al: "aligned cs" using Cons.prems(5) by (simp add: expiring_def)
  have D: "D \<union> set (i # is) = insert i D \<union> set is" "insert i D \<inter> set is = {}" using Cons.prems(2,6) by auto
  have "counted P k cs1 sh1 \<and> expiring (insert i D) cs1"
    using expire_slot [OF al e]
  proof (elim disjE conjE)
    assume "cs1 = cs" "sh1 = sh"
    with Cons.prems(4,5) show ?thesis by (auto simp: expiring_def)
  next
    assume i: "i < length (tracklets cs)" "time_since_update (trackers cs ! i) > max_age P"
      and c: "cs1 = set_slot i ((trackers cs ! i)\<lparr>bt_remove := True\<rparr>) (updateStatus REMOVED (tracklets cs ! i)) cs"
      "sh1 = sh\<lparr>num_trackers := num_trackers sh - 1\<rparr>"
    have n: "tr_status (tracklets cs ! i) \<noteq> REMOVED" using i Cons.prems(3,5,6) by (auto simp: expiring_def)
    have "counted P k cs1 sh1" unfolding c by (rule counted_drop [OF Cons.prems(4) i(1) _ n]) (simp add: updateStatus_def)
    moreover have "expiring (insert i D) cs1"
      unfolding expiring_def
    proof (intro conjI allI impI)
      show "aligned cs1" using al by (simp add: c set_slot_def aligned_def)
    next
      fix j assume j: "j < length (tracklets cs1)"
      show "time_since_update (trackers cs1 ! j) = 0" if "tr_status (tracklets cs1 ! j) = NEW"
        using that j i Cons.prems(5) by (cases "j = i") (auto simp: c set_slot_def updateStatus_def expiring_def)
      show "j \<in> insert i D \<or> time_since_update (trackers cs1 ! j) \<le> 1" if "tr_status (tracklets cs1 ! j) = REMOVED"
        using that j i Cons.prems(5) by (cases "j = i") (auto simp: c set_slot_def updateStatus_def expiring_def)
    qed
    ultimately show ?thesis by simp
  qed
  with Cons.IH [OF f _ Cons.prems(3) _ _ D(2)] Cons.prems(2) show ?case unfolding D(1) by simp
qed

text \<open>A frame with detections leaves the count right, when a track may be missed at least once.\<close>

definition new_seen :: "class_state \<Rightarrow> bool" where
  "new_seen cs \<longleftrightarrow> aligned cs \<and> marked cs \<and>
     (\<forall>j < length (tracklets cs). tr_status (tracklets cs ! j) = NEW \<longrightarrow> time_since_update (trackers cs ! j) = 0)"

lemma prep_zip:
  assumes "length xs = length ys" "\<forall>j < length ys. p (xs ! j) \<longleftrightarrow> q (ys ! j)" "j < length (filter q ys)"
  shows "\<exists>m < length ys. filter p xs ! j = xs ! m \<and> filter q ys ! j = ys ! m"
  using assms
proof (induction xs ys arbitrary: j rule: list_induct2)
  case (Cons x xs y ys)
  have a: "\<forall>j < length ys. p (xs ! j) \<longleftrightarrow> q (ys ! j)" "p x \<longleftrightarrow> q y" using Cons.prems(1) by auto
  show ?case
  proof (cases "q y")
    case True
    show ?thesis
    proof (cases j)
      case 0
      with True a show ?thesis by (intro exI [of _ 0]) simp
    next
      case (Suc i)
      with Cons.prems(2) True have "i < length (filter q ys)" by simp
      from Cons.IH [OF a(1) this] obtain m where "m < length ys" "filter p xs ! i = xs ! m" "filter q ys ! i = ys ! m" by blast
      with True a Suc show ?thesis by (intro exI [of _ "Suc m"]) simp
    qed
  next
    case False
    with Cons.prems(2) have "j < length (filter q ys)" by simp
    from Cons.IH [OF a(1) this] obtain m where "m < length ys" "filter p xs ! j = xs ! m" "filter q ys ! j = ys ! m" by blast
    with False a show ?thesis by (intro exI [of _ "Suc m"]) simp
  qed
qed simp

lemma class_update_counted:
  assumes e: "class_update einv P others False dets pts (cs, sh) = Some (Inr (ret, cs', sh'))"
    and c: "counted P k cs sh" and n: "new_seen cs" and age: "max_age P \<ge> 1"
  shows "counted P k cs' sh' \<and> new_seen cs'"
proof -
  let ?s = "start_frame (cs, sh)"
  have ok: "aligned cs" "marked cs" using n by (simp_all add: new_seen_def)
  obtain M cs4 ud ut first where p: "hits_run einv P ?s M cs4"
    "\<And>j. j < length (trackers ?s) \<Longrightarrow> j \<in> M \<union> set ut"
    "length ud \<le> 2 * length dets"
    "finish_frame einv P others False dets pts first ud ut (cs4, sh) = Inr (ret, cs', sh')"
    by (rule class_update_parts [OF e]) blast
  have as: "aligned ?s" by (rule prep_ok(3) [OF ok])
  have alive: "\<forall>j < length (tracklets ?s). tr_status (tracklets ?s ! j) \<noteq> REMOVED"
    using nth_mem [of _ "tracklets ?s"] by (auto simp: start_frame_def prep_def)
  have c0: "counted P k ?s sh" using c by (simp add: counted_def live_def start_frame_def prep_def)
  have "time_since_update (trackers ?s ! j) = 1" if j: "j < length (tracklets ?s)" and new: "tr_status (tracklets ?s ! j) = NEW" for j
  proof -
    have j': "j < length (filter (\<lambda>t. tr_status t \<noteq> REMOVED) (tracklets cs))" using j by (simp add: start_frame_def prep_def)
    obtain m where m: "m < length (tracklets cs)" "filter (\<lambda>b. \<not> bt_remove b) (trackers cs) ! j = trackers cs ! m"
      "filter (\<lambda>t. tr_status t \<noteq> REMOVED) (tracklets cs) ! j = tracklets cs ! m"
      using prep_zip [of "trackers cs" "tracklets cs" "\<lambda>b. \<not> bt_remove b" "\<lambda>t. tr_status t \<noteq> REMOVED", OF _ _ j'] ok
      by (auto simp: aligned_def marked_def)
    have "time_since_update (trackers cs ! m) = 0"
      using n m new by (auto simp: new_seen_def start_frame_def prep_def)
    moreover have "j < length (trackers (prep cs))" using j as by (simp add: start_frame_def aligned_def)
    ultimately show ?thesis using m(2) by (simp add: start_frame_def prep_def)
  qed
  with as alive have t0: "timely UNIV ?s" by (auto simp: timely_def)
  have h: "counted P k cs4 sh" "timely (- M) cs4" "length (tracklets cs4) = length (tracklets ?s)"
    using hits_run_counted [OF p(1) c0 t0 alive] by simp_all
  from p(4) obtain cs5 sh5 where m: "foldR (miss einv False) ut (cs4, sh) = Inr (cs5, sh5)" and
    x: "foldR (expire P) (List.rev [0..<length (trackers (fst (fold (\<lambda>i. create P others dets pts (first ! i)) ud (cs5, sh5))))])
         ([], fold (\<lambda>i. create P others dets pts (first ! i)) ud (cs5, sh5)) = Inr (ret, cs', sh')"
    by (auto simp: finish_frame_def Let_def bindR_Inr_iff)
  from misses_counted [OF m h(1,2)] have m': "counted P k cs5 sh5" "timely (- M - set ut) cs5" "length (tracklets cs5) = length (tracklets cs4)"
    by simp_all
  have "j \<in> M \<union> set ut" if "j < length (tracklets cs5)" for j
    using that p(2) as m'(3) h(3) by (simp add: aligned_def)
  with m'(2) have "timely {} cs5" by (auto simp: timely_def)
  obtain cs6 sh6 where f: "fold (\<lambda>i. create P others dets pts (first ! i)) ud (cs5, sh5) = (cs6, sh6)" by fastforce
  have c6: "counted P k cs6 sh6" "timely {} cs6"
    using creates_counted [of P k "(cs5, sh5)" others dets pts first ud] m'(1) \<open>timely {} cs5\<close> by (simp_all add: f)
  have "expiring {} cs6" using c6(2) by (auto simp: timely_def expiring_def)
  from expires_counted [OF x [unfolded f fst_conv] _ age c6(1) this]
  have r: "counted P k cs' sh'" "expiring (set (List.rev [0..<length (trackers cs6)])) cs'" by simp_all
  with class_update_ok [OF e ok] show ?thesis by (auto simp: new_seen_def expiring_def)
qed

definition live_count :: "(u32 \<times> class_state) list \<Rightarrow> nat" where
  "live_count css = length (filter (\<lambda>t. tr_status t \<noteq> REMOVED) (concat (map (\<lambda>(c, cs). tracklets cs) css)))"

definition count_ok :: "tracker_state \<Rightarrow> bool" where
  "count_ok s \<longleftrightarrow> distinct (map fst (class_states s)) \<and> (\<forall>(c, cs) \<in> set (class_states s). new_seen cs) \<and>
     num_trackers (ts_shared s) = of_nat (live_count (class_states s)) \<and>
     live_count (class_states s) \<le> unat (max_trackers (ts_params s))"

lemma live_count_simps [simp]:
  "live_count [] = 0" "live_count (xs @ ys) = live_count xs + live_count ys"
  "live_count ((c, cs) # css) = length (live cs) + live_count css"
  by (simp_all add: live_count_def live_def)

lemma live_count_split:
  "distinct (map fst css) \<Longrightarrow> live_count css = live_count (filter (\<lambda>p. fst p \<noteq> c) css) + length (live (class_of css c))"
proof (induction css)
  case Nil
  then show ?case by (simp add: class_of_def live_def)
next
  case (Cons p css)
  obtain d cs where p: "p = (d, cs)" by fastforce
  show ?case
  proof (cases "d = c")
    case True
    with Cons.prems p have "filter (\<lambda>p. fst p \<noteq> c) css = css" by (force simp: filter_id_conv)
    with True show ?thesis by (simp add: p class_of_def)
  next
    case False
    with Cons p show ?thesis by (simp add: class_of_def)
  qed
qed

lemma update_class_counted:
  assumes ok: "count_ok s" and e: "update_class einv False dets pts c (ret, s) = Some (Inr (ret', s'))" and age: "max_age (ts_params s) \<ge> 1"
  shows "count_ok s' \<and> ts_params s' = ts_params s"
proof -
  let ?rest = "filter (\<lambda>p. fst p \<noteq> c) (class_states s)"
  obtain out cs' sh' where u:
    "class_update einv (ts_params s) (ids_of ?rest) False (dets c) (pts c) (class_of (class_states s) c, ts_shared s) = Some (Inr (out, cs', sh'))"
    and s': "s' = s\<lparr>ts_shared := sh', class_states := ?rest @ [(c, cs')]\<rparr>"
    by (rule update_class_Inr [OF e])
  have d: "distinct (map fst (class_states s))" using ok by (simp add: count_ok_def)
  have n: "new_seen (class_of (class_states s) c)"
  proof (cases "map_of (class_states s) c")
    case None
    then show ?thesis by (simp add: class_of_def new_seen_def aligned_def marked_def)
  next
    case (Some cs)
    with ok map_of_SomeD [OF Some] show ?thesis by (auto simp: class_of_def count_ok_def)
  qed
  have "counted (ts_params s) (live_count ?rest) (class_of (class_states s) c) (ts_shared s)"
    using ok live_count_split [OF d, of c] by (simp add: count_ok_def counted_def)
  from class_update_counted [OF u this n age]
  have r: "counted (ts_params s) (live_count ?rest) cs' sh'" "new_seen cs'" by simp_all
  have "distinct (map fst (?rest @ [(c, cs')]))" using d by (auto simp: distinct_map_filter)
  with r ok show ?thesis by (auto simp: count_ok_def s' counted_def)
qed

lemma update_classes_counted:
  assumes "count_ok s" "update_classes einv False dets pts cs (ret, s) = Some (Inr (ret', s'))" "max_age (ts_params s) \<ge> 1"
  shows "count_ok s' \<and> ts_params s' = ts_params s"
  using assms
proof (induction cs arbitrary: ret s)
  case Nil
  then show ?case by simp
next
  case (Cons c cs)
  from Cons.prems(2) obtain ret1 s1 where
    e: "update_class einv False dets pts c (ret, s) = Some (Inr (ret1, s1))" and
    f: "update_classes einv False dets pts cs (ret1, s1) = Some (Inr (ret', s'))"
    by (auto simp: bindO_Inr)
  from update_class_counted [OF Cons.prems(1) e Cons.prems(3)] Cons.IH [OF _ f] Cons.prems(3) show ?case by simp
qed

text \<open>Turns of the node that all have detections and no configuration.\<close>

inductive frame_run :: "(nat \<Rightarrow> mat \<Rightarrow> mat) \<Rightarrow> tracker_properties \<Rightarrow> tracker_state option \<Rightarrow> tracklet list \<Rightarrow> bool" for einv p where
  idle: "frame_run einv p None []"
| turn: "frame_run einv p so out \<Longrightarrow> tracker_turn einv p order frameTs None (Some ds) so = Some (Inr (so', out')) \<Longrightarrow>
    frame_run einv p so' out'"

lemma turn_counted:
  assumes e: "tracker_turn einv p order frameTs None (Some ds) so = Some (Inr (so', out'))" and age: "sint (trackletMaxLifespan p) \<ge> 1"
    and ok: "\<And>s. so = Some s \<Longrightarrow> count_ok s \<and> ts_params s = tracker_params p" and s': "so' = Some s'"
  shows "count_ok s' \<and> ts_params s' = tracker_params p"
proof (cases "so = None \<and> ds = []")
  case True
  with e s' show ?thesis by (auto simp: tracker_turn_def bindO_def)
next
  case False
  define s0 where "s0 = (case so of None \<Rightarrow> State (tracker_params p) | Some s \<Rightarrow> s)"
  have "count_ok s0 \<and> ts_params s0 = tracker_params p"
  proof (cases so)
    case None
    then show ?thesis by (simp add: s0_def State_def count_ok_def)
  next
    case (Some s)
    with ok [OF Some] show ?thesis by (simp add: s0_def)
  qed
  then have c0: "count_ok (update_frame_timestamp frameTs s0)" "ts_params (update_frame_timestamp frameTs s0) = tracker_params p"
    by (elim conjE, simp_all add: update_frame_timestamp_def Let_def count_ok_def)
  obtain ret where u: "state_update einv order False (map fst ds) (map snd ds) (update_frame_timestamp frameTs s0) = Some (Inr (ret, s'))"
    using e False s' by (cases so) (auto simp: tracker_turn_def bindO_Inr ocs_init_def ocs_update_def s0_def split: prod.splits)
  have "max_age (ts_params (update_frame_timestamp frameTs s0)) \<ge> 1" using age by (simp add: c0(2) tracker_params_def)
  from update_classes_counted [OF c0(1) u [unfolded state_update_def Let_def] this] c0(2) show ?thesis by simp
qed

lemma frame_run_ok:
  "frame_run einv p so out \<Longrightarrow> sint (trackletMaxLifespan p) \<ge> 1 \<Longrightarrow> so = Some s \<Longrightarrow> count_ok s \<and> ts_params s = tracker_params p"
proof (induction arbitrary: s rule: frame_run.induct)
  case idle
  then show ?case by simp
next
  case (turn so out order frameTs ds so' out')
  from turn_counted [OF turn.hyps(2) turn.prems(1) turn.IH [OF turn.prems(1)] turn.prems(2)] show ?case .
qed



text \<open> Without that lifespan the counter goes wrong: a new track that its frame misses is removed once for being
  unconfirmed and once more for its age, and the counter, an unsigned 32-bit number, loses two; from one
  it wraps around to the largest number.\<close>

theorem missed_new_track_counts_twice:
  assumes cs: "class_states s = [(c, \<lparr>trackers = [b], tracklets = [t], frame_count = f\<rparr>)]"
    and t: "tr_status t = NEW" "\<not> bt_remove b" "time_since_update b \<ge> max_age (ts_params s)"
  shows "\<exists>ret s'. state_update einv [c] False [] [] s = Some (Inr (ret, s')) \<and>
    map tr_status (get_tracklets s') = [REMOVED] \<and>
    num_trackers (ts_shared s') = num_trackers (ts_shared s) - 2"
proof -
  let ?P = "ts_params s" and ?sh = "ts_shared s"
  define b0 where "b0 = snd (bt_predict (update_spatial_model_dt (frame_dt ?sh) b))"
  define b1 where "b1 = bt_update einv None None b0"
  define cs0 where "cs0 = \<lparr>trackers = [b0], tracklets = [t], frame_count = f + 1\<rparr>"
  have tsu: "time_since_update b1 > max_age ?P" using t(3) by (simp add: b1_def b0_def)
  have "aligned \<lparr>trackers = [b1], tracklets = [t], frame_count = f + 1\<rparr>" by (simp add: aligned_def)
  from sync_slot [OF this, of 0] obtain t1 where
    t1: "sync_tracklet_motion 0 \<lparr>trackers = [b1], tracklets = [t], frame_count = f + 1\<rparr> = \<lparr>trackers = [b1], tracklets = [t1], frame_count = f + 1\<rparr>"
      "tr_status t1 = NEW"
    using t(1) by auto
  define cs2 where "cs2 = \<lparr>trackers = [b1\<lparr>bt_remove := True\<rparr>], tracklets = [updateStatus REMOVED t1], frame_count = f + 1\<rparr>"
  define cs3 where "cs3 = cs2\<lparr>tracklets := [updateStatus REMOVED (updateStatus REMOVED t1)]\<rparr>"
  have m: "miss einv False 0 (cs0, ?sh) = Inr (cs2, ?sh\<lparr>num_trackers := num_trackers ?sh - 1\<rparr>)"
    by (simp add: miss_def cs0_def b1_def [symmetric] t1 remove_tracker_def cs2_def)
  have "\<exists>ret. expire ?P 0 ([], cs2, ?sh\<lparr>num_trackers := num_trackers ?sh - 1\<rparr>) =
      Inr (ret, cs3, ?sh\<lparr>num_trackers := num_trackers ?sh - 2\<rparr>)"
    using tsu by (simp add: expire_def Let_def remove_tracker_def cs2_def cs3_def bindR_def)
  then obtain ret where x: "expire ?P 0 ([], cs2, ?sh\<lparr>num_trackers := num_trackers ?sh - 1\<rparr>) =
      Inr (ret, cs3, ?sh\<lparr>num_trackers := num_trackers ?sh - 2\<rparr>)" ..
  have fin: "finish_frame einv ?P [] False [] [] [] [] [0] (cs0, ?sh) = Inr (ret, cs3, ?sh\<lparr>num_trackers := num_trackers ?sh - 2\<rparr>)"
    by (simp add: finish_frame_def m bindR_def x) (simp add: cs2_def x [unfolded cs2_def])
  have p: "prep \<lparr>trackers = [b], tracklets = [t], frame_count = f\<rparr> = \<lparr>trackers = [b], tracklets = [t], frame_count = f\<rparr>"
    using t(1,2) by (simp add: prep_def)
  have u: "class_update einv ?P [] False [] [] (\<lparr>trackers = [b], tracklets = [t], frame_count = f\<rparr>, ?sh) =
      Some (Inr (ret, cs3, ?sh\<lparr>num_trackers := num_trackers ?sh - 2\<rparr>))"
    by (simp add: class_update_def Let_def p associate_def bindO_def byte_round_def ocr_round_def hits_of_def
        b0_def [symmetric] cs0_def [symmetric] fin)
  show ?thesis
    by (simp add: state_update_def Let_def update_class_def cs ids_of_def u bindO_def get_tracklets_def cs3_def updateStatus_def)
qed

theorem missed_new_track_counts_twice_witness:
  "\<exists>s ret s'. num_trackers (ts_shared s) = 1 \<and> state_update (\<lambda>n m. m) [0] False [] [] s = Some (Inr (ret, s')) \<and>
     map tr_status (get_tracklets s') = [REMOVED] \<and> num_trackers (ts_shared s') = 4294967295"
proof -
  define d where "d = fst (hd sample_detections)"
  define b where "b = KalmanBoxTracker (det_row d) 1 (0, 0, 0) 1"
  define t where "t = \<lparr>tr_roi = (0, 0, 10, 10), tr_id = 0, tr_label = 1, tr_age = 1, tr_status = NEW, tr_srcImgDetection = d,
    tr_spatialCoordinates = (0, 0, 0), tr_velocity = None, tr_speed = None, ageSinceStatusUpdate = 1, detectedCount = 1\<rparr>"
  define s where "s = \<lparr>ts_params = tracker_params (sample_properties 2 0),
    ts_shared = \<lparr>max_id = 1, num_trackers = 1, frame_dt = 1 / 30, previous_frame_ts = None\<rparr>,
    class_states = [(0, \<lparr>trackers = [b], tracklets = [t], frame_count = 1\<rparr>)]\<rparr>"
  have "class_states s = [(0, \<lparr>trackers = [b], tracklets = [t], frame_count = 1\<rparr>)]" "tr_status t = NEW" "\<not> bt_remove b"
    "time_since_update b \<ge> max_age (ts_params s)"
    by (simp_all add: s_def t_def b_def tracker_params_def sample_properties_def)
  from missed_new_track_counts_twice [OF this, of "\<lambda>n m. m"] obtain ret s' where
    r: "state_update (\<lambda>n m. m) [0] False [] [] s = Some (Inr (ret, s'))" "map tr_status (get_tracklets s') = [REMOVED]"
    "num_trackers (ts_shared s') = num_trackers (ts_shared s) - 2" by (elim exE conjE) (rule that)
  have "num_trackers (ts_shared s) = 1" by (simp add: s_def)
  with r show ?thesis by (intro exI [of _ s] exI [of _ ret] exI [of _ s']) simp
qed

end
