(* ===== verification/Tensors.thy ===== *)
theory Tensors
  imports Complex_Main Prelude
begin

text \<open>
  Tensors of a network message: the description of a tensor with its getters
  (include/depthai/common/TensorInfo.hpp), adding, finding and reading tensors of a message
  (include/depthai/pipeline/datatype/NNData.hpp, src/pipeline/datatype/NNData.cpp), and the view that
  the detection parser reads through (src/pipeline/utilities/NNDataViewer.hpp). Dimensions, strides and
  offsets are 32-bit words; a value is a real number. The conversions between values and bytes are
  the arguments \<open>enc\<close> and \<open>dec\<close>, the shape and strides of an array of the xtensor library are inputs.
\<close>

section \<open>Description of a tensor\<close>

datatype StorageOrder =
    NHWC | NHCW | NCHW | HWC | CHW | WHC | HCW | WCH | CWH | NC | CN | Order_C | Order_H | Order_W
  | Order_other int

datatype DataType = FP16 | U8F | INT_t | FP32 | I8 | FP64 | U16F | DataType_other int

record TensorInfo =
  ti_order :: StorageOrder
  ti_dataType :: DataType
  numDimensions :: u32
  ti_dims :: "u32 list"
  ti_strides :: "u32 list"
  ti_name :: string
  ti_offset :: u32
  quantization :: bool
  qpScale :: real
  qpZp :: real

definition TensorInfo_default :: TensorInfo where
  "TensorInfo_default = \<lparr>ti_order = NCHW, ti_dataType = FP16, numDimensions = 0, ti_dims = [], ti_strides = [],
     ti_name = [], ti_offset = 0, quantization = False, qpScale = 1, qpZp = 0\<rparr>"

text \<open>How many dimensions an order asks for; an unknown order is refused.\<close>

fun required_dims :: "StorageOrder \<Rightarrow> nat option" where
  "required_dims NHWC = Some 4" | "required_dims NHCW = Some 4" | "required_dims NCHW = Some 4"
| "required_dims HWC = Some 3" | "required_dims CHW = Some 3" | "required_dims WHC = Some 3"
| "required_dims HCW = Some 3" | "required_dims WCH = Some 3" | "required_dims CWH = Some 3"
| "required_dims NC = Some 2" | "required_dims CN = Some 2"
| "required_dims Order_C = Some 1" | "required_dims Order_H = Some 1" | "required_dims Order_W = Some 1"
| "required_dims (Order_other n) = None"

definition validateStorageOrder :: "TensorInfo \<Rightarrow> unit result" where
  "validateStorageOrder t =
     (case required_dims (ti_order t) of
        Some n \<Rightarrow> if length (ti_dims t) < n
                  then Inl (RuntimeError (''Not enough dimensions (needs at least '' @ dec_nat n @ '') for the storage order in TensorInfo''))
                  else Inr ()
      | None \<Rightarrow> Inl (RuntimeError ''Invalid storage order type in TensorInfo''))"

fun data_type_size :: "DataType \<Rightarrow> nat" where
  "data_type_size U8F = 1" | "data_type_size I8 = 1" | "data_type_size FP16 = 2" | "data_type_size INT_t = 4"
| "data_type_size FP32 = 4" | "data_type_size FP64 = 8" | "data_type_size U16F = 2" | "data_type_size (DataType_other n) = 0"

definition getDataTypeSize :: "TensorInfo \<Rightarrow> nat" where
  "getDataTypeSize t = data_type_size (ti_dataType t)"

text \<open>The tables of the getters: the index that each case of a switch reads, none where it returns 0.\<close>

fun width_dim :: "StorageOrder \<Rightarrow> nat option" where
  "width_dim NHWC = Some 2" | "width_dim NHCW = Some 3" | "width_dim NCHW = Some 3" | "width_dim HWC = Some 1"
| "width_dim CHW = Some 2" | "width_dim WHC = Some 1" | "width_dim HCW = Some 2" | "width_dim WCH = Some 0"
| "width_dim CWH = Some 1" | "width_dim Order_W = Some 0" | "width_dim _ = None"

fun height_dim :: "StorageOrder \<Rightarrow> nat option" where
  "height_dim NHWC = Some 1" | "height_dim NHCW = Some 1" | "height_dim NCHW = Some 2" | "height_dim HWC = Some 0"
| "height_dim CHW = Some 1" | "height_dim WHC = Some 1" | "height_dim HCW = Some 0" | "height_dim WCH = Some 2"
| "height_dim CWH = Some 2" | "height_dim Order_H = Some 0" | "height_dim _ = None"

fun channel_dim :: "StorageOrder \<Rightarrow> nat option" where
  "channel_dim NHWC = Some 3" | "channel_dim NHCW = Some 2" | "channel_dim NCHW = Some 1" | "channel_dim HWC = Some 2"
| "channel_dim CHW = Some 0" | "channel_dim WHC = Some 2" | "channel_dim HCW = Some 1" | "channel_dim WCH = Some 1"
| "channel_dim CWH = Some 0" | "channel_dim Order_C = Some 0" | "channel_dim NC = Some 1" | "channel_dim CN = Some 0"
| "channel_dim _ = None"

fun channel_stride :: "StorageOrder \<Rightarrow> nat option" where
  "channel_stride NHWC = Some 3" | "channel_stride NHCW = Some 2" | "channel_stride NCHW = Some 1" | "channel_stride HWC = Some 2"
| "channel_stride CHW = Some 0" | "channel_stride WHC = Some 0" | "channel_stride HCW = Some 1" | "channel_stride WCH = Some 1"
| "channel_stride CWH = Some 0" | "channel_stride Order_C = Some 0" | "channel_stride NC = Some 1" | "channel_stride CN = Some 0"
| "channel_stride _ = None"

fun width_stride :: "StorageOrder \<Rightarrow> nat option" where
  "width_stride NHWC = Some 2" | "width_stride NHCW = Some 3" | "width_stride NCHW = Some 3" | "width_stride HWC = Some 1"
| "width_stride CHW = Some 2" | "width_stride WHC = Some 0" | "width_stride HCW = Some 1" | "width_stride WCH = Some 0"
| "width_stride CWH = Some 1" | "width_stride Order_W = Some 0" | "width_stride _ = None"

fun height_stride :: "StorageOrder \<Rightarrow> nat option" where
  "height_stride NHWC = Some 1" | "height_stride NHCW = Some 1" | "height_stride NCHW = Some 2" | "height_stride HWC = Some 0"
| "height_stride CHW = Some 1" | "height_stride WHC = Some 1" | "height_stride HCW = Some 0" | "height_stride WCH = Some 1"
| "height_stride CWH = Some 1" | "height_stride Order_H = Some 0" | "height_stride _ = None"

definition read_entry :: "nat option \<Rightarrow> u32 list \<Rightarrow> TensorInfo \<Rightarrow> u32 result" where
  "read_entry i xs t =
     bindR (validateStorageOrder t) (\<lambda>_.
       case i of None \<Rightarrow> Inr 0
       | Some k \<Rightarrow> if k < length xs then Inr (xs ! k) else Inl (UndefinedBehaviour ''vector::operator[]''))"

definition getWidth :: "TensorInfo \<Rightarrow> int result" where
  "getWidth t = bindR (read_entry (width_dim (ti_order t)) (ti_dims t) t) (\<lambda>n. Inr (sint n))"

definition getHeight :: "TensorInfo \<Rightarrow> int result" where
  "getHeight t = bindR (read_entry (height_dim (ti_order t)) (ti_dims t) t) (\<lambda>n. Inr (sint n))"

definition getChannels :: "TensorInfo \<Rightarrow> int result" where
  "getChannels t = bindR (read_entry (channel_dim (ti_order t)) (ti_dims t) t) (\<lambda>n. Inr (sint n))"

definition getChannelStride :: "TensorInfo \<Rightarrow> u32 result" where
  "getChannelStride t = read_entry (channel_stride (ti_order t)) (ti_strides t) t"

definition getWidthStride :: "TensorInfo \<Rightarrow> u32 result" where
  "getWidthStride t = read_entry (width_stride (ti_order t)) (ti_strides t) t"

definition getHeightStride :: "TensorInfo \<Rightarrow> u32 result" where
  "getHeightStride t = read_entry (height_stride (ti_order t)) (ti_strides t) t"

text \<open>The size from the first stride that is not zero; the product is computed in 32 bits.\<close>

definition getTensorSize :: "TensorInfo \<Rightarrow> nat result" where
  "getTensorSize t =
     (if list_all (\<lambda>d. d = 1) (ti_dims t) then Inr (getDataTypeSize t)
      else
        (let i = length (takeWhile (\<lambda>s. s = 0) (ti_strides t)) in
         if i < length (ti_dims t) \<and> i < length (ti_strides t) then Inr (unat (ti_dims t ! i * ti_strides t ! i))
         else Inl (UndefinedBehaviour ''vector::operator[]'')))"

text \<open>The name of an order (the output operator): its letters say which dimension is where.\<close>

fun order_name :: "StorageOrder \<Rightarrow> string" where
  "order_name NHWC = ''NHWC''" | "order_name NHCW = ''NHCW''" | "order_name NCHW = ''NCHW''" | "order_name HWC = ''HWC''"
| "order_name CHW = ''CHW''" | "order_name WHC = ''WHC''" | "order_name HCW = ''HCW''" | "order_name WCH = ''WCH''"
| "order_name CWH = ''CWH''" | "order_name NC = ''NC''" | "order_name CN = ''CN''" | "order_name Order_C = ''C''"
| "order_name Order_H = ''H''" | "order_name Order_W = ''W''" | "order_name (Order_other n) = []"

section \<open>The tensors of a message\<close>

text \<open>\<open>nn_size\<close> is the size that the transformation of the message reports, where it has one.\<close>

record nn_message =
  nn_data :: bytes
  nn_tensors :: "TensorInfo list"
  nn_size :: "(int \<times> int) option"

definition DATA_ALIGNMENT :: nat where
  "DATA_ALIGNMENT = 64"

definition getAllLayerNames :: "nn_message \<Rightarrow> string list" where
  "getAllLayerNames nn = map ti_name (nn_tensors nn)"

definition getTensorInfo :: "string \<Rightarrow> nn_message \<Rightarrow> TensorInfo option" where
  "getTensorInfo name nn = List.find (\<lambda>t. ti_name t = name) (nn_tensors nn)"

definition hasLayer :: "string \<Rightarrow> nn_message \<Rightarrow> bool" where
  "hasLayer name nn = list_ex (\<lambda>t. ti_name t = name) (nn_tensors nn)"

definition getLayerDatatype :: "string \<Rightarrow> nn_message \<Rightarrow> DataType option" where
  "getLayerDatatype name nn = map_option ti_dataType (getTensorInfo name nn)"

definition getTensorDatatype :: "string \<Rightarrow> nn_message \<Rightarrow> DataType result" where
  "getTensorDatatype name nn =
     (case getTensorInfo name nn of None \<Rightarrow> Inl (RuntimeError ''Tensor does not exist'') | Some t \<Rightarrow> Inr (ti_dataType t))"

definition getFirstTensorDatatype :: "nn_message \<Rightarrow> DataType result" where
  "getFirstTensorDatatype nn =
     (case nn_tensors nn of [] \<Rightarrow> Inl (RuntimeError ''Tensor does not exist'') | t # ts \<Rightarrow> Inr (ti_dataType t))"

definition resize_to :: "nat \<Rightarrow> bytes \<Rightarrow> bytes" where
  "resize_to n xs = take n xs @ replicate (n - length xs) 0"

text \<open>\<open>emplaceTensor\<close> reserves room behind the data; the result is the offset and the size of the span.\<close>

definition emplaceTensor :: "TensorInfo \<Rightarrow> nn_message \<Rightarrow> (nn_message \<times> nat \<times> nat) result" where
  "emplaceTensor t nn =
     bindR (getTensorSize t) (\<lambda>sz.
       (let off = length (nn_data nn);
            aligned_size = (if sz mod DATA_ALIGNMENT \<noteq> 0 then sz + (DATA_ALIGNMENT - sz mod DATA_ALIGNMENT) else sz)
        in Inr (nn\<lparr>nn_data := resize_to (off + aligned_size) (nn_data nn),
                   nn_tensors := nn_tensors nn @ [t\<lparr>ti_offset := of_nat off\<rparr>]\<rparr>, off, sz)))"

text \<open>
  \<open>addTensor\<close> with an order: the values \<open>vs\<close> of an array with dimensions \<open>shape\<close> and strides \<open>xstrides\<close>
  are written behind the data, aligned. The order is validated last; then the new data is cut off.
\<close>

definition write_at :: "nat \<Rightarrow> bytes \<Rightarrow> bytes \<Rightarrow> bytes" where
  "write_at p bs xs = take p xs @ bs @ drop (p + length bs) xs"

definition tensor_info :: "string \<Rightarrow> nat list \<Rightarrow> nat list \<Rightarrow> DataType \<Rightarrow> StorageOrder \<Rightarrow> nat \<Rightarrow> TensorInfo" where
  "tensor_info name shape xstrides dt ord off =
     TensorInfo_default\<lparr>ti_name := name, ti_offset := of_nat off, ti_dataType := dt, numDimensions := of_nat (length shape),
       ti_order := ord, ti_dims := map of_nat shape, ti_strides := map (\<lambda>s. of_nat (s * data_type_size dt)) xstrides\<rparr>"

definition addTensor ::
  "(DataType \<Rightarrow> real \<Rightarrow> bytes) \<Rightarrow> string \<Rightarrow> nat list \<Rightarrow> nat list \<Rightarrow> real list \<Rightarrow> DataType \<Rightarrow> StorageOrder \<Rightarrow> nn_message \<Rightarrow>
   nn_message \<times> unit result" where
  "addTensor enc name shape xstrides vs dt ord nn =
     (let remainder = length (nn_data nn) mod DATA_ALIGNMENT;
          d = (if remainder > 0 then nn_data nn @ replicate (DATA_ALIGNMENT - remainder) 0 else nn_data nn);
          off = length d;
          d1 = resize_to (off + length vs * data_type_size dt) d;
          d2 = write_at off (concat (map (enc dt) vs)) d1;
          info = tensor_info name shape xstrides dt ord off
      in case validateStorageOrder info of
           Inl e \<Rightarrow> (nn\<lparr>nn_data := resize_to off d2\<rparr>, Inl e)
         | Inr _ \<Rightarrow> (nn\<lparr>nn_data := d2, nn_tensors := nn_tensors nn @ [info]\<rparr>, Inr ()))"

fun default_order :: "nat \<Rightarrow> StorageOrder result" where
  "default_order n =
     (if n = 1 then Inr Order_C else if n = 2 then Inr NC else if n = 3 then Inr CHW else if n = 4 then Inr NCHW
      else Inl (RuntimeError ''Unsupported tensor shape. Only 1D, 2D, 3D and 4D tensors are supported''))"

definition addTensor_default ::
  "(DataType \<Rightarrow> real \<Rightarrow> bytes) \<Rightarrow> string \<Rightarrow> nat list \<Rightarrow> nat list \<Rightarrow> real list \<Rightarrow> DataType \<Rightarrow> nn_message \<Rightarrow> nn_message \<times> unit result" where
  "addTensor_default enc name shape xstrides vs dt nn =
     (case default_order (length shape) of
        Inl e \<Rightarrow> (nn, Inl e)
      | Inr ord \<Rightarrow> addTensor enc name shape xstrides vs dt ord nn)"

text \<open>
  Reading: as many values as the dimensions say, in the order of the bytes, from the multiple of the value
  size at or below the offset (the code divides the offset by that size and indexes a pointer).
\<close>

definition num_elements :: "TensorInfo \<Rightarrow> nat" where
  "num_elements t = prod_list (map unat (ti_dims t))"

definition read_element :: "(DataType \<Rightarrow> bytes \<Rightarrow> real) \<Rightarrow> TensorInfo \<Rightarrow> bytes \<Rightarrow> nat \<Rightarrow> real" where
  "read_element dec t data i =
     (let s = data_type_size (ti_dataType t) in dec (ti_dataType t) (take s (drop ((unat (ti_offset t) div s + i) * s) data)))"

definition getTensor :: "(DataType \<Rightarrow> bytes \<Rightarrow> real) \<Rightarrow> bool \<Rightarrow> string \<Rightarrow> nn_message \<Rightarrow> (nat list \<times> real list) result" where
  "getTensor dec dequantize name nn =
     (case getTensorInfo name nn of
        None \<Rightarrow> Inl (RuntimeError ''Tensor does not exist'')
      | Some t \<Rightarrow>
          (let s = data_type_size (ti_dataType t); n = num_elements t;
               vs = map (read_element dec t (nn_data nn)) [0..<n]
           in if 0 < n \<and> (s = 0 \<or> length (nn_data nn) < (unat (ti_offset t) div s + n) * s)
              then Inl (UndefinedBehaviour ''read behind the data'')
              else Inr (map unat (ti_dims t),
                        if dequantize \<and> quantization t then map (\<lambda>x. (x - qpZp t) * qpScale t) vs else vs)))"

text \<open>
  The conversions: an integer type takes the value truncated towards zero, least significant byte first; \<open>fenc\<close>
  and \<open>fdec\<close> convert the floating-point types (the FP16 library and the processor).
\<close>

fun le_bytes :: "nat \<Rightarrow> int \<Rightarrow> bytes" where
  "le_bytes 0 k = []"
| "le_bytes (Suc n) k = of_int k # le_bytes n (k div 256)"

fun from_le :: "bytes \<Rightarrow> int" where
  "from_le [] = 0"
| "from_le (b # bs) = uint b + 256 * from_le bs"

definition truncated :: "real \<Rightarrow> int" where
  "truncated x = (if 0 \<le> x then \<lfloor>x\<rfloor> else \<lceil>x\<rceil>)"

definition signed_value :: "nat \<Rightarrow> int \<Rightarrow> int" where
  "signed_value n k = (if 2 ^ (8 * n - 1) \<le> k then k - 256 ^ n else k)"

fun integral :: "DataType \<Rightarrow> bool" where
  "integral U8F = True" | "integral I8 = True" | "integral U16F = True" | "integral INT_t = True" | "integral _ = False"

definition store_value :: "(DataType \<Rightarrow> real \<Rightarrow> bytes) \<Rightarrow> DataType \<Rightarrow> real \<Rightarrow> bytes" where
  "store_value fenc dt x = (if integral dt then le_bytes (data_type_size dt) (truncated x) else fenc dt x)"

definition load_value :: "(DataType \<Rightarrow> bytes \<Rightarrow> real) \<Rightarrow> DataType \<Rightarrow> bytes \<Rightarrow> real" where
  "load_value fdec dt bs =
     (if \<not> integral dt then fdec dt bs
      else if dt = I8 \<or> dt = INT_t then of_int (signed_value (data_type_size dt) (from_le bs))
      else of_int (from_le bs))"

text \<open>
  \<open>changeStorageOrder\<close>: the axes to add, the axes to squeeze and the permutation, in the order in
  which they are applied. An order is read as the base-16 digits of its code, one digit per axis.
\<close>

fun order_code :: "StorageOrder \<Rightarrow> int" where
  "order_code NHWC = 0x4213" | "order_code NHCW = 0x4231" | "order_code NCHW = 0x4321" | "order_code HWC = 0x213"
| "order_code CHW = 0x321" | "order_code WHC = 0x123" | "order_code HCW = 0x231" | "order_code WCH = 0x132"
| "order_code CWH = 0x312" | "order_code NC = 0x43" | "order_code CN = 0x34" | "order_code Order_C = 0x3"
| "order_code Order_H = 0x2" | "order_code Order_W = 0x1" | "order_code (Order_other n) = n"

fun order_digits :: "nat \<Rightarrow> u64 list" where
  "order_digits n = (if n = 0 then [] else (of_nat (n mod 16) - 1) # order_digits (n div 16))"

declare order_digits.simps [simp del]

definition order2vec :: "StorageOrder \<Rightarrow> u64 list" where
  "order2vec ord = rev (order_digits (unat (of_int (order_code ord) :: u64)))"

fun find_index :: "'a \<Rightarrow> 'a list \<Rightarrow> nat option" where
  "find_index x [] = None"
| "find_index x (y # ys) = (if y = x then Some 0 else map_option Suc (find_index x ys))"

fun permutation_to :: "string \<Rightarrow> 'a list \<Rightarrow> 'a list \<Rightarrow> nat list result" where
  "permutation_to what src [] = Inr []"
| "permutation_to what src (x # tgt) =
     (case find_index x src of
        None \<Rightarrow> Inl (RuntimeError (''Cannot change storage order. Dimension not found ['' @ what @ '']''))
      | Some i \<Rightarrow> bindR (permutation_to what src tgt) (\<lambda>is. Inr (i # is)))"

fun squeezed_axes :: "nat \<Rightarrow> u64 list \<Rightarrow> nat list \<Rightarrow> u64 list \<Rightarrow> nat list result" where
  "squeezed_axes i tgt shape [] = Inr []"
| "squeezed_axes i tgt shape (x # src) =
     (if x \<in> set tgt then squeezed_axes (Suc i) tgt shape src
      else if i \<ge> length shape then Inl (UndefinedBehaviour ''shape::operator[]'')
      else if shape ! i \<noteq> 1 then Inl (RuntimeError ''Cannot change storage order. Squeeze dimension is not 1'')
      else bindR (squeezed_axes (Suc i) tgt shape src) (\<lambda>is. Inr (i # is)))"

definition changeStorageOrder :: "nat list \<Rightarrow> StorageOrder \<Rightarrow> StorageOrder \<Rightarrow> (nat list \<times> nat list \<times> nat list) result" where
  "changeStorageOrder shape from_ord to_ord =
     (let src = order2vec from_ord; tgt = order2vec to_ord in
      if length src = length tgt then
        bindR (permutation_to ''Permute'' src tgt) (\<lambda>ps. Inr ([], [], ps))
      else if length src < length tgt then
        (let new = filter (\<lambda>x. x \<notin> set src) tgt in
         bindR (permutation_to ''Expand and Permute'' (src @ new) tgt) (\<lambda>ps.
           Inr ([length src..<length src + length new], [], ps)))
      else
        bindR (squeezed_axes 0 tgt shape src) (\<lambda>sq.
          bindR (permutation_to ''Squeeze and Permute'' (filter (\<lambda>x. x \<in> set tgt) src) tgt) (\<lambda>ps.
            Inr ([], sq, ps))))"

section \<open>The view of the detection parser\<close>

text \<open>
  \<open>NNDataViewer\<close>: the factors of the three coordinates are signed 32-bit numbers taken from the strides.
  \<open>build\<close> answers none where the code returns false.
\<close>

record viewer =
  v_data :: bytes
  v_tensor :: TensorInfo
  factor_h :: i32
  factor_w :: i32
  factor_c :: i32

definition sanity_check :: "bytes \<Rightarrow> TensorInfo \<Rightarrow> bool result" where
  "sanity_check data t =
     (case (ti_dims t, ti_strides t) of
        (d # ds, s # ss) \<Rightarrow> Inr (unat (ti_offset t + d * s) \<le> length data \<and> 2 \<le> length (ti_dims t))
      | _ \<Rightarrow> Inl (UndefinedBehaviour ''vector::operator[]''))"

fun factors :: "StorageOrder \<Rightarrow> u32 list \<Rightarrow> u32 \<Rightarrow> (u32 \<times> u32 \<times> u32) option" where
  "factors NCHW ss n = (if length ss = 4 then Some (ss ! 2, n, ss ! 1) else None)"
| "factors NHWC ss n = (if length ss = 4 then Some (ss ! 1, ss ! 2, n) else None)"
| "factors HCW ss n = Some (ss ! 0, n, ss ! 1)"
| "factors HWC ss n = Some (ss ! 0, ss ! 1, n)"
| "factors CHW ss n = Some (ss ! 1, n, ss ! 0)"
| "factors CWH ss n = Some (n, ss ! 1, ss ! 0)"
| "factors WCH ss n = Some (n, ss ! 0, ss ! 1)"
| "factors WHC ss n = Some (ss ! 1, ss ! 0, n)"
| "factors _ ss n = None"

definition batch_check :: "TensorInfo \<Rightarrow> bool result" where
  "batch_check t =
     (if ti_order t = NCHW \<or> ti_order t = NHWC
      then (case ti_dims t of [] \<Rightarrow> Inl (UndefinedBehaviour ''vector::operator[]'') | d # ds \<Rightarrow> Inr (d = 1))
      else Inr True)"

definition build :: "TensorInfo \<Rightarrow> bytes \<Rightarrow> viewer option result" where
  "build t data =
     (if length (ti_strides t) < 2 then Inr None
      else if ti_strides t ! 0 = 0 \<or> ti_strides t ! 1 = 0 then Inr None
      else bindR (batch_check t) (\<lambda>one.
        if \<not> one then Inr None
        else case factors (ti_order t) (ti_strides t) (of_nat (getDataTypeSize t)) of
               None \<Rightarrow> Inr None
             | Some (fh, fw, fc) \<Rightarrow>
                 bindR (sanity_check data t) (\<lambda>ok.
                   Inr (if ok then Some \<lparr>v_data = data, v_tensor = t, factor_h = fh, factor_w = fw, factor_c = fc\<rparr> else None))))"

definition fits_int32 :: "int \<Rightarrow> bool" where
  "fits_int32 n \<longleftrightarrow> - (2 ^ 31) \<le> n \<and> n < 2 ^ 31"

definition viewer_index :: "viewer \<Rightarrow> int \<Rightarrow> int \<Rightarrow> int \<Rightarrow> int result" where
  "viewer_index v c h w =
     (let ph = sint (factor_h v) * h; pw = sint (factor_w v) * w; pc = sint (factor_c v) * c in
      if fits_int32 ph \<and> fits_int32 pw \<and> fits_int32 pc
      then Inr (sint (ti_offset (v_tensor v) + of_int ph + of_int pw + of_int pc))
      else Inl (UndefinedBehaviour ''signed overflow''))"

definition viewer_get :: "(DataType \<Rightarrow> bytes \<Rightarrow> real) \<Rightarrow> viewer \<Rightarrow> int \<Rightarrow> int \<Rightarrow> int \<Rightarrow> real result" where
  "viewer_get dec v c h w =
     bindR (viewer_index v c h w) (\<lambda>i.
       (let t = v_tensor v; s = data_type_size (ti_dataType t); p = nat i div s * s in
        if ti_dataType t = FP64 \<or> s = 0 then Inr 0
        else if i < 0 \<or> length (v_data v) < p + s then Inl (UndefinedBehaviour ''span::operator[]'')
        else Inr ((dec (ti_dataType t) (take s (drop p (v_data v))) - qpZp t) * qpScale t)))"

section \<open>What is added can be read back\<close>

lemma from_le_le_bytes: "from_le (le_bytes n k) = k mod 256 ^ n"
proof (induction n arbitrary: k)
  case 0
  show ?case by simp
next
  case (Suc n)
  have "k mod 256 + 256 * (k div 256 mod 256 ^ n) = k mod (256 * 256 ^ n)"
    by (simp add: zmod_zmult2_eq)
  then show ?case by (simp add: Suc uint_word_of_int)
qed

lemma length_le_bytes [simp]: "length (le_bytes n k) = n"
  by (induction n arbitrary: k) auto

lemma truncated_of_int [simp]: "truncated (of_int k) = k"
  by (simp add: truncated_def)

text \<open>The values an integer type holds.\<close>

fun holds_value :: "DataType \<Rightarrow> int \<Rightarrow> bool" where
  "holds_value U8F k = (0 \<le> k \<and> k < 256)"
| "holds_value I8 k = (-128 \<le> k \<and> k < 128)"
| "holds_value U16F k = (0 \<le> k \<and> k < 65536)"
| "holds_value INT_t k = (- (2 ^ 31) \<le> k \<and> k < 2 ^ 31)"
| "holds_value _ k = False"

lemma signed_value_mod:
  assumes "0 < n" and "- (2 ^ (8 * n - 1)) \<le> k" and "k < 2 ^ (8 * n - 1)"
  shows "signed_value n (k mod 256 ^ n) = k"
proof -
  have p: "(256::int) ^ n = 2 * 2 ^ (8 * n - 1)"
    using assms(1) by (simp add: power_mult power_Suc [symmetric] del: power_Suc)
  show ?thesis
  proof (cases "0 \<le> k")
    case True
    then show ?thesis using assms p by (simp add: signed_value_def)
  next
    case False
    have "k mod 256 ^ n = (k + 256 ^ n) mod 256 ^ n" by simp
    also have "\<dots> = k + 256 ^ n" using False assms p by (intro mod_pos_pos_trivial) auto
    finally show ?thesis using False assms p by (simp add: signed_value_def)
  qed
qed

lemma load_stored_integer:
  assumes "holds_value dt k"
  shows "load_value fdec dt (store_value fenc dt (of_int k)) = of_int k"
  using assms signed_value_mod [of 1 k] signed_value_mod [of 4 k]
  by (cases dt) (auto simp: load_value_def store_value_def from_le_le_bytes uint_word_of_int simp del: of_int_uint)

text \<open>What an array and its conversion must satisfy for its tensor to be read back.\<close>

definition storable :: "(DataType \<Rightarrow> real \<Rightarrow> bytes) \<Rightarrow> (DataType \<Rightarrow> bytes \<Rightarrow> real) \<Rightarrow> DataType \<Rightarrow> nat list \<Rightarrow> real list \<Rightarrow> bool" where
  "storable enc dec dt shape vs \<longleftrightarrow>
     length vs = prod_list shape \<and> (\<forall>d \<in> set shape. d < 2 ^ 32) \<and> 0 < data_type_size dt \<and>
     (\<forall>v \<in> set vs. length (enc dt v) = data_type_size dt \<and> dec dt (enc dt v) = v)"

lemma length_resize_to [simp]: "length (resize_to n xs) = n"
  by (simp add: resize_to_def)

lemma take_resize_to: "k \<le> n \<Longrightarrow> k \<le> length xs \<Longrightarrow> take k (resize_to n xs) = take k xs"
  by (simp add: resize_to_def)

lemma size_divides_alignment: "0 < data_type_size dt \<Longrightarrow> data_type_size dt dvd 64"
  by (cases dt) (auto simp: dvd_def)

lemma length_concat_const: "(\<forall>x \<in> set xs. length x = s) \<Longrightarrow> length (concat xs) = length xs * s"
  by (induction xs) auto

lemma nth_chunk:
  assumes "\<forall>x \<in> set xs. length x = s" and "i < length xs"
  shows "take s (drop (i * s) (concat xs)) = xs ! i"
  using assms
proof (induction xs arbitrary: i)
  case Nil
  then show ?case by simp
next
  case (Cons x xs)
  then show ?case by (cases i) auto
qed

lemma addTensor_success:
  assumes "addTensor enc name shape xstrides vs dt ord nn = (nn', Inr ())"
    and "\<forall>v \<in> set vs. length (enc dt v) = data_type_size dt"
  obtains pad where "nn_data nn' = nn_data nn @ replicate pad 0 @ concat (map (enc dt) vs)"
    and "(length (nn_data nn) + pad) mod 64 = 0" and "pad < 64"
    and "nn_tensors nn' = nn_tensors nn @ [tensor_info name shape xstrides dt ord (length (nn_data nn) + pad)]"
    and "nn_size nn' = nn_size nn"
proof -
  define rm where "rm = length (nn_data nn) mod 64"
  define pad where "pad = (if rm > 0 then 64 - rm else 0)"
  have "rm < 64" by (simp add: rm_def)
  have d: "(if rm > 0 then nn_data nn @ replicate (64 - rm) 0 else nn_data nn) = nn_data nn @ replicate pad 0"
    by (simp add: pad_def)
  have n: "length (concat (map (enc dt) vs)) = length vs * data_type_size dt"
    using assms(2) by (subst length_concat_const [where s = "data_type_size dt"]) auto
  have bytes: "write_at (length xs) (concat (map (enc dt) vs)) (resize_to (length xs + length vs * data_type_size dt) xs)
      = xs @ concat (map (enc dt) vs)" for xs
    by (simp add: write_at_def n resize_to_def)
  note parts = assms(1) [unfolded addTensor_def Let_def DATA_ALIGNMENT_def, folded rm_def, unfolded d bytes]
  have "(length (nn_data nn) + pad) mod 64 = 0"
  proof (cases "rm > 0")
    case True
    have "(length (nn_data nn) + pad) mod 64 = (rm + pad) mod 64" by (simp add: rm_def mod_add_left_eq)
    also have "rm + pad = 64" using True \<open>rm < 64\<close> by (simp add: pad_def)
    finally show ?thesis by simp
  next
    case False
    then show ?thesis by (simp add: pad_def rm_def)
  qed
  moreover have "pad < 64" by (auto simp: pad_def)
  ultimately show ?thesis
    using parts by (intro that [of pad]) (auto split: sum.splits)
qed

lemma find_snoc: "List.find P (xs @ [x]) = (case List.find P xs of None \<Rightarrow> if P x then Some x else None | Some y \<Rightarrow> Some y)"
  by (induction xs) auto

lemma find_None_names: "name \<notin> set (getAllLayerNames nn) \<longleftrightarrow> getTensorInfo name nn = None"
  by (auto simp: getAllLayerNames_def getTensorInfo_def find_None_iff)

lemma prod_list_words: "(\<forall>d \<in> set ds. d < 2 ^ 32) \<Longrightarrow> map (unat \<circ> (of_nat :: nat \<Rightarrow> u32)) ds = ds"
  by (induction ds) (auto simp: unat_of_nat)

lemma added_tensor_reads_back:
  assumes add: "addTensor enc name shape xstrides vs dt ord nn = (nn', Inr ())"
    and ok: "storable enc dec dt shape vs" and new: "name \<notin> set (getAllLayerNames nn)"
    and small: "length (nn_data nn') < 2 ^ 32"
  shows "getTensor dec deq name nn' = Inr (shape, vs)"
proof -
  let ?s = "data_type_size dt"
  from ok have enc: "\<forall>v \<in> set vs. length (enc dt v) = ?s" and s0: "0 < ?s"
    and dec: "\<forall>v \<in> set vs. dec dt (enc dt v) = v" and lv: "length vs = prod_list shape" and dims: "\<forall>d \<in> set shape. d < 2 ^ 32"
    by (auto simp: storable_def)
  obtain pad where data: "nn_data nn' = nn_data nn @ replicate pad 0 @ concat (map (enc dt) vs)"
    and al: "(length (nn_data nn) + pad) mod 64 = 0"
    and ts: "nn_tensors nn' = nn_tensors nn @ [tensor_info name shape xstrides dt ord (length (nn_data nn) + pad)]"
    by (rule addTensor_success [OF add enc])
  let ?off = "length (nn_data nn) + pad" and ?t = "tensor_info name shape xstrides dt ord (length (nn_data nn) + pad)"
  have found: "getTensorInfo name nn' = Some ?t"
    using new ts by (simp add: getTensorInfo_def find_snoc find_None_names [unfolded getTensorInfo_def] tensor_info_def)
  have "?off < 2 ^ 32" using small data by simp
  then have off: "unat (ti_offset ?t) = ?off" by (simp add: tensor_info_def unat_of_nat del: of_nat_add)
  have "?s dvd ?off" using al size_divides_alignment [OF s0] by (meson dvd_trans mod_0_imp_dvd)
  then have div: "?off div ?s * ?s = ?off" by simp
  have n: "num_elements ?t = length vs"
    using dims lv prod_list_words [of shape] by (simp add: num_elements_def tensor_info_def o_def)
  have el: "read_element dec ?t (nn_data nn') i = vs ! i" if i: "i < length vs" for i
  proof -
    have "take ?s (drop ((?off div ?s + i) * ?s) (nn_data nn')) = take ?s (drop (i * ?s) (concat (map (enc dt) vs)))"
      unfolding add_mult_distrib div by (simp add: data)
    also have "\<dots> = enc dt (vs ! i)" using i enc by (subst nth_chunk) auto
    finally show ?thesis using dec i off by (simp add: read_element_def tensor_info_def Let_def)
  qed
  have sh: "map unat (ti_dims ?t) = shape" using prod_list_words [OF dims] by (simp add: tensor_info_def o_def)
  have "length (concat (map (enc dt) vs)) = length vs * ?s"
    using enc by (subst length_concat_const [where s = ?s]) auto
  then have len: "length (nn_data nn') = ?off + length vs * ?s" by (simp add: data)
  have q: "\<not> quantization ?t" and dt: "ti_dataType ?t = dt" by (simp_all add: tensor_info_def TensorInfo_default_def)
  have vals: "map (read_element dec ?t (nn_data nn')) [0..<length vs] = vs" by (intro nth_equalityI) (simp_all add: el)
  show ?thesis
    unfolding getTensor_def found option.case Let_def n dt off len vals sh add_mult_distrib div using s0 q by simp
qed

lemma take_written: "take (length xs) (write_at (length (xs @ ys)) bs (resize_to (length (xs @ ys) + k) (xs @ ys))) = xs"
  by (simp add: write_at_def take_resize_to)

lemma take_cut:
  "take (length xs) (resize_to (length (xs @ ys)) (write_at (length (xs @ ys)) bs (resize_to (length (xs @ ys) + k) (xs @ ys)))) = xs"
  by (simp add: write_at_def take_resize_to resize_to_def)

lemma addTensor_prefix: "take (length (nn_data nn)) (nn_data (fst (addTensor enc name shape xstrides vs dt ord nn))) = nn_data nn"
proof -
  define pad where "pad = (if length (nn_data nn) mod 64 > 0 then replicate (64 - length (nn_data nn) mod 64) (0::u8) else [])"
  have d: "(if length (nn_data nn) mod 64 > 0 then nn_data nn @ replicate (64 - length (nn_data nn) mod 64) 0 else nn_data nn) = nn_data nn @ pad"
    by (simp add: pad_def)
  show ?thesis
    unfolding addTensor_def Let_def DATA_ALIGNMENT_def d
    by (cases "validateStorageOrder (tensor_info name shape xstrides dt ord (length (nn_data nn @ pad)))")
       (simp_all add: take_written take_cut del: length_append)
qed

lemma other_tensors_unchanged:
  assumes "getTensor dec deq other nn = Inr r"
  shows "getTensor dec deq other (fst (addTensor enc name shape xstrides vs dt ord nn)) = Inr r"
proof -
  let ?nn = "fst (addTensor enc name shape xstrides vs dt ord nn)"
  obtain xs where data: "nn_data ?nn = nn_data nn @ xs"
    using addTensor_prefix [of nn enc name shape xstrides vs dt ord] by (metis append_take_drop_id)
  obtain t where t: "getTensorInfo other nn = Some t" using assms by (auto simp: getTensor_def split: option.splits)
  have "getTensorInfo other ?nn = Some t"
    using t by (auto simp: addTensor_def Let_def getTensorInfo_def find_snoc split: sum.splits)
  moreover have "read_element dec t (nn_data nn @ xs) i = read_element dec t (nn_data nn) i"
    if "i < num_elements t" "(unat (ti_offset t) div data_type_size (ti_dataType t) + num_elements t) * data_type_size (ti_dataType t) \<le> length (nn_data nn)" for i
  proof -
    let ?s = "data_type_size (ti_dataType t)" and ?q = "unat (ti_offset t) div data_type_size (ti_dataType t)"
    have "(?q + i) * ?s + ?s = (?q + Suc i) * ?s" by simp
    also have "\<dots> \<le> (?q + num_elements t) * ?s" using that(1) by (intro mult_right_mono) auto
    finally have "(?q + i) * ?s + ?s \<le> length (nn_data nn)" using that(2) by simp
    then show ?thesis by (simp add: read_element_def Let_def)
  qed
  ultimately show ?thesis
    using assms t data by (auto simp: getTensor_def Let_def split: if_splits)
qed

text \<open>A sequence of calls of \<open>addTensor\<close>, stopped by the first exception.\<close>

type_synonym tensor_args = "string \<times> nat list \<times> nat list \<times> real list \<times> DataType \<times> StorageOrder"

fun add_tensors :: "(DataType \<Rightarrow> real \<Rightarrow> bytes) \<Rightarrow> tensor_args list \<Rightarrow> nn_message \<Rightarrow> nn_message \<times> unit result" where
  "add_tensors enc [] nn = (nn, Inr ())"
| "add_tensors enc ((name, shape, xstrides, vs, dt, ord) # rest) nn =
     (case addTensor enc name shape xstrides vs dt ord nn of
        (nn', Inl e) \<Rightarrow> (nn', Inl e)
      | (nn', Inr _) \<Rightarrow> add_tensors enc rest nn')"

lemma addTensor_grows: "length (nn_data nn) \<le> length (nn_data (fst (addTensor enc name shape xstrides vs dt ord nn)))"
  using arg_cong [OF addTensor_prefix [of nn enc name shape xstrides vs dt ord], of length] by simp

lemma add_tensors_grows: "length (nn_data nn) \<le> length (nn_data (fst (add_tensors enc ads nn)))"
proof (induction enc ads nn rule: add_tensors.induct)
  case (1 enc nn)
  show ?case by simp
next
  case (2 enc name shape xstrides vs dt ord rest nn)
  obtain nn1 r where a: "addTensor enc name shape xstrides vs dt ord nn = (nn1, r)" by fastforce
  have "length (nn_data nn) \<le> length (nn_data nn1)"
    using addTensor_grows [of nn enc name shape xstrides vs dt ord] a by simp
  with 2 [OF a [symmetric]] show ?case by (cases r) (auto simp: a)
qed

lemma add_tensors_keep:
  "getTensor dec deq other nn = Inr r \<Longrightarrow> getTensor dec deq other (fst (add_tensors enc ads nn)) = Inr r"
proof (induction enc ads nn rule: add_tensors.induct)
  case (1 enc nn)
  then show ?case by simp
next
  case (2 enc name shape xstrides vs dt ord rest nn)
  obtain nn1 q where a: "addTensor enc name shape xstrides vs dt ord nn = (nn1, q)" by fastforce
  have "getTensor dec deq other nn1 = Inr r"
    using other_tensors_unchanged [OF 2(2), of enc name shape xstrides vs dt ord] a by simp
  with 2(1) [OF a [symmetric]] show ?case by (cases q) (auto simp: a)
qed

lemma addTensor_names:
  assumes "addTensor enc name shape xstrides vs dt ord nn = (nn', Inr ())"
  shows "getAllLayerNames nn' = getAllLayerNames nn @ [name]"
  using assms by (auto simp: addTensor_def Let_def getAllLayerNames_def tensor_info_def split: sum.splits)

text \<open>
  C20. Tensors added to a message one after the other under different names can all be read back: for each of them
  \<open>getTensor\<close> gives the shape and the values it was added with, whatever the storage orders and data types,
  if the conversion of the data type loses nothing on these values and the data stays below 4 GB.
\<close>

theorem added_tensors_read_back:
  assumes "add_tensors enc ads nn = (nn', Inr ())"
    and "\<forall>(name, shape, xstrides, vs, dt, ord) \<in> set ads. storable enc dec dt shape vs"
    and "distinct (getAllLayerNames nn @ map fst ads)" and "length (nn_data nn') < 2 ^ 32"
  shows "\<forall>(name, shape, xstrides, vs, dt, ord) \<in> set ads. getTensor dec deq name nn' = Inr (shape, vs)"
  using assms
proof (induction enc ads nn rule: add_tensors.induct)
  case (1 enc nn)
  show ?case by simp
next
  case (2 enc name shape xstrides vs dt ord rest nn)
  obtain nn1 r where a: "addTensor enc name shape xstrides vs dt ord nn = (nn1, r)" by fastforce
  with 2(2) have r: "r = Inr ()" and rest: "add_tensors enc rest nn1 = (nn', Inr ())" by (auto split: sum.splits)
  note a = a [unfolded r]
  have len: "length (nn_data nn1) < 2 ^ 32" using add_tensors_grows [of nn1 enc rest] rest 2(5) by simp
  have "getTensor dec deq name nn1 = Inr (shape, vs)"
    by (rule added_tensor_reads_back [OF a]) (use 2(3,4) len in auto)
  then have "getTensor dec deq name nn' = Inr (shape, vs)"
    using add_tensors_keep [of dec deq name nn1 "(shape, vs)" enc rest] rest by simp
  moreover have "\<forall>(name, shape, xstrides, vs, dt, ord) \<in> set rest. getTensor dec deq name nn' = Inr (shape, vs)"
    by (rule 2(1) [OF a [symmetric] refl rest]) (use 2(3-5) addTensor_names [OF a] in auto)
  ultimately show ?case by (auto split: prod.splits)
qed

text \<open>
  \<open>emplaceTensor\<close> pads behind its tensor, \<open>addTensor\<close> in front: after an added tensor the emplaced one starts where
  the data ends, unaligned, and \<open>getTensor\<close>, which divides the offset by the size of a value, reads from before it.
\<close>

theorem emplaced_tensor_read_before_offset:
  assumes "length (nn_data nn) = 3" and "emplaceTensor t nn = Inr (nn', off, n)" and "ti_dataType t = INT_t"
  shows "off = 3 \<and> read_element dec (last (nn_tensors nn')) (nn_data nn') 0 = dec INT_t (take 4 (nn_data nn'))"
  using assms by (auto simp: emplaceTensor_def Let_def bindR_Inr_iff read_element_def)

section \<open>Getters, strides and orders\<close>

definition named_entry :: "char \<Rightarrow> TensorInfo \<Rightarrow> u32 list \<Rightarrow> u32" where
  "named_entry ch t xs = (case find_index ch (order_name (ti_order t)) of None \<Rightarrow> 0 | Some i \<Rightarrow> xs ! i)"

lemma valid_order:
  "validateStorageOrder t = Inr () \<longleftrightarrow> (\<exists>n. required_dims (ti_order t) = Some n \<and> n \<le> length (ti_dims t))"
  by (auto simp: validateStorageOrder_def split: option.splits)

lemma read_entry_valid:
  assumes "validateStorageOrder t = Inr ()" and "\<And>i. k = Some i \<Longrightarrow> i < length xs"
  shows "read_entry k xs t = Inr (case k of None \<Rightarrow> 0 | Some i \<Rightarrow> xs ! i)"
  using assms by (simp add: read_entry_def split: option.splits)

text \<open>
  The getters read the dimension that the name of the order puts at the letter W, H or C, and 0 where the order
  has no such letter, for every order and every description with enough dimensions; the one
  exception is the width of the order WHC, which is read from dimension 1, the height.
\<close>

theorem getters_follow_order:
  assumes "validateStorageOrder t = Inr ()"
  shows "getHeight t = Inr (sint (named_entry (CHR ''H'') t (ti_dims t))) \<and>
         getChannels t = Inr (sint (named_entry (CHR ''C'') t (ti_dims t))) \<and>
         getWidth t = Inr (sint (if ti_order t = WHC then ti_dims t ! 1 else named_entry (CHR ''W'') t (ti_dims t)))"
proof -
  note entry = read_entry_valid [OF assms]
  have w: "width_dim (ti_order t) = (if ti_order t = WHC then Some 1 else find_index (CHR ''W'') (order_name (ti_order t)))"
    and h: "height_dim (ti_order t) = find_index (CHR ''H'') (order_name (ti_order t))"
    and c: "channel_dim (ti_order t) = find_index (CHR ''C'') (order_name (ti_order t))"
    by (cases "ti_order t"; simp)+
  have lw: "i < length (ti_dims t)" if "width_dim (ti_order t) = Some i \<or> height_dim (ti_order t) = Some i \<or> channel_dim (ti_order t) = Some i" for i
    using that assms [unfolded valid_order] by (cases "ti_order t") auto
  show ?thesis
    unfolding getWidth_def getHeight_def getChannels_def named_entry_def h [symmetric] c [symmetric]
    using entry [where k = "width_dim (ti_order t)"] entry [where k = "height_dim (ti_order t)"]
      entry [where k = "channel_dim (ti_order t)"] lw w
    by (auto split: option.splits)
qed

text \<open>
  The stride getters agree with the letters of the order except in four places: the channels of WHC (entry 0, the
  stride of the width), the width of HCW (entry 1, the channels), and the height of WCH and CWH (entry 1).
\<close>

theorem stride_getters_follow_order:
  assumes "validateStorageOrder t = Inr ()" and "length (ti_strides t) = length (ti_dims t)"
  shows "getChannelStride t = Inr (if ti_order t = WHC then ti_strides t ! 0 else named_entry (CHR ''C'') t (ti_strides t)) \<and>
         getWidthStride t = Inr (if ti_order t = HCW then ti_strides t ! 1 else named_entry (CHR ''W'') t (ti_strides t)) \<and>
         getHeightStride t = Inr (if ti_order t = WCH \<or> ti_order t = CWH then ti_strides t ! 1
                                  else named_entry (CHR ''H'') t (ti_strides t))"
proof -
  note entry = read_entry_valid [OF assms(1), where xs = "ti_strides t"]
  have c: "channel_stride (ti_order t) = (if ti_order t = WHC then Some 0 else find_index (CHR ''C'') (order_name (ti_order t)))"
    and w: "width_stride (ti_order t) = (if ti_order t = HCW then Some 1 else find_index (CHR ''W'') (order_name (ti_order t)))"
    and h: "height_stride (ti_order t) =
      (if ti_order t = WCH \<or> ti_order t = CWH then Some 1 else find_index (CHR ''H'') (order_name (ti_order t)))"
    by (cases "ti_order t"; simp)+
  have lw: "i < length (ti_strides t)"
    if "channel_stride (ti_order t) = Some i \<or> width_stride (ti_order t) = Some i \<or> height_stride (ti_order t) = Some i" for i
    using that assms(1) [unfolded valid_order] by (cases "ti_order t") (auto simp: assms(2))
  show ?thesis
    unfolding getChannelStride_def getWidthStride_def getHeightStride_def named_entry_def
    using entry [where k = "channel_stride (ti_order t)"] entry [where k = "width_stride (ti_order t)"]
      entry [where k = "height_stride (ti_order t)"] lw c w h
    by (auto split: option.splits)
qed

section \<open>The permutation of a change of order\<close>

lemma find_index_nth: "find_index x xs = Some i \<Longrightarrow> i < length xs \<and> xs ! i = x"
  by (induction xs arbitrary: i) (auto split: if_splits)

lemma permutation_to_target:
  "permutation_to what src tgt = Inr ps \<Longrightarrow> map ((!) src) ps = tgt \<and> (\<forall>i \<in> set ps. i < length src)"
  by (induction tgt arbitrary: ps)
     (auto simp: bindR_Inr_iff dest: find_index_nth split: option.splits)

text \<open>The axes of the array after the new ones have been added behind and the squeezed ones are gone.\<close>

definition source_axes :: "StorageOrder \<Rightarrow> StorageOrder \<Rightarrow> u64 list" where
  "source_axes from_ord to_ord =
     (let src = order2vec from_ord; tgt = order2vec to_ord in
      if length src = length tgt then src
      else if length src < length tgt then src @ filter (\<lambda>x. x \<notin> set src) tgt
      else filter (\<lambda>x. x \<in> set tgt) src)"

theorem change_of_order_reaches_target:
  assumes "changeStorageOrder shape from_ord to_ord = Inr (added, squeezed, ps)"
  shows "map ((!) (source_axes from_ord to_ord)) ps = order2vec to_ord"
  using assms by (auto simp: changeStorageOrder_def source_axes_def Let_def bindR_Inr_iff split: if_splits
    dest: permutation_to_target)

text \<open>
  Two axes to squeeze are squeezed one after the other with the indices of the first array: from NCHW to C the code
  asks for the axes 0, 2 and 3, but after axis 0 is gone the array has the axes 0 to 2 only.
\<close>

theorem squeeze_indices_not_shifted:
  "changeStorageOrder [1, 5, 1, 1] NCHW Order_C = Inr ([], [0, 2, 3], [0])"
  by (simp add: changeStorageOrder_def order2vec_def order_digits.simps Let_def)

section \<open>The view reads the elements of the tensor\<close>

fun row_strides :: "nat \<Rightarrow> nat list \<Rightarrow> nat list" where
  "row_strides s [] = []"
| "row_strides s (d # ds) = s * prod_list ds # row_strides s ds"

fun rank :: "nat list \<Rightarrow> nat list \<Rightarrow> nat" where
  "rank (d # ds) (i # is) = i * prod_list ds + rank ds is"
| "rank _ _ = 0"

definition coordinates :: "StorageOrder \<Rightarrow> nat \<Rightarrow> nat \<Rightarrow> nat \<Rightarrow> nat list" where
  "coordinates ord c h w =
     map (\<lambda>ch. if ch = CHR ''C'' then c else if ch = CHR ''H'' then h else if ch = CHR ''W'' then w else 0) (order_name ord)"

lemma rank_bound: "list_all2 (<) ks ds \<Longrightarrow> rank ds ks < prod_list ds"
proof (induction rule: list_all2_induct)
  case Nil
  then show ?case by simp
next
  case (Cons i ks d ds)
  have "i * prod_list ds + rank ds ks < Suc i * prod_list ds" using Cons(3) by simp
  also have "\<dots> \<le> d * prod_list ds" using Cons(1) by (intro mult_right_mono) auto
  finally show ?case by simp
qed

lemma rank_injective:
  "list_all2 (<) ks ds \<Longrightarrow> list_all2 (<) js ds \<Longrightarrow> rank ds ks = rank ds js \<Longrightarrow> ks = js"
proof (induction ds arbitrary: ks js)
  case Nil
  then show ?case by simp
next
  case (Cons d ds)
  obtain i ks' j js' where e: "ks = i # ks'" "js = j # js'" and l: "list_all2 (<) ks' ds" "list_all2 (<) js' ds"
    using Cons.prems(1,2) by (auto simp: list_all2_Cons2)
  have b: "rank ds ks' < prod_list ds" "rank ds js' < prod_list ds" using l by (auto intro: rank_bound)
  have eq: "i * prod_list ds + rank ds ks' = j * prod_list ds + rank ds js'" using Cons.prems(3) e by simp
  have "i = j" using arg_cong [OF eq, of "\<lambda>x. x div prod_list ds"] b by simp
  with eq have "rank ds ks' = rank ds js'" by simp
  with Cons.IH [OF l] \<open>i = j\<close> e show ?case by simp
qed

text \<open>The factors of the view are the strides of the letters: they give the byte of the row-major position.\<close>

lemma factors_rank:
  assumes "factors ord ss sz = Some (fh, fw, fc)"
    and "list_all2 (<) (coordinates ord c h w) ds" and "map unat ss = row_strides (unat sz) ds"
  shows "unat fh * h + unat fw * w + unat fc * c = unat sz * rank ds (coordinates ord c h w)"
    and "unat fh \<le> unat sz * prod_list ds \<and> unat fw \<le> unat sz * prod_list ds \<and> unat fc \<le> unat sz * prod_list ds"
  using assms
  by (cases ord; auto simp: coordinates_def list_all2_Cons1 map_eq_Cons_conv algebra_simps split: if_splits)+

lemma sint_below: "k < 2 ^ 31 \<Longrightarrow> sint (of_nat k :: i32) = int k"
  by (simp add: signed_of_nat signed_take_bit_int_eq_self)

lemma factor_product:
  assumes "unat (f :: i32) * k < 2 ^ 31" and "unat f < 2 ^ 31"
  shows "sint f * int k = int (unat f * k) \<and> fits_int32 (sint f * int k)"
proof -
  have s: "sint f = int (unat f)" using sint_below [OF assms(2)] by simp
  show ?thesis unfolding s of_nat_mult [symmetric] using assms(1) by (simp add: fits_int32_def del: of_nat_mult)
qed

lemma viewer_index_small:
  assumes "unat (factor_h v) * h + unat (factor_w v) * w + unat (factor_c v) * c + unat (ti_offset (v_tensor v)) < 2 ^ 31"
    and "unat (factor_h v) < 2 ^ 31" "unat (factor_w v) < 2 ^ 31" "unat (factor_c v) < 2 ^ 31"
  shows "viewer_index v (int c) (int h) (int w) =
     Inr (int (unat (factor_h v) * h + unat (factor_w v) * w + unat (factor_c v) * c + unat (ti_offset (v_tensor v))))"
proof -
  let ?n = "unat (factor_h v) * h + unat (factor_w v) * w + unat (factor_c v) * c + unat (ti_offset (v_tensor v))"
  have le: "unat (factor_h v) * h < 2 ^ 31" "unat (factor_w v) * w < 2 ^ 31" "unat (factor_c v) * c < 2 ^ 31"
    using assms(1) by linarith+
  note ph = factor_product [OF le(1) assms(2)] and pw = factor_product [OF le(2) assms(3)]
    and pc = factor_product [OF le(3) assms(4)]
  note p = ph [THEN conjunct1] ph [THEN conjunct2] pw [THEN conjunct1] pw [THEN conjunct2] pc [THEN conjunct1] pc [THEN conjunct2]
  have "ti_offset (v_tensor v) + of_int (int (unat (factor_h v) * h)) + of_int (int (unat (factor_w v) * w))
      + of_int (int (unat (factor_c v) * c)) = of_nat ?n"
    by simp
  then show ?thesis
    using p(2,4,6) unfolding viewer_index_def Let_def p(1,3,5) by (simp only: sint_below [OF assms(1)] if_True simp_thms)
qed

lemma build_Some:
  assumes "build t data = Inr (Some v)"
  obtains fh fw fc where "factors (ti_order t) (ti_strides t) (of_nat (getDataTypeSize t)) = Some (fh, fw, fc)"
    and "v = \<lparr>v_data = data, v_tensor = t, factor_h = fh, factor_w = fw, factor_c = fc\<rparr>"
  using assms by (auto simp: build_def bindR_Inr_iff split: if_splits option.splits prod.splits)

lemma unat_type_size: "unat (of_nat (data_type_size dt) :: u32) = data_type_size dt"
  by (cases dt) auto

lemma getTensor_parts:
  assumes "getTensor dec False name nn = Inr (sh, vs)" and "getTensorInfo name nn = Some t" and "0 < num_elements t"
  shows "sh = map unat (ti_dims t)" and "vs = map (read_element dec t (nn_data nn)) [0..<num_elements t]"
    and "(unat (ti_offset t) div data_type_size (ti_dataType t) + num_elements t) * data_type_size (ti_dataType t) \<le> length (nn_data nn)"
    and "0 < data_type_size (ti_dataType t)"
  using assms by (auto simp: getTensor_def Let_def split: if_splits)

lemma prod_list_above: "list_all2 (<) ks (ds :: nat list) \<Longrightarrow> 0 < prod_list ds"
  by (drule rank_bound) simp


text \<open>A message with two tensors: a 2x2x2 array of bytes and a vector of signed 32-bit values.\<close>

definition byte_values :: "real list" where
  "byte_values = map of_int [10, 11, 12, 13, 14, 15, 16, 255]"

definition int_values :: "real list" where
  "int_values = map of_int [-1, 70000]"

definition sample_tensors :: "tensor_args list" where
  "sample_tensors = [(''out'', [2, 2, 2], [4, 2, 1], byte_values, U8F, CHW), (''ids'', [2], [1], int_values, INT_t, Order_C)]"

definition no_floats :: "DataType \<Rightarrow> real \<Rightarrow> bytes" where
  "no_floats dt x = []"

definition no_float_bytes :: "DataType \<Rightarrow> bytes \<Rightarrow> real" where
  "no_float_bytes dt bs = 0"

definition empty_message :: nn_message where
  "empty_message = \<lparr>nn_data = [], nn_tensors = [], nn_size = None\<rparr>"

definition sample_message :: nn_message where
  "sample_message =
     \<lparr>nn_data = [10, 11, 12, 13, 14, 15, 16, 255] @ replicate 56 0 @ [255, 255, 255, 255, 112, 17, 1, 0],
      nn_tensors = [tensor_info ''out'' [2, 2, 2] [4, 2, 1] U8F CHW 0, tensor_info ''ids'' [2] [1] INT_t Order_C 64],
      nn_size = None\<rparr>"

lemma le_bytes_4: "le_bytes 4 k = [of_int k, of_int (k div 256), of_int (k div 256 div 256), of_int (k div 256 div 256 div 256)]"
  by (simp add: eval_nat_numeral)

lemma stored_values:
  "map (store_value no_floats U8F) byte_values = [[10], [11], [12], [13], [14], [15], [16], [255]]"
  "map (store_value no_floats INT_t) int_values = [[255, 255, 255, 255], [112, 17, 1, 0]]"
  unfolding byte_values_def int_values_def list.map store_value_def integral.simps if_True truncated_of_int data_type_size.simps
  by (simp_all add: le_bytes_4)

lemma length_values: "length byte_values = 8" "length int_values = 2"
  by (simp_all add: byte_values_def int_values_def)

lemma sample_added: "add_tensors (store_value no_floats) sample_tensors empty_message = (sample_message, Inr ())"
  by (simp add: sample_tensors_def empty_message_def addTensor_def Let_def stored_values DATA_ALIGNMENT_def tensor_info_def
      write_at_def resize_to_def validateStorageOrder_def sample_message_def length_values)

lemma storable_integers:
  assumes "\<forall>k \<in> set ks. holds_value dt k" and "integral dt" and "length ks = prod_list shape" and "\<forall>d \<in> set shape. d < 2 ^ 32"
  shows "storable (store_value fenc) (load_value fdec) dt shape (map of_int ks)"
  using assms load_stored_integer [of dt _ fdec fenc] by (cases dt) (auto simp: storable_def store_value_def)

lemma sample_storable:
  "storable (store_value no_floats) (load_value no_float_bytes) U8F [2, 2, 2] byte_values"
  "storable (store_value no_floats) (load_value no_float_bytes) INT_t [2] int_values"
  unfolding byte_values_def int_values_def by (rule storable_integers; simp)+

theorem added_tensors_read_back_witness:
  "getTensor (load_value no_float_bytes) True ''out'' sample_message = Inr ([2, 2, 2], byte_values) \<and>
   getTensor (load_value no_float_bytes) False ''ids'' sample_message = Inr ([2], int_values)"
proof -
  have ok: "\<forall>(name, shape, xstrides, vs, dt, ord) \<in> set sample_tensors.
      storable (store_value no_floats) (load_value no_float_bytes) dt shape vs"
    by (simp add: sample_tensors_def sample_storable)
  have new: "distinct (getAllLayerNames empty_message @ map fst sample_tensors)"
    by (simp add: getAllLayerNames_def empty_message_def sample_tensors_def)
  have len: "length (nn_data sample_message) < 2 ^ 32" by (simp add: sample_message_def)
  show ?thesis
    using added_tensors_read_back [OF sample_added ok new len, of True] added_tensors_read_back [OF sample_added ok new len, of False]
    by (simp add: sample_tensors_def)
qed

theorem getters_follow_order_witness:
  "getWidth (tensor_info ''out'' [1, 3, 4, 5] [60, 20, 5, 1] U8F NCHW 0) = Inr 5 \<and>
   getWidth (tensor_info ''out'' [5, 4, 3] [12, 3, 1] U8F WHC 0) = Inr 4"
  using getters_follow_order [of "tensor_info ''out'' [1, 3, 4, 5] [60, 20, 5, 1] U8F NCHW 0"]
    getters_follow_order [of "tensor_info ''out'' [5, 4, 3] [12, 3, 1] U8F WHC 0"]
  by (simp add: tensor_info_def validateStorageOrder_def named_entry_def)


end
