(* ===== verification/DetectionDecoding.thy ===== *)
theory DetectionDecoding
  imports Complex_Main "HOL-Library.Multiset" Tensors
begin

text \<open>
  Decoding of YOLO outputs into detections (src/pipeline/utilities/DetectionParser/DetectionParserUtils.cpp).
  Floating-point numbers are real numbers. The conversion of stored values is the argument \<open>dec\<close>, the sorting of
  the standard library is the argument \<open>srt\<close>, of which only \<open>sorts_by_score\<close> is used.
\<close>

section \<open>Candidates and options\<close>

record DetectionCandidate =
  xmin :: real
  ymin :: real
  xmax :: real
  ymax :: real
  score :: real
  label :: int
  headIndex :: nat
  rowIndex :: int
  columnIndex :: int
  labelName :: "string option"

datatype YoloDecodingFamily = TLBR | R1AF | v5AB | v3AB | YOLO26 | Family_other int

record parser_options =
  confidenceThreshold :: real
  decodingFamily :: YoloDecodingFamily
  decodeKeypoints :: bool
  decodeSegmentation :: bool
  num_classes :: int
  classNames :: "string list option"
  num_coordinates :: int
  nKeypoints :: "int option"
  head_strides :: "int list"
  outputNamesToUse :: "string list"
  anchorsV2 :: "real list list list"
  iouThreshold :: real
  keypointEdges :: "(u32 \<times> u32) list"
  keypointLabelNames :: "string list"

section \<open>The order of an output tensor\<close>

text \<open>
  \<open>isTensorOrderValid\<close> may replace the order of the description; none where the code returns false.
  \<open>first_order\<close> is the sequence of tests that both check functions make.
\<close>

fun first_order :: "(nat \<times> StorageOrder) list \<Rightarrow> u32 \<Rightarrow> TensorInfo \<Rightarrow> TensorInfo option" where
  "first_order [] n t = None"
| "first_order ((i, ord) # alts) n t = (if ti_dims t ! i = n then Some (t\<lparr>ti_order := ord\<rparr>) else first_order alts n t)"

definition checkAndFix3DTensorOrder :: "TensorInfo \<Rightarrow> nat \<Rightarrow> u32 \<Rightarrow> TensorInfo option" where
  "checkAndFix3DTensorOrder t expectedChannelIdx channelSize =
     (if length (ti_dims t) \<noteq> 3 then None
      else if ti_dims t ! expectedChannelIdx = channelSize then Some t
      else first_order [(0, CHW), (2, HWC), (1, HCW)] channelSize t)"

definition checkAndFix4DTensorOrder :: "TensorInfo \<Rightarrow> nat \<Rightarrow> u32 \<Rightarrow> TensorInfo option" where
  "checkAndFix4DTensorOrder t expectedChannelIdx channelSize =
     (if length (ti_dims t) \<noteq> 4 then None
      else if ti_dims t ! expectedChannelIdx = channelSize then Some t
      else first_order [(1, NCHW), (3, NHWC), (2, NHCW)] channelSize t)"

definition isTensorOrderValid :: "TensorInfo \<Rightarrow> u32 \<Rightarrow> TensorInfo option" where
  "isTensorOrderValid t channelSize =
     (case ti_order t of
        CHW \<Rightarrow> checkAndFix3DTensorOrder t 0 channelSize
      | HWC \<Rightarrow> checkAndFix3DTensorOrder t 2 channelSize
      | HCW \<Rightarrow> checkAndFix3DTensorOrder t 1 channelSize
      | NCHW \<Rightarrow> checkAndFix4DTensorOrder t 1 channelSize
      | NHWC \<Rightarrow> checkAndFix4DTensorOrder t 3 channelSize
      | NHCW \<Rightarrow> checkAndFix4DTensorOrder t 2 channelSize
      | _ \<Rightarrow> None)"

section \<open>Layer names\<close>

fun contains :: "string \<Rightarrow> string \<Rightarrow> bool" where
  "contains term_name [] = (term_name = [])"
| "contains term_name (c # cs) = (take (length term_name) (c # cs) = term_name \<or> contains term_name cs)"

definition resolveLayerNames :: "nn_message \<Rightarrow> string list \<Rightarrow> string \<Rightarrow> string list" where
  "resolveLayerNames nn specifiedNames defaultSearchTerm =
     sort (filter (contains defaultSearchTerm) (if specifiedNames = [] then getAllLayerNames nn else specifiedNames))"

section \<open>Decoding one cell\<close>

text \<open>The reader of a layer takes channel, row and column.\<close>

type_synonym reader = "int \<Rightarrow> int \<Rightarrow> int \<Rightarrow> real result"

definition better :: "reader \<Rightarrow> int \<Rightarrow> int \<Rightarrow> int \<Rightarrow> int \<Rightarrow> int \<times> real \<Rightarrow> (int \<times> real) result" where
  "better get ch0 row col c best =
     bindR (get (ch0 + c) row col) (\<lambda>p. Inr (if p > snd best then (c, p) else best))"

definition best_class :: "reader \<Rightarrow> int \<Rightarrow> int \<Rightarrow> int \<Rightarrow> int \<Rightarrow> (int \<times> real) result" where
  "best_class get ch0 row col n = foldR (better get ch0 row col) [0..n - 1] (0, 0)"

definition to_range :: "real \<Rightarrow> int \<Rightarrow> real" where
  "to_range x hi = max 0 (min x (of_int hi))"

definition clamped_candidate :: "int \<times> int \<Rightarrow> real \<times> real \<times> real \<times> real \<Rightarrow> real \<Rightarrow> int \<Rightarrow> nat \<Rightarrow> int \<Rightarrow> int \<Rightarrow> DetectionCandidate option" where
  "clamped_candidate img box s l head row col =
     (case (img, box) of ((w, h), (x0, y0, x1, y1)) \<Rightarrow>
        (let x0 = to_range x0 w; y0 = to_range y0 h; x1 = to_range x1 w; y1 = to_range y1 h in
         if x1 \<le> x0 \<or> y1 \<le> y0 then None
         else Some \<lparr>xmin = x0, ymin = y0, xmax = x1, ymax = y1, score = s, label = l, headIndex = head,
                    rowIndex = row, columnIndex = col, labelName = None\<rparr>))"

text \<open>A cell decoder: options, image size, head, stride, anchors of the head, reader, row and column.\<close>

type_synonym cell = "parser_options \<Rightarrow> int \<times> int \<Rightarrow> nat \<Rightarrow> int \<Rightarrow> reader \<Rightarrow> int \<Rightarrow> int \<Rightarrow> DetectionCandidate option result"
type_synonym anchor_cell =
  "parser_options \<Rightarrow> int \<times> int \<Rightarrow> nat \<Rightarrow> int \<Rightarrow> real list list \<Rightarrow> reader \<Rightarrow> int \<Rightarrow> int \<Rightarrow> nat \<Rightarrow> DetectionCandidate option result"

definition r1af_cell :: cell where
  "r1af_cell opts img head stride get row col =
     bindR (get 4 row col) (\<lambda>objectness.
       if objectness < confidenceThreshold opts then Inr None
       else bindR (best_class get 5 row col (num_classes opts)) (\<lambda>(bestC, bestConf).
         if bestConf * objectness < confidenceThreshold opts then Inr None
         else bindR (get 0 row col) (\<lambda>cx. bindR (get 1 row col) (\<lambda>cy. bindR (get 2 row col) (\<lambda>w. bindR (get 3 row col) (\<lambda>h.
           Inr (clamped_candidate img (cx - w / 2, cy - h / 2, cx + w / 2, cy + h / 2) (bestConf * objectness) bestC head row col)))))))"

definition tlbr_cell :: cell where
  "tlbr_cell opts img head stride get row col =
     bindR (get 4 row col) (\<lambda>s.
       if s < confidenceThreshold opts then Inr None
       else bindR (best_class get 5 row col (num_classes opts)) (\<lambda>(bestC, bestConf).
         bindR (get 0 row col) (\<lambda>l. bindR (get 1 row col) (\<lambda>t. bindR (get 2 row col) (\<lambda>r. bindR (get 3 row col) (\<lambda>b.
           if bestConf < confidenceThreshold opts then Inr None
           else Inr (clamped_candidate img
                  ((of_int col - l + 1 / 2) * of_int stride, (of_int row - t + 1 / 2) * of_int stride,
                   (of_int col + r + 1 / 2) * of_int stride, (of_int row + b + 1 / 2) * of_int stride)
                  bestConf bestC head row col)))))))"

definition sigmoid :: "real \<Rightarrow> real" where
  "sigmoid x = 1 / (1 + exp (- x))"

definition anchor_entry :: "real list list \<Rightarrow> nat \<Rightarrow> nat \<Rightarrow> real result" where
  "anchor_entry anchors a i =
     (if a < length anchors \<and> i < length (anchors ! a) then Inr (anchors ! a ! i) else Inl (UndefinedBehaviour ''vector::operator[]''))"

definition v3_cell :: anchor_cell where
  "v3_cell opts img head stride anchors get row col a =
     (let ch0 = int a * (5 + num_classes opts) in
      bindR (get ch0 row col) (\<lambda>gx. bindR (get (ch0 + 1) row col) (\<lambda>gy. bindR (get (ch0 + 2) row col) (\<lambda>tw.
        bindR (get (ch0 + 3) row col) (\<lambda>th. bindR (get (ch0 + 4) row col) (\<lambda>go.
          (let tx = sigmoid gx; ty = sigmoid gy; obj = sigmoid go in
           if obj < confidenceThreshold opts then Inr None
           else bindR (best_class get (ch0 + 5) row col (num_classes opts)) (\<lambda>(bestC, clsLogit).
             (let conf = obj * sigmoid clsLogit in
              if conf < confidenceThreshold opts then Inr None
              else bindR (anchor_entry anchors a 0) (\<lambda>aw. bindR (anchor_entry anchors a 1) (\<lambda>ah.
                (let cx = (of_int col + tx) * of_int stride; cy = (of_int row + ty) * of_int stride;
                     w = exp tw * aw; h = exp th * ah
                 in Inr (clamped_candidate img (cx - w / 2, cy - h / 2, cx + w / 2, cy + h / 2) conf bestC head row col)))))))))))))"

definition v5_cell :: anchor_cell where
  "v5_cell opts img head stride anchors get row col a =
     (let ch0 = int a * (5 + num_classes opts) in
      bindR (get ch0 row col) (\<lambda>tx. bindR (get (ch0 + 1) row col) (\<lambda>ty. bindR (get (ch0 + 2) row col) (\<lambda>tw.
        bindR (get (ch0 + 3) row col) (\<lambda>th. bindR (get (ch0 + 4) row col) (\<lambda>obj.
          if obj < confidenceThreshold opts then Inr None
          else bindR (best_class get (ch0 + 5) row col (num_classes opts)) (\<lambda>(bestC, bestConf).
            (let conf = obj * bestConf in
             if conf < confidenceThreshold opts then Inr None
             else bindR (anchor_entry anchors a 0) (\<lambda>aw. bindR (anchor_entry anchors a 1) (\<lambda>ah.
               (let cx = ((tx * 2 - 1 / 2) + of_int col) * of_int stride; cy = ((ty * 2 - 1 / 2) + of_int row) * of_int stride;
                    w = tw * tw * 4 * aw; h = th * th * 4 * ah
                in Inr (clamped_candidate img (cx - w / 2, cy - h / 2, cx + w / 2, cy + h / 2) conf bestC head row col))))))))))))"

text \<open>A detection of a model that decodes by itself: the best class is not compared with the threshold.\<close>

definition end_to_end_cell :: "parser_options \<Rightarrow> int \<times> int \<Rightarrow> reader \<Rightarrow> int \<Rightarrow> DetectionCandidate option result" where
  "end_to_end_cell opts img get col =
     bindR (get 4 0 col) (\<lambda>s.
       if s < confidenceThreshold opts then Inr None
       else bindR (best_class get 5 0 col (num_classes opts)) (\<lambda>(bestC, bestConf).
         bindR (get 0 0 col) (\<lambda>x0. bindR (get 1 0 col) (\<lambda>y0. bindR (get 2 0 col) (\<lambda>x1. bindR (get 3 0 col) (\<lambda>y1.
           Inr (clamped_candidate img (x0, y0, x1, y1) bestConf bestC 0 0 col)))))))"

section \<open>Decoding the layers\<close>

definition add_found :: "('a \<Rightarrow> 'c option result) \<Rightarrow> 'a \<Rightarrow> 'c list \<Rightarrow> 'c list result" where
  "add_found f x acc = bindR (f x) (\<lambda>r. Inr (case r of None \<Rightarrow> acc | Some c \<Rightarrow> acc @ [c]))"

definition check :: "bool \<Rightarrow> string \<Rightarrow> unit result" where
  "check ok msg = (if ok then Inr () else Inl (RuntimeError msg))"

definition found_tensor :: "string \<Rightarrow> nn_message \<Rightarrow> TensorInfo result" where
  "found_tensor name nn =
     (case getTensorInfo name nn of None \<Rightarrow> Inl (RuntimeError ''Tensor info for layer is null'') | Some t \<Rightarrow> Inr t)"

definition built_viewer :: "TensorInfo \<Rightarrow> bytes \<Rightarrow> viewer result" where
  "built_viewer t data =
     bindR (build t data) (\<lambda>v. case v of None \<Rightarrow> Inl (RuntimeError ''Failed to build NNDataViewer for layer'') | Some v \<Rightarrow> Inr v)"

text \<open>One layer of the anchor-free families, then one of the anchor-based ones. A layer whose order is not valid is skipped.\<close>

definition free_layer ::
  "(DataType \<Rightarrow> bytes \<Rightarrow> real) \<Rightarrow> cell \<Rightarrow> parser_options \<Rightarrow> int \<times> int \<Rightarrow> nn_message \<Rightarrow> nat \<times> int \<times> string \<Rightarrow>
   DetectionCandidate list \<Rightarrow> DetectionCandidate list result" where
  "free_layer dec cell opts img nn layer acc =
     (case layer of (strideIdx, stride, layerName) \<Rightarrow>
        bindR (found_tensor layerName nn) (\<lambda>t.
          case isTensorOrderValid t (of_int (num_classes opts + num_coordinates opts + 1)) of
            None \<Rightarrow> Inr acc
          | Some t' \<Rightarrow>
              bindR (getHeight t') (\<lambda>layerHeight. bindR (getWidth t') (\<lambda>layerWidth. bindR (built_viewer t' (nn_data nn)) (\<lambda>v.
                foldR (add_found (\<lambda>(row, col). cell opts img strideIdx stride (viewer_get dec v) row col))
                  [(row, col). row \<leftarrow> [0..layerHeight - 1], col \<leftarrow> [0..layerWidth - 1]] acc)))))"

definition anchored_layer ::
  "(DataType \<Rightarrow> bytes \<Rightarrow> real) \<Rightarrow> anchor_cell \<Rightarrow> parser_options \<Rightarrow> int \<times> int \<Rightarrow> nn_message \<Rightarrow> nat \<times> int \<times> string \<Rightarrow>
   DetectionCandidate list \<Rightarrow> DetectionCandidate list result" where
  "anchored_layer dec cell opts img nn layer acc =
     (case layer of (strideIdx, stride, layerName) \<Rightarrow>
        bindR (found_tensor layerName nn) (\<lambda>t.
          (let anchors = anchorsV2 opts ! strideIdx; numAnchors = length anchors in
           case isTensorOrderValid t (of_int (int numAnchors * (num_classes opts + num_coordinates opts + 1))) of
             None \<Rightarrow> Inr acc
           | Some t' \<Rightarrow>
               bindR (getHeight t') (\<lambda>layerHeight. bindR (getWidth t') (\<lambda>layerWidth. bindR (getChannels t') (\<lambda>layerChannels.
                 bindR (built_viewer t' (nn_data nn)) (\<lambda>v.
                   bindR (check (layerChannels = int numAnchors * (5 + num_classes opts)) ''Layer channels mismatch'') (\<lambda>_.
                     foldR (add_found (\<lambda>(row, col, a). cell opts img strideIdx stride anchors (viewer_get dec v) row col a))
                       [(row, col, a). row \<leftarrow> [0..layerHeight - 1], col \<leftarrow> [0..layerWidth - 1], a \<leftarrow> [0..<numAnchors]] acc))))))))"

section \<open>Suppression\<close>

definition YoloIntersectionOverUnion :: "DetectionCandidate \<Rightarrow> DetectionCandidate \<Rightarrow> real" where
  "YoloIntersectionOverUnion box1 box2 =
     (let ow = min (xmax box1) (xmax box2) - max (xmin box1) (xmin box2);
          oh = min (ymax box1) (ymax box2) - max (ymin box1) (ymin box2);
          area_of_overlap = (if ow < 0 \<or> oh < 0 then 0 else ow * oh);
          box_1_area = (ymax box1 - ymin box1) * (xmax box1 - xmin box1);
          box_2_area = (ymax box2 - ymin box2) * (xmax box2 - xmin box2)
      in area_of_overlap / (box_1_area + box_2_area - area_of_overlap))"

text \<open>What the code relies on of \<open>std::sort\<close> and \<open>std::partial_sort\<close> with its comparison.\<close>

definition sorts_by_score :: "(DetectionCandidate list \<Rightarrow> DetectionCandidate list) \<Rightarrow> bool" where
  "sorts_by_score srt \<longleftrightarrow> (\<forall>xs. mset (srt xs) = mset xs \<and> sorted_wrt (\<lambda>a b. score b \<le> score a) (srt xs))"

definition suppress_from :: "real \<Rightarrow> DetectionCandidate list \<Rightarrow> nat \<Rightarrow> bool list \<Rightarrow> bool list" where
  "suppress_from iouThr xs i keep =
     fold (\<lambda>j keep. if \<not> keep ! j then keep
             else if YoloIntersectionOverUnion (xs ! i) (xs ! j) \<ge> iouThr then keep[j := False] else keep)
       [Suc i..<length xs] keep"

definition suppression_step :: "real \<Rightarrow> DetectionCandidate list \<Rightarrow> nat \<Rightarrow> bool list \<times> nat list \<Rightarrow> bool list \<times> nat list" where
  "suppression_step iouThr xs i st =
     (if \<not> fst st ! i then st else (suppress_from iouThr xs i (fst st), snd st @ [i]))"

definition nonMaximumSuppression ::
  "(DetectionCandidate list \<Rightarrow> DetectionCandidate list) \<Rightarrow> DetectionCandidate list \<Rightarrow> real \<Rightarrow> DetectionCandidate list" where
  "nonMaximumSuppression srt detectionCandidates iouThr =
     (let xs = srt detectionCandidates;
          keepIndices = snd (fold (suppression_step iouThr xs) [0..<length xs] (replicate (length xs) True, []))
      in map ((!) xs) keepIndices)"

definition topKFilter :: "(DetectionCandidate list \<Rightarrow> DetectionCandidate list) \<Rightarrow> DetectionCandidate list \<Rightarrow> nat \<Rightarrow> DetectionCandidate list" where
  "topKFilter srt detectionCandidates k = take (min (length detectionCandidates) k) (srt detectionCandidates)"

section \<open>The detections of a message\<close>

text \<open>\<open>rr_normalized\<close> is the flag that both the centre and the size carry.\<close>

record RotatedRect =
  rr_x :: real
  rr_y :: real
  rr_width :: real
  rr_height :: real
  rr_angle :: real
  rr_normalized :: bool

record Keypoint =
  kp_x :: real
  kp_y :: real
  kp_z :: real
  kp_confidence :: real
  kp_label :: u32
  kp_labelName :: string

record ImgDetection =
  det_label :: u32
  det_labelName :: string
  det_confidence :: real
  det_xmin :: real
  det_ymin :: real
  det_xmax :: real
  det_ymax :: real
  det_boundingBox :: "RotatedRect option"
  det_keypoints :: "(Keypoint list \<times> (u32 \<times> u32) list) option"

text \<open>
  \<open>rect_between\<close>: a rectangle built from two points carries no flag; it counts as normalized when its lower right
  corner is within the unit square (\<open>Rect::isNormalized\<close>).
\<close>

definition rect_between :: "real \<times> real \<Rightarrow> real \<times> real \<Rightarrow> RotatedRect" where
  "rect_between p q =
     (let x = min (fst p) (fst q); y = min (snd p) (snd q); w = max (fst p) (fst q) - x; h = max (snd p) (snd q) - y
      in \<lparr>rr_x = x + w / 2, rr_y = y + h / 2, rr_width = w, rr_height = h, rr_angle = 0, rr_normalized = (x + w \<le> 1 \<and> y + h \<le> 1)\<rparr>)"

definition normalize :: "RotatedRect \<Rightarrow> int \<Rightarrow> int \<Rightarrow> RotatedRect result" where
  "normalize r width height =
     (if width = 0 \<or> height = 0 then Inl (RuntimeError ''Width and height must be non-zero to denormalize RotatedRect'')
      else if rr_normalized r then Inr r
      else Inr (r\<lparr>rr_x := rr_x r / of_int width, rr_y := rr_y r / of_int height, rr_width := rr_width r / of_int width,
                  rr_height := rr_height r / of_int height, rr_normalized := True\<rparr>))"

definition getPoints :: "RotatedRect \<Rightarrow> (real \<times> real) list" where
  "getPoints r =
     (let angleRad = rr_angle r * (314159265358979323846 / 100000000000000000000) / 180;
          hw = rr_width r / 2; hh = rr_height r / 2;
          turn = (\<lambda>(x, y). (x * cos angleRad - y * sin angleRad + rr_x r, x * sin angleRad + y * cos angleRad + rr_y r))
      in map turn [(- hw, - hh), (hw, - hh), (hw, hh), (- hw, hh)])"

definition getOuterRect :: "RotatedRect \<Rightarrow> real \<times> real \<times> real \<times> real" where
  "getOuterRect r =
     (let ps = getPoints r; xs = map fst ps; ys = map snd ps
      in (foldr min xs (hd xs), foldr min ys (hd ys), foldr max xs (hd xs), foldr max ys (hd ys)))"

definition setBoundingBox :: "RotatedRect \<Rightarrow> ImgDetection \<Rightarrow> ImgDetection" where
  "setBoundingBox r d =
     (case getOuterRect r of (x0, y0, x1, y1) \<Rightarrow>
        d\<lparr>det_boundingBox := Some r, det_xmin := x0, det_ymin := y0, det_xmax := x1, det_ymax := y1\<rparr>)"

definition new_detection :: ImgDetection where
  "new_detection = \<lparr>det_label = 0, det_labelName = [], det_confidence = 0, det_xmin = 0, det_ymin = 0, det_xmax = 0, det_ymax = 0,
     det_boundingBox = None, det_keypoints = None\<rparr>"

definition add_detection :: "int \<Rightarrow> int \<Rightarrow> DetectionCandidate \<Rightarrow> ImgDetection list \<Rightarrow> ImgDetection list result" where
  "add_detection width height c out =
     bindR (normalize (rect_between (xmin c, ymin c) (xmax c, ymax c)) width height) (\<lambda>r.
       Inr (out @ [(setBoundingBox r new_detection)\<lparr>det_confidence := score c, det_label := of_int (label c),
              det_labelName := (case labelName c of None \<Rightarrow> [] | Some n \<Rightarrow> n)\<rparr>]))"

definition createImgDetections :: "DetectionCandidate list \<Rightarrow> ImgDetection list \<Rightarrow> int \<Rightarrow> int \<Rightarrow> ImgDetection list result" where
  "createImgDetections cs out width height = foldR (add_detection width height) cs out"

text \<open>Class names are looked up without a check of the label.\<close>

definition name_candidate :: "string list \<Rightarrow> DetectionCandidate \<Rightarrow> DetectionCandidate list \<Rightarrow> DetectionCandidate list result" where
  "name_candidate names c acc =
     (if 0 \<le> label c \<and> label c < int (length names)
      then Inr (acc @ [c\<lparr>labelName := Some (names ! nat (label c))\<rparr>])
      else Inl (UndefinedBehaviour ''vector::operator[]''))"

definition name_candidates :: "parser_options \<Rightarrow> DetectionCandidate list \<Rightarrow> DetectionCandidate list result" where
  "name_candidates opts cs =
     (case classNames opts of
        None \<Rightarrow> Inr cs
      | Some names \<Rightarrow> if names = [] then Inr cs else foldR (name_candidate names) cs [])"

section \<open>Keypoints\<close>

text \<open>
  \<open>keypointDecode\<close>: none of the layers may be missing; a layer whose order or view is refused leaves the detections
  as they are (the answer none). The widths of the feature maps are read from the descriptions as they are in the
  message, not from the corrected ones.
\<close>

definition feature_map_widths :: "nn_message \<Rightarrow> string list \<Rightarrow> int list option result" where
  "feature_map_widths nn names =
     foldR (\<lambda>name acc. case acc of
              None \<Rightarrow> Inr None
            | Some ws \<Rightarrow>
                (case getTensorInfo name nn of
                   None \<Rightarrow> Inr None
                 | Some t \<Rightarrow> bindR (getWidth t) (\<lambda>w. Inr (Some (ws @ [w])))))
       names (Some [])"

definition keypoint_viewers :: "nn_message \<Rightarrow> int \<Rightarrow> string list \<Rightarrow> viewer list option result" where
  "keypoint_viewers nn n names =
     foldR (\<lambda>name acc. case acc of
              None \<Rightarrow> Inr None
            | Some vs \<Rightarrow>
                (case getTensorInfo name nn of
                   None \<Rightarrow> Inl (UndefinedBehaviour ''optional::operator*'')
                 | Some t \<Rightarrow>
                     (case isTensorOrderValid t (of_int (n * 3)) of
                        None \<Rightarrow> Inr None
                      | Some t' \<Rightarrow>
                          bindR (build t' (nn_data nn)) (\<lambda>v. Inr (case v of None \<Rightarrow> None | Some v \<Rightarrow> Some (vs @ [v]))))))
       names (Some [])"

definition clamp01 :: "real \<Rightarrow> real" where
  "clamp01 x = (if x < 0 then 0 else if 1 < x then 1 else x)"

definition decode_keypoint ::
  "parser_options \<Rightarrow> int \<Rightarrow> reader \<Rightarrow> int \<times> int \<Rightarrow> int \<Rightarrow> int \<Rightarrow> Keypoint list \<Rightarrow> Keypoint list result" where
  "decode_keypoint opts n get img flattenedIndex k acc =
     bindR (get (3 * k) 0 flattenedIndex) (\<lambda>gx. bindR (get (3 * k + 1) 0 flattenedIndex) (\<lambda>gy.
       bindR (get (3 * k + 2) 0 flattenedIndex) (\<lambda>gc.
         Inr (acc @ [\<lparr>kp_x = clamp01 (gx / of_int (fst img)), kp_y = clamp01 (gy / of_int (snd img)), kp_z = 0,
                      kp_confidence = sigmoid gc, kp_label = 0,
                      kp_labelName = (if int (length (keypointLabelNames opts)) = n then keypointLabelNames opts ! nat k else [])\<rparr>]))))"

definition validateEdges :: "nat \<Rightarrow> (u32 \<times> u32) list \<Rightarrow> unit result" where
  "validateEdges n edges =
     foldR (\<lambda>e _. if unat (fst e) \<ge> n \<or> unat (snd e) \<ge> n then Inl (InvalidArgument ''Edge index out of range.'')
                   else if fst e = snd e then Inl (InvalidArgument ''Self-loop edges are not allowed.'')
                   else Inr ()) edges ()"

definition add_keypoints ::
  "(DataType \<Rightarrow> bytes \<Rightarrow> real) \<Rightarrow> parser_options \<Rightarrow> int \<Rightarrow> int \<times> int \<Rightarrow> int list \<Rightarrow> viewer list \<Rightarrow> nat \<times> DetectionCandidate \<Rightarrow>
   ImgDetection list \<Rightarrow> ImgDetection list result" where
  "add_keypoints dec opts n img widths viewers ic out =
     (case ic of (i, c) \<Rightarrow>
        if length widths \<le> headIndex c then Inl (UndefinedBehaviour ''vector::operator[]'')
        else if n < 0 then Inl (LogicError ''vector::reserve'')
        else if length viewers \<le> headIndex c then Inl (OutOfRange ''map::at'')
        else
          (let flattenedIndex = rowIndex c * widths ! headIndex c + columnIndex c in
           bindR (foldR (decode_keypoint opts n (viewer_get dec (viewers ! headIndex c)) img flattenedIndex) [0..n - 1] []) (\<lambda>kps.
             bindR (validateEdges (length kps) (keypointEdges opts)) (\<lambda>_.
               if i < length out then Inr (out[i := (out ! i)\<lparr>det_keypoints := Some (kps, keypointEdges opts)\<rparr>])
               else Inl (UndefinedBehaviour ''vector::operator[]'')))))"

definition keypointDecode ::
  "(DataType \<Rightarrow> bytes \<Rightarrow> real) \<Rightarrow> nn_message \<Rightarrow> int \<times> int \<Rightarrow> DetectionCandidate list \<Rightarrow> ImgDetection list \<Rightarrow> parser_options \<Rightarrow>
   ImgDetection list result" where
  "keypointDecode dec nn img cs out opts =
     (case nKeypoints opts of
        None \<Rightarrow> Inl (RuntimeError ''Number of keypoints not set in properties.parser.nKeypoints.'')
      | Some n \<Rightarrow>
          bindR (feature_map_widths nn (resolveLayerNames nn (outputNamesToUse opts) ''_yolo'')) (\<lambda>ws.
            case ws of
              None \<Rightarrow> Inr out
            | Some widths \<Rightarrow>
                (let kptsLayerNames = resolveLayerNames nn [] ''kpt_output'' in
                 bindR (check (length (head_strides opts) = length kptsLayerNames)
                          ''Number of strides does not match number of keypoints output layers'') (\<lambda>_.
                   bindR (keypoint_viewers nn n kptsLayerNames) (\<lambda>vs.
                     case vs of
                       None \<Rightarrow> Inr out
                     | Some viewers \<Rightarrow> foldR (add_keypoints dec opts n img widths viewers) (zip [0..<length cs] cs) out)))))"

section \<open>The decoders\<close>

text \<open>
  The last steps of every decoder: class names, detections, then the two optional parts. Drawing the segmentation
  mask is OpenCV's and is the argument \<open>segmentation\<close>, which may throw.
\<close>

definition report ::
  "(DataType \<Rightarrow> bytes \<Rightarrow> real) \<Rightarrow> (DetectionCandidate list \<Rightarrow> unit result) \<Rightarrow> parser_options \<Rightarrow> nn_message \<Rightarrow> int \<times> int \<Rightarrow>
   DetectionCandidate list \<Rightarrow> ImgDetection list result" where
  "report dec segmentation opts nn img kept =
     bindR (name_candidates opts kept) (\<lambda>cs.
       bindR (createImgDetections cs [] (fst img) (snd img)) (\<lambda>out.
         bindR (if decodeSegmentation opts then segmentation cs else Inr ()) (\<lambda>_.
           if decodeKeypoints opts then keypointDecode dec nn img cs out opts else Inr out)))"

definition input_size :: "nn_message \<Rightarrow> (int \<times> int) result" where
  "input_size nn =
     (case nn_size nn of
        None \<Rightarrow> Inl (UndefinedBehaviour ''optional::operator->'')
      | Some (w, h) \<Rightarrow> bindR (check (0 < w \<and> 0 < h) ''Invalid input dimensions'') (\<lambda>_. Inr (w, h)))"

definition decode_free_candidates ::
  "(DataType \<Rightarrow> bytes \<Rightarrow> real) \<Rightarrow> cell \<Rightarrow> parser_options \<Rightarrow> nn_message \<Rightarrow> ((int \<times> int) \<times> DetectionCandidate list) result" where
  "decode_free_candidates dec cell opts nn =
     (let layerNames = resolveLayerNames nn (outputNamesToUse opts) ''_yolo'' in
      bindR (check (length (head_strides opts) = length layerNames) ''Number of strides does not match number of output layers'') (\<lambda>_.
        bindR (input_size nn) (\<lambda>img.
          bindR (foldR (free_layer dec cell opts img nn) (zip [0..<length layerNames] (zip (head_strides opts) layerNames)) []) (\<lambda>cs.
            Inr (img, cs)))))"

definition decode_anchored_candidates ::
  "(DataType \<Rightarrow> bytes \<Rightarrow> real) \<Rightarrow> anchor_cell \<Rightarrow> parser_options \<Rightarrow> nn_message \<Rightarrow> ((int \<times> int) \<times> DetectionCandidate list) result" where
  "decode_anchored_candidates dec cell opts nn =
     (let layerNames = resolveLayerNames nn (outputNamesToUse opts) ''_yolo'' in
      bindR (check (length (head_strides opts) = length layerNames) ''Number of strides does not match number of output layers'') (\<lambda>_.
        bindR (input_size nn) (\<lambda>img.
          bindR (check (length (anchorsV2 opts) = length layerNames) ''Number of anchor sets does not match number of output layers'') (\<lambda>_.
            bindR (foldR (anchored_layer dec cell opts img nn) (zip [0..<length layerNames] (zip (head_strides opts) layerNames)) []) (\<lambda>cs.
              Inr (img, cs))))))"

definition decode_end_to_end_candidates ::
  "(DataType \<Rightarrow> bytes \<Rightarrow> real) \<Rightarrow> parser_options \<Rightarrow> nn_message \<Rightarrow> ((int \<times> int) \<times> DetectionCandidate list option) result" where
  "decode_end_to_end_candidates dec opts nn =
     (let yoloLayerNames = resolveLayerNames nn (outputNamesToUse opts) ''_yolo'' in
      bindR (check (length yoloLayerNames = 1) ''End-to-end models support only one yolo output layer'') (\<lambda>_.
        bindR (input_size nn) (\<lambda>img.
          bindR (found_tensor (hd yoloLayerNames) nn) (\<lambda>t.
            case isTensorOrderValid t (of_int (num_classes opts + num_coordinates opts + 1)) of
              None \<Rightarrow> Inr (img, None)
            | Some t' \<Rightarrow>
                bindR (getChannels t') (\<lambda>layerChannels. bindR (getHeight t') (\<lambda>layerHeight. bindR (getWidth t') (\<lambda>layerWidth.
                  bindR (check (layerChannels = 5 + num_classes opts) ''Invalid number of channels in end-to-end output'') (\<lambda>_.
                    if layerHeight \<le> 0 \<or> layerWidth \<le> 0 then Inr (img, None)
                    else bindR (built_viewer t' (nn_data nn)) (\<lambda>v.
                      bindR (foldR (add_found (end_to_end_cell opts img (viewer_get dec v))) [0..layerWidth - 1] []) (\<lambda>cs.
                        Inr (img, Some cs)))))))))))"

definition decode_suppressed ::
  "(DataType \<Rightarrow> bytes \<Rightarrow> real) \<Rightarrow> (DetectionCandidate list \<Rightarrow> DetectionCandidate list) \<Rightarrow> (DetectionCandidate list \<Rightarrow> unit result) \<Rightarrow>
   ((int \<times> int) \<times> DetectionCandidate list) result \<Rightarrow> parser_options \<Rightarrow> nn_message \<Rightarrow> ImgDetection list result" where
  "decode_suppressed dec srt segmentation found opts nn =
     bindR found (\<lambda>(img, cs). report dec segmentation opts nn img (nonMaximumSuppression srt cs (iouThreshold opts)))"

definition decodeR1AF ::
  "(DataType \<Rightarrow> bytes \<Rightarrow> real) \<Rightarrow> (DetectionCandidate list \<Rightarrow> DetectionCandidate list) \<Rightarrow> (DetectionCandidate list \<Rightarrow> unit result) \<Rightarrow>
   parser_options \<Rightarrow> nn_message \<Rightarrow> ImgDetection list result" where
  "decodeR1AF dec srt segmentation opts nn =
     decode_suppressed dec srt segmentation (decode_free_candidates dec r1af_cell opts nn) opts nn"

definition decodeV3AB ::
  "(DataType \<Rightarrow> bytes \<Rightarrow> real) \<Rightarrow> (DetectionCandidate list \<Rightarrow> DetectionCandidate list) \<Rightarrow> (DetectionCandidate list \<Rightarrow> unit result) \<Rightarrow>
   parser_options \<Rightarrow> nn_message \<Rightarrow> ImgDetection list result" where
  "decodeV3AB dec srt segmentation opts nn =
     decode_suppressed dec srt segmentation (decode_anchored_candidates dec v3_cell opts nn) opts nn"

definition decodeV5AB ::
  "(DataType \<Rightarrow> bytes \<Rightarrow> real) \<Rightarrow> (DetectionCandidate list \<Rightarrow> DetectionCandidate list) \<Rightarrow> (DetectionCandidate list \<Rightarrow> unit result) \<Rightarrow>
   parser_options \<Rightarrow> nn_message \<Rightarrow> ImgDetection list result" where
  "decodeV5AB dec srt segmentation opts nn =
     decode_suppressed dec srt segmentation (decode_anchored_candidates dec v5_cell opts nn) opts nn"

definition decodeTLBR ::
  "(DataType \<Rightarrow> bytes \<Rightarrow> real) \<Rightarrow> (DetectionCandidate list \<Rightarrow> DetectionCandidate list) \<Rightarrow> (DetectionCandidate list \<Rightarrow> unit result) \<Rightarrow>
   parser_options \<Rightarrow> nn_message \<Rightarrow> ImgDetection list result" where
  "decodeTLBR dec srt segmentation opts nn =
     decode_suppressed dec srt segmentation (decode_free_candidates dec tlbr_cell opts nn) opts nn"

definition decodeEndToEnd ::
  "(DataType \<Rightarrow> bytes \<Rightarrow> real) \<Rightarrow> (DetectionCandidate list \<Rightarrow> DetectionCandidate list) \<Rightarrow> (DetectionCandidate list \<Rightarrow> unit result) \<Rightarrow>
   parser_options \<Rightarrow> nn_message \<Rightarrow> ImgDetection list result" where
  "decodeEndToEnd dec srt segmentation opts nn =
     bindR (decode_end_to_end_candidates dec opts nn) (\<lambda>(img, found).
       case found of None \<Rightarrow> Inr [] | Some cs \<Rightarrow> report dec segmentation opts nn img (topKFilter srt cs 300))"

definition decodeYolo ::
  "(DataType \<Rightarrow> bytes \<Rightarrow> real) \<Rightarrow> (DetectionCandidate list \<Rightarrow> DetectionCandidate list) \<Rightarrow> (DetectionCandidate list \<Rightarrow> unit result) \<Rightarrow>
   parser_options \<Rightarrow> nn_message \<Rightarrow> ImgDetection list result" where
  "decodeYolo dec srt segmentation opts nn =
     (case decodingFamily opts of
        R1AF \<Rightarrow> decodeR1AF dec srt segmentation opts nn
      | v3AB \<Rightarrow> decodeV3AB dec srt segmentation opts nn
      | v5AB \<Rightarrow> decodeV5AB dec srt segmentation opts nn
      | TLBR \<Rightarrow> decodeTLBR dec srt segmentation opts nn
      | YOLO26 \<Rightarrow> decodeEndToEnd dec srt segmentation opts nn
      | Family_other n \<Rightarrow> Inl (RuntimeError ''Unknown Yolo decoding family''))"

section \<open>Suppression keeps the best of each group\<close>

text \<open>The same choice without the vector of marks: keep the first, drop what overlaps it, go on.\<close>

fun greedy :: "real \<Rightarrow> DetectionCandidate list \<Rightarrow> DetectionCandidate list" where
  "greedy thr [] = []"
| "greedy thr (x # xs) = x # greedy thr (filter (\<lambda>y. YoloIntersectionOverUnion x y < thr) xs)"

lemma length_suppress [simp]: "length (suppress_from thr xs i keep) = length keep"
proof -
  have "length (fold (\<lambda>j keep. if \<not> keep ! j then keep
      else if YoloIntersectionOverUnion (xs ! i) (xs ! j) \<ge> thr then keep[j := False] else keep) js keep) = length keep" for js
    by (induction js arbitrary: keep) auto
  then show ?thesis by (simp add: suppress_from_def)
qed

lemma suppress_nth:
  assumes "length keep = length xs" and "j < length xs"
  shows "suppress_from thr xs i keep ! j \<longleftrightarrow> keep ! j \<and> (i < j \<longrightarrow> YoloIntersectionOverUnion (xs ! i) (xs ! j) < thr)"
proof -
  let ?f = "\<lambda>j keep. if \<not> keep ! j then keep
      else if YoloIntersectionOverUnion (xs ! i) (xs ! j) \<ge> thr then keep[j := False] else keep"
  have "fold ?f js keep ! j \<longleftrightarrow> keep ! j \<and> (j \<in> set js \<longrightarrow> YoloIntersectionOverUnion (xs ! i) (xs ! j) < thr)"
    if "\<forall>j \<in> set js. j < length keep" "j < length keep" for js keep
    using that by (induction js arbitrary: keep) (auto simp: nth_list_update not_le)
  from this [of "[Suc i..<length xs]" keep] assms show ?thesis
    by (auto simp: suppress_from_def)
qed

lemma suppression_from:
  assumes "length keep = length xs" and "k \<le> length xs"
  shows "map ((!) xs) (snd (fold (suppression_step thr xs) [k..<length xs] (keep, kept))) =
         map ((!) xs) kept @ greedy thr (map ((!) xs) (filter (\<lambda>j. keep ! j) [k..<length xs]))"
  using assms
proof (induction "length xs - k" arbitrary: k keep kept)
  case 0
  then show ?case by simp
next
  case (Suc n)
  then have k: "k < length xs" by simp
  then have upt: "[k..<length xs] = k # [Suc k..<length xs]" by (rule upt_conv_Cons)
  show ?case
  proof (cases "keep ! k")
    case False
    with Suc.hyps(1) [of "Suc k" keep kept] Suc.hyps(2) Suc.prems k show ?thesis
      by (simp add: upt suppression_step_def)
  next
    case True
    let ?keep = "suppress_from thr xs k keep"
    have "filter (\<lambda>j. ?keep ! j) [Suc k..<length xs] =
        filter (\<lambda>j. keep ! j \<and> YoloIntersectionOverUnion (xs ! k) (xs ! j) < thr) [Suc k..<length xs]"
      using Suc.prems(1) by (intro filter_cong refl) (auto simp: suppress_nth)
    then have f: "map ((!) xs) (filter (\<lambda>j. ?keep ! j) [Suc k..<length xs]) =
        filter (\<lambda>y. YoloIntersectionOverUnion (xs ! k) y < thr) (map ((!) xs) (filter (\<lambda>j. keep ! j) [Suc k..<length xs]))"
      by (simp add: filter_map o_def conj_commute)
    show ?thesis
      using Suc.hyps(1) [of "Suc k" ?keep "kept @ [k]"] Suc.hyps(2) Suc.prems k True
      by (simp add: upt suppression_step_def f)
  qed
qed

lemma suppression_greedy: "nonMaximumSuppression srt cs thr = greedy thr (srt cs)"
proof -
  have "filter (\<lambda>j. replicate (length ys) True ! j) [0..<length ys] = [0..<length ys]" for ys :: "DetectionCandidate list"
    by (auto intro!: filter_True)
  then show ?thesis
    using suppression_from [of "replicate (length (srt cs)) True" "srt cs" 0 thr "[]"]
    by (simp add: nonMaximumSuppression_def Let_def map_nth)
qed

lemma set_greedy: "set (greedy thr xs) \<subseteq> set xs"
  by (induction thr xs rule: greedy.induct) auto

lemma mset_greedy: "mset (greedy thr xs) \<subseteq># mset xs"
proof (induction thr xs rule: greedy.induct)
  case (2 thr x xs)
  then have "mset (greedy thr (filter (\<lambda>y. YoloIntersectionOverUnion x y < thr) xs)) \<subseteq># mset xs"
    by (metis (no_types, lifting) mset_filter multiset_filter_subset subset_mset.trans)
  then show ?case by simp
qed simp

lemma sorted_greedy: "sorted_wrt P xs \<Longrightarrow> sorted_wrt P (greedy thr xs)"
proof (induction thr xs rule: greedy.induct)
  case (2 thr x xs)
  then show ?case using set_greedy [of thr "filter (\<lambda>y. YoloIntersectionOverUnion x y < thr) xs"]
    by (auto simp: sorted_wrt_filter)
qed simp

lemma greedy_apart: "sorted_wrt (\<lambda>a b. YoloIntersectionOverUnion a b < thr) (greedy thr xs)"
proof (induction thr xs rule: greedy.induct)
  case (2 thr x xs)
  then show ?case using set_greedy [of thr "filter (\<lambda>y. YoloIntersectionOverUnion x y < thr) xs"] by auto
qed simp

lemma greedy_covers:
  "sorted_wrt (\<lambda>a b. score b \<le> score a) xs \<Longrightarrow> c \<in> set xs \<Longrightarrow>
   c \<in> set (greedy thr xs) \<or> (\<exists>k \<in> set (greedy thr xs). score c \<le> score k \<and> thr \<le> YoloIntersectionOverUnion k c)"
proof (induction thr xs rule: greedy.induct)
  case (2 thr x xs)
  show ?case
  proof (cases "c = x \<or> thr \<le> YoloIntersectionOverUnion x c")
    case True
    with 2(2,3) show ?thesis by auto
  next
    case False
    with 2 have "c \<in> set (filter (\<lambda>y. YoloIntersectionOverUnion x y < thr) xs)" by auto
    with 2(1,2) show ?thesis by (auto simp: sorted_wrt_filter)
  qed
qed simp

lemma suppression_best:
  assumes "sorts_by_score srt"
  shows "set (nonMaximumSuppression srt cs thr) \<subseteq> set cs \<and>
         sorted_wrt (\<lambda>a b. score b \<le> score a) (nonMaximumSuppression srt cs thr)"
proof -
  from assms have m: "mset (srt cs) = mset cs" and s: "sorted_wrt (\<lambda>a b. score b \<le> score a) (srt cs)"
    by (auto simp: sorts_by_score_def)
  have "set (srt cs) = set cs" using m by (metis set_mset_mset)
  then show ?thesis unfolding suppression_greedy using set_greedy [of thr "srt cs"] sorted_greedy [OF s] by auto
qed

lemma topKFilter_best:
  assumes "sorts_by_score srt"
  shows "set (topKFilter srt cs k) \<subseteq> set cs \<and> sorted_wrt (\<lambda>a b. score b \<le> score a) (topKFilter srt cs k)"
proof -
  from assms have m: "mset (srt cs) = mset cs" and s: "sorted_wrt (\<lambda>a b. score b \<le> score a) (srt cs)"
    by (auto simp: sorts_by_score_def)
  have "set (srt cs) = set cs" using m by (metis set_mset_mset)
  then show ?thesis unfolding topKFilter_def using s by (auto simp: sorted_wrt_take dest: in_set_takeD)
qed

text \<open>
  C22. Non-maximum suppression keeps exactly the right boxes, for any sorting algorithm: the result is a selection of the
  candidates, best score first; no kept box overlaps a later one by the threshold or more; and every candidate that is
  dropped overlaps a kept one, of at least its score, by the threshold or more.
\<close>

theorem suppression_keeps_best:
  assumes "sorts_by_score srt"
  shows "mset (nonMaximumSuppression srt cs thr) \<subseteq># mset cs \<and>
         sorted_wrt (\<lambda>a b. score b \<le> score a) (nonMaximumSuppression srt cs thr) \<and>
         sorted_wrt (\<lambda>a b. YoloIntersectionOverUnion a b < thr) (nonMaximumSuppression srt cs thr) \<and>
         (\<forall>c \<in> set cs. c \<in> set (nonMaximumSuppression srt cs thr) \<or>
            (\<exists>k \<in> set (nonMaximumSuppression srt cs thr). score c \<le> score k \<and> thr \<le> YoloIntersectionOverUnion k c))"
proof -
  from assms have m: "mset (srt cs) = mset cs" and s: "sorted_wrt (\<lambda>a b. score b \<le> score a) (srt cs)"
    by (auto simp: sorts_by_score_def)
  have "set (srt cs) = set cs" using m by (metis set_mset_mset)
  then show ?thesis
    unfolding suppression_greedy
    using mset_greedy [of thr "srt cs"] sorted_greedy [OF s] greedy_apart [of thr "srt cs"] greedy_covers [OF s] m by auto
qed

text \<open>Two boxes that coincide, the better one second: it is the one kept.\<close>

definition by_score :: "DetectionCandidate list \<Rightarrow> DetectionCandidate list" where
  "by_score = sort_key (\<lambda>c. - score c)"

lemma by_score_sorts: "sorts_by_score by_score"
proof -
  have "sorted (map (\<lambda>c. - score c) (sort_key (\<lambda>c. - score c) xs))" for xs :: "DetectionCandidate list" by simp
  then have "sorted_wrt (\<lambda>a b. score b \<le> score a) (sort_key (\<lambda>c. - score c) xs)" for xs :: "DetectionCandidate list"
    by (simp add: sorted_map)
  then show ?thesis by (simp add: sorts_by_score_def by_score_def)
qed

definition box_of_score :: "real \<Rightarrow> DetectionCandidate" where
  "box_of_score s = \<lparr>xmin = 0, ymin = 0, xmax = 2, ymax = 2, score = s, label = 0, headIndex = 0, rowIndex = 0, columnIndex = 0,
     labelName = None\<rparr>"

lemma better_box_kept: "nonMaximumSuppression by_score [box_of_score (1 / 4), box_of_score (1 / 2)] (1 / 2) = [box_of_score (1 / 2)]"
  by (simp add: suppression_greedy by_score_def box_of_score_def YoloIntersectionOverUnion_def)

theorem suppression_keeps_best_witness:
  "nonMaximumSuppression by_score [box_of_score (1 / 4), box_of_score (1 / 2)] (1 / 2) = [box_of_score (1 / 2)] \<and>
   1 / 2 \<le> YoloIntersectionOverUnion (box_of_score (1 / 2)) (box_of_score (1 / 4))"
  using suppression_keeps_best [OF by_score_sorts, of "[box_of_score (1 / 4), box_of_score (1 / 2)]" "1 / 2"]
  unfolding better_box_kept by (auto simp: box_of_score_def)

text \<open>
  The top-k filter of the end-to-end models keeps the k best candidates (all of them, if there are fewer): best first,
  and no candidate left out scores higher than a kept one.
\<close>

theorem topKFilter_keeps_best:
  assumes "sorts_by_score srt"
  shows "length (topKFilter srt cs k) = min (length cs) k \<and>
         sorted_wrt (\<lambda>a b. score b \<le> score a) (topKFilter srt cs k) \<and>
         (\<exists>rest. mset cs = mset (topKFilter srt cs k) + mset rest \<and>
            (\<forall>a \<in> set (topKFilter srt cs k). \<forall>b \<in> set rest. score b \<le> score a))"
proof -
  from assms have m: "mset (srt cs) = mset cs" and s: "sorted_wrt (\<lambda>a b. score b \<le> score a) (srt cs)"
    by (auto simp: sorts_by_score_def)
  let ?n = "min (length cs) k"
  have split: "srt cs = take ?n (srt cs) @ drop ?n (srt cs)" by simp
  have s': "sorted_wrt (\<lambda>a b. score b \<le> score a) (take ?n (srt cs) @ drop ?n (srt cs))" using s by simp
  have l: "length (srt cs) = length cs" using m by (metis size_mset)
  have "mset cs = mset (take ?n (srt cs)) + mset (drop ?n (srt cs))"
    unfolding m [symmetric] mset_append [symmetric] by simp
  then show ?thesis
    using s' [unfolded sorted_wrt_append] l unfolding topKFilter_def by (intro conjI exI [of _ "drop ?n (srt cs)"]) auto
qed

end
