(* ===== verification/DetectionParser.thy ===== *)
theory DetectionParser
  imports DetectionDecoding
begin

text \<open>
  The detection parser node (src/pipeline/node/DetectionParser.cpp): the MobileNet decoder, the turn of the node,
  and what the detections of a message satisfy whichever decoder made them.
\<close>

section \<open>The node\<close>

text \<open>
  The MobileNet decoder: seven values per detection, up to the first with header -1, from the last tensor at offset 0.
  The conversion of a negative or too large label to 32 bits is undefined.
\<close>

fun mobilenet_rows :: "real \<Rightarrow> nat \<Rightarrow> real list \<Rightarrow> ImgDetection list \<Rightarrow> ImgDetection list result" where
  "mobilenet_rows thr 0 vs out = Inr out"
| "mobilenet_rows thr (Suc n) vs out =
     (if vs ! 0 = -1 then Inr out
      else if vs ! 2 \<ge> thr then
        (if -1 < vs ! 1 \<and> vs ! 1 < 2 ^ 32 then
           mobilenet_rows thr n (drop 7 vs)
             (out @ [new_detection\<lparr>det_label := of_int (truncated (vs ! 1)), det_confidence := vs ! 2, det_xmin := vs ! 3,
                       det_ymin := vs ! 4, det_xmax := vs ! 5, det_ymax := vs ! 6\<rparr>])
         else Inl (UndefinedBehaviour ''float to uint32_t''))
      else mobilenet_rows thr n (drop 7 vs) out)"

definition decodeMobilenet ::
  "(DataType \<Rightarrow> bytes \<Rightarrow> real) \<Rightarrow> nn_message \<Rightarrow> real \<Rightarrow> ImgDetection list result" where
  "decodeMobilenet dec nn confidenceThr =
     (let tensorName = fold (\<lambda>t name. if ti_offset t = 0 then ti_name t else name) (nn_tensors nn) [] in
      bindR (getTensor dec False tensorName nn) (\<lambda>(dims, vs). mobilenet_rows confidenceThr (length vs div 7) vs []))"

datatype DetectionNetworkType = YOLO | MOBILENET | Network_other int

record parser_node =
  imgSizesSet :: bool
  imgWidth :: int
  imgHeight :: int
  nnFamily :: DetectionNetworkType
  parser :: parser_options
  networkInputs :: "TensorInfo list"
  runOnHost :: bool
  explicitRunOnHostSet :: bool

definition setRunOnHost :: "bool \<Rightarrow> parser_node \<Rightarrow> parser_node" where
  "setRunOnHost host s = s\<lparr>runOnHost := host, explicitRunOnHostSet := True\<rparr>"

text \<open>
  \<open>buildStage1\<close>: the image size from the first network input, when it is known. \<open>rvc2\<close> says whether there is a device of
  that platform.
\<close>

definition buildStage1 :: "bool \<Rightarrow> parser_node \<Rightarrow> parser_node result" where
  "buildStage1 rvc2 s =
     bindR (case networkInputs s of
              [] \<Rightarrow> Inr s
            | t # ts \<Rightarrow>
                (let n = nat (sint (numDimensions t)) in
                 if sint (numDimensions t) < 2 then Inr s
                 else if n - 1 < length (ti_dims t)
                   then Inr (s\<lparr>imgSizesSet := True, imgWidth := uint (ti_dims t ! (n - 1)), imgHeight := uint (ti_dims t ! (n - 2))\<rparr>)
                   else Inl (UndefinedBehaviour ''vector::operator[]'')))
       (\<lambda>s. Inr (if \<not> explicitRunOnHostSet s \<and> rvc2 \<and> decodeSegmentation (parser s) then setRunOnHost True s else s))"

text \<open>One message; the result is the message sent, none where the turn ends early.\<close>

definition parser_turn ::
  "(DataType \<Rightarrow> bytes \<Rightarrow> real) \<Rightarrow> (DetectionCandidate list \<Rightarrow> DetectionCandidate list) \<Rightarrow> (DetectionCandidate list \<Rightarrow> unit result) \<Rightarrow>
   nn_message option \<Rightarrow> parser_node \<Rightarrow> (parser_node \<times> ImgDetection list option) result" where
  "parser_turn dec srt segmentation msg s =
     (case msg of
        None \<Rightarrow> Inr (s, None)
      | Some nn \<Rightarrow>
          (let s' = (case nn_size nn of
                       None \<Rightarrow> s
                     | Some (w, h) \<Rightarrow> if imgSizesSet s then s else s\<lparr>imgSizesSet := True, imgWidth := w, imgHeight := h\<rparr>)
           in if \<not> imgSizesSet s' then Inr (s', None)
              else bindR (case nnFamily s of
                            YOLO \<Rightarrow> decodeYolo dec srt segmentation (parser s) nn
                          | MOBILENET \<Rightarrow> decodeMobilenet dec nn (confidenceThreshold (parser s))
                          | Network_other n \<Rightarrow> Inr [])
                     (\<lambda>out. Inr (s', Some out))))"

section \<open>What a candidate satisfies\<close>

definition in_image :: "int \<times> int \<Rightarrow> DetectionCandidate \<Rightarrow> bool" where
  "in_image img c \<longleftrightarrow>
     0 \<le> xmin c \<and> xmin c < xmax c \<and> xmax c \<le> of_int (fst img) \<and> 0 \<le> ymin c \<and> ymin c < ymax c \<and> ymax c \<le> of_int (snd img)"

definition known_label :: "parser_options \<Rightarrow> DetectionCandidate \<Rightarrow> bool" where
  "known_label opts c \<longleftrightarrow> 0 \<le> label c \<and> (label c < num_classes opts \<or> label c = 0)"

definition proper_candidate :: "parser_options \<Rightarrow> int \<times> int \<Rightarrow> DetectionCandidate \<Rightarrow> bool" where
  "proper_candidate opts img c \<longleftrightarrow> in_image img c \<and> known_label opts c"

lemma to_range_bounds: "0 < n \<Longrightarrow> 0 \<le> to_range x n \<and> to_range x n \<le> of_int n"
  by (simp add: to_range_def)

lemma clamped_candidate_in_image:
  assumes "clamped_candidate img box s l head row col = Some c" and "0 < fst img" and "0 < snd img"
  shows "in_image img c" and "score c = s" and "label c = l" and "headIndex c = head" and "rowIndex c = row" and "columnIndex c = col"
  using assms by (auto simp: clamped_candidate_def to_range_bounds in_image_def Let_def not_le split: prod.splits if_splits)

lemma best_class_bounds:
  assumes "best_class get ch0 row col n = Inr (c, p)"
  shows "0 \<le> c \<and> (c < n \<or> c = 0) \<and> 0 \<le> p"
proof -
  have "(\<lambda>(c, p). 0 \<le> c \<and> (c < n \<or> c = 0) \<and> 0 \<le> p) (c, p)"
    by (rule foldR_invariant [OF assms [unfolded best_class_def]])
       (auto simp: better_def bindR_Inr_iff split: if_splits)
  then show ?thesis by simp
qed

named_theorems cell_defs \<open>the cell decoders\<close>

declare r1af_cell_def [cell_defs] tlbr_cell_def [cell_defs] v3_cell_def [cell_defs] v5_cell_def [cell_defs]
  end_to_end_cell_def [cell_defs]

text \<open>A candidate made by a decoder is proper; those of the four suppressed families also reach the threshold.\<close>

lemma free_cells_proper:
  assumes "r1af_cell opts img head stride get row col = Inr (Some c) \<or> tlbr_cell opts img head stride get row col = Inr (Some c)"
    and "0 < fst img" and "0 < snd img"
  shows "proper_candidate opts img c \<and> confidenceThreshold opts \<le> score c"
  using assms(1)
  by (auto simp: cell_defs bindR_Inr_iff proper_candidate_def known_label_def Let_def
      clamped_candidate_in_image [OF _ assms(2,3)] dest!: best_class_bounds split: if_splits prod.splits)

lemma anchor_cells_proper:
  assumes "v3_cell opts img head stride anchors get row col a = Inr (Some c) \<or>
           v5_cell opts img head stride anchors get row col a = Inr (Some c)"
    and "0 < fst img" and "0 < snd img"
  shows "proper_candidate opts img c \<and> confidenceThreshold opts \<le> score c"
  using assms(1)
  by (auto simp: cell_defs bindR_Inr_iff proper_candidate_def known_label_def Let_def
      clamped_candidate_in_image [OF _ assms(2,3)] dest!: best_class_bounds split: if_splits prod.splits)

lemma end_to_end_proper:
  assumes "end_to_end_cell opts img get col = Inr (Some c)" and "0 < fst img" and "0 < snd img"
  shows "proper_candidate opts img c"
  using assms(1)
  by (auto simp: cell_defs bindR_Inr_iff proper_candidate_def known_label_def Let_def
      clamped_candidate_in_image [OF _ assms(2,3)] dest!: best_class_bounds split: if_splits prod.splits)

section \<open>Layers and decoders\<close>

lemma add_found_all:
  assumes "foldR (add_found f) xs acc = Inr out" and "\<forall>c \<in> set acc. P c"
    and "\<And>x c. f x = Inr (Some c) \<Longrightarrow> P c"
  shows "\<forall>c \<in> set out. P c"
  by (rule foldR_invariant [where P = "\<lambda>acc. \<forall>c \<in> set acc. P c", OF assms(1,2)])
     (auto simp: add_found_def bindR_Inr_iff split: option.splits dest: assms(3))

lemma layers_all:
  assumes "foldR layer xs [] = Inr cs" and "\<And>x acc out. layer x acc = Inr out \<Longrightarrow> \<forall>c \<in> set acc. P c \<Longrightarrow> \<forall>c \<in> set out. P c"
  shows "\<forall>c \<in> set cs. P c"
  by (rule foldR_invariant [where P = "\<lambda>acc. \<forall>c \<in> set acc. P c", OF assms(1)]) (use assms(2) in auto)

lemma free_layer_all:
  assumes "free_layer dec cell opts img nn layer acc = Inr out" and "\<forall>c \<in> set acc. P c"
    and "\<And>head stride get row col c. cell opts img head stride get row col = Inr (Some c) \<Longrightarrow> P c"
  shows "\<forall>c \<in> set out. P c"
proof (cases layer)
  case (fields i st name)
  have "out = acc \<or> (\<exists>v xs. foldR (add_found (\<lambda>(row, col). cell opts img i st (viewer_get dec v) row col)) xs acc = Inr out)"
    using assms(1) by (auto simp: free_layer_def fields bindR_Inr_iff Let_def split: option.splits)
  then show ?thesis
  proof
    assume "out = acc"
    with assms(2) show ?thesis by simp
  next
    assume "\<exists>v xs. foldR (add_found (\<lambda>(row, col). cell opts img i st (viewer_get dec v) row col)) xs acc = Inr out"
    then obtain v xs where
      "foldR (add_found (\<lambda>(row, col). cell opts img i st (viewer_get dec v) row col)) xs acc = Inr out"
      by blast
    then show ?thesis by (rule add_found_all [OF _ assms(2)]) (auto dest: assms(3))
  qed
qed

lemma anchored_layer_all:
  assumes "anchored_layer dec cell opts img nn layer acc = Inr out" and "\<forall>c \<in> set acc. P c"
    and "\<And>head stride anchors get row col a c. cell opts img head stride anchors get row col a = Inr (Some c) \<Longrightarrow> P c"
  shows "\<forall>c \<in> set out. P c"
proof (cases layer)
  case (fields i st name)
  have "out = acc \<or> (\<exists>v xs. foldR (add_found (\<lambda>(row, col, a). cell opts img i st (anchorsV2 opts ! i) (viewer_get dec v) row col a)) xs acc
      = Inr out)"
    using assms(1) by (auto simp: anchored_layer_def fields bindR_Inr_iff Let_def split: option.splits)
  then show ?thesis
  proof
    assume "out = acc"
    with assms(2) show ?thesis by simp
  next
    assume "\<exists>v xs. foldR (add_found (\<lambda>(row, col, a). cell opts img i st (anchorsV2 opts ! i) (viewer_get dec v) row col a)) xs acc
      = Inr out"
    then obtain v xs where
      "foldR (add_found (\<lambda>(row, col, a). cell opts img i st (anchorsV2 opts ! i) (viewer_get dec v) row col a)) xs acc = Inr out"
      by blast
    then show ?thesis by (rule add_found_all [OF _ assms(2)]) (auto dest: assms(3))
  qed
qed

lemma input_size_positive: "input_size nn = Inr img \<Longrightarrow> 0 < fst img \<and> 0 < snd img"
  by (auto simp: input_size_def check_def bindR_Inr_iff split: option.splits if_splits prod.splits)

lemma decode_free_proper:
  assumes "decode_free_candidates dec cell opts nn = Inr (img, cs)" and "cell = r1af_cell \<or> cell = tlbr_cell"
  shows "0 < fst img \<and> 0 < snd img \<and> (\<forall>c \<in> set cs. proper_candidate opts img c \<and> confidenceThreshold opts \<le> score c)"
proof -
  from assms(1) obtain xs where i: "input_size nn = Inr img" and f: "foldR (free_layer dec cell opts img nn) xs [] = Inr cs"
    by (auto simp: decode_free_candidates_def Let_def bindR_Inr_iff)
  note pos = input_size_positive [OF i]
  have "\<forall>c \<in> set cs. proper_candidate opts img c \<and> confidenceThreshold opts \<le> score c"
    by (rule layers_all [OF f], erule free_layer_all, assumption)
       (use assms(2) free_cells_proper pos in blast)
  with pos show ?thesis by blast
qed

lemma decode_anchored_proper:
  assumes "decode_anchored_candidates dec cell opts nn = Inr (img, cs)" and "cell = v3_cell \<or> cell = v5_cell"
  shows "0 < fst img \<and> 0 < snd img \<and> (\<forall>c \<in> set cs. proper_candidate opts img c \<and> confidenceThreshold opts \<le> score c)"
proof -
  from assms(1) obtain xs where i: "input_size nn = Inr img" and f: "foldR (anchored_layer dec cell opts img nn) xs [] = Inr cs"
    by (auto simp: decode_anchored_candidates_def Let_def bindR_Inr_iff)
  note pos = input_size_positive [OF i]
  have "\<forall>c \<in> set cs. proper_candidate opts img c \<and> confidenceThreshold opts \<le> score c"
    by (rule layers_all [OF f], erule anchored_layer_all, assumption)
       (use assms(2) anchor_cells_proper pos in blast)
  with pos show ?thesis by blast
qed

lemma decode_end_to_end_proper:
  assumes "decode_end_to_end_candidates dec opts nn = Inr (img, Some cs)"
  shows "0 < fst img \<and> 0 < snd img \<and> (\<forall>c \<in> set cs. proper_candidate opts img c)"
proof -
  from assms obtain v xs where i: "input_size nn = Inr img"
    and f: "foldR (add_found (end_to_end_cell opts img (viewer_get dec v))) xs [] = Inr cs"
    by (auto simp: decode_end_to_end_candidates_def Let_def bindR_Inr_iff split: option.splits if_splits)
  note pos = input_size_positive [OF i]
  have "\<forall>c \<in> set cs. proper_candidate opts img c"
    by (rule add_found_all [OF f]) (use end_to_end_proper pos in auto)
  with pos show ?thesis by blast
qed

section \<open>From candidates to detections\<close>

lemma outer_upright:
  assumes "rr_angle r = 0" and "0 \<le> rr_width r" and "0 \<le> rr_height r"
  shows "getOuterRect r = (rr_x r - rr_width r / 2, rr_y r - rr_height r / 2, rr_x r + rr_width r / 2, rr_y r + rr_height r / 2)"
  using assms by (auto simp: getOuterRect_def getPoints_def Let_def min_def max_def)

text \<open>The box of a detection is the candidate's, divided by the image size unless it counts as normalized already.\<close>

definition scaled_by :: "DetectionCandidate \<Rightarrow> int \<Rightarrow> real" where
  "scaled_by c n = (if xmax c \<le> 1 \<and> ymax c \<le> 1 then 1 else of_int n)"

definition reports :: "int \<times> int \<Rightarrow> DetectionCandidate \<Rightarrow> ImgDetection \<Rightarrow> bool" where
  "reports img c d \<longleftrightarrow>
     det_xmin d = xmin c / scaled_by c (fst img) \<and> det_xmax d = xmax c / scaled_by c (fst img) \<and>
     det_ymin d = ymin c / scaled_by c (snd img) \<and> det_ymax d = ymax c / scaled_by c (snd img) \<and>
     det_confidence d = score c \<and> det_label d = of_int (label c)"

lemma add_detection_reports:
  assumes "in_image img c" and "0 < fst img" and "0 < snd img"
  shows "\<exists>d. add_detection (fst img) (snd img) c out = Inr (out @ [d]) \<and> reports img c d \<and> det_keypoints d = None"
proof -
  let ?r = "rect_between (xmin c, ymin c) (xmax c, ymax c)"
  define N where "N = (xmax c \<le> 1 \<and> ymax c \<le> 1)"
  have r: "?r = \<lparr>rr_x = xmin c + (xmax c - xmin c) / 2, rr_y = ymin c + (ymax c - ymin c) / 2, rr_width = xmax c - xmin c,
      rr_height = ymax c - ymin c, rr_angle = 0, rr_normalized = N\<rparr>"
    using assms(1) by (simp add: rect_between_def Let_def in_image_def N_def)
  have scale: "scaled_by c n = (if N then 1 else of_int n)" for n by (simp add: scaled_by_def N_def)
  let ?w = "scaled_by c (fst img)" and ?h = "scaled_by c (snd img)"
  have pos: "0 < ?w" "0 < ?h" using assms(2,3) by (auto simp: scaled_by_def)
  obtain r' where r': "normalize ?r (fst img) (snd img) = Inr r'"
    and v: "rr_x r' = (xmin c + (xmax c - xmin c) / 2) / ?w" "rr_y r' = (ymin c + (ymax c - ymin c) / 2) / ?h"
      "rr_width r' = (xmax c - xmin c) / ?w" "rr_height r' = (ymax c - ymin c) / ?h" "rr_angle r' = 0"
    using assms(2,3) unfolding r normalize_def scale by (cases N) auto
  have nn: "0 \<le> rr_width r'" "0 \<le> rr_height r'" using assms(1) pos by (auto simp: v in_image_def)
  have half: "(a + (b - a) / 2) / n - (b - a) / n / 2 = a / n" "(a + (b - a) / 2) / n + (b - a) / n / 2 = b / n" for a b n :: real
    by (simp_all add: field_simps flip: add_divide_distrib diff_divide_distrib)
  have o: "getOuterRect r' = (xmin c / ?w, ymin c / ?h, xmax c / ?w, ymax c / ?h)"
    unfolding outer_upright [OF v(5) nn] v half by simp
  show ?thesis
    by (simp add: add_detection_def r' setBoundingBox_def o reports_def new_detection_def)
qed

lemma createImgDetections_reports:
  assumes "\<forall>c \<in> set cs. in_image img c" and "0 < fst img" and "0 < snd img"
  shows "\<exists>ds. createImgDetections cs out (fst img) (snd img) = Inr (out @ ds) \<and> list_all2 (reports img) cs ds \<and>
    (\<forall>d \<in> set ds. det_keypoints d = None)"
  using assms(1)
proof (induction cs arbitrary: out)
  case Nil
  show ?case by (simp add: createImgDetections_def)
next
  case (Cons c cs)
  then obtain d where d: "add_detection (fst img) (snd img) c out = Inr (out @ [d])" "reports img c d" "det_keypoints d = None"
    using add_detection_reports [OF _ assms(2,3)] by (meson list.set_intros(1))
  obtain ds where "createImgDetections cs (out @ [d]) (fst img) (snd img) = Inr ((out @ [d]) @ ds)"
    "list_all2 (reports img) cs ds" "\<forall>d \<in> set ds. det_keypoints d = None"
    using Cons.IH [of "out @ [d]"] Cons.prems by auto
  with d show ?case by (intro exI [of _ "d # ds"]) (simp add: createImgDetections_def)
qed

lemma name_candidates_same:
  assumes "name_candidates opts cs = Inr cs'"
  shows "list_all2 (\<lambda>c c'. \<exists>n. c' = c\<lparr>labelName := n\<rparr>) cs cs'"
proof -
  have step: "foldR (name_candidate names) ks acc = Inr out \<Longrightarrow> list_all2 (\<lambda>c c'. \<exists>n. c' = c\<lparr>labelName := n\<rparr>) ds acc \<Longrightarrow>
      list_all2 (\<lambda>c c'. \<exists>n. c' = c\<lparr>labelName := n\<rparr>) (ds @ ks) out" for names ks acc out ds
  proof (induction ks arbitrary: acc ds)
    case Nil
    then show ?case by simp
  next
    case (Cons k ks)
    then obtain acc' where a: "name_candidate names k acc = Inr acc'" and f: "foldR (name_candidate names) ks acc' = Inr out"
      by (auto simp: bindR_Inr_iff)
    have "list_all2 (\<lambda>c c'. \<exists>n. c' = c\<lparr>labelName := n\<rparr>) (ds @ [k]) acc'"
      using a Cons.prems(2) by (auto simp: name_candidate_def intro!: list_all2_appendI split: if_splits)
    from Cons.IH [OF f this] show ?case by simp
  qed
  have same: "list_all2 (\<lambda>c c'. \<exists>n. c' = c\<lparr>labelName := n\<rparr>) ks ks" for ks
    by (rule list_all2_refl) (metis DetectionCandidate.surjective DetectionCandidate.update_convs(10))
  show ?thesis
    using assms step [of _ cs "[]" cs' "[]"] same [of cs] by (auto simp: name_candidates_def split: option.splits if_splits)
qed

section \<open>Keypoints of a detection\<close>

definition keypoint_ok :: "Keypoint \<Rightarrow> bool" where
  "keypoint_ok k \<longleftrightarrow> 0 \<le> kp_x k \<and> kp_x k \<le> 1 \<and> 0 \<le> kp_y k \<and> kp_y k \<le> 1 \<and> 0 < kp_confidence k \<and> kp_confidence k < 1"

definition keypoints_ok :: "parser_options \<Rightarrow> ImgDetection \<Rightarrow> bool" where
  "keypoints_ok opts d \<longleftrightarrow>
     (\<forall>kps edges. det_keypoints d = Some (kps, edges) \<longrightarrow>
        nKeypoints opts = Some (int (length kps)) \<and> list_all keypoint_ok kps \<and>
        edges = keypointEdges opts \<and> (\<forall>(a, b) \<in> set edges. unat a < length kps \<and> unat b < length kps \<and> a \<noteq> b))"

lemma clamp01_range: "0 \<le> clamp01 x \<and> clamp01 x \<le> 1"
  by (simp add: clamp01_def)

lemma sigmoid_range: "0 < sigmoid x \<and> sigmoid x < 1"
proof -
  have e: "0 < exp (- x)" by simp
  have "1 / (1 + e) < 1 \<and> 0 < 1 / (1 + e)" if "0 < e" for e :: real using that by (simp add: field_simps)
  from this [OF e] show ?thesis unfolding sigmoid_def by blast
qed

lemma decode_keypoint_ok:
  "decode_keypoint opts n get img fi k acc = Inr out \<Longrightarrow> \<exists>kp. out = acc @ [kp] \<and> keypoint_ok kp"
  by (auto simp: bindR_Inr_iff decode_keypoint_def keypoint_ok_def clamp01_range sigmoid_range)

lemma decode_keypoints_ok:
  "foldR (decode_keypoint opts n get img fi) ks acc = Inr kps \<Longrightarrow> list_all keypoint_ok acc \<Longrightarrow>
   length kps = length acc + length ks \<and> list_all keypoint_ok kps"
proof (induction ks arbitrary: acc)
  case Nil
  then show ?case by simp
next
  case (Cons k ks)
  then obtain acc' where d: "decode_keypoint opts n get img fi k acc = Inr acc'"
    and f: "foldR (decode_keypoint opts n get img fi) ks acc' = Inr kps"
    by (auto simp: bindR_Inr_iff)
  from decode_keypoint_ok [OF d] Cons.IH [OF f] Cons.prems(2) show ?case by auto
qed

lemma validateEdges_ok: "validateEdges n es = Inr u \<Longrightarrow> \<forall>(a, b) \<in> set es. unat a < n \<and> unat b < n \<and> a \<noteq> b"
proof (induction es)
  case (Cons e es)
  then show ?case
    by (cases e) (auto simp: validateEdges_def split: if_splits)
qed (simp add: validateEdges_def)

lemma add_keypoints_ok:
  assumes "add_keypoints dec opts n img ws vs ic out = Inr out'" and "nKeypoints opts = Some n"
    and "list_all2 (reports img') cs out \<and> (\<forall>d \<in> set out. keypoints_ok opts d)"
  shows "list_all2 (reports img') cs out' \<and> (\<forall>d \<in> set out'. keypoints_ok opts d)"
proof -
  obtain i c where ic: "ic = (i, c)" by fastforce
  from assms(1) obtain get fi kps u where n: "0 \<le> n" and k: "foldR (decode_keypoint opts n get img fi) [0..n - 1] [] = Inr kps"
    and e: "validateEdges (length kps) (keypointEdges opts) = Inr u" and i: "i < length out"
    and out: "out' = out[i := (out ! i)\<lparr>det_keypoints := Some (kps, keypointEdges opts)\<rparr>]"
    unfolding ic by (auto simp: add_keypoints_def Let_def bindR_Inr_iff not_le not_less split: if_splits)
  let ?d = "(out ! i)\<lparr>det_keypoints := Some (kps, keypointEdges opts)\<rparr>"
  have "reports img' (cs ! i) ?d" using assms(3) i by (simp add: reports_def list_all2_conv_all_nth)
  then have "list_all2 (reports img') (cs[i := cs ! i]) out'"
    unfolding out using assms(3) by (intro list_all2_update_cong) auto
  moreover have "keypoints_ok opts ?d"
    using decode_keypoints_ok [OF k] validateEdges_ok [OF e] assms(2) n by (simp add: keypoints_ok_def)
  ultimately show ?thesis
    using assms(3) by (auto simp: out dest: set_update_subset_insert [THEN subsetD])
qed

lemma keypointDecode_ok:
  assumes "keypointDecode dec nn img cs' out opts = Inr out'"
    and "list_all2 (reports img') cs out \<and> (\<forall>d \<in> set out. keypoints_ok opts d)"
  shows "list_all2 (reports img') cs out' \<and> (\<forall>d \<in> set out'. keypoints_ok opts d)"
proof -
  from assms(1) obtain n where n: "nKeypoints opts = Some n" by (auto simp: keypointDecode_def split: option.splits)
  from assms(1) n have "out' = out \<or> (\<exists>ws vs. foldR (add_keypoints dec opts n img ws vs) (zip [0..<length cs'] cs') out = Inr out')"
    by (auto simp: keypointDecode_def Let_def bindR_Inr_iff split: option.splits)
  then show ?thesis
  proof
    assume "\<exists>ws vs. foldR (add_keypoints dec opts n img ws vs) (zip [0..<length cs'] cs') out = Inr out'"
    then obtain ws vs where f: "foldR (add_keypoints dec opts n img ws vs) (zip [0..<length cs'] cs') out = Inr out'" by blast
    show ?thesis
      by (rule foldR_invariant [where P = "\<lambda>out. list_all2 (reports img') cs out \<and> (\<forall>d \<in> set out. keypoints_ok opts d)", OF f assms(2)])
         (rule add_keypoints_ok [OF _ n])
  qed (use assms(2) in simp)
qed

lemma report_detections:
  assumes "report dec segmentation opts nn img kept = Inr out" and "\<forall>c \<in> set kept. in_image img c"
    and "0 < fst img" and "0 < snd img"
  shows "list_all2 (reports img) kept out \<and> (\<forall>d \<in> set out. keypoints_ok opts d)"
proof -
  from assms(1) obtain cs ds where n: "name_candidates opts kept = Inr cs"
    and c: "createImgDetections cs [] (fst img) (snd img) = Inr ds"
    and k: "out = ds \<or> keypointDecode dec nn img cs ds opts = Inr out"
    by (auto simp: report_def bindR_Inr_iff split: if_splits)
  note same = name_candidates_same [OF n]
  have "\<forall>c \<in> set cs. in_image img c"
  proof
    fix c
    assume "c \<in> set cs"
    then obtain i where i: "i < length cs" "c = cs ! i" by (auto simp: in_set_conv_nth)
    with same obtain m where "kept ! i \<in> set kept" "c = (kept ! i)\<lparr>labelName := m\<rparr>"
      by (auto simp: list_all2_conv_all_nth)
    with assms(2) show "in_image img c" by (auto simp: in_image_def)
  qed
  from createImgDetections_reports [OF this assms(3,4), of "[]"] c
  have ds: "list_all2 (reports img) cs ds" "\<forall>d \<in> set ds. det_keypoints d = None" by auto
  have "list_all2 (reports img) kept ds"
    by (rule list_all2_trans [OF _ same ds(1)]) (auto simp: reports_def scaled_by_def)
  moreover have "\<forall>d \<in> set ds. keypoints_ok opts d" using ds(2) by (simp add: keypoints_ok_def)
  ultimately show ?thesis using k keypointDecode_ok [of dec nn img cs ds opts out img kept] by auto
qed

lemma decodeYolo_reports:
  assumes "decodeYolo dec srt segmentation opts nn = Inr out" and "sorts_by_score srt"
  shows "out = [] \<or> (\<exists>img kept. 0 < fst img \<and> 0 < snd img \<and> list_all2 (reports img) kept out \<and>
    (\<forall>d \<in> set out. keypoints_ok opts d) \<and> sorted_wrt (\<lambda>a b. score b \<le> score a) kept \<and>
    (\<forall>c \<in> set kept. proper_candidate opts img c \<and> (decodingFamily opts \<noteq> YOLO26 \<longrightarrow> confidenceThreshold opts \<le> score c)))"
proof (cases "decodingFamily opts = YOLO26")
  case True
  with assms(1) obtain img found where f: "decode_end_to_end_candidates dec opts nn = Inr (img, found)"
    and r: "(case found of None \<Rightarrow> Inr [] | Some cs \<Rightarrow> report dec segmentation opts nn img (topKFilter srt cs 300)) = Inr out"
    by (auto simp: decodeYolo_def decodeEndToEnd_def bindR_Inr_iff)
  show ?thesis
  proof (cases found)
    case None
    with r show ?thesis by simp
  next
    case (Some cs)
    let ?kept = "topKFilter srt cs 300"
    note proper = decode_end_to_end_proper [OF f [unfolded Some]]
    note top = topKFilter_best [OF assms(2), of cs 300]
    have k: "\<forall>c \<in> set ?kept. proper_candidate opts img c" using proper top by blast
    have "list_all2 (reports img) ?kept out \<and> (\<forall>d \<in> set out. keypoints_ok opts d)"
      by (rule report_detections [of dec segmentation opts nn]) (use r Some k proper in \<open>auto simp: proper_candidate_def\<close>)
    with proper k top True show ?thesis by blast
  qed
next
  case False
  with assms(1) obtain found where s: "decode_suppressed dec srt segmentation found opts nn = Inr out"
    and f: "found = decode_free_candidates dec r1af_cell opts nn \<or> found = decode_free_candidates dec tlbr_cell opts nn \<or>
      found = decode_anchored_candidates dec v3_cell opts nn \<or> found = decode_anchored_candidates dec v5_cell opts nn"
    by (auto simp: decodeYolo_def decodeR1AF_def decodeTLBR_def decodeV3AB_def decodeV5AB_def split: YoloDecodingFamily.splits)
  then obtain img cs where "found = Inr (img, cs)"
    and r: "report dec segmentation opts nn img (nonMaximumSuppression srt cs (iouThreshold opts)) = Inr out"
    by (auto simp: decode_suppressed_def bindR_Inr_iff)
  with f have proper: "0 < fst img \<and> 0 < snd img \<and> (\<forall>c \<in> set cs. proper_candidate opts img c \<and> confidenceThreshold opts \<le> score c)"
    using decode_free_proper decode_anchored_proper by metis
  let ?kept = "nonMaximumSuppression srt cs (iouThreshold opts)"
  note best = suppression_best [OF assms(2), of cs "iouThreshold opts"]
  have k: "\<forall>c \<in> set ?kept. proper_candidate opts img c \<and> confidenceThreshold opts \<le> score c" using proper best by blast
  have "list_all2 (reports img) ?kept out \<and> (\<forall>d \<in> set out. keypoints_ok opts d)"
    by (rule report_detections [OF r]) (use k proper in \<open>auto simp: proper_candidate_def\<close>)
  with proper k best show ?thesis by blast
qed

lemma reported_box:
  assumes "reports img c d" and "proper_candidate opts img c" and "0 < fst img" and "0 < snd img"
  shows "0 \<le> det_xmin d \<and> det_xmin d < det_xmax d \<and> det_xmax d \<le> 1 \<and> 0 \<le> det_ymin d \<and> det_ymin d < det_ymax d \<and> det_ymax d \<le> 1"
  using assms by (auto simp: reports_def proper_candidate_def in_image_def scaled_by_def divide_strict_right_mono)

lemma reported_label:
  assumes "reports img c d" and "proper_candidate opts img c" and "num_classes opts < 2 ^ 31"
  shows "uint (det_label d) < num_classes opts \<or> det_label d = 0"
proof (cases "label c = 0")
  case True
  with assms(1) show ?thesis by (simp add: reports_def)
next
  case False
  with assms have "0 \<le> label c" "label c < num_classes opts" by (auto simp: proper_candidate_def known_label_def)
  with assms(1,3) show ?thesis by (simp add: reports_def uint_word_of_int_eq take_bit_int_eq_self)
qed

text \<open>
  C23. Whatever a network puts out, and whichever of the five decoders reads it: every detection that the parser reports
  has a non-empty box inside the unit square and a label of a known class (or 0); unless the model is end-to-end, its
  confidence reaches the threshold; the detections come in order of falling confidence; and where a
  detection has keypoints, they are as many as asked for, inside the unit square, with confidences between 0 and 1, and with
  edges between existing keypoints.
\<close>

theorem decoded_detections_proper:
  assumes "decodeYolo dec srt segmentation opts nn = Inr out" and "sorts_by_score srt" and "num_classes opts < 2 ^ 31"
  shows "(\<forall>d \<in> set out.
            0 \<le> det_xmin d \<and> det_xmin d < det_xmax d \<and> det_xmax d \<le> 1 \<and>
            0 \<le> det_ymin d \<and> det_ymin d < det_ymax d \<and> det_ymax d \<le> 1 \<and>
            (uint (det_label d) < num_classes opts \<or> det_label d = 0) \<and>
            (decodingFamily opts \<noteq> YOLO26 \<longrightarrow> confidenceThreshold opts \<le> det_confidence d) \<and> keypoints_ok opts d) \<and>
         sorted_wrt (\<lambda>a b. det_confidence b \<le> det_confidence a) out"
proof (cases "out = []")
  case False
  from decodeYolo_reports [OF assms(1,2)] False obtain img kept where pos: "0 < fst img" "0 < snd img"
    and r: "list_all2 (reports img) kept out" and kp: "\<forall>d \<in> set out. keypoints_ok opts d"
    and sorted: "sorted_wrt (\<lambda>a b. score b \<le> score a) kept"
    and k: "\<forall>c \<in> set kept. proper_candidate opts img c \<and> (decodingFamily opts \<noteq> YOLO26 \<longrightarrow> confidenceThreshold opts \<le> score c)"
    by blast
  have each: "\<exists>c \<in> set kept. reports img c d" if d: "d \<in> set out" for d
  proof -
    obtain i where "i < length out" "out ! i = d" using d by (auto simp: in_set_conv_nth)
    then show ?thesis using r by (intro bexI [of _ "kept ! i"]) (auto simp: list_all2_conv_all_nth)
  qed
  have conf: "map score kept = map det_confidence out"
    using r by (auto simp: list_all2_conv_all_nth reports_def intro!: nth_equalityI)
  have "sorted_wrt (\<ge>) (map score kept)" using sorted by (simp add: sorted_wrt_map)
  then have "sorted_wrt (\<lambda>a b. det_confidence b \<le> det_confidence a) out" unfolding conf by (simp add: sorted_wrt_map)
  moreover have "\<forall>d \<in> set out. \<exists>c \<in> set kept. reports img c d \<and> det_confidence d = score c" using each by (auto simp: reports_def)
  ultimately show ?thesis using k kp reported_box [OF _ _ pos] reported_label [OF _ _ assms(3)] by metis
qed simp

text \<open>A layer of one cell with one class, and the decoder of the anchor-free family on it.\<close>

definition one_cell :: "bytes \<Rightarrow> nn_message" where
  "one_cell bs = \<lparr>nn_data = bs, nn_tensors = [tensor_info ''out_yolo'' [6, 1, 1] [1, 1, 1] U8F CHW 0], nn_size = Some (16, 16)\<rparr>"

definition one_class :: "YoloDecodingFamily \<Rightarrow> real \<Rightarrow> parser_options" where
  "one_class fam thr =
     \<lparr>confidenceThreshold = thr, decodingFamily = fam, decodeKeypoints = False, decodeSegmentation = False, num_classes = 1,
      classNames = None, num_coordinates = 4, nKeypoints = None, head_strides = [8], outputNamesToUse = [], anchorsV2 = [],
      iouThreshold = 1 / 2, keypointEdges = [], keypointLabelNames = []\<rparr>"

definition cell_viewer :: "bytes \<Rightarrow> viewer" where
  "cell_viewer bs = \<lparr>v_data = bs, v_tensor = tensor_info ''out_yolo'' [6, 1, 1] [1, 1, 1] U8F CHW 0,
     factor_h = 1, factor_w = 1, factor_c = 1\<rparr>"

lemma one_cell_setup:
  assumes "length bs = 6"
  shows "resolveLayerNames (one_cell bs) [] ''_yolo'' = [''out_yolo'']"
    and "found_tensor ''out_yolo'' (one_cell bs) = Inr (v_tensor (cell_viewer bs))"
    and "isTensorOrderValid (v_tensor (cell_viewer bs)) 6 = Some (v_tensor (cell_viewer bs))"
    and "getHeight (v_tensor (cell_viewer bs)) = Inr 1" and "getWidth (v_tensor (cell_viewer bs)) = Inr 1"
    and "getChannels (v_tensor (cell_viewer bs)) = Inr 6"
    and "built_viewer (v_tensor (cell_viewer bs)) bs = Inr (cell_viewer bs)"
  using assms
  by (simp_all add: one_cell_def cell_viewer_def resolveLayerNames_def getAllLayerNames_def tensor_info_def found_tensor_def
      getTensorInfo_def isTensorOrderValid_def checkAndFix3DTensorOrder_def getHeight_def getWidth_def getChannels_def
      read_entry_def validateStorageOrder_def built_viewer_def build_def batch_check_def sanity_check_def getDataTypeSize_def)

lemma one_cell_get:
  assumes "length bs = 6" and "0 \<le> c" and "c < 6"
  shows "viewer_get (load_value no_float_bytes) (cell_viewer bs) c 0 0 = Inr (of_int (uint (bs ! nat c)))"
proof -
  have "sint (of_int c :: i32) = c" using assms by (simp add: signed_take_bit_int_eq_self sint_sbintrunc')
  then show ?thesis
    using assms by (simp add: viewer_get_def viewer_index_def cell_viewer_def tensor_info_def TensorInfo_default_def fits_int32_def
      load_value_def take_Suc_conv_app_nth Let_def)
qed

lemma one_cell_candidates:
  assumes "length bs = 6"
  shows "decode_free_candidates (load_value no_float_bytes) cell (one_class fam thr) (one_cell bs) =
     bindR (cell (one_class fam thr) (16, 16) 0 8 (viewer_get (load_value no_float_bytes) (cell_viewer bs)) 0 0)
       (\<lambda>r. Inr ((16, 16), case r of None \<Rightarrow> [] | Some c \<Rightarrow> [c]))"
proof -
  have d: "nn_data (one_cell bs) = bs" by (simp add: one_cell_def)
  have i: "input_size (one_cell bs) = Inr (16, 16)" by (simp add: one_cell_def input_size_def check_def)
  show ?thesis
    by (simp add: decode_free_candidates_def one_class_def one_cell_setup [OF assms] check_def i free_layer_def d add_found_def
        split: option.splits) (simp add: bindR_def split: sum.splits option.splits)
qed

lemma one_cell_end_to_end:
  assumes "length bs = 6"
  shows "decode_end_to_end_candidates (load_value no_float_bytes) (one_class fam thr) (one_cell bs) =
     bindR (end_to_end_cell (one_class fam thr) (16, 16) (viewer_get (load_value no_float_bytes) (cell_viewer bs)) 0)
       (\<lambda>r. Inr ((16, 16), Some (case r of None \<Rightarrow> [] | Some c \<Rightarrow> [c])))"
proof -
  have d: "nn_data (one_cell bs) = bs" by (simp add: one_cell_def)
  have i: "input_size (one_cell bs) = Inr (16, 16)" by (simp add: one_cell_def input_size_def check_def)
  show ?thesis
    by (simp add: decode_end_to_end_candidates_def one_class_def one_cell_setup [OF assms] check_def i d add_found_def
        split: option.splits) (simp add: bindR_def split: sum.splits option.splits)
qed

lemma upright_detection:
  assumes "in_image img c" and "0 < fst img" and "0 < snd img" and "\<not> (xmax c \<le> 1 \<and> ymax c \<le> 1)"
  obtains d where "createImgDetections [c] [] (fst img) (snd img) = Inr [d]" and "reports img c d"
  using createImgDetections_reports [of "[c]" img "[]"] assms(1-3) by (auto simp: list_all2_Cons1)

definition middle_candidate :: DetectionCandidate where
  "middle_candidate = \<lparr>xmin = 4, ymin = 4, xmax = 12, ymax = 12, score = 1, label = 0, headIndex = 0, rowIndex = 0, columnIndex = 0,
     labelName = None\<rparr>"

lemma one_class_simps:
  "confidenceThreshold (one_class fam thr) = thr" "decodingFamily (one_class fam thr) = fam" "num_classes (one_class fam thr) = 1"
  "classNames (one_class fam thr) = None" "decodeSegmentation (one_class fam thr) = False" "decodeKeypoints (one_class fam thr) = False"
  "outputNamesToUse (one_class fam thr) = []" "iouThreshold (one_class fam thr) = 1 / 2" "nKeypoints (one_class fam thr) = None"
  by (simp_all add: one_class_def)

lemma one_cell_class:
  assumes "length bs = 6"
  shows "best_class (viewer_get (load_value no_float_bytes) (cell_viewer bs)) 5 0 0 1 =
    Inr (0, of_int (uint (bs ! 5)))"
proof -
  have "viewer_get (load_value no_float_bytes) (cell_viewer bs) 5 0 0 = Inr (of_int (uint (bs ! 5)))"
    using one_cell_get [OF assms, of 5] by simp
  moreover have "uint (bs ! 5) = 0 \<or> 0 < uint (bs ! 5)" using order_le_less [of 0 "uint (bs ! 5)"] by auto
  ultimately show ?thesis by (auto simp: best_class_def better_def simp del: of_int_uint)
qed

lemma middle_decoded:
  "decode_free_candidates (load_value no_float_bytes) tlbr_cell (one_class TLBR (1 / 2)) (one_cell [0, 0, 1, 1, 1, 1]) =
   Inr ((16, 16), [middle_candidate])"
proof -
  have l: "length [0, 0, 1, 1, 1, 1 :: u8] = 6" by simp
  show ?thesis
    unfolding one_cell_candidates [OF l] tlbr_cell_def one_class_simps one_cell_class [OF l]
    by (simp add: one_cell_get [OF l] clamped_candidate_def to_range_def middle_candidate_def)
qed

lemma middle_reported:
  obtains d where "decodeYolo (load_value no_float_bytes) by_score segmentation (one_class TLBR (1 / 2)) (one_cell [0, 0, 1, 1, 1, 1]) = Inr [d]"
    and "reports (16, 16) middle_candidate d"
proof -
  have "in_image (16, 16) middle_candidate" by (simp add: in_image_def middle_candidate_def)
  then obtain d where d: "createImgDetections [middle_candidate] [] 16 16 = Inr [d]" "reports (16, 16) middle_candidate d"
    by (rule upright_detection) (simp_all add: middle_candidate_def)
  have "nonMaximumSuppression by_score [middle_candidate] (1 / 2) = [middle_candidate]"
    by (simp add: suppression_greedy by_score_def)
  with d show ?thesis
    by (intro that [of d])
       (simp_all add: decodeYolo_def one_class_simps decodeTLBR_def middle_decoded decode_suppressed_def report_def name_candidates_def)
qed

theorem decoded_detections_proper_witness:
  "\<exists>d. decodeYolo (load_value no_float_bytes) by_score (\<lambda>cs. Inr ()) (one_class TLBR (1 / 2)) (one_cell [0, 0, 1, 1, 1, 1]) = Inr [d] \<and>
       det_xmin d = 1 / 4 \<and> det_xmax d = 3 / 4 \<and> det_xmax d \<le> 1 \<and> 1 / 2 \<le> det_confidence d"
proof -
  obtain d where d: "decodeYolo (load_value no_float_bytes) by_score (\<lambda>cs. Inr ()) (one_class TLBR (1 / 2)) (one_cell [0, 0, 1, 1, 1, 1]) = Inr [d]"
    and r: "reports (16, 16) middle_candidate d"
    by (rule middle_reported)
  have c: "num_classes (one_class TLBR (1 / 2)) < 2 ^ 31" by (simp add: one_class_simps)
  from decoded_detections_proper [OF d by_score_sorts c] d r show ?thesis
    by (intro exI [of _ d]) (simp add: reports_def middle_candidate_def scaled_by_def one_class_simps)
qed

text \<open>
  An end-to-end model is reported below the threshold: only the objectness of a row is compared with it, the
  confidence that is reported is the best class probability, which may even be 0.
\<close>

theorem end_to_end_below_threshold:
  assumes "0 < thr" and "thr \<le> 1"
  shows "\<exists>d. decodeYolo (load_value no_float_bytes) by_score segmentation (one_class YOLO26 thr) (one_cell [4, 4, 12, 12, 1, 0]) = Inr [d] \<and>
    det_confidence d = 0"
proof -
  have l: "length [4, 4, 12, 12, 1, 0 :: u8] = 6" by simp
  let ?c = "middle_candidate\<lparr>score := 0\<rparr>"
  have found: "decode_end_to_end_candidates (load_value no_float_bytes) (one_class YOLO26 thr) (one_cell [4, 4, 12, 12, 1, 0]) =
      Inr ((16, 16), Some [?c])"
    using assms unfolding one_cell_end_to_end [OF l] end_to_end_cell_def one_class_simps one_cell_class [OF l]
    by (simp add: one_cell_get [OF l] clamped_candidate_def to_range_def middle_candidate_def)
  have "in_image (16, 16) ?c" by (simp add: in_image_def middle_candidate_def)
  then obtain d where d: "createImgDetections [?c] [] 16 16 = Inr [d]" "reports (16, 16) ?c d"
    by (rule upright_detection) (simp_all add: middle_candidate_def)
  have "topKFilter by_score [?c] 300 = [?c]" by (simp add: topKFilter_def by_score_def)
  with d found show ?thesis
    by (intro exI [of _ d])
       (simp add: decodeYolo_def one_class_simps decodeEndToEnd_def report_def name_candidates_def reports_def)
qed

text \<open>
  A box inside the first pixel of the image counts as normalized and is not divided by the image size: it is reported as
  if it covered the same share of the whole image.
\<close>

theorem first_pixel_box_not_scaled:
  assumes "in_image img c" and "0 < fst img" and "0 < snd img" and "xmax c \<le> 1" and "ymax c \<le> 1"
  shows "\<exists>d. createImgDetections [c] [] (fst img) (snd img) = Inr [d] \<and> det_xmax d = xmax c \<and> det_ymax d = ymax c"
  using createImgDetections_reports [of "[c]" img "[]"] assms by (auto simp: list_all2_Cons1 reports_def scaled_by_def)

text \<open>
  Once the image size is known (from the static input or from an earlier message), a YOLO message without a
  transformation reads an empty optional: the check for the transformation is made only while the size is unknown.
\<close>

theorem message_without_transformation:
  assumes "imgSizesSet s" and "nnFamily s = YOLO" and "nn_size nn = None" and "decodingFamily (parser s) = TLBR"
    and "length (head_strides (parser s)) = length (resolveLayerNames nn (outputNamesToUse (parser s)) ''_yolo'')"
  shows "parser_turn dec srt segmentation (Some nn) s = Inl (UndefinedBehaviour ''optional::operator->'')"
  using assms by (simp add: parser_turn_def Let_def decodeYolo_def decodeTLBR_def decode_suppressed_def decode_free_candidates_def
      check_def input_size_def)

section \<open>The order of an output\<close>

lemma same_order: "t = t\<lparr>ti_order := ti_order t\<rparr>"
  by (cases t) simp

definition channels_at :: "u32 \<Rightarrow> TensorInfo \<Rightarrow> TensorInfo \<Rightarrow> bool" where
  "channels_at n t t' \<longleftrightarrow>
     t' = t\<lparr>ti_order := ti_order t'\<rparr> \<and> named_entry (CHR ''C'') t' (ti_dims t') = n \<and>
     ti_order t' \<in> {CHW, HWC, HCW, NCHW, NHWC, NHCW} \<and> validateStorageOrder t' = Inr ()"

lemma fixed_3d:
  assumes "checkAndFix3DTensorOrder t i n = Some t'" and "(i, ti_order t) \<in> {(0, CHW), (2, HWC), (1, HCW)}"
  shows "channels_at n t t'"
  using assms same_order [of t]
  by (auto simp: checkAndFix3DTensorOrder_def channels_at_def named_entry_def valid_order numeral_2_eq_2 numeral_3_eq_3 split: if_splits)

lemma fixed_4d:
  assumes "checkAndFix4DTensorOrder t i n = Some t'" and "(i, ti_order t) \<in> {(1, NCHW), (3, NHWC), (2, NHCW)}"
  shows "channels_at n t t'"
  using assms same_order [of t]
  by (auto simp: checkAndFix4DTensorOrder_def channels_at_def named_entry_def valid_order numeral_2_eq_2 numeral_3_eq_3 split: if_splits)

text \<open>An accepted description differs in its order at most, and the order puts the channels at a dimension of the size asked for.\<close>

theorem accepted_order_has_channels:
  assumes "isTensorOrderValid t n = Some t'"
  shows "channels_at n t t'"
  using assms fixed_3d [of t _ n t'] fixed_4d [of t _ n t'] by (cases "ti_order t") (auto simp: isTensorOrderValid_def)

text \<open>
  The order NHCW is accepted by this test, but not by the view: instead of skipping the layer with a message, the decoder
  throws.
\<close>

theorem nhcw_accepted_then_refused:
  assumes "ti_order t = NHCW" and "length (ti_dims t) = 4" and "ti_dims t ! 2 = n"
  shows "isTensorOrderValid t n = Some t \<and> built_viewer t data = Inl (RuntimeError ''Failed to build NNDataViewer for layer'')"
  using assms by (simp add: isTensorOrderValid_def checkAndFix4DTensorOrder_def built_viewer_def build_def batch_check_def)

end
