(* ===== verification/LensModel.thy ===== *)
theory LensModel
  imports Complex_Main Matrices Calibration
begin

text \<open>
  The lens models (src/pipeline/utilities/Alignment/AlignmentUtilities.cpp): distortion and undistortion of rays for
  perspective and fisheye lenses. Floating-point numbers are real numbers; the largest float is \<open>FLT_MAX\<close>.
  A division by zero gives zero here, and an infinity or no number in the code.
\<close>

type_synonym ray = "real list"

definition kTiny :: real where
  "kTiny = 1 / 100000000"

definition FLT_MAX :: real where
  "FLT_MAX = (2 - 1 / 2 ^ 23) * 2 ^ 127"

definition coeffAt :: "real list \<Rightarrow> nat \<Rightarrow> real" where
  "coeffAt coeffs idx = (if idx < length coeffs then coeffs ! idx else 0)"

definition hasNonZeroDistortion :: "real list \<Rightarrow> bool" where
  "hasNonZeroDistortion coeffs = list_ex (\<lambda>v. \<bar>v\<bar> > 0) coeffs"

text \<open>Products of a fixed 3x3 array with a vector, and the division by the last coordinate.\<close>

definition mat_vec3 :: "real matrix \<Rightarrow> real list \<Rightarrow> real list" where
  "mat_vec3 m v = map (\<lambda>i. m!i!0 * v!0 + m!i!1 * v!1 + m!i!2 * v!2) [0..<3]"

definition dehomogenizePoint3 :: "real list \<Rightarrow> real list result" where
  "dehomogenizePoint3 p =
     (if \<bar>p!2\<bar> < 1 / 1000000 then Inl (RuntimeError ''Cannot dehomogenize point with z close to zero.'')
      else Inr [p!0 / p!2, p!1 / p!2, 1])"

section \<open>Tilt\<close>

definition makeRotXY :: "real \<Rightarrow> real \<Rightarrow> real matrix" where
  "makeRotXY tauX tauY =
     [[cos tauY, sin tauY * sin tauX, - sin tauY * cos tauX], [0, cos tauX, sin tauX], [sin tauY, - cos tauY * sin tauX, cos tauY * cos tauX]]"

definition makeTiltMatrix :: "real \<Rightarrow> real \<Rightarrow> real matrix" where
  "makeTiltMatrix tauX tauY =
     (let R = makeRotXY tauX tauY; r22 = R!2!2; r02 = R!0!2; r12 = R!1!2
      in matMulArray 3 [[r22, 0, - r02], [0, r22, - r12], [0, 0, 1]] R)"

definition makeInvTiltMatrix :: "real \<Rightarrow> real \<Rightarrow> real matrix" where
  "makeInvTiltMatrix tauX tauY =
     (let R = makeRotXY tauX tauY; r22 = R!2!2
      in if \<bar>r22\<bar> < kTiny then [[1, 0, 0], [0, 1, 0], [0, 0, 1]]
         else (let k = 1 / r22
               in matMulArray 3 [[R!0!0, R!1!0, R!2!0], [R!0!1, R!1!1, R!2!1], [R!0!2, R!1!2, R!2!2]]
                    [[k, 0, k * R!0!2], [0, k, k * R!1!2], [0, 0, 1]]))"

definition applyTilt :: "real \<Rightarrow> real \<Rightarrow> real \<Rightarrow> real \<Rightarrow> ray" where
  "applyTilt x y tauX tauY =
     (if tauX = 0 \<and> tauY = 0 then [x, y, 1]
      else (let tilted = mat_vec3 (makeTiltMatrix tauX tauY) [x, y, 1]
            in if \<bar>tilted!2\<bar> < kTiny then [tilted!0, tilted!1, 1] else [tilted!0 / tilted!2, tilted!1 / tilted!2, 1]))"

section \<open>Distortion\<close>

text \<open>The tangential and prism terms, which both directions add.\<close>

definition offset_x :: "real list \<Rightarrow> real \<Rightarrow> real \<Rightarrow> real" where
  "offset_x k x y =
     (let r2 = x * x + y * y in 2 * coeffAt k 2 * x * y + coeffAt k 3 * (r2 + 2 * x * x) + (coeffAt k 8 * r2 + coeffAt k 9 * (r2 * r2)))"

definition offset_y :: "real list \<Rightarrow> real \<Rightarrow> real \<Rightarrow> real" where
  "offset_y k x y =
     (let r2 = x * x + y * y in coeffAt k 2 * (r2 + 2 * y * y) + 2 * coeffAt k 3 * x * y + (coeffAt k 10 * r2 + coeffAt k 11 * (r2 * r2)))"

definition radial_num :: "real list \<Rightarrow> real \<Rightarrow> real" where
  "radial_num k r2 = 1 + coeffAt k 0 * r2 + coeffAt k 1 * (r2 * r2) + coeffAt k 4 * (r2 * r2 * r2)"

definition radial_den :: "real list \<Rightarrow> real \<Rightarrow> real" where
  "radial_den k r2 = 1 + coeffAt k 5 * r2 + coeffAt k 6 * (r2 * r2) + coeffAt k 7 * (r2 * r2 * r2)"

definition distortPerspective :: "ray \<Rightarrow> real list \<Rightarrow> ray" where
  "distortPerspective p k =
     (let x = p!0; y = p!1; r2 = x * x + y * y;
          den = radial_den k r2;
          safe = (if \<bar>den\<bar> < kTiny then (if den < 0 then - kTiny else kTiny) else den);
          radial = radial_num k r2 / safe
      in applyTilt (x * radial + offset_x k x y) (y * radial + offset_y k x y) (coeffAt k 12) (coeffAt k 13))"

definition fisheye_angle :: "real list \<Rightarrow> real \<Rightarrow> real" where
  "fisheye_angle k theta =
     (let t2 = theta * theta; t4 = t2 * t2; t6 = t4 * t2; t8 = t4 * t4
      in theta * (1 + coeffAt k 0 * t2 + coeffAt k 1 * t4 + coeffAt k 2 * t6 + coeffAt k 3 * t8))"

definition distortFisheye :: "ray \<Rightarrow> real list \<Rightarrow> ray" where
  "distortFisheye p k =
     (let x = p!0; y = p!1; r = sqrt (x * x + y * y)
      in if r = 0 then [x, y, 1]
         else (let scale = fisheye_angle k (arctan r) / r in [x * scale, y * scale, 1]))"

definition distortPoint :: "ray \<Rightarrow> CameraModel \<Rightarrow> real list \<Rightarrow> ray result" where
  "distortPoint p model coeffs =
     (if coeffs = [] \<or> \<not> hasNonZeroDistortion coeffs then Inr p
      else bindR (dehomogenizePoint3 p) (\<lambda>q.
        case model of
          Perspective \<Rightarrow> Inr (distortPerspective q coeffs)
        | Fisheye \<Rightarrow> Inr (distortFisheye q coeffs)
        | RadialDivision \<Rightarrow> Inl (InvalidArgument ''Unsupported distortion model: RadialDivision'')
        | Equirectangular \<Rightarrow> Inl (InvalidArgument ''Unsupported distortion model: Equirectangular'')))"

section \<open>Undistortion\<close>

text \<open>
  The search of \<open>undistortPerspective\<close>: at most \<open>fuel\<close> rounds (50 in the code) from the state of the loop: the point, the last
  error, the error of the last accepted point and the damping.
\<close>

record point_search =
  s_x :: real
  s_y :: real
  s_error :: real
  s_prevError :: real
  s_alpha :: real

definition proj_scale :: "real \<Rightarrow> real" where
  "proj_scale z = (if \<bar>z\<bar> > kTiny then 1 / z else 1)"

text \<open>Where the model sends a point, and how far that is from the target \<open>u, v\<close>.\<close>

definition reprojected :: "real list \<Rightarrow> real \<Rightarrow> real \<Rightarrow> real \<times> real" where
  "reprojected k x y =
     (let r2 = x * x + y * y; c = radial_num k r2 * (1 / radial_den k r2);
          tilted = mat_vec3 (makeTiltMatrix (coeffAt k 12) (coeffAt k 13)) [x * c + offset_x k x y, y * c + offset_y k x y, 1];
          s = proj_scale (tilted!2)
      in (s * tilted!0, s * tilted!1))"

definition reprojection_error :: "real list \<Rightarrow> real \<Rightarrow> real \<Rightarrow> real \<Rightarrow> real \<Rightarrow> real" where
  "reprojection_error k u v x y = (case reprojected k x y of (xd, yd) \<Rightarrow> sqrt ((xd - u)\<^sup>2 + (yd - v)\<^sup>2))"

definition undistort_step :: "real list \<Rightarrow> real \<Rightarrow> real \<Rightarrow> real \<Rightarrow> real \<Rightarrow> point_search \<Rightarrow> bool \<times> point_search" where
  "undistort_step k u v x0 y0 s =
     (let x = s_x s; y = s_y s; r2 = x * x + y * y;
          icdist = (1 + ((coeffAt k 7 * r2 + coeffAt k 6) * r2 + coeffAt k 5) * r2) / (1 + ((coeffAt k 4 * r2 + coeffAt k 1) * r2 + coeffAt k 0) * r2)
      in if icdist < 0 then (True, s\<lparr>s_x := u, s_y := v\<rparr>)
         else
           (let a = s_alpha s;
                newX = (1 - a) * x + a * (x0 - offset_x k x y) * icdist;
                newY = (1 - a) * y + a * (y0 - offset_y k x y) * icdist;
                err = reprojection_error k u v newX newY
            in (False,
                if err > s_prevError s then s\<lparr>s_error := err, s_alpha := a / 2\<rparr>
                else s\<lparr>s_x := newX, s_y := newY, s_error := err, s_prevError := err\<rparr>)))"

fun undistort_loop :: "nat \<Rightarrow> real list \<Rightarrow> real \<Rightarrow> real \<Rightarrow> real \<Rightarrow> real \<Rightarrow> point_search \<Rightarrow> point_search" where
  "undistort_loop 0 k u v x0 y0 s = s"
| "undistort_loop (Suc fuel) k u v x0 y0 s =
     (if s_error s < 1 / 100000000 then s
      else (case undistort_step k u v x0 y0 s of
              (stop, s') \<Rightarrow> if stop then s' else undistort_loop fuel k u v x0 y0 s'))"

definition undistortPerspective :: "ray \<Rightarrow> real list \<Rightarrow> ray" where
  "undistortPerspective p k =
     (let u = p!0 / p!2; v = p!1 / p!2;
          untilted = mat_vec3 (makeInvTiltMatrix (coeffAt k 12) (coeffAt k 13)) [u, v, 1];
          s = proj_scale (untilted!2);
          x0 = s * untilted!0; y0 = s * untilted!1;
          r = undistort_loop 50 k u v x0 y0 \<lparr>s_x = x0, s_y = y0, s_error = FLT_MAX, s_prevError = FLT_MAX, s_alpha = 1\<rparr>
      in [s_x r, s_y r, 1])"

fun newton :: "nat \<Rightarrow> real list \<Rightarrow> real \<Rightarrow> real \<Rightarrow> real" where
  "newton 0 k rd theta = theta"
| "newton (Suc fuel) k rd theta =
     (let t2 = theta * theta; t4 = t2 * t2; t6 = t4 * t2; t8 = t4 * t4;
          model = fisheye_angle k theta - rd;
          deriv = 1 + 3 * coeffAt k 0 * t2 + 5 * coeffAt k 1 * t4 + 7 * coeffAt k 2 * t6 + 9 * coeffAt k 3 * t8
      in if \<bar>deriv\<bar> < kTiny then theta
         else (let step = model / deriv
               in if \<bar>step\<bar> < 1 / 100000000 then theta - step else newton fuel k rd (theta - step)))"

definition undistortFisheye :: "ray \<Rightarrow> real list \<Rightarrow> ray" where
  "undistortFisheye p k =
     (let x = p!0; y = p!1; rd = sqrt (x * x + y * y)
      in if rd < kTiny then [x, y, 1]
         else (let scale = tan (newton 40 k rd rd) / rd in [x * scale, y * scale, 1]))"

definition undistortPoint :: "ray \<Rightarrow> CameraModel \<Rightarrow> real list \<Rightarrow> ray result" where
  "undistortPoint p model coeffs =
     (if coeffs = [] \<or> \<not> hasNonZeroDistortion coeffs then Inr p
      else case model of
             Perspective \<Rightarrow> Inr (undistortPerspective p coeffs)
           | Fisheye \<Rightarrow> Inr (undistortFisheye p coeffs)
           | RadialDivision \<Rightarrow> Inl (InvalidArgument ''Unsupported distortion model: RadialDivision'')
           | Equirectangular \<Rightarrow> Inl (InvalidArgument ''Unsupported distortion model: Equirectangular''))"

section \<open>Undistortion inverts distortion\<close>

text \<open>What the loop keeps: an error below the limit is the error of the point.\<close>

definition search_ok :: "real list \<Rightarrow> real \<Rightarrow> real \<Rightarrow> point_search \<Rightarrow> bool" where
  "search_ok k u v s \<longleftrightarrow>
     (s_error s < 1 / 100000000 \<longrightarrow> reprojection_error k u v (s_x s) (s_y s) < 1 / 100000000) \<and>
     (\<not> s_error s < 1 / 100000000 \<longrightarrow> \<not> s_prevError s < 1 / 100000000)"

lemma undistort_step_ok:
  assumes "undistort_step k u v x0 y0 s = (stop, s')" and "search_ok k u v s" and "\<not> s_error s < 1 / 100000000"
  shows "if stop then s_error s' = s_error s else search_ok k u v s'"
proof -
  have prev: "\<not> s_prevError s < 1 / 100000000" using assms(2,3) by (simp add: search_ok_def)
  from assms(1) consider (stop) "stop" "s_error s' = s_error s"
    | (rejected) e a where "\<not> stop" "s_prevError s < e" "s' = s\<lparr>s_error := e, s_alpha := a\<rparr>"
    | (accepted) nx ny where "\<not> stop"
        "s' = s\<lparr>s_x := nx, s_y := ny, s_error := reprojection_error k u v nx ny, s_prevError := reprojection_error k u v nx ny\<rparr>"
    unfolding undistort_step_def Let_def by (auto split: if_splits)
  then show ?thesis
  proof cases
    case rejected
    with prev show ?thesis by (auto simp: search_ok_def)
  qed (auto simp: search_ok_def)
qed

lemma undistort_loop_error:
  "search_ok k u v s \<Longrightarrow> s_error (undistort_loop fuel k u v x0 y0 s) < 1 / 100000000 \<Longrightarrow>
   reprojection_error k u v (s_x (undistort_loop fuel k u v x0 y0 s)) (s_y (undistort_loop fuel k u v x0 y0 s)) < 1 / 100000000"
proof (induction fuel arbitrary: s)
  case 0
  then show ?case by (simp add: search_ok_def)
next
  case (Suc fuel)
  show ?case
  proof (cases "s_error s < 1 / 100000000")
    case True
    with Suc.prems(1) show ?thesis by (simp add: search_ok_def)
  next
    case False
    obtain stop s' where st: "undistort_step k u v x0 y0 s = (stop, s')" by fastforce
    note ok = undistort_step_ok [OF st Suc.prems(1) False]
    show ?thesis
    proof (cases stop)
      case True
      with ok False Suc.prems(2) st show ?thesis by simp
    next
      case running: False
      with ok have "search_ok k u v s'" by simp
      from Suc.IH [OF this] Suc.prems(2) st running False show ?thesis by simp
    qed
  qed
qed

lemma no_tilt: "makeTiltMatrix 0 0 = [[1, 0, 0], [0, 1, 0], [0, 0, 1]]"
  by (simp add: makeTiltMatrix_def makeRotXY_def Let_def matMulArray_def upt3)

lemma reprojected_distorts:
  assumes "coeffAt k 12 = 0" and "coeffAt k 13 = 0" and "kTiny \<le> \<bar>radial_den k (x * x + y * y)\<bar>" and "q = [x, y, z]"
  shows "distortPerspective q k = [fst (reprojected k x y), snd (reprojected k x y), 1]"
proof -
  have "\<not> \<bar>radial_den k (x * x + y * y)\<bar> < kTiny" using assms(3) by simp
  moreover have "proj_scale 1 = 1" by (simp add: proj_scale_def)
  ultimately show ?thesis
    using assms(1,2) by (simp add: assms(4) distortPerspective_def reprojected_def Let_def applyTilt_def no_tilt mat_vec3_def upt3)
qed

text \<open>The state in which the search for a point starts.\<close>

definition search_begin :: "ray \<Rightarrow> real list \<Rightarrow> point_search" where
  "search_begin p k =
     (let untilted = mat_vec3 (makeInvTiltMatrix (coeffAt k 12) (coeffAt k 13)) [p!0 / p!2, p!1 / p!2, 1]; s = proj_scale (untilted!2)
      in \<lparr>s_x = s * untilted!0, s_y = s * untilted!1, s_error = FLT_MAX, s_prevError = FLT_MAX, s_alpha = 1\<rparr>)"

definition search_end :: "ray \<Rightarrow> real list \<Rightarrow> point_search" where
  "search_end p k =
     undistort_loop 50 k (p!0 / p!2) (p!1 / p!2) (s_x (search_begin p k)) (s_y (search_begin p k)) (search_begin p k)"

lemma undistort_result: "undistortPerspective p k = [s_x (search_end p k), s_y (search_end p k), 1]"
  by (simp add: undistortPerspective_def search_end_def search_begin_def Let_def)


text \<open>A lens with one radial coefficient, and the centre of the image: the first step finds the point.\<close>

lemma centre_found: "search_end [0, 0, 1] [1] = \<lparr>s_x = 0, s_y = 0, s_error = 0, s_prevError = 0, s_alpha = 1\<rparr>"
proof -
  let ?s = "\<lparr>s_x = 0, s_y = 0, s_error = FLT_MAX, s_prevError = FLT_MAX, s_alpha = 1\<rparr>"
  have t: "makeInvTiltMatrix 0 0 = [[1, 0, 0], [0, 1, 0], [0, 0, 1]]"
    by (simp add: makeInvTiltMatrix_def makeRotXY_def Let_def kTiny_def matMulArray_def upt3)
  then have start: "search_begin [0, 0, 1] [1] = ?s"
    by (simp add: search_begin_def Let_def coeffAt_def mat_vec3_def upt3)
  have e: "reprojection_error [1] 0 0 0 0 = 0"
    by (simp add: reprojection_error_def reprojected_def Let_def coeffAt_def no_tilt mat_vec3_def upt3 offset_x_def offset_y_def)
  have "undistort_step [1] 0 0 0 0 ?s = (False, ?s\<lparr>s_error := 0, s_prevError := 0\<rparr>)"
    by (simp add: undistort_step_def Let_def offset_x_def offset_y_def coeffAt_def e FLT_MAX_def)
  then show ?thesis
    unfolding search_end_def start by (simp add: eval_nat_numeral FLT_MAX_def)
qed


text \<open>Fisheye lenses: the undistorted point is distorted to the given one scaled by the residual of Newton's method.\<close>

lemma distortFisheye_at:
  assumes "sqrt (a * a + b * b) = r" and "0 < r"
  shows "distortFisheye [a, b, c] k = [a * (fisheye_angle k (arctan r) / r), b * (fisheye_angle k (arctan r) / r), 1]"
  using assms by (simp add: distortFisheye_def Let_def del: real_sqrt_eq_iff)

lemma scaled_norm: "0 \<le> s \<Longrightarrow> sqrt ((x * s) * (x * s) + (y * s) * (y * s)) = sqrt (x * x + y * y) * s" for s :: real
proof -
  assume "0 \<le> s"
  have "(x * s) * (x * s) + (y * s) * (y * s) = (x * x + y * y) * s\<^sup>2" by (simp add: power2_eq_square algebra_simps)
  then show ?thesis using \<open>0 \<le> s\<close> by (simp add: real_sqrt_mult del: real_sqrt_eq_iff)
qed

theorem fisheye_roundtrip_residual:
  assumes "0 < newton 40 k rd rd" and "newton 40 k rd rd < pi / 2" and "rd = sqrt (x * x + y * y)" and "kTiny \<le> rd"
  shows "distortFisheye (undistortFisheye [x, y, 1] k) k =
     [x * (fisheye_angle k (newton 40 k rd rd) / rd), y * (fisheye_angle k (newton 40 k rd rd) / rd), 1]"
proof -
  define th where "th = newton 40 k rd rd"
  have t: "0 < tan th" using assms(1,2) unfolding th_def by (rule tan_gt_zero)
  have rd: "0 < rd" using assms(4) by (simp add: kTiny_def)
  define s where "s = tan th / rd"
  have un: "undistortFisheye [x, y, 1] k = [x * s, y * s, 1]"
    using assms(3,4) by (simp add: undistortFisheye_def Let_def s_def th_def)
  have "sqrt ((x * s) * (x * s) + (y * s) * (y * s)) = rd * s"
    unfolding assms(3) by (rule scaled_norm) (use t rd in \<open>simp add: s_def\<close>)
  then have r: "sqrt ((x * s) * (x * s) + (y * s) * (y * s)) = tan th" using rd by (simp add: s_def)
  have a: "arctan (tan th) = th" using assms(1,2) unfolding th_def by (intro arctan_tan) auto
  have c: "w * s * (fisheye_angle k th / tan th) = w * (fisheye_angle k th / rd)" for w
    using t by (simp add: s_def)
  show ?thesis unfolding un distortFisheye_at [OF r t] a c th_def [symmetric] by simp
qed

end
