(* ===== verification/CameraExtrinsics.thy ===== *)
theory CameraExtrinsics
  imports ExtrinsicGraph
begin

text \<open>
  The extrinsics of an image (src/pipeline/datatype/Extrinsics.cpp, include/depthai/common/Extrinsics.hpp): the pose of a
  camera relative to a base camera, as a rotation and a translation in a length unit, and the transformation between two
  such poses. The record is the one of the calibration data.
\<close>

definition Extrinsics_of ::
  "'f::zero matrix \<Rightarrow> 'f Point3f \<Rightarrow> CameraBoardSocket \<Rightarrow> LengthUnit \<Rightarrow> 'f Extrinsics result" where
  "Extrinsics_of R t c u =
     (if \<not> is3x3 R then Inl (RuntimeError ''Rotation matrix must be 3x3.'')
      else Inr (Extrinsics_default\<lparr>translation := t, toCameraSocket := c, lengthUnit := u, rotationMatrix := R\<rparr>))"

definition validRotationMatrix :: "'f Extrinsics \<Rightarrow> bool" where
  "validRotationMatrix e = is3x3 (rotationMatrix e)"

definition getInverseRotationMatrix :: "'f::field Extrinsics \<Rightarrow> 'f matrix result" where
  "getInverseRotationMatrix e =
     (if \<not> validRotationMatrix e
      then Inl (RuntimeError ''Cannot compute inverse of invalid extrinsics rotation matrix. Please ensure the rotation matrix is properly set and is a valid rotation matrix.'')
      else bindR (vectorMatrixToMatrix3x3 (rotationMatrix e)) (\<lambda>R.
        bindR (getMatrixInverse3 R) (\<lambda>N. Inr (matrix3x3ToVectorMatrix N))))"

definition getTranslationInUnit :: "'f::field_char_0 Extrinsics \<Rightarrow> bool \<Rightarrow> LengthUnit \<Rightarrow> 'f Point3f" where
  "getTranslationInUnit e useSpec targetUnit =
     (let t = (if useSpec then specTranslation e else translation e);
          scale = getDistanceUnitScale targetUnit (lengthUnit e)
      in \<lparr>p_x = p_x t * scale, p_y = p_y t * scale, p_z = p_z t * scale\<rparr>)"

definition getTransformationMatrix :: "'f::field_char_0 Extrinsics \<Rightarrow> bool \<Rightarrow> LengthUnit \<Rightarrow> 'f matrix result" where
  "getTransformationMatrix e useSpec unit =
     (if \<not> validRotationMatrix e
      then Inl (RuntimeError ''The full extrinsics transformation matrix can only be obtained if both the rotation matrix and the translation vector are properly set. Please ensure that the rotation matrix is a valid rotation matrix and that the translation vector is set.'')
      else createTransformationMatrix (rotationMatrix e) (getTranslationInUnit e useSpec unit))"

definition getInverseTransformationMatrix :: "'f::field_char_0 Extrinsics \<Rightarrow> bool \<Rightarrow> LengthUnit \<Rightarrow> 'f matrix result" where
  "getInverseTransformationMatrix e useSpec unit =
     bindR (getTransformationMatrix e useSpec unit) (\<lambda>m. Inr (invertSe3Matrix4x4 m))"

text \<open>The two setters of the matrix: from a vector of vectors, which is checked, and from an array.\<close>

definition set_pose :: "'f matrix \<Rightarrow> LengthUnit \<Rightarrow> 'f Extrinsics \<Rightarrow> 'f Extrinsics" where
  "set_pose m unit e =
     e\<lparr>rotationMatrix := [[m!0!0, m!0!1, m!0!2], [m!1!0, m!1!1, m!1!2], [m!2!0, m!2!1, m!2!2]],
       translation := \<lparr>p_x = m!0!3, p_y = m!1!3, p_z = m!2!3\<rparr>, lengthUnit := unit\<rparr>"

definition setTransformationMatrix :: "'f::{zero,one} matrix \<Rightarrow> LengthUnit \<Rightarrow> 'f Extrinsics \<Rightarrow> 'f Extrinsics result" where
  "setTransformationMatrix m unit e =
     (if length m \<noteq> 4 \<or> list_ex (\<lambda>row. length row \<noteq> 4) m
      then Inl (RuntimeError ''Extrinsics transformation matrix must be 4x4.'')
      else if m!3!0 \<noteq> 0 \<or> m!3!1 \<noteq> 0 \<or> m!3!2 \<noteq> 0 \<or> m!3!3 \<noteq> 1
      then Inl (RuntimeError ''Extrinsics transformation matrix must have last row [0 0 0 1].'')
      else Inr (set_pose m unit e))"

definition setTransformationMatrix_array :: "'f matrix \<Rightarrow> LengthUnit \<Rightarrow> 'f Extrinsics \<Rightarrow> 'f Extrinsics" where
  "setTransformationMatrix_array m unit e = set_pose m unit e"

text \<open>The constructors from a matrix. The object does not exist when the setter throws.\<close>

definition Extrinsics_of_matrix :: "'f::{zero,one} matrix \<Rightarrow> CameraBoardSocket \<Rightarrow> LengthUnit \<Rightarrow> 'f Extrinsics result" where
  "Extrinsics_of_matrix m c u = setTransformationMatrix m u (Extrinsics_default\<lparr>toCameraSocket := c\<rparr>)"

definition Extrinsics_of_array :: "'f::zero matrix \<Rightarrow> CameraBoardSocket \<Rightarrow> LengthUnit \<Rightarrow> 'f Extrinsics" where
  "Extrinsics_of_array m c u = setTransformationMatrix_array m u (Extrinsics_default\<lparr>toCameraSocket := c\<rparr>)"

definition setTranslationVector :: "'f Point3f \<Rightarrow> LengthUnit \<Rightarrow> bool \<Rightarrow> 'f Extrinsics \<Rightarrow> 'f Extrinsics" where
  "setTranslationVector t unit useSpec e =
     (if useSpec then e\<lparr>specTranslation := t\<rparr> else e\<lparr>translation := t\<rparr>)\<lparr>lengthUnit := unit\<rparr>"

definition getTranslationVector :: "'f::field_char_0 Extrinsics \<Rightarrow> bool \<Rightarrow> LengthUnit \<Rightarrow> 'f list" where
  "getTranslationVector e useSpec unit =
     (let t = getTranslationInUnit e useSpec unit in [p_x t, p_y t, p_z t])"

definition isEqualExtrinsics :: "'f::{field_char_0,abs,ord} Extrinsics \<Rightarrow> 'f Extrinsics \<Rightarrow> 'f \<Rightarrow> bool" where
  "isEqualExtrinsics e f epsilon =
     (mateq epsilon (rotationMatrix e) (rotationMatrix f) \<and> toCameraSocket e = toCameraSocket f \<and>
      list_all (\<lambda>(a, b). \<not> \<bar>a - b\<bar> > epsilon) (zip (getTranslationVector e False CENTIMETER) (getTranslationVector f False CENTIMETER)))"

definition getExtrinsicsTransformationTo ::
  "'f::field_char_0 Extrinsics \<Rightarrow> 'f Extrinsics \<Rightarrow> bool \<Rightarrow> LengthUnit \<Rightarrow> 'f matrix result" where
  "getExtrinsicsTransformationTo e to useSpec sourceUnit =
     (if toCameraSocket e = AUTO \<or> toCameraSocket to = AUTO
      then Inl (RuntimeError ''Cannot get extrinsics transformation to or from an extrinsics with AUTO camera socket. Please specify the camera socket for both extrinsics.'')
      else if toCameraSocket e \<noteq> toCameraSocket to
      then Inl (RuntimeError ''Cannot get extrinsics to a transformation with a different base camera socket.'')
      else bindR (getTransformationMatrix e useSpec sourceUnit) (\<lambda>this.
        bindR (getInverseTransformationMatrix to useSpec sourceUnit) (\<lambda>inv_to.
          Inr (matMulArray 4 inv_to this))))"

section \<open>Poses compose\<close>

text \<open>The pose is a rigid motion when the rotation part is orthonormal.\<close>

definition pose_of :: "'f::field_char_0 Extrinsics \<Rightarrow> bool \<Rightarrow> LengthUnit \<Rightarrow> 'f matrix" where
  "pose_of e useSpec unit = projr (getTransformationMatrix e useSpec unit)"

definition posed :: "CameraBoardSocket \<Rightarrow> bool \<Rightarrow> LengthUnit \<Rightarrow> 'f::field_char_0 Extrinsics \<Rightarrow> bool" where
  "posed b useSpec unit e \<longleftrightarrow>
     toCameraSocket e = b \<and> validRotationMatrix e \<and> rigid (pose_of e useSpec unit)"

lemma matMulArray_prod:
  fixes A :: "'f::comm_ring_1 matrix"
  assumes "shape 4 4 A"
  shows "matMulArray 4 A B = prod_matrix A B 4 4"
proof -
  have f: "foldl (\<lambda>acc k. acc + g k) (0::'f) [0..<n] = (\<Sum>k<n. g k)" for g n
    by (induction n) simp_all
  have "map (\<lambda>row. map (\<lambda>j. \<Sum>k<4. row ! k * B ! k ! j) [0..<4]) A =
      map (\<lambda>i. map (\<lambda>j. \<Sum>k<4. A ! i ! k * B ! k ! j) [0..<4]) [0..<length A]"
    by (intro nth_equalityI) simp_all
  then show ?thesis using assms unfolding matMulArray_def prod_matrix_def f by (simp add: shape_def)
qed

lemma posed_pose:
  assumes "posed b useSpec unit e"
  shows "getTransformationMatrix e useSpec unit = Inr (pose_of e useSpec unit)"
  using assms by (simp add: posed_def pose_of_def getTransformationMatrix_def validRotationMatrix_def createTransformationMatrix_def)

lemma pose_inverse:
  assumes "posed b useSpec unit e"
  shows "getInverseTransformationMatrix e useSpec unit = Inr (invertSe3Matrix4x4 (pose_of e useSpec unit))"
    and "rigid (invertSe3Matrix4x4 (pose_of e useSpec unit))"
    and "prod_matrix (pose_of e useSpec unit) (invertSe3Matrix4x4 (pose_of e useSpec unit)) 4 4 = identity4"
    and "prod_matrix (invertSe3Matrix4x4 (pose_of e useSpec unit)) (pose_of e useSpec unit) 4 4 = identity4"
proof -
  show "getInverseTransformationMatrix e useSpec unit = Inr (invertSe3Matrix4x4 (pose_of e useSpec unit))"
    by (simp add: getInverseTransformationMatrix_def posed_pose [OF assms])
  have r: "rigid (pose_of e useSpec unit)" using assms by (simp add: posed_def)
  note inv = rigid_inverse [OF r invertSe3_agree [OF rigid_shape [OF r]]]
  show "rigid (invertSe3Matrix4x4 (pose_of e useSpec unit))"
    and "prod_matrix (pose_of e useSpec unit) (invertSe3Matrix4x4 (pose_of e useSpec unit)) 4 4 = identity4"
    and "prod_matrix (invertSe3Matrix4x4 (pose_of e useSpec unit)) (pose_of e useSpec unit) 4 4 = identity4"
    using inv by simp_all
qed

lemma transformation_to:
  assumes "b \<noteq> AUTO" and "posed b useSpec unit e" and "posed b useSpec unit f"
  shows "getExtrinsicsTransformationTo e f useSpec unit =
     Inr (prod_matrix (invertSe3Matrix4x4 (pose_of f useSpec unit)) (pose_of e useSpec unit) 4 4)"
  using assms posed_pose [OF assms(2)] pose_inverse(1,2) [OF assms(3)]
  by (simp add: getExtrinsicsTransformationTo_def posed_def matMulArray_prod rigid_shape)

text \<open>
  C27. Between poses relative to the same base camera every transformation is found and is a rigid motion; the one to itself
  is the identity, and going from one pose to a second and on to a third is going to the third directly.
\<close>

theorem pose_transformations_compose:
  fixes e :: "'f::field_char_0 Extrinsics"
  assumes "b \<noteq> AUTO" and "posed b useSpec unit e" and "posed b useSpec unit f" and "posed b useSpec unit g"
  shows "\<exists>m_ef m_fg m_eg. getExtrinsicsTransformationTo e f useSpec unit = Inr m_ef \<and>
     getExtrinsicsTransformationTo f g useSpec unit = Inr m_fg \<and> getExtrinsicsTransformationTo e g useSpec unit = Inr m_eg \<and>
     rigid m_ef \<and> matMulArray 4 m_fg m_ef = m_eg \<and> getExtrinsicsTransformationTo e e useSpec unit = Inr identity4"
proof -
  let ?E = "pose_of e useSpec unit" and ?F = "pose_of f useSpec unit" and ?G = "pose_of g useSpec unit"
  let ?iF = "invertSe3Matrix4x4 ?F" and ?iG = "invertSe3Matrix4x4 ?G"
  have r: "rigid ?E" "rigid ?F" "rigid ?G" using assms by (simp_all add: posed_def)
  note i = pose_inverse [OF assms(2)] pose_inverse [OF assms(3)] pose_inverse [OF assms(4)]
  have m: "rigid (prod_matrix ?iF ?E 4 4)" "rigid (prod_matrix ?iG ?F 4 4)"
    using r i by (simp_all add: rigid_prod)
  have "matMulArray 4 (prod_matrix ?iG ?F 4 4) (prod_matrix ?iF ?E 4 4) = prod_matrix ?iG ?E 4 4"
    unfolding matMulArray_prod [OF rigid_shape [OF m(2)]] by (rule rigid_cancel) (use r i in auto)
  then show ?thesis
    using m i(4) by (simp add: transformation_to [OF assms(1)] assms(2-4))
qed

lemma multiplier_nonzero: "getLengthUnitMultiplier u \<noteq> (0 :: 'f::field_char_0)"
  by (cases u) auto

lemma scale_same: "getDistanceUnitScale u u = (1 :: 'f::field_char_0)"
  by (simp add: getDistanceUnitScale_def multiplier_nonzero)

text \<open>A matrix that the setter accepts is the matrix that the getter returns in the same unit.\<close>

theorem stored_matrix_is_read_back:
  fixes m :: "'f::field_char_0 matrix"
  assumes "setTransformationMatrix m unit e = Inr e'"
  shows "getTransformationMatrix e' False unit = Inr m"
proof -
  from assms have "length m = 4" and "\<forall>row \<in> set m. length row = 4" and e': "e' = set_pose m unit e"
    and last: "m!3!0 = 0" "m!3!1 = 0" "m!3!2 = 0" "m!3!3 = 1"
    by (auto simp: setTransformationMatrix_def list_ex_iff split: if_splits)
  then have sh: "shape 4 4 m" by (simp add: shape_def)
  have "getTransformationMatrix e' False unit =
      Inr [[m!0!0, m!0!1, m!0!2, m!0!3], [m!1!0, m!1!1, m!1!2, m!1!3], [m!2!0, m!2!1, m!2!2, m!2!3], [0, 0, 0, 1]]"
    by (simp add: e' set_pose_def getTransformationMatrix_def validRotationMatrix_def is3x3_def createTransformationMatrix_def
        getTranslationInUnit_def scale_same numeral_2_eq_2)
  also have "[[m!0!0, m!0!1, m!0!2, m!0!3], [m!1!0, m!1!1, m!1!2, m!1!3], [m!2!0, m!2!1, m!2!2, m!2!3], [0, 0, 0, 1]] = m"
    by (rule shape_eqI [OF _ sh]) (use last in \<open>auto simp: shape_def less4 less3\<close>)
  finally show ?thesis .
qed

text \<open>
  The unit belongs to both translations: setting one of them in another unit changes the meaning of the other.
  Here the translation by design, one metre, becomes one centimetre.
\<close>

theorem setting_translation_rescales_design:
  assumes "lengthUnit e = METER" and "specTranslation e = \<lparr>p_x = 1, p_y = 0, p_z = 0\<rparr>"
  shows "getTranslationVector e True CENTIMETER = [100, 0, 0] \<and>
     getTranslationVector (setTranslationVector t CENTIMETER False e) True CENTIMETER = [1, 0, 0 :: 'f::field_char_0]"
  using assms by (simp add: getTranslationVector_def getTranslationInUnit_def setTranslationVector_def getDistanceUnitScale_def Let_def)

lemma quarter_turn_posed: "posed c us unit (quarter_turn c)"
proof -
  let ?k = "getDistanceUnitScale unit CENTIMETER :: rat"
  have "getTransformationMatrix (quarter_turn c) us unit = Inr [[0, -1, 0, ?k], [1, 0, 0, 2 * ?k], [0, 0, 1, 3 * ?k], [0, 0, 0, 1]]"
    by (simp add: getTransformationMatrix_def validRotationMatrix_def quarter_turn_def is3x3_def createTransformationMatrix_def
        getTranslationInUnit_def numeral_2_eq_2 Let_def)
  then show ?thesis
    by (auto simp: posed_def pose_of_def validRotationMatrix_def quarter_turn_def is3x3_def rigid_def shape_def less3 sum3)
qed

theorem pose_transformations_compose_witness:
  "\<exists>m. getExtrinsicsTransformationTo (quarter_turn CAM_A) (quarter_turn CAM_A) False METER = Inr m \<and> matMulArray 4 m m = m \<and> rigid m"
  using pose_transformations_compose [of CAM_A False METER "quarter_turn CAM_A" "quarter_turn CAM_A" "quarter_turn CAM_A",
      OF _ quarter_turn_posed quarter_turn_posed quarter_turn_posed] by auto

end
