(* ===== verification/ImageTransformations.thy ===== *)
theory ImageTransformations
  imports Complex_Main Matrices Calibration Tensors LensModel CameraExtrinsics
begin

text \<open>
  The geometry of an image (src/pipeline/datatype/ImgTransformations.cpp, include/depthai/common/ImgTransformations.hpp): the
  matrix from the source frame to the current one with its inverse, the intrinsics, distortion and pose of the camera, the
  sizes and the crops; the operations that add a crop, a padding, a flip, a rotation or a scale; and the mapping of points
  and rectangles between the frames of two images. Floating-point numbers are real numbers and the constants for \<open>pi\<close> are
  \<open>pi\<close>. The fit of the smallest rectangle around points (the port of OpenCV in src/utility/OCVPorts.cpp) is the argument
  \<open>fit\<close>. A function that throws gives \<open>Inl\<close>; the texts of the errors stop where the code prints a floating-point number.
\<close>

section \<open>Points, sizes and rectangles\<close>

record Point2f =
  pt_x :: real
  pt_y :: real
  pt_normalized :: bool
  pt_hasNormalized :: bool

definition point :: "real \<Rightarrow> real \<Rightarrow> Point2f" where
  "point x y = \<lparr>pt_x = x, pt_y = y, pt_normalized = False, pt_hasNormalized = False\<rparr>"

definition flagged_point :: "real \<Rightarrow> real \<Rightarrow> bool \<Rightarrow> Point2f" where
  "flagged_point x y n = \<lparr>pt_x = x, pt_y = y, pt_normalized = n, pt_hasNormalized = True\<rparr>"

text \<open>Without a flag, a pair is taken as normalized when it is in the unit square, but not at one of its corners.\<close>

definition isNormalized_pair :: "real \<Rightarrow> real \<Rightarrow> bool" where
  "isNormalized_pair x y =
     (if (x = 0 \<or> x = 1) \<and> (y = 0 \<or> y = 1) then False else x \<ge> 0 \<and> x \<le> 1 \<and> y \<ge> 0 \<and> y \<le> 1)"

definition isNormalized_point :: "Point2f \<Rightarrow> bool" where
  "isNormalized_point p = (if pt_hasNormalized p then pt_normalized p else isNormalized_pair (pt_x p) (pt_y p))"

record Size2f =
  sz_width :: real
  sz_height :: real
  sz_normalized :: bool
  sz_hasNormalized :: bool

definition size2f :: "real \<Rightarrow> real \<Rightarrow> Size2f" where
  "size2f w h = \<lparr>sz_width = w, sz_height = h, sz_normalized = False, sz_hasNormalized = False\<rparr>"

definition flagged_size :: "real \<Rightarrow> real \<Rightarrow> bool \<Rightarrow> Size2f" where
  "flagged_size w h n = \<lparr>sz_width = w, sz_height = h, sz_normalized = n, sz_hasNormalized = True\<rparr>"

definition isNormalized_size :: "Size2f \<Rightarrow> bool" where
  "isNormalized_size s = (if sz_hasNormalized s then sz_normalized s else isNormalized_pair (sz_width s) (sz_height s))"

record Rect2f =
  r_center :: Point2f
  r_size :: Size2f
  r_angle :: real

definition isNormalized_rect :: "Rect2f \<Rightarrow> bool result" where
  "isNormalized_rect r =
     (if isNormalized_size (r_size r) \<noteq> isNormalized_point (r_center r)
      then Inl (RuntimeError ''Cannot determine normalization as size and center have mixed normalization.'')
      else Inr (isNormalized_size (r_size r)))"

definition normalize_rect :: "Rect2f \<Rightarrow> int \<Rightarrow> int \<Rightarrow> Rect2f result" where
  "normalize_rect r w h =
     (if w = 0 \<or> h = 0 then Inl (RuntimeError ''Width and height must be non-zero to denormalize RotatedRect'')
      else bindR (isNormalized_rect r) (\<lambda>n. Inr
        (if n then r
         else r\<lparr>r_center := flagged_point (pt_x (r_center r) / of_int w) (pt_y (r_center r) / of_int h) True,
                r_size := flagged_size (sz_width (r_size r) / of_int w) (sz_height (r_size r) / of_int h) True\<rparr>)))"

definition denormalize_rect :: "Rect2f \<Rightarrow> int \<Rightarrow> int \<Rightarrow> bool \<Rightarrow> Rect2f result" where
  "denormalize_rect r w h force =
     (let denormalized = r\<lparr>r_center := flagged_point (pt_x (r_center r) * of_int w) (pt_y (r_center r) * of_int h) False,
                           r_size := flagged_size (sz_width (r_size r) * of_int w) (sz_height (r_size r) * of_int h) False\<rparr>
      in if w = 0 \<or> h = 0 then Inl (RuntimeError ''Width and height must be non-zero to denormalize RotatedRect'')
         else if force then Inr denormalized
         else bindR (isNormalized_rect r) (\<lambda>n. Inr (if n then denormalized else r)))"

definition rect_points :: "Rect2f \<Rightarrow> Point2f list" where
  "rect_points r =
     (let rad = r_angle r * pi / 180; hw = sz_width (r_size r) / 2; hh = sz_height (r_size r) / 2
      in map (\<lambda>(x, y). point (x * cos rad - y * sin rad + pt_x (r_center r)) (x * sin rad + y * cos rad + pt_y (r_center r)))
           [(- hw, - hh), (hw, - hh), (hw, hh), (- hw, hh)])"

text \<open>\<open>impl::getOuterRect\<close>: the bounds, as minimum and maximum of x and of y.\<close>

definition outer_bounds :: "(real \<times> real) list \<Rightarrow> real \<times> real \<times> real \<times> real" where
  "outer_bounds ps =
     (foldl min (fst (ps!0)) (map fst ps), foldl max (fst (ps!0)) (map fst ps),
      foldl min (snd (ps!0)) (map snd ps), foldl max (snd (ps!0)) (map snd ps))"

type_synonym fit = "(real \<times> real) list \<Rightarrow> Rect2f result"

definition isPointInRotatedRectangle :: "real \<times> real \<Rightarrow> Rect2f \<Rightarrow> bool" where
  "isPointInRotatedRectangle p r =
     (let theta = - r_angle r * pi / 180; hw = sz_width (r_size r) / 2; hh = sz_height (r_size r) / 2;
          ptx = fst p - pt_x (r_center r); pty = snd p - pt_y (r_center r);
          tx = cos theta * ptx + (- sin theta) * pty; ty = sin theta * ptx + cos theta * pty
      in \<bar>tx\<bar> \<le> hw \<and> \<bar>ty\<bar> \<le> hh)"

definition RRinRR :: "Rect2f \<Rightarrow> Rect2f \<Rightarrow> bool" where
  "RRinRR inner outer = list_all (\<lambda>p. isPointInRotatedRectangle (pt_x p, pt_y p) outer) (rect_points inner)"

section \<open>The state\<close>

text \<open>Sizes are of type \<open>size_t\<close>: numbers below 2^64, into which other numbers are converted by \<open>to_size\<close>.\<close>

record ImgTransformation =
  transformationMatrix :: "real matrix"
  transformationMatrixInv :: "real matrix"
  sourceIntrinsicMatrix :: "real matrix"
  sourceIntrinsicMatrixInv :: "real matrix"
  distortionModel :: CameraModel
  distortionCoefficients :: "real list"
  img_extrinsics :: "real Extrinsics"
  srcWidth :: int
  srcHeight :: int
  img_width :: int
  img_height :: int
  srcCrops :: "Rect2f list"
  srcCrop :: Rect2f
  dstCrop :: Rect2f
  cropsValid :: bool

definition to_size :: "int \<Rightarrow> int" where
  "to_size i = i mod 2 ^ 64"

definition unit3 :: "real matrix" where
  "unit3 = [[1, 0, 0], [0, 1, 0], [0, 0, 1]]"

definition Rect2f_default :: Rect2f where
  "Rect2f_default = \<lparr>r_center = point 0 0, r_size = size2f 0 0, r_angle = 0\<rparr>"

definition ImgTransformation_default :: ImgTransformation where
  "ImgTransformation_default =
     \<lparr>transformationMatrix = unit3, transformationMatrixInv = unit3, sourceIntrinsicMatrix = unit3, sourceIntrinsicMatrixInv = unit3,
      distortionModel = Perspective, distortionCoefficients = [], img_extrinsics = Extrinsics_default,
      srcWidth = 0, srcHeight = 0, img_width = 0, img_height = 0, srcCrops = [],
      srcCrop = Rect2f_default, dstCrop = Rect2f_default, cropsValid = False\<rparr>"

definition ImgTransformation_sizes :: "int \<Rightarrow> int \<Rightarrow> int \<Rightarrow> int \<Rightarrow> ImgTransformation" where
  "ImgTransformation_sizes sw sh w h =
     ImgTransformation_default\<lparr>srcWidth := sw, srcHeight := sh, img_width := w, img_height := h\<rparr>"

definition ImgTransformation_size :: "int \<Rightarrow> int \<Rightarrow> ImgTransformation" where
  "ImgTransformation_size w h = ImgTransformation_sizes w h w h"

definition ImgTransformation_intrinsics :: "int \<Rightarrow> int \<Rightarrow> real matrix \<Rightarrow> ImgTransformation result" where
  "ImgTransformation_intrinsics w h K =
     bindR (getMatrixInverse3 K) (\<lambda>N.
       Inr ((ImgTransformation_size w h)\<lparr>sourceIntrinsicMatrix := K, sourceIntrinsicMatrixInv := N\<rparr>))"

definition ImgTransformation_distorted ::
  "int \<Rightarrow> int \<Rightarrow> real matrix \<Rightarrow> CameraModel \<Rightarrow> real list \<Rightarrow> ImgTransformation result" where
  "ImgTransformation_distorted w h K model coeffs =
     bindR (getMatrixInverse3 K) (\<lambda>N.
       Inr ((ImgTransformation_size w h)\<lparr>sourceIntrinsicMatrix := K, distortionModel := model, distortionCoefficients := coeffs,
              sourceIntrinsicMatrixInv := N\<rparr>))"

definition ImgTransformation_posed ::
  "int \<Rightarrow> int \<Rightarrow> real matrix \<Rightarrow> CameraModel \<Rightarrow> real list \<Rightarrow> real Extrinsics \<Rightarrow> ImgTransformation result" where
  "ImgTransformation_posed w h K model coeffs e =
     bindR (getMatrixInverse3 K) (\<lambda>N.
       Inr ((ImgTransformation_size w h)\<lparr>sourceIntrinsicMatrix := K, distortionModel := model, distortionCoefficients := coeffs,
              img_extrinsics := e, sourceIntrinsicMatrixInv := N\<rparr>))"

text \<open>The getters that compute; the others are the fields.\<close>

definition getSize :: "ImgTransformation \<Rightarrow> int \<times> int" where
  "getSize t = (img_width t, img_height t)"

definition getSourceSize :: "ImgTransformation \<Rightarrow> int \<times> int" where
  "getSourceSize t = (srcWidth t, srcHeight t)"

definition getIntrinsicMatrix :: "ImgTransformation \<Rightarrow> real matrix" where
  "getIntrinsicMatrix t = matMulArray 3 (transformationMatrix t) (sourceIntrinsicMatrix t)"

definition getIntrinsicMatrixInv :: "ImgTransformation \<Rightarrow> real matrix" where
  "getIntrinsicMatrixInv t = matMulArray 3 (sourceIntrinsicMatrixInv t) (transformationMatrixInv t)"

definition isValid :: "ImgTransformation \<Rightarrow> bool" where
  "isValid t = (srcWidth t > 0 \<and> srcHeight t > 0 \<and> img_width t > 0 \<and> img_height t > 0)"

definition MATRIX_EQ_EPSILON :: real where
  "MATRIX_EQ_EPSILON = 1 / 1000000"

definition isEqualTransformation :: "ImgTransformation \<Rightarrow> ImgTransformation \<Rightarrow> bool" where
  "isEqualTransformation t u =
     (mateq MATRIX_EQ_EPSILON (getIntrinsicMatrix t) (getIntrinsicMatrix u) \<and>
      mateq MATRIX_EQ_EPSILON (sourceIntrinsicMatrix t) (sourceIntrinsicMatrix u) \<and>
      distortionModel t = distortionModel u \<and> distortionCoefficients t = distortionCoefficients u \<and>
      isEqualExtrinsics (img_extrinsics t) (img_extrinsics u) (1 / 1000000) \<and>
      getSize t = getSize u \<and> getSourceSize t = getSourceSize u)"

definition ROUND_UP_EPS :: real where
  "ROUND_UP_EPS = 1 / 1000"

definition approxEqual :: "real \<Rightarrow> real \<Rightarrow> bool" where
  "approxEqual a b = (\<bar>a - b\<bar> \<le> ROUND_UP_EPS + 2 * ROUND_UP_EPS * max \<bar>a\<bar> \<bar>b\<bar>)"

definition isAlignedTo :: "ImgTransformation \<Rightarrow> ImgTransformation \<Rightarrow> bool" where
  "isAlignedTo t to =
     (if img_width t \<noteq> img_width to \<or> img_height t \<noteq> img_height to then False
      else if distortionModel t \<noteq> distortionModel to then False
      else list_all (\<lambda>i. approxEqual (coeffAt (distortionCoefficients t) i) (coeffAt (distortionCoefficients to) i))
             [0..<max (length (distortionCoefficients t)) (length (distortionCoefficients to))] \<and>
           list_all (\<lambda>i. list_all (\<lambda>j. approxEqual (getIntrinsicMatrix to ! i ! j) (getIntrinsicMatrix t ! i ! j)) [0..<3]) [0..<3])"

section \<open>Fields of view\<close>

definition getHFov :: "ImgTransformation \<Rightarrow> bool \<Rightarrow> real" where
  "getHFov t source =
     (let fx = (if source then sourceIntrinsicMatrix t else getIntrinsicMatrix t) ! 0 ! 0;
          fovWidth = of_int (if source then srcWidth t else img_width t)
      in 2 * arctan (fovWidth / (2 * fx)) * 180 / pi)"

definition getVFov :: "ImgTransformation \<Rightarrow> bool \<Rightarrow> real" where
  "getVFov t source =
     (let fy = (if source then sourceIntrinsicMatrix t else getIntrinsicMatrix t) ! 1 ! 1;
          fovHeight = of_int (if source then srcHeight t else img_height t)
      in 2 * arctan (fovHeight / (2 * fy)) * 180 / pi)"

definition getDFov :: "ImgTransformation \<Rightarrow> bool \<Rightarrow> real result" where
  "getDFov t source =
     (let fovWidth = of_int (if source then srcWidth t else img_width t); fovHeight = of_int (if source then srcHeight t else img_height t)
      in if fovHeight \<le> 0 then Inl (RuntimeError (''fovHeight is invalid. Height: '' @ dec_int (img_height t)))
         else if fovWidth \<le> 0 then Inl (RuntimeError (''fovWidth is invalid. Width: '' @ dec_int (img_width t)))
         else (let hfov = getHFov t source; dr = sqrt (fovWidth\<^sup>2 + fovHeight\<^sup>2)
               in if hfov \<le> 0 \<or> hfov \<ge> 180 then Inl (RuntimeError ''Horizontal FOV is invalid. Horizontal FOV: '')
                  else Inr (2 * arctan (dr / fovWidth * tan (hfov * (pi / 180) / 2)) * (180 / pi))))"

section \<open>Points between the source frame and the current one\<close>

definition map_point :: "real matrix \<Rightarrow> Point2f \<Rightarrow> Point2f result" where
  "map_point M p = bindR (dehomogenizePoint3 (mat_vec3 M [pt_x p, pt_y p, 1])) (\<lambda>q. Inr (point (q!0) (q!1)))"

definition transformPoint :: "ImgTransformation \<Rightarrow> Point2f \<Rightarrow> Point2f result" where
  "transformPoint t p = map_point (transformationMatrix t) p"

definition invTransformPoint :: "ImgTransformation \<Rightarrow> Point2f \<Rightarrow> Point2f result" where
  "invTransformPoint t p = map_point (transformationMatrixInv t) p"

definition map_rect :: "fit \<Rightarrow> (Point2f \<Rightarrow> Point2f result) \<Rightarrow> Rect2f \<Rightarrow> Rect2f result" where
  "map_rect fit f r = bindR (mapR f (rect_points r)) (\<lambda>ps. fit (map (\<lambda>p. (pt_x p, pt_y p)) ps))"

definition transformRect :: "fit \<Rightarrow> ImgTransformation \<Rightarrow> Rect2f \<Rightarrow> Rect2f result" where
  "transformRect fit t r = map_rect fit (transformPoint t) r"

definition invTransformRect :: "fit \<Rightarrow> ImgTransformation \<Rightarrow> Rect2f \<Rightarrow> Rect2f result" where
  "invTransformRect fit t r = map_rect fit (invTransformPoint t) r"

section \<open>Operations\<close>

text \<open>An operation gives the state it leaves and, when it throws, the error.\<close>

type_synonym upd = "ImgTransformation \<times> unit result"

definition and_then :: "upd \<Rightarrow> (ImgTransformation \<Rightarrow> upd) \<Rightarrow> upd" where
  "and_then u f = (case u of (t, Inl e) \<Rightarrow> (t, Inl e) | (t, Inr _) \<Rightarrow> f t)"

definition addTransformation :: "real matrix \<Rightarrow> ImgTransformation \<Rightarrow> upd" where
  "addTransformation m t =
     (let t1 = t\<lparr>transformationMatrix := matMulArray 3 m (transformationMatrix t)\<rparr>
      in case getMatrixInverse3 (transformationMatrix t1) of
           Inl e \<Rightarrow> (t1, Inl e)
         | Inr N \<Rightarrow> (t1\<lparr>transformationMatrixInv := N, cropsValid := False\<rparr>, Inr ()))"

definition shift_matrix :: "real \<Rightarrow> real \<Rightarrow> real matrix" where
  "shift_matrix x y = [[1, 0, x], [0, 1, y], [0, 0, 1]]"

definition addCrop :: "fit \<Rightarrow> int \<Rightarrow> int \<Rightarrow> int \<Rightarrow> int \<Rightarrow> ImgTransformation \<Rightarrow> upd" where
  "addCrop fit x y w h t =
     (let t1 = t\<lparr>img_width := to_size w, img_height := to_size h\<rparr>
      in and_then (if x \<noteq> 0 \<or> y \<noteq> 0 then addTransformation (shift_matrix (of_int (- x)) (of_int (- y))) t1 else (t1, Inr ()))
           (\<lambda>t2. let corners = [[0, 0, 1], [of_int w, 0, 1], [of_int w, of_int h, 1], [0, of_int h, 1]]
                 in case bindR (mapR (\<lambda>c. dehomogenizePoint3 (mat_vec3 (transformationMatrix t2) c)) corners)
                           (\<lambda>cs. fit (map (\<lambda>c. (c!0, c!1)) cs)) of
                      Inl e \<Rightarrow> (t2, Inl e)
                    | Inr r \<Rightarrow> (t2\<lparr>srcCrops := srcCrops t2 @ [r], cropsValid := False\<rparr>, Inr ())))"

definition addPadding :: "int \<Rightarrow> int \<Rightarrow> int \<Rightarrow> int \<Rightarrow> ImgTransformation \<Rightarrow> upd" where
  "addPadding p_top p_bottom p_left p_right t =
     (let t1 = t\<lparr>img_width := to_size (img_width t + (p_left + p_right)), img_height := to_size (img_height t + (p_top + p_bottom))\<rparr>
      in and_then (if p_top \<noteq> 0 \<or> p_left \<noteq> 0 then addTransformation (shift_matrix (of_int p_left) (of_int p_top)) t1 else (t1, Inr ()))
           (\<lambda>t2. (t2\<lparr>cropsValid := False\<rparr>, Inr ())))"

text \<open>Flips and rotations shift a point to the origin, act, and shift it back.\<close>

definition around :: "real \<Rightarrow> real \<Rightarrow> real matrix \<Rightarrow> ImgTransformation \<Rightarrow> upd" where
  "around x y m t =
     and_then (and_then (addTransformation (shift_matrix (- x) (- y)) t) (addTransformation m)) (addTransformation (shift_matrix x y))"

definition addFlipVertical :: "ImgTransformation \<Rightarrow> upd" where
  "addFlipVertical t = around (of_int (img_width t) / 2) (of_int (img_height t) / 2) [[1, 0, 0], [0, -1, 0], [0, 0, 1]] t"

definition addFlipHorizontal :: "ImgTransformation \<Rightarrow> upd" where
  "addFlipHorizontal t = around (of_int (img_width t) / 2) (of_int (img_height t) / 2) [[-1, 0, 0], [0, 1, 0], [0, 0, 1]] t"

definition addRotation :: "real \<Rightarrow> Point2f \<Rightarrow> ImgTransformation \<Rightarrow> upd" where
  "addRotation angle p t =
     (let rad = angle * pi / 180;
          p = (if isNormalized_point p
               then p\<lparr>pt_x := pt_x p * of_int (img_width t), pt_y := pt_y p * of_int (img_height t), pt_normalized := False\<rparr> else p)
      in around (pt_x p) (pt_y p) [[cos rad, - sin rad, 0], [sin rad, cos rad, 0], [0, 0, 1]] t)"

text \<open>The new sizes are cut to integers; beyond what a size can hold the conversion is undefined in the code.\<close>

definition addScale :: "real \<Rightarrow> real \<Rightarrow> ImgTransformation \<Rightarrow> upd" where
  "addScale scaleX scaleY t =
     addTransformation [[scaleX, 0, 0], [0, scaleY, 0], [0, 0, 1]]
       (t\<lparr>img_width := to_size (truncated (of_int (img_width t) * scaleX + ROUND_UP_EPS)),
          img_height := to_size (truncated (of_int (img_height t) * scaleY + ROUND_UP_EPS))\<rparr>)"

definition addSrcCrops :: "Rect2f list \<Rightarrow> ImgTransformation \<Rightarrow> ImgTransformation" where
  "addSrcCrops cs t = t\<lparr>srcCrops := srcCrops t @ cs, cropsValid := False\<rparr>"

definition setSize :: "int \<Rightarrow> int \<Rightarrow> ImgTransformation \<Rightarrow> ImgTransformation" where
  "setSize w h t = t\<lparr>img_width := w, img_height := h\<rparr>"

definition setSourceSize :: "int \<Rightarrow> int \<Rightarrow> ImgTransformation \<Rightarrow> ImgTransformation" where
  "setSourceSize w h t = t\<lparr>srcWidth := w, srcHeight := h\<rparr>"

definition setIntrinsicMatrix :: "real matrix \<Rightarrow> ImgTransformation \<Rightarrow> upd" where
  "setIntrinsicMatrix K t =
     (case getMatrixInverse3 K of
        Inl e \<Rightarrow> (t\<lparr>sourceIntrinsicMatrix := K\<rparr>, Inl e)
      | Inr N \<Rightarrow> (t\<lparr>sourceIntrinsicMatrix := K, sourceIntrinsicMatrixInv := N\<rparr>, Inr ()))"

definition setExtrinsics :: "real Extrinsics \<Rightarrow> ImgTransformation \<Rightarrow> ImgTransformation" where
  "setExtrinsics e t = t\<lparr>img_extrinsics := e\<rparr>"

definition setDistortionModel :: "CameraModel \<Rightarrow> ImgTransformation \<Rightarrow> ImgTransformation" where
  "setDistortionModel m t = t\<lparr>distortionModel := m\<rparr>"

definition setDistortionCoefficients_img :: "real list \<Rightarrow> ImgTransformation \<Rightarrow> ImgTransformation" where
  "setDistortionCoefficients_img cs t = t\<lparr>distortionCoefficients := cs\<rparr>"

section \<open>Crops and masks\<close>

text \<open>
  The region of the source that the crops leave, as left, right, top and bottom; a crop narrows it to the whole pixels
  around its outer rectangle. The width of the source is cut to 32 bits.
\<close>

definition narrow :: "int \<Rightarrow> int \<Rightarrow> int \<times> int \<times> int \<times> int \<Rightarrow> Rect2f \<Rightarrow> int \<times> int \<times> int \<times> int" where
  "narrow inWidth inHeight region crop =
     (case region of (sourceMinX, sourceMaxX, sourceMinY, sourceMaxY) \<Rightarrow>
      case outer_bounds (map (\<lambda>p. (pt_x p, pt_y p)) (rect_points crop)) of (minx, maxx, miny, maxy) \<Rightarrow>
        (max sourceMinX (to_size \<lfloor>max minx 0\<rfloor>), min sourceMaxX (to_size \<lceil>min maxx (of_int inWidth)\<rceil>),
         max sourceMinY (to_size \<lfloor>max miny 0\<rfloor>), min sourceMaxY (to_size \<lceil>min maxy (of_int inHeight)\<rceil>)))"

definition calcCrops :: "fit \<Rightarrow> ImgTransformation \<Rightarrow> upd" where
  "calcCrops fit t =
     (if cropsValid t then (t, Inr ())
      else
        (let inWidth = srcWidth t mod 2 ^ 32; inHeight = srcHeight t mod 2 ^ 32
         in case foldl (narrow inWidth inHeight) (0, inWidth, 0, inHeight) (srcCrops t) of
              (sourceMinX, sourceMaxX, sourceMinY, sourceMaxY) \<Rightarrow>
                (let crop = \<lparr>r_center = point (of_int (to_size (sourceMinX + sourceMaxX)) / 2) (of_int (to_size (sourceMinY + sourceMaxY)) / 2),
                             r_size = size2f (of_int (to_size (sourceMaxX - sourceMinX))) (of_int (to_size (sourceMaxY - sourceMinY))),
                             r_angle = 0\<rparr>;
                     t1 = t\<lparr>srcCrop := crop\<rparr>
                 in case transformRect fit t1 crop of
                      Inl e \<Rightarrow> (t1, Inl e)
                    | Inr d \<Rightarrow> (t1\<lparr>dstCrop := d, cropsValid := True\<rparr>, Inr ()))))"

definition getSrcMaskPt :: "fit \<Rightarrow> int \<Rightarrow> int \<Rightarrow> ImgTransformation \<Rightarrow> ImgTransformation \<times> bool result" where
  "getSrcMaskPt fit x y t =
     (case calcCrops fit t of
        (t1, Inl e) \<Rightarrow> (t1, Inl e)
      | (t1, Inr _) \<Rightarrow> (t1, Inr (isPointInRotatedRectangle (of_int x, of_int y) (srcCrop t1))))"

definition getDstMaskPt :: "fit \<Rightarrow> int \<Rightarrow> int \<Rightarrow> ImgTransformation \<Rightarrow> ImgTransformation \<times> bool result" where
  "getDstMaskPt fit x y t =
     (case calcCrops fit t of
        (t1, Inl e) \<Rightarrow> (t1, Inl e)
      | (t1, Inr _) \<Rightarrow> (t1, Inr (isPointInRotatedRectangle (of_int x, of_int y) (dstCrop t1))))"

section \<open>Between two images\<close>

definition getExtrinsicsTransformationMatrixTo :: "ImgTransformation \<Rightarrow> ImgTransformation \<Rightarrow> bool \<Rightarrow> LengthUnit \<Rightarrow> real matrix result" where
  "getExtrinsicsTransformationMatrixTo t to useSpec unit =
     getExtrinsicsTransformationTo (img_extrinsics t) (img_extrinsics to) useSpec unit"

definition getRotationMatrixFromProjection4x4 :: "real matrix \<Rightarrow> real matrix" where
  "getRotationMatrixFromProjection4x4 m = map (\<lambda>i. map (\<lambda>j. m!i!j) [0..<3]) [0..<3]"

definition getRotationMatrixTo :: "ImgTransformation \<Rightarrow> ImgTransformation \<Rightarrow> real matrix result" where
  "getRotationMatrixTo t to =
     bindR (getExtrinsicsTransformationMatrixTo t to False CENTIMETER) (\<lambda>m. Inr (map (\<lambda>i. map (\<lambda>j. m!i!j) [0..<3]) [0..<3]))"

definition getTranslationVectorTo :: "ImgTransformation \<Rightarrow> ImgTransformation \<Rightarrow> bool \<Rightarrow> LengthUnit \<Rightarrow> real list result" where
  "getTranslationVectorTo t to useSpec unit =
     bindR (getExtrinsicsTransformationMatrixTo t to useSpec unit) (\<lambda>m. Inr [m!0!3, m!1!3, m!2!3])"

definition mat_vec4 :: "real matrix \<Rightarrow> real list \<Rightarrow> real list" where
  "mat_vec4 m v = map (\<lambda>i. m!i!0 * v!0 + m!i!1 * v!1 + m!i!2 * v!2 + m!i!3 * v!3) [0..<4]"

definition transformPoint3f :: "real matrix \<Rightarrow> real Point3f \<Rightarrow> real Point3f result" where
  "transformPoint3f m p =
     bindR (dehomogenizePoint4 (1 / 1000000) (mat_vec4 m [p_x p, p_y p, p_z p, 1])) (\<lambda>q. Inr \<lparr>p_x = q!0, p_y = q!1, p_z = q!2\<rparr>)"

definition pixelToRay :: "Point2f \<Rightarrow> ImgTransformation \<Rightarrow> ray result" where
  "pixelToRay px t =
     bindR (undistortPoint (mat_vec3 (sourceIntrinsicMatrixInv t) [pt_x px, pt_y px, 1]) (distortionModel t) (distortionCoefficients t))
       (\<lambda>u. Inr [u!0 / u!2, u!1 / u!2, 1])"

definition rayToPixel :: "ray \<Rightarrow> ImgTransformation \<Rightarrow> Point2f result" where
  "rayToPixel ray t =
     bindR (distortPoint ray (distortionModel t) (distortionCoefficients t)) (\<lambda>d.
       (let q = mat_vec3 (sourceIntrinsicMatrix t) [d!0 / d!2, d!1 / d!2, 1] in Inr (point (q!0 / q!2) (q!1 / q!2))))"

definition rotation_between :: "ImgTransformation \<Rightarrow> ImgTransformation \<Rightarrow> real matrix result" where
  "rotation_between from to =
     (if toCameraSocket (img_extrinsics from) \<noteq> AUTO \<and> toCameraSocket (img_extrinsics to) \<noteq> AUTO
      then bindR (getExtrinsicsTransformationMatrixTo from to False CENTIMETER) (\<lambda>m. Inr (getRotationMatrixFromProjection4x4 m))
      else Inr unit3)"

definition interSourceFrameTransform :: "Point2f \<Rightarrow> ImgTransformation \<Rightarrow> ImgTransformation \<Rightarrow> Point2f result" where
  "interSourceFrameTransform p from to =
     (if isEqualTransformation from to then Inr p
      else bindR (pixelToRay p from) (\<lambda>ray. bindR (rotation_between from to) (\<lambda>R. rayToPixel (mat_vec3 R ray) to)))"

definition interSourceFrameTransform_rect :: "fit \<Rightarrow> Rect2f \<Rightarrow> ImgTransformation \<Rightarrow> ImgTransformation \<Rightarrow> Rect2f result" where
  "interSourceFrameTransform_rect fit r from to =
     (if isEqualTransformation from to then Inr r else map_rect fit (\<lambda>p. interSourceFrameTransform p from to) r)"

definition pixels_of :: "ImgTransformation \<Rightarrow> Point2f \<Rightarrow> Point2f" where
  "pixels_of t p =
     (if isNormalized_point p
      then p\<lparr>pt_x := pt_x p * of_int (img_width t), pt_y := pt_y p * of_int (img_height t), pt_normalized := False\<rparr> else p)"

definition normalized_for :: "ImgTransformation \<Rightarrow> bool \<Rightarrow> Point2f \<Rightarrow> Point2f" where
  "normalized_for t n q =
     (if n then \<lparr>pt_x = pt_x q / of_int (img_width t), pt_y = pt_y q / of_int (img_height t), pt_normalized = True, pt_hasNormalized = True\<rparr>
      else q)"

definition remapPointTo :: "ImgTransformation \<Rightarrow> ImgTransformation \<Rightarrow> Point2f \<Rightarrow> Point2f result" where
  "remapPointTo t to p =
     bindR (invTransformPoint t (pixels_of t p)) (\<lambda>s. bindR (interSourceFrameTransform s t to) (\<lambda>s'.
       bindR (transformPoint to s') (\<lambda>q. Inr (normalized_for to (isNormalized_point p) q))))"

definition remapPointFrom :: "ImgTransformation \<Rightarrow> ImgTransformation \<Rightarrow> Point2f \<Rightarrow> Point2f result" where
  "remapPointFrom t from p = remapPointTo from t p"

definition remapRectTo :: "fit \<Rightarrow> ImgTransformation \<Rightarrow> ImgTransformation \<Rightarrow> Rect2f \<Rightarrow> Rect2f result" where
  "remapRectTo fit t to rect =
     bindR (isNormalized_rect rect) (\<lambda>n.
       bindR (if n then denormalize_rect rect (img_width t mod 2 ^ 32) (img_height t mod 2 ^ 32) False else Inr rect) (\<lambda>r.
         bindR (map_rect fit (remapPointTo t to) r) (\<lambda>q.
           if n then normalize_rect q (img_width to mod 2 ^ 32) (img_height to mod 2 ^ 32) else Inr q)))"

definition remapRectFrom :: "fit \<Rightarrow> ImgTransformation \<Rightarrow> ImgTransformation \<Rightarrow> Rect2f \<Rightarrow> Rect2f result" where
  "remapRectFrom fit t from rect = remapRectTo fit from t rect"

definition projectPointTo :: "ImgTransformation \<Rightarrow> ImgTransformation \<Rightarrow> Point2f \<Rightarrow> real \<Rightarrow> Point2f result" where
  "projectPointTo t to p depth =
     (if depth \<le> 0 then Inl (RuntimeError ''Depth must be greater than 0. Provided depth: '')
      else bindR (invTransformPoint t (pixels_of t p)) (\<lambda>s. bindR (pixelToRay s t) (\<lambda>ray.
        bindR (getExtrinsicsTransformationMatrixTo t to False MILLIMETER) (\<lambda>m.
        bindR (transformPoint3f m \<lparr>p_x = ray!0 * depth, p_y = ray!1 * depth, p_z = depth\<rparr>) (\<lambda>target.
          if p_z target \<le> 0
          then Inl (RuntimeError ''Projected point is behind the target camera socket. Cannot project to 2D. Target spatial point: ('')
          else bindR (rayToPixel [p_x target / p_z target, p_y target / p_z target, 1] to) (\<lambda>s'.
            bindR (transformPoint to s') (\<lambda>q. Inr (normalized_for to (isNormalized_point p) q))))))))"

text \<open>The rectangle is passed by reference: the caller's rectangle is the first component of the result.\<close>

definition projectRectTo :: "fit \<Rightarrow> ImgTransformation \<Rightarrow> ImgTransformation \<Rightarrow> Rect2f \<Rightarrow> real \<Rightarrow> Rect2f \<times> Rect2f result" where
  "projectRectTo fit t to rect depth =
     (case isNormalized_rect rect of
        Inl e \<Rightarrow> (rect, Inl e)
      | Inr n \<Rightarrow>
          (case (if n then denormalize_rect rect (img_width t mod 2 ^ 32) (img_height t mod 2 ^ 32) False else Inr rect) of
             Inl e \<Rightarrow> (rect, Inl e)
           | Inr r \<Rightarrow>
               (r, bindR (map_rect fit (\<lambda>p. projectPointTo t to p depth) r) (\<lambda>q.
                     if n then normalize_rect q (img_width to mod 2 ^ 32) (img_height to mod 2 ^ 32) else Inr q))))"

definition project3DPoint :: "ImgTransformation \<Rightarrow> real Point3f \<Rightarrow> Point2f result" where
  "project3DPoint t p =
     (if p_z p \<le> 0 then Inl (RuntimeError ''Cannot project point with z <= 0 (point is behind or at the camera).'')
      else bindR (distortPoint [p_x p / p_z p, p_y p / p_z p, 1] (distortionModel t) (distortionCoefficients t)) (\<lambda>d.
        bindR (dehomogenizePoint3 (mat_vec3 (getIntrinsicMatrix t) d)) (\<lambda>q. Inr (point (q!0) (q!1)))))"

definition remap3DPointTo :: "ImgTransformation \<Rightarrow> ImgTransformation \<Rightarrow> real Point3f \<Rightarrow> real Point3f result" where
  "remap3DPointTo t to p = bindR (getExtrinsicsTransformationMatrixTo t to False CENTIMETER) (\<lambda>m. transformPoint3f m p)"

definition remap3DPointFrom :: "ImgTransformation \<Rightarrow> ImgTransformation \<Rightarrow> real Point3f \<Rightarrow> real Point3f result" where
  "remap3DPointFrom t from p = bindR (getExtrinsicsTransformationMatrixTo from t False CENTIMETER) (\<lambda>m. transformPoint3f m p)"

definition project3DPointTo :: "ImgTransformation \<Rightarrow> ImgTransformation \<Rightarrow> real Point3f \<Rightarrow> Point2f result" where
  "project3DPointTo t to p = bindR (remap3DPointTo t to p) (project3DPoint to)"

definition project3DPointFrom :: "ImgTransformation \<Rightarrow> ImgTransformation \<Rightarrow> real Point3f \<Rightarrow> Point2f result" where
  "project3DPointFrom t from p = project3DPointTo from t p"

section \<open>The stored inverse is the inverse\<close>

text \<open>Affine matrices, in which the operations keep the two matrices of an image.\<close>

definition aff :: "real \<Rightarrow> real \<Rightarrow> real \<Rightarrow> real \<Rightarrow> real \<Rightarrow> real \<Rightarrow> real matrix" where
  "aff a b c d e f = [[a, b, c], [d, e, f], [0, 0, 1]]"

definition inverse_pair :: "real matrix \<Rightarrow> real matrix \<Rightarrow> bool" where
  "inverse_pair M N \<longleftrightarrow> (\<exists>a b c d e f. M = aff a b c d e f \<and> a * e - b * d \<noteq> 0 \<and> getMatrixInverse3 M = Inr N)"

definition invertible_map :: "real matrix \<Rightarrow> bool" where
  "invertible_map m \<longleftrightarrow> (\<exists>a b c d e f. m = aff a b c d e f \<and> a * e - b * d \<noteq> 0)"

lemma mat_vec3_aff: "mat_vec3 (aff a b c d e f) [x, y, 1] = [a * x + b * y + c, d * x + e * y + f, 1]"
  by (simp add: mat_vec3_def aff_def upt3)

lemma aff_mult:
  "matMulArray 3 (aff a b c d e f) (aff a' b' c' d' e' f') =
     aff (a * a' + b * d') (a * b' + b * e') (a * c' + b * f' + c) (d * a' + e * d') (d * b' + e * e') (d * c' + e * f' + f)"
  by (simp add: matMulArray_def aff_def upt3)

lemma aff_inverse:
  assumes "a * e - b * d \<noteq> 0"
  shows "getMatrixInverse3 (aff a b c d e f) =
     Inr (aff (e / (a * e - b * d)) (- b / (a * e - b * d)) ((b * f - c * e) / (a * e - b * d))
              (- d / (a * e - b * d)) (a / (a * e - b * d)) ((c * d - a * f) / (a * e - b * d)))"
  using assms by (simp add: getMatrixInverse3_def aff_def Let_def diff_divide_distrib)

lemma aff_det: "(a * a' + b * d') * (d * b' + e * e') - (a * b' + b * e') * (d * a' + e * d') = (a * e - b * d) * (a' * e' - b' * d')"
  for a :: real
  by algebra

lemma inverse_pair_maps:
  assumes "inverse_pair M N"
  shows "\<exists>x' y'. mat_vec3 M [x, y, 1] = [x', y', 1] \<and> mat_vec3 N [x', y', 1] = [x, y, 1]"
    and "\<exists>x' y'. mat_vec3 N [x, y, 1] = [x', y', 1] \<and> mat_vec3 M [x', y', 1] = [x, y, 1]"
proof -
  obtain a b c d e f where M: "M = aff a b c d e f" and D: "a * e - b * d \<noteq> 0" and N: "getMatrixInverse3 M = Inr N"
    using assms by (auto simp: inverse_pair_def)
  define D' where "D' = a * e - b * d"
  have D': "D' \<noteq> 0" using D by (simp add: D'_def)
  have N: "N = aff (e / D') (- b / D') ((b * f - c * e) / D') (- d / D') (a / D') ((c * d - a * f) / D')"
    using N unfolding M aff_inverse [OF D] D'_def by simp
  have i1: "e / D' * (a * x + b * y + c) + - b / D' * (d * x + e * y + f) + (b * f - c * e) / D' = (a * e - b * d) * x / D'"
    and i2: "- d / D' * (a * x + b * y + c) + a / D' * (d * x + e * y + f) + (c * d - a * f) / D' = (a * e - b * d) * y / D'"
    and i3: "a * (e / D' * x + - b / D' * y + (b * f - c * e) / D') + b * (- d / D' * x + a / D' * y + (c * d - a * f) / D') + c =
      ((a * e - b * d) * x + (c * D' - (a * e - b * d) * c)) / D'"
    and i4: "d * (e / D' * x + - b / D' * y + (b * f - c * e) / D') + e * (- d / D' * x + a / D' * y + (c * d - a * f) / D') + f =
      ((a * e - b * d) * y + (f * D' - (a * e - b * d) * f)) / D'"
    using D' by (simp_all add: field_simps)
  have "(a * e - b * d) * x / D' = x" "(a * e - b * d) * y / D' = y"
    "((a * e - b * d) * x + (c * D' - (a * e - b * d) * c)) / D' = x" "((a * e - b * d) * y + (f * D' - (a * e - b * d) * f)) / D' = y"
    using D' by (simp_all add: D'_def)
  note i = i1 [unfolded this] i2 [unfolded this] i3 [unfolded this] i4 [unfolded this]
  show "\<exists>x' y'. mat_vec3 M [x, y, 1] = [x', y', 1] \<and> mat_vec3 N [x', y', 1] = [x, y, 1]"
    unfolding M N mat_vec3_aff by (intro exI conjI, rule refl, unfold mat_vec3_aff i, rule refl)
  show "\<exists>x' y'. mat_vec3 N [x, y, 1] = [x', y', 1] \<and> mat_vec3 M [x', y', 1] = [x, y, 1]"
    unfolding M N mat_vec3_aff by (intro exI conjI, rule refl, unfold mat_vec3_aff i, rule refl)
qed

lemma invertible_mult:
  assumes "invertible_map m" and "inverse_pair M N"
  shows "\<exists>N'. getMatrixInverse3 (matMulArray 3 m M) = Inr N' \<and> inverse_pair (matMulArray 3 m M) N'"
proof -
  obtain a b c d e f where m: "m = aff a b c d e f" "a * e - b * d \<noteq> 0" using assms(1) by (auto simp: invertible_map_def)
  obtain a' b' c' d' e' f' where M: "M = aff a' b' c' d' e' f'" "a' * e' - b' * d' \<noteq> 0" using assms(2) by (auto simp: inverse_pair_def)
  have D: "(a * a' + b * d') * (d * b' + e * e') - (a * b' + b * e') * (d * a' + e * d') \<noteq> 0"
    unfolding aff_det using m(2) M(2) by simp
  show ?thesis unfolding inverse_pair_def m(1) M(1) aff_mult aff_inverse [OF D] using D by blast
qed

definition consistent :: "ImgTransformation \<Rightarrow> bool" where
  "consistent t \<longleftrightarrow> inverse_pair (transformationMatrix t) (transformationMatrixInv t)"

lemma addTransformation_ok:
  assumes "consistent t" and "invertible_map m"
  shows "\<exists>N. addTransformation m t =
     (t\<lparr>transformationMatrix := matMulArray 3 m (transformationMatrix t), transformationMatrixInv := N, cropsValid := False\<rparr>, Inr ()) \<and>
     consistent (fst (addTransformation m t))"
  using invertible_mult [OF assms(2) assms(1) [unfolded consistent_def]]
  by (auto simp: addTransformation_def Let_def consistent_def)

lemma shift_is_aff: "shift_matrix x y = aff 1 0 x 0 1 y"
  by (simp add: shift_matrix_def aff_def)

lemma invertible_aff [intro]: "a * e - b * d \<noteq> 0 \<Longrightarrow> invertible_map (aff a b c d e f)"
  unfolding invertible_map_def by blast

lemma invertible_shift [simp]: "invertible_map (shift_matrix x y)"
  unfolding shift_is_aff by auto

text \<open>The edits of an image, and a history of them: an edit that throws leaves the state it has reached.\<close>

datatype edit = Crop int int int int | Padding int int int int | FlipVertical | FlipHorizontal | Rotation real Point2f | Scale real real

fun apply_edit :: "fit \<Rightarrow> edit \<Rightarrow> ImgTransformation \<Rightarrow> upd" where
  "apply_edit fit (Crop x y w h) t = addCrop fit x y w h t"
| "apply_edit fit (Padding pt pb pl pr) t = addPadding pt pb pl pr t"
| "apply_edit fit FlipVertical t = addFlipVertical t"
| "apply_edit fit FlipHorizontal t = addFlipHorizontal t"
| "apply_edit fit (Rotation angle p) t = addRotation angle p t"
| "apply_edit fit (Scale sx sy) t = addScale sx sy t"

definition run_edits :: "fit \<Rightarrow> edit list \<Rightarrow> ImgTransformation \<Rightarrow> ImgTransformation" where
  "run_edits fit es t = fold (\<lambda>e t. fst (apply_edit fit e t)) es t"

fun usable :: "edit \<Rightarrow> bool" where
  "usable (Scale sx sy) = (sx \<noteq> 0 \<and> sy \<noteq> 0)"
| "usable _ = True"

text \<open>What an edit does to a point of the frame.\<close>

fun edit_map :: "edit \<Rightarrow> ImgTransformation \<Rightarrow> real \<times> real \<Rightarrow> real \<times> real" where
  "edit_map (Crop x y w h) t (px, py) = (px - of_int x, py - of_int y)"
| "edit_map (Padding pt pb pl pr) t (px, py) = (px + of_int pl, py + of_int pt)"
| "edit_map FlipVertical t (px, py) = (px, of_int (img_height t) - py)"
| "edit_map FlipHorizontal t (px, py) = (of_int (img_width t) - px, py)"
| "edit_map (Rotation angle p) t (px, py) =
     (let c = pixels_of t p; rad = angle * pi / 180
      in (pt_x c + cos rad * (px - pt_x c) - sin rad * (py - pt_y c), pt_y c + sin rad * (px - pt_x c) + cos rad * (py - pt_y c)))"
| "edit_map (Scale sx sy) t (px, py) = (sx * px, sy * py)"

fun edit_size :: "edit \<Rightarrow> int \<times> int \<Rightarrow> int \<times> int" where
  "edit_size (Crop x y w h) _ = (to_size w, to_size h)"
| "edit_size (Padding pt pb pl pr) (w, h) = (to_size (w + (pl + pr)), to_size (h + (pt + pb)))"
| "edit_size (Scale sx sy) (w, h) = (to_size (truncated (of_int w * sx + ROUND_UP_EPS)), to_size (truncated (of_int h * sy + ROUND_UP_EPS)))"
| "edit_size _ s = s"

text \<open>The step that every edit makes: another matrix is multiplied from the left, and the camera stays.\<close>

definition moved_by :: "real matrix \<Rightarrow> ImgTransformation \<Rightarrow> ImgTransformation \<Rightarrow> bool" where
  "moved_by m t t' \<longleftrightarrow> consistent t' \<and> transformationMatrix t' = matMulArray 3 m (transformationMatrix t) \<and>
     getSize t' = getSize t \<and> getSourceSize t' = getSourceSize t \<and> sourceIntrinsicMatrix t' = sourceIntrinsicMatrix t \<and>
     srcCrops t' = srcCrops t"

lemma addTransformation_moves:
  assumes "consistent t" and "invertible_map m"
  shows "snd (addTransformation m t) = Inr ()" and "moved_by m t (fst (addTransformation m t))"
  using addTransformation_ok [OF assms] by (auto simp: moved_by_def getSize_def getSourceSize_def)

lemma affine_mult_assoc:
  "matMulArray 3 (aff a b c d e f) (matMulArray 3 (aff a' b' c' d' e' f') (aff a'' b'' c'' d'' e'' f'')) =
   matMulArray 3 (matMulArray 3 (aff a b c d e f) (aff a' b' c' d' e' f')) (aff a'' b'' c'' d'' e'' f'')"
  unfolding aff_mult by (simp add: aff_def algebra_simps)

lemma moved_by_trans:
  assumes "moved_by m t u" and "moved_by n u v" and "consistent t" and "invertible_map m" and "invertible_map n"
  shows "moved_by (matMulArray 3 n m) t v"
proof -
  obtain a b c d e f where m: "m = aff a b c d e f" using assms(4) by (auto simp: invertible_map_def)
  obtain a' b' c' d' e' f' where n: "n = aff a' b' c' d' e' f'" using assms(5) by (auto simp: invertible_map_def)
  obtain a'' b'' c'' d'' e'' f'' where M: "transformationMatrix t = aff a'' b'' c'' d'' e'' f''"
    using assms(3) by (auto simp: consistent_def inverse_pair_def)
  show ?thesis using assms(1,2) unfolding moved_by_def m n M by (simp add: affine_mult_assoc)
qed

lemma and_then_ok: "snd u = Inr () \<Longrightarrow> and_then u f = f (fst u)"
  by (auto simp: and_then_def split: prod.splits)

lemma around_moves:
  assumes "consistent t" and "D = a * e - b * d" and "D \<noteq> 0"
  shows "snd (around x y (aff a b 0 d e 0) t) = Inr () \<and>
     moved_by (aff a b (x - a * x - b * y) d e (y - d * x - e * y)) t (fst (around x y (aff a b 0 d e 0) t))"
proof -
  have m: "invertible_map (aff a b 0 d e 0)" using assms(2,3) by auto
  define t1 where "t1 = fst (addTransformation (shift_matrix (- x) (- y)) t)"
  define t2 where "t2 = fst (addTransformation (aff a b 0 d e 0) t1)"
  define t3 where "t3 = fst (addTransformation (shift_matrix x y) t2)"
  note s1 = addTransformation_moves [OF assms(1) invertible_shift [of "- x" "- y"], folded t1_def]
  have c1: "consistent t1" using s1(2) by (simp add: moved_by_def)
  note s2 = addTransformation_moves [OF c1 m, folded t2_def]
  have c2: "consistent t2" using s2(2) by (simp add: moved_by_def)
  note s3 = addTransformation_moves [OF c2 invertible_shift [of x y], folded t3_def]
  have r: "around x y (aff a b 0 d e 0) t = (t3, Inr ())"
    unfolding around_def and_then_ok [OF s1(1)] t1_def [symmetric] and_then_ok [OF s2(1)] t2_def [symmetric]
    using s3(1) by (simp add: t3_def prod_eq_iff)
  have p12: "matMulArray 3 (aff a b 0 d e 0) (shift_matrix (- x) (- y)) = aff a b (- a * x - b * y) d e (- d * x - e * y)"
    unfolding shift_is_aff aff_mult by (simp add: aff_def)
  have m12: "moved_by (aff a b (- a * x - b * y) d e (- d * x - e * y)) t t2"
    using moved_by_trans [OF s1(2) s2(2) assms(1) invertible_shift m] unfolding p12 .
  have i12: "invertible_map (aff a b (- a * x - b * y) d e (- d * x - e * y))" using assms(2,3) by auto
  have "matMulArray 3 (shift_matrix x y) (aff a b (- a * x - b * y) d e (- d * x - e * y)) =
      aff a b (x - a * x - b * y) d e (y - d * x - e * y)"
    unfolding shift_is_aff aff_mult by (simp add: aff_def)
  with moved_by_trans [OF m12 s3(2) assms(1) i12 invertible_shift] show ?thesis by (simp add: r)
qed

lemma affine_unit: "consistent t \<Longrightarrow> matMulArray 3 (aff 1 0 0 0 1 0) (transformationMatrix t) = transformationMatrix t"
  by (auto simp: consistent_def inverse_pair_def aff_mult)

lemma consistent_cong [simp]:
  "consistent (t\<lparr>img_width := w\<rparr>) = consistent t" "consistent (t\<lparr>img_height := h\<rparr>) = consistent t"
  "consistent (t\<lparr>srcCrops := cs\<rparr>) = consistent t" "consistent (t\<lparr>cropsValid := b\<rparr>) = consistent t"
  by (simp_all add: consistent_def)

text \<open>What an edit does, whether it throws or not.\<close>

definition edited :: "edit \<Rightarrow> ImgTransformation \<Rightarrow> ImgTransformation \<Rightarrow> bool" where
  "edited ed t t' \<longleftrightarrow> consistent t' \<and> getSize t' = edit_size ed (getSize t) \<and> getSourceSize t' = getSourceSize t \<and>
     sourceIntrinsicMatrix t' = sourceIntrinsicMatrix t \<and>
     (\<exists>a b c d e f. transformationMatrix t' = matMulArray 3 (aff a b c d e f) (transformationMatrix t) \<and>
        (\<forall>x y. edit_map ed t (x, y) = (a * x + b * y + c, d * x + e * y + f)))"

lemma editedI:
  assumes "consistent t'" and "getSize t' = edit_size ed (getSize t)" and "getSourceSize t' = getSourceSize t"
    and "sourceIntrinsicMatrix t' = sourceIntrinsicMatrix t"
    and "transformationMatrix t' = matMulArray 3 (aff a b c d e f) (transformationMatrix t)"
    and "\<And>x y. edit_map ed t (x, y) = (a * x + b * y + c, d * x + e * y + f)"
  shows "edited ed t t'"
  using assms unfolding edited_def by blast

lemma edited_cropped: "edited ed t u \<Longrightarrow> edited ed t (u\<lparr>srcCrops := cs, cropsValid := b\<rparr>)"
  by (simp add: edited_def getSize_def getSourceSize_def)

lemma rotation_aff: "[[cos r, - sin r, 0], [sin r, cos r, 0], [0, 0, 1]] = aff (cos r) (- sin r) 0 (sin r) (cos r) 0"
  by (simp add: aff_def)

text \<open>A crop and a padding shift the frame, when they do, after they have set its size.\<close>

definition shifted :: "real \<Rightarrow> real \<Rightarrow> ImgTransformation \<Rightarrow> upd" where
  "shifted x y t = (if x \<noteq> 0 \<or> y \<noteq> 0 then addTransformation (shift_matrix x y) t else (t, Inr ()))"

lemma shifted_moves:
  assumes "consistent t"
  shows "snd (shifted x y t) = Inr ()" and "moved_by (aff 1 0 x 0 1 y) t (fst (shifted x y t))"
proof -
  have "snd (shifted x y t) = Inr () \<and> moved_by (aff 1 0 x 0 1 y) t (fst (shifted x y t))"
  proof (cases "x \<noteq> 0 \<or> y \<noteq> 0")
    case True
    with addTransformation_moves [OF assms invertible_shift [of x y]] show ?thesis by (simp add: shifted_def shift_is_aff)
  next
    case False
    with affine_unit [OF assms] assms show ?thesis by (simp add: shifted_def moved_by_def)
  qed
  then show "snd (shifted x y t) = Inr ()" and "moved_by (aff 1 0 x 0 1 y) t (fst (shifted x y t))" by simp_all
qed

lemma addCrop_edited:
  assumes "consistent t"
  shows "edited (Crop x y w h) t (fst (addCrop fit x y w h t))"
proof -
  let ?t1 = "t\<lparr>img_width := to_size w, img_height := to_size h\<rparr>"
  let ?s = "shifted (- of_int x) (- of_int y) ?t1"
  have c: "consistent ?t1" using assms by simp
  note s = shifted_moves [OF c, of "- of_int x" "- of_int y"]
  have s': "?s = (fst ?s, Inr ())" using s(1) by (simp add: prod_eq_iff)
  have "(if x \<noteq> 0 \<or> y \<noteq> 0 then addTransformation (shift_matrix (of_int (- x)) (of_int (- y))) ?t1 else (?t1, Inr ())) = (fst ?s, Inr ())"
    unfolding s' [symmetric] by (simp add: shifted_def)
  note r = this
  have ok: "edited (Crop x y w h) t (fst ?s)"
    using s(2) by (intro editedI [where a = 1 and b = 0 and c = "- of_int x" and d = 0 and e = 1 and f = "- of_int y"])
      (simp_all add: moved_by_def getSize_def getSourceSize_def)
  show ?thesis
    unfolding addCrop_def Let_def r and_then_def prod.case sum.case
    by (simp only: split: sum.splits) (simp add: ok edited_cropped [OF ok])
qed

lemma addPadding_edited:
  assumes "consistent t"
  shows "edited (Padding pt pb pl pr) t (fst (addPadding pt pb pl pr t))"
proof -
  let ?t1 = "t\<lparr>img_width := to_size (img_width t + (pl + pr)), img_height := to_size (img_height t + (pt + pb))\<rparr>"
  let ?s = "shifted (of_int pl) (of_int pt) ?t1"
  have c: "consistent ?t1" using assms by simp
  note s = shifted_moves [OF c, of "of_int pl" "of_int pt"]
  have s': "?s = (fst ?s, Inr ())" using s(1) by (simp add: prod_eq_iff)
  have "(if pt \<noteq> 0 \<or> pl \<noteq> 0 then addTransformation (shift_matrix (of_int pl) (of_int pt)) ?t1 else (?t1, Inr ())) = (fst ?s, Inr ())"
    unfolding s' [symmetric] by (auto simp: shifted_def)
  then have r: "fst (addPadding pt pb pl pr t) = (fst ?s)\<lparr>cropsValid := False\<rparr>"
    unfolding addPadding_def Let_def by (simp add: and_then_def)
  show ?thesis
    unfolding r using s(2) by (intro editedI [where a = 1 and b = 0 and c = "of_int pl" and d = 0 and e = 1 and f = "of_int pt"])
      (simp_all add: moved_by_def getSize_def getSourceSize_def)
qed

lemma apply_edit_edited:
  assumes "consistent t" and "usable ed"
  shows "edited ed t (fst (apply_edit fit ed t))"
proof (cases ed)
  case (Crop x y w h)
  with addCrop_edited [OF assms(1)] show ?thesis by simp
next
  case (Padding pt pb pl pr)
  with addPadding_edited [OF assms(1)] show ?thesis by simp
next
  case FlipVertical
  have m: "[[1, 0, 0], [0, -1, 0], [0, 0, 1]] = aff 1 0 0 0 (-1) 0" by (simp add: aff_def)
  have "moved_by (aff 1 0 0 0 (-1) (of_int (img_height t))) t (fst (addFlipVertical t))"
    unfolding addFlipVertical_def m
    using around_moves [OF assms(1), of "-1" 1 "-1" 0 0 "of_int (img_width t) / 2" "of_int (img_height t) / 2"] by simp
  with FlipVertical show ?thesis
    by (auto intro!: editedI [where a = 1 and b = 0 and c = 0 and d = 0 and e = "-1" and f = "of_int (img_height t)"] simp: moved_by_def getSize_def)
next
  case FlipHorizontal
  have m: "[[-1, 0, 0], [0, 1, 0], [0, 0, 1]] = aff (-1) 0 0 0 1 0" by (simp add: aff_def)
  have "moved_by (aff (-1) 0 (of_int (img_width t)) 0 1 0) t (fst (addFlipHorizontal t))"
    unfolding addFlipHorizontal_def m
    using around_moves [OF assms(1), of "-1" "-1" 1 0 0 "of_int (img_width t) / 2" "of_int (img_height t) / 2"] by simp
  with FlipHorizontal show ?thesis
    by (auto intro!: editedI [where a = "-1" and b = 0 and c = "of_int (img_width t)" and d = 0 and e = 1 and f = 0] simp: moved_by_def getSize_def)
next
  case (Rotation angle p)
  define r where "r = angle * pi / 180"
  define cx where "cx = pt_x (pixels_of t p)"
  define cy where "cy = pt_y (pixels_of t p)"
  have a: "addRotation angle p t = around cx cy (aff (cos r) (- sin r) 0 (sin r) (cos r) 0) t"
    unfolding addRotation_def Let_def rotation_aff r_def cx_def cy_def pixels_of_def ..
  have "cos r * cos r - - sin r * sin r = 1" using sin_cos_squared_add2 [of r] by (simp add: power2_eq_square)
  then have "moved_by (aff (cos r) (- sin r) (cx - cos r * cx - - sin r * cy) (sin r) (cos r) (cy - sin r * cx - cos r * cy)) t (fst (addRotation angle p t))"
    unfolding a using around_moves [OF assms(1), of 1 "cos r" "cos r" "- sin r" "sin r" cx cy] by simp
  moreover have "edit_map ed t (x, y) =
      (cos r * x + - sin r * y + (cx - cos r * cx - - sin r * cy), sin r * x + cos r * y + (cy - sin r * cx - cos r * cy))" for x y
    unfolding Rotation edit_map.simps Let_def r_def [symmetric] cx_def [symmetric] cy_def [symmetric] by (simp add: right_diff_distrib)
  ultimately show ?thesis
    by (intro editedI [where a = "cos r" and b = "- sin r" and c = "cx - cos r * cx - - sin r * cy" and d = "sin r" and e = "cos r" and
          f = "cy - sin r * cx - cos r * cy"]) (simp_all add: moved_by_def getSize_def Rotation)
next
  case (Scale sx sy)
  have m: "[[sx, 0, 0], [0, sy, 0], [0, 0, 1]] = aff sx 0 0 0 sy 0" by (simp add: aff_def)
  have i: "invertible_map (aff sx 0 0 0 sy 0)" using assms(2) Scale by auto
  let ?t1 = "t\<lparr>img_width := to_size (truncated (of_int (img_width t) * sx + ROUND_UP_EPS)),
          img_height := to_size (truncated (of_int (img_height t) * sy + ROUND_UP_EPS))\<rparr>"
  have "moved_by (aff sx 0 0 0 sy 0) ?t1 (fst (addScale sx sy t))"
    unfolding addScale_def m by (rule addTransformation_moves) (use assms(1) i in simp_all)
  with Scale show ?thesis
    by (intro editedI [where a = sx and b = 0 and c = 0 and d = 0 and e = sy and f = 0]) (simp_all add: moved_by_def getSize_def getSourceSize_def)
qed

text \<open>A consistent image stays consistent through any edits, and maps points there and back.\<close>

lemma run_edits_consistent:
  assumes "list_all usable es" and "consistent t"
  shows "consistent (run_edits fit es t)"
  using assms
proof (induction es arbitrary: t)
  case (Cons ed es)
  from Cons.prems have "consistent (fst (apply_edit fit ed t))" using apply_edit_edited [of t ed fit] by (simp add: edited_def)
  from Cons.IH [OF _ this] Cons.prems(1) show ?case by (simp add: run_edits_def)
qed (simp add: run_edits_def)

lemma map_point_Inr: "mat_vec3 M [pt_x p, pt_y p, 1] = [x, y, 1] \<Longrightarrow> map_point M p = Inr (point x y)"
  by (simp add: map_point_def dehomogenizePoint3_def)

lemma point_simps [simp]: "pt_x (point x y) = x" "pt_y (point x y) = y"
  by (simp_all add: point_def)

lemma consistent_maps_back:
  assumes "consistent t"
  shows "\<exists>q. transformPoint t p = Inr q \<and> invTransformPoint t q = Inr (point (pt_x p) (pt_y p))"
    and "\<exists>q. invTransformPoint t p = Inr q \<and> transformPoint t q = Inr (point (pt_x p) (pt_y p))"
proof -
  note inv = inverse_pair_maps [OF assms [unfolded consistent_def], of "pt_x p" "pt_y p"]
  from inv(1) obtain x y where "mat_vec3 (transformationMatrix t) [pt_x p, pt_y p, 1] = [x, y, 1]"
    and "mat_vec3 (transformationMatrixInv t) [x, y, 1] = [pt_x p, pt_y p, 1]" by blast
  then show "\<exists>q. transformPoint t p = Inr q \<and> invTransformPoint t q = Inr (point (pt_x p) (pt_y p))"
    unfolding transformPoint_def invTransformPoint_def by (intro exI [of _ "point x y"]) (simp add: map_point_Inr)
  from inv(2) obtain x y where "mat_vec3 (transformationMatrixInv t) [pt_x p, pt_y p, 1] = [x, y, 1]"
    and "mat_vec3 (transformationMatrix t) [x, y, 1] = [pt_x p, pt_y p, 1]" by blast
  then show "\<exists>q. invTransformPoint t p = Inr q \<and> transformPoint t q = Inr (point (pt_x p) (pt_y p))"
    unfolding transformPoint_def invTransformPoint_def by (intro exI [of _ "point x y"]) (simp add: map_point_Inr)
qed

lemma new_image_consistent: "consistent (ImgTransformation_sizes sw sh w h)"
proof -
  have "getMatrixInverse3 (aff 1 0 0 0 1 0) = Inr (aff 1 0 0 0 1 0)" by (simp add: aff_inverse)
  then have "inverse_pair (aff 1 0 0 0 1 0) (aff 1 0 0 0 1 0)"
    unfolding inverse_pair_def by (metis diff_zero mult_1 mult_zero_left zero_neq_one)
  moreover have "unit3 = aff 1 0 0 0 1 0" by (simp add: unit3_def aff_def)
  ultimately show ?thesis by (simp add: consistent_def ImgTransformation_sizes_def ImgTransformation_default_def)
qed

text \<open>
  C26. Whatever crops, paddings, flips, rotations and scalings (by other factors than 0) an image goes through, in any order, and
  even when some of them throw: every point of the source has an image in the current frame, which is mapped back to it,
  and every point of the frame has an origin in the source, which is mapped to it.
\<close>

theorem edited_image_maps_back:
  assumes "list_all usable es"
  shows "(\<exists>q. transformPoint (run_edits fit es (ImgTransformation_sizes sw sh w h)) p = Inr q \<and>
             invTransformPoint (run_edits fit es (ImgTransformation_sizes sw sh w h)) q = Inr (point (pt_x p) (pt_y p))) \<and>
         (\<exists>q. invTransformPoint (run_edits fit es (ImgTransformation_sizes sw sh w h)) p = Inr q \<and>
             transformPoint (run_edits fit es (ImgTransformation_sizes sw sh w h)) q = Inr (point (pt_x p) (pt_y p)))"
  using consistent_maps_back [OF run_edits_consistent [OF assms new_image_consistent]] by blast

text \<open>
  C25. Each operation maps the frame as its name says and sets the size it should: a crop and a padding shift it, a flip mirrors it
  within its size, a rotation turns it around the given point, a scaling stretches it. A point of the source is then found where the
  operation has moved it from its place before.
\<close>

theorem edits_move_the_frame:
  assumes "consistent t" and "usable ed" and "transformPoint t p = Inr q"
  shows "transformPoint (fst (apply_edit fit ed t)) p =
           Inr (point (fst (edit_map ed t (pt_x q, pt_y q))) (snd (edit_map ed t (pt_x q, pt_y q)))) \<and>
         getSize (fst (apply_edit fit ed t)) = edit_size ed (getSize t) \<and>
         getSourceSize (fst (apply_edit fit ed t)) = getSourceSize t \<and> consistent (fst (apply_edit fit ed t))"
proof -
  let ?t = "fst (apply_edit fit ed t)"
  have ed: "edited ed t ?t" by (rule apply_edit_edited [OF assms(1,2)])
  then obtain a b c d e f where M': "transformationMatrix ?t = matMulArray 3 (aff a b c d e f) (transformationMatrix t)"
    and map: "\<And>x y. edit_map ed t (x, y) = (a * x + b * y + c, d * x + e * y + f)" unfolding edited_def by blast
  obtain a' b' c' d' e' f' where M: "transformationMatrix t = aff a' b' c' d' e' f'"
    using assms(1) by (auto simp: consistent_def inverse_pair_def)
  have q: "q = point (a' * pt_x p + b' * pt_y p + c') (d' * pt_x p + e' * pt_y p + f')"
    using assms(3) unfolding transformPoint_def M by (simp add: map_point_def mat_vec3_aff dehomogenizePoint3_def)
  have "transformPoint ?t p = Inr (point (fst (edit_map ed t (pt_x q, pt_y q))) (snd (edit_map ed t (pt_x q, pt_y q))))"
    unfolding transformPoint_def M' M aff_mult map q
    by (rule map_point_Inr) (simp add: mat_vec3_aff algebra_simps)
  with ed show ?thesis by (simp add: edited_def)
qed

lemma new_image_point: "transformPoint (ImgTransformation_sizes sw sh w h) p = Inr (point (pt_x p) (pt_y p))"
  by (simp add: transformPoint_def map_point_def ImgTransformation_sizes_def ImgTransformation_default_def unit3_def mat_vec3_def upt3
      dehomogenizePoint3_def)

definition no_fit :: fit where
  "no_fit ps = Inl (RuntimeError ''All points of the convex hull are collinear'')"

theorem edited_image_maps_back_witness:
  "\<exists>q. transformPoint (run_edits no_fit [Crop 10 10 20 20, FlipHorizontal, Scale 2 3] (ImgTransformation_sizes 100 100 100 100)) (point 15 25) = Inr q \<and>
       invTransformPoint (run_edits no_fit [Crop 10 10 20 20, FlipHorizontal, Scale 2 3] (ImgTransformation_sizes 100 100 100 100)) q = Inr (point 15 25)"
  using edited_image_maps_back [of "[Crop 10 10 20 20, FlipHorizontal, Scale 2 3]" no_fit 100 100 100 100 "point 15 25"] by simp

theorem edits_move_the_frame_witness:
  "transformPoint (fst (addFlipHorizontal (ImgTransformation_sizes 100 50 100 50))) (point 30 20) = Inr (point 70 20)"
proof -
  have "transformPoint (ImgTransformation_sizes 100 50 100 50) (point 30 20) = Inr (point 30 20)" by (simp add: new_image_point)
  from edits_move_the_frame [where ed = FlipHorizontal, OF new_image_consistent _ this]
  show ?thesis by (simp add: ImgTransformation_sizes_def)
qed

section \<open>Remapping between two images\<close>

text \<open>A lens without distortion, and intrinsics with their inverse.\<close>

definition plain_lens :: "ImgTransformation \<Rightarrow> bool" where
  "plain_lens t \<longleftrightarrow> \<not> hasNonZeroDistortion (distortionCoefficients t)"

definition camera_ok :: "ImgTransformation \<Rightarrow> bool" where
  "camera_ok t \<longleftrightarrow> inverse_pair (sourceIntrinsicMatrix t) (sourceIntrinsicMatrixInv t) \<and> plain_lens t"

lemma plain_rays:
  assumes "camera_ok t"
  shows "pixelToRay p t = Inr (mat_vec3 (sourceIntrinsicMatrixInv t) [pt_x p, pt_y p, 1])"
    and "rayToPixel r t = Inr (point (mat_vec3 (sourceIntrinsicMatrix t) [r!0 / r!2, r!1 / r!2, 1] ! 0)
                                     (mat_vec3 (sourceIntrinsicMatrix t) [r!0 / r!2, r!1 / r!2, 1] ! 1))"
proof -
  have k: "inverse_pair (sourceIntrinsicMatrix t) (sourceIntrinsicMatrixInv t)" and n: "\<not> hasNonZeroDistortion (distortionCoefficients t)"
    using assms by (simp_all add: camera_ok_def plain_lens_def)
  obtain x y where "mat_vec3 (sourceIntrinsicMatrixInv t) [pt_x p, pt_y p, 1] = [x, y, 1]"
    using inverse_pair_maps(2) [OF k] by blast
  then show "pixelToRay p t = Inr (mat_vec3 (sourceIntrinsicMatrixInv t) [pt_x p, pt_y p, 1])"
    using n by (simp add: pixelToRay_def undistortPoint_def)
  obtain x' y' where "mat_vec3 (sourceIntrinsicMatrix t) [r!0 / r!2, r!1 / r!2, 1] = [x', y', 1]"
    using inverse_pair_maps(1) [OF k] by blast
  then show "rayToPixel r t = Inr (point (mat_vec3 (sourceIntrinsicMatrix t) [r!0 / r!2, r!1 / r!2, 1] ! 0)
                                     (mat_vec3 (sourceIntrinsicMatrix t) [r!0 / r!2, r!1 / r!2, 1] ! 1))"
    using n by (simp add: rayToPixel_def distortPoint_def Let_def)
qed

text \<open>Cameras whose poses are known relative to one base, or of which one has no pose.\<close>

definition same_rig :: "ImgTransformation \<Rightarrow> ImgTransformation \<Rightarrow> bool" where
  "same_rig t u \<longleftrightarrow> toCameraSocket (img_extrinsics t) = AUTO \<or> toCameraSocket (img_extrinsics u) = AUTO \<or>
     (posed (toCameraSocket (img_extrinsics t)) False CENTIMETER (img_extrinsics t) \<and>
      posed (toCameraSocket (img_extrinsics t)) False CENTIMETER (img_extrinsics u))"

lemma same_rig_sym: "same_rig t u \<Longrightarrow> same_rig u t"
  by (auto simp: same_rig_def posed_def)

lemma list3: "length v = 3 \<Longrightarrow> v = [v!0, v!1, v!2]" for v :: "'a list"
  by (rule nth_equalityI) (auto simp: less3)

lemma mat_vec3_nth: "i < 3 \<Longrightarrow> mat_vec3 m v ! i = m!i!0 * v!0 + m!i!1 * v!1 + m!i!2 * v!2"
  by (simp add: mat_vec3_def)

lemma rotations_cancel:
  assumes "\<And>i j. i < 3 \<Longrightarrow> j < 3 \<Longrightarrow> (\<Sum>k<3. S ! i ! k * R ! k ! j) = (if i = j then 1 else 0)" and "length v = 3"
  shows "mat_vec3 S (mat_vec3 R v) = v"
proof (rule nth_equalityI)
  fix i assume "i < length (mat_vec3 S (mat_vec3 R v))"
  then have i: "i < 3" by (simp add: mat_vec3_def)
  have "mat_vec3 S (mat_vec3 R v) ! i =
      (\<Sum>k<3. S!i!k * R!k!0) * v!0 + (\<Sum>k<3. S!i!k * R!k!1) * v!1 + (\<Sum>k<3. S!i!k * R!k!2) * v!2"
    using i by (simp add: mat_vec3_nth sum3 algebra_simps)
  also have "\<dots> = v ! i" using i by (auto simp: assms(1) less3)
  finally show "mat_vec3 S (mat_vec3 R v) ! i = v ! i" .
qed (simp add: mat_vec3_def assms(2))

lemma rotation_there_and_back:
  assumes "same_rig t u"
  shows "\<exists>R S. rotation_between t u = Inr R \<and> rotation_between u t = Inr S \<and> (\<forall>v. length v = 3 \<longrightarrow> mat_vec3 S (mat_vec3 R v) = v)"
proof (cases "toCameraSocket (img_extrinsics t) = AUTO \<or> toCameraSocket (img_extrinsics u) = AUTO")
  case True
  have "mat_vec3 unit3 (mat_vec3 unit3 v) = v" if "length v = 3" for v
    using list3 [OF that] by (simp add: unit3_def mat_vec3_def upt3)
  with True show ?thesis by (auto simp: rotation_between_def)
next
  case False
  let ?b = "toCameraSocket (img_extrinsics t)"
  have b: "?b \<noteq> AUTO" and e: "posed ?b False CENTIMETER (img_extrinsics t)" and f: "posed ?b False CENTIMETER (img_extrinsics u)"
    using assms False by (auto simp: same_rig_def)
  let ?E = "pose_of (img_extrinsics t) False CENTIMETER" and ?F = "pose_of (img_extrinsics u) False CENTIMETER"
  let ?iE = "invertSe3Matrix4x4 ?E" and ?iF = "invertSe3Matrix4x4 ?F"
  have r: "rigid ?E" "rigid ?F" using e f by (simp_all add: posed_def)
  note ie = pose_inverse [OF e] and jf = pose_inverse [OF f]
  let ?M = "prod_matrix ?iF ?E 4 4" and ?N = "prod_matrix ?iE ?F 4 4"
  have m: "rigid ?M" "rigid ?N" using r ie(2) jf(2) by (simp_all add: rigid_prod)
  have id: "prod_matrix ?N ?M 4 4 = identity4"
    using rigid_cancel [OF r(1) r(2) jf(2) ie(2) jf(3)] ie(4) by simp
  have c: "(\<Sum>k<3. ?N ! i ! k * ?M ! k ! j) = (if i = j then 1 else 0)" if "i < 3" "j < 3" for i j
    unfolding prod_rotation [OF m(2) m(1) that, symmetric] id using that by (auto simp: identity4_def less3)
  have g: "getRotationMatrixFromProjection4x4 A ! i ! j = A ! i ! j" if "i < 3" "j < 3" for A i j
    using that by (simp add: getRotationMatrixFromProjection4x4_def)
  have "mat_vec3 (getRotationMatrixFromProjection4x4 ?N) (mat_vec3 (getRotationMatrixFromProjection4x4 ?M) v) = v" if "length v = 3" for v
  proof (rule rotations_cancel [OF _ that])
    fix i j :: nat assume ij: "i < 3" "j < 3"
    have "(\<Sum>k<3. getRotationMatrixFromProjection4x4 ?N ! i ! k * getRotationMatrixFromProjection4x4 ?M ! k ! j) = (\<Sum>k<3. ?N ! i ! k * ?M ! k ! j)"
      by (intro sum.cong refl) (simp add: g ij)
    then show "(\<Sum>k<3. getRotationMatrixFromProjection4x4 ?N ! i ! k * getRotationMatrixFromProjection4x4 ?M ! k ! j) = (if i = j then 1 else 0)"
      by (simp add: c ij)
  qed
  with False show ?thesis
    by (simp add: rotation_between_def getExtrinsicsTransformationMatrixTo_def transformation_to [OF b e f] transformation_to [OF b f e])
qed

lemma mat_vec3_scale: "mat_vec3 S [a / c, b / c, 1] = map (\<lambda>x. x / c) (mat_vec3 S [a, b, c])" if "c \<noteq> 0" for c :: real
  using that by (simp add: mat_vec3_def field_simps)

text \<open>The point of the source is seen by the other camera: its ray, turned, is not parallel to the image plane.\<close>

definition visible_in :: "ImgTransformation \<Rightarrow> ImgTransformation \<Rightarrow> Point2f \<Rightarrow> bool" where
  "visible_in t u s \<longleftrightarrow> (\<exists>ray R. pixelToRay s t = Inr ray \<and> rotation_between t u = Inr R \<and> mat_vec3 R ray ! 2 \<noteq> 0)"

lemma mateq_swap:
  fixes A :: "real matrix"
  assumes "mateq e A B"
  shows "mateq e B A"
proof (cases "A = []")
  case True
  with assms show ?thesis by (simp add: mateq_def)
next
  case False
  from assms have len: "length A = length B" by (simp add: mateq_def)
  from assms False have each: "length (A!i) = length (A!0)" "length (B!i) = length (A!0)"
    "\<And>j. j < length (A!0) \<Longrightarrow> \<not> \<bar>A!i!j - B!i!j\<bar> > e" if "i < length A" for i
    using that by (auto simp: mateq_def list_all_iff)
  have b0: "length (B!0) = length (A!0)" using each(2) [of 0] False by simp
  have "\<not> \<bar>B!i!j - A!i!j\<bar> > e" if "i < length A" "j < length (A!0)" for i j
    using each(3) [OF that] by (simp add: abs_minus_commute)
  then show ?thesis using each(1,2) b0 len False by (simp add: mateq_def list_all_iff)
qed

lemma mateq_sym: "mateq e A B = mateq e B A" for A :: "real matrix"
  using mateq_swap by blast

lemma isEqualExtrinsics_sym:
  fixes e :: "real Extrinsics"
  assumes "isEqualExtrinsics e f d"
  shows "isEqualExtrinsics f e d"
proof -
  have "list_all (\<lambda>(a, b). \<not> d < \<bar>a - b\<bar>) (zip xs ys) \<Longrightarrow> list_all (\<lambda>(a, b). \<not> d < \<bar>a - b\<bar>) (zip ys xs)" for xs ys :: "real list"
    by (induction xs ys rule: list_induct2') (auto simp: abs_minus_commute)
  with assms show ?thesis unfolding isEqualExtrinsics_def mateq_sym [of d "rotationMatrix f"] by metis
qed

lemma isEqualTransformation_sym: "isEqualTransformation t u \<Longrightarrow> isEqualTransformation u t"
  unfolding isEqualTransformation_def using isEqualExtrinsics_sym mateq_sym by metis

lemma source_there_and_back:
  assumes "camera_ok t" and "camera_ok u" and "same_rig t u" and "visible_in t u s"
  shows "\<exists>s'. interSourceFrameTransform s t u = Inr s' \<and>
     (\<exists>s''. interSourceFrameTransform s' u t = Inr s'' \<and> pt_x s'' = pt_x s \<and> pt_y s'' = pt_y s)"
proof (cases "isEqualTransformation t u")
  case True
  with isEqualTransformation_sym [OF True] show ?thesis by (simp add: interSourceFrameTransform_def)
next
  case False
  then have F: "\<not> isEqualTransformation u t" using isEqualTransformation_sym by blast
  have kt: "inverse_pair (sourceIntrinsicMatrix t) (sourceIntrinsicMatrixInv t)"
    and ku: "inverse_pair (sourceIntrinsicMatrix u) (sourceIntrinsicMatrixInv u)" using assms(1,2) by (simp_all add: camera_ok_def)
  obtain x y where ray: "mat_vec3 (sourceIntrinsicMatrixInv t) [pt_x s, pt_y s, 1] = [x, y, 1]"
    and bk: "mat_vec3 (sourceIntrinsicMatrix t) [x, y, 1] = [pt_x s, pt_y s, 1]" using inverse_pair_maps(2) [OF kt] by blast
  obtain R S where R: "rotation_between t u = Inr R" and S: "rotation_between u t = Inr S"
    and RS: "\<forall>v. length v = 3 \<longrightarrow> mat_vec3 S (mat_vec3 R v) = v" using rotation_there_and_back [OF assms(3)] by blast
  define w where "w = mat_vec3 R [x, y, 1]"
  have z: "w ! 2 \<noteq> 0" using assms(4) by (auto simp: visible_in_def plain_rays [OF assms(1)] ray R w_def)
  obtain X Y where pix: "mat_vec3 (sourceIntrinsicMatrix u) [w!0 / w!2, w!1 / w!2, 1] = [X, Y, 1]"
    and unp: "mat_vec3 (sourceIntrinsicMatrixInv u) [X, Y, 1] = [w!0 / w!2, w!1 / w!2, 1]" using inverse_pair_maps(1) [OF ku] by blast
  have "w = [w!0, w!1, w!2]" by (rule list3) (simp add: w_def mat_vec3_def)
  then have "mat_vec3 S [w!0 / w!2, w!1 / w!2, 1] = map (\<lambda>a. a / w!2) (mat_vec3 S w)" using mat_vec3_scale [OF z] by metis
  also have "\<dots> = [x / w!2, y / w!2, 1 / w!2]" using RS by (simp add: w_def)
  finally have turned: "mat_vec3 S [w!0 / w!2, w!1 / w!2, 1] = [x / w!2, y / w!2, 1 / w!2]" .
  have there: "interSourceFrameTransform s t u = Inr (point X Y)"
    using False by (simp add: interSourceFrameTransform_def plain_rays [OF assms(1)] plain_rays [OF assms(2)] ray R w_def [symmetric] pix [unfolded One_nat_def])
  have returned: "interSourceFrameTransform (point X Y) u t = Inr (point (pt_x s) (pt_y s))"
    using F z by (simp add: interSourceFrameTransform_def plain_rays [OF assms(1)] plain_rays [OF assms(2)] unp S turned [unfolded One_nat_def] bk)
  from there returned show ?thesis by auto
qed

text \<open>A point given as a fraction of the frame.\<close>

definition fraction :: "Point2f \<Rightarrow> bool" where
  "fraction p \<longleftrightarrow> pt_hasNormalized p \<and> pt_normalized p"

lemma map_point_cong: "pt_x p = pt_x q \<Longrightarrow> pt_y p = pt_y q \<Longrightarrow> map_point M p = map_point M q"
  by (simp add: map_point_def)

text \<open>
  C24. Remapping is invertible. Let two images have been edited in any consistent way and their cameras have no distortion and either known
  poses in one rig or no pose at all; let a point be given as a fraction of the first frame, and be visible from the second camera. Then it
  is remapped to a fraction of the second frame, and remapping that back gives the same point.
\<close>

theorem remap_there_and_back:
  assumes "consistent t" and "consistent u" and "camera_ok t" and "camera_ok u" and "same_rig t u" and "isValid t" and "isValid u"
    and "fraction p" and "invTransformPoint t (pixels_of t p) = Inr s" and "visible_in t u s"
  shows "\<exists>q. remapPointTo t u p = Inr q \<and> fraction q \<and> remapPointTo u t q = Inr p"
proof -
  have n: "isNormalized_point p" using assms(8) by (simp add: fraction_def isNormalized_point_def)
  have wh: "img_width t > 0" "img_height t > 0" "img_width u > 0" "img_height u > 0" using assms(6,7) by (simp_all add: isValid_def)
  obtain s' s'' where s': "interSourceFrameTransform s t u = Inr s'" and s'': "interSourceFrameTransform s' u t = Inr s''"
    and same: "pt_x s'' = pt_x s" "pt_y s'' = pt_y s" using source_there_and_back [OF assms(3,4,5,10)] by blast
  obtain q where q: "transformPoint u s' = Inr q" "invTransformPoint u q = Inr (point (pt_x s') (pt_y s'))"
    using consistent_maps_back(1) [OF assms(2)] by blast
  define r where "r = normalized_for u True q"
  have r: "remapPointTo t u p = Inr r" by (simp add: remapPointTo_def assms(9) s' q(1) n r_def)
  have fr: "fraction r" by (simp add: fraction_def r_def normalized_for_def)
  then have nr: "isNormalized_point r" by (simp add: fraction_def isNormalized_point_def)
  have "pt_x (pixels_of u r) = pt_x q" "pt_y (pixels_of u r) = pt_y q"
    using nr wh by (simp_all add: pixels_of_def r_def normalized_for_def)
  then have inv: "invTransformPoint u (pixels_of u r) = Inr (point (pt_x s') (pt_y s'))"
    using q(2) unfolding invTransformPoint_def by (metis map_point_cong)
  have inter: "interSourceFrameTransform (point (pt_x s') (pt_y s')) u t = Inr w \<Longrightarrow> pt_x w = pt_x s'' \<and> pt_y w = pt_y s''" for w
    using s'' by (auto simp: interSourceFrameTransform_def pixelToRay_def split: if_splits)
  have "\<exists>w. interSourceFrameTransform (point (pt_x s') (pt_y s')) u t = Inr w"
    using s'' by (auto simp: interSourceFrameTransform_def pixelToRay_def split: if_splits)
  with inter same obtain w where w: "interSourceFrameTransform (point (pt_x s') (pt_y s')) u t = Inr w" "pt_x w = pt_x s" "pt_y w = pt_y s"
    by metis
  obtain v where v: "transformPoint t s = Inr v" "pt_x v = pt_x (pixels_of t p)" "pt_y v = pt_y (pixels_of t p)"
    using consistent_maps_back(2) [OF assms(1), of "pixels_of t p"] assms(9) by auto
  then have "transformPoint t w = Inr v" using w(2,3) unfolding transformPoint_def by (metis map_point_cong)
  then have "remapPointTo u t r = Inr (normalized_for t True v)" by (simp add: remapPointTo_def inv w(1) nr)
  also have "normalized_for t True v = p"
    using wh n v(2,3) assms(8) by (simp add: normalized_for_def pixels_of_def fraction_def)
  finally show ?thesis using r fr by blast
qed

text \<open>A camera with intrinsics and a pose, a frame that is flipped, and the same camera whose image is scaled.\<close>

definition sample_camera :: ImgTransformation where
  "sample_camera = (ImgTransformation_sizes 100 50 100 50)\<lparr>sourceIntrinsicMatrix := aff 100 0 50 0 100 25,
     sourceIntrinsicMatrixInv := aff (1 / 100) 0 (- 1 / 2) 0 (1 / 100) (- 1 / 4)\<rparr>"

lemma sample_camera_ok: "camera_ok sample_camera"
proof -
  have "getMatrixInverse3 (aff 100 0 50 0 100 25) = Inr (aff (1 / 100) 0 (- 1 / 2) 0 (1 / 100) (- 1 / 4))"
    by (subst aff_inverse) simp_all
  then have "inverse_pair (aff 100 0 50 0 100 25) (aff (1 / 100) 0 (- 1 / 2) 0 (1 / 100) (- 1 / 4))"
    unfolding inverse_pair_def by (intro exI) (rule conjI, rule refl, simp)
  then show ?thesis
    by (simp add: camera_ok_def plain_lens_def sample_camera_def hasNonZeroDistortion_def ImgTransformation_sizes_def ImgTransformation_default_def)
qed

lemma sample_camera_new: "consistent sample_camera"
  using new_image_consistent [of 100 50 100 50] by (simp add: consistent_def sample_camera_def)

theorem remap_there_and_back_witness:
  "\<exists>q. remapPointTo sample_camera (sample_camera\<lparr>img_width := 200\<rparr>) (flagged_point (1 / 4) (1 / 2) True) = Inr q \<and> fraction q \<and>
       remapPointTo (sample_camera\<lparr>img_width := 200\<rparr>) sample_camera q = Inr (flagged_point (1 / 4) (1 / 2) True)"
proof (rule remap_there_and_back [where s = "point 25 25"])
  let ?u = "sample_camera\<lparr>img_width := 200\<rparr>"
  have auto: "toCameraSocket (img_extrinsics sample_camera) = AUTO"
    by (simp add: sample_camera_def ImgTransformation_sizes_def ImgTransformation_default_def Extrinsics_default_def)
  show "consistent sample_camera" "camera_ok sample_camera" by (rule sample_camera_new, rule sample_camera_ok)
  show "consistent ?u" using sample_camera_new by simp
  show "camera_ok ?u" using sample_camera_ok by (simp add: camera_ok_def plain_lens_def)
  show "same_rig sample_camera ?u" using auto by (simp add: same_rig_def)
  show "isValid sample_camera" "isValid ?u" by (simp_all add: isValid_def sample_camera_def ImgTransformation_sizes_def)
  show "fraction (flagged_point (1 / 4) (1 / 2) True)" by (simp add: fraction_def flagged_point_def)
  show "invTransformPoint sample_camera (pixels_of sample_camera (flagged_point (1 / 4) (1 / 2) True)) = Inr (point 25 25)"
    by (simp add: invTransformPoint_def map_point_def pixels_of_def flagged_point_def isNormalized_point_def sample_camera_def
        ImgTransformation_sizes_def ImgTransformation_default_def unit3_def mat_vec3_def upt3 dehomogenizePoint3_def)
  show "visible_in sample_camera ?u (point 25 25)"
    using auto unfolding visible_in_def plain_rays(1) [OF sample_camera_ok] rotation_between_def
    by (simp add: unit3_def mat_vec3_def upt3 sample_camera_def aff_def)
qed

section \<open>Fields of view\<close>

lemma tan_arctan_half: "tan (2 * arctan x * 180 / pi * (pi / 180) / 2) = x"
  by (simp add: tan_arctan)

text \<open>
  For a camera with a positive focal length and an image that is not empty, the horizontal and vertical fields of view lie between 0 and
  180 degrees, and the diagonal one is computed, is wider than the horizontal one and narrower than 180 degrees.
\<close>

theorem fields_of_view_bounds:
  assumes "0 < (if source then sourceIntrinsicMatrix t else getIntrinsicMatrix t) ! 0 ! 0"
    and "0 < (if source then sourceIntrinsicMatrix t else getIntrinsicMatrix t) ! 1 ! 1" and "isValid t"
  shows "0 < getHFov t source \<and> getHFov t source < 180 \<and> 0 < getVFov t source \<and> getVFov t source < 180 \<and>
     (\<exists>d. getDFov t source = Inr d \<and> getHFov t source < d \<and> d < 180)"
proof -
  define fx where "fx = (if source then sourceIntrinsicMatrix t else getIntrinsicMatrix t) ! 0 ! 0"
  define fy where "fy = (if source then sourceIntrinsicMatrix t else getIntrinsicMatrix t) ! 1 ! 1"
  define w :: real where "w = of_int (if source then srcWidth t else img_width t)"
  define h :: real where "h = of_int (if source then srcHeight t else img_height t)"
  have pos: "0 < fx" "0 < fy" "0 < w" "0 < h" using assms by (simp_all add: fx_def fy_def w_def h_def isValid_def)
  have H: "getHFov t source = 2 * arctan (w / (2 * fx)) * 180 / pi" by (simp add: getHFov_def Let_def w_def fx_def)
  have V: "getVFov t source = 2 * arctan (h / (2 * fy)) * 180 / pi" by (simp add: getVFov_def Let_def h_def fy_def)
  have range: "0 < 2 * arctan x * 180 / pi \<and> 2 * arctan x * 180 / pi < 180" if "0 < x" for x
    using that arctan_ubound [of x] by (simp add: field_simps)
  have Hr: "0 < getHFov t source" "getHFov t source < 180" unfolding H using range [of "w / (2 * fx)"] pos by simp_all
  have Vr: "0 < getVFov t source" "getVFov t source < 180" unfolding V using range [of "h / (2 * fy)"] pos by simp_all
  define x where "x = sqrt (w\<^sup>2 + h\<^sup>2) / w * (w / (2 * fx))"
  have "w < sqrt (w\<^sup>2 + h\<^sup>2)" using pos by (intro real_less_rsqrt) simp
  then have "1 < sqrt (w\<^sup>2 + h\<^sup>2) / w" using pos by simp
  then have x: "w / (2 * fx) < x" using pos by (simp add: x_def field_simps)
  then have x0: "0 < x" using pos by (smt (verit) divide_pos_pos)
  have D: "getDFov t source = Inr (2 * arctan x * 180 / pi)"
    using pos Hr [unfolded H] unfolding getDFov_def Let_def w_def [symmetric] h_def [symmetric] H tan_arctan_half x_def
    by (simp add: not_le del: mult_le_0_iff divide_le_0_iff)
  have "getHFov t source < 2 * arctan x * 180 / pi" unfolding H using x arctan_less_iff by (simp add: divide_strict_right_mono)
  then show ?thesis using Hr Vr D range [OF x0] by blast
qed

theorem fields_of_view_bounds_witness:
  "\<exists>d. getDFov sample_camera True = Inr d \<and> getHFov sample_camera True < d \<and> d < 180"
  using fields_of_view_bounds [of True sample_camera]
  by (simp add: sample_camera_def aff_def isValid_def ImgTransformation_sizes_def)

section \<open>Where the code does something else\<close>

lemma square_points:
  "rect_points \<lparr>r_center = point x y, r_size = size2f w h, r_angle = 0\<rparr> =
     [point (x - w / 2) (y - h / 2), point (x + w / 2) (y - h / 2), point (x + w / 2) (y + h / 2), point (x - w / 2) (y + h / 2)]"
  by (simp add: rect_points_def size2f_def Let_def add.commute)

lemma bindR_return: "bindR x Inr = x"
  by (cases x) simp_all

lemma point_flags: "\<not> pt_normalized (point x y)" "\<not> pt_hasNormalized (point x y)"
  by (simp_all add: point_def)

text \<open>
  The source region of a crop is computed with the matrix instead of its inverse. After a crop of the square from (10, 10) to (30, 30) of a
  new image, the region is the square from -10 to 10, so that the centre (20, 20) of the crop is not in the mask of the source, and the point
  (5, 5) outside of the crop is.
\<close>

theorem crop_records_shifted_region:
  assumes "fit [(-10, -10), (10, -10), (10, 10), (-10, 10)] = Inr \<lparr>r_center = point 0 0, r_size = size2f 20 20, r_angle = 0\<rparr>"
    and "fit [(-10, -10), (0, -10), (0, 0), (-10, 0)] = Inr d"
  shows "invTransformPoint (fst (addCrop fit 10 10 20 20 (ImgTransformation_size 100 100))) (point 10 10) = Inr (point 20 20) \<and>
     snd (getSrcMaskPt fit 20 20 (fst (addCrop fit 10 10 20 20 (ImgTransformation_size 100 100)))) = Inr False \<and>
     snd (getSrcMaskPt fit 5 5 (fst (addCrop fit 10 10 20 20 (ImgTransformation_size 100 100)))) = Inr True"
proof -
  let ?S = "\<lparr>r_center = point 0 0, r_size = size2f 20 20, r_angle = 0\<rparr>"
  let ?t1 = "(ImgTransformation_size 100 100)\<lparr>img_width := 20, img_height := 20\<rparr>"
  let ?c = "?t1\<lparr>transformationMatrix := aff 1 0 (-10) 0 1 (-10), transformationMatrixInv := aff 1 0 10 0 1 10, cropsValid := False\<rparr>"
  have u: "unit3 = aff 1 0 0 0 1 0" by (simp add: unit3_def aff_def)
  have a: "addTransformation (shift_matrix (-10) (-10)) ?t1 = (?c, Inr ())"
    by (simp add: addTransformation_def shift_is_aff ImgTransformation_size_def ImgTransformation_sizes_def ImgTransformation_default_def u
        aff_mult aff_inverse)
  have crop: "addCrop fit 10 10 20 20 (ImgTransformation_size 100 100) = (?c\<lparr>srcCrops := [?S]\<rparr>, Inr ())"
    using assms(1) unfolding addCrop_def
    by (simp add: to_size_def a and_then_def mat_vec3_aff dehomogenizePoint3_def)
      (simp add: ImgTransformation_size_def ImgTransformation_sizes_def ImgTransformation_default_def)
  have region: "narrow 100 100 (0, 100, 0, 100) ?S = (0, 10, 0, 10)"
    by (simp add: narrow_def square_points outer_bounds_def to_size_def)
  let ?C = "\<lparr>r_center = point 5 5, r_size = size2f 10 10, r_angle = 0\<rparr>"
  have fits: "transformRect fit (?c\<lparr>srcCrops := [?S], srcCrop := ?C\<rparr>) ?C = Inr d"
    using assms(2) unfolding transformRect_def map_rect_def square_points transformPoint_def
    by (simp add: map_point_def mat_vec3_aff dehomogenizePoint3_def)
  have calc: "calcCrops fit (?c\<lparr>srcCrops := [?S]\<rparr>) = (?c\<lparr>srcCrops := [?S], srcCrop := ?C, dstCrop := d, cropsValid := True\<rparr>, Inr ())"
    using region fits unfolding calcCrops_def Let_def
    by (simp add: ImgTransformation_size_def ImgTransformation_sizes_def to_size_def)
  have "invTransformPoint (?c\<lparr>srcCrops := [?S]\<rparr>) (point 10 10) = Inr (point 20 20)"
    by (simp add: invTransformPoint_def map_point_def mat_vec3_aff dehomogenizePoint3_def)
  then show ?thesis
    unfolding crop fst_conv getSrcMaskPt_def calc by (simp add: isPointInRotatedRectangle_def size2f_def)
qed

text \<open>
  A rectangle in pixels is remapped corner by corner, and a corner carries no flag: one that lies in the first pixel is taken for a fraction
  of the frame. Here an image is scaled by 2, and the square from (1/2, 1/2) to (41/2, 41/2), whose corners should go to 1 and 41, is skewed.
\<close>

theorem corner_in_first_pixel_misread:
  "remapRectTo fit (ImgTransformation_size 100 100) (fst (addScale 2 2 (ImgTransformation_size 100 100)))
     \<lparr>r_center = point (21 / 2) (21 / 2), r_size = size2f 20 20, r_angle = 0\<rparr> = fit [(1 / 2, 1 / 2), (41, 1), (41, 41), (1, 41)]"
proof -
  let ?t = "ImgTransformation_size 100 100"
  let ?u = "?t\<lparr>img_width := 200, img_height := 200, transformationMatrix := aff 2 0 0 0 2 0,
      transformationMatrixInv := aff (1 / 2) 0 0 0 (1 / 2) 0, cropsValid := False\<rparr>"
  have u3: "unit3 = aff 1 0 0 0 1 0" by (simp add: unit3_def aff_def)
  have "\<lfloor>200 + ROUND_UP_EPS\<rfloor> = 200" by (simp add: ROUND_UP_EPS_def floor_eq_iff)
  then have size: "to_size (truncated (200 + ROUND_UP_EPS)) = 200" by (simp add: truncated_def to_size_def ROUND_UP_EPS_def)
  have s: "[[2, 0, 0], [0, 2, 0], [0, 0, 1]] = aff 2 0 0 0 2 0" by (simp add: aff_def)
  have u: "fst (addScale 2 2 ?t) = ?u"
    unfolding addScale_def s
    by (simp add: addTransformation_def ImgTransformation_size_def ImgTransformation_sizes_def ImgTransformation_default_def u3
        aff_mult aff_inverse size)
  have inter: "interSourceFrameTransform (point x y) ?t ?u = Inr (point x y)" for x y
    by (simp add: interSourceFrameTransform_def pixelToRay_def rayToPixel_def rotation_between_def undistortPoint_def distortPoint_def
        ImgTransformation_size_def ImgTransformation_sizes_def ImgTransformation_default_def Extrinsics_default_def u3 mat_vec3_aff)
  have inv: "invTransformPoint ?t p = Inr (point (pt_x p) (pt_y p))" for p
    by (simp add: invTransformPoint_def map_point_def ImgTransformation_size_def ImgTransformation_sizes_def ImgTransformation_default_def u3
        mat_vec3_aff dehomogenizePoint3_def)
  have fwd: "transformPoint ?u (point x y) = Inr (point (2 * x) (2 * y))" for x y
    by (simp add: transformPoint_def map_point_def mat_vec3_aff dehomogenizePoint3_def)
  have remap: "remapPointTo ?t ?u p = Inr (normalized_for ?u (isNormalized_point p) (point (2 * pt_x (pixels_of ?t p)) (2 * pt_y (pixels_of ?t p))))" for p
    by (simp add: remapPointTo_def inv inter fwd)
  have wh: "img_width ?t = 100" "img_height ?t = 100" by (simp_all add: ImgTransformation_size_def ImgTransformation_sizes_def)
  have n: "isNormalized_rect \<lparr>r_center = point (21 / 2) (21 / 2), r_size = size2f 20 20, r_angle = 0\<rparr> = Inr False"
    by (simp add: isNormalized_rect_def isNormalized_size_def isNormalized_point_def isNormalized_pair_def point_def size2f_def)
  show ?thesis
    unfolding u remapRectTo_def n map_rect_def
    by (simp add: square_points remap isNormalized_point_def isNormalized_pair_def normalized_for_def pixels_of_def wh point_flags bindR_return)
qed

text \<open>Projecting a rectangle that is given as fractions turns the caller's rectangle into pixels.\<close>

theorem projecting_changes_the_rectangle:
  assumes "isNormalized_rect r = Inr True" and "0 < img_width t" and "img_width t < 2 ^ 32" and "0 < img_height t" and "img_height t < 2 ^ 32"
  shows "pt_x (r_center (fst (projectRectTo fit t u r depth))) = pt_x (r_center r) * of_int (img_width t) \<and>
     isNormalized_rect (fst (projectRectTo fit t u r depth)) = Inr False"
  using assms
  by (simp add: projectRectTo_def denormalize_rect_def Let_def flagged_point_def flagged_size_def isNormalized_rect_def
      isNormalized_point_def isNormalized_size_def split: if_splits)

text \<open>A scaling by 0 throws, after it has made the matrix singular; the inverse is then that of the matrix before.\<close>

theorem scaling_by_zero_leaves_inverse:
  "\<exists>e. snd (addScale 0 0 (ImgTransformation_size w h)) = Inl e \<and>
     transformationMatrix (fst (addScale 0 0 (ImgTransformation_size w h))) = [[0, 0, 0], [0, 0, 0], [0, 0, 1]] \<and>
     transformationMatrixInv (fst (addScale 0 0 (ImgTransformation_size w h))) = unit3"
  by (simp add: addScale_def addTransformation_def Let_def getMatrixInverse3_def matMulArray_def upt3 ImgTransformation_size_def
      ImgTransformation_sizes_def ImgTransformation_default_def unit3_def)

end
