(* ===== verification/DepthStatistics.thy ===== *)
theory DepthStatistics
  imports Complex_Main Prelude "HOL-Library.Multiset"
begin

text \<open>
  Depth statistics of a region (\<open>DepthStats\<close> of src/pipeline/utilities/SpatialLocationCalculator/SpatialUtils.cpp): the valid
  pixels with their sum, number, minimum and maximum, and the depth they give by one of five algorithms. The algorithms of
  the standard library that reorder the pixels are \<open>sort\<close>; no result depends on their order. Values of
  \<open>uint16_t\<close> are natural numbers; the counter is one too, as a frame has fewer than 2^32 pixels.
\<close>

datatype SpatialLocationCalculatorAlgorithm = DEPTH_AVERAGE | DEPTH_MIN | DEPTH_MAX | DEPTH_MODE | DEPTH_MEDIAN

record DepthStats =
  ds_sum :: real
  ds_counter :: nat
  ds_max :: nat
  ds_min :: nat
  ds_lowerThreshold :: nat
  ds_upperThreshold :: nat
  validPixels :: "nat list"

definition DepthStats_new :: "nat \<Rightarrow> nat \<Rightarrow> DepthStats" where
  "DepthStats_new lower upper =
     \<lparr>ds_sum = 0, ds_counter = 0, ds_max = 0, ds_min = 65535, ds_lowerThreshold = lower, ds_upperThreshold = upper, validPixels = []\<rparr>"

definition addPixel :: "16 word \<Rightarrow> DepthStats \<Rightarrow> DepthStats" where
  "addPixel w s =
     (let px = unat w
      in if px > ds_lowerThreshold s \<and> px < ds_upperThreshold s
         then s\<lparr>validPixels := validPixels s @ [px], ds_sum := ds_sum s + of_nat px, ds_counter := ds_counter s + 1,
                ds_min := (if px < ds_min s then px else ds_min s), ds_max := (if px > ds_max s then px else ds_max s)\<rparr>
         else s)"

text \<open>The mode by a histogram, and by runs of the sorted pixels.\<close>

definition histogram :: "nat \<Rightarrow> nat \<Rightarrow> nat list \<Rightarrow> nat list" where
  "histogram minVal maxVal pxs =
     foldl (\<lambda>h px. if px < minVal \<or> px > maxVal then h else h[px - minVal := h ! (px - minVal) + 1]) (replicate (maxVal - minVal + 1) 0) pxs"

definition mode_dense :: "nat \<Rightarrow> nat \<Rightarrow> nat list \<Rightarrow> nat" where
  "mode_dense minVal maxVal pxs =
     (let h = histogram minVal maxVal pxs
      in case foldl (\<lambda>(maxCount, modeValue) i. if h ! i > maxCount then (h ! i, minVal + i) else (maxCount, modeValue)) (0, minVal) [0..<length h] of
           (maxCount, modeValue) \<Rightarrow> if maxCount \<noteq> 0 then modeValue else 0)"

definition run_step :: "nat list \<Rightarrow> nat \<times> nat \<times> nat \<Rightarrow> nat \<Rightarrow> nat \<times> nat \<times> nat" where
  "run_step s acc i =
     (case acc of (modeValue, maxCount, currentCount) \<Rightarrow>
        if s ! i = s ! (i - 1) then (modeValue, maxCount, currentCount + 1)
        else if currentCount > maxCount then (s ! (i - 1), currentCount, 1) else (modeValue, maxCount, 1))"

definition mode_sorted :: "nat list \<Rightarrow> nat" where
  "mode_sorted pxs =
     (let s = sort pxs
      in case foldl (run_step s) (s ! 0, 1, 1) [1..<length s] of
           (modeValue, maxCount, currentCount) \<Rightarrow> if currentCount > maxCount then last s else modeValue)"

definition MAX_HISTOGRAM_RANGE :: nat where
  "MAX_HISTOGRAM_RANGE = 4096"

definition depth_mode :: "nat \<Rightarrow> nat \<Rightarrow> nat list \<Rightarrow> nat" where
  "depth_mode minVal maxVal pxs =
     (if maxVal < minVal then 0
      else if maxVal - minVal + 1 \<le> MAX_HISTOGRAM_RANGE then mode_dense minVal maxVal pxs
      else mode_sorted pxs)"

definition calculateDepth :: "DepthStats \<Rightarrow> SpatialLocationCalculatorAlgorithm \<Rightarrow> real" where
  "calculateDepth s algo =
     (if ds_counter s = 0 \<or> validPixels s = [] then 0
      else case algo of
             DEPTH_MEDIAN \<Rightarrow> of_nat (sort (validPixels s) ! (length (validPixels s) div 2))
           | DEPTH_AVERAGE \<Rightarrow> ds_sum s / of_nat (ds_counter s)
           | DEPTH_MIN \<Rightarrow> of_nat (ds_min s)
           | DEPTH_MAX \<Rightarrow> of_nat (ds_max s)
           | DEPTH_MODE \<Rightarrow> of_nat (depth_mode (ds_min s) (ds_max s) (validPixels s)))"

definition addPixels :: "16 word list \<Rightarrow> DepthStats \<Rightarrow> DepthStats" where
  "addPixels ws s = fold addPixel ws s"

section \<open>What the statistics hold\<close>

definition stats_of :: "nat \<Rightarrow> nat \<Rightarrow> nat list \<Rightarrow> DepthStats \<Rightarrow> bool" where
  "stats_of lower upper pxs s \<longleftrightarrow>
     ds_lowerThreshold s = lower \<and> ds_upperThreshold s = upper \<and> validPixels s = pxs \<and> ds_counter s = length pxs \<and>
     ds_sum s = (\<Sum>p\<leftarrow>pxs. of_nat p) \<and> (\<forall>p \<in> set pxs. lower < p \<and> p < upper \<and> p \<le> 65535) \<and>
     ds_min s = Min (insert 65535 (set pxs)) \<and> ds_max s = Max (insert 0 (set pxs))"

lemma stats_new: "stats_of lower upper [] (DepthStats_new lower upper)"
  by (simp add: stats_of_def DepthStats_new_def)

lemma addPixel_stats:
  assumes "stats_of lower upper pxs s"
  shows "stats_of lower upper (if lower < unat w \<and> unat w < upper then pxs @ [unat w] else pxs) (addPixel w s)"
proof -
  have "unat w < 2 ^ LENGTH(16)" by (rule unsigned_less)
  then have "unat w \<le> 65535" by simp
  note w = this
  show ?thesis
  proof (cases "lower < unat w \<and> unat w < upper")
    case True
    have mn: "Min (insert 65535 (insert (unat w) (set pxs))) = min (unat w) (Min (insert 65535 (set pxs)))"
      by (subst insert_commute, rule Min_insert) auto
    have mx: "Max (insert 0 (insert (unat w) (set pxs))) = max (unat w) (Max (insert 0 (set pxs)))"
      by (subst insert_commute, rule Max_insert) auto
    have th: "ds_lowerThreshold s = lower" "ds_upperThreshold s = upper" using assms by (simp_all add: stats_of_def)
    have "addPixel w s = s\<lparr>validPixels := validPixels s @ [unat w], ds_sum := ds_sum s + of_nat (unat w), ds_counter := ds_counter s + 1,
        ds_min := min (unat w) (ds_min s), ds_max := max (unat w) (ds_max s)\<rparr>"
      using True by (simp add: addPixel_def Let_def th min_def max_def)
    moreover have "set (pxs @ [unat w]) = insert (unat w) (set pxs)" by simp
    ultimately show ?thesis
      using assms True w unfolding stats_of_def by (simp del: Min_insert Max_insert insert_iff add: mn mx)
  next
    case False
    then have "addPixel w s = s" using assms by (auto simp: addPixel_def Let_def stats_of_def)
    with False assms show ?thesis by (simp only: if_False)
  qed
qed

definition valid_of :: "nat \<Rightarrow> nat \<Rightarrow> 16 word list \<Rightarrow> nat list" where
  "valid_of lower upper ws = filter (\<lambda>p. lower < p \<and> p < upper) (map unat ws)"

lemma addPixels_stats_from:
  "stats_of lower upper pxs s \<Longrightarrow> stats_of lower upper (pxs @ valid_of lower upper ws) (addPixels ws s)"
proof (induction ws arbitrary: pxs s)
  case (Cons w ws)
  note ih = Cons.IH [OF addPixel_stats [OF Cons.prems, of w]]
  show ?case
  proof (cases "lower < unat w \<and> unat w < upper")
    case True
    with ih show ?thesis by (simp add: addPixels_def valid_of_def)
  next
    case False
    with ih show ?thesis by (auto simp: addPixels_def valid_of_def)
  qed
qed (simp add: addPixels_def valid_of_def)

lemma addPixels_stats: "stats_of lower upper (valid_of lower upper ws) (addPixels ws (DepthStats_new lower upper))"
  using addPixels_stats_from [OF stats_new, of lower upper ws] by simp

lemma stats_Min_Max:
  assumes "stats_of lower upper pxs s" and "pxs \<noteq> []"
  shows "ds_min s = Min (set pxs)" and "ds_max s = Max (set pxs)"
proof -
  have le: "Min (set pxs) \<le> 65535"
    using assms Min_in [of "set pxs"] by (auto simp: stats_of_def)
  have "Min (insert 65535 (set pxs)) = min 65535 (Min (set pxs))" using assms(2) by (intro Min_insert) auto
  then show "ds_min s = Min (set pxs)" using assms le by (simp add: stats_of_def min_absorb2)
  show "ds_max s = Max (set pxs)" using assms by (simp add: stats_of_def)
qed

section \<open>The mode\<close>

text \<open>The smallest of the most frequent values.\<close>

definition is_mode :: "nat list \<Rightarrow> nat \<Rightarrow> bool" where
  "is_mode xs m \<longleftrightarrow> m \<in> set xs \<and> (\<forall>v. count_list xs v \<le> count_list xs m) \<and> (\<forall>v < m. count_list xs v < count_list xs m)"

lemma is_mode_unique: "is_mode xs m \<Longrightarrow> is_mode xs n \<Longrightarrow> m = n"
  by (metis is_mode_def leD linorder_neqE_nat)

lemma histogram_from:
  assumes "length h = maxVal - minVal + 1" and "minVal \<le> maxVal"
  shows "length (foldl (\<lambda>h px. if px < minVal \<or> px > maxVal then h else h[px - minVal := h ! (px - minVal) + 1]) h pxs) = maxVal - minVal + 1 \<and>
     (\<forall>i \<le> maxVal - minVal.
        foldl (\<lambda>h px. if px < minVal \<or> px > maxVal then h else h[px - minVal := h ! (px - minVal) + 1]) h pxs ! i =
        h ! i + count_list pxs (minVal + i))"
  using assms(1)
proof (induction pxs arbitrary: h)
  case (Cons p pxs)
  show ?case
  proof (cases "p < minVal \<or> p > maxVal")
    case True
    with Cons.IH [OF Cons.prems] assms(2) show ?thesis by auto
  next
    case False
    then have p: "minVal \<le> p" "p \<le> maxVal" by auto
    have l: "length (h[p - minVal := h ! (p - minVal) + 1]) = maxVal - minVal + 1" using Cons.prems by simp
    have e: "minVal + i = p \<longleftrightarrow> i = p - minVal" for i using p by auto
    from Cons.IH [OF l] show ?thesis using False p Cons.prems by (auto simp: nth_list_update e)
  qed
qed auto

lemma histogram_counts:
  assumes "minVal \<le> maxVal"
  shows "length (histogram minVal maxVal pxs) = maxVal - minVal + 1"
    and "i \<le> maxVal - minVal \<Longrightarrow> histogram minVal maxVal pxs ! i = count_list pxs (minVal + i)"
  using histogram_from [of "replicate (maxVal - minVal + 1) 0" maxVal minVal pxs, OF length_replicate assms]
  by (simp_all add: histogram_def nth_replicate del: replicate_Suc)

text \<open>The first position of the largest entry.\<close>

lemma first_largest:
  fixes f :: "nat \<Rightarrow> nat"
  shows "case foldl (\<lambda>(c, m) i. if f i > c then (f i, b + i) else (c, m)) (0, b) [0..<n] of
     (c, m) \<Rightarrow> (\<forall>i < n. f i \<le> c) \<and> (c = 0 \<or> (\<exists>j < n. m = b + j \<and> f j = c \<and> (\<forall>i < j. f i < c)))"
proof (induction n)
  case (Suc n)
  obtain c m where e: "foldl (\<lambda>(c, m) i. if f i > c then (f i, b + i) else (c, m)) (0, b) [0..<n] = (c, m)" by fastforce
  with Suc have ih: "\<forall>i < n. f i \<le> c" "c = 0 \<or> (\<exists>j < n. m = b + j \<and> f j = c \<and> (\<forall>i < j. f i < c))" by auto
  show ?case
  proof (cases "f n > c")
    case True
    then have "\<forall>i < n. f i < f n" using ih(1) by (meson le_less_trans)
    with True show ?thesis by (auto simp: e less_Suc_eq)
  next
    case False
    with ih show ?thesis by (auto simp: e less_Suc_eq)
  qed
qed simp

lemma mode_dense_correct:
  assumes "pxs \<noteq> []"
  shows "is_mode pxs (mode_dense (Min (set pxs)) (Max (set pxs)) pxs)"
proof -
  let ?a = "Min (set pxs)" and ?b = "Max (set pxs)"
  have ne: "set pxs \<noteq> {}" using assms by simp
  have ab: "?a \<le> ?b" using ne by (meson List.finite_set Max_ge Min_le all_not_in_conv order_trans)
  let ?h = "histogram ?a ?b pxs"
  obtain c m where e: "foldl (\<lambda>(c, m) i. if ?h ! i > c then (?h ! i, ?a + i) else (c, m)) (0, ?a) [0..<length ?h] = (c, m)" by fastforce
  have f: "\<forall>i < length ?h. ?h ! i \<le> c" "c = 0 \<or> (\<exists>j < length ?h. m = ?a + j \<and> ?h ! j = c \<and> (\<forall>i < j. ?h ! i < c))"
    using first_largest [where f = "\<lambda>i. ?h ! i" and b = ?a and n = "length ?h"] e by auto
  note hc = histogram_counts [OF ab, where pxs = pxs]
  have cnt: "count_list pxs v \<le> c" for v
  proof (cases "v \<in> set pxs")
    case True
    then have "?a \<le> v" "v \<le> ?b" by auto
    then have "?h ! (v - ?a) = count_list pxs v" "v - ?a < length ?h" using hc(1) hc(2) [of "v - ?a"] by auto
    with f(1) show ?thesis by metis
  qed (simp add: count_list_0_iff)
  obtain v where v: "v \<in> set pxs" using assms hd_in_set by blast
  then have "count_list pxs v \<noteq> 0" by (simp add: count_list_0_iff)
  with cnt [of v] have c: "c \<noteq> 0" by auto
  with f(2) obtain j where j: "j < length ?h" "m = ?a + j" "?h ! j = c" "\<forall>i < j. ?h ! i < c" by auto
  have mc: "count_list pxs m = c" using j(1-3) hc(1) hc(2) [of j] by auto
  have "count_list pxs w < c" if w: "w < m" for w
  proof (cases "w \<in> set pxs")
    case True
    then have "?a \<le> w" by simp
    then obtain i where i: "w = ?a + i" using le_Suc_ex by blast
    with w j(2) have "i < j" by simp
    with j(1,4) hc(1) hc(2) [of i] i show ?thesis by auto
  qed (use c in \<open>simp add: count_list_0_iff\<close>)
  moreover have "m \<in> set pxs" using mc c by (metis count_list_0_iff)
  ultimately have "is_mode pxs m" using cnt mc by (simp add: is_mode_def)
  with e c show ?thesis by (simp add: mode_dense_def Let_def)
qed

text \<open>The runs of the sorted values: what is known after the values \<open>take i s\<close>.\<close>

definition runs_known :: "nat list \<Rightarrow> nat \<times> nat \<times> nat \<Rightarrow> nat list \<Rightarrow> bool" where
  "runs_known s acc ys \<longleftrightarrow>
     (case acc of (modeValue, maxCount, currentCount) \<Rightarrow>
        currentCount = count_list ys (last ys) \<and> 1 \<le> maxCount \<and> modeValue \<in> set ys \<and>
        (\<forall>v \<in> set ys. v \<noteq> last ys \<longrightarrow> count_list ys v \<le> maxCount \<and> (count_list ys v = maxCount \<longrightarrow> modeValue \<le> v)) \<and>
        (if modeValue = last ys then maxCount = 1 \<and> set ys = {modeValue} else count_list ys modeValue = maxCount))"

lemma run_step_known:
  assumes "runs_known s acc ys" and "ys \<noteq> []" and "sorted (ys @ [s ! i])" and "s ! (i - 1) = last ys"
  shows "runs_known s (run_step s acc i) (ys @ [s ! i])"
proof -
  obtain m c k where acc: "acc = (m, c, k)" by (cases acc) auto
  note known = assms(1) [unfolded runs_known_def acc prod.case]
  have below: "\<forall>v \<in> set ys. v \<le> s ! i" using assms(3) by (simp add: sorted_append)
  note pred = assms(4) [unfolded One_nat_def]
  show ?thesis
  proof (cases "s ! i = last ys")
    case True
    with known show ?thesis by (auto simp: runs_known_def run_step_def acc pred split: if_splits)
  next
    case False
    have lt: "last ys < s ! i" using below assms(2) False by (metis last_in_set le_neq_implies_less)
    have top: "\<forall>v \<in> set ys. v \<le> last ys"
    proof -
      have "sorted (butlast ys @ [last ys])" using assms(2,3) by (simp add: sorted_append)
      moreover have "set ys = insert (last ys) (set (butlast ys))"
        using assms(2) by (metis append_butlast_last_id set_append list.set(1,2) Un_insert_right sup_bot_right)
      ultimately show ?thesis by (auto simp: sorted_append)
    qed
    then have new: "s ! i \<notin> set ys" using lt by auto
    have pos: "Suc 0 \<le> count_list ys (last ys)" using assms(2) by (metis Suc_leI count_list_0_iff last_in_set neq0_conv)
    have c0: "count_list ys (s ! i) = 0" using new by simp
    show ?thesis
    proof (cases "k > c")
      case True
      with False known new c0 assms(2) show ?thesis
        by (auto simp: runs_known_def run_step_def acc pred split: if_splits)
    next
      case le: False
      have "m \<le> v" if "v \<in> set ys" "count_list ys v = c" for v
        using that known top le False by (cases "v = last ys") (auto split: if_splits)
      with le False known new c0 pos show ?thesis
        by (auto simp: runs_known_def run_step_def acc pred split: if_splits)
    qed
  qed
qed

lemma runs_loop:
  assumes "sorted s" and "1 \<le> n" and "n \<le> length s"
  shows "runs_known s (foldl (run_step s) (s ! 0, 1, 1) [1..<n]) (take n s)"
  using assms(2,3)
proof (induction n rule: dec_induct)
  case base
  have "take 1 s = [s ! 0]" using base by (cases s) auto
  then show ?case by (simp add: runs_known_def)
next
  case (step n)
  have t: "take (Suc n) s = take n s @ [s ! n]" using step.prems by (simp add: take_Suc_conv_app_nth)
  have n: "1 \<le> n" "n < length s" using step.hyps step.prems by simp_all
  then have ne: "take n s \<noteq> []" by auto
  have "last (take n s) = s ! (n - 1)" using n ne by (simp add: last_conv_nth min_def)
  moreover have "sorted (take n s @ [s ! n])" unfolding t [symmetric] using assms(1) by (rule sorted_wrt_take)
  ultimately show ?case
    using run_step_known [OF step.IH [OF Suc_leD [OF step.prems]] ne, of n] step.hyps by (simp add: t)
qed

lemma mode_sorted_correct:
  assumes "pxs \<noteq> []"
  shows "is_mode pxs (mode_sorted pxs)"
proof -
  let ?s = "sort pxs"
  have cnt: "count_list ?s v = count_list pxs v" for v by (metis count_mset mset_sort)
  have l: "1 \<le> length ?s" using assms by (cases pxs) auto
  have ne: "?s \<noteq> []" using assms by (metis set_sort set_empty)
  obtain m c k where acc: "foldl (run_step ?s) (?s ! 0, 1, 1) [1..<length ?s] = (m, c, k)" by (metis prod_cases3)
  have "runs_known ?s (m, c, k) ?s" using runs_loop [OF sorted_sort l order_refl] unfolding acc by simp
  then have k: "k = count_list ?s (last ?s)" and c: "1 \<le> c" and m: "m \<in> set ?s"
    and others: "\<And>v. v \<in> set ?s \<Longrightarrow> v \<noteq> last ?s \<Longrightarrow> count_list ?s v \<le> c \<and> (count_list ?s v = c \<longrightarrow> m \<le> v)"
    and md: "if m = last ?s then c = 1 \<and> set ?s = {m} else count_list ?s m = c"
    unfolding runs_known_def prod.case by blast+
  have top: "v \<le> last ?s" if "v \<in> set ?s" for v
  proof -
    from that obtain i where "i < length ?s" "?s ! i = v" by (metis in_set_conv_nth)
    then show ?thesis using sorted_nth_mono [OF sorted_sort, of i "length ?s - 1" pxs] ne by (simp add: last_conv_nth)
  qed
  have out: "count_list ?s v = 0" if "v \<notin> set ?s" for v using that by simp
  have pos: "1 \<le> k" using ne k by (metis One_nat_def Suc_leI count_list_0_iff last_in_set neq0_conv)
  have "is_mode ?s (if k > c then last ?s else m)"
  proof (cases "k > c")
    case True
    have "count_list ?s v < k" if "v \<noteq> last ?s" for v
      using others [of v] out [of v] that True by (cases "v \<in> set ?s") auto
    note less = this
    have "count_list ?s v \<le> k" for v
      using less [of v] k by (cases "v = last ?s") auto
    moreover have "count_list ?s v < k" if "v < last ?s" for v using less [of v] that by simp
    ultimately have "is_mode ?s (last ?s)" unfolding is_mode_def k [symmetric] using last_in_set [OF ne] by blast
    with True show ?thesis by simp
  next
    case False
    have le: "count_list ?s v \<le> c \<and> (count_list ?s v = c \<longrightarrow> m \<le> v)" for v
    proof (cases "v \<in> set ?s")
      case True
      with others [of v] top [OF m] False k show ?thesis by (cases "v = last ?s") auto
    next
      case False
      with out [of v] c show ?thesis by auto
    qed
    have "count_list ?s m = c"
    proof (cases "m = last ?s")
      case True
      with md have "c = 1" by simp
      with True pos k False show ?thesis by simp
    qed (use md in simp)
    note mc = this
    have "count_list ?s v < c" if "v < m" for v using le [of v] that by (cases "count_list ?s v = c") auto
    then have "is_mode ?s m" unfolding is_mode_def mc using m le by blast
    with False show ?thesis by simp
  qed
  then have "is_mode pxs (if k > c then last ?s else m)" by (simp add: is_mode_def cnt)
  then show ?thesis unfolding mode_sorted_def Let_def acc by simp
qed

text \<open>
  C31. The two ways of finding the mode, by a histogram over a small range and by the runs of the sorted values otherwise, agree: both give
  the most frequent value of a region, and the smallest if there are several.
\<close>

theorem mode_paths_agree:
  assumes "pxs \<noteq> []"
  shows "mode_dense (Min (set pxs)) (Max (set pxs)) pxs = mode_sorted pxs \<and> is_mode pxs (depth_mode (Min (set pxs)) (Max (set pxs)) pxs)"
proof -
  have ab: "Min (set pxs) \<le> Max (set pxs)"
    using assms by (meson List.finite_set Max_ge Min_le hd_in_set order_trans)
  from is_mode_unique [OF mode_dense_correct [OF assms] mode_sorted_correct [OF assms]]
  show ?thesis using ab mode_dense_correct [OF assms] mode_sorted_correct [OF assms] by (simp add: depth_mode_def)
qed

theorem mode_paths_agree_witness:
  "mode_dense 3 9000 [5, 3, 9000, 5, 3] = mode_sorted [5, 3, 9000, 5, 3]"
  using mode_paths_agree [of "[5, 3, 9000, 5, 3]"] by simp

text \<open>
  The depth of a region lies between the smallest and the largest valid pixel by every algorithm, hence strictly between the thresholds,
  and is 0 exactly when no pixel is valid.
\<close>

lemma depth_bounds:
  "if valid_of lower upper ws = [] then calculateDepth (addPixels ws (DepthStats_new lower upper)) algo = 0
   else of_nat (Min (set (valid_of lower upper ws))) \<le> calculateDepth (addPixels ws (DepthStats_new lower upper)) algo \<and>
     calculateDepth (addPixels ws (DepthStats_new lower upper)) algo \<le> of_nat (Max (set (valid_of lower upper ws))) \<and>
     of_nat lower < calculateDepth (addPixels ws (DepthStats_new lower upper)) algo \<and>
     calculateDepth (addPixels ws (DepthStats_new lower upper)) algo < of_nat upper"
proof -
  let ?v = "valid_of lower upper ws" and ?s = "addPixels ws (DepthStats_new lower upper)"
  note st = addPixels_stats [of lower upper ws]
  have pixels: "validPixels ?s = ?v" "ds_counter ?s = length ?v" "ds_sum ?s = (\<Sum>p\<leftarrow>?v. of_nat p)"
    "\<forall>p \<in> set ?v. lower < p \<and> p < upper" using st by (auto simp: stats_of_def)
  show ?thesis
  proof (cases "?v = []")
    case True
    with pixels show ?thesis by (simp add: calculateDepth_def)
  next
    case False
    note mm = stats_Min_Max [OF st False]
    have range: "Min (set ?v) \<le> p \<and> p \<le> Max (set ?v)" if "p \<in> set ?v" for p using that by simp
    have ends: "lower < Min (set ?v)" "Max (set ?v) < upper" using pixels(4) False by simp_all
    have med: "sort ?v ! (length ?v div 2) \<in> set ?v" using False by (metis div_less_dividend length_greater_0_conv length_sort nth_mem one_less_numeral_iff semiring_norm(76) set_sort)
    have "length xs * a \<le> sum_list xs \<and> sum_list xs \<le> length xs * b" if "\<forall>p \<in> set xs. a \<le> p \<and> p \<le> b" for xs and a b :: nat
      using that by (induction xs) auto
    then have "length ?v * Min (set ?v) \<le> sum_list ?v" "sum_list ?v \<le> length ?v * Max (set ?v)" using range by blast+
    moreover have "(\<Sum>p\<leftarrow>xs. of_nat p) = (of_nat (sum_list xs) :: real)" for xs :: "nat list" by (induction xs) auto
    ultimately have avg: "of_nat (Min (set ?v)) \<le> ds_sum ?s / of_nat (ds_counter ?s)" "ds_sum ?s / of_nat (ds_counter ?s) \<le> of_nat (Max (set ?v))"
      using False unfolding pixels by (simp_all add: field_simps flip: of_nat_mult)
    have mode: "depth_mode (Min (set ?v)) (Max (set ?v)) ?v \<in> set ?v"
      using mode_dense_correct [OF False] mode_sorted_correct [OF False] ends range False
      by (auto simp: depth_mode_def is_mode_def)
    have "of_nat (Min (set ?v)) \<le> calculateDepth ?s algo \<and> calculateDepth ?s algo \<le> of_nat (Max (set ?v))"
    proof (cases algo)
      case DEPTH_MODE
      then have "calculateDepth ?s algo = of_nat (depth_mode (Min (set ?v)) (Max (set ?v)) ?v)"
        using False by (simp add: calculateDepth_def pixels mm)
      with range [OF mode] show ?thesis by simp
    next
      case DEPTH_MEDIAN
      then have "calculateDepth ?s algo = of_nat (sort ?v ! (length ?v div 2))" using False by (simp add: calculateDepth_def pixels)
      with range [OF med] show ?thesis by simp
    next
      case DEPTH_AVERAGE
      with avg False show ?thesis by (simp add: calculateDepth_def pixels)
    next
      case DEPTH_MIN
      with range False hd_in_set [OF False] show ?thesis by (auto simp: calculateDepth_def pixels mm)
    next
      case DEPTH_MAX
      with range False hd_in_set [OF False] show ?thesis by (auto simp: calculateDepth_def pixels mm)
    qed
    with ends False show ?thesis by (smt (verit) of_nat_less_iff)
  qed
qed

end
