(* ===== verification/SpatialLocations.thy ===== *)
theory SpatialLocations
  imports Complex_Main DetectionDecoding ImageTransformations DepthStatistics
begin

text \<open>
  Positions in space from a depth image (src/pipeline/utilities/SpatialLocationCalculator/SpatialUtils.cpp,
  pipeline/datatype/SpatialLocationCalculatorConfig.cpp, pipeline/node/SpatialLocationCalculator.cpp): the depth of a region
  of interest, of a detection and of its keypoints, and the point of space that it gives. Floating-point numbers are real
  numbers; \<open>fit\<close> is the fit of a rectangle around points, as for the image transformations. The messages are
  taken apart: of a frame the size, the depth values and the transformation are used.
\<close>

section \<open>Rectangles\<close>

record Rect =
  rc_x :: real
  rc_y :: real
  rc_width :: real
  rc_height :: real
  rc_normalized :: bool
  rc_hasNormalized :: bool

definition Rect_of :: "real \<Rightarrow> real \<Rightarrow> real \<Rightarrow> real \<Rightarrow> Rect" where
  "Rect_of x y w h = \<lparr>rc_x = x, rc_y = y, rc_width = w, rc_height = h, rc_normalized = False, rc_hasNormalized = False\<rparr>"

definition isNormalized_Rect :: "Rect \<Rightarrow> bool" where
  "isNormalized_Rect r = (if rc_hasNormalized r then rc_normalized r else rc_x r + rc_width r \<le> 1 \<and> rc_y r + rc_height r \<le> 1)"

text \<open>\<open>std::round\<close> rounds halves away from zero.\<close>

definition round_away :: "real \<Rightarrow> int" where
  "round_away x = (if 0 \<le> x then \<lfloor>x + 1 / 2\<rfloor> else - \<lfloor>- x + 1 / 2\<rfloor>)"

definition denormalize_Rect :: "Rect \<Rightarrow> int \<Rightarrow> int \<Rightarrow> Rect" where
  "denormalize_Rect r w h =
     (if isNormalized_Rect r
      then \<lparr>rc_x = of_int (round_away (rc_x r * of_int w)), rc_y = of_int (round_away (rc_y r * of_int h)),
            rc_width = of_int (round_away (rc_width r * of_int w)), rc_height = of_int (round_away (rc_height r * of_int h)),
            rc_normalized = False, rc_hasNormalized = True\<rparr>
      else r)"

text \<open>The corners are used for their coordinates only.\<close>

definition topLeft :: "Rect \<Rightarrow> real \<times> real" where
  "topLeft r = (rc_x r, rc_y r)"

definition bottomRight :: "Rect \<Rightarrow> real \<times> real" where
  "bottomRight r = (rc_x r + rc_width r, rc_y r + rc_height r)"

definition rect2f_of :: "RotatedRect \<Rightarrow> Rect2f" where
  "rect2f_of r =
     \<lparr>r_center = flagged_point (rr_x r) (rr_y r) (rr_normalized r), r_size = flagged_size (rr_width r) (rr_height r) (rr_normalized r),
      r_angle = rr_angle r\<rparr>"

text \<open>\<open>RotatedRect::getOuterRect\<close>: minimum and maximum of x and of y.\<close>

definition rect_outer :: "Rect2f \<Rightarrow> real \<times> real \<times> real \<times> real" where
  "rect_outer r = outer_bounds (map (\<lambda>p. (pt_x p, pt_y p)) (rect_points r))"

definition Rect_of_rotated :: "Rect2f \<Rightarrow> Rect" where
  "Rect_of_rotated r = (case rect_outer r of (minx, maxx, miny, maxy) \<Rightarrow> Rect_of minx miny (maxx - minx) (maxy - miny))"

section \<open>Configuration\<close>

record ConfigData =
  cfg_roi :: Rect
  cfg_lowerThreshold :: nat
  cfg_upperThreshold :: nat
  cfg_algorithm :: SpatialLocationCalculatorAlgorithm
  cfg_stepSize :: int

record SpatialConfig =
  globalStepSize :: int
  globalLowerThreshold :: nat
  globalUpperThreshold :: nat
  globalAlgorithm :: SpatialLocationCalculatorAlgorithm
  globalKeypointRadius :: int
  calculateSpatialKeypoints :: bool
  useSegmentation :: bool
  segmentationPassthrough :: bool
  bBoxScaleFactor :: real
  sc_config :: "ConfigData list"

definition AUTO_STEP :: int where
  "AUTO_STEP = -1"

definition SpatialConfig_default :: SpatialConfig where
  "SpatialConfig_default =
     \<lparr>globalStepSize = AUTO_STEP, globalLowerThreshold = 100, globalUpperThreshold = 65535, globalAlgorithm = DEPTH_MEDIAN,
      globalKeypointRadius = 10, calculateSpatialKeypoints = True, useSegmentation = True, segmentationPassthrough = True,
      bBoxScaleFactor = 1, sc_config = []\<rparr>"

definition setROIs :: "ConfigData list \<Rightarrow> SpatialConfig \<Rightarrow> SpatialConfig" where
  "setROIs rois c = c\<lparr>sc_config := rois\<rparr>"

definition addROI :: "ConfigData \<Rightarrow> SpatialConfig \<Rightarrow> SpatialConfig" where
  "addROI roi c = c\<lparr>sc_config := sc_config c @ [roi]\<rparr>"

definition setDepthThresholds :: "nat \<Rightarrow> nat \<Rightarrow> SpatialConfig \<Rightarrow> SpatialConfig result" where
  "setDepthThresholds lower upper c =
     (if lower \<ge> upper then Inl (InvalidArgument ''Lower threshold must be less than upper threshold'')
      else Inr (c\<lparr>globalLowerThreshold := lower, globalUpperThreshold := upper\<rparr>))"

definition setStepSize :: "int \<Rightarrow> SpatialConfig \<Rightarrow> SpatialConfig result" where
  "setStepSize stepSize c =
     (if stepSize < -1 \<or> stepSize = 0 then Inl (InvalidArgument ''Step size must be -1 (AUTO) or a positive integer.'')
      else Inr (c\<lparr>globalStepSize := stepSize\<rparr>))"

definition setKeypointRadius :: "int \<Rightarrow> SpatialConfig \<Rightarrow> SpatialConfig result" where
  "setKeypointRadius radius c =
     (if radius \<le> 0 then Inl (InvalidArgument ''Keypoint radius must be positive'') else Inr (c\<lparr>globalKeypointRadius := radius\<rparr>))"

definition setBoundingBoxScaleFactor :: "real \<Rightarrow> SpatialConfig \<Rightarrow> SpatialConfig result" where
  "setBoundingBoxScaleFactor factor c =
     (if factor \<le> 0 then Inl (InvalidArgument ''Scale factor must be larger than 0.'') else Inr (c\<lparr>bBoxScaleFactor := factor\<rparr>))"

definition setCalculationAlgorithm :: "SpatialLocationCalculatorAlgorithm \<Rightarrow> SpatialConfig \<Rightarrow> SpatialConfig" where
  "setCalculationAlgorithm algo c = c\<lparr>globalAlgorithm := algo\<rparr>"

definition setCalculateSpatialKeypoints :: "bool \<Rightarrow> SpatialConfig \<Rightarrow> SpatialConfig" where
  "setCalculateSpatialKeypoints b c = c\<lparr>calculateSpatialKeypoints := b\<rparr>"

definition setUseSegmentation :: "bool \<Rightarrow> SpatialConfig \<Rightarrow> SpatialConfig" where
  "setUseSegmentation b c = c\<lparr>useSegmentation := b\<rparr>"

definition setSegmentationPassthrough :: "bool \<Rightarrow> SpatialConfig \<Rightarrow> SpatialConfig" where
  "setSegmentationPassthrough b c = c\<lparr>segmentationPassthrough := b\<rparr>"

text \<open>A conversion of an unsigned number of 32 bits to a signed one, and the thresholds as they are returned.\<close>

definition to_int32 :: "int \<Rightarrow> int" where
  "to_int32 u = (if u < 2 ^ 31 then u else u - 2 ^ 32)"

definition getDepthThresholds :: "SpatialConfig \<Rightarrow> int \<times> int" where
  "getDepthThresholds c = (to_int32 (int (globalLowerThreshold c)), to_int32 (int (globalUpperThreshold c)))"

text \<open>The step as an unsigned number; the regions of interest convert it back to a signed one.\<close>

definition getStepSize :: "int \<Rightarrow> SpatialLocationCalculatorAlgorithm \<Rightarrow> int" where
  "getStepSize stepSize algo =
     (if stepSize = AUTO_STEP then (if algo = DEPTH_MODE \<or> algo = DEPTH_MEDIAN then 2 else 1) else stepSize mod 2 ^ 32)"

lemma accepted_step:
  assumes "setStepSize step c = Inr c'" and "step < 2 ^ 31"
  shows "0 < getStepSize (globalStepSize c') algo"
  using assms by (auto simp: setStepSize_def getStepSize_def AUTO_STEP_def split: if_splits)

section \<open>Regions\<close>

record depth_frame =
  df_width :: int
  df_height :: int
  df_plane :: "16 word list"
  df_transformation :: ImgTransformation

definition calculateSpatialCoordinates :: "real \<Rightarrow> real matrix \<Rightarrow> real \<times> real \<Rightarrow> real Point3f" where
  "calculateSpatialCoordinates z K center =
     (let fx = K!0!0; fy = K!1!1; cx = K!0!2; cy = K!1!2
      in \<lparr>p_x = (fst center - cx) * z / fx, p_y = (snd center - cy) * z / fy, p_z = z\<rparr>)"

definition clampPoint :: "real \<times> real \<Rightarrow> int \<Rightarrow> int \<Rightarrow> real \<times> real" where
  "clampPoint p w h = (min (max 0 (fst p)) (of_int w), min (max 0 (snd p)) (of_int h))"

definition clampRectCorners :: "real \<times> real \<Rightarrow> real \<times> real \<Rightarrow> int \<Rightarrow> int \<Rightarrow> int \<times> int \<times> int \<times> int" where
  "clampRectCorners p q w h =
     (let tl = clampPoint p (w - 1) (h - 1); br = clampPoint q w h
      in (min (max 0 (truncated (fst tl))) w, min (max 0 (truncated (snd tl))) h,
          min (max 0 (truncated (fst br))) w, min (max 0 (truncated (snd br))) h))"

text \<open>The values of a loop from \<open>a\<close> below \<open>b\<close> with a positive step, and the pixels of a region in the order of the two loops.\<close>

definition steps :: "int \<Rightarrow> int \<Rightarrow> int \<Rightarrow> int list" where
  "steps a b s = map (\<lambda>k. a + int k * s) [0..<nat ((b - a + s - 1) div s)]"

definition grid :: "int \<times> int \<times> int \<times> int \<Rightarrow> int \<Rightarrow> (int \<times> int) list" where
  "grid corners s = (case corners of (xstart, ystart, xend, yend) \<Rightarrow> concat (map (\<lambda>y. map (\<lambda>x. (x, y)) (steps xstart xend s)) (steps ystart yend s)))"

definition read_pixel :: "depth_frame \<Rightarrow> int \<Rightarrow> (16 word) result" where
  "read_pixel f idx =
     (if 0 \<le> idx \<and> nat idx < length (df_plane f) then Inr (df_plane f ! nat idx) else Inl (UndefinedBehaviour ''pixel outside of the plane''))"

definition visit :: "depth_frame \<Rightarrow> (int \<Rightarrow> int \<Rightarrow> bool result) \<Rightarrow> int \<times> int \<Rightarrow> DepthStats \<Rightarrow> DepthStats result" where
  "visit f keep p s =
     (case p of (x, y) \<Rightarrow> bindR (read_pixel f (y * df_width f + x)) (\<lambda>px. bindR (keep x y) (\<lambda>b. Inr (if b then addPixel px s else s))))"

definition read_region :: "depth_frame \<Rightarrow> int \<times> int \<times> int \<times> int \<Rightarrow> int \<Rightarrow> (int \<Rightarrow> int \<Rightarrow> bool result) \<Rightarrow> DepthStats \<Rightarrow> DepthStats result" where
  "read_region f corners s keep stats =
     (case corners of (xstart, ystart, xend, yend) \<Rightarrow>
        if s \<le> 0 \<and> (ystart < yend \<or> s = 0)
        then Inl (UndefinedBehaviour ''step that is not positive'')
        else if s \<le> 0 then Inr stats
        else foldR (visit f keep) (grid corners s) stats)"

definition populateDepthStats :: "depth_frame \<Rightarrow> DepthStats \<Rightarrow> Rect2f \<Rightarrow> int \<Rightarrow> (int \<Rightarrow> int \<Rightarrow> bool result) \<Rightarrow> DepthStats result" where
  "populateDepthStats f stats r s keep =
     (case rect_outer r of (minx, maxx, miny, maxy) \<Rightarrow>
        read_region f (clampRectCorners (minx, miny) (maxx, maxy) (df_width f) (df_height f)) s keep stats)"

section \<open>Regions of interest\<close>

text \<open>The fields for mode and median of a location are never set. The default location carries a default configuration, \<open>None\<close>.\<close>

record SpatialLocation =
  sl_config :: "ConfigData option"
  sl_depthAverage :: real
  sl_depthMin :: nat
  sl_depthMax :: nat
  sl_pixelCount :: nat
  sl_coordinates :: "real Point3f"

definition SpatialLocation_default :: SpatialLocation where
  "SpatialLocation_default =
     \<lparr>sl_config = None, sl_depthAverage = 0, sl_depthMin = 0, sl_depthMax = 0, sl_pixelCount = 0,
      sl_coordinates = \<lparr>p_x = 0, p_y = 0, p_z = 0\<rparr>\<rparr>"

definition step_too_large :: "int \<Rightarrow> int \<Rightarrow> int \<Rightarrow> cpp_error" where
  "step_too_large s w h =
     InvalidArgument (''Step size '' @ dec_int s @ '' is too large for depth frame size '' @ dec_int w @ ''x'' @ dec_int h @
       ''. It must be less than half of the depth frame dimensions.'')"

definition location_of :: "depth_frame \<Rightarrow> ConfigData \<Rightarrow> SpatialLocation result" where
  "location_of f cfg =
     (let w = df_width f; h = df_height f; roi = cfg_roi cfg; algo = cfg_algorithm cfg; s = to_int32 (getStepSize (cfg_stepSize cfg) algo)
      in if s \<ge> w div 2 \<or> s \<ge> h div 2 then Inl (step_too_large s w h)
         else
           (let maxW = (if isNormalized_Rect roi then 1 else of_int w); maxH = (if isNormalized_Rect roi then 1 else of_int h)
            in if rc_x roi + rc_width roi > maxW \<or> rc_y roi + rc_height roi > maxH then Inr SpatialLocation_default
               else
                 (let d = denormalize_Rect roi w h;
                      corners = clampRectCorners (topLeft d) (bottomRight d) w h
                  in bindR (read_region f corners s (\<lambda>_ _. Inr True) (DepthStats_new (cfg_lowerThreshold cfg) (cfg_upperThreshold cfg))) (\<lambda>stats.
                       Inr \<lparr>sl_config = Some cfg, sl_depthAverage = calculateDepth stats DEPTH_AVERAGE, sl_depthMin = ds_min stats,
                            sl_depthMax = ds_max stats, sl_pixelCount = ds_counter stats,
                            sl_coordinates = calculateSpatialCoordinates (calculateDepth stats algo) (getIntrinsicMatrix (df_transformation f))
                               (rc_x d + rc_width d / 2, rc_y d + rc_height d / 2)\<rparr>))))"

definition computeSpatialData :: "depth_frame \<Rightarrow> ConfigData list \<Rightarrow> SpatialLocation list result" where
  "computeSpatialData f cfgs =
     (if cfgs = [] then Inr []
      else if \<not> isValid (df_transformation f)
      then Inl (RuntimeError ''DepthFrame has invalid Image Transformations. Cannot get intrinsic matrix.'')
      else mapR (location_of f) cfgs)"

section \<open>Detections\<close>

text \<open>
  A detection with its position; of a keypoint list only the points are set. The mask of the instances is the list of its
  bytes, empty when it is not there or not used.
\<close>

record SpatialDetection =
  sd_label :: u32
  sd_labelName :: string
  sd_confidence :: real
  sd_boundingBox :: RotatedRect
  sd_coordinates :: "real Point3f"
  sd_keypoints :: "(Keypoint \<times> real Point3f) list option"
  sd_mapping :: ConfigData

definition getBoundingBox :: "ImgDetection \<Rightarrow> RotatedRect result" where
  "getBoundingBox d =
     (case det_boundingBox d of
        Some r \<Rightarrow> Inr r
      | None \<Rightarrow>
          if det_xmin d = 0 \<and> det_xmax d = 0 \<and> det_ymin d = 0 \<and> det_ymax d = 0
          then Inl (RuntimeError ''All bounding box values are zero, no bounding box can be built.'')
          else Inr (rect_between (det_xmin d, det_ymin d) (det_xmax d, det_ymax d)))"

definition getKeypoints :: "ImgDetection \<Rightarrow> Keypoint list" where
  "getKeypoints d = (case det_keypoints d of None \<Rightarrow> [] | Some (ks, _) \<Rightarrow> ks)"

definition scaleRect :: "Rect2f \<Rightarrow> real \<Rightarrow> Rect2f" where
  "scaleRect r factor = r\<lparr>r_size := (r_size r)\<lparr>sz_width := sz_width (r_size r) * factor, sz_height := sz_height (r_size r) * factor\<rparr>\<rparr>"

record seg_mask =
  mask_bytes :: bytes
  mask_width :: int
  mask_height :: int

text \<open>Whether a pixel of the depth image belongs to the instance of a detection.\<close>

definition usePixelSeg :: "seg_mask \<Rightarrow> bool \<Rightarrow> ImgTransformation \<Rightarrow> ImgTransformation \<Rightarrow> int \<Rightarrow> int \<Rightarrow> int \<Rightarrow> bool result" where
  "usePixelSeg m aligned detT depthT instance_index x y =
     (if mask_bytes m = [] then Inr True
      else bindR (if aligned then Inr (of_int x, of_int y)
                  else bindR (remapPointTo detT depthT (point (of_int x) (of_int y))) (\<lambda>q.
                    Inr (clampPoint (pt_x q, pt_y q) (mask_width m - 1) (mask_height m - 1)))) (\<lambda>pt.
        (let idx = truncated (snd pt) * mask_width m + truncated (fst pt)
         in if 0 \<le> idx \<and> nat idx < length (mask_bytes m) then Inr (uint (mask_bytes m ! nat idx) = instance_index)
            else Inl (UndefinedBehaviour ''pixel outside of the mask''))))"

definition object_box :: "bool \<Rightarrow> fit \<Rightarrow> ImgTransformation \<Rightarrow> depth_frame \<Rightarrow> Rect2f \<Rightarrow> Rect2f result" where
  "object_box aligned fit detT f scaled =
     bindR (if aligned then Inr scaled else remapRectTo fit detT (df_transformation f) scaled) (\<lambda>r.
       denormalize_rect r (df_width f) (df_height f) False)"

text \<open>Back from a point of the depth image to the image of the detections.\<close>

definition detection_point :: "bool \<Rightarrow> ImgTransformation \<Rightarrow> depth_frame \<Rightarrow> Point2f \<Rightarrow> (real \<times> real) result" where
  "detection_point aligned detT f p =
     bindR (if aligned then Inr p else remapPointTo (df_transformation f) detT p) (\<lambda>q. Inr (pt_x q, pt_y q))"

definition useKpPixel :: "real \<Rightarrow> real \<Rightarrow> int \<Rightarrow> (int \<Rightarrow> int \<Rightarrow> bool result) \<Rightarrow> int \<Rightarrow> int \<Rightarrow> bool result" where
  "useKpPixel kpx kpy radius keep x y =
     (if sqrt ((kpx - of_int x)\<^sup>2 + (kpy - of_int y)\<^sup>2) \<le> of_int radius then keep x y else Inr False)"

definition spatial_keypoint ::
  "depth_frame \<Rightarrow> SpatialConfig \<Rightarrow> bool \<Rightarrow> ImgTransformation \<Rightarrow> (int \<Rightarrow> int \<Rightarrow> bool result) \<Rightarrow> Keypoint \<Rightarrow> (Keypoint \<times> real Point3f) result" where
  "spatial_keypoint f c aligned detT keep kp =
     (let kpx = kp_x kp * of_int (df_width f); kpy = kp_y kp * of_int (df_height f); radius = globalKeypointRadius c;
          r = \<lparr>r_center = flagged_point kpx kpy False, r_size = flagged_size (of_int (radius * 2)) (of_int (radius * 2)) False, r_angle = 0\<rparr>
      in bindR (populateDepthStats f (DepthStats_new (globalLowerThreshold c) (globalUpperThreshold c)) r 1 (useKpPixel kpx kpy radius keep)) (\<lambda>stats.
         bindR (detection_point aligned detT f (point kpx kpy)) (\<lambda>center.
           Inr (kp, calculateSpatialCoordinates (calculateDepth stats (globalAlgorithm c)) (getIntrinsicMatrix detT) center))))"

definition computeSpatialDetection ::
  "fit \<Rightarrow> depth_frame \<Rightarrow> seg_mask \<Rightarrow> SpatialConfig \<Rightarrow> ImgTransformation \<Rightarrow> int \<Rightarrow> ImgDetection \<Rightarrow> SpatialDetection result" where
  "computeSpatialDetection fit f m c detT i d =
     (let s = getStepSize (globalStepSize c) (globalAlgorithm c); depthT = df_transformation f; aligned = isAlignedTo detT depthT;
          keep = usePixelSeg m aligned detT depthT i
      in bindR (getBoundingBox d) (\<lambda>bb.
         let scaled = scaleRect (rect2f_of bb) (bBoxScaleFactor c)
         in bindR (object_box aligned fit detT f scaled) (\<lambda>r.
            bindR (populateDepthStats f (DepthStats_new (globalLowerThreshold c) (globalUpperThreshold c)) r s keep) (\<lambda>stats.
            bindR (detection_point aligned detT f (r_center r)) (\<lambda>center.
            bindR (if calculateSpatialKeypoints c
                   then bindR (mapR (spatial_keypoint f c aligned detT keep) (getKeypoints d)) (\<lambda>ks. Inr (Some ks)) else Inr None) (\<lambda>ks.
              Inr \<lparr>sd_label = det_label d, sd_labelName = det_labelName d, sd_confidence = det_confidence d, sd_boundingBox = bb,
                   sd_coordinates = calculateSpatialCoordinates (calculateDepth stats (globalAlgorithm c)) (getIntrinsicMatrix detT) center,
                   sd_keypoints = ks,
                   sd_mapping = \<lparr>cfg_roi = Rect_of_rotated scaled, cfg_lowerThreshold = globalLowerThreshold c,
                      cfg_upperThreshold = globalUpperThreshold c, cfg_algorithm = globalAlgorithm c, cfg_stepSize = AUTO_STEP\<rparr>\<rparr>))))))"

record img_detections =
  ids_detections :: "ImgDetection list"
  ids_mask :: seg_mask
  ids_transformation :: "ImgTransformation option"

definition computeSpatialDetections :: "fit \<Rightarrow> depth_frame \<Rightarrow> SpatialConfig \<Rightarrow> img_detections \<Rightarrow> SpatialDetection list result" where
  "computeSpatialDetections fit f c ds =
     (case ids_transformation ds of
        None \<Rightarrow> Inl (RuntimeError ''No transformation set on ImgDetections. Cannot compute spatial coordinates.'')
      | Some detT \<Rightarrow>
          if \<not> isValid detT
          then Inl (RuntimeError ''ImgDetections has invalid Image Transformations. Cannot map segmentation mask to depth frame.'')
          else if \<not> isValid (df_transformation f)
          then Inl (RuntimeError ''DepthFrame has invalid Image Transformations. Cannot map segmentation mask to depth frame.'')
          else if ids_detections ds = [] then Inr []
          else
            (let s = getStepSize (globalStepSize c) (globalAlgorithm c);
                 m = (if useSegmentation c then ids_mask ds else (ids_mask ds)\<lparr>mask_bytes := []\<rparr>)
             in if s \<ge> df_width f div 2 \<or> s \<ge> df_height f div 2 then Inl (step_too_large s (df_width f) (df_height f))
                else mapR (\<lambda>(i, d). computeSpatialDetection fit f m c detT i d) (zip (map int [0..<length (ids_detections ds)]) (ids_detections ds))))"

section \<open>A turn of the node\<close>

text \<open>
  The node keeps its configuration. A turn takes a configuration, when there is one, a depth image (\<open>None\<close> for a
  message that is none) and, when that input is connected, detections (\<open>None\<close> also for a message that is none); it sends the
  detections with their positions and the mask they pass on, the locations, and the depth image. Sequence number and timestamps of a
  message are its marks, of the type \<open>'m\<close>, which are copied.
\<close>

record 'm spatial_out =
  so_detections :: "(SpatialDetection list \<times> seg_mask \<times> ImgTransformation option) \<times> 'm option"
  so_locations :: "SpatialLocation list \<times> 'm"

definition no_mask :: seg_mask where
  "no_mask = \<lparr>mask_bytes = [], mask_width = 0, mask_height = 0\<rparr>"

definition spatial_turn ::
  "fit \<Rightarrow> SpatialConfig \<Rightarrow> SpatialConfig option \<Rightarrow> (depth_frame \<times> bool \<times> 'm) option \<Rightarrow> (img_detections \<times> 'm) option \<Rightarrow>
   (SpatialConfig \<times> 'm spatial_out option) result" where
  "spatial_turn fit c new frame dets =
     (let c' = (case new of None \<Rightarrow> c | Some n \<Rightarrow> n)
      in case frame of
           None \<Rightarrow> Inr (c', None)
         | Some (f, raw16, marks) \<Rightarrow>
             if \<not> raw16 then Inr (c', None)
             else bindR (if sc_config c' = [] then Inr [] else computeSpatialData f (sc_config c')) (\<lambda>locs.
               bindR (case dets of
                        None \<Rightarrow> Inr (([], no_mask, None), None)
                      | Some (ds, dmarks) \<Rightarrow> bindR (computeSpatialDetections fit f c' ds) (\<lambda>sds.
                          Inr ((sds, if segmentationPassthrough c' \<and> mask_bytes (ids_mask ds) \<noteq> [] then ids_mask ds else no_mask,
                                ids_transformation ds), Some dmarks))) (\<lambda>dout.
                 Inr (c', Some \<lparr>so_detections = dout, so_locations = (locs, marks)\<rparr>))))"

section \<open>Every pixel that is read exists\<close>

lemma steps_in:
  assumes "0 < s" and "x \<in> set (steps a b s)"
  shows "a \<le> x \<and> x < b"
proof -
  from assms(2) obtain k where k: "k < nat ((b - a + s - 1) div s)" "x = a + int k * s" by (auto simp: steps_def)
  then have "int k + 1 \<le> (b - a + s - 1) div s" by simp
  then have "(int k + 1) * s \<le> (b - a + s - 1) div s * s" using assms(1) by (intro mult_right_mono) auto
  also have "\<dots> \<le> b - a + s - 1" using div_mult_mod_eq [of "b - a + s - 1" s] pos_mod_sign [OF assms(1), of "b - a + s - 1"] by linarith
  finally have "int k * s < b - a" by (simp add: distrib_right)
  then show ?thesis using k(2) assms(1) by simp
qed

lemma clamp_corners:
  assumes "0 < w" and "0 < h" and "clampRectCorners p q w h = (xs, ys, xe, ye)"
  shows "0 \<le> xs \<and> 0 \<le> ys \<and> xe \<le> w \<and> ye \<le> h"
  using assms by (auto simp: clampRectCorners_def Let_def)

lemma grid_inside:
  assumes "0 < w" and "0 < h" and "0 < s" and "(x, y) \<in> set (grid (clampRectCorners p q w h) s)"
  shows "0 \<le> x \<and> x < w \<and> 0 \<le> y \<and> y < h"
proof -
  obtain xs ys xe ye where c: "clampRectCorners p q w h = (xs, ys, xe, ye)" by (metis prod_cases4)
  from assms(4) have "x \<in> set (steps xs xe s)" "y \<in> set (steps ys ye s)" by (auto simp: c grid_def)
  from steps_in [OF assms(3) this(1)] steps_in [OF assms(3) this(2)] clamp_corners [OF assms(1,2) c] show ?thesis by linarith
qed

text \<open>A depth image whose plane has a value for every pixel.\<close>

definition full_frame :: "depth_frame \<Rightarrow> bool" where
  "full_frame f \<longleftrightarrow> 0 < df_width f \<and> 0 < df_height f \<and> int (length (df_plane f)) = df_width f * df_height f"

definition pixel_at :: "depth_frame \<Rightarrow> int \<times> int \<Rightarrow> 16 word" where
  "pixel_at f p = df_plane f ! nat (snd p * df_width f + fst p)"

lemma read_pixel_ok:
  assumes "full_frame f" and "0 \<le> x" "x < df_width f" "0 \<le> y" "y < df_height f"
  shows "read_pixel f (y * df_width f + x) = Inr (pixel_at f (x, y))"
proof -
  have "(y + 1) * df_width f \<le> df_height f * df_width f" using assms by (intro mult_right_mono) (auto simp: full_frame_def)
  then have "y * df_width f + x < df_width f * df_height f" using assms(3) by (simp add: algebra_simps)
  moreover have "0 \<le> y * df_width f + x" using assms by (simp add: full_frame_def)
  ultimately show ?thesis using assms(1) by (simp add: read_pixel_def pixel_at_def full_frame_def nat_less_iff)
qed

lemma foldR_visit:
  assumes "full_frame f" and "\<forall>(x, y) \<in> set ps. 0 \<le> x \<and> x < df_width f \<and> 0 \<le> y \<and> y < df_height f \<and> keep x y = Inr (k (x, y))"
  shows "foldR (visit f keep) ps stats = Inr (addPixels (map (pixel_at f) (filter k ps)) stats)"
  using assms(2)
proof (induction ps arbitrary: stats)
  case (Cons p ps)
  obtain x y where p: "p = (x, y)" by fastforce
  from Cons.prems p have "0 \<le> x" "x < df_width f" "0 \<le> y" "y < df_height f" "keep x y = Inr (k (x, y))" by auto
  with read_pixel_ok [OF assms(1) this(1-4)] have "visit f keep p stats = Inr (if k p then addPixel (pixel_at f p) stats else stats)"
    by (simp add: visit_def p)
  with Cons show ?case by (simp add: addPixels_def)
qed (simp add: addPixels_def)

lemma read_region_ok:
  assumes "full_frame f" and "0 < s"
    and "\<And>x y. 0 \<le> x \<Longrightarrow> x < df_width f \<Longrightarrow> 0 \<le> y \<Longrightarrow> y < df_height f \<Longrightarrow> keep x y = Inr (k (x, y))"
  shows "read_region f (clampRectCorners p q (df_width f) (df_height f)) s keep stats =
     Inr (addPixels (map (pixel_at f) (filter k (grid (clampRectCorners p q (df_width f) (df_height f)) s))) stats)"
proof -
  have wh: "0 < df_width f" "0 < df_height f" using assms(1) by (simp_all add: full_frame_def)
  have "\<forall>(x, y) \<in> set (grid (clampRectCorners p q (df_width f) (df_height f)) s).
      0 \<le> x \<and> x < df_width f \<and> 0 \<le> y \<and> y < df_height f \<and> keep x y = Inr (k (x, y))"
    using grid_inside [OF wh assms(2)] assms(3) by blast
  from foldR_visit [OF assms(1) this] show ?thesis
    using assms(2) by (auto simp: read_region_def split: prod.splits)
qed

section \<open>The locations of the regions of interest\<close>

text \<open>The valid depths of the pixels that are read for a region.\<close>

definition roi_step :: "ConfigData \<Rightarrow> int" where
  "roi_step cfg = to_int32 (getStepSize (cfg_stepSize cfg) (cfg_algorithm cfg))"

definition roi_depths :: "depth_frame \<Rightarrow> ConfigData \<Rightarrow> nat list" where
  "roi_depths f cfg =
     (let d = denormalize_Rect (cfg_roi cfg) (df_width f) (df_height f)
      in valid_of (cfg_lowerThreshold cfg) (cfg_upperThreshold cfg)
           (map (pixel_at f) (grid (clampRectCorners (topLeft d) (bottomRight d) (df_width f) (df_height f)) (roi_step cfg))))"

definition roi_outside :: "depth_frame \<Rightarrow> Rect \<Rightarrow> bool" where
  "roi_outside f roi \<longleftrightarrow>
     rc_x roi + rc_width roi > (if isNormalized_Rect roi then 1 else of_int (df_width f)) \<or>
     rc_y roi + rc_height roi > (if isNormalized_Rect roi then 1 else of_int (df_height f))"

definition roi_center :: "depth_frame \<Rightarrow> Rect \<Rightarrow> real \<times> real" where
  "roi_center f roi =
     (let d = denormalize_Rect roi (df_width f) (df_height f) in (rc_x d + rc_width d / 2, rc_y d + rc_height d / 2))"

definition usable_step :: "depth_frame \<Rightarrow> ConfigData \<Rightarrow> bool" where
  "usable_step f cfg \<longleftrightarrow> 0 < roi_step cfg \<and> roi_step cfg < df_width f div 2 \<and> roi_step cfg < df_height f div 2"

text \<open>The point of a depth image at which a position is seen.\<close>

definition seen_at :: "real matrix \<Rightarrow> real Point3f \<Rightarrow> real \<times> real" where
  "seen_at K p = (K!0!0 * (p_x p / p_z p) + K!0!2, K!1!1 * (p_y p / p_z p) + K!1!2)"

lemma coordinates_seen:
  assumes "z \<noteq> 0" and "K!0!0 \<noteq> 0" and "K!1!1 \<noteq> 0"
  shows "seen_at K (calculateSpatialCoordinates z K c) = c"
  using assms by (cases c) (simp add: seen_at_def calculateSpatialCoordinates_def Let_def)

lemma coordinates_z [simp]: "p_z (calculateSpatialCoordinates z K c) = z"
  by (simp add: calculateSpatialCoordinates_def Let_def)

definition roi_stats :: "depth_frame \<Rightarrow> ConfigData \<Rightarrow> DepthStats" where
  "roi_stats f cfg =
     (let d = denormalize_Rect (cfg_roi cfg) (df_width f) (df_height f)
      in addPixels (map (pixel_at f) (grid (clampRectCorners (topLeft d) (bottomRight d) (df_width f) (df_height f)) (roi_step cfg)))
           (DepthStats_new (cfg_lowerThreshold cfg) (cfg_upperThreshold cfg)))"

lemma roi_stats_of: "stats_of (cfg_lowerThreshold cfg) (cfg_upperThreshold cfg) (roi_depths f cfg) (roi_stats f cfg)"
  by (simp add: roi_stats_def roi_depths_def Let_def addPixels_stats)

lemma location_of_ok:
  assumes "full_frame f" and "usable_step f cfg"
  shows "location_of f cfg = Inr (if roi_outside f (cfg_roi cfg) then SpatialLocation_default
     else \<lparr>sl_config = Some cfg, sl_depthAverage = calculateDepth (roi_stats f cfg) DEPTH_AVERAGE, sl_depthMin = ds_min (roi_stats f cfg),
        sl_depthMax = ds_max (roi_stats f cfg), sl_pixelCount = ds_counter (roi_stats f cfg),
        sl_coordinates = calculateSpatialCoordinates (calculateDepth (roi_stats f cfg) (cfg_algorithm cfg))
           (getIntrinsicMatrix (df_transformation f)) (roi_center f (cfg_roi cfg))\<rparr>)"
proof -
  have s: "0 < roi_step cfg" "\<not> (roi_step cfg \<ge> df_width f div 2 \<or> roi_step cfg \<ge> df_height f div 2)"
    using assms(2) by (auto simp: usable_step_def)
  note region = read_region_ok [OF assms(1) s(1), where keep = "\<lambda>_ _. Inr True" and k = "\<lambda>_. True", OF refl]
  show ?thesis
    using s unfolding location_of_def Let_def roi_step_def [symmetric] region
    by (simp add: roi_outside_def roi_stats_def roi_center_def Let_def)
qed

text \<open>
  C29. For a depth image that has all its pixels, the locations of the regions of interest are computed: there is one for each
  configuration, no pixel outside of the image is read, and a region that leaves the image gives the default location. For any other
  region the depth is 0 when no pixel that is read is valid; otherwise it lies between the smallest and the largest of the valid ones,
  which are strictly between the thresholds, and the position is the one that is seen at the middle of the region.
\<close>

theorem spatial_data_computed:
  assumes "full_frame f" and "isValid (df_transformation f)" and "\<forall>cfg \<in> set cfgs. usable_step f cfg"
    and "getIntrinsicMatrix (df_transformation f)!0!0 \<noteq> 0" and "getIntrinsicMatrix (df_transformation f)!1!1 \<noteq> 0"
  shows "\<exists>locs. computeSpatialData f cfgs = Inr locs \<and> list_all2 (\<lambda>cfg l.
     if roi_outside f (cfg_roi cfg) then l = SpatialLocation_default
     else sl_config l = Some cfg \<and> sl_pixelCount l = length (roi_depths f cfg) \<and>
       (\<forall>z \<in> set (roi_depths f cfg). cfg_lowerThreshold cfg < z \<and> z < cfg_upperThreshold cfg) \<and>
       (if roi_depths f cfg = [] then sl_coordinates l = \<lparr>p_x = 0, p_y = 0, p_z = 0\<rparr>
        else of_nat (sl_depthMin l) \<le> p_z (sl_coordinates l) \<and> p_z (sl_coordinates l) \<le> of_nat (sl_depthMax l) \<and>
          sl_depthMin l = Min (set (roi_depths f cfg)) \<and> sl_depthMax l = Max (set (roi_depths f cfg)) \<and>
          seen_at (getIntrinsicMatrix (df_transformation f)) (sl_coordinates l) = roi_center f (cfg_roi cfg))) cfgs locs"
    (is "\<exists>locs. _ \<and> list_all2 ?P cfgs locs")
proof -
  have each: "\<exists>l. location_of f cfg = Inr l \<and> ?P cfg l" if "cfg \<in> set cfgs" for cfg
  proof (cases "roi_outside f (cfg_roi cfg)")
    case True
    with that location_of_ok [OF assms(1), of cfg] assms(3) show ?thesis by auto
  next
    case False
    let ?z = "calculateDepth (roi_stats f cfg) (cfg_algorithm cfg)"
    note st = roi_stats_of [of cfg f]
    have ends: "\<forall>z \<in> set (roi_depths f cfg). cfg_lowerThreshold cfg < z \<and> z < cfg_upperThreshold cfg" using st by (simp add: stats_of_def)
    have d: "if roi_depths f cfg = [] then ?z = 0
      else of_nat (Min (set (roi_depths f cfg))) \<le> ?z \<and> ?z \<le> of_nat (Max (set (roi_depths f cfg))) \<and> of_nat (cfg_lowerThreshold cfg) < ?z"
      using depth_bounds unfolding roi_stats_def roi_depths_def Let_def by (smt (verit))
    have "?P cfg \<lparr>sl_config = Some cfg, sl_depthAverage = calculateDepth (roi_stats f cfg) DEPTH_AVERAGE, sl_depthMin = ds_min (roi_stats f cfg),
        sl_depthMax = ds_max (roi_stats f cfg), sl_pixelCount = ds_counter (roi_stats f cfg),
        sl_coordinates = calculateSpatialCoordinates ?z (getIntrinsicMatrix (df_transformation f)) (roi_center f (cfg_roi cfg))\<rparr>"
    proof (cases "roi_depths f cfg = []")
      case True
      with False d st show ?thesis by (simp add: stats_of_def calculateSpatialCoordinates_def Let_def)
    next
      case some: False
      with d have "?z \<noteq> 0" by (smt (verit) of_nat_0_le_iff)
      note seen = coordinates_seen [OF this assms(4,5)]
      have "ds_counter (roi_stats f cfg) = length (roi_depths f cfg)" using st by (simp add: stats_of_def)
      then show ?thesis using False some d ends stats_Min_Max [OF st some] by (simp del: Min_le Max_ge add: seen)
    qed
    with False that location_of_ok [OF assms(1), of cfg] assms(3) show ?thesis by auto
  qed
  then obtain g where g: "\<And>cfg. cfg \<in> set cfgs \<Longrightarrow> location_of f cfg = Inr (g cfg) \<and> ?P cfg (g cfg)" by metis
  have "computeSpatialData f cfgs = Inr (map g cfgs)"
    using assms(2) g mapR_total [of cfgs "location_of f" g] by (simp add: computeSpatialData_def)
  moreover have "list_all2 ?P cfgs (map g cfgs)" unfolding list_all2_map2 list_all2_same using g by blast
  ultimately show ?thesis by blast
qed

definition sample_depth :: depth_frame where
  "sample_depth = \<lparr>df_width = 6, df_height = 6, df_plane = replicate 36 1000, df_transformation = sample_camera\<rparr>"

definition sample_roi :: ConfigData where
  "sample_roi = \<lparr>cfg_roi = Rect_of 0 0 6 6, cfg_lowerThreshold = 100, cfg_upperThreshold = 65535, cfg_algorithm = DEPTH_MEDIAN, cfg_stepSize = -1\<rparr>"

lemma sample_camera_matrix: "getIntrinsicMatrix sample_camera = aff 100 0 50 0 100 25"
  by (simp add: getIntrinsicMatrix_def sample_camera_def ImgTransformation_sizes_def ImgTransformation_default_def unit3_def aff_def
      matMulArray_def upt3)

lemma sample_depth_full: "full_frame sample_depth"
  by (simp add: full_frame_def sample_depth_def)

lemma sample_roi_step: "roi_step sample_roi = 2"
  by (simp add: roi_step_def sample_roi_def getStepSize_def to_int32_def AUTO_STEP_def)

theorem spatial_data_computed_witness:
  "\<exists>locs. computeSpatialData sample_depth [sample_roi] = Inr locs \<and> map sl_pixelCount locs = [9]"
proof -
  have steps: "steps 0 6 2 = [0, 2, 4]" by (simp add: steps_def upt_rec)
  have roi: "cfg_roi sample_roi = Rect_of 0 0 6 6" "cfg_lowerThreshold sample_roi = 100" "cfg_upperThreshold sample_roi = 65535"
    by (simp_all add: sample_roi_def)
  have n: "\<not> isNormalized_Rect (Rect_of 0 0 6 6)" by (simp add: isNormalized_Rect_def Rect_of_def)
  have inside: "\<not> roi_outside sample_depth (cfg_roi sample_roi)"
    unfolding roi roi_outside_def using n by (simp add: Rect_of_def sample_depth_def)
  have corners: "clampRectCorners (0, 0) (6, 6) 6 6 = (0, 0, 6, 6)"
    by (simp add: clampRectCorners_def clampPoint_def truncated_def)
  have px: "pixel_at sample_depth (x, y) = 1000" if "0 \<le> y * 6 + x" "y * 6 + x < 36" for x y
    using that by (simp add: pixel_at_def sample_depth_def nat_less_iff)
  have wh: "df_width sample_depth = 6" "df_height sample_depth = 6" by (simp_all add: sample_depth_def)
  have "grid (0, 0, 6, 6) 2 = [(0, 0), (2, 0), (4, 0), (0, 2), (2, 2), (4, 2), (0, 4), (2, 4), (4, 4)]" by (simp add: grid_def steps)
  then have "map (pixel_at sample_depth) (grid (0, 0, 6, 6) 2) = [1000, 1000, 1000, 1000, 1000, 1000, 1000, 1000, 1000]"
    by (simp add: px)
  then have d: "length (roi_depths sample_depth sample_roi) = 9"
    using n unfolding roi_depths_def Let_def roi sample_roi_step wh
    by (simp add: denormalize_Rect_def topLeft_def bottomRight_def Rect_of_def corners valid_of_def)
  have K: "getIntrinsicMatrix (df_transformation sample_depth) = aff 100 0 50 0 100 25" by (simp add: sample_depth_def sample_camera_matrix)
  have "isValid (df_transformation sample_depth)" by (simp add: sample_depth_def isValid_def sample_camera_def ImgTransformation_sizes_def)
  moreover have "\<forall>cfg \<in> set [sample_roi]. usable_step sample_depth cfg" by (simp add: usable_step_def sample_roi_step sample_depth_def)
  ultimately obtain locs where locs: "computeSpatialData sample_depth [sample_roi] = Inr locs"
    and all: "list_all2 (\<lambda>cfg l. sl_pixelCount l = length (roi_depths sample_depth cfg)) [sample_roi] locs"
    using spatial_data_computed [OF sample_depth_full, of "[sample_roi]"] inside by (auto simp: K aff_def list_all2_Cons1)
  then show ?thesis using d by (auto simp: list_all2_Cons1)
qed

section \<open>The positions of detections\<close>

text \<open>
  The frames are aligned here: a pixel of the depth image is the same pixel of the mask. \<open>box_depths\<close> are the valid
  depths of the pixels that are read for a box and belong to the instance.
\<close>

definition used_mask :: "SpatialConfig \<Rightarrow> img_detections \<Rightarrow> seg_mask" where
  "used_mask c ds = (if useSegmentation c then ids_mask ds else (ids_mask ds)\<lparr>mask_bytes := []\<rparr>)"

definition mask_covers :: "seg_mask \<Rightarrow> depth_frame \<Rightarrow> bool" where
  "mask_covers m f \<longleftrightarrow>
     mask_bytes m = [] \<or> mask_width m = df_width f \<and> int (length (mask_bytes m)) = df_width f * df_height f"

definition in_instance :: "seg_mask \<Rightarrow> int \<Rightarrow> int \<times> int \<Rightarrow> bool" where
  "in_instance m i p \<longleftrightarrow> mask_bytes m = [] \<or> uint (mask_bytes m ! nat (snd p * mask_width m + fst p)) = i"

definition box_depths :: "depth_frame \<Rightarrow> SpatialConfig \<Rightarrow> Rect2f \<Rightarrow> int \<Rightarrow> (int \<times> int \<Rightarrow> bool) \<Rightarrow> nat list" where
  "box_depths f c r s k =
     (case rect_outer r of (minx, maxx, miny, maxy) \<Rightarrow>
        valid_of (globalLowerThreshold c) (globalUpperThreshold c)
          (map (pixel_at f) (filter k (grid (clampRectCorners (minx, miny) (maxx, maxy) (df_width f) (df_height f)) s))))"

lemma usePixelSeg_aligned:
  assumes "full_frame f" and "mask_covers m f" and "0 \<le> x" "x < df_width f" "0 \<le> y" "y < df_height f"
  shows "usePixelSeg m True detT depthT i x y = Inr (in_instance m i (x, y))"
proof (cases "mask_bytes m = []")
  case False
  with assms(2) have m: "mask_width m = df_width f" "int (length (mask_bytes m)) = df_width f * df_height f" by (auto simp: mask_covers_def)
  have "(y + 1) * df_width f \<le> df_height f * df_width f" using assms by (intro mult_right_mono) (auto simp: full_frame_def)
  then have "y * df_width f + x < df_width f * df_height f" using assms(4) by (simp add: algebra_simps)
  moreover have "0 \<le> y * df_width f + x" using assms by (simp add: full_frame_def)
  ultimately show ?thesis using False m by (simp add: usePixelSeg_def in_instance_def truncated_def nat_less_iff Let_def)
qed (simp add: usePixelSeg_def in_instance_def)

lemma populate_ok:
  assumes "full_frame f" and "0 < s"
    and "\<And>x y. 0 \<le> x \<Longrightarrow> x < df_width f \<Longrightarrow> 0 \<le> y \<Longrightarrow> y < df_height f \<Longrightarrow> keep x y = Inr (k (x, y))"
  shows "\<exists>stats. populateDepthStats f (DepthStats_new (globalLowerThreshold c) (globalUpperThreshold c)) r s keep = Inr stats \<and>
     stats_of (globalLowerThreshold c) (globalUpperThreshold c) (box_depths f c r s k) stats \<and>
     (\<forall>algo. if box_depths f c r s k = [] then calculateDepth stats algo = 0
       else of_nat (Min (set (box_depths f c r s k))) \<le> calculateDepth stats algo \<and>
         calculateDepth stats algo \<le> of_nat (Max (set (box_depths f c r s k))) \<and> of_nat (globalLowerThreshold c) < calculateDepth stats algo)"
proof -
  obtain a b e d where o: "rect_outer r = (a, b, e, d)" by (metis prod_cases4)
  let ?ws = "map (pixel_at f) (filter k (grid (clampRectCorners (a, e) (b, d) (df_width f) (df_height f)) s))"
  have "populateDepthStats f (DepthStats_new (globalLowerThreshold c) (globalUpperThreshold c)) r s keep =
      Inr (addPixels ?ws (DepthStats_new (globalLowerThreshold c) (globalUpperThreshold c)))"
    using read_region_ok [OF assms(1,2), where keep = keep and k = k] assms(3) by (simp add: populateDepthStats_def o)
  moreover have "box_depths f c r s k = valid_of (globalLowerThreshold c) (globalUpperThreshold c) ?ws" by (simp add: box_depths_def o)
  ultimately show ?thesis
    using addPixels_stats [of "globalLowerThreshold c" "globalUpperThreshold c" ?ws]
      depth_bounds [of "globalLowerThreshold c" "globalUpperThreshold c" ?ws] by (smt (verit))
qed

text \<open>What a position says of its depths and of the point at which it is seen.\<close>

definition position_ok :: "real matrix \<Rightarrow> nat list \<Rightarrow> real \<times> real \<Rightarrow> real Point3f \<Rightarrow> bool" where
  "position_ok K depths ctr p \<longleftrightarrow>
     (if depths = [] then p = \<lparr>p_x = 0, p_y = 0, p_z = 0\<rparr>
      else of_nat (Min (set depths)) \<le> p_z p \<and> p_z p \<le> of_nat (Max (set depths)) \<and> seen_at K p = ctr)"

lemma position_okI:
  assumes "if depths = [] then z = 0 else of_nat (Min (set depths)) \<le> z \<and> z \<le> of_nat (Max (set depths)) \<and> of_nat lower < z"
    and "K!0!0 \<noteq> 0" and "K!1!1 \<noteq> 0"
  shows "position_ok K depths ctr (calculateSpatialCoordinates z K ctr)"
proof (cases "depths = []")
  case True
  with assms(1) show ?thesis by (simp add: position_ok_def calculateSpatialCoordinates_def Let_def)
next
  case False
  with assms(1) have z: "of_nat (Min (set depths)) \<le> z" "z \<le> of_nat (Max (set depths))" "z \<noteq> 0" by (auto simp del: Min_le Max_ge)
  note seen = coordinates_seen [OF z(3) assms(2,3)]
  show ?thesis using False z(1,2) unfolding position_ok_def seen coordinates_z by simp
qed

definition keypoint_box :: "depth_frame \<Rightarrow> SpatialConfig \<Rightarrow> Keypoint \<Rightarrow> Rect2f" where
  "keypoint_box f c kp =
     \<lparr>r_center = flagged_point (kp_x kp * of_int (df_width f)) (kp_y kp * of_int (df_height f)) False,
      r_size = flagged_size (of_int (globalKeypointRadius c * 2)) (of_int (globalKeypointRadius c * 2)) False, r_angle = 0\<rparr>"

definition near_keypoint :: "depth_frame \<Rightarrow> SpatialConfig \<Rightarrow> Keypoint \<Rightarrow> int \<times> int \<Rightarrow> bool" where
  "near_keypoint f c kp p \<longleftrightarrow>
     sqrt ((kp_x kp * of_int (df_width f) - of_int (fst p))\<^sup>2 + (kp_y kp * of_int (df_height f) - of_int (snd p))\<^sup>2) \<le> of_int (globalKeypointRadius c)"

lemma keypoint_ok:
  assumes "full_frame f" and "mask_covers m f" and "getIntrinsicMatrix detT!0!0 \<noteq> 0" and "getIntrinsicMatrix detT!1!1 \<noteq> 0"
  shows "\<exists>p. spatial_keypoint f c True detT (usePixelSeg m True detT depthT i) kp = Inr (kp, p) \<and>
     position_ok (getIntrinsicMatrix detT) (box_depths f c (keypoint_box f c kp) 1 (\<lambda>p. near_keypoint f c kp p \<and> in_instance m i p))
       (kp_x kp * of_int (df_width f), kp_y kp * of_int (df_height f)) p"
proof -
  let ?keep = "useKpPixel (kp_x kp * of_int (df_width f)) (kp_y kp * of_int (df_height f)) (globalKeypointRadius c) (usePixelSeg m True detT depthT i)"
  let ?k = "\<lambda>p. near_keypoint f c kp p \<and> in_instance m i p"
  have keep: "?keep x y = Inr (?k (x, y))" if "0 \<le> x" "x < df_width f" "0 \<le> y" "y < df_height f" for x y
    using usePixelSeg_aligned [OF assms(1,2) that] by (simp add: useKpPixel_def near_keypoint_def)
  from populate_ok [where f = f and s = 1 and keep = ?keep and k = ?k and c = c and r = "keypoint_box f c kp", OF assms(1) zero_less_one keep]
  obtain stats where
    stats: "populateDepthStats f (DepthStats_new (globalLowerThreshold c) (globalUpperThreshold c)) (keypoint_box f c kp) 1 ?keep = Inr stats"
    and d: "\<forall>algo. if box_depths f c (keypoint_box f c kp) 1 ?k = [] then calculateDepth stats algo = 0
       else of_nat (Min (set (box_depths f c (keypoint_box f c kp) 1 ?k))) \<le> calculateDepth stats algo \<and>
         calculateDepth stats algo \<le> of_nat (Max (set (box_depths f c (keypoint_box f c kp) 1 ?k))) \<and>
         of_nat (globalLowerThreshold c) < calculateDepth stats algo" by blast
  have "spatial_keypoint f c True detT (usePixelSeg m True detT depthT i) kp =
      Inr (kp, calculateSpatialCoordinates (calculateDepth stats (globalAlgorithm c)) (getIntrinsicMatrix detT)
        (kp_x kp * of_int (df_width f), kp_y kp * of_int (df_height f)))"
    using stats by (simp add: spatial_keypoint_def keypoint_box_def detection_point_def point_def Let_def)
  with position_okI [OF d [THEN spec] assms(3,4)] show ?thesis by blast
qed

definition detection_box :: "depth_frame \<Rightarrow> SpatialConfig \<Rightarrow> RotatedRect \<Rightarrow> Rect2f" where
  "detection_box f c bb =
     (let scaled = scaleRect (rect2f_of bb) (bBoxScaleFactor c)
      in if rr_normalized bb
         then scaled\<lparr>r_center := flagged_point (rr_x bb * of_int (df_width f)) (rr_y bb * of_int (df_height f)) False,
                r_size := flagged_size (rr_width bb * bBoxScaleFactor c * of_int (df_width f)) (rr_height bb * bBoxScaleFactor c * of_int (df_height f)) False\<rparr>
         else scaled)"

lemma object_box_aligned:
  assumes "full_frame f"
  shows "object_box True fit detT f (scaleRect (rect2f_of bb) (bBoxScaleFactor c)) = Inr (detection_box f c bb)"
  using assms by (simp add: object_box_def denormalize_rect_def detection_box_def scaleRect_def rect2f_of_def isNormalized_rect_def
      isNormalized_size_def isNormalized_point_def flagged_point_def flagged_size_def full_frame_def Let_def)

text \<open>What is right for a detection with the box \<open>bb\<close> and its position.\<close>

definition detection_ok :: "depth_frame \<Rightarrow> SpatialConfig \<Rightarrow> ImgTransformation \<Rightarrow> seg_mask \<Rightarrow> int \<Rightarrow> ImgDetection \<Rightarrow> SpatialDetection \<Rightarrow> bool" where
  "detection_ok f c detT m i d o' \<longleftrightarrow>
     sd_label o' = det_label d \<and> sd_confidence o' = det_confidence d \<and> getBoundingBox d = Inr (sd_boundingBox o') \<and>
     position_ok (getIntrinsicMatrix detT)
       (box_depths f c (detection_box f c (sd_boundingBox o')) (getStepSize (globalStepSize c) (globalAlgorithm c)) (in_instance m i))
       (pt_x (r_center (detection_box f c (sd_boundingBox o'))), pt_y (r_center (detection_box f c (sd_boundingBox o')))) (sd_coordinates o') \<and>
     (case sd_keypoints o' of
        None \<Rightarrow> \<not> calculateSpatialKeypoints c
      | Some ks \<Rightarrow> calculateSpatialKeypoints c \<and> map fst ks = getKeypoints d \<and>
          (\<forall>(kp, p) \<in> set ks. position_ok (getIntrinsicMatrix detT)
             (box_depths f c (keypoint_box f c kp) 1 (\<lambda>p. near_keypoint f c kp p \<and> in_instance m i p))
             (kp_x kp * of_int (df_width f), kp_y kp * of_int (df_height f)) p))"

lemma computeSpatialDetection_ok:
  assumes "full_frame f" and "mask_covers m f" and "isAlignedTo detT (df_transformation f)"
    and K: "getIntrinsicMatrix detT!0!0 \<noteq> 0" "getIntrinsicMatrix detT!1!1 \<noteq> 0"
    and s: "0 < getStepSize (globalStepSize c) (globalAlgorithm c)" and bb: "getBoundingBox d = Inr bb"
  shows "\<exists>out. computeSpatialDetection fit f m c detT i d = Inr out \<and> detection_ok f c detT m i d out"
proof -
  let ?keep = "usePixelSeg m True detT (df_transformation f) i" and ?box = "detection_box f c bb"
  let ?s = "getStepSize (globalStepSize c) (globalAlgorithm c)"
  let ?ds = "box_depths f c ?box ?s (in_instance m i)"
  note keep = usePixelSeg_aligned [OF assms(1,2), where detT = detT and depthT = "df_transformation f" and i = i]
  from populate_ok [where f = f and s = ?s and keep = ?keep and k = "in_instance m i" and c = c and r = ?box, OF assms(1) s keep]
  obtain stats where
    stats: "populateDepthStats f (DepthStats_new (globalLowerThreshold c) (globalUpperThreshold c)) ?box ?s ?keep = Inr stats"
    and d: "\<forall>algo. if ?ds = [] then calculateDepth stats algo = 0
       else of_nat (Min (set ?ds)) \<le> calculateDepth stats algo \<and> calculateDepth stats algo \<le> of_nat (Max (set ?ds)) \<and>
         of_nat (globalLowerThreshold c) < calculateDepth stats algo" by blast
  from keypoint_ok [OF assms(1,2) K, of c "df_transformation f" i]
  obtain g where g: "\<And>kp. spatial_keypoint f c True detT ?keep kp = Inr (kp, g kp) \<and>
     position_ok (getIntrinsicMatrix detT) (box_depths f c (keypoint_box f c kp) 1 (\<lambda>p. near_keypoint f c kp p \<and> in_instance m i p))
       (kp_x kp * of_int (df_width f), kp_y kp * of_int (df_height f)) (g kp)" by metis
  have ks: "mapR (spatial_keypoint f c True detT ?keep) (getKeypoints d) = Inr (map (\<lambda>kp. (kp, g kp)) (getKeypoints d))"
    by (rule mapR_total) (use g in blast)
  let ?c = "(pt_x (r_center ?box), pt_y (r_center ?box))"
  let ?out = "\<lparr>sd_label = det_label d, sd_labelName = det_labelName d, sd_confidence = det_confidence d, sd_boundingBox = bb,
     sd_coordinates = calculateSpatialCoordinates (calculateDepth stats (globalAlgorithm c)) (getIntrinsicMatrix detT) ?c,
     sd_keypoints = (if calculateSpatialKeypoints c then Some (map (\<lambda>kp. (kp, g kp)) (getKeypoints d)) else None),
     sd_mapping = \<lparr>cfg_roi = Rect_of_rotated (scaleRect (rect2f_of bb) (bBoxScaleFactor c)), cfg_lowerThreshold = globalLowerThreshold c,
        cfg_upperThreshold = globalUpperThreshold c, cfg_algorithm = globalAlgorithm c, cfg_stepSize = AUTO_STEP\<rparr>\<rparr>"
  have "computeSpatialDetection fit f m c detT i d = Inr ?out"
    unfolding computeSpatialDetection_def Let_def bb using assms(3) ks
    by (simp add: object_box_aligned [OF assms(1)] stats detection_point_def)
  moreover have "detection_ok f c detT m i d ?out"
    unfolding detection_ok_def using bb position_okI [OF d [THEN spec] K] g by (simp add: comp_def)
  ultimately show ?thesis by blast
qed


definition sample_detections :: img_detections where
  "sample_detections =
     \<lparr>ids_detections = [\<lparr>det_label = 3, det_labelName = ''cup'', det_confidence = 1 / 2, det_xmin = 0, det_ymin = 0, det_xmax = 1 / 2, det_ymax = 1,
        det_boundingBox = None, det_keypoints = None\<rparr>],
      ids_mask = \<lparr>mask_bytes = replicate 36 0, mask_width = 6, mask_height = 6\<rparr>, ids_transformation = Some sample_camera\<rparr>"


section \<open>What is not checked\<close>

text \<open>A step of 0 in a region of interest passes every check and is undefined behaviour.\<close>

lemma zero_step_is_undefined:
  "\<exists>e. location_of sample_depth (sample_roi\<lparr>cfg_stepSize := 0\<rparr>) = Inl (UndefinedBehaviour e)"
proof -
  obtain xs ys xe ye where c: "clampRectCorners (topLeft (denormalize_Rect (Rect_of 0 0 6 6) 6 6)) (bottomRight (denormalize_Rect (Rect_of 0 0 6 6) 6 6)) 6 6
    = (xs, ys, xe, ye)" by (metis prod_cases4)
  show ?thesis
    by (simp add: location_of_def Let_def sample_depth_def sample_roi_def getStepSize_def AUTO_STEP_def to_int32_def c read_region_def)
      (simp add: Rect_of_def isNormalized_Rect_def)
qed

text \<open>A mask that is smaller than the depth image is read behind its end.\<close>

lemma mask_size_not_checked:
  "\<exists>e. usePixelSeg \<lparr>mask_bytes = [0, 0, 0, 0], mask_width = 2, mask_height = 2\<rparr> True sample_camera sample_camera 0 5 5 = Inl (UndefinedBehaviour e)"
  by (simp add: usePixelSeg_def truncated_def Let_def)

end
