(* ===== verification/Spec2Isabelle.thy ===== *)
theory Spec2Isabelle
  imports
    Prelude Datatypes LockingQueue MessageQueue EventDispatcher CircularBuffer Assets
    NodeGraph Pipeline Bridging StreamMessages Transport SyncNode GateNode H26x
    EventAggregation Matrices Calibration ExtrinsicGraph
    LinearAssignment AssignmentReduction AssignmentPaths RectangularAssignment
    KalmanFilter TrackerAssociation ObjectTracker TrackLifecycle TrackCount
    Tensors DetectionDecoding DetectionParser ImageTransformations SpatialLocations
begin

text \<open>
  DepthAI is a C++ library for pipelines of nodes that exchange messages, some of them on a camera
  device and some on the host. This development models the host side: how a pipeline is put
  together and cut into its host and device parts, how messages are queued, grouped and sent over
  the link between the two, and how some host nodes treat them.

  The parts and how they meet. A \<^emph>\<open>pipeline\<close> owns a tree of \<^emph>\<open>nodes\<close>, each with \<^emph>\<open>inputs\<close> and
  \<^emph>\<open>outputs\<close>; a connection is recorded at the node of its input, and the output keeps a list of the
  queues it sends to. Every input is a \<^emph>\<open>message queue\<close>, which is a monitor (\<^emph>\<open>locking queue\<close>) with
  callbacks and notifiers; \<open>waitAny\<close> and \<open>getAny\<close> wait on several. Building the pipeline replaces
  every connection between host and device by a pair of XLink nodes, which write messages to a
  stream of packets and read them back. Queues and nodes report events to the \<^emph>\<open>event dispatcher\<close>,
  which computes averages in \<^emph>\<open>circular buffers\<close>. \<^emph>\<open>Assets\<close> are the binary data of the pipeline and
  its nodes, serialized beside the schema. \<open>Sync\<close>, \<open>MessageDemux\<close>, \<open>Gate\<close> and the \<^emph>\<open>aggregation\<close> of the
  pipeline events are host nodes over all this. The \<^emph>\<open>calibration handler\<close> stands beside the pipeline: the
  data of the cameras of a device and the transformations between them.

  Theories, in the order of their dependence.

  \<^item> \<open>Prelude\<close>: the exceptions of the code as the datatype \<open>cpp_error\<close>, the result type \<open>'a result\<close>
  (\<open>Inl\<close> for a thrown exception, an exit or undefined behaviour) with \<open>bindR\<close> and the loops \<open>foldR\<close> and
  \<open>anyR\<close>, machine integers, \<open>std::map\<close> behind the interface \<open>ordered_map\<close>, invariants of step
  relations behind \<open>invariant_system\<close>, decimal text.

  \<^item> \<open>Datatypes\<close> (pipeline/datatype/DatatypeEnum.cpp): the message classes, their codes, the hierarchy
  table and \<open>isDatatypeSubclassOf\<close>. The interface \<open>class_hierarchy\<close> gives that the recursive search
  decides the transitive closure of the table.

  \<^item> \<open>LockingQueue\<close> (include/depthai/utility/LockingQueue.hpp): the queue's fields are the record
  \<open>lqueue\<close>; a call is \<open>enter\<close> (what it does up to its wait) and \<open>resume\<close> (after the wait), and
  \<open>lq_step\<close> interleaves any number of threads, with spurious wakeups, timeouts and destruction.
  Theorems: no wakeup is lost while the bound is fixed and positive; a blocking queue is a bounded FIFO
  channel; destruction releases every waiting thread; a change of the bound can leave a thread asleep.

  \<^item> \<open>MessageQueue\<close> (pipeline/MessageQueue.cpp, include/depthai/utility/WaitAnyNotifier.hpp): the record
  \<open>mqueue\<close> around \<open>lqueue\<close>; sends and receives return the new state, the effects (callbacks,
  notifications, events) and a result. Interface \<open>channel\<close>: a non-blocking queue is a window on the
  newest messages. Theorems on \<open>waitAny\<close>, \<open>getAny\<close> and closed queues.

  \<^item> \<open>EventDispatcher\<close> (utility/PipelineEventDispatcher.cpp): starts, ends and pings of events by key; the
  events sent for a key are bracketed and numbered; the scope of a block event.

  \<^item> \<open>CircularBuffer\<close> (include/depthai/utility/CircularBuffer.hpp): the buffer with its iterators and the
  averaging buffer, behind the interface \<open>window\<close>.

  \<^item> \<open>Assets\<close> (pipeline/AssetManager.cpp, parts of pipeline/Pipeline.cpp): the asset manager as an
  ordered map, serialization with alignment, reading back, resource URIs.

  \<^item> \<open>NodeGraph\<close> (pipeline/Node.cpp): the store of nodes, ports and queues is the record \<open>graph\<close>, with
  references for the pointers of the code; \<open>link\<close>, \<open>unlink\<close>, \<open>canConnect\<close>, sending, removing, the tree
  of nodes and the generated names. Link and unlink refine adding and removing an edge.

  \<^item> \<open>Pipeline\<close> (pipeline/Pipeline.cpp): ids, adding node trees, connection maps, the schema.

  \<^item> \<open>Bridging\<close> (the build step of pipeline/Pipeline.cpp): XLink pairs for the crossing connections and
  host queues; after it every connection stays on one side, and the schema is accepted.

  \<^item> \<open>StreamMessages\<close> (pipeline/datatype/StreamMessageParser.cpp, node/internal/XLinkInHost.cpp,
  node/internal/XLinkOutHost.cpp, xlink/XLinkStream.cpp): packets, headers, messages with their data,
  the receiver and the sender. The state of the sender is the record \<open>out_link\<close> (the calls made
  and the size of the stream buffer); the receiver runs over the list of packets on the stream.

  \<^item> \<open>Transport\<close>: what is sent is received (interface \<open>framed_stream\<close>, interpreted on sender and
  receiver), nested groups, split writes, packetized messages.

  \<^item> \<open>SyncNode\<close> (pipeline/node/Sync.cpp, pipeline/node/MessageDemux.cpp,
  pipeline/datatype/MessageGroup.cpp): groups, the rounds of Sync and of the demultiplexer.

  \<^item> \<open>GateNode\<close> (pipeline/node/Gate.cpp): commands, counting, waiting and pacing over message queues.

  \<^item> \<open>H26x\<close> (utility/H26xParsers.cpp): the scan of video streams for slice types.

  \<^item> \<open>EventAggregation\<close> (pipeline/node/internal/PipelineEventAggregation.cpp): the record
  \<open>NodeEventAggregation\<close> with its circular buffers; matching ends with starts, the statistics, the
  handler over all nodes, the filtered state message and the loop of the node.

  \<^item> \<open>Matrices\<close> (utility/matrixOps.cpp): products and inverses over any field, rigid motions.

  \<^item> \<open>Calibration\<close> (device/CalibrationHandler.cpp): the record \<open>EepromData\<close>, the walks along the links of
  the cameras as partial functions, the validation of their graph, getters and setters. Every walk
  that is used returns.

  \<^item> \<open>ExtrinsicGraph\<close>: what the validation accepts, chains through all cameras, composition of the
  transformations, the setter on cyclic data.

  \<^item> \<open>LinearAssignment\<close> (utility/ObjectTrackerImpl.cpp): the Jonker-Volgenant solver, over any ordered
  field. \<open>AssignmentReduction\<close> shows that the column reduction keeps prices feasible,
  \<open>AssignmentPaths\<close> that the search for augmenting paths ends and gives an optimal matching,
  \<open>RectangularAssignment\<close> states this of \<open>lapjv_internal\<close> and of rectangular costs in \<open>execLapjv\<close>.

  \<^item> \<open>KalmanFilter\<close> (same file): the filters of a track as the record \<open>kf\<close> and the box tracker around
  them; whatever happens to it the covariances stay symmetric and positive semidefinite.

  \<^item> \<open>TrackerAssociation\<close> (same file): overlaps, scores and the rounds of association over \<open>execLapjv\<close>;
  detections and tracks are paired or left over, each once.

  \<^item> \<open>ObjectTracker\<close> (same file and pipeline/node/ObjectTracker.cpp): the records \<open>class_state\<close>,
  \<open>shared\<close> and \<open>tracker_state\<close>, a frame, the configuration, a turn of the node. \<open>TrackLifecycle\<close>: the
  status machine, distinct ids and the continuation of tracklets over any turns; \<open>TrackCount\<close>: the
  counter of tracks, when it is right and where it is not.

  \<^item> \<open>Tensors\<close> (include/depthai/common/TensorInfo.hpp, pipeline/datatype/NNData.cpp and its header,
  pipeline/utilities/NNDataViewer.hpp): descriptions of tensors, adding them to a message and reading them back,
  the plan of a change of order, and the view of the detection parser, which reads the same elements.

  \<^item> \<open>DetectionDecoding\<close> (pipeline/utilities/DetectionParser/DetectionParserUtils.cpp): the decoders of five families of
  networks as one function per cell, layer and message, non-maximum suppression, the detections and their keypoints.
  \<open>DetectionParser\<close> (pipeline/node/DetectionParser.cpp): the node, and what every detection it reports satisfies.

  \<^item> \<open>CameraExtrinsics\<close> (pipeline/datatype/Extrinsics.cpp): the pose of the camera of an image and the transformation
  between two poses. \<open>LensModel\<close> (pipeline/utilities/Alignment/AlignmentUtilities.cpp): distortion and its numerical
  inverse. \<open>ImageTransformations\<close> (pipeline/datatype/ImgTransformations.cpp): the record \<open>ImgTransformation\<close> with the matrix
  from the source to the frame and its inverse; crops, paddings, flips, rotations and scalings, which keep the two inverse
  to each other; remapping between the images of two cameras, which can be undone; fields of view, crops and masks.

  \<^item> \<open>DepthStatistics\<close> (pipeline/utilities/SpatialLocationCalculator/SpatialUtils.cpp): the valid pixels of a region of
  a depth image as the record \<open>DepthStats\<close> and the depth by five algorithms; the two ways to the mode agree.
  \<open>SpatialLocations\<close> (same file, pipeline/node/SpatialLocationCalculator.cpp, pipeline/datatype/SpatialLocationCalculatorConfig.cpp):
  the configuration, the positions of regions of interest, detections and keypoints, and a turn of the node; no pixel
  outside of the image is read, and a position is seen where its region is.

  Bounds and fuel. \<open>readData_fuel\<close> takes as fuel one more than the number of packets; \<open>fuel_enough\<close>
  shows that more changes nothing, because every message read takes a packet. The loops of Sync
  and of the H.26x scan are total functions with a measure (frames waiting, bytes left); a split write
  is a partial function and the theorem says when it has a value. A reader that would block is the
  value \<open>Waiting\<close> or \<open>Waits\<close>. The searches that undo a distortion run 50 and 40 rounds at most, as in the code. \<open>getNode\<close> and the walk over the node tree recurse on the tree. Sizes and
  offsets of assets and packets are 32-bit words; where the model uses natural or whole numbers
  (positions in a video stream, timestamps, the attempt counter of Sync, sequence numbers) its theory
  says so.

  The costs of the assignment solver are at most 200000 in size, well below the 1000000 that it takes for
  infinity. Its search loops are partial functions, and the theorem says that they return.

  Parameters. The object serializer (libnop), the XLink calls, the contents of shared memory, the
  iteration order of \<open>std::unordered_map\<close> and the schedules of the threads are arguments of the
  definitions; what the code relies on of the first two is \<open>message_link\<close>, and an instance of it is
  part of \<open>Transport\<close>. For the detection parser they are the conversions of floating-point formats, the sorting
  of the standard library and the drawing of the segmentation mask by OpenCV; for the images it is the fit of the smallest rectangle
  around points (utility/OCVPorts.cpp, a port of OpenCV). For the tracker they are the matrix inverse of Eigen and the remapping of boxes between
  image frames.

  Not modelled. Device discovery, booting and flashing (src/device), the XLink library and the
  sockets: input and output to hardware. The device nodes whose work is done by firmware that is not
  in the repository. The image kernels (utility/ImageManipImpl.cpp and the GPU and OpenCV code):
  floating-point arithmetic. Record and replay, protobuf and JSON conversion: files and generated
  code. Of the modelled parts: log output and time measurements, the reconnection loops of the XLink
  nodes, global properties and calibration in the schema, starting and stopping the threads of the
  nodes, the frame rates of the event aggregation, rounding in the matrices of the calibration, in the
  tracker, in the detection parser and in the geometry of images (the model computes in an exact field, for the last three in the real
  numbers). The
  reader of compiled networks (src/openvino) and the messages that carry images are not modelled.
\<close>

end
